(* ===== verification/Prelude.thy ===== *)
theory Prelude
  imports Main "HOL-Library.Word"
begin

text \<open>
  Shared vocabulary of the development: buffers and their bytes, the exceptions the code
  throws, the state-and-exception monad in which the readers and writers are modelled, and
  the two specification predicates (\<open>reads\<close> and \<open>writes\<close>) that the
  component theories compose.  A JavaScript \<^verbatim>\<open>Buffer\<close> is a list of
  8-bit words; storing a number into a byte truncates it, which is what \<open>of_nat\<close>
  into \<open>8 word\<close> does.  JavaScript numbers and bigints that the code treats as
  unsigned are \<open>nat\<close>.
\<close>

unbundle bit_operations_syntax

type_synonym byte = "8 word"
type_synonym buffer = "byte list"

named_theorems io_simps \<open>one-step evaluation of the state-and-exception monad\<close>
named_theorems reads_intro \<open>composition rules for readers\<close>
named_theorems preserves_intro \<open>composition rules for what an operation leaves unchanged\<close>
named_theorems maintains_intro \<open>composition rules for the invariants that an operation maintains\<close>
named_theorems writes_intro \<open>composition rules for writers\<close>

section \<open>Exceptions and results\<close>

text \<open>
  One constructor per class of exception: the JavaScript built-ins, \<^verbatim>\<open>Error\<close>
  with its message, and \<^verbatim>\<open>BitcoinError\<close> with the name of its code.
\<close>

datatype exn =
    RangeError
  | TypeError
  | SyntaxError
  | AssertionError
  | JsError string
  | BitcoinError string

type_synonym 'a res = "exn + 'a"

definition bind_res :: "'a res \<Rightarrow> ('a \<Rightarrow> 'b res) \<Rightarrow> 'b res" where
  "bind_res m f = (case m of Inl e \<Rightarrow> Inl e | Inr x \<Rightarrow> f x)"

lemma bind_res_simps [simp]:
  "bind_res (Inl e) f = Inl e"
  "bind_res (Inr x) f = f x"
  by (simp_all add: bind_res_def)

lemma bind_res_eq_Inr:
  "bind_res m f = Inr y \<longleftrightarrow> (\<exists>x. m = Inr x \<and> f x = Inr y)"
  by (cases m) simp_all

text \<open>Using a value that may be \<^verbatim>\<open>undefined\<close>.\<close>

definition defined :: "'a option \<Rightarrow> 'a res" where
  "defined x = (case x of None \<Rightarrow> Inl TypeError | Some v \<Rightarrow> Inr v)"

lemma defined_simps [simp]: "defined None = Inl TypeError" "defined (Some v) = Inr v"
  by (simp_all add: defined_def)

lemma defined_Inr [simp]: "defined x = Inr v \<longleftrightarrow> x = Some v"
  by (cases x) simp_all

primrec map_res :: "('a \<Rightarrow> 'b res) \<Rightarrow> 'a list \<Rightarrow> 'b list res" where
  "map_res f [] = Inr []"
| "map_res f (x # xs) =
     bind_res (f x) (\<lambda>y. bind_res (map_res f xs) (\<lambda>ys. Inr (y # ys)))"

section \<open>State with exceptions\<close>

text \<open>
  An operation takes the state of its object and returns a result or an exception together
  with the state it leaves behind: what a method changed before it threw stays changed.
\<close>

type_synonym ('s, 'a) io = "'s \<Rightarrow> 'a res \<times> 's"

definition return_io :: "'a \<Rightarrow> ('s, 'a) io" where
  "return_io x = (\<lambda>s. (Inr x, s))"

definition throw_io :: "exn \<Rightarrow> ('s, 'a) io" where
  "throw_io e = (\<lambda>s. (Inl e, s))"

definition lift_io :: "'a res \<Rightarrow> ('s, 'a) io" where
  "lift_io r = (\<lambda>s. (r, s))"

definition update_io :: "('s \<Rightarrow> 's) \<Rightarrow> ('s, unit) io" where
  "update_io f = (\<lambda>s. (Inr (), f s))"

definition bind_io :: "('s, 'a) io \<Rightarrow> ('a \<Rightarrow> ('s, 'b) io) \<Rightarrow> ('s, 'b) io" where
  "bind_io m f = (\<lambda>s. case m s of (Inl e, s') \<Rightarrow> (Inl e, s') | (Inr x, s') \<Rightarrow> f x s')"

definition then_io :: "('s, unit) io \<Rightarrow> ('s, 'b) io \<Rightarrow> ('s, 'b) io" where
  "then_io m n = bind_io m (\<lambda>_. n)"

primrec repeat_io :: "nat \<Rightarrow> ('s, 'a) io \<Rightarrow> ('s, 'a list) io" where
  "repeat_io 0 m = return_io []"
| "repeat_io (Suc n) m =
     bind_io m (\<lambda>x. bind_io (repeat_io n m) (\<lambda>xs. return_io (x # xs)))"

primrec each_io :: "('a \<Rightarrow> ('s, unit) io) \<Rightarrow> 'a list \<Rightarrow> ('s, unit) io" where
  "each_io f [] = return_io ()"
| "each_io f (x # xs) = then_io (f x) (each_io f xs)"

lemma return_io_apply [io_simps]: "return_io x s = (Inr x, s)"
  by (simp add: return_io_def)

lemma throw_io_apply [io_simps]: "throw_io e s = (Inl e, s)"
  by (simp add: throw_io_def)

lemma lift_io_apply [io_simps]: "lift_io r s = (r, s)"
  by (simp add: lift_io_def)

lemma update_io_apply [io_simps]: "update_io f s = (Inr (), f s)"
  by (simp add: update_io_def)

lemma bind_io_apply [io_simps]:
  "bind_io m f s = (case m s of (Inl e, s') \<Rightarrow> (Inl e, s') | (Inr x, s') \<Rightarrow> f x s')"
  by (simp add: bind_io_def)

lemma then_io_apply [io_simps]:
  "then_io m n s = (case m s of (Inl e, s') \<Rightarrow> (Inl e, s') | (Inr x, s') \<Rightarrow> n s')"
  by (simp add: then_io_def bind_io_def)

section \<open>What an operation leaves unchanged\<close>

definition preserves :: "('s \<Rightarrow> 'x) \<Rightarrow> ('s, 'a) io \<Rightarrow> bool" where
  "preserves g m \<longleftrightarrow> (\<forall>s. g (snd (m s)) = g s)"

lemma preservesD: "preserves g m \<Longrightarrow> m s = (r, s') \<Longrightarrow> g s' = g s"
  by (metis preserves_def snd_conv)

lemma preserves_basic [preserves_intro]:
  "preserves g (return_io x)" "preserves g (throw_io e)" "preserves g (lift_io r)"
  by (simp_all add: preserves_def io_simps)

lemma preserves_bind [preserves_intro]:
  "preserves g m \<Longrightarrow> (\<And>x. preserves g (f x)) \<Longrightarrow> preserves g (bind_io m f)"
  by (auto simp: preserves_def io_simps split: prod.splits sum.splits) (metis snd_conv)+

lemma preserves_then [preserves_intro]: "preserves g m \<Longrightarrow> preserves g n \<Longrightarrow> preserves g (then_io m n)"
  unfolding then_io_def by (intro preserves_bind)

lemma preserves_update [preserves_intro]: "(\<And>s. g (f s) = g s) \<Longrightarrow> preserves g (update_io f)"
  by (simp add: preserves_def io_simps)

lemma preserves_state: "(\<And>s. preserves g (f s)) \<Longrightarrow> preserves g (\<lambda>s. f s s)"
  by (simp add: preserves_def)

lemma preserves_if [preserves_intro]:
  "preserves g m \<Longrightarrow> preserves g n \<Longrightarrow> preserves g (if b then m else n)"
  by simp

lemma preserves_prod [preserves_intro]: "(\<And>a b. preserves g (f a b)) \<Longrightarrow> preserves g (case p of (a, b) \<Rightarrow> f a b)"
  by (cases p) simp

lemma preserves_comp: "preserves g m \<Longrightarrow> preserves (\<lambda>s. h (g s)) m"
  by (simp add: preserves_def)

lemma preserves_option [preserves_intro]:
  "preserves g m \<Longrightarrow> (\<And>x. preserves g (f x)) \<Longrightarrow> preserves g (case v of None \<Rightarrow> m | Some x \<Rightarrow> f x)"
  by (cases v) simp_all

lemma preserves_each [preserves_intro]: "(\<And>x. preserves g (f x)) \<Longrightarrow> preserves g (each_io f xs)"
  by (induction xs) (auto intro: preserves_intro)

section \<open>Properties of objects\<close>

text \<open>
  Reading a property of the object, and one that may not be assigned yet: \<open>None\<close> is
  \<^verbatim>\<open>undefined\<close>, and using it is a \<^verbatim>\<open>TypeError\<close>.
\<close>

definition get_state :: "('s \<Rightarrow> 'a) \<Rightarrow> ('s, 'a) io" where
  "get_state f = (\<lambda>s. (Inr (f s), s))"

definition get_defined :: "('s \<Rightarrow> 'a option) \<Rightarrow> ('s, 'a) io" where
  "get_defined f = (\<lambda>s. (case f s of None \<Rightarrow> Inl TypeError | Some x \<Rightarrow> Inr x, s))"

lemma get_state_apply [io_simps]: "get_state f s = (Inr (f s), s)"
  by (simp add: get_state_def)

lemma get_defined_apply [io_simps]:
  "get_defined f s = (case f s of None \<Rightarrow> Inl TypeError | Some x \<Rightarrow> Inr x, s)"
  by (simp add: get_defined_def)

lemma preserves_get [preserves_intro]: "preserves g (get_state f)"
  by (simp add: preserves_def get_state_def)

lemma preserves_get_defined [preserves_intro]: "preserves g (get_defined f)"
  by (simp add: preserves_def get_defined_def)

section \<open>Invariants of operations\<close>

text \<open>An operation maintains an invariant, whether it returns or throws.\<close>

definition maintains :: "('s \<Rightarrow> bool) \<Rightarrow> ('s, 'a) io \<Rightarrow> bool" where
  "maintains I m \<longleftrightarrow> (\<forall>s. I s \<longrightarrow> I (snd (m s)))"

lemma maintainsD: "maintains I m \<Longrightarrow> I s \<Longrightarrow> m s = (r, s') \<Longrightarrow> I s'"
  by (metis maintains_def snd_conv)

lemma maintains_basic [maintains_intro]:
  "maintains I (return_io x)" "maintains I (throw_io e)" "maintains I (lift_io r)" "maintains I (get_state f)"
  "maintains I (get_defined g)"
  by (simp_all add: maintains_def io_simps)

lemma maintains_bind [maintains_intro]:
  "maintains I m \<Longrightarrow> (\<And>x. maintains I (f x)) \<Longrightarrow> maintains I (bind_io m f)"
  by (auto simp: maintains_def io_simps split: prod.splits sum.splits)

lemma maintains_then [maintains_intro]: "maintains I m \<Longrightarrow> maintains I n \<Longrightarrow> maintains I (then_io m n)"
  unfolding then_io_def by (intro maintains_bind)

lemma maintains_update [maintains_intro]: "(\<And>s. I s \<Longrightarrow> I (f s)) \<Longrightarrow> maintains I (update_io f)"
  by (simp add: maintains_def io_simps)

lemma maintains_each [maintains_intro]: "(\<And>x. maintains I (f x)) \<Longrightarrow> maintains I (each_io f xs)"
  by (induction xs) (auto intro: maintains_intro)

lemma maintains_state: "(\<And>s. I s \<Longrightarrow> I (snd (f s s))) \<Longrightarrow> maintains I (\<lambda>s. f s s)"
  by (simp add: maintains_def)

lemma maintains_if [maintains_intro]: "maintains I m \<Longrightarrow> maintains I n \<Longrightarrow> maintains I (if b then m else n)"
  by simp

lemma maintains_option [maintains_intro]:
  "maintains I m \<Longrightarrow> (\<And>x. maintains I (f x)) \<Longrightarrow> maintains I (case v of None \<Rightarrow> m | Some x \<Rightarrow> f x)"
  by (cases v) simp_all

section \<open>What it means to read and to write a byte string\<close>

text \<open>
  \<open>reads good content m bs v\<close>: from any good state whose unread content starts with
  \<open>bs\<close>, the operation \<open>m\<close> returns \<open>v\<close>, leaves the state good and has consumed exactly \<open>bs\<close>.
\<close>

definition reads ::
  "('s \<Rightarrow> bool) \<Rightarrow> ('s \<Rightarrow> buffer) \<Rightarrow> ('s, 'a) io \<Rightarrow> buffer \<Rightarrow> 'a \<Rightarrow> bool" where
  "reads good content m bs v \<longleftrightarrow>
     (\<forall>s rest. good s \<and> content s = bs @ rest \<longrightarrow>
        (\<exists>s'. m s = (Inr v, s') \<and> good s' \<and> content s' = rest))"

lemma readsI:
  assumes "\<And>s rest. good s \<Longrightarrow> content s = bs @ rest \<Longrightarrow>
             \<exists>s'. m s = (Inr v, s') \<and> good s' \<and> content s' = rest"
  shows "reads good content m bs v"
  using assms by (auto simp: reads_def)

lemma readsE:
  assumes "reads good content m bs v" "good s" "content s = bs @ rest"
  obtains s' where "m s = (Inr v, s')" "good s'" "content s' = rest"
  using assms by (auto simp: reads_def)

lemma reads_return [reads_intro]: "reads good content (return_io v) [] v"
  by (auto simp: reads_def io_simps)

lemma reads_bind [reads_intro]:
  assumes "reads good content m bs x" "reads good content (f x) cs y"
  shows "reads good content (bind_io m f) (bs @ cs) y"
proof (rule readsI)
  fix s rest assume "good s" "content s = (bs @ cs) @ rest"
  then obtain s' where "m s = (Inr x, s')" "good s'" "content s' = cs @ rest"
    using assms(1) by (auto elim: readsE [where rest = "cs @ rest"])
  moreover from this assms(2) obtain s'' where "f x s' = (Inr y, s'')" "good s''" "content s'' = rest"
    by (auto elim: readsE)
  ultimately show "\<exists>s'. bind_io m f s = (Inr y, s') \<and> good s' \<and> content s' = rest"
    by (simp add: io_simps)
qed

lemma reads_bind_last:
  assumes "reads good content m bs x" "\<And>s. f x s = (Inr y, s)"
  shows "reads good content (bind_io m f) bs y"
  using reads_bind [OF assms(1), of f "[]" y] assms(2) by (simp add: reads_def)

lemma reads_repeat:
  assumes "\<And>x. x \<in> set xs \<Longrightarrow> reads good content m (enc x) x"
  shows "reads good content (repeat_io (length xs) m) (concat (map enc xs)) xs"
  using assms
proof (induction xs)
  case Nil
  show ?case by (simp add: reads_return)
next
  case (Cons x xs)
  then have "reads good content m (enc x) x"
    and "reads good content (repeat_io (length xs) m) (concat (map enc xs)) xs" by auto
  from reads_bind [OF this(1) reads_bind [OF this(2) reads_return]] show ?case
    by simp
qed

text \<open>
  \<open>writes good out room m bs\<close>: from any good state with enough room, \<open>m\<close> succeeds, appends
  exactly \<open>bs\<close> to what has been written, and uses up that much room.
\<close>

definition writes ::
  "('s \<Rightarrow> bool) \<Rightarrow> ('s \<Rightarrow> buffer) \<Rightarrow> ('s \<Rightarrow> nat) \<Rightarrow> ('s, unit) io \<Rightarrow> buffer \<Rightarrow> bool" where
  "writes good out room m bs \<longleftrightarrow>
     (\<forall>s. good s \<and> length bs \<le> room s \<longrightarrow>
        (\<exists>s'. m s = (Inr (), s') \<and> good s' \<and> out s' = out s @ bs
               \<and> room s' = room s - length bs))"

lemma writesI:
  assumes "\<And>s. good s \<Longrightarrow> length bs \<le> room s \<Longrightarrow>
     \<exists>s'. m s = (Inr (), s') \<and> good s' \<and> out s' = out s @ bs \<and> room s' = room s - length bs"
  shows "writes good out room m bs"
  using assms by (auto simp: writes_def)

lemma writesE:
  assumes "writes good out room m bs" "good s" "length bs \<le> room s"
  obtains s' where "m s = (Inr (), s')" "good s'" "out s' = out s @ bs"
    "room s' = room s - length bs"
  using assms by (auto simp: writes_def)

lemma writes_return [writes_intro]: "writes good out room (return_io ()) []"
  by (auto simp: writes_def io_simps)

lemma writes_then [writes_intro]:
  assumes "writes good out room m bs" "writes good out room n cs"
  shows "writes good out room (then_io m n) (bs @ cs)"
proof (rule writesI)
  fix s assume s: "good s" "length (bs @ cs) \<le> room s"
  then obtain s' where 1: "m s = (Inr (), s')" "good s'" "out s' = out s @ bs"
    "room s' = room s - length bs"
    using assms(1) by (auto elim: writesE)
  with s assms(2) obtain s'' where "n s' = (Inr (), s'')" "good s''" "out s'' = out s' @ cs"
    "room s'' = room s' - length cs"
    by (auto elim: writesE)
  with 1 show "\<exists>s'. then_io m n s = (Inr (), s') \<and> good s' \<and> out s' = out s @ bs @ cs \<and>
      room s' = room s - length (bs @ cs)"
    by (simp add: io_simps)
qed

lemma writes_each [writes_intro]:
  assumes "\<And>x. x \<in> set xs \<Longrightarrow> writes good out room (f x) (enc x)"
  shows "writes good out room (each_io f xs) (concat (map enc xs))"
  using assms by (induction xs) (auto intro!: writes_intro)

section \<open>Small facts about lists\<close>

lemma drop_append_exact: "drop n xs = ys @ zs \<Longrightarrow> drop (n + length ys) xs = zs"
  by (metis add.commute append_eq_conv_conj drop_drop)

lemma length_drop_append:
  assumes "drop n xs = ys @ zs" "ys \<noteq> []"
  shows "n + length ys + length zs = length xs"
proof -
  have "length xs - n = length ys + length zs"
    using arg_cong [OF assms(1), of length] by simp
  moreover have "0 < length ys" using assms(2) by simp
  ultimately show ?thesis by arith
qed


lemma xor_left_cancel [simp]: "a XOR b = a XOR c \<longleftrightarrow> b = (c :: 'a :: semiring_bit_operations)"
proof
  assume "a XOR b = a XOR c"
  then have "a XOR (a XOR b) = a XOR (a XOR c)" by simp
  then show "b = c" by (simp flip: xor.assoc)
qed simp

lemma xor_eq_0_iff: "a XOR b = 0 \<longleftrightarrow> a = (b :: 'a :: semiring_bit_operations)"
  using xor_left_cancel [of a b a] by auto

lemma length_concat_ge: "(\<And>x. x \<in> set xs \<Longrightarrow> enc x \<noteq> []) \<Longrightarrow> length xs \<le> length (concat (map enc xs))"
proof (induction xs)
  case (Cons x xs)
  then have "0 < length (enc x)" "length xs \<le> length (concat (map enc xs))" by simp_all
  then show ?case by (simp only: list.map concat.simps length_append list.size)
qed simp

end
