(* ===== verification/Bytes.thy ===== *)
theory Bytes
  imports Prelude
begin

text \<open>
  Numbers as byte strings: hexadecimal strings (as lists of digits), the conversions of
  \<^verbatim>\<open>bufio/lib/bigToBufBE.ts\<close> and its siblings, the byte count of
  \<^verbatim>\<open>lightning/lib/BigIntUtils.ts\<close>, and the little-endian reference functions
  \<open>le_bytes\<close> and \<open>le_val\<close> against which every codec of the development is specified.
\<close>

section \<open>Little-endian reference functions\<close>

primrec le_val :: "buffer \<Rightarrow> nat" where
  "le_val [] = 0"
| "le_val (b # bs) = unat b + 256 * le_val bs"

primrec le_bytes :: "nat \<Rightarrow> nat \<Rightarrow> buffer" where
  "le_bytes 0 v = []"
| "le_bytes (Suc n) v = of_nat v # le_bytes n (v div 256)"

definition be_val :: "buffer \<Rightarrow> nat" where
  "be_val bs = le_val (rev bs)"

definition be_bytes :: "nat \<Rightarrow> nat \<Rightarrow> buffer" where
  "be_bytes n v = rev (le_bytes n v)"

lemma unat_byte_less [simp]: "unat (b :: byte) < 256"
  using unsigned_less [of b, where ?'a = nat] by simp

lemma unat_of_nat_byte: "unat (of_nat v :: byte) = v mod 256"
  by (simp add: unat_of_nat)

lemma of_nat_unat_byte_add: "of_nat (unat (b :: byte) + 256 * k) = b"
  by (simp add: word_unat_eq_iff unat_of_nat_byte del: of_nat_add)

lemma length_le_bytes [simp]: "length (le_bytes n v) = n"
  by (induction n arbitrary: v) simp_all

lemma length_be_bytes [simp]: "length (be_bytes n v) = n"
  by (simp add: be_bytes_def)

lemma le_bytes_numeral:
  "le_bytes (numeral k) v = of_nat v # le_bytes (pred_numeral k) (v div 256)"
  using le_bytes.simps(2) [of "pred_numeral k" v] by (simp only: numeral_eq_Suc [of k, symmetric])

lemma le_val_le_bytes: "le_val (le_bytes n v) = v mod 256 ^ n"
  by (induction n arbitrary: v) (simp_all add: unat_of_nat_byte mod_mult2_eq mult.commute)

lemma le_val_le_bytes_id [simp]: "v < 256 ^ n \<Longrightarrow> le_val (le_bytes n v) = v"
  by (simp add: le_val_le_bytes)

lemma be_val_be_bytes_id [simp]: "v < 256 ^ n \<Longrightarrow> be_val (be_bytes n v) = v"
  by (simp add: be_val_def be_bytes_def)

lemma le_bytes_le_val [simp]: "le_bytes (length bs) (le_val bs) = bs"
  by (induction bs) (simp_all add: of_nat_unat_byte_add del: of_nat_add)

lemma be_bytes_be_val: "be_bytes (length bs) (be_val bs) = bs"
  using le_bytes_le_val [of "rev bs"] by (simp add: be_bytes_def be_val_def)

lemma le_val_less: "le_val bs < 256 ^ length bs"
proof (induction bs)
  case Nil
  show ?case by simp
next
  case (Cons b bs)
  have "unat b + 256 * le_val bs < 256 * Suc (le_val bs)"
    by simp
  also have "\<dots> \<le> 256 * 256 ^ length bs"
    using Cons.IH by (intro mult_le_mono2) simp
  finally show ?case by simp
qed

lemma be_val_less: "be_val bs < 256 ^ length bs"
  using le_val_less [of "rev bs"] by (simp add: be_val_def)

lemma le_val_inj: "length bs = length cs \<Longrightarrow> le_val bs = le_val cs \<Longrightarrow> bs = cs"
  by (metis le_bytes_le_val)

lemma le_val_append: "le_val (bs @ cs) = le_val bs + 256 ^ length bs * le_val cs"
  by (induction bs) (simp_all add: algebra_simps)

lemma be_val_append: "be_val (bs @ cs) = be_val bs * 256 ^ length cs + be_val cs"
  by (simp add: be_val_def le_val_append algebra_simps)

lemma be_val_Nil [simp]: "be_val [] = 0"
  by (simp add: be_val_def)

lemma be_val_Cons: "be_val (b # bs) = unat b * 256 ^ length bs + be_val bs"
  using be_val_append [of "[b]" bs] by (simp add: be_val_def)

section \<open>Hexadecimal strings\<close>

text \<open>
  A hexadecimal string is the list of its digits, most significant first.
  \<open>hexDigits\<close> is \<^verbatim>\<open>num.toString(16)\<close>, \<open>padStart\<close> is
  \<^verbatim>\<open>padStart(len, "0")\<close>, \<open>hexToBuf\<close> is \<^verbatim>\<open>Buffer.from(str, "hex")\<close>,
  which drops a trailing unpaired digit, \<open>bufToHex\<close> is \<^verbatim>\<open>toString("hex")\<close>,
  and \<open>bigOfHex\<close> is \<^verbatim>\<open>BigInt("0x" + str)\<close>, which throws on an empty string.
\<close>

fun hexDigits :: "nat \<Rightarrow> nat list" where
  "hexDigits n = (if n < 16 then [n] else hexDigits (n div 16) @ [n mod 16])"

declare hexDigits.simps [simp del]

definition padStart :: "nat \<Rightarrow> nat list \<Rightarrow> nat list" where
  "padStart k ds = replicate (k - length ds) 0 @ ds"

fun hexToBuf :: "nat list \<Rightarrow> buffer" where
  "hexToBuf (a # b # ds) = of_nat (16 * a + b) # hexToBuf ds"
| "hexToBuf _ = []"

definition bufToHex :: "buffer \<Rightarrow> nat list" where
  "bufToHex bs = concat (map (\<lambda>b. [unat b div 16, unat b mod 16]) bs)"

definition bigOfHex :: "nat list \<Rightarrow> nat res" where
  "bigOfHex ds = (if ds = [] then Inl SyntaxError else Inr (foldl (\<lambda>a d. 16 * a + d) 0 ds))"

section \<open>The conversions of the source\<close>

definition bigFromBufBE :: "buffer \<Rightarrow> nat res" where
  "bigFromBufBE buf = bigOfHex (bufToHex buf)"

definition bigFromBufLE :: "buffer \<Rightarrow> nat res" where
  "bigFromBufLE buf = bigFromBufBE (rev buf)"

definition bigToBufBE :: "nat \<Rightarrow> nat option \<Rightarrow> buffer" where
  "bigToBufBE num len =
     (let str = hexDigits num;
          str' = (case len of
                    Some n \<Rightarrow> if n \<noteq> 0 then padStart (n * 2) str
                              else if length str mod 2 = 1 then 0 # str else str
                  | None \<Rightarrow> if length str mod 2 = 1 then 0 # str else str)
      in hexToBuf str')"

definition bigToBufLE :: "nat \<Rightarrow> nat option \<Rightarrow> buffer" where
  "bigToBufLE num len = rev (bigToBufBE num len)"

fun calcBytes :: "nat \<Rightarrow> nat" where
  "calcBytes num = (if num > 0 then Suc (calcBytes (num div 256)) else 0)"

declare calcBytes.simps [simp del]

definition bigintToBuffer :: "nat \<Rightarrow> buffer" where
  "bigintToBuffer num = hexToBuf (padStart (calcBytes num * 2) (hexDigits num))"

section \<open>Correctness of the conversions\<close>

lemma foldl_bufToHex:
  "foldl (\<lambda>a d. 16 * a + d) acc (bufToHex bs) = acc * 256 ^ length bs + be_val bs"
proof (induction bs arbitrary: acc)
  case Nil
  show ?case by (simp add: bufToHex_def)
next
  case (Cons b bs)
  have "16 * (16 * acc + unat b div 16) + unat b mod 16 = 256 * acc + unat b"
    by simp
  then show ?case using Cons [of "256 * acc + unat b"]
    by (simp add: bufToHex_def be_val_Cons algebra_simps)
qed

lemma bigFromBufBE_eq:
  "bigFromBufBE buf = (if buf = [] then Inl SyntaxError else Inr (be_val buf))"
  using foldl_bufToHex [of 0 buf]
  by (cases buf) (simp_all add: bigFromBufBE_def bigOfHex_def bufToHex_def)

lemma bigFromBufLE_eq:
  "bigFromBufLE buf = (if buf = [] then Inl SyntaxError else Inr (le_val buf))"
  by (simp add: bigFromBufLE_def bigFromBufBE_eq be_val_def)

primrec fixedHex :: "nat \<Rightarrow> nat \<Rightarrow> nat list" where
  "fixedHex 0 v = []"
| "fixedHex (Suc k) v = fixedHex k (v div 16) @ [v mod 16]"

lemma length_fixedHex [simp]: "length (fixedHex k v) = k"
  by (induction k arbitrary: v) simp_all

lemma fixedHex_zero: "fixedHex k 0 = replicate k 0"
  by (induction k) (simp_all add: replicate_append_same)

lemma fixedHex_pad: "v < 16 ^ k \<Longrightarrow> fixedHex (j + k) v = replicate j 0 @ fixedHex k v"
proof (induction k arbitrary: v)
  case 0
  then show ?case by (simp add: fixedHex_zero)
next
  case (Suc k)
  from Suc.prems have "v div 16 < 16 ^ k" by (simp add: less_mult_imp_div_less mult.commute)
  from Suc.IH [OF this] show ?case by simp
qed

lemma hexDigits_fixedHex: "hexDigits v = fixedHex (length (hexDigits v)) v"
proof (induction v rule: hexDigits.induct)
  case (1 v)
  show ?case
  proof (cases "v < 16")
    case True
    then show ?thesis by (simp add: hexDigits.simps [of v])
  next
    case False
    with 1 have "hexDigits (v div 16) = fixedHex (length (hexDigits (v div 16))) (v div 16)"
      by simp
    with False show ?thesis by (simp add: hexDigits.simps [of v])
  qed
qed

lemma length_hexDigits_le: "0 < k \<Longrightarrow> length (hexDigits v) \<le> k \<longleftrightarrow> v < 16 ^ k"
proof (induction k arbitrary: v)
  case 0
  then show ?case by simp
next
  case (Suc k)
  show ?case
  proof (cases "v < 16")
    case True
    moreover have "(16::nat) \<le> 16 ^ Suc k" by simp
    ultimately have "v < 16 ^ Suc k" by (rule less_le_trans)
    with True show ?thesis by (simp add: hexDigits.simps [of v])
  next
    case False
    then have *: "length (hexDigits v) = Suc (length (hexDigits (v div 16)))"
      by (simp add: hexDigits.simps [of v])
    show ?thesis
    proof (cases "k = 0")
      case True
      moreover have "hexDigits (v div 16) \<noteq> []" by (simp add: hexDigits.simps [of "v div 16"])
      ultimately show ?thesis using False * by simp
    next
      case k: False
      have "v div 16 < 16 ^ k \<longleftrightarrow> v < 16 ^ Suc k"
        by (simp add: div_less_iff_less_mult mult.commute)
      with * Suc.IH [of "v div 16"] k show ?thesis by simp
    qed
  qed
qed

lemma padStart_hexDigits:
  assumes "v < 16 ^ k" "0 < k"
  shows "padStart k (hexDigits v) = fixedHex k v"
proof -
  let ?n = "length (hexDigits v)"
  have le: "?n \<le> k" using assms by (simp add: length_hexDigits_le)
  have "0 < ?n" by (simp add: hexDigits.simps [of v])
  then have "v < 16 ^ ?n" using length_hexDigits_le [of ?n v] by simp
  from fixedHex_pad [OF this, of "k - ?n"] le
  have "fixedHex k v = replicate (k - ?n) 0 @ fixedHex ?n v" by simp
  then show ?thesis using hexDigits_fixedHex [of v] by (simp add: padStart_def)
qed

lemma hexToBuf_append2:
  "even (length ds) \<Longrightarrow> hexToBuf (ds @ [a, b]) = hexToBuf ds @ [of_nat (16 * a + b)]"
  by (induction ds rule: hexToBuf.induct) simp_all

lemma hexToBuf_fixedHex: "hexToBuf (fixedHex (2 * n) v) = be_bytes n v"
proof (induction n arbitrary: v)
  case 0
  show ?case by (simp add: be_bytes_def)
next
  case (Suc n)
  have "16 * (v div 16 mod 16) + v mod 16 = v mod 256"
    using mod_mult2_eq [of v 16 16] by simp
  moreover have "of_nat (v mod 256) = (of_nat v :: byte)"
    by (simp add: word_unat_eq_iff unat_of_nat_byte)
  moreover have "v div 16 div 16 = v div 256" by (simp add: div_mult2_eq [symmetric])
  ultimately show ?case
    using hexToBuf_append2 [of "fixedHex (2 * n) (v div 256)" "v div 16 mod 16" "v mod 16"]
      Suc.IH [of "v div 256"]
    by (simp add: be_bytes_def)
qed

lemma pow_16_double: "(16::nat) ^ (n * 2) = 256 ^ n"
  by (simp add: power_mult power2_eq_square mult.commute [of n] power_mult_distrib)

lemma bigToBufBE_Some:
  assumes "v < 256 ^ n" "0 < n"
  shows "bigToBufBE v (Some n) = be_bytes n v"
  using assms padStart_hexDigits [of v "n * 2"] hexToBuf_fixedHex [of n v]
  by (simp add: bigToBufBE_def pow_16_double mult.commute)

lemma bigToBufLE_Some:
  "v < 256 ^ n \<Longrightarrow> 0 < n \<Longrightarrow> bigToBufLE v (Some n) = le_bytes n v"
  by (simp add: bigToBufLE_def bigToBufBE_Some be_bytes_def)

lemma calcBytes_le: "calcBytes v \<le> n \<longleftrightarrow> v < 256 ^ n"
proof (induction n arbitrary: v)
  case 0
  show ?case by (subst calcBytes.simps) simp
next
  case (Suc n)
  have "v div 256 < 256 ^ n \<longleftrightarrow> v < 256 ^ Suc n"
    by (simp add: div_less_iff_less_mult mult.commute)
  then show ?case using Suc.IH [of "v div 256"] by (subst calcBytes.simps) auto
qed

lemma less_calcBytes: "v < 256 ^ calcBytes v"
  using calcBytes_le [of v "calcBytes v"] by simp

lemma bigToBufBE_None: "bigToBufBE v None = be_bytes (max 1 (calcBytes v)) v"
proof -
  let ?n = "length (hexDigits v)"
  define m where "m = (?n + 1) div 2"
  have "0 < ?n" by (simp add: hexDigits.simps [of v])
  then have m: "0 < m" by (simp add: m_def)
  have le: "m \<le> k \<longleftrightarrow> v < 256 ^ k" if "0 < k" for k
    using length_hexDigits_le [of "k * 2" v] that by (auto simp: m_def pow_16_double)
  have "m = max 1 (calcBytes v)"
    using le [of m] le [of "max 1 (calcBytes v)"] m calcBytes_le [of v m]
      less_calcBytes [of v] calcBytes_le [of v "max 1 (calcBytes v)"]
    by (auto simp: max_def split: if_splits)
  moreover have "v < 16 ^ (2 * m)" using le [of m] m by (simp add: mult.commute pow_16_double)
  then have "padStart (2 * m) (hexDigits v) = fixedHex (2 * m) v"
    using m by (simp add: padStart_hexDigits)
  moreover have "padStart (2 * m) (hexDigits v) =
      (if odd ?n then 0 # hexDigits v else hexDigits v)"
    by (auto simp: padStart_def m_def elim!: oddE evenE)
  ultimately show ?thesis
    using hexToBuf_fixedHex [of m v] by (simp add: bigToBufBE_def odd_iff_mod_2_eq_one)
qed

lemma bigintToBuffer_eq: "0 < v \<Longrightarrow> bigintToBuffer v = be_bytes (calcBytes v) v"
  using padStart_hexDigits [of v "calcBytes v * 2"] less_calcBytes [of v]
    hexToBuf_fixedHex [of "calcBytes v" v] calcBytes_le [of v 0]
  by (simp add: bigintToBuffer_def pow_16_double mult.commute [of 2])

section \<open>Comparing and sorting\<close>

text \<open>\<^verbatim>\<open>Buffer.compare\<close> and \<^verbatim>\<open>Array.prototype.sort\<close>, which is stable, with a comparator.\<close>

fun bufCompare :: "buffer \<Rightarrow> buffer \<Rightarrow> int" where
  "bufCompare [] [] = 0"
| "bufCompare [] (b # bs) = - 1"
| "bufCompare (a # as) [] = 1"
| "bufCompare (a # as) (b # bs) = (if a < b then - 1 else if b < a then 1 else bufCompare as bs)"

fun insertBy :: "('a \<Rightarrow> 'a \<Rightarrow> int) \<Rightarrow> 'a \<Rightarrow> 'a list \<Rightarrow> 'a list" where
  "insertBy cmp x [] = [x]"
| "insertBy cmp x (y # ys) = (if cmp x y \<le> 0 then x # y # ys else y # insertBy cmp x ys)"

definition sortBy :: "('a \<Rightarrow> 'a \<Rightarrow> int) \<Rightarrow> 'a list \<Rightarrow> 'a list" where
  "sortBy cmp xs = foldr (insertBy cmp) xs []"

lemma bufCompare_refl [simp]: "bufCompare a a = 0"
  by (induction a) auto

lemma bufCompare_eq_0 [simp]: "bufCompare a b = 0 \<longleftrightarrow> a = b"
  by (induction a b rule: bufCompare.induct) auto

lemma bufCompare_range: "bufCompare a b \<in> {- 1, 0, 1}"
  by (induction a b rule: bufCompare.induct) auto

lemma bufCompare_minus: "bufCompare b a = - bufCompare a b"
  by (induction a b rule: bufCompare.induct) auto

lemma bufCompare_trans: "bufCompare a b \<le> 0 \<Longrightarrow> bufCompare b c \<le> 0 \<Longrightarrow> bufCompare a c \<le> 0"
proof (induction a b arbitrary: c rule: bufCompare.induct)
  case (2 b bs)
  then show ?case by (cases c) auto
next
  case (4 a as b bs)
  then show ?case by (cases c) (auto split: if_splits)
qed (auto)

end
