(* ===== verification/ByteSource.thy ===== *)
theory ByteSource
  imports Bytes
begin

text \<open>
  The interface through which every parser of the repository consumes bytes.  Both
  \<^verbatim>\<open>BufferReader\<close> and \<^verbatim>\<open>StreamReader\<close> provide it; the variable-length
  integers of Bitcoin (little-endian \<^verbatim>\<open>VarInt\<close>) and Lightning (big-endian
  \<^verbatim>\<open>BigSize\<close>) are proved correct once, against this interface.
\<close>

section \<open>Reference encodings of variable-length integers\<close>

definition varint_bytes :: "nat \<Rightarrow> buffer" where
  "varint_bytes v =
     (if v < 0xfd then le_bytes 1 v
      else if v < 0x10000 then 0xfd # le_bytes 2 v
      else if v < 0x100000000 then 0xfe # le_bytes 4 v
      else 0xff # le_bytes 8 v)"

definition bigsize_bytes :: "nat \<Rightarrow> buffer" where
  "bigsize_bytes v =
     (if v < 0xfd then be_bytes 1 v
      else if v < 0x10000 then 0xfd # be_bytes 2 v
      else if v < 0x100000000 then 0xfe # be_bytes 4 v
      else 0xff # be_bytes 8 v)"

lemma one_byte: "le_bytes 1 v = [of_nat v]" "be_bytes 1 v = [of_nat v]"
  by (simp_all add: be_bytes_def)

lemma tag_bytes:
  "[0xfd] = le_bytes 1 0xfd" "[0xfe] = le_bytes 1 0xfe" "[0xff] = le_bytes 1 0xff"
  by (simp_all add: one_byte)

lemma length_varint_bytes:
  "length (varint_bytes v) =
     (if v < 0xfd then 1 else if v < 0x10000 then 3 else if v < 0x100000000 then 5 else 9)"
  by (simp add: varint_bytes_def)

lemma length_bigsize_bytes:
  "length (bigsize_bytes v) =
     (if v < 0xfd then 1 else if v < 0x10000 then 3 else if v < 0x100000000 then 5 else 9)"
  by (simp add: bigsize_bytes_def)

lemma length_varint_bytes_le: "length (varint_bytes v) \<le> 9"
  by (simp add: length_varint_bytes)

section \<open>The interface\<close>

locale byte_source =
  fixes good :: "'s \<Rightarrow> bool"
    and content :: "'s \<Rightarrow> buffer"
    and mark :: "nat \<Rightarrow> ('s, unit) io"
    and u8 u16le u16be u32le u32be u64le u64be :: "('s, nat) io"
    and bytes :: "nat \<Rightarrow> ('s, buffer) io"
  assumes mark: "reads good content (mark n) [] ()"
    and u8: "v < 256 \<Longrightarrow> reads good content u8 (le_bytes 1 v) v"
    and u16le: "v < 256 ^ 2 \<Longrightarrow> reads good content u16le (le_bytes 2 v) v"
    and u16be: "v < 256 ^ 2 \<Longrightarrow> reads good content u16be (be_bytes 2 v) v"
    and u32le: "v < 256 ^ 4 \<Longrightarrow> reads good content u32le (le_bytes 4 v) v"
    and u32be: "v < 256 ^ 4 \<Longrightarrow> reads good content u32be (be_bytes 4 v) v"
    and u64le: "v < 256 ^ 8 \<Longrightarrow> reads good content u64le (le_bytes 8 v) v"
    and u64be: "v < 256 ^ 8 \<Longrightarrow> reads good content u64be (be_bytes 8 v) v"
    and bytes: "reads good content (bytes (length bs)) bs bs"
    and bytes_short: "good s \<Longrightarrow> length (content s) < n \<Longrightarrow> fst (bytes n s) = Inl RangeError"
begin

text \<open>A tag byte followed by what the tag announces.\<close>

lemma tagged:
  assumes "t < 256" "reads good content (f t) cs v"
  shows "reads good content (bind_io u8 f) (of_nat t # cs) v"
  using reads_bind [OF u8 [OF assms(1)], of f cs v] assms(2)
  by (simp only: one_byte append_Cons append_Nil)

lemma marked: "reads good content m bs v \<Longrightarrow> reads good content (then_io (mark n) m) bs v"
  using reads_bind [OF mark, of "\<lambda>_. m" bs v n] by (simp add: then_io_def)

lemma varint:
  assumes "v < 2 ^ 64"
  shows "reads good content
     (bind_io u8 (\<lambda>b. if b < 0xfd then then_io (mark 1) (return_io b)
        else if b = 0xfd then then_io (mark 3) u16le
        else if b = 0xfe then then_io (mark 5) u32le
        else then_io (mark 9) u64le)) (varint_bytes v) v" (is "reads _ _ (bind_io u8 ?f) _ _")
proof -
  consider "v < 0xfd" | "0xfd \<le> v" "v < 0x10000" | "0x10000 \<le> v" "v < 0x100000000"
    | "0x100000000 \<le> v" by linarith
  then show ?thesis
  proof cases
    case 1
    then show ?thesis using tagged [of v ?f "[]" v]
      by (simp add: varint_bytes_def marked reads_return)
  next
    case 2
    then show ?thesis using tagged [of "0xfd" ?f "le_bytes 2 v" v]
      by (simp add: varint_bytes_def marked u16le del: le_bytes.simps)
  next
    case 3
    then show ?thesis using tagged [of "0xfe" ?f "le_bytes 4 v" v]
      by (simp add: varint_bytes_def marked u32le del: le_bytes.simps)
  next
    case 4
    then show ?thesis using tagged [of "0xff" ?f "le_bytes 8 v" v] assms
      by (simp add: varint_bytes_def marked u64le del: le_bytes.simps)
  qed
qed

text \<open>
  The big-endian form; the continuations may check the value they read, as the canonical
  reader does, as long as they accept a value the shorter forms cannot carry.
\<close>

lemma bigsize:
  assumes "v < 2 ^ 64"
    and "\<And>w s. 0xfd \<le> w \<Longrightarrow> w < 0x10000 \<Longrightarrow> c2 w s = (Inr w, s)"
    and "\<And>w s. 0x10000 \<le> w \<Longrightarrow> w < 0x100000000 \<Longrightarrow> c4 w s = (Inr w, s)"
    and "\<And>w s. 0x100000000 \<le> w \<Longrightarrow> c8 w s = (Inr w, s)"
  shows "reads good content
     (bind_io u8 (\<lambda>b. if b < 0xfd then then_io (mark 1) (return_io b)
        else if b = 0xfd then then_io (mark 3) (bind_io u16be c2)
        else if b = 0xfe then then_io (mark 5) (bind_io u32be c4)
        else then_io (mark 9) (bind_io u64be c8))) (bigsize_bytes v) v"
    (is "reads _ _ (bind_io u8 ?f) _ _")
proof -
  consider "v < 0xfd" | "0xfd \<le> v" "v < 0x10000" | "0x10000 \<le> v" "v < 0x100000000"
    | "0x100000000 \<le> v" by linarith
  then show ?thesis
  proof cases
    case 1
    then show ?thesis using tagged [of v ?f "[]" v]
      by (simp add: bigsize_bytes_def marked reads_return one_byte del: One_nat_def)
  next
    case 2
    then have "reads good content (bind_io u16be c2) (be_bytes 2 v) v"
      by (intro reads_bind_last [OF u16be] assms) simp_all
    with 2 show ?thesis using tagged [of "0xfd" ?f "be_bytes 2 v" v]
      by (simp add: bigsize_bytes_def marked)
  next
    case 3
    then have "reads good content (bind_io u32be c4) (be_bytes 4 v) v"
      by (intro reads_bind_last [OF u32be] assms) simp_all
    with 3 show ?thesis using tagged [of "0xfe" ?f "be_bytes 4 v" v]
      by (simp add: bigsize_bytes_def marked)
  next
    case 4
    then have "reads good content (bind_io u64be c8) (be_bytes 8 v) v"
      using assms(1) by (intro reads_bind_last [OF u64be] assms(4)) simp_all
    with 4 show ?thesis using tagged [of "0xff" ?f "be_bytes 8 v" v]
      by (simp add: bigsize_bytes_def marked)
  qed
qed

text \<open>A byte string behind a length that was read before it.\<close>

lemma counted:
  assumes "reads good content len (enc (length bs)) (length bs)"
  shows "reads good content (bind_io len bytes) (enc (length bs) @ bs) bs"
  using reads_bind [OF assms, of bytes bs bs] bytes by simp

end

end
