(* ===== verification/BufferReader.thy ===== *)
theory BufferReader
  imports ByteSource
begin

text \<open>
  \<^verbatim>\<open>packages/bufio/lib/BufferReader.ts\<close>: a cursor over a buffer.  The record has the
  class's three fields; every method is an operation on it that may throw and that keeps
  whatever it changed before it threw.  A length or a value that the class takes as a
  non-negative number is a \<open>nat\<close>.
\<close>

section \<open>The reader and its operations\<close>

record buffer_reader =
  br_buffer :: buffer
  br_position :: nat
  br_lastReadBytes :: nat

definition newBufferReader :: "buffer \<Rightarrow> buffer_reader" where
  "newBufferReader buf = \<lparr>br_buffer = buf, br_position = 0, br_lastReadBytes = 0\<rparr>"

definition bigSizeBytes :: "nat \<Rightarrow> nat" where
  "bigSizeBytes num =
     (if num < 0xfd then 1 else if num < 0x10000 then 3 else if num < 0x100000000 then 5 else 9)"

definition br_setPosition :: "nat \<Rightarrow> (buffer_reader, unit) io" where
  "br_setPosition val = update_io (\<lambda>r. r\<lparr>br_position := val\<rparr>)"

definition br_eof :: "buffer_reader \<Rightarrow> bool" where
  "br_eof r \<longleftrightarrow> br_position r = length (br_buffer r)"

definition br_setLast :: "nat \<Rightarrow> (buffer_reader, unit) io" where
  "br_setLast n = update_io (\<lambda>r. r\<lparr>br_lastReadBytes := n\<rparr>)"

text \<open>
  \<open>readStandard dec len\<close> is \<^verbatim>\<open>_readStandard(fn, len)\<close> where \<open>dec\<close> is what the
  built-in read function makes of its \<open>len\<close> bytes.
\<close>

definition br_readStandard :: "(buffer \<Rightarrow> nat) \<Rightarrow> nat \<Rightarrow> (buffer_reader, nat) io" where
  "br_readStandard dec len = (\<lambda>r.
     if br_position r + len > length (br_buffer r) then (Inl RangeError, r)
     else (Inr (dec (take len (drop (br_position r) (br_buffer r)))),
           r\<lparr>br_position := br_position r + len, br_lastReadBytes := len\<rparr>))"

definition br_readUInt8 :: "(buffer_reader, nat) io" where
  "br_readUInt8 = br_readStandard le_val 1"

definition br_readUInt16LE :: "(buffer_reader, nat) io" where
  "br_readUInt16LE = br_readStandard le_val 2"

definition br_readUInt16BE :: "(buffer_reader, nat) io" where
  "br_readUInt16BE = br_readStandard be_val 2"

definition br_readUInt32LE :: "(buffer_reader, nat) io" where
  "br_readUInt32LE = br_readStandard le_val 4"

definition br_readUInt32BE :: "(buffer_reader, nat) io" where
  "br_readUInt32BE = br_readStandard be_val 4"

text \<open>
  \<^verbatim>\<open>readUIntLE\<close> and \<^verbatim>\<open>readUIntBE\<close> call the built-ins with a byte count,
  which throw a \<^verbatim>\<open>RangeError\<close> of their own unless it is between 1 and 6.
\<close>

definition br_readUIntLE :: "nat \<Rightarrow> (buffer_reader, nat) io" where
  "br_readUIntLE len = (\<lambda>r.
     if br_position r + len > length (br_buffer r) then (Inl RangeError, r)
     else if len < 1 \<or> len > 6 then (Inl RangeError, r)
     else (Inr (le_val (take len (drop (br_position r) (br_buffer r)))),
           r\<lparr>br_position := br_position r + len, br_lastReadBytes := len\<rparr>))"

definition br_readUIntBE :: "nat \<Rightarrow> (buffer_reader, nat) io" where
  "br_readUIntBE len = (\<lambda>r.
     if br_position r + len > length (br_buffer r) then (Inl RangeError, r)
     else if len < 1 \<or> len > 6 then (Inl RangeError, r)
     else (Inr (be_val (take len (drop (br_position r) (br_buffer r)))),
           r\<lparr>br_position := br_position r + len, br_lastReadBytes := len\<rparr>))"

text \<open>The length is optional: \<open>None\<close> reads everything that is left.\<close>

definition br_readBytes :: "nat option \<Rightarrow> (buffer_reader, buffer) io" where
  "br_readBytes len = (\<lambda>r.
     case len of
       Some n \<Rightarrow>
         if n = 0 then (Inr [], r\<lparr>br_lastReadBytes := 0\<rparr>)
         else if br_position r + n > length (br_buffer r) then (Inl RangeError, r)
         else (Inr (take n (drop (br_position r) (br_buffer r))),
               r\<lparr>br_position := br_position r + n, br_lastReadBytes := n\<rparr>)
     | None \<Rightarrow>
         if br_position r = length (br_buffer r) then (Inr [], r\<lparr>br_lastReadBytes := 0\<rparr>)
         else (let result = drop (br_position r) (br_buffer r)
               in (Inr result, r\<lparr>br_position := length (br_buffer r),
                                 br_lastReadBytes := length result\<rparr>)))"

definition br_peakBytes :: "nat option \<Rightarrow> (buffer_reader, buffer) io" where
  "br_peakBytes len = (\<lambda>r.
     case len of
       Some n \<Rightarrow>
         if n = 0 then (Inr [], r)
         else if br_position r + n > length (br_buffer r) then (Inl RangeError, r)
         else (Inr (take n (drop (br_position r) (br_buffer r))), r)
     | None \<Rightarrow>
         if br_position r = length (br_buffer r) then (Inl RangeError, r)
         else (Inr (drop (br_position r) (br_buffer r)), r))"

definition br_readUInt64BE :: "(buffer_reader, nat) io" where
  "br_readUInt64BE = bind_io (br_readBytes (Some 8)) (\<lambda>b. lift_io (bigFromBufBE b))"

definition br_readUInt64LE :: "(buffer_reader, nat) io" where
  "br_readUInt64LE = bind_io (br_readBytes (Some 8)) (\<lambda>b. lift_io (bigFromBufBE (rev b)))"

definition br_readVarUint :: "(buffer_reader, nat) io" where
  "br_readVarUint = bind_io br_readUInt8 (\<lambda>size.
     if size < 0xfd then then_io (br_setLast 1) (return_io size)
     else if size = 0xfd then then_io (br_setLast 3) br_readUInt16LE
     else if size = 0xfe then then_io (br_setLast 5) br_readUInt32LE
     else then_io (br_setLast 9) br_readUInt64LE)"

definition notCanonical :: exn where
  "notCanonical = JsError ''decoded varint is not canonical''"

definition br_readBigSize :: "(buffer_reader, nat) io" where
  "br_readBigSize = bind_io br_readUInt8 (\<lambda>size.
     if size < 0xfd then then_io (br_setLast 1) (return_io size)
     else if size = 0xfd then then_io (br_setLast 3) (bind_io br_readUInt16BE (\<lambda>val.
       if val < 0xfd then throw_io notCanonical else return_io val))
     else if size = 0xfe then then_io (br_setLast 5) (bind_io br_readUInt32BE (\<lambda>val.
       if val < 0x10000 then throw_io notCanonical else return_io val))
     else then_io (br_setLast 9) (bind_io br_readUInt64BE (\<lambda>val.
       if val < 0x100000000 then throw_io notCanonical else return_io val)))"

text \<open>
  \<^verbatim>\<open>_assertMinimalTUInt\<close>: the loop stops at the first \<open>i\<close> whose bound \<open>256 ^ i\<close>
  exceeds the number and asserts that \<open>i\<close> is the byte count.
\<close>

definition assertMinimalTUInt :: "nat \<Rightarrow> nat \<Rightarrow> unit res" where
  "assertMinimalTUInt num bytes =
     (case find (\<lambda>i. num < 256 ^ i) [0..<9] of
        Some i \<Rightarrow> if bytes = i then Inr () else Inl AssertionError
      | None \<Rightarrow> Inr ())"

text \<open>
  The truncated integers take what is left of the buffer, up to their width.  With the
  cursor beyond the end the size is negative and the built-in read throws.
\<close>

definition br_readTUInt :: "nat \<Rightarrow> (buffer_reader, nat) io" where
  "br_readTUInt width = (\<lambda>r.
     if br_position r > length (br_buffer r) then (Inl RangeError, r)
     else let size = min width (length (br_buffer r) - br_position r)
       in if size = 0 then (Inr 0, r)
          else let val = be_val (take size (drop (br_position r) (br_buffer r)))
            in case assertMinimalTUInt val size of
                 Inl e \<Rightarrow> (Inl e, r)
               | Inr _ \<Rightarrow> (Inr val, r\<lparr>br_position := br_position r + size\<rparr>))"

definition br_readTUInt16 :: "(buffer_reader, nat) io" where
  "br_readTUInt16 = br_readTUInt 2"

definition br_readTUInt32 :: "(buffer_reader, nat) io" where
  "br_readTUInt32 = br_readTUInt 4"

text \<open>
  \<^verbatim>\<open>readTUInt64\<close> goes through a hexadecimal string with a default of
  \<^verbatim>\<open>"0"\<close>: beyond the end its slice is empty, the value 0, and the assertion that
  0 has a negative byte count fails.
\<close>

definition br_readTUInt64 :: "(buffer_reader, nat) io" where
  "br_readTUInt64 = (\<lambda>r.
     if br_position r > length (br_buffer r) then (Inl AssertionError, r)
     else let size = min 8 (length (br_buffer r) - br_position r)
       in if size = 0 then (Inr 0, r)
          else case bigFromBufBE (take size (drop (br_position r) (br_buffer r))) of
                 Inl e \<Rightarrow> (Inl e, r)
               | Inr val \<Rightarrow>
                   (case assertMinimalTUInt val size of
                      Inl e \<Rightarrow> (Inl e, r)
                    | Inr _ \<Rightarrow> (Inr val, r\<lparr>br_position := br_position r + size\<rparr>)))"

section \<open>Invariant and unread content\<close>

definition br_good :: "buffer_reader \<Rightarrow> bool" where
  "br_good r \<longleftrightarrow> br_position r \<le> length (br_buffer r)"

definition br_content :: "buffer_reader \<Rightarrow> buffer" where
  "br_content r = drop (br_position r) (br_buffer r)"

lemma br_good_new [simp]: "br_good (newBufferReader buf)"
  and br_content_new [simp]: "br_content (newBufferReader buf) = buf"
  by (simp_all add: br_good_def br_content_def newBufferReader_def)

lemma br_eof_iff: "br_good r \<Longrightarrow> br_eof r \<longleftrightarrow> br_content r = []"
  by (auto simp: br_eof_def br_good_def br_content_def)

lemma br_content_length: "br_good r \<Longrightarrow> br_position r + length (br_content r) = length (br_buffer r)"
  by (simp add: br_good_def br_content_def)

lemma br_advance:
  assumes "br_good r" "br_content r = bs @ rest"
  shows "br_position r + length bs \<le> length (br_buffer r)"
    and "take (length bs) (drop (br_position r) (br_buffer r)) = bs"
    and "br_good (r\<lparr>br_position := br_position r + length bs, br_lastReadBytes := n\<rparr>)"
    and "br_content (r\<lparr>br_position := br_position r + length bs, br_lastReadBytes := n\<rparr>) = rest"
proof -
  show le: "br_position r + length bs \<le> length (br_buffer r)"
    using br_content_length [OF assms(1)] assms(2) by simp
  show "take (length bs) (drop (br_position r) (br_buffer r)) = bs"
    using assms(2) by (simp add: br_content_def)
  show "br_good (r\<lparr>br_position := br_position r + length bs, br_lastReadBytes := n\<rparr>)"
    using le by (simp add: br_good_def)
  show "br_content (r\<lparr>br_position := br_position r + length bs, br_lastReadBytes := n\<rparr>) = rest"
    using assms(2) by (simp add: br_content_def drop_append_exact)
qed

lemma reads_readStandard:
  assumes "dec bs = v" "length bs = n"
  shows "reads br_good br_content (br_readStandard dec n) bs v"
proof (rule readsI)
  fix r rest assume r: "br_good r" "br_content r = bs @ rest"
  show "\<exists>s'. br_readStandard dec n r = (Inr v, s') \<and> br_good s' \<and> br_content s' = rest"
    using br_advance [OF r] assms by (simp add: br_readStandard_def)
qed

lemma reads_readUInt_len:
  assumes "1 \<le> length bs" "length bs \<le> 6"
  shows "reads br_good br_content (br_readUIntLE (length bs)) bs (le_val bs)"
    "reads br_good br_content (br_readUIntBE (length bs)) bs (be_val bs)"
proof -
  have "\<exists>s'. br_readUIntLE (length bs) r = (Inr (le_val bs), s') \<and> br_good s' \<and> br_content s' = rest"
    "\<exists>s'. br_readUIntBE (length bs) r = (Inr (be_val bs), s') \<and> br_good s' \<and> br_content s' = rest"
    if r: "br_good r" "br_content r = bs @ rest" for r rest
    using br_advance [OF r] assms by (auto simp: br_readUIntLE_def br_readUIntBE_def)
  then show "reads br_good br_content (br_readUIntLE (length bs)) bs (le_val bs)"
    "reads br_good br_content (br_readUIntBE (length bs)) bs (be_val bs)"
    by (simp_all add: reads_def)
qed

lemma reads_readBytes: "reads br_good br_content (br_readBytes (Some (length bs))) bs bs"
proof (rule readsI)
  fix r rest assume r: "br_good r" "br_content r = bs @ rest"
  show "\<exists>s'. br_readBytes (Some (length bs)) r = (Inr bs, s') \<and> br_good s' \<and> br_content s' = rest"
  proof (cases "bs = []")
    case True
    then show ?thesis using r by (simp add: br_readBytes_def br_good_def br_content_def)
  next
    case False
    then show ?thesis using br_advance [OF r] by (simp add: br_readBytes_def)
  qed
qed

lemma reads_readUInt64:
  "v < 256 ^ 8 \<Longrightarrow> reads br_good br_content br_readUInt64BE (be_bytes 8 v) v"
  "v < 256 ^ 8 \<Longrightarrow> reads br_good br_content br_readUInt64LE (le_bytes 8 v) v"
proof -
  assume v: "v < 256 ^ 8"
  have ne: "be_bytes 8 v \<noteq> []" by (metis length_be_bytes length_0_conv zero_neq_numeral)
  have 1: "reads br_good br_content (br_readBytes (Some 8)) (be_bytes 8 v) (be_bytes 8 v)"
    using reads_readBytes [of "be_bytes 8 v"] by simp
  have 2: "reads br_good br_content (br_readBytes (Some 8)) (le_bytes 8 v) (le_bytes 8 v)"
    using reads_readBytes [of "le_bytes 8 v"] by simp
  show "reads br_good br_content br_readUInt64BE (be_bytes 8 v) v"
    unfolding br_readUInt64BE_def
    by (rule reads_bind_last [OF 1])
      (simp add: lift_io_def bigFromBufBE_eq ne be_val_be_bytes_id [OF v])
  show "reads br_good br_content br_readUInt64LE (le_bytes 8 v) v"
    unfolding br_readUInt64LE_def
    by (rule reads_bind_last [OF 2])
      (use be_val_be_bytes_id [OF v] ne in \<open>simp add: lift_io_def bigFromBufBE_eq be_bytes_def\<close>)
qed

interpretation br: byte_source br_good br_content br_setLast br_readUInt8 br_readUInt16LE
  br_readUInt16BE br_readUInt32LE br_readUInt32BE br_readUInt64LE br_readUInt64BE
  "\<lambda>n. br_readBytes (Some n)"
proof (unfold_locales, goal_cases)
  case (1 n)
  show ?case by (auto intro!: readsI simp: br_setLast_def io_simps br_good_def br_content_def)
next
  case (2 v)
  then show ?case unfolding br_readUInt8_def
    by (intro reads_readStandard) (simp_all del: le_bytes.simps One_nat_def)
next
  case (3 v)
  then show ?case unfolding br_readUInt16LE_def by (intro reads_readStandard) simp_all
next
  case (4 v)
  then show ?case unfolding br_readUInt16BE_def by (intro reads_readStandard) simp_all
next
  case (5 v)
  then show ?case unfolding br_readUInt32LE_def by (intro reads_readStandard) simp_all
next
  case (6 v)
  then show ?case unfolding br_readUInt32BE_def by (intro reads_readStandard) simp_all
next
  case (7 v)
  then show ?case by (rule reads_readUInt64)
next
  case (8 v)
  then show ?case by (rule reads_readUInt64)
next
  case (9 bs)
  show ?case by (rule reads_readBytes)
next
  case (10 s n)
  then show ?case using br_content_length [of s] by (auto simp: br_readBytes_def)
qed

section \<open>The cursor\<close>

text \<open>Every successful read keeps the cursor inside the buffer and the buffer as it was.\<close>

lemma reads_readVarUint: "v < 2 ^ 64 \<Longrightarrow> reads br_good br_content br_readVarUint (varint_bytes v) v"
  unfolding br_readVarUint_def by (rule br.varint)

lemma reads_readBigSize: "v < 2 ^ 64 \<Longrightarrow> reads br_good br_content br_readBigSize (bigsize_bytes v) v"
  unfolding br_readBigSize_def by (rule br.bigsize) (simp_all add: io_simps)

lemma length_bigsize: "length (bigsize_bytes v) = bigSizeBytes v"
  by (simp add: length_bigsize_bytes bigSizeBytes_def)

section \<open>What a successful read has consumed\<close>

lemma readStandard_Inr:
  assumes "br_readStandard dec n r = (Inr v, r')" "br_good r"
  shows "\<exists>bs. length bs = n \<and> br_content r = bs @ br_content r' \<and> v = dec bs \<and> br_good r'"
proof -
  let ?bs = "take n (br_content r)"
  have le: "br_position r + n \<le> length (br_buffer r)"
    and v: "v = dec ?bs"
    and r': "r' = r\<lparr>br_position := br_position r + n, br_lastReadBytes := n\<rparr>"
    using assms(1) by (auto simp: br_readStandard_def br_content_def split: if_splits)
  have "length ?bs = n" using le by (simp add: br_content_def)
  moreover have "br_content r = ?bs @ br_content r'"
    by (simp add: r' br_content_def add.commute flip: drop_drop)
  moreover have "br_good r'" using le by (simp add: r' br_good_def)
  ultimately show ?thesis using v by blast
qed

lemma readBytes_Inr:
  assumes "br_readBytes (Some n) r = (Inr bs, r')" "br_good r"
  shows "length bs = n \<and> br_content r = bs @ br_content r' \<and> br_good r'"
proof (cases "n = 0")
  case True
  then show ?thesis using assms by (auto simp: br_readBytes_def br_content_def br_good_def)
next
  case False
  then have "br_readStandard le_val n r = (Inr (le_val bs), r') \<and> bs = take n (br_content r)"
    using assms(1)
    by (auto simp: br_readBytes_def br_readStandard_def br_content_def split: if_splits)
  with readStandard_Inr [of le_val n r "le_val bs" r'] assms(2) show ?thesis by auto
qed

lemma be_read_Inr:
  assumes "br_readStandard be_val n r = (Inr v, r')" "br_good r"
  shows "v < 256 ^ n" "br_content r = be_bytes n v @ br_content r'"
proof -
  obtain bs where "length bs = n" "br_content r = bs @ br_content r'" "v = be_val bs"
    using readStandard_Inr [OF assms] by blast
  then show "v < 256 ^ n" "br_content r = be_bytes n v @ br_content r'"
    using be_val_less [of bs] be_bytes_be_val [of bs] by auto
qed

lemma readUInt64BE_Inr:
  assumes "br_readUInt64BE r = (Inr v, r')" "br_good r"
  shows "v < 256 ^ 8" "br_content r = be_bytes 8 v @ br_content r'"
proof -
  from assms(1) obtain bs where "br_readBytes (Some 8) r = (Inr bs, r')" "v = be_val bs"
    by (auto simp: br_readUInt64BE_def io_simps bigFromBufBE_eq
        split: prod.splits sum.splits if_splits)
  with readBytes_Inr [OF this(1) assms(2)] show "v < 256 ^ 8"
    "br_content r = be_bytes 8 v @ br_content r'"
    using be_val_less [of bs] be_bytes_be_val [of bs] by auto
qed

lemma readUInt8_Inr:
  assumes "br_readUInt8 r = (Inr t, r1)" "br_good r"
  shows "t < 256" "br_content r = of_nat t # br_content r1" "br_good r1"
proof -
  obtain bs where bs: "length bs = 1" "br_content r = bs @ br_content r1" "t = le_val bs" "br_good r1"
    using readStandard_Inr [OF assms(1) [unfolded br_readUInt8_def] assms(2)] by blast
  then obtain b where "bs = [b]" by (auto simp: length_Suc_conv)
  with bs show "t < 256" "br_content r = of_nat t # br_content r1" "br_good r1" by auto
qed

lemma then_setLast: "then_io (br_setLast n) m r = m (r\<lparr>br_lastReadBytes := n\<rparr>)"
  by (simp add: br_setLast_def io_simps)

lemma setLast_content [simp]:
  "br_content (r\<lparr>br_lastReadBytes := n\<rparr>) = br_content r"
  "br_good (r\<lparr>br_lastReadBytes := n\<rparr>) = br_good r"
  by (simp_all add: br_content_def br_good_def)

lemma readBigSize_Inr:
  assumes "br_readBigSize r = (Inr v, r')" "br_good r"
  shows "v < 2 ^ 64 \<and> br_content r = bigsize_bytes v @ br_content r'"
proof -
  from assms(1) obtain t r1 where t: "br_readUInt8 r = (Inr t, r1)"
    unfolding br_readBigSize_def bind_io_apply by (auto split: prod.splits sum.splits)
  note u8 = readUInt8_Inr [OF t assms(2)]
  consider "t < 0xfd" | "t = 0xfd" | "t = 0xfe" | "t = 0xff" using u8(1) by linarith
  then show ?thesis
  proof cases
    case 1
    with assms(1) t have "v = t" "r' = r1\<lparr>br_lastReadBytes := 1\<rparr>"
      by (auto simp: br_readBigSize_def bind_io_apply then_setLast return_io_apply)
    with 1 u8 show ?thesis by (simp add: bigsize_bytes_def one_byte del: One_nat_def)
  next
    case 2
    with assms(1) t have "br_readUInt16BE (r1\<lparr>br_lastReadBytes := 3\<rparr>) = (Inr v, r') \<and> 0xfd \<le> v"
      by (auto simp: br_readBigSize_def bind_io_apply then_setLast return_io_apply throw_io_apply
          split: prod.splits sum.splits if_splits)
    with be_read_Inr [of 2 "r1\<lparr>br_lastReadBytes := 3\<rparr>" v r'] u8 2 show ?thesis
      by (auto simp: br_readUInt16BE_def bigsize_bytes_def)
  next
    case 3
    with assms(1) t have "br_readUInt32BE (r1\<lparr>br_lastReadBytes := 5\<rparr>) = (Inr v, r') \<and> 0x10000 \<le> v"
      by (auto simp: br_readBigSize_def bind_io_apply then_setLast return_io_apply throw_io_apply
          split: prod.splits sum.splits if_splits)
    with be_read_Inr [of 4 "r1\<lparr>br_lastReadBytes := 5\<rparr>" v r'] u8 3 show ?thesis
      by (auto simp: br_readUInt32BE_def bigsize_bytes_def)
  next
    case 4
    with assms(1) t have "br_readUInt64BE (r1\<lparr>br_lastReadBytes := 9\<rparr>) = (Inr v, r') \<and> 0x100000000 \<le> v"
      by (auto simp: br_readBigSize_def bind_io_apply then_setLast return_io_apply throw_io_apply
          split: prod.splits sum.splits if_splits)
    with readUInt64BE_Inr [of "r1\<lparr>br_lastReadBytes := 9\<rparr>" v r'] u8 4 show ?thesis
      by (auto simp: bigsize_bytes_def)
  qed
qed

text \<open>
  \<^verbatim>\<open>readBigSize\<close> accepts exactly the canonical encodings.  From a reader whose
  cursor is inside its buffer it returns \<open>v\<close> if and only if \<open>v\<close> fits in 64 bits and the unread
  bytes start with the one encoding of \<open>v\<close> that has no shorter form, and it then leaves exactly
  the bytes behind that encoding unread.  In particular the shorter or longer encodings of the
  same number are refused.
\<close>

theorem readBigSize_canonical:
  assumes "br_good r"
  shows "(\<exists>r'. br_readBigSize r = (Inr v, r') \<and> br_content r' = rest)
     \<longleftrightarrow> v < 2 ^ 64 \<and> br_content r = bigsize_bytes v @ rest"
proof
  assume "\<exists>r'. br_readBigSize r = (Inr v, r') \<and> br_content r' = rest"
  then show "v < 2 ^ 64 \<and> br_content r = bigsize_bytes v @ rest"
    using readBigSize_Inr [OF _ assms] by blast
next
  assume "v < 2 ^ 64 \<and> br_content r = bigsize_bytes v @ rest"
  with assms reads_readBigSize [of v] show
    "\<exists>r'. br_readBigSize r = (Inr v, r') \<and> br_content r' = rest"
    by (metis readsE)
qed

theorem readBigSize_canonical_witness:
  "(\<exists>r'. br_readBigSize (newBufferReader [0xfd, 0x01, 0x00, 0x07]) = (Inr 256, r') \<and>
         br_content r' = [0x07])
   \<and> \<not> (\<exists>r'. br_readBigSize (newBufferReader [0xfd, 0x00, 0x07]) = (Inr 7, r') \<and>
         br_content r' = [])"
  using readBigSize_canonical [of "newBufferReader [0xfd, 0x01, 0x00, 0x07]" 256 "[0x07]"]
    readBigSize_canonical [of "newBufferReader [0xfd, 0x00, 0x07]" 7 "[]"]
  by (simp add: bigsize_bytes_def be_bytes_def le_bytes_numeral)

end
