(* ===== verification/ByteSink.thy ===== *)
theory ByteSink
  imports ByteSource
begin

text \<open>
  The interface through which every serializer of the repository produces bytes: a sink
  with some room left, to which the fixed-width integers, byte strings and the
  variable-length integers are appended.  \<^verbatim>\<open>BufferWriter\<close> provides it in both of
  its modes.
\<close>

locale byte_sink =
  fixes good :: "'s \<Rightarrow> bool"
    and out :: "'s \<Rightarrow> buffer"
    and room :: "'s \<Rightarrow> nat"
    and w8 w16le w16be w32le w32be w64le w64be :: "nat \<Rightarrow> ('s, unit) io"
    and wbytes :: "buffer \<Rightarrow> ('s, unit) io"
  assumes w8: "v < 256 \<Longrightarrow> writes good out room (w8 v) (le_bytes 1 v)"
    and w16le: "v < 256 ^ 2 \<Longrightarrow> writes good out room (w16le v) (le_bytes 2 v)"
    and w16be: "v < 256 ^ 2 \<Longrightarrow> writes good out room (w16be v) (be_bytes 2 v)"
    and w32le: "v < 256 ^ 4 \<Longrightarrow> writes good out room (w32le v) (le_bytes 4 v)"
    and w32be: "v < 256 ^ 4 \<Longrightarrow> writes good out room (w32be v) (be_bytes 4 v)"
    and w64le: "v < 256 ^ 8 \<Longrightarrow> writes good out room (w64le v) (le_bytes 8 v)"
    and w64be: "v < 256 ^ 8 \<Longrightarrow> writes good out room (w64be v) (be_bytes 8 v)"
    and wbytes: "writes good out room (wbytes bs) bs"
begin

lemma tagged:
  assumes "t < 256" "writes good out room m cs"
  shows "writes good out room (then_io (w8 t) m) (of_nat t # cs)"
  using writes_then [OF w8 [OF assms(1)], of m cs] assms(2)
  by (simp only: one_byte append_Cons append_Nil)

lemma varint:
  assumes "v < 2 ^ 64"
  shows "writes good out room
     (if v < 0xfd then w8 v
      else if v < 0x10000 then then_io (w8 0xfd) (w16le v)
      else if v < 0x100000000 then then_io (w8 0xfe) (w32le v)
      else then_io (w8 0xff) (w64le v)) (varint_bytes v)"
proof -
  consider "v < 0xfd" | "0xfd \<le> v" "v < 0x10000" | "0x10000 \<le> v" "v < 0x100000000"
    | "0x100000000 \<le> v" by linarith
  then show ?thesis
  proof cases
    case 1
    then show ?thesis using w8 [of v] by (simp add: varint_bytes_def del: le_bytes.simps One_nat_def)
  next
    case 2
    then show ?thesis using tagged [of "0xfd" "w16le v" "le_bytes 2 v"] w16le [of v]
      by (simp add: varint_bytes_def)
  next
    case 3
    then show ?thesis using tagged [of "0xfe" "w32le v" "le_bytes 4 v"] w32le [of v]
      by (simp add: varint_bytes_def)
  next
    case 4
    then show ?thesis using tagged [of "0xff" "w64le v" "le_bytes 8 v"] w64le [of v] assms
      by (simp add: varint_bytes_def)
  qed
qed

lemma bigsize:
  assumes "v < 2 ^ 64"
  shows "writes good out room
     (if v < 0xfd then w8 v
      else if v < 0x10000 then then_io (w8 0xfd) (w16be v)
      else if v < 0x100000000 then then_io (w8 0xfe) (w32be v)
      else then_io (w8 0xff) (w64be v)) (bigsize_bytes v)"
proof -
  consider "v < 0xfd" | "0xfd \<le> v" "v < 0x10000" | "0x10000 \<le> v" "v < 0x100000000"
    | "0x100000000 \<le> v" by linarith
  then show ?thesis
  proof cases
    case 1
    then show ?thesis using w8 [of v]
      by (simp add: bigsize_bytes_def one_byte del: le_bytes.simps One_nat_def)
  next
    case 2
    then show ?thesis using tagged [of "0xfd" "w16be v" "be_bytes 2 v"] w16be [of v]
      by (simp add: bigsize_bytes_def)
  next
    case 3
    then show ?thesis using tagged [of "0xfe" "w32be v" "be_bytes 4 v"] w32be [of v]
      by (simp add: bigsize_bytes_def)
  next
    case 4
    then show ?thesis using tagged [of "0xff" "w64be v" "be_bytes 8 v"] w64be [of v] assms
      by (simp add: bigsize_bytes_def)
  qed
qed

end

end
