(* ===== verification/BufferWriter.thy ===== *)
theory BufferWriter
  imports ByteSink
begin

text \<open>
  \<^verbatim>\<open>packages/bufio/lib/BufferWriter.ts\<close>, \<^verbatim>\<open>encodeVarInt.ts\<close>,
  \<^verbatim>\<open>varIntBytes.ts\<close> and \<^verbatim>\<open>UintBytes.ts\<close>: a writer over a fixed
  buffer or over one that it grows to the next power of two.  The writer is shown to refine
  appending to a byte list, in both modes, by interpreting \<open>byte_sink\<close>.
\<close>

section \<open>The writer and its operations\<close>

record buffer_writer =
  bw_position :: nat
  bw_fixed :: bool
  bw_buffer :: buffer

definition newBufferWriter :: "buffer option \<Rightarrow> buffer_writer" where
  "newBufferWriter b =
     \<lparr>bw_position = 0, bw_fixed = (b \<noteq> None), bw_buffer = (case b of None \<Rightarrow> [] | Some x \<Rightarrow> x)\<rparr>"

definition bw_size :: "buffer_writer \<Rightarrow> nat" where
  "bw_size w = bw_position w"

definition bw_toBuffer :: "buffer_writer \<Rightarrow> buffer" where
  "bw_toBuffer w = (if bw_fixed w then bw_buffer w else take (bw_position w) (bw_buffer w))"

definition bw_toHex :: "buffer_writer \<Rightarrow> nat list" where
  "bw_toHex w = bufToHex (bw_toBuffer w)"

text \<open>\<open>ceilLog2 n\<close> is \<^verbatim>\<open>Math.ceil(Math.log2(n))\<close> for a positive \<open>n\<close>.\<close>

fun ceilLog2 :: "nat \<Rightarrow> nat" where
  "ceilLog2 n = (if n \<le> 1 then 0 else Suc (ceilLog2 ((n + 1) div 2)))"

declare ceilLog2.simps [simp del]

definition uintBytes :: "nat \<Rightarrow> nat" where
  "uintBytes num = (ceilLog2 (num + 1) + 7) div 8"

text \<open>\<open>copyInto src dst at\<close> is \<^verbatim>\<open>src.copy(dst, at)\<close>: what does not fit is not copied.\<close>

definition copyInto :: "buffer \<Rightarrow> buffer \<Rightarrow> nat \<Rightarrow> buffer" where
  "copyInto src dst at =
     (if at \<ge> length dst then dst
      else let n = min (length src) (length dst - at)
           in take at dst @ take n src @ drop (at + n) dst)"

text \<open>
  \<^verbatim>\<open>_expand\<close>.  The new length is \<^verbatim>\<open>1 << k\<close>, a 32-bit shift: the count is taken
  modulo 32 and a shift by 31 is negative, which \<^verbatim>\<open>Buffer.alloc\<close> refuses.
\<close>

definition bw_expand :: "nat \<Rightarrow> (buffer_writer, unit) io" where
  "bw_expand needed = (\<lambda>w.
     let required = bw_position w + needed
     in if bw_fixed w \<and> required > length (bw_buffer w) then (Inl RangeError, w)
        else if length (bw_buffer w) < required then
          (let k = ceilLog2 required mod 32
           in if k = 31 then (Inl RangeError, w)
              else (Inr (), w\<lparr>bw_buffer := copyInto (bw_buffer w) (replicate (2 ^ k) 0) 0\<rparr>))
        else (Inr (), w))"

text \<open>
  \<open>bw_store enc len val\<close> is a built-in write of \<open>len\<close> bytes at the position, followed by the
  position's advance; the built-in throws if the value or the offset is out of range.
\<close>

definition bw_store :: "(nat \<Rightarrow> nat \<Rightarrow> buffer) \<Rightarrow> nat \<Rightarrow> nat \<Rightarrow> (buffer_writer, unit) io" where
  "bw_store enc len val = (\<lambda>w.
     if val \<ge> 256 ^ len \<or> bw_position w + len > length (bw_buffer w) then (Inl RangeError, w)
     else (Inr (), w\<lparr>bw_buffer := copyInto (enc len val) (bw_buffer w) (bw_position w),
                     bw_position := bw_position w + len\<rparr>))"

definition bw_writeStandard :: "(nat \<Rightarrow> nat \<Rightarrow> buffer) \<Rightarrow> nat \<Rightarrow> nat \<Rightarrow> (buffer_writer, unit) io" where
  "bw_writeStandard enc val len = then_io (bw_expand len) (bw_store enc len val)"

definition bw_writeUInt8 :: "nat \<Rightarrow> (buffer_writer, unit) io" where
  "bw_writeUInt8 val = bw_writeStandard le_bytes val 1"

definition bw_writeUInt16LE :: "nat \<Rightarrow> (buffer_writer, unit) io" where
  "bw_writeUInt16LE val = bw_writeStandard le_bytes val 2"

definition bw_writeUInt16BE :: "nat \<Rightarrow> (buffer_writer, unit) io" where
  "bw_writeUInt16BE val = bw_writeStandard be_bytes val 2"

definition bw_writeUInt32LE :: "nat \<Rightarrow> (buffer_writer, unit) io" where
  "bw_writeUInt32LE val = bw_writeStandard le_bytes val 4"

definition bw_writeUInt32BE :: "nat \<Rightarrow> (buffer_writer, unit) io" where
  "bw_writeUInt32BE val = bw_writeStandard be_bytes val 4"

definition bw_writeBytes :: "buffer \<Rightarrow> (buffer_writer, unit) io" where
  "bw_writeBytes buf =
     (if buf = [] then return_io ()
      else then_io (bw_expand (length buf))
        (update_io (\<lambda>w. w\<lparr>bw_buffer := copyInto buf (bw_buffer w) (bw_position w),
                          bw_position := bw_position w + length buf\<rparr>)))"

definition bw_writeUInt64LE :: "int \<Rightarrow> (buffer_writer, unit) io" where
  "bw_writeUInt64LE val =
     (if val < 0 \<or> val \<ge> 2 ^ 64 then throw_io RangeError
      else bw_writeBytes (rev (hexToBuf (padStart 16 (hexDigits (nat val))))))"

definition bw_writeUInt64BE :: "int \<Rightarrow> (buffer_writer, unit) io" where
  "bw_writeUInt64BE val =
     (if val < 0 \<or> val \<ge> 2 ^ 64 then throw_io RangeError
      else bw_writeBytes (hexToBuf (padStart 16 (hexDigits (nat val)))))"

text \<open>The built-in writes of a given byte count take 1 to 6 bytes.\<close>

definition bw_writeUIntLE :: "nat \<Rightarrow> nat \<Rightarrow> (buffer_writer, unit) io" where
  "bw_writeUIntLE val len =
     (if uintBytes val > len then throw_io RangeError
      else then_io (bw_expand len)
        (if len < 1 \<or> len > 6 then throw_io RangeError else bw_store le_bytes len val))"

definition bw_writeUIntBE :: "nat \<Rightarrow> nat \<Rightarrow> (buffer_writer, unit) io" where
  "bw_writeUIntBE val len =
     (if uintBytes val > len then throw_io RangeError
      else then_io (bw_expand len)
        (if len < 1 \<or> len > 6 then throw_io RangeError else bw_store be_bytes len val))"

definition bw_writeVarInt :: "nat \<Rightarrow> (buffer_writer, unit) io" where
  "bw_writeVarInt num =
     (if num < 0xfd then bw_writeUInt8 num
      else if num < 0x10000 then then_io (bw_writeUInt8 0xfd) (bw_writeUInt16LE num)
      else if num < 0x100000000 then then_io (bw_writeUInt8 0xfe) (bw_writeUInt32LE num)
      else then_io (bw_writeUInt8 0xff) (bw_writeUInt64LE (int num)))"

definition bw_writeBigSize :: "nat \<Rightarrow> (buffer_writer, unit) io" where
  "bw_writeBigSize num =
     (if num < 0xfd then bw_writeUInt8 num
      else if num < 0x10000 then then_io (bw_writeUInt8 0xfd) (bw_writeUInt16BE num)
      else if num < 0x100000000 then then_io (bw_writeUInt8 0xfe) (bw_writeUInt32BE num)
      else then_io (bw_writeUInt8 0xff) (bw_writeUInt64BE (int num)))"

definition bw_writeTUInt16 :: "nat \<Rightarrow> (buffer_writer, unit) io" where
  "bw_writeTUInt16 val =
     (if val = 0 then return_io ()
      else let size = (if val > 0xff then 2 else 1)
           in then_io (bw_expand size) (bw_store be_bytes size val))"

definition bw_writeTUInt32 :: "nat \<Rightarrow> (buffer_writer, unit) io" where
  "bw_writeTUInt32 val =
     (if val = 0 then return_io ()
      else let size = (if val > 0xffffff then 4 else if val > 0xffff then 3
                       else if val > 0xff then 2 else 1)
           in then_io (bw_expand size) (bw_store be_bytes size val))"

definition bw_writeTUInt64 :: "nat \<Rightarrow> (buffer_writer, unit) io" where
  "bw_writeTUInt64 val =
     (if val = 0 then return_io ()
      else let valString = hexDigits val;
               valString' = (if length valString mod 2 = 1 then 0 # valString else valString)
           in bw_writeBytes (hexToBuf valString'))"

text \<open>A whole use of a writer: construct it, run the writes, take the buffer.\<close>

definition runWriter :: "buffer option \<Rightarrow> (buffer_writer, unit) io \<Rightarrow> buffer res" where
  "runWriter b m =
     (case m (newBufferWriter b) of (Inl e, _) \<Rightarrow> Inl e | (Inr _, w) \<Rightarrow> Inr (bw_toBuffer w))"

text \<open>The stand-alone encoder and the size function of the variable-length integers.\<close>

definition encodeVarInt :: "nat \<Rightarrow> buffer res" where
  "encodeVarInt i =
     (if i < 0xfd then Inr [of_nat i]
      else if i < 0x10000 then Inr (0xfd # le_bytes 2 i)
      else if i < 0x100000000 then Inr (0xfe # le_bytes 4 i)
      else if i < 0x10000000000000000 then Inr (0xff # le_bytes 8 i)
      else Inl (JsError ''Integer too large''))"

definition varIntBytes :: "int \<Rightarrow> int res" where
  "varIntBytes val =
     (if val < 0 then Inl (JsError ''Invalid varint'')
      else if val < 0xfd then Inr 1
      else if val \<le> 0xffff then Inr 3
      else if val \<le> 0xffffffff then Inr 5
      else if val \<le> 0xffffffffffffffff then Inr 9
      else Inl (JsError ''Invalid varint''))"

section \<open>Refinement to an append-only list\<close>

definition bw_good :: "bool \<Rightarrow> buffer_writer \<Rightarrow> bool" where
  "bw_good f w \<longleftrightarrow> bw_fixed w = f \<and> bw_position w \<le> length (bw_buffer w)"

definition bw_out :: "buffer_writer \<Rightarrow> buffer" where
  "bw_out w = take (bw_position w) (bw_buffer w)"

definition bw_room :: "buffer_writer \<Rightarrow> nat" where
  "bw_room w = (if bw_fixed w then length (bw_buffer w) else 2 ^ 30) - bw_position w"

lemma ceilLog2_le: "n \<le> 2 ^ k \<Longrightarrow> ceilLog2 n \<le> k"
proof (induction k arbitrary: n)
  case 0
  then show ?case by (simp add: ceilLog2.simps [of n])
next
  case (Suc k)
  then have "(n + 1) div 2 \<le> 2 ^ k" by simp
  then show ?case using Suc.IH by (simp add: ceilLog2.simps [of n])
qed

lemma le_ceilLog2: "n \<le> 2 ^ ceilLog2 n"
proof (induction n rule: ceilLog2.induct)
  case (1 n)
  show ?case
  proof (cases "n \<le> 1")
    case True
    then show ?thesis by (simp add: ceilLog2.simps [of n])
  next
    case False
    with 1 have "(n + 1) div 2 \<le> 2 ^ ceilLog2 ((n + 1) div 2)" by simp
    with False show ?thesis by (simp add: ceilLog2.simps [of n])
  qed
qed

lemma ceilLog2_le_iff: "ceilLog2 n \<le> k \<longleftrightarrow> n \<le> 2 ^ k"
proof
  assume "ceilLog2 n \<le> k"
  then have "(2::nat) ^ ceilLog2 n \<le> 2 ^ k" by simp
  with le_ceilLog2 show "n \<le> 2 ^ k" by (rule order_trans)
qed (rule ceilLog2_le)

lemma uintBytes_le: "uintBytes v \<le> n \<longleftrightarrow> v < 256 ^ n"
proof -
  have "uintBytes v \<le> n \<longleftrightarrow> ceilLog2 (v + 1) \<le> 8 * n" by (auto simp: uintBytes_def)
  also have "\<dots> \<longleftrightarrow> v + 1 \<le> 2 ^ (8 * n)" by (rule ceilLog2_le_iff)
  also have "(2::nat) ^ (8 * n) = 256 ^ n" by (simp add: power_mult)
  finally show ?thesis by auto
qed

lemma copyInto_fits:
  assumes "at + length src \<le> length dst" "src \<noteq> []"
  shows "copyInto src dst at = take at dst @ src @ drop (at + length src) dst"
  using assms by (auto simp: copyInto_def min_def neq_Nil_conv)

lemma expand_ok:
  assumes "bw_good f w" "n \<le> bw_room w" "0 < n"
  shows "\<exists>w'. bw_expand n w = (Inr (), w') \<and> bw_position w' = bw_position w
     \<and> bw_fixed w' = bw_fixed w \<and> bw_position w + n \<le> length (bw_buffer w')
     \<and> bw_out w' = bw_out w \<and> (bw_fixed w \<longrightarrow> length (bw_buffer w') = length (bw_buffer w))"
proof (cases "length (bw_buffer w) < bw_position w + n")
  case False
  then show ?thesis by (auto simp: bw_expand_def Let_def)
next
  case True
  let ?k = "ceilLog2 (bw_position w + n)"
  have "\<not> bw_fixed w" and le: "bw_position w + n \<le> 2 ^ 30"
    using assms True by (auto simp: bw_room_def split: if_splits)
  then have k: "?k mod 32 = ?k" "?k \<noteq> 31" using ceilLog2_le [OF le] by auto
  have len: "bw_position w + n \<le> 2 ^ ?k" by (rule le_ceilLog2)
  let ?b = "copyInto (bw_buffer w) (replicate (2 ^ ?k) 0) 0"
  have "length (bw_buffer w) < 2 ^ ?k" using True len by linarith
  then have "?b = bw_buffer w @ replicate (2 ^ ?k - length (bw_buffer w)) 0"
    by (auto simp: copyInto_def min_def)
  then show ?thesis using True k len assms(1) \<open>\<not> bw_fixed w\<close>
    by (auto simp: bw_expand_def Let_def bw_out_def bw_good_def)
qed

lemma store_ok:
  assumes "bw_position w + n \<le> length (bw_buffer w)" "length bs = n" "0 < n"
  defines "w' \<equiv> w\<lparr>bw_buffer := copyInto bs (bw_buffer w) (bw_position w),
                   bw_position := bw_position w + n\<rparr>"
  shows "bw_good (bw_fixed w) w'" "bw_out w' = bw_out w @ bs" "length (bw_buffer w') = length (bw_buffer w)"
    "bw_position w' = bw_position w + n" "bw_fixed w' = bw_fixed w"
proof -
  have c: "copyInto bs (bw_buffer w) (bw_position w) =
      take (bw_position w) (bw_buffer w) @ bs @ drop (bw_position w + n) (bw_buffer w)"
    using assms by (subst copyInto_fits) auto
  show "bw_good (bw_fixed w) w'" "bw_out w' = bw_out w @ bs" "length (bw_buffer w') = length (bw_buffer w)"
    "bw_position w' = bw_position w + n" "bw_fixed w' = bw_fixed w"
    using assms c by (auto simp: bw_good_def bw_out_def)
qed

lemma writes_expanded:
  assumes "length bs = n" "0 < n"
    and "\<And>w. bw_position w + n \<le> length (bw_buffer w) \<Longrightarrow>
      m w = (Inr (), w\<lparr>bw_buffer := copyInto bs (bw_buffer w) (bw_position w),
                       bw_position := bw_position w + n\<rparr>)"
  shows "writes (bw_good f) bw_out bw_room (then_io (bw_expand n) m) bs"
proof (rule writesI)
  fix w assume w: "bw_good f w" "length bs \<le> bw_room w"
  obtain w1 where w1: "bw_expand n w = (Inr (), w1)" "bw_position w1 = bw_position w"
    "bw_fixed w1 = bw_fixed w" "bw_position w + n \<le> length (bw_buffer w1)"
    "bw_out w1 = bw_out w" "bw_fixed w \<longrightarrow> length (bw_buffer w1) = length (bw_buffer w)"
    using expand_ok [OF w(1), of n] w(2) assms by auto
  let ?w2 = "w1\<lparr>bw_buffer := copyInto bs (bw_buffer w1) (bw_position w1),
                bw_position := bw_position w1 + n\<rparr>"
  note s = store_ok [of w1 n bs]
  have "m w1 = (Inr (), ?w2)" using w1 by (intro assms) simp
  moreover have "bw_good f ?w2" "bw_out ?w2 = bw_out w @ bs" "bw_room ?w2 = bw_room w - length bs"
    using s w1 w(1) assms by (auto simp: bw_room_def bw_good_def)
  ultimately show "\<exists>s'. then_io (bw_expand n) m w = (Inr (), s') \<and> bw_good f s' \<and>
      bw_out s' = bw_out w @ bs \<and> bw_room s' = bw_room w - length bs"
    using w1(1) by (simp add: then_io_apply)
qed

lemma writes_writeStandard:
  assumes "\<And>v. length (enc n v) = n" "v < 256 ^ n" "0 < n"
  shows "writes (bw_good f) bw_out bw_room (bw_writeStandard enc v n) (enc n v)"
  unfolding bw_writeStandard_def
  using assms by (intro writes_expanded) (auto simp: bw_store_def)

lemma writes_writeUInt_len:
  assumes "v < 256 ^ n" "1 \<le> n" "n \<le> 6"
  shows "writes (bw_good f) bw_out bw_room (bw_writeUIntLE v n) (le_bytes n v)"
    "writes (bw_good f) bw_out bw_room (bw_writeUIntBE v n) (be_bytes n v)"
  using assms uintBytes_le [of v n] unfolding bw_writeUIntLE_def bw_writeUIntBE_def
  by (auto intro!: writes_expanded simp: bw_store_def)

lemma writes_writeBytes: "writes (bw_good f) bw_out bw_room (bw_writeBytes bs) bs"
proof (cases "bs = []")
  case True
  then show ?thesis by (simp add: bw_writeBytes_def writes_return)
next
  case False
  then show ?thesis
    by (simp add: bw_writeBytes_def) (intro writes_expanded, auto simp: update_io_apply)
qed

lemma hex64: "v < 2 ^ 64 \<Longrightarrow> hexToBuf (padStart 16 (hexDigits v)) = be_bytes 8 v"
  using padStart_hexDigits [of v 16] hexToBuf_fixedHex [of 8 v] by simp

interpretation bw: byte_sink "bw_good f" bw_out bw_room bw_writeUInt8 bw_writeUInt16LE
  bw_writeUInt16BE bw_writeUInt32LE bw_writeUInt32BE "\<lambda>n. bw_writeUInt64LE (int n)" "\<lambda>n. bw_writeUInt64BE (int n)"
  bw_writeBytes for f
proof (unfold_locales, goal_cases)
  case (1 v)
  then show ?case unfolding bw_writeUInt8_def by (intro writes_writeStandard) simp_all
next
  case (2 v)
  then show ?case unfolding bw_writeUInt16LE_def by (intro writes_writeStandard) simp_all
next
  case (3 v)
  then show ?case unfolding bw_writeUInt16BE_def by (intro writes_writeStandard) simp_all
next
  case (4 v)
  then show ?case unfolding bw_writeUInt32LE_def by (intro writes_writeStandard) simp_all
next
  case (5 v)
  then show ?case unfolding bw_writeUInt32BE_def by (intro writes_writeStandard) simp_all
next
  case (6 v)
  then show ?case using writes_writeBytes [of f "le_bytes 8 v"]
    by (simp add: bw_writeUInt64LE_def hex64) (simp add: be_bytes_def)
next
  case (7 v)
  then show ?case using writes_writeBytes [of f "be_bytes 8 v"]
    by (simp add: bw_writeUInt64BE_def hex64)
next
  case (8 bs)
  show ?case by (rule writes_writeBytes)
qed

lemmas bw_writes = writes_return writes_writeBytes bw.w8 bw.w16le bw.w16be bw.w32le bw.w32be
  bw.w64le bw.w64be

lemma writes_writeVarInt:
  "v < 2 ^ 64 \<Longrightarrow> writes (bw_good f) bw_out bw_room (bw_writeVarInt v) (varint_bytes v)"
  unfolding bw_writeVarInt_def by (rule bw.varint)

lemma writes_writeBigSize:
  "v < 2 ^ 64 \<Longrightarrow> writes (bw_good f) bw_out bw_room (bw_writeBigSize v) (bigsize_bytes v)"
  unfolding bw_writeBigSize_def by (rule bw.bigsize)

lemma runWriter_growing:
  assumes "writes (bw_good False) bw_out bw_room m bs" "length bs \<le> 2 ^ 30"
  shows "runWriter None m = Inr bs"
proof -
  have "bw_good False (newBufferWriter None)" "length bs \<le> bw_room (newBufferWriter None)"
    "bw_out (newBufferWriter None) = []"
    using assms(2) by (simp_all add: bw_good_def bw_room_def newBufferWriter_def bw_out_def)
  with assms(1) obtain w where "m (newBufferWriter None) = (Inr (), w)" "bw_out w = bs"
    "bw_good False w"
    by (auto elim: writesE)
  then show ?thesis by (simp add: runWriter_def bw_toBuffer_def bw_out_def bw_good_def)
qed

lemma runWriter_fixed:
  assumes "writes (bw_good True) bw_out bw_room m bs" "length bs = length b"
  shows "runWriter (Some b) m = Inr bs"
proof -
  have "bw_good True (newBufferWriter (Some b))" "bw_out (newBufferWriter (Some b)) = []"
    "bw_room (newBufferWriter (Some b)) = length bs"
    using assms(2) by (simp_all add: bw_good_def bw_room_def newBufferWriter_def bw_out_def)
  with assms(1) obtain w where "m (newBufferWriter (Some b)) = (Inr (), w)" "bw_out w = bs"
    "bw_good True w" "bw_room w = 0"
    by (auto elim: writesE)
  then show ?thesis by (simp add: runWriter_def bw_toBuffer_def bw_out_def bw_good_def bw_room_def)
qed

lemma encodeVarInt_eq:
  "encodeVarInt v = (if v < 2 ^ 64 then Inr (varint_bytes v) else Inl (JsError ''Integer too large''))"
  by (simp add: encodeVarInt_def varint_bytes_def)

lemma varIntBytes_eq: "v < 2 ^ 64 \<Longrightarrow> varIntBytes (int v) = Inr (int (length (varint_bytes v)))"
  by (simp add: varIntBytes_def length_varint_bytes)

end
