(* ===== verification/StreamReader.thy ===== *)
theory StreamReader
  imports BufferReader BufferWriter
begin

text \<open>
  \<^verbatim>\<open>packages/bufio/lib/StreamReader.ts\<close> over a stream made by
  \<^verbatim>\<open>bufToStream\<close>: a buffer pushed and then ended.  The state is what the stream still
  holds.  \<^verbatim>\<open>read(n)\<close> of such a stream returns the next \<open>n\<close> bytes, or all that is left when
  it holds fewer, or null when it holds nothing; the reader turns a short result into an
  exception, and what was left is then gone.
\<close>

section \<open>The stream and the reader's operations\<close>

definition stream_read :: "nat option \<Rightarrow> buffer \<Rightarrow> buffer option \<times> buffer" where
  "stream_read n s =
     (case n of
        Some k \<Rightarrow>
          if k = 0 \<or> s = [] then (None, s)
          else if k \<le> length s then (Some (take k s), drop k s)
          else (Some s, [])
      | None \<Rightarrow> if s = [] then (None, s) else (Some s, []))"

definition sr_readBytes :: "nat option \<Rightarrow> (buffer, buffer) io" where
  "sr_readBytes n = (\<lambda>s.
     let (bytes, s') = stream_read n s
     in case n of
          Some k \<Rightarrow>
            if k = 0 then (Inr [], s')
            else (case bytes of
                    None \<Rightarrow> (Inl RangeError, s')
                  | Some b \<Rightarrow> if length b \<noteq> k then (Inl RangeError, s') else (Inr b, s'))
        | None \<Rightarrow> (case bytes of None \<Rightarrow> (Inr [], s') | Some b \<Rightarrow> (Inr b, s')))"

definition sr_readUIntLE :: "nat \<Rightarrow> (buffer, nat) io" where
  "sr_readUIntLE n = bind_io (sr_readBytes (Some n)) (\<lambda>b.
     if n < 1 \<or> n > 6 then throw_io RangeError else return_io (le_val b))"

definition sr_readUIntBE :: "nat \<Rightarrow> (buffer, nat) io" where
  "sr_readUIntBE n = bind_io (sr_readBytes (Some n)) (\<lambda>b.
     if n < 1 \<or> n > 6 then throw_io RangeError else return_io (be_val b))"

definition sr_readUInt8 :: "(buffer, nat) io" where
  "sr_readUInt8 = bind_io (sr_readBytes (Some 1)) (\<lambda>b. return_io (le_val b))"

definition sr_readUInt16LE :: "(buffer, nat) io" where
  "sr_readUInt16LE = bind_io (sr_readBytes (Some 2)) (\<lambda>b. return_io (le_val b))"

definition sr_readUInt16BE :: "(buffer, nat) io" where
  "sr_readUInt16BE = bind_io (sr_readBytes (Some 2)) (\<lambda>b. return_io (be_val b))"

definition sr_readUInt32LE :: "(buffer, nat) io" where
  "sr_readUInt32LE = bind_io (sr_readBytes (Some 4)) (\<lambda>b. return_io (le_val b))"

definition sr_readUInt32BE :: "(buffer, nat) io" where
  "sr_readUInt32BE = bind_io (sr_readBytes (Some 4)) (\<lambda>b. return_io (be_val b))"

definition sr_readBigUInt64LE :: "(buffer, nat) io" where
  "sr_readBigUInt64LE = bind_io (sr_readBytes (Some 8)) (\<lambda>b. return_io (le_val b))"

definition sr_readBigUInt64BE :: "(buffer, nat) io" where
  "sr_readBigUInt64BE = bind_io (sr_readBytes (Some 8)) (\<lambda>b. return_io (be_val b))"

definition sr_readVarInt :: "(buffer, nat) io" where
  "sr_readVarInt = bind_io sr_readUInt8 (\<lambda>byte.
     if byte < 0xfd then return_io byte
     else if byte = 0xfd then sr_readUInt16LE
     else if byte = 0xfe then sr_readUInt32LE
     else sr_readBigUInt64LE)"

definition sr_readBigSize :: "(buffer, nat) io" where
  "sr_readBigSize = bind_io sr_readUInt8 (\<lambda>byte.
     if byte < 0xfd then return_io byte
     else if byte = 0xfd then sr_readUInt16BE
     else if byte = 0xfe then sr_readUInt32BE
     else sr_readBigUInt64BE)"

definition sr_unshift :: "buffer \<Rightarrow> (buffer, unit) io" where
  "sr_unshift chunk = update_io (\<lambda>s. chunk @ s)"

section \<open>The reader provides the byte-source interface\<close>

definition sr_good :: "buffer \<Rightarrow> bool" where
  "sr_good s \<longleftrightarrow> True"

definition sr_content :: "buffer \<Rightarrow> buffer" where
  "sr_content s = s"

definition sr_mark :: "nat \<Rightarrow> (buffer, unit) io" where
  "sr_mark n = return_io ()"

lemma sr_readBytes_Some:
  "sr_readBytes (Some n) s =
     (if n \<le> length s then (Inr (take n s), drop n s) else (Inl RangeError, []))"
  by (cases s) (auto simp: sr_readBytes_def stream_read_def split: prod.splits)

lemma reads_sr_readBytes: "reads sr_good sr_content (sr_readBytes (Some (length bs))) bs bs"
  by (rule readsI) (simp add: sr_content_def sr_good_def sr_readBytes_Some)

lemma reads_sr:
  assumes "length bs = n" "f bs = v"
  shows "reads sr_good sr_content (bind_io (sr_readBytes (Some n)) (\<lambda>b. return_io (f b))) bs v"
  using reads_bind_last [OF reads_sr_readBytes [of bs], of "\<lambda>b. return_io (f b)" v] assms
  by (simp add: return_io_apply)

interpretation sr: byte_source sr_good sr_content sr_mark sr_readUInt8 sr_readUInt16LE
  sr_readUInt16BE sr_readUInt32LE sr_readUInt32BE sr_readBigUInt64LE sr_readBigUInt64BE
  "\<lambda>n. sr_readBytes (Some n)"
proof (unfold_locales, goal_cases)
  case (1 n)
  show ?case by (simp add: sr_mark_def reads_return)
next
  case (2 v)
  then show ?case unfolding sr_readUInt8_def
    by (intro reads_sr) (simp_all del: le_bytes.simps One_nat_def)
next
  case (3 v)
  then show ?case unfolding sr_readUInt16LE_def by (intro reads_sr) simp_all
next
  case (4 v)
  then show ?case unfolding sr_readUInt16BE_def by (intro reads_sr) simp_all
next
  case (5 v)
  then show ?case unfolding sr_readUInt32LE_def by (intro reads_sr) simp_all
next
  case (6 v)
  then show ?case unfolding sr_readUInt32BE_def by (intro reads_sr) simp_all
next
  case (7 v)
  then show ?case unfolding sr_readBigUInt64LE_def by (intro reads_sr) simp_all
next
  case (8 v)
  then show ?case unfolding sr_readBigUInt64BE_def by (intro reads_sr) simp_all
next
  case (9 bs)
  show ?case by (rule reads_sr_readBytes)
next
  case (10 s n)
  then show ?case by (simp add: sr_content_def sr_readBytes_Some)
qed

lemma then_sr_mark: "then_io (sr_mark n) m = m"
  by (rule ext) (simp add: sr_mark_def io_simps)

lemma reads_sr_readVarInt: "v < 2 ^ 64 \<Longrightarrow> reads sr_good sr_content sr_readVarInt (varint_bytes v) v"
  unfolding sr_readVarInt_def using sr.varint [of v] by (simp only: then_sr_mark)

lemma bind_return: "bind_io m return_io = m"
  by (rule ext) (simp add: io_simps split: prod.splits sum.splits)

lemma reads_sr_readBigSize:
  "v < 2 ^ 64 \<Longrightarrow> reads sr_good sr_content sr_readBigSize (bigsize_bytes v) v"
  unfolding sr_readBigSize_def
  using sr.bigsize [of v return_io return_io return_io]
  by (simp only: then_sr_mark bind_return return_io_apply simp_thms)

text \<open>The form in which the parsers above the reader use it.\<close>

definition sreads :: "(buffer, 'a) io \<Rightarrow> buffer \<Rightarrow> 'a \<Rightarrow> bool" where
  "sreads m bs v \<longleftrightarrow> (\<forall>rest. m (bs @ rest) = (Inr v, rest))"

lemma sreads_iff: "reads sr_good sr_content m bs v \<longleftrightarrow> sreads m bs v"
  by (auto simp: reads_def sreads_def sr_good_def sr_content_def)

lemmas sreads_bind = reads_bind [of sr_good sr_content, unfolded sreads_iff]
lemmas sreads_return = reads_return [of sr_good sr_content, unfolded sreads_iff]
lemmas sreads_bind_last = reads_bind_last [of sr_good sr_content, unfolded sreads_iff]
lemmas sreads_repeat = reads_repeat [where good = sr_good and content = sr_content, unfolded sreads_iff]
lemmas sreads_ints = sr.u8 [unfolded sreads_iff] sr.u16le [unfolded sreads_iff]
  sr.u32le [unfolded sreads_iff] sr.u64le [unfolded sreads_iff]
  sr.u16be [unfolded sreads_iff] sr.u32be [unfolded sreads_iff] sr.u64be [unfolded sreads_iff]
lemmas sreads_bytes = sr.bytes [unfolded sreads_iff]
lemmas sreads_varint = reads_sr_readVarInt [unfolded sreads_iff]
lemmas sreads_bigsize = reads_sr_readBigSize [unfolded sreads_iff]

section \<open>Integers written by the writer and read back by both readers\<close>

text \<open>
  A number below \<open>2 ^ 64\<close> written with \<^verbatim>\<open>BufferWriter.writeVarInt\<close> or encoded with
  \<^verbatim>\<open>encodeVarInt\<close> gives the same bytes, as many as \<^verbatim>\<open>varIntBytes\<close> says; followed by
  any other bytes they are read back as that number by \<^verbatim>\<open>BufferReader.readVarUint\<close> and by
  \<^verbatim>\<open>StreamReader.readVarInt\<close>, which consume exactly those bytes.
\<close>

theorem varint_roundtrip:
  assumes "v < 2 ^ 64"
  shows "\<exists>bs. runWriter None (bw_writeVarInt v) = Inr bs \<and> encodeVarInt v = Inr bs
     \<and> varIntBytes (int v) = Inr (int (length bs))
     \<and> (\<exists>r. br_readVarUint (newBufferReader (bs @ rest)) = (Inr v, r) \<and> br_content r = rest)
     \<and> sr_readVarInt (bs @ rest) = (Inr v, rest)"
proof (rule exI [of _ "varint_bytes v"], intro conjI)
  show "runWriter None (bw_writeVarInt v) = Inr (varint_bytes v)"
    using length_varint_bytes_le [of v]
    by (intro runWriter_growing writes_writeVarInt [OF assms]) simp
  show "encodeVarInt v = Inr (varint_bytes v)" using assms by (simp add: encodeVarInt_eq)
  show "varIntBytes (int v) = Inr (int (length (varint_bytes v)))"
    using assms by (rule varIntBytes_eq)
  show "sr_readVarInt (varint_bytes v @ rest) = (Inr v, rest)"
    using sreads_varint [OF assms] by (simp add: sreads_def)
  show "\<exists>r. br_readVarUint (newBufferReader (varint_bytes v @ rest)) = (Inr v, r) \<and> br_content r = rest"
    using readsE [OF reads_readVarUint [OF assms] br_good_new br_content_new] by metis
qed

theorem varint_roundtrip_witness:
  "\<exists>bs. runWriter None (bw_writeVarInt 70000) = Inr bs \<and> encodeVarInt 70000 = Inr bs
     \<and> varIntBytes (int 70000) = Inr (int (length bs))
     \<and> (\<exists>r. br_readVarUint (newBufferReader (bs @ [7])) = (Inr 70000, r) \<and> br_content r = [7])
     \<and> sr_readVarInt (bs @ [7]) = (Inr 70000, [7])"
  by (rule varint_roundtrip) simp

lemma br_readUInt8_Cons:
  "br_readUInt8 (newBufferReader (b # bs)) =
     (Inr (unat b), \<lparr>br_buffer = b # bs, br_position = 1, br_lastReadBytes = 1\<rparr>)"
  by (simp add: br_readUInt8_def br_readStandard_def newBufferReader_def)

text \<open>
  The stream reader does not check that a \<^verbatim>\<open>BigSize\<close> is canonical: a number below
  \<open>0xfd\<close> behind the two-byte tag is read as that number by \<^verbatim>\<open>StreamReader.readBigSize\<close>,
  while \<^verbatim>\<open>BufferReader.readBigSize\<close> throws on the same bytes.
\<close>

theorem bigsize_readers_differ:
  assumes "v < 0xfd"
  shows "sr_readBigSize (0xfd # be_bytes 2 v @ rest) = (Inr v, rest)
     \<and> fst (br_readBigSize (newBufferReader (0xfd # be_bytes 2 v @ rest))) = Inl notCanonical"
proof
  have v: "v < 256 ^ 2" using assms by simp
  have "sr_readUInt8 (0xfd # be_bytes 2 v @ rest) = (Inr 0xfd, be_bytes 2 v @ rest)"
    by (simp add: sr_readUInt8_def io_simps sr_readBytes_Some)
  moreover have "sr_readUInt16BE (be_bytes 2 v @ rest) = (Inr v, rest)"
    using sr.u16be [OF v] by (simp add: sreads_iff sreads_def)
  ultimately show "sr_readBigSize (0xfd # be_bytes 2 v @ rest) = (Inr v, rest)"
    by (simp add: sr_readBigSize_def io_simps)
next
  let ?r = "\<lparr>br_buffer = 0xfd # be_bytes 2 v @ rest, br_position = 1, br_lastReadBytes = 3\<rparr>"
  have v: "v < 256 ^ 2" using assms by simp
  have "br_good ?r" "br_content ?r = be_bytes 2 v @ rest"
    by (simp_all add: br_good_def br_content_def)
  then obtain r where "br_readUInt16BE ?r = (Inr v, r)"
    using br.u16be [OF v] by (auto elim: readsE)
  then show "fst (br_readBigSize (newBufferReader (0xfd # be_bytes 2 v @ rest))) = Inl notCanonical"
    using assms by (simp add: br_readBigSize_def bind_io_apply br_readUInt8_Cons then_setLast
        throw_io_apply)
qed

theorem bigsize_readers_differ_witness:
  "sr_readBigSize (0xfd # be_bytes 2 7 @ []) = (Inr 7, [])
     \<and> fst (br_readBigSize (newBufferReader (0xfd # be_bytes 2 7 @ []))) = Inl notCanonical"
  by (rule bigsize_readers_differ) simp

section \<open>Truncated integers\<close>

definition tu_bytes :: "nat \<Rightarrow> buffer" where
  "tu_bytes v = be_bytes (calcBytes v) v"

lemma calcBytes_0 [simp]: "calcBytes 0 = 0"
  by (simp add: calcBytes.simps)

lemma find_calcBytes:
  assumes "v < 256 ^ 8"
  shows "find (\<lambda>i. v < 256 ^ i) [0..<9] = Some (calcBytes v)"
proof -
  have "calcBytes v \<le> 8" using assms by (simp add: calcBytes_le)
  moreover have "\<not> v < 256 ^ j" if "j < calcBytes v" for j
    using that calcBytes_le [of v j] by simp
  ultimately show ?thesis using less_calcBytes [of v]
    by (auto simp: find_Some_iff intro!: exI [of _ "calcBytes v"])
qed

lemma assertMinimal_iff:
  "v < 256 ^ 8 \<Longrightarrow> assertMinimalTUInt v n = (if n = calcBytes v then Inr () else Inl AssertionError)"
  by (simp add: assertMinimalTUInt_def find_calcBytes)

lemma br_readTUInt_eq:
  assumes "br_good r" "length (br_content r) \<le> w" "w \<le> 8"
  shows "fst (br_readTUInt w r) =
     (if br_content r = tu_bytes (be_val (br_content r)) then Inr (be_val (br_content r))
      else Inl AssertionError)"
proof -
  let ?c = "br_content r"
  have size: "min w (length (br_buffer r) - br_position r) = length ?c"
    using assms by (simp add: br_content_def)
  have pos: "\<not> br_position r > length (br_buffer r)" using assms(1) by (simp add: br_good_def)
  have take: "take (length ?c) (drop (br_position r) (br_buffer r)) = ?c"
    by (simp add: br_content_def)
  have "(256::nat) ^ length ?c \<le> 256 ^ 8" using assms by (intro power_increasing) auto
  with be_val_less [of ?c] have less: "be_val ?c < 256 ^ 8" by (rule less_le_trans)
  have min: "length ?c = calcBytes (be_val ?c) \<longleftrightarrow> ?c = tu_bytes (be_val ?c)"
    using be_bytes_be_val [of ?c] unfolding tu_bytes_def by (metis length_be_bytes)
  show ?thesis
  proof (cases "?c = []")
    case True
    then show ?thesis using pos size by (simp add: br_readTUInt_def tu_bytes_def be_bytes_def)
  next
    case False
    then show ?thesis
      using pos size take assertMinimal_iff [OF less] min
      by (simp add: br_readTUInt_def Let_def)
  qed
qed

lemma br_readTUInt64_TUInt: "br_good r \<Longrightarrow> br_readTUInt64 r = br_readTUInt 8 r"
  by (auto simp: br_readTUInt64_def br_readTUInt_def br_good_def bigFromBufBE_eq Let_def
      split: sum.splits)

lemma be_val_tu_bytes [simp]: "be_val (tu_bytes v) = v"
  by (simp add: tu_bytes_def less_calcBytes)

lemma tu_bytes_0 [simp]: "tu_bytes 0 = []"
  by (simp add: tu_bytes_def be_bytes_def)

lemma length_tu_bytes: "length (tu_bytes v) = calcBytes v"
  by (simp add: tu_bytes_def)

lemma writes_TUInt:
  assumes "0 < v" "v < 256 ^ sz" "\<not> v < 256 ^ (sz - 1)"
  shows "writes (bw_good f) bw_out bw_room (then_io (bw_expand sz) (bw_store be_bytes sz v)) (tu_bytes v)"
proof -
  have "calcBytes v \<le> sz" "\<not> calcBytes v \<le> sz - 1" "0 < sz"
    using assms calcBytes_le by (auto intro: gr0I)
  then have "calcBytes v = sz" by simp
  then show ?thesis
    using writes_writeStandard [of be_bytes sz v f] assms \<open>0 < sz\<close>
    by (simp add: bw_writeStandard_def tu_bytes_def)
qed

lemma writes_writeTUInt16:
  "v < 2 ^ 16 \<Longrightarrow> writes (bw_good f) bw_out bw_room (bw_writeTUInt16 v) (tu_bytes v)"
  using writes_TUInt [of v 1 f] writes_TUInt [of v 2 f]
  by (cases "v = 0") (auto simp: bw_writeTUInt16_def writes_return)

lemma writes_writeTUInt32:
  "v < 2 ^ 32 \<Longrightarrow> writes (bw_good f) bw_out bw_room (bw_writeTUInt32 v) (tu_bytes v)"
  using writes_TUInt [of v 1 f] writes_TUInt [of v 2 f] writes_TUInt [of v 3 f]
    writes_TUInt [of v 4 f]
  by (cases "v = 0") (auto simp: bw_writeTUInt32_def writes_return)

lemma writes_writeTUInt64:
  "writes (bw_good f) bw_out bw_room (bw_writeTUInt64 v) (tu_bytes v)"
proof (cases "v = 0")
  case True
  then show ?thesis by (simp add: bw_writeTUInt64_def writes_return)
next
  case False
  have "bw_writeTUInt64 v = bw_writeBytes (bigToBufBE v None)"
    using False by (simp add: bw_writeTUInt64_def bigToBufBE_def Let_def)
  moreover have "max 1 (calcBytes v) = calcBytes v" using False calcBytes_le [of v 0] by simp
  ultimately show ?thesis using writes_writeBytes [of f "tu_bytes v"]
    by (simp add: bigToBufBE_None tu_bytes_def)
qed

text \<open>
  Truncated integers are minimal.  For a value of its field's width
  \<^verbatim>\<open>writeTUInt16\<close>, \<^verbatim>\<open>writeTUInt32\<close> and \<^verbatim>\<open>writeTUInt64\<close> write the shortest
  big-endian byte string of the value (nothing at all for zero); and over the bytes that are
  left of a record the matching readers return the number they spell if those bytes are the
  shortest spelling, and raise an assertion error on every other byte string of the field's
  width or less.
\<close>

theorem tuint_minimal:
  assumes "length bs \<le> w" "w = 2 \<or> w = 4 \<or> w = 8" "v < 256 ^ w"
  shows "runWriter None (if w = 2 then bw_writeTUInt16 v else if w = 4 then bw_writeTUInt32 v
            else bw_writeTUInt64 v) = Inr (tu_bytes v)
     \<and> fst ((if w = 2 then br_readTUInt16 else if w = 4 then br_readTUInt32
            else br_readTUInt64) (newBufferReader bs)) =
         (if bs = tu_bytes (be_val bs) then Inr (be_val bs) else Inl AssertionError)"
proof
  have "calcBytes v \<le> w" using assms(3) by (simp add: calcBytes_le)
  then have len: "length (tu_bytes v) \<le> 2 ^ 30" using assms(2) by (auto simp: length_tu_bytes)
  show "runWriter None (if w = 2 then bw_writeTUInt16 v else if w = 4 then bw_writeTUInt32 v
            else bw_writeTUInt64 v) = Inr (tu_bytes v)"
    using assms(2,3) by (intro runWriter_growing [OF _ len])
      (auto intro: writes_writeTUInt16 writes_writeTUInt32 writes_writeTUInt64)
  show "fst ((if w = 2 then br_readTUInt16 else if w = 4 then br_readTUInt32
            else br_readTUInt64) (newBufferReader bs)) =
         (if bs = tu_bytes (be_val bs) then Inr (be_val bs) else Inl AssertionError)"
    using assms(1,2) br_readTUInt_eq [of "newBufferReader bs" w]
    by (auto simp: br_readTUInt16_def br_readTUInt32_def br_readTUInt64_TUInt)
qed

theorem tuint_minimal_witness:
  "runWriter None (if (8::nat) = 2 then bw_writeTUInt16 300 else if (8::nat) = 4
            then bw_writeTUInt32 300 else bw_writeTUInt64 300) = Inr (tu_bytes 300)
     \<and> fst ((if (8::nat) = 2 then br_readTUInt16 else if (8::nat) = 4 then br_readTUInt32
            else br_readTUInt64) (newBufferReader [0, 1, 44])) =
         (if [0, 1, 44] = tu_bytes (be_val [0, 1, 44]) then Inr (be_val [0, 1, 44])
          else Inl AssertionError)"
  by (rule tuint_minimal) simp_all

section \<open>The writer as a list\<close>

lemma writeBytes_fixed:
  assumes "bw_fixed w" "bw_position w \<le> length (bw_buffer w)"
  shows "bw_writeBytes bs w =
     (if bw_position w + length bs \<le> length (bw_buffer w)
      then (Inr (), w\<lparr>bw_buffer := take (bw_position w) (bw_buffer w) @ bs
                          @ drop (bw_position w + length bs) (bw_buffer w),
                      bw_position := bw_position w + length bs\<rparr>)
      else (Inl RangeError, w))"
proof (cases "bs = []")
  case True
  then show ?thesis using assms by (cases w) (simp add: bw_writeBytes_def return_io_apply)
next
  case False
  then show ?thesis
    using assms by (simp add: bw_writeBytes_def then_io_apply bw_expand_def Let_def
        update_io_apply copyInto_fits)
qed

lemma each_writeBytes_fixed:
  assumes "bw_fixed w" "bw_position w \<le> length (bw_buffer w)"
  shows "bw_position w + length (concat bss) \<le> length (bw_buffer w) \<Longrightarrow>
      each_io bw_writeBytes bss w =
        (Inr (), w\<lparr>bw_buffer := take (bw_position w) (bw_buffer w) @ concat bss
                      @ drop (bw_position w + length (concat bss)) (bw_buffer w),
                   bw_position := bw_position w + length (concat bss)\<rparr>)"
    and "\<not> bw_position w + length (concat bss) \<le> length (bw_buffer w) \<Longrightarrow>
      fst (each_io bw_writeBytes bss w) = Inl RangeError"
  using assms
proof (induction bss arbitrary: w)
  case Nil
  { case 1 then show ?case by (simp add: return_io_apply) }
  { case 2 then show ?case by simp }
next
  case (Cons bs bss)
  { case (1 w)
    let ?w = "(w :: buffer_writer)\<lparr>bw_buffer := take (bw_position w) (bw_buffer w) @ bs
                            @ drop (bw_position w + length bs) (bw_buffer w),
                bw_position := bw_position w + length bs\<rparr>"
    from 1 have "bw_writeBytes bs w = (Inr (), ?w)" using writeBytes_fixed [of w bs] by simp
    with Cons.IH(1) [of ?w] 1 show ?case by (cases w) (simp add: then_io_apply ac_simps) }
  { case (2 w)
    let ?w = "(w :: buffer_writer)\<lparr>bw_buffer := take (bw_position w) (bw_buffer w) @ bs
                            @ drop (bw_position w + length bs) (bw_buffer w),
                bw_position := bw_position w + length bs\<rparr>"
    from 2 show ?case using Cons.IH(2) [of ?w]
      by (cases "bw_position w + length bs \<le> length (bw_buffer w)")
        (simp_all add: then_io_apply writeBytes_fixed) }
qed

text \<open>
  Both modes of \<^verbatim>\<open>BufferWriter\<close> refine appending to a list of bytes.  Writing any
  sequence of buffers to a growing writer gives their concatenation, however often the writer
  had to reallocate, as long as it stays within the \<open>2 ^ 30\<close> bytes that its 32-bit doubling
  supports; writing them to a writer over a fixed buffer overwrites the front of that buffer
  with their concatenation if they fit and throws a \<^verbatim>\<open>RangeError\<close> if they do not.
\<close>

theorem writer_refines_append:
  assumes "length (concat bss) \<le> 2 ^ 30"
  shows "runWriter None (each_io bw_writeBytes bss) = Inr (concat bss)
     \<and> runWriter (Some b) (each_io bw_writeBytes bss) =
         (if length (concat bss) \<le> length b then Inr (concat bss @ drop (length (concat bss)) b)
          else Inl RangeError)"
proof
  show "runWriter None (each_io bw_writeBytes bss) = Inr (concat bss)"
    using assms writes_each [of bss "bw_good False" bw_out bw_room bw_writeBytes "\<lambda>x. x"]
    by (intro runWriter_growing) (simp_all add: writes_writeBytes)
  let ?w = "newBufferWriter (Some b)"
  have w: "bw_fixed ?w" "bw_position ?w \<le> length (bw_buffer ?w)"
    "bw_position ?w = 0" "bw_buffer ?w = b"
    by (simp_all add: newBufferWriter_def)
  show "runWriter (Some b) (each_io bw_writeBytes bss) =
         (if length (concat bss) \<le> length b then Inr (concat bss @ drop (length (concat bss)) b)
          else Inl RangeError)"
    using each_writeBytes_fixed [OF w(1,2), of bss] w
    by (cases "length (concat bss) \<le> length b")
      (auto simp: runWriter_def bw_toBuffer_def split: prod.splits sum.splits)
qed

theorem writer_refines_append_witness:
  "runWriter None (each_io bw_writeBytes [[1, 2], [], [3]]) = Inr (concat [[1, 2], [], [3]])
     \<and> runWriter (Some [9, 9]) (each_io bw_writeBytes [[1, 2], [], [3]]) =
         (if length (concat [[1, 2], [], [3 :: byte]]) \<le> length [9, 9 :: byte]
          then Inr (concat [[1, 2], [], [3]] @ drop (length (concat [[1, 2], [], [3 :: byte]])) [9, 9])
          else Inl RangeError)"
  by (rule writer_refines_append) simp

end
