(* ===== verification/Commitment.thy ===== *)
theory Commitment
  imports Bytes
begin

text \<open>
  \<^verbatim>\<open>packages/lightning/lib/channels/CommitmentSecret.ts\<close> and
  \<^verbatim>\<open>CommitmentSecretStore.ts\<close>: the derivation of per-commitment secrets from a seed and
  the compact store of the secrets received from the peer.  SHA-256 comes from outside the
  repository's own code and is the argument \<open>sha256\<close>; nothing is assumed about it.
\<close>

section \<open>Derivation\<close>

text \<open>
  Flipping bit \<open>b\<close> of a buffer; a write outside a buffer has no effect in JavaScript.
\<close>

definition flipBit :: "buffer \<Rightarrow> nat \<Rightarrow> buffer" where
  "flipBit p b =
     (let byteIndex = b div 8; bitIndex = b mod 8
      in if byteIndex < length p then p[byteIndex := p ! byteIndex XOR push_bit bitIndex 1] else p)"

text \<open>The loop from \<open>bits - 1\<close> down to 0; the argument is the number of bits still to do.\<close>

primrec derive_loop :: "(buffer \<Rightarrow> buffer) \<Rightarrow> nat \<Rightarrow> nat \<Rightarrow> buffer \<Rightarrow> buffer" where
  "derive_loop sha256 i 0 p = p"
| "derive_loop sha256 i (Suc b) p =
     derive_loop sha256 i b (if bit i b then sha256 (flipBit p b) else p)"

definition derive :: "(buffer \<Rightarrow> buffer) \<Rightarrow> buffer \<Rightarrow> nat \<Rightarrow> nat \<Rightarrow> buffer" where
  "derive sha256 seed i bits = derive_loop sha256 i bits seed"

section \<open>The store\<close>

record secret_item =
  si_index :: nat
  si_secret :: "buffer option"

type_synonym secret_store = "secret_item list"

definition newSecretStore :: secret_store where
  "newSecretStore = replicate 49 \<lparr>si_index = 0, si_secret = None\<rparr>"

definition calcIndex :: "nat \<Rightarrow> nat" where
  "calcIndex I = (case find (\<lambda>i. bit I i) [0..<48] of Some i \<Rightarrow> i | None \<Rightarrow> 48)"

definition incorrectSecret :: exn where
  "incorrectSecret = JsError ''The secret for I is incorrect''"

definition notReceived :: exn where
  "notReceived = JsError ''Index I hasn't been received yet''"

text \<open>
  The validation loop of \<^verbatim>\<open>insert\<close> over the given positions: comparing with a position
  that holds no secret is a \<^verbatim>\<open>TypeError\<close> of \<^verbatim>\<open>Buffer.equals\<close>.
\<close>

fun checkDerivable ::
  "(buffer \<Rightarrow> buffer) \<Rightarrow> secret_store \<Rightarrow> buffer \<Rightarrow> nat \<Rightarrow> nat list \<Rightarrow> unit res" where
  "checkDerivable sha256 s secret B [] = Inr ()"
| "checkDerivable sha256 s secret B (b # bs) =
     (case si_secret (s ! b) of
        None \<Rightarrow> Inl TypeError
      | Some existing \<Rightarrow>
          if derive sha256 secret (si_index (s ! b)) B \<noteq> existing then Inl incorrectSecret
          else checkDerivable sha256 s secret B bs)"

definition store_insert ::
  "(buffer \<Rightarrow> buffer) \<Rightarrow> secret_store \<Rightarrow> buffer \<Rightarrow> nat \<Rightarrow> secret_store res" where
  "store_insert sha256 s secret i =
     (let B = calcIndex i
      in bind_res (checkDerivable sha256 s secret B [0..<B])
           (\<lambda>_. Inr (s[B := \<lparr>si_index = i, si_secret = Some secret\<rparr>])))"

definition prefixMask :: "nat \<Rightarrow> nat" where
  "prefixMask b = push_bit b (drop_bit b 0xffffffffffff)"

fun store_derive_loop ::
  "(buffer \<Rightarrow> buffer) \<Rightarrow> secret_store \<Rightarrow> nat \<Rightarrow> nat list \<Rightarrow> buffer res" where
  "store_derive_loop sha256 s i [] = Inl notReceived"
| "store_derive_loop sha256 s i (b # bs) =
     (case si_secret (s ! b) of
        Some secret \<Rightarrow>
          if i AND prefixMask b = si_index (s ! b) then Inr (derive sha256 secret i b)
          else store_derive_loop sha256 s i bs
      | None \<Rightarrow> store_derive_loop sha256 s i bs)"

definition store_derive :: "(buffer \<Rightarrow> buffer) \<Rightarrow> secret_store \<Rightarrow> nat \<Rightarrow> buffer res" where
  "store_derive sha256 s i = store_derive_loop sha256 s i [0..<length s]"

text \<open>
  What the peer does: it reveals the secrets of the indices \<open>2 ^ 48 - 1, 2 ^ 48 - 2, ...\<close> in
  this order; \<open>receive n\<close> is the store after the first \<open>n\<close> of them.
\<close>

primrec receive :: "(buffer \<Rightarrow> buffer) \<Rightarrow> buffer \<Rightarrow> nat \<Rightarrow> secret_store res" where
  "receive sha256 seed 0 = Inr newSecretStore"
| "receive sha256 seed (Suc n) =
     bind_res (receive sha256 seed n) (\<lambda>s.
       store_insert sha256 s (derive sha256 seed (2 ^ 48 - 1 - n) 48) (2 ^ 48 - 1 - n))"

section \<open>Secrets are prefixes of later secrets\<close>

lemma derive_loop_cong:
  "(\<And>k. k < n \<Longrightarrow> bit i k = bit j k) \<Longrightarrow> derive_loop h i n p = derive_loop h j n p"
  by (induction n arbitrary: p) auto

lemma derive_loop_zero: "(\<And>k. k < n \<Longrightarrow> \<not> bit i k) \<Longrightarrow> derive_loop h i n p = p"
  by (induction n) auto

lemma derive_loop_split:
  assumes "\<And>k. k < b \<Longrightarrow> \<not> bit x k" "\<And>k. b \<le> k \<Longrightarrow> k < n \<Longrightarrow> bit x k = bit i k" "b \<le> n"
  shows "derive_loop h i b (derive_loop h x n p) = derive_loop h i n p"
  using assms(3,2)
proof (induction n arbitrary: p rule: dec_induct)
  case base
  show ?case using assms(1) by (simp add: derive_loop_zero)
next
  case (step n)
  then show ?case by auto
qed

lemma bit_48_ones: "bit (0xffffffffffff :: nat) k \<longleftrightarrow> k < 48"
proof -
  have "(0xffffffffffff :: nat) = mask 48" by (simp add: mask_eq_exp_minus_1)
  then show ?thesis by (simp only: bit_mask_iff) simp
qed

lemma bit_less_48:
  assumes "i < 2 ^ 48" "bit (i :: nat) k"
  shows "k < 48"
proof (rule ccontr)
  assume "\<not> k < 48"
  then have "i < 2 ^ k"
    using assms(1) power_increasing [of 48 k "2::nat"] by simp
  then show False using assms(2) by (simp add: bit_iff_odd)
qed

lemma clear_low_bits: "i < 2 ^ 48 \<Longrightarrow> i AND prefixMask b = push_bit b (drop_bit b i)"
  by (rule bit_eqI)
    (use bit_less_48 [of i] in
      \<open>auto simp: prefixMask_def bit_simps bit_48_ones simp del: bit_numeral_simps\<close>)

text \<open>The low \<open>b\<close> bits of \<open>i\<close> cleared.\<close>

definition prefix :: "nat \<Rightarrow> nat \<Rightarrow> nat" where
  "prefix b i = push_bit b (drop_bit b i)"

lemma prefix_arith: "prefix b i = i - i mod 2 ^ b"
  by (simp add: prefix_def push_bit_eq_mult drop_bit_eq_div minus_mod_eq_div_mult)

lemma bit_prefix: "bit (prefix b i) k \<longleftrightarrow> b \<le> k \<and> bit i k"
  by (auto simp: prefix_def bit_simps)

lemma derive_prefix:
  "b \<le> n \<Longrightarrow> derive h (derive h seed (prefix b i) n) i b = derive h seed i n"
  unfolding derive_def by (rule derive_loop_split) (auto simp: bit_prefix)

section \<open>The index of a commitment\<close>

lemma calcIndex_le: "calcIndex I \<le> 48"
  by (auto simp: calcIndex_def find_Some_iff split: option.splits)

lemma calcIndex_bits: "b < 48 \<Longrightarrow> calcIndex I = b \<longleftrightarrow> bit I b \<and> (\<forall>k<b. \<not> bit I k)"
proof -
  assume b: "b < 48"
  have "find (bit I) [0..<48] = Some b \<longleftrightarrow> bit I b \<and> (\<forall>k<b. \<not> bit I k)"
    using b by (auto simp: find_Some_iff)
  then show ?thesis using b by (auto simp: calcIndex_def split: option.splits)
qed

lemma calcIndex_mod: "b < 48 \<Longrightarrow> calcIndex I = b \<longleftrightarrow> I mod 2 ^ Suc b = 2 ^ b"
proof -
  assume b: "b < 48"
  have "I mod 2 ^ Suc b = 2 ^ b \<longleftrightarrow> take_bit (Suc b) I = 2 ^ b"
    by (simp add: take_bit_eq_mod)
  also have "\<dots> \<longleftrightarrow> (\<forall>n. (n < Suc b \<and> bit I n) \<longleftrightarrow> n = b)"
    by (auto simp: bit_eq_iff bit_take_bit_iff bit_exp_iff)
  also have "\<dots> \<longleftrightarrow> bit I b \<and> (\<forall>k<b. \<not> bit I k)"
    by (auto simp: less_Suc_eq)
  finally show ?thesis using calcIndex_bits [OF b] by simp
qed

lemma calcIndex_48: "I < 2 ^ 48 \<Longrightarrow> calcIndex I = 48 \<longleftrightarrow> I = 0"
proof -
  assume I: "I < 2 ^ 48"
  have "calcIndex I = 48 \<longleftrightarrow> (\<forall>k<48. \<not> bit I k)"
    by (auto simp: calcIndex_def find_None_iff find_Some_iff split: option.splits)
  also have "\<dots> \<longleftrightarrow> I = 0" using bit_less_48 [OF I] by (auto simp: bit_eq_iff)
  finally show ?thesis .
qed

lemma calcIndex_zero_mod: "I < 2 ^ 48 \<Longrightarrow> b \<le> calcIndex I \<Longrightarrow> I mod 2 ^ b = 0"
proof -
  assume I: "I < 2 ^ 48" and b: "b \<le> calcIndex I"
  have "\<not> bit I k" if "k < b" for k
  proof (cases "calcIndex I = 48")
    case True
    then show ?thesis using I by (simp add: calcIndex_48)
  next
    case False
    then show ?thesis using calcIndex_le [of I] calcIndex_bits [of "calcIndex I" I] that b by auto
  qed
  then have "take_bit b I = 0" by (auto simp: bit_eq_iff bit_take_bit_iff)
  then show ?thesis by (simp add: take_bit_eq_mod)
qed

lemma mod_window_unique:
  fixes x y m n :: nat
  assumes "x mod n = y mod n" "m \<le> x" "x < m + n" "m \<le> y" "y < m + n"
  shows "x = y"
proof -
  have "u = v" if "u mod n = v mod n" "m \<le> u" "u \<le> v" "v < m + n" for u v :: nat
  proof -
    have "n dvd v - u" using that mod_eq_dvd_iff_nat [of u v n] by simp
    moreover have "v - u < n" using that by arith
    ultimately have "v - u = 0" using nat_dvd_not_less by blast
    then show ?thesis using that by simp
  qed
  then show ?thesis using assms by (metis nat_le_linear)
qed

lemma calcIndex_window_unique:
  assumes "calcIndex x = calcIndex y" "x < 2 ^ 48" "y < 2 ^ 48"
    and "m \<le> x" "x < m + 2 ^ Suc (calcIndex y)" "m \<le> y" "y < m + 2 ^ Suc (calcIndex y)"
  shows "x = y"
proof (cases "calcIndex y = 48")
  case True
  then show ?thesis using assms by (simp add: calcIndex_48)
next
  case False
  then have "calcIndex y < 48" using calcIndex_le [of y] by simp
  then have "x mod 2 ^ Suc (calcIndex y) = y mod 2 ^ Suc (calcIndex y)"
    using assms(1) calcIndex_mod by metis
  then show ?thesis using assms by (intro mod_window_unique [of x _ y m])
qed

section \<open>The store holds the secrets of a prefix of the sequence\<close>

text \<open>
  After the secrets of all indices from \<open>m\<close> up have been received, position \<open>b\<close> holds the
  secret of the one index with \<open>b\<close> trailing zeros in the window of length \<open>2 ^ (b + 1)\<close> that
  starts at \<open>m\<close>, or nothing if no such index has been received.
\<close>

definition slot_ok :: "(nat \<Rightarrow> buffer) \<Rightarrow> nat \<Rightarrow> nat \<Rightarrow> secret_item \<Rightarrow> bool" where
  "slot_ok sec m b it \<longleftrightarrow>
     (\<exists>x. m \<le> x \<and> x < m + 2 ^ Suc b \<and> x < 2 ^ 48 \<and> calcIndex x = b \<and>
          it = \<lparr>si_index = x, si_secret = Some (sec x)\<rparr>)
     \<or> (it = \<lparr>si_index = 0, si_secret = None\<rparr> \<and>
          (\<forall>y. m \<le> y \<and> y < 2 ^ 48 \<longrightarrow> calcIndex y \<noteq> b))"

definition store_inv :: "(nat \<Rightarrow> buffer) \<Rightarrow> nat \<Rightarrow> secret_store \<Rightarrow> bool" where
  "store_inv sec m s \<longleftrightarrow> length s = 49 \<and> (\<forall>b<49. slot_ok sec m b (s ! b))"

lemma slot_filled:
  assumes "slot_ok sec m b it" "m \<le> y" "y < m + 2 ^ Suc b" "y < 2 ^ 48" "calcIndex y = b"
  shows "it = \<lparr>si_index = y, si_secret = Some (sec y)\<rparr>"
proof -
  from assms obtain x where "m \<le> x" "x < m + 2 ^ Suc b" "x < 2 ^ 48" "calcIndex x = b"
    "it = \<lparr>si_index = x, si_secret = Some (sec x)\<rparr>"
    by (auto simp: slot_ok_def)
  with calcIndex_window_unique [of x y m] assms show ?thesis by auto
qed

lemma checkDerivable_ok:
  assumes "\<And>b. b \<in> set bs \<Longrightarrow> \<exists>e. si_secret (s ! b) = Some e \<and> derive h sec (si_index (s ! b)) B = e"
  shows "checkDerivable h s sec B bs = Inr ()"
  using assms by (induction bs) (auto split: option.splits)

lemma next_index:
  assumes "i < 2 ^ 48" "b < calcIndex i"
  shows "calcIndex (i + 2 ^ b) = b" "i + 2 ^ b < 2 ^ 48" "prefix (calcIndex i) (i + 2 ^ b) = i"
proof -
  let ?B = "calcIndex i"
  have b: "b < 48" using assms(2) calcIndex_le [of i] by simp
  have z: "i mod 2 ^ ?B = 0" using assms(1) by (simp add: calcIndex_zero_mod)
  have "i mod 2 ^ Suc b = 0" using assms by (intro calcIndex_zero_mod) auto
  then have "(i + 2 ^ b) mod 2 ^ Suc b = 2 ^ b" by (simp add: mod_add_eq [symmetric])
  with b show "calcIndex (i + 2 ^ b) = b" by (simp add: calcIndex_mod)
  have lt: "(2::nat) ^ b < 2 ^ ?B" using assms(2) by simp
  then show "prefix ?B (i + 2 ^ b) = i" using z by (simp add: prefix_arith mod_add_eq [symmetric])
  have "2 ^ ?B dvd (2::nat) ^ 48" by (rule le_imp_power_dvd [OF calcIndex_le])
  moreover have "2 ^ ?B dvd i" using z by auto
  ultimately have "2 ^ ?B dvd 2 ^ 48 - i" by (rule dvd_diff_nat)
  then have "2 ^ ?B \<le> 2 ^ 48 - i" using assms(1) by (intro dvd_imp_le) auto
  with lt assms(1) show "i + 2 ^ b < 2 ^ 48" by linarith
qed

lemma slot_step:
  assumes "slot_ok sec (Suc i) b it" "calcIndex i \<noteq> b" "i < 2 ^ 48"
  shows "slot_ok sec i b it"
  using assms(1) unfolding slot_ok_def
proof (elim disjE exE conjE)
  fix x
  assume x: "Suc i \<le> x" "x < Suc i + 2 ^ Suc b" "x < 2 ^ 48" "calcIndex x = b"
    "it = \<lparr>si_index = x, si_secret = Some (sec x)\<rparr>"
  have "x \<noteq> i + 2 ^ Suc b"
  proof
    assume eq: "x = i + 2 ^ Suc b"
    have "b < 48" using x calcIndex_le [of x] by (cases "b = 48") (auto simp: calcIndex_48)
    then have "i mod 2 ^ Suc b = 2 ^ b" using x(4) eq by (simp add: calcIndex_mod)
    with \<open>b < 48\<close> assms(2) show False by (simp add: calcIndex_mod)
  qed
  with x show "(\<exists>x. i \<le> x \<and> x < i + 2 ^ Suc b \<and> x < 2 ^ 48 \<and> calcIndex x = b \<and>
      it = \<lparr>si_index = x, si_secret = Some (sec x)\<rparr>) \<or>
    it = \<lparr>si_index = 0, si_secret = None\<rparr> \<and> (\<forall>y. i \<le> y \<and> y < 2 ^ 48 \<longrightarrow> calcIndex y \<noteq> b)"
    by (intro disjI1 exI [of _ x]) auto
next
  assume "it = \<lparr>si_index = 0, si_secret = None\<rparr>" "\<forall>y. Suc i \<le> y \<and> y < 2 ^ 48 \<longrightarrow> calcIndex y \<noteq> b"
  with assms(2) show "(\<exists>x. i \<le> x \<and> x < i + 2 ^ Suc b \<and> x < 2 ^ 48 \<and> calcIndex x = b \<and>
      it = \<lparr>si_index = x, si_secret = Some (sec x)\<rparr>) \<or>
    it = \<lparr>si_index = 0, si_secret = None\<rparr> \<and> (\<forall>y. i \<le> y \<and> y < 2 ^ 48 \<longrightarrow> calcIndex y \<noteq> b)"
    by (metis Suc_leI le_neq_implies_less)
qed

lemma insert_next:
  fixes h seed
  defines "sec \<equiv> \<lambda>i. derive h seed i 48"
  assumes inv: "store_inv sec (Suc i) s" and i: "i < 2 ^ 48"
  shows "\<exists>s'. store_insert h s (sec i) i = Inr s' \<and> store_inv sec i s'"
proof -
  let ?B = "calcIndex i"
  let ?s' = "s[?B := \<lparr>si_index = i, si_secret = Some (sec i)\<rparr>]"
  have "checkDerivable h s (sec i) ?B [0..<?B] = Inr ()"
  proof (rule checkDerivable_ok)
    fix b assume "b \<in> set [0..<?B]"
    then have b: "b < ?B" by simp
    note n = next_index [OF i b]
    have "slot_ok sec (Suc i) b (s ! b)"
      using inv b calcIndex_le [of i] by (simp add: store_inv_def)
    then have "s ! b = \<lparr>si_index = i + 2 ^ b, si_secret = Some (sec (i + 2 ^ b))\<rparr>"
      using n by (intro slot_filled [of sec "Suc i"]) (auto simp: Suc_leI)
    moreover have "derive h (sec i) (i + 2 ^ b) ?B = sec (i + 2 ^ b)"
      using derive_prefix [of ?B 48 h seed "i + 2 ^ b"] n(3) calcIndex_le
      by (simp add: sec_def)
    ultimately show "\<exists>e. si_secret (s ! b) = Some e \<and> derive h (sec i) (si_index (s ! b)) ?B = e"
      by simp
  qed
  then have "store_insert h s (sec i) i = Inr ?s'" by (simp add: store_insert_def Let_def)
  moreover have "store_inv sec i ?s'"
    unfolding store_inv_def
  proof (intro conjI allI impI)
    show "length ?s' = 49" using inv by (simp add: store_inv_def)
    fix b :: nat assume b: "b < 49"
    show "slot_ok sec i b (?s' ! b)"
    proof (cases "b = ?B")
      case True
      then have "?s' ! b = \<lparr>si_index = i, si_secret = Some (sec i)\<rparr>"
        using inv b by (simp add: store_inv_def)
      then show ?thesis using True i by (auto simp: slot_ok_def)
    next
      case False
      have "slot_ok sec (Suc i) b (s ! b)" using inv b by (simp add: store_inv_def)
      from slot_step [OF this _ i] False show ?thesis by simp
    qed
  qed
  ultimately show ?thesis by blast
qed

lemma receive_inv:
  assumes "n \<le> 2 ^ 48"
  shows "\<exists>s. receive h seed n = Inr s \<and> store_inv (\<lambda>i. derive h seed i 48) (2 ^ 48 - n) s"
  using assms
proof (induction n)
  case 0
  have "newSecretStore ! b = \<lparr>si_index = 0, si_secret = None\<rparr>" if "b < 49" for b
    using that by (simp only: newSecretStore_def nth_replicate)
  moreover have "length newSecretStore = 49" by (simp only: newSecretStore_def length_replicate)
  ultimately show ?case by (simp add: store_inv_def slot_ok_def)
next
  case (Suc n)
  then obtain s where s: "receive h seed n = Inr s"
    "store_inv (\<lambda>i. derive h seed i 48) (2 ^ 48 - n) s" by auto
  have "Suc (2 ^ 48 - 1 - n) = 2 ^ 48 - n" "2 ^ 48 - 1 - n = (2 ^ 48 - Suc n :: nat)"
    using Suc.prems by simp_all
  with s insert_next [of h seed "2 ^ 48 - 1 - n" s] show ?case by (auto simp: Suc_diff_Suc)
qed

section \<open>Looking a secret up\<close>

lemma store_derive_loop_Inr:
  assumes "\<exists>b \<in> set bs. \<exists>k. si_secret (s ! b) = Some k \<and> i AND prefixMask b = si_index (s ! b)"
    and "\<And>b k. b \<in> set bs \<Longrightarrow> si_secret (s ! b) = Some k \<Longrightarrow>
           i AND prefixMask b = si_index (s ! b) \<Longrightarrow> derive h k i b = v"
  shows "store_derive_loop h s i bs = Inr v"
  using assms by (induction bs) (auto split: option.splits)

lemma store_derive_loop_Inl:
  assumes "\<And>b k. b \<in> set bs \<Longrightarrow> si_secret (s ! b) = Some k \<Longrightarrow> i AND prefixMask b \<noteq> si_index (s ! b)"
  shows "store_derive_loop h s i bs = Inl notReceived"
  using assms by (induction bs) (auto split: option.splits)

lemma prefix_le: "prefix b j \<le> j"
  by (simp add: prefix_arith)

lemma prefix_Suc_less:
  assumes "prefix (Suc b) j < prefix b j" "b < 48"
  shows "calcIndex (prefix b j) = b" "prefix b j = prefix (Suc b) j + 2 ^ b"
proof -
  have "bit j b"
  proof (rule ccontr)
    assume "\<not> bit j b"
    then have "bit (prefix (Suc b) j) k \<longleftrightarrow> bit (prefix b j) k" for k
      by (cases "k = b") (auto simp: bit_prefix Suc_le_eq)
    then have "prefix (Suc b) j = prefix b j" by (rule bit_eqI)
    with assms(1) show False by simp
  qed
  then show "calcIndex (prefix b j) = b" using assms(2) by (simp add: calcIndex_bits bit_prefix)
  have "j mod 2 ^ Suc b = j mod 2 ^ b + 2 ^ b"
    using \<open>bit j b\<close> take_bit_Suc_from_most [of b j] by (simp add: take_bit_eq_mod)
  moreover have "j mod 2 ^ Suc b \<le> j" by simp
  ultimately show "prefix b j = prefix (Suc b) j + 2 ^ b" unfolding prefix_arith by arith
qed

lemma store_derive_received:
  assumes "store_inv sec m s" "m \<le> j" "j < 2 ^ 48"
  shows "\<exists>b<49. \<exists>k. si_secret (s ! b) = Some k \<and> prefix b j = si_index (s ! b)"
proof -
  define b where "b = Max {b. b \<le> 48 \<and> m \<le> prefix b j}"
  have fin: "finite {b. b \<le> 48 \<and> m \<le> prefix b j}"
    by (rule finite_subset [of _ "{..48}"]) auto
  have "0 \<in> {b. b \<le> 48 \<and> m \<le> prefix b j}" using assms(2) by (simp add: prefix_arith)
  then have "b \<in> {b. b \<le> 48 \<and> m \<le> prefix b j}"
    unfolding b_def by (intro Max_in [OF fin]) blast
  then have b: "b \<le> 48" "m \<le> prefix b j" by simp_all
  have top: "\<not> m \<le> prefix (Suc b) j" if "b < 48"
    using Max_ge [OF fin, of "Suc b"] that by (auto simp: b_def [symmetric])
  have x: "prefix b j < 2 ^ 48" using prefix_le assms(3) by (rule le_less_trans)
  have "calcIndex (prefix b j) = b \<and> prefix b j < m + 2 ^ Suc b"
  proof (cases "b < 48")
    case True
    with top b(2) have "prefix (Suc b) j < prefix b j" by simp
    from prefix_Suc_less [OF this True] top [OF True] show ?thesis by simp
  next
    case False
    with b(1) have "b = 48" by simp
    moreover have "prefix 48 j = 0" using assms(3) by (simp add: prefix_arith)
    ultimately show ?thesis by (simp add: calcIndex_48)
  qed
  moreover have "slot_ok sec m b (s ! b)" using assms(1) b(1) by (simp add: store_inv_def)
  ultimately have "s ! b = \<lparr>si_index = prefix b j, si_secret = Some (sec (prefix b j))\<rparr>"
    using b(2) x by (intro slot_filled [of sec m]) auto
  with b(1) show ?thesis by (intro exI [of _ b]) auto
qed

lemma slot_secret:
  assumes "store_inv sec m s" "b < 49" "si_secret (s ! b) = Some k"
  shows "m \<le> si_index (s ! b)" "k = sec (si_index (s ! b))"
  using assms by (auto simp: store_inv_def slot_ok_def)

text \<open>
  C23: The compact store is complete and sound.  After the secrets of any number \<open>n\<close> of
  commitments have been received in the order of the protocol, every insertion has been
  accepted, and for every index \<open>j\<close> the store derives exactly the secret that the seed gives
  for \<open>j\<close> if \<open>j\<close> has been received, and reports that it has not been received otherwise,
  although it keeps at most 49 secrets.  SHA-256 is arbitrary.
\<close>

theorem store_complete:
  assumes "n \<le> 2 ^ 48" "j < 2 ^ 48"
  shows "\<exists>s. receive sha256 seed n = Inr s \<and> length s = 49 \<and>
     store_derive sha256 s j =
       (if 2 ^ 48 - n \<le> j then Inr (derive sha256 seed j 48) else Inl notReceived)"
proof -
  let ?sec = "\<lambda>i. derive sha256 seed i 48" and ?m = "2 ^ 48 - n"
  obtain s where s: "receive sha256 seed n = Inr s" "store_inv ?sec ?m s"
    using receive_inv [OF assms(1)] by blast
  have len: "length s = 49" using s(2) by (simp add: store_inv_def)
  have mask: "j AND prefixMask b = prefix b j" for b
    using clear_low_bits [OF assms(2)] by (simp add: prefix_def)
  have "store_derive sha256 s j = (if ?m \<le> j then Inr (?sec j) else Inl notReceived)"
  proof (cases "?m \<le> j")
    case True
    then obtain b where b: "b < 49" "\<exists>k. si_secret (s ! b) = Some k \<and> prefix b j = si_index (s ! b)"
      using store_derive_received [OF s(2) _ assms(2)] by blast
    have "store_derive sha256 s j = Inr (?sec j)"
      unfolding store_derive_def len
    proof (rule store_derive_loop_Inr)
      show "\<exists>b\<in>set [0..<49]. \<exists>k. si_secret (s ! b) = Some k \<and> j AND prefixMask b = si_index (s ! b)"
        using b by (intro bexI [of _ b]) (auto simp: mask)
    next
      fix b k assume "b \<in> set [0..<49]" "si_secret (s ! b) = Some k" "j AND prefixMask b = si_index (s ! b)"
      then have "b < 49" "k = ?sec (prefix b j)" using slot_secret [OF s(2), of b k] by (auto simp: mask)
      then show "derive sha256 k j b = ?sec j" by (simp add: derive_prefix)
    qed
    with True show ?thesis by simp
  next
    case False
    have "store_derive sha256 s j = Inl notReceived"
      unfolding store_derive_def len
    proof (rule store_derive_loop_Inl)
      fix b k assume "b \<in> set [0..<49]" "si_secret (s ! b) = Some k"
      then show "j AND prefixMask b \<noteq> si_index (s ! b)"
        using slot_secret [OF s(2), of b k] False prefix_le [of b j] by (auto simp: mask)
    qed
    with False show ?thesis by simp
  qed
  with s(1) len show ?thesis by blast
qed

theorem store_complete_witness:
  "\<exists>s. receive rev [1, 2, 3] 5 = Inr s \<and> length s = 49 \<and>
     store_derive rev s 281474976710653 =
       (if 2 ^ 48 - 5 \<le> (281474976710653 :: nat) then Inr (derive rev [1, 2, 3] 281474976710653 48)
        else Inl notReceived)"
  by (rule store_complete) simp_all

lemma checkDerivable_Inr:
  "checkDerivable h s k B bs = Inr () \<Longrightarrow> b \<in> set bs \<Longrightarrow>
     si_secret (s ! b) = Some (derive h k (si_index (s ! b)) B)"
  by (induction bs) (auto split: option.splits if_splits)

text \<open>
  C38: The store refuses a secret that does not explain what was received before.  If an
  insertion for index \<open>i\<close> is accepted, the new secret derives, for every position below the
  number of trailing zeros of \<open>i\<close>, exactly the secret already stored there, and the result
  differs from the old store in the one position of \<open>i\<close> only.
\<close>

theorem insert_checks_known_secrets:
  assumes "store_insert sha256 s secret i = Inr s'"
  shows "(\<forall>b < calcIndex i. si_secret (s ! b) =
            Some (derive sha256 secret (si_index (s ! b)) (calcIndex i)))
     \<and> s' = s[calcIndex i := \<lparr>si_index = i, si_secret = Some secret\<rparr>]"
proof -
  have "checkDerivable sha256 s secret (calcIndex i) [0..<calcIndex i] = Inr ()"
    using assms by (auto simp: store_insert_def Let_def bind_res_eq_Inr)
  with checkDerivable_Inr [OF this] assms show ?thesis
    by (auto simp: store_insert_def Let_def)
qed

theorem insert_checks_known_secrets_witness:
  "\<exists>s'. store_insert rev (newSecretStore[0 := \<lparr>si_index = 3, si_secret = Some [2, 0]\<rparr>]) [1, 2] 2 = Inr s'
     \<and> (\<forall>b < calcIndex 2.
          si_secret ((newSecretStore[0 := \<lparr>si_index = 3, si_secret = Some [2, 0]\<rparr>]) ! b) =
            Some (derive rev [1, 2] (si_index
              ((newSecretStore[0 := \<lparr>si_index = 3, si_secret = Some [2, 0]\<rparr>]) ! b)) (calcIndex 2)))
     \<and> s' = newSecretStore[0 := \<lparr>si_index = 3, si_secret = Some [2, 0]\<rparr>,
            calcIndex 2 := \<lparr>si_index = 2, si_secret = Some [1, 2]\<rparr>]"
proof -
  let ?s = "newSecretStore[0 := \<lparr>si_index = 3, si_secret = Some [2, 0]\<rparr>]"
  have "length newSecretStore = 49" by (simp only: newSecretStore_def length_replicate)
  then have s0: "?s ! 0 = \<lparr>si_index = 3, si_secret = Some [2, 0]\<rparr>" by simp
  have c: "calcIndex 2 = 1" by (simp add: calcIndex_mod)
  have d: "derive rev [1, 2] 3 1 = [2, 0]" by (simp add: derive_def flipBit_def)
  have "store_insert rev ?s [1, 2] 2 = Inr (?s[calcIndex 2 := \<lparr>si_index = 2, si_secret = Some [1, 2]\<rparr>])"
    unfolding store_insert_def Let_def c using s0 d by simp
  with insert_checks_known_secrets [OF this] show ?thesis by blast
qed

end
