(* ===== verification/Chars.thy ===== *)
theory Chars
  imports Bytes "HOL-Library.Char_ord"
begin

text \<open>
  Characters of JavaScript strings that stand for digits: hexadecimal digits as
  \<^verbatim>\<open>toString("hex")\<close> prints them and as \<^verbatim>\<open>Buffer.from(text, "hex")\<close>
  accepts them (either case), and decimal numbers as \<^verbatim>\<open>toString\<close> prints and
  \<^verbatim>\<open>parseInt\<close> reads them.  The codes are those of ASCII.
\<close>

definition hexChar :: "nat \<Rightarrow> char" where
  "hexChar d = (if d < 10 then char_of (48 + d) else char_of (87 + d))"

definition hexVal :: "char \<Rightarrow> nat option" where
  "hexVal c =
     (let n = of_char c :: nat
      in if 48 \<le> n \<and> n \<le> 57 then Some (n - 48)
         else if 97 \<le> n \<and> n \<le> 102 then Some (n - 87)
         else if 65 \<le> n \<and> n \<le> 70 then Some (n - 55)
         else None)"

definition hexString :: "buffer \<Rightarrow> string" where
  "hexString buf = map hexChar (bufToHex buf)"

text \<open>\<^verbatim>\<open>Buffer.from(text, "hex")\<close> stops at the first pair that is not two digits.\<close>

fun hexBuffer :: "string \<Rightarrow> buffer" where
  "hexBuffer (a # b # cs) =
     (case (hexVal a, hexVal b) of
        (Some x, Some y) \<Rightarrow> of_nat (16 * x + y) # hexBuffer cs
      | _ \<Rightarrow> [])"
| "hexBuffer _ = []"

definition decVal :: "char \<Rightarrow> nat option" where
  "decVal c =
     (let n = of_char c :: nat in if 48 \<le> n \<and> n \<le> 57 then Some (n - 48) else None)"

definition isDec :: "char \<Rightarrow> bool" where
  "isDec c \<longleftrightarrow> decVal c \<noteq> None"

fun decString :: "nat \<Rightarrow> string" where
  "decString n =
     (if n < 10 then [char_of (48 + n)] else decString (n div 10) @ [char_of (48 + n mod 10)])"

declare decString.simps [simp del]

text \<open>The number that the leading decimal digits of a text spell.\<close>

definition parseDec :: "string \<Rightarrow> nat" where
  "parseDec cs = foldl (\<lambda>n c. 10 * n + the (decVal c)) 0 (takeWhile isDec cs)"

definition isUpper :: "char \<Rightarrow> bool" where
  "isUpper c \<longleftrightarrow> 65 \<le> (of_char c :: nat) \<and> (of_char c :: nat) \<le> 90"

definition isLower :: "char \<Rightarrow> bool" where
  "isLower c \<longleftrightarrow> 97 \<le> (of_char c :: nat) \<and> (of_char c :: nat) \<le> 122"

definition toLower :: "char \<Rightarrow> char" where
  "toLower c = (if isUpper c then char_of ((of_char c :: nat) + 32) else c)"

definition toUpper :: "char \<Rightarrow> char" where
  "toUpper c = (if isLower c then char_of ((of_char c :: nat) - 32) else c)"

lemma hexVal_hexChar [simp]: "d < 16 \<Longrightarrow> hexVal (hexChar d) = Some d"
  by (auto simp: hexVal_def hexChar_def Let_def)

lemma hexString_Nil [simp]: "hexString [] = []"
  by (simp add: hexString_def bufToHex_def)

lemma hexString_Cons:
  "hexString (b # bs) = hexChar (unat b div 16) # hexChar (unat b mod 16) # hexString bs"
  by (simp add: hexString_def bufToHex_def)

lemma length_hexString [simp]: "length (hexString bs) = 2 * length bs"
  by (induction bs) (simp_all add: hexString_Cons)

lemma nibble: "unat (b :: byte) div 16 < 16"
  using unat_byte_less [of b] by (simp add: div_less_iff_less_mult del: unat_byte_less)

lemma of_nat_nibbles: "(of_nat (16 * (unat b div 16) + unat b mod 16) :: byte) = b"
  by (simp only: mult_div_mod_eq) simp

lemma hexBuffer_hexString [simp]: "hexBuffer (hexString bs) = bs"
  by (induction bs) (simp_all only: hexString_Cons hexString_Nil hexBuffer.simps nibble
      hexVal_hexChar mod_less_divisor zero_less_numeral prod.case option.case of_nat_nibbles)

lemma decVal_digit [simp]: "d < 10 \<Longrightarrow> decVal (char_of (48 + d)) = Some d"
  by (simp add: decVal_def)

lemma decString_digits: "c \<in> set (decString n) \<Longrightarrow> isDec c"
  by (induction n arbitrary: c rule: decString.induct)
    (subst (asm) (2) decString.simps, auto simp: isDec_def split: if_splits)

lemma decString_not_Nil [simp]: "decString n \<noteq> []"
  by (subst decString.simps) simp

lemma foldl_decString: "foldl (\<lambda>n c. 10 * n + the (decVal c)) 0 (decString n) = n"
  by (induction n rule: decString.induct) (subst decString.simps, simp)

lemma parseDec_decString [simp]: "parseDec (decString n) = n"
proof -
  have "takeWhile isDec (decString n) = decString n"
    using decString_digits by (simp add: takeWhile_eq_all_conv)
  then show ?thesis by (simp only: parseDec_def foldl_decString)
qed

end
