(* ===== verification/BtcTypes.thy ===== *)
theory BtcTypes
  imports StreamReader Chars
begin

text \<open>
  The value types of \<^verbatim>\<open>packages/bitcoin/lib\<close>: \<^verbatim>\<open>Value.ts\<close>,
  \<^verbatim>\<open>LockTime.ts\<close>, \<^verbatim>\<open>Sequence.ts\<close>, \<^verbatim>\<open>Bits.ts\<close>,
  \<^verbatim>\<open>HashValue.ts\<close>, \<^verbatim>\<open>OutPoint.ts\<close> and \<^verbatim>\<open>Witness.ts\<close>.  A setter that checks
  its argument returns the new object or the exception.
\<close>

section \<open>Value\<close>

text \<open>The picosatoshis of a value; a bigint, so its division truncates towards zero.\<close>

datatype btc_value = Value (psats: int)

definition bigDiv :: "int \<Rightarrow> int \<Rightarrow> int" where
  "bigDiv a b = sgn a * sgn b * (\<bar>a\<bar> div \<bar>b\<bar>)"

instantiation btc_value :: linorder
begin

definition less_eq_btc_value :: "btc_value \<Rightarrow> btc_value \<Rightarrow> bool" where
  "less_eq_btc_value a b \<longleftrightarrow> psats a \<le> psats b"

definition less_btc_value :: "btc_value \<Rightarrow> btc_value \<Rightarrow> bool" where
  "less_btc_value a b \<longleftrightarrow> psats a < psats b"

instance
  by standard (auto simp: less_eq_btc_value_def less_btc_value_def intro: btc_value.expand)

end

definition fromSats :: "int \<Rightarrow> btc_value" where
  "fromSats num = Value (num * 1000000000000)"

definition fromMilliSats :: "int \<Rightarrow> btc_value" where
  "fromMilliSats num = Value (num * 1000000000)"

definition fromMicroSats :: "int \<Rightarrow> btc_value" where
  "fromMicroSats num = Value (num * 1000000)"

definition fromPicoSats :: "int \<Rightarrow> btc_value" where
  "fromPicoSats num = Value num"

definition value_zero :: btc_value where
  "value_zero = Value 0"

definition microsats :: "btc_value \<Rightarrow> int" where
  "microsats v = bigDiv (psats v) 1000000"

definition msats :: "btc_value \<Rightarrow> int" where
  "msats v = bigDiv (psats v) 1000000000"

definition sats :: "btc_value \<Rightarrow> int" where
  "sats v = bigDiv (psats v) 1000000000000"

definition value_eq :: "btc_value \<Rightarrow> btc_value \<Rightarrow> bool" where
  "value_eq v other \<longleftrightarrow> psats other = psats v"

definition value_neq :: "btc_value \<Rightarrow> btc_value \<Rightarrow> bool" where
  "value_neq v other \<longleftrightarrow> psats other \<noteq> psats v"

definition value_gt :: "btc_value \<Rightarrow> btc_value \<Rightarrow> bool" where
  "value_gt v other \<longleftrightarrow> psats v > psats other"

definition value_gte :: "btc_value \<Rightarrow> btc_value \<Rightarrow> bool" where
  "value_gte v other \<longleftrightarrow> psats v \<ge> psats other"

definition value_lt :: "btc_value \<Rightarrow> btc_value \<Rightarrow> bool" where
  "value_lt v other \<longleftrightarrow> psats v < psats other"

definition value_lte :: "btc_value \<Rightarrow> btc_value \<Rightarrow> bool" where
  "value_lte v other \<longleftrightarrow> psats v \<le> psats other"

text \<open>\<open>add\<close> and \<open>sub\<close> modify the object: the result is its new content.\<close>

definition value_add :: "btc_value \<Rightarrow> btc_value \<Rightarrow> btc_value" where
  "value_add v other = Value (psats v + psats other)"

definition value_sub :: "btc_value \<Rightarrow> btc_value \<Rightarrow> btc_value res" where
  "value_sub v other =
     (if psats v - psats other < 0 then Inl (BitcoinError ''ValueUnderflow'')
      else Inr (Value (psats v - psats other)))"

definition value_addn :: "btc_value \<Rightarrow> btc_value \<Rightarrow> btc_value" where
  "value_addn v other = Value (psats v + psats other)"

definition value_subn :: "btc_value \<Rightarrow> btc_value \<Rightarrow> btc_value res" where
  "value_subn v other =
     (if psats v - psats other < 0 then Inl (BitcoinError ''ValueUnderflow'')
      else Inr (Value (psats v - psats other)))"

lemmas value_order = value_eq_def value_neq_def value_gt_def value_gte_def value_lt_def value_lte_def
  less_eq_btc_value_def less_btc_value_def

lemma bigDiv_nonneg: "0 \<le> a \<Longrightarrow> 0 < b \<Longrightarrow> bigDiv a b = a div b"
  by (cases "a = 0") (auto simp: bigDiv_def)

lemma bigDiv_mult [simp]: "0 < b \<Longrightarrow> bigDiv (a * b) b = a"
  by (cases "a = 0") (auto simp: bigDiv_def abs_mult sgn_mult sgn_mult_abs)

lemma sats_fromSats [simp]: "sats (fromSats n) = n"
  by (simp add: sats_def fromSats_def)

lemma sats_nonneg: "0 \<le> psats v \<Longrightarrow> sats v = psats v div 1000000000000"
  by (simp add: sats_def bigDiv_nonneg)

lemma subn_Inr: "value_subn v w = Inr u \<longleftrightarrow> w \<le> v \<and> psats u = psats v - psats w"
  by (cases u) (auto simp: value_subn_def less_eq_btc_value_def)

section \<open>LockTime\<close>

datatype TimeLockMode = Block | Time

record locktime =
  lt_value :: nat

definition newLockTime :: "int \<Rightarrow> locktime res" where
  "newLockTime val =
     (if val > 0xffffffff \<or> val < 0 then Inl (JsError ''Invalid nLocktime'')
      else Inr \<lparr>lt_value = nat val\<rparr>)"

definition lt_setValue :: "locktime \<Rightarrow> int \<Rightarrow> locktime res" where
  "lt_setValue l val =
     (if val > 0xffffffff \<or> val < 0 then Inl (JsError ''Invalid nLocktime'')
      else Inr (l\<lparr>lt_value := nat val\<rparr>))"

definition lt_default :: locktime where
  "lt_default = \<lparr>lt_value = 0xffffffff\<rparr>"

definition lt_zero :: locktime where
  "lt_zero = \<lparr>lt_value = 0\<rparr>"

definition lt_isEnabled :: "locktime \<Rightarrow> bool" where
  "lt_isEnabled l \<longleftrightarrow> lt_value l < 0xffffffff"

definition lt_type :: "locktime \<Rightarrow> TimeLockMode" where
  "lt_type l = (if lt_value l < 500000000 then Block else Time)"

definition lt_parse :: "(buffer, locktime) io" where
  "lt_parse = bind_io sr_readUInt32LE (\<lambda>v. lift_io (newLockTime (int v)))"

definition lt_serialize :: "locktime \<Rightarrow> buffer res" where
  "lt_serialize l = runWriter (Some (replicate 4 0)) (bw_writeUInt32LE (lt_value l))"

section \<open>Sequence\<close>

record sequence =
  seq_value :: nat

definition newSequence :: "int \<Rightarrow> sequence res" where
  "newSequence val =
     (if val < 0 \<or> val > 0xffffffff then Inl (JsError ''Invalid nSequence'')
      else Inr \<lparr>seq_value = nat val\<rparr>)"

definition seq_setValue :: "sequence \<Rightarrow> int \<Rightarrow> sequence res" where
  "seq_setValue s val =
     (if val < 0 \<or> val > 0xffffffff then Inl (JsError ''Invalid nSequence'')
      else Inr (s\<lparr>seq_value := nat val\<rparr>))"

definition seq_default :: sequence where
  "seq_default = \<lparr>seq_value = 0xffffffff\<rparr>"

definition seq_locktime :: sequence where
  "seq_locktime = \<lparr>seq_value = 0xfffffffe\<rparr>"

definition seq_rbf :: sequence where
  "seq_rbf = \<lparr>seq_value = 0xfffffffd\<rparr>"

definition seq_zero :: sequence where
  "seq_zero = \<lparr>seq_value = 0\<rparr>"

definition seq_isDefault :: "sequence \<Rightarrow> bool" where
  "seq_isDefault s \<longleftrightarrow> seq_value s = 0xffffffff"

definition seq_enabled :: "sequence \<Rightarrow> bool" where
  "seq_enabled s \<longleftrightarrow> drop_bit 31 (seq_value s) = 0"

definition seq_isLockTimeSignaled :: "sequence \<Rightarrow> bool" where
  "seq_isLockTimeSignaled s \<longleftrightarrow> seq_value s < 0xffffffff"

definition seq_isRBFSignaled :: "sequence \<Rightarrow> bool" where
  "seq_isRBFSignaled s \<longleftrightarrow> seq_value s < 0xfffffffe"

text \<open>JavaScript's \<^verbatim>\<open>>>\<close> is the arithmetic shift of a 32-bit integer.\<close>

definition seq_mode :: "sequence \<Rightarrow> TimeLockMode" where
  "seq_mode s =
     (if signed_drop_bit 22 (of_nat (seq_value s) :: 32 word) = 1 then Time else Block)"

definition seq_getTimeDelay :: "sequence \<Rightarrow> nat" where
  "seq_getTimeDelay s = unat ((of_nat (seq_value s) :: 32 word) AND 0xffff) * 512"

definition seq_setTimeDelay :: "sequence \<Rightarrow> int \<Rightarrow> sequence res" where
  "seq_setTimeDelay s seconds =
     (let val = (seconds + 511) div 512
      in if val < 0 \<or> val > 0xffff then Inl (JsError ''Invalid nSequence value'')
         else seq_setValue s (val OR push_bit 22 1))"

definition seq_getBlockDelay :: "sequence \<Rightarrow> nat" where
  "seq_getBlockDelay s = unat ((of_nat (seq_value s) :: 32 word) AND 0xffff)"

definition seq_setBlockDelay :: "sequence \<Rightarrow> int \<Rightarrow> sequence res" where
  "seq_setBlockDelay s blocks =
     (if blocks < 0 \<or> blocks > 0xffff then Inl (JsError ''Invalid nSequence value'')
      else seq_setValue s blocks)"

definition seq_timeDelay :: "int \<Rightarrow> sequence res" where
  "seq_timeDelay seconds = seq_setTimeDelay seq_default seconds"

definition seq_blockDelay :: "int \<Rightarrow> sequence res" where
  "seq_blockDelay blocks = seq_setBlockDelay seq_default blocks"

definition seq_parse :: "(buffer, sequence) io" where
  "seq_parse = bind_io sr_readUInt32LE (\<lambda>v. lift_io (newSequence (int v)))"

definition seq_serialize :: "sequence \<Rightarrow> buffer res" where
  "seq_serialize s =
     (if seq_value s < 2 ^ 32 then Inr (le_bytes 4 (seq_value s)) else Inl RangeError)"

lemma and_ffff: "unat ((of_nat v :: 32 word) AND 0xffff) = v mod 65536"
proof -
  have "(0xffff :: 32 word) = mask 16" by (simp add: mask_eq_exp_minus_1)
  then have "(of_nat v :: 32 word) AND 0xffff = take_bit 16 (of_nat v)"
    by (simp only: take_bit_eq_mask)
  also have "unat \<dots> = take_bit 16 (unat (of_nat v :: 32 word))"
    by (simp add: unsigned_take_bit_eq)
  also have "\<dots> = v mod 65536"
    by (simp add: unat_of_nat take_bit_eq_mod mod_mod_cancel)
  finally show ?thesis .
qed

lemma mode_small:
  assumes "v < 2 ^ 31"
  shows "seq_mode \<lparr>seq_value = v\<rparr> = (if v div 2 ^ 22 = 1 then Time else Block)"
proof -
  have s: "sint (of_nat v :: 32 word) = int v"
    using assms by (simp add: sint_uint unsigned_of_nat take_bit_nat_eq_self signed_take_bit_int_eq_self)
  have "signed_drop_bit 22 (of_nat v :: 32 word) = 1 \<longleftrightarrow> sint (signed_drop_bit 22 (of_nat v :: 32 word)) = 1"
    by (auto intro: signed_word_eqI)
  also have "\<dots> \<longleftrightarrow> v div 2 ^ 22 = 1"
    by (simp add: sint_signed_drop_bit_eq s drop_bit_eq_div) linarith
  finally show ?thesis
    by (simp add: seq_mode_def)
qed

lemma drop_bit_31: "seq_enabled \<lparr>seq_value = v\<rparr> \<longleftrightarrow> v < 2 ^ 31"
  by (simp add: seq_enabled_def drop_bit_eq_div div_eq_0_iff)

lemma getDelay_eq:
  "seq_getTimeDelay \<lparr>seq_value = v\<rparr> = v mod 65536 * 512"
  "seq_getBlockDelay \<lparr>seq_value = v\<rparr> = v mod 65536"
  by (simp_all only: seq_getTimeDelay_def seq_getBlockDelay_def and_ffff sequence.simps)

lemma or_bit_22:
  assumes "0 \<le> (v :: int)" "v \<le> 0xffff"
  shows "v OR push_bit 22 1 = v + 2 ^ 22"
proof -
  have "\<not> bit v 22" using assms by (simp add: bit_iff_odd)
  then show ?thesis using set_bit_eq [of 22 v] set_bit_eq_or [of 22 v] by simp
qed

lemma setTimeDelay_eq:
  "seq_setTimeDelay s t =
     (if - 512 < t \<and> t \<le> 0xffff * 512
      then Inr (s\<lparr>seq_value := nat ((t + 511) div 512) + 2 ^ 22\<rparr>)
      else Inl (JsError ''Invalid nSequence value''))"
proof -
  define u where "u = (t + 511) div 512"
  have "- 512 < t \<and> t \<le> 0xffff * 512 \<longleftrightarrow> 0 \<le> u \<and> u \<le> 0xffff"
    unfolding u_def by linarith
  then show ?thesis
    by (simp add: seq_setTimeDelay_def Let_def seq_setValue_def or_bit_22 nat_add_distrib
        del: push_bit_of_1 flip: u_def)
qed

text \<open>
  Setting a relative time lock succeeds exactly up to \<open>0xffff * 512\<close> seconds; the
  sequence is then enabled, time based, and reads back the time rounded up to the next multiple of
  512 seconds.  Setting a block lock succeeds exactly for 0 to \<open>0xffff\<close> blocks, is
  enabled, block based and reads back exactly.  Either survives \<open>serialize\<close> and \<open>parse\<close>.
\<close>

theorem sequence_delays:
  "(case seq_timeDelay t of
      Inl e \<Rightarrow> t \<le> - 512 \<or> 0xffff * 512 < t
    | Inr s \<Rightarrow> - 512 < t \<and> t \<le> 0xffff * 512 \<and> seq_enabled s \<and> seq_mode s = Time
        \<and> t \<le> int (seq_getTimeDelay s) \<and> int (seq_getTimeDelay s) < t + 512
        \<and> 512 dvd seq_getTimeDelay s
        \<and> (\<exists>bs. seq_serialize s = Inr bs \<and> seq_parse (bs @ rest) = (Inr s, rest)))
   \<and> (case seq_blockDelay b of
      Inl e \<Rightarrow> b < 0 \<or> 0xffff < b
    | Inr s \<Rightarrow> 0 \<le> b \<and> b \<le> 0xffff \<and> seq_enabled s \<and> seq_mode s = Block
        \<and> int (seq_getBlockDelay s) = b
        \<and> (\<exists>bs. seq_serialize s = Inr bs \<and> seq_parse (bs @ rest) = (Inr s, rest)))"
proof -
  have rt: "\<exists>bs. seq_serialize \<lparr>seq_value = v\<rparr> = Inr bs
      \<and> seq_parse (bs @ rest) = (Inr \<lparr>seq_value = v\<rparr>, rest)" if "v < 2 ^ 32" for v
  proof -
    have "sr_readUInt32LE (le_bytes 4 v @ rest) = (Inr v, rest)"
      using that sreads_ints(3) [of v] by (simp add: sreads_def)
    then show ?thesis using that
      by (simp add: seq_serialize_def seq_parse_def io_simps newSequence_def)
  qed
  note facts = drop_bit_31 mode_small getDelay_eq rt
  show ?thesis
  proof (intro conjI, goal_cases)
    case 1
    show ?case
    proof (cases "- 512 < t \<and> t \<le> 0xffff * 512")
      case True
      define u where "u = nat ((t + 511) div 512)"
      have u: "u \<le> 0xffff" "t \<le> 512 * int u" "512 * int u < t + 512"
        using True unfolding u_def by linarith+
      have "(u + 4194304) mod 65536 = u"
        using u(1) mod_mult_self1 [of u 64 65536] by simp
      moreover have "(u + 4194304) div 4194304 = 1" using u(1) by auto
      ultimately show ?thesis using True u
        by (simp add: seq_timeDelay_def setTimeDelay_eq seq_default_def facts flip: u_def)
    qed (auto simp: seq_timeDelay_def setTimeDelay_eq)
  next
    case 2
    show ?case
    proof (cases "0 \<le> b \<and> b \<le> 0xffff")
      case True
      then have "nat b \<le> 65535" "(nat b) div 4194304 = 0" by auto
      with True show ?thesis
        by (simp add: seq_blockDelay_def seq_setBlockDelay_def seq_setValue_def seq_default_def facts)
    qed (auto simp: seq_blockDelay_def seq_setBlockDelay_def)
  qed
qed

section \<open>Bits\<close>

text \<open>
  The coefficient is \<open>None\<close> where JavaScript's is \<^verbatim>\<open>NaN\<close>: \<^verbatim>\<open>fromTarget\<close>
  adds bytes that a short target does not have.  \<^verbatim>\<open>undefined << 8\<close> is 0, so only the
  last summand can spoil the sum.  A built-in write stores \<^verbatim>\<open>NaN\<close> as zeros and
  \<^verbatim>\<open>BigInt(NaN)\<close> throws.
\<close>

record bits =
  coefficient :: "nat option"
  exponent :: nat

definition nth_byte :: "buffer \<Rightarrow> nat \<Rightarrow> nat option" where
  "nth_byte bs i = (if i < length bs then Some (unat (bs ! i)) else None)"

definition shl_byte :: "nat option \<Rightarrow> nat \<Rightarrow> nat" where
  "shl_byte b n = (case b of None \<Rightarrow> 0 | Some v \<Rightarrow> push_bit n v)"

definition bits_fromBuffer :: "buffer \<Rightarrow> bits res" where
  "bits_fromBuffer buf =
     fst (bind_io (br_readUIntLE 3) (\<lambda>c. bind_io br_readUInt8 (\<lambda>e.
            return_io \<lparr>coefficient = Some c, exponent = e\<rparr>)) (newBufferReader buf))"

definition bits_fromTarget :: "nat \<Rightarrow> bits" where
  "bits_fromTarget target =
     (let rawBytes = bigToBufBE target None
      in case nth_byte rawBytes 0 of
           Some b \<Rightarrow>
             if b > 0x7f
             then \<lparr>coefficient = map_option (\<lambda>x. push_bit 8 b + x) (nth_byte rawBytes 1),
                   exponent = length rawBytes + 1\<rparr>
             else \<lparr>coefficient = map_option (\<lambda>x. push_bit 16 b + shl_byte (nth_byte rawBytes 1) 8 + x)
                                  (nth_byte rawBytes 2),
                   exponent = length rawBytes\<rparr>
         | None \<Rightarrow> \<lparr>coefficient = None, exponent = length rawBytes\<rparr>)"

definition bits_toBuffer :: "bits \<Rightarrow> buffer res" where
  "bits_toBuffer b =
     runWriter (Some (replicate 4 0))
       (then_io (bw_writeUIntLE (case coefficient b of Some c \<Rightarrow> c | None \<Rightarrow> 0) 3)
                (bw_writeUInt8 (exponent b)))"

definition bits_target :: "bits \<Rightarrow> nat res" where
  "bits_target b =
     (case coefficient b of
        None \<Rightarrow> Inl RangeError
      | Some c \<Rightarrow> if exponent b < 3 then Inl RangeError else Inr (c * 256 ^ (exponent b - 3)))"

definition bits_difficulty :: "bits \<Rightarrow> nat res" where
  "bits_difficulty b = bind_res (bits_target b) (\<lambda>t.
     if t = 0 then Inl RangeError else Inr (0xffff * 256 ^ (0x1d - 3) div t))"

lemma be_bytes_Suc: "be_bytes (Suc n) v = of_nat (v div 256 ^ n) # be_bytes n v"
proof -
  have "le_bytes (Suc n) v = le_bytes n v @ [of_nat (v div 256 ^ n)]" for v
    by (induction n arbitrary: v) (simp_all add: div_mult2_eq)
  then show ?thesis by (simp add: be_bytes_def)
qed

lemma calcBytes_eq: "256 ^ n \<le> v \<Longrightarrow> v < 256 ^ Suc n \<Longrightarrow> calcBytes v = Suc n"
  using calcBytes_le [of v n] calcBytes_le [of v "Suc n"] by simp

lemma of_nat_256: "word_of_nat d * (256 :: byte) = 0"
proof -
  have "(256 :: byte) = 0" by simp
  then show ?thesis by (simp only: mult_zero_right)
qed

lemma be_bytes_shift: "be_bytes n (d * 256 ^ n) = replicate n 0"
proof (induction n arbitrary: d)
  case 0
  show ?case by (simp add: be_bytes_def)
next
  case (Suc n)
  from Suc.IH [of "d * 256"] show ?case
    by (simp add: be_bytes_Suc mult.assoc [symmetric] power_commutes of_nat_256)
qed

lemma be_bytes_scaled: "be_bytes (j + n) (c * 256 ^ n) = be_bytes j c @ replicate n 0"
proof (induction j)
  case 0
  show ?case by (simp add: be_bytes_shift) (simp add: be_bytes_def)
next
  case (Suc j)
  have "c * 256 ^ n div 256 ^ (j + n) = c div 256 ^ j"
    by (simp add: power_add)
  with Suc show ?case by (simp add: be_bytes_Suc)
qed

lemma target_bytes:
  assumes "256 ^ (k - 1) \<le> c" "c < 256 ^ k" "0 < k"
  shows "bigToBufBE (c * 256 ^ n) None = be_bytes k c @ replicate n 0"
proof -
  obtain j where k: "k = Suc j" using assms(3) by (cases k) auto
  then have "256 ^ (j + n) \<le> c * 256 ^ n" "c * 256 ^ n < 256 ^ Suc (j + n)"
    using assms(1,2) by (simp_all add: power_add mult.assoc [symmetric])
  then have "calcBytes (c * 256 ^ n) = k + n" using calcBytes_eq [of "j + n"] k by simp
  then show ?thesis using be_bytes_scaled [of k n c] k by (simp add: bigToBufBE_None)
qed

lemma digits3: "65536 * (c div 65536) + 256 * (c div 256 mod 256) + c mod 256 = (c :: nat)"
proof -
  have "c div 65536 = c div 256 div 256" by (simp add: div_mult2_eq [symmetric])
  then show ?thesis using mult_div_mod_eq [of 256 "c div 256"] mult_div_mod_eq [of 256 c] by linarith
qed

lemma be_bytes_23:
  "be_bytes 2 c = [of_nat (c div 256), of_nat c]"
  "be_bytes 3 c = [of_nat (c div 65536), of_nat (c div 256), of_nat c]"
  by (simp_all add: be_bytes_def le_bytes_numeral div_mult2_eq [symmetric])

definition bits_bytes :: "bits \<Rightarrow> buffer" where
  "bits_bytes b = le_bytes 3 (the (coefficient b)) @ le_bytes 1 (exponent b)"

lemma bits_toBuffer_eq:
  assumes "c < 2 ^ 24" "e < 256"
  shows "bits_toBuffer \<lparr>coefficient = Some c, exponent = e\<rparr> =
     Inr (bits_bytes \<lparr>coefficient = Some c, exponent = e\<rparr>)"
  unfolding bits_toBuffer_def bits_bytes_def using assms
  by (intro runWriter_fixed) (auto intro!: writes_then writes_writeUInt_len bw.w8
      simp del: le_bytes.simps One_nat_def)

lemma bits_fromBuffer_eq:
  assumes "c < 2 ^ 24" "e < 256"
  shows "bits_fromBuffer (bits_bytes \<lparr>coefficient = Some c, exponent = e\<rparr> @ rest) =
     Inr \<lparr>coefficient = Some c, exponent = e\<rparr>"
proof -
  have "reads br_good br_content (br_readUIntLE 3) (le_bytes 3 c) c"
    using reads_readUInt_len(1) [of "le_bytes 3 c"] assms(1) by simp
  moreover have "reads br_good br_content (bind_io br_readUInt8 (\<lambda>e.
      return_io \<lparr>coefficient = Some c, exponent = e\<rparr>)) (le_bytes 1 e)
      \<lparr>coefficient = Some c, exponent = e\<rparr>"
    using assms(2) by (intro reads_bind_last [OF br.u8]) (simp_all add: return_io_apply)
  ultimately have "reads br_good br_content (bind_io (br_readUIntLE 3) (\<lambda>c. bind_io br_readUInt8 (\<lambda>e.
      return_io \<lparr>coefficient = Some c, exponent = e\<rparr>))) (le_bytes 3 c @ le_bytes 1 e)
      \<lparr>coefficient = Some c, exponent = e\<rparr>"
    by (rule reads_bind)
  from readsE [OF this br_good_new br_content_new] show ?thesis
    unfolding bits_fromBuffer_def bits_bytes_def bits.simps option.sel by (metis fst_conv)
qed

text \<open>
  \<^verbatim>\<open>Bits.fromTarget\<close> inverts \<^verbatim>\<open>target\<close> on the normalised bits, those
  whose coefficient fills two or three bytes without setting the sign bit, and such bits survive
  \<^verbatim>\<open>toBuffer\<close> and \<^verbatim>\<open>fromBuffer\<close>, trailing bytes notwithstanding.
\<close>

theorem bits_roundtrip:
  assumes "2 ^ 15 \<le> c" "c < 2 ^ 23" "3 \<le> e" "e < 256"
  shows "(\<exists>t. bits_target \<lparr>coefficient = Some c, exponent = e\<rparr> = Inr t
      \<and> bits_fromTarget t = \<lparr>coefficient = Some c, exponent = e\<rparr>)
    \<and> (\<exists>bs. bits_toBuffer \<lparr>coefficient = Some c, exponent = e\<rparr> = Inr bs
      \<and> bits_fromBuffer (bs @ rest) = Inr \<lparr>coefficient = Some c, exponent = e\<rparr>)"
proof
  define n where "n = e - 3"
  have e: "e = n + 3" using assms(3) by (simp add: n_def)
  have "bits_fromTarget (c * 256 ^ n) = \<lparr>coefficient = Some c, exponent = e\<rparr>"
  proof (cases "2 ^ 16 \<le> c")
    case True
    have *: "bigToBufBE (c * 256 ^ n) None =
       [of_nat (c div 65536), of_nat (c div 256), of_nat c] @ replicate n 0"
      using target_bytes [of 3 c n] True assms(2) by (simp add: be_bytes_23)
    have "c div 65536 \<le> 127" using assms(2) by (simp add: less_Suc_eq_le [symmetric] div_less_iff_less_mult)
    with digits3 [of c] show ?thesis
      by (simp add: bits_fromTarget_def * nth_byte_def shl_byte_def unat_of_nat_byte
          push_bit_eq_mult e)
  next
    case False
    have *: "bigToBufBE (c * 256 ^ n) None = [of_nat (c div 256), of_nat c] @ replicate n 0"
      using target_bytes [of 2 c n] False assms(1) by (simp add: be_bytes_23)
    have "127 < c div 256" "c div 256 < 256" "256 * (c div 256) + c mod 256 = c"
      using assms(1) False by (simp_all add: less_eq_div_iff_mult_less_eq div_less_iff_less_mult flip: Suc_le_eq)
    then show ?thesis
      by (simp add: bits_fromTarget_def * nth_byte_def unat_of_nat_byte push_bit_eq_mult e)
  qed
  then show "\<exists>t. bits_target \<lparr>coefficient = Some c, exponent = e\<rparr> = Inr t
      \<and> bits_fromTarget t = \<lparr>coefficient = Some c, exponent = e\<rparr>"
    by (simp add: bits_target_def e)
next
  show "\<exists>bs. bits_toBuffer \<lparr>coefficient = Some c, exponent = e\<rparr> = Inr bs
      \<and> bits_fromBuffer (bs @ rest) = Inr \<lparr>coefficient = Some c, exponent = e\<rparr>"
    using assms by (simp add: bits_toBuffer_eq bits_fromBuffer_eq)
qed

theorem bits_roundtrip_witness:
  "(\<exists>t. bits_target \<lparr>coefficient = Some 0xffff, exponent = 29\<rparr> = Inr t
      \<and> bits_fromTarget t = \<lparr>coefficient = Some 0xffff, exponent = 29\<rparr>)
    \<and> (\<exists>bs. bits_toBuffer \<lparr>coefficient = Some 0xffff, exponent = 29\<rparr> = Inr bs
      \<and> bits_fromBuffer (bs @ [1]) = Inr \<lparr>coefficient = Some 0xffff, exponent = 29\<rparr>)"
  by (rule bits_roundtrip) simp_all

section \<open>HashValue\<close>

text \<open>A hash in internal byte order.\<close>

datatype hash_value = HashValue (hv_value: buffer)

datatype HashByteOrder = Internal | RPC

definition hv_parse :: "(buffer, hash_value) io" where
  "hv_parse = bind_io (sr_readBytes (Some 32)) (\<lambda>b. return_io (HashValue b))"

definition hv_fromRpcStream :: "(buffer, hash_value) io" where
  "hv_fromRpcStream = bind_io (sr_readBytes (Some 32)) (\<lambda>b. return_io (HashValue (rev b)))"

definition hv_fromRpc :: "string \<Rightarrow> hash_value res" where
  "hv_fromRpc text = fst (hv_fromRpcStream (hexBuffer text))"

definition hv_toString :: "HashByteOrder \<Rightarrow> hash_value \<Rightarrow> string" where
  "hv_toString byteOrder h =
     (if byteOrder = RPC then hexString (rev (hv_value h)) else hexString (hv_value h))"

definition hv_serialize :: "HashByteOrder \<Rightarrow> hash_value \<Rightarrow> buffer" where
  "hv_serialize byteOrder h = (if byteOrder = Internal then hv_value h else rev (hv_value h))"

definition hv_eq :: "hash_value \<Rightarrow> hash_value option \<Rightarrow> bool" where
  "hv_eq h other = (case other of None \<Rightarrow> False | Some g \<Rightarrow> hv_value h = hv_value g)"

definition hv_wf :: "hash_value \<Rightarrow> bool" where
  "hv_wf h \<longleftrightarrow> length (hv_value h) = 32"

lemma hv_fromRpc_toString: "hv_wf h \<Longrightarrow> hv_fromRpc (hv_toString RPC h) = Inr h"
  by (cases h) (simp add: hv_fromRpc_def hv_toString_def hv_fromRpcStream_def io_simps
      sr_readBytes_Some hv_wf_def)

lemma sreads_hv: "hv_wf h \<Longrightarrow> sreads hv_parse (hv_value h) h"
  by (cases h) (simp add: sreads_def hv_parse_def io_simps sr_readBytes_Some hv_wf_def)

section \<open>OutPoint\<close>

record outpoint =
  op_txid :: hash_value
  op_outputIndex :: nat

definition op_coinbase :: outpoint where
  "op_coinbase = \<lparr>op_txid = HashValue (replicate 32 0), op_outputIndex = 0xffffffff\<rparr>"

definition op_parse :: "(buffer, outpoint) io" where
  "op_parse = bind_io hv_parse (\<lambda>txid. bind_io sr_readUInt32LE (\<lambda>outputIndex.
     return_io \<lparr>op_txid = txid, op_outputIndex = outputIndex\<rparr>))"

text \<open>
  The regular expression takes 64 hexadecimal digits, a colon and at least one decimal digit, and
  nothing else.  \<^verbatim>\<open>parseInt\<close> is exact below \<open>2 ^ 53\<close>.
\<close>

definition op_fromString :: "string \<Rightarrow> outpoint res" where
  "op_fromString text =
     (if (\<forall>c\<in>set (take 64 text). hexVal c \<noteq> None) \<and> 65 < length text \<and> text ! 64 = CHR 0x3A
         \<and> (\<forall>c\<in>set (drop 65 text). isDec c)
      then bind_res (hv_fromRpc (take 64 text)) (\<lambda>txid.
             Inr \<lparr>op_txid = txid, op_outputIndex = parseDec (drop 65 text)\<rparr>)
      else Inl (JsError ''invalid argument''))"

definition op_toString :: "outpoint \<Rightarrow> string" where
  "op_toString p = hv_toString RPC (op_txid p) @ CHR 0x3A # decString (op_outputIndex p)"

definition op_serialize :: "outpoint \<Rightarrow> buffer res" where
  "op_serialize p = runWriter (Some (replicate 36 0))
     (then_io (bw_writeBytes (hv_serialize Internal (op_txid p)))
              (bw_writeUInt32LE (op_outputIndex p)))"

definition op_eq :: "outpoint \<Rightarrow> outpoint option \<Rightarrow> bool" where
  "op_eq p other =
     (case other of None \<Rightarrow> False
      | Some q \<Rightarrow> hv_eq (op_txid p) (Some (op_txid q)) \<and> op_outputIndex p = op_outputIndex q)"

definition op_wf :: "outpoint \<Rightarrow> bool" where
  "op_wf p \<longleftrightarrow> hv_wf (op_txid p) \<and> op_outputIndex p < 2 ^ 32"

definition op_bytes :: "outpoint \<Rightarrow> buffer" where
  "op_bytes p = hv_value (op_txid p) @ le_bytes 4 (op_outputIndex p)"

lemma op_serialize_wf: "op_wf p \<Longrightarrow> op_serialize p = Inr (op_bytes p)"
  unfolding op_serialize_def op_wf_def op_bytes_def
  by (intro runWriter_fixed) (auto intro!: writes_then bw_writes simp: hv_serialize_def hv_wf_def)

lemma length_op_bytes: "op_wf p \<Longrightarrow> length (op_bytes p) = 36"
  by (simp add: op_wf_def op_bytes_def hv_wf_def)

lemma sreads_op: "op_wf p \<Longrightarrow> sreads op_parse (op_bytes p) p"
  unfolding op_parse_def op_bytes_def op_wf_def
  by (intro sreads_bind [OF sreads_hv] sreads_bind_last [OF sreads_ints(3)])
    (auto simp: return_io_apply)

lemma hexVal_hexString: "c \<in> set (hexString bs) \<Longrightarrow> hexVal c \<noteq> None"
  by (induction bs) (auto simp: hexString_Cons nibble)

text \<open>
  An outpoint with a 32-byte transaction identifier and a 32-bit index survives
  \<^verbatim>\<open>serialize\<close> and \<^verbatim>\<open>parse\<close>, which consumes exactly its 36 bytes, and
  \<^verbatim>\<open>toString\<close> and \<^verbatim>\<open>fromString\<close>, which print the identifier in RPC order; and
  \<^verbatim>\<open>eq\<close> is equality of outpoints.
\<close>

theorem outpoint_roundtrip:
  assumes "op_wf p"
  shows "(\<exists>bs. op_serialize p = Inr bs \<and> length bs = 36 \<and> op_parse (bs @ rest) = (Inr p, rest))
    \<and> op_fromString (op_toString p) = Inr p \<and> (op_eq p (Some q) \<longleftrightarrow> p = q)"
proof (intro conjI)
  show "\<exists>bs. op_serialize p = Inr bs \<and> length bs = 36 \<and> op_parse (bs @ rest) = (Inr p, rest)"
    using op_serialize_wf [OF assms] length_op_bytes [OF assms] sreads_op [OF assms]
    by (simp add: sreads_def)
  have len: "length (hv_toString RPC (op_txid p)) = 64"
    using assms by (simp add: hv_toString_def op_wf_def hv_wf_def)
  then show "op_fromString (op_toString p) = Inr p"
    using assms hv_fromRpc_toString [of "op_txid p"] hexVal_hexString
    by (auto simp: op_fromString_def op_toString_def op_wf_def nth_append decString_digits
        hv_toString_def)
  show "op_eq p (Some q) \<longleftrightarrow> p = q"
    by (cases "op_txid p"; cases "op_txid q") (auto simp: op_eq_def hv_eq_def)
qed

theorem outpoint_roundtrip_witness:
  "(\<exists>bs. op_serialize op_coinbase = Inr bs \<and> length bs = 36
      \<and> op_parse (bs @ [5]) = (Inr op_coinbase, [5]))
    \<and> op_fromString (op_toString op_coinbase) = Inr op_coinbase
    \<and> (op_eq op_coinbase (Some op_coinbase) \<longleftrightarrow> op_coinbase = op_coinbase)"
  by (rule outpoint_roundtrip) (simp add: op_wf_def hv_wf_def op_coinbase_def)

section \<open>Witness\<close>

datatype witness = Witness (wit_data: buffer)

definition wit_parse :: "(buffer, witness) io" where
  "wit_parse = bind_io sr_readVarInt (\<lambda>len. bind_io (sr_readBytes (Some len)) (\<lambda>data.
     return_io (Witness data)))"

definition wit_fromHex :: "string \<Rightarrow> witness res" where
  "wit_fromHex hex = fst (wit_parse (hexBuffer hex))"

definition wit_serialize :: "witness \<Rightarrow> buffer res" where
  "wit_serialize w = runWriter None
     (then_io (bw_writeVarInt (length (wit_data w))) (bw_writeBytes (wit_data w)))"

definition wit_toString :: "witness \<Rightarrow> string" where
  "wit_toString w = hexString (wit_data w)"

definition wit_bytes :: "witness \<Rightarrow> buffer" where
  "wit_bytes w = varint_bytes (length (wit_data w)) @ wit_data w"

lemma wit_serialize_eq:
  assumes "length (wit_bytes w) \<le> 2 ^ 30"
  shows "wit_serialize w = Inr (wit_bytes w)"
  using assms unfolding wit_serialize_def wit_bytes_def
  by (intro runWriter_growing writes_then writes_writeVarInt writes_writeBytes) auto

lemma sreads_wit: "length (wit_data w) < 2 ^ 64 \<Longrightarrow> sreads wit_parse (wit_bytes w) w"
  unfolding wit_parse_def wit_bytes_def
  by (intro sreads_bind [OF sreads_varint] sreads_bind_last [OF sreads_bytes])
    (auto simp: return_io_apply)

end
