(* ===== verification/Stack.thy ===== *)
theory Stack
  imports Bytes
begin

text \<open>
  \<^verbatim>\<open>packages/bitcoin/lib/Stack.ts\<close>: numbers of the script stack, as signed-magnitude
  little-endian byte strings.
\<close>

section \<open>The operations\<close>

text \<open>\<open>encodeAbs\<close> is the loop that pushes the smallest byte and shifts it off.\<close>

fun encodeAbs :: "nat \<Rightarrow> buffer" where
  "encodeAbs v = (if v > 0 then of_nat (v mod 256) # encodeAbs (v div 256) else [])"

declare encodeAbs.simps [simp del]

definition encodeNum :: "int \<Rightarrow> buffer" where
  "encodeNum num =
     (let neg = num < 0;
          bytes = encodeAbs (nat \<bar>num\<bar>)
      in if bytes \<noteq> [] \<and> bit (last bytes) 7
         then (if neg then bytes @ [0x80] else bytes @ [0])
         else if neg then bytes[length bytes - 1 := last bytes OR 0x80]
         else bytes)"

definition decodeNum :: "buffer \<Rightarrow> int" where
  "decodeNum buf =
     (case rev buf of
        [] \<Rightarrow> 0
      | b # be \<Rightarrow>
          let neg = bit b 7;
              msb = (if neg then b AND 0x7f else b);
              result = foldl (\<lambda>r x. push_bit 8 r + int (unat x)) (int (unat msb)) be
          in if neg then - result else result)"

section \<open>Decoding inverts encoding\<close>

lemma encodeAbs_eq: "encodeAbs v = le_bytes (calcBytes v) v"
proof (induction v rule: encodeAbs.induct)
  case (1 v)
  then show ?case
    by (subst encodeAbs.simps, subst calcBytes.simps)
      (simp add: word_unat_eq_iff unat_of_nat_byte)
qed

lemma foldl_be_val:
  "foldl (\<lambda>r x. push_bit 8 r + int (unat x)) (int a) bs = int (a * 256 ^ length bs + be_val bs)"
proof (induction bs arbitrary: a)
  case (Cons b bs)
  have "push_bit 8 (int a) + int (unat b) = int (a * 256 + unat b)"
    by (simp add: push_bit_eq_mult)
  then show ?case by (simp only: foldl.simps Cons.IH) (simp add: be_val_Cons algebra_simps)
qed simp

lemma div128: "(n :: nat) < 256 \<Longrightarrow> n div 128 = 1 \<longleftrightarrow> 128 \<le> n"
  using div_mult_mod_eq [of n 128] by (cases "128 \<le> n") (auto simp: le_div_geq)

text \<open>What \<open>decodeNum\<close> makes of a low part and a last byte with or without the sign bit.\<close>

lemma unat_sign:
  fixes b :: byte
  shows "bit b 7 \<longleftrightarrow> 128 \<le> unat b"
    and "unat (b AND 0x7f) = unat b mod 128"
    and "unat b < 128 \<Longrightarrow> unat (b OR 0x80) = unat b + 128"
proof -
  have m: "(0x7f :: byte) = mask 7" by (simp add: mask_eq_exp_minus_1)
  show a: "unat (b AND 0x7f) = unat b mod 128"
    by (simp only: m flip: take_bit_eq_mask) (simp add: take_bit_eq_mod unat_mod)
  have b: "bit b 7 \<longleftrightarrow> 128 \<le> unat b" for b :: byte
  proof -
    have "bit b 7 \<longleftrightarrow> bit (unat b) 7" by (simp add: bit_unsigned_iff)
    also have "\<dots> \<longleftrightarrow> odd (unat b div 128)" by (simp add: bit_iff_odd)
    also have "\<dots> \<longleftrightarrow> unat b div 128 = 1"
      using div_less_iff_less_mult [of 128 "unat b" 2] unat_byte_less [of b] by (auto elim!: oddE)
    also have "\<dots> \<longleftrightarrow> 128 \<le> unat b"
      using unat_byte_less [of b] by (intro div128)
    finally show ?thesis .
  qed
  then show "bit b 7 \<longleftrightarrow> 128 \<le> unat b" .
  show "unat (b OR 0x80) = unat b + 128" if "unat b < 128"
  proof -
    have "\<not> bit b 7" using that b by simp
    then have "b OR 0x80 = b + 2 ^ 7"
      using set_bit_eq [of 7 b] set_bit_eq_or [of 7 b] by simp
    then show ?thesis using that by (simp add: unat_word_ariths)
  qed
qed

lemma decode_snoc:
  "decodeNum (bs @ [b]) =
     (let v = int (le_val bs + 256 ^ length bs * (unat b mod 128)) in if 128 \<le> unat b then - v else v)"
proof -
  have d: "decodeNum (bs @ [b]) =
     (let v = int (unat (if bit b 7 then b AND 0x7f else b) * 256 ^ length bs + le_val bs)
      in if bit b 7 then - v else v)"
    by (simp add: decodeNum_def foldl_be_val be_val_def uint_nat
        del: of_nat_add of_nat_mult of_nat_power of_nat_unat)
  show ?thesis
    unfolding d using unat_sign(1,2) [of b] by (auto simp: Let_def algebra_simps simp del: of_nat_unat)
qed

lemma encodeNum_cases:
  assumes "n \<noteq> 0"
  obtains bs b where "encodeNum n = bs @ [b]"
    "nat \<bar>n\<bar> = le_val bs + 256 ^ length bs * (unat b mod 128)"
    "128 \<le> unat b \<longleftrightarrow> n < 0"
    "\<And>k. length bs = Suc k \<Longrightarrow> 2 ^ (8 * k + 7) \<le> nat \<bar>n\<bar>"
proof -
  define v where "v = nat \<bar>n\<bar>"
  define cs where "cs = le_bytes (calcBytes v) v"
  have v: "0 < v" using assms by (simp add: v_def)
  then have len: "0 < calcBytes v" by (subst calcBytes.simps) simp
  have val: "le_val cs = v" using less_calcBytes [of v] by (simp add: cs_def)
  obtain ds c where cs: "cs = ds @ [c]" using len
    by (cases cs rule: rev_cases) (auto dest: arg_cong [of _ _ length] simp: cs_def)
  have lo: "256 ^ length ds \<le> v"
    using calcBytes_le [of v "length ds"] arg_cong [OF cs, of length] by (simp add: cs_def not_le)
  have vs: "v = le_val ds + 256 ^ length ds * unat c" using val cs by (simp add: le_val_append)
  have p: "(2::nat) ^ (8 * k + 7) = 128 * 256 ^ k" for k
    by (simp add: power_add power_mult)
  show thesis
  proof (cases "bit c 7")
    case True
    then have "encodeNum n = cs @ [if n < 0 then 0x80 else 0]"
      by (simp add: encodeNum_def Let_def encodeAbs_eq flip: v_def cs_def) (simp add: cs)
    moreover have "2 ^ (8 * k + 7) \<le> v" if "length cs = Suc k" for k
    proof -
      have "128 * 256 ^ k \<le> 256 ^ k * unat c" using True unat_sign(1) [of c] by simp
      also have "\<dots> \<le> v" using that vs cs by simp
      finally show ?thesis by (simp only: p)
    qed
    ultimately show thesis
      using that [of cs "if n < 0 then 0x80 else 0"] val by (simp flip: v_def)
  next
    case False
    then have e: "encodeNum n = ds @ [if n < 0 then c OR 0x80 else c]"
      by (simp add: encodeNum_def Let_def encodeAbs_eq flip: v_def cs_def)
        (simp add: cs list_update_append)
    moreover have "unat c < 128" using False unat_sign(1) [of c] by simp
    moreover have low: "2 ^ (8 * k + 7) \<le> v" if "length ds = Suc k" for k
      using lo that by (simp add: p)
    ultimately have
      "v = le_val ds + 256 ^ length ds * (unat (if n < 0 then c OR 0x80 else c) mod 128)"
      "128 \<le> unat (if n < 0 then c OR 0x80 else c) \<longleftrightarrow> n < 0"
      using vs unat_sign(3) [of c] by auto
    then show thesis
      using that [of ds "if n < 0 then c OR 0x80 else c"] e low unfolding v_def by blast
  qed
qed

lemma encodeNum_roundtrip:
  "decodeNum (encodeNum n) = n
   \<and> (length (encodeNum n) \<le> Suc k \<longleftrightarrow> \<bar>n\<bar> < 2 ^ (8 * k + 7))
   \<and> (encodeNum n = [] \<longleftrightarrow> n = 0)"
proof (cases "n = 0")
  case True
  then show ?thesis by (simp add: encodeNum_def encodeAbs.simps decodeNum_def)
next
  case False
  then obtain bs b where e: "encodeNum n = bs @ [b]"
    "nat \<bar>n\<bar> = le_val bs + 256 ^ length bs * (unat b mod 128)"
    "128 \<le> unat b \<longleftrightarrow> n < 0"
    "\<And>k. length bs = Suc k \<Longrightarrow> 2 ^ (8 * k + 7) \<le> nat \<bar>n\<bar>"
    by (rule encodeNum_cases) blast
  have "decodeNum (encodeNum n) = (if n < 0 then - int (nat \<bar>n\<bar>) else int (nat \<bar>n\<bar>))"
    by (simp only: e(1) decode_snoc Let_def e(2) e(3))
  moreover have "length bs \<le> k \<longleftrightarrow> nat \<bar>n\<bar> < 2 ^ (8 * k + 7)"
  proof
    have p: "(2::nat) ^ (8 * k + 7) = 128 * 256 ^ k" by (simp add: power_add power_mult)
    assume "length bs \<le> k"
    have "nat \<bar>n\<bar> < 256 ^ length bs * (1 + unat b mod 128)"
      using le_val_less [of bs] e(2) by simp
    also have "\<dots> \<le> 256 ^ k * 128"
      using \<open>length bs \<le> k\<close> by (intro mult_mono power_increasing) (auto simp: Suc_le_eq)
    finally show "nat \<bar>n\<bar> < 2 ^ (8 * k + 7)" by (simp add: p)
  next
    assume less: "nat \<bar>n\<bar> < 2 ^ (8 * k + 7)"
    show "length bs \<le> k"
    proof (rule ccontr)
      assume "\<not> length bs \<le> k"
      then obtain j where j: "length bs = Suc j" "k \<le> j" by (cases "length bs") auto
      have "(2::nat) ^ (8 * k + 7) \<le> 2 ^ (8 * j + 7)" using j by (intro power_increasing) auto
      with e(4) [OF j(1)] less show False by linarith
    qed
  qed
  ultimately show ?thesis using False e(1) by (auto simp: nat_less_iff)
qed

lemmas encodeNum_length = encodeNum_roundtrip [THEN conjunct2]

lemma le_val_encodeNum:
  assumes "0 \<le> n"
  shows "le_val (encodeNum n) = nat n"
proof (cases "n = 0")
  case True
  then show ?thesis by (simp add: encodeNum_def encodeAbs.simps)
next
  case False
  then obtain bs b where "encodeNum n = bs @ [b]"
    "nat \<bar>n\<bar> = le_val bs + 256 ^ length bs * (unat b mod 128)" "128 \<le> unat b \<longleftrightarrow> n < 0"
    by (rule encodeNum_cases) blast
  with assms show ?thesis by (simp add: le_val_append)
qed

text \<open>
  \<^verbatim>\<open>Stack.decodeNum\<close> inverts \<^verbatim>\<open>Stack.encodeNum\<close> on every integer, and the
  encoding is minimal: \<open>k\<close> bytes (\<open>k\<close> positive) are enough exactly for the numbers whose
  magnitude is below \<open>2 ^ (8 k - 1)\<close>; only zero encodes to the empty buffer.
\<close>

theorem stack_number_roundtrip:
  "decodeNum (encodeNum n) = n
   \<and> (length (encodeNum n) \<le> Suc k \<longleftrightarrow> \<bar>n\<bar> < 2 ^ (8 * k + 7))
   \<and> (encodeNum n = [] \<longleftrightarrow> n = 0)"
  by (rule encodeNum_roundtrip)

end
