(* ===== verification/Script.thy ===== *)
theory Script
  imports BtcTypes Stack
begin

text \<open>
  \<^verbatim>\<open>packages/bitcoin/lib\<close>: \<^verbatim>\<open>OpCodes.ts\<close>, \<^verbatim>\<open>Script.ts\<close> and
  \<^verbatim>\<open>ScriptBuf.ts\<close>.  A script is the list of its commands, an op code or a buffer.
  Hash functions and the checks of public keys and DER signatures come from libraries and are
  parameters.
\<close>

section \<open>Op codes and commands\<close>

text \<open>
  The enum is a JavaScript object that maps the names to their numbers and every number to the last
  name that was given it.
\<close>

definition OpCode :: "(string \<times> nat) list" where
  "OpCode =
  [(''OP_RESERVED'', 0x50), (''OP_0'', 0x00), (''OP_FALSE'', 0x00), (''OP_PUSHDATA1'', 0x4c),
   (''OP_PUSHDATA2'', 0x4d), (''OP_PUSHDATA4'', 0x4e), (''OP_1NEGATE'', 0x4f), (''OP_1'', 0x51),
   (''OP_TRUE'', 0x51), (''OP_2'', 0x52), (''OP_3'', 0x53), (''OP_4'', 0x54),
   (''OP_5'', 0x55), (''OP_6'', 0x56), (''OP_7'', 0x57), (''OP_8'', 0x58),
   (''OP_9'', 0x50), (''OP_10'', 0x5a), (''OP_11'', 0x5b), (''OP_12'', 0x5c),
   (''OP_13'', 0x5d), (''OP_14'', 0x5e), (''OP_15'', 0x5f), (''OP_16'', 0x60),
   (''OP_NOOP'', 0x61), (''OP_IF'', 0x63), (''OP_NOTIF'', 0x64), (''OP_ELSE'', 0x67),
   (''OP_ENDIF'', 0x68), (''OP_VERIFY'', 0x69), (''OP_RETURN'', 0x6a), (''OP_TOALTSTACK'', 0x6b),
   (''OP_FROMALTSTACK'', 0x6c), (''OP_2DROP'', 0x6d), (''OP_2DUP'', 0x6e), (''OP_3DUP'', 0x6f),
   (''OP_2OVER'', 0x70), (''OP_2ROT'', 0x71), (''OP_2SWAP'', 0x72), (''OP_IFDUP'', 0x73),
   (''OP_DEPTH'', 0x74), (''OP_DROP'', 0x75), (''OP_DUP'', 0x76), (''OP_NIP'', 0x77),
   (''OP_OVER'', 0x78), (''OP_PICK'', 0x79), (''OP_ROLL'', 0x7a), (''OP_ROT'', 0x7b),
   (''OP_SWAP'', 0x7c), (''OP_TUCK'', 0x7d), (''OP_CAT'', 0x7e), (''OP_SUBSTR'', 0x7f),
   (''OP_LEFT'', 0x80), (''OP_RIGHT'', 0x81), (''OP_SIZE'', 0x82), (''OP_INVERT'', 0x83),
   (''OP_AND'', 0x84), (''OP_OR'', 0x85), (''OP_XOR'', 0x86), (''OP_EQUAL'', 0x87),
   (''OP_EQUALVERIFY'', 0x88), (''OP_1ADD'', 0x8b), (''OP_1SUB'', 0x8c), (''OP_2MUL'', 0x8d),
   (''OP_2DIV'', 0x8e), (''OP_NEGATE'', 0x8f), (''OP_ABS'', 0x90), (''OP_NOT'', 0x91),
   (''OP_0NOTEQUAL'', 0x92), (''OP_ADD'', 0x93), (''OP_SUB'', 0x94), (''OP_MUL'', 0x95),
   (''OP_DIV'', 0x96), (''OP_MOD'', 0x97), (''OP_LSHIFT'', 0x98), (''OP_RSHIFT'', 0x99),
   (''OP_BOOLAND'', 0x9a), (''OP_BOOLOR'', 0x9b), (''OP_NUMEQUAL'', 0x9c), (''OP_NUMEQUALVERIFY'', 0x9d),
   (''OP_NUMNOTEQUAL'', 0x9e), (''OP_LESSTHAN'', 0x9f), (''OP_GREATERTHAN'', 0xa0), (''OP_LESSTHANOREQUAL'', 0xa1),
   (''OP_GREATERTHANOREQUAL'', 0xa2), (''OP_MIN'', 0xa3), (''OP_MAX'', 0xa4), (''OP_WITHIN'', 0xa5),
   (''OP_RIPEMD160'', 0xa6), (''OP_SHA1'', 0xa7), (''OP_SHA256'', 0xa8), (''OP_HASH160'', 0xa9),
   (''OP_HASH256'', 0xaa), (''OP_CODESEPARATOR'', 0xab), (''OP_CHECKSIG'', 0xac), (''OP_CHECKSIGVERIFY'', 0xad),
   (''OP_CHECKMULTISIG'', 0xae), (''OP_CHECKMULTISIGVERIFY'', 0xaf), (''OP_CHECKLOCKTIMEVERIFY'', 0xb1), (''OP_CHECKSEQUENCEVERIFY'', 0xb2)]"

definition opName :: "nat \<Rightarrow> string option" where
  "opName n = map_of (rev (map (\<lambda>(name, val). (val, name)) OpCode)) n"

datatype script_cmd = Op nat | Data buffer

type_synonym script = "script_cmd list"

definition OP_0 :: nat where "OP_0 = 0x00"
definition OP_PUSHDATA1 :: nat where "OP_PUSHDATA1 = 0x4c"
definition OP_PUSHDATA2 :: nat where "OP_PUSHDATA2 = 0x4d"
definition OP_NOTIF :: nat where "OP_NOTIF = 0x64"
definition OP_IF :: nat where "OP_IF = 0x63"
definition OP_ELSE :: nat where "OP_ELSE = 0x67"
definition OP_ENDIF :: nat where "OP_ENDIF = 0x68"
definition OP_DROP :: nat where "OP_DROP = 0x75"
definition OP_DUP :: nat where "OP_DUP = 0x76"
definition OP_SWAP :: nat where "OP_SWAP = 0x7c"
definition OP_SIZE :: nat where "OP_SIZE = 0x82"
definition OP_2 :: nat where "OP_2 = 0x52"
definition OP_EQUAL :: nat where "OP_EQUAL = 0x87"
definition OP_EQUALVERIFY :: nat where "OP_EQUALVERIFY = 0x88"
definition OP_IFDUP :: nat where "OP_IFDUP = 0x73"
definition OP_HASH160 :: nat where "OP_HASH160 = 0xa9"
definition OP_CHECKSIG :: nat where "OP_CHECKSIG = 0xac"
definition OP_CHECKSIGVERIFY :: nat where "OP_CHECKSIGVERIFY = 0xad"
definition OP_CHECKMULTISIG :: nat where "OP_CHECKMULTISIG = 0xae"
definition OP_CHECKLOCKTIMEVERIFY :: nat where "OP_CHECKLOCKTIMEVERIFY = 0xb1"
definition OP_CHECKSEQUENCEVERIFY :: nat where "OP_CHECKSEQUENCEVERIFY = 0xb2"

lemmas op_codes = OP_0_def OP_PUSHDATA1_def OP_PUSHDATA2_def OP_NOTIF_def OP_IF_def OP_ELSE_def OP_ENDIF_def OP_DROP_def OP_DUP_def OP_SWAP_def OP_SIZE_def OP_2_def OP_EQUAL_def OP_EQUALVERIFY_def OP_IFDUP_def OP_HASH160_def OP_CHECKSIG_def OP_CHECKSIGVERIFY_def OP_CHECKMULTISIG_def OP_CHECKLOCKTIMEVERIFY_def OP_CHECKSEQUENCEVERIFY_def

section \<open>Serialising and parsing commands\<close>

definition serializeCmd :: "script_cmd \<Rightarrow> buffer res" where
  "serializeCmd cmd =
     (case cmd of
        Op op \<Rightarrow> Inr [of_nat op]
      | Data d \<Rightarrow>
          if 1 \<le> length d \<and> length d \<le> 75 then Inr (of_nat (length d) # d)
          else if 76 \<le> length d \<and> length d \<le> 255
          then Inr (of_nat OP_PUSHDATA1 # of_nat (length d) # d)
          else if 256 \<le> length d \<and> length d \<le> 520
          then Inr (of_nat OP_PUSHDATA2 # bigToBufLE (length d) (Some 2) @ d)
          else Inl (JsError ''Data too long''))"

definition serializeCmds :: "script \<Rightarrow> buffer res" where
  "serializeCmds cmds = bind_res (map_res serializeCmd cmds) (\<lambda>results. Inr (concat results))"

definition script_serialize :: "script \<Rightarrow> buffer res" where
  "script_serialize cmds = bind_res (serializeCmds cmds) (\<lambda>cmdBuf.
     bind_res (encodeVarInt (length cmdBuf)) (\<lambda>len. Inr (len @ cmdBuf)))"

text \<open>One turn of the loop of \<^verbatim>\<open>readCmds\<close>.\<close>

definition readCmd :: "(buffer_reader, script_cmd) io" where
  "readCmd = bind_io br_readUInt8 (\<lambda>op.
     if 0x01 \<le> op \<and> op \<le> 0x4b
     then bind_io (br_readBytes (Some op)) (\<lambda>bytes. return_io (Data bytes))
     else if op = OP_PUSHDATA1
     then bind_io br_readUInt8 (\<lambda>n.
            bind_io (br_readBytes (Some n)) (\<lambda>bytes. return_io (Data bytes)))
     else if op = OP_PUSHDATA2
     then bind_io br_readUInt16LE (\<lambda>n.
            bind_io (br_readBytes (Some n)) (\<lambda>bytes. return_io (Data bytes)))
     else return_io (Op op))"

text \<open>
  \<^verbatim>\<open>readCmds\<close> is a generator: the commands that it yields, and the exception that ends it
  if there is one.  Every turn advances the reader.
\<close>

lemma br_readUInt8_advances:
  "br_readUInt8 r = (Inr v, r') \<Longrightarrow>
     br_buffer r' = br_buffer r \<and> br_position r' = Suc (br_position r) \<and> br_position r < length (br_buffer r)"
  by (auto simp: br_readUInt8_def br_readStandard_def split: if_splits)

lemma br_readUInt16LE_advances:
  "br_readUInt16LE r = (Inr v, r') \<Longrightarrow> br_buffer r' = br_buffer r \<and> br_position r \<le> br_position r'"
  by (auto simp: br_readUInt16LE_def br_readStandard_def split: if_splits)

lemma br_readBytes_advances:
  "br_readBytes (Some n) r = (Inr v, r') \<Longrightarrow> br_buffer r' = br_buffer r \<and> br_position r \<le> br_position r'"
  by (auto simp: br_readBytes_def split: if_splits)

lemma readCmd_advances:
  assumes "readCmd r = (Inr c, r')"
  shows "length (br_buffer r') - br_position r' < length (br_buffer r) - br_position r"
proof -
  obtain op r1 where 1: "br_readUInt8 r = (Inr op, r1)"
    using assms by (auto simp: readCmd_def bind_io_apply split: prod.splits sum.splits)
  have "br_buffer r' = br_buffer r1 \<and> br_position r1 \<le> br_position r'"
    using assms 1
    by (auto simp: readCmd_def io_simps split: if_splits prod.splits sum.splits
        dest!: br_readUInt8_advances br_readUInt16LE_advances br_readBytes_advances)
  with br_readUInt8_advances [OF 1] show ?thesis by auto
qed

function readCmds_loop :: "buffer_reader \<Rightarrow> script_cmd list \<times> exn option" where
  "readCmds_loop br =
     (if br_eof br then ([], None)
      else case readCmd br of
             (Inl e, _) \<Rightarrow> ([], Some e)
           | (Inr cmd, br') \<Rightarrow> (let (cmds, e) = readCmds_loop br' in (cmd # cmds, e)))"
  by pat_completeness auto
termination
  by (relation "measure (\<lambda>r. length (br_buffer r) - br_position r)") (auto dest: readCmd_advances [OF sym])

declare readCmds_loop.simps [simp del]

definition readCmds :: "buffer \<Rightarrow> script_cmd list \<times> exn option" where
  "readCmds buf = readCmds_loop (newBufferReader buf)"

definition parseCmds :: "buffer \<Rightarrow> script_cmd list res" where
  "parseCmds buf = (case readCmds buf of (_, Some e) \<Rightarrow> Inl e | (cmds, None) \<Rightarrow> Inr cmds)"

definition script_fromBuffer :: "buffer \<Rightarrow> script res" where
  "script_fromBuffer buf = (case readCmds buf of (_, Some e) \<Rightarrow> Inl e | (cmds, None) \<Rightarrow> Inr cmds)"

definition script_parse :: "(buffer, script) io" where
  "script_parse = bind_io sr_readVarInt (\<lambda>len. bind_io (sr_readBytes (Some len)) (\<lambda>buf.
     lift_io (script_fromBuffer buf)))"

definition script_equals :: "script \<Rightarrow> script \<Rightarrow> bool" where
  "script_equals a b \<longleftrightarrow> length a = length b \<and>
     (\<forall>i<length a. case (a ! i, b ! i) of
        (Data l, Data r) \<Rightarrow> l = r
      | (Op l, Op r) \<Rightarrow> l = r
      | _ \<Rightarrow> False)"

definition script_toString :: "script \<Rightarrow> string option list" where
  "script_toString cmds =
     map (\<lambda>cmd. case cmd of Data d \<Rightarrow> Some (hexString d) | Op op \<Rightarrow> opName op) cmds"

section \<open>Script buffers\<close>

datatype script_buf = ScriptBuf (sb_buffer: buffer)

definition sb_empty :: script_buf where
  "sb_empty = ScriptBuf []"

definition sb_fromScript :: "script \<Rightarrow> script_buf res" where
  "sb_fromScript cmds = bind_res (serializeCmds cmds) (\<lambda>b. Inr (ScriptBuf b))"

definition toScriptBuf :: "script \<Rightarrow> script_buf res" where
  "toScriptBuf cmds = bind_res (serializeCmds cmds) (\<lambda>b. Inr (ScriptBuf b))"

definition sb_parse :: "(buffer, script_buf) io" where
  "sb_parse = bind_io sr_readVarInt (\<lambda>len. bind_io (sr_readBytes (Some len)) (\<lambda>buf.
     return_io (ScriptBuf buf)))"

definition sb_equals :: "script_buf \<Rightarrow> script_buf \<Rightarrow> bool" where
  "sb_equals a b \<longleftrightarrow> sb_buffer a = sb_buffer b"

definition sb_toHex :: "script_buf \<Rightarrow> string" where
  "sb_toHex s = hexString (sb_buffer s)"

definition sb_toScript :: "script_buf \<Rightarrow> script res" where
  "sb_toScript s = script_fromBuffer (sb_buffer s)"

definition sb_serialize :: "script_buf \<Rightarrow> buffer res" where
  "sb_serialize s = bind_res (encodeVarInt (length (sb_buffer s))) (\<lambda>len. Inr (len @ sb_buffer s))"

section \<open>The serialised commands parse back\<close>

text \<open>
  The commands that the format can carry: op codes of one byte that are no push instruction, and
  data of 1 to 520 bytes.
\<close>

definition cmd_ok :: "script_cmd \<Rightarrow> bool" where
  "cmd_ok cmd =
     (case cmd of
        Op op \<Rightarrow> op < 256 \<and> (op = 0 \<or> OP_PUSHDATA2 < op)
      | Data d \<Rightarrow> 1 \<le> length d \<and> length d \<le> 520)"

definition cmd_bytes :: "script_cmd \<Rightarrow> buffer" where
  "cmd_bytes cmd = (case serializeCmd cmd of Inr bs \<Rightarrow> bs | Inl _ \<Rightarrow> [])"

lemma serializeCmd_ok: "cmd_ok cmd \<Longrightarrow> serializeCmd cmd = Inr (cmd_bytes cmd)"
  by (auto simp: cmd_ok_def cmd_bytes_def serializeCmd_def split: script_cmd.splits)

lemma reads_pushed:
  assumes "n = length d"
  shows "reads br_good br_content
     (bind_io (br_readBytes (Some n)) (\<lambda>bytes. return_io (Data bytes))) d (Data d)"
  using assms by (auto intro!: reads_bind_last [OF br.bytes] simp: return_io_apply)

lemma reads_u8: "v < 256 \<Longrightarrow> reads br_good br_content br_readUInt8 [of_nat v] v"
  using br.u8 [of v] by (simp add: one_byte)

lemma reads_counted:
  "length d < 256 \<Longrightarrow> reads br_good br_content
     (bind_io br_readUInt8 (\<lambda>n. bind_io (br_readBytes (Some n)) (\<lambda>bytes. return_io (Data bytes))))
     (of_nat (length d) # d) (Data d)"
  "length d < 65536 \<Longrightarrow> reads br_good br_content
     (bind_io br_readUInt16LE (\<lambda>n. bind_io (br_readBytes (Some n)) (\<lambda>bytes. return_io (Data bytes))))
     (le_bytes 2 (length d) @ d) (Data d)"
  using reads_bind [OF reads_u8, of "length d" "\<lambda>n. bind_io (br_readBytes (Some n)) (\<lambda>bytes. return_io (Data bytes))" d]
    reads_bind [OF br.u16le, of "length d" "\<lambda>n. bind_io (br_readBytes (Some n)) (\<lambda>bytes. return_io (Data bytes))" d]
  by (simp_all add: reads_pushed del: le_bytes.simps)

lemma reads_readCmd:
  assumes "cmd_ok cmd"
  shows "reads br_good br_content readCmd (cmd_bytes cmd) cmd"
proof (cases cmd)
  case (Op op)
  then have b: "cmd_bytes cmd = [of_nat op]" "op < 256"
    using assms by (auto simp: cmd_bytes_def serializeCmd_def cmd_ok_def)
  show ?thesis unfolding readCmd_def b(1)
    by (rule reads_bind_last [OF reads_u8])
      (use assms Op b(2) in \<open>auto simp: cmd_ok_def op_codes return_io_apply\<close>)
next
  case (Data d)
  from Data assms have "1 \<le> length d" "length d \<le> 520" by (auto simp: cmd_ok_def)
  then consider "1 \<le> length d" "length d \<le> 75" | "76 \<le> length d" "length d \<le> 255"
    | "256 \<le> length d" "length d \<le> 520" by linarith
  then show ?thesis
  proof cases
    case 1
    then have b: "cmd_bytes cmd = [of_nat (length d)] @ d"
      by (simp add: Data cmd_bytes_def serializeCmd_def)
    show ?thesis unfolding readCmd_def b unfolding Data
      by (rule reads_bind [OF reads_u8]) (use 1 in \<open>simp_all add: reads_pushed\<close>)
  next
    case 2
    then have b: "cmd_bytes cmd = [of_nat OP_PUSHDATA1] @ of_nat (length d) # d"
      by (simp add: Data cmd_bytes_def serializeCmd_def)
    show ?thesis unfolding readCmd_def b unfolding Data
      by (rule reads_bind [OF reads_u8]) (use 2 in \<open>simp_all add: op_codes reads_counted\<close>)
  next
    case 3
    then have b: "cmd_bytes cmd = [of_nat OP_PUSHDATA2] @ le_bytes 2 (length d) @ d"
      by (simp add: Data cmd_bytes_def serializeCmd_def bigToBufLE_Some)
    show ?thesis unfolding readCmd_def b unfolding Data
      by (rule reads_bind [OF reads_u8])
        (use 3 reads_counted(2) [of d] in \<open>simp_all add: op_codes del: le_bytes.simps\<close>)
  qed
qed

lemma readCmds_loop_ok:
  assumes "\<forall>cmd\<in>set cmds. cmd_ok cmd" "br_good r" "br_content r = concat (map cmd_bytes cmds)"
  shows "readCmds_loop r = (cmds, None)"
  using assms
proof (induction cmds arbitrary: r)
  case Nil
  then have "br_eof r" by (simp add: br_eof_def br_good_def br_content_def)
  then show ?case by (subst readCmds_loop.simps) simp
next
  case (Cons cmd cmds)
  then have "br_content r = cmd_bytes cmd @ concat (map cmd_bytes cmds)" by simp
  with Cons.prems obtain r' where r': "readCmd r = (Inr cmd, r')" "br_good r'"
    "br_content r' = concat (map cmd_bytes cmds)"
    by (auto elim: readsE [OF reads_readCmd])
  moreover have "\<not> br_eof r" using readCmd_advances [OF r'(1)] by (auto simp: br_eof_def)
  ultimately show ?case using Cons.IH [of r'] Cons.prems(1)
    by (subst readCmds_loop.simps) simp
qed

lemma readCmds_first:
  assumes "cmd_ok cmd"
  shows "\<exists>cmds e. readCmds (cmd_bytes cmd @ rest) = (cmd # cmds, e)"
proof -
  let ?r = "newBufferReader (cmd_bytes cmd @ rest)"
  obtain r' where r': "readCmd ?r = (Inr cmd, r')"
    using readsE [OF reads_readCmd [OF assms] br_good_new br_content_new] by blast
  moreover have "\<not> br_eof ?r" using readCmd_advances [OF r'] by (auto simp: br_eof_def)
  ultimately show ?thesis unfolding readCmds_def
    by (subst readCmds_loop.simps) (simp split: prod.split)
qed

lemma serializeCmds_ok:
  assumes "\<forall>cmd\<in>set cmds. cmd_ok cmd"
  shows "serializeCmds cmds = Inr (concat (map cmd_bytes cmds))"
proof -
  have "map_res serializeCmd cmds = Inr (map cmd_bytes cmds)"
    using assms by (induction cmds) (simp_all add: serializeCmd_ok)
  then show ?thesis by (simp add: serializeCmds_def)
qed

lemma sb_serialize_eq:
  "length (sb_buffer s) < 2 ^ 64 \<Longrightarrow>
     sb_serialize s = Inr (varint_bytes (length (sb_buffer s)) @ sb_buffer s)"
  by (simp add: sb_serialize_def encodeVarInt_eq)

lemma sreads_sb:
  "length (sb_buffer s) < 2 ^ 64 \<Longrightarrow>
     sreads sb_parse (varint_bytes (length (sb_buffer s)) @ sb_buffer s) s"
  unfolding sb_parse_def
  by (intro sreads_bind [OF sreads_varint] sreads_bind_last [OF sreads_bytes])
    (auto simp: return_io_apply)

text \<open>
  C37: A script of one-byte op codes that are no push instructions and of data pieces of 1 to 520
  bytes serialises; its bytes yield the same commands with no exception at the end, alone or
  wrapped as a script buffer with its length; and a data piece of any other size
  is refused.
\<close>

theorem script_roundtrip:
  assumes "\<forall>cmd\<in>set cmds. cmd_ok cmd"
    and "length (concat (map cmd_bytes cmds)) < 2 ^ 64"
  shows "\<exists>buf bs. serializeCmds cmds = Inr buf \<and> readCmds buf = (cmds, None)
     \<and> script_serialize cmds = Inr bs \<and> script_parse (bs @ rest) = (Inr cmds, rest)
     \<and> bind_res (toScriptBuf cmds) sb_serialize = Inr bs
     \<and> sb_parse (bs @ rest) = (Inr (ScriptBuf buf), rest)
     \<and> sb_toScript (ScriptBuf buf) = Inr cmds
     \<and> (\<forall>d. d = [] \<or> 520 < length d \<longrightarrow>
          serializeCmds (cmds @ [Data d]) = Inl (JsError ''Data too long''))"
proof (intro exI conjI allI impI)
  let ?buf = "concat (map cmd_bytes cmds)"
  let ?bs = "varint_bytes (length ?buf) @ ?buf"
  show s: "serializeCmds cmds = Inr ?buf" using assms(1) by (rule serializeCmds_ok)
  show r: "readCmds ?buf = (cmds, None)"
    unfolding readCmds_def using assms(1) by (intro readCmds_loop_ok) (simp_all add: br_good_new br_content_new)
  show "script_serialize cmds = Inr ?bs"
    using assms(2) by (simp add: script_serialize_def s encodeVarInt_eq)
  show sc: "sb_toScript (ScriptBuf ?buf) = Inr cmds"
    by (simp add: sb_toScript_def script_fromBuffer_def r)
  have p: "sr_readVarInt (?bs @ rest) = (Inr (length ?buf), ?buf @ rest)"
    using sreads_varint [OF assms(2)] by (simp add: sreads_def)
  then show "script_parse (?bs @ rest) = (Inr cmds, rest)"
    using sc by (simp add: script_parse_def io_simps sr_readBytes_Some sb_toScript_def)
  show "bind_res (toScriptBuf cmds) sb_serialize = Inr ?bs"
    using assms(2) by (simp add: toScriptBuf_def s sb_serialize_eq)
  show "sb_parse (?bs @ rest) = (Inr (ScriptBuf ?buf), rest)"
    using sreads_sb [of "ScriptBuf ?buf"] assms(2) by (simp add: sreads_def)
  fix d :: buffer assume "d = [] \<or> 520 < length d"
  then have "serializeCmd (Data d) = Inl (JsError ''Data too long'')"
    by (auto simp: serializeCmd_def)
  moreover have "map_res serializeCmd (cmds @ [Data d]) = Inl e"
    if "serializeCmd (Data d) = Inl e" for e
    using assms(1) that by (induction cmds) (simp_all add: serializeCmd_ok)
  ultimately show "serializeCmds (cmds @ [Data d]) = Inl (JsError ''Data too long'')"
    by (simp add: serializeCmds_def)
qed

theorem script_roundtrip_witness:
  "\<exists>buf bs. serializeCmds [Op 0x76, Data [1, 2]] = Inr buf
     \<and> readCmds buf = ([Op 0x76, Data [1, 2]], None)
     \<and> script_serialize [Op 0x76, Data [1, 2]] = Inr bs
     \<and> script_parse (bs @ [9]) = (Inr [Op 0x76, Data [1, 2]], [9])
     \<and> bind_res (toScriptBuf [Op 0x76, Data [1, 2]]) sb_serialize = Inr bs
     \<and> sb_parse (bs @ [9]) = (Inr (ScriptBuf buf), [9])
     \<and> sb_toScript (ScriptBuf buf) = Inr [Op 0x76, Data [1, 2]]
     \<and> (\<forall>d. d = [] \<or> 520 < length d \<longrightarrow>
          serializeCmds ([Op 0x76, Data [1, 2]] @ [Data d]) = Inl (JsError ''Data too long''))"
  by (rule script_roundtrip) (simp_all add: cmd_ok_def op_codes cmd_bytes_def serializeCmd_def)

section \<open>Building scripts\<close>

definition isSigHashTypeValid :: "nat option \<Rightarrow> bool" where
  "isSigHashTypeValid type = (type \<in> {Some 0x01, Some 0x02, Some 0x03,
     Some (0x01 OR 0x80), Some (0x02 OR 0x80), Some (0x03 OR 0x80)})"

definition assertValidSig :: "(buffer \<Rightarrow> bool) \<Rightarrow> buffer \<Rightarrow> unit res" where
  "assertValidSig isDERSig sig =
     (let der = butlast sig;
          hashtype = (if sig = [] then None else Some (unat (last sig)))
      in if \<not> isDERSig der then Inl (BitcoinError ''SigEncodingInvalid'')
         else if \<not> isSigHashTypeValid hashtype then Inl (BitcoinError ''SigHashTypeInvalid'')
         else Inr ())"

definition assertValidPubKey :: "(buffer \<Rightarrow> bool) \<Rightarrow> buffer \<Rightarrow> unit res" where
  "assertValidPubKey validPublicKey pubkey =
     (if \<not> validPublicKey pubkey then Inl (BitcoinError ''PubKeyInvalid'') else Inr ())"

definition hash160 :: "(buffer \<Rightarrow> buffer) \<Rightarrow> (buffer \<Rightarrow> buffer) \<Rightarrow> buffer \<Rightarrow> buffer" where
  "hash160 sha256 ripemd160 data = ripemd160 (sha256 data)"

definition hash256 :: "(buffer \<Rightarrow> buffer) \<Rightarrow> buffer \<Rightarrow> buffer" where
  "hash256 sha256 data = sha256 (sha256 data)"

definition scriptNumber :: "int \<Rightarrow> script_cmd" where
  "scriptNumber val =
     (if val = 0 then Op OP_0
      else if 1 \<le> val \<and> val \<le> 16 then Op (nat (0x50 + val))
      else Data (encodeNum val))"

definition p2pkLock :: "(buffer \<Rightarrow> bool) \<Rightarrow> buffer \<Rightarrow> script res" where
  "p2pkLock validPublicKey pubkey = bind_res (assertValidPubKey validPublicKey pubkey) (\<lambda>_.
     Inr [Data pubkey, Op OP_CHECKSIG])"

definition p2pkUnlock :: "(buffer \<Rightarrow> bool) \<Rightarrow> buffer \<Rightarrow> script res" where
  "p2pkUnlock isDERSig sig = bind_res (assertValidSig isDERSig sig) (\<lambda>_. Inr [Data sig])"

definition p2pkhLock ::
  "(buffer \<Rightarrow> bool) \<Rightarrow> (buffer \<Rightarrow> buffer) \<Rightarrow> (buffer \<Rightarrow> buffer) \<Rightarrow> buffer \<Rightarrow> script res" where
  "p2pkhLock validPublicKey sha256 ripemd160 val =
     bind_res (if length val \<noteq> 20 then assertValidPubKey validPublicKey val else Inr ()) (\<lambda>_.
       let hash160PubKey = (if length val = 20 then val else hash160 sha256 ripemd160 val)
       in Inr [Op OP_DUP, Op OP_HASH160, Data hash160PubKey, Op OP_EQUALVERIFY, Op OP_CHECKSIG])"

definition p2pkhUnlock ::
  "(buffer \<Rightarrow> bool) \<Rightarrow> (buffer \<Rightarrow> bool) \<Rightarrow> buffer \<Rightarrow> buffer \<Rightarrow> script res" where
  "p2pkhUnlock isDERSig validPublicKey sig pubkey =
     bind_res (assertValidSig isDERSig sig) (\<lambda>_.
     bind_res (assertValidPubKey validPublicKey pubkey) (\<lambda>_. Inr [Data sig, Data pubkey]))"

definition p2msLock :: "(buffer \<Rightarrow> bool) \<Rightarrow> int \<Rightarrow> buffer list \<Rightarrow> script res" where
  "p2msLock validPublicKey m pubkeys =
     bind_res (map_res (assertValidPubKey validPublicKey) pubkeys) (\<lambda>_.
       if m < 1 \<or> m > int (length pubkeys) \<or> length pubkeys = 0 \<or> length pubkeys > 20
       then Inl (BitcoinError ''MultiSigSetupInvalid'')
       else Inr (scriptNumber m # map Data pubkeys @
                 [scriptNumber (int (length pubkeys)), Op OP_CHECKMULTISIG]))"

definition p2msUnlock :: "(buffer \<Rightarrow> bool) \<Rightarrow> buffer list \<Rightarrow> script res" where
  "p2msUnlock isDERSig sigs =
     bind_res (map_res (assertValidSig isDERSig) sigs) (\<lambda>_. Inr (Op OP_0 # map Data sigs))"

definition script_hash160 ::
  "(buffer \<Rightarrow> buffer) \<Rightarrow> (buffer \<Rightarrow> buffer) \<Rightarrow> script \<Rightarrow> buffer res" where
  "script_hash160 sha256 ripemd160 s =
     bind_res (serializeCmds s) (\<lambda>b. Inr (hash160 sha256 ripemd160 b))"

definition script_sha256 :: "(buffer \<Rightarrow> buffer) \<Rightarrow> script \<Rightarrow> buffer res" where
  "script_sha256 sha256 s = bind_res (serializeCmds s) (\<lambda>b. Inr (sha256 b))"

text \<open>\<open>p2shLock\<close> and \<open>p2wshLock\<close> take the script itself or its hash.\<close>

definition p2shLock ::
  "(buffer \<Rightarrow> buffer) \<Rightarrow> (buffer \<Rightarrow> buffer) \<Rightarrow> script + buffer \<Rightarrow> script res" where
  "p2shLock sha256 ripemd160 val =
     bind_res (case val of Inl s \<Rightarrow> script_hash160 sha256 ripemd160 s | Inr h \<Rightarrow> Inr h) (\<lambda>scriptHash160.
       if length scriptHash160 \<noteq> 20 then Inl (BitcoinError ''Hash160Invalid'')
       else Inr [Op OP_HASH160, Data scriptHash160, Op OP_EQUAL])"

definition p2shUnlock :: "script \<Rightarrow> script \<Rightarrow> script res" where
  "p2shUnlock redeemScript data =
     bind_res (serializeCmds redeemScript) (\<lambda>b. Inr (data @ [Data b]))"

definition p2wpkhLock ::
  "(buffer \<Rightarrow> bool) \<Rightarrow> (buffer \<Rightarrow> buffer) \<Rightarrow> (buffer \<Rightarrow> buffer) \<Rightarrow> buffer \<Rightarrow> script res" where
  "p2wpkhLock validPublicKey sha256 ripemd160 val =
     bind_res (if length val \<noteq> 20 then assertValidPubKey validPublicKey val else Inr ()) (\<lambda>_.
       let hash160PubKey = (if length val = 20 then val else hash160 sha256 ripemd160 val)
       in Inr [Op OP_0, Data hash160PubKey])"

definition p2wshLock :: "(buffer \<Rightarrow> buffer) \<Rightarrow> script + buffer \<Rightarrow> script res" where
  "p2wshLock sha256 val =
     bind_res (case val of Inl s \<Rightarrow> script_sha256 sha256 s | Inr h \<Rightarrow> Inr h) (\<lambda>sha256Script.
       if length sha256Script \<noteq> 32 then Inl (BitcoinError ''Hash256Invalid'')
       else Inr [Op OP_0, Data sha256Script])"

end
