(* ===== verification/LnScripts.thy ===== *)
theory LnScripts
  imports Script
begin

text \<open>
  The scripts of the lightning package: \<^verbatim>\<open>channels/ScriptFactory.ts\<close>, which builds them
  with the bitcoin package, and \<^verbatim>\<open>ScriptUtils.ts\<close>, the gossip code's own assembler of
  the funding output.
\<close>

section \<open>ScriptFactory\<close>

definition factory_fundingScript :: "(buffer \<Rightarrow> bool) \<Rightarrow> buffer \<Rightarrow> buffer \<Rightarrow> script res" where
  "factory_fundingScript validPublicKey openPubKey acceptPubKey =
     p2msLock validPublicKey 2 (sortBy bufCompare [openPubKey, acceptPubKey])"

definition toLocalScript :: "buffer \<Rightarrow> buffer \<Rightarrow> int \<Rightarrow> script" where
  "toLocalScript revocationPubKey delayedPubKey toSelfDelay =
     [Op OP_IF, Data revocationPubKey,
      Op OP_ELSE, scriptNumber toSelfDelay, Op OP_CHECKSEQUENCEVERIFY, Op OP_DROP,
      Data delayedPubKey, Op OP_ENDIF, Op OP_CHECKSIG]"

definition offeredHtlcScript ::
  "(buffer \<Rightarrow> buffer) \<Rightarrow> (buffer \<Rightarrow> buffer) \<Rightarrow> buffer \<Rightarrow> buffer \<Rightarrow> buffer \<Rightarrow> buffer \<Rightarrow> script" where
  "offeredHtlcScript sha256 ripemd160 paymentHash revocationPubKey localHtlcPubKey remoteHtlcPubKey =
     [Op OP_DUP, Op OP_HASH160, Data (hash160 sha256 ripemd160 revocationPubKey), Op OP_EQUAL,
      Op OP_IF,
        Op OP_CHECKSIG,
      Op OP_ELSE,
        Data remoteHtlcPubKey, Op OP_SWAP, Op OP_SIZE, scriptNumber 32, Op OP_EQUAL,
        Op OP_NOTIF,
          Op OP_DROP, Op OP_2, Op OP_SWAP, Data localHtlcPubKey, Op OP_2, Op OP_CHECKMULTISIG,
        Op OP_ELSE,
          Op OP_HASH160, Data (ripemd160 paymentHash), Op OP_EQUALVERIFY,
          Op OP_CHECKSIG,
        Op OP_ENDIF,
      Op OP_ENDIF]"

definition receivedHtlcScript ::
  "(buffer \<Rightarrow> buffer) \<Rightarrow> (buffer \<Rightarrow> buffer) \<Rightarrow> buffer \<Rightarrow> int \<Rightarrow> buffer \<Rightarrow> buffer \<Rightarrow> buffer \<Rightarrow> script" where
  "receivedHtlcScript sha256 ripemd160 paymentHash cltvExpiry revocationPubKey localHtlcPubKey
       remoteHtlcPubKey =
     [Op OP_DUP, Op OP_HASH160, Data (hash160 sha256 ripemd160 revocationPubKey), Op OP_EQUAL,
      Op OP_IF,
        Op OP_CHECKSIG,
      Op OP_ELSE,
        Data remoteHtlcPubKey, Op OP_SWAP, Op OP_SIZE, scriptNumber 32, Op OP_EQUAL,
        Op OP_IF,
          Op OP_HASH160, Data (ripemd160 paymentHash), Op OP_EQUALVERIFY,
          Op OP_2, Op OP_SWAP, Data localHtlcPubKey, Op OP_2, Op OP_CHECKMULTISIG,
        Op OP_ELSE,
          Op OP_DROP, scriptNumber cltvExpiry, Op OP_CHECKLOCKTIMEVERIFY, Op OP_DROP,
          Op OP_CHECKSIG,
        Op OP_ENDIF,
      Op OP_ENDIF]"

section \<open>ScriptUtils\<close>

text \<open>
  \<^verbatim>\<open>lesser\<close> walks over the bytes of \<open>a\<close>; a comparison with a byte that \<open>b\<close> does
  not have is false.
\<close>

fun lesser :: "buffer \<Rightarrow> buffer \<Rightarrow> int" where
  "lesser [] bs = 0"
| "lesser (a # as) [] = 0"
| "lesser (a # as) (b # bs) = (if a < b then - 1 else if a > b then 1 else lesser as bs)"

text \<open>A chunk is a buffer or a number, as a command is.\<close>

definition chunkSize :: "script_cmd \<Rightarrow> nat" where
  "chunkSize chunk = (case chunk of Data d \<Rightarrow> 1 + length d | Op n \<Rightarrow> 1)"

definition writeChunk :: "script_cmd \<Rightarrow> (buffer_writer, unit) io" where
  "writeChunk chunk =
     (case chunk of
        Data d \<Rightarrow> then_io (bw_writeUInt8 (length d)) (bw_writeBytes d)
      | Op n \<Rightarrow> bw_writeUInt8 n)"

definition compileScript :: "script_cmd list \<Rightarrow> buffer res" where
  "compileScript chunks =
     (let bufferSize = sum_list (map chunkSize chunks)
      in runWriter (Some (replicate bufferSize 0)) (each_io writeChunk chunks))"

definition p2msScript :: "nat \<Rightarrow> nat \<Rightarrow> buffer list \<Rightarrow> buffer res" where
  "p2msScript m n pubkeys = compileScript (Op (80 + m) # map Data pubkeys @ [Op (80 + n), Op 174])"

definition p2wshScript :: "buffer \<Rightarrow> buffer res" where
  "p2wshScript hash160Script = compileScript [Op 0, Data hash160Script]"

definition utils_fundingScript :: "(buffer \<Rightarrow> buffer) \<Rightarrow> buffer \<Rightarrow> buffer \<Rightarrow> buffer res" where
  "utils_fundingScript sha256 key0 key1 =
     (let (node1, node2) = (if lesser key0 key1 = - 1 then (key0, key1) else (key1, key0))
      in bind_res (p2msScript 2 2 [node1, node2]) (\<lambda>script. p2wshScript (sha256 script)))"

section \<open>The two assemblers agree\<close>

lemma lesser_bufCompare: "length a = length b \<Longrightarrow> lesser a b = bufCompare a b"
  by (induction a b rule: lesser.induct) auto

text \<open>On commands whose data is at most 75 bytes the assembler gives the script's bytes.\<close>

definition chunk_ok :: "script_cmd \<Rightarrow> bool" where
  "chunk_ok cmd \<longleftrightarrow> cmd_ok cmd \<and> (case cmd of Data d \<Rightarrow> length d \<le> 75 | Op _ \<Rightarrow> True)"

lemma writes_writeChunk:
  assumes "chunk_ok cmd"
  shows "writes (bw_good f) bw_out bw_room (writeChunk cmd) (cmd_bytes cmd)"
proof -
  have u8: "writes (bw_good f) bw_out bw_room (bw_writeUInt8 v) [of_nat v]" if "v < 256" for v
    using bw.w8 [of v f] that by (simp add: one_byte)
  show ?thesis
  proof (cases cmd)
    case (Op n)
    then show ?thesis using assms u8
      by (simp add: chunk_ok_def cmd_ok_def writeChunk_def cmd_bytes_def serializeCmd_def)
  next
    case (Data d)
    then show ?thesis using assms writes_then [OF u8 [of "length d"] writes_writeBytes [of f d]]
      by (simp add: chunk_ok_def cmd_ok_def writeChunk_def cmd_bytes_def serializeCmd_def)
  qed
qed

lemma chunkSize_eq: "chunk_ok cmd \<Longrightarrow> chunkSize cmd = length (cmd_bytes cmd)"
  by (auto simp: chunk_ok_def cmd_ok_def chunkSize_def cmd_bytes_def serializeCmd_def
      split: script_cmd.splits)

lemma compileScript_eq:
  assumes "\<forall>cmd\<in>set cmds. chunk_ok cmd"
  shows "compileScript cmds = serializeCmds cmds"
proof -
  have "sum_list (map chunkSize cmds) = length (concat (map cmd_bytes cmds))"
    using assms by (induction cmds) (simp_all add: chunkSize_eq)
  then have "compileScript cmds = Inr (concat (map cmd_bytes cmds))"
    unfolding compileScript_def Let_def
    using assms by (intro runWriter_fixed writes_each writes_writeChunk) auto
  moreover have "\<forall>cmd\<in>set cmds. cmd_ok cmd" using assms by (simp add: chunk_ok_def)
  ultimately show ?thesis by (simp add: serializeCmds_ok)
qed

text \<open>
  The gossip code's own assembler gives, for two public keys of the same length between 1 and
  75 bytes, exactly the bytes that the bitcoin package gives for the pay-to-witness-script-hash of the
  funding script of the same keys, in either order of the keys.
\<close>

theorem funding_scripts_agree:
  assumes "validPublicKey a" "validPublicKey b" "length a = length b" "a \<noteq> []" "length a \<le> 75"
    and "\<And>x. length (sha256 x) = 32"
  shows "utils_fundingScript sha256 a b =
      bind_res (factory_fundingScript validPublicKey a b) (\<lambda>s.
      bind_res (p2wshLock sha256 (Inl s)) serializeCmds)
    \<and> utils_fundingScript sha256 b a = utils_fundingScript sha256 a b"
proof -
  define keys where "keys = sortBy bufCompare [a, b]"
  define cmds where "cmds = Op 82 # map Data keys @ [Op 82, Op 174]"
  have keys: "set keys = {a, b}" "length keys = 2"
    by (auto simp: keys_def sortBy_def)
  have sorted: "keys = (let (k, l) = if lesser a b = - 1 then (a, b) else (b, a) in [k, l])"
    "keys = (let (k, l) = if lesser b a = - 1 then (b, a) else (a, b) in [k, l])"
    using lesser_bufCompare [OF assms(3)] lesser_bufCompare [OF assms(3) [symmetric]]
      bufCompare_minus [of a b] bufCompare_range [of a b]
    by (cases "a = b"; auto simp: keys_def sortBy_def)+
  have "1 \<le> length a" using assms(4) by (cases a) auto
  then have "chunk_ok (Data k)" if "k \<in> set keys" for k
    using that keys(1) assms(3,5) by (auto simp: chunk_ok_def cmd_ok_def)
  moreover have "chunk_ok (Op 82)" "chunk_ok (Op 174)"
    by (simp_all add: chunk_ok_def cmd_ok_def op_codes)
  ultimately have ok: "\<forall>cmd\<in>set cmds. chunk_ok cmd" by (auto simp: cmds_def)
  have factory: "factory_fundingScript validPublicKey a b = Inr cmds"
  proof -
    have "map_res (assertValidPubKey validPublicKey) ks = Inr (map (\<lambda>_. ()) ks)"
      if "set ks \<subseteq> {a, b}" for ks
      using that assms(1,2) by (induction ks) (auto simp: assertValidPubKey_def)
    from this [of keys] show ?thesis
      using keys by (simp add: factory_fundingScript_def p2msLock_def cmds_def scriptNumber_def
          op_codes flip: keys_def)
  qed
  have wsh: "p2wshScript h = serializeCmds [Op OP_0, Data h]" if "length h = 32" for h
    unfolding p2wshScript_def using that
    by (subst compileScript_eq) (auto simp: chunk_ok_def cmd_ok_def op_codes)
  obtain bs where bs: "serializeCmds cmds = Inr bs"
    using ok serializeCmds_ok [of cmds] by (auto simp: chunk_ok_def)
  then have ms: "p2msScript 2 2 keys = Inr bs"
    using compileScript_eq [OF ok] by (simp add: p2msScript_def cmds_def)
  have "utils_fundingScript sha256 a b = bind_res (p2msScript 2 2 keys) (\<lambda>script. p2wshScript (sha256 script))"
    unfolding utils_fundingScript_def sorted(1) by (simp add: Let_def)
  moreover have "utils_fundingScript sha256 b a = bind_res (p2msScript 2 2 keys) (\<lambda>script. p2wshScript (sha256 script))"
    unfolding utils_fundingScript_def sorted(2) by (simp add: Let_def)
  ultimately have "utils_fundingScript sha256 a b = p2wshScript (sha256 bs)"
    "utils_fundingScript sha256 b a = p2wshScript (sha256 bs)"
    by (simp_all add: ms)
  then show ?thesis
    using wsh [of "sha256 bs"] assms(6)
    by (simp add: factory p2wshLock_def script_sha256_def bs)
qed

theorem funding_scripts_agree_witness:
  "utils_fundingScript (\<lambda>_. replicate 32 7) [2, 9] [2, 3] =
      bind_res (factory_fundingScript (\<lambda>k. length k = 2) [2, 9] [2, 3]) (\<lambda>s.
      bind_res (p2wshLock (\<lambda>_. replicate 32 7) (Inl s)) serializeCmds)
    \<and> utils_fundingScript (\<lambda>_. replicate 32 7) [2, 3] [2, 9] =
      utils_fundingScript (\<lambda>_. replicate 32 7) [2, 9] [2, 3]"
  by (rule funding_scripts_agree) (simp_all only: length_replicate, simp_all)

section \<open>The channel scripts survive serialisation\<close>

lemma cmd_ok_scriptNumber: "\<bar>n\<bar> < 2 ^ 63 \<Longrightarrow> cmd_ok (scriptNumber n)"
proof -
  assume "\<bar>n\<bar> < 2 ^ 63"
  then have "length (encodeNum n) \<le> Suc 7" "encodeNum n = [] \<longleftrightarrow> n = 0"
    using encodeNum_length [of n 7] by simp_all
  then show ?thesis
    by (cases "encodeNum n") (auto simp: scriptNumber_def cmd_ok_def op_codes)
qed

lemma scripts_parse_back:
  assumes "\<forall>cmd\<in>set cmds. cmd_ok cmd"
  shows "\<exists>buf. serializeCmds cmds = Inr buf \<and> parseCmds buf = Inr cmds"
proof -
  have "readCmds (concat (map cmd_bytes cmds)) = (cmds, None)"
    unfolding readCmds_def
    using assms by (intro readCmds_loop_ok) (simp_all add: br_good_new br_content_new)
  then show ?thesis using serializeCmds_ok [OF assms] by (simp add: parseCmds_def)
qed

text \<open>
  For keys of 1 to 520 bytes, hashes of 20 bytes and a delay or expiry below \<open>2 ^ 63\<close>, the
  output scripts of the commitment transaction serialise without error and parse back to the same
  commands; in particular no number in them is encoded as an empty push.
\<close>

theorem channel_scripts_roundtrip:
  assumes "\<forall>k\<in>{revocation, delayed, local, remote}. k \<noteq> [] \<and> length k \<le> 520"
    and "\<And>x. length (ripemd160 x) = 20" and "\<bar>n\<bar> < 2 ^ 63"
    and "script \<in> {toLocalScript revocation delayed n,
        offeredHtlcScript sha256 ripemd160 hash revocation local remote,
        receivedHtlcScript sha256 ripemd160 hash n revocation local remote}"
  shows "\<exists>buf. serializeCmds script = Inr buf \<and> parseCmds buf = Inr script"
proof (rule scripts_parse_back)
  have "cmd_ok (Data k)" if "k \<in> {revocation, delayed, local, remote}" for k
    using assms(1) that by (auto simp: cmd_ok_def Suc_le_eq)
  moreover have "cmd_ok (Data (ripemd160 x))" "cmd_ok (Data (hash160 sha256 ripemd160 x))" for x
    using assms(2) by (simp_all add: cmd_ok_def hash160_def)
  moreover have "cmd_ok (scriptNumber n)" "cmd_ok (scriptNumber 32)"
    using assms(3) by (simp_all add: cmd_ok_scriptNumber)
  moreover have "cmd_ok (Op k)" if "k < 256" "77 < k" for k
    using that by (simp add: cmd_ok_def op_codes)
  ultimately show "\<forall>cmd\<in>set script. cmd_ok cmd"
    using assms(4)
    by (elim insertE emptyE; hypsubst)
      (simp_all add: toLocalScript_def offeredHtlcScript_def receivedHtlcScript_def op_codes)
qed

theorem channel_scripts_roundtrip_witness:
  "\<exists>buf. serializeCmds (toLocalScript [1] [2] 144) = Inr buf
     \<and> parseCmds buf = Inr (toLocalScript [1] [2] 144)"
  by (rule channel_scripts_roundtrip [of "[1]" "[2]" "[3]" "[4]" "\<lambda>_. replicate 20 0" 144 _ id "[]"])
    simp_all

end
