(* ===== verification/Tx.thy ===== *)
theory Tx
  imports Script
begin

text \<open>
  \<^verbatim>\<open>packages/bitcoin/lib\<close>: \<^verbatim>\<open>TxIn.ts\<close>, \<^verbatim>\<open>TxOut.ts\<close> and
  \<^verbatim>\<open>Tx.ts\<close>.  A transaction is immutable; the private fields in which the class keeps the
  identifiers and sizes it has computed are not part of the record.
\<close>

section \<open>Inputs and outputs\<close>

record tx_in =
  ti_outpoint :: outpoint
  ti_scriptSig :: script_buf
  ti_sequence :: sequence
  ti_witness :: "witness list"

record tx_out =
  to_value :: btc_value
  to_scriptPubKey :: script_buf

definition ti_parse :: "(buffer, tx_in) io" where
  "ti_parse = bind_io op_parse (\<lambda>outpoint. bind_io sb_parse (\<lambda>scriptSig.
     bind_io (bind_io sr_readUInt32LE (\<lambda>v. lift_io (newSequence (int v)))) (\<lambda>sequence.
       return_io \<lparr>ti_outpoint = outpoint, ti_scriptSig = scriptSig, ti_sequence = sequence,
                  ti_witness = []\<rparr>)))"

definition ti_isCoinbase :: "tx_in \<Rightarrow> bool" where
  "ti_isCoinbase i = op_eq (ti_outpoint i) (Some op_coinbase)"

definition ti_addWitness :: "tx_in \<Rightarrow> witness \<Rightarrow> tx_in" where
  "ti_addWitness i w = i\<lparr>ti_witness := ti_witness i @ [w]\<rparr>"

text \<open>Writing what another object serialises to: its exception is the writer's.\<close>

definition bw_writeRes :: "buffer res \<Rightarrow> (buffer_writer, unit) io" where
  "bw_writeRes r = bind_io (lift_io r) bw_writeBytes"

definition ti_serialize :: "tx_in \<Rightarrow> buffer res" where
  "ti_serialize i = runWriter None
     (then_io (bw_writeRes (op_serialize (ti_outpoint i)))
     (then_io (bw_writeRes (sb_serialize (ti_scriptSig i)))
              (bw_writeRes (seq_serialize (ti_sequence i)))))"

definition to_parse :: "(buffer, tx_out) io" where
  "to_parse = bind_io sr_readBigUInt64LE (\<lambda>v. bind_io sb_parse (\<lambda>scriptPubKey.
     return_io \<lparr>to_value = fromSats (int v), to_scriptPubKey = scriptPubKey\<rparr>))"

definition to_serialize :: "tx_out \<Rightarrow> buffer res" where
  "to_serialize out = runWriter None
     (then_io (bw_writeUInt64LE (sats (to_value out)))
              (bw_writeRes (sb_serialize (to_scriptPubKey out))))"

section \<open>Transactions\<close>

record tx =
  tx_version :: nat
  tx_inputs :: "tx_in list"
  tx_outputs :: "tx_out list"
  tx_locktime :: locktime

record size_result =
  sr_size :: int
  sr_vsize :: int
  sr_weight :: int

definition parseInputs :: "(buffer, tx_in list) io" where
  "parseInputs = bind_io sr_readVarInt (\<lambda>vinLen. repeat_io vinLen
     (bind_io op_parse (\<lambda>outpoint. bind_io sb_parse (\<lambda>scriptSig. bind_io seq_parse (\<lambda>sequence.
        return_io \<lparr>ti_outpoint = outpoint, ti_scriptSig = scriptSig, ti_sequence = sequence,
                   ti_witness = []\<rparr>)))))"

definition parseOutputs :: "(buffer, tx_out list) io" where
  "parseOutputs = bind_io sr_readVarInt (\<lambda>voutLen. repeat_io voutLen
     (bind_io sr_readBigUInt64LE (\<lambda>v. bind_io sb_parse (\<lambda>scriptPubKey.
        return_io \<lparr>to_value = fromSats (int v), to_scriptPubKey = scriptPubKey\<rparr>))))"

text \<open>The loop that appends to each input in turn the witness items that follow.\<close>

primrec parseWitnesses :: "tx_in list \<Rightarrow> (buffer, tx_in list) io" where
  "parseWitnesses [] = return_io []"
| "parseWitnesses (vin # vins) =
     bind_io sr_readVarInt (\<lambda>items. bind_io (repeat_io items wit_parse) (\<lambda>ws.
     bind_io (parseWitnesses vins) (\<lambda>vins'.
       return_io (vin\<lparr>ti_witness := ti_witness vin @ ws\<rparr> # vins'))))"

definition parseTail ::
  "bool \<Rightarrow> nat \<Rightarrow> nat \<Rightarrow> tx_in list \<Rightarrow> tx_out list \<Rightarrow> (buffer, tx) io" where
  "parseTail allowWitness version flags vins vouts =
     bind_io (if allowWitness \<and> bit flags 0 then parseWitnesses vins else return_io vins) (\<lambda>vins.
     bind_io lt_parse (\<lambda>locktime.
       return_io \<lparr>tx_version = version, tx_inputs = vins, tx_outputs = vouts, tx_locktime = locktime\<rparr>))"

text \<open>
  With a flag of zero the variable of the outputs stays \<^verbatim>\<open>undefined\<close>, for which the
  constructor's default is the empty list.
\<close>

definition tx_parse :: "bool \<Rightarrow> (buffer, tx) io" where
  "tx_parse allowWitness = bind_io sr_readUInt32LE (\<lambda>version. bind_io parseInputs (\<lambda>vins.
     if allowWitness \<and> vins = []
     then bind_io sr_readUInt8 (\<lambda>flags.
            if flags \<noteq> 0
            then bind_io parseInputs (\<lambda>vins. bind_io parseOutputs (\<lambda>vouts.
                   parseTail allowWitness version flags vins vouts))
            else parseTail allowWitness version flags vins [])
     else bind_io parseOutputs (\<lambda>vouts. parseTail allowWitness version 0 vins vouts)))"

definition safeDecode :: "buffer \<Rightarrow> tx res" where
  "safeDecode buf =
     (case fst (tx_parse True buf) of
        Inr t \<Rightarrow> Inr t
      | Inl _ \<Rightarrow> fst (tx_parse False buf))"

definition tx_fromBuffer :: "buffer \<Rightarrow> tx res" where
  "tx_fromBuffer buf = safeDecode buf"

definition tx_fromHex :: "string \<Rightarrow> tx res" where
  "tx_fromHex hex = safeDecode (hexBuffer hex)"

definition isSegWit :: "tx \<Rightarrow> bool" where
  "isSegWit t \<longleftrightarrow> (\<exists>p\<in>set (tx_inputs t). 0 < length (ti_witness p))"

definition tx_isCoinbase :: "tx \<Rightarrow> bool" where
  "tx_isCoinbase t \<longleftrightarrow> length (tx_inputs t) = 1 \<and> ti_isCoinbase (tx_inputs t ! 0)"

definition serializeLegacy :: "tx \<Rightarrow> buffer res" where
  "serializeLegacy t = runWriter None
     (then_io (bw_writeUInt32LE (tx_version t))
     (then_io (bw_writeVarInt (length (tx_inputs t)))
     (then_io (each_io (\<lambda>input. bw_writeRes (ti_serialize input)) (tx_inputs t))
     (then_io (bw_writeVarInt (length (tx_outputs t)))
     (then_io (each_io (\<lambda>output. bw_writeRes (to_serialize output)) (tx_outputs t))
              (bw_writeRes (lt_serialize (tx_locktime t))))))))"

definition writeWitness :: "tx_in \<Rightarrow> (buffer_writer, unit) io" where
  "writeWitness input =
     then_io (bw_writeVarInt (length (ti_witness input)))
       (each_io (\<lambda>witness. bw_writeRes (wit_serialize witness)) (ti_witness input))"

definition serializeSegWit :: "tx \<Rightarrow> buffer res" where
  "serializeSegWit t = runWriter None
     (then_io (bw_writeUInt32LE (tx_version t))
     (then_io (bw_writeBytes [0x00, 0x01])
     (then_io (bw_writeVarInt (length (tx_inputs t)))
     (then_io (each_io (\<lambda>input. bw_writeRes (ti_serialize input)) (tx_inputs t))
     (then_io (bw_writeVarInt (length (tx_outputs t)))
     (then_io (each_io (\<lambda>output. bw_writeRes (to_serialize output)) (tx_outputs t))
     (then_io (if isSegWit t then each_io writeWitness (tx_inputs t) else return_io ())
              (bw_writeRes (lt_serialize (tx_locktime t))))))))))"

definition tx_serialize :: "tx \<Rightarrow> buffer res" where
  "tx_serialize t = (if isSegWit t then serializeSegWit t else serializeLegacy t)"

definition calcTxId :: "(buffer \<Rightarrow> buffer) \<Rightarrow> tx \<Rightarrow> (hash_value \<times> hash_value) res" where
  "calcTxId sha256 t =
     bind_res (serializeLegacy t) (\<lambda>legacy.
       let txId = hash256 sha256 legacy
       in bind_res (if isSegWit t then bind_res (serializeSegWit t) (\<lambda>b. Inr (hash256 sha256 b))
                    else Inr txId) (\<lambda>hash.
          Inr (HashValue txId, HashValue hash)))"

text \<open>The size computation adds up two counters; a length that is no varint throws.\<close>

primrec sizeWitness :: "witness list \<Rightarrow> int \<Rightarrow> int res" where
  "sizeWitness [] witnessBytes = Inr witnessBytes"
| "sizeWitness (w # ws) witnessBytes =
     bind_res (varIntBytes (int (length (wit_data w)))) (\<lambda>k.
       sizeWitness ws (witnessBytes + k + int (length (wit_data w))))"

primrec sizeInputs :: "bool \<Rightarrow> tx_in list \<Rightarrow> int \<times> int \<Rightarrow> (int \<times> int) res" where
  "sizeInputs hasWitness [] counters = Inr counters"
| "sizeInputs hasWitness (input # inputs) counters =
     (let (standardBytes, witnessBytes) = counters;
          scriptSig = sb_buffer (ti_scriptSig input)
      in bind_res (varIntBytes (int (length scriptSig))) (\<lambda>k.
           let standardBytes = standardBytes + 32 + 4 + k + int (length scriptSig) + 4
           in bind_res
                (if hasWitness
                 then bind_res (varIntBytes (int (length (ti_witness input)))) (\<lambda>n.
                        sizeWitness (ti_witness input) (witnessBytes + n))
                 else Inr witnessBytes) (\<lambda>witnessBytes.
              sizeInputs hasWitness inputs (standardBytes, witnessBytes))))"

primrec sizeOutputs :: "tx_out list \<Rightarrow> int \<Rightarrow> int res" where
  "sizeOutputs [] standardBytes = Inr standardBytes"
| "sizeOutputs (output # outputs) standardBytes =
     (let scriptPubKey = sb_buffer (to_scriptPubKey output)
      in bind_res (varIntBytes (int (length scriptPubKey))) (\<lambda>k.
           sizeOutputs outputs (standardBytes + 8 + k + int (length scriptPubKey))))"

definition calcSize :: "tx \<Rightarrow> size_result res" where
  "calcSize t =
     (let hasWitness = isSegWit t
      in bind_res (varIntBytes (int (length (tx_inputs t)))) (\<lambda>nin.
         bind_res (sizeInputs hasWitness (tx_inputs t) (4 + nin, if hasWitness then 2 else 0))
           (\<lambda>(standardBytes, witnessBytes).
         bind_res (varIntBytes (int (length (tx_outputs t)))) (\<lambda>nout.
         bind_res (sizeOutputs (tx_outputs t) (standardBytes + nout)) (\<lambda>standardBytes.
           let standardBytes = standardBytes + 4;
               size = standardBytes + witnessBytes;
               weight = standardBytes * 4 + witnessBytes;
               vsize = - ((- weight) div 4)
           in Inr \<lparr>sr_size = size, sr_vsize = vsize, sr_weight = weight\<rparr>)))))"

section \<open>The reference encoding\<close>

definition var_bytes :: "buffer \<Rightarrow> buffer" where
  "var_bytes bs = varint_bytes (length bs) @ bs"

definition ti_bytes :: "tx_in \<Rightarrow> buffer" where
  "ti_bytes i = op_bytes (ti_outpoint i) @ var_bytes (sb_buffer (ti_scriptSig i))
     @ le_bytes 4 (seq_value (ti_sequence i))"

definition to_bytes :: "tx_out \<Rightarrow> buffer" where
  "to_bytes out = le_bytes 8 (nat (sats (to_value out))) @ var_bytes (sb_buffer (to_scriptPubKey out))"

definition witness_bytes :: "tx_in \<Rightarrow> buffer" where
  "witness_bytes i = varint_bytes (length (ti_witness i)) @ concat (map wit_bytes (ti_witness i))"

definition body_bytes :: "tx \<Rightarrow> buffer" where
  "body_bytes t = varint_bytes (length (tx_inputs t)) @ concat (map ti_bytes (tx_inputs t))
     @ varint_bytes (length (tx_outputs t)) @ concat (map to_bytes (tx_outputs t))"

definition legacy_bytes :: "tx \<Rightarrow> buffer" where
  "legacy_bytes t = le_bytes 4 (tx_version t) @ body_bytes t @ le_bytes 4 (lt_value (tx_locktime t))"

definition segwit_bytes :: "tx \<Rightarrow> buffer" where
  "segwit_bytes t = le_bytes 4 (tx_version t) @ [0, 1] @ body_bytes t
     @ concat (map witness_bytes (tx_inputs t)) @ le_bytes 4 (lt_value (tx_locktime t))"

definition ti_ok :: "tx_in \<Rightarrow> bool" where
  "ti_ok i \<longleftrightarrow> op_wf (ti_outpoint i) \<and> seq_value (ti_sequence i) < 2 ^ 32"

definition to_ok :: "tx_out \<Rightarrow> bool" where
  "to_ok out \<longleftrightarrow> psats (to_value out) mod 1000000000000 = 0
     \<and> 0 \<le> psats (to_value out) \<and> psats (to_value out) < 2 ^ 64 * 1000000000000"

definition tx_ok :: "tx \<Rightarrow> bool" where
  "tx_ok t \<longleftrightarrow> tx_version t < 2 ^ 32 \<and> (\<forall>i\<in>set (tx_inputs t). ti_ok i)
     \<and> (\<forall>out\<in>set (tx_outputs t). to_ok out) \<and> lt_value (tx_locktime t) < 2 ^ 32"

text \<open>The longest buffer that the growing writer can hold is \<open>2 ^ 30\<close> bytes.\<close>

abbreviation fits :: "buffer \<Rightarrow> bool" where
  "fits bs \<equiv> length bs \<le> 2 ^ 30"

section \<open>Serialisation gives the reference encoding\<close>

lemma fits_concat: "fits (concat (map f xs)) \<Longrightarrow> x \<in> set xs \<Longrightarrow> fits (f x)"
  by (auto simp: in_set_conv_decomp)

lemma length_concat_pos: "(\<And>x. x \<in> set xs \<Longrightarrow> 1 \<le> length (f x)) \<Longrightarrow> length xs \<le> length (concat (map f xs))"
  by (rule length_concat_ge) fastforce

lemma writes_writeRes: "r = Inr bs \<Longrightarrow> writes (bw_good f) bw_out bw_room (bw_writeRes r) bs"
  using writes_writeBytes [of f bs] by (simp add: bw_writeRes_def writes_def io_simps)

lemma sb_serialize_var: "length (sb_buffer s) < 2 ^ 64 \<Longrightarrow> sb_serialize s = Inr (var_bytes (sb_buffer s))"
  by (simp add: sb_serialize_eq var_bytes_def)

lemma ti_serialize_eq:
  assumes "ti_ok i" "fits (ti_bytes i)"
  shows "ti_serialize i = Inr (ti_bytes i)"
  unfolding ti_serialize_def
proof (intro runWriter_growing)
  have s: "sb_serialize (ti_scriptSig i) = Inr (var_bytes (sb_buffer (ti_scriptSig i)))"
    using assms(2) by (intro sb_serialize_var) (simp add: ti_bytes_def var_bytes_def)
  show "writes (bw_good False) bw_out bw_room
     (then_io (bw_writeRes (op_serialize (ti_outpoint i)))
     (then_io (bw_writeRes (sb_serialize (ti_scriptSig i)))
              (bw_writeRes (seq_serialize (ti_sequence i))))) (ti_bytes i)"
    unfolding ti_bytes_def using assms(1) s
    by (intro writes_then writes_writeRes) (simp_all add: ti_ok_def op_serialize_wf seq_serialize_def)
qed (rule assms(2))

lemma to_ok_sats:
  assumes "to_ok out"
  obtains n where "n < 2 ^ 64" "sats (to_value out) = int n" "to_value out = fromSats (int n)"
proof -
  define n where "n = nat (psats (to_value out) div 1000000000000)"
  have "psats (to_value out) = int n * 1000000000000"
    using assms by (auto simp: to_ok_def n_def)
  moreover from this have "n < 2 ^ 64" using assms by (auto simp: to_ok_def)
  ultimately show thesis
    using that [of n] by (cases "to_value out") (auto simp: sats_def fromSats_def)
qed

lemma to_serialize_eq:
  assumes "to_ok out" "fits (to_bytes out)"
  shows "to_serialize out = Inr (to_bytes out)"
proof -
  obtain n where n: "n < 2 ^ 64" "sats (to_value out) = int n"
    using assms(1) by (rule to_ok_sats) blast
  have "writes (bw_good False) bw_out bw_room
     (then_io (bw_writeUInt64LE (int n)) (bw_writeRes (sb_serialize (to_scriptPubKey out))))
     (le_bytes 8 n @ var_bytes (sb_buffer (to_scriptPubKey out)))"
    using n(1) assms(2)
    by (intro writes_then writes_writeRes bw.w64le sb_serialize_var) (auto simp: to_bytes_def var_bytes_def)
  then show ?thesis
    unfolding to_serialize_def n(2) using assms(2)
    by (intro runWriter_growing) (simp_all add: to_bytes_def n(2))
qed

lemma lt_serialize_eq: "lt_value l < 2 ^ 32 \<Longrightarrow> lt_serialize l = Inr (le_bytes 4 (lt_value l))"
  unfolding lt_serialize_def by (intro runWriter_fixed bw.w32le) simp_all

lemma ti_bytes_not_Nil: "1 \<le> length (ti_bytes i)"
  by (simp add: ti_bytes_def)

lemma to_bytes_not_Nil: "1 \<le> length (to_bytes out)"
  by (simp add: to_bytes_def)

lemma counts_fit:
  assumes "fits (body_bytes t)"
  shows "length (tx_inputs t) < 2 ^ 64" "length (tx_outputs t) < 2 ^ 64"
  using length_concat_pos [of "tx_inputs t" ti_bytes] length_concat_pos [of "tx_outputs t" to_bytes]
    ti_bytes_not_Nil to_bytes_not_Nil assms
  by (auto simp: body_bytes_def simp del: length_concat)

lemma writes_body:
  assumes "tx_ok t" "fits (body_bytes t)"
    and "writes (bw_good False) bw_out bw_room m bs"
  shows "writes (bw_good False) bw_out bw_room
     (then_io (bw_writeVarInt (length (tx_inputs t)))
     (then_io (each_io (\<lambda>input. bw_writeRes (ti_serialize input)) (tx_inputs t))
     (then_io (bw_writeVarInt (length (tx_outputs t)))
     (then_io (each_io (\<lambda>output. bw_writeRes (to_serialize output)) (tx_outputs t)) m))))
     (body_bytes t @ bs)"
proof -
  have f: "fits (concat (map ti_bytes (tx_inputs t)))" "fits (concat (map to_bytes (tx_outputs t)))"
    using assms(2) by (auto simp: body_bytes_def simp del: length_concat)
  have "\<And>i. i \<in> set (tx_inputs t) \<Longrightarrow> ti_serialize i = Inr (ti_bytes i)"
    "\<And>out. out \<in> set (tx_outputs t) \<Longrightarrow> to_serialize out = Inr (to_bytes out)"
    using assms(1) fits_concat [OF f(1)] fits_concat [OF f(2)]
    by (auto simp: tx_ok_def intro!: ti_serialize_eq to_serialize_eq)
  then show ?thesis
    unfolding body_bytes_def append_assoc using assms(3) counts_fit [OF assms(2)]
    by (intro writes_then writes_each writes_writeVarInt) (auto intro: writes_writeRes)
qed

lemma serializeLegacy_eq:
  assumes "tx_ok t" "fits (legacy_bytes t)"
  shows "serializeLegacy t = Inr (legacy_bytes t)"
proof -
  have "fits (body_bytes t)" using assms(2) by (simp add: legacy_bytes_def)
  note w = writes_body [OF assms(1) this writes_writeRes [OF lt_serialize_eq]]
  show ?thesis unfolding serializeLegacy_def
    using assms unfolding legacy_bytes_def tx_ok_def
    by (intro runWriter_growing writes_then [OF bw.w32le w]) simp_all
qed

lemma wit_bytes_not_Nil: "1 \<le> length (wit_bytes w)"
  by (simp add: wit_bytes_def length_varint_bytes)

lemma writes_writeWitness:
  assumes "fits (witness_bytes i)"
  shows "writes (bw_good f) bw_out bw_room (writeWitness i) (witness_bytes i)"
proof -
  have c: "fits (concat (map wit_bytes (ti_witness i)))"
    using assms by (simp add: witness_bytes_def del: length_concat)
  have "length (ti_witness i) < 2 ^ 64"
    using c length_concat_pos [of "ti_witness i" wit_bytes] wit_bytes_not_Nil
    by (simp del: length_concat)
  moreover have "wit_serialize w = Inr (wit_bytes w)" if "w \<in> set (ti_witness i)" for w
    using fits_concat [OF c that] by (rule wit_serialize_eq)
  ultimately show ?thesis unfolding writeWitness_def witness_bytes_def
    by (intro writes_then writes_each writes_writeVarInt writes_writeRes) auto
qed

lemma serializeSegWit_eq:
  assumes "tx_ok t" "fits (segwit_bytes t)" "isSegWit t"
  shows "serializeSegWit t = Inr (segwit_bytes t)"
proof -
  have f: "fits (body_bytes t)" "fits (concat (map witness_bytes (tx_inputs t)))"
    using assms(2) by (simp_all add: segwit_bytes_def del: length_concat)
  have "writes (bw_good False) bw_out bw_room (each_io writeWitness (tx_inputs t))
      (concat (map witness_bytes (tx_inputs t)))"
    by (intro writes_each writes_writeWitness fits_concat [OF f(2)])
  note w = writes_body [OF assms(1) f(1) writes_then [OF this writes_writeRes [OF lt_serialize_eq]]]
  show ?thesis unfolding serializeSegWit_def
    using assms unfolding segwit_bytes_def tx_ok_def
    by (intro runWriter_growing writes_then [OF bw.w32le] writes_then [OF writes_writeBytes])
      (auto intro!: w)
qed

definition tx_bytes :: "tx \<Rightarrow> buffer" where
  "tx_bytes t = (if isSegWit t then segwit_bytes t else legacy_bytes t)"

lemma tx_serialize_eq: "tx_ok t \<Longrightarrow> fits (tx_bytes t) \<Longrightarrow> tx_serialize t = Inr (tx_bytes t)"
  by (cases "isSegWit t") (simp_all add: tx_serialize_def tx_bytes_def serializeLegacy_eq serializeSegWit_eq)

section \<open>Parsing the reference encoding\<close>

definition noWitness :: "tx_in \<Rightarrow> tx_in" where
  "noWitness i = i\<lparr>ti_witness := []\<rparr>"

lemma sreads_var: "length (sb_buffer s) < 2 ^ 64 \<Longrightarrow> sreads sb_parse (var_bytes (sb_buffer s)) s"
  using sreads_sb by (simp add: var_bytes_def)

lemma sreads_newSequence:
  assumes "seq_value q < 2 ^ 32"
  shows "sreads (bind_io sr_readUInt32LE (\<lambda>v. lift_io (newSequence (int v)))) (le_bytes 4 (seq_value q)) q"
  using assms by (intro sreads_bind_last [OF sreads_ints(3)]) (simp_all add: io_simps newSequence_def)

lemma sreads_input:
  assumes "ti_ok i" "fits (ti_bytes i)"
  shows "sreads (bind_io op_parse (\<lambda>outpoint. bind_io sb_parse (\<lambda>scriptSig. bind_io seq_parse (\<lambda>sequence.
        return_io \<lparr>ti_outpoint = outpoint, ti_scriptSig = scriptSig, ti_sequence = sequence,
                   ti_witness = []\<rparr>)))) (ti_bytes i) (noWitness i)"
    and "sreads ti_parse (ti_bytes i) (noWitness i)"
proof -
  have l: "length (sb_buffer (ti_scriptSig i)) < 2 ^ 64"
    using assms(2) by (simp add: ti_bytes_def var_bytes_def)
  have s: "sreads seq_parse (le_bytes 4 (seq_value (ti_sequence i))) (ti_sequence i)"
    using assms(1) sreads_newSequence by (simp add: seq_parse_def ti_ok_def)
  show "sreads (bind_io op_parse (\<lambda>outpoint. bind_io sb_parse (\<lambda>scriptSig. bind_io seq_parse (\<lambda>sequence.
        return_io \<lparr>ti_outpoint = outpoint, ti_scriptSig = scriptSig, ti_sequence = sequence,
                   ti_witness = []\<rparr>)))) (ti_bytes i) (noWitness i)"
    unfolding ti_bytes_def using assms(1)
    by (intro sreads_bind [OF sreads_op] sreads_bind [OF sreads_var [OF l]] sreads_bind_last [OF s])
      (simp_all add: ti_ok_def return_io_apply noWitness_def)
  then show "sreads ti_parse (ti_bytes i) (noWitness i)"
    by (simp add: ti_parse_def seq_parse_def)
qed

lemma sreads_output:
  assumes "to_ok out" "fits (to_bytes out)"
  shows "sreads (bind_io sr_readBigUInt64LE (\<lambda>v. bind_io sb_parse (\<lambda>scriptPubKey.
        return_io \<lparr>to_value = fromSats (int v), to_scriptPubKey = scriptPubKey\<rparr>))) (to_bytes out) out"
proof -
  have l: "length (sb_buffer (to_scriptPubKey out)) < 2 ^ 64"
    using assms(2) by (simp add: to_bytes_def var_bytes_def)
  obtain n where n: "n < 2 ^ 64" "sats (to_value out) = int n" "to_value out = fromSats (int n)"
    using assms(1) by (rule to_ok_sats)
  then show ?thesis unfolding to_bytes_def n(2) nat_int
    by (intro sreads_bind [OF sreads_ints(4)] sreads_bind_last [OF sreads_var [OF l]])
      (simp_all add: return_io_apply)
qed

lemma sreads_inputs:
  assumes "\<forall>i\<in>set is. ti_ok i" "fits (concat (map ti_bytes is))"
  shows "sreads parseInputs (varint_bytes (length is) @ concat (map ti_bytes is)) (map noWitness is)"
proof -
  have "length is < 2 ^ 64"
    using length_concat_pos [of "is" ti_bytes] ti_bytes_not_Nil assms(2) by (simp del: length_concat)
  moreover have "sreads (repeat_io (length (map noWitness is))
     (bind_io op_parse (\<lambda>outpoint. bind_io sb_parse (\<lambda>scriptSig. bind_io seq_parse (\<lambda>sequence.
        return_io \<lparr>ti_outpoint = outpoint, ti_scriptSig = scriptSig, ti_sequence = sequence,
                   ti_witness = []\<rparr>))))) (concat (map ti_bytes (map noWitness is))) (map noWitness is)"
  proof (rule sreads_repeat)
    fix x assume "x \<in> set (map noWitness is)"
    then obtain i where i: "i \<in> set is" "x = noWitness i" by auto
    moreover have "ti_bytes (noWitness i) = ti_bytes i" by (simp add: ti_bytes_def noWitness_def)
    ultimately show "sreads (bind_io op_parse (\<lambda>outpoint. bind_io sb_parse (\<lambda>scriptSig. bind_io seq_parse (\<lambda>sequence.
        return_io \<lparr>ti_outpoint = outpoint, ti_scriptSig = scriptSig, ti_sequence = sequence,
                   ti_witness = []\<rparr>)))) (ti_bytes x) x"
      using sreads_input(1) [of i] assms(1) fits_concat [OF assms(2) i(1)] by simp
  qed
  moreover have "map ti_bytes (map noWitness is) = map ti_bytes is"
    by (simp add: ti_bytes_def noWitness_def)
  ultimately show ?thesis unfolding parseInputs_def
    by (intro sreads_bind [OF sreads_varint]) (simp_all only: length_map)
qed

lemma sreads_outputs:
  assumes "\<forall>out\<in>set os. to_ok out" "fits (concat (map to_bytes os))"
  shows "sreads parseOutputs (varint_bytes (length os) @ concat (map to_bytes os)) os"
proof -
  have "length os < 2 ^ 64"
    using length_concat_pos [of os to_bytes] to_bytes_not_Nil assms(2) by (simp del: length_concat)
  then show ?thesis unfolding parseOutputs_def
    using assms(1) fits_concat [OF assms(2)]
    by (intro sreads_bind [OF sreads_varint] sreads_repeat sreads_output) auto
qed

lemma sreads_witnesses:
  assumes "fits (concat (map witness_bytes is))"
  shows "sreads (parseWitnesses (map noWitness is)) (concat (map witness_bytes is)) is"
  using assms
proof (induction "is")
  case Nil
  show ?case by (simp add: sreads_return)
next
  case (Cons i "is")
  have f: "fits (concat (map wit_bytes (ti_witness i)))"
    using Cons.prems by (simp add: witness_bytes_def del: length_concat)
  have "length (ti_witness i) < 2 ^ 64"
    using f length_concat_pos [of "ti_witness i" wit_bytes] wit_bytes_not_Nil
    by (simp del: length_concat)
  moreover have "sreads (repeat_io (length (ti_witness i)) wit_parse)
      (concat (map wit_bytes (ti_witness i))) (ti_witness i)"
  proof (rule sreads_repeat)
    fix w assume "w \<in> set (ti_witness i)"
    from fits_concat [OF f this] have "length (wit_data w) < 2 ^ 64" by (simp add: wit_bytes_def)
    then show "sreads wit_parse (wit_bytes w) w" by (rule sreads_wit)
  qed
  moreover have "sreads (parseWitnesses (map noWitness is)) (concat (map witness_bytes is)) is"
    using Cons by (simp del: length_concat)
  ultimately show ?case
    unfolding witness_bytes_def list.map parseWitnesses.simps concat.simps append_assoc
    by (intro sreads_bind [OF sreads_varint] sreads_bind [of "repeat_io _ _"] sreads_bind_last)
      (auto simp: return_io_apply noWitness_def)
qed

lemma sreads_lt: "lt_value l < 2 ^ 32 \<Longrightarrow> sreads lt_parse (le_bytes 4 (lt_value l)) l"
  unfolding lt_parse_def
  by (intro sreads_bind_last [OF sreads_ints(3)]) (simp_all add: io_simps newLockTime_def)

lemma bind_return_left: "bind_io (return_io x) f = f x"
  by (rule ext) (simp add: io_simps)

lemma sreads_finish:
  assumes "tx_ok t"
  shows "sreads (bind_io lt_parse (\<lambda>locktime. return_io
      \<lparr>tx_version = tx_version t, tx_inputs = tx_inputs t, tx_outputs = tx_outputs t,
       tx_locktime = locktime\<rparr>)) (le_bytes 4 (lt_value (tx_locktime t))) t"
  using assms by (intro sreads_bind_last [OF sreads_lt]) (simp_all add: tx_ok_def return_io_apply)

lemma sreads_tail_segwit:
  assumes "tx_ok t" "fits (concat (map witness_bytes (tx_inputs t)))"
  shows "sreads (parseTail True (tx_version t) 1 (map noWitness (tx_inputs t)) (tx_outputs t))
      (concat (map witness_bytes (tx_inputs t)) @ le_bytes 4 (lt_value (tx_locktime t))) t"
proof -
  have "parseTail True (tx_version t) 1 (map noWitness (tx_inputs t)) (tx_outputs t) =
      bind_io (parseWitnesses (map noWitness (tx_inputs t))) (\<lambda>vins. bind_io lt_parse (\<lambda>locktime.
        return_io \<lparr>tx_version = tx_version t, tx_inputs = vins, tx_outputs = tx_outputs t,
                   tx_locktime = locktime\<rparr>))"
    by (simp add: parseTail_def bit_0)
  then show ?thesis
    by (simp only:) (rule sreads_bind [OF sreads_witnesses [OF assms(2)]], rule sreads_finish [OF assms(1)])
qed

lemma sreads_tail_legacy:
  assumes "tx_ok t" "\<not> isSegWit t"
  shows "sreads (parseTail a (tx_version t) 0 (map noWitness (tx_inputs t)) (tx_outputs t))
        (le_bytes 4 (lt_value (tx_locktime t))) t"
proof -
  have "map noWitness (tx_inputs t) = tx_inputs t"
    using assms(2) by (intro map_idI) (auto simp: isSegWit_def noWitness_def)
  then show ?thesis using sreads_finish [OF assms(1)] by (simp add: parseTail_def bind_return_left)
qed

lemma body_fits:
  assumes "fits (body_bytes t)"
  shows "fits (concat (map ti_bytes (tx_inputs t)))" "fits (concat (map to_bytes (tx_outputs t)))"
  using assms by (auto simp: body_bytes_def simp del: length_concat)

lemma sreads_body:
  assumes "tx_ok t" "fits (body_bytes t)"
    and "sreads (f (map noWitness (tx_inputs t)) (tx_outputs t)) bs t"
  shows "sreads (bind_io parseInputs (\<lambda>vins. bind_io parseOutputs (\<lambda>vouts. f vins vouts)))
     (body_bytes t @ bs) t"
proof -
  have b: "body_bytes t @ bs = (varint_bytes (length (tx_inputs t)) @ concat (map ti_bytes (tx_inputs t)))
      @ (varint_bytes (length (tx_outputs t)) @ concat (map to_bytes (tx_outputs t))) @ bs"
    by (simp add: body_bytes_def)
  have "sreads parseInputs (varint_bytes (length (tx_inputs t)) @ concat (map ti_bytes (tx_inputs t)))
       (map noWitness (tx_inputs t))"
    using assms(1) body_fits(1) [OF assms(2)] by (intro sreads_inputs) (simp add: tx_ok_def)
  moreover have "sreads parseOutputs (varint_bytes (length (tx_outputs t))
       @ concat (map to_bytes (tx_outputs t))) (tx_outputs t)"
    using assms(1) body_fits(2) [OF assms(2)] by (intro sreads_outputs) (simp add: tx_ok_def)
  ultimately show ?thesis unfolding b using assms(3) by (intro sreads_bind) assumption+
qed

lemma sreads_bind_cong:
  assumes "sreads (bind_io m f) (bs @ cs) y" "sreads m bs x" "f x = g x"
  shows "sreads (bind_io m g) (bs @ cs) y"
  using assms by (simp add: sreads_def bind_io_apply)

lemma sreads_tx_legacy:
  assumes "tx_ok t" "fits (legacy_bytes t)" "\<not> isSegWit t" "\<not> allowWitness \<or> tx_inputs t \<noteq> []"
  shows "sreads (tx_parse allowWitness) (legacy_bytes t) t"
proof -
  have f: "fits (body_bytes t)" using assms(2) by (simp add: legacy_bytes_def)
  let ?lt = "le_bytes 4 (lt_value (tx_locktime t))"
  let ?is = "varint_bytes (length (tx_inputs t)) @ concat (map ti_bytes (tx_inputs t))"
  have "sreads (bind_io parseInputs (\<lambda>vins. bind_io parseOutputs (\<lambda>vouts.
      parseTail allowWitness (tx_version t) 0 vins vouts))) (body_bytes t @ ?lt) t"
    by (rule sreads_body [where f = "parseTail allowWitness (tx_version t) 0",
          OF assms(1) f sreads_tail_legacy [OF assms(1,3)]])
  moreover have "body_bytes t @ ?lt = ?is @ varint_bytes (length (tx_outputs t))
      @ concat (map to_bytes (tx_outputs t)) @ ?lt"
    by (simp add: body_bytes_def)
  moreover have "sreads parseInputs ?is (map noWitness (tx_inputs t))"
    using assms(1) body_fits(1) [OF f] by (intro sreads_inputs) (simp add: tx_ok_def)
  moreover have "\<not> (allowWitness \<and> map noWitness (tx_inputs t) = [])" using assms(4) by simp
  ultimately show ?thesis
    unfolding tx_parse_def legacy_bytes_def
    using assms(1) by (intro sreads_bind [OF sreads_ints(3)])
      (simp add: tx_ok_def, simp only:, erule sreads_bind_cong, assumption, simp only: if_False)
qed

lemma sreads_tx_segwit:
  assumes "tx_ok t" "fits (segwit_bytes t)"
  shows "sreads (tx_parse True) (segwit_bytes t) t"
proof -
  have f: "fits (body_bytes t)" "fits (concat (map witness_bytes (tx_inputs t)))"
    using assms(2) by (simp_all add: segwit_bytes_def del: length_concat)
  have b: "segwit_bytes t = le_bytes 4 (tx_version t) @ (varint_bytes (length ([] :: tx_in list)) @
      concat (map ti_bytes [])) @ le_bytes 1 1 @ body_bytes t
     @ concat (map witness_bytes (tx_inputs t)) @ le_bytes 4 (lt_value (tx_locktime t))"
    by (simp add: segwit_bytes_def varint_bytes_def one_byte)
  show ?thesis
    unfolding tx_parse_def b
  proof (intro sreads_bind [OF sreads_ints(3)] sreads_bind [OF sreads_inputs])
    show "tx_version t < 256 ^ 4" using assms(1) by (simp add: tx_ok_def)
    have "sreads (bind_io sr_readUInt8 (\<lambda>flags.
            if flags \<noteq> 0
            then bind_io parseInputs (\<lambda>vins. bind_io parseOutputs (\<lambda>vouts.
                   parseTail True (tx_version t) flags vins vouts))
            else parseTail True (tx_version t) flags [] []))
       (le_bytes 1 1 @ body_bytes t
         @ concat (map witness_bytes (tx_inputs t)) @ le_bytes 4 (lt_value (tx_locktime t))) t"
      by (rule sreads_bind [OF sreads_ints(1)])
        (simp_all add: sreads_body [where f = "parseTail True (tx_version t) 1",
            OF assms(1) f(1) sreads_tail_segwit [OF assms(1) f(2)], simplified])
    then show "sreads (if True \<and> map noWitness [] = []
        then bind_io sr_readUInt8 (\<lambda>flags.
            if flags \<noteq> 0
            then bind_io parseInputs (\<lambda>vins. bind_io parseOutputs (\<lambda>vouts.
                   parseTail True (tx_version t) flags vins vouts))
            else parseTail True (tx_version t) flags (map noWitness []) [])
        else bind_io parseOutputs (\<lambda>vouts. parseTail True (tx_version t) 0 (map noWitness []) vouts))
       (le_bytes 1 1 @ body_bytes t
         @ concat (map witness_bytes (tx_inputs t)) @ le_bytes 4 (lt_value (tx_locktime t))) t"
      unfolding list.map by simp
  qed simp_all
qed


text \<open>
  C24: A transaction whose fields are in range and whose encoding fits in the writer serialises, with or
  without witness data, to a buffer that \<^verbatim>\<open>fromBuffer\<close> decodes to the same transaction if
  it has an input, and that the stream parser consumes exactly; without inputs or witness the parser
  for the legacy format reads it back.
\<close>

theorem tx_roundtrip:
  assumes "tx_ok t" "fits (tx_bytes t)"
  shows "\<exists>bs. tx_serialize t = Inr bs
     \<and> (tx_inputs t \<noteq> [] \<longrightarrow> tx_fromBuffer bs = Inr t \<and> tx_parse True (bs @ rest) = (Inr t, rest))
     \<and> (\<not> isSegWit t \<longrightarrow> tx_parse False (bs @ rest) = (Inr t, rest))"
proof (intro exI conjI impI)
  show "tx_serialize t = Inr (tx_bytes t)" using assms by (rule tx_serialize_eq)
  show p: "tx_parse True (tx_bytes t @ rest) = (Inr t, rest)" if "tx_inputs t \<noteq> []" for rest
    using that assms sreads_tx_segwit [of t] sreads_tx_legacy [of t True]
    by (cases "isSegWit t") (simp_all add: tx_bytes_def sreads_def)
  show "tx_fromBuffer (tx_bytes t) = Inr t" if "tx_inputs t \<noteq> []"
    using p [OF that, of "[]"] by (simp add: tx_fromBuffer_def safeDecode_def)
  show "tx_parse False (tx_bytes t @ rest) = (Inr t, rest)" if "\<not> isSegWit t"
    using that assms sreads_tx_legacy [of t False] by (simp add: tx_bytes_def sreads_def)
qed

definition sample_tx :: tx where
  "sample_tx = \<lparr>tx_version = 2,
     tx_inputs = [\<lparr>ti_outpoint = op_coinbase, ti_scriptSig = ScriptBuf [0x51],
                   ti_sequence = seq_rbf, ti_witness = [Witness [1, 2]]\<rparr>],
     tx_outputs = [\<lparr>to_value = fromSats 1000, to_scriptPubKey = ScriptBuf [0x6a]\<rparr>],
     tx_locktime = lt_zero\<rparr>"

lemma sample_tx_ok: "tx_ok sample_tx" "fits (tx_bytes sample_tx)" "tx_inputs sample_tx \<noteq> []"
proof -
  have "op_wf op_coinbase" by (simp add: op_wf_def hv_wf_def op_coinbase_def)
  then show "tx_ok sample_tx" "tx_inputs sample_tx \<noteq> []"
    by (simp_all add: sample_tx_def tx_ok_def ti_ok_def to_ok_def seq_rbf_def lt_zero_def fromSats_def)
  have "isSegWit sample_tx" by (simp add: isSegWit_def sample_tx_def)
  moreover have "length (op_bytes op_coinbase) = 36"
    using \<open>op_wf op_coinbase\<close> by (rule length_op_bytes)
  ultimately show "fits (tx_bytes sample_tx)"
    by (simp add: tx_bytes_def segwit_bytes_def body_bytes_def sample_tx_def ti_bytes_def to_bytes_def
        witness_bytes_def wit_bytes_def var_bytes_def length_varint_bytes)
qed

theorem tx_roundtrip_witness:
  "\<exists>bs. tx_serialize sample_tx = Inr bs
     \<and> (tx_inputs sample_tx \<noteq> [] \<longrightarrow>
          tx_fromBuffer bs = Inr sample_tx \<and> tx_parse True (bs @ [7]) = (Inr sample_tx, [7]))
     \<and> (\<not> isSegWit sample_tx \<longrightarrow> tx_parse False (bs @ [7]) = (Inr sample_tx, [7]))"
  by (rule tx_roundtrip [OF sample_tx_ok(1,2)])

section \<open>The size computation\<close>

lemma fits_Cons: "fits (xs @ ys) \<Longrightarrow> fits xs \<and> fits ys"
  by simp

lemma sizeWitness_eq:
  "fits (concat (map wit_bytes ws)) \<Longrightarrow>
     sizeWitness ws n = Inr (n + int (length (concat (map wit_bytes ws))))"
proof (induction ws arbitrary: n)
  case (Cons w ws)
  have "length (wit_data w) < 2 ^ 64" using Cons.prems by (simp add: wit_bytes_def)
  then show ?case using Cons
    by (simp add: varIntBytes_eq wit_bytes_def algebra_simps del: length_concat)
qed simp

lemma sizeInputs_eq:
  assumes "\<forall>i\<in>set is. ti_ok i" "fits (concat (map ti_bytes is))"
    and "hasWitness \<Longrightarrow> fits (concat (map witness_bytes is))"
  shows "sizeInputs hasWitness is (s, w) =
     Inr (s + int (length (concat (map ti_bytes is))),
          w + (if hasWitness then int (length (concat (map witness_bytes is))) else 0))"
  using assms
proof (induction "is" arbitrary: s w)
  case (Cons i "is")
  have "length (sb_buffer (ti_scriptSig i)) < 2 ^ 64"
    using Cons.prems(2) by (simp add: ti_bytes_def var_bytes_def)
  then have v: "varIntBytes (int (length (sb_buffer (ti_scriptSig i)))) =
      Inr (int (length (varint_bytes (length (sb_buffer (ti_scriptSig i))))))"
    by (rule varIntBytes_eq)
  have ti: "int (length (ti_bytes i)) = 32 + 4 + int (length (var_bytes (sb_buffer (ti_scriptSig i)))) + 4"
    using Cons.prems(1) length_op_bytes [of "ti_outpoint i"] by (simp add: ti_bytes_def ti_ok_def)
  have IH: "sizeInputs hasWitness is (s', w') = Inr (s' + int (length (concat (map ti_bytes is))),
          w' + (if hasWitness then int (length (concat (map witness_bytes is))) else 0))" for s' w'
    using Cons by (intro Cons.IH) (simp_all del: length_concat)
  show ?case
  proof (cases hasWitness)
    case False
    then have "sizeInputs False is (s', w') = Inr (s' + int (length (concat (map ti_bytes is))), w')" for s' w'
      using IH by (simp del: length_concat)
    then show ?thesis
      using False by (simp add: v ti var_bytes_def Let_def add.assoc del: length_concat)
  next
    case True
    then have f: "fits (concat (map wit_bytes (ti_witness i)))"
      using Cons.prems(3) by (simp add: witness_bytes_def del: length_concat)
    have "length (ti_witness i) < 2 ^ 64"
      using f length_concat_pos [of "ti_witness i" wit_bytes] wit_bytes_not_Nil by (simp del: length_concat)
    then have n: "varIntBytes (int (length (ti_witness i))) =
        Inr (int (length (varint_bytes (length (ti_witness i)))))"
      by (rule varIntBytes_eq)
    have "sizeInputs True is (s', w') = Inr (s' + int (length (concat (map ti_bytes is))),
          w' + int (length (concat (map witness_bytes is))))" for s' w'
      using IH True by (simp del: length_concat)
    moreover have "int (length (witness_bytes i)) = int (length (varint_bytes (length (ti_witness i))))
        + int (length (concat (map wit_bytes (ti_witness i))))"
      by (simp add: witness_bytes_def del: length_concat)
    ultimately show ?thesis using True
      by (simp add: v n ti sizeWitness_eq [OF f] var_bytes_def Let_def add.assoc del: length_concat)
  qed
qed simp

lemma sizeOutputs_eq:
  "fits (concat (map to_bytes os)) \<Longrightarrow>
     sizeOutputs os n = Inr (n + int (length (concat (map to_bytes os))))"
proof (induction os arbitrary: n)
  case (Cons out os)
  have "length (sb_buffer (to_scriptPubKey out)) < 2 ^ 64"
    using Cons.prems by (simp add: to_bytes_def var_bytes_def)
  then have v: "varIntBytes (int (length (sb_buffer (to_scriptPubKey out)))) =
      Inr (int (length (varint_bytes (length (sb_buffer (to_scriptPubKey out))))))"
    by (rule varIntBytes_eq)
  have IH: "sizeOutputs os n = Inr (n + int (length (concat (map to_bytes os))))" for n
    using Cons.prems by (intro Cons.IH) (simp del: length_concat)
  have out: "int (length (to_bytes out)) = 8 + int (length (var_bytes (sb_buffer (to_scriptPubKey out))))"
    by (simp add: to_bytes_def)
  show ?case
    by (simp add: v IH out var_bytes_def Let_def add.assoc del: length_concat)
qed simp

text \<open>
  The computed size is the number of bytes of the serialisation, the weight is three times
  the length of the legacy serialisation plus the size, as BIP 141 defines it, and the virtual
  size is a quarter of the weight rounded up; without witness data the weight is four times the size.
\<close>

theorem tx_sizes:
  assumes "tx_ok t" "fits (tx_bytes t)"
  shows "\<exists>bs lbs r. tx_serialize t = Inr bs \<and> serializeLegacy t = Inr lbs \<and> calcSize t = Inr r
     \<and> sr_size r = int (length bs)
     \<and> sr_weight r = 3 * int (length lbs) + int (length bs)
     \<and> sr_weight r \<le> 4 * sr_vsize r \<and> 4 * sr_vsize r < sr_weight r + 4
     \<and> (\<not> isSegWit t \<longrightarrow> sr_weight r = 4 * sr_size r \<and> sr_vsize r = sr_size r)"
proof -
  have l: "fits (legacy_bytes t)" using assms(2)
    by (cases "isSegWit t") (simp_all add: tx_bytes_def legacy_bytes_def segwit_bytes_def)
  then have f: "fits (body_bytes t)" by (simp add: legacy_bytes_def)
  define W where "W = concat (map witness_bytes (tx_inputs t))"
  have w: "isSegWit t \<Longrightarrow> fits W"
    using assms(2) by (simp add: tx_bytes_def segwit_bytes_def W_def del: length_concat)
  define k where "k = int (length (body_bytes t)) + 8"
  define m where "m = (if isSegWit t then 2 + int (length W) else 0)"
  have in_eq: "sizeInputs (isSegWit t) (tx_inputs t) (a, b) =
     Inr (a + int (length (concat (map ti_bytes (tx_inputs t)))),
          b + (if isSegWit t then int (length W) else 0))" for a b
    using assms(1) body_fits(1) [OF f] w unfolding W_def
    by (intro sizeInputs_eq) (simp_all add: tx_ok_def)
  have "calcSize t = Inr \<lparr>sr_size = k + m, sr_vsize = - ((- (k * 4 + m)) div 4), sr_weight = k * 4 + m\<rparr>"
  proof -
    have n: "varIntBytes (int (length (tx_inputs t))) = Inr (int (length (varint_bytes (length (tx_inputs t)))))"
      "varIntBytes (int (length (tx_outputs t))) = Inr (int (length (varint_bytes (length (tx_outputs t)))))"
      using counts_fit [OF f] by (simp_all only: varIntBytes_eq)
    have k: "k = 4 + int (length (varint_bytes (length (tx_inputs t))))
        + int (length (concat (map ti_bytes (tx_inputs t))))
        + int (length (varint_bytes (length (tx_outputs t))))
        + int (length (concat (map to_bytes (tx_outputs t)))) + 4"
      by (simp add: k_def body_bytes_def del: length_concat)
    have m: "m = (if isSegWit t then 2 else 0) + (if isSegWit t then int (length W) else 0)"
      by (simp add: m_def)
    show ?thesis
      unfolding calcSize_def Let_def n bind_res_simps in_eq prod.case
        sizeOutputs_eq [OF body_fits(2) [OF f]] k m by (rule refl)
  qed
  moreover have "int (length (legacy_bytes t)) = k" by (simp add: k_def legacy_bytes_def)
  moreover have "int (length (tx_bytes t)) = k + m"
    by (simp add: k_def m_def W_def legacy_bytes_def tx_bytes_def segwit_bytes_def del: length_concat)
  moreover have "\<not> isSegWit t \<Longrightarrow> m = 0" by (simp add: m_def)
  ultimately show ?thesis
    using tx_serialize_eq [OF assms] serializeLegacy_eq [OF assms(1) l] by auto
qed

theorem tx_sizes_witness:
  "\<exists>bs lbs r. tx_serialize sample_tx = Inr bs \<and> serializeLegacy sample_tx = Inr lbs
     \<and> calcSize sample_tx = Inr r
     \<and> sr_size r = int (length bs)
     \<and> sr_weight r = 3 * int (length lbs) + int (length bs)
     \<and> sr_weight r \<le> 4 * sr_vsize r \<and> 4 * sr_vsize r < sr_weight r + 4
     \<and> (\<not> isSegWit sample_tx \<longrightarrow> sr_weight r = 4 * sr_size r \<and> sr_vsize r = sr_size r)"
  by (rule tx_sizes [OF sample_tx_ok(1,2)])

end
