(* ===== verification/TxBuilder.thy ===== *)
theory TxBuilder
  imports Tx "HOL-Library.Multiset" "HOL-Library.List_Lexorder" "HOL-Library.Product_Lexorder"
begin

text \<open>
  \<^verbatim>\<open>packages/bitcoin/lib\<close>: \<^verbatim>\<open>TxBuilder.ts\<close>, with the caches of its
  segwit signature hash, and \<^verbatim>\<open>LexicographicalSorters.ts\<close>.  The SHA-256 function, the
  ECDSA signature and its DER encoding are parameters.
\<close>

section \<open>The builder\<close>

record tx_builder =
  tb_version :: nat
  tb_locktime :: locktime
  tb_inputs :: "tx_in list"
  tb_outputs :: "tx_out list"
  tb_hashPrevOuts :: "buffer option"
  tb_hashSequence :: "buffer option"
  tb_hashOutputs :: "buffer option"

definition newTxBuilder :: tx_builder where
  "newTxBuilder = \<lparr>tb_version = 2, tb_locktime = lt_default, tb_inputs = [], tb_outputs = [],
     tb_hashPrevOuts = None, tb_hashSequence = None, tb_hashOutputs = None\<rparr>"

text \<open>A script argument is a \<^verbatim>\<open>Script\<close> or a \<^verbatim>\<open>ScriptBuf\<close>.\<close>

definition asScriptBuf :: "script + script_buf \<Rightarrow> script_buf res" where
  "asScriptBuf s = (case s of Inl cmds \<Rightarrow> toScriptBuf cmds | Inr b \<Rightarrow> Inr b)"

definition arg_serialize :: "script + script_buf \<Rightarrow> buffer res" where
  "arg_serialize s = (case s of Inl cmds \<Rightarrow> script_serialize cmds | Inr b \<Rightarrow> sb_serialize b)"

definition newTxIn :: "outpoint \<Rightarrow> script + script_buf \<Rightarrow> sequence \<Rightarrow> tx_in res" where
  "newTxIn outpoint scriptSig sequence = bind_res (asScriptBuf scriptSig) (\<lambda>b.
     Inr \<lparr>ti_outpoint = outpoint, ti_scriptSig = b, ti_sequence = sequence, ti_witness = []\<rparr>)"

datatype input_arg = InTxIn tx_in | InText string "sequence option" | InOutPoint outpoint "sequence option"

definition tb_addInput :: "input_arg \<Rightarrow> (tx_builder, unit) io" where
  "tb_addInput arg = bind_io
     (lift_io (case arg of
        InTxIn i \<Rightarrow> Inr i
      | InText text q \<Rightarrow> bind_res (op_fromString text) (\<lambda>p.
          newTxIn p (Inr sb_empty) (case q of None \<Rightarrow> seq_default | Some q \<Rightarrow> q))
      | InOutPoint p q \<Rightarrow> newTxIn p (Inr sb_empty) (case q of None \<Rightarrow> seq_default | Some q \<Rightarrow> q)))
     (\<lambda>i. update_io (\<lambda>b. b\<lparr>tb_inputs := tb_inputs b @ [i]\<rparr>))"

definition tb_addTxOut :: "tx_out \<Rightarrow> (tx_builder, unit) io" where
  "tb_addTxOut out = update_io (\<lambda>b. b\<lparr>tb_outputs := tb_outputs b @ [out]\<rparr>)"

definition tb_addOutput :: "btc_value \<Rightarrow> script + script_buf \<Rightarrow> (tx_builder, unit) io" where
  "tb_addOutput val scriptPubKey = bind_io (lift_io (asScriptBuf scriptPubKey)) (\<lambda>s.
     tb_addTxOut \<lparr>to_value = val, to_scriptPubKey = s\<rparr>)"

definition tb_addWitness :: "int \<Rightarrow> witness \<Rightarrow> (tx_builder, unit) io" where
  "tb_addWitness index w = (\<lambda>b.
     if index < 0 \<or> index \<ge> int (length (tb_inputs b))
     then (Inl (BitcoinError ''InputIndexOutOfRange''), b)
     else (Inr (), b\<lparr>tb_inputs := (tb_inputs b)[nat index := ti_addWitness (tb_inputs b ! nat index) w]\<rparr>))"

definition tb_setScriptSig :: "int \<Rightarrow> script + script_buf \<Rightarrow> (tx_builder, unit) io" where
  "tb_setScriptSig index s = (\<lambda>b.
     if index < 0 \<or> index \<ge> int (length (tb_inputs b))
     then (Inl (BitcoinError ''InputIndexOutOfRange''), b)
     else (case asScriptBuf s of
             Inl e \<Rightarrow> (Inl e, b)
           | Inr sb \<Rightarrow> (Inr (), b\<lparr>tb_inputs := (tb_inputs b)[nat index :=
                                (tb_inputs b ! nat index)\<lparr>ti_scriptSig := sb\<rparr>]\<rparr>)))"

definition tb_setLockTime :: "int + locktime \<Rightarrow> (tx_builder, unit) io" where
  "tb_setLockTime l = bind_io (lift_io (case l of Inl n \<Rightarrow> newLockTime n | Inr l \<Rightarrow> Inr l)) (\<lambda>l.
     update_io (\<lambda>b. b\<lparr>tb_locktime := l\<rparr>))"

section \<open>Signature hashes\<close>

text \<open>The inputs as \<^verbatim>\<open>hashLegacy\<close> writes them: the loop with its index.\<close>

primrec writeLegacyInputs ::
  "int \<Rightarrow> script + script_buf \<Rightarrow> nat \<Rightarrow> tx_in list \<Rightarrow> (buffer_writer, unit) io" where
  "writeLegacyInputs input commitScript i [] = return_io ()"
| "writeLegacyInputs input commitScript i (vin # vins) =
     then_io
       (bind_io (lift_io (newTxIn (ti_outpoint vin)
           (if int i = input then commitScript else Inr sb_empty) (ti_sequence vin)))
         (\<lambda>vin. bw_writeRes (ti_serialize vin)))
       (writeLegacyInputs input commitScript (Suc i) vins)"

definition writeLegacyPreimage ::
  "int \<Rightarrow> script + script_buf \<Rightarrow> tx_builder \<Rightarrow> (buffer_writer, unit) io" where
  "writeLegacyPreimage input commitScript b =
     then_io (bw_writeUInt32LE (tb_version b))
     (then_io (bw_writeVarInt (length (tb_inputs b)))
     (then_io (writeLegacyInputs input commitScript 0 (tb_inputs b))
     (then_io (bw_writeVarInt (length (tb_outputs b)))
     (then_io (each_io (\<lambda>vout. bw_writeRes (to_serialize vout)) (tb_outputs b))
     (then_io (bw_writeRes (lt_serialize (tb_locktime b)))
              (bw_writeUInt32LE 1))))))"

definition hashLegacy ::
  "(buffer \<Rightarrow> buffer) \<Rightarrow> int \<Rightarrow> script + script_buf \<Rightarrow> tx_builder \<Rightarrow> buffer res" where
  "hashLegacy sha256 input commitScript b =
     bind_res (runWriter None (writeLegacyPreimage input commitScript b))
       (\<lambda>bytes. Inr (hash256 sha256 bytes))"

definition cachePrevOuts :: "(buffer \<Rightarrow> buffer) \<Rightarrow> (tx_builder, unit) io" where
  "cachePrevOuts sha256 = (\<lambda>b.
     if tb_hashPrevOuts b = None
     then (case runWriter (Some (replicate (length (tb_inputs b) * 36) 0))
             (each_io (\<lambda>input. bw_writeRes (op_serialize (ti_outpoint input))) (tb_inputs b)) of
             Inl e \<Rightarrow> (Inl e, b)
           | Inr bytes \<Rightarrow> (Inr (), b\<lparr>tb_hashPrevOuts := Some (hash256 sha256 bytes)\<rparr>))
     else (Inr (), b))"

definition cacheSequence :: "(buffer \<Rightarrow> buffer) \<Rightarrow> (tx_builder, unit) io" where
  "cacheSequence sha256 = (\<lambda>b.
     if tb_hashSequence b = None
     then (case runWriter (Some (replicate (length (tb_inputs b) * 4) 0))
             (each_io (\<lambda>input. bw_writeRes (seq_serialize (ti_sequence input))) (tb_inputs b)) of
             Inl e \<Rightarrow> (Inl e, b)
           | Inr bytes \<Rightarrow> (Inr (), b\<lparr>tb_hashSequence := Some (hash256 sha256 bytes)\<rparr>))
     else (Inr (), b))"

definition cacheOutputs :: "(buffer \<Rightarrow> buffer) \<Rightarrow> (tx_builder, unit) io" where
  "cacheOutputs sha256 = (\<lambda>b.
     if tb_hashOutputs b = None
     then (case runWriter None
             (each_io (\<lambda>vout. bw_writeRes (to_serialize vout)) (tb_outputs b)) of
             Inl e \<Rightarrow> (Inl e, b)
           | Inr bytes \<Rightarrow> (Inr (), b\<lparr>tb_hashOutputs := Some (hash256 sha256 bytes)\<rparr>))
     else (Inr (), b))"

definition inputAt :: "int \<Rightarrow> tx_in list \<Rightarrow> tx_in res" where
  "inputAt index vins =
     (if 0 \<le> index \<and> index < int (length vins) then Inr (vins ! nat index) else Inl TypeError)"

definition writeSegwitv0 ::
  "int \<Rightarrow> script + script_buf \<Rightarrow> btc_value \<Rightarrow> tx_builder \<Rightarrow> (buffer_writer, unit) io" where
  "writeSegwitv0 index commitScript val b =
     then_io (bw_writeUInt32LE (tb_version b))
     (then_io (bw_writeBytes (the (tb_hashPrevOuts b)))
     (then_io (bw_writeBytes (the (tb_hashSequence b)))
     (bind_io (lift_io (inputAt index (tb_inputs b))) (\<lambda>vin.
     then_io (bw_writeRes (op_serialize (ti_outpoint vin)))
     (then_io (bw_writeRes (arg_serialize commitScript))
     (then_io (bw_writeUInt64LE (sats val))
     (then_io (bw_writeRes (seq_serialize (ti_sequence vin)))
     (then_io (bw_writeBytes (the (tb_hashOutputs b)))
     (then_io (bw_writeRes (lt_serialize (tb_locktime b)))
              (bw_writeUInt32LE 1))))))))))"

definition hashSegwitv0 ::
  "(buffer \<Rightarrow> buffer) \<Rightarrow> int \<Rightarrow> script + script_buf \<Rightarrow> btc_value \<Rightarrow> (tx_builder, buffer) io" where
  "hashSegwitv0 sha256 index commitScript val =
     then_io (cachePrevOuts sha256) (then_io (cacheSequence sha256) (then_io (cacheOutputs sha256)
       (\<lambda>b. (bind_res (runWriter None (writeSegwitv0 index commitScript val b))
               (\<lambda>bytes. Inr (hash256 sha256 bytes)), b))))"

definition tb_sign ::
  "(buffer \<Rightarrow> buffer) \<Rightarrow> (buffer \<Rightarrow> buffer \<Rightarrow> buffer) \<Rightarrow> (buffer \<Rightarrow> buffer)
     \<Rightarrow> int \<Rightarrow> script + script_buf \<Rightarrow> buffer \<Rightarrow> tx_builder \<Rightarrow> buffer res" where
  "tb_sign sha256 sign sigToDER input commitScript privateKey b =
     bind_res (hashLegacy sha256 input commitScript b) (\<lambda>hash.
       Inr (sigToDER (sign hash privateKey) @ [1]))"

definition tb_signSegWitv0 ::
  "(buffer \<Rightarrow> buffer) \<Rightarrow> (buffer \<Rightarrow> buffer \<Rightarrow> buffer) \<Rightarrow> (buffer \<Rightarrow> buffer)
     \<Rightarrow> int \<Rightarrow> script + script_buf \<Rightarrow> buffer \<Rightarrow> btc_value \<Rightarrow> (tx_builder, buffer) io" where
  "tb_signSegWitv0 sha256 sign sigToDER input commitScript privateKey val =
     bind_io (hashSegwitv0 sha256 input commitScript val) (\<lambda>hash.
       return_io (sigToDER (sign hash privateKey) @ [1]))"

definition toTx :: "tx_builder \<Rightarrow> tx" where
  "toTx b = \<lparr>tx_version = tb_version b, tx_inputs = tb_inputs b, tx_outputs = tb_outputs b,
     tx_locktime = tb_locktime b\<rparr>"

definition tb_serialize :: "tx_builder \<Rightarrow> buffer res" where
  "tb_serialize b = tx_serialize (toTx b)"

section \<open>The sorters\<close>

definition bip69InputSorter :: "tx_in \<Rightarrow> tx_in \<Rightarrow> int" where
  "bip69InputSorter a b =
     (let txid = bufCompare (hv_serialize RPC (op_txid (ti_outpoint a)))
                            (hv_serialize Internal (op_txid (ti_outpoint b)))
      in if txid \<noteq> 0 then txid
         else if op_outputIndex (ti_outpoint a) < op_outputIndex (ti_outpoint b) then - 1
         else if op_outputIndex (ti_outpoint a) > op_outputIndex (ti_outpoint b) then 1
         else 0)"

definition bip69OutputSorter :: "tx_out \<Rightarrow> tx_out \<Rightarrow> int" where
  "bip69OutputSorter a b =
     (let amount = sats (to_value a) - sats (to_value b)
      in if amount \<noteq> 0 then amount
         else bufCompare (sb_buffer (to_scriptPubKey a)) (sb_buffer (to_scriptPubKey b)))"

section \<open>Sorting outputs\<close>

lemma bufCompare_le: "bufCompare a b \<le> 0 \<longleftrightarrow> a \<le> b"
proof -
  have "bufCompare a b < 0 \<longleftrightarrow> a < b"
    by (induction a b rule: bufCompare.induct) auto
  then show ?thesis using bufCompare_eq_0 [of a b] by (auto simp: le_less)
qed

lemma sortBy_sort_key:
  assumes "\<And>a b. cmp a b \<le> 0 \<longleftrightarrow> key a \<le> key b"
  shows "sortBy cmp xs = sort_key key xs"
proof -
  have "insertBy cmp x ys = insort_key key x ys" for x ys
    by (induction ys) (simp_all add: assms)
  then have "insertBy cmp = insort_key key" by (intro ext)
  then show ?thesis by (simp add: sortBy_def sort_key_def)
qed

definition output_key :: "tx_out \<Rightarrow> int \<times> buffer" where
  "output_key out = (sats (to_value out), sb_buffer (to_scriptPubKey out))"

lemma output_sorter_key: "bip69OutputSorter a b \<le> 0 \<longleftrightarrow> output_key a \<le> output_key b"
  by (auto simp: bip69OutputSorter_def output_key_def Let_def bufCompare_le less_eq_prod_def)

text \<open>
  Sorting outputs with \<^verbatim>\<open>bip69OutputSorter\<close> gives a permutation in which amounts
  and then scripts ascend, and the resulting sequence of amounts and scripts does not depend on the
  order that the outputs were in.
\<close>

theorem output_sort_canonical:
  assumes "mset xs = mset ys"
  shows "mset (sortBy bip69OutputSorter xs) = mset xs
    \<and> sorted_wrt (\<lambda>a b. bip69OutputSorter a b \<le> 0) (sortBy bip69OutputSorter xs)
    \<and> map (\<lambda>out. (sats (to_value out), to_scriptPubKey out)) (sortBy bip69OutputSorter xs)
      = map (\<lambda>out. (sats (to_value out), to_scriptPubKey out)) (sortBy bip69OutputSorter ys)"
proof -
  have k: "sortBy bip69OutputSorter zs = sort_key output_key zs" for zs
    by (rule sortBy_sort_key [OF output_sorter_key])
  have "map output_key (sort_key output_key xs) = map output_key (sort_key output_key ys)"
  proof -
    have "sort (map output_key ys) = map output_key (sort_key output_key xs)"
      using assms by (intro properties_for_sort) simp_all
    moreover have "sort (map output_key ys) = map output_key (sort_key output_key ys)"
      by (intro properties_for_sort) simp_all
    ultimately show ?thesis by simp
  qed
  then have "map (\<lambda>k. (fst k, ScriptBuf (snd k))) (map output_key (sort_key output_key xs))
      = map (\<lambda>k. (fst k, ScriptBuf (snd k))) (map output_key (sort_key output_key ys))"
    by simp
  moreover have "sorted_wrt (\<lambda>a b. output_key a \<le> output_key b) (sort_key output_key xs)"
    using sorted_sort_key [of output_key xs] by (simp add: sorted_wrt_map)
  ultimately show ?thesis
    by (simp add: k output_sorter_key output_key_def [abs_def] o_def)
qed

theorem output_sort_canonical_witness:
  "mset (sortBy bip69OutputSorter [\<lparr>to_value = fromSats 2, to_scriptPubKey = sb_empty\<rparr>]) =
      mset [\<lparr>to_value = fromSats 2, to_scriptPubKey = sb_empty\<rparr>]
    \<and> sorted_wrt (\<lambda>a b. bip69OutputSorter a b \<le> 0)
        (sortBy bip69OutputSorter [\<lparr>to_value = fromSats 2, to_scriptPubKey = sb_empty\<rparr>])
    \<and> map (\<lambda>out. (sats (to_value out), to_scriptPubKey out))
        (sortBy bip69OutputSorter [\<lparr>to_value = fromSats 2, to_scriptPubKey = sb_empty\<rparr>])
      = map (\<lambda>out. (sats (to_value out), to_scriptPubKey out))
        (sortBy bip69OutputSorter [\<lparr>to_value = fromSats 2, to_scriptPubKey = sb_empty\<rparr>])"
  by (rule output_sort_canonical) (rule refl)

lemma replicate_31: "replicate 31 x = x # replicate 30 x"
  by (simp add: numeral_eq_Suc)

text \<open>
  \<^verbatim>\<open>bip69InputSorter\<close> reverses the first transaction identifier but not the second, so it
  is no ordering: an input is equal to itself only if its identifier is a palindrome, and there are
  two inputs of which each is below the other.
\<close>

theorem input_sorter_not_order:
  "(bip69InputSorter a a = 0 \<longleftrightarrow> rev (hv_value (op_txid (ti_outpoint a))) = hv_value (op_txid (ti_outpoint a)))
   \<and> (\<exists>b c. ti_ok b \<and> ti_ok c \<and> bip69InputSorter b c < 0 \<and> bip69InputSorter c b < 0)"
proof
  show "bip69InputSorter a a = 0 \<longleftrightarrow>
      rev (hv_value (op_txid (ti_outpoint a))) = hv_value (op_txid (ti_outpoint a))"
    by (simp add: bip69InputSorter_def Let_def hv_serialize_def)
  let ?in = "\<lambda>b :: byte. \<lparr>ti_outpoint = \<lparr>op_txid = HashValue (b # replicate 31 0), op_outputIndex = 0\<rparr>,
      ti_scriptSig = sb_empty, ti_sequence = seq_default, ti_witness = []\<rparr>"
  have "ti_ok (?in b)" for b
    by (simp add: ti_ok_def op_wf_def hv_wf_def seq_default_def)
  moreover have "bip69InputSorter (?in b) (?in c) < 0" if "0 < c" for b c
  proof -
    have "rev (b # replicate 31 0) = 0 # (replicate 30 0 @ [b])"
      by (simp only: rev.simps rev_replicate replicate_31 replicate_append_same append_Cons)
    then show ?thesis using that
      by (simp only: bip69InputSorter_def Let_def hv_serialize_def tx_in.simps outpoint.simps
          hash_value.sel if_True HashByteOrder.simps if_False) simp
  qed
  ultimately show "\<exists>b c. ti_ok b \<and> ti_ok c \<and> bip69InputSorter b c < 0 \<and> bip69InputSorter c b < 0"
    by (intro exI [of _ "?in 1"] exI [of _ "?in 2"]) simp
qed

section \<open>The segwit signature hash\<close>

definition prevouts_bytes :: "tx_builder \<Rightarrow> buffer" where
  "prevouts_bytes b = concat (map (\<lambda>i. op_bytes (ti_outpoint i)) (tb_inputs b))"

definition sequences_bytes :: "tx_builder \<Rightarrow> buffer" where
  "sequences_bytes b = concat (map (\<lambda>i. le_bytes 4 (seq_value (ti_sequence i))) (tb_inputs b))"

definition outputs_bytes :: "tx_builder \<Rightarrow> buffer" where
  "outputs_bytes b = concat (map to_bytes (tb_outputs b))"

text \<open>The preimage that BIP 143 defines, for an input, its script and its amount in satoshis.\<close>

definition bip143 :: "(buffer \<Rightarrow> buffer) \<Rightarrow> tx_builder \<Rightarrow> tx_in \<Rightarrow> buffer \<Rightarrow> nat \<Rightarrow> buffer" where
  "bip143 sha256 b vin scriptCode amount =
     le_bytes 4 (tb_version b) @ hash256 sha256 (prevouts_bytes b) @ hash256 sha256 (sequences_bytes b)
     @ op_bytes (ti_outpoint vin) @ scriptCode @ le_bytes 8 amount @ le_bytes 4 (seq_value (ti_sequence vin))
     @ hash256 sha256 (outputs_bytes b) @ le_bytes 4 (lt_value (tb_locktime b)) @ le_bytes 4 1"

definition caches_ok :: "(buffer \<Rightarrow> buffer) \<Rightarrow> tx_builder \<Rightarrow> bool" where
  "caches_ok sha256 b \<longleftrightarrow>
     tb_hashPrevOuts b \<in> {None, Some (hash256 sha256 (prevouts_bytes b))}
   \<and> tb_hashSequence b \<in> {None, Some (hash256 sha256 (sequences_bytes b))}
   \<and> tb_hashOutputs b \<in> {None, Some (hash256 sha256 (outputs_bytes b))}"

definition tb_ok :: "tx_builder \<Rightarrow> bool" where
  "tb_ok b \<longleftrightarrow> tx_ok (toTx b) \<and> fits (outputs_bytes b)"

lemma writes_concat:
  assumes "\<And>x. x \<in> set xs \<Longrightarrow> f x = Inr (enc x)"
  shows "writes (bw_good g) bw_out bw_room (each_io (\<lambda>x. bw_writeRes (f x)) xs) (concat (map enc xs))"
  using assms by (intro writes_each writes_writeRes)

lemma cachePrevOuts_ok:
  assumes "tb_ok b" "tb_hashPrevOuts b \<in> {None, Some (hash256 sha256 (prevouts_bytes b))}"
  shows "cachePrevOuts sha256 b =
     (Inr (), b\<lparr>tb_hashPrevOuts := Some (hash256 sha256 (prevouts_bytes b))\<rparr>)"
proof -
  have ok: "\<And>i. i \<in> set (tb_inputs b) \<Longrightarrow> op_wf (ti_outpoint i)"
    using assms(1) by (auto simp: tb_ok_def toTx_def tx_ok_def ti_ok_def)
  moreover have "length (concat (map (\<lambda>i. op_bytes (ti_outpoint i)) is)) = length is * 36"
    if "\<And>i. i \<in> set is \<Longrightarrow> op_wf (ti_outpoint i)" for "is"
    using that by (induction "is") (simp_all add: length_op_bytes)
  ultimately have "length (prevouts_bytes b) = length (tb_inputs b) * 36"
    unfolding prevouts_bytes_def by blast
  then have "runWriter (Some (replicate (length (tb_inputs b) * 36) 0))
       (each_io (\<lambda>input. bw_writeRes (op_serialize (ti_outpoint input))) (tb_inputs b))
     = Inr (prevouts_bytes b)"
    using ok unfolding prevouts_bytes_def
    by (intro runWriter_fixed writes_concat) (simp_all add: op_serialize_wf)
  then show ?thesis using assms(2) by (auto simp: cachePrevOuts_def)
qed

lemma cacheSequence_ok:
  assumes "tb_ok b" "tb_hashSequence b \<in> {None, Some (hash256 sha256 (sequences_bytes b))}"
  shows "cacheSequence sha256 b =
     (Inr (), b\<lparr>tb_hashSequence := Some (hash256 sha256 (sequences_bytes b))\<rparr>)"
proof -
  have "length (sequences_bytes b) = length (tb_inputs b) * 4"
    unfolding sequences_bytes_def by (simp add: length_concat o_def sum_list_triv)
  moreover have "\<And>i. i \<in> set (tb_inputs b) \<Longrightarrow> seq_value (ti_sequence i) < 2 ^ 32"
    using assms(1) by (auto simp: tb_ok_def toTx_def tx_ok_def ti_ok_def)
  ultimately have "runWriter (Some (replicate (length (tb_inputs b) * 4) 0))
       (each_io (\<lambda>input. bw_writeRes (seq_serialize (ti_sequence input))) (tb_inputs b))
     = Inr (sequences_bytes b)"
    unfolding sequences_bytes_def
    by (intro runWriter_fixed writes_concat) (simp_all add: seq_serialize_def)
  then show ?thesis using assms(2) by (auto simp: cacheSequence_def)
qed

lemma cacheOutputs_ok:
  assumes "tb_ok b" "tb_hashOutputs b \<in> {None, Some (hash256 sha256 (outputs_bytes b))}"
  shows "cacheOutputs sha256 b =
     (Inr (), b\<lparr>tb_hashOutputs := Some (hash256 sha256 (outputs_bytes b))\<rparr>)"
proof -
  have f: "fits (concat (map to_bytes (tb_outputs b)))"
    using assms(1) by (simp add: tb_ok_def outputs_bytes_def)
  have "\<And>out. out \<in> set (tb_outputs b) \<Longrightarrow> to_serialize out = Inr (to_bytes out)"
    using assms(1) fits_concat [OF f] by (auto simp: tb_ok_def toTx_def tx_ok_def intro: to_serialize_eq)
  then have "runWriter None (each_io (\<lambda>vout. bw_writeRes (to_serialize vout)) (tb_outputs b))
     = Inr (outputs_bytes b)"
    using f unfolding outputs_bytes_def by (intro runWriter_growing writes_concat) simp_all
  then show ?thesis using assms(2) by (auto simp: cacheOutputs_def)
qed

definition filled :: "(buffer \<Rightarrow> buffer) \<Rightarrow> tx_builder \<Rightarrow> tx_builder" where
  "filled sha256 b = b\<lparr>tb_hashPrevOuts := Some (hash256 sha256 (prevouts_bytes b)),
     tb_hashSequence := Some (hash256 sha256 (sequences_bytes b)),
     tb_hashOutputs := Some (hash256 sha256 (outputs_bytes b))\<rparr>"

lemma caches_filled:
  assumes "tb_ok b" "caches_ok sha256 b"
  shows "then_io (cachePrevOuts sha256) (then_io (cacheSequence sha256) (then_io (cacheOutputs sha256) m)) b
     = m (filled sha256 b)"
proof -
  have "tb_ok (b\<lparr>tb_hashPrevOuts := x\<rparr>)" "tb_ok (b\<lparr>tb_hashPrevOuts := x, tb_hashSequence := y\<rparr>)" for x y
    using assms(1) by (simp_all add: tb_ok_def toTx_def outputs_bytes_def)
  with assms show ?thesis
    by (simp add: then_io_apply cachePrevOuts_ok cacheSequence_ok cacheOutputs_ok caches_ok_def filled_def
        sequences_bytes_def outputs_bytes_def)
qed

lemma writes_writeSegwitv0:
  assumes "tb_ok b" "i < length (tb_inputs b)" "arg_serialize script = Inr code" "sats v = int n" "n < 2 ^ 64"
  shows "writes (bw_good False) bw_out bw_room (writeSegwitv0 (int i) script v (filled sha256 b))
     (bip143 sha256 b (tb_inputs b ! i) code n)"
proof -
  have ok: "ti_ok (tb_inputs b ! i)" "tb_version b < 2 ^ 32" "lt_value (tb_locktime b) < 2 ^ 32"
    using assms(1,2) by (auto simp: tb_ok_def toTx_def tx_ok_def)
  have l: "bind_io (lift_io (inputAt (int i) (tb_inputs b))) f = f (tb_inputs b ! i)" for f :: "tx_in \<Rightarrow> (buffer_writer, unit) io"
    using assms(2) by (intro ext) (simp add: inputAt_def io_simps)
  have f: "tb_version (filled sha256 b) = tb_version b" "tb_inputs (filled sha256 b) = tb_inputs b"
    "tb_locktime (filled sha256 b) = tb_locktime b"
    "the (tb_hashPrevOuts (filled sha256 b)) = hash256 sha256 (prevouts_bytes b)"
    "the (tb_hashSequence (filled sha256 b)) = hash256 sha256 (sequences_bytes b)"
    "the (tb_hashOutputs (filled sha256 b)) = hash256 sha256 (outputs_bytes b)"
    by (simp_all add: filled_def)
  show ?thesis
    unfolding writeSegwitv0_def f l bip143_def assms(4)
    using ok assms(3,5)
    by (intro writes_then writes_writeRes writes_writeBytes bw.w32le bw.w64le)
      (auto simp: ti_ok_def op_serialize_wf seq_serialize_def lt_serialize_eq)
qed

lemma hashSegwitv0_eq:
  assumes "tb_ok b" "caches_ok sha256 b" "\<And>x. length (sha256 x) = 32"
    and "i < length (tb_inputs b)" "arg_serialize script = Inr code" "length code \<le> 2 ^ 29"
    and "sats v = int n" "n < 2 ^ 64"
  shows "runWriter None (writeSegwitv0 (int i) script v (filled sha256 b))
      = Inr (bip143 sha256 b (tb_inputs b ! i) code n)"
    and "hashSegwitv0 sha256 (int i) script v b
      = (Inr (hash256 sha256 (bip143 sha256 b (tb_inputs b ! i) code n)), filled sha256 b)"
proof -
  have "length (op_bytes (ti_outpoint (tb_inputs b ! i))) = 36"
    using assms(1,4) by (intro length_op_bytes) (auto simp: tb_ok_def toTx_def tx_ok_def ti_ok_def)
  then have "fits (bip143 sha256 b (tb_inputs b ! i) code n)"
    using assms(3,6) by (simp add: bip143_def hash256_def)
  then show w: "runWriter None (writeSegwitv0 (int i) script v (filled sha256 b))
      = Inr (bip143 sha256 b (tb_inputs b ! i) code n)"
    using assms by (intro runWriter_growing writes_writeSegwitv0)
  show "hashSegwitv0 sha256 (int i) script v b
      = (Inr (hash256 sha256 (bip143 sha256 b (tb_inputs b ! i) code n)), filled sha256 b)"
    unfolding hashSegwitv0_def by (subst caches_filled [OF assms(1,2)]) (simp add: w)
qed

text \<open>
  C27: While the caches are empty or hold the hashes of the present inputs and outputs,
  \<^verbatim>\<open>hashSegwitv0\<close> returns the double SHA-256 of the BIP 143 preimage for the input, leaves
  the transaction unchanged and the caches correct, so that inputs may be signed in any order and
  repeatedly; an output that is added after the first hash is not committed to by later ones.
\<close>

theorem segwit_hash:
  assumes "tb_ok b" "caches_ok sha256 b" "\<And>x. length (sha256 x) = 32"
    and "i < length (tb_inputs b)" "arg_serialize script = Inr code" "length code \<le> 2 ^ 29"
    and "sats v = int n" "n < 2 ^ 64"
  shows "\<exists>b'. hashSegwitv0 sha256 (int i) script v b
       = (Inr (hash256 sha256 (bip143 sha256 b (tb_inputs b ! i) code n)), b')
     \<and> caches_ok sha256 b' \<and> toTx b' = toTx b
     \<and> hashSegwitv0 sha256 (int i) script v (snd (tb_addTxOut out b'))
       = (Inr (hash256 sha256 (bip143 sha256 b (tb_inputs b ! i) code n)), snd (tb_addTxOut out b'))"
proof (intro exI [of _ "filled sha256 b"] conjI)
  note w = hashSegwitv0_eq(1) [OF assms]
  show "hashSegwitv0 sha256 (int i) script v b
      = (Inr (hash256 sha256 (bip143 sha256 b (tb_inputs b ! i) code n)), filled sha256 b)"
    by (rule hashSegwitv0_eq(2) [OF assms])
  show "caches_ok sha256 (filled sha256 b)"
    by (simp add: caches_ok_def filled_def prevouts_bytes_def sequences_bytes_def outputs_bytes_def)
  show "toTx (filled sha256 b) = toTx b" by (simp add: toTx_def filled_def)
  have "writeSegwitv0 (int i) script v (snd (tb_addTxOut out (filled sha256 b)))
      = writeSegwitv0 (int i) script v (filled sha256 b)"
    by (simp add: writeSegwitv0_def tb_addTxOut_def io_simps filled_def)
  then show "hashSegwitv0 sha256 (int i) script v (snd (tb_addTxOut out (filled sha256 b)))
      = (Inr (hash256 sha256 (bip143 sha256 b (tb_inputs b ! i) code n)),
         snd (tb_addTxOut out (filled sha256 b)))"
    using w by (simp add: hashSegwitv0_def then_io_apply cachePrevOuts_def cacheSequence_def
        cacheOutputs_def tb_addTxOut_def io_simps filled_def)
qed

definition sample_builder :: tx_builder where
  "sample_builder = newTxBuilder\<lparr>tb_inputs := tx_inputs sample_tx, tb_outputs := tx_outputs sample_tx\<rparr>"

lemma sample_builder_ok: "tb_ok sample_builder" "caches_ok sha256 sample_builder"
proof -
  show "tb_ok sample_builder"
    using sample_tx_ok
    by (simp add: tb_ok_def toTx_def sample_builder_def newTxBuilder_def tx_ok_def lt_default_def
        outputs_bytes_def) (simp add: sample_tx_def to_bytes_def var_bytes_def length_varint_bytes)
  show "caches_ok sha256 sample_builder"
    by (simp add: caches_ok_def sample_builder_def newTxBuilder_def)
qed

theorem segwit_hash_witness:
  "\<exists>b'. hashSegwitv0 (\<lambda>_. replicate 32 0) (int 0) (Inr (ScriptBuf [0x51])) (fromSats 5) sample_builder
       = (Inr (hash256 (\<lambda>_. replicate 32 0)
            (bip143 (\<lambda>_. replicate 32 0) sample_builder (tb_inputs sample_builder ! 0) [1, 0x51] 5)), b')
     \<and> caches_ok (\<lambda>_. replicate 32 0) b' \<and> toTx b' = toTx sample_builder
     \<and> hashSegwitv0 (\<lambda>_. replicate 32 0) (int 0) (Inr (ScriptBuf [0x51])) (fromSats 5)
         (snd (tb_addTxOut \<lparr>to_value = fromSats 1, to_scriptPubKey = sb_empty\<rparr> b'))
       = (Inr (hash256 (\<lambda>_. replicate 32 0)
            (bip143 (\<lambda>_. replicate 32 0) sample_builder (tb_inputs sample_builder ! 0) [1, 0x51] 5)),
          snd (tb_addTxOut \<lparr>to_value = fromSats 1, to_scriptPubKey = sb_empty\<rparr> b'))"
proof (rule segwit_hash)
  show "tb_ok sample_builder" "caches_ok (\<lambda>_. replicate 32 0) sample_builder"
    by (rule sample_builder_ok)+
  show "length (replicate 32 0) = 32" by (rule length_replicate)
  show "0 < length (tb_inputs sample_builder)" by (simp add: sample_builder_def sample_tx_def)
  show "arg_serialize (Inr (ScriptBuf [0x51])) = Inr [1, 0x51]"
    by (simp add: arg_serialize_def sb_serialize_def encodeVarInt_def)
qed simp_all

section \<open>The legacy signature hash\<close>

text \<open>The transaction that is signed: no script but the committed one at the input that signs.\<close>

definition blanked :: "nat \<Rightarrow> buffer \<Rightarrow> nat \<Rightarrow> tx_in \<Rightarrow> tx_in" where
  "blanked input code i vin =
     vin\<lparr>ti_scriptSig := ScriptBuf (if i = input then code else []), ti_witness := []\<rparr>"

definition signing_tx :: "nat \<Rightarrow> buffer \<Rightarrow> tx_builder \<Rightarrow> tx" where
  "signing_tx input code b = \<lparr>tx_version = tb_version b,
     tx_inputs = map (\<lambda>(i, vin). blanked input code i vin) (enumerate 0 (tb_inputs b)),
     tx_outputs = tb_outputs b, tx_locktime = tb_locktime b\<rparr>"

lemma writes_legacyInputs:
  assumes "\<forall>vin\<in>set vins. ti_ok vin" "asScriptBuf script = Inr (ScriptBuf code)"
    and "fits (concat (map ti_bytes (map (\<lambda>(i, vin). blanked input code i vin) (enumerate i vins))))"
  shows "writes (bw_good f) bw_out bw_room (writeLegacyInputs (int input) script i vins)
     (concat (map ti_bytes (map (\<lambda>(i, vin). blanked input code i vin) (enumerate i vins))))"
  using assms
proof (induction vins arbitrary: i)
  case Nil
  show ?case by (simp add: writes_return)
next
  case (Cons vin vins)
  let ?vin = "blanked input code i vin"
  have n: "newTxIn (ti_outpoint vin) (if int i = int input then script else Inr sb_empty) (ti_sequence vin)
      = Inr ?vin"
    using assms(2) by (simp add: newTxIn_def asScriptBuf_def sb_empty_def blanked_def)
  have "ti_serialize ?vin = Inr (ti_bytes ?vin)"
    using Cons.prems by (intro ti_serialize_eq) (simp_all add: ti_ok_def blanked_def del: length_concat)
  then have "writes (bw_good f) bw_out bw_room (bind_io (lift_io
      (newTxIn (ti_outpoint vin) (if int i = int input then script else Inr sb_empty) (ti_sequence vin)))
      (\<lambda>vin. bw_writeRes (ti_serialize vin))) (ti_bytes ?vin)"
    unfolding n using writes_writeRes by (simp add: writes_def io_simps)
  moreover have "writes (bw_good f) bw_out bw_room (writeLegacyInputs (int input) script (Suc i) vins)
     (concat (map ti_bytes (map (\<lambda>(i, vin). blanked input code i vin) (enumerate (Suc i) vins))))"
    using Cons.prems by (intro Cons.IH) (simp_all del: length_concat)
  ultimately show ?case
    unfolding writeLegacyInputs.simps by (simp add: writes_then)
qed

text \<open>
  C28: \<^verbatim>\<open>hashLegacy\<close> is the double SHA-256 of the legacy serialisation of the transaction
  in which every input but the signing one has an empty script and the signing one the committed
  script, followed by the signature hash type 1; an index outside the inputs commits to no script.
\<close>

theorem legacy_hash:
  assumes "tb_ok b" "asScriptBuf script = Inr (ScriptBuf code)"
    and "length (legacy_bytes (signing_tx i code b)) < 2 ^ 30 - 3"
  shows "hashLegacy sha256 (int i) script b =
    Inr (hash256 sha256 (legacy_bytes (signing_tx i code b) @ le_bytes 4 1))"
proof -
  let ?t = "signing_tx i code b"
  let ?ins = "map (\<lambda>(j, vin). blanked i code j vin) (enumerate 0 (tb_inputs b))"
  have ok: "\<forall>vin\<in>set (tb_inputs b). ti_ok vin" "tb_version b < 2 ^ 32" "lt_value (tb_locktime b) < 2 ^ 32"
    "\<forall>out\<in>set (tb_outputs b). to_ok out" "fits (concat (map to_bytes (tb_outputs b)))"
    using assms(1) by (auto simp: tb_ok_def toTx_def tx_ok_def outputs_bytes_def simp del: length_concat)
  have f: "fits (body_bytes ?t)" using assms(3) by (simp add: legacy_bytes_def)
  have c: "length (tb_inputs b) < 2 ^ 64" "length (tb_outputs b) < 2 ^ 64"
    using counts_fit [OF f] by (simp_all add: signing_tx_def)
  have "fits (concat (map ti_bytes ?ins))"
    using body_fits(1) [OF f] by (simp add: signing_tx_def del: length_concat)
  note ins = writes_legacyInputs [OF ok(1) assms(2) this]
  have "to_serialize out = Inr (to_bytes out)" if "out \<in> set (tb_outputs b)" for out
    using ok(4) that fits_concat [OF ok(5) that] by (intro to_serialize_eq) simp_all
  note outs = writes_concat [of "tb_outputs b" to_serialize to_bytes False, OF this]
  have "writes (bw_good False) bw_out bw_room
       (writeLegacyPreimage (int i) script b)
     (le_bytes 4 (tb_version b) @ varint_bytes (length (tb_inputs b)) @ concat (map ti_bytes ?ins)
      @ varint_bytes (length (tb_outputs b)) @ concat (map to_bytes (tb_outputs b))
      @ le_bytes 4 (lt_value (tb_locktime b)) @ le_bytes 4 1)"
    unfolding writeLegacyPreimage_def using ok c
    by (intro writes_then [OF bw.w32le] writes_then [OF writes_writeVarInt] writes_then [OF ins]
        writes_then [OF outs] writes_then [OF writes_writeRes [OF lt_serialize_eq]] bw.w32le) simp_all
  moreover have "le_bytes 4 (tb_version b) @ varint_bytes (length (tb_inputs b)) @ concat (map ti_bytes ?ins)
      @ varint_bytes (length (tb_outputs b)) @ concat (map to_bytes (tb_outputs b))
      @ le_bytes 4 (lt_value (tb_locktime b)) @ le_bytes 4 1 = legacy_bytes ?t @ le_bytes 4 1"
    by (simp only: legacy_bytes_def body_bytes_def signing_tx_def tx.simps length_map length_enumerate
        append_assoc)
  ultimately have "writes (bw_good False) bw_out bw_room
       (writeLegacyPreimage (int i) script b) (legacy_bytes ?t @ le_bytes 4 1)"
    by (simp only:)
  from runWriter_growing [OF this] show ?thesis
    using assms(3) by (simp add: hashLegacy_def del: le_bytes.simps)
qed

theorem legacy_hash_witness:
  "hashLegacy rev (int 0) (Inr (ScriptBuf [0x51])) sample_builder =
    Inr (hash256 rev (legacy_bytes (signing_tx 0 [0x51] sample_builder) @ le_bytes 4 1))"
proof (rule legacy_hash [OF sample_builder_ok(1)])
  have "op_wf op_coinbase" by (simp add: op_wf_def hv_wf_def op_coinbase_def)
  then have "length (op_bytes op_coinbase) = 36" by (rule length_op_bytes)
  then show "length (legacy_bytes (signing_tx 0 [0x51] sample_builder)) < 2 ^ 30 - 3"
    by (simp add: legacy_bytes_def body_bytes_def signing_tx_def sample_builder_def sample_tx_def
        newTxBuilder_def ti_bytes_def to_bytes_def var_bytes_def length_varint_bytes blanked_def)
qed (simp add: asScriptBuf_def)

end
