(* ===== verification/Block.thy ===== *)
theory Block
  imports Tx
begin

text \<open>
  \<^verbatim>\<open>packages/bitcoin/lib/BlockHeader.ts\<close> and \<^verbatim>\<open>Block.ts\<close>.  A block is its
  header extended with the transactions and the height that \<^verbatim>\<open>bip34Height\<close> has decoded.
\<close>

section \<open>The header\<close>

record block_header =
  bh_version :: nat
  bh_previousBlockHash :: hash_value
  bh_merkleRoot :: hash_value
  bh_timestamp :: nat
  bh_bits :: bits
  bh_nonce :: nat

definition bh_read :: "(buffer_reader, block_header) io" where
  "bh_read = bind_io br_readUInt32LE (\<lambda>version. bind_io (br_readBytes (Some 32)) (\<lambda>prev.
     bind_io (br_readBytes (Some 32)) (\<lambda>root. bind_io br_readUInt32LE (\<lambda>timestamp.
     bind_io (bind_io (br_readBytes (Some 4)) (\<lambda>b. lift_io (bits_fromBuffer b))) (\<lambda>bits.
     bind_io br_readUInt32LE (\<lambda>nonce.
       return_io \<lparr>bh_version = version, bh_previousBlockHash = HashValue prev,
                  bh_merkleRoot = HashValue root, bh_timestamp = timestamp, bh_bits = bits,
                  bh_nonce = nonce\<rparr>))))))"

definition bh_fromBuffer :: "buffer \<Rightarrow> block_header res" where
  "bh_fromBuffer buf = fst (bh_read (newBufferReader buf))"

definition bh_toBuffer :: "block_header \<Rightarrow> buffer res" where
  "bh_toBuffer h = runWriter (Some (replicate (4 + 32 + 32 + 4 + 4 + 4) 0))
     (then_io (bw_writeUInt32LE (bh_version h))
     (then_io (bw_writeBytes (hv_serialize Internal (bh_previousBlockHash h)))
     (then_io (bw_writeBytes (hv_serialize Internal (bh_merkleRoot h)))
     (then_io (bw_writeUInt32LE (bh_timestamp h))
     (then_io (bw_writeRes (bits_toBuffer (bh_bits h)))
              (bw_writeUInt32LE (bh_nonce h)))))))"

definition bh_hash :: "(buffer \<Rightarrow> buffer) \<Rightarrow> block_header \<Rightarrow> hash_value res" where
  "bh_hash sha256 h = bind_res (bh_toBuffer h) (\<lambda>b. Inr (HashValue (hash256 sha256 b)))"

text \<open>JavaScript's \<^verbatim>\<open>>>\<close> takes its shift count modulo 32.\<close>

definition bh_isBip9 :: "block_header \<Rightarrow> bool" where
  "bh_isBip9 h \<longleftrightarrow> signed_drop_bit 29 (of_nat (bh_version h) :: 32 word) = 1"

definition bh_isBip9Feature :: "block_header \<Rightarrow> nat \<Rightarrow> bool" where
  "bh_isBip9Feature h n \<longleftrightarrow> bh_isBip9 h
     \<and> signed_drop_bit (n mod 32) (of_nat (bh_version h) :: 32 word) AND 1 = 1"

section \<open>The block\<close>

record block = block_header +
  bl_txs :: "tx list"
  bl_bip34Height :: "nat option"

definition bl_fromBuffer :: "buffer \<Rightarrow> block res" where
  "bl_fromBuffer buf = fst
     (bind_io (bind_io (br_readBytes (Some 80)) (\<lambda>b. lift_io (bh_fromBuffer b))) (\<lambda>header.
      bind_io br_readVarUint (\<lambda>numTxs.
      bind_io (br_readBytes None) (\<lambda>txBytes.
      bind_io (lift_io (fst (repeat_io numTxs (tx_parse True) txBytes))) (\<lambda>txs.
        return_io (block_header.extend header \<lparr>bl_txs = txs, bl_bip34Height = None\<rparr>)))))
     (newBufferReader buf))"

definition bl_toBuffer :: "block \<Rightarrow> buffer res" where
  "bl_toBuffer b = runWriter None
     (then_io (bw_writeRes (bh_toBuffer (block_header.truncate b)))
     (then_io (bw_writeVarInt (length (bl_txs b)))
              (each_io (\<lambda>tx. bw_writeRes (tx_serialize tx)) (bl_txs b))))"

text \<open>
  The cached height is used only when it is truthy, not zero.  The generator yields its first command
  before anything later in the script can throw; a height that is an op code is no buffer.
\<close>

definition bl_bip34 :: "(block, nat option) io" where
  "bl_bip34 = (\<lambda>b.
     if bh_version b < 2 then (Inr None, b)
     else case bl_bip34Height b of
       Some (Suc n) \<Rightarrow> (Inr (Some (Suc n)), b)
     | _ \<Rightarrow>
       (case bl_txs b of
          [] \<Rightarrow> (Inl TypeError, b)
        | coinbase # _ \<Rightarrow>
            (case tx_inputs coinbase of
               [] \<Rightarrow> (Inl TypeError, b)
             | vin # _ \<Rightarrow>
                 (case readCmds (sb_buffer (ti_scriptSig vin)) of
                    (Data d # _, _) \<Rightarrow>
                      (case bigFromBufLE d of
                         Inl e \<Rightarrow> (Inl e, b)
                       | Inr n \<Rightarrow> (Inr (Some n), b\<lparr>bl_bip34Height := Some n\<rparr>))
                  | (Op _ # _, _) \<Rightarrow> (Inl TypeError, b)
                  | ([], Some e) \<Rightarrow> (Inl e, b)
                  | ([], None) \<Rightarrow> (Inr None, b)))))"

section \<open>Round trips\<close>

definition bh_ok :: "'a block_header_scheme \<Rightarrow> bool" where
  "bh_ok h \<longleftrightarrow> bh_version h < 2 ^ 32 \<and> hv_wf (bh_previousBlockHash h) \<and> hv_wf (bh_merkleRoot h)
     \<and> bh_timestamp h < 2 ^ 32 \<and> bh_nonce h < 2 ^ 32
     \<and> (\<exists>c e. bh_bits h = \<lparr>coefficient = Some c, exponent = e\<rparr> \<and> c < 2 ^ 24 \<and> e < 256)"

definition bh_bytes :: "'a block_header_scheme \<Rightarrow> buffer" where
  "bh_bytes h = le_bytes 4 (bh_version h) @ hv_value (bh_previousBlockHash h)
     @ hv_value (bh_merkleRoot h) @ le_bytes 4 (bh_timestamp h)
     @ bits_bytes (bh_bits h) @ le_bytes 4 (bh_nonce h)"

lemma length_bh_bytes: "bh_ok h \<Longrightarrow> length (bh_bytes h) = 80"
  by (auto simp: bh_ok_def bh_bytes_def hv_wf_def bits_bytes_def)

lemma bh_toBuffer_eq:
  assumes "bh_ok h"
  shows "bh_toBuffer h = Inr (bh_bytes h)"
proof -
  obtain c e where c: "bh_bits h = \<lparr>coefficient = Some c, exponent = e\<rparr>" "c < 2 ^ 24" "e < 256"
    using assms by (auto simp: bh_ok_def)
  have "length (bh_bytes h) = 4 + 32 + 32 + 4 + 4 + 4" using length_bh_bytes [OF assms] by simp
  then show ?thesis
    unfolding bh_toBuffer_def bh_bytes_def using assms bits_toBuffer_eq [OF c(2,3)] c(1)
    by (intro runWriter_fixed writes_then bw.w32le writes_writeRes writes_writeBytes)
      (auto simp: bh_ok_def hv_serialize_def intro: writes_writeBytes)
qed

lemma reads_bh:
  assumes "bh_ok (h :: block_header)"
  shows "reads br_good br_content bh_read (bh_bytes h) h"
proof -
  obtain c e where c: "bh_bits h = \<lparr>coefficient = Some c, exponent = e\<rparr>" "c < 2 ^ 24" "e < 256"
    using assms by (auto simp: bh_ok_def)
  have bits: "reads br_good br_content (bind_io (br_readBytes (Some 4)) (\<lambda>b. lift_io (bits_fromBuffer b)))
      (bits_bytes (bh_bits h)) (bh_bits h)"
  proof (rule reads_bind_last)
    show "reads br_good br_content (br_readBytes (Some 4)) (bits_bytes (bh_bits h)) (bits_bytes (bh_bits h))"
      using br.bytes [of "bits_bytes (bh_bits h)"] by (simp add: bits_bytes_def)
    show "lift_io (bits_fromBuffer (bits_bytes (bh_bits h))) r = (Inr (bh_bits h), r)" for r :: buffer_reader
      using bits_fromBuffer_eq [OF c(2,3), of "[]"] by (simp add: c(1) lift_io_apply)
  qed
  have hash: "reads br_good br_content (br_readBytes (Some 32)) (hv_value v) (hv_value v)" if "hv_wf v" for v
    using br.bytes [of "hv_value v"] that by (simp add: hv_wf_def)
  have ok: "hv_wf (bh_previousBlockHash h)" "hv_wf (bh_merkleRoot h)" "bh_version h < 256 ^ 4"
    "bh_timestamp h < 256 ^ 4" "bh_nonce h < 256 ^ 4"
    using assms by (simp_all add: bh_ok_def)
  show ?thesis unfolding bh_read_def bh_bytes_def
    by (intro reads_bind [OF br.u32le [OF ok(3)]] reads_bind [OF hash [OF ok(1)]]
        reads_bind [OF hash [OF ok(2)]] reads_bind [OF br.u32le [OF ok(4)]] reads_bind [OF bits]
        reads_bind_last [OF br.u32le [OF ok(5)]]) (simp_all add: return_io_apply)
qed

lemma bh_fromBuffer_eq: "bh_ok h \<Longrightarrow> bh_fromBuffer (bh_bytes h @ rest) = Inr h"
  using readsE [OF reads_bh br_good_new br_content_new] unfolding bh_fromBuffer_def by (metis fst_conv)

lemma br_readBytes_all:
  assumes "br_good r" "br_content r = bs"
  shows "fst (br_readBytes None r) = Inr bs"
  using assms by (auto simp: br_readBytes_def br_good_def br_content_def Let_def)

definition bl_ok :: "block \<Rightarrow> bool" where
  "bl_ok b \<longleftrightarrow> bh_ok b \<and> bl_bip34Height b = None
     \<and> (\<forall>t\<in>set (bl_txs b). tx_ok t \<and> tx_inputs t \<noteq> [])"

definition bl_bytes :: "block \<Rightarrow> buffer" where
  "bl_bytes b = bh_bytes b @ varint_bytes (length (bl_txs b)) @ concat (map tx_bytes (bl_txs b))"

lemma tx_bytes_not_Nil: "1 \<le> length (tx_bytes t)"
  by (simp add: tx_bytes_def segwit_bytes_def legacy_bytes_def)

lemma bl_txs_count: "fits (bl_bytes b) \<Longrightarrow> length (bl_txs b) < 2 ^ 64"
  using length_concat_pos [of "bl_txs b" tx_bytes] tx_bytes_not_Nil
  by (simp add: bl_bytes_def del: length_concat)

lemma bl_toBuffer_eq:
  assumes "bl_ok b" "fits (bl_bytes b)"
  shows "bl_toBuffer b = Inr (bl_bytes b)"
proof -
  have f: "fits (concat (map tx_bytes (bl_txs b)))"
    using assms(2) by (simp add: bl_bytes_def del: length_concat)
  have "bh_toBuffer (block_header.truncate b) = Inr (bh_bytes b)"
    using bh_toBuffer_eq [of "block_header.truncate b"] assms(1)
    by (simp add: bl_ok_def bh_ok_def bh_bytes_def block_header.defs)
  moreover have "tx_serialize t = Inr (tx_bytes t)" if "t \<in> set (bl_txs b)" for t
    using assms(1) that fits_concat [OF f that] by (intro tx_serialize_eq) (simp_all add: bl_ok_def)
  ultimately show ?thesis unfolding bl_toBuffer_def using assms(2) bl_txs_count [OF assms(2)]
    unfolding bl_bytes_def
    by (intro runWriter_growing writes_then writes_each writes_writeRes writes_writeVarInt) simp_all
qed

lemma sreads_tx:
  assumes "tx_ok t" "tx_inputs t \<noteq> []" "fits (tx_bytes t)"
  shows "sreads (tx_parse True) (tx_bytes t) t"
  using assms sreads_tx_segwit [of t] sreads_tx_legacy [of t True]
  by (cases "isSegWit t") (simp_all add: tx_bytes_def)

lemma bl_fromBuffer_eq:
  assumes "bl_ok b" "fits (bl_bytes b)"
  shows "bl_fromBuffer (bl_bytes b) = Inr b"
proof -
  define h where "h = block_header.truncate b"
  have h: "bh_ok h" "bh_bytes b = bh_bytes h" "b = block_header.extend h \<lparr>bl_txs = bl_txs b, bl_bip34Height = None\<rparr>"
    using assms(1) by (simp_all add: h_def bl_ok_def bh_ok_def bh_bytes_def block_header.defs)
  have f: "fits (concat (map tx_bytes (bl_txs b)))"
    using assms(2) by (simp add: bl_bytes_def del: length_concat)
  have "sreads (repeat_io (length (bl_txs b)) (tx_parse True)) (concat (map tx_bytes (bl_txs b))) (bl_txs b)"
    using assms(1) fits_concat [OF f] by (intro sreads_repeat sreads_tx) (auto simp: bl_ok_def)
  then have txs: "fst (repeat_io (length (bl_txs b)) (tx_parse True) (concat (map tx_bytes (bl_txs b))))
      = Inr (bl_txs b)"
    unfolding sreads_def by (metis append_Nil2 fst_conv)
  have hd: "reads br_good br_content (bind_io (br_readBytes (Some 80)) (\<lambda>b. lift_io (bh_fromBuffer b)))
      (bh_bytes h) h"
    using reads_bind_last [OF br.bytes [of "bh_bytes h"], of "\<lambda>b. lift_io (bh_fromBuffer b)" h]
      length_bh_bytes [OF h(1)] bh_fromBuffer_eq [OF h(1), of "[]"] by (simp add: lift_io_apply)
  have content: "br_content (newBufferReader (bl_bytes b)) =
      bh_bytes h @ varint_bytes (length (bl_txs b)) @ concat (map tx_bytes (bl_txs b))"
    by (simp add: bl_bytes_def h(2))
  obtain r1 where r1: "bind_io (br_readBytes (Some 80)) (\<lambda>b. lift_io (bh_fromBuffer b))
      (newBufferReader (bl_bytes b)) = (Inr h, r1)" "br_good r1"
      "br_content r1 = varint_bytes (length (bl_txs b)) @ concat (map tx_bytes (bl_txs b))"
    using readsE [OF hd br_good_new content] by blast
  obtain r2 where r2: "br_readVarUint r1 = (Inr (length (bl_txs b)), r2)" "br_good r2"
      "br_content r2 = concat (map tx_bytes (bl_txs b))"
    using readsE [OF reads_readVarUint [OF bl_txs_count [OF assms(2)]] r1(2,3)] by blast
  obtain r3 where "br_readBytes None r2 = (Inr (concat (map tx_bytes (bl_txs b))), r3)"
    using br_readBytes_all [OF r2(2,3)] by (cases "br_readBytes None r2") simp
  then show ?thesis using r1(1) r2(1) txs h(3)
    by (simp add: bl_fromBuffer_def bind_io_apply lift_io_apply return_io_apply)
qed

text \<open>
  A block header with fields in range is written to exactly 80 bytes that read back to it, whatever
  follows them, and a block whose transactions are in range and have inputs survives
  \<^verbatim>\<open>toBuffer\<close> and \<^verbatim>\<open>fromBuffer\<close>.
\<close>

theorem block_roundtrip:
  assumes "bl_ok b" "fits (bl_bytes b)"
  shows "(\<exists>hs. bh_toBuffer (block_header.truncate b) = Inr hs \<and> length hs = 80
      \<and> bh_fromBuffer (hs @ rest) = Inr (block_header.truncate b))
    \<and> (\<exists>bs. bl_toBuffer b = Inr bs \<and> bl_fromBuffer bs = Inr b)"
proof
  have "bh_ok (block_header.truncate b)"
    using assms(1) by (simp add: bl_ok_def bh_ok_def block_header.defs)
  then show "\<exists>hs. bh_toBuffer (block_header.truncate b) = Inr hs \<and> length hs = 80
      \<and> bh_fromBuffer (hs @ rest) = Inr (block_header.truncate b)"
    by (simp add: bh_toBuffer_eq length_bh_bytes bh_fromBuffer_eq)
  show "\<exists>bs. bl_toBuffer b = Inr bs \<and> bl_fromBuffer bs = Inr b"
    using bl_toBuffer_eq [OF assms] bl_fromBuffer_eq [OF assms] by blast
qed

definition sample_block :: block where
  "sample_block = \<lparr>bh_version = 2, bh_previousBlockHash = HashValue (replicate 32 1),
     bh_merkleRoot = HashValue (replicate 32 2), bh_timestamp = 5,
     bh_bits = \<lparr>coefficient = Some 0xffff, exponent = 29\<rparr>, bh_nonce = 7,
     bl_txs = [sample_tx], bl_bip34Height = None\<rparr>"

theorem block_roundtrip_witness:
  "(\<exists>hs. bh_toBuffer (block_header.truncate sample_block) = Inr hs \<and> length hs = 80
      \<and> bh_fromBuffer (hs @ [3]) = Inr (block_header.truncate sample_block))
    \<and> (\<exists>bs. bl_toBuffer sample_block = Inr bs \<and> bl_fromBuffer bs = Inr sample_block)"
proof (rule block_roundtrip)
  show ok: "bl_ok sample_block"
    using sample_tx_ok by (simp add: bl_ok_def bh_ok_def sample_block_def hv_wf_def)
  have "isSegWit sample_tx" by (simp add: isSegWit_def sample_tx_def)
  moreover have "length (op_bytes op_coinbase) = 36"
    by (rule length_op_bytes) (simp add: op_wf_def hv_wf_def op_coinbase_def)
  moreover have "length (bh_bytes sample_block) = 80"
    using ok by (intro length_bh_bytes) (simp add: bl_ok_def)
  ultimately show "fits (bl_bytes sample_block)"
    by (simp add: bl_bytes_def) (simp add: sample_block_def tx_bytes_def segwit_bytes_def body_bytes_def
        sample_tx_def ti_bytes_def to_bytes_def witness_bytes_def wit_bytes_def var_bytes_def
        length_varint_bytes)
qed

section \<open>The height in the coinbase\<close>

text \<open>
  In a block of version 2 or later whose coinbase script starts with the script number \<open>n\<close>, as
  BIP 34 demands, \<^verbatim>\<open>bip34Height\<close> returns and caches \<open>n\<close> when \<open>n\<close> is above
  16; from 1 to 16, where the script number is an op code and not a push, it throws.
\<close>

theorem bip34_height:
  assumes "2 \<le> bh_version b" "bl_bip34Height b = None" "bl_txs b = t # ts" "tx_inputs t = vin # vins"
    and "serializeCmd (scriptNumber n) = Inr bs" "sb_buffer (ti_scriptSig vin) = bs @ rest"
    and "1 \<le> n" "n < 2 ^ 31"
  shows "bl_bip34 b = (if 16 < n then (Inr (Some (nat n)), b\<lparr>bl_bip34Height := Some (nat n)\<rparr>)
     else (Inl TypeError, b))"
proof -
  have l: "length (encodeNum n) \<le> Suc 3" "encodeNum n \<noteq> []"
    using encodeNum_length [of n 3] assms(7,8) by simp_all
  then have ok: "cmd_ok (scriptNumber n)"
    using assms(7) by (cases "encodeNum n") (auto simp: scriptNumber_def cmd_ok_def op_codes)
  have "bs = cmd_bytes (scriptNumber n)"
    using assms(5) by (simp add: cmd_bytes_def)
  then obtain cmds e where r: "readCmds (bs @ rest) = (scriptNumber n # cmds, e)"
    using readCmds_first [OF ok] by blast
  show ?thesis
  proof (cases "16 < n")
    case True
    then have "scriptNumber n = Data (encodeNum n)" by (simp add: scriptNumber_def)
    moreover have "bigFromBufLE (encodeNum n) = Inr (nat n)"
      using bigFromBufLE_eq [of "encodeNum n"] l(2) le_val_encodeNum [of n] assms(7) by simp
    ultimately show ?thesis using True assms(1-4,6) r by (simp add: bl_bip34_def)
  next
    case False
    then have "scriptNumber n = Op (nat (0x50 + n))" using assms(7) by (simp add: scriptNumber_def)
    then show ?thesis using False assms(1-4,6) r by (simp add: bl_bip34_def)
  qed
qed

definition sample_block_at :: "buffer \<Rightarrow> block" where
  "sample_block_at script = sample_block\<lparr>bl_txs := [sample_tx\<lparr>tx_inputs :=
     [(hd (tx_inputs sample_tx))\<lparr>ti_scriptSig := ScriptBuf script\<rparr>]\<rparr>]\<rparr>"

theorem bip34_height_witness:
  "bl_bip34 (sample_block_at [1, 17, 9]) =
     (if 16 < (17 :: int)
      then (Inr (Some (nat 17)), (sample_block_at [1, 17, 9])\<lparr>bl_bip34Height := Some (nat 17)\<rparr>)
      else (Inl TypeError, sample_block_at [1, 17, 9]))"
  by (rule bip34_height [where bs = "[1, 17]" and rest = "[9]" and ts = "[]" and vins = "[]"
        and t = "hd (bl_txs (sample_block_at [1, 17, 9]))"
        and vin = "hd (tx_inputs (hd (bl_txs (sample_block_at [1, 17, 9]))))"])
    (simp_all add: sample_block_at_def sample_block_def serializeCmd_def scriptNumber_def encodeNum_def
      encodeAbs.simps)

end
