(* ===== verification/Base58.thy ===== *)
theory Base58
  imports Script
begin

text \<open>
  \<^verbatim>\<open>packages/bitcoin/lib\<close>: \<^verbatim>\<open>Base58.ts\<close>, \<^verbatim>\<open>Base58Check.ts\<close>,
  \<^verbatim>\<open>Network.ts\<close> and \<^verbatim>\<open>Wif.ts\<close>.  SHA-256 is a parameter.
\<close>

section \<open>Base58\<close>

definition base58_alphabet :: string where
  "base58_alphabet = ''123456789ABCDEFGHJKLMNPQRSTUVWXYZabcdefghijkmnopqrstuvwxyz''"

definition bigint_divmod :: "nat \<Rightarrow> nat \<Rightarrow> nat \<times> nat" where
  "bigint_divmod num m = (num div m, num mod m)"

text \<open>The loop puts each new digit in front of the result.\<close>

function base58_digits :: "nat \<Rightarrow> string \<Rightarrow> string" where
  "base58_digits num result =
     (if num > 0
      then base58_digits (fst (bigint_divmod num 58)) (base58_alphabet ! snd (bigint_divmod num 58) # result)
      else result)"
  by pat_completeness auto
termination
  by (relation "measure fst") (auto simp: bigint_divmod_def)

declare base58_digits.simps [simp del]

definition base58_encode :: "buffer \<Rightarrow> string res" where
  "base58_encode buf =
     (let prefix = map (\<lambda>_. CHR ''1'') (takeWhile (\<lambda>b. b = 0) buf)
      in bind_res (bigFromBufBE buf) (\<lambda>num. Inr (prefix @ base58_digits num [])))"

text \<open>\<^verbatim>\<open>indexOf\<close> is \<open>-1\<close> for a character that is not in the alphabet.\<close>

definition indexOf :: "string \<Rightarrow> char \<Rightarrow> int" where
  "indexOf s c = (case find (\<lambda>i. s ! i = c) [0..<length s] of Some i \<Rightarrow> int i | None \<Rightarrow> - 1)"

text \<open>
  The number may become negative on characters outside the alphabet; \<^verbatim>\<open>toString(16)\<close>
  of a negative bigint starts with a minus sign, at which \<^verbatim>\<open>Buffer.from\<close> stops: the buffer
  is empty unless the sign is pushed to the second place of a pair, where it stops as well.
\<close>

definition base58_decode :: "string \<Rightarrow> buffer" where
  "base58_decode input =
     (let prefix = length (takeWhile (\<lambda>c. c = CHR ''1'') input);
          num = foldl (\<lambda>num c. num * 58 + indexOf base58_alphabet c) 0 input
      in replicate prefix 0 @ (if num < 0 then [] else bigToBufBE (nat num) None))"

section \<open>Base58Check\<close>

text \<open>\<^verbatim>\<open>Buffer.slice\<close>: a negative index counts from the end.\<close>

definition sliceIndex :: "int \<Rightarrow> nat \<Rightarrow> nat" where
  "sliceIndex i len = (if i < 0 then nat (max 0 (int len + i)) else min len (nat i))"

definition slice :: "int \<Rightarrow> int \<Rightarrow> 'a list \<Rightarrow> 'a list" where
  "slice i j xs = take (sliceIndex j (length xs) - sliceIndex i (length xs)) (drop (sliceIndex i (length xs)) xs)"

definition base58check_encode :: "(buffer \<Rightarrow> buffer) \<Rightarrow> buffer \<Rightarrow> string res" where
  "base58check_encode sha256 buf = base58_encode (buf @ slice 0 4 (hash256 sha256 buf))"

definition base58check_decode :: "(buffer \<Rightarrow> buffer) \<Rightarrow> string \<Rightarrow> buffer res" where
  "base58check_decode sha256 input =
     (let total = base58_decode input;
          data = slice 0 (int (length total) - 4) total;
          checksum = slice (int (length total) - 4) (int (length total)) total;
          hash = slice 0 4 (hash256 sha256 data)
      in if hash \<noteq> checksum then Inl (BitcoinError ''Base58ChecksumFailed'') else Inr data)"

section \<open>Correctness of Base58\<close>

lemma distinct_alphabet: "distinct base58_alphabet"
  by (simp add: base58_alphabet_def)

lemma length_alphabet [simp]: "length base58_alphabet = 58"
  by (simp add: base58_alphabet_def)

lemma indexOf_nth:
  assumes "distinct s" "i < length s"
  shows "indexOf s (s ! i) = int i"
proof -
  have "find (\<lambda>j. s ! j = s ! i) [0..<length s] = Some i"
    using assms by (auto simp: find_Some_iff nth_eq_iff_index_eq intro!: exI [of _ i])
  then show ?thesis by (simp add: indexOf_def)
qed

lemma indexOf_alphabet [simp]: "i < 58 \<Longrightarrow> indexOf base58_alphabet (base58_alphabet ! i) = int i"
  by (rule indexOf_nth [OF distinct_alphabet]) simp

definition base58_val :: "string \<Rightarrow> int" where
  "base58_val s = foldl (\<lambda>num c. num * 58 + indexOf base58_alphabet c) 0 s"

lemma base58_val_foldl:
  "foldl (\<lambda>num c. num * 58 + indexOf base58_alphabet c) a s = a * 58 ^ length s + base58_val s"
proof (induction s arbitrary: a)
  case (Cons c s)
  have "foldl (\<lambda>num c. num * 58 + indexOf base58_alphabet c) 0 (c # s)
      = indexOf base58_alphabet c * 58 ^ length s + base58_val s"
    using Cons [of "indexOf base58_alphabet c"] by simp
  then show ?case using Cons [of "a * 58 + indexOf base58_alphabet c"]
    by (simp add: base58_val_def algebra_simps)
qed (simp add: base58_val_def)

lemma base58_digits_step:
  "0 < n \<Longrightarrow> base58_digits n r = base58_digits (n div 58) (base58_alphabet ! (n mod 58) # r)"
  by (subst base58_digits.simps) (simp add: bigint_divmod_def)

lemma base58_digits_0 [simp]: "base58_digits 0 r = r"
  by (simp add: base58_digits.simps)

lemma base58_digits_append: "base58_digits n r = base58_digits n [] @ r"
proof (induction n arbitrary: r rule: less_induct)
  case (less n)
  show ?case
  proof (cases "n = 0")
    case False
    let ?c = "base58_alphabet ! (n mod 58)"
    have "base58_digits (n div 58) (?c # s) = base58_digits (n div 58) [] @ ?c # s" for s
      using less [of "n div 58" "?c # s"] False by simp
    then show ?thesis using False by (simp add: base58_digits_step)
  qed simp
qed

lemma base58_digits_snoc:
  "0 < n \<Longrightarrow> base58_digits n [] = base58_digits (n div 58) [] @ [base58_alphabet ! (n mod 58)]"
  by (simp add: base58_digits_step) (rule base58_digits_append)

lemma base58_val_digits: "base58_val (base58_digits n []) = int n"
proof (induction n rule: less_induct)
  case (less n)
  show ?case
  proof (cases "n = 0")
    case False
    then have "base58_val (base58_digits n []) = int (n div 58) * 58 + int (n mod 58)"
      using less [of "n div 58"] by (simp add: base58_digits_snoc base58_val_def)
    also have "\<dots> = int (n div 58 * 58 + n mod 58)" by (simp only: of_nat_add of_nat_mult of_nat_numeral)
    finally show ?thesis by (simp only: div_mult_mod_eq)
  qed (simp add: base58_val_def)
qed

text \<open>The first digit of a positive number is not the digit zero.\<close>

lemma base58_digits_hd: "0 < n \<Longrightarrow> base58_digits n [] \<noteq> [] \<and> hd (base58_digits n []) \<noteq> CHR ''1''"
proof (induction n rule: less_induct)
  case (less n)
  show ?case
  proof (cases "n < 58")
    case True
    have "base58_alphabet ! n \<noteq> base58_alphabet ! 0"
      using less.prems True distinct_alphabet by (subst nth_eq_iff_index_eq) auto
    then show ?thesis using True less.prems
      by (simp add: base58_digits_snoc) (simp add: base58_alphabet_def)
  next
    case False
    then have "base58_digits (n div 58) [] \<noteq> [] \<and> hd (base58_digits (n div 58) []) \<noteq> CHR ''1''"
      using less.IH [of "n div 58"] less.prems by (simp add: div_greater_zero_iff)
    moreover have "base58_digits n [] = base58_digits (n div 58) [] @ [base58_alphabet ! (n mod 58)]"
      using less.prems by (rule base58_digits_snoc)
    ultimately show ?thesis by simp
  qed
qed

lemma base58_val_ones: "base58_val (replicate k CHR ''1'' @ s) = base58_val s"
proof (induction k)
  case (Suc k)
  have "indexOf base58_alphabet CHR ''1'' = 0"
    using indexOf_alphabet [of 0] by (simp add: base58_alphabet_def)
  then show ?case using Suc by (simp add: base58_val_def)
qed simp

lemma bigToBufBE_bytes:
  assumes "bs \<noteq> []" "hd bs \<noteq> 0"
  shows "bigToBufBE (be_val bs) None = bs"
proof -
  obtain b cs where bs: "bs = b # cs" "b \<noteq> 0" using assms by (cases bs) auto
  have "0 < unat b" using bs(2) by (simp add: unat_gt_0)
  then have "1 * 256 ^ length cs \<le> unat b * 256 ^ length cs" by (intro mult_le_mono1) simp
  then have "256 ^ length cs \<le> be_val bs" unfolding bs(1) be_val_Cons by linarith
  moreover have "be_val bs < 256 ^ Suc (length cs)" using be_val_less [of bs] by (simp add: bs(1))
  ultimately have "calcBytes (be_val bs) = length bs"
    using calcBytes_le [of "be_val bs" "length cs"] calcBytes_le [of "be_val bs" "Suc (length cs)"]
    by (simp add: bs(1))
  then show ?thesis using be_bytes_be_val [of bs] by (simp add: bigToBufBE_None bs(1))
qed

lemma be_val_zeros: "be_val (replicate k 0 @ bs) = be_val bs"
  by (induction k) (simp_all add: be_val_Cons)

lemma zeros_split: "bs = replicate (length (takeWhile (\<lambda>b. b = 0) bs)) 0 @ dropWhile (\<lambda>b. b = 0) bs"
  by (induction bs) auto

lemma base58_roundtrip_lemma:
  "bind_res (base58_encode buf) (\<lambda>s. Inr (base58_decode s)) =
     (if buf = [] then Inl SyntaxError
      else if \<forall>b\<in>set buf. b = 0 then Inr (0 # buf)
      else Inr buf)"
proof -
  let ?k = "length (takeWhile (\<lambda>b. b = 0) buf)" and ?rest = "dropWhile (\<lambda>b. b = 0) buf"
  have buf: "buf = replicate ?k 0 @ ?rest" by (rule zeros_split)
  have val: "be_val buf = be_val ?rest" by (subst buf) (rule be_val_zeros)
  let ?s = "replicate ?k CHR ''1'' @ base58_digits (be_val buf) []"
  have enc: "base58_encode buf = (if buf = [] then Inl SyntaxError else Inr ?s)"
    by (simp add: base58_encode_def bigFromBufBE_eq map_replicate_const)
  have num: "base58_val ?s = int (be_val buf)"
    by (simp add: base58_val_ones base58_val_digits)
  have dec: "base58_decode ?s =
      replicate (length (takeWhile (\<lambda>c. c = CHR ''1'') ?s)) 0 @ bigToBufBE (be_val buf) None"
    using num unfolding base58_decode_def base58_val_def Let_def by simp
  show ?thesis
  proof (cases "?rest = []")
    case True
    then have z: "\<forall>b\<in>set buf. b = 0" "be_val buf = 0" "buf = replicate ?k 0"
    proof -
      show "\<forall>b\<in>set buf. b = 0" using True by (simp add: dropWhile_eq_Nil_conv)
      show "be_val buf = 0" using val by (simp only: True be_val_Nil)
      show "buf = replicate ?k 0" using buf by (simp only: True append_Nil2)
    qed
    have "bigToBufBE 0 None = [0]"
      by (simp add: bigToBufBE_None calcBytes.simps) (simp add: be_bytes_def)
    then have "base58_decode ?s = replicate ?k 0 @ [0]" using dec z(2) by simp
    also have "\<dots> = 0 # buf" by (subst (2) z(3)) (simp add: replicate_append_same)
    finally show ?thesis using enc z(1) by simp
  next
    case False
    then have hd: "hd ?rest \<noteq> 0" using hd_dropWhile [of "\<lambda>b. b = 0" buf] by simp
    then have b: "bigToBufBE (be_val buf) None = ?rest"
      using bigToBufBE_bytes [OF False] val by simp
    have pos: "0 < be_val buf"
    proof (rule ccontr)
      assume "\<not> 0 < be_val buf"
      then have "?rest = [0]" using b
        by (simp add: bigToBufBE_None calcBytes.simps) (simp add: be_bytes_def)
      then show False using hd by simp
    qed
    have "takeWhile (\<lambda>c. c = CHR ''1'') ?s = replicate ?k CHR ''1''"
      using base58_digits_hd [OF pos] by (cases "base58_digits (be_val buf) []") (auto simp: takeWhile_append)
    then have "base58_decode ?s = buf" using dec b buf by simp
    moreover have "buf \<noteq> []" "\<not> (\<forall>b\<in>set buf. b = 0)"
      using False by (auto simp: dropWhile_eq_Nil_conv)
    ultimately show ?thesis using enc by simp
  qed
qed

text \<open>
  A buffer that has a byte other than zero is decoded from its Base58 encoding exactly, leading
  zeros included; a buffer of \<open>k\<close> zeros comes back with one zero too many, and the empty
  buffer cannot be encoded.
\<close>

theorem base58_roundtrip:
  "bind_res (base58_encode buf) (\<lambda>s. Inr (base58_decode s)) =
     (if buf = [] then Inl SyntaxError
      else if \<forall>b\<in>set buf. b = 0 then Inr (0 # buf)
      else Inr buf)"
  by (rule base58_roundtrip_lemma)

theorem base58_roundtrip_witness:
  "bind_res (base58_encode [0, 0, 7]) (\<lambda>s. Inr (base58_decode s)) = Inr [0, 0, 7]
   \<and> bind_res (base58_encode [0, 0]) (\<lambda>s. Inr (base58_decode s)) = Inr [0, 0, 0]"
  by (simp add: base58_roundtrip)

section \<open>Correctness of the checksum\<close>

lemma slice_0: "slice 0 (int n) xs = take n xs"
  by (cases "length xs \<le> n") (simp_all add: slice_def sliceIndex_def)

lemma slice_last:
  assumes "length xs = 4"
  shows "slice 0 (int (length (ys @ xs)) - 4) (ys @ xs) = ys"
    and "slice (int (length (ys @ xs)) - 4) (int (length (ys @ xs))) (ys @ xs) = xs"
  using assms by (simp_all add: slice_def sliceIndex_def)

lemma base58check_roundtrip:
  assumes "\<And>x. length (sha256 x) = 32" "\<exists>b\<in>set (buf @ take 4 (hash256 sha256 buf)). b \<noteq> 0"
  shows "bind_res (base58check_encode sha256 buf) (base58check_decode sha256) = Inr buf"
proof -
  let ?total = "buf @ take 4 (hash256 sha256 buf)"
  have len: "length (take 4 (hash256 sha256 x)) = 4" for x using assms(1) by (simp add: hash256_def)
  have four: "slice 0 4 x = take 4 x" for x :: buffer using slice_0 [of 4 x] by simp
  have "bind_res (base58_encode ?total) (\<lambda>s. Inr (base58_decode s)) = Inr ?total"
    using assms(2) unfolding base58_roundtrip_lemma by auto
  then obtain t where t: "base58_encode ?total = Inr t" "base58_decode t = ?total"
    by (auto simp: bind_res_eq_Inr)
  then show ?thesis
    using slice_last [OF len, of buf buf]
    by (simp add: base58check_encode_def base58check_decode_def Let_def four)
qed

text \<open>
  A value followed by its checksum, not all bytes of which are zero, survives
  \<^verbatim>\<open>Base58Check.encode\<close> and \<^verbatim>\<open>decode\<close>; and whatever
  \<^verbatim>\<open>decode\<close> accepts spells a value followed by the first four bytes of its double hash.
\<close>

theorem base58check_sound:
  assumes "\<And>x. length (sha256 x) = 32"
  shows "((\<exists>b\<in>set (buf @ take 4 (hash256 sha256 buf)). b \<noteq> 0) \<longrightarrow>
      bind_res (base58check_encode sha256 buf) (base58check_decode sha256) = Inr buf)
    \<and> (base58check_decode sha256 s = Inr data \<longrightarrow>
        base58_decode s = data @ take 4 (hash256 sha256 data))"
proof (intro conjI impI)
  have len: "length (take 4 (hash256 sha256 x)) = 4" for x using assms by (simp add: hash256_def)
  have four: "slice 0 4 x = take 4 x" for x :: buffer using slice_0 [of 4 x] by simp
  show "bind_res (base58check_encode sha256 buf) (base58check_decode sha256) = Inr buf"
    if "\<exists>b\<in>set (buf @ take 4 (hash256 sha256 buf)). b \<noteq> 0"
    using assms that by (rule base58check_roundtrip)
  {
    assume d: "base58check_decode sha256 s = Inr data"
    define total where "total = base58_decode s"
    have data: "data = slice 0 (int (length total) - 4) total"
      and sum: "take 4 (hash256 sha256 data) = slice (int (length total) - 4) (int (length total)) total"
      using d by (auto simp: base58check_decode_def Let_def total_def four split: if_splits)
    have "4 \<le> length total"
      using arg_cong [OF sum, of length] len [of data] by (simp add: slice_def sliceIndex_def split: if_splits)
    then have "total = slice 0 (int (length total) - 4) total
        @ slice (int (length total) - 4) (int (length total)) total"
      by (simp add: slice_def sliceIndex_def)
    then show "base58_decode s = data @ take 4 (hash256 sha256 data)"
      by (simp only: total_def [symmetric] data [symmetric] sum [symmetric])
  }
qed

theorem base58check_sound_witness:
  "\<exists>s. base58check_encode (\<lambda>_. replicate 32 1) [5] = Inr s
     \<and> base58check_decode (\<lambda>_. replicate 32 1) s = Inr [5]
     \<and> base58_decode s = [5] @ take 4 (hash256 (\<lambda>_. replicate 32 1) [5])"
proof -
  let ?h = "\<lambda>_. replicate 32 1"
  have sound: "((\<exists>b\<in>set ([5] @ take 4 (hash256 ?h [5])). b \<noteq> 0) \<longrightarrow>
      bind_res (base58check_encode ?h [5]) (base58check_decode ?h) = Inr [5])
    \<and> (base58check_decode ?h s = Inr [5] \<longrightarrow> base58_decode s = [5] @ take 4 (hash256 ?h [5]))" for s
    by (rule base58check_sound) (rule length_replicate)
  then obtain s where "base58check_encode ?h [5] = Inr s" "base58check_decode ?h s = Inr [5]"
    by (auto simp: bind_res_eq_Inr)
  then show ?thesis using sound [of s] by blast
qed

section \<open>Networks\<close>

record network =
  net_name :: string
  net_genesisHash :: "hash_value option"
  p2pkhPrefix :: nat
  p2shPrefix :: nat
  p2wpkhPrefix :: string
  p2wshPrefix :: string
  xpubVersion :: nat
  xprvVersion :: nat
  ypubVersion :: nat
  yprvVersion :: nat
  zpubVersion :: nat
  zprvVersion :: nat
  wifPrefix :: nat

definition mainnet :: network where
  "mainnet = \<lparr>net_name = ''mainnet'',
     net_genesisHash = Some (HashValue (rev (hexBuffer
       ''000000000019d6689c085ae165831e934ff763ae46a2a6c172b3f1b60a8ce26f''))),
     p2pkhPrefix = 0x00, p2shPrefix = 0x05, p2wpkhPrefix = ''bc'', p2wshPrefix = ''bc'',
     xpubVersion = 0x0488b21e, xprvVersion = 0x0488ade4, ypubVersion = 0x049d7cb2,
     yprvVersion = 0x049d7878, zpubVersion = 0x04b24746, zprvVersion = 0x04b2430c,
     wifPrefix = 0x80\<rparr>"

definition testnet :: network where
  "testnet = \<lparr>net_name = ''testnet'',
     net_genesisHash = Some (HashValue (rev (hexBuffer
       ''000000000933ea01ad0ee984209779baaec3ced90fa3f408719526f8d77f4943''))),
     p2pkhPrefix = 0x6f, p2shPrefix = 0xc4, p2wpkhPrefix = ''tb'', p2wshPrefix = ''tb'',
     xpubVersion = 0x043587cf, xprvVersion = 0x04358394, ypubVersion = 0x044a5262,
     yprvVersion = 0x044a4e28, zpubVersion = 0x045f1cf6, zprvVersion = 0x045f18bc,
     wifPrefix = 0xef\<rparr>"

definition regtest :: network where
  "regtest = \<lparr>net_name = ''regtest'', net_genesisHash = None,
     p2pkhPrefix = 0x6f, p2shPrefix = 0xc4, p2wpkhPrefix = ''bcrt'', p2wshPrefix = ''bcrt'',
     xpubVersion = 0x043587cf, xprvVersion = 0x04358394, ypubVersion = 0x044a5262,
     yprvVersion = 0x044a4e28, zpubVersion = 0x045f1cf6, zprvVersion = 0x045f18bc,
     wifPrefix = 0xef\<rparr>"

definition all_networks :: "network list" where
  "all_networks = [mainnet, testnet, regtest]"

definition net_isMainnet :: "network \<Rightarrow> bool" where
  "net_isMainnet n \<longleftrightarrow> net_name n = ''mainnet''"

definition net_getGenesisHash :: "network \<Rightarrow> hash_value res" where
  "net_getGenesisHash n =
     (case net_genesisHash n of None \<Rightarrow> Inl (BitcoinError ''GenesisHashNotDefined'') | Some h \<Rightarrow> Inr h)"

section \<open>Wallet import format\<close>

record wif_result =
  wif_privateKey :: buffer
  wif_compressed :: bool
  wif_prefix :: nat

definition wif_decodePrefix :: "nat \<Rightarrow> network res" where
  "wif_decodePrefix prefix =
     (case find (\<lambda>n. wifPrefix n = prefix) all_networks of
        Some n \<Rightarrow> Inr n
      | None \<Rightarrow> Inl (BitcoinError ''UnknownWifPrefix''))"

definition wif_encode :: "(buffer \<Rightarrow> buffer) \<Rightarrow> nat \<Rightarrow> buffer \<Rightarrow> bool \<Rightarrow> string res" where
  "wif_encode sha256 prefix privateKey compressed =
     (let prefixBuf = [of_nat prefix];
          suffix = (if compressed then [0x01] else [])
      in base58check_encode sha256 (prefixBuf @ privateKey @ suffix))"

definition wif_decode :: "(buffer \<Rightarrow> buffer) \<Rightarrow> string \<Rightarrow> wif_result res" where
  "wif_decode sha256 input = bind_res (base58check_decode sha256 input) (\<lambda>raw.
     if length raw \<noteq> 33 \<and> length raw \<noteq> 34 then Inl (BitcoinError ''InvalidWifEncoding'')
     else Inr \<lparr>wif_privateKey = slice 1 33 raw,
               wif_compressed = (length raw = 34 \<and> raw ! 33 = 0x01),
               wif_prefix = unat (raw ! 0)\<rparr>)"

text \<open>
  A 32-byte private key survives the wallet import format with any nonzero one-byte prefix, and
  with it the prefix and whether the public key is compressed.
\<close>

theorem wif_roundtrip:
  assumes "\<And>x. length (sha256 x) = 32" "length key = 32" "0 < prefix" "prefix < 256"
  shows "bind_res (wif_encode sha256 prefix key compressed) (wif_decode sha256) =
    Inr \<lparr>wif_privateKey = key, wif_compressed = compressed, wif_prefix = prefix\<rparr>"
proof -
  let ?raw = "[of_nat prefix] @ key @ (if compressed then [0x01] else [])"
  have p: "unat (of_nat prefix :: byte) = prefix" using assms(4) by (simp add: unat_of_nat_byte)
  then have "(of_nat prefix :: byte) \<noteq> 0" using assms(3) by (metis less_numeral_extra(3) unat_0)
  then have "bind_res (base58check_encode sha256 ?raw) (base58check_decode sha256) = Inr ?raw"
    by (intro base58check_roundtrip [OF assms(1)]) simp
  then obtain s where "base58check_encode sha256 ?raw = Inr s" "base58check_decode sha256 s = Inr ?raw"
    by (auto simp only: bind_res_eq_Inr)
  moreover have "slice 1 33 ?raw = key"
    using assms(2) by (simp add: slice_def sliceIndex_def)
  ultimately show ?thesis
    using assms(2) p unfolding wif_encode_def wif_decode_def Let_def
    by (auto simp: nth_append)
qed

theorem wif_roundtrip_witness:
  "bind_res (wif_encode (\<lambda>_. replicate 32 1) 0x80 (replicate 32 9) True) (wif_decode (\<lambda>_. replicate 32 1)) =
    Inr \<lparr>wif_privateKey = replicate 32 9, wif_compressed = True, wif_prefix = 0x80\<rparr>"
  by (rule wif_roundtrip) (rule length_replicate, rule length_replicate, simp_all)

end
