(* ===== verification/Bech32.thy ===== *)
theory Bech32
  imports Base58
begin

text \<open>
  \<^verbatim>\<open>packages/bitcoin/lib/Bech32.ts\<close>: the checksummed base-32 text encoding of BIP 173
  and BIP 350 and the regrouping of bits between 8-bit and 5-bit words.  A word is a \<open>nat\<close>.  The
  regrouping shifts a 32-bit integer that it never clears; the checksum stays below \<open>2 ^ 30\<close>,
  where JavaScript's 32-bit operations are those of \<open>nat\<close>.
\<close>

section \<open>Regrouping bits\<close>

text \<open>
  The inner loop takes words of \<open>outBits\<close> bits from the top of the \<open>bits\<close> pending ones.  The
  callers pass 5 and 8; a width of zero, on which the loop would not end, takes nothing.
\<close>

function cw_flush :: "nat \<Rightarrow> 32 word \<Rightarrow> nat \<Rightarrow> nat list \<times> nat" where
  "cw_flush outBits val bits =
     (if outBits \<noteq> 0 \<and> bits \<ge> outBits
      then let bits = bits - outBits;
               maxV = push_bit outBits 1 - 1;
               w = unat (signed_drop_bit bits val AND maxV);
               (rest, bits) = cw_flush outBits val bits
           in (w # rest, bits)
      else ([], bits))"
  by pat_completeness auto
termination
  by (relation "measure (\<lambda>(_, _, bits). bits)") auto

declare cw_flush.simps [simp del]

primrec cw_loop :: "nat \<Rightarrow> nat \<Rightarrow> nat list \<Rightarrow> 32 word \<Rightarrow> nat \<Rightarrow> nat list \<times> 32 word \<times> nat" where
  "cw_loop inBits outBits [] val bits = ([], val, bits)"
| "cw_loop inBits outBits (d # data) val bits =
     (let val = push_bit inBits val OR of_nat d;
          (out, bits) = cw_flush outBits val (bits + inBits);
          (outs, val, bits) = cw_loop inBits outBits data val bits
      in (out @ outs, val, bits))"

definition invalidEncoding :: exn where
  "invalidEncoding = BitcoinError ''InvalidBech32Encoding''"

definition convertWords :: "nat list \<Rightarrow> nat \<Rightarrow> nat \<Rightarrow> bool \<Rightarrow> nat list res" where
  "convertWords data inBits outBits pad =
     (let maxV = push_bit outBits 1 - 1 :: 32 word;
          (result, val, bits) = cw_loop inBits outBits data 0 0
      in if pad
         then (if bits > 0 then Inr (result @ [unat (push_bit (outBits - bits) val AND maxV)])
               else Inr result)
         else if bits \<ge> inBits then Inl invalidEncoding
         else if push_bit (outBits - bits) val AND maxV \<noteq> 0 then Inl invalidEncoding
         else Inr result)"

definition wordsToBuffer :: "nat list \<Rightarrow> bool \<Rightarrow> buffer res" where
  "wordsToBuffer words pad = bind_res (convertWords words 5 8 pad) (\<lambda>ws. Inr (map of_nat ws))"

definition bufferToWords :: "buffer \<Rightarrow> bool \<Rightarrow> nat list res" where
  "bufferToWords buffer pad = convertWords (map unat buffer) 8 5 pad"

definition sizeofBits :: "nat \<Rightarrow> nat" where
  "sizeofBits bits = (bits + 4) div 5"

definition sizeofBytes :: "nat \<Rightarrow> nat" where
  "sizeofBytes bytes = sizeofBits (bytes * 8)"

section \<open>The checksum\<close>

definition bech32_alphabet :: string where
  "bech32_alphabet = ''qpzry9x8gf2tvdw0s3jn54khce6mua7l''"

definition bech32_generator :: "nat list" where
  "bech32_generator = [0x3b6a57b2, 0x26508e6d, 0x1ea119fa, 0x3d4233dd, 0x2a1462b3]"

datatype Bech32Version = Bech32 | Bech32m

definition versionConst :: "Bech32Version \<Rightarrow> nat" where
  "versionConst v = (case v of Bech32 \<Rightarrow> 1 | Bech32m \<Rightarrow> 0x2bc830a3)"

definition polymod_step :: "nat \<Rightarrow> nat \<Rightarrow> nat" where
  "polymod_step chk val =
     (let top = drop_bit 25 chk;
          chk = push_bit 5 (chk AND 0x1ffffff) XOR val
      in foldl (\<lambda>chk i. if bit top i then chk XOR bech32_generator ! i else chk) chk [0..<5])"

definition polymod :: "nat list \<Rightarrow> nat" where
  "polymod values = foldl polymod_step 1 values"

definition hrpExpand :: "string \<Rightarrow> nat list" where
  "hrpExpand hrp = map (\<lambda>c. drop_bit 5 (of_char c)) hrp @ [0] @ map (\<lambda>c. of_char c AND 31) hrp"

definition calculateChecksum :: "string \<Rightarrow> nat list \<Rightarrow> nat" where
  "calculateChecksum hrp data = polymod (hrpExpand hrp @ data)"

definition createChecksum :: "string \<Rightarrow> nat list \<Rightarrow> Bech32Version \<Rightarrow> nat list" where
  "createChecksum hrp data constant =
     (let values = hrpExpand hrp @ data @ [0, 0, 0, 0, 0, 0];
          m = polymod values XOR versionConst constant
      in map (\<lambda>i. drop_bit (5 * (5 - i)) m AND 31) [0..<6])"

section \<open>Encoding and decoding\<close>

text \<open>A word outside the alphabet prints as \<^verbatim>\<open>undefined\<close>.\<close>

definition bech32_encode :: "string \<Rightarrow> nat list \<Rightarrow> Bech32Version \<Rightarrow> string" where
  "bech32_encode hrp words version =
     (let checksum = createChecksum hrp words version;
          combined = words @ checksum
      in hrp @ ''1'' @ concat (map (\<lambda>w. if w < 32 then [bech32_alphabet ! w] else ''undefined'') combined))"

definition lastIndexOf :: "string \<Rightarrow> char \<Rightarrow> int" where
  "lastIndexOf s c = (case find (\<lambda>i. s ! i = c) (rev [0..<length s]) of Some i \<Rightarrow> int i | None \<Rightarrow> - 1)"

record bech32_result =
  b32_hrp :: string
  b32_words :: "nat list"
  b32_version :: Bech32Version

definition invalidHrp :: exn where
  "invalidHrp = BitcoinError ''InvalidBech32Hrp''"

definition decodeWord :: "char \<Rightarrow> nat res" where
  "decodeWord c =
     (let w = indexOf bech32_alphabet c in if w = - 1 then Inl invalidEncoding else Inr (nat w))"

definition bech32_decode :: "string \<Rightarrow> bech32_result res" where
  "bech32_decode encoded =
     (if (\<exists>c\<in>set encoded. isUpper c) \<and> (\<exists>c\<in>set encoded. isLower c) then Inl invalidEncoding
      else let encoded = map toLower encoded;
               hrpIdx = lastIndexOf encoded CHR ''1''
           in if hrpIdx < 1 then Inl invalidHrp
              else if hrpIdx + 7 > int (length encoded) then Inl invalidHrp
              else let hrp = take (nat hrpIdx) encoded
                   in if \<exists>c\<in>set hrp. (of_char c :: nat) < 33 \<or> (of_char c :: nat) > 126
                      then Inl invalidHrp
                      else bind_res (map_res decodeWord (drop (nat hrpIdx + 1) encoded)) (\<lambda>words.
                        let checksum = calculateChecksum hrp words
                        in if checksum = versionConst Bech32
                           then Inr \<lparr>b32_hrp = hrp, b32_words = slice 0 (int (length words) - 6) words,
                                     b32_version = Bech32\<rparr>
                           else if checksum = versionConst Bech32m
                           then Inr \<lparr>b32_hrp = hrp, b32_words = slice 0 (int (length words) - 6) words,
                                     b32_version = Bech32m\<rparr>
                           else Inl (BitcoinError ''InvalidBech32Checksum'')))"

section \<open>Regrouping is lossless\<close>

definition word_num :: "nat \<Rightarrow> nat list \<Rightarrow> nat" where
  "word_num k xs = foldl (\<lambda>a d. a * 2 ^ k + d) 0 xs"

lemma word_num_foldl: "foldl (\<lambda>a d. a * 2 ^ k + d) a xs = a * 2 ^ (k * length xs) + word_num k xs"
proof (induction xs arbitrary: a)
  case (Cons x xs)
  have "word_num k (x # xs) = x * 2 ^ (k * length xs) + word_num k xs"
    using Cons [of x] by (simp add: word_num_def)
  then show ?case using Cons [of "a * 2 ^ k + x"] by (simp add: algebra_simps power_add)
qed (simp add: word_num_def)

lemma word_num_Nil [simp]: "word_num k [] = 0"
  by (simp add: word_num_def)

lemma word_num_append: "word_num k (xs @ ys) = word_num k xs * 2 ^ (k * length ys) + word_num k ys"
  by (simp add: word_num_def) (simp add: word_num_foldl flip: word_num_def)

lemma word_num_Cons: "word_num k (x # xs) = x * 2 ^ (k * length xs) + word_num k xs"
  using word_num_append [of k "[x]" xs] by (simp add: word_num_def)

lemma word_num_less: "\<forall>x\<in>set xs. x < 2 ^ k \<Longrightarrow> word_num k xs < 2 ^ (k * length xs)"
proof (induction xs)
  case (Cons x xs)
  then have "x * 2 ^ (k * length xs) + word_num k xs < (x + 1) * 2 ^ (k * length xs)" by simp
  also have "\<dots> \<le> 2 ^ k * 2 ^ (k * length xs)" using Cons.prems by (intro mult_le_mono1) simp
  finally show ?case by (simp add: word_num_Cons power_add)
qed simp

lemma word_num_inj:
  assumes "length xs = length ys" "\<forall>x\<in>set xs. x < 2 ^ k" "\<forall>y\<in>set ys. y < 2 ^ k"
    and "word_num k xs = word_num k ys"
  shows "xs = ys"
  using assms
proof (induction xs ys rule: list_induct2)
  case (Cons x xs y ys)
  let ?m = "2 ^ (k * length xs) :: nat"
  have l: "word_num k xs < ?m" "word_num k ys < ?m"
    using Cons word_num_less [of xs k] word_num_less [of ys k] by simp_all
  have e: "x * ?m + word_num k xs = y * ?m + word_num k ys"
    using Cons by (simp add: word_num_Cons)
  have "x = y" using arg_cong [OF e, of "\<lambda>n. n div ?m"] l by simp
  moreover have "word_num k xs = word_num k ys" using arg_cong [OF e, of "\<lambda>n. n mod ?m"] l by simp
  ultimately show ?case using Cons by simp
qed simp

lemma mask_word: "(push_bit n 1 - 1 :: 32 word) = mask n"
  "(2 ^ n - 1 :: 32 word) = mask n"
  by (simp_all add: mask_eq_exp_minus_1 push_bit_eq_mult)

lemma quotient_unique:
  assumes "(n :: nat) * a + b = n * c + d" "b < n" "d < n"
  shows "a = c \<and> b = d"
proof -
  have "(n * a + b) div n = a" "(n * c + d) div n = c" "(n * a + b) mod n = b" "(n * c + d) mod n = d"
    using assms(2,3) by simp_all
  then show ?thesis by (simp add: assms(1))
qed

lemma extract_bits:
  fixes v :: "32 word"
  assumes "b + n \<le> 32"
  shows "unat (signed_drop_bit b v AND mask n) = unat v div 2 ^ b mod 2 ^ n"
proof -
  have "signed_drop_bit b v AND mask n = take_bit n (drop_bit b v)"
    using assms by (intro bit_word_eqI) (auto simp: bit_simps min_def)
  then have "unat (signed_drop_bit b v AND mask n) = take_bit n (drop_bit b (unat v))"
    by (simp only: unsigned_take_bit_eq unat_drop_bit_eq)
  then show ?thesis by (simp only: take_bit_eq_mod drop_bit_eq_div)
qed

lemma shift_in:
  fixes v :: "32 word"
  assumes "d < 2 ^ i" "i \<le> 32"
  shows "unat (push_bit i v OR of_nat d) = (unat v * 2 ^ i + d) mod 2 ^ 32"
proof -
  have "\<not> bit (push_bit i v) n \<or> \<not> bit (of_nat d :: 32 word) n" for n
  proof (cases "n < i")
    case False
    then have "d div 2 ^ n = 0" using assms(1) by (simp add: div_eq_0_iff order_less_le_trans)
    then show ?thesis by (simp add: bit_of_nat_iff bit_iff_odd [of d])
  qed (simp add: bit_push_bit_iff)
  then have "push_bit i v OR of_nat d = push_bit i v + of_nat d"
    by (intro disjunctive_add_eq_or [symmetric]) (auto intro!: bit_word_eqI simp: bit_and_iff)
  also have "\<dots> = of_nat (unat v * 2 ^ i + d)" by (simp add: push_bit_eq_mult)
  finally show ?thesis by (simp only: unat_of_nat) simp
qed

lemma cw_flush_spec:
  assumes "cw_flush n v bits = (out, b)" "0 < n" "bits \<le> 32"
  shows "b < n \<and> (\<forall>w\<in>set out. w < 2 ^ n) \<and> n * length out + b = bits
    \<and> word_num n out * 2 ^ b + unat v mod 2 ^ b = unat v mod 2 ^ bits"
  using assms
proof (induction n v bits arbitrary: out b rule: cw_flush.induct)
  case (1 n v bits)
  show ?case
  proof (cases "bits \<ge> n")
    case False
    then have "out = []" "b = bits" using 1(2,3) by (auto simp: cw_flush.simps)
    then show ?thesis using False by simp
  next
    case True
    define k where "k = bits - n"
    obtain rest b' where r: "cw_flush n v k = (rest, b')" by fastforce
    let ?w = "unat v div 2 ^ k mod 2 ^ n"
    have kn: "k + n \<le> 32" using True 1(4) by (simp add: k_def)
    have out: "out = ?w # rest" "b = b'"
      using 1(2,3) True r extract_bits [OF kn, of v]
      by (auto simp: cw_flush.simps [of n v bits] Let_def mask_word k_def [symmetric])
    have IH: "b' < n \<and> (\<forall>w\<in>set rest. w < 2 ^ n) \<and> n * length rest + b' = k
      \<and> word_num n rest * 2 ^ b' + unat v mod 2 ^ b' = unat v mod 2 ^ k"
      using 1(1) [OF _ k_def refl refl r] True 1(3,4) by (simp add: k_def)
    have "word_num n out * 2 ^ b + unat v mod 2 ^ b
        = ?w * 2 ^ (n * length rest + b') + (word_num n rest * 2 ^ b' + unat v mod 2 ^ b')"
      by (simp add: out word_num_Cons algebra_simps power_add)
    also have "\<dots> = ?w * 2 ^ k + unat v mod 2 ^ k" using IH by simp
    also have "\<dots> = unat v mod (2 ^ k * 2 ^ n)" by (simp add: mod_mult2_eq mult.commute)
    also have "2 ^ k * 2 ^ n = (2 ^ bits :: nat)" using True by (simp add: k_def flip: power_add)
    finally show ?thesis using IH out True by (auto simp: k_def)
  qed
qed

lemma mod_pow2_mod: "k \<le> m \<Longrightarrow> (a :: nat) mod 2 ^ m mod 2 ^ k = a mod 2 ^ k"
  by (simp add: mod_mod_cancel le_imp_power_dvd)

lemma mod_shift_in:
  assumes "d < 2 ^ i"
  shows "((u :: nat) * 2 ^ i + d) mod 2 ^ (b + i) = (u mod 2 ^ b) * 2 ^ i + d"
proof -
  have "(u * 2 ^ i + d) mod (2 ^ i * 2 ^ b) = 2 ^ i * ((u * 2 ^ i + d) div 2 ^ i mod 2 ^ b) + (u * 2 ^ i + d) mod 2 ^ i"
    by (rule mod_mult2_eq)
  then show ?thesis using assms by (simp add: power_add mult.commute)
qed

lemma cw_loop_spec:
  assumes "cw_loop i n data v bits = (out, v', b)" "0 < n" "i + n \<le> 32" "bits < n"
    and "\<forall>d\<in>set data. d < 2 ^ i"
  shows "b < n \<and> (\<forall>w\<in>set out. w < 2 ^ n) \<and> n * length out + b = bits + i * length data
    \<and> word_num n out * 2 ^ b + unat v' mod 2 ^ b
      = (unat v mod 2 ^ bits) * 2 ^ (i * length data) + word_num i data"
  using assms
proof (induction data arbitrary: v bits out v' b)
  case (Cons d data)
  define u where "u = push_bit i v OR (of_nat d :: 32 word)"
  obtain o1 b1 where f: "cw_flush n u (bits + i) = (o1, b1)" by fastforce
  obtain o2 v2 b2 where l: "cw_loop i n data u b1 = (o2, v2, b2)" by (metis prod_cases3)
  have out: "out = o1 @ o2" "v' = v2" "b = b2"
    using Cons.prems(1) f l by (auto simp: u_def)
  have F: "b1 < n \<and> (\<forall>w\<in>set o1. w < 2 ^ n) \<and> n * length o1 + b1 = bits + i
    \<and> word_num n o1 * 2 ^ b1 + unat u mod 2 ^ b1 = unat u mod 2 ^ (bits + i)"
    using Cons.prems by (intro cw_flush_spec [OF f]) auto
  have L: "b2 < n \<and> (\<forall>w\<in>set o2. w < 2 ^ n) \<and> n * length o2 + b2 = b1 + i * length data
    \<and> word_num n o2 * 2 ^ b2 + unat v2 mod 2 ^ b2
      = (unat u mod 2 ^ b1) * 2 ^ (i * length data) + word_num i data"
    using Cons.prems F by (intro Cons.IH [OF l]) auto
  have "unat u mod 2 ^ (bits + i) = (unat v * 2 ^ i + d) mod 2 ^ (bits + i)"
    using shift_in [of d i v] Cons.prems mod_pow2_mod [of "bits + i" 32] by (simp add: u_def)
  also have "\<dots> = (unat v mod 2 ^ bits) * 2 ^ i + d"
    using Cons.prems(5) by (intro mod_shift_in) simp
  finally have U: "unat u mod 2 ^ (bits + i) = (unat v mod 2 ^ bits) * 2 ^ i + d" .
  have "word_num n out * 2 ^ b + unat v' mod 2 ^ b
      = word_num n o1 * 2 ^ (n * length o2 + b2) + (word_num n o2 * 2 ^ b2 + unat v2 mod 2 ^ b2)"
    by (simp add: out word_num_append algebra_simps power_add)
  also have "\<dots> = (word_num n o1 * 2 ^ b1 + unat u mod 2 ^ b1) * 2 ^ (i * length data) + word_num i data"
    using L by (simp add: power_add algebra_simps)
  also have "\<dots> = ((unat v mod 2 ^ bits) * 2 ^ i + d) * 2 ^ (i * length data) + word_num i data"
    using F U by simp
  also have "\<dots> = (unat v mod 2 ^ bits) * 2 ^ (i * length (d # data)) + word_num i (d # data)"
    by (simp add: word_num_Cons power_add algebra_simps)
  finally show ?case using F L out by (auto simp: algebra_simps)
qed (auto simp: word_num_def)

lemma pad_word:
  fixes v :: "32 word"
  assumes "b < n" "n \<le> 32"
  shows "unat (push_bit (n - b) v AND mask n) = unat v mod 2 ^ b * 2 ^ (n - b)"
proof -
  have "push_bit (n - b) v AND mask n = take_bit n (push_bit (n - b) v)" by (simp add: take_bit_eq_mask)
  then have "unat (push_bit (n - b) v AND mask n) = take_bit n (unat (push_bit (n - b) v))"
    by (simp only: unsigned_take_bit_eq)
  also have "unat (push_bit (n - b) v) = (unat v * 2 ^ (n - b)) mod 2 ^ 32"
    using shift_in [of 0 "n - b" v] assms by simp
  also have "take_bit n \<dots> = (unat v * 2 ^ (n - b) + 0) mod 2 ^ (b + (n - b))"
    using assms mod_pow2_mod [of n 32] by (simp add: take_bit_eq_mod)
  also have "\<dots> = unat v mod 2 ^ b * 2 ^ (n - b) + 0" by (rule mod_shift_in) simp
  finally show ?thesis by simp
qed

text \<open>What \<open>convertWords\<close> returns, as a statement about the numbers that the words spell.\<close>

lemma convertWords_pad:
  assumes "\<forall>d\<in>set data. d < 2 ^ i" "0 < n" "i + n \<le> 32"
  obtains out z where "convertWords data i n True = Inr out" "\<forall>w\<in>set out. w < 2 ^ n" "z < n"
    "n * length out = i * length data + z" "word_num n out = word_num i data * 2 ^ z"
proof -
  obtain r v b where l: "cw_loop i n data 0 0 = (r, v, b)" by (metis prod_cases3)
  have S: "b < n \<and> (\<forall>w\<in>set r. w < 2 ^ n) \<and> n * length r + b = i * length data
    \<and> word_num n r * 2 ^ b + unat v mod 2 ^ b = word_num i data"
    using cw_loop_spec [OF l] assms by simp
  show thesis
  proof (cases "b = 0")
    case True
    then show ?thesis using that [of r 0] S l assms(2) by (simp add: convertWords_def)
  next
    case False
    let ?w = "unat v mod 2 ^ b * 2 ^ (n - b)"
    have w: "unat (push_bit (n - b) v AND mask n) = ?w" using pad_word [of b n v] S assms(3) by simp
    have "?w < 2 ^ b * 2 ^ (n - b)" by simp
    then have "?w < 2 ^ n" using S by (simp flip: power_add)
    moreover have "convertWords data i n True = Inr (r @ [?w])"
      using l False w by (simp add: convertWords_def mask_word Let_def)
    moreover have "word_num n (r @ [?w]) = word_num i data * 2 ^ (n - b)"
    proof -
      have "2 ^ n = (2 ^ b * 2 ^ (n - b) :: nat)" using S by (simp flip: power_add)
      then have "word_num n (r @ [?w]) = (word_num n r * 2 ^ b + unat v mod 2 ^ b) * 2 ^ (n - b)"
        by (simp add: word_num_append word_num_Cons algebra_simps)
      then show ?thesis using S by simp
    qed
    ultimately show ?thesis using that [of "r @ [?w]" "n - b"] S False by auto
  qed
qed

lemma convertWords_nopad:
  assumes "\<forall>d\<in>set data. d < 2 ^ i" "0 < n" "i + n \<le> 32"
    and "i * length data = n * length xs + z" "z < n" "z < i"
    and "word_num i data = word_num n xs * 2 ^ z" "\<forall>x\<in>set xs. x < 2 ^ n"
  shows "convertWords data i n False = Inr xs"
proof -
  obtain r v b where l: "cw_loop i n data 0 0 = (r, v, b)" by (metis prod_cases3)
  have S: "b < n \<and> (\<forall>w\<in>set r. w < 2 ^ n) \<and> n * length r + b = i * length data
    \<and> word_num n r * 2 ^ b + unat v mod 2 ^ b = word_num i data"
    using cw_loop_spec [OF l] assms(1-3) by simp
  have len: "length r = length xs \<and> b = z"
    using S assms(4,5) by (intro quotient_unique [of n]) simp_all
  have e: "word_num n r * 2 ^ z + unat v mod 2 ^ z = word_num n xs * 2 ^ z"
    using S len assms(7) by simp
  have "word_num n r = word_num n xs" using arg_cong [OF e, of "\<lambda>k. k div 2 ^ z"] by simp
  moreover from this have "unat v mod 2 ^ z = 0" using e by simp
  ultimately have "r = xs" "unat (push_bit (n - b) v AND mask n) = 0"
    using word_num_inj [of r xs n] S len assms(8) pad_word [of b n v] assms(3) by simp_all
  then show ?thesis using l len assms(6)
    by (simp add: convertWords_def mask_word Let_def unat_eq_0)
qed

lemma words_roundtrip_lemma:
  "\<exists>words. bufferToWords buf True = Inr words \<and> (\<forall>w\<in>set words. w < 32)
     \<and> length words = sizeofBytes (length buf) \<and> wordsToBuffer words False = Inr buf"
proof -
  have "\<forall>d\<in>set (map unat buf). d < 2 ^ 8" by simp
  then obtain words z where w: "convertWords (map unat buf) 8 5 True = Inr words"
    "\<forall>w\<in>set words. w < 2 ^ 5" "z < 5" "5 * length words = 8 * length (map unat buf) + z"
    "word_num 5 words = word_num 8 (map unat buf) * 2 ^ z"
    by (rule convertWords_pad [where n = 5]) simp_all
  have "convertWords words 5 8 False = Inr (map unat buf)"
    using w by (intro convertWords_nopad [of words 5 8 "map unat buf" z]) simp_all
  then have "wordsToBuffer words False = Inr buf"
    by (simp add: wordsToBuffer_def o_def)
  moreover have "length words = sizeofBytes (length buf)"
    using w(3,4) by (simp add: sizeofBytes_def sizeofBits_def)
  ultimately show ?thesis using w(1,2) by (auto simp: bufferToWords_def)
qed

text \<open>
  Regrouping a buffer into 5-bit words with padding and back without padding returns the buffer;
  the words number eight fifths of the bytes, rounded up, as \<^verbatim>\<open>sizeofBytes\<close> computes.
\<close>

theorem words_roundtrip:
  "\<exists>words. bufferToWords buf True = Inr words \<and> (\<forall>w\<in>set words. w < 32)
     \<and> length words = sizeofBytes (length buf) \<and> wordsToBuffer words False = Inr buf"
  by (rule words_roundtrip_lemma)

theorem words_roundtrip_witness:
  "\<exists>words. bufferToWords [255, 1] True = Inr words \<and> (\<forall>w\<in>set words. w < 32)
     \<and> length words = 4 \<and> wordsToBuffer words False = Inr [255, 1]"
  using words_roundtrip [of "[255, 1]"] by (simp add: sizeofBytes_def sizeofBits_def)

section \<open>The checksum is linear\<close>

definition pick :: "bool \<Rightarrow> nat \<Rightarrow> nat" where
  "pick c g = (if c then g else 0)"

definition feedback :: "nat \<Rightarrow> nat" where
  "feedback t = pick (bit t 0) 0x3b6a57b2 XOR (pick (bit t 1) 0x26508e6d XOR (pick (bit t 2) 0x1ea119fa
     XOR (pick (bit t 3) 0x3d4233dd XOR pick (bit t 4) 0x2a1462b3)))"

definition shift_state :: "nat \<Rightarrow> nat" where
  "shift_state s = push_bit 5 (take_bit 25 s) XOR feedback (drop_bit 25 s)"

lemma upt_5: "[0..<5] = [0, 1, 2, 3, 4 :: nat]"
  by (simp add: upt_rec)

lemma polymod_step_eq: "polymod_step s v = shift_state s XOR v"
proof -
  have m: "s AND 0x1ffffff = take_bit 25 s"
    using take_bit_eq_mask [of 25 s] by (simp add: mask_eq_exp_minus_1)
  have i: "(if c then x XOR g else x) = x XOR pick c g" for c and x g :: nat
    by (simp add: pick_def)
  show ?thesis
    unfolding polymod_step_def Let_def upt_5 foldl.simps i m
    by (simp add: shift_state_def feedback_def bech32_generator_def ac_simps)
qed

lemma pick_xor: "pick (c = (\<not> d)) g = pick c g XOR pick d g"
  by (cases c; cases d) (simp_all add: pick_def)

lemma feedback_xor: "feedback (a XOR b) = feedback a XOR feedback b"
  by (simp add: feedback_def bit_xor_iff pick_xor ac_simps)

lemma shift_state_xor: "shift_state (a XOR b) = shift_state a XOR shift_state b"
proof -
  have "push_bit 5 (take_bit 25 (a XOR b)) = push_bit 5 (take_bit 25 a) XOR push_bit 5 (take_bit 25 b)"
    by (rule bit_eqI) (auto simp: bit_simps)
  moreover have "drop_bit 25 (a XOR b) = drop_bit 25 a XOR drop_bit 25 b"
    by (rule bit_eqI) (simp add: bit_simps)
  ultimately show ?thesis by (simp add: shift_state_def feedback_xor ac_simps)
qed

lemma polymod_xor:
  "length xs = length ys \<Longrightarrow>
     foldl polymod_step (s XOR t) (map2 (XOR) xs ys) = foldl polymod_step s xs XOR foldl polymod_step t ys"
proof (induction xs ys arbitrary: s t rule: list_induct2)
  case (Cons x xs y ys)
  have "polymod_step (s XOR t) (x XOR y) = polymod_step s x XOR polymod_step t y"
    by (simp add: polymod_step_eq shift_state_xor ac_simps)
  then show ?case using Cons by simp
qed simp

lemma xor_less: "(a :: nat) < 2 ^ n \<Longrightarrow> b < 2 ^ n \<Longrightarrow> a XOR b < 2 ^ n"
  by (metis take_bit_nat_eq_self take_bit_nat_less_exp take_bit_xor)

lemma feedback_less: "feedback t < 2 ^ 30"
  unfolding feedback_def by (intro xor_less) (simp_all add: pick_def)

lemma shift_state_less: "shift_state s < 2 ^ 30"
proof -
  have "push_bit 5 (take_bit 25 s) < 2 ^ 30"
    using take_bit_nat_less_exp [of 25 s] by (simp add: push_bit_eq_mult)
  then show ?thesis unfolding shift_state_def using feedback_less by (intro xor_less)
qed

lemma polymod_less:
  "s < 2 ^ 30 \<Longrightarrow> \<forall>v\<in>set vs. v < 2 ^ 30 \<Longrightarrow> foldl polymod_step s vs < 2 ^ 30"
  by (induction vs arbitrary: s) (simp_all add: polymod_step_eq xor_less shift_state_less del: power_numeral)

text \<open>Six words shifted into the zero state are the number that they spell.\<close>

lemma step_small:
  assumes "s < 2 ^ 25" "c < 32"
  shows "polymod_step s c = 32 * s + c"
proof -
  have "shift_state s = push_bit 5 s"
    using assms(1) by (simp add: shift_state_def take_bit_nat_eq_self drop_bit_eq_div feedback_def pick_def)
  moreover have "push_bit 5 s AND c = 0"
  proof (rule bit_eqI)
    fix n show "bit (push_bit 5 s AND c) n \<longleftrightarrow> bit 0 n"
    proof (cases "n < 5")
      case False
      then have "(2 :: nat) ^ 5 \<le> 2 ^ n" by (intro power_increasing) auto
      then have "c div 2 ^ n = 0" using assms(2) by (simp add: div_eq_0_iff)
      then show ?thesis by (simp add: bit_and_iff bit_iff_odd [of c])
    qed (simp add: bit_and_iff bit_push_bit_iff)
  qed
  ultimately show ?thesis
    by (simp add: polymod_step_eq disjunctive_add_eq_xor [symmetric] push_bit_eq_mult)
qed

lemma and_31: "(n :: nat) AND 31 = n mod 32"
  using take_bit_eq_mask [of 5 n] by (simp add: mask_eq_exp_minus_1 take_bit_eq_mod)

lemma upt_6: "[0..<6] = [0, 1, 2, 3, 4, 5 :: nat]"
  by (simp add: upt_rec)

lemma polymod_zero:
  assumes "m < 2 ^ 30"
  shows "foldl polymod_step 0 (map (\<lambda>i. drop_bit (5 * (5 - i)) m AND 31) [0..<6]) = m"
proof -
  define q where "q k = m div 32 ^ k" for k
  have q: "q (Suc k) = q k div 32" "32 * (q k div 32) + q k mod 32 = q k" for k
  proof -
    show "q (Suc k) = q k div 32" by (simp only: q_def power_Suc2 div_mult2_eq)
    show "32 * (q k div 32) + q k mod 32 = q k" by (rule mult_div_mod_eq)
  qed
  have d: "drop_bit 25 m = q 5" "drop_bit 20 m = q 4" "drop_bit 15 m = q 3" "drop_bit 10 m = q 2"
    "drop_bit 5 m = q 1" "drop_bit 0 m = q 0"
    by (simp_all add: q_def drop_bit_eq_div)
  have b: "q 5 < 32" "q 4 < 2 ^ 10" "q 3 < 2 ^ 15" "q 2 < 2 ^ 20" "q 1 < 2 ^ 25"
    using assms by (simp_all add: q_def div_less_iff_less_mult)
  have s: "polymod_step (q j) (q k mod 32) = q k" if "j = Suc k" "q j < 2 ^ 25" for j k
    using step_small [OF that(2), of "q k mod 32"] q that(1) by simp
  have z: "polymod_step 0 (q 5 mod 32) = q 5" using step_small [of 0 "q 5 mod 32"] b(1) by simp
  have steps: "polymod_step (q 5) (q 4 mod 32) = q 4" "polymod_step (q 4) (q 3 mod 32) = q 3"
    "polymod_step (q 3) (q 2 mod 32) = q 2" "polymod_step (q 2) (q 1 mod 32) = q 1"
    "polymod_step (q 1) (q 0 mod 32) = q 0"
    using b by (intro s; simp)+
  have "foldl polymod_step 0 [q 5 mod 32, q 4 mod 32, q 3 mod 32, q 2 mod 32, q 1 mod 32, q 0 mod 32] = q 0"
    unfolding foldl.simps z steps by (rule refl)
  then show ?thesis by (simp add: upt_6 and_31 d) (simp add: q_def)
qed

lemma of_char_byte: "(of_char c :: nat) < 256"
  by (rule nat_of_char_less_256)

lemma hrpExpand_less: "\<forall>v\<in>set (hrpExpand hrp). v < 2 ^ 30"
proof -
  have "drop_bit 5 (of_char c :: nat) < 2 ^ 30" for c
    using of_char_byte [of c] by (simp add: drop_bit_eq_div div_less_iff_less_mult del: nat_of_char_less_256)
  then show ?thesis by (auto simp: hrpExpand_def and_31)
qed

lemma checksum_words:
  assumes "\<forall>w\<in>set words. w < 32"
  shows "calculateChecksum hrp (words @ createChecksum hrp words v) = versionConst v"
    and "\<forall>w\<in>set (createChecksum hrp words v). w < 32" and "length (createChecksum hrp words v) = 6"
proof -
  define s where "s = foldl polymod_step 1 (hrpExpand hrp @ words)"
  define z where "z = replicate 6 (0 :: nat)"
  define p where "p = foldl polymod_step s z"
  define m where "m = p XOR versionConst v"
  have w: "\<forall>w\<in>set words. w < 2 ^ 30" using assms by auto
  have "s < 2 ^ 30" unfolding s_def using hrpExpand_less [of hrp] w by (intro polymod_less) auto
  then have "p < 2 ^ 30" unfolding p_def z_def by (intro polymod_less) simp_all
  then have m: "m < 2 ^ 30"
    unfolding m_def by (intro xor_less) (simp_all add: versionConst_def split: Bech32Version.split)
  let ?cs = "map (\<lambda>i. drop_bit (5 * (5 - i)) m AND 31) [0..<6]"
  have z: "z = [0, 0, 0, 0, 0, 0]" by (simp add: z_def numeral_eq_Suc)
  then have cs: "createChecksum hrp words v = ?cs"
    by (simp add: createChecksum_def Let_def polymod_def m_def p_def s_def)
  have "foldl polymod_step (s XOR 0) (map2 (XOR) z ?cs) = p XOR foldl polymod_step 0 ?cs"
    unfolding p_def by (rule polymod_xor) (simp add: z_def)
  also have "map2 (XOR) z ?cs = ?cs" by (simp add: z upt_6)
  finally have "foldl polymod_step s ?cs = p XOR m" using polymod_zero [OF m] by simp
  moreover have pm: "p XOR m = versionConst v" by (simp add: m_def flip: xor.assoc)
  ultimately have pm: "foldl polymod_step s ?cs = versionConst v" by simp
  then show "calculateChecksum hrp (words @ createChecksum hrp words v) = versionConst v"
    using pm by (simp add: calculateChecksum_def polymod_def cs s_def)
  show "\<forall>w\<in>set (createChecksum hrp words v). w < 32" "length (createChecksum hrp words v) = 6"
    by (auto simp: cs and_31)
qed

section \<open>Decoding inverts encoding\<close>

lemma length_bech32_alphabet [simp]: "length bech32_alphabet = 32"
  by (simp add: bech32_alphabet_def)

lemma distinct_bech32_alphabet: "distinct bech32_alphabet"
  by (simp add: bech32_alphabet_def)

lemma bech32_alphabet_set:
  "c \<in> set bech32_alphabet \<Longrightarrow> \<not> isUpper c \<and> c \<noteq> CHR ''1''"
  by (auto simp: bech32_alphabet_def isUpper_def)

lemma find_rev_upt_last:
  assumes "P n" "n < m" "\<And>i. n < i \<Longrightarrow> i < m \<Longrightarrow> \<not> P i"
  shows "find P (rev [0..<m]) = Some n"
  using assms
proof (induction m)
  case (Suc m)
  show ?case
  proof (cases "n = m")
    case False
    then have "n < m" "\<not> P m" using Suc.prems by simp_all
    then show ?thesis using Suc by simp
  qed (use Suc.prems in simp)
qed simp

lemma lastIndexOf_append:
  assumes "c \<notin> set t"
  shows "lastIndexOf (s @ c # t) c = int (length s)"
proof -
  have "\<not> (s @ c # t) ! i = c" if i: "length s < i" "i < length (s @ c # t)" for i
  proof -
    obtain j where j: "i = length s + Suc j" using i(1) less_imp_Suc_add by auto
    then show ?thesis using assms i(2) by (auto simp: nth_append)
  qed
  then have "find (\<lambda>i. (s @ c # t) ! i = c) (rev [0..<length (s @ c # t)]) = Some (length s)"
    by (intro find_rev_upt_last) auto
  then show ?thesis by (simp only: lastIndexOf_def option.case)
qed

definition hrp_ok :: "string \<Rightarrow> bool" where
  "hrp_ok hrp \<longleftrightarrow> hrp \<noteq> [] \<and>
     (\<forall>c\<in>set hrp. \<not> isUpper c \<and> 33 \<le> (of_char c :: nat) \<and> (of_char c :: nat) \<le> 126)"

lemma map_res_decodeWord:
  "\<forall>w\<in>set ws. w < 32 \<Longrightarrow> map_res decodeWord (map ((!) bech32_alphabet) ws) = Inr ws"
  by (induction ws) (simp_all add: decodeWord_def indexOf_nth [OF distinct_bech32_alphabet])

lemma bech32_encode_eq:
  assumes "\<forall>w\<in>set words. w < 32"
  shows "bech32_encode hrp words v
    = hrp @ CHR ''1'' # map ((!) bech32_alphabet) (words @ createChecksum hrp words v)"
proof -
  let ?ws = "words @ createChecksum hrp words v"
  have "\<forall>w\<in>set ?ws. w < 32" using assms checksum_words(2) [OF assms] by auto
  then have "map (\<lambda>w. if w < 32 then [bech32_alphabet ! w] else ''undefined'') ?ws
      = map (\<lambda>w. [bech32_alphabet ! w]) ?ws"
    by (intro map_cong) auto
  note m = this
  have "concat (map (\<lambda>w. [bech32_alphabet ! w]) ws) = map ((!) bech32_alphabet) ws" for ws
    by (induction ws) simp_all
  then show ?thesis unfolding bech32_encode_def Let_def m by simp
qed

lemma map_toLower: "\<forall>c\<in>set s. \<not> isUpper c \<Longrightarrow> map toLower s = s"
  by (simp add: toLower_def map_idI)

lemma bech32_roundtrip_lemma:
  assumes "hrp_ok hrp" "\<forall>w\<in>set words. w < 32"
  shows "bech32_decode (bech32_encode hrp words v)
    = Inr \<lparr>b32_hrp = hrp, b32_words = words, b32_version = v\<rparr>"
proof -
  define ws where "ws = words @ createChecksum hrp words v"
  define enc where "enc = hrp @ CHR ''1'' # map ((!) bech32_alphabet) ws"
  have ws: "\<forall>w\<in>set ws. w < 32" "length ws = length words + 6"
    using assms(2) checksum_words(2,3) [OF assms(2), of hrp v] by (auto simp: ws_def)
  have alpha: "set (map ((!) bech32_alphabet) ws) \<subseteq> set bech32_alphabet"
    using ws(1) by (auto intro!: nth_mem)
  then have up: "\<forall>c\<in>set enc. \<not> isUpper c"
    using assms(1) bech32_alphabet_set by (auto simp: enc_def hrp_ok_def isUpper_def)
  have "CHR ''1'' \<notin> set (map ((!) bech32_alphabet) ws)" using alpha bech32_alphabet_set by blast
  then have idx: "lastIndexOf enc CHR ''1'' = int (length hrp)"
    unfolding enc_def by (rule lastIndexOf_append)
  have hrp: "hrp \<noteq> []" "length hrp \<ge> 1" "\<not> (\<exists>c\<in>set hrp. (of_char c :: nat) < 33 \<or> (of_char c :: nat) > 126)"
    using assms(1) by (auto simp: hrp_ok_def Suc_le_eq)
  have sl: "slice 0 (int (length ws) - 6) ws = words"
    using slice_0 [of "length words" ws] by (simp add: ws(2)) (simp add: ws_def)
  have parts: "take (length hrp) enc = hrp"
      "drop (length hrp + 1) enc = map ((!) bech32_alphabet) ws"
      "length enc = length hrp + length ws + 1"
    by (simp_all add: enc_def)
  have "calculateChecksum hrp ws = versionConst v"
    unfolding ws_def by (rule checksum_words(1) [OF assms(2)])
  then have "bech32_decode enc = Inr \<lparr>b32_hrp = hrp, b32_words = words, b32_version = v\<rparr>"
    unfolding bech32_decode_def
    using up hrp ws(2) sl parts map_res_decodeWord [OF ws(1)]
    by (cases v) (simp_all add: map_toLower idx Let_def versionConst_def nat_add_distrib)
  then show ?thesis by (simp add: bech32_encode_eq [OF assms(2)] enc_def ws_def)
qed

text \<open>
  \<^verbatim>\<open>Bech32.decode\<close> inverts \<^verbatim>\<open>Bech32.encode\<close> for both checksum constants: every sequence of
  5-bit words encoded under a lower-case human readable part, however long and even one that
  itself contains the separator \<^verbatim>\<open>1\<close>, decodes to the same part, the same words and the version it
  was written with.
\<close>
theorem bech32_roundtrip:
  assumes "hrp_ok hrp" "\<forall>w\<in>set words. w < 32"
  shows "bech32_decode (bech32_encode hrp words v)
    = Inr \<lparr>b32_hrp = hrp, b32_words = words, b32_version = v\<rparr>"
  using assms by (rule bech32_roundtrip_lemma)

theorem bech32_roundtrip_witness:
  "bech32_decode (bech32_encode ''bc1r'' [0, 31, 7] Bech32m)
    = Inr \<lparr>b32_hrp = ''bc1r'', b32_words = [0, 31, 7], b32_version = Bech32m\<rparr>"
  by (rule bech32_roundtrip) (simp_all add: hrp_ok_def isUpper_def)

section \<open>Error detection\<close>

text \<open>
  One step is injective on 30-bit states: the low five bits of the feedback already determine
  which generators were added.  So two inputs that differ never meet again in the same state by
  reading the same words.
\<close>

lemma feedback_low:
  assumes "t < 32" "take_bit 5 (feedback t) = 0"
  shows "t = 0"
proof (rule bit_eqI)
  have n: "\<not> bit t 0 \<and> \<not> bit t 1 \<and> \<not> bit t 2 \<and> \<not> bit t 3 \<and> \<not> bit t 4"
    using assms(2) unfolding feedback_def
    by (cases "bit t 0"; cases "bit t 1"; cases "bit t 2"; cases "bit t 3"; cases "bit t 4")
      (simp_all add: pick_def)
  fix k
  show "bit t k \<longleftrightarrow> bit 0 k"
  proof (cases "k < 5")
    case True
    then have "k \<in> {0, 1, 2, 3, 4}" by auto
    then show ?thesis using n by auto
  next
    case False
    then have "(2 :: nat) ^ 5 \<le> 2 ^ k" by (intro power_increasing) auto
    then show ?thesis using assms(1) by (simp add: bit_iff_odd)
  qed
qed

lemma shift_state_zero:
  assumes "x < 2 ^ 30" "shift_state x = 0"
  shows "x = 0"
proof -
  have "take_bit 5 (push_bit 5 (take_bit 25 x) XOR feedback (drop_bit 25 x)) = 0"
    using assms(2) by (simp add: shift_state_def)
  then have "take_bit 5 (feedback (drop_bit 25 x)) = 0"
    by (simp add: take_bit_xor take_bit_push_bit)
  moreover have "drop_bit 25 x < 32" using assms(1) by (simp add: drop_bit_eq_div div_less_iff_less_mult)
  ultimately have t: "drop_bit 25 x = 0" using feedback_low by blast
  then have "push_bit 5 (take_bit 25 x) = 0"
    using assms(2) by (simp add: shift_state_def feedback_def pick_def)
  then have "take_bit 25 x = 0" by (simp add: push_bit_eq_0_iff)
  then show ?thesis using t bits_ident [of 25 x] by simp
qed

lemma xor_right_cancel: "(a :: nat) XOR c = b XOR c \<Longrightarrow> a = b"
proof -
  assume "a XOR c = b XOR c"
  then have "(a XOR c) XOR c = (b XOR c) XOR c" by simp
  then show "a = b" by (simp only: xor.assoc xor_self_eq xor.right_neutral)
qed

lemma shift_state_inj:
  assumes "s < 2 ^ 30" "t < 2 ^ 30" "shift_state s = shift_state t"
  shows "s = t"
proof -
  have "shift_state (s XOR t) = 0" using assms(3) by (simp add: shift_state_xor)
  then have "s XOR t = 0" by (rule shift_state_zero [OF xor_less [OF assms(1,2)]])
  then show ?thesis using xor_right_cancel [of s t t] by simp
qed

lemma polymod_inj:
  assumes "s < 2 ^ 30" "t < 2 ^ 30" "\<forall>v\<in>set vs. v < 2 ^ 30"
    and "foldl polymod_step s vs = foldl polymod_step t vs"
  shows "s = t"
  using assms
proof (induction vs arbitrary: s t)
  case (Cons v vs)
  have v: "polymod_step s v < 2 ^ 30" "polymod_step t v < 2 ^ 30"
    unfolding polymod_step_eq using Cons.prems(3) by (intro xor_less shift_state_less; simp)+
  have "polymod_step s v = polymod_step t v"
    by (rule Cons.IH [OF v]) (use Cons.prems(3,4) in simp_all)
  then have "shift_state s = shift_state t" unfolding polymod_step_eq by (rule xor_right_cancel)
  then show ?case by (rule shift_state_inj [OF Cons.prems(1,2)])
qed simp

text \<open>
  C40: the checksum detects every substitution of a single character, in a string of any length: two
  word sequences that differ in exactly one place, in the data or in the checksum itself, never
  have the same checksum value under one human readable part.
\<close>
theorem bech32_single_error:
  assumes "\<forall>w\<in>set (xs @ a # ys). w < 32" "b < 32" "a \<noteq> b"
  shows "calculateChecksum hrp (xs @ a # ys) \<noteq> calculateChecksum hrp (xs @ b # ys)"
proof
  define s where "s = foldl polymod_step 1 (hrpExpand hrp @ xs)"
  have ab: "a < 2 ^ 30" "b < 2 ^ 30" using assms(1,2) by auto
  have "v < 2 ^ 30" if "v \<in> set ys" for v
  proof -
    have "v < 32" using assms(1) that by simp
    then show ?thesis by simp
  qed
  then have ys: "\<forall>v\<in>set ys. v < 2 ^ 30" by blast
  have step: "polymod_step s a < 2 ^ 30" "polymod_step s b < 2 ^ 30"
    unfolding polymod_step_eq by (intro xor_less shift_state_less ab)+
  assume "calculateChecksum hrp (xs @ a # ys) = calculateChecksum hrp (xs @ b # ys)"
  then have "foldl polymod_step (polymod_step s a) ys = foldl polymod_step (polymod_step s b) ys"
    by (simp add: calculateChecksum_def polymod_def s_def)
  then have "polymod_step s a = polymod_step s b" by (rule polymod_inj [OF step ys])
  then have "a XOR shift_state s = b XOR shift_state s" by (simp add: polymod_step_eq xor.commute)
  then have "a = b" by (rule xor_right_cancel)
  then show False using assms(3) by simp
qed

theorem bech32_single_error_witness:
  "calculateChecksum ''bc'' ([3] @ 7 # [1, 2, 31]) \<noteq> calculateChecksum ''bc'' ([3] @ 8 # [1, 2, 31])"
  by (rule bech32_single_error) simp_all

end
