(* ===== verification/Address.thy ===== *)
theory Address
  imports Bech32
begin

text \<open>
  \<^verbatim>\<open>packages/bitcoin/lib/Address.ts\<close> with the operations of \<^verbatim>\<open>Script.ts\<close> and
  \<^verbatim>\<open>ScriptBuf.ts\<close> that print and read addresses.  The hash functions and the check of a
  public key are parameters.
\<close>

section \<open>Addresses\<close>

datatype AddressType = P2pkh | P2sh | P2wpkh | P2wsh

record address_result =
  addr_type :: "AddressType option"
  addr_network :: network
  addr_hash :: buffer

record base58_address =
  a58_type :: AddressType
  a58_network :: network
  a58_prefix :: nat
  a58_hash :: buffer

record bech32_address =
  a32_type :: "AddressType option"
  a32_network :: network
  a32_version :: nat
  a32_program :: buffer

definition addr_encodeBase58 :: "(buffer \<Rightarrow> buffer) \<Rightarrow> nat \<Rightarrow> buffer \<Rightarrow> string res" where
  "addr_encodeBase58 sha256 prefix hash =
     (if length hash \<noteq> 20 then Inl (BitcoinError ''Hash160Invalid'')
      else base58check_encode sha256 ([of_nat prefix] @ hash))"

definition addr_decodeBase58 :: "(buffer \<Rightarrow> buffer) \<Rightarrow> string \<Rightarrow> base58_address res" where
  "addr_decodeBase58 sha256 encoded =
     bind_res (base58check_decode sha256 encoded) (\<lambda>data.
       let hash = drop 1 data
       in if length hash \<noteq> 20 then Inl (BitcoinError ''Hash160Invalid'')
          else let prefix = unat (data ! 0)
               in case find (\<lambda>n. p2pkhPrefix n = prefix \<or> p2shPrefix n = prefix) all_networks of
                    Some n \<Rightarrow> Inr \<lparr>a58_type = (if p2pkhPrefix n = prefix then P2pkh else P2sh),
                                  a58_network = n, a58_prefix = prefix, a58_hash = hash\<rparr>
                  | None \<Rightarrow> Inl (BitcoinError ''UnknownAddressPrefix''))"

definition addr_encodeBech32 :: "string \<Rightarrow> nat \<Rightarrow> buffer \<Rightarrow> string res" where
  "addr_encodeBech32 prefix version program =
     bind_res (bufferToWords program True) (\<lambda>ws. Inr (bech32_encode prefix (version # ws) Bech32))"

text \<open>
  Without a word there is no version: the comparisons with \<^verbatim>\<open>undefined\<close> are all false and the
  empty program is rejected for its length.
\<close>

definition addr_decodeBech32 :: "string \<Rightarrow> bech32_address res" where
  "addr_decodeBech32 encoded = bind_res (bech32_decode encoded) (\<lambda>r.
     let hrp = b32_hrp r; words = b32_words r; checksum = b32_version r
     in case words of
       [] \<Rightarrow> Inl (BitcoinError ''InvalidWitnessProgram'')
     | version # rest \<Rightarrow>
         if version > 16 then Inl (BitcoinError ''InvalidSegwitVersion'')
         else if version = 0 \<and> checksum \<noteq> Bech32 then Inl invalidEncoding
         else if version > 0 \<and> checksum \<noteq> Bech32m then Inl invalidEncoding
         else bind_res (wordsToBuffer rest False) (\<lambda>program.
           let type = (if version = 0 \<and> length program = 20 then Some P2wpkh
                       else if version = 0 \<and> length program = 32 then Some P2wsh else None)
           in if version = 0 \<and> length program \<noteq> 20 \<and> length program \<noteq> 32
              then Inl (BitcoinError ''InvalidWitnessProgram'')
              else if length program < 2 \<or> length program > 40
              then Inl (BitcoinError ''InvalidWitnessProgram'')
              else case find (\<lambda>n. hrp = p2wpkhPrefix n) all_networks of
                     Some n \<Rightarrow> Inr \<lparr>a32_type = type, a32_network = n, a32_version = version,
                                   a32_program = program\<rparr>
                   | None \<Rightarrow> Inl (BitcoinError ''UnknownAddressPrefix'')))"

definition toUpper :: "char \<Rightarrow> char" where
  "toUpper c = (if isLower c then char_of ((of_char c :: nat) - 32) else c)"

definition startsWith :: "string \<Rightarrow> string \<Rightarrow> bool" where
  "startsWith s p \<longleftrightarrow> take (length p) s = p"

definition bech32Prefixes :: "string list" where
  "bech32Prefixes = concat (map (\<lambda>n. [p2wpkhPrefix n, map toUpper (p2wpkhPrefix n),
     p2wshPrefix n, map toUpper (p2wshPrefix n)]) all_networks)"

definition addr_fromStr :: "(buffer \<Rightarrow> buffer) \<Rightarrow> string \<Rightarrow> address_result res" where
  "addr_fromStr sha256 address =
     (if \<exists>p\<in>set bech32Prefixes. startsWith address p
      then bind_res (addr_decodeBech32 address) (\<lambda>r.
             Inr \<lparr>addr_type = a32_type r, addr_network = a32_network r, addr_hash = a32_program r\<rparr>)
      else bind_res (addr_decodeBase58 sha256 address) (\<lambda>r.
             Inr \<lparr>addr_type = Some (a58_type r), addr_network = a58_network r, addr_hash = a58_hash r\<rparr>))"

section \<open>Scripts and addresses\<close>

text \<open>A witness version the switch does not name gives no script: \<open>p2addrLock\<close> returns \<^verbatim>\<open>undefined\<close>.\<close>

definition p2addrLock ::
  "(buffer \<Rightarrow> bool) \<Rightarrow> (buffer \<Rightarrow> buffer) \<Rightarrow> (buffer \<Rightarrow> buffer) \<Rightarrow> string \<Rightarrow> script option res" where
  "p2addrLock validPublicKey sha256 ripemd160 address =
     bind_res (addr_fromStr sha256 address) (\<lambda>r.
       case addr_type r of
         Some P2pkh \<Rightarrow> bind_res (p2pkhLock validPublicKey sha256 ripemd160 (addr_hash r)) (\<lambda>s. Inr (Some s))
       | Some P2sh \<Rightarrow> bind_res (p2shLock sha256 ripemd160 (Inr (addr_hash r))) (\<lambda>s. Inr (Some s))
       | Some P2wpkh \<Rightarrow> bind_res (p2wpkhLock validPublicKey sha256 ripemd160 (addr_hash r)) (\<lambda>s. Inr (Some s))
       | Some P2wsh \<Rightarrow> bind_res (p2wshLock sha256 (Inr (addr_hash r))) (\<lambda>s. Inr (Some s))
       | None \<Rightarrow> Inr None)"

definition toP2shAddress ::
  "(buffer \<Rightarrow> buffer) \<Rightarrow> (buffer \<Rightarrow> buffer) \<Rightarrow> script \<Rightarrow> network \<Rightarrow> string res" where
  "toP2shAddress sha256 ripemd160 s network =
     bind_res (script_hash160 sha256 ripemd160 s) (addr_encodeBase58 sha256 (p2shPrefix network))"

definition toP2wshAddress :: "(buffer \<Rightarrow> buffer) \<Rightarrow> script \<Rightarrow> network \<Rightarrow> string res" where
  "toP2wshAddress sha256 s network =
     bind_res (script_sha256 sha256 s) (addr_encodeBech32 (p2wshPrefix network) 0)"

section \<open>The first character of a Base58 number\<close>

lemma base58_hd:
  assumes "d * 58 ^ k \<le> n" "n < (d + 1) * 58 ^ k" "0 < d" "d < 58"
  shows "base58_digits n [] \<noteq> [] \<and> hd (base58_digits n []) = base58_alphabet ! d"
  using assms
proof (induction k arbitrary: n)
  case 0
  then have "n = d" by simp
  then show ?case using 0 by (simp add: base58_digits.simps bigint_divmod_def)
next
  case (Suc k)
  have n: "d * 58 ^ k * 58 \<le> n" "n < (d + 1) * 58 ^ k * 58" using Suc.prems(1,2) by (simp_all add: algebra_simps)
  have "d * 58 ^ k \<le> n div 58" "n div 58 < (d + 1) * 58 ^ k"
    using n by (simp_all add: less_eq_div_iff_mult_less_eq div_less_iff_less_mult)
  then have IH: "base58_digits (n div 58) [] \<noteq> [] \<and> hd (base58_digits (n div 58) []) = base58_alphabet ! d"
    using Suc.prems(3,4) by (rule Suc.IH)
  have "0 < n" using n(1) Suc.prems(3) by (cases n) simp_all
  then show ?case using IH by (simp add: base58_digits_snoc)
qed

lemma networks_cases: "n \<in> set all_networks \<Longrightarrow> n = mainnet \<or> n = testnet \<or> n = regtest"
  by (simp add: all_networks_def)

lemmas network_defs = mainnet_def testnet_def regtest_def

lemma bech32Prefixes_eq: "bech32Prefixes =
  [''bc'', ''BC'', ''bc'', ''BC'', ''tb'', ''TB'', ''tb'', ''TB'', ''bcrt'', ''BCRT'', ''bcrt'', ''BCRT'']"
  by (simp add: bech32Prefixes_def all_networks_def network_defs toUpper_def isLower_def char_of_def bit_Suc_0_iff)

lemma not_bech32:
  assumes "s \<noteq> []" "hd s \<notin> set ''bBtT''"
  shows "\<not> (\<exists>p\<in>set bech32Prefixes. startsWith s p)"
  using assms by (cases s) (simp_all add: bech32Prefixes_eq startsWith_def)

text \<open>The five version bytes in use decide the first character of the address.\<close>

lemma base58_first:
  assumes "length bs = 24" "p \<in> {0, 5, 0x6f, 0xc4}" "base58_encode (of_nat p # bs) = Inr s"
  shows "s \<noteq> [] \<and> hd s \<notin> set ''bBtT''"
proof (cases "p = 0")
  case True
  then show ?thesis using assms(3) by (auto simp: base58_encode_def bigFromBufBE_eq)
next
  case False
  let ?n = "be_val (of_nat p # bs)"
  have "unat (of_nat p :: byte) = p" "p < 256" using assms(2) by auto
  then have n: "?n = p * 256 ^ 24 + be_val bs" "(of_nat p :: byte) \<noteq> 0"
    using assms(1) False by (auto simp: be_val_Cons unat_eq_0)
  have "be_val bs < 256 ^ 24" using be_val_less [of bs] assms(1) by simp
  then have r: "p * 256 ^ 24 \<le> ?n" "?n < (p + 1) * 256 ^ 24" using n(1) by simp_all
  have s: "s = base58_digits ?n []" using assms(3) n(2) by (simp add: base58_encode_def bigFromBufBE_eq)
  consider "p = 5" | "p = 0x6f" "?n < 45 * 58 ^ 33" | "p = 0x6f" "45 * 58 ^ 33 \<le> ?n" | "p = 0xc4"
    using assms(2) False by fastforce
  then show ?thesis
  proof cases
    case 1
    then have "2 * 58 ^ 33 \<le> ?n" "?n < (2 + 1) * 58 ^ 33" using r by simp_all
    from base58_hd [OF this] show ?thesis unfolding s by (simp add: base58_alphabet_def)
  next
    case 2
    then have "44 * 58 ^ 33 \<le> ?n" "?n < (44 + 1) * 58 ^ 33" using r by simp_all
    from base58_hd [OF this] show ?thesis unfolding s by (simp add: base58_alphabet_def)
  next
    case 3
    then have "45 * 58 ^ 33 \<le> ?n" "?n < (45 + 1) * 58 ^ 33" using r by simp_all
    from base58_hd [OF this] show ?thesis unfolding s by (simp add: base58_alphabet_def)
  next
    case 4
    then have "1 * 58 ^ 34 \<le> ?n" "?n < (1 + 1) * 58 ^ 34" using r by simp_all
    from base58_hd [OF this] show ?thesis unfolding s by (simp add: base58_alphabet_def)
  qed
qed

lemma base58_address:
  assumes "\<And>x. length (sha256 x) = 32" "length hash = 20"
    and "\<exists>b\<in>set (of_nat p # hash @ take 4 (hash256 sha256 (of_nat p # hash))). b \<noteq> 0" "p \<in> {0, 5, 0x6f, 0xc4}"
  obtains s where "addr_encodeBase58 sha256 p hash = Inr s"
    "addr_fromStr sha256 s = bind_res (addr_decodeBase58 sha256 s) (\<lambda>r.
       Inr \<lparr>addr_type = Some (a58_type r), addr_network = a58_network r, addr_hash = a58_hash r\<rparr>)"
    "base58check_decode sha256 s = Inr (of_nat p # hash)"
proof -
  let ?raw = "[of_nat p] @ hash" and ?sum = "slice 0 4 (hash256 sha256 (of_nat p # hash))"
  have "bind_res (base58check_encode sha256 ?raw) (base58check_decode sha256) = Inr ?raw"
    using assms(3) by (intro base58check_roundtrip [OF assms(1)]) simp
  then obtain s where s: "base58check_encode sha256 ?raw = Inr s" "base58check_decode sha256 s = Inr ?raw"
    by (auto simp only: bind_res_eq_Inr)
  have "length (hash @ ?sum) = 24"
    using assms(1,2) slice_0 [of 4 "hash256 sha256 (of_nat p # hash)"] by (simp add: hash256_def)
  moreover have "base58_encode (of_nat p # hash @ ?sum) = Inr s"
    using s(1) by (simp add: base58check_encode_def)
  ultimately have "s \<noteq> [] \<and> hd s \<notin> set ''bBtT''" using assms(4) by (intro base58_first)
  then have "\<not> (\<exists>p\<in>set bech32Prefixes. startsWith s p)" using not_bech32 by blast
  then show thesis using that [of s] s assms(2) by (simp add: addr_encodeBase58_def addr_fromStr_def)
qed

lemma words_roundtrip_obtain:
  obtains words where "bufferToWords buf True = Inr words" "\<forall>w\<in>set words. w < 32"
    "wordsToBuffer words False = Inr buf"
  using words_roundtrip_lemma [of buf] by blast

lemma find_bech32_network:
  "n \<in> set all_networks \<Longrightarrow> find (\<lambda>m. p2wpkhPrefix n = p2wpkhPrefix m) all_networks = Some n"
  by (auto simp: all_networks_def network_defs)

lemma decodeBech32_v0:
  assumes "n \<in> set all_networks" "length program \<in> {20, 32}"
    and "bech32_decode s = Inr \<lparr>b32_hrp = p2wpkhPrefix n, b32_words = 0 # words, b32_version = Bech32\<rparr>"
    and "wordsToBuffer words False = Inr program"
  shows "addr_decodeBech32 s = Inr \<lparr>a32_type = Some (if length program = 20 then P2wpkh else P2wsh),
    a32_network = n, a32_version = 0, a32_program = program\<rparr>"
proof -
  have "\<not> (length program < 2 \<or> 40 < length program)" using assms(2) by auto
  then show ?thesis
    using assms(2) by (auto simp add: addr_decodeBech32_def assms(3,4) find_bech32_network [OF assms(1)])
qed

lemma bech32_address:
  assumes "n \<in> set all_networks" "version < 32"
  obtains s words where "addr_encodeBech32 (p2wpkhPrefix n) version program = Inr s"
    "addr_fromStr sha256 s = bind_res (addr_decodeBech32 s) (\<lambda>r.
       Inr \<lparr>addr_type = a32_type r, addr_network = a32_network r, addr_hash = a32_program r\<rparr>)"
    "bech32_decode s = Inr \<lparr>b32_hrp = p2wpkhPrefix n, b32_words = version # words, b32_version = Bech32\<rparr>"
    "wordsToBuffer words False = Inr program"
proof -
  obtain words where w: "bufferToWords program True = Inr words" "\<forall>w\<in>set words. w < 32"
    "wordsToBuffer words False = Inr program" by (rule words_roundtrip_obtain)
  define s where "s = bech32_encode (p2wpkhPrefix n) (version # words) Bech32"
  have ws: "\<forall>w\<in>set (version # words). w < 32" using w(2) assms(2) by simp
  have "hrp_ok (p2wpkhPrefix n)"
    using networks_cases [OF assms(1)] by (auto simp: network_defs hrp_ok_def isUpper_def)
  then have "bech32_decode s = Inr \<lparr>b32_hrp = p2wpkhPrefix n, b32_words = version # words, b32_version = Bech32\<rparr>"
    unfolding s_def by (rule bech32_roundtrip_lemma [OF _ ws])
  moreover have "\<exists>p\<in>set bech32Prefixes. startsWith s p"
    using networks_cases [OF assms(1)] unfolding s_def bech32_encode_eq [OF ws]
    by (auto simp: bech32Prefixes_eq startsWith_def network_defs)
  ultimately show thesis using that [of s words] w
    by (simp add: addr_encodeBech32_def addr_fromStr_def s_def)
qed

text \<open>Regtest shares its version bytes with testnet, which is found first.\<close>

definition base58_network :: "network \<Rightarrow> network" where
  "base58_network n = (if n = mainnet then mainnet else testnet)"

lemma address_nonzero:
  assumes "take 4 (hash256 sha256 (replicate 21 0)) \<noteq> replicate 4 0" "\<And>x. length (sha256 x) = 32" "length hash = 20"
  shows "\<exists>b\<in>set (of_nat p # hash @ take 4 (hash256 sha256 (of_nat p # hash))). b \<noteq> 0"
proof (rule ccontr)
  assume zero: "\<not> ?thesis"
  then have p: "(of_nat p :: byte) = 0" and h: "\<forall>b\<in>set hash. b = 0" by auto
  have "hash = replicate 20 0" using h assms(3) by (simp add: replicate_eqI)
  then have raw: "of_nat p # hash = replicate 21 0" using p replicate_Suc [of 20 "0 :: byte"] by simp
  have "\<forall>b\<in>set (take 4 (hash256 sha256 (of_nat p # hash))). b = 0" using zero by auto
  moreover have "length (take 4 (hash256 sha256 (of_nat p # hash))) = 4" using assms(2) by (simp add: hash256_def)
  ultimately have "take 4 (hash256 sha256 (of_nat p # hash)) = replicate 4 0" by (simp add: replicate_eqI)
  then show False using assms(1) unfolding raw by simp
qed

text \<open>
  C39: What \<^verbatim>\<open>Address.fromStr\<close> makes of the addresses the library prints for its networks.  A P2PKH or
  P2SH address gives back its type and its hash and, since regtest shares the version bytes of testnet, the first
  network with those bytes, which is testnet for regtest; a version 0 witness program of 20 or 32 bytes gives back its
  type, its network and the program.  What \<^verbatim>\<open>encodeBech32\<close> prints for the versions 1 to 16 is rejected,
  because it carries the checksum of version 0.  (Of SHA-256 it is assumed that it yields 32 bytes, and that the checksum of 21
  zeros is not zero.)
\<close>
theorem address_roundtrip:
  assumes "\<And>x. length (sha256 x) = 32" "take 4 (hash256 sha256 (replicate 21 0)) \<noteq> replicate 4 0" "n \<in> set all_networks"
    and "length hash = 20" "length program \<in> {20, 32}" "1 \<le> version" "version \<le> 16"
  shows "bind_res (addr_encodeBase58 sha256 (p2pkhPrefix n) hash) (addr_fromStr sha256)
      = Inr \<lparr>addr_type = Some P2pkh, addr_network = base58_network n, addr_hash = hash\<rparr>
    \<and> bind_res (addr_encodeBase58 sha256 (p2shPrefix n) hash) (addr_fromStr sha256)
      = Inr \<lparr>addr_type = Some P2sh, addr_network = base58_network n, addr_hash = hash\<rparr>
    \<and> bind_res (addr_encodeBech32 (p2wpkhPrefix n) 0 program) (addr_fromStr sha256)
      = Inr \<lparr>addr_type = Some (if length program = 20 then P2wpkh else P2wsh), addr_network = n,
             addr_hash = program\<rparr>
    \<and> bind_res (addr_encodeBech32 (p2wpkhPrefix n) version other) (addr_fromStr sha256) = Inl invalidEncoding"
proof (intro conjI)
  have p: "p2pkhPrefix n \<in> {0, 5, 0x6f, 0xc4}" "p2shPrefix n \<in> {0, 5, 0x6f, 0xc4}"
    using networks_cases [OF assms(3)] by (auto simp: network_defs)
  obtain s where s: "addr_encodeBase58 sha256 (p2pkhPrefix n) hash = Inr s"
    "addr_fromStr sha256 s = bind_res (addr_decodeBase58 sha256 s) (\<lambda>r.
       Inr \<lparr>addr_type = Some (a58_type r), addr_network = a58_network r, addr_hash = a58_hash r\<rparr>)"
    "base58check_decode sha256 s = Inr (of_nat (p2pkhPrefix n) # hash)"
    by (rule base58_address [OF assms(1,4) address_nonzero [OF assms(2,1,4)] p(1)])
  then show "bind_res (addr_encodeBase58 sha256 (p2pkhPrefix n) hash) (addr_fromStr sha256)
      = Inr \<lparr>addr_type = Some P2pkh, addr_network = base58_network n, addr_hash = hash\<rparr>"
    using networks_cases [OF assms(3)] assms(4)
    by (auto simp: addr_decodeBase58_def base58_network_def all_networks_def network_defs)
  obtain s where s: "addr_encodeBase58 sha256 (p2shPrefix n) hash = Inr s"
    "addr_fromStr sha256 s = bind_res (addr_decodeBase58 sha256 s) (\<lambda>r.
       Inr \<lparr>addr_type = Some (a58_type r), addr_network = a58_network r, addr_hash = a58_hash r\<rparr>)"
    "base58check_decode sha256 s = Inr (of_nat (p2shPrefix n) # hash)"
    by (rule base58_address [OF assms(1,4) address_nonzero [OF assms(2,1,4)] p(2)])
  then show "bind_res (addr_encodeBase58 sha256 (p2shPrefix n) hash) (addr_fromStr sha256)
      = Inr \<lparr>addr_type = Some P2sh, addr_network = base58_network n, addr_hash = hash\<rparr>"
    using networks_cases [OF assms(3)] assms(4)
    by (auto simp: addr_decodeBase58_def base58_network_def all_networks_def network_defs)
  obtain s words where s: "addr_encodeBech32 (p2wpkhPrefix n) 0 program = Inr s"
    "addr_fromStr sha256 s = bind_res (addr_decodeBech32 s) (\<lambda>r.
       Inr \<lparr>addr_type = a32_type r, addr_network = a32_network r, addr_hash = a32_program r\<rparr>)"
    "bech32_decode s = Inr \<lparr>b32_hrp = p2wpkhPrefix n, b32_words = 0 # words, b32_version = Bech32\<rparr>"
    "wordsToBuffer words False = Inr program"
    by (rule bech32_address [OF assms(3), of 0 program sha256, simplified])
  show "bind_res (addr_encodeBech32 (p2wpkhPrefix n) 0 program) (addr_fromStr sha256)
      = Inr \<lparr>addr_type = Some (if length program = 20 then P2wpkh else P2wsh), addr_network = n,
             addr_hash = program\<rparr>"
    using decodeBech32_v0 [OF assms(3,5) s(3,4)] by (simp add: s(1,2))
  obtain s words where s: "addr_encodeBech32 (p2wpkhPrefix n) version other = Inr s"
    "addr_fromStr sha256 s = bind_res (addr_decodeBech32 s) (\<lambda>r.
       Inr \<lparr>addr_type = a32_type r, addr_network = a32_network r, addr_hash = a32_program r\<rparr>)"
    "bech32_decode s = Inr \<lparr>b32_hrp = p2wpkhPrefix n, b32_words = version # words, b32_version = Bech32\<rparr>"
    by (rule bech32_address [OF assms(3), of version other sha256]) (use assms(7) in simp_all)
  show "bind_res (addr_encodeBech32 (p2wpkhPrefix n) version other) (addr_fromStr sha256) = Inl invalidEncoding"
    using assms(6,7) by (simp add: s addr_decodeBech32_def)
qed

theorem address_roundtrip_witness:
  "bind_res (addr_encodeBase58 (\<lambda>_. replicate 32 1) (p2pkhPrefix mainnet) (replicate 20 0)) (addr_fromStr (\<lambda>_. replicate 32 1))
      = Inr \<lparr>addr_type = Some P2pkh, addr_network = mainnet, addr_hash = replicate 20 0\<rparr>
    \<and> bind_res (addr_encodeBase58 (\<lambda>_. replicate 32 1) (p2shPrefix mainnet) (replicate 20 0)) (addr_fromStr (\<lambda>_. replicate 32 1))
      = Inr \<lparr>addr_type = Some P2sh, addr_network = mainnet, addr_hash = replicate 20 0\<rparr>
    \<and> bind_res (addr_encodeBech32 (p2wpkhPrefix mainnet) 0 (replicate 32 9)) (addr_fromStr (\<lambda>_. replicate 32 1))
      = Inr \<lparr>addr_type = Some P2wsh, addr_network = mainnet, addr_hash = replicate 32 9\<rparr>
    \<and> bind_res (addr_encodeBech32 (p2wpkhPrefix mainnet) 1 [5]) (addr_fromStr (\<lambda>_. replicate 32 1)) = Inl invalidEncoding"
proof -
  let ?h = "\<lambda>_ :: buffer. replicate 32 1 :: buffer"
  have h: "length (?h x) = 32" for x by simp
  have c: "take 4 (hash256 ?h (replicate 21 0)) \<noteq> replicate 4 0" by (simp add: hash256_def)
  have n: "mainnet \<in> set all_networks" "base58_network mainnet = mainnet" by (simp_all add: all_networks_def base58_network_def)
  have l: "length (replicate 20 (0 :: byte)) = 20" "length (replicate 32 (9 :: byte)) \<in> {20, 32}" "length (replicate 32 (9 :: byte)) \<noteq> 20" by simp_all
  have v: "(1 :: nat) \<le> 1" "(1 :: nat) \<le> 16" by simp_all
  from address_roundtrip [OF h c n(1) l(1,2) v, of "[5]"] show ?thesis unfolding n(2) if_not_P [OF l(3)] .
qed

text \<open>
  \<^verbatim>\<open>Script.p2addrLock\<close> locks to what the address was made from: the address that
  \<^verbatim>\<open>toP2shAddress\<close> or \<^verbatim>\<open>toP2wshAddress\<close> prints for a script yields the locking
  script of that script's hash.
\<close>
theorem p2addrLock_script_addresses:
  assumes "\<And>x. length (sha256 x) = 32" "\<And>x. length (ripemd160 x) = 20" "n \<in> set all_networks"
    and "serializeCmds s = Inr bs" "\<exists>b\<in>set (hash160 sha256 ripemd160 bs). b \<noteq> 0"
  shows "bind_res (toP2shAddress sha256 ripemd160 s n) (p2addrLock vpk sha256 ripemd160)
      = Inr (Some [Op OP_HASH160, Data (hash160 sha256 ripemd160 bs), Op OP_EQUAL])
    \<and> bind_res (toP2wshAddress sha256 s n) (p2addrLock vpk sha256 ripemd160)
      = Inr (Some [Op OP_0, Data (sha256 bs)])"
proof
  have p: "p2shPrefix n \<in> {0, 5, 0x6f, 0xc4}"
    using networks_cases [OF assms(3)] by (auto simp: network_defs)
  have len: "length (hash160 sha256 ripemd160 bs) = 20" using assms(2) by (simp add: hash160_def)
  obtain a where "addr_encodeBase58 sha256 (p2shPrefix n) (hash160 sha256 ripemd160 bs) = Inr a"
    "addr_fromStr sha256 a = bind_res (addr_decodeBase58 sha256 a) (\<lambda>r.
       Inr \<lparr>addr_type = Some (a58_type r), addr_network = a58_network r, addr_hash = a58_hash r\<rparr>)"
    "base58check_decode sha256 a = Inr (of_nat (p2shPrefix n) # hash160 sha256 ripemd160 bs)"
    by (rule base58_address [OF assms(1) len _ p]) (use assms(5) in auto)
  then show "bind_res (toP2shAddress sha256 ripemd160 s n) (p2addrLock vpk sha256 ripemd160)
      = Inr (Some [Op OP_HASH160, Data (hash160 sha256 ripemd160 bs), Op OP_EQUAL])"
    using networks_cases [OF assms(3)] len assms(4)
    by (auto simp: toP2shAddress_def script_hash160_def p2addrLock_def addr_decodeBase58_def p2shLock_def
      all_networks_def network_defs)
  obtain a words where a: "addr_encodeBech32 (p2wpkhPrefix n) 0 (sha256 bs) = Inr a"
    "addr_fromStr sha256 a = bind_res (addr_decodeBech32 a) (\<lambda>r.
       Inr \<lparr>addr_type = a32_type r, addr_network = a32_network r, addr_hash = a32_program r\<rparr>)"
    "bech32_decode a = Inr \<lparr>b32_hrp = p2wpkhPrefix n, b32_words = 0 # words, b32_version = Bech32\<rparr>"
    "wordsToBuffer words False = Inr (sha256 bs)"
    by (rule bech32_address [OF assms(3), of 0 "sha256 bs" sha256, simplified])
  have "p2wshPrefix n = p2wpkhPrefix n" using networks_cases [OF assms(3)] by (auto simp: network_defs)
  then show "bind_res (toP2wshAddress sha256 s n) (p2addrLock vpk sha256 ripemd160)
      = Inr (Some [Op OP_0, Data (sha256 bs)])"
    using decodeBech32_v0 [OF assms(3) _ a(3,4)]
    by (simp add: toP2wshAddress_def script_sha256_def p2addrLock_def p2wshLock_def assms(1,4) a(1,2))
qed

theorem p2addrLock_script_addresses_witness:
  "bind_res (toP2shAddress (\<lambda>_. replicate 32 1) (\<lambda>_. replicate 20 1) [Op OP_2, Op OP_DROP] mainnet)
        (p2addrLock (\<lambda>_. True) (\<lambda>_. replicate 32 1) (\<lambda>_. replicate 20 1))
      = Inr (Some [Op OP_HASH160, Data (hash160 (\<lambda>_. replicate 32 1) (\<lambda>_. replicate 20 1) [0x52, 0x75]), Op OP_EQUAL])
    \<and> bind_res (toP2wshAddress (\<lambda>_. replicate 32 1) [Op OP_2, Op OP_DROP] mainnet)
        (p2addrLock (\<lambda>_. True) (\<lambda>_. replicate 32 1) (\<lambda>_. replicate 20 1))
      = Inr (Some [Op OP_0, Data (replicate 32 1)])"
  by (rule p2addrLock_script_addresses)
    (rule length_replicate, rule length_replicate, simp add: all_networks_def,
     simp add: serializeCmds_def serializeCmd_def op_codes, simp add: hash160_def)

text \<open>
  \<^verbatim>\<open>Address.encodeBech32\<close> writes the Bech32 checksum for every version, but
  \<^verbatim>\<open>decodeBech32\<close> requires Bech32m from version 1 on: no address printed for a witness version 1 to 16
  is accepted by the library's own decoder.
\<close>
theorem encodeBech32_later_versions:
  assumes "n \<in> set all_networks" "1 \<le> version" "version \<le> 16"
  shows "bind_res (addr_encodeBech32 (p2wpkhPrefix n) version program) addr_decodeBech32 = Inl invalidEncoding"
proof -
  have "version < 32" using assms(3) by simp
  then obtain s words where "addr_encodeBech32 (p2wpkhPrefix n) version program = Inr s"
    "bech32_decode s = Inr \<lparr>b32_hrp = p2wpkhPrefix n, b32_words = version # words, b32_version = Bech32\<rparr>"
    by (rule bech32_address [OF assms(1)])
  then show ?thesis using assms(2,3) by (simp add: addr_decodeBech32_def)
qed

theorem encodeBech32_later_versions_witness:
  "bind_res (addr_encodeBech32 (p2wpkhPrefix testnet) 1 (replicate 32 5)) addr_decodeBech32 = Inl invalidEncoding"
  by (rule encodeBech32_later_versions) (simp_all add: all_networks_def)

end
