(* ===== verification/Tlv.thy ===== *)
theory Tlv
  imports BufferReader
begin

text \<open>
  \<^verbatim>\<open>packages/lightning/lib/serialize/readTlvs.ts\<close>: the reader of type-length-value streams that
  ends most messages.  The handler is a parameter, as in the code: it gets the type, the message
  under construction and a reader over the value, and says whether it knew the type.
\<close>

section \<open>The reader of streams\<close>

type_synonym 'm tlv_handler = "nat \<Rightarrow> 'm \<Rightarrow> (buffer_reader, bool \<times> 'm) io"

lemma readBigSize_shorter:
  assumes "br_readBigSize r = (Inr v, r')"
  shows "br_good r" "length (br_content r') < length (br_content r)"
proof -
  from assms obtain t r1 where "br_readUInt8 r = (Inr t, r1)"
    unfolding br_readBigSize_def bind_io_apply by (auto split: prod.splits sum.splits)
  then show good: "br_good r"
    by (auto simp: br_readUInt8_def br_readStandard_def br_good_def split: if_splits)
  show "length (br_content r') < length (br_content r)"
    using readBigSize_Inr [OF assms good] by (simp add: length_bigsize_bytes)
qed

lemma readBigSize_good:
  assumes "br_readBigSize r = (Inr v, r')"
  shows "br_good r'"
proof -
  from assms obtain t r1 where t: "br_readUInt8 r = (Inr t, r1)"
    unfolding br_readBigSize_def bind_io_apply by (auto split: prod.splits sum.splits)
  note u8 = readUInt8_Inr [OF t readBigSize_shorter(1) [OF assms]]
  have std: "br_good s'" if "br_readStandard be_val n s = (Inr w, s')" "br_good s" for n s w s'
    using readStandard_Inr [OF that] by blast
  have u64: "br_good s'" if "br_readUInt64BE s = (Inr w, s')" "br_good s" for s w s'
  proof -
    from that(1) obtain bs where "br_readBytes (Some 8) s = (Inr bs, s')"
      by (auto simp: br_readUInt64BE_def io_simps bigFromBufBE_eq split: prod.splits sum.splits if_splits)
    with readBytes_Inr [OF this that(2)] show ?thesis by blast
  qed
  have "r' = r1\<lparr>br_lastReadBytes := 1\<rparr>
      \<or> br_readStandard be_val 2 (r1\<lparr>br_lastReadBytes := 3\<rparr>) = (Inr v, r')
      \<or> br_readStandard be_val 4 (r1\<lparr>br_lastReadBytes := 5\<rparr>) = (Inr v, r')
      \<or> br_readUInt64BE (r1\<lparr>br_lastReadBytes := 9\<rparr>) = (Inr v, r')"
    using assms t unfolding br_readBigSize_def bind_io_apply br_readUInt16BE_def br_readUInt32BE_def
    by (auto simp: bind_io_apply then_setLast return_io_apply throw_io_apply split: prod.splits sum.splits if_splits)
  then show ?thesis
    using u8(3) std [of 2 "r1\<lparr>br_lastReadBytes := 3\<rparr>"] std [of 4 "r1\<lparr>br_lastReadBytes := 5\<rparr>"]
      u64 [of "r1\<lparr>br_lastReadBytes := 9\<rparr>"] by auto
qed

lemma readBytes_shorter:
  "br_readBytes (Some n) r = (Inr v, r') \<Longrightarrow> length (br_content r') \<le> length (br_content r)"
  by (auto simp: br_readBytes_def br_content_def split: if_splits)

lemma record_shorter:
  assumes "(Inr t, r1) = br_readBigSize r" "(Inr n, r2) = br_readBigSize r1"
    "(Inr v, r3) = br_readBytes (Some n) r2"
  shows "length (br_content r3) < length (br_content r)"
  using readBigSize_shorter(2) [OF assms(1) [symmetric]] readBigSize_shorter(2) [OF assms(2) [symmetric]]
    readBytes_shorter [OF assms(3) [symmetric]] by linarith

function readTlvs :: "'m tlv_handler \<Rightarrow> buffer_reader \<Rightarrow> nat option \<Rightarrow> 'm \<Rightarrow> 'm res \<times> buffer_reader" where
  "readTlvs handler r lastType m =
     (if br_eof r then (Inr m, r)
      else case br_readBigSize r of (Inl e, r1) \<Rightarrow> (Inl e, r1) | (Inr type, r1) \<Rightarrow>
        case br_readBigSize r1 of (Inl e, r2) \<Rightarrow> (Inl e, r2) | (Inr len, r2) \<Rightarrow>
          case br_readBytes (Some len) r2 of (Inl e, r3) \<Rightarrow> (Inl e, r3) | (Inr v, r3) \<Rightarrow>
            if (case lastType of None \<Rightarrow> False | Some l \<Rightarrow> type \<le> l)
            then (Inl (JsError ''Invalid TLV stream''), r3)
            else case handler type m (newBufferReader v) of
                (Inl e, _) \<Rightarrow> (Inl e, r3)
              | (Inr (wasHandled, m'), valueReader) \<Rightarrow>
                  if \<not> wasHandled \<and> type mod 2 = 0 then (Inl (JsError ''Unknown even type''), r3)
                  else if wasHandled \<and> \<not> br_eof valueReader
                       then (Inl (JsError ''Non-canonical length''), r3)
                  else readTlvs handler r3 (Some type) m')"
  by auto
termination
  by (relation "measure (\<lambda>(_, r, _, _). length (br_content r))")
    (auto intro: record_shorter)

declare readTlvs.simps [simp del]

section \<open>Exactly the canonical streams are accepted\<close>

definition tlv_bytes :: "(nat \<times> buffer) list \<Rightarrow> buffer" where
  "tlv_bytes recs = concat (map (\<lambda>(t, v). bigsize_bytes t @ bigsize_bytes (length v) @ v) recs)"

text \<open>What the handler makes of the records in turn, if it accepts all of them.\<close>

fun tlv_fold :: "'m tlv_handler \<Rightarrow> (nat \<times> buffer) list \<Rightarrow> 'm \<Rightarrow> 'm option" where
  "tlv_fold handler [] m = Some m"
| "tlv_fold handler ((t, v) # recs) m =
     (case handler t m (newBufferReader v) of
        (Inl e, _) \<Rightarrow> None
      | (Inr (h, m'), vr) \<Rightarrow> if (h \<or> odd t) \<and> (\<not> h \<or> br_eof vr) then tlv_fold handler recs m' else None)"

definition tlv_canonical :: "nat option \<Rightarrow> (nat \<times> buffer) list \<Rightarrow> bool" where
  "tlv_canonical prev recs \<longleftrightarrow> sorted_wrt (<) (map fst recs)
     \<and> (\<forall>(t, v) \<in> set recs. t < 2 ^ 64 \<and> length v < 2 ^ 64
          \<and> (case prev of None \<Rightarrow> True | Some l \<Rightarrow> l < t))"

lemma tlv_canonical_simps [simp]:
  "tlv_canonical prev []"
  "tlv_canonical prev ((t, v) # recs) \<longleftrightarrow> t < 2 ^ 64 \<and> length v < 2 ^ 64
     \<and> \<not> (case prev of None \<Rightarrow> False | Some l \<Rightarrow> t \<le> l) \<and> tlv_canonical (Some t) recs"
  by (auto simp: tlv_canonical_def split: option.splits)

lemma readTlvs_sound:
  "readTlvs handler r prev m = (Inr m', r') \<Longrightarrow> br_good r \<Longrightarrow>
     \<exists>recs. br_content r = tlv_bytes recs \<and> tlv_canonical prev recs \<and> tlv_fold handler recs m = Some m'"
proof (induction handler r prev m rule: readTlvs.induct)
  case (1 handler r prev m)
  show ?case
  proof (cases "br_eof r")
    case True
    then show ?thesis using "1.prems"
      by (intro exI [of _ "[]"]) (auto simp: readTlvs.simps [of handler r] br_eof_iff tlv_bytes_def)
  next
    case False
    obtain t r1 where t: "br_readBigSize r = (Inr t, r1)"
      using "1.prems"(1) False by (auto simp: readTlvs.simps [of handler r] split: prod.splits sum.splits)
    obtain n r2 where n: "br_readBigSize r1 = (Inr n, r2)"
      using "1.prems"(1) False t by (auto simp: readTlvs.simps [of handler r] split: prod.splits sum.splits)
    obtain v r3 where v: "br_readBytes (Some n) r2 = (Inr v, r3)"
      using "1.prems"(1) False t n by (auto simp: readTlvs.simps [of handler r] split: prod.splits sum.splits)
    have l: "\<not> (case prev of None \<Rightarrow> False | Some l \<Rightarrow> t \<le> l)"
      using "1.prems"(1) False t n v by (auto simp: readTlvs.simps [of handler r] split: if_splits)
    obtain h m1 vr where h: "handler t m (newBufferReader v) = (Inr (h, m1), vr)"
      using "1.prems"(1) False t n v l
      by (cases "handler t m (newBufferReader v)"; cases "fst (handler t m (newBufferReader v))")
        (auto simp: readTlvs.simps [of handler r])
    have ok: "h \<or> odd t" "\<not> h \<or> br_eof vr"
      using "1.prems"(1) False t n v l h
      by (auto simp: readTlvs.simps [of handler r] split: if_splits)
    have rest: "readTlvs handler r3 (Some t) m1 = (Inr m', r')"
      using "1.prems"(1) False t n v l h ok by (simp add: readTlvs.simps [of handler r] odd_iff_mod_2_eq_one split: if_splits)
    have t': "t < 2 ^ 64" "br_content r = bigsize_bytes t @ br_content r1"
      using readBigSize_Inr [OF t "1.prems"(2)] by auto
    have n': "n < 2 ^ 64" "br_content r1 = bigsize_bytes n @ br_content r2"
      using readBigSize_Inr [OF n readBigSize_shorter(1) [OF n]] by auto
    have v': "length v = n" "br_content r2 = v @ br_content r3" "br_good r3"
      using readBytes_Inr [OF v readBigSize_good [OF n]] by auto
    obtain recs where recs: "br_content r3 = tlv_bytes recs" "tlv_canonical (Some t) recs"
      "tlv_fold handler recs m1 = Some m'"
      using "1.IH" [OF False t [symmetric] refl n [symmetric] refl v [symmetric] refl l h [symmetric] refl refl _ _ rest v'(3)]
        ok odd_iff_mod_2_eq_one [of t] by auto
    show ?thesis
      by (rule exI [of _ "(t, v) # recs"]) (use t' n' v' l h ok recs in \<open>simp add: tlv_bytes_def\<close>)
  qed
qed

lemma readTlvs_complete:
  "br_good r \<Longrightarrow> br_content r = tlv_bytes recs \<Longrightarrow> tlv_canonical prev recs \<Longrightarrow>
     tlv_fold handler recs m = Some m' \<Longrightarrow> \<exists>r'. readTlvs handler r prev m = (Inr m', r')"
proof (induction recs arbitrary: r prev m)
  case Nil
  then show ?case by (simp add: readTlvs.simps [of handler r] br_eof_iff tlv_bytes_def)
next
  case (Cons rec recs)
  obtain t v where rec: "rec = (t, v)" by (cases rec)
  note can = Cons.prems(3) [unfolded rec, simplified]
  let ?rest = "tlv_bytes recs"
  have content: "br_content r = bigsize_bytes t @ bigsize_bytes (length v) @ v @ ?rest"
    using Cons.prems(2) by (simp add: rec tlv_bytes_def)
  have "reads br_good br_content br_readBigSize (bigsize_bytes t) t"
    using can by (intro reads_readBigSize) simp
  from readsE [OF this Cons.prems(1) content] obtain r1
    where r1: "br_readBigSize r = (Inr t, r1)" "br_good r1" "br_content r1 = bigsize_bytes (length v) @ v @ ?rest" .
  have "reads br_good br_content br_readBigSize (bigsize_bytes (length v)) (length v)"
    using can by (intro reads_readBigSize) simp
  from readsE [OF this r1(2,3)] obtain r2
    where r2: "br_readBigSize r1 = (Inr (length v), r2)" "br_good r2" "br_content r2 = v @ ?rest" .
  from readsE [OF reads_readBytes r2(2,3)] obtain r3
    where r3: "br_readBytes (Some (length v)) r2 = (Inr v, r3)" "br_good r3" "br_content r3 = ?rest" .
  obtain h m1 vr where h: "handler t m (newBufferReader v) = (Inr (h, m1), vr)"
    "(h \<or> odd t) \<and> (\<not> h \<or> br_eof vr)" "tlv_fold handler recs m1 = Some m'"
    using Cons.prems(4) by (auto simp: rec split: prod.splits sum.splits if_splits)
  have "\<not> br_eof r" using Cons.prems(1) content length_bigsize_bytes [of t]
    by (auto simp: br_eof_iff split: if_splits)
  then have "readTlvs handler r prev m = readTlvs handler r3 (Some t) m1"
    using can h(2) by (auto simp: readTlvs.simps [of handler r] r1 r2 r3 h(1) odd_iff_mod_2_eq_one)
  then show ?case using Cons.IH [OF r3(2,3) _ h(3)] can by simp
qed

text \<open>
  C26: \<^verbatim>\<open>readTlvs\<close> succeeds on a buffer exactly if the buffer is the concatenation of records in
  canonical form with strictly increasing types, each accepted by the handler: a record of an even type
  must be handled, and a handled value must be read to its end.  The message it returns is the result of
  handling these records in order.
\<close>
theorem readTlvs_canonical:
  "(\<exists>r'. readTlvs handler (newBufferReader buf) None m = (Inr m', r')) \<longleftrightarrow>
     (\<exists>recs. buf = tlv_bytes recs \<and> tlv_canonical None recs \<and> tlv_fold handler recs m = Some m')"
  using readTlvs_sound [of handler "newBufferReader buf" None m m']
    readTlvs_complete [of "newBufferReader buf" _ None handler m m'] by auto

end
