(* ===== verification/LnDomain.thy ===== *)
theory LnDomain
  imports BtcTypes
begin

text \<open>
  Small types of \<^verbatim>\<open>packages/lightning/lib\<close>: \<^verbatim>\<open>BitField.ts\<close>, and from
  \<^verbatim>\<open>domain\<close> the files \<^verbatim>\<open>ShortChannelId.ts\<close>, \<^verbatim>\<open>ShortChannelIdUtils.ts\<close> and
  \<^verbatim>\<open>ChannelId.ts\<close>.
\<close>

section \<open>Bit fields\<close>

datatype bit_field = BitField (bf_value: nat)

definition bf_fromNumber :: "nat \<Rightarrow> bit_field" where
  "bf_fromNumber value = BitField value"

definition bf_fromBuffer :: "buffer \<Rightarrow> bit_field res" where
  "bf_fromBuffer buf =
     (if length buf = 0 then Inr (BitField 0)
      else bind_res (bigOfHex (bufToHex buf)) (\<lambda>n. Inr (BitField n)))"

definition bf_isSet :: "bit_field \<Rightarrow> nat \<Rightarrow> bool" where
  "bf_isSet f b \<longleftrightarrow> bf_value f AND push_bit b 1 > 0"

definition bf_anySet :: "bit_field \<Rightarrow> nat list \<Rightarrow> bool" where
  "bf_anySet f bits \<longleftrightarrow> (\<exists>b \<in> set bits. bf_isSet f b)"

definition bf_set :: "bit_field \<Rightarrow> nat \<Rightarrow> bit_field" where
  "bf_set f b = BitField (bf_value f OR push_bit b 1)"

definition bf_unset :: "bit_field \<Rightarrow> nat \<Rightarrow> bit_field" where
  "bf_unset f b =
     BitField (nat (int (bf_value f) AND NOT (int (bf_value f) AND push_bit b 1)))"

definition bf_toggle :: "bit_field \<Rightarrow> nat \<Rightarrow> bit_field" where
  "bf_toggle f b = BitField (bf_value f XOR push_bit b 1)"

text \<open>The loop of \<^verbatim>\<open>flags\<close>: its variable \<^verbatim>\<open>val\<close> is always \<open>2 ^ bit\<close>.\<close>

function flags_loop :: "nat \<Rightarrow> nat \<Rightarrow> nat list" where
  "flags_loop v b =
     (if 2 ^ b < v then (if v AND 2 ^ b \<noteq> 0 then [b] else []) @ flags_loop v (b + 1) else [])"
  by auto
termination by (relation "measure (\<lambda>(v, b). v - b)") (auto intro: diff_less_mono2 dest: less_trans [OF less_exp])

declare flags_loop.simps [simp del]

definition bf_flags :: "bit_field \<Rightarrow> nat list" where
  "bf_flags f = flags_loop (bf_value f) 0"

function msb_loop :: "nat \<Rightarrow> nat" where
  "msb_loop num = (if num > 1 then Suc (msb_loop (drop_bit 1 num)) else 0)"
  by auto
termination by (relation "measure id") (auto simp: drop_bit_Suc)

declare msb_loop.simps [simp del]

definition bf_msb :: "bit_field \<Rightarrow> nat" where
  "bf_msb f = msb_loop (bf_value f)"

definition bf_and :: "bit_field \<Rightarrow> bit_field \<Rightarrow> bit_field" where
  "bf_and f g = BitField (bf_value f AND bf_value g)"

definition bf_or :: "bit_field \<Rightarrow> bit_field \<Rightarrow> bit_field" where
  "bf_or f g = BitField (bf_value f OR bf_value g)"

definition bf_xor :: "bit_field \<Rightarrow> bit_field \<Rightarrow> bit_field" where
  "bf_xor f g = BitField (bf_value f XOR bf_value g)"

definition bf_toBuffer :: "bit_field \<Rightarrow> buffer" where
  "bf_toBuffer f = (if bf_value f = 0 then [] else bigintToBuffer (bf_value f))"

lemma bf_isSet_iff [simp]: "bf_isSet f b \<longleftrightarrow> bit (bf_value f) b"
  by (simp add: bf_isSet_def push_bit_eq_mult and_exp_eq_0_iff_not_bit flip: neq0_conv)


lemma flags_loop_eq:
  assumes "v < 2 ^ n"
  shows "flags_loop v b = filter (\<lambda>k. bit v k \<and> 2 ^ k < v) [b..<n]"
  using assms
proof (induction v b rule: flags_loop.induct)
  case (1 v b)
  show ?case
  proof (cases "2 ^ b < v")
    case True
    then have "(2 :: nat) ^ b < 2 ^ n" using "1.prems" by (rule less_trans)
    then have "b < n" by (rule power_less_imp_less_exp [rotated]) simp
    moreover have "v AND 2 ^ b \<noteq> 0 \<longleftrightarrow> bit v b" by (simp add: and_exp_eq_0_iff_not_bit)
    moreover have "flags_loop v (b + 1) = filter (\<lambda>k. bit v k \<and> 2 ^ k < v) [b + 1..<n]"
      using 1 True by blast
    ultimately show ?thesis using True by (simp add: upt_conv_Cons flags_loop.simps [of v b])
  next
    case False
    have "\<not> 2 ^ k < v" if "b \<le> k" for k
      using False power_increasing [OF that, of "2 :: nat"] by linarith
    then show ?thesis using False by (simp add: filter_empty_conv flags_loop.simps [of v b])
  qed
qed

section \<open>Short channel identifiers\<close>

record scid =
  sc_block :: nat
  sc_txIdx :: nat
  sc_voutIdx :: nat

text \<open>\<^verbatim>\<open>buf.writeUIntBE(v, offset, n)\<close> throws if \<open>v\<close> needs more than \<open>n\<close> bytes.\<close>

definition writeUIntBE :: "nat \<Rightarrow> nat \<Rightarrow> buffer res" where
  "writeUIntBE v n = (if v < 256 ^ n then Inr (be_bytes n v) else Inl RangeError)"

definition scid_toBuffer :: "scid \<Rightarrow> buffer res" where
  "scid_toBuffer s =
     bind_res (writeUIntBE (sc_block s) 3) (\<lambda>a.
     bind_res (writeUIntBE (sc_txIdx s) 3) (\<lambda>b.
     bind_res (writeUIntBE (sc_voutIdx s) 2) (\<lambda>c. Inr (a @ b @ c))))"

definition scid_toNumber :: "scid \<Rightarrow> nat res" where
  "scid_toNumber s = bind_res (scid_toBuffer s) (\<lambda>buf. bigOfHex (bufToHex buf))"

definition scid_fromBuffer :: "buffer \<Rightarrow> scid res" where
  "scid_fromBuffer buf =
     (if length buf \<noteq> 8 then Inl (JsError ''invalid argument'')
      else Inr \<lparr>sc_block = be_val (take 3 buf), sc_txIdx = be_val (take 3 (drop 3 buf)),
                sc_voutIdx = be_val (take 2 (drop 6 buf))\<rparr>)"

definition scid_fromNumber :: "nat \<Rightarrow> scid" where
  "scid_fromNumber num =
     \<lparr>sc_block = drop_bit 40 (num AND 0xffffff0000000000),
      sc_txIdx = drop_bit 16 (num AND 0xffffff0000), sc_voutIdx = num AND 0xffff\<rparr>"

definition scid_toString :: "scid \<Rightarrow> string" where
  "scid_toString s =
     decString (sc_block s) @ ''x'' @ decString (sc_txIdx s) @ ''x'' @ decString (sc_voutIdx s)"

text \<open>
  A match of \<^verbatim>\<open>/(\d+?)x(\d+?)x(\d+?)/\<close> at the start of the text: the first two groups are
  lazy, but have to reach the next \<open>x\<close>; the third is lazy and followed by nothing, so that
  it takes one digit.
\<close>

definition scid_matchHere :: "string \<Rightarrow> (string \<times> string \<times> string) option" where
  "scid_matchHere text =
     (let a = takeWhile isDec text; r = dropWhile isDec text
      in case r of x # r' \<Rightarrow>
           (let b = takeWhile isDec r'; q = dropWhile isDec r'
            in case q of y # c # _ \<Rightarrow>
                 (if a \<noteq> [] \<and> x = CHR ''x'' \<and> b \<noteq> [] \<and> y = CHR ''x'' \<and> isDec c
                  then Some (a, b, [c]) else None)
               | _ \<Rightarrow> None)
         | [] \<Rightarrow> None)"

text \<open>The leftmost match.\<close>

fun scid_match :: "string \<Rightarrow> (string \<times> string \<times> string) option" where
  "scid_match [] = None"
| "scid_match (c # text) =
     (case scid_matchHere (c # text) of Some m \<Rightarrow> Some m | None \<Rightarrow> scid_match text)"

definition scid_fromString :: "string \<Rightarrow> scid res" where
  "scid_fromString text =
     (case scid_match text of
        None \<Rightarrow> Inl (JsError ''invalid shortChannelId string'')
      | Some (a, b, c) \<Rightarrow>
          Inr \<lparr>sc_block = parseDec a, sc_txIdx = parseDec b, sc_voutIdx = parseDec c\<rparr>)"

section \<open>Channel identifiers\<close>

datatype channel_id = ChannelId (ci_value: buffer)

definition ci_fromOutPoint :: "outpoint \<Rightarrow> channel_id res" where
  "ci_fromOutPoint outpoint =
     (if op_outputIndex outpoint > 0xffff then Inl (JsError ''Invalid channel_id outpoint'')
      else let v = hv_serialize Internal (op_txid outpoint);
               v = v[31 := v ! 31 XOR of_nat (drop_bit 8 (op_outputIndex outpoint))];
               v = v[30 := v ! 30 XOR of_nat (op_outputIndex outpoint AND 0xff)]
           in Inr (ChannelId v))"

definition ci_toBuffer :: "channel_id \<Rightarrow> buffer" where
  "ci_toBuffer c = ci_value c"

definition ci_toHex :: "channel_id \<Rightarrow> string" where
  "ci_toHex c = hexString (ci_value c)"

definition ci_equals :: "channel_id \<Rightarrow> channel_id \<Rightarrow> bool" where
  "ci_equals c other \<longleftrightarrow> ci_value c = ci_value other"


section \<open>Bit fields behave as sets of bits, except for \<open>flags\<close>\<close>

lemma bf_isSet_ops:
  "bf_isSet (bf_set f b) k \<longleftrightarrow> k = b \<or> bf_isSet f k"
  "bf_isSet (bf_unset f b) k \<longleftrightarrow> k \<noteq> b \<and> bf_isSet f k"
  "bf_isSet (bf_toggle f b) k \<longleftrightarrow> (k = b) \<noteq> bf_isSet f k"
  "bf_isSet (bf_and f g) k \<longleftrightarrow> bf_isSet f k \<and> bf_isSet g k"
  "bf_isSet (bf_or f g) k \<longleftrightarrow> bf_isSet f k \<or> bf_isSet g k"
  "bf_isSet (bf_xor f g) k \<longleftrightarrow> bf_isSet f k \<noteq> bf_isSet g k"
  by (auto simp: bf_set_def bf_unset_def bf_toggle_def bf_and_def bf_or_def bf_xor_def bit_simps)

lemma bf_eqI: "(\<And>k. bf_isSet f k \<longleftrightarrow> bf_isSet g k) \<Longrightarrow> f = g"
  by (cases f, cases g) (auto intro: bit_eqI)

lemma bf_fromBuffer_toBuffer: "bf_fromBuffer (bf_toBuffer f) = Inr f"
proof (cases "bf_value f = 0")
  case True
  then show ?thesis by (cases f) (simp add: bf_toBuffer_def bf_fromBuffer_def)
next
  case False
  let ?b = "be_bytes (calcBytes (bf_value f)) (bf_value f)"
  have "bf_toBuffer f = ?b" using False by (simp add: bf_toBuffer_def bigintToBuffer_eq)
  moreover have c: "calcBytes (bf_value f) \<noteq> 0" using less_calcBytes [of "bf_value f"] False
    by (metis less_one power_0)
  moreover from c have "?b \<noteq> []" by (metis length_be_bytes list.size(3))
  moreover from this have "bigOfHex (bufToHex ?b) = Inr (be_val ?b)"
    using bigFromBufBE_eq [of ?b] by (simp add: bigFromBufBE_def)
  ultimately show ?thesis
    by (cases f) (auto simp: bf_fromBuffer_def less_calcBytes)
qed

lemma msb_loop_bounds: "v < 2 ^ Suc (msb_loop v)" "0 < v \<Longrightarrow> 2 ^ msb_loop v \<le> v"
proof (induction v rule: msb_loop.induct)
  case (1 v)
  { case 1
    then show ?case using "1.IH"(1)
      by (cases "1 < v") (auto simp: msb_loop.simps [of v] drop_bit_Suc)
  next
    case 2
    then show ?case using "1.IH"(2)
      by (cases "1 < v") (auto simp: msb_loop.simps [of v] drop_bit_Suc) }
qed

text \<open>
  The bit field's \<^verbatim>\<open>flags\<close> lists the bits that are set in increasing order, unless
  exactly one bit is set: then, and for the empty field, the list is empty.
\<close>
theorem bit_field_flags:
  "bf_flags f = (if (\<exists>m. bf_value f = 2 ^ m) then [] else filter (bf_isSet f) [0..<Suc (bf_msb f)])"
proof -
  let ?v = "bf_value f"
  have flags: "bf_flags f = filter (\<lambda>k. bit ?v k \<and> 2 ^ k < ?v) [0..<Suc (bf_msb f)]"
    using flags_loop_eq [OF msb_loop_bounds(1) [of ?v]] by (simp only: bf_flags_def bf_msb_def)
  have single: "\<not> (bit ?v k \<and> 2 ^ k < ?v)" if "?v = 2 ^ m" for k m
    using that by (auto simp: bit_exp_iff)
  have other: "bit ?v k \<and> 2 ^ k < ?v \<longleftrightarrow> bf_isSet f k" if "\<nexists>m. ?v = 2 ^ m" for k
  proof -
    have "2 ^ k \<le> ?v" if "bit ?v k" for k
    proof (rule ccontr)
      assume "\<not> 2 ^ k \<le> ?v"
      then show False using that by (simp add: bit_iff_odd)
    qed
    moreover have "2 ^ k \<noteq> ?v" using that by metis
    ultimately show ?thesis by (auto simp: le_less)
  qed
  show ?thesis
  proof (cases "\<exists>m. ?v = 2 ^ m")
    case True
    then show ?thesis using single by (simp only: flags if_True) (auto simp: filter_empty_conv)
  next
    case False
    then show ?thesis using other [OF False] by (simp only: flags if_False)
  qed
qed

section \<open>Round trips of short channel identifiers\<close>

definition scid_wf :: "scid \<Rightarrow> bool" where
  "scid_wf s \<longleftrightarrow> sc_block s < 2 ^ 24 \<and> sc_txIdx s < 2 ^ 24 \<and> sc_voutIdx s < 2 ^ 16"

definition scid_bytes :: "scid \<Rightarrow> buffer" where
  "scid_bytes s = be_bytes 3 (sc_block s) @ be_bytes 3 (sc_txIdx s) @ be_bytes 2 (sc_voutIdx s)"

lemma length_scid_bytes [simp]: "length (scid_bytes s) = 8"
  by (simp add: scid_bytes_def)

lemma scid_toBuffer_eq:
  "scid_toBuffer s = (if scid_wf s then Inr (scid_bytes s) else Inl RangeError)"
  by (simp add: scid_toBuffer_def writeUIntBE_def scid_wf_def scid_bytes_def)

lemma scid_fromBuffer_bytes: "scid_wf s \<Longrightarrow> scid_fromBuffer (scid_bytes s) = Inr s"
  by (cases s) (simp add: scid_fromBuffer_def scid_bytes_def scid_wf_def)

definition scid_num :: "scid \<Rightarrow> nat" where
  "scid_num s = sc_block s * 2 ^ 40 + sc_txIdx s * 2 ^ 16 + sc_voutIdx s"

lemma scid_toNumber_eq: "scid_wf s \<Longrightarrow> scid_toNumber s = Inr (scid_num s)"
proof -
  assume wf: "scid_wf s"
  have "scid_bytes s \<noteq> []" by (metis length_scid_bytes list.size(3) zero_neq_numeral)
  then have "bigOfHex (bufToHex (scid_bytes s)) = Inr (be_val (scid_bytes s))"
    using bigFromBufBE_eq [of "scid_bytes s"] by (simp add: bigFromBufBE_def)
  also have "be_val (scid_bytes s) = scid_num s"
    using wf by (simp add: scid_bytes_def be_val_append scid_wf_def scid_num_def)
  finally show ?thesis using wf by (simp add: scid_toNumber_def scid_toBuffer_eq)
qed

lemma and_field: "(num :: nat) AND (mask n * 2 ^ k) = take_bit n (drop_bit k num) * 2 ^ k"
proof -
  have "mask n * 2 ^ k = push_bit k (mask n :: nat)" by (simp add: push_bit_eq_mult)
  then have "num AND (mask n * 2 ^ k) = push_bit k (take_bit n (drop_bit k num))"
    by (intro bit_eqI) (auto simp: bit_simps)
  then show ?thesis by (simp add: push_bit_eq_mult)
qed

lemma scid_fromNumber_eq:
  "scid_fromNumber num = \<lparr>sc_block = take_bit 24 (drop_bit 40 num),
     sc_txIdx = take_bit 24 (drop_bit 16 num), sc_voutIdx = take_bit 16 num\<rparr>"
  using and_field [of num 24 40] and_field [of num 24 16] and_field [of num 16 0]
  by (simp add: scid_fromNumber_def mask_eq_exp_minus_1 drop_bit_eq_div)

lemma scid_fromNumber_num: "scid_wf s \<Longrightarrow> scid_fromNumber (scid_num s) = s"
proof -
  assume wf: "scid_wf s"
  have "scid_num s div 2 ^ 40 = sc_block s" "scid_num s div 2 ^ 16 = sc_block s * 2 ^ 24 + sc_txIdx s"
    using wf by (auto simp: scid_num_def scid_wf_def div_nat_eqI)
  moreover have "scid_num s mod 2 ^ 16 = sc_voutIdx s"
    using wf by (simp add: scid_num_def scid_wf_def mod_add_eq [symmetric] mod_mult2_eq)
  ultimately show ?thesis
    using wf by (cases s) (simp add: scid_fromNumber_eq drop_bit_eq_div take_bit_eq_mod scid_wf_def)
qed


text \<open>The digits of a number end at the first character that is none.\<close>

lemma takeWhile_decString:
  assumes "\<not> isDec c"
  shows "takeWhile isDec (decString n @ c # t) = decString n" "dropWhile isDec (decString n @ c # t) = c # t"
  using assms decString_digits [of _ n] by (auto simp: takeWhile_append dropWhile_append)

definition firstDigit :: "nat \<Rightarrow> nat" where
  "firstDigit n = (case hd (decString n) of c \<Rightarrow> the (decVal c))"

lemma x_not_digit [simp]: "\<not> isDec (CHR ''x'')"
  by (simp add: isDec_def decVal_def)

lemma parseDec_hd: "parseDec [hd (decString n)] = firstDigit n"
proof -
  have "isDec (hd (decString n))" by (rule decString_digits [of _ n]) simp
  then show ?thesis by (simp add: parseDec_def firstDigit_def)
qed

lemma scid_fromString_toString: "scid_fromString (scid_toString s) = Inr (s\<lparr>sc_voutIdx := firstDigit (sc_voutIdx s)\<rparr>)"
proof -
  obtain d ds where d: "decString (sc_voutIdx s) = d # ds"
    by (cases "decString (sc_voutIdx s)") auto
  then have "isDec d" using decString_digits [of d "sc_voutIdx s"] by simp
  then have here: "scid_matchHere (scid_toString s) = Some (decString (sc_block s), decString (sc_txIdx s), [d])"
    by (simp add: scid_matchHere_def scid_toString_def d takeWhile_decString)
  obtain c cs where "scid_toString s = c # cs"
    by (cases "scid_toString s") (auto simp: scid_toString_def)
  then have "scid_match (scid_toString s) = Some (decString (sc_block s), decString (sc_txIdx s), [d])"
    using here by simp
  moreover have "parseDec [d] = firstDigit (sc_voutIdx s)"
    using parseDec_hd [of "sc_voutIdx s"] by (simp only: d list.sel(1))
  ultimately show ?thesis by (cases s) (simp add: scid_fromString_def)
qed

lemma firstDigit_eq_iff: "firstDigit n = n \<longleftrightarrow> n < 10"
proof (cases "n < 10")
  case True
  then have "decString n = [char_of (48 + n)]" by (simp add: decString.simps)
  then show ?thesis using True by (simp add: firstDigit_def)
next
  case False
  have "isDec (hd (decString n))" by (rule decString_digits [of _ n]) simp
  then have "firstDigit n < 10"
    by (auto simp: firstDigit_def isDec_def decVal_def Let_def split: if_splits)
  then show ?thesis using False by linarith
qed

text \<open>
  A short channel identifier whose parts fit their fields is recovered from its eight bytes and
  from its number.  From its text it is recovered only up to the output index, of which
  \<^verbatim>\<open>shortChannelIdFromString\<close> reads the first digit: exactly the output indices below ten survive.
\<close>
theorem scid_roundtrip:
  assumes "scid_wf s"
  shows "(\<exists>buf. scid_toBuffer s = Inr buf \<and> length buf = 8 \<and> scid_fromBuffer buf = Inr s)
   \<and> (\<exists>n. scid_toNumber s = Inr n \<and> scid_fromNumber n = s)
   \<and> (scid_fromString (scid_toString s) = Inr s \<longleftrightarrow> sc_voutIdx s < 10)"
proof -
  have "scid_fromString (scid_toString s) = Inr s \<longleftrightarrow> firstDigit (sc_voutIdx s) = sc_voutIdx s"
    by (cases s) (simp add: scid_fromString_toString)
  then show ?thesis using assms
    by (simp add: scid_toBuffer_eq scid_fromBuffer_bytes scid_toNumber_eq scid_fromNumber_num firstDigit_eq_iff)
qed

theorem scid_roundtrip_witness:
  "scid_fromString (scid_toString \<lparr>sc_block = 700000, sc_txIdx = 1234, sc_voutIdx = 12\<rparr>)
     \<noteq> Inr \<lparr>sc_block = 700000, sc_txIdx = 1234, sc_voutIdx = 12\<rparr>
   \<and> (\<exists>n. scid_toNumber \<lparr>sc_block = 700000, sc_txIdx = 1234, sc_voutIdx = 12\<rparr> = Inr n
        \<and> scid_fromNumber n = \<lparr>sc_block = 700000, sc_txIdx = 1234, sc_voutIdx = 12\<rparr>)"
  using scid_roundtrip [of "\<lparr>sc_block = 700000, sc_txIdx = 1234, sc_voutIdx = 12\<rparr>"]
  by (simp add: scid_wf_def)

section \<open>Channel identifiers\<close>

lemma list_two: "length xs = 2 \<Longrightarrow> xs = [xs ! 0, xs ! 1]"
  by (cases xs; cases "tl xs") auto

text \<open>The identifier of the specification: the output index, in big-endian order, is added to the last two bytes.\<close>

definition bolt_channel_id :: "outpoint \<Rightarrow> buffer" where
  "bolt_channel_id p =
     (let txid = hv_value (op_txid p)
      in take 30 txid @ map2 (XOR) (drop 30 txid) (be_bytes 2 (op_outputIndex p)))"

text \<open>
  The channel identifier of a funding output is the one the specification defines exactly if the
  two bytes of the output index are equal: the code adds the low byte to position 30 and the high byte
  to position 31.  Output indices above \<^verbatim>\<open>0xffff\<close> are rejected.
\<close>
theorem channel_id_swapped:
  assumes "hv_wf (op_txid p)"
  shows "if op_outputIndex p \<le> 0xffff
    then (ci_fromOutPoint p = Inr (ChannelId (bolt_channel_id p)) \<longleftrightarrow> op_outputIndex p div 256 = op_outputIndex p mod 256)
    else ci_fromOutPoint p = Inl (JsError ''Invalid channel_id outpoint'')"
proof (cases "op_outputIndex p \<le> 0xffff")
  case True
  let ?i = "op_outputIndex p"
  let ?h = "of_nat (?i div 256) :: byte" and ?l = "of_nat ?i :: byte"
  obtain a x y where v: "hv_value (op_txid p) = a @ [x, y]" "length a = 30"
  proof
    let ?d = "drop 30 (hv_value (op_txid p))"
    have "length ?d = 2" using assms by (simp add: hv_wf_def)
    then have "?d = [?d ! 0, ?d ! 1]" by (rule list_two)
    then show "hv_value (op_txid p) = take 30 (hv_value (op_txid p)) @ [?d ! 0, ?d ! 1]"
      using append_take_drop_id [of 30 "hv_value (op_txid p)"] by simp
  qed (use assms in \<open>simp add: hv_wf_def\<close>)
  have "of_nat (?i AND 0xff) = ?l"
    proof (rule word_unat_eq_iff [THEN iffD2])
    have "?i AND 0xff = ?i mod 256" using take_bit_eq_mask [of 8 ?i] by (simp add: mask_eq_exp_minus_1 take_bit_eq_mod)
    then show "unat (of_nat (?i AND 0xff) :: byte) = unat ?l" by (simp add: unat_of_nat_byte)
  qed
  then have "ci_fromOutPoint p = Inr (ChannelId (a @ [x XOR ?l, y XOR ?h]))"
    using True v by (simp add: ci_fromOutPoint_def hv_serialize_def nth_append list_update_append drop_bit_eq_div)
  moreover have "bolt_channel_id p = a @ [x XOR ?h, y XOR ?l]"
    using v by (simp add: bolt_channel_id_def be_bytes_def numeral_2_eq_2)
  moreover have "?h = ?l \<longleftrightarrow> ?i div 256 = ?i mod 256"
  proof -
    have "unat ?h = ?i div 256" "unat ?l = ?i mod 256"
      using True by (simp_all add: unat_of_nat_byte)
    then show ?thesis by (metis word_unat_eq_iff)
  qed
  ultimately show ?thesis using True by auto
qed (simp add: ci_fromOutPoint_def)

theorem channel_id_swapped_witness:
  "ci_fromOutPoint \<lparr>op_txid = HashValue (replicate 32 7), op_outputIndex = 1\<rparr>
     \<noteq> Inr (ChannelId (bolt_channel_id \<lparr>op_txid = HashValue (replicate 32 7), op_outputIndex = 1\<rparr>))"
  using channel_id_swapped [of "\<lparr>op_txid = HashValue (replicate 32 7), op_outputIndex = 1\<rparr>"]
  by (simp add: hv_wf_def)

end
