(* ===== verification/Codec.thy ===== *)
theory Codec
  imports Tlv LnDomain BufferWriter
begin

text \<open>
  What the message classes of \<^verbatim>\<open>packages/lightning/lib/messages\<close> share: reading a whole buffer,
  amounts at their scales, loops that read to the end, and the rules by which the round trip of a
  message is composed from those of its fields.
\<close>

section \<open>Reading a whole buffer\<close>

text \<open>A \<^verbatim>\<open>deserialize\<close> method makes a reader over its buffer and reads the fields from it.\<close>

definition parseWith :: "(buffer_reader, 'a) io \<Rightarrow> buffer \<Rightarrow> 'a res" where
  "parseWith m buf = fst (m (newBufferReader buf))"

definition parses :: "(buffer_reader, 'a) io \<Rightarrow> buffer \<Rightarrow> 'a \<Rightarrow> bool" where
  "parses m bs v \<longleftrightarrow> (\<forall>s. br_good s \<and> br_content s = bs \<longrightarrow> fst (m s) = Inr v)"

named_theorems parses_intro \<open>composition rules for deserializers\<close>

lemma parses_parseWith: "parses m bs v \<Longrightarrow> parseWith m bs = Inr v"
  by (simp add: parses_def parseWith_def)

text \<open>Bytes behind the last field a message reads are ignored.\<close>

lemma parses_return: "parses (return_io v) bs v"
  by (simp add: parses_def io_simps)

lemma parses_bind:
  assumes "reads br_good br_content m bs v" "parses (f v) cs w"
  shows "parses (bind_io m f) (bs @ cs) w"
  unfolding parses_def
proof (intro allI impI)
  fix s assume "br_good s \<and> br_content s = bs @ cs"
  with assms(1) obtain s' where "m s = (Inr v, s')" "br_good s'" "br_content s' = cs"
    by (auto elim: readsE)
  with assms(2) show "fst (bind_io m f s) = Inr w" by (simp add: io_simps parses_def)
qed

lemma parses_bind_empty:
  assumes "reads br_good br_content m [] v" "parses (f v) cs w"
  shows "parses (bind_io m f) cs w"
  using parses_bind [where f = f, OF assms] by simp

lemma parses_bind_all:
  assumes "parses m bs v" "\<And>s. f v s = (Inr w, s)"
  shows "parses (bind_io m f) bs w"
  using assms by (fastforce simp: parses_def io_simps split: prod.splits sum.splits)

lemma parses_tlvs:
  assumes "tlv_canonical None recs" "tlv_fold handler recs m = Some m'"
  shows "parses (\<lambda>r. readTlvs handler r None m) (tlv_bytes recs) m'"
  using readTlvs_complete [of _ recs None handler m m'] assms
  by (fastforce simp: parses_def)

lemma reads_bytes [reads_intro]: "length bs = n \<Longrightarrow> reads br_good br_content (br_readBytes (Some n)) bs bs"
  using reads_readBytes by blast

lemma reads_map:
  "reads good content m bs v \<Longrightarrow> f v = Inr w \<Longrightarrow> reads good content (bind_io m (\<lambda>x. lift_io (f x))) bs w"
  by (fastforce simp: reads_def io_simps)

section \<open>Amounts at their scales\<close>

definition readSats :: "(buffer_reader, btc_value) io" where
  "readSats = bind_io br_readUInt64BE (\<lambda>n. return_io (fromSats (int n)))"

definition readMilliSats :: "(buffer_reader, btc_value) io" where
  "readMilliSats = bind_io br_readUInt64BE (\<lambda>n. return_io (fromMilliSats (int n)))"

definition readSats32 :: "(buffer_reader, btc_value) io" where
  "readSats32 = bind_io br_readUInt32BE (\<lambda>n. return_io (fromSats (int n)))"

definition readMilliSats32 :: "(buffer_reader, btc_value) io" where
  "readMilliSats32 = bind_io br_readUInt32BE (\<lambda>n. return_io (fromMilliSats (int n)))"

definition readMicroSats32 :: "(buffer_reader, btc_value) io" where
  "readMicroSats32 = bind_io br_readUInt32BE (\<lambda>n. return_io (fromMicroSats (int n)))"

text \<open>\<^verbatim>\<open>writer.writeUInt32BE(Number(n))\<close>: a negative number is out of range.\<close>

definition writeNumber32 :: "int \<Rightarrow> (buffer_writer, unit) io" where
  "writeNumber32 n = (if n < 0 then throw_io RangeError else bw_writeUInt32BE (nat n))"

text \<open>Amounts that a field of \<open>k\<close> bytes at a scale represents without loss.\<close>

definition whole :: "nat \<Rightarrow> (int \<Rightarrow> btc_value) \<Rightarrow> (btc_value \<Rightarrow> int) \<Rightarrow> btc_value \<Rightarrow> bool" where
  "whole k conv scale v \<longleftrightarrow> 0 \<le> scale v \<and> scale v < 256 ^ k \<and> conv (scale v) = v"

definition amount_bytes :: "nat \<Rightarrow> int \<Rightarrow> buffer" where
  "amount_bytes k n = be_bytes k (nat n)"

lemma length_amount_bytes [simp]: "length (amount_bytes k n) = k"
  by (simp add: amount_bytes_def)

lemma whole_nat: "whole k conv scale v \<Longrightarrow> nat (scale v) < 256 ^ k \<and> conv (int (nat (scale v))) = v"
  by (auto simp: whole_def nat_less_iff)

lemma reads_amounts [reads_intro]:
  "whole 8 fromSats sats v \<Longrightarrow> reads br_good br_content readSats (amount_bytes 8 (sats v)) v"
  "whole 8 fromMilliSats msats v \<Longrightarrow> reads br_good br_content readMilliSats (amount_bytes 8 (msats v)) v"
  "whole 4 fromSats sats v \<Longrightarrow> reads br_good br_content readSats32 (amount_bytes 4 (sats v)) v"
  "whole 4 fromMilliSats msats v \<Longrightarrow> reads br_good br_content readMilliSats32 (amount_bytes 4 (msats v)) v"
  "whole 4 fromMicroSats microsats v \<Longrightarrow> reads br_good br_content readMicroSats32 (amount_bytes 4 (microsats v)) v"
proof -
  have *: "reads br_good br_content (bind_io m (\<lambda>n. return_io (conv (int n)))) (amount_bytes k (scale v)) v"
    if "whole k conv scale v"
      "\<And>n. n < 256 ^ k \<Longrightarrow> reads br_good br_content m (be_bytes k n) n" for k conv scale m
    using reads_bind_last [of br_good br_content m "be_bytes k (nat (scale v))" "nat (scale v)"
        "\<lambda>n. return_io (conv (int n))" v] that whole_nat [OF that(1)]
    by (auto simp: amount_bytes_def return_io_def)
  show
    "whole 8 fromSats sats v \<Longrightarrow> reads br_good br_content readSats (amount_bytes 8 (sats v)) v"
    "whole 8 fromMilliSats msats v \<Longrightarrow> reads br_good br_content readMilliSats (amount_bytes 8 (msats v)) v"
    "whole 4 fromSats sats v \<Longrightarrow> reads br_good br_content readSats32 (amount_bytes 4 (sats v)) v"
    "whole 4 fromMilliSats msats v \<Longrightarrow> reads br_good br_content readMilliSats32 (amount_bytes 4 (msats v)) v"
    "whole 4 fromMicroSats microsats v \<Longrightarrow> reads br_good br_content readMicroSats32 (amount_bytes 4 (microsats v)) v"
    unfolding readSats_def readMilliSats_def readSats32_def readMilliSats32_def readMicroSats32_def
    by (rule *; simp add: br.u64be br.u32be)+
qed

lemma writes_amount:
  "whole 8 conv scale v \<Longrightarrow> writes (bw_good f) bw_out bw_room (bw_writeUInt64BE (scale v)) (amount_bytes 8 (scale v))"
  "whole 4 conv scale v \<Longrightarrow> writes (bw_good f) bw_out bw_room (writeNumber32 (scale v)) (amount_bytes 4 (scale v))"
  using bw.w64be [of "nat (scale v)" f] bw.w32be [of "nat (scale v)" f] whole_nat [of 8 conv scale v]
    whole_nat [of 4 conv scale v]
  by (auto simp: whole_def amount_bytes_def writeNumber32_def)

section \<open>Loops that read to the end\<close>

text \<open>
  \<^verbatim>\<open>while (!reader.eof) { ... }\<close> with a body that reads an item.  The first argument bounds the
  number of rounds; every item takes at least one byte, so that the number of unread bytes is enough
  (\<open>readWhile_enough\<close>).
\<close>

primrec readWhile :: "nat \<Rightarrow> (buffer_reader, 'a) io \<Rightarrow> (buffer_reader, 'a list) io" where
  "readWhile 0 item = (\<lambda>r. if br_eof r then (Inr [], r) else (Inl (JsError ''fuel''), r))"
| "readWhile (Suc n) item = (\<lambda>r.
     if br_eof r then (Inr [], r)
     else case item r of (Inl e, r1) \<Rightarrow> (Inl e, r1)
       | (Inr x, r1) \<Rightarrow> (case readWhile n item r1 of (Inl e, r2) \<Rightarrow> (Inl e, r2) | (Inr xs, r2) \<Rightarrow> (Inr (x # xs), r2)))"

definition readAll :: "(buffer_reader, 'a) io \<Rightarrow> (buffer_reader, 'a list) io" where
  "readAll item = (\<lambda>r. readWhile (length (br_content r)) item r)"

definition shrinks :: "(buffer_reader, 'a) io \<Rightarrow> bool" where
  "shrinks item \<longleftrightarrow> (\<forall>r x r'. br_good r \<and> item r = (Inr x, r') \<longrightarrow>
     br_good r' \<and> length (br_content r') < length (br_content r))"

lemma readWhile_enough:
  "shrinks item \<Longrightarrow> br_good r \<Longrightarrow> length (br_content r) \<le> n \<Longrightarrow>
     readWhile (n + k) item r = readWhile n item r"
proof (induction n arbitrary: r)
  case 0
  then have "br_eof r" by (simp add: br_eof_iff)
  then show ?case by (cases k) simp_all
next
  case (Suc n)
  have "readWhile (n + k) item r1 = readWhile n item r1" if "item r = (Inr x, r1)" for x r1
    using Suc.prems that by (intro Suc.IH) (fastforce simp: shrinks_def)+
  then show ?case by (auto split: prod.splits sum.splits)
qed

lemma readWhile_items:
  assumes "\<And>x. x \<in> set xs \<Longrightarrow> reads br_good br_content item (enc x) x" "\<And>x. x \<in> set xs \<Longrightarrow> enc x \<noteq> []"
    "br_good r" "br_content r = concat (map enc xs)" "length xs \<le> n"
  shows "\<exists>r'. readWhile n item r = (Inr xs, r') \<and> br_good r' \<and> br_content r' = []"
  using assms
proof (induction xs arbitrary: r n)
  case Nil
  then show ?case by (cases n) (auto simp: br_eof_iff)
next
  case (Cons x xs)
  from Cons.prems(5) obtain k where n: "n = Suc k" "length xs \<le> k" by (cases n) auto
  have "br_content r = enc x @ concat (map enc xs)" using Cons.prems(4) by simp
  from readsE [OF Cons.prems(1) [of x, simplified] Cons.prems(3) this] obtain r1
    where r1: "item r = (Inr x, r1)" "br_good r1" "br_content r1 = concat (map enc xs)" .
  moreover have "\<not> br_eof r" using Cons.prems(2-4) by (auto simp: br_eof_iff)
  moreover obtain r2 where "readWhile k item r1 = (Inr xs, r2)" "br_good r2" "br_content r2 = []"
    using Cons.IH [OF Cons.prems(1,2) r1(2,3) n(2)] by auto
  ultimately show ?case by (auto simp: n(1))
qed

lemma readAll_items:
  assumes "\<And>x. x \<in> set xs \<Longrightarrow> reads br_good br_content item (enc x) x" "\<And>x. x \<in> set xs \<Longrightarrow> enc x \<noteq> []"
    "br_good r" "br_content r = concat (map enc xs)"
  shows "\<exists>r'. readAll item r = (Inr xs, r') \<and> br_good r' \<and> br_content r' = []"
  unfolding readAll_def assms(4)
  by (rule readWhile_items [OF assms]) (use assms(2) length_concat_ge [of xs enc] in auto)

lemma readAll_new:
  assumes "\<And>x. x \<in> set xs \<Longrightarrow> reads br_good br_content item (enc x) x" "\<And>x. x \<in> set xs \<Longrightarrow> enc x \<noteq> []"
  shows "\<exists>r'. readAll item (newBufferReader (concat (map enc xs))) = (Inr xs, r') \<and> br_eof r'"
  using readAll_items [of xs item enc "newBufferReader (concat (map enc xs))", OF assms]
  by (auto simp: br_eof_iff)

lemma readBytes_all: "\<exists>r'. br_readBytes None (newBufferReader bs) = (Inr bs, r') \<and> br_eof r'"
  by (auto simp: br_readBytes_def newBufferReader_def br_eof_def Let_def)

section \<open>Fields with a length in front\<close>

definition counted16 :: "buffer \<Rightarrow> buffer" where
  "counted16 bs = be_bytes 2 (length bs) @ bs"

definition readCounted16 :: "(buffer_reader, buffer) io" where
  "readCounted16 = bind_io br_readUInt16BE (\<lambda>len. br_readBytes (Some len))"

definition writeCounted16 :: "buffer \<Rightarrow> (buffer_writer, unit) io" where
  "writeCounted16 bs = then_io (bw_writeUInt16BE (length bs)) (bw_writeBytes bs)"

lemma reads_counted16 [reads_intro]:
  "length bs < 2 ^ 16 \<Longrightarrow> reads br_good br_content readCounted16 (counted16 bs) bs"
  unfolding readCounted16_def counted16_def
  by (rule reads_bind [where x = "length bs"]) (simp_all add: br.u16be reads_bytes)

lemma writes_counted16:
  "length bs < 2 ^ 16 \<Longrightarrow> writes (bw_good f) bw_out bw_room (writeCounted16 bs) (counted16 bs)"
  unfolding writeCounted16_def counted16_def
  by (intro writes_then bw_writes) simp_all

lemma length_counted16 [simp]: "length (counted16 bs) = length bs + 2"
  by (simp add: counted16_def)

end
