(* ===== verification/PeerMessages.thy ===== *)
theory PeerMessages
  imports Codec
begin

text \<open>
  The messages of the peer protocol, from \<^verbatim>\<open>packages/lightning/lib/messages\<close>: initialisation,
  errors, ping and pong, and the messages that open and close a channel.  Every class is a record with
  its \<^verbatim>\<open>serialize\<close> and \<^verbatim>\<open>deserialize\<close>; \<open>\<dots>_wf\<close> says which field values the wire format
  can carry, and \<open>\<dots>_bytes\<close> is the layout of the specification.
\<close>

section \<open>Message types and shared fields\<close>

datatype MessageType =
    Init | Error | Ping | Pong
  | OpenChannel | AcceptChannel | FundingCreated | FundingSigned | FundingLocked
  | Shutdown | ClosingSigned
  | ChannelAnnouncement | NodeAnnouncement | ChannelUpdate | AnnouncementSignatures
  | QueryShortChannelIds | ReplyShortChannelIdsEnd | QueryChannelRange | ReplyChannelRange
  | GossipTimestampFilter

primrec typeCode :: "MessageType \<Rightarrow> nat" where
  "typeCode Init = 16"
| "typeCode Error = 17"
| "typeCode Ping = 18"
| "typeCode Pong = 19"
| "typeCode OpenChannel = 32"
| "typeCode AcceptChannel = 33"
| "typeCode FundingCreated = 34"
| "typeCode FundingSigned = 35"
| "typeCode FundingLocked = 36"
| "typeCode Shutdown = 38"
| "typeCode ClosingSigned = 39"
| "typeCode ChannelAnnouncement = 256"
| "typeCode NodeAnnouncement = 257"
| "typeCode ChannelUpdate = 258"
| "typeCode AnnouncementSignatures = 259"
| "typeCode QueryShortChannelIds = 261"
| "typeCode ReplyShortChannelIdsEnd = 262"
| "typeCode QueryChannelRange = 263"
| "typeCode ReplyChannelRange = 264"
| "typeCode GossipTimestampFilter = 265"

lemma typeCode_less [simp]: "typeCode t < 65536"
  by (cases t) simp_all

lemma typeCode_inj: "typeCode s = typeCode t \<longleftrightarrow> s = t"
  by (cases s; cases t; simp)

definition readFeatures :: "(buffer_reader, bit_field) io" where
  "readFeatures = bind_io readCounted16 (\<lambda>b. lift_io (bf_fromBuffer b))"

definition readChannelId :: "(buffer_reader, channel_id) io" where
  "readChannelId = bind_io (br_readBytes (Some 32)) (\<lambda>b. return_io (ChannelId b))"

definition readScid :: "(buffer_reader, scid) io" where
  "readScid = bind_io (br_readBytes (Some 8)) (\<lambda>b. lift_io (scid_fromBuffer b))"

definition writeScid :: "scid \<Rightarrow> (buffer_writer, unit) io" where
  "writeScid s = bind_io (lift_io (scid_toBuffer s)) bw_writeBytes"

definition readBits8 :: "(buffer_reader, bit_field) io" where
  "readBits8 = bind_io br_readUInt8 (\<lambda>n. return_io (bf_fromNumber n))"

definition readBool8 :: "(buffer_reader, bool) io" where
  "readBool8 = bind_io br_readUInt8 (\<lambda>n. return_io (n = 1))"

lemma message_field_reads:
  "length (bf_toBuffer f) < 2 ^ 16 \<Longrightarrow> reads br_good br_content readFeatures (counted16 (bf_toBuffer f)) f"
  "length (ci_value c) = 32 \<Longrightarrow> reads br_good br_content readChannelId (ci_toBuffer c) c"
  "scid_wf s \<Longrightarrow> reads br_good br_content readScid (scid_bytes s) s"
  "bf_value f < 2 \<or> bf_value f < 2 ^ 8 \<Longrightarrow> reads br_good br_content readBits8 (le_bytes 1 (bf_value f)) f"
  "reads br_good br_content readBool8 (le_bytes 1 (if b then 1 else 0)) b"
proof -
  show "length (bf_toBuffer f) < 2 ^ 16 \<Longrightarrow> reads br_good br_content readFeatures (counted16 (bf_toBuffer f)) f"
    unfolding readFeatures_def by (rule reads_map [OF reads_counted16]) (simp_all add: bf_fromBuffer_toBuffer)
  show "length (ci_value c) = 32 \<Longrightarrow> reads br_good br_content readChannelId (ci_toBuffer c) c"
    unfolding readChannelId_def by (rule reads_bind_last [OF reads_bytes]) (simp_all add: io_simps ci_toBuffer_def)
  show "scid_wf s \<Longrightarrow> reads br_good br_content readScid (scid_bytes s) s"
    unfolding readScid_def by (rule reads_map [OF reads_bytes]) (simp_all add: scid_fromBuffer_bytes)
  show "bf_value f < 2 \<or> bf_value f < 2 ^ 8 \<Longrightarrow> reads br_good br_content readBits8 (le_bytes 1 (bf_value f)) f"
    unfolding readBits8_def by (rule reads_bind_last [OF br.u8]) (auto simp: io_simps bf_fromNumber_def)
  show "reads br_good br_content readBool8 (le_bytes 1 (if b then 1 else 0)) b"
    unfolding readBool8_def by (rule reads_bind_last [OF br.u8]) (simp_all add: io_simps)
qed

lemma writes_scid: "scid_wf s \<Longrightarrow> writes (bw_good f) bw_out bw_room (writeScid s) (scid_bytes s)"
  using writes_writeBytes [of f "scid_bytes s"]
  by (simp add: writeScid_def scid_toBuffer_eq writes_def io_simps)

text \<open>The flags of \<^verbatim>\<open>OpenChannelMessage\<close> are written through \<^verbatim>\<open>announceChannel\<close>.\<close>

definition writeAnnounce :: "bit_field \<Rightarrow> (buffer_writer, unit) io" where
  "writeAnnounce flags = bw_writeUInt8 (if bf_isSet flags 0 then 0x01 else 0x00)"

lemma writes_announce:
  "bf_value flags < 2 \<Longrightarrow> writes (bw_good f) bw_out bw_room (writeAnnounce flags) (le_bytes 1 (bf_value flags))"
proof -
  assume "bf_value flags < 2"
  then have "bf_value flags = (if bf_isSet flags 0 then 0x01 else 0x00)"
    by (auto simp: bit_0 less_2_cases_iff)
  then show ?thesis unfolding writeAnnounce_def by (metis bw.w8 less_numeral_extra(3) one_less_numeral_iff semiring_norm(76) zero_less_numeral)
qed

lemmas writes_scales =
  writes_amount(1) [where conv = fromSats and scale = sats]
  writes_amount(1) [where conv = fromMilliSats and scale = msats]
  writes_amount(2) [where conv = fromSats and scale = sats]
  writes_amount(2) [where conv = fromMilliSats and scale = msats]
  writes_amount(2) [where conv = fromMicroSats and scale = microsats]

lemma parses_bind_last:
  assumes "reads br_good br_content m bs v" "parses (f v) [] w"
  shows "parses (bind_io m f) bs w"
  using parses_bind [where f = f, OF assms] by simp

lemma parses_returnI: "v = w \<Longrightarrow> parses (return_io v) bs w"
  by (simp add: parses_return)

section \<open>The optional shutdown script\<close>

definition upfrontTlv :: "(buffer \<Rightarrow> 'm \<Rightarrow> 'm) \<Rightarrow> 'm tlv_handler" where
  "upfrontTlv setScript = (\<lambda>type m.
     if type = 0 then bind_io (br_readBytes None) (\<lambda>s. return_io (True, setScript s m))
     else return_io (False, m))"

definition writeUpfront :: "buffer option \<Rightarrow> (buffer_writer, unit) io" where
  "writeUpfront script = (case script of None \<Rightarrow> return_io ()
     | Some s \<Rightarrow> then_io (bw_writeBigSize 0) (then_io (bw_writeBigSize (length s)) (bw_writeBytes s)))"

definition upfront_bytes :: "buffer option \<Rightarrow> buffer" where
  "upfront_bytes script = (case script of None \<Rightarrow> [] | Some s \<Rightarrow> tlv_bytes [(0, s)])"

definition upfront_wf :: "buffer option \<Rightarrow> bool" where
  "upfront_wf script \<longleftrightarrow> (case script of None \<Rightarrow> True | Some s \<Rightarrow> length s < 2 ^ 16)"

lemma length_upfront_bytes: "upfront_wf script \<Longrightarrow> length (upfront_bytes script) \<le> 2 ^ 17"
  by (cases script) (auto simp: upfront_wf_def upfront_bytes_def tlv_bytes_def length_bigsize_bytes)

lemma writes_upfront:
  assumes "upfront_wf script"
  shows "writes (bw_good f) bw_out bw_room (writeUpfront script) (upfront_bytes script)"
proof (cases script)
  case None
  then show ?thesis by (simp add: writeUpfront_def upfront_bytes_def writes_return)
next
  case (Some s)
  have "writes (bw_good f) bw_out bw_room
      (then_io (bw_writeBigSize 0) (then_io (bw_writeBigSize (length s)) (bw_writeBytes s)))
      (bigsize_bytes 0 @ bigsize_bytes (length s) @ s)"
    using assms by (intro writes_then writes_writeBigSize writes_writeBytes) (auto simp: upfront_wf_def Some)
  then show ?thesis by (simp add: writeUpfront_def upfront_bytes_def tlv_bytes_def Some)
qed

lemma parses_upfront:
  assumes "upfront_wf script" "m' = (case script of None \<Rightarrow> m | Some s \<Rightarrow> setScript s m)"
  shows "parses (\<lambda>r. readTlvs (upfrontTlv setScript) r None m) (upfront_bytes script) m'"
proof (cases script)
  case None
  then show ?thesis using parses_tlvs [of "[]" "upfrontTlv setScript" m m'] assms
    by (simp add: upfront_bytes_def tlv_bytes_def)
next
  case (Some s)
  obtain r' where "br_readBytes None (newBufferReader s) = (Inr s, r')" "br_eof r'"
    using readBytes_all by blast
  then show ?thesis using parses_tlvs [of "[(0, s)]" "upfrontTlv setScript" m m'] assms
    by (simp add: upfront_bytes_def Some upfrontTlv_def io_simps upfront_wf_def)
qed

lemmas message_reads = reads_bytes br.u16be br.u32be br.u8 br.u64be reads_amounts reads_counted16 message_field_reads
lemmas message_writes = bw_writes writes_scales writes_counted16 writes_announce writes_scid writes_upfront
lemmas message_parses = parses_returnI parses_upfront

section \<open>Opening a channel\<close>

record open_channel =
  oc_chainHash :: buffer
  oc_temporaryChannelId :: buffer
  oc_fundingAmount :: btc_value
  oc_pushAmount :: btc_value
  oc_dustLimit :: btc_value
  oc_maxHtlcValueInFlight :: btc_value
  oc_channelReserve :: btc_value
  oc_minHtlcValue :: btc_value
  oc_feeRatePerKw :: btc_value
  oc_toSelfDelay :: nat
  oc_maxAcceptedHtlcs :: nat
  oc_fundingPubKey :: buffer
  oc_revocationBasePoint :: buffer
  oc_paymentBasePoint :: buffer
  oc_delayedPaymentBasePoint :: buffer
  oc_htlcBasePoint :: buffer
  oc_firstPerCommitmentPoint :: buffer
  oc_channelFlags :: bit_field
  oc_upfrontShutdownScript :: "buffer option"

definition oc_read :: "(buffer_reader, open_channel) io" where
  "oc_read =
     bind_io br_readUInt16BE (\<lambda>_.
     bind_io (br_readBytes (Some 32)) (\<lambda>chainHash.
     bind_io (br_readBytes (Some 32)) (\<lambda>temporaryChannelId.
     bind_io readSats (\<lambda>fundingAmount.
     bind_io readMilliSats (\<lambda>pushAmount.
     bind_io readSats (\<lambda>dustLimit.
     bind_io readMilliSats (\<lambda>maxHtlcValueInFlight.
     bind_io readSats (\<lambda>channelReserve.
     bind_io readMilliSats (\<lambda>minHtlcValue.
     bind_io readSats32 (\<lambda>feeRatePerKw.
     bind_io br_readUInt16BE (\<lambda>toSelfDelay.
     bind_io br_readUInt16BE (\<lambda>maxAcceptedHtlcs.
     bind_io (br_readBytes (Some 33)) (\<lambda>fundingPubKey.
     bind_io (br_readBytes (Some 33)) (\<lambda>revocationBasePoint.
     bind_io (br_readBytes (Some 33)) (\<lambda>paymentBasePoint.
     bind_io (br_readBytes (Some 33)) (\<lambda>delayedPaymentBasePoint.
     bind_io (br_readBytes (Some 33)) (\<lambda>htlcBasePoint.
     bind_io (br_readBytes (Some 33)) (\<lambda>firstPerCommitmentPoint.
     bind_io readBits8 (\<lambda>channelFlags.
       \<lambda>r. readTlvs (upfrontTlv (\<lambda>s m. m\<lparr>oc_upfrontShutdownScript := Some
         s\<rparr>)) r None
         \<lparr>oc_chainHash = chainHash, oc_temporaryChannelId = temporaryChannelId,
         oc_fundingAmount = fundingAmount, oc_pushAmount = pushAmount, oc_dustLimit = dustLimit,
         oc_maxHtlcValueInFlight = maxHtlcValueInFlight, oc_channelReserve = channelReserve,
         oc_minHtlcValue = minHtlcValue, oc_feeRatePerKw = feeRatePerKw, oc_toSelfDelay = toSelfDelay,
         oc_maxAcceptedHtlcs = maxAcceptedHtlcs, oc_fundingPubKey = fundingPubKey,
         oc_revocationBasePoint = revocationBasePoint, oc_paymentBasePoint = paymentBasePoint,
         oc_delayedPaymentBasePoint = delayedPaymentBasePoint, oc_htlcBasePoint = htlcBasePoint,
         oc_firstPerCommitmentPoint = firstPerCommitmentPoint, oc_channelFlags = channelFlags,
         oc_upfrontShutdownScript = None\<rparr>)))))))))))))))))))"

definition oc_deserialize :: "buffer \<Rightarrow> open_channel res" where
  "oc_deserialize = parseWith oc_read"

definition oc_serialize :: "open_channel \<Rightarrow> buffer res" where
  "oc_serialize m = runWriter None
     (then_io (bw_writeUInt16BE (typeCode OpenChannel))
     (then_io (bw_writeBytes (oc_chainHash m))
     (then_io (bw_writeBytes (oc_temporaryChannelId m))
     (then_io (bw_writeUInt64BE (sats (oc_fundingAmount m)))
     (then_io (bw_writeUInt64BE (msats (oc_pushAmount m)))
     (then_io (bw_writeUInt64BE (sats (oc_dustLimit m)))
     (then_io (bw_writeUInt64BE (msats (oc_maxHtlcValueInFlight m)))
     (then_io (bw_writeUInt64BE (sats (oc_channelReserve m)))
     (then_io (bw_writeUInt64BE (msats (oc_minHtlcValue m)))
     (then_io (writeNumber32 (sats (oc_feeRatePerKw m)))
     (then_io (bw_writeUInt16BE (oc_toSelfDelay m))
     (then_io (bw_writeUInt16BE (oc_maxAcceptedHtlcs m))
     (then_io (bw_writeBytes (oc_fundingPubKey m))
     (then_io (bw_writeBytes (oc_revocationBasePoint m))
     (then_io (bw_writeBytes (oc_paymentBasePoint m))
     (then_io (bw_writeBytes (oc_delayedPaymentBasePoint m))
     (then_io (bw_writeBytes (oc_htlcBasePoint m))
     (then_io (bw_writeBytes (oc_firstPerCommitmentPoint m))
     (then_io (writeAnnounce (oc_channelFlags m))
       (writeUpfront (oc_upfrontShutdownScript m)))))))))))))))))))))"

definition oc_wf :: "open_channel \<Rightarrow> bool" where
  "oc_wf m \<longleftrightarrow> length (oc_chainHash m) = 32
     \<and> length (oc_temporaryChannelId m) = 32
     \<and> whole 8 fromSats sats (oc_fundingAmount m)
     \<and> whole 8 fromMilliSats msats (oc_pushAmount m)
     \<and> whole 8 fromSats sats (oc_dustLimit m)
     \<and> whole 8 fromMilliSats msats (oc_maxHtlcValueInFlight m)
     \<and> whole 8 fromSats sats (oc_channelReserve m)
     \<and> whole 8 fromMilliSats msats (oc_minHtlcValue m)
     \<and> whole 4 fromSats sats (oc_feeRatePerKw m)
     \<and> oc_toSelfDelay m < 2 ^ 16
     \<and> oc_maxAcceptedHtlcs m < 2 ^ 16
     \<and> length (oc_fundingPubKey m) = 33
     \<and> length (oc_revocationBasePoint m) = 33
     \<and> length (oc_paymentBasePoint m) = 33
     \<and> length (oc_delayedPaymentBasePoint m) = 33
     \<and> length (oc_htlcBasePoint m) = 33
     \<and> length (oc_firstPerCommitmentPoint m) = 33
     \<and> bf_value (oc_channelFlags m) < 2
     \<and> upfront_wf (oc_upfrontShutdownScript m)"

definition oc_bytes :: "open_channel \<Rightarrow> buffer" where
  "oc_bytes m = be_bytes 2 (typeCode OpenChannel)
     @ oc_chainHash m
     @ oc_temporaryChannelId m
     @ amount_bytes 8 (sats (oc_fundingAmount m))
     @ amount_bytes 8 (msats (oc_pushAmount m))
     @ amount_bytes 8 (sats (oc_dustLimit m))
     @ amount_bytes 8 (msats (oc_maxHtlcValueInFlight m))
     @ amount_bytes 8 (sats (oc_channelReserve m))
     @ amount_bytes 8 (msats (oc_minHtlcValue m))
     @ amount_bytes 4 (sats (oc_feeRatePerKw m))
     @ be_bytes 2 (oc_toSelfDelay m)
     @ be_bytes 2 (oc_maxAcceptedHtlcs m)
     @ oc_fundingPubKey m
     @ oc_revocationBasePoint m
     @ oc_paymentBasePoint m
     @ oc_delayedPaymentBasePoint m
     @ oc_htlcBasePoint m
     @ oc_firstPerCommitmentPoint m
     @ le_bytes 1 (bf_value (oc_channelFlags m))
     @ upfront_bytes (oc_upfrontShutdownScript m)"

lemma oc_roundtrip:
  assumes "oc_wf m"
  shows "oc_serialize m = Inr (oc_bytes m)" "oc_deserialize (oc_bytes m) = Inr m"
proof -
  note wf = assms [unfolded oc_wf_def, simplified]
  have w: "writes (bw_good f) bw_out bw_room
     (then_io (bw_writeUInt16BE (typeCode OpenChannel))
     (then_io (bw_writeBytes (oc_chainHash m))
     (then_io (bw_writeBytes (oc_temporaryChannelId m))
     (then_io (bw_writeUInt64BE (sats (oc_fundingAmount m)))
     (then_io (bw_writeUInt64BE (msats (oc_pushAmount m)))
     (then_io (bw_writeUInt64BE (sats (oc_dustLimit m)))
     (then_io (bw_writeUInt64BE (msats (oc_maxHtlcValueInFlight m)))
     (then_io (bw_writeUInt64BE (sats (oc_channelReserve m)))
     (then_io (bw_writeUInt64BE (msats (oc_minHtlcValue m)))
     (then_io (writeNumber32 (sats (oc_feeRatePerKw m)))
     (then_io (bw_writeUInt16BE (oc_toSelfDelay m))
     (then_io (bw_writeUInt16BE (oc_maxAcceptedHtlcs m))
     (then_io (bw_writeBytes (oc_fundingPubKey m))
     (then_io (bw_writeBytes (oc_revocationBasePoint m))
     (then_io (bw_writeBytes (oc_paymentBasePoint m))
     (then_io (bw_writeBytes (oc_delayedPaymentBasePoint m))
     (then_io (bw_writeBytes (oc_htlcBasePoint m))
     (then_io (bw_writeBytes (oc_firstPerCommitmentPoint m))
     (then_io (writeAnnounce (oc_channelFlags m))
       (writeUpfront (oc_upfrontShutdownScript m)))))))))))))))))))))
      (oc_bytes m)" for f
    unfolding oc_bytes_def
    by ((rule writes_then | rule message_writes | (simp add: wf; fail))+)
  have "length (oc_bytes m) \<le> 2 ^ 30"
    using wf length_upfront_bytes [of "oc_upfrontShutdownScript m"] by (simp add: oc_bytes_def ci_toBuffer_def)
  then show "oc_serialize m = Inr (oc_bytes m)"
    unfolding oc_serialize_def by (intro runWriter_growing w) simp
  show "oc_deserialize (oc_bytes m) = Inr m"
    unfolding oc_deserialize_def oc_read_def oc_bytes_def
    by (rule parses_parseWith)
      ((rule parses_bind | rule parses_bind_last | rule message_parses | rule message_reads | (simp add: wf; fail)
        | (cases m; auto split: option.split; fail))+)
qed

definition oc_announceChannel :: "open_channel \<Rightarrow> bool" where
  "oc_announceChannel m \<longleftrightarrow> bf_isSet (oc_channelFlags m) 0"

definition oc_setAnnounceChannel :: "bool \<Rightarrow> open_channel \<Rightarrow> open_channel" where
  "oc_setAnnounceChannel val m =
     m\<lparr>oc_channelFlags := (if val then bf_set (oc_channelFlags m) 0 else bf_unset (oc_channelFlags m) 0)\<rparr>"

record accept_channel =
  ac_temporaryChannelId :: buffer
  ac_dustLimitValue :: btc_value
  ac_maxHtlcValueInFlightValue :: btc_value
  ac_channelReserveValue :: btc_value
  ac_htlcMinimumValue :: btc_value
  ac_minimumDepth :: nat
  ac_toSelfDelay :: nat
  ac_maxAcceptedHtlcs :: nat
  ac_fundingPubKey :: buffer
  ac_revocationBasePoint :: buffer
  ac_paymentBasePoint :: buffer
  ac_delayedPaymentBasePoint :: buffer
  ac_htlcBasePoint :: buffer
  ac_firstPerCommitmentPoint :: buffer
  ac_upfrontShutdownScript :: "buffer option"

definition ac_read :: "(buffer_reader, accept_channel) io" where
  "ac_read =
     bind_io br_readUInt16BE (\<lambda>_.
     bind_io (br_readBytes (Some 32)) (\<lambda>temporaryChannelId.
     bind_io readSats (\<lambda>dustLimitValue.
     bind_io readMilliSats (\<lambda>maxHtlcValueInFlightValue.
     bind_io readSats (\<lambda>channelReserveValue.
     bind_io readMilliSats (\<lambda>htlcMinimumValue.
     bind_io br_readUInt32BE (\<lambda>minimumDepth.
     bind_io br_readUInt16BE (\<lambda>toSelfDelay.
     bind_io br_readUInt16BE (\<lambda>maxAcceptedHtlcs.
     bind_io (br_readBytes (Some 33)) (\<lambda>fundingPubKey.
     bind_io (br_readBytes (Some 33)) (\<lambda>revocationBasePoint.
     bind_io (br_readBytes (Some 33)) (\<lambda>paymentBasePoint.
     bind_io (br_readBytes (Some 33)) (\<lambda>delayedPaymentBasePoint.
     bind_io (br_readBytes (Some 33)) (\<lambda>htlcBasePoint.
     bind_io (br_readBytes (Some 33)) (\<lambda>firstPerCommitmentPoint.
       \<lambda>r. readTlvs (upfrontTlv (\<lambda>s m. m\<lparr>ac_upfrontShutdownScript := Some
         s\<rparr>)) r None
         \<lparr>ac_temporaryChannelId = temporaryChannelId,
         ac_dustLimitValue = dustLimitValue, ac_maxHtlcValueInFlightValue = maxHtlcValueInFlightValue,
         ac_channelReserveValue = channelReserveValue, ac_htlcMinimumValue = htlcMinimumValue,
         ac_minimumDepth = minimumDepth, ac_toSelfDelay = toSelfDelay, ac_maxAcceptedHtlcs = maxAcceptedHtlcs,
         ac_fundingPubKey = fundingPubKey, ac_revocationBasePoint = revocationBasePoint,
         ac_paymentBasePoint = paymentBasePoint, ac_delayedPaymentBasePoint = delayedPaymentBasePoint,
         ac_htlcBasePoint = htlcBasePoint, ac_firstPerCommitmentPoint = firstPerCommitmentPoint,
         ac_upfrontShutdownScript = None\<rparr>)))))))))))))))"

definition ac_deserialize :: "buffer \<Rightarrow> accept_channel res" where
  "ac_deserialize = parseWith ac_read"

definition ac_serialize :: "accept_channel \<Rightarrow> buffer res" where
  "ac_serialize m = runWriter None
     (then_io (bw_writeUInt16BE (typeCode AcceptChannel))
     (then_io (bw_writeBytes (ac_temporaryChannelId m))
     (then_io (bw_writeUInt64BE (sats (ac_dustLimitValue m)))
     (then_io (bw_writeUInt64BE (msats (ac_maxHtlcValueInFlightValue m)))
     (then_io (bw_writeUInt64BE (sats (ac_channelReserveValue m)))
     (then_io (bw_writeUInt64BE (msats (ac_htlcMinimumValue m)))
     (then_io (bw_writeUInt32BE (ac_minimumDepth m))
     (then_io (bw_writeUInt16BE (ac_toSelfDelay m))
     (then_io (bw_writeUInt16BE (ac_maxAcceptedHtlcs m))
     (then_io (bw_writeBytes (ac_fundingPubKey m))
     (then_io (bw_writeBytes (ac_revocationBasePoint m))
     (then_io (bw_writeBytes (ac_paymentBasePoint m))
     (then_io (bw_writeBytes (ac_delayedPaymentBasePoint m))
     (then_io (bw_writeBytes (ac_htlcBasePoint m))
     (then_io (bw_writeBytes (ac_firstPerCommitmentPoint m))
       (writeUpfront (ac_upfrontShutdownScript m)))))))))))))))))"

definition ac_wf :: "accept_channel \<Rightarrow> bool" where
  "ac_wf m \<longleftrightarrow> length (ac_temporaryChannelId m) = 32
     \<and> whole 8 fromSats sats (ac_dustLimitValue m)
     \<and> whole 8 fromMilliSats msats (ac_maxHtlcValueInFlightValue m)
     \<and> whole 8 fromSats sats (ac_channelReserveValue m)
     \<and> whole 8 fromMilliSats msats (ac_htlcMinimumValue m)
     \<and> ac_minimumDepth m < 2 ^ 32
     \<and> ac_toSelfDelay m < 2 ^ 16
     \<and> ac_maxAcceptedHtlcs m < 2 ^ 16
     \<and> length (ac_fundingPubKey m) = 33
     \<and> length (ac_revocationBasePoint m) = 33
     \<and> length (ac_paymentBasePoint m) = 33
     \<and> length (ac_delayedPaymentBasePoint m) = 33
     \<and> length (ac_htlcBasePoint m) = 33
     \<and> length (ac_firstPerCommitmentPoint m) = 33
     \<and> upfront_wf (ac_upfrontShutdownScript m)"

definition ac_bytes :: "accept_channel \<Rightarrow> buffer" where
  "ac_bytes m = be_bytes 2 (typeCode AcceptChannel)
     @ ac_temporaryChannelId m
     @ amount_bytes 8 (sats (ac_dustLimitValue m))
     @ amount_bytes 8 (msats (ac_maxHtlcValueInFlightValue m))
     @ amount_bytes 8 (sats (ac_channelReserveValue m))
     @ amount_bytes 8 (msats (ac_htlcMinimumValue m))
     @ be_bytes 4 (ac_minimumDepth m)
     @ be_bytes 2 (ac_toSelfDelay m)
     @ be_bytes 2 (ac_maxAcceptedHtlcs m)
     @ ac_fundingPubKey m
     @ ac_revocationBasePoint m
     @ ac_paymentBasePoint m
     @ ac_delayedPaymentBasePoint m
     @ ac_htlcBasePoint m
     @ ac_firstPerCommitmentPoint m
     @ upfront_bytes (ac_upfrontShutdownScript m)"

lemma ac_roundtrip:
  assumes "ac_wf m"
  shows "ac_serialize m = Inr (ac_bytes m)" "ac_deserialize (ac_bytes m) = Inr m"
proof -
  note wf = assms [unfolded ac_wf_def, simplified]
  have w: "writes (bw_good f) bw_out bw_room
     (then_io (bw_writeUInt16BE (typeCode AcceptChannel))
     (then_io (bw_writeBytes (ac_temporaryChannelId m))
     (then_io (bw_writeUInt64BE (sats (ac_dustLimitValue m)))
     (then_io (bw_writeUInt64BE (msats (ac_maxHtlcValueInFlightValue m)))
     (then_io (bw_writeUInt64BE (sats (ac_channelReserveValue m)))
     (then_io (bw_writeUInt64BE (msats (ac_htlcMinimumValue m)))
     (then_io (bw_writeUInt32BE (ac_minimumDepth m))
     (then_io (bw_writeUInt16BE (ac_toSelfDelay m))
     (then_io (bw_writeUInt16BE (ac_maxAcceptedHtlcs m))
     (then_io (bw_writeBytes (ac_fundingPubKey m))
     (then_io (bw_writeBytes (ac_revocationBasePoint m))
     (then_io (bw_writeBytes (ac_paymentBasePoint m))
     (then_io (bw_writeBytes (ac_delayedPaymentBasePoint m))
     (then_io (bw_writeBytes (ac_htlcBasePoint m))
     (then_io (bw_writeBytes (ac_firstPerCommitmentPoint m))
       (writeUpfront (ac_upfrontShutdownScript m)))))))))))))))))
      (ac_bytes m)" for f
    unfolding ac_bytes_def
    by ((rule writes_then | rule message_writes | (simp add: wf; fail))+)
  have "length (ac_bytes m) \<le> 2 ^ 30"
    using wf length_upfront_bytes [of "ac_upfrontShutdownScript m"] by (simp add: ac_bytes_def ci_toBuffer_def)
  then show "ac_serialize m = Inr (ac_bytes m)"
    unfolding ac_serialize_def by (intro runWriter_growing w) simp
  show "ac_deserialize (ac_bytes m) = Inr m"
    unfolding ac_deserialize_def ac_read_def ac_bytes_def
    by (rule parses_parseWith)
      ((rule parses_bind | rule parses_bind_last | rule message_parses | rule message_reads | (simp add: wf; fail)
        | (cases m; auto split: option.split; fail))+)
qed

record funding_created =
  fc_temporaryChannelId :: buffer
  fc_fundingTxId :: buffer
  fc_fundingOutputIndex :: nat
  fc_signature :: buffer

definition fc_read :: "(buffer_reader, funding_created) io" where
  "fc_read =
     bind_io br_readUInt16BE (\<lambda>_.
     bind_io (br_readBytes (Some 32)) (\<lambda>temporaryChannelId.
     bind_io (br_readBytes (Some 32)) (\<lambda>fundingTxId.
     bind_io br_readUInt16BE (\<lambda>fundingOutputIndex.
     bind_io (br_readBytes (Some 64)) (\<lambda>signature.
       return_io \<lparr>fc_temporaryChannelId = temporaryChannelId, fc_fundingTxId = fundingTxId,
         fc_fundingOutputIndex = fundingOutputIndex, fc_signature = signature\<rparr>)))))"

definition fc_deserialize :: "buffer \<Rightarrow> funding_created res" where
  "fc_deserialize = parseWith fc_read"

definition fc_serialize :: "funding_created \<Rightarrow> buffer res" where
  "fc_serialize m = runWriter None
     (then_io (bw_writeUInt16BE (typeCode FundingCreated))
     (then_io (bw_writeBytes (fc_temporaryChannelId m))
     (then_io (bw_writeBytes (fc_fundingTxId m))
     (then_io (bw_writeUInt16BE (fc_fundingOutputIndex m))
       (bw_writeBytes (fc_signature m))))))"

definition fc_wf :: "funding_created \<Rightarrow> bool" where
  "fc_wf m \<longleftrightarrow> length (fc_temporaryChannelId m) = 32
     \<and> length (fc_fundingTxId m) = 32
     \<and> fc_fundingOutputIndex m < 2 ^ 16
     \<and> length (fc_signature m) = 64"

definition fc_bytes :: "funding_created \<Rightarrow> buffer" where
  "fc_bytes m = be_bytes 2 (typeCode FundingCreated)
     @ fc_temporaryChannelId m
     @ fc_fundingTxId m
     @ be_bytes 2 (fc_fundingOutputIndex m)
     @ fc_signature m"

lemma fc_roundtrip:
  assumes "fc_wf m"
  shows "fc_serialize m = Inr (fc_bytes m)" "fc_deserialize (fc_bytes m) = Inr m"
proof -
  note wf = assms [unfolded fc_wf_def, simplified]
  have w: "writes (bw_good f) bw_out bw_room
     (then_io (bw_writeUInt16BE (typeCode FundingCreated))
     (then_io (bw_writeBytes (fc_temporaryChannelId m))
     (then_io (bw_writeBytes (fc_fundingTxId m))
     (then_io (bw_writeUInt16BE (fc_fundingOutputIndex m))
       (bw_writeBytes (fc_signature m))))))
      (fc_bytes m)" for f
    unfolding fc_bytes_def
    by ((rule writes_then | rule message_writes | (simp add: wf; fail))+)
  have "length (fc_bytes m) \<le> 2 ^ 30"
    using wf  by (simp add: fc_bytes_def ci_toBuffer_def)
  then show "fc_serialize m = Inr (fc_bytes m)"
    unfolding fc_serialize_def by (intro runWriter_growing w) simp
  show "fc_deserialize (fc_bytes m) = Inr m"
    unfolding fc_deserialize_def fc_read_def fc_bytes_def
    by (rule parses_parseWith)
      ((rule parses_bind | rule parses_bind_last | rule message_parses | rule message_reads | (simp add: wf; fail)
        | (cases m; auto split: option.split; fail))+)
qed

record funding_signed =
  fs_channelId :: channel_id
  fs_signature :: buffer

definition fs_read :: "(buffer_reader, funding_signed) io" where
  "fs_read =
     bind_io br_readUInt16BE (\<lambda>_.
     bind_io readChannelId (\<lambda>channelId.
     bind_io (br_readBytes (Some 64)) (\<lambda>signature.
       return_io \<lparr>fs_channelId = channelId, fs_signature = signature\<rparr>)))"

definition fs_deserialize :: "buffer \<Rightarrow> funding_signed res" where
  "fs_deserialize = parseWith fs_read"

definition fs_serialize :: "funding_signed \<Rightarrow> buffer res" where
  "fs_serialize m = runWriter None
     (then_io (bw_writeUInt16BE (typeCode FundingSigned))
     (then_io (bw_writeBytes (ci_toBuffer (fs_channelId m)))
       (bw_writeBytes (fs_signature m))))"

definition fs_wf :: "funding_signed \<Rightarrow> bool" where
  "fs_wf m \<longleftrightarrow> length (ci_value (fs_channelId m)) = 32
     \<and> length (fs_signature m) = 64"

definition fs_bytes :: "funding_signed \<Rightarrow> buffer" where
  "fs_bytes m = be_bytes 2 (typeCode FundingSigned)
     @ ci_toBuffer (fs_channelId m)
     @ fs_signature m"

lemma fs_roundtrip:
  assumes "fs_wf m"
  shows "fs_serialize m = Inr (fs_bytes m)" "fs_deserialize (fs_bytes m) = Inr m"
proof -
  note wf = assms [unfolded fs_wf_def, simplified]
  have w: "writes (bw_good f) bw_out bw_room
     (then_io (bw_writeUInt16BE (typeCode FundingSigned))
     (then_io (bw_writeBytes (ci_toBuffer (fs_channelId m)))
       (bw_writeBytes (fs_signature m))))
      (fs_bytes m)" for f
    unfolding fs_bytes_def
    by ((rule writes_then | rule message_writes | (simp add: wf; fail))+)
  have "length (fs_bytes m) \<le> 2 ^ 30"
    using wf  by (simp add: fs_bytes_def ci_toBuffer_def)
  then show "fs_serialize m = Inr (fs_bytes m)"
    unfolding fs_serialize_def by (intro runWriter_growing w) simp
  show "fs_deserialize (fs_bytes m) = Inr m"
    unfolding fs_deserialize_def fs_read_def fs_bytes_def
    by (rule parses_parseWith)
      ((rule parses_bind | rule parses_bind_last | rule message_parses | rule message_reads | (simp add: wf; fail)
        | (cases m; auto split: option.split; fail))+)
qed

record channel_ready =
  cr_channelId :: channel_id
  cr_nextPerCommitmentPoint :: buffer

definition cr_read :: "(buffer_reader, channel_ready) io" where
  "cr_read =
     bind_io br_readUInt16BE (\<lambda>_.
     bind_io readChannelId (\<lambda>channelId.
     bind_io (br_readBytes (Some 33)) (\<lambda>nextPerCommitmentPoint.
       return_io \<lparr>cr_channelId = channelId, cr_nextPerCommitmentPoint = nextPerCommitmentPoint\<rparr>)))"

definition cr_deserialize :: "buffer \<Rightarrow> channel_ready res" where
  "cr_deserialize = parseWith cr_read"

definition cr_serialize :: "channel_ready \<Rightarrow> buffer res" where
  "cr_serialize m = runWriter None
     (then_io (bw_writeUInt16BE (typeCode FundingLocked))
     (then_io (bw_writeBytes (ci_toBuffer (cr_channelId m)))
       (bw_writeBytes (cr_nextPerCommitmentPoint m))))"

definition cr_wf :: "channel_ready \<Rightarrow> bool" where
  "cr_wf m \<longleftrightarrow> length (ci_value (cr_channelId m)) = 32
     \<and> length (cr_nextPerCommitmentPoint m) = 33"

definition cr_bytes :: "channel_ready \<Rightarrow> buffer" where
  "cr_bytes m = be_bytes 2 (typeCode FundingLocked)
     @ ci_toBuffer (cr_channelId m)
     @ cr_nextPerCommitmentPoint m"

lemma cr_roundtrip:
  assumes "cr_wf m"
  shows "cr_serialize m = Inr (cr_bytes m)" "cr_deserialize (cr_bytes m) = Inr m"
proof -
  note wf = assms [unfolded cr_wf_def, simplified]
  have w: "writes (bw_good f) bw_out bw_room
     (then_io (bw_writeUInt16BE (typeCode FundingLocked))
     (then_io (bw_writeBytes (ci_toBuffer (cr_channelId m)))
       (bw_writeBytes (cr_nextPerCommitmentPoint m))))
      (cr_bytes m)" for f
    unfolding cr_bytes_def
    by ((rule writes_then | rule message_writes | (simp add: wf; fail))+)
  have "length (cr_bytes m) \<le> 2 ^ 30"
    using wf  by (simp add: cr_bytes_def ci_toBuffer_def)
  then show "cr_serialize m = Inr (cr_bytes m)"
    unfolding cr_serialize_def by (intro runWriter_growing w) simp
  show "cr_deserialize (cr_bytes m) = Inr m"
    unfolding cr_deserialize_def cr_read_def cr_bytes_def
    by (rule parses_parseWith)
      ((rule parses_bind | rule parses_bind_last | rule message_parses | rule message_reads | (simp add: wf; fail)
        | (cases m; auto split: option.split; fail))+)
qed

section \<open>Closing a channel\<close>

record shutdown =
  sd_channelId :: channel_id
  sd_scriptPubKey :: buffer

definition sd_read :: "(buffer_reader, shutdown) io" where
  "sd_read =
     bind_io br_readUInt16BE (\<lambda>_.
     bind_io readChannelId (\<lambda>channelId.
     bind_io readCounted16 (\<lambda>scriptPubKey.
       return_io \<lparr>sd_channelId = channelId, sd_scriptPubKey = scriptPubKey\<rparr>)))"

definition sd_deserialize :: "buffer \<Rightarrow> shutdown res" where
  "sd_deserialize = parseWith sd_read"

definition sd_serialize :: "shutdown \<Rightarrow> buffer res" where
  "sd_serialize m = runWriter None
     (then_io (bw_writeUInt16BE (typeCode Shutdown))
     (then_io (bw_writeBytes (ci_toBuffer (sd_channelId m)))
       (writeCounted16 (sd_scriptPubKey m))))"

definition sd_wf :: "shutdown \<Rightarrow> bool" where
  "sd_wf m \<longleftrightarrow> length (ci_value (sd_channelId m)) = 32
     \<and> length (sd_scriptPubKey m) < 2 ^ 16"

definition sd_bytes :: "shutdown \<Rightarrow> buffer" where
  "sd_bytes m = be_bytes 2 (typeCode Shutdown)
     @ ci_toBuffer (sd_channelId m)
     @ counted16 (sd_scriptPubKey m)"

lemma sd_roundtrip:
  assumes "sd_wf m"
  shows "sd_serialize m = Inr (sd_bytes m)" "sd_deserialize (sd_bytes m) = Inr m"
proof -
  note wf = assms [unfolded sd_wf_def, simplified]
  have w: "writes (bw_good f) bw_out bw_room
     (then_io (bw_writeUInt16BE (typeCode Shutdown))
     (then_io (bw_writeBytes (ci_toBuffer (sd_channelId m)))
       (writeCounted16 (sd_scriptPubKey m))))
      (sd_bytes m)" for f
    unfolding sd_bytes_def
    by ((rule writes_then | rule message_writes | (simp add: wf; fail))+)
  have "length (sd_bytes m) \<le> 2 ^ 30"
    using wf  by (simp add: sd_bytes_def ci_toBuffer_def)
  then show "sd_serialize m = Inr (sd_bytes m)"
    unfolding sd_serialize_def by (intro runWriter_growing w) simp
  show "sd_deserialize (sd_bytes m) = Inr m"
    unfolding sd_deserialize_def sd_read_def sd_bytes_def
    by (rule parses_parseWith)
      ((rule parses_bind | rule parses_bind_last | rule message_parses | rule message_reads | (simp add: wf; fail)
        | (cases m; auto split: option.split; fail))+)
qed

record closing_signed =
  cl_channelId :: channel_id
  cl_feeSatoshis :: btc_value
  cl_signature :: buffer

definition cl_read :: "(buffer_reader, closing_signed) io" where
  "cl_read =
     bind_io br_readUInt16BE (\<lambda>_.
     bind_io readChannelId (\<lambda>channelId.
     bind_io readSats (\<lambda>feeSatoshis.
     bind_io (br_readBytes (Some 64)) (\<lambda>signature.
       return_io \<lparr>cl_channelId = channelId, cl_feeSatoshis = feeSatoshis,
         cl_signature = signature\<rparr>))))"

definition cl_deserialize :: "buffer \<Rightarrow> closing_signed res" where
  "cl_deserialize = parseWith cl_read"

definition cl_serialize :: "closing_signed \<Rightarrow> buffer res" where
  "cl_serialize m = runWriter None
     (then_io (bw_writeUInt16BE (typeCode ClosingSigned))
     (then_io (bw_writeBytes (ci_toBuffer (cl_channelId m)))
     (then_io (bw_writeUInt64BE (sats (cl_feeSatoshis m)))
       (bw_writeBytes (cl_signature m)))))"

definition cl_wf :: "closing_signed \<Rightarrow> bool" where
  "cl_wf m \<longleftrightarrow> length (ci_value (cl_channelId m)) = 32
     \<and> whole 8 fromSats sats (cl_feeSatoshis m)
     \<and> length (cl_signature m) = 64"

definition cl_bytes :: "closing_signed \<Rightarrow> buffer" where
  "cl_bytes m = be_bytes 2 (typeCode ClosingSigned)
     @ ci_toBuffer (cl_channelId m)
     @ amount_bytes 8 (sats (cl_feeSatoshis m))
     @ cl_signature m"

lemma cl_roundtrip:
  assumes "cl_wf m"
  shows "cl_serialize m = Inr (cl_bytes m)" "cl_deserialize (cl_bytes m) = Inr m"
proof -
  note wf = assms [unfolded cl_wf_def, simplified]
  have w: "writes (bw_good f) bw_out bw_room
     (then_io (bw_writeUInt16BE (typeCode ClosingSigned))
     (then_io (bw_writeBytes (ci_toBuffer (cl_channelId m)))
     (then_io (bw_writeUInt64BE (sats (cl_feeSatoshis m)))
       (bw_writeBytes (cl_signature m)))))
      (cl_bytes m)" for f
    unfolding cl_bytes_def
    by ((rule writes_then | rule message_writes | (simp add: wf; fail))+)
  have "length (cl_bytes m) \<le> 2 ^ 30"
    using wf  by (simp add: cl_bytes_def ci_toBuffer_def)
  then show "cl_serialize m = Inr (cl_bytes m)"
    unfolding cl_serialize_def by (intro runWriter_growing w) simp
  show "cl_deserialize (cl_bytes m) = Inr m"
    unfolding cl_deserialize_def cl_read_def cl_bytes_def
    by (rule parses_parseWith)
      ((rule parses_bind | rule parses_bind_last | rule message_parses | rule message_reads | (simp add: wf; fail)
        | (cases m; auto split: option.split; fail))+)
qed

section \<open>Errors, ping and pong\<close>

record error_message =
  em_channelId :: buffer
  em_data :: buffer

definition em_read :: "(buffer_reader, error_message) io" where
  "em_read =
     bind_io br_readUInt16BE (\<lambda>_.
     bind_io (br_readBytes (Some 32)) (\<lambda>channelId.
     bind_io readCounted16 (\<lambda>data.
       return_io \<lparr>em_channelId = channelId, em_data = data\<rparr>)))"

definition em_deserialize :: "buffer \<Rightarrow> error_message res" where
  "em_deserialize = parseWith em_read"

definition em_serialize :: "error_message \<Rightarrow> buffer res" where
  "em_serialize m = runWriter (Some (replicate (2 + 32 + 2 + length (em_data m)) 0))
     (then_io (bw_writeUInt16BE (typeCode Error))
     (then_io (bw_writeBytes (em_channelId m))
       (writeCounted16 (em_data m))))"

definition em_wf :: "error_message \<Rightarrow> bool" where
  "em_wf m \<longleftrightarrow> length (em_channelId m) = 32
     \<and> length (em_data m) < 2 ^ 16"

definition em_bytes :: "error_message \<Rightarrow> buffer" where
  "em_bytes m = be_bytes 2 (typeCode Error)
     @ em_channelId m
     @ counted16 (em_data m)"

lemma em_roundtrip:
  assumes "em_wf m"
  shows "em_serialize m = Inr (em_bytes m)" "em_deserialize (em_bytes m) = Inr m"
proof -
  note wf = assms [unfolded em_wf_def, simplified]
  have w: "writes (bw_good f) bw_out bw_room
     (then_io (bw_writeUInt16BE (typeCode Error))
     (then_io (bw_writeBytes (em_channelId m))
       (writeCounted16 (em_data m))))
      (em_bytes m)" for f
    unfolding em_bytes_def
    by ((rule writes_then | rule message_writes | (simp add: wf; fail))+)
  have "length (em_bytes m) = 2 + 32 + 2 + length (em_data m)"
    using wf  by (simp add: em_bytes_def ci_toBuffer_def)
  then show "em_serialize m = Inr (em_bytes m)"
    unfolding em_serialize_def by (intro runWriter_fixed w) simp
  show "em_deserialize (em_bytes m) = Inr m"
    unfolding em_deserialize_def em_read_def em_bytes_def
    by (rule parses_parseWith)
      ((rule parses_bind | rule parses_bind_last | rule message_parses | rule message_reads | (simp add: wf; fail)
        | (cases m; auto split: option.split; fail))+)
qed

record ping =
  pg_numPongBytes :: nat
  pg_ignored :: buffer

definition pg_read :: "(buffer_reader, ping) io" where
  "pg_read =
     bind_io br_readUInt16BE (\<lambda>_.
     bind_io br_readUInt16BE (\<lambda>numPongBytes.
     bind_io readCounted16 (\<lambda>ignored.
       return_io \<lparr>pg_numPongBytes = numPongBytes, pg_ignored = ignored\<rparr>)))"

definition pg_deserialize :: "buffer \<Rightarrow> ping res" where
  "pg_deserialize = parseWith pg_read"

definition pg_serialize :: "ping \<Rightarrow> buffer res" where
  "pg_serialize m = runWriter (Some (replicate (2 + 2 + 2 + length (pg_ignored m)) 0))
     (then_io (bw_writeUInt16BE (typeCode Ping))
     (then_io (bw_writeUInt16BE (pg_numPongBytes m))
       (writeCounted16 (pg_ignored m))))"

definition pg_wf :: "ping \<Rightarrow> bool" where
  "pg_wf m \<longleftrightarrow> pg_numPongBytes m < 2 ^ 16
     \<and> length (pg_ignored m) < 2 ^ 16"

definition pg_bytes :: "ping \<Rightarrow> buffer" where
  "pg_bytes m = be_bytes 2 (typeCode Ping)
     @ be_bytes 2 (pg_numPongBytes m)
     @ counted16 (pg_ignored m)"

lemma pg_roundtrip:
  assumes "pg_wf m"
  shows "pg_serialize m = Inr (pg_bytes m)" "pg_deserialize (pg_bytes m) = Inr m"
proof -
  note wf = assms [unfolded pg_wf_def, simplified]
  have w: "writes (bw_good f) bw_out bw_room
     (then_io (bw_writeUInt16BE (typeCode Ping))
     (then_io (bw_writeUInt16BE (pg_numPongBytes m))
       (writeCounted16 (pg_ignored m))))
      (pg_bytes m)" for f
    unfolding pg_bytes_def
    by ((rule writes_then | rule message_writes | (simp add: wf; fail))+)
  have "length (pg_bytes m) = 2 + 2 + 2 + length (pg_ignored m)"
    using wf  by (simp add: pg_bytes_def ci_toBuffer_def)
  then show "pg_serialize m = Inr (pg_bytes m)"
    unfolding pg_serialize_def by (intro runWriter_fixed w) simp
  show "pg_deserialize (pg_bytes m) = Inr m"
    unfolding pg_deserialize_def pg_read_def pg_bytes_def
    by (rule parses_parseWith)
      ((rule parses_bind | rule parses_bind_last | rule message_parses | rule message_reads | (simp add: wf; fail)
        | (cases m; auto split: option.split; fail))+)
qed

record pong =
  po_ignored :: buffer

definition po_read :: "(buffer_reader, pong) io" where
  "po_read =
     bind_io br_readUInt16BE (\<lambda>_.
     bind_io readCounted16 (\<lambda>ignored.
       return_io \<lparr>po_ignored = ignored\<rparr>))"

definition po_deserialize :: "buffer \<Rightarrow> pong res" where
  "po_deserialize = parseWith po_read"

definition po_serialize :: "pong \<Rightarrow> buffer res" where
  "po_serialize m = runWriter (Some (replicate (2 + 2 + length (po_ignored m)) 0))
     (then_io (bw_writeUInt16BE (typeCode Pong))
       (writeCounted16 (po_ignored m)))"

definition po_wf :: "pong \<Rightarrow> bool" where
  "po_wf m \<longleftrightarrow> length (po_ignored m) < 2 ^ 16"

definition po_bytes :: "pong \<Rightarrow> buffer" where
  "po_bytes m = be_bytes 2 (typeCode Pong)
     @ counted16 (po_ignored m)"

lemma po_roundtrip:
  assumes "po_wf m"
  shows "po_serialize m = Inr (po_bytes m)" "po_deserialize (po_bytes m) = Inr m"
proof -
  note wf = assms [unfolded po_wf_def, simplified]
  have w: "writes (bw_good f) bw_out bw_room
     (then_io (bw_writeUInt16BE (typeCode Pong))
       (writeCounted16 (po_ignored m)))
      (po_bytes m)" for f
    unfolding po_bytes_def
    by ((rule writes_then | rule message_writes | (simp add: wf; fail))+)
  have "length (po_bytes m) = 2 + 2 + length (po_ignored m)"
    using wf  by (simp add: po_bytes_def ci_toBuffer_def)
  then show "po_serialize m = Inr (po_bytes m)"
    unfolding po_serialize_def by (intro runWriter_fixed w) simp
  show "po_deserialize (po_bytes m) = Inr m"
    unfolding po_deserialize_def po_read_def po_bytes_def
    by (rule parses_parseWith)
      ((rule parses_bind | rule parses_bind_last | rule message_parses | rule message_reads | (simp add: wf; fail)
        | (cases m; auto split: option.split; fail))+)
qed

record announcement_signatures =
  as_channelId :: buffer
  as_shortChannelId :: scid
  as_nodeSignature :: buffer
  as_bitcoinSignature :: buffer

definition as_read :: "(buffer_reader, announcement_signatures) io" where
  "as_read =
     bind_io br_readUInt16BE (\<lambda>_.
     bind_io (br_readBytes (Some 32)) (\<lambda>channelId.
     bind_io readScid (\<lambda>shortChannelId.
     bind_io (br_readBytes (Some 64)) (\<lambda>nodeSignature.
     bind_io (br_readBytes (Some 64)) (\<lambda>bitcoinSignature.
       return_io \<lparr>as_channelId = channelId, as_shortChannelId = shortChannelId,
         as_nodeSignature = nodeSignature, as_bitcoinSignature = bitcoinSignature\<rparr>)))))"

definition as_deserialize :: "buffer \<Rightarrow> announcement_signatures res" where
  "as_deserialize = parseWith as_read"

definition as_serialize :: "announcement_signatures \<Rightarrow> buffer res" where
  "as_serialize m = runWriter (Some (replicate (2 + 32 + 8 + 64 + 64) 0))
     (then_io (bw_writeUInt16BE (typeCode AnnouncementSignatures))
     (then_io (bw_writeBytes (as_channelId m))
     (then_io (writeScid (as_shortChannelId m))
     (then_io (bw_writeBytes (as_nodeSignature m))
       (bw_writeBytes (as_bitcoinSignature m))))))"

definition as_wf :: "announcement_signatures \<Rightarrow> bool" where
  "as_wf m \<longleftrightarrow> length (as_channelId m) = 32
     \<and> scid_wf (as_shortChannelId m)
     \<and> length (as_nodeSignature m) = 64
     \<and> length (as_bitcoinSignature m) = 64"

definition as_bytes :: "announcement_signatures \<Rightarrow> buffer" where
  "as_bytes m = be_bytes 2 (typeCode AnnouncementSignatures)
     @ as_channelId m
     @ scid_bytes (as_shortChannelId m)
     @ as_nodeSignature m
     @ as_bitcoinSignature m"

lemma as_roundtrip:
  assumes "as_wf m"
  shows "as_serialize m = Inr (as_bytes m)" "as_deserialize (as_bytes m) = Inr m"
proof -
  note wf = assms [unfolded as_wf_def, simplified]
  have w: "writes (bw_good f) bw_out bw_room
     (then_io (bw_writeUInt16BE (typeCode AnnouncementSignatures))
     (then_io (bw_writeBytes (as_channelId m))
     (then_io (writeScid (as_shortChannelId m))
     (then_io (bw_writeBytes (as_nodeSignature m))
       (bw_writeBytes (as_bitcoinSignature m))))))
      (as_bytes m)" for f
    unfolding as_bytes_def
    by ((rule writes_then | rule message_writes | (simp add: wf; fail))+)
  have "length (as_bytes m) = 2 + 32 + 8 + 64 + 64"
    using wf  by (simp add: as_bytes_def ci_toBuffer_def)
  then show "as_serialize m = Inr (as_bytes m)"
    unfolding as_serialize_def by (intro runWriter_fixed w) simp
  show "as_deserialize (as_bytes m) = Inr m"
    unfolding as_deserialize_def as_read_def as_bytes_def
    by (rule parses_parseWith)
      ((rule parses_bind | rule parses_bind_last | rule message_parses | rule message_reads | (simp add: wf; fail)
        | (cases m; auto split: option.split; fail))+)
qed

end
