(* ===== verification/Crc32c.thy ===== *)
theory Crc32c
  imports Bytes
begin

text \<open>
  \<^verbatim>\<open>packages/checksum/lib/crc32c.ts\<close> and \<^verbatim>\<open>packages/lightning/lib/domain/Checksum.ts\<close>: the
  table-driven CRC-32C, proved equal to division of the message by the polynomial one bit at a time.
\<close>

section \<open>The table-driven checksum\<close>

definition crc_step :: "32 word \<Rightarrow> 32 word" where
  "crc_step b = (if bit b 0 then drop_bit 1 b XOR 0x82f63b78 else drop_bit 1 b)"

definition generateReversedTable :: "32 word list" where
  "generateReversedTable = map (\<lambda>i. (crc_step ^^ 8) (of_nat i)) [0..<256]"

definition crc32c :: "buffer \<Rightarrow> 32 word" where
  "crc32c buf =
     (let crc = foldl (\<lambda>crc b.
            let constantIdx = (crc AND 0xff) XOR ucast b;
                constant = generateReversedTable ! unat constantIdx
            in constant XOR drop_bit 8 crc) 0xffffffff buf
      in crc XOR 0xffffffff)"

datatype checksum = Checksum (cs_value: "32 word")

definition checksum_fromBuffer :: "buffer \<Rightarrow> checksum" where
  "checksum_fromBuffer buf = Checksum (crc32c buf)"

definition checksum_empty :: checksum where
  "checksum_empty = Checksum 0"

definition checksum_equals :: "checksum \<Rightarrow> checksum \<Rightarrow> bool" where
  "checksum_equals c other \<longleftrightarrow> cs_value c = cs_value other"

definition checksum_toBuffer :: "checksum \<Rightarrow> buffer" where
  "checksum_toBuffer c = be_bytes 4 (unat (cs_value c))"

section \<open>Equality with the bitwise division\<close>

text \<open>
  The reference: a shift register that takes in the bits of the message one after the other, lowest
  bit of each byte first, and is reduced by the reversed polynomial whenever a one falls out.
\<close>

definition message_bits :: "buffer \<Rightarrow> bool list" where
  "message_bits buf = concat (map (\<lambda>b. map (bit b) [0..<8]) buf)"

definition crc_bit :: "32 word \<Rightarrow> bool \<Rightarrow> 32 word" where
  "crc_bit r m = (if bit r 0 \<noteq> m then drop_bit 1 r XOR 0x82f63b78 else drop_bit 1 r)"

definition crc_bitwise :: "buffer \<Rightarrow> 32 word" where
  "crc_bitwise buf = NOT (foldl crc_bit (NOT 0) (message_bits buf))"

lemma crc_bit_step: "crc_bit r m = crc_step (r XOR (if m then 1 else 0))"
proof -
  have "drop_bit 1 (r XOR 1) = drop_bit 1 r"
    by (rule bit_word_eqI) (simp add: bit_simps)
  then show ?thesis by (cases m) (simp_all add: crc_bit_def crc_step_def bit_xor_iff bit_1_iff)
qed

lemma crc_step_xor: "crc_step (a XOR b) = crc_step a XOR crc_step b"
proof -
  have "drop_bit 1 (a XOR b) = drop_bit 1 a XOR drop_bit 1 b"
    by (rule bit_word_eqI) (simp add: bit_simps)
  then show ?thesis by (simp add: crc_step_def bit_xor_iff ac_simps)
qed

lemma crc_steps_xor: "(crc_step ^^ n) (a XOR b) = (crc_step ^^ n) a XOR (crc_step ^^ n) b"
  by (induction n) (simp_all add: crc_step_xor)

lemma crc_steps_shift: "take_bit n a = 0 \<Longrightarrow> (crc_step ^^ n) a = drop_bit n a"
proof (induction n arbitrary: a)
  case (Suc n)
  have b: "\<not> bit a k" if "k \<le> n" for k
    using arg_cong [OF Suc.prems, of "\<lambda>w. bit w k"] that by (simp add: bit_take_bit_iff)
  have "crc_step a = drop_bit 1 a" using b [of 0] by (simp add: crc_step_def)
  moreover have "take_bit n (drop_bit 1 a) = 0"
    by (rule bit_word_eqI) (use b in \<open>auto simp: bit_simps\<close>)
  then have "(crc_step ^^ n) (drop_bit 1 a) = drop_bit n (drop_bit 1 a)" by (rule Suc.IH)
  moreover have "drop_bit n (drop_bit 1 a) = drop_bit (Suc n) a"
    by (rule bit_word_eqI) (simp add: bit_simps)
  ultimately show ?case by (simp add: funpow_swap1)
qed simp

lemma split_byte: "(a :: 32 word) = take_bit 8 a XOR push_bit 8 (drop_bit 8 a)"
  by (rule bit_word_eqI) (auto simp: bit_simps)

lemma table_nth: "(w :: 32 word) = take_bit 8 w \<Longrightarrow> generateReversedTable ! unat w = (crc_step ^^ 8) w"
proof -
  assume "w = take_bit 8 w"
  then have "unat w = take_bit 8 (unat w)" by (metis unsigned_take_bit_eq)
  then have "unat w < 256" using take_bit_nat_less_exp [of 8 "unat w"] by simp
  then show ?thesis by (simp add: generateReversedTable_def del: funpow.simps)
qed

text \<open>Eight bits at once: the shift register reads the byte as the table does.\<close>

lemma crc_bits_byte:
  "foldl crc_bit r (map (bit (b :: byte)) [0..<n]) = (crc_step ^^ n) (r XOR take_bit n (ucast b))"
proof (induction n)
  case (Suc n)
  let ?m = "if bit b n then 1 else 0 :: 32 word"
  have "take_bit (Suc n) (ucast b :: 32 word) = take_bit n (ucast b) XOR push_bit n ?m"
  proof (rule bit_word_eqI)
    fix k assume "k < LENGTH(32)"
    then show "bit (take_bit (Suc n) (ucast b :: 32 word)) k \<longleftrightarrow> bit (take_bit n (ucast b) XOR push_bit n ?m) k"
      by (cases "k = n") (auto simp: bit_simps)
  qed
  moreover have "(crc_step ^^ n) (push_bit n ?m) = (if n < 32 then ?m else 0)"
  proof -
    have "take_bit n (push_bit n ?m) = 0" by (rule bit_word_eqI) (auto simp: bit_simps)
    then have "(crc_step ^^ n) (push_bit n ?m) = drop_bit n (push_bit n ?m)" by (rule crc_steps_shift)
    also have "\<dots> = (if n < 32 then ?m else 0)"
      by (rule bit_word_eqI) (auto simp: bit_simps)
    finally show ?thesis .
  qed
  moreover have "n < 32 \<or> \<not> bit b n" using bit_imp_le_length [of b n] by auto
  ultimately show ?case using Suc by (auto simp: crc_bit_step crc_steps_xor xor.assoc)
qed simp

lemma crc_table_byte:
  "generateReversedTable ! unat ((r AND 0xff) XOR ucast (b :: byte)) XOR drop_bit 8 r
     = foldl crc_bit r (map (bit b) [0..<8])"
proof -
  let ?w = "(r AND 0xff) XOR ucast b :: 32 word"
  have m: "r AND 0xff = take_bit 8 r" using take_bit_eq_mask [of 8 r] by (simp add: mask_eq_exp_minus_1)
  have t: "?w = take_bit 8 (r XOR ucast b)"
    unfolding m by (rule bit_word_eqI) (auto simp: bit_simps dest: bit_imp_le_length)
  then have "generateReversedTable ! unat ?w = (crc_step ^^ 8) ?w" by (intro table_nth) simp
  moreover have "(crc_step ^^ 8) (push_bit 8 (drop_bit 8 r)) = drop_bit 8 r"
  proof -
    have "take_bit 8 (push_bit 8 (drop_bit 8 r)) = 0" by (rule bit_word_eqI) (auto simp: bit_simps)
    then have "(crc_step ^^ 8) (push_bit 8 (drop_bit 8 r)) = drop_bit 8 (push_bit 8 (drop_bit 8 r))"
      by (rule crc_steps_shift)
    also have "\<dots> = drop_bit 8 r"
      by (rule bit_word_eqI) (auto simp: bit_simps dest: bit_imp_le_length)
    finally show ?thesis .
  qed
  moreover have "?w XOR push_bit 8 (drop_bit 8 r) = r XOR take_bit 8 (ucast b)"
    unfolding m by (rule bit_word_eqI) (auto simp: bit_simps dest: bit_imp_le_length)
  ultimately show ?thesis
    using crc_steps_xor [of 8 ?w "push_bit 8 (drop_bit 8 r)"] crc_bits_byte [of r b 8] by simp
qed

lemma crc32c_eq: "crc32c buf = crc_bitwise buf"
proof -
  have "foldl (\<lambda>crc b. generateReversedTable ! unat ((crc AND 0xff) XOR ucast b) XOR drop_bit 8 crc) r buf
      = foldl crc_bit r (message_bits buf)" for r
    by (induction buf arbitrary: r) (simp_all only: crc_table_byte message_bits_def foldl.simps list.map concat.simps foldl_append)
  moreover have "(0xffffffff :: 32 word) = - 1" "(NOT 0 :: 32 word) = - 1" by simp_all
  ultimately show ?thesis by (simp only: crc32c_def crc_bitwise_def Let_def bit.xor_one_right)
qed


text \<open>
  C36: The table-driven CRC-32C is the remainder of the message, taken bit by bit with the lowest bit of
  each byte first, in a register that starts with ones and is complemented at the end.
\<close>
theorem crc32c_bitwise: "crc32c buf = crc_bitwise buf"
  by (rule crc32c_eq)

section \<open>Bursts of errors are detected\<close>

lemma crc_step_zero: "crc_step c = 0 \<Longrightarrow> c = 0"
proof -
  assume z: "crc_step c = 0"
  have "\<not> bit c 0"
  proof
    assume "bit c 0"
    then have "drop_bit 1 c XOR 0x82f63b78 = 0" using z by (simp add: crc_step_def)
    then have "bit (drop_bit 1 c XOR 0x82f63b78) 31 = bit (0 :: 32 word) 31" by simp
    then show False by (auto simp: bit_simps dest: bit_imp_le_length)
  qed
  then have d: "drop_bit 1 c = 0" using z by (simp add: crc_step_def)
  have "\<not> bit c k" if "k < 32" for k
  proof (cases k)
    case 0
    then show ?thesis using \<open>\<not> bit c 0\<close> by simp
  next
    case (Suc n)
    then show ?thesis using that arg_cong [OF d, of "\<lambda>w. bit w n"] by (auto simp: bit_simps dest: bit_imp_le_length)
  qed
  then show ?thesis by (intro bit_word_eqI) simp
qed

lemma crc_steps_inj: "(crc_step ^^ n) a = (crc_step ^^ n) b \<Longrightarrow> a = b"
proof (induction n)
  case (Suc n)
  have "crc_step ((crc_step ^^ n) a XOR (crc_step ^^ n) b) = 0"
    using Suc.prems by (simp add: crc_step_xor)
  then have "(crc_step ^^ n) a XOR (crc_step ^^ n) b = 0" by (rule crc_step_zero)
  then show ?case using Suc.IH by (simp add: xor_eq_0_iff)
qed simp

lemma crc_suffix_inj: "foldl crc_bit a ms = foldl crc_bit b ms \<Longrightarrow> a = b"
proof (induction ms arbitrary: a b)
  case (Cons m ms)
  then have "crc_bit a m = crc_bit b m" by simp
  then have "(crc_step ^^ 1) (a XOR (if m then 1 else 0)) = (crc_step ^^ 1) (b XOR (if m then 1 else 0))"
    by (simp add: crc_bit_step)
  then have "a XOR (if m then 1 else 0) = b XOR (if m then 1 else 0)" by (rule crc_steps_inj)
  then show ?case by (simp add: xor.commute [of _ "if m then 1 else 0"])
qed simp

text \<open>Up to 32 bits are absorbed at once.\<close>

lemma crc_bits_word:
  "n \<le> 32 \<Longrightarrow> foldl crc_bit r (map (bit (w :: 32 word)) [0..<n]) = (crc_step ^^ n) (r XOR take_bit n w)"
proof (induction n)
  case (Suc n)
  let ?m = "if bit w n then 1 else 0 :: 32 word"
  have "take_bit (Suc n) w = take_bit n w XOR push_bit n ?m"
  proof (rule bit_word_eqI)
    fix k assume "k < LENGTH(32)"
    then show "bit (take_bit (Suc n) w) k \<longleftrightarrow> bit (take_bit n w XOR push_bit n ?m) k"
      by (cases "k = n") (auto simp: bit_simps)
  qed
  moreover have "(crc_step ^^ n) (push_bit n ?m) = ?m"
  proof -
    have "take_bit n (push_bit n ?m) = 0" by (rule bit_word_eqI) (auto simp: bit_simps)
    then have "(crc_step ^^ n) (push_bit n ?m) = drop_bit n (push_bit n ?m)" by (rule crc_steps_shift)
    also have "\<dots> = ?m" using Suc.prems by (intro bit_word_eqI) (auto simp: bit_simps)
    finally show ?thesis .
  qed
  ultimately show ?case using Suc by (auto simp: crc_bit_step crc_steps_xor xor.assoc)
qed simp

lemma bit_le_val: "bit (le_val bs) k \<longleftrightarrow> k div 8 < length bs \<and> bit (bs ! (k div 8)) (k mod 8)"
proof (induction bs arbitrary: k)
  case (Cons b bs)
  have split: "le_val (b # bs) = take_bit 8 (unat b) + push_bit 8 (le_val bs)"
    by (simp add: push_bit_eq_mult take_bit_eq_mod)
  also have "\<dots> = take_bit 8 (unat b) OR push_bit 8 (le_val bs)"
    by (rule disjunctive_add) (auto simp: bit_simps)
  finally have "bit (le_val (b # bs)) k \<longleftrightarrow> (k < 8 \<and> bit (unat b) k) \<or> (8 \<le> k \<and> bit (le_val bs) (k - 8))"
    by (auto simp: bit_simps)
  then show ?case
  proof (cases "k < 8")
    case False
    then have "k div 8 = Suc ((k - 8) div 8)" "k mod 8 = (k - 8) mod 8"
      by (simp_all add: le_div_geq le_mod_geq)
    with False \<open>bit (le_val (b # bs)) k \<longleftrightarrow> _\<close> show ?thesis by (simp add: Cons.IH)
  qed (simp add: bit_unsigned_iff)
qed simp

lemma message_bits_le_val:
  "message_bits bs = map (bit (le_val bs)) [0..<8 * length bs]"
proof (rule nth_equalityI)
  have len: "length (message_bits cs) = 8 * length cs" for cs
    by (induction cs) (simp_all add: message_bits_def)
  then show "length (message_bits bs) = length (map (bit (le_val bs)) [0..<8 * length bs])" by simp
  have "message_bits cs ! k \<longleftrightarrow> bit (cs ! (k div 8)) (k mod 8)" if "k < 8 * length cs" for k cs
    using that
  proof (induction cs arbitrary: k)
    case (Cons c cs)
    have "message_bits (c # cs) ! k = (if k < 8 then bit c k else message_bits cs ! (k - 8))"
      by (simp add: message_bits_def nth_append del: upt_Suc)
    moreover have "k div 8 = Suc ((k - 8) div 8)" "k mod 8 = (k - 8) mod 8" if "8 \<le> k"
      using that by (simp_all add: le_div_geq le_mod_geq)
    ultimately show ?case using Cons by (cases "k < 8") auto
  qed simp
  then show "message_bits bs ! k = map (bit (le_val bs)) [0..<8 * length bs] ! k"
    if "k < length (message_bits bs)" for k
    using that len [of bs] by (auto simp: bit_le_val)
qed

lemma crc_absorb:
  "length bs \<le> 4 \<Longrightarrow> foldl crc_bit r (message_bits bs) = (crc_step ^^ (8 * length bs)) (r XOR of_nat (le_val bs))"
proof -
  assume l: "length bs \<le> 4"
  have "le_val bs < 2 ^ (8 * length bs)" using le_val_less [of bs] by (simp add: power_mult)
  then have t: "take_bit (8 * length bs) (le_val bs) = le_val bs" by (simp add: take_bit_nat_eq_self)
  have "map (bit (le_val bs)) [0..<8 * length bs] = map (bit (of_nat (le_val bs) :: 32 word)) [0..<8 * length bs]"
    using l by (auto simp: bit_of_nat_iff)
  then have "foldl crc_bit r (message_bits bs)
      = foldl crc_bit r (map (bit (of_nat (le_val bs) :: 32 word)) [0..<8 * length bs])"
    by (simp only: message_bits_le_val)
  then show ?thesis using crc_bits_word [of "8 * length bs" r "of_nat (le_val bs)"] l t
    by (simp add: take_bit_of_nat)
qed

lemma message_bits_append: "message_bits (xs @ ys) = message_bits xs @ message_bits ys"
  by (simp add: message_bits_def)

lemma crc32c_burst:
  assumes "length a = length b" "length a \<le> 4" "crc32c (p @ a @ s) = crc32c (p @ b @ s)"
  shows "a = b"
proof -
  let ?r = "foldl crc_bit (NOT 0) (message_bits p)"
  have "foldl crc_bit (foldl crc_bit ?r (message_bits a)) (message_bits s)
      = foldl crc_bit (foldl crc_bit ?r (message_bits b)) (message_bits s)"
    using assms(3) by (simp add: crc32c_eq crc_bitwise_def message_bits_append)
  then have "foldl crc_bit ?r (message_bits a) = foldl crc_bit ?r (message_bits b)"
    by (rule crc_suffix_inj)
  then have "?r XOR of_nat (le_val a) = ?r XOR of_nat (le_val b)"
    using assms(1,2) by (auto simp: crc_absorb dest: crc_steps_inj)
  then have "of_nat (le_val a) = (of_nat (le_val b) :: 32 word)"
    by simp
  moreover have "le_val a < 2 ^ 32" "le_val b < 2 ^ 32"
    using le_val_less [of a] le_val_less [of b] assms(1,2) power_increasing [of "length a" 4 "256 :: nat"] by simp_all
  ultimately have "le_val a = le_val b"
    by (simp add: word_of_nat_eq_iff take_bit_nat_eq_self)
  then show ?thesis using assms(1) by (rule le_val_inj [rotated])
qed

end
