(* ===== verification/GossipMessages.thy ===== *)
theory GossipMessages
  imports PeerMessages Crc32c Script
begin

text \<open>
  The gossip messages of \<^verbatim>\<open>packages/lightning/lib/messages\<close> that carry no node addresses, with
  \<^verbatim>\<open>serialize/Encoder.ts\<close>.  Compression and signature verification are parameters.
\<close>

section \<open>Announcements of channels\<close>

record channel_announcement =
  ca_nodeSignature1 :: buffer
  ca_nodeSignature2 :: buffer
  ca_bitcoinSignature1 :: buffer
  ca_bitcoinSignature2 :: buffer
  ca_features :: bit_field
  ca_chainHash :: buffer
  ca_shortChannelId :: scid
  ca_nodeId1 :: buffer
  ca_nodeId2 :: buffer
  ca_bitcoinKey1 :: buffer
  ca_bitcoinKey2 :: buffer

definition ca_read :: "(buffer_reader, channel_announcement) io" where
  "ca_read =
     bind_io br_readUInt16BE (\<lambda>_.
     bind_io (br_readBytes (Some 64)) (\<lambda>nodeSignature1.
     bind_io (br_readBytes (Some 64)) (\<lambda>nodeSignature2.
     bind_io (br_readBytes (Some 64)) (\<lambda>bitcoinSignature1.
     bind_io (br_readBytes (Some 64)) (\<lambda>bitcoinSignature2.
     bind_io readFeatures (\<lambda>features.
     bind_io (br_readBytes (Some 32)) (\<lambda>chainHash.
     bind_io readScid (\<lambda>shortChannelId.
     bind_io (br_readBytes (Some 33)) (\<lambda>nodeId1.
     bind_io (br_readBytes (Some 33)) (\<lambda>nodeId2.
     bind_io (br_readBytes (Some 33)) (\<lambda>bitcoinKey1.
     bind_io (br_readBytes (Some 33)) (\<lambda>bitcoinKey2.
       return_io \<lparr>ca_nodeSignature1 = nodeSignature1, ca_nodeSignature2 = nodeSignature2,
         ca_bitcoinSignature1 = bitcoinSignature1, ca_bitcoinSignature2 = bitcoinSignature2,
         ca_features = features, ca_chainHash = chainHash, ca_shortChannelId = shortChannelId,
         ca_nodeId1 = nodeId1, ca_nodeId2 = nodeId2, ca_bitcoinKey1 = bitcoinKey1,
         ca_bitcoinKey2 = bitcoinKey2\<rparr>))))))))))))"

definition ca_deserialize :: "buffer \<Rightarrow> channel_announcement res" where
  "ca_deserialize = parseWith ca_read"

definition ca_serialize :: "channel_announcement \<Rightarrow> buffer res" where
  "ca_serialize m = runWriter (Some (replicate (2 + 64 + 64 + 64 + 64 + 2 + length (bf_toBuffer (ca_features m)) + 32 + 8 + 33 + 33 + 33 + 33) 0))
     (then_io (bw_writeUInt16BE (typeCode ChannelAnnouncement))
     (then_io (bw_writeBytes (ca_nodeSignature1 m))
     (then_io (bw_writeBytes (ca_nodeSignature2 m))
     (then_io (bw_writeBytes (ca_bitcoinSignature1 m))
     (then_io (bw_writeBytes (ca_bitcoinSignature2 m))
     (then_io (writeCounted16 (bf_toBuffer (ca_features m)))
     (then_io (bw_writeBytes (ca_chainHash m))
     (then_io (writeScid (ca_shortChannelId m))
     (then_io (bw_writeBytes (ca_nodeId1 m))
     (then_io (bw_writeBytes (ca_nodeId2 m))
     (then_io (bw_writeBytes (ca_bitcoinKey1 m))
       (bw_writeBytes (ca_bitcoinKey2 m)))))))))))))"

definition ca_wf :: "channel_announcement \<Rightarrow> bool" where
  "ca_wf m \<longleftrightarrow> length (ca_nodeSignature1 m) = 64
     \<and> length (ca_nodeSignature2 m) = 64
     \<and> length (ca_bitcoinSignature1 m) = 64
     \<and> length (ca_bitcoinSignature2 m) = 64
     \<and> length (bf_toBuffer (ca_features m)) < 2 ^ 16
     \<and> length (ca_chainHash m) = 32
     \<and> scid_wf (ca_shortChannelId m)
     \<and> length (ca_nodeId1 m) = 33
     \<and> length (ca_nodeId2 m) = 33
     \<and> length (ca_bitcoinKey1 m) = 33
     \<and> length (ca_bitcoinKey2 m) = 33"

definition ca_bytes :: "channel_announcement \<Rightarrow> buffer" where
  "ca_bytes m = be_bytes 2 (typeCode ChannelAnnouncement)
     @ ca_nodeSignature1 m
     @ ca_nodeSignature2 m
     @ ca_bitcoinSignature1 m
     @ ca_bitcoinSignature2 m
     @ counted16 (bf_toBuffer (ca_features m))
     @ ca_chainHash m
     @ scid_bytes (ca_shortChannelId m)
     @ ca_nodeId1 m
     @ ca_nodeId2 m
     @ ca_bitcoinKey1 m
     @ ca_bitcoinKey2 m"

lemma ca_roundtrip:
  assumes "ca_wf m"
  shows "ca_serialize m = Inr (ca_bytes m)" "ca_deserialize (ca_bytes m) = Inr m"
proof -
  note wf = assms [unfolded ca_wf_def, simplified]
  have w: "writes (bw_good f) bw_out bw_room
     (then_io (bw_writeUInt16BE (typeCode ChannelAnnouncement))
     (then_io (bw_writeBytes (ca_nodeSignature1 m))
     (then_io (bw_writeBytes (ca_nodeSignature2 m))
     (then_io (bw_writeBytes (ca_bitcoinSignature1 m))
     (then_io (bw_writeBytes (ca_bitcoinSignature2 m))
     (then_io (writeCounted16 (bf_toBuffer (ca_features m)))
     (then_io (bw_writeBytes (ca_chainHash m))
     (then_io (writeScid (ca_shortChannelId m))
     (then_io (bw_writeBytes (ca_nodeId1 m))
     (then_io (bw_writeBytes (ca_nodeId2 m))
     (then_io (bw_writeBytes (ca_bitcoinKey1 m))
       (bw_writeBytes (ca_bitcoinKey2 m)))))))))))))
      (ca_bytes m)" for f
    unfolding ca_bytes_def
    by ((rule writes_then | rule message_writes | (simp add: wf; fail))+)
  have "length (ca_bytes m) = 2 + 64 + 64 + 64 + 64 + 2 + length (bf_toBuffer (ca_features m)) + 32 + 8 + 33 + 33 + 33 + 33"
    using wf  by (simp add: ca_bytes_def ci_toBuffer_def)
  then show "ca_serialize m = Inr (ca_bytes m)"
    unfolding ca_serialize_def by (intro runWriter_fixed w) simp
  show "ca_deserialize (ca_bytes m) = Inr m"
    unfolding ca_deserialize_def ca_read_def ca_bytes_def
    by (rule parses_parseWith)
      ((rule parses_bind | rule parses_bind_last | rule message_parses | rule message_reads | (simp add: wf; fail)
        | (cases m; auto split: option.split; fail))+)
qed

text \<open>The message is hashed without its type and the four signatures.\<close>

definition ca_hash :: "(buffer \<Rightarrow> buffer) \<Rightarrow> channel_announcement \<Rightarrow> buffer res" where
  "ca_hash sha256 m = bind_res (ca_serialize m) (\<lambda>bytes. Inr (hash256 sha256 (drop 258 bytes)))"

definition ca_verifySignatures ::
  "(buffer \<Rightarrow> buffer) \<Rightarrow> (buffer \<Rightarrow> buffer \<Rightarrow> buffer \<Rightarrow> bool) \<Rightarrow> channel_announcement \<Rightarrow> bool res" where
  "ca_verifySignatures sha256 verifySig m =
     bind_res (ca_hash sha256 m) (\<lambda>hash. Inr
       (verifySig hash (ca_bitcoinSignature1 m) (ca_bitcoinKey1 m)
        \<and> verifySig hash (ca_bitcoinSignature2 m) (ca_bitcoinKey2 m)
        \<and> verifySig hash (ca_nodeSignature1 m) (ca_nodeId1 m)
        \<and> verifySig hash (ca_nodeSignature2 m) (ca_nodeId2 m)))"

section \<open>Updates of channels\<close>

text \<open>The optional maximum; it is written and read if the first message flag is set.\<close>

definition readHtlcMaximum :: "bit_field \<Rightarrow> (buffer_reader, btc_value option) io" where
  "readHtlcMaximum flags =
     (if bf_isSet flags 0 then bind_io readMilliSats (\<lambda>v. return_io (Some v)) else return_io None)"

definition writeHtlcMaximum :: "bit_field \<Rightarrow> btc_value option \<Rightarrow> (buffer_writer, unit) io" where
  "writeHtlcMaximum flags v =
     (if bf_isSet flags 0
      then (case v of None \<Rightarrow> throw_io TypeError | Some v \<Rightarrow> bw_writeUInt64BE (msats v))
      else return_io ())"

definition htlcMaximum_bytes :: "btc_value option \<Rightarrow> buffer" where
  "htlcMaximum_bytes v = (case v of None \<Rightarrow> [] | Some v \<Rightarrow> amount_bytes 8 (msats v))"

definition htlcMaximum_wf :: "bit_field \<Rightarrow> btc_value option \<Rightarrow> bool" where
  "htlcMaximum_wf flags v \<longleftrightarrow>
     (case v of None \<Rightarrow> \<not> bf_isSet flags 0 | Some v \<Rightarrow> bf_isSet flags 0 \<and> whole 8 fromMilliSats msats v)"

lemma reads_htlcMaximum:
  "htlcMaximum_wf flags v \<Longrightarrow> reads br_good br_content (readHtlcMaximum flags) (htlcMaximum_bytes v) v"
  by (auto simp: htlcMaximum_wf_def readHtlcMaximum_def htlcMaximum_bytes_def reads_return io_simps
      split: option.splits intro!: reads_bind_last reads_amounts)

lemma writes_htlcMaximum:
  "htlcMaximum_wf flags v \<Longrightarrow> writes (bw_good f) bw_out bw_room (writeHtlcMaximum flags v) (htlcMaximum_bytes v)"
  by (auto simp: htlcMaximum_wf_def writeHtlcMaximum_def htlcMaximum_bytes_def writes_return
      split: option.splits intro!: writes_scales)

lemma length_htlcMaximum:
  "htlcMaximum_wf flags v \<Longrightarrow> length (htlcMaximum_bytes v) = (if bf_isSet flags 0 then 8 else 0)"
  by (auto simp: htlcMaximum_wf_def htlcMaximum_bytes_def split: option.splits)

lemmas message_reads' = message_reads reads_htlcMaximum
lemmas message_writes' = message_writes writes_htlcMaximum

record channel_update =
  cu_signature :: buffer
  cu_chainHash :: buffer
  cu_shortChannelId :: scid
  cu_timestamp :: nat
  cu_messageFlags :: bit_field
  cu_channelFlags :: bit_field
  cu_cltvExpiryDelta :: nat
  cu_htlcMinimumMsat :: btc_value
  cu_feeBaseMsat :: btc_value
  cu_feeProportionalMillionths :: btc_value
  cu_htlcMaximumMsat :: "btc_value option"

definition cu_read :: "(buffer_reader, channel_update) io" where
  "cu_read =
     bind_io br_readUInt16BE (\<lambda>_.
     bind_io (br_readBytes (Some 64)) (\<lambda>signature.
     bind_io (br_readBytes (Some 32)) (\<lambda>chainHash.
     bind_io readScid (\<lambda>shortChannelId.
     bind_io br_readUInt32BE (\<lambda>timestamp.
     bind_io readBits8 (\<lambda>messageFlags.
     bind_io readBits8 (\<lambda>channelFlags.
     bind_io br_readUInt16BE (\<lambda>cltvExpiryDelta.
     bind_io readMilliSats (\<lambda>htlcMinimumMsat.
     bind_io readMilliSats32 (\<lambda>feeBaseMsat.
     bind_io readMicroSats32 (\<lambda>feeProportionalMillionths.
     bind_io (readHtlcMaximum messageFlags) (\<lambda>htlcMaximumMsat.
       return_io \<lparr>cu_signature = signature, cu_chainHash = chainHash,
         cu_shortChannelId = shortChannelId, cu_timestamp = timestamp, cu_messageFlags = messageFlags,
         cu_channelFlags = channelFlags, cu_cltvExpiryDelta = cltvExpiryDelta,
         cu_htlcMinimumMsat = htlcMinimumMsat, cu_feeBaseMsat = feeBaseMsat,
         cu_feeProportionalMillionths = feeProportionalMillionths, cu_htlcMaximumMsat = htlcMaximumMsat\<rparr>))))))))))))"

definition cu_deserialize :: "buffer \<Rightarrow> channel_update res" where
  "cu_deserialize = parseWith cu_read"

definition cu_serialize :: "channel_update \<Rightarrow> buffer res" where
  "cu_serialize m = runWriter (Some (replicate (2 + 64 + 32 + 8 + 4 + 1 + 1 + 2 + 8 + 4 + 4 + (if bf_isSet (cu_messageFlags m) 0 then 8 else 0)) 0))
     (then_io (bw_writeUInt16BE (typeCode ChannelUpdate))
     (then_io (bw_writeBytes (cu_signature m))
     (then_io (bw_writeBytes (cu_chainHash m))
     (then_io (writeScid (cu_shortChannelId m))
     (then_io (bw_writeUInt32BE (cu_timestamp m))
     (then_io (bw_writeUInt8 (bf_value (cu_messageFlags m)))
     (then_io (bw_writeUInt8 (bf_value (cu_channelFlags m)))
     (then_io (bw_writeUInt16BE (cu_cltvExpiryDelta m))
     (then_io (bw_writeUInt64BE (msats (cu_htlcMinimumMsat m)))
     (then_io (writeNumber32 (msats (cu_feeBaseMsat m)))
     (then_io (writeNumber32 (microsats (cu_feeProportionalMillionths m)))
       (writeHtlcMaximum (cu_messageFlags m) (cu_htlcMaximumMsat m)))))))))))))"

definition cu_wf :: "channel_update \<Rightarrow> bool" where
  "cu_wf m \<longleftrightarrow> length (cu_signature m) = 64
     \<and> length (cu_chainHash m) = 32
     \<and> scid_wf (cu_shortChannelId m)
     \<and> cu_timestamp m < 2 ^ 32
     \<and> bf_value (cu_messageFlags m) < 2 ^ 8
     \<and> bf_value (cu_channelFlags m) < 2 ^ 8
     \<and> cu_cltvExpiryDelta m < 2 ^ 16
     \<and> whole 8 fromMilliSats msats (cu_htlcMinimumMsat m)
     \<and> whole 4 fromMilliSats msats (cu_feeBaseMsat m)
     \<and> whole 4 fromMicroSats microsats (cu_feeProportionalMillionths m)
     \<and> htlcMaximum_wf (cu_messageFlags m) (cu_htlcMaximumMsat m)"

definition cu_bytes :: "channel_update \<Rightarrow> buffer" where
  "cu_bytes m = be_bytes 2 (typeCode ChannelUpdate)
     @ cu_signature m
     @ cu_chainHash m
     @ scid_bytes (cu_shortChannelId m)
     @ be_bytes 4 (cu_timestamp m)
     @ le_bytes 1 (bf_value (cu_messageFlags m))
     @ le_bytes 1 (bf_value (cu_channelFlags m))
     @ be_bytes 2 (cu_cltvExpiryDelta m)
     @ amount_bytes 8 (msats (cu_htlcMinimumMsat m))
     @ amount_bytes 4 (msats (cu_feeBaseMsat m))
     @ amount_bytes 4 (microsats (cu_feeProportionalMillionths m))
     @ htlcMaximum_bytes (cu_htlcMaximumMsat m)"

lemma cu_roundtrip:
  assumes "cu_wf m"
  shows "cu_serialize m = Inr (cu_bytes m)" "cu_deserialize (cu_bytes m) = Inr m"
proof -
  note wf = assms [unfolded cu_wf_def, simplified]
  have w: "writes (bw_good f) bw_out bw_room
     (then_io (bw_writeUInt16BE (typeCode ChannelUpdate))
     (then_io (bw_writeBytes (cu_signature m))
     (then_io (bw_writeBytes (cu_chainHash m))
     (then_io (writeScid (cu_shortChannelId m))
     (then_io (bw_writeUInt32BE (cu_timestamp m))
     (then_io (bw_writeUInt8 (bf_value (cu_messageFlags m)))
     (then_io (bw_writeUInt8 (bf_value (cu_channelFlags m)))
     (then_io (bw_writeUInt16BE (cu_cltvExpiryDelta m))
     (then_io (bw_writeUInt64BE (msats (cu_htlcMinimumMsat m)))
     (then_io (writeNumber32 (msats (cu_feeBaseMsat m)))
     (then_io (writeNumber32 (microsats (cu_feeProportionalMillionths m)))
       (writeHtlcMaximum (cu_messageFlags m) (cu_htlcMaximumMsat m)))))))))))))
      (cu_bytes m)" for f
    unfolding cu_bytes_def
    by ((rule writes_then | rule message_writes' | (simp add: wf; fail))+)
  have "length (cu_bytes m) = 2 + 64 + 32 + 8 + 4 + 1 + 1 + 2 + 8 + 4 + 4 + (if bf_isSet (cu_messageFlags m) 0 then 8 else 0)"
    using wf length_htlcMaximum [of "cu_messageFlags m" "cu_htlcMaximumMsat m"] by (simp add: cu_bytes_def ci_toBuffer_def)
  then show "cu_serialize m = Inr (cu_bytes m)"
    unfolding cu_serialize_def by (intro runWriter_fixed w) simp
  show "cu_deserialize (cu_bytes m) = Inr m"
    unfolding cu_deserialize_def cu_read_def cu_bytes_def
    by (rule parses_parseWith)
      ((rule parses_bind | rule parses_bind_last | rule message_parses | rule message_reads' | (simp add: wf; fail)
        | (cases m; auto split: option.split; fail))+)
qed

definition cu_direction :: "channel_update \<Rightarrow> nat" where
  "cu_direction m = (if bf_isSet (cu_channelFlags m) 0 then 1 else 0)"

definition cu_setDirection :: "nat \<Rightarrow> channel_update \<Rightarrow> channel_update res" where
  "cu_setDirection val m =
     (if val = 0 then Inr (m\<lparr>cu_channelFlags := bf_unset (cu_channelFlags m) 0\<rparr>)
      else if val = 1 then Inr (m\<lparr>cu_channelFlags := bf_set (cu_channelFlags m) 0\<rparr>)
      else Inl (JsError ''Invlid direction''))"

definition cu_disabled :: "channel_update \<Rightarrow> bool" where
  "cu_disabled m \<longleftrightarrow> bf_isSet (cu_channelFlags m) 1"

definition cu_setDisabled :: "bool \<Rightarrow> channel_update \<Rightarrow> channel_update" where
  "cu_setDisabled val m =
     m\<lparr>cu_channelFlags := (if val then bf_set (cu_channelFlags m) 1 else bf_unset (cu_channelFlags m) 1)\<rparr>"

definition cu_hashForSignature :: "(buffer \<Rightarrow> buffer) \<Rightarrow> channel_update \<Rightarrow> buffer res" where
  "cu_hashForSignature sha256 m = bind_res (cu_serialize m) (\<lambda>raw. Inr (hash256 sha256 (drop 66 raw)))"

definition cu_validateSignature ::
  "(buffer \<Rightarrow> buffer) \<Rightarrow> (buffer \<Rightarrow> buffer \<Rightarrow> buffer \<Rightarrow> bool) \<Rightarrow> channel_update \<Rightarrow> buffer \<Rightarrow> bool res" where
  "cu_validateSignature sha256 verifySig m pubkey =
     bind_res (cu_hashForSignature sha256 m) (\<lambda>sigmsg. Inr (verifySig sigmsg (cu_signature m) pubkey))"

text \<open>
  The checksum writes \<^verbatim>\<open>Number(this.messageFlags)\<close> and \<^verbatim>\<open>Number(this.channelFlags)\<close>.  The
  fields are \<^verbatim>\<open>BitField\<close> objects, whose conversion to a number is \<^verbatim>\<open>NaN\<close>, and writing
  \<^verbatim>\<open>NaN\<close> as an unsigned byte stores zero.
\<close>

definition cu_checksum :: "channel_update \<Rightarrow> checksum res" where
  "cu_checksum m = bind_res
     (runWriter (Some (replicate (2 + 32 + 8 + 1 + 1 + 2 + 8 + 4 + 4
          + (if bf_isSet (cu_messageFlags m) 0 then 8 else 0)) 0))
     (then_io (bw_writeUInt16BE (typeCode ChannelUpdate))
     (then_io (bw_writeBytes (cu_chainHash m))
     (then_io (writeScid (cu_shortChannelId m))
     (then_io (bw_writeUInt8 0)
     (then_io (bw_writeUInt8 0)
     (then_io (bw_writeUInt16BE (cu_cltvExpiryDelta m))
     (then_io (bw_writeUInt64BE (msats (cu_htlcMinimumMsat m)))
     (then_io (writeNumber32 (msats (cu_feeBaseMsat m)))
     (then_io (writeNumber32 (microsats (cu_feeProportionalMillionths m)))
       (writeHtlcMaximum (cu_messageFlags m) (cu_htlcMaximumMsat m))))))))))))
     (\<lambda>buf. Inr (checksum_fromBuffer buf))"

text \<open>What the specification takes the checksum of: the message without signature and timestamp.\<close>

definition cu_checked_bytes :: "nat \<Rightarrow> nat \<Rightarrow> channel_update \<Rightarrow> buffer" where
  "cu_checked_bytes mflags cflags m =
     (be_bytes 2 (typeCode ChannelUpdate) @ cu_chainHash m @ scid_bytes (cu_shortChannelId m))
     @ [of_nat mflags, of_nat cflags]
     @ be_bytes 2 (cu_cltvExpiryDelta m) @ amount_bytes 8 (msats (cu_htlcMinimumMsat m))
     @ amount_bytes 4 (msats (cu_feeBaseMsat m))
     @ amount_bytes 4 (microsats (cu_feeProportionalMillionths m))
     @ htlcMaximum_bytes (cu_htlcMaximumMsat m)"

lemma cu_checksum_eq:
  assumes "cu_wf m"
  shows "cu_checksum m = Inr (Checksum (crc32c (cu_checked_bytes 0 0 m)))"
proof -
  note wf = assms [unfolded cu_wf_def, simplified]
  have z: "writes (bw_good f) bw_out bw_room (bw_writeUInt8 0) [of_nat 0]" for f
    using bw.w8 [of 0 f] by simp
  have w: "writes (bw_good f) bw_out bw_room
     (then_io (bw_writeUInt16BE (typeCode ChannelUpdate))
     (then_io (bw_writeBytes (cu_chainHash m))
     (then_io (writeScid (cu_shortChannelId m))
     (then_io (bw_writeUInt8 0)
     (then_io (bw_writeUInt8 0)
     (then_io (bw_writeUInt16BE (cu_cltvExpiryDelta m))
     (then_io (bw_writeUInt64BE (msats (cu_htlcMinimumMsat m)))
     (then_io (writeNumber32 (msats (cu_feeBaseMsat m)))
     (then_io (writeNumber32 (microsats (cu_feeProportionalMillionths m)))
       (writeHtlcMaximum (cu_messageFlags m) (cu_htlcMaximumMsat m))))))))))) 
     (be_bytes 2 (typeCode ChannelUpdate) @ cu_chainHash m @ scid_bytes (cu_shortChannelId m)
      @ [of_nat 0] @ [of_nat 0] @ be_bytes 2 (cu_cltvExpiryDelta m)
      @ amount_bytes 8 (msats (cu_htlcMinimumMsat m)) @ amount_bytes 4 (msats (cu_feeBaseMsat m))
      @ amount_bytes 4 (microsats (cu_feeProportionalMillionths m))
      @ htlcMaximum_bytes (cu_htlcMaximumMsat m))" for f
    by ((rule writes_then | rule z | rule message_writes' | (simp add: wf; fail))+)
  have "length (cu_checked_bytes 0 0 m) = 2 + 32 + 8 + 1 + 1 + 2 + 8 + 4 + 4
      + (if bf_isSet (cu_messageFlags m) 0 then 8 else 0)"
    using wf length_htlcMaximum [of "cu_messageFlags m" "cu_htlcMaximumMsat m"]
    by (simp add: cu_checked_bytes_def)
  then have "runWriter (Some (replicate (2 + 32 + 8 + 1 + 1 + 2 + 8 + 4 + 4
          + (if bf_isSet (cu_messageFlags m) 0 then 8 else 0)) 0))
     (then_io (bw_writeUInt16BE (typeCode ChannelUpdate))
     (then_io (bw_writeBytes (cu_chainHash m))
     (then_io (writeScid (cu_shortChannelId m))
     (then_io (bw_writeUInt8 0)
     (then_io (bw_writeUInt8 0)
     (then_io (bw_writeUInt16BE (cu_cltvExpiryDelta m))
     (then_io (bw_writeUInt64BE (msats (cu_htlcMinimumMsat m)))
     (then_io (writeNumber32 (msats (cu_feeBaseMsat m)))
     (then_io (writeNumber32 (microsats (cu_feeProportionalMillionths m)))
       (writeHtlcMaximum (cu_messageFlags m) (cu_htlcMaximumMsat m))))))))))) = Inr (cu_checked_bytes 0 0 m)"
    by (intro runWriter_fixed) (use w [of True] in \<open>simp_all add: cu_checked_bytes_def\<close>)
  then show ?thesis by (simp add: cu_checksum_def checksum_fromBuffer_def)
qed

lemma byte_zero: "n < 256 \<Longrightarrow> (of_nat n :: byte) = 0 \<longleftrightarrow> n = 0"
  by (simp add: word_unat_eq_iff unat_of_nat_byte)

text \<open>
  The checksum of a channel update is the one the specification defines, over the message without
  its signature and timestamp, exactly if both flag bytes are zero: the code replaces them by zeros, and
  CRC-32C tells any two messages apart that differ in these two bytes only.  So the checksum of an update
  does not tell its direction, nor whether the channel is disabled.
\<close>
theorem channel_update_checksum:
  assumes "cu_wf m"
  shows "cu_checksum m
      = Inr (Checksum (crc32c (cu_checked_bytes (bf_value (cu_messageFlags m)) (bf_value (cu_channelFlags m)) m)))
    \<longleftrightarrow> bf_value (cu_messageFlags m) = 0 \<and> bf_value (cu_channelFlags m) = 0"
proof -
  have "bf_value (cu_messageFlags m) < 256" "bf_value (cu_channelFlags m) < 256"
    using assms by (simp_all add: cu_wf_def)
  then have z: "[of_nat 0, of_nat 0] = ([of_nat (bf_value (cu_messageFlags m)), of_nat (bf_value (cu_channelFlags m))] :: buffer)
      \<longleftrightarrow> bf_value (cu_messageFlags m) = 0 \<and> bf_value (cu_channelFlags m) = 0"
    by (auto simp: byte_zero)
  have "crc32c (cu_checked_bytes 0 0 m) = crc32c (cu_checked_bytes a b m)
      \<longleftrightarrow> [of_nat 0, of_nat 0] = ([of_nat a, of_nat b] :: buffer)" for a b
  proof
    assume "crc32c (cu_checked_bytes 0 0 m) = crc32c (cu_checked_bytes a b m)"
    from crc32c_burst [OF _ _ this [unfolded cu_checked_bytes_def]]
    show "[of_nat 0, of_nat 0] = ([of_nat a, of_nat b] :: buffer)" by simp
  qed (simp only: cu_checked_bytes_def)
  then show ?thesis using z by (simp only: cu_checksum_eq [OF assms] sum.inject checksum.inject)
qed

definition sample_update :: channel_update where
  "sample_update = \<lparr>cu_signature = replicate 64 1, cu_chainHash = replicate 32 2,
     cu_shortChannelId = \<lparr>sc_block = 1, sc_txIdx = 2, sc_voutIdx = 3\<rparr>, cu_timestamp = 4,
     cu_messageFlags = BitField 0, cu_channelFlags = BitField 2, cu_cltvExpiryDelta = 40,
     cu_htlcMinimumMsat = fromMilliSats 1, cu_feeBaseMsat = fromMilliSats 1000,
     cu_feeProportionalMillionths = fromMicroSats 10, cu_htlcMaximumMsat = None\<rparr>"

lemma sample_update_wf: "cu_wf sample_update"
  by (simp add: cu_wf_def sample_update_def scid_wf_def whole_def htlcMaximum_wf_def fromMilliSats_def
      fromMicroSats_def msats_def microsats_def bigDiv_def)

theorem channel_update_checksum_witness:
  "cu_checksum sample_update \<noteq> Inr (Checksum (crc32c (cu_checked_bytes 0 2 sample_update)))"
  using channel_update_checksum [OF sample_update_wf] by (simp add: sample_update_def)

section \<open>Timestamp filters and the end of replies\<close>

record gossip_timestamp_filter =
  gt_chainHash :: buffer
  gt_firstTimestamp :: nat
  gt_timestampRange :: nat

definition gt_read :: "(buffer_reader, gossip_timestamp_filter) io" where
  "gt_read =
     bind_io br_readUInt16BE (\<lambda>_.
     bind_io (br_readBytes (Some 32)) (\<lambda>chainHash.
     bind_io br_readUInt32BE (\<lambda>firstTimestamp.
     bind_io br_readUInt32BE (\<lambda>timestampRange.
       return_io \<lparr>gt_chainHash = chainHash, gt_firstTimestamp = firstTimestamp,
         gt_timestampRange = timestampRange\<rparr>))))"

definition gt_deserialize :: "buffer \<Rightarrow> gossip_timestamp_filter res" where
  "gt_deserialize = parseWith gt_read"

definition gt_serialize :: "gossip_timestamp_filter \<Rightarrow> buffer res" where
  "gt_serialize m = runWriter (Some (replicate (2 + 32 + 4 + 4) 0))
     (then_io (bw_writeUInt16BE (typeCode GossipTimestampFilter))
     (then_io (bw_writeBytes (gt_chainHash m))
     (then_io (bw_writeUInt32BE (gt_firstTimestamp m))
       (bw_writeUInt32BE (gt_timestampRange m)))))"

definition gt_wf :: "gossip_timestamp_filter \<Rightarrow> bool" where
  "gt_wf m \<longleftrightarrow> length (gt_chainHash m) = 32
     \<and> gt_firstTimestamp m < 2 ^ 32
     \<and> gt_timestampRange m < 2 ^ 32"

definition gt_bytes :: "gossip_timestamp_filter \<Rightarrow> buffer" where
  "gt_bytes m = be_bytes 2 (typeCode GossipTimestampFilter)
     @ gt_chainHash m
     @ be_bytes 4 (gt_firstTimestamp m)
     @ be_bytes 4 (gt_timestampRange m)"

lemma gt_roundtrip:
  assumes "gt_wf m"
  shows "gt_serialize m = Inr (gt_bytes m)" "gt_deserialize (gt_bytes m) = Inr m"
proof -
  note wf = assms [unfolded gt_wf_def, simplified]
  have w: "writes (bw_good f) bw_out bw_room
     (then_io (bw_writeUInt16BE (typeCode GossipTimestampFilter))
     (then_io (bw_writeBytes (gt_chainHash m))
     (then_io (bw_writeUInt32BE (gt_firstTimestamp m))
       (bw_writeUInt32BE (gt_timestampRange m)))))
      (gt_bytes m)" for f
    unfolding gt_bytes_def
    by ((rule writes_then | rule message_writes | (simp add: wf; fail))+)
  have "length (gt_bytes m) = 2 + 32 + 4 + 4"
    using wf  by (simp add: gt_bytes_def ci_toBuffer_def)
  then show "gt_serialize m = Inr (gt_bytes m)"
    unfolding gt_serialize_def by (intro runWriter_fixed w) simp
  show "gt_deserialize (gt_bytes m) = Inr m"
    unfolding gt_deserialize_def gt_read_def gt_bytes_def
    by (rule parses_parseWith)
      ((rule parses_bind | rule parses_bind_last | rule message_parses | rule message_reads | (simp add: wf; fail)
        | (cases m; auto split: option.split; fail))+)
qed

record reply_scids_end =
  re_chainHash :: buffer
  re_complete :: bool

definition re_read :: "(buffer_reader, reply_scids_end) io" where
  "re_read =
     bind_io br_readUInt16BE (\<lambda>_.
     bind_io (br_readBytes (Some 32)) (\<lambda>chainHash.
     bind_io readBool8 (\<lambda>complete.
       return_io \<lparr>re_chainHash = chainHash, re_complete = complete\<rparr>)))"

definition re_deserialize :: "buffer \<Rightarrow> reply_scids_end res" where
  "re_deserialize = parseWith re_read"

definition re_serialize :: "reply_scids_end \<Rightarrow> buffer res" where
  "re_serialize m = runWriter (Some (replicate (2 + 32 + 1) 0))
     (then_io (bw_writeUInt16BE (typeCode ReplyShortChannelIdsEnd))
     (then_io (bw_writeBytes (re_chainHash m))
       (bw_writeUInt8 (if re_complete m then 1 else 0))))"

definition re_wf :: "reply_scids_end \<Rightarrow> bool" where
  "re_wf m \<longleftrightarrow> length (re_chainHash m) = 32"

definition re_bytes :: "reply_scids_end \<Rightarrow> buffer" where
  "re_bytes m = be_bytes 2 (typeCode ReplyShortChannelIdsEnd)
     @ re_chainHash m
     @ le_bytes 1 (if re_complete m then 1 else 0)"

lemma re_roundtrip:
  assumes "re_wf m"
  shows "re_serialize m = Inr (re_bytes m)" "re_deserialize (re_bytes m) = Inr m"
proof -
  note wf = assms [unfolded re_wf_def, simplified]
  have w: "writes (bw_good f) bw_out bw_room
     (then_io (bw_writeUInt16BE (typeCode ReplyShortChannelIdsEnd))
     (then_io (bw_writeBytes (re_chainHash m))
       (bw_writeUInt8 (if re_complete m then 1 else 0))))
      (re_bytes m)" for f
    unfolding re_bytes_def
    by ((rule writes_then | rule message_writes | (simp add: wf; fail))+)
  have "length (re_bytes m) = 2 + 32 + 1"
    using wf  by (simp add: re_bytes_def ci_toBuffer_def)
  then show "re_serialize m = Inr (re_bytes m)"
    unfolding re_serialize_def by (intro runWriter_fixed w) simp
  show "re_deserialize (re_bytes m) = Inr m"
    unfolding re_deserialize_def re_read_def re_bytes_def
    by (rule parses_parseWith)
      ((rule parses_bind | rule parses_bind_last | rule message_parses | rule message_reads | (simp add: wf; fail)
        | (cases m; auto split: option.split; fail))+)
qed

end
