(* ===== verification/GossipQueries.thy ===== *)
theory GossipQueries
  imports GossipMessages
begin

text \<open>
  The gossip queries of \<^verbatim>\<open>packages/lightning/lib/messages\<close> and \<^verbatim>\<open>serialize/Encoder.ts\<close>.
  \<^verbatim>\<open>zlib\<close> is a parameter: \<open>deflate\<close> compresses, \<open>inflate\<close> decompresses and may throw.
\<close>

section \<open>Encoded payloads\<close>

datatype EncodingType = Raw | ZlibDeflate

definition enc_encode :: "(buffer \<Rightarrow> buffer) \<Rightarrow> EncodingType \<Rightarrow> buffer \<Rightarrow> buffer" where
  "enc_encode deflate encoding data =
     (case encoding of Raw \<Rightarrow> 0 # data | ZlibDeflate \<Rightarrow> 1 # deflate data)"

definition enc_decode :: "(buffer \<Rightarrow> buffer res) \<Rightarrow> buffer \<Rightarrow> buffer res" where
  "enc_decode inflate buf =
     (case buf of [] \<Rightarrow> Inl RangeError
      | encoding # raw \<Rightarrow>
          if encoding = 0 then Inr raw else if encoding = 1 then inflate raw
          else Inl (JsError ''Unknown encoding type''))"

lemma enc_decode_encode:
  "(\<And>d. inflate (deflate d) = Inr d) \<Longrightarrow> enc_decode inflate (enc_encode deflate e d) = Inr d"
  by (cases e) (simp_all add: enc_decode_def enc_encode_def)

text \<open>The identifiers of a decoded payload, eight bytes each.\<close>

definition parseScids :: "buffer \<Rightarrow> scid list res" where
  "parseScids buf = parseWith (readAll readScid) buf"

definition scids_buffer :: "scid list \<Rightarrow> buffer res" where
  "scids_buffer ids = bind_res (map_res scid_toBuffer ids) (\<lambda>bs. Inr (concat bs))"

lemma parseWith_readAll:
  assumes "\<And>x. x \<in> set xs \<Longrightarrow> reads br_good br_content item (enc x) x" "\<And>x. x \<in> set xs \<Longrightarrow> enc x \<noteq> []"
  shows "parseWith (readAll item) (concat (map enc xs)) = Inr xs"
  using readAll_new [of xs item enc, OF assms] by (auto simp: parseWith_def)

lemma scid_bytes_not_Nil [simp]: "scid_bytes s \<noteq> []"
  by (metis length_scid_bytes list.size(3) zero_neq_numeral)

lemma parseScids_bytes: "\<forall>s\<in>set ids. scid_wf s \<Longrightarrow> parseScids (concat (map scid_bytes ids)) = Inr ids"
  unfolding parseScids_def by (rule parseWith_readAll) (auto simp: message_field_reads)

lemma scids_buffer_eq: "\<forall>s\<in>set ids. scid_wf s \<Longrightarrow> scids_buffer ids = Inr (concat (map scid_bytes ids))"
  by (induction ids) (auto simp: scids_buffer_def scid_toBuffer_eq bind_res_eq_Inr)

text \<open>Writing one record of a TLV stream.\<close>

definition writeTlv :: "nat \<Rightarrow> buffer \<Rightarrow> (buffer_writer, unit) io" where
  "writeTlv type v = then_io (bw_writeBigSize type) (then_io (bw_writeBigSize (length v)) (bw_writeBytes v))"

lemma writes_tlv:
  "type < 2 ^ 64 \<Longrightarrow> length v < 2 ^ 64 \<Longrightarrow>
     writes (bw_good f) bw_out bw_room (writeTlv type v) (tlv_bytes [(type, v)])"
  using writes_then [OF writes_writeBigSize writes_then [OF writes_writeBigSize writes_writeBytes]]
  by (simp add: writeTlv_def tlv_bytes_def)

lemma tlv_bytes_Cons: "tlv_bytes (r # rs) = tlv_bytes [r] @ tlv_bytes rs"
  by (simp add: tlv_bytes_def)

section \<open>Queries for a range of blocks\<close>

record query_channel_range =
  qr_chainHash :: buffer
  qr_firstBlocknum :: nat
  qr_numberOfBlocks :: nat
  qr_timestamps :: "bool option"
  qr_checksums :: "bool option"

text \<open>A field that is not set is falsy.\<close>

definition truthy :: "bool option \<Rightarrow> bool" where
  "truthy b \<longleftrightarrow> b = Some True"

definition qr_tlv :: "query_channel_range tlv_handler" where
  "qr_tlv = (\<lambda>type m.
     if type = 1 then bind_io br_readBigSize (\<lambda>options.
       let bitfield = BitField options
       in return_io (True, m\<lparr>qr_timestamps := Some (bf_isSet bitfield 0),
                             qr_checksums := Some (bf_isSet bitfield 1)\<rparr>))
     else return_io (False, m))"

definition qr_read :: "(buffer_reader, query_channel_range) io" where
  "qr_read =
     bind_io br_readUInt16BE (\<lambda>_.
     bind_io (br_readBytes (Some 32)) (\<lambda>chainHash.
     bind_io br_readUInt32BE (\<lambda>firstBlocknum.
     bind_io br_readUInt32BE (\<lambda>numberOfBlocks.
       \<lambda>r. readTlvs qr_tlv r None
         \<lparr>qr_chainHash = chainHash, qr_firstBlocknum = firstBlocknum,
          qr_numberOfBlocks = numberOfBlocks, qr_timestamps = None, qr_checksums = None\<rparr>))))"

definition qr_deserialize :: "buffer \<Rightarrow> query_channel_range res" where
  "qr_deserialize = parseWith qr_read"

definition qr_options :: "query_channel_range \<Rightarrow> bit_field" where
  "qr_options m =
     (let b = BitField 0;
          b = (if truthy (qr_timestamps m) then bf_set b 0 else b)
      in if truthy (qr_checksums m) then bf_set b 1 else b)"

definition writeOptions :: "query_channel_range \<Rightarrow> (buffer_writer, unit) io" where
  "writeOptions m =
     (if truthy (qr_timestamps m) \<or> truthy (qr_checksums m)
      then then_io (bw_writeBigSize 1) (then_io (bw_writeBigSize (bigSizeBytes (bf_value (qr_options m))))
             (bw_writeBigSize (bf_value (qr_options m))))
      else return_io ())"

definition qr_serialize :: "query_channel_range \<Rightarrow> buffer res" where
  "qr_serialize m = runWriter None
     (then_io (bw_writeUInt16BE (typeCode QueryChannelRange))
     (then_io (bw_writeBytes (qr_chainHash m))
     (then_io (bw_writeUInt32BE (qr_firstBlocknum m))
     (then_io (bw_writeUInt32BE (qr_numberOfBlocks m))
       (writeOptions m)))))"

definition qr_wf :: "query_channel_range \<Rightarrow> bool" where
  "qr_wf m \<longleftrightarrow> length (qr_chainHash m) = 32 \<and> qr_firstBlocknum m < 2 ^ 32 \<and> qr_numberOfBlocks m < 2 ^ 32
     \<and> (qr_timestamps m, qr_checksums m)
         \<in> {(None, None), (Some True, Some False), (Some False, Some True), (Some True, Some True)}"

definition qr_recs :: "query_channel_range \<Rightarrow> (nat \<times> buffer) list" where
  "qr_recs m = (if qr_timestamps m = None then [] else [(1, bigsize_bytes (bf_value (qr_options m)))])"

definition qr_bytes :: "query_channel_range \<Rightarrow> buffer" where
  "qr_bytes m = be_bytes 2 (typeCode QueryChannelRange) @ qr_chainHash m
     @ be_bytes 4 (qr_firstBlocknum m) @ be_bytes 4 (qr_numberOfBlocks m) @ tlv_bytes (qr_recs m)"

lemma qr_options_less: "bf_value (qr_options m) < 4"
  by (auto simp: qr_options_def bf_set_def Let_def)

lemma writes_options:
  "qr_wf m \<Longrightarrow> writes (bw_good f) bw_out bw_room (writeOptions m) (tlv_bytes (qr_recs m))"
proof -
  assume wf: "qr_wf m"
  let ?v = "bf_value (qr_options m)"
  have "writes (bw_good f) bw_out bw_room
    (then_io (bw_writeBigSize 1) (then_io (bw_writeBigSize (bigSizeBytes ?v)) (bw_writeBigSize ?v)))
    (bigsize_bytes 1 @ bigsize_bytes (bigSizeBytes ?v) @ bigsize_bytes ?v)"
    using qr_options_less [of m] by (intro writes_then writes_writeBigSize) (auto simp: bigSizeBytes_def)
  then show ?thesis using wf
    by (auto simp: writeOptions_def qr_recs_def qr_wf_def truthy_def tlv_bytes_def length_bigsize writes_return)
qed

lemma qr_tlv_options:
  "qr_wf m \<Longrightarrow> parses (\<lambda>r. readTlvs qr_tlv r None (m\<lparr>qr_timestamps := None, qr_checksums := None\<rparr>))
     (tlv_bytes (qr_recs m)) m"
proof (rule parses_tlvs)
  assume wf: "qr_wf m"
  let ?v = "bf_value (qr_options m)"
  show "tlv_canonical None (qr_recs m)"
    using qr_options_less [of m] by (auto simp: qr_recs_def length_bigsize bigSizeBytes_def)
  have "reads br_good br_content br_readBigSize (bigsize_bytes ?v) ?v"
    using qr_options_less [of m] by (intro reads_readBigSize) simp
  from readsE [OF this, of "newBufferReader (bigsize_bytes ?v)" "[]"] obtain r'
    where "br_readBigSize (newBufferReader (bigsize_bytes ?v)) = (Inr ?v, r')" "br_good r'" "br_content r' = []"
    by auto
  then show "tlv_fold qr_tlv (qr_recs m) (m\<lparr>qr_timestamps := None, qr_checksums := None\<rparr>) = Some m"
    using wf by (cases m)
      (auto simp: qr_recs_def qr_tlv_def io_simps Let_def br_eof_iff qr_wf_def qr_options_def truthy_def bf_isSet_ops
        simp del: bf_isSet_iff split: if_splits, simp_all add: bf_isSet_def)
qed

lemma qr_roundtrip:
  assumes "qr_wf m"
  shows "qr_serialize m = Inr (qr_bytes m)" "qr_deserialize (qr_bytes m) = Inr m"
proof -
  note wf = assms [unfolded qr_wf_def, simplified]
  have "writes (bw_good f) bw_out bw_room
     (then_io (bw_writeUInt16BE (typeCode QueryChannelRange))
     (then_io (bw_writeBytes (qr_chainHash m))
     (then_io (bw_writeUInt32BE (qr_firstBlocknum m))
     (then_io (bw_writeUInt32BE (qr_numberOfBlocks m))
       (writeOptions m))))) (qr_bytes m)" for f
    unfolding qr_bytes_def
    by ((rule writes_then | rule writes_options [OF assms] | rule message_writes | (simp add: wf; fail))+)
  moreover have "length (qr_bytes m) \<le> 2 ^ 30"
    using wf by (auto simp: qr_bytes_def qr_recs_def tlv_bytes_def length_bigsize_bytes)
  ultimately show "qr_serialize m = Inr (qr_bytes m)" unfolding qr_serialize_def by (rule runWriter_growing)
  have m: "\<lparr>qr_chainHash = qr_chainHash m, qr_firstBlocknum = qr_firstBlocknum m,
     qr_numberOfBlocks = qr_numberOfBlocks m, qr_timestamps = None, qr_checksums = None\<rparr>
     = m\<lparr>qr_timestamps := None, qr_checksums := None\<rparr>" by (cases m) simp
  show "qr_deserialize (qr_bytes m) = Inr m"
    unfolding qr_deserialize_def qr_read_def qr_bytes_def
    by (rule parses_parseWith)
      ((rule parses_bind | rule qr_tlv_options [OF assms, folded m] | rule message_reads | (simp add: wf; fail))+)
qed

section \<open>Queries for short channel identifiers\<close>

record query_scids =
  qs_chainHash :: buffer
  qs_shortChannelIds :: "scid list"
  qs_flags :: "bit_field list"

definition qs_tlv :: "(buffer \<Rightarrow> buffer res) \<Rightarrow> query_scids tlv_handler" where
  "qs_tlv inflate = (\<lambda>type m.
     if type = 1 then
       bind_io (br_readBytes None) (\<lambda>bytes.
       bind_io (lift_io (enc_decode inflate bytes)) (\<lambda>flagBytes.
       bind_io (lift_io (parseWith (readAll (bind_io br_readBigSize (\<lambda>n. return_io (BitField n)))) flagBytes)) (\<lambda>flags.
         return_io (True, m\<lparr>qs_flags := qs_flags m @ flags\<rparr>))))
     else return_io (False, m))"

definition qs_read :: "(buffer \<Rightarrow> buffer res) \<Rightarrow> (buffer_reader, query_scids) io" where
  "qs_read inflate =
     bind_io br_readUInt16BE (\<lambda>_.
     bind_io (br_readBytes (Some 32)) (\<lambda>chainHash.
     bind_io readCounted16 (\<lambda>encodedScidBuffer.
     bind_io (lift_io (enc_decode inflate encodedScidBuffer)) (\<lambda>scidBuffer.
     bind_io (lift_io (parseScids scidBuffer)) (\<lambda>scids.
       \<lambda>r. readTlvs (qs_tlv inflate) r None
         \<lparr>qs_chainHash = chainHash, qs_shortChannelIds = scids, qs_flags = []\<rparr>)))))"

definition qs_deserialize :: "(buffer \<Rightarrow> buffer res) \<Rightarrow> buffer \<Rightarrow> query_scids res" where
  "qs_deserialize inflate = parseWith (qs_read inflate)"

definition qs_serialize :: "(buffer \<Rightarrow> buffer) \<Rightarrow> query_scids \<Rightarrow> EncodingType \<Rightarrow> buffer res" where
  "qs_serialize deflate m encoding =
     bind_res (scids_buffer (qs_shortChannelIds m)) (\<lambda>rawIdsBuffer.
     let esids = enc_encode deflate encoding rawIdsBuffer
     in runWriter None
       (then_io (bw_writeUInt16BE (typeCode QueryShortChannelIds))
       (then_io (bw_writeBytes (qs_chainHash m))
       (then_io (writeCounted16 esids)
         (if qs_flags m \<noteq> []
          then writeTlv 1 (enc_encode deflate encoding (concat (map bf_toBuffer (qs_flags m))))
          else return_io ())))))"

definition qs_ids :: "query_scids \<Rightarrow> buffer" where
  "qs_ids m = concat (map scid_bytes (qs_shortChannelIds m))"

definition qs_wf :: "(buffer \<Rightarrow> buffer) \<Rightarrow> EncodingType \<Rightarrow> query_scids \<Rightarrow> bool" where
  "qs_wf deflate e m \<longleftrightarrow> length (qs_chainHash m) = 32 \<and> (\<forall>s\<in>set (qs_shortChannelIds m). scid_wf s)
     \<and> (\<forall>f\<in>set (qs_flags m). bf_value f < 0xfd)
     \<and> length (enc_encode deflate e (qs_ids m)) < 2 ^ 16
     \<and> length (enc_encode deflate e (concat (map bf_toBuffer (qs_flags m)))) < 2 ^ 16"

definition qs_recs :: "(buffer \<Rightarrow> buffer) \<Rightarrow> EncodingType \<Rightarrow> query_scids \<Rightarrow> (nat \<times> buffer) list" where
  "qs_recs deflate e m =
     (if qs_flags m = [] then [] else [(1, enc_encode deflate e (concat (map bf_toBuffer (qs_flags m))))])"

definition qs_bytes :: "(buffer \<Rightarrow> buffer) \<Rightarrow> EncodingType \<Rightarrow> query_scids \<Rightarrow> buffer" where
  "qs_bytes deflate e m = be_bytes 2 (typeCode QueryShortChannelIds) @ qs_chainHash m
     @ counted16 (enc_encode deflate e (qs_ids m)) @ tlv_bytes (qs_recs deflate e m)"

text \<open>A bit field below \<^verbatim>\<open>0xfd\<close> is written as one byte, except zero, which is written as none.\<close>

lemma bf_toBuffer_small:
  "bf_value f < 0xfd \<Longrightarrow> bf_toBuffer f = (if bf_value f = 0 then [] else bigsize_bytes (bf_value f))"
proof -
  assume v: "bf_value f < 0xfd"
  have "calcBytes (bf_value f) \<le> 1" using v by (simp add: calcBytes_le)
  moreover have "calcBytes (bf_value f) \<noteq> 0" if "bf_value f \<noteq> 0"
    using less_calcBytes [of "bf_value f"] that by (metis less_one power_0)
  ultimately have "calcBytes (bf_value f) = 1" if "bf_value f \<noteq> 0" using that by linarith
  then show ?thesis using v by (simp add: bf_toBuffer_def bigintToBuffer_eq bigsize_bytes_def del: One_nat_def)
qed

lemma bigsize_bytes_not_Nil [simp]: "bigsize_bytes v \<noteq> []"
  using length_bigsize_bytes [of v] by (auto split: if_splits)

lemma parse_flags:
  assumes "\<forall>f\<in>set fs. bf_value f < 0xfd"
  shows "parseWith (readAll (bind_io br_readBigSize (\<lambda>n. return_io (BitField n)))) (concat (map bf_toBuffer fs))
    = Inr (filter (\<lambda>f. bf_value f \<noteq> 0) fs)"
proof -
  have "concat (map bf_toBuffer fs) = concat (map (\<lambda>f. bigsize_bytes (bf_value f)) (filter (\<lambda>f. bf_value f \<noteq> 0) fs))"
    using assms by (induction fs) (simp_all add: bf_toBuffer_small)
  moreover have "reads br_good br_content (bind_io br_readBigSize (\<lambda>n. return_io (BitField n))) (bigsize_bytes (bf_value f)) f"
    if "f \<in> set fs" for f
  proof (rule reads_bind_last)
    show "reads br_good br_content br_readBigSize (bigsize_bytes (bf_value f)) (bf_value f)"
      using assms that by (intro reads_readBigSize) fastforce
  qed (simp add: io_simps)
  ultimately show ?thesis
    by (auto intro!: parseWith_readAll)
qed

lemma parses_lift: "r = Inr v \<Longrightarrow> parses (f v) bs w \<Longrightarrow> parses (bind_io (lift_io r) f) bs w"
  by (simp add: parses_def io_simps)

lemma qs_serialize_eq:
  assumes "qs_wf deflate e m"
  shows "qs_serialize deflate m e = Inr (qs_bytes deflate e m)"
proof -
  note wf = assms [unfolded qs_wf_def, simplified]
  have ids: "scids_buffer (qs_shortChannelIds m) = Inr (qs_ids m)"
    using wf by (simp add: scids_buffer_eq qs_ids_def)
  let ?flags = "enc_encode deflate e (concat (map bf_toBuffer (qs_flags m)))"
  have tlv: "writes (bw_good f) bw_out bw_room (if qs_flags m \<noteq> [] then writeTlv 1 ?flags else return_io ())
      (tlv_bytes (qs_recs deflate e m))" for f
    using writes_tlv [of 1 ?flags f] wf by (auto simp: qs_recs_def tlv_bytes_def writes_return)
  have "writes (bw_good f) bw_out bw_room
       (then_io (bw_writeUInt16BE (typeCode QueryShortChannelIds))
       (then_io (bw_writeBytes (qs_chainHash m))
       (then_io (writeCounted16 (enc_encode deflate e (qs_ids m)))
         (if qs_flags m \<noteq> [] then writeTlv 1 ?flags else return_io ())))) (qs_bytes deflate e m)" for f
    unfolding qs_bytes_def
    by ((rule writes_then | rule tlv | rule message_writes | (simp add: wf; fail))+)
  moreover have "length (qs_bytes deflate e m) \<le> 2 ^ 30"
    using wf by (auto simp: qs_bytes_def qs_recs_def tlv_bytes_def length_bigsize_bytes)
  ultimately show "qs_serialize deflate m e = Inr (qs_bytes deflate e m)"
    unfolding qs_serialize_def ids by (simp add: Let_def runWriter_growing)
qed

lemma qs_deserialize_eq:
  assumes "qs_wf deflate e m" "\<And>d. inflate (deflate d) = Inr d"
  shows "qs_deserialize inflate (qs_bytes deflate e m) = Inr (m\<lparr>qs_flags := filter (\<lambda>f. bf_value f \<noteq> 0) (qs_flags m)\<rparr>)"
proof -
  note wf = assms(1) [unfolded qs_wf_def, simplified]
  let ?flags = "enc_encode deflate e (concat (map bf_toBuffer (qs_flags m)))"
  let ?fs = "filter (\<lambda>f. bf_value f \<noteq> 0) (qs_flags m)"
  have "tlv_fold (qs_tlv inflate) (qs_recs deflate e m)
      \<lparr>qs_chainHash = qs_chainHash m, qs_shortChannelIds = qs_shortChannelIds m, qs_flags = []\<rparr>
      = Some (m\<lparr>qs_flags := ?fs\<rparr>)"
    using readBytes_all [of ?flags] parse_flags [of "qs_flags m"] wf
    by (cases m) (auto simp: qs_recs_def qs_tlv_def io_simps enc_decode_encode [where inflate = inflate, OF assms(2)])
  moreover have "tlv_canonical None (qs_recs deflate e m)" using wf by (auto simp: qs_recs_def)
  ultimately have rest: "parses (\<lambda>r. readTlvs (qs_tlv inflate) r None
      \<lparr>qs_chainHash = qs_chainHash m, qs_shortChannelIds = qs_shortChannelIds m, qs_flags = []\<rparr>)
      (tlv_bytes (qs_recs deflate e m)) (m\<lparr>qs_flags := ?fs\<rparr>)" by (intro parses_tlvs)
  have dec: "enc_decode inflate (enc_encode deflate e (qs_ids m)) = Inr (qs_ids m)"
    by (rule enc_decode_encode) (rule assms(2))
  have scids: "parseScids (qs_ids m) = Inr (qs_shortChannelIds m)"
    using wf by (simp add: qs_ids_def parseScids_bytes)
  show "qs_deserialize inflate (qs_bytes deflate e m) = Inr (m\<lparr>qs_flags := ?fs\<rparr>)"
    unfolding qs_deserialize_def qs_read_def qs_bytes_def
    by (rule parses_parseWith)
      ((rule parses_lift [OF dec] | rule parses_lift [OF scids] | rule parses_bind | rule rest | rule message_reads | (simp add: wf; fail))+)
qed

text \<open>
  A query for short channel identifiers is serialised without an error, but read back it has lost every
  query flag that is zero: a flag is written by the bit field's own \<^verbatim>\<open>toBuffer\<close>, which is empty for
  zero, and read as a \<^verbatim>\<open>BigSize\<close>. The other flags then no longer line up with the identifiers.
\<close>

theorem query_flags_lossy:
  assumes "qs_wf deflate e m" "\<And>d. inflate (deflate d) = Inr d"
  shows "\<exists>bytes. qs_serialize deflate m e = Inr bytes
    \<and> qs_deserialize inflate bytes = Inr (m\<lparr>qs_flags := filter (\<lambda>f. bf_value f \<noteq> 0) (qs_flags m)\<rparr>)"
  using qs_serialize_eq [OF assms(1)] qs_deserialize_eq [OF assms] by blast

definition qs_example :: query_scids where
  "qs_example = \<lparr>qs_chainHash = replicate 32 7,
     qs_shortChannelIds = [\<lparr>sc_block = 1, sc_txIdx = 2, sc_voutIdx = 3\<rparr>, \<lparr>sc_block = 4, sc_txIdx = 5, sc_voutIdx = 6\<rparr>],
     qs_flags = [BitField 0, BitField 5]\<rparr>"

lemma qs_example_wf: "qs_wf id Raw qs_example"
  by (simp add: qs_example_def qs_wf_def scid_wf_def enc_encode_def qs_ids_def scid_bytes_def bf_toBuffer_small
      bigsize_bytes_def)

theorem query_flags_lossy_witness:
  "\<exists>bytes. qs_serialize id qs_example Raw = Inr bytes
    \<and> qs_deserialize Inr bytes = Inr (qs_example\<lparr>qs_flags := [BitField 5]\<rparr>)"
  using query_flags_lossy [OF qs_example_wf, of Inr] by (simp add: qs_example_def)

section \<open>Replies to queries for a range\<close>

record reply_channel_range =
  rr_chainHash :: buffer
  rr_firstBlocknum :: nat
  rr_numberOfBlocks :: nat
  rr_fullInformation :: bool
  rr_shortChannelIds :: "scid list"
  rr_timestamps :: "(nat \<times> nat) list"
  rr_checksums :: "(nat \<times> nat) list"

definition readPair :: "(buffer_reader, nat \<times> nat) io" where
  "readPair = bind_io br_readUInt32BE (\<lambda>a. bind_io br_readUInt32BE (\<lambda>b. return_io (a, b)))"

definition writePair :: "nat \<times> nat \<Rightarrow> (buffer_writer, unit) io" where
  "writePair = (\<lambda>(v1, v2). then_io (bw_writeUInt32BE v1) (bw_writeUInt32BE v2))"

definition rr_tlv :: "(buffer \<Rightarrow> buffer res) \<Rightarrow> reply_channel_range tlv_handler" where
  "rr_tlv inflate = (\<lambda>type m.
     if type = 1 then
       bind_io (br_readBytes None) (\<lambda>bytes.
       bind_io (lift_io (enc_decode inflate bytes)) (\<lambda>decodedBytes.
       bind_io (lift_io (parseWith (readAll readPair) decodedBytes)) (\<lambda>ps.
         return_io (True, m\<lparr>rr_timestamps := rr_timestamps m @ ps\<rparr>))))
     else if type = 3 then
       bind_io (readAll readPair) (\<lambda>ps. return_io (True, m\<lparr>rr_checksums := rr_checksums m @ ps\<rparr>))
     else return_io (False, m))"

definition rr_read :: "(buffer \<Rightarrow> buffer res) \<Rightarrow> (buffer_reader, reply_channel_range) io" where
  "rr_read inflate =
     bind_io br_readUInt16BE (\<lambda>_.
     bind_io (br_readBytes (Some 32)) (\<lambda>chainHash.
     bind_io br_readUInt32BE (\<lambda>firstBlocknum.
     bind_io br_readUInt32BE (\<lambda>numberOfBlocks.
     bind_io readBool8 (\<lambda>fullInformation.
     bind_io readCounted16 (\<lambda>encodedScidBytes.
     bind_io (lift_io (enc_decode inflate encodedScidBytes)) (\<lambda>scidsBytes.
     bind_io (lift_io (parseScids scidsBytes)) (\<lambda>scids.
       \<lambda>r. readTlvs (rr_tlv inflate) r None
         \<lparr>rr_chainHash = chainHash, rr_firstBlocknum = firstBlocknum, rr_numberOfBlocks = numberOfBlocks,
          rr_fullInformation = fullInformation, rr_shortChannelIds = scids, rr_timestamps = [],
          rr_checksums = []\<rparr>))))))))"

definition rr_deserialize :: "(buffer \<Rightarrow> buffer res) \<Rightarrow> buffer \<Rightarrow> reply_channel_range res" where
  "rr_deserialize inflate = parseWith (rr_read inflate)"

definition rr_serialize :: "(buffer \<Rightarrow> buffer) \<Rightarrow> reply_channel_range \<Rightarrow> EncodingType \<Rightarrow> buffer res" where
  "rr_serialize deflate m encoding =
     bind_res (scids_buffer (rr_shortChannelIds m)) (\<lambda>rawSids.
     let esids = enc_encode deflate encoding rawSids
     in runWriter None
       (then_io (bw_writeUInt16BE (typeCode ReplyChannelRange))
       (then_io (bw_writeBytes (rr_chainHash m))
       (then_io (bw_writeUInt32BE (rr_firstBlocknum m))
       (then_io (bw_writeUInt32BE (rr_numberOfBlocks m))
       (then_io (bw_writeUInt8 (if rr_fullInformation m then 1 else 0))
       (then_io (writeCounted16 esids)
       (then_io
         (if rr_timestamps m \<noteq> []
          then bind_io (lift_io (runWriter None (each_io writePair (rr_timestamps m))))
                 (\<lambda>b. writeTlv 1 (enc_encode deflate encoding b))
          else return_io ())
         (if rr_checksums m \<noteq> []
          then bind_io (lift_io (runWriter None (each_io writePair (rr_checksums m)))) (writeTlv 3)
          else return_io ())))))))))"

definition pair_bytes :: "nat \<times> nat \<Rightarrow> buffer" where
  "pair_bytes p = be_bytes 4 (fst p) @ be_bytes 4 (snd p)"

definition pairs_bytes :: "(nat \<times> nat) list \<Rightarrow> buffer" where
  "pairs_bytes ps = concat (map pair_bytes ps)"

definition pairs_wf :: "(nat \<times> nat) list \<Rightarrow> bool" where
  "pairs_wf ps \<longleftrightarrow> (\<forall>(a, b)\<in>set ps. a < 2 ^ 32 \<and> b < 2 ^ 32) \<and> length ps < 2 ^ 16"

lemma length_pairs_bytes: "length (pairs_bytes ps) = 8 * length ps"
  by (induction ps) (simp_all add: pairs_bytes_def pair_bytes_def)

lemma reads_pair: "a < 2 ^ 32 \<Longrightarrow> b < 2 ^ 32 \<Longrightarrow> reads br_good br_content readPair (pair_bytes (a, b)) (a, b)"
  using reads_bind [where f = "\<lambda>a. bind_io br_readUInt32BE (\<lambda>b. return_io (a, b))" and cs = "be_bytes 4 b",
      OF br.u32be [of a] reads_bind_last [OF br.u32be [of b]], of "(a, b)"]
  by (simp add: readPair_def pair_bytes_def io_simps)

lemma parse_pairs:
  assumes "pairs_wf ps"
  shows "parseWith (readAll readPair) (pairs_bytes ps) = Inr ps"
    "\<exists>r'. readAll readPair (newBufferReader (pairs_bytes ps)) = (Inr ps, r') \<and> br_eof r'"
proof -
  have 1: "reads br_good br_content readPair (pair_bytes p) p" if "p \<in> set ps" for p
    using assms that reads_pair [of "fst p" "snd p"] by (auto simp: pairs_wf_def)
  have 2: "pair_bytes p \<noteq> []" for p
    by (metis append_is_Nil_conv length_be_bytes list.size(3) pair_bytes_def zero_neq_numeral)
  show "parseWith (readAll readPair) (pairs_bytes ps) = Inr ps"
    unfolding pairs_bytes_def using 1 2 by (intro parseWith_readAll) auto
  show "\<exists>r'. readAll readPair (newBufferReader (pairs_bytes ps)) = (Inr ps, r') \<and> br_eof r'"
    unfolding pairs_bytes_def using 1 2 by (intro readAll_new) auto
qed

lemma write_pairs:
  assumes "pairs_wf ps"
  shows "runWriter None (each_io writePair ps) = Inr (pairs_bytes ps)"
proof (rule runWriter_growing)
  have "writes (bw_good False) bw_out bw_room (writePair p) (pair_bytes p)" if "p \<in> set ps" for p
    using assms that unfolding writePair_def pair_bytes_def
    by (cases p) (auto simp: pairs_wf_def intro!: writes_then bw_writes)
  then show "writes (bw_good False) bw_out bw_room (each_io writePair ps) (pairs_bytes ps)"
    unfolding pairs_bytes_def by (rule writes_each)
  show "length (pairs_bytes ps) \<le> 2 ^ 30" using assms by (simp add: length_pairs_bytes pairs_wf_def)
qed

definition rr_ids :: "reply_channel_range \<Rightarrow> buffer" where
  "rr_ids m = concat (map scid_bytes (rr_shortChannelIds m))"

definition rr_wf :: "(buffer \<Rightarrow> buffer) \<Rightarrow> EncodingType \<Rightarrow> reply_channel_range \<Rightarrow> bool" where
  "rr_wf deflate e m \<longleftrightarrow> length (rr_chainHash m) = 32 \<and> rr_firstBlocknum m < 2 ^ 32
     \<and> rr_numberOfBlocks m < 2 ^ 32 \<and> (\<forall>s\<in>set (rr_shortChannelIds m). scid_wf s)
     \<and> pairs_wf (rr_timestamps m) \<and> pairs_wf (rr_checksums m)
     \<and> length (enc_encode deflate e (rr_ids m)) < 2 ^ 16
     \<and> length (enc_encode deflate e (pairs_bytes (rr_timestamps m))) < 2 ^ 16"

definition rr_recs :: "(buffer \<Rightarrow> buffer) \<Rightarrow> EncodingType \<Rightarrow> reply_channel_range \<Rightarrow> (nat \<times> buffer) list" where
  "rr_recs deflate e m =
     (if rr_timestamps m = [] then [] else [(1, enc_encode deflate e (pairs_bytes (rr_timestamps m)))])
     @ (if rr_checksums m = [] then [] else [(3, pairs_bytes (rr_checksums m))])"

definition rr_bytes :: "(buffer \<Rightarrow> buffer) \<Rightarrow> EncodingType \<Rightarrow> reply_channel_range \<Rightarrow> buffer" where
  "rr_bytes deflate e m = be_bytes 2 (typeCode ReplyChannelRange) @ rr_chainHash m
     @ be_bytes 4 (rr_firstBlocknum m) @ be_bytes 4 (rr_numberOfBlocks m)
     @ le_bytes 1 (if rr_fullInformation m then 1 else 0)
     @ counted16 (enc_encode deflate e (rr_ids m)) @ tlv_bytes (rr_recs deflate e m)"

lemma tlv_bytes_append: "tlv_bytes (xs @ ys) = tlv_bytes xs @ tlv_bytes ys"
  by (simp add: tlv_bytes_def)

lemma rr_serialize_eq:
  assumes "rr_wf deflate e m"
  shows "rr_serialize deflate m e = Inr (rr_bytes deflate e m)"
proof -
  note wf = assms [unfolded rr_wf_def, simplified]
  let ?ts = "enc_encode deflate e (pairs_bytes (rr_timestamps m))"
  have ids: "scids_buffer (rr_shortChannelIds m) = Inr (rr_ids m)"
    using wf by (simp add: scids_buffer_eq rr_ids_def)
  have lift: "bind_io (lift_io (Inr x)) g = g x" for x :: buffer and g :: "buffer \<Rightarrow> (buffer_writer, unit) io"
    by (simp add: fun_eq_iff io_simps)
  have t: "writes (bw_good f) bw_out bw_room
      (if rr_timestamps m \<noteq> [] then bind_io (lift_io (runWriter None (each_io writePair (rr_timestamps m))))
         (\<lambda>b. writeTlv 1 (enc_encode deflate e b)) else return_io ())
      (tlv_bytes (if rr_timestamps m = [] then [] else [(1, ?ts)]))" for f
    using writes_tlv [of 1 ?ts f] wf by (simp add: write_pairs lift writes_return tlv_bytes_def)
  have c: "writes (bw_good f) bw_out bw_room
      (if rr_checksums m \<noteq> [] then bind_io (lift_io (runWriter None (each_io writePair (rr_checksums m)))) (writeTlv 3)
       else return_io ()) (tlv_bytes (if rr_checksums m = [] then [] else [(3, pairs_bytes (rr_checksums m))]))" for f
    using writes_tlv [of 3 "pairs_bytes (rr_checksums m)" f] wf
    by (auto simp: write_pairs lift writes_return length_pairs_bytes pairs_wf_def tlv_bytes_def)
  have "writes (bw_good f) bw_out bw_room
       (then_io (bw_writeUInt16BE (typeCode ReplyChannelRange))
       (then_io (bw_writeBytes (rr_chainHash m))
       (then_io (bw_writeUInt32BE (rr_firstBlocknum m))
       (then_io (bw_writeUInt32BE (rr_numberOfBlocks m))
       (then_io (bw_writeUInt8 (if rr_fullInformation m then 1 else 0))
       (then_io (writeCounted16 (enc_encode deflate e (rr_ids m)))
       (then_io
         (if rr_timestamps m \<noteq> []
          then bind_io (lift_io (runWriter None (each_io writePair (rr_timestamps m))))
                 (\<lambda>b. writeTlv 1 (enc_encode deflate e b))
          else return_io ())
         (if rr_checksums m \<noteq> []
          then bind_io (lift_io (runWriter None (each_io writePair (rr_checksums m)))) (writeTlv 3)
          else return_io ())))))))) (rr_bytes deflate e m)" for f
    unfolding rr_bytes_def rr_recs_def tlv_bytes_append
    by ((rule writes_then | rule t c | rule message_writes | (simp add: wf; fail))+)
  moreover have "length (rr_bytes deflate e m) \<le> 2 ^ 30"
    using wf by (auto simp: rr_bytes_def rr_recs_def tlv_bytes_def length_bigsize_bytes length_pairs_bytes pairs_wf_def)
  ultimately show ?thesis unfolding rr_serialize_def ids by (simp add: Let_def runWriter_growing)
qed

lemma rr_deserialize_eq:
  assumes "rr_wf deflate e m" "\<And>d. inflate (deflate d) = Inr d"
  shows "rr_deserialize inflate (rr_bytes deflate e m) = Inr m"
proof -
  note wf = assms(1) [unfolded rr_wf_def, simplified]
  let ?ts = "enc_encode deflate e (pairs_bytes (rr_timestamps m))"
  let ?m = "\<lparr>rr_chainHash = rr_chainHash m, rr_firstBlocknum = rr_firstBlocknum m, rr_numberOfBlocks = rr_numberOfBlocks m,
      rr_fullInformation = rr_fullInformation m, rr_shortChannelIds = rr_shortChannelIds m, rr_timestamps = [], rr_checksums = []\<rparr>"
  note dec = enc_decode_encode [where inflate = inflate, OF assms(2)]
  have "tlv_fold (rr_tlv inflate) (rr_recs deflate e m) ?m = Some m"
    using readBytes_all [of ?ts] parse_pairs [of "rr_timestamps m"] parse_pairs [of "rr_checksums m"] wf
    by (cases m) (auto simp: rr_recs_def rr_tlv_def io_simps dec)
  moreover have "tlv_canonical None (rr_recs deflate e m)"
    using wf by (auto simp: rr_recs_def length_pairs_bytes pairs_wf_def)
  ultimately have rest: "parses (\<lambda>r. readTlvs (rr_tlv inflate) r None ?m) (tlv_bytes (rr_recs deflate e m)) m"
    by (intro parses_tlvs)
  have scids: "parseScids (rr_ids m) = Inr (rr_shortChannelIds m)"
    using wf by (simp add: rr_ids_def parseScids_bytes)
  show ?thesis
    unfolding rr_deserialize_def rr_read_def rr_bytes_def
    by (rule parses_parseWith)
      ((rule parses_lift [OF dec] | rule parses_lift [OF scids] | rule parses_bind | rule rest | rule message_reads | (simp add: wf; fail))+)
qed

end
