(* ===== verification/Base32.thy ===== *)
theory Base32
  imports Chars
begin

text \<open>
  \<^verbatim>\<open>packages/lightning/lib/Base32.ts\<close>.  The code works on small integers, from the last byte or
  character to the first, and prepends what it produces.
\<close>

section \<open>Encoding\<close>

definition base32_alphabet :: string where
  "base32_alphabet = ''ABCDEFGHIJKLMNOPQRSTUVWXYZ234567''"

text \<open>The padding: its characters and the bits that are left for the last character.\<close>

definition base32_pad :: "nat \<Rightarrow> string \<times> nat" where
  "base32_pad len =
     (let dataBits = len * 8;
          padBits = (if dataBits mod 40 = 0 then 0 else 40 - dataBits mod 40)
      in if padBits = 32 then (replicate 6 CHR ''='', 2)
         else if padBits = 24 then (replicate 4 CHR ''='', 4)
         else if padBits = 16 then (replicate 3 CHR ''='', 1)
         else if padBits = 8 then (replicate 1 CHR ''='', 3)
         else ([], 0))"

fun base32_flush :: "nat \<Rightarrow> nat \<Rightarrow> string \<Rightarrow> nat \<times> nat \<times> string" where
  "base32_flush val valBits result =
     (if valBits \<ge> 5
      then base32_flush (drop_bit 5 val) (valBits - 5) (base32_alphabet ! (val AND 31) # result)
      else (val, valBits, result))"

declare base32_flush.simps [simp del]

primrec base32_loop :: "buffer \<Rightarrow> nat \<Rightarrow> nat \<Rightarrow> string \<Rightarrow> string" where
  "base32_loop [] val valBits result = result"
| "base32_loop (b # bs) val valBits result =
     (case base32_flush (val OR push_bit valBits (unat b)) (valBits + 8) result of
        (val', valBits', result') \<Rightarrow> base32_loop bs val' valBits' result')"

definition base32_encode :: "buffer \<Rightarrow> string" where
  "base32_encode buf =
     (if length buf = 0 then []
      else case base32_pad (length buf) of (result, valBits) \<Rightarrow> base32_loop (rev buf) 0 valBits result)"

section \<open>Decoding\<close>

text \<open>The index of a character; a character that is not in the alphabet, or missing, has index \<open>- 1\<close>.\<close>

definition base32_index :: "char \<Rightarrow> int" where
  "base32_index c =
     (case List.find (\<lambda>i. base32_alphabet ! i = c) [0..<32] of None \<Rightarrow> - 1 | Some i \<Rightarrow> int i)"

definition base32_padBits :: "nat \<Rightarrow> nat" where
  "base32_padBits padChars =
     (if padChars = 6 then 2 else if padChars = 4 then 4 else if padChars = 3 then 1
      else if padChars = 1 then 3 else 0)"

fun base32_words :: "int \<Rightarrow> nat \<Rightarrow> buffer \<Rightarrow> int \<times> nat \<times> buffer" where
  "base32_words val valBits words =
     (if valBits \<ge> 8 then base32_words (drop_bit 8 val) (valBits - 8) (of_int (val AND 255) # words)
      else (val, valBits, words))"

declare base32_words.simps [simp del]

primrec base32_decodeLoop :: "string \<Rightarrow> int \<Rightarrow> nat \<Rightarrow> buffer \<Rightarrow> buffer" where
  "base32_decodeLoop [] val valBits words = words"
| "base32_decodeLoop (c # cs) val valBits words =
     (case base32_words (val OR push_bit valBits (base32_index c)) (valBits + 5) words of
        (val', valBits', words') \<Rightarrow> base32_decodeLoop cs val' valBits' words')"

definition base32_decode :: "string \<Rightarrow> buffer" where
  "base32_decode input =
     (if input = [] then []
      else let r = rev input;
               padChars = length (takeWhile (\<lambda>c. c = CHR ''='') r);
               r = dropWhile (\<lambda>c. c = CHR ''='') r
           in if padChars \<noteq> 0
              then let padBits = base32_padBits padChars;
                       index = (case r of [] \<Rightarrow> - 1 | c # _ \<Rightarrow> base32_index c)
                   in base32_decodeLoop (drop 1 r) (drop_bit padBits index) (5 - padBits) []
              else base32_decodeLoop r 0 0 [])"

section \<open>Round trip\<close>

text \<open>The number that the characters spell.\<close>

primrec base32_num :: "string \<Rightarrow> nat" where
  "base32_num [] = 0"
| "base32_num (c # cs) = nat (base32_index c) * 32 ^ length cs + base32_num cs"

lemma base32_index_nth: "i < 32 \<Longrightarrow> base32_index (base32_alphabet ! i) = int i"
proof -
  have "\<forall>i\<in>set [0..<32]. base32_index (base32_alphabet ! i) = int i"
    by code_simp
  then show "i < 32 \<Longrightarrow> ?thesis" by simp
qed

lemma or_push_bit:
  fixes val :: "'a :: semiring_bit_operations"
  assumes "take_bit n val = val"
  shows "val OR push_bit n b = val + push_bit n b"
proof -
  have "\<not> bit val k" if "n \<le> k" for k
    using assms that by (metis bit_take_bit_iff not_le)
  then show ?thesis by (intro disjunctive_add [symmetric]) (auto simp: bit_simps)
qed

lemma or_push_nat: "val < 2 ^ n \<Longrightarrow> val OR push_bit n b = val + b * 2 ^ n" for val b :: nat
  using or_push_bit [of n val b] by (simp add: take_bit_nat_eq_self push_bit_eq_mult)

lemma or_push_int: "0 \<le> val \<Longrightarrow> val < 2 ^ n \<Longrightarrow> val OR push_bit n b = val + b * 2 ^ n" for val b :: int
  using or_push_bit [of n val b] by (simp add: take_bit_int_eq_self push_bit_eq_mult)

lemma low_bits: "n AND 31 = n mod 32" "k AND 255 = k mod 256" for n :: nat and k :: int
  using take_bit_eq_mask [of 5 n] take_bit_eq_mask [of 8 k]
  by (simp_all add: mask_eq_exp_minus_1 take_bit_eq_mod)

lemma base32_flush_spec:
  "base32_flush val valBits result = (val', valBits', result') \<Longrightarrow> val < 2 ^ valBits \<Longrightarrow>
     val' < 2 ^ valBits' \<and> valBits' < 5 \<and> (\<exists>new. result' = new @ result
       \<and> set new \<subseteq> set base32_alphabet \<and> valBits' + 5 * length new = valBits
       \<and> val' * 32 ^ length new + base32_num new = val)"
proof (induction val valBits result rule: base32_flush.induct)
  case (1 val valBits result)
  show ?case
  proof (cases "5 \<le> valBits")
    case False
    then show ?thesis using "1.prems" by (auto simp: base32_flush.simps [of val])
  next
    case True
    let ?c = "base32_alphabet ! (val AND 31)"
    have "base32_flush (drop_bit 5 val) (valBits - 5) (?c # result) = (val', valBits', result')"
      using "1.prems"(1) True by (simp add: base32_flush.simps [of val])
    moreover have "(2::nat) ^ valBits = 2 ^ (valBits - 5) * 32"
      using True power_add [of "2::nat" "valBits - 5" 5] by simp
    then have "drop_bit 5 val < 2 ^ (valBits - 5)"
      using "1.prems"(2) by (simp add: drop_bit_eq_div less_mult_imp_div_less)
    ultimately obtain new where new: "val' < 2 ^ valBits'" "valBits' < 5" "result' = new @ ?c # result"
      "set new \<subseteq> set base32_alphabet" "valBits' + 5 * length new = valBits - 5"
      "val' * 32 ^ length new + base32_num new = drop_bit 5 val"
      using "1.IH" [OF True] by blast
    have "base32_num (new @ [c]) = base32_num new * 32 + nat (base32_index c)" for c
      by (induction new) (simp_all add: algebra_simps)
    moreover have "nat (base32_index ?c) = val mod 32"
      using base32_index_nth [of "val AND 31"] by (simp add: low_bits)
    moreover have "?c \<in> set base32_alphabet"
      by (rule nth_mem) (simp add: low_bits base32_alphabet_def)
    moreover have "val = 32 * drop_bit 5 val + val mod 32" by (simp add: drop_bit_eq_div)
    ultimately show ?thesis using new True
      by (intro conjI exI [of _ "new @ [?c]"]) (auto simp: algebra_simps)
  qed
qed

lemma base32_loop_spec:
  "val < 2 ^ valBits \<Longrightarrow> valBits < 5 \<Longrightarrow> set new \<subseteq> set base32_alphabet \<Longrightarrow>
     \<exists>out v n. base32_loop bs val valBits (new @ pad) = out @ pad \<and> set out \<subseteq> set base32_alphabet
       \<and> v < 2 ^ n \<and> n < 5 \<and> n + 5 * length out = valBits + 5 * length new + 8 * length bs
       \<and> v * 32 ^ length out + base32_num out
         = val * 32 ^ length new + base32_num new + le_val bs * 2 ^ (valBits + 5 * length new)"
proof (induction bs arbitrary: val valBits new)
  case Nil
  then show ?case by (intro exI [of _ new] exI [of _ val] exI [of _ valBits]) simp
next
  case (Cons b bs)
  let ?val = "val OR push_bit valBits (unat b)"
  obtain val' valBits' result' where f: "base32_flush ?val (valBits + 8) (new @ pad) = (val', valBits', result')"
    by (metis prod_cases3)
  have val: "?val = val + unat b * 2 ^ valBits" using Cons.prems(1) by (rule or_push_nat)
  have "val + unat b * 2 ^ valBits < (1 + unat b) * 2 ^ valBits" using Cons.prems(1) by simp
  also have "\<dots> \<le> 256 * 2 ^ valBits" using unat_byte_less [of b] by (intro mult_right_mono) linarith+
  finally have "?val < 2 ^ (valBits + 8)" unfolding val by (simp add: power_add)
  from base32_flush_spec [OF f this] obtain new' where new': "val' < 2 ^ valBits'" "valBits' < 5"
    "result' = new' @ new @ pad" "set new' \<subseteq> set base32_alphabet" "valBits' + 5 * length new' = valBits + 8"
    "val' * 32 ^ length new' + base32_num new' = ?val" by blast
  have app: "base32_num (xs @ ys) = base32_num xs * 32 ^ length ys + base32_num ys" for xs ys
    by (induction xs) (simp_all add: algebra_simps power_add)
  obtain out v n where out: "base32_loop bs val' valBits' ((new' @ new) @ pad) = out @ pad" "set out \<subseteq> set base32_alphabet"
    "v < 2 ^ n" "n < 5" "n + 5 * length out = valBits' + 5 * length (new' @ new) + 8 * length bs"
    "v * 32 ^ length out + base32_num out
      = val' * 32 ^ length (new' @ new) + base32_num (new' @ new) + le_val bs * 2 ^ (valBits' + 5 * length (new' @ new))"
    using Cons.IH [OF new'(1,2), of "new' @ new"] new'(4) Cons.prems(3) by auto
  let ?T = "(2::nat) ^ (valBits + 5 * length new)"
  have "val' * 32 ^ length (new' @ new) + base32_num (new' @ new) = ?val * 32 ^ length new + base32_num new"
    by (simp add: app power_add algebra_simps flip: new'(6))
  moreover have "valBits' + 5 * length (new' @ new) = valBits + 5 * length new + 8" using new'(5) by simp
  ultimately have "v * 32 ^ length out + base32_num out
      = (val + unat b * 2 ^ valBits) * 32 ^ length new + base32_num new + le_val bs * 2 ^ (valBits + 5 * length new + 8)"
    by (simp only: out(6) val)
  also have "\<dots> = val * 32 ^ length new + base32_num new + unat b * (2 ^ valBits * 32 ^ length new) + le_val bs * (256 * ?T)"
    by (simp add: algebra_simps power_add)
  also have "(2::nat) ^ valBits * 32 ^ length new = ?T" by (simp add: power_add power_mult)
  finally have "v * 32 ^ length out + base32_num out = val * 32 ^ length new + base32_num new + le_val (b # bs) * ?T"
    by (simp add: algebra_simps)
  moreover have "base32_loop (b # bs) val valBits (new @ pad) = out @ pad" using f out(1) new'(3) by simp
  ultimately show ?case using out(2-5) new'(5) by (intro exI [of _ out] exI [of _ v] exI [of _ n]) simp
qed

lemma base32_pad_bits: "snd (base32_pad n) < 5 \<and> 5 dvd snd (base32_pad n) + 8 * n"
proof -
  define q r where "q = n div 5" and "r = n mod 5"
  then have n: "n = 5 * q + r" and r: "r < 5" by simp_all
  then have m: "n * 8 mod 40 = 8 * r" by (simp add: algebra_simps)
  have "8 * n = 5 * (8 * q) + 8 * r" by (simp add: n)
  then have e: "5 dvd snd (base32_pad n) + 8 * n \<longleftrightarrow> 5 dvd snd (base32_pad n) + 8 * r"
    using dvd_add_times_triv_left_iff [of 5 "8 * q" "snd (base32_pad n) + 8 * r"] by (simp add: ac_simps)
  consider "r = 0" | "r = 1" | "r = 2" | "r = 3" | "r = 4" using r by linarith
  then show ?thesis unfolding e by cases (simp_all add: base32_pad_def m)
qed

lemma base32_encode_spec:
  assumes "buf \<noteq> []"
  defines "p \<equiv> snd (base32_pad (length buf))"
  shows "\<exists>out. base32_encode buf = out @ fst (base32_pad (length buf)) \<and> set out \<subseteq> set base32_alphabet
    \<and> 5 * length out = p + 8 * length buf \<and> base32_num out = be_val buf * 2 ^ p"
proof -
  let ?pad = "fst (base32_pad (length buf))"
  have p: "p < 5 \<and> 5 dvd p + 8 * length buf"
    unfolding p_def by (rule base32_pad_bits)
  have "base32_encode buf = base32_loop (rev buf) 0 p ([] @ ?pad)"
    using assms(1) by (simp add: base32_encode_def p_def split: prod.splits)
  moreover obtain out v n where out: "base32_loop (rev buf) 0 p ([] @ ?pad) = out @ ?pad" "set out \<subseteq> set base32_alphabet"
    "v < 2 ^ n" "n < 5" "n + 5 * length out = p + 8 * length buf" "v * 32 ^ length out + base32_num out = le_val (rev buf) * 2 ^ p"
    using base32_loop_spec [of 0 p "[]" "rev buf" ?pad] p by auto
  moreover have "n = 0" using out(4,5) p by presburger
  ultimately show ?thesis by (intro exI [of _ out]) (simp add: be_val_def)
qed

lemma base32_words_spec:
  "base32_words val valBits words = (val', valBits', words') \<Longrightarrow> 0 \<le> val \<Longrightarrow> val < 2 ^ valBits \<Longrightarrow>
     0 \<le> val' \<and> val' < 2 ^ valBits' \<and> valBits' < 8 \<and> (\<exists>new. words' = new @ words
       \<and> valBits' + 8 * length new = valBits \<and> val' * 256 ^ length new + int (be_val new) = val)"
proof (induction val valBits words rule: base32_words.induct)
  case (1 val valBits words)
  show ?case
  proof (cases "8 \<le> valBits")
    case False
    then show ?thesis using "1.prems" by (auto simp: base32_words.simps [of val])
  next
    case True
    let ?w = "of_int (val AND 255) :: byte"
    have "base32_words (drop_bit 8 val) (valBits - 8) (?w # words) = (val', valBits', words')"
      using "1.prems"(1) True by (simp add: base32_words.simps [of val])
    moreover have "(2::int) ^ valBits = 2 ^ (valBits - 8) * 256"
      using True power_add [of "2::int" "valBits - 8" 8] by simp
    then have "val div 256 < 2 ^ (valBits - 8)" "0 \<le> val div 256"
      using "1.prems"(2,3) by linarith+
    then have "drop_bit 8 val < 2 ^ (valBits - 8)" "0 \<le> drop_bit 8 val"
      by (simp_all add: drop_bit_eq_div)
    ultimately obtain new where new: "0 \<le> val'" "val' < 2 ^ valBits'" "valBits' < 8" "words' = new @ ?w # words"
      "valBits' + 8 * length new = valBits - 8" "val' * 256 ^ length new + int (be_val new) = drop_bit 8 val"
      using "1.IH" [OF True] by blast
    have "int (unat ?w) = val mod 256"
      by (simp add: low_bits unat_eq_nat_uint uint_word_of_int)
    moreover have "val = 256 * drop_bit 8 val + val mod 256" by (simp add: drop_bit_eq_div)
    ultimately show ?thesis using new True
      by (intro conjI exI [of _ "new @ [?w]"]) (auto simp: algebra_simps be_val_append be_val_Cons)
  qed
qed

primrec base32_rnum :: "string \<Rightarrow> int" where
  "base32_rnum [] = 0"
| "base32_rnum (c # cs) = base32_index c + 32 * base32_rnum cs"

lemma base32_index_range: "c \<in> set base32_alphabet \<Longrightarrow> 0 \<le> base32_index c \<and> base32_index c < 32"
proof -
  have len: "length base32_alphabet = 32" by (simp add: base32_alphabet_def)
  assume "c \<in> set base32_alphabet"
  then obtain i where "i < 32" "base32_alphabet ! i = c" by (auto simp: in_set_conv_nth len)
  then show ?thesis using base32_index_nth [of i] by auto
qed

lemma base32_rnum_rev: "set cs \<subseteq> set base32_alphabet \<Longrightarrow> base32_rnum (rev cs) = int (base32_num cs)"
proof (induction cs)
  case (Cons c cs)
  have "base32_rnum (xs @ [c]) = base32_rnum xs + base32_index c * 32 ^ length xs" for xs
    by (induction xs) (simp_all add: algebra_simps)
  then show ?case using Cons base32_index_range [of c] by simp
qed simp

lemma base32_decodeLoop_spec:
  "0 \<le> val \<Longrightarrow> val < 2 ^ valBits \<Longrightarrow> valBits < 8 \<Longrightarrow> set cs \<subseteq> set base32_alphabet \<Longrightarrow>
     \<exists>v n. let out = base32_decodeLoop cs val valBits words in 0 \<le> v \<and> v < 2 ^ n \<and> n < 8
       \<and> n + 8 * length out = valBits + 8 * length words + 5 * length cs
       \<and> v * 256 ^ length out + int (be_val out)
         = val * 256 ^ length words + int (be_val words) + base32_rnum cs * 2 ^ (valBits + 8 * length words)"
proof (induction cs arbitrary: val valBits words)
  case Nil
  then show ?case by (intro exI [of _ val] exI [of _ valBits]) simp
next
  case (Cons c cs)
  let ?val = "val OR push_bit valBits (base32_index c)"
  obtain val' valBits' words' where f: "base32_words ?val (valBits + 5) words = (val', valBits', words')"
    by (metis prod_cases3)
  have val: "?val = val + base32_index c * 2 ^ valBits" using Cons.prems(1,2) by (rule or_push_int)
  note idx = base32_index_range [of c]
  have "val + base32_index c * 2 ^ valBits < (1 + base32_index c) * 2 ^ valBits"
    using Cons.prems(2) by (simp add: algebra_simps)
  also have "\<dots> \<le> 32 * 2 ^ valBits" using idx Cons.prems(4) by (intro mult_right_mono) auto
  finally have less: "?val < 2 ^ (valBits + 5)" unfolding val by (simp add: power_add)
  have "0 \<le> ?val" unfolding val using Cons.prems(1,4) idx by simp
  from base32_words_spec [OF f this less] obtain new where new: "0 \<le> val'" "val' < 2 ^ valBits'" "valBits' < 8"
    "words' = new @ words" "valBits' + 8 * length new = valBits + 5" "val' * 256 ^ length new + int (be_val new) = ?val"
    by blast
  have cs: "set cs \<subseteq> set base32_alphabet" using Cons.prems(4) by simp
  obtain v n where v: "let out = base32_decodeLoop cs val' valBits' words' in 0 \<le> v \<and> v < 2 ^ n \<and> n < 8
       \<and> n + 8 * length out = valBits' + 8 * length words' + 5 * length cs
       \<and> v * 256 ^ length out + int (be_val out)
         = val' * 256 ^ length words' + int (be_val words') + base32_rnum cs * 2 ^ (valBits' + 8 * length words')"
    using Cons.IH [OF new(1-3) cs] by blast
  let ?T = "(2::int) ^ (valBits + 8 * length words)" and ?out = "base32_decodeLoop cs val' valBits' words'"
  have len: "valBits' + 8 * length words' = valBits + 8 * length words + 5" using new(4,5) by simp
  moreover have "val' * 256 ^ length words' + int (be_val words') = ?val * 256 ^ length words + int (be_val words)"
    by (simp add: new(4) be_val_append power_add algebra_simps flip: new(6))
  ultimately have "v * 256 ^ length ?out + int (be_val ?out)
      = (val + base32_index c * 2 ^ valBits) * 256 ^ length words + int (be_val words)
        + base32_rnum cs * 2 ^ (valBits + 8 * length words + 5)"
    using v unfolding Let_def by (simp only: val)
  also have "\<dots> = val * 256 ^ length words + int (be_val words) + base32_index c * (2 ^ valBits * 256 ^ length words)
        + base32_rnum cs * (32 * ?T)" by (simp add: algebra_simps power_add)
  also have "(2::int) ^ valBits * 256 ^ length words = ?T" by (simp add: power_add power_mult)
  finally have "v * 256 ^ length ?out + int (be_val ?out)
      = val * 256 ^ length words + int (be_val words) + base32_rnum (c # cs) * ?T" by (simp add: algebra_simps)
  moreover have "base32_decodeLoop (c # cs) val valBits words = ?out" using f by simp
  ultimately show ?case using v len unfolding Let_def by (intro exI [of _ v] exI [of _ n]) simp
qed

lemma be_val_inj: "length bs = length cs \<Longrightarrow> be_val bs = be_val cs \<Longrightarrow> bs = cs"
  by (metis be_bytes_be_val)

lemma div_less_pow: "a < b * 2 ^ p \<Longrightarrow> a div 2 ^ p < (b :: int)"
proof (rule ccontr)
  assume a: "a < b * 2 ^ p" "\<not> a div 2 ^ p < b"
  then have "b * 2 ^ p \<le> (a div 2 ^ p) * 2 ^ p" by (intro mult_right_mono) auto
  also have "\<dots> \<le> a"
  proof -
    have "0 \<le> a mod 2 ^ p" by simp
    then show ?thesis using div_mult_mod_eq [of a "2 ^ p"] by linarith
  qed
  finally show False using a(1) by simp
qed

lemma base32_decode_complete:
  assumes "0 \<le> val" "val < 2 ^ valBits" "valBits < 8" "set cs \<subseteq> set base32_alphabet"
    and "valBits + 5 * length cs = 8 * length buf" "val + base32_rnum cs * 2 ^ valBits = int (be_val buf)"
  shows "base32_decodeLoop cs val valBits [] = buf"
proof -
  let ?out = "base32_decodeLoop cs val valBits []"
  obtain v n where v: "0 \<le> v" "v < 2 ^ n" "n < 8" "n + 8 * length ?out = 8 * length buf"
    "v * 256 ^ length ?out + int (be_val ?out) = int (be_val buf)"
    using base32_decodeLoop_spec [OF assms(1-4), of "[]"] assms(5,6) by (auto simp: Let_def)
  have "n = 0" using v(3,4) by presburger
  moreover from this have "v = 0" using v(1,2) by simp
  ultimately show ?thesis using v by (intro be_val_inj) auto
qed

lemma base32_decode_encode: "base32_decode (base32_encode buf) = buf"
proof (cases "buf = []")
  case True
  then show ?thesis by (simp add: base32_encode_def base32_decode_def)
next
  case False
  define p where "p = snd (base32_pad (length buf))"
  define k where "k = length (fst (base32_pad (length buf)))"
  obtain out where out: "base32_encode buf = out @ fst (base32_pad (length buf))" "set out \<subseteq> set base32_alphabet"
    "5 * length out = p + 8 * length buf" "base32_num out = be_val buf * 2 ^ p"
    using base32_encode_spec [OF False] unfolding p_def by blast
  have pad: "fst (base32_pad (length buf)) = replicate k (CHR ''='')"
    and k: "p < 5" "k = 0 \<longleftrightarrow> p = 0" "base32_padBits k = p"
    unfolding k_def p_def by (auto simp: base32_pad_def Let_def base32_padBits_def)
  have "out \<noteq> []" using out(3) False by auto
  then obtain c cs where cs: "rev out = c # cs" by (cases "rev out") auto
  have set: "set (c # cs) \<subseteq> set base32_alphabet" using out(2) by (simp flip: cs)
  then have c: "c \<noteq> CHR ''=''" by (auto simp: base32_alphabet_def)
  have r: "rev (base32_encode buf) = replicate k (CHR ''='') @ c # cs" by (simp add: out(1) pad cs)
  then have tw: "takeWhile (\<lambda>c. c = CHR ''='') (rev (base32_encode buf)) = replicate k (CHR ''='')"
    "dropWhile (\<lambda>c. c = CHR ''='') (rev (base32_encode buf)) = c # cs"
    using c by (simp_all add: takeWhile_append dropWhile_append)
  have ne: "base32_encode buf \<noteq> []" using r by auto
  have num: "base32_index c + 32 * base32_rnum cs = int (be_val buf) * 2 ^ p"
    using base32_rnum_rev [OF out(2)] out(4) by (simp add: cs)
  have len: "5 + 5 * length cs = p + 8 * length buf" using out(3) arg_cong [OF cs, of length] by simp
  have idx: "0 \<le> base32_index c" "base32_index c < 32" using base32_index_range [of c] set by auto
  show ?thesis
  proof (cases "p = 0")
    case True
    have "base32_decodeLoop (c # cs) 0 0 [] = buf"
      by (rule base32_decode_complete) (use set num len True in auto)
    then show ?thesis using True k ne tw by (simp add: base32_decode_def Let_def)
  next
    case False
    have split: "(32::int) = 2 ^ (5 - p) * 2 ^ p" using k(1) by (simp flip: power_add)
    have "base32_decodeLoop cs (drop_bit p (base32_index c)) (5 - p) [] = buf"
    proof (rule base32_decode_complete)
      show "0 \<le> drop_bit p (base32_index c)" using idx by simp
      have "base32_index c div 2 ^ p < 2 ^ (5 - p)"
        using idx(2) unfolding split by (rule div_less_pow)
      then show "drop_bit p (base32_index c) < 2 ^ (5 - p)" by (simp add: drop_bit_eq_div)
      have "base32_index c = (int (be_val buf) - 2 ^ (5 - p) * base32_rnum cs) * 2 ^ p"
        using num by (simp add: split algebra_simps)
      then have "base32_index c div 2 ^ p = int (be_val buf) - 2 ^ (5 - p) * base32_rnum cs"
        by simp
      then show "drop_bit p (base32_index c) + base32_rnum cs * 2 ^ (5 - p) = int (be_val buf)"
        by (simp add: drop_bit_eq_div)
      show "5 - p + 5 * length cs = 8 * length buf" using len k(1) by simp
    qed (use set k in auto)
    then show ?thesis using False k ne tw by (simp add: base32_decode_def Let_def)
  qed
qed

end
