(* ===== verification/Addresses.thy ===== *)
theory Addresses
  imports Base32 Codec
begin

text \<open>
  Node addresses: \<^verbatim>\<open>packages/lightning/lib/domain/Address*.ts\<close>, \<^verbatim>\<open>serialize/address\<close>
  and \<^verbatim>\<open>deserialize/address\<close>.
\<close>

section \<open>Strings\<close>

text \<open>\<^verbatim>\<open>s.split(c)\<close> for a separator of one character.\<close>

fun splitOn :: "char \<Rightarrow> string \<Rightarrow> string list" where
  "splitOn c [] = [[]]"
| "splitOn c (x # xs) =
     (if x = c then [] # splitOn c xs
      else case splitOn c xs of [] \<Rightarrow> [[x]] | p # ps \<Rightarrow> (x # p) # ps)"

definition endsWith :: "string \<Rightarrow> string \<Rightarrow> bool" where
  "endsWith s t \<longleftrightarrow> length t \<le> length s \<and> drop (length s - length t) s = t"

definition startsWith :: "string \<Rightarrow> string \<Rightarrow> bool" where
  "startsWith s t \<longleftrightarrow> take (length t) s = t"

definition isSpace :: "char \<Rightarrow> bool" where
  "isSpace c \<longleftrightarrow> of_char c \<in> {9 :: nat, 10, 11, 12, 13, 32, 160}"

text \<open>
  \<^verbatim>\<open>parseInt(s)\<close>: leading white space, a sign and a hexadecimal prefix are allowed, and what
  follows the digits is ignored; \<open>None\<close> is \<^verbatim>\<open>NaN\<close>.
\<close>

definition parseHex :: "string \<Rightarrow> nat" where
  "parseHex cs = foldl (\<lambda>n c. 16 * n + the (hexVal c)) 0 (takeWhile (\<lambda>c. hexVal c \<noteq> None) cs)"

definition parseInt :: "string \<Rightarrow> int option" where
  "parseInt s =
     (let s = dropWhile isSpace s;
          neg = (case s of c # _ \<Rightarrow> c = CHR ''-'' | [] \<Rightarrow> False);
          s = (case s of c # r \<Rightarrow> if c = CHR ''-'' \<or> c = CHR ''+'' then r else s | [] \<Rightarrow> s);
          hex = (startsWith s ''0x'' \<or> startsWith s ''0X'');
          digits = (if hex then drop 2 s else s);
          n = (if hex then parseHex digits else parseDec digits);
          any = (case digits of [] \<Rightarrow> False | c # _ \<Rightarrow> if hex then hexVal c \<noteq> None else isDec c)
      in if any then Some (if neg then - int n else int n) else None)"

text \<open>Storing a number into a byte of a buffer.\<close>

definition toByte :: "int option \<Rightarrow> byte" where
  "toByte n = (case n of None \<Rightarrow> 0 | Some i \<Rightarrow> of_int i)"

section \<open>IPv4\<close>

definition ipv4StringToBuffer :: "string \<Rightarrow> buffer" where
  "ipv4StringToBuffer host =
     (let parts = splitOn (CHR ''.'') host
      in map (\<lambda>i. toByte (if i < length parts then parseInt (parts ! i) else None)) [0..<4])"

definition ipv4StringFromBuffer :: "buffer \<Rightarrow> string" where
  "ipv4StringFromBuffer bs =
     (case map (\<lambda>b. decString (unat b)) bs of [] \<Rightarrow> []
      | p # ps \<Rightarrow> p @ concat (map (\<lambda>q. CHR ''.'' # q) ps))"

section \<open>IPv6\<close>

definition discardLeadingZeros :: "string \<Rightarrow> string" where
  "discardLeadingZeros section = dropWhile (\<lambda>c. c = CHR ''0'') section"

fun getHexSections :: "buffer \<Rightarrow> string list" where
  "getHexSections (a # b # bs) = discardLeadingZeros (hexString [a, b]) # getHexSections bs"
| "getHexSections [a] = [discardLeadingZeros (hexString [a])]"
| "getHexSections [] = []"

definition sectionStep :: "string \<times> bool \<Rightarrow> string \<Rightarrow> string \<times> bool" where
  "sectionStep = (\<lambda>(result, hasCollapsed) s.
     if endsWith result ''::'' \<and> s = [] then (result, hasCollapsed)
     else if s = [] \<and> \<not> hasCollapsed
     then (if result = [] then result @ ''::'' else result @ '':'', True)
     else if hasCollapsed \<and> s = [] then (result @ ''0:'', hasCollapsed)
     else (result @ s @ '':'', hasCollapsed))"

definition sectionsToString :: "string list \<Rightarrow> string" where
  "sectionsToString sections =
     (let result = fst (foldl sectionStep ([], False) sections)
      in if \<not> endsWith result ''::'' then butlast result else result)"

definition ipv6StringFromBuffer :: "buffer \<Rightarrow> string" where
  "ipv6StringFromBuffer buf = sectionsToString (getHexSections buf)"

definition expandZeros :: "string \<Rightarrow> string" where
  "expandZeros part = replicate (4 - length part) CHR ''0'' @ part"

primrec ipv6_parts :: "string list \<Rightarrow> int \<Rightarrow> bool \<Rightarrow> (buffer_writer, unit) io" where
  "ipv6_parts [] expandBy needsExpansion = return_io ()"
| "ipv6_parts (part # parts) expandBy needsExpansion =
     (if needsExpansion \<and> part = []
      then then_io (bw_writeBytes (replicate (nat ((expandBy + 1) * 2)) 0)) (ipv6_parts parts expandBy False)
      else then_io (bw_writeBytes (hexBuffer (expandZeros part))) (ipv6_parts parts expandBy needsExpansion))"

definition ipv6StringToBuffer :: "string \<Rightarrow> buffer res" where
  "ipv6StringToBuffer host =
     (let host = (if startsWith host ''::'' then drop 1 host
                  else if endsWith host ''::'' then butlast host else host);
          parts = splitOn (CHR '':'') host;
          expandBy = 8 - int (length parts)
      in runWriter (Some (replicate 16 0)) (ipv6_parts parts expandBy (expandBy > 0)))"

section \<open>Tor\<close>

text \<open>The host up to its first dot; without a dot, nothing.\<close>

definition torStringToBuffer :: "string \<Rightarrow> buffer" where
  "torStringToBuffer host =
     (let host = (if CHR ''.'' \<in> set host then takeWhile (\<lambda>c. c \<noteq> CHR ''.'') host else [])
      in base32_decode (map toUpper host))"

definition torStringFromBuffer :: "buffer \<Rightarrow> string" where
  "torStringFromBuffer buf = map toLower (base32_encode buf) @ ''.onion''"

section \<open>Addresses\<close>

datatype Address =
    AddressIPv4 (addr_host: string) (addr_port: nat)
  | AddressIPv6 (addr_host: string) (addr_port: nat)
  | AddressTor2 (addr_host: string) (addr_port: nat)
  | AddressTor3 (addr_host: string) (addr_port: nat)

primrec addr_type :: "Address \<Rightarrow> nat" where
  "addr_type (AddressIPv4 host port) = 1"
| "addr_type (AddressIPv6 host port) = 2"
| "addr_type (AddressTor2 host port) = 3"
| "addr_type (AddressTor3 host port) = 4"

definition addr_toString :: "Address \<Rightarrow> string" where
  "addr_toString a =
     (case a of AddressIPv6 host port \<Rightarrow> ''['' @ host @ '']:'' @ decString port
      | _ \<Rightarrow> addr_host a @ '':'' @ decString (addr_port a))"

definition writeAddress :: "nat \<Rightarrow> Address \<Rightarrow> buffer \<Rightarrow> buffer res" where
  "writeAddress len a hostBytes = runWriter (Some (replicate len 0))
     (then_io (bw_writeUInt8 (addr_type a))
     (then_io (bw_writeBytes hostBytes)
       (bw_writeUInt16BE (addr_port a))))"

definition serializeIPv4 :: "Address \<Rightarrow> buffer res" where
  "serializeIPv4 a = writeAddress 7 a (ipv4StringToBuffer (addr_host a))"

definition serializeIPv6 :: "Address \<Rightarrow> buffer res" where
  "serializeIPv6 a = bind_res (ipv6StringToBuffer (addr_host a)) (writeAddress 19 a)"

definition serializeTor2 :: "Address \<Rightarrow> buffer res" where
  "serializeTor2 a = writeAddress 13 a (torStringToBuffer (addr_host a))"

definition serializeTor3 :: "Address \<Rightarrow> buffer res" where
  "serializeTor3 a = writeAddress 38 a (torStringToBuffer (addr_host a))"

definition serializeAddress :: "Address \<Rightarrow> buffer res" where
  "serializeAddress a =
     (case a of AddressIPv4 _ _ \<Rightarrow> serializeIPv4 a | AddressIPv6 _ _ \<Rightarrow> serializeIPv6 a
      | AddressTor2 _ _ \<Rightarrow> serializeTor2 a | AddressTor3 _ _ \<Rightarrow> serializeTor3 a)"

definition deserializeIPv4 :: "(buffer_reader, Address) io" where
  "deserializeIPv4 = bind_io (br_readBytes (Some 4)) (\<lambda>hostBytes.
     bind_io br_readUInt16BE (\<lambda>port. return_io (AddressIPv4 (ipv4StringFromBuffer hostBytes) port)))"

definition deserializeIPv6 :: "(buffer_reader, Address) io" where
  "deserializeIPv6 = bind_io (br_readBytes (Some 16)) (\<lambda>hostBytes.
     bind_io br_readUInt16BE (\<lambda>port. return_io (AddressIPv6 (ipv6StringFromBuffer hostBytes) port)))"

definition deserializeTor2 :: "(buffer_reader, Address) io" where
  "deserializeTor2 = bind_io (br_readBytes (Some 10)) (\<lambda>hostBytes.
     bind_io br_readUInt16BE (\<lambda>port. return_io (AddressTor2 (torStringFromBuffer hostBytes) port)))"

definition deserializeTor3 :: "(buffer_reader, Address) io" where
  "deserializeTor3 = bind_io (br_readBytes (Some 35)) (\<lambda>hostBytes.
     bind_io br_readUInt16BE (\<lambda>port. return_io (AddressTor3 (torStringFromBuffer hostBytes) port)))"

text \<open>For an unknown type the result is \<^verbatim>\<open>undefined\<close>, here \<open>None\<close>.\<close>

definition deserializeAddress :: "nat \<Rightarrow> (buffer_reader, Address option) io" where
  "deserializeAddress type =
     (let some = (\<lambda>m. bind_io m (\<lambda>a. return_io (Some a)))
      in if type = 1 then some deserializeIPv4
         else if type = 2 then some deserializeIPv6
         else if type = 3 then some deserializeTor2
         else if type = 4 then some deserializeTor3
         else return_io None)"

section \<open>Round trip of host names\<close>

lemma splitOn_not_Nil [simp]: "splitOn c s \<noteq> []"
  by (induction s) (auto split: list.splits)

lemma splitOn_single [simp]: "c \<notin> set s \<Longrightarrow> splitOn c s = [s]"
  by (induction s) auto

lemma splitOn_append [simp]: "c \<notin> set s \<Longrightarrow> splitOn c (s @ c # t) = s # splitOn c t"
  by (induction s) auto

lemma not_digits [simp]:
  "\<not> isDec (CHR ''x'')" "\<not> isDec (CHR ''X'')" "\<not> isDec (CHR ''-'')" "\<not> isDec (CHR ''+'')"
  "\<not> isDec (CHR ''.'')" "\<not> isDec (CHR '':'')"
  by (simp_all add: isDec_def decVal_def)

lemma digit_not_space: "isDec c \<Longrightarrow> \<not> isSpace c"
  by (auto simp: isSpace_def isDec_def decVal_def Let_def)

lemma decString_no: "\<not> isDec c \<Longrightarrow> c \<notin> set (decString n)"
  using decString_digits by blast

lemma parseInt_decString: "parseInt (decString n) = Some (int n)"
proof -
  obtain c cs where d: "decString n = c # cs" by (cases "decString n") auto
  have c: "isDec c" using decString_digits [of c n] by (simp add: d)
  have no: "k \<notin> set (c # cs)" if "\<not> isDec k" for k using decString_no [OF that, of n] by (simp add: d)
  have "\<not> startsWith (c # cs) [CHR ''0'', k]" if "\<not> isDec k" for k
    using no [OF that] by (cases cs) (auto simp: startsWith_def)
  then have x: "\<not> startsWith (c # cs) ''0x''" "\<not> startsWith (c # cs) ''0X''" by simp_all
  have "c \<noteq> CHR ''-''" "c \<noteq> CHR ''+''" using no [of "CHR ''-''"] no [of "CHR ''+''"] by auto
  then show ?thesis using c x parseDec_decString [of n] digit_not_space [OF c]
    by (simp add: parseInt_def d Let_def)
qed

lemma ipv4_roundtrip: "length bs = 4 \<Longrightarrow> ipv4StringToBuffer (ipv4StringFromBuffer bs) = bs"
proof -
  assume "length bs = 4"
  then obtain a b c d where bs: "bs = [a, b, c, d]"
    by (auto simp: eval_nat_numeral length_Suc_conv)
  have dot: "CHR ''.'' \<notin> set (decString n)" for n by (rule decString_no) simp
  have u: "[0..<4] = [0, 1, 2, 3::nat]" by (simp add: upt_rec)
  have "of_int (int (unat x)) = (x :: byte)" for x by simp
  then show ?thesis
    by (simp add: bs ipv4StringFromBuffer_def ipv4StringToBuffer_def dot u parseInt_decString toByte_def Let_def)
qed

lemma base32_encode_chars: "set (base32_encode buf) \<subseteq> set (CHR ''='' # base32_alphabet)"
proof (cases "buf = []")
  case False
  have "set (fst (base32_pad n)) \<subseteq> {CHR ''=''}" for n by (simp add: base32_pad_def Let_def)
  then have "set (fst (base32_pad (length buf))) \<subseteq> {CHR ''=''}" .
  moreover obtain out where "base32_encode buf = out @ fst (base32_pad (length buf))" "set out \<subseteq> set base32_alphabet"
    using base32_encode_spec [OF False] by blast
  ultimately show ?thesis by auto
qed (simp add: base32_encode_def)

lemma toUpper_toLower: "\<not> isLower c \<Longrightarrow> toUpper (toLower c) = c"
  by (auto simp: toUpper_def toLower_def isLower_def isUpper_def)

lemma toLower_dot: "c \<noteq> CHR ''.'' \<Longrightarrow> toLower c \<noteq> CHR ''.''"
proof
  assume "c \<noteq> CHR ''.''" "toLower c = CHR ''.''"
  then have u: "isUpper c" and eq: "char_of ((of_char c :: nat) + 32) = CHR ''.''"
    by (auto simp: toLower_def split: if_splits)
  have "((of_char c :: nat) + 32) mod 256 = 46"
    using arg_cong [OF eq, of "of_char :: char \<Rightarrow> nat"] by simp
  then show False using u by (simp add: isUpper_def)
qed

lemma tor_roundtrip: "torStringToBuffer (torStringFromBuffer bs) = bs"
proof -
  have all: "\<forall>c\<in>set (CHR ''='' # base32_alphabet). \<not> isLower c \<and> c \<noteq> CHR ''.''"
    by (simp add: base32_alphabet_def isLower_def)
  have P: "toUpper (toLower c) = c \<and> toLower c \<noteq> CHR ''.''" if "c \<in> set (base32_encode bs)" for c
    using bspec [OF all subsetD [OF base32_encode_chars that]] toUpper_toLower toLower_dot by blast
  have id: "map (\<lambda>c. toUpper (toLower c)) (base32_encode bs) = base32_encode bs"
    by (rule map_idI) (rule P [THEN conjunct1])
  have dot: "\<forall>c\<in>set (base32_encode bs). toLower c \<noteq> CHR ''.''" using P by blast
  have "takeWhile (\<lambda>c. c \<noteq> CHR ''.'') (map toLower (base32_encode bs) @ ''.onion'') = map toLower (base32_encode bs)"
    using dot by (subst takeWhile_append2) auto
  then show ?thesis
    by (simp add: torStringToBuffer_def torStringFromBuffer_def id base32_decode_encode comp_def)
qed

subsection \<open>IPv6 host names\<close>

text \<open>Sections followed by a colon each.\<close>

definition colons :: "string list \<Rightarrow> string" where
  "colons ss = concat (map (\<lambda>s. s @ '':'') ss)"

definition zeroed :: "string \<Rightarrow> string" where
  "zeroed s = (if s = [] then ''0'' else s)"

lemma colons_simps [simp]: "colons [] = []" "colons (s # ss) = s @ CHR '':'' # colons ss"
  "colons (xs @ ys) = colons xs @ colons ys"
  by (simp_all add: colons_def)

lemma splitOn_colons [simp]:
  "\<forall>s\<in>set ss. CHR '':'' \<notin> set s \<Longrightarrow> splitOn (CHR '':'') (colons ss @ t) = ss @ splitOn (CHR '':'') t"
  by (induction ss) auto

lemma endsWith_snoc: "endsWith (s @ [a, b]) ''::'' \<longleftrightarrow> a = CHR '':'' \<and> b = CHR '':''"
  by (simp add: endsWith_def)

lemma endsWith_section:
  assumes "CHR '':'' \<notin> set s" "s \<noteq> []"
  shows "\<not> endsWith (r @ s @ '':'') ''::''"
proof -
  from assms(2) obtain u a where s: "s = u @ [a]" by (cases s rule: rev_cases) auto
  then have "a \<noteq> CHR '':''" using assms(1) by auto
  then show ?thesis using endsWith_snoc [of "r @ u" a "CHR '':''"] by (simp add: s)
qed

lemma endsWith_double: "endsWith (r @ ''::'') ''::''"
  using endsWith_snoc [of r] by simp

lemma steps_nonempty:
  "\<forall>s\<in>set ss. s \<noteq> [] \<Longrightarrow> foldl sectionStep (r, c) ss = (r @ colons ss, c)"
  by (induction ss arbitrary: r) (simp_all add: sectionStep_def)

lemma steps_zeros: "endsWith r ''::'' \<Longrightarrow> foldl sectionStep (r, True) (replicate n []) = (r, True)"
  by (induction n) (simp_all add: sectionStep_def)

lemma steps_collapsed:
  "\<forall>s\<in>set ss. CHR '':'' \<notin> set s \<Longrightarrow> \<not> endsWith r ''::'' \<Longrightarrow>
     foldl sectionStep (r, True) ss = (r @ colons (map zeroed ss), True)"
proof (induction ss arbitrary: r)
  case (Cons s ss)
  have "sectionStep (r, True) s = (r @ zeroed s @ '':'', True)"
    using Cons.prems(2) by (simp add: sectionStep_def zeroed_def)
  moreover have "\<not> endsWith (r @ zeroed s @ '':'') ''::''"
    using Cons.prems(1) by (intro endsWith_section) (auto simp: zeroed_def)
  ultimately show ?case using Cons by simp
qed simp

lemma butlast_colons: "ss \<noteq> [] \<Longrightarrow> butlast (r @ colons ss) = r @ colons (butlast ss) @ last ss"
  by (cases ss rule: rev_cases) (simp_all add: butlast_append)

lemma not_endsWith_colons:
  assumes "\<forall>s\<in>set ss. CHR '':'' \<notin> set s \<and> s \<noteq> []" "ss \<noteq> []"
  shows "\<not> endsWith (r @ colons ss) ''::''"
  using assms endsWith_section [of "last ss" "r @ colons (butlast ss)"]
  by (cases ss rule: rev_cases) simp_all

text \<open>The text of a list of sections: without zeros, and with a first run of zeros.\<close>

lemma sectionsToString_plain:
  assumes "\<forall>s\<in>set A. CHR '':'' \<notin> set s \<and> s \<noteq> []" "A \<noteq> []"
  shows "sectionsToString A = colons (butlast A) @ last A"
  using assms not_endsWith_colons [OF assms, of "[]"] butlast_colons [OF assms(2), of "[]"]
  by (simp add: sectionsToString_def steps_nonempty)

lemma sectionsToString_collapsed:
  assumes "\<forall>s\<in>set A. CHR '':'' \<notin> set s \<and> s \<noteq> []" "\<forall>s\<in>set B. CHR '':'' \<notin> set s" "B = [] \<or> hd B \<noteq> []"
  shows "sectionsToString (A @ replicate (Suc n) [] @ B) =
    (let r = (if A = [] then ''::'' else colons A @ '':'')
     in if B = [] then r else r @ colons (butlast (map zeroed B)) @ last (map zeroed B))"
proof -
  let ?r = "if A = [] then ''::'' else colons A @ '':''"
  have r: "endsWith ?r ''::''"
    by (cases A rule: rev_cases) (auto simp: endsWith_def)
  have "sectionStep (colons A, False) [] = (?r, True)"
  proof (cases "A = []")
    case False
    then have "colons A \<noteq> []" by (cases A) auto
    then show ?thesis using False not_endsWith_colons [OF assms(1) False, of "[]"] by (simp add: sectionStep_def)
  qed (simp add: sectionStep_def endsWith_def)
  then have 1: "foldl sectionStep ([], False) (A @ replicate (Suc n) []) = (?r, True)"
    using assms(1) r by (simp add: steps_nonempty steps_zeros)
  show ?thesis
  proof (cases B)
    case Nil
    then show ?thesis using 1 r by (simp add: sectionsToString_def)
  next
    case (Cons b bs)
    then have b: "b \<noteq> []" "CHR '':'' \<notin> set b" using assms(2,3) by auto
    have "foldl sectionStep (?r, True) B = (?r @ colons (map zeroed B), True)"
      using assms(2) b steps_collapsed [of bs "?r @ b @ '':''"] endsWith_section [OF b(2,1), of ?r]
      by (simp add: Cons sectionStep_def zeroed_def)
    then have 2: "foldl sectionStep ([], False) (A @ replicate (Suc n) [] @ B) = (?r @ colons (map zeroed B), True)"
      using 1 by (simp add: foldl_append del: replicate.simps)
    have "\<not> endsWith (?r @ colons (map zeroed B)) ''::''"
      using assms(2) Cons by (intro not_endsWith_colons) (auto simp: zeroed_def)
    then show ?thesis using 2 butlast_colons [of "map zeroed B" ?r] Cons
      by (simp add: sectionsToString_def del: replicate.simps)
  qed
qed

text \<open>The bytes of a section.\<close>

definition sectionBytes :: "string \<Rightarrow> buffer" where
  "sectionBytes s = hexBuffer (expandZeros s)"

lemma discard_expand: "length s = 4 \<Longrightarrow> expandZeros (discardLeadingZeros s) = s"
proof -
  assume "length s = 4"
  let ?z = "takeWhile (\<lambda>c. c = CHR ''0'') s" and ?d = "discardLeadingZeros s"
  have s: "?z @ ?d = s" by (simp add: discardLeadingZeros_def)
  have "length ?z + length ?d = 4" using arg_cong [OF s, of length] \<open>length s = 4\<close> by simp
  then have k: "4 - length ?d = length ?z" by linarith
  have "?z = replicate (length ?z) (CHR ''0'')"
    by (rule replicate_length_same [symmetric]) (auto dest: set_takeWhileD)
  then have "expandZeros ?d = ?z @ ?d" unfolding expandZeros_def k by metis
  then show ?thesis by (simp only: s)
qed

lemma sections_facts:
  "length buf = 2 * n \<Longrightarrow> length (getHexSections buf) = n
     \<and> (\<forall>s\<in>set (getHexSections buf). CHR '':'' \<notin> set s) \<and> concat (map sectionBytes (getHexSections buf)) = buf"
proof (induction buf arbitrary: n rule: getHexSections.induct)
  case (1 a b bs)
  then obtain m where n: "n = Suc m" "length bs = 2 * m" by (cases n) auto
  have "CHR '':'' \<noteq> hexChar d" if "d < 16" for d
  proof
    assume "CHR '':'' = hexChar d"
    then have "hexVal (CHR '':'') = Some d" using hexVal_hexChar [OF that] by metis
    then show False by (simp add: hexVal_def)
  qed
  then have "CHR '':'' \<notin> set (hexString [a, b])" by (auto simp: hexString_Cons nibble)
  then have "CHR '':'' \<notin> set (discardLeadingZeros (hexString [a, b]))"
    by (auto simp: discardLeadingZeros_def dest: set_dropWhileD)
  moreover have "sectionBytes (discardLeadingZeros (hexString [a, b])) = [a, b]"
    by (simp add: sectionBytes_def discard_expand)
  ultimately show ?case using "1.IH" [OF n(2)] n(1) by simp
qed auto

lemma sectionBytes_zero: "sectionBytes [] = [0, 0]" "sectionBytes (zeroed s) = sectionBytes s"
  by (simp_all add: sectionBytes_def expandZeros_def zeroed_def hexVal_def numeral_eq_Suc)

lemma ipv6_parts_plain:
  "writes (bw_good f) bw_out bw_room (ipv6_parts ps e False) (concat (map sectionBytes ps))"
  by (induction ps) (auto simp: sectionBytes_def intro!: writes_return writes_then writes_writeBytes)

lemma ipv6_parts_expand:
  "\<forall>s\<in>set A. s \<noteq> [] \<Longrightarrow> writes (bw_good f) bw_out bw_room (ipv6_parts (A @ [] # B) e True)
     (concat (map sectionBytes A) @ replicate (nat ((e + 1) * 2)) 0 @ concat (map sectionBytes B))"
proof (induction A)
  case Nil
  then show ?case using writes_then [OF writes_writeBytes ipv6_parts_plain] by simp
next
  case (Cons a A)
  then show ?case using writes_then [OF writes_writeBytes Cons.IH] by (simp add: sectionBytes_def)
qed

lemma first_run:
  obtains "\<forall>s\<in>set ss. s \<noteq> []"
  | A n B where "ss = A @ replicate (Suc n) [] @ B" "\<forall>s\<in>set A. s \<noteq> []" "B = [] \<or> hd B \<noteq> []"
proof -
  let ?A = "takeWhile (\<lambda>s. s \<noteq> []) ss" and ?R = "dropWhile (\<lambda>s. s \<noteq> []) ss"
  let ?Z = "takeWhile (\<lambda>s. s = []) ?R" and ?B = "dropWhile (\<lambda>s. s = []) ?R"
  have A: "\<forall>s\<in>set ?A. s \<noteq> []" by (auto dest: set_takeWhileD)
  have B: "?B = [] \<or> hd ?B \<noteq> []" using hd_dropWhile [of "\<lambda>s. s = []" ?R] by blast
  have Z: "?Z = replicate (length ?Z) []"
    by (rule replicate_length_same [symmetric]) (auto dest: set_takeWhileD)
  show ?thesis
  proof (cases ?R)
    case Nil
    then have "ss = ?A" by (metis append_Nil2 takeWhile_dropWhile_id)
    then show ?thesis using A that(1) by metis
  next
    case (Cons r rs)
    then have "r = []" using hd_dropWhile [of "\<lambda>s. s \<noteq> []" ss] by auto
    then have "length ?Z = Suc (length (takeWhile (\<lambda>s. s = []) rs))" using Cons by simp
    then have "ss = ?A @ replicate (Suc (length (takeWhile (\<lambda>s. s = []) rs))) [] @ ?B"
      using Z by (metis takeWhile_dropWhile_id)
    then show ?thesis using A B that(2) by blast
  qed
qed

lemma concat_zeros: "concat (map sectionBytes (replicate n [])) = replicate (2 * n) 0"
  by (induction n) (simp_all add: sectionBytes_zero)

lemma startsWith_section: "CHR '':'' \<notin> set s \<Longrightarrow> s \<noteq> [] \<Longrightarrow> \<not> startsWith (s @ t) ''::''"
  by (cases s) (auto simp: startsWith_def)

lemma endsWith_last:
  assumes "CHR '':'' \<notin> set s" "s \<noteq> []"
  shows "\<not> endsWith (r @ s) ''::''"
proof -
  from assms obtain u a where s: "s = u @ [a]" "a \<noteq> CHR '':''" by (cases s rule: rev_cases) auto
  then show ?thesis using endsWith_snoc [of "butlast (r @ u)" "last (r @ u)" a]
    by (cases "r @ u" rule: rev_cases) (auto simp: endsWith_def)
qed

definition ipv6_strip :: "string \<Rightarrow> string" where
  "ipv6_strip host = (if startsWith host ''::'' then drop 1 host
     else if endsWith host ''::'' then butlast host else host)"

lemma ipv6_parts_plain_text:
  assumes "\<forall>s\<in>set ss. CHR '':'' \<notin> set s \<and> s \<noteq> []" "ss \<noteq> []"
  shows "splitOn (CHR '':'') (ipv6_strip (sectionsToString ss)) = ss"
proof -
  have s: "sectionsToString ss = colons (butlast ss) @ last ss" using assms by (rule sectionsToString_plain)
  have "\<not> startsWith (colons (butlast ss) @ last ss) ''::''"
    using assms startsWith_section startsWith_section [where t = "[]"] by (cases ss) auto
  moreover have "\<not> endsWith (colons (butlast ss) @ last ss) ''::''"
    using assms by (intro endsWith_last) auto
  moreover have "\<forall>s\<in>set (butlast ss). CHR '':'' \<notin> set s" using assms(1) by (auto dest: in_set_butlastD)
  moreover have "CHR '':'' \<notin> set (last ss)" using assms by simp
  ultimately show ?thesis using assms(2) by (simp add: s ipv6_strip_def)
qed

lemma ipv6_parts_collapsed_text:
  assumes A: "\<forall>s\<in>set A. CHR '':'' \<notin> set s \<and> s \<noteq> []" and B: "\<forall>s\<in>set B. CHR '':'' \<notin> set s"
    and hd: "B = [] \<or> hd B \<noteq> []"
  shows "splitOn (CHR '':'') (ipv6_strip (sectionsToString (A @ replicate (Suc n) [] @ B)))
    = (if A = [] \<and> B = [] then [[], []] else A @ [] # map zeroed B)"
proof -
  note s = sectionsToString_collapsed [OF A B hd, of n]
  have A': "\<forall>s\<in>set A. CHR '':'' \<notin> set s" using A by blast
  have B': "\<forall>s\<in>set (map zeroed B). CHR '':'' \<notin> set s \<and> s \<noteq> []" using B by (auto simp: zeroed_def)
  then have B'': "splitOn (CHR '':'') (colons (butlast (map zeroed B)) @ last (map zeroed B)) = map zeroed B" if "B \<noteq> []"
  proof -
    have "\<forall>s\<in>set (butlast (map zeroed B)). CHR '':'' \<notin> set s" "CHR '':'' \<notin> set (last (map zeroed B))"
      using B' that bspec [OF B' in_set_butlastD] bspec [OF B' last_in_set] by auto
    then show ?thesis using that by (simp del: set_map)
  qed
  have start: "\<not> startsWith (colons A @ t) ''::''" if "A \<noteq> []" for t
    using A that startsWith_section [of "hd A" "CHR '':'' # colons (tl A) @ t"] by (cases A) auto
  consider "A = []" "B = []" | "A = []" "B \<noteq> []" | "A \<noteq> []" "B = []" | "A \<noteq> []" "B \<noteq> []" by blast
  then show ?thesis
  proof cases
    case 1
    then show ?thesis using s by (simp add: ipv6_strip_def startsWith_def)
  next
    case 2
    then show ?thesis using s B'' by (simp add: ipv6_strip_def startsWith_def)
  next
    case 3
    have "endsWith (colons A @ '':'') ''::''" using 3(1) by (cases A rule: rev_cases) (auto simp: endsWith_def)
    moreover have "butlast (colons A @ '':'') = colons A" by simp
    ultimately show ?thesis using 3 s start [of "'':''"] splitOn_colons [OF A', of "[]"] by (simp add: ipv6_strip_def)
  next
    case 4
    let ?t = "CHR '':'' # colons (butlast (map zeroed B)) @ last (map zeroed B)"
    have "\<not> endsWith ((colons A @ CHR '':'' # colons (butlast (map zeroed B))) @ last (map zeroed B)) ''::''"
      using bspec [OF B' last_in_set] 4(2) by (intro endsWith_last) auto
    then have "ipv6_strip (colons A @ ?t) = colons A @ ?t" using start [OF 4(1), of ?t] by (simp add: ipv6_strip_def)
    moreover have "splitOn (CHR '':'') ?t = [] # map zeroed B" using B'' [OF 4(2)] by simp
    ultimately show ?thesis using 4 s splitOn_colons [OF A', of ?t] by simp
  qed
qed

lemma ipv6_roundtrip:
  assumes "length buf = 16"
  shows "ipv6StringToBuffer (ipv6StringFromBuffer buf) = Inr buf"
proof -
  let ?ss = "getHexSections buf"
  have len: "length ?ss = 8" and colon: "\<forall>s\<in>set ?ss. CHR '':'' \<notin> set s"
    and bytes: "concat (map sectionBytes ?ss) = buf"
    using sections_facts [of buf 8] assms by auto
  let ?parts = "splitOn (CHR '':'') (ipv6_strip (sectionsToString ?ss))"
  let ?e = "8 - int (length ?parts)"
  have "writes (bw_good True) bw_out bw_room (ipv6_parts ?parts ?e (?e > 0)) buf"
  proof (cases rule: first_run [of ?ss])
    case 1
    then have "?parts = ?ss" using colon len by (intro ipv6_parts_plain_text) auto
    then show ?thesis using ipv6_parts_plain [of True ?ss 0] bytes len by simp
  next
    case (2 A n B)
    have p: "?parts = (if A = [] \<and> B = [] then [[], []] else A @ [] # map zeroed B)"
      unfolding 2(1) by (rule ipv6_parts_collapsed_text) (use 2 colon in auto)
    have l: "length A + Suc n + length B = 8" using len 2(1) by simp
    have b: "buf = concat (map sectionBytes A) @ replicate (2 * Suc n) 0 @ concat (map sectionBytes B)"
      using bytes concat_zeros [of "Suc n"] unfolding 2(1) by (simp del: replicate.simps)
    have z: "map sectionBytes (map zeroed B) = map sectionBytes B" by (simp add: sectionBytes_zero)
    consider "A = []" "B = []" | "A \<noteq> [] \<or> B \<noteq> []" "n = 0" | "A \<noteq> [] \<or> B \<noteq> []" "n \<noteq> 0" by blast
    then show ?thesis
    proof cases
      case 1
      then show ?thesis using ipv6_parts_expand [of "[]" True "[[]]" 6] p l b
        by (simp add: sectionBytes_zero numeral_eq_Suc)
    next
      case 2
      then have "?parts = A @ [] # map zeroed B" "?e = 0" using p l by auto
      then show ?thesis using ipv6_parts_plain [of True "A @ [] # map zeroed B" 0] b 2
        by (simp add: sectionBytes_zero numeral_2_eq_2 comp_def)
    next
      case 3
      then have "?parts = A @ [] # map zeroed B" "?e = int n" using p l by auto
      moreover have "nat ((int n + 1) * 2) = 2 * Suc n" by simp
      ultimately show ?thesis
        using ipv6_parts_expand [OF 2(2), of True "map zeroed B" "int n"] b 3 by (simp add: comp_def sectionBytes_zero(2))
    qed
  qed
  then have "runWriter (Some (replicate 16 0)) (ipv6_parts ?parts ?e (?e > 0)) = Inr buf"
    using assms by (intro runWriter_fixed) simp_all
  then show ?thesis by (simp add: ipv6StringToBuffer_def ipv6StringFromBuffer_def ipv6_strip_def Let_def)
qed

section \<open>Round trip of addresses\<close>

definition address_bytes :: "Address \<Rightarrow> buffer \<Rightarrow> buffer" where
  "address_bytes a host = le_bytes 1 (addr_type a) @ host @ be_bytes 2 (addr_port a)"

text \<open>The host name is the one the code prints for some host bytes, and the port fits in two bytes.\<close>

definition address_of :: "Address \<Rightarrow> buffer \<Rightarrow> bool" where
  "address_of a host \<longleftrightarrow> addr_port a < 2 ^ 16 \<and>
     (case a of AddressIPv4 h _ \<Rightarrow> length host = 4 \<and> h = ipv4StringFromBuffer host
      | AddressIPv6 h _ \<Rightarrow> length host = 16 \<and> h = ipv6StringFromBuffer host
      | AddressTor2 h _ \<Rightarrow> length host = 10 \<and> h = torStringFromBuffer host
      | AddressTor3 h _ \<Rightarrow> length host = 35 \<and> h = torStringFromBuffer host)"

lemma writeAddress_eq:
  assumes "addr_port a < 2 ^ 16" "length host + 3 = n"
  shows "writeAddress n a host = Inr (address_bytes a host)"
  unfolding writeAddress_def address_bytes_def
  using assms by (intro runWriter_fixed writes_then bw_writes) (cases a; simp)+

lemma serializeAddress_eq: "address_of a host \<Longrightarrow> serializeAddress a = Inr (address_bytes a host)"
  by (cases a) (auto simp: address_of_def serializeAddress_def serializeIPv4_def serializeIPv6_def
      serializeTor2_def serializeTor3_def ipv4_roundtrip ipv6_roundtrip tor_roundtrip writeAddress_eq)

lemma reads_host:
  assumes "length host = n" "p < 2 ^ 16"
  shows "reads br_good br_content (bind_io (br_readBytes (Some n)) (\<lambda>h. bind_io br_readUInt16BE (\<lambda>p. return_io (g h p))))
    (host @ be_bytes 2 p) (g host p)"
proof (rule reads_bind [OF reads_bytes])
  show "reads br_good br_content (bind_io br_readUInt16BE (\<lambda>p. return_io (g host p))) (be_bytes 2 p) (g host p)"
    using assms(2) by (intro reads_bind_last [OF br.u16be]) (simp_all add: io_simps)
qed (rule assms(1))

lemmas reads_hosts =
  reads_host [where n = 4 and g = "\<lambda>h. AddressIPv4 (ipv4StringFromBuffer h)", folded deserializeIPv4_def]
  reads_host [where n = 16 and g = "\<lambda>h. AddressIPv6 (ipv6StringFromBuffer h)", folded deserializeIPv6_def]
  reads_host [where n = 10 and g = "\<lambda>h. AddressTor2 (torStringFromBuffer h)", folded deserializeTor2_def]
  reads_host [where n = 35 and g = "\<lambda>h. AddressTor3 (torStringFromBuffer h)", folded deserializeTor3_def]

lemma reads_some:
  "reads good content m bs a \<Longrightarrow> reads good content (bind_io m (\<lambda>a. return_io (Some a))) bs (Some a)"
  by (rule reads_bind_last) (simp_all add: io_simps)

lemma reads_address:
  assumes "address_of a host"
  shows "reads br_good br_content (bind_io br_readUInt8 deserializeAddress) (address_bytes a host) (Some a)"
  unfolding address_bytes_def
proof (rule reads_bind)
  show "reads br_good br_content br_readUInt8 (le_bytes 1 (addr_type a)) (addr_type a)"
    by (rule br.u8) (cases a; simp)
  show "reads br_good br_content (deserializeAddress (addr_type a)) (host @ be_bytes 2 (addr_port a)) (Some a)"
    using assms unfolding address_of_def
    by (cases a) (auto simp: deserializeAddress_def Let_def intro!: reads_some reads_hosts)
qed

text \<open>
  The text of a host, whatever its bytes, is turned back into these bytes: dotted decimals for IPv4,
  the shortened text of RFC 5952 for IPv6, and Base32 with the suffix \<^verbatim>\<open>.onion\<close> for Tor. An address
  that was read from a message is therefore written as the bytes it was read from.
\<close>

theorem address_text_roundtrip:
  assumes "length h4 = 4" "length h16 = 16" "port < 2 ^ 16"
  shows "ipv4StringToBuffer (ipv4StringFromBuffer h4) = h4
    \<and> ipv6StringToBuffer (ipv6StringFromBuffer h16) = Inr h16
    \<and> torStringToBuffer (torStringFromBuffer h) = h
    \<and> serializeAddress (AddressIPv4 (ipv4StringFromBuffer h4) port) = Inr (1 # h4 @ be_bytes 2 port)
    \<and> serializeAddress (AddressIPv6 (ipv6StringFromBuffer h16) port) = Inr (2 # h16 @ be_bytes 2 port)"
  using assms serializeAddress_eq [of "AddressIPv4 (ipv4StringFromBuffer h4) port" h4]
    serializeAddress_eq [of "AddressIPv6 (ipv6StringFromBuffer h16) port" h16]
  by (simp add: ipv4_roundtrip ipv6_roundtrip tor_roundtrip address_of_def address_bytes_def)

theorem address_text_roundtrip_witness:
  "ipv4StringToBuffer (ipv4StringFromBuffer [127, 0, 0, 1]) = [127, 0, 0, 1]
    \<and> ipv6StringToBuffer (ipv6StringFromBuffer (replicate 15 0 @ [1])) = Inr (replicate 15 0 @ [1])
    \<and> torStringToBuffer (torStringFromBuffer [1, 2, 3]) = [1, 2, 3]
    \<and> serializeAddress (AddressIPv4 (ipv4StringFromBuffer [127, 0, 0, 1]) 9735)
      = Inr (1 # [127, 0, 0, 1] @ be_bytes 2 9735)
    \<and> serializeAddress (AddressIPv6 (ipv6StringFromBuffer (replicate 15 0 @ [1])) 9735)
      = Inr (2 # (replicate 15 0 @ [1]) @ be_bytes 2 9735)"
  using address_text_roundtrip [of "[127, 0, 0, 1]" "replicate 15 0 @ [1]" 9735 "[1, 2, 3]"] by simp

end
