(* ===== verification/Messages.thy ===== *)
theory Messages
  imports GossipQueries Addresses StreamReader
begin

text \<open>
  The remaining messages of \<^verbatim>\<open>packages/lightning/lib/messages\<close> (\<^verbatim>\<open>InitMessage\<close>,
  \<^verbatim>\<open>NodeAnnouncementMessage\<close> and \<^verbatim>\<open>ExtendedChannelAnnouncementMessage\<close>) and the
  dispatch over all of them in \<^verbatim>\<open>MessageFactory.ts\<close>.
\<close>

section \<open>Init\<close>

record init_message =
  im_features :: bit_field
  im_chainHashes :: "buffer list"

text \<open>For any other type the handler returns \<^verbatim>\<open>undefined\<close>, which is falsy.\<close>

definition im_tlv :: "init_message tlv_handler" where
  "im_tlv = (\<lambda>type m.
     if type = 1 then bind_io (readAll (br_readBytes (Some 32)))
       (\<lambda>hs. return_io (True, m\<lparr>im_chainHashes := im_chainHashes m @ hs\<rparr>))
     else return_io (False, m))"

definition im_read :: "(buffer_reader, init_message) io" where
  "im_read =
     bind_io br_readUInt16BE (\<lambda>_.
     bind_io readFeatures (\<lambda>gf.
     bind_io readFeatures (\<lambda>lf.
       \<lambda>r. readTlvs im_tlv r None
         \<lparr>im_features = bf_or (bf_or (BitField 0) gf) lf, im_chainHashes = []\<rparr>)))"

definition im_deserialize :: "buffer \<Rightarrow> init_message res" where
  "im_deserialize = parseWith im_read"

definition writeChainHashes :: "buffer list \<Rightarrow> (buffer_writer, unit) io" where
  "writeChainHashes hs =
     (if length hs \<noteq> 0
      then then_io (bw_writeBigSize 1) (then_io (bw_writeBigSize (length hs * 32)) (bw_writeBytes (concat hs)))
      else return_io ())"

definition im_serialize :: "init_message \<Rightarrow> buffer res" where
  "im_serialize m = runWriter None
     (then_io (bw_writeUInt16BE (typeCode Init))
     (then_io (bw_writeUInt16BE 0)
     (then_io (writeCounted16 (bf_toBuffer (im_features m)))
       (writeChainHashes (im_chainHashes m)))))"

definition im_wf :: "init_message \<Rightarrow> bool" where
  "im_wf m \<longleftrightarrow> length (bf_toBuffer (im_features m)) < 2 ^ 16
     \<and> (\<forall>h\<in>set (im_chainHashes m). length h = 32) \<and> length (im_chainHashes m) < 2 ^ 16"

definition im_recs :: "init_message \<Rightarrow> (nat \<times> buffer) list" where
  "im_recs m = (if im_chainHashes m = [] then [] else [(1, concat (im_chainHashes m))])"

definition im_bytes :: "init_message \<Rightarrow> buffer" where
  "im_bytes m = be_bytes 2 (typeCode Init) @ counted16 [] @ counted16 (bf_toBuffer (im_features m))
     @ tlv_bytes (im_recs m)"

lemma length_concat_hashes: "\<forall>h\<in>set hs. length h = 32 \<Longrightarrow> length (concat hs) = length hs * 32"
  by (induction hs) simp_all

lemma im_roundtrip:
  assumes "im_wf m"
  shows "im_serialize m = Inr (im_bytes m)" "im_deserialize (im_bytes m) = Inr m"
proof -
  note wf = assms [unfolded im_wf_def, simplified]
  have c: "concat (map id hs) = concat hs" for hs :: "buffer list" by simp
  have len: "length (concat (im_chainHashes m)) = length (im_chainHashes m) * 32"
    using wf by (simp add: length_concat_hashes)
  have zero: "writes (bw_good f) bw_out bw_room (bw_writeUInt16BE 0) (counted16 [])" for f
    using bw.w16be [of 0 f] by (simp add: counted16_def)
  have hashes: "writes (bw_good f) bw_out bw_room (writeChainHashes (im_chainHashes m)) (tlv_bytes (im_recs m))" for f
    using writes_tlv [of 1 "concat (im_chainHashes m)" f] wf len
    by (auto simp: writeChainHashes_def im_recs_def tlv_bytes_def writes_return writeTlv_def mult.commute)
  have "writes (bw_good f) bw_out bw_room
     (then_io (bw_writeUInt16BE (typeCode Init))
     (then_io (bw_writeUInt16BE 0)
     (then_io (writeCounted16 (bf_toBuffer (im_features m)))
       (writeChainHashes (im_chainHashes m))))) (im_bytes m)" for f
    unfolding im_bytes_def
    by ((rule writes_then | rule zero hashes | rule message_writes | (simp add: wf; fail))+)
  moreover have "length (im_bytes m) \<le> 2 ^ 30"
    using wf len by (auto simp: im_bytes_def im_recs_def tlv_bytes_def length_bigsize_bytes)
  ultimately show "im_serialize m = Inr (im_bytes m)" unfolding im_serialize_def by (rule runWriter_growing)
  have empty: "reads br_good br_content readFeatures (counted16 []) (BitField 0)"
    using message_field_reads(1) [of "BitField 0"] by (simp add: bf_toBuffer_def)
  let ?m = "\<lparr>im_features = bf_or (bf_or (BitField 0) (BitField 0)) (im_features m), im_chainHashes = []\<rparr>"
  have or: "bf_or (bf_or (BitField 0) (BitField 0)) f = f" for f by (cases f) (simp add: bf_or_def)
  obtain r' where r': "readAll (br_readBytes (Some 32)) (newBufferReader (concat (im_chainHashes m)))
      = (Inr (im_chainHashes m), r')" "br_eof r'"
    using readAll_new [of "im_chainHashes m" "br_readBytes (Some 32)" id] wf
    by (fastforce simp: c intro: reads_bytes)
  have "tlv_fold im_tlv (im_recs m) ?m = Some m"
    using r' by (cases m) (auto simp: im_recs_def im_tlv_def io_simps or)
  moreover have "tlv_canonical None (im_recs m)" using wf len by (auto simp: im_recs_def)
  ultimately have rest: "parses (\<lambda>r. readTlvs im_tlv r None ?m) (tlv_bytes (im_recs m)) m" by (intro parses_tlvs)
  show "im_deserialize (im_bytes m) = Inr m"
    unfolding im_deserialize_def im_read_def im_bytes_def
    by (rule parses_parseWith)
      ((rule parses_bind | rule rest | rule empty | rule message_reads | (simp add: wf; fail))+)
qed

section \<open>Announcements of nodes\<close>

record node_announcement =
  na_signature :: buffer
  na_features :: bit_field
  na_timestamp :: nat
  na_nodeId :: buffer
  na_rgbColor :: buffer
  na_alias :: buffer
  na_addresses :: "Address option list"

text \<open>
  The loop reads addresses while the position is below a limit, which is at most \<open>n\<close> bytes away;
  every round takes at least the byte of the type.
\<close>

primrec readAddresses :: "nat \<Rightarrow> nat \<Rightarrow> (buffer_reader, Address option list) io" where
  "readAddresses 0 limit = (\<lambda>r. if br_position r < limit then (Inl (JsError ''fuel''), r) else (Inr [], r))"
| "readAddresses (Suc n) limit = (\<lambda>r.
     if br_position r < limit
     then bind_io (bind_io br_readUInt8 deserializeAddress) (\<lambda>a.
          bind_io (readAddresses n limit) (\<lambda>as. return_io (a # as))) r
     else (Inr [], r))"

definition na_read :: "(buffer_reader, node_announcement) io" where
  "na_read =
     bind_io br_readUInt16BE (\<lambda>_.
     bind_io (br_readBytes (Some 64)) (\<lambda>signature.
     bind_io readFeatures (\<lambda>features.
     bind_io br_readUInt32BE (\<lambda>timestamp.
     bind_io (br_readBytes (Some 33)) (\<lambda>nodeId.
     bind_io (br_readBytes (Some 3)) (\<lambda>rgbColor.
     bind_io (br_readBytes (Some 32)) (\<lambda>alias.
     bind_io br_readUInt16BE (\<lambda>addrlen.
     bind_io (\<lambda>r. readAddresses addrlen (br_position r + addrlen) r) (\<lambda>addresses.
       return_io \<lparr>na_signature = signature, na_features = features, na_timestamp = timestamp,
         na_nodeId = nodeId, na_rgbColor = rgbColor, na_alias = alias, na_addresses = addresses\<rparr>)))))))))"

definition na_deserialize :: "buffer \<Rightarrow> node_announcement res" where
  "na_deserialize = parseWith na_read"

definition na_serialize :: "node_announcement \<Rightarrow> buffer res" where
  "na_serialize m =
     bind_res (map_res (\<lambda>a. case a of None \<Rightarrow> Inl TypeError | Some a \<Rightarrow> serializeAddress a) (na_addresses m)) (\<lambda>addressBuffers.
     let featuresBuffer = bf_toBuffer (na_features m);
         addressBytes = sum_list (map length addressBuffers)
     in runWriter (Some (replicate (2 + 64 + 2 + length featuresBuffer + 4 + 33 + 3 + 32 + 2 + addressBytes) 0))
       (then_io (bw_writeUInt16BE (typeCode NodeAnnouncement))
       (then_io (bw_writeBytes (na_signature m))
       (then_io (writeCounted16 featuresBuffer)
       (then_io (bw_writeUInt32BE (na_timestamp m))
       (then_io (bw_writeBytes (na_nodeId m))
       (then_io (bw_writeBytes (na_rgbColor m))
       (then_io (bw_writeBytes (na_alias m))
       (then_io (bw_writeUInt16BE addressBytes)
         (each_io bw_writeBytes addressBuffers))))))))))"

definition na_hash :: "(buffer \<Rightarrow> buffer) \<Rightarrow> node_announcement \<Rightarrow> buffer res" where
  "na_hash sha256 m = bind_res (na_serialize m) (\<lambda>bytes. Inr (hash256 sha256 (drop 66 bytes)))"

definition na_verifySignatures ::
  "(buffer \<Rightarrow> buffer) \<Rightarrow> (buffer \<Rightarrow> buffer \<Rightarrow> buffer \<Rightarrow> bool) \<Rightarrow> node_announcement \<Rightarrow> bool res" where
  "na_verifySignatures sha256 verifySig m =
     bind_res (na_hash sha256 m) (\<lambda>hash. Inr (verifySig hash (na_signature m) (na_nodeId m)))"

text \<open>The host bytes of an address, and when they give the address back.\<close>

definition address_host :: "Address \<Rightarrow> buffer" where
  "address_host a = (case a of AddressIPv4 h _ \<Rightarrow> ipv4StringToBuffer h
     | AddressIPv6 h _ \<Rightarrow> (case ipv6StringToBuffer h of Inl _ \<Rightarrow> [] | Inr b \<Rightarrow> b)
     | AddressTor2 h _ \<Rightarrow> torStringToBuffer h | AddressTor3 h _ \<Rightarrow> torStringToBuffer h)"

definition address_ok :: "Address option \<Rightarrow> bool" where
  "address_ok a \<longleftrightarrow> (case a of None \<Rightarrow> False | Some a \<Rightarrow> address_of a (address_host a))"

definition option_bytes :: "Address option \<Rightarrow> buffer" where
  "option_bytes a = (case a of None \<Rightarrow> [] | Some a \<Rightarrow> address_bytes a (address_host a))"

definition na_addressBytes :: "node_announcement \<Rightarrow> buffer" where
  "na_addressBytes m = concat (map option_bytes (na_addresses m))"

definition na_wf :: "node_announcement \<Rightarrow> bool" where
  "na_wf m \<longleftrightarrow> length (na_signature m) = 64 \<and> length (bf_toBuffer (na_features m)) < 2 ^ 16
     \<and> na_timestamp m < 2 ^ 32 \<and> length (na_nodeId m) = 33 \<and> length (na_rgbColor m) = 3
     \<and> length (na_alias m) = 32 \<and> (\<forall>a\<in>set (na_addresses m). address_ok a)
     \<and> length (na_addressBytes m) < 2 ^ 16"

definition na_bytes :: "node_announcement \<Rightarrow> buffer" where
  "na_bytes m = be_bytes 2 (typeCode NodeAnnouncement) @ na_signature m
     @ counted16 (bf_toBuffer (na_features m)) @ be_bytes 4 (na_timestamp m) @ na_nodeId m
     @ na_rgbColor m @ na_alias m @ be_bytes 2 (length (na_addressBytes m)) @ na_addressBytes m"

lemma address_buffers:
  "\<forall>a\<in>set as. address_ok a \<Longrightarrow>
     map_res (\<lambda>a. case a of None \<Rightarrow> Inl TypeError | Some a \<Rightarrow> serializeAddress a) as = Inr (map option_bytes as)"
  by (induction as) (auto simp: address_ok_def option_bytes_def serializeAddress_eq split: option.splits)

lemma na_serialize_eq:
  assumes "na_wf m"
  shows "na_serialize m = Inr (na_bytes m)"
proof -
  note wf = assms [unfolded na_wf_def, simplified]
  have sum: "sum_list (map length (map option_bytes (na_addresses m))) = length (na_addressBytes m)"
    by (simp add: na_addressBytes_def length_concat comp_def)
  have each: "writes (bw_good f) bw_out bw_room (each_io bw_writeBytes (map option_bytes (na_addresses m))) (na_addressBytes m)" for f
    using writes_each [of "map option_bytes (na_addresses m)" "bw_good f" bw_out bw_room bw_writeBytes id]
    by (simp add: na_addressBytes_def writes_writeBytes)
  have "writes (bw_good f) bw_out bw_room
       (then_io (bw_writeUInt16BE (typeCode NodeAnnouncement))
       (then_io (bw_writeBytes (na_signature m))
       (then_io (writeCounted16 (bf_toBuffer (na_features m)))
       (then_io (bw_writeUInt32BE (na_timestamp m))
       (then_io (bw_writeBytes (na_nodeId m))
       (then_io (bw_writeBytes (na_rgbColor m))
       (then_io (bw_writeBytes (na_alias m))
       (then_io (bw_writeUInt16BE (length (na_addressBytes m)))
         (each_io bw_writeBytes (map option_bytes (na_addresses m))))))))))) (na_bytes m)" for f
    unfolding na_bytes_def
    by ((rule writes_then | rule each | rule message_writes | (simp add: wf; fail))+)
  moreover have "length (na_bytes m) = 2 + 64 + 2 + length (bf_toBuffer (na_features m)) + 4 + 33 + 3 + 32 + 2
      + length (na_addressBytes m)"
    using wf by (simp add: na_bytes_def)
  ultimately show ?thesis
    using wf sum by (simp add: na_serialize_def address_buffers Let_def runWriter_fixed)
qed

text \<open>Reading never changes the buffer, so that positions can be told from what is left.\<close>

definition keeps :: "(buffer_reader, 'a) io \<Rightarrow> bool" where
  "keeps m \<longleftrightarrow> (\<forall>r. br_buffer (snd (m r)) = br_buffer r)"

lemma keeps_simps [intro]:
  "keeps (return_io x)" "keeps (lift_io e)" "keeps (br_readStandard dec n)" "keeps (br_readBytes k)"
  by (auto simp: keeps_def io_simps br_readStandard_def br_readBytes_def Let_def split: option.splits)

lemma keeps_bind [intro]: "keeps m \<Longrightarrow> (\<And>x. keeps (f x)) \<Longrightarrow> keeps (bind_io m f)"
  unfolding keeps_def
proof (intro allI)
  fix r assume m: "\<forall>r. br_buffer (snd (m r)) = br_buffer r" and f: "\<And>x. \<forall>r. br_buffer (snd (f x r)) = br_buffer r"
  obtain e r1 where "m r = (e, r1)" by (cases "m r")
  then show "br_buffer (snd (bind_io m f r)) = br_buffer r"
    using spec [OF m, of r] f by (cases e) (simp_all add: bind_io_apply)
qed

lemma keeps_address: "keeps (bind_io br_readUInt8 deserializeAddress)"
  unfolding deserializeAddress_def Let_def deserializeIPv4_def deserializeIPv6_def deserializeTor2_def
    deserializeTor3_def br_readUInt8_def br_readUInt16BE_def
  by (intro keeps_bind; auto)

lemma readAddresses_ok:
  assumes "\<forall>a\<in>set as. address_ok a" "br_good r" "br_content r = concat (map option_bytes as) @ rest"
    "length as \<le> n" "limit = br_position r + length (concat (map option_bytes as))"
  shows "\<exists>r'. readAddresses n limit r = (Inr as, r') \<and> br_good r' \<and> br_content r' = rest"
  using assms
proof (induction as arbitrary: n r)
  case Nil
  then show ?case by (cases n) auto
next
  case (Cons a as)
  obtain k where n: "n = Suc k" "length as \<le> k" using Cons.prems(4) by (cases n) auto
  obtain x where x: "a = Some x" "address_of x (address_host x)"
    using Cons.prems(1) by (auto simp: address_ok_def split: option.splits)
  have bytes: "option_bytes a = address_bytes x (address_host x)" by (simp add: option_bytes_def x)
  let ?rest = "concat (map option_bytes as) @ rest"
  have "br_content r = option_bytes a @ ?rest" using Cons.prems(3) by simp
  from readsE [OF reads_address [OF x(2)] Cons.prems(2) this [unfolded bytes]] obtain r1
    where r1: "bind_io br_readUInt8 deserializeAddress r = (Inr a, r1)" "br_good r1" "br_content r1 = ?rest"
    unfolding x(1) .
  have buf: "br_buffer r1 = br_buffer r" using keeps_address r1(1) unfolding keeps_def by (metis snd_conv)
  have pos: "br_position r1 = br_position r + length (option_bytes a)"
    using br_content_length [OF Cons.prems(2)] br_content_length [OF r1(2)] buf r1(3) Cons.prems(3) by simp
  have "0 < length (option_bytes a)" by (simp add: bytes address_bytes_def)
  then have less: "br_position r < limit" using Cons.prems(5) by simp
  have "limit = br_position r1 + length (concat (map option_bytes as))" using Cons.prems(5) pos by simp
  from Cons.IH [OF _ r1(2,3) n(2) this] Cons.prems(1) obtain r2
    where "readAddresses k limit r1 = (Inr as, r2)" "br_good r2" "br_content r2 = rest" by auto
  then show ?case using less r1(1) by (auto simp: n(1) bind_io_apply return_io_apply)
qed

lemma na_deserialize_eq:
  assumes "na_wf m"
  shows "na_deserialize (na_bytes m) = Inr m"
proof -
  note wf = assms [unfolded na_wf_def, simplified]
  let ?n = "length (na_addressBytes m)"
  have "option_bytes a \<noteq> []" if "a \<in> set (na_addresses m)" for a
    using wf that by (auto simp: address_ok_def option_bytes_def address_bytes_def split: option.splits)
  then have "length (na_addresses m) \<le> ?n"
    unfolding na_addressBytes_def by (rule length_concat_ge)
  then have addresses: "reads br_good br_content (\<lambda>r. readAddresses ?n (br_position r + ?n) r)
      (na_addressBytes m) (na_addresses m)"
    using wf readAddresses_ok [of "na_addresses m"]
    by (intro readsI) (simp add: na_addressBytes_def)
  show ?thesis
    unfolding na_deserialize_def na_read_def na_bytes_def
    by (rule parses_parseWith)
      ((rule parses_bind | rule parses_bind_last | rule message_parses | rule addresses | rule message_reads
        | (simp add: wf; fail))+)
qed

section \<open>Extended announcements of channels\<close>

text \<open>The subclass: the announcement with what the chain says about its funding output.\<close>

record extended_announcement =
  xa_message :: channel_announcement
  xa_outpoint :: "outpoint option"
  xa_capacity :: "nat option"

definition xa_fromMessage :: "channel_announcement \<Rightarrow> extended_announcement" where
  "xa_fromMessage m = \<lparr>xa_message = m, xa_outpoint = None, xa_capacity = None\<rparr>"

definition xa_tlv :: "extended_announcement tlv_handler" where
  "xa_tlv = (\<lambda>type m.
     if type = 16777271 then
       bind_io (br_readBytes (Some 32)) (\<lambda>b.
       bind_io (lift_io (hv_fromRpc (hexString b))) (\<lambda>txid.
       bind_io br_readTUInt16 (\<lambda>i.
         return_io (True, m\<lparr>xa_outpoint := Some \<lparr>op_txid = txid, op_outputIndex = i\<rparr>\<rparr>))))
     else if type = 16777273 then
       bind_io br_readTUInt64 (\<lambda>c. return_io (True, m\<lparr>xa_capacity := Some c\<rparr>))
     else return_io (False, m))"

definition xa_read :: "(buffer_reader, extended_announcement) io" where
  "xa_read = bind_io ca_read (\<lambda>m r. readTlvs xa_tlv r None (xa_fromMessage m))"

definition xa_deserialize :: "buffer \<Rightarrow> extended_announcement res" where
  "xa_deserialize = parseWith xa_read"

definition xa_outpointValue :: "outpoint option \<Rightarrow> buffer res" where
  "xa_outpointValue p = (case p of None \<Rightarrow> Inl TypeError
     | Some p \<Rightarrow> runWriter None (then_io (bw_writeBytes (hv_serialize RPC (op_txid p)))
         (bw_writeTUInt16 (op_outputIndex p))))"

definition xa_capacityValue :: "nat option \<Rightarrow> buffer res" where
  "xa_capacityValue c = (case c of None \<Rightarrow> Inl TypeError | Some c \<Rightarrow> runWriter None (bw_writeTUInt64 c))"

definition xa_serialize :: "extended_announcement \<Rightarrow> buffer res" where
  "xa_serialize m =
     bind_res (ca_serialize (xa_message m)) (\<lambda>chanAnnBuffer.
     bind_res (xa_outpointValue (xa_outpoint m)) (\<lambda>v1.
     bind_res (xa_capacityValue (xa_capacity m)) (\<lambda>v2.
     bind_res (runWriter None (then_io (writeTlv 16777271 v1) (writeTlv 16777273 v2))) (\<lambda>b.
       Inr (chanAnnBuffer @ b)))))"

definition xa_wf :: "extended_announcement \<Rightarrow> bool" where
  "xa_wf m \<longleftrightarrow> ca_wf (xa_message m)
     \<and> (case xa_outpoint m of None \<Rightarrow> False | Some p \<Rightarrow> hv_wf (op_txid p) \<and> op_outputIndex p < 2 ^ 16)
     \<and> (case xa_capacity m of None \<Rightarrow> False | Some c \<Rightarrow> c < 2 ^ 64)"

definition xa_recs :: "extended_announcement \<Rightarrow> (nat \<times> buffer) list" where
  "xa_recs m = [(16777271, rev (hv_value (op_txid (the (xa_outpoint m)))) @ tu_bytes (op_outputIndex (the (xa_outpoint m)))),
     (16777273, tu_bytes (the (xa_capacity m)))]"

definition xa_bytes :: "extended_announcement \<Rightarrow> buffer" where
  "xa_bytes m = ca_bytes (xa_message m) @ tlv_bytes (xa_recs m)"

lemma readTUInt_end:
  assumes "br_good r" "br_content r = tu_bytes v" "v < 256 ^ w" "w \<le> 8"
  shows "\<exists>r'. br_readTUInt w r = (Inr v, r') \<and> br_eof r'"
proof -
  have len: "length (br_content r) \<le> w" using assms(2,3) by (simp add: length_tu_bytes calcBytes_le)
  have "fst (br_readTUInt w r) = Inr v" using br_readTUInt_eq [OF assms(1) len assms(4)] assms(2) by simp
  moreover have "length (br_content r) = length (br_buffer r) - br_position r" by (simp add: br_content_def)
  then have "min w (length (br_buffer r) - br_position r) = length (br_buffer r) - br_position r" using len by simp
  ultimately show ?thesis using assms(1)
    by (cases "length (br_buffer r) = br_position r")
      (auto simp: br_readTUInt_def Let_def br_good_def br_eof_def split: sum.splits)
qed

lemma reads_channel_announcement:
  assumes "ca_wf m"
  shows "reads br_good br_content ca_read (ca_bytes m) m"
proof -
  note wf = assms [unfolded ca_wf_def, simplified]
  have last: "reads br_good br_content (bind_io f g) bs w"
    if "reads br_good br_content f bs v" "reads br_good br_content (g v) [] w" for f :: "(buffer_reader, 'a) io" and g bs v w
    using reads_bind [where f = g, OF that] by simp
  have ret: "v = w \<Longrightarrow> reads br_good br_content (return_io v) [] w" for v w :: channel_announcement
    by (simp add: reads_return)
  show ?thesis
    unfolding ca_read_def ca_bytes_def
    by ((rule reads_bind | rule last | rule ret | rule message_reads | (simp add: wf; fail)
        | (cases m; simp; fail))+)
qed

lemma xa_roundtrip:
  assumes "xa_wf m"
  shows "xa_serialize m = Inr (xa_bytes m)" "xa_deserialize (xa_bytes m) = Inr m"
proof -
  obtain p c where pc: "xa_outpoint m = Some p" "xa_capacity m = Some c" and wf: "ca_wf (xa_message m)"
    "hv_wf (op_txid p)" "op_outputIndex p < 2 ^ 16" "c < 2 ^ 64"
    using assms by (auto simp: xa_wf_def split: option.splits)
  let ?v1 = "rev (hv_value (op_txid p)) @ tu_bytes (op_outputIndex p)" and ?v2 = "tu_bytes c"
  have len: "length ?v1 \<le> 34" "length ?v2 \<le> 8"
    using wf calcBytes_le [of "op_outputIndex p" 2] calcBytes_le [of c 8] by (simp_all add: hv_wf_def length_tu_bytes)
  have ser: "hv_serialize RPC (op_txid p) = rev (hv_value (op_txid p))" by (simp add: hv_serialize_def)
  have v1: "runWriter None (then_io (bw_writeBytes (rev (hv_value (op_txid p)))) (bw_writeTUInt16 (op_outputIndex p))) = Inr ?v1"
    using len wf(3) by (intro runWriter_growing writes_then writes_writeBytes writes_writeTUInt16) simp_all
  have v2: "runWriter None (bw_writeTUInt64 c) = Inr ?v2"
    using len by (intro runWriter_growing writes_writeTUInt64) simp
  have "runWriter None (then_io (writeTlv 16777271 ?v1) (writeTlv 16777273 ?v2)) = Inr (tlv_bytes (xa_recs m))"
  proof (rule runWriter_growing)
    show "writes (bw_good False) bw_out bw_room (then_io (writeTlv 16777271 ?v1) (writeTlv 16777273 ?v2)) (tlv_bytes (xa_recs m))"
      using len unfolding xa_recs_def pc option.sel tlv_bytes_Cons [of _ "[_]"] by (intro writes_then writes_tlv) simp_all
    show "length (tlv_bytes (xa_recs m)) \<le> 2 ^ 30"
      using len by (simp add: xa_recs_def pc tlv_bytes_def length_bigsize_bytes)
  qed
  then show "xa_serialize m = Inr (xa_bytes m)"
    by (simp add: xa_serialize_def ca_roundtrip [OF wf(1)] xa_outpointValue_def xa_capacityValue_def pc v1 v2 xa_bytes_def ser)
  let ?m0 = "xa_fromMessage (xa_message m)"
  have txid: "hv_fromRpc (hexString (rev (hv_value (op_txid p)))) = Inr (op_txid p)"
    using hv_fromRpc_toString [OF wf(2)] by (simp add: hv_toString_def)
  obtain r1 where r1: "br_readBytes (Some 32) (newBufferReader ?v1) = (Inr (rev (hv_value (op_txid p))), r1)"
    "br_good r1" "br_content r1 = tu_bytes (op_outputIndex p)"
    using reads_bytes [of "rev (hv_value (op_txid p))" 32] wf(2)
    by (auto simp: hv_wf_def elim!: readsE [of _ _ _ _ _ "newBufferReader ?v1" "tu_bytes (op_outputIndex p)"])
  obtain r2 where r2: "br_readTUInt16 r1 = (Inr (op_outputIndex p), r2)" "br_eof r2"
    using readTUInt_end [OF r1(2,3), of 2] wf(3) by (auto simp: br_readTUInt16_def)
  obtain r3 where r3: "br_readTUInt64 (newBufferReader ?v2) = (Inr c, r3)" "br_eof r3"
    using readTUInt_end [of "newBufferReader ?v2" c 8] wf(4) by (auto simp: br_readTUInt64_TUInt)
  have "tlv_fold xa_tlv (xa_recs m) ?m0 = Some m"
    using pc r1(1) r2 r3 txid by (cases m) (simp add: xa_recs_def xa_tlv_def io_simps xa_fromMessage_def)
  moreover have "tlv_canonical None (xa_recs m)" using len by (simp add: xa_recs_def pc)
  ultimately have rest: "parses (\<lambda>r. readTlvs xa_tlv r None ?m0) (tlv_bytes (xa_recs m)) m" by (intro parses_tlvs)
  show "xa_deserialize (xa_bytes m) = Inr m"
    unfolding xa_deserialize_def xa_read_def xa_bytes_def
    by (rule parses_parseWith, rule parses_bind [OF reads_channel_announcement [OF wf(1)]]) (rule rest)
qed

section \<open>The message factory\<close>

datatype wire_message =
    MInit init_message | MError error_message | MPing ping | MPong pong
  | MOpenChannel open_channel | MAcceptChannel accept_channel | MFundingCreated funding_created
  | MFundingSigned funding_signed | MChannelReady channel_ready
  | MAnnouncementSignatures announcement_signatures | MShutdown shutdown | MClosingSigned closing_signed
  | MNodeAnnouncement node_announcement | MChannelAnnouncement channel_announcement
  | MChannelUpdate channel_update | MQueryShortChannelIds query_scids
  | MReplyShortChannelIdsEnd reply_scids_end | MQueryChannelRange query_channel_range
  | MReplyChannelRange reply_channel_range | MGossipTimestampFilter gossip_timestamp_filter

primrec wm_type :: "wire_message \<Rightarrow> MessageType" where
  "wm_type (MInit m) = Init"
| "wm_type (MError m) = Error"
| "wm_type (MPing m) = Ping"
| "wm_type (MPong m) = Pong"
| "wm_type (MOpenChannel m) = OpenChannel"
| "wm_type (MAcceptChannel m) = AcceptChannel"
| "wm_type (MFundingCreated m) = FundingCreated"
| "wm_type (MFundingSigned m) = FundingSigned"
| "wm_type (MChannelReady m) = FundingLocked"
| "wm_type (MAnnouncementSignatures m) = AnnouncementSignatures"
| "wm_type (MShutdown m) = Shutdown"
| "wm_type (MClosingSigned m) = ClosingSigned"
| "wm_type (MNodeAnnouncement m) = NodeAnnouncement"
| "wm_type (MChannelAnnouncement m) = ChannelAnnouncement"
| "wm_type (MChannelUpdate m) = ChannelUpdate"
| "wm_type (MQueryShortChannelIds m) = QueryShortChannelIds"
| "wm_type (MReplyShortChannelIdsEnd m) = ReplyShortChannelIdsEnd"
| "wm_type (MQueryChannelRange m) = QueryChannelRange"
| "wm_type (MReplyChannelRange m) = ReplyChannelRange"
| "wm_type (MGossipTimestampFilter m) = GossipTimestampFilter"

text \<open>The serializer of each class; the two with an encoding take it as an argument.\<close>

primrec wm_serialize :: "(buffer \<Rightarrow> buffer) \<Rightarrow> EncodingType \<Rightarrow> wire_message \<Rightarrow> buffer res" where
  "wm_serialize deflate e (MInit m) = im_serialize m"
| "wm_serialize deflate e (MError m) = em_serialize m"
| "wm_serialize deflate e (MPing m) = pg_serialize m"
| "wm_serialize deflate e (MPong m) = po_serialize m"
| "wm_serialize deflate e (MOpenChannel m) = oc_serialize m"
| "wm_serialize deflate e (MAcceptChannel m) = ac_serialize m"
| "wm_serialize deflate e (MFundingCreated m) = fc_serialize m"
| "wm_serialize deflate e (MFundingSigned m) = fs_serialize m"
| "wm_serialize deflate e (MChannelReady m) = cr_serialize m"
| "wm_serialize deflate e (MAnnouncementSignatures m) = as_serialize m"
| "wm_serialize deflate e (MShutdown m) = sd_serialize m"
| "wm_serialize deflate e (MClosingSigned m) = cl_serialize m"
| "wm_serialize deflate e (MNodeAnnouncement m) = na_serialize m"
| "wm_serialize deflate e (MChannelAnnouncement m) = ca_serialize m"
| "wm_serialize deflate e (MChannelUpdate m) = cu_serialize m"
| "wm_serialize deflate e (MQueryShortChannelIds m) = qs_serialize deflate m e"
| "wm_serialize deflate e (MReplyShortChannelIdsEnd m) = re_serialize m"
| "wm_serialize deflate e (MQueryChannelRange m) = qr_serialize m"
| "wm_serialize deflate e (MReplyChannelRange m) = rr_serialize deflate m e"
| "wm_serialize deflate e (MGossipTimestampFilter m) = gt_serialize m"

text \<open>For an unknown type the result is \<^verbatim>\<open>undefined\<close>, here \<open>None\<close>.\<close>

definition factory_deserialize :: "(buffer \<Rightarrow> buffer res) \<Rightarrow> buffer \<Rightarrow> wire_message option res" where
  "factory_deserialize inflate buf =
     (if length buf < 2 then Inl RangeError
      else let type = be_val (take 2 buf)
           in if type = typeCode Init then bind_res (im_deserialize buf) (\<lambda>m. Inr (Some (MInit m)))
              else if type = typeCode Error then bind_res (em_deserialize buf) (\<lambda>m. Inr (Some (MError m)))
              else if type = typeCode Ping then bind_res (pg_deserialize buf) (\<lambda>m. Inr (Some (MPing m)))
              else if type = typeCode Pong then bind_res (po_deserialize buf) (\<lambda>m. Inr (Some (MPong m)))
              else if type = typeCode OpenChannel then bind_res (oc_deserialize buf) (\<lambda>m. Inr (Some (MOpenChannel m)))
              else if type = typeCode AcceptChannel then bind_res (ac_deserialize buf) (\<lambda>m. Inr (Some (MAcceptChannel m)))
              else if type = typeCode FundingCreated then bind_res (fc_deserialize buf) (\<lambda>m. Inr (Some (MFundingCreated m)))
              else if type = typeCode FundingSigned then bind_res (fs_deserialize buf) (\<lambda>m. Inr (Some (MFundingSigned m)))
              else if type = typeCode FundingLocked then bind_res (cr_deserialize buf) (\<lambda>m. Inr (Some (MChannelReady m)))
              else if type = typeCode AnnouncementSignatures
                then bind_res (as_deserialize buf) (\<lambda>m. Inr (Some (MAnnouncementSignatures m)))
              else if type = typeCode Shutdown then bind_res (sd_deserialize buf) (\<lambda>m. Inr (Some (MShutdown m)))
              else if type = typeCode ClosingSigned then bind_res (cl_deserialize buf) (\<lambda>m. Inr (Some (MClosingSigned m)))
              else if type = typeCode NodeAnnouncement then bind_res (na_deserialize buf) (\<lambda>m. Inr (Some (MNodeAnnouncement m)))
              else if type = typeCode ChannelAnnouncement
                then bind_res (ca_deserialize buf) (\<lambda>m. Inr (Some (MChannelAnnouncement m)))
              else if type = typeCode ChannelUpdate then bind_res (cu_deserialize buf) (\<lambda>m. Inr (Some (MChannelUpdate m)))
              else if type = typeCode QueryShortChannelIds
                then bind_res (qs_deserialize inflate buf) (\<lambda>m. Inr (Some (MQueryShortChannelIds m)))
              else if type = typeCode ReplyShortChannelIdsEnd
                then bind_res (re_deserialize buf) (\<lambda>m. Inr (Some (MReplyShortChannelIdsEnd m)))
              else if type = typeCode QueryChannelRange
                then bind_res (qr_deserialize buf) (\<lambda>m. Inr (Some (MQueryChannelRange m)))
              else if type = typeCode ReplyChannelRange
                then bind_res (rr_deserialize inflate buf) (\<lambda>m. Inr (Some (MReplyChannelRange m)))
              else if type = typeCode GossipTimestampFilter
                then bind_res (gt_deserialize buf) (\<lambda>m. Inr (Some (MGossipTimestampFilter m)))
              else Inr None)"

text \<open>The messages whose fields the wire format can carry.\<close>

primrec wm_wf :: "(buffer \<Rightarrow> buffer) \<Rightarrow> EncodingType \<Rightarrow> wire_message \<Rightarrow> bool" where
  "wm_wf deflate e (MInit m) = im_wf m"
| "wm_wf deflate e (MError m) = em_wf m"
| "wm_wf deflate e (MPing m) = pg_wf m"
| "wm_wf deflate e (MPong m) = po_wf m"
| "wm_wf deflate e (MOpenChannel m) = oc_wf m"
| "wm_wf deflate e (MAcceptChannel m) = ac_wf m"
| "wm_wf deflate e (MFundingCreated m) = fc_wf m"
| "wm_wf deflate e (MFundingSigned m) = fs_wf m"
| "wm_wf deflate e (MChannelReady m) = cr_wf m"
| "wm_wf deflate e (MAnnouncementSignatures m) = as_wf m"
| "wm_wf deflate e (MShutdown m) = sd_wf m"
| "wm_wf deflate e (MClosingSigned m) = cl_wf m"
| "wm_wf deflate e (MNodeAnnouncement m) = na_wf m"
| "wm_wf deflate e (MChannelAnnouncement m) = ca_wf m"
| "wm_wf deflate e (MChannelUpdate m) = cu_wf m"
| "wm_wf deflate e (MQueryShortChannelIds m) = (qs_wf deflate e m \<and> (\<forall>f\<in>set (qs_flags m). bf_value f \<noteq> 0))"
| "wm_wf deflate e (MReplyShortChannelIdsEnd m) = re_wf m"
| "wm_wf deflate e (MQueryChannelRange m) = qr_wf m"
| "wm_wf deflate e (MReplyChannelRange m) = rr_wf deflate e m"
| "wm_wf deflate e (MGossipTimestampFilter m) = gt_wf m"

primrec wm_bytes :: "(buffer \<Rightarrow> buffer) \<Rightarrow> EncodingType \<Rightarrow> wire_message \<Rightarrow> buffer" where
  "wm_bytes deflate e (MInit m) = im_bytes m"
| "wm_bytes deflate e (MError m) = em_bytes m"
| "wm_bytes deflate e (MPing m) = pg_bytes m"
| "wm_bytes deflate e (MPong m) = po_bytes m"
| "wm_bytes deflate e (MOpenChannel m) = oc_bytes m"
| "wm_bytes deflate e (MAcceptChannel m) = ac_bytes m"
| "wm_bytes deflate e (MFundingCreated m) = fc_bytes m"
| "wm_bytes deflate e (MFundingSigned m) = fs_bytes m"
| "wm_bytes deflate e (MChannelReady m) = cr_bytes m"
| "wm_bytes deflate e (MAnnouncementSignatures m) = as_bytes m"
| "wm_bytes deflate e (MShutdown m) = sd_bytes m"
| "wm_bytes deflate e (MClosingSigned m) = cl_bytes m"
| "wm_bytes deflate e (MNodeAnnouncement m) = na_bytes m"
| "wm_bytes deflate e (MChannelAnnouncement m) = ca_bytes m"
| "wm_bytes deflate e (MChannelUpdate m) = cu_bytes m"
| "wm_bytes deflate e (MQueryShortChannelIds m) = qs_bytes deflate e m"
| "wm_bytes deflate e (MReplyShortChannelIdsEnd m) = re_bytes m"
| "wm_bytes deflate e (MQueryChannelRange m) = qr_bytes m"
| "wm_bytes deflate e (MReplyChannelRange m) = rr_bytes deflate e m"
| "wm_bytes deflate e (MGossipTimestampFilter m) = gt_bytes m"

lemmas message_bytes_defs = im_bytes_def em_bytes_def pg_bytes_def po_bytes_def oc_bytes_def ac_bytes_def
  fc_bytes_def fs_bytes_def cr_bytes_def as_bytes_def sd_bytes_def cl_bytes_def na_bytes_def ca_bytes_def
  cu_bytes_def qs_bytes_def re_bytes_def qr_bytes_def rr_bytes_def gt_bytes_def

lemma wm_bytes_type: "\<exists>rest. wm_bytes deflate e m = be_bytes 2 (typeCode (wm_type m)) @ rest"
  by (cases m) (auto simp: message_bytes_defs)

lemmas message_roundtrips = im_roundtrip em_roundtrip pg_roundtrip po_roundtrip oc_roundtrip ac_roundtrip
  fc_roundtrip fs_roundtrip cr_roundtrip as_roundtrip sd_roundtrip cl_roundtrip ca_roundtrip cu_roundtrip
  re_roundtrip qr_roundtrip gt_roundtrip

lemma wm_serialize_eq:
  assumes "wm_wf deflate e m"
  shows "wm_serialize deflate e m = Inr (wm_bytes deflate e m)"
  using assms by (cases m) (simp_all add: message_roundtrips na_serialize_eq rr_serialize_eq qs_serialize_eq)

lemma wm_bytes_head:
  "\<not> length (wm_bytes deflate e m) < 2" "be_val (take 2 (wm_bytes deflate e m)) = typeCode (wm_type m)"
  using wm_bytes_type [of deflate e m] by auto

lemma factory_deserialize_eq:
  assumes "wm_wf deflate e m" "\<And>d. inflate (deflate d) = Inr d"
  shows "factory_deserialize inflate (wm_bytes deflate e m) = Inr (Some m)"
  using assms(1) wm_bytes_head [of deflate e m]
    qs_deserialize_eq [where deflate = deflate and e = e and inflate = inflate, OF _ assms(2)]
    rr_deserialize_eq [where deflate = deflate and e = e and inflate = inflate, OF _ assms(2)]
  by (cases m) (simp_all add: factory_deserialize_def message_roundtrips na_deserialize_eq filter_True)

text \<open>
  C25: Every message class survives the wire: a message whose fields fit their wire formats is serialised
  without an error, the bytes start with the message's type, and \<^verbatim>\<open>MessageFactory.deserialize\<close> picks the
  class of that type and gives the same message back. Compression is a parameter that inflates what it
  deflates.
\<close>

theorem wire_roundtrip:
  assumes "wm_wf deflate e m" "\<And>d. inflate (deflate d) = Inr d"
  shows "\<exists>bytes. wm_serialize deflate e m = Inr bytes \<and> be_val (take 2 bytes) = typeCode (wm_type m)
    \<and> factory_deserialize inflate bytes = Inr (Some m)"
  using wm_serialize_eq [OF assms(1)] wm_bytes_head(2) factory_deserialize_eq [OF assms] by blast

definition rr_example :: reply_channel_range where
  "rr_example = \<lparr>rr_chainHash = replicate 32 7, rr_firstBlocknum = 600000, rr_numberOfBlocks = 100,
     rr_fullInformation = True, rr_shortChannelIds = [\<lparr>sc_block = 600001, sc_txIdx = 2, sc_voutIdx = 1\<rparr>],
     rr_timestamps = [], rr_checksums = []\<rparr>"

lemma rr_example_wf: "wm_wf ((#) 0) ZlibDeflate (MReplyChannelRange rr_example)"
  by (simp add: rr_example_def rr_wf_def scid_wf_def pairs_wf_def enc_encode_def rr_ids_def scid_bytes_def
      pairs_bytes_def)

theorem wire_roundtrip_witness:
  "\<exists>bytes. wm_serialize ((#) 0) ZlibDeflate (MReplyChannelRange rr_example) = Inr bytes
    \<and> be_val (take 2 bytes) = 264
    \<and> factory_deserialize (\<lambda>d. Inr (tl d)) bytes = Inr (Some (MReplyChannelRange rr_example))"
  using wire_roundtrip [OF rr_example_wf, of "\<lambda>d. Inr (tl d)"] by simp

end
