(* ===== verification/ChannelTx.thy ===== *)
theory ChannelTx
  imports LnScripts TxBuilder
begin

text \<open>
  The transactions of a channel, from \<^verbatim>\<open>packages/lightning/lib/channels\<close>:
  \<^verbatim>\<open>CommitmentNumber.ts\<close> and \<^verbatim>\<open>TxFactory.ts\<close>, with \<^verbatim>\<open>domain/Htlc.ts\<close>.  The
  hash functions and the check of a public key are parameters.
\<close>

section \<open>Commitment numbers\<close>

datatype commitment_number = CommitmentNumber (cn_value: nat)

definition MAX_COMMITMENT_NUMBER :: nat where
  "MAX_COMMITMENT_NUMBER = 281474976710655"

definition cn_secretIndex :: "commitment_number \<Rightarrow> int" where
  "cn_secretIndex c = int MAX_COMMITMENT_NUMBER - int (cn_value c)"

definition cn_next :: "commitment_number \<Rightarrow> commitment_number" where
  "cn_next c = CommitmentNumber (cn_value c + 1)"

definition cn_getHash :: "(buffer \<Rightarrow> buffer) \<Rightarrow> buffer \<Rightarrow> buffer \<Rightarrow> nat res" where
  "cn_getHash sha256 openBasePoint acceptBasePoint =
     (let hash = sha256 (openBasePoint @ acceptBasePoint)
      in bigFromBufBE (drop (length hash - 6) hash))"

definition cn_obscure :: "(buffer \<Rightarrow> buffer) \<Rightarrow> nat \<Rightarrow> buffer \<Rightarrow> buffer \<Rightarrow> nat res" where
  "cn_obscure sha256 commitment openBasePoint acceptBasePoint =
     bind_res (cn_getHash sha256 openBasePoint acceptBasePoint) (\<lambda>h. Inr (h XOR commitment))"

definition cn_getSequence :: "nat \<Rightarrow> sequence res" where
  "cn_getSequence obscured = newSequence (int (push_bit 24 0x80 OR drop_bit 24 obscured))"

definition cn_getLockTime :: "nat \<Rightarrow> locktime res" where
  "cn_getLockTime obscured = newLockTime (int (push_bit 24 0x20 OR (obscured AND 0xffffff)))"

definition cn_reveal ::
  "(buffer \<Rightarrow> buffer) \<Rightarrow> locktime \<Rightarrow> sequence \<Rightarrow> buffer \<Rightarrow> buffer \<Rightarrow> nat res" where
  "cn_reveal sha256 locktime sequence openBasePoint acceptBasePoint =
     bind_res (cn_getHash sha256 openBasePoint acceptBasePoint) (\<lambda>hash.
       let upper = push_bit 24 (seq_value sequence AND 0xffffff);
           lower = lt_value locktime AND 0xffffff
       in Inr (hash XOR (upper OR lower)))"

section \<open>HTLCs\<close>

datatype HtlcDirection = Offered | Accepted

record htlc =
  htlc_id :: nat
  htlc_direction :: HtlcDirection
  htlc_value :: btc_value
  htlc_cltvExpiry :: nat
  htlc_paymentHash :: buffer
  htlc_paymentPreimage :: "buffer option"

section \<open>Transactions\<close>

definition newTxOut :: "btc_value \<Rightarrow> script \<Rightarrow> tx_out res" where
  "newTxOut v s = bind_res (toScriptBuf s) (\<lambda>b. Inr \<lparr>to_value = v, to_scriptPubKey = b\<rparr>)"

definition createFundingOutput ::
  "(buffer \<Rightarrow> bool) \<Rightarrow> (buffer \<Rightarrow> buffer) \<Rightarrow> btc_value \<Rightarrow> buffer \<Rightarrow> buffer \<Rightarrow> tx_out res" where
  "createFundingOutput validPublicKey sha256 val openPubKey acceptPubKey =
     bind_res (factory_fundingScript validPublicKey openPubKey acceptPubKey) (\<lambda>s.
     bind_res (p2wshLock sha256 (Inl s)) (newTxOut val))"

text \<open>The parameters of \<^verbatim>\<open>TxFactory.createCommitment\<close>.\<close>

record commitment_args =
  isFunderLocal :: bool
  commitmentNumber :: nat
  openPaymentBasePoint :: buffer
  acceptPaymentBasePoint :: buffer
  fundingOutPoint :: outpoint
  dustLimitSatoshi :: btc_value
  feePerKw :: int
  localDelay :: int
  localValue :: btc_value
  remoteValue :: btc_value
  revocationPubKey :: buffer
  delayedPubKey :: buffer
  remotePubKey :: buffer
  reverseHtlcs :: bool
  localHtlcPubKey :: buffer
  remoteHtlcPubKey :: buffer
  htlcs :: "htlc list"

definition htlcFeeWeight :: "bool \<Rightarrow> HtlcDirection \<Rightarrow> int" where
  "htlcFeeWeight reverse direction =
     (if reverse then (if direction = Offered then 703 else 663)
      else (if direction = Offered then 663 else 703))"

definition htlcUnpruned :: "commitment_args \<Rightarrow> htlc \<Rightarrow> bool" where
  "htlcUnpruned a h =
     (let valueInSats = sats (htlc_value h);
          feeWeight = htlcFeeWeight (reverseHtlcs a) (htlc_direction h);
          feeInSats = bigDiv (feeWeight * feePerKw a) 1000;
          satsLessFee = valueInSats - feeInSats
      in satsLessFee \<ge> sats (dustLimitSatoshi a))"

definition unprunedHtlcs :: "commitment_args \<Rightarrow> htlc list" where
  "unprunedHtlcs a = filter (htlcUnpruned a) (htlcs a)"

definition baseFee :: "commitment_args \<Rightarrow> int" where
  "baseFee a =
     (let weight = 724 + int (length (unprunedHtlcs a)) * 172
      in bigDiv (weight * feePerKw a) 1000)"

definition lessFee :: "btc_value \<Rightarrow> int \<Rightarrow> btc_value" where
  "lessFee v fee =
     (let newValue = sats v - fee in if newValue > 0 then fromSats newValue else value_zero)"

definition paidLocal :: "commitment_args \<Rightarrow> btc_value" where
  "paidLocal a = (if isFunderLocal a then lessFee (localValue a) (baseFee a) else localValue a)"

definition paidRemote :: "commitment_args \<Rightarrow> btc_value" where
  "paidRemote a = (if isFunderLocal a then remoteValue a else lessFee (remoteValue a) (baseFee a))"

definition htlcWitnessScript ::
  "(buffer \<Rightarrow> buffer) \<Rightarrow> (buffer \<Rightarrow> buffer) \<Rightarrow> commitment_args \<Rightarrow> htlc \<Rightarrow> script" where
  "htlcWitnessScript sha256 ripemd160 a h =
     (if \<not> reverseHtlcs a \<and> htlc_direction h = Offered \<or> reverseHtlcs a \<and> htlc_direction h = Accepted
      then offeredHtlcScript sha256 ripemd160 (htlc_paymentHash h) (revocationPubKey a)
             (localHtlcPubKey a) (remoteHtlcPubKey a)
      else receivedHtlcScript sha256 ripemd160 (htlc_paymentHash h) (int (htlc_cltvExpiry h))
             (revocationPubKey a) (localHtlcPubKey a) (remoteHtlcPubKey a))"

definition htlcTxOut ::
  "(buffer \<Rightarrow> buffer) \<Rightarrow> (buffer \<Rightarrow> buffer) \<Rightarrow> commitment_args \<Rightarrow> htlc \<Rightarrow> (tx_out \<times> htlc option) res" where
  "htlcTxOut sha256 ripemd160 a h =
     bind_res (p2wshLock sha256 (Inl (htlcWitnessScript sha256 ripemd160 a h))) (\<lambda>s.
     bind_res (newTxOut (htlc_value h) s) (\<lambda>txout. Inr (txout, Some h)))"

definition localTxOut ::
  "(buffer \<Rightarrow> buffer) \<Rightarrow> commitment_args \<Rightarrow> (tx_out \<times> htlc option) list res" where
  "localTxOut sha256 a =
     (if sats (paidLocal a) \<ge> sats (dustLimitSatoshi a)
      then bind_res (p2wshLock sha256
             (Inl (toLocalScript (revocationPubKey a) (delayedPubKey a) (localDelay a)))) (\<lambda>s.
           bind_res (newTxOut (paidLocal a) s) (\<lambda>txout. Inr [(txout, None)]))
      else Inr [])"

definition remoteTxOut ::
  "(buffer \<Rightarrow> bool) \<Rightarrow> (buffer \<Rightarrow> buffer) \<Rightarrow> (buffer \<Rightarrow> buffer) \<Rightarrow> commitment_args
     \<Rightarrow> (tx_out \<times> htlc option) list res" where
  "remoteTxOut validPublicKey sha256 ripemd160 a =
     (if sats (paidRemote a) \<ge> sats (dustLimitSatoshi a)
      then bind_res (p2wpkhLock validPublicKey sha256 ripemd160 (remotePubKey a)) (\<lambda>s.
           bind_res (newTxOut (paidRemote a) s) (\<lambda>txout. Inr [(txout, None)]))
      else Inr [])"

text \<open>
  The comparison of two outputs reads the HTLC of both when value and script are equal, and throws
  if one of them has none.  Whatever sorting algorithm runs, two outputs that compare equal up to
  there and end up next to each other have been compared, so that the sort throws exactly if some
  such pair exists; otherwise its result is the stable one.
\<close>

definition commitmentTie :: "tx_out \<times> htlc option \<Rightarrow> tx_out \<times> htlc option \<Rightarrow> bool" where
  "commitmentTie a b \<longleftrightarrow> sats (to_value (fst a)) = sats (to_value (fst b))
     \<and> sb_buffer (to_scriptPubKey (fst a)) = sb_buffer (to_scriptPubKey (fst b))"

definition commitmentCompare :: "tx_out \<times> htlc option \<Rightarrow> tx_out \<times> htlc option \<Rightarrow> int" where
  "commitmentCompare a b =
     (let val = sats (to_value (fst a)) - sats (to_value (fst b))
      in if val \<noteq> 0 then val
         else let scriptCompare = bufCompare (sb_buffer (to_scriptPubKey (fst a)))
                                             (sb_buffer (to_scriptPubKey (fst b)))
              in if scriptCompare \<noteq> 0 then scriptCompare
                 else int (htlc_cltvExpiry (the (snd a))) - int (htlc_cltvExpiry (the (snd b))))"

definition compareThrows :: "(tx_out \<times> htlc option) list \<Rightarrow> bool" where
  "compareThrows txouts \<longleftrightarrow>
     (\<exists>i<length txouts. \<exists>j<length txouts. i \<noteq> j \<and> commitmentTie (txouts ! i) (txouts ! j)
        \<and> snd (txouts ! i) = None)"

definition sortCommitmentOutputs :: "(tx_out \<times> htlc option) list \<Rightarrow> (tx_out \<times> htlc option) list res" where
  "sortCommitmentOutputs txouts =
     (if compareThrows txouts then Inl TypeError else Inr (sortBy commitmentCompare txouts))"

definition commitmentTxOuts ::
  "(buffer \<Rightarrow> bool) \<Rightarrow> (buffer \<Rightarrow> buffer) \<Rightarrow> (buffer \<Rightarrow> buffer) \<Rightarrow> commitment_args
     \<Rightarrow> (tx_out \<times> htlc option) list res" where
  "commitmentTxOuts validPublicKey sha256 ripemd160 a =
     bind_res (map_res (htlcTxOut sha256 ripemd160 a) (unprunedHtlcs a)) (\<lambda>hs.
     bind_res (localTxOut sha256 a) (\<lambda>l.
     bind_res (remoteTxOut validPublicKey sha256 ripemd160 a) (\<lambda>r.
       sortCommitmentOutputs (hs @ l @ r))))"

definition runBuilder :: "(tx_builder, 'a) io \<Rightarrow> (tx_builder \<times> 'a) res" where
  "runBuilder m = (case m newTxBuilder of (Inl e, _) \<Rightarrow> Inl e | (Inr x, b) \<Rightarrow> Inr (b, x))"

definition createCommitment ::
  "(buffer \<Rightarrow> bool) \<Rightarrow> (buffer \<Rightarrow> buffer) \<Rightarrow> (buffer \<Rightarrow> buffer) \<Rightarrow> commitment_args
     \<Rightarrow> (tx_builder \<times> htlc list) res" where
  "createCommitment validPublicKey sha256 ripemd160 a =
     bind_res (cn_obscure sha256 (commitmentNumber a) (openPaymentBasePoint a)
       (acceptPaymentBasePoint a)) (\<lambda>obscured.
     runBuilder
       (then_io (update_io (\<lambda>b. b\<lparr>tb_version := 2\<rparr>))
       (bind_io (lift_io (cn_getSequence obscured)) (\<lambda>sequence.
        then_io (tb_addInput (InOutPoint (fundingOutPoint a) (Some sequence)))
       (then_io (bind_io (lift_io (cn_getLockTime obscured)) (\<lambda>l. update_io (\<lambda>b. b\<lparr>tb_locktime := l\<rparr>)))
       (bind_io (lift_io (commitmentTxOuts validPublicKey sha256 ripemd160 a)) (\<lambda>txouts.
        then_io (each_io (\<lambda>(txout, htlc). tb_addTxOut txout) txouts)
          (return_io (List.map_filter snd txouts)))))))))"

definition htlcTxOutput ::
  "(buffer \<Rightarrow> buffer) \<Rightarrow> int \<Rightarrow> int \<Rightarrow> buffer \<Rightarrow> buffer \<Rightarrow> int \<Rightarrow> htlc \<Rightarrow> (tx_builder, unit) io" where
  "htlcTxOutput sha256 weight delay revocation delayed feeRate h =
     (let fees = bigDiv (weight * feeRate) 1000;
          sats = (if fees > sats (htlc_value h) then 0 else sats (htlc_value h) - fees)
      in bind_io (lift_io (p2wshLock sha256 (Inl (toLocalScript revocation delayed delay)))) (\<lambda>s.
           tb_addOutput (fromSats sats) (Inl s)))"

definition createHtlcTimeout ::
  "(buffer \<Rightarrow> buffer) \<Rightarrow> hash_value \<Rightarrow> nat \<Rightarrow> int \<Rightarrow> buffer \<Rightarrow> buffer \<Rightarrow> int \<Rightarrow> htlc \<Rightarrow> tx_builder res" where
  "createHtlcTimeout sha256 commitmentTx outputIndex delay revocation delayed feeRate h =
     bind_res (runBuilder
       (then_io (tb_addInput (InOutPoint \<lparr>op_txid = commitmentTx, op_outputIndex = outputIndex\<rparr> (Some seq_zero)))
       (then_io (htlcTxOutput sha256 663 delay revocation delayed feeRate h)
       (bind_io (lift_io (newLockTime (int (htlc_cltvExpiry h)))) (\<lambda>l. update_io (\<lambda>b. b\<lparr>tb_locktime := l\<rparr>))))))
       (\<lambda>(b, _). Inr b)"

definition createHtlcSuccess ::
  "(buffer \<Rightarrow> buffer) \<Rightarrow> hash_value \<Rightarrow> nat \<Rightarrow> int \<Rightarrow> buffer \<Rightarrow> buffer \<Rightarrow> int \<Rightarrow> htlc \<Rightarrow> tx_builder res" where
  "createHtlcSuccess sha256 commitmentTx outputIndex delay revocation delayed feeRate h =
     bind_res (runBuilder
       (then_io (tb_addInput (InOutPoint \<lparr>op_txid = commitmentTx, op_outputIndex = outputIndex\<rparr> (Some seq_zero)))
       (then_io (htlcTxOutput sha256 703 delay revocation delayed feeRate h)
          (update_io (\<lambda>b. b\<lparr>tb_locktime := lt_zero\<rparr>)))))
       (\<lambda>(b, _). Inr b)"

end
