(* ===== verification/Channel.thy ===== *)
theory Channel
  imports Messages ChannelTx Commitment Base58 Block
begin

text \<open>
  The state of a channel, from \<^verbatim>\<open>packages/lightning/lib/channels\<close>: \<^verbatim>\<open>ChannelKeys.ts\<close>,
  \<^verbatim>\<open>ChannelSide.ts\<close> and \<^verbatim>\<open>Channel.ts\<close>, with the key classes of
  \<^verbatim>\<open>packages/bitcoin/lib\<close> and the keys of \<^verbatim>\<open>CommitmentSecret.ts\<close>.  The elliptic
  curve is a C library: its functions, and the hash functions of the platform, are parameters.
  A property that has not been assigned yet is \<open>None\<close>, and using it is a \<^verbatim>\<open>TypeError\<close>.
\<close>

section \<open>Cryptography\<close>

record crypto_ops =
  cry_sha256 :: "buffer \<Rightarrow> buffer"
  cry_ripemd160 :: "buffer \<Rightarrow> buffer"
  cry_validPublicKey :: "buffer \<Rightarrow> bool"
  cry_validPrivateKey :: "buffer \<Rightarrow> bool"
  cry_getPublicKey :: "buffer \<Rightarrow> bool \<Rightarrow> buffer res"
  cry_publicKeyTweakAdd :: "buffer \<Rightarrow> buffer \<Rightarrow> bool \<Rightarrow> buffer res"
  cry_publicKeyTweakMul :: "buffer \<Rightarrow> buffer \<Rightarrow> bool \<Rightarrow> buffer res"
  cry_publicKeyCombine :: "buffer list \<Rightarrow> bool \<Rightarrow> buffer res"
  cry_privateKeyTweakAdd :: "buffer \<Rightarrow> buffer \<Rightarrow> buffer res"
  cry_privateKeyTweakMul :: "buffer \<Rightarrow> buffer \<Rightarrow> buffer res"
  cry_sign :: "buffer \<Rightarrow> buffer \<Rightarrow> buffer"
  cry_sigToDER :: "buffer \<Rightarrow> buffer"
  cry_sigFromDER :: "buffer \<Rightarrow> buffer res"
  cry_verifySig :: "buffer \<Rightarrow> buffer \<Rightarrow> buffer \<Rightarrow> bool"

text \<open>Keys are their bytes; the constructors of the key classes check them.\<close>

definition newPublicKey :: "crypto_ops \<Rightarrow> buffer \<Rightarrow> buffer res" where
  "newPublicKey cry buf =
     (if \<not> cry_validPublicKey cry buf then Inl (BitcoinError ''PubKeyInvalid'') else Inr buf)"

definition newPrivateKey :: "crypto_ops \<Rightarrow> buffer \<Rightarrow> buffer res" where
  "newPrivateKey cry buf =
     (if \<not> cry_validPrivateKey cry buf then Inl (BitcoinError ''InvalidPrivateKey'') else Inr buf)"

definition toPubKey :: "crypto_ops \<Rightarrow> buffer \<Rightarrow> bool \<Rightarrow> buffer res" where
  "toPubKey cry key compressed = bind_res (cry_getPublicKey cry key compressed) (newPublicKey cry)"

section \<open>Key derivation\<close>

definition derivePubKey :: "crypto_ops \<Rightarrow> buffer \<Rightarrow> buffer \<Rightarrow> buffer res" where
  "derivePubKey cry perCommitmentPoint basePoint =
     (let tweak = cry_sha256 cry (perCommitmentPoint @ basePoint)
      in cry_publicKeyTweakAdd cry basePoint tweak True)"

definition derivePrivKey :: "crypto_ops \<Rightarrow> buffer \<Rightarrow> buffer \<Rightarrow> buffer res" where
  "derivePrivKey cry perCommitmentPoint basePointSecret =
     bind_res (cry_getPublicKey cry basePointSecret True) (\<lambda>basePoint.
       let tweak = cry_sha256 cry (perCommitmentPoint @ basePoint)
       in cry_privateKeyTweakAdd cry basePointSecret tweak)"

definition deriveRevocationPubKey :: "crypto_ops \<Rightarrow> buffer \<Rightarrow> buffer \<Rightarrow> buffer res" where
  "deriveRevocationPubKey cry perCommitmentPoint basePoint =
     (let tweakA = cry_sha256 cry (basePoint @ perCommitmentPoint);
          tweakB = cry_sha256 cry (perCommitmentPoint @ basePoint)
      in bind_res (cry_publicKeyTweakMul cry basePoint tweakA True) (\<lambda>a.
         bind_res (cry_publicKeyTweakMul cry perCommitmentPoint tweakB True) (\<lambda>b.
           cry_publicKeyCombine cry [a, b] True)))"

definition deriveRevocationPrivKey :: "crypto_ops \<Rightarrow> buffer \<Rightarrow> buffer \<Rightarrow> buffer res" where
  "deriveRevocationPrivKey cry perCommitmentPointSecret basePointSecret =
     bind_res (cry_getPublicKey cry basePointSecret True) (\<lambda>basePoint.
     bind_res (cry_getPublicKey cry perCommitmentPointSecret True) (\<lambda>perCommitmentPoint.
       let tweakA = cry_sha256 cry (basePoint @ perCommitmentPoint);
           tweakB = cry_sha256 cry (perCommitmentPoint @ basePoint)
       in bind_res (cry_privateKeyTweakMul cry basePointSecret tweakA) (\<lambda>a.
          bind_res (cry_privateKeyTweakMul cry perCommitmentPointSecret tweakB) (\<lambda>b.
            cry_privateKeyTweakAdd cry a b))))"

text \<open>
  \<^verbatim>\<open>CommitmentSecret.privateKey\<close> and \<^verbatim>\<open>publicKey\<close>. The secret index of a number above
  the maximum would be negative; its bits are then those of the two's complement.
\<close>

definition secret_privateKey :: "crypto_ops \<Rightarrow> buffer \<Rightarrow> commitment_number \<Rightarrow> buffer res" where
  "secret_privateKey cry seed number =
     newPrivateKey cry (derive (cry_sha256 cry) seed (nat (take_bit 48 (cn_secretIndex number))) 48)"

definition secret_publicKey :: "crypto_ops \<Rightarrow> buffer \<Rightarrow> commitment_number \<Rightarrow> buffer res" where
  "secret_publicKey cry seed number =
     bind_res (secret_privateKey cry seed number) (\<lambda>key. toPubKey cry key True)"

section \<open>The two sides of a channel\<close>

record channel_side =
  side_dustLimit :: "btc_value option"
  side_channelReserve :: "btc_value option"
  side_toSelfDelayBlocks :: "nat option"
  side_maxAcceptedHtlc :: "nat option"
  side_maxInFlightHtlcValue :: "btc_value option"
  side_minHtlcValue :: "btc_value option"
  side_fundingPubKey :: "buffer option"
  side_paymentBasePoint :: "buffer option"
  side_delayedBasePoint :: "buffer option"
  side_revocationBasePoint :: "buffer option"
  side_htlcBasePoint :: "buffer option"
  side_commitmentNumber :: "commitment_number option"
  side_commitmentPoint :: "buffer option"
  side_commitmentSig :: "buffer option"
  side_nextCommitmentNumber :: "commitment_number option"
  side_nextCommitmentPoint :: "buffer option"
  side_nextCommitmentSig :: "buffer option"
  side_balance :: "btc_value option"
  side_htlcCounter :: "nat option"

definition newChannelSide :: channel_side where
  "newChannelSide = \<lparr>side_dustLimit = None, side_channelReserve = None, side_toSelfDelayBlocks = None,
     side_maxAcceptedHtlc = None, side_maxInFlightHtlcValue = None, side_minHtlcValue = None,
     side_fundingPubKey = None, side_paymentBasePoint = None, side_delayedBasePoint = None,
     side_revocationBasePoint = None, side_htlcBasePoint = None, side_commitmentNumber = None,
     side_commitmentPoint = None, side_commitmentSig = None, side_nextCommitmentNumber = None,
     side_nextCommitmentPoint = None, side_nextCommitmentSig = None, side_balance = None,
     side_htlcCounter = None\<rparr>"

section \<open>The channel\<close>

text \<open>
  The state of the machine is represented by its identifier. A height is a number or \<^verbatim>\<open>NaN\<close>, the
  inner \<open>None\<close>: \<^verbatim>\<open>Number(undefined)\<close> of a block that does not tell its height.
\<close>

record channel =
  ch_peerId :: string
  ch_network :: network
  ch_funder :: bool
  ch_temporaryId :: "buffer option"
  ch_channelId :: "channel_id option"
  ch_isPublic :: "bool option"
  ch_openBlockHeight :: "nat option"
  ch_minimumDepth :: "nat option"
  ch_fundingTx :: "tx option"
  ch_fundingOutPoint :: "outpoint option"
  ch_fundingScript :: "script_buf option"
  ch_feeRatePerKw :: "btc_value option"
  ch_fundingAmount :: "btc_value option"
  ch_pushAmount :: "btc_value option"
  ch_fundingKey :: "buffer option"
  ch_paymentBasePointSecret :: "buffer option"
  ch_delayedBasePointSecret :: "buffer option"
  ch_revocationBasePointSecret :: "buffer option"
  ch_htlcBasePointSecret :: "buffer option"
  ch_fundingConfirmedHeight :: "nat option option"
  ch_perCommitmentSeed :: "buffer option"
  ch_ourSide :: channel_side
  ch_theirSide :: channel_side
  ch_state :: "string option"

definition newChannel :: "string \<Rightarrow> network \<Rightarrow> bool \<Rightarrow> channel" where
  "newChannel peerId network funder = \<lparr>ch_peerId = peerId, ch_network = network, ch_funder = funder,
     ch_temporaryId = None, ch_channelId = None, ch_isPublic = None, ch_openBlockHeight = None,
     ch_minimumDepth = None, ch_fundingTx = None, ch_fundingOutPoint = None, ch_fundingScript = None,
     ch_feeRatePerKw = None, ch_fundingAmount = None, ch_pushAmount = None, ch_fundingKey = None,
     ch_paymentBasePointSecret = None, ch_delayedBasePointSecret = None,
     ch_revocationBasePointSecret = None, ch_htlcBasePointSecret = None,
     ch_fundingConfirmedHeight = None, ch_perCommitmentSeed = None, ch_ourSide = newChannelSide,
     ch_theirSide = newChannelSide, ch_state = None\<rparr>"

definition setOurs :: "(channel_side \<Rightarrow> channel_side) \<Rightarrow> channel \<Rightarrow> channel" where
  "setOurs f c = c\<lparr>ch_ourSide := f (ch_ourSide c)\<rparr>"

definition setTheirs :: "(channel_side \<Rightarrow> channel_side) \<Rightarrow> channel \<Rightarrow> channel" where
  "setTheirs f c = c\<lparr>ch_theirSide := f (ch_theirSide c)\<rparr>"

text \<open>\<^verbatim>\<open>undefined\<close> is the outer \<open>None\<close>, \<^verbatim>\<open>NaN\<close> the inner one.\<close>

definition readyHeight :: "channel \<Rightarrow> int option option" where
  "readyHeight c =
     (case ch_fundingConfirmedHeight c of
        None \<Rightarrow> None
      | Some None \<Rightarrow> Some None
      | Some (Some h) \<Rightarrow> Some (map_option (\<lambda>d. int h + int d - 1) (ch_minimumDepth c)))"

definition hasChannelReady :: "channel \<Rightarrow> bool res" where
  "hasChannelReady c =
     bind_res (defined (side_nextCommitmentNumber (ch_theirSide c))) (\<lambda>n. Inr (cn_value n > 0))"

definition openPaymentBasePointOf :: "channel \<Rightarrow> buffer option" where
  "openPaymentBasePointOf c =
     (if ch_funder c then side_paymentBasePoint (ch_ourSide c) else side_paymentBasePoint (ch_theirSide c))"

definition acceptPaymentBasePointOf :: "channel \<Rightarrow> buffer option" where
  "acceptPaymentBasePointOf c =
     (if ch_funder c then side_paymentBasePoint (ch_theirSide c) else side_paymentBasePoint (ch_ourSide c))"

section \<open>Setters of the secrets\<close>

definition setFundingKey :: "crypto_ops \<Rightarrow> buffer \<Rightarrow> (channel, unit) io" where
  "setFundingKey cry key =
     then_io (update_io (\<lambda>c. c\<lparr>ch_fundingKey := Some key\<rparr>))
       (bind_io (lift_io (toPubKey cry key True)) (\<lambda>p.
          update_io (setOurs (\<lambda>s. s\<lparr>side_fundingPubKey := Some p\<rparr>))))"

definition setPaymentBasePointSecret :: "crypto_ops \<Rightarrow> buffer \<Rightarrow> (channel, unit) io" where
  "setPaymentBasePointSecret cry key =
     then_io (update_io (\<lambda>c. c\<lparr>ch_paymentBasePointSecret := Some key\<rparr>))
       (bind_io (lift_io (toPubKey cry key True)) (\<lambda>p.
          update_io (setOurs (\<lambda>s. s\<lparr>side_paymentBasePoint := Some p\<rparr>))))"

definition setDelayedBasePointSecret :: "crypto_ops \<Rightarrow> buffer \<Rightarrow> (channel, unit) io" where
  "setDelayedBasePointSecret cry key =
     then_io (update_io (\<lambda>c. c\<lparr>ch_delayedBasePointSecret := Some key\<rparr>))
       (bind_io (lift_io (toPubKey cry key True)) (\<lambda>p.
          update_io (setOurs (\<lambda>s. s\<lparr>side_delayedBasePoint := Some p\<rparr>))))"

definition setRevocationBasePointSecret :: "crypto_ops \<Rightarrow> buffer \<Rightarrow> (channel, unit) io" where
  "setRevocationBasePointSecret cry key =
     then_io (update_io (\<lambda>c. c\<lparr>ch_revocationBasePointSecret := Some key\<rparr>))
       (bind_io (lift_io (toPubKey cry key True)) (\<lambda>p.
          update_io (setOurs (\<lambda>s. s\<lparr>side_revocationBasePoint := Some p\<rparr>))))"

definition setHtlcBasePointSecret :: "crypto_ops \<Rightarrow> buffer \<Rightarrow> (channel, unit) io" where
  "setHtlcBasePointSecret cry key =
     then_io (update_io (\<lambda>c. c\<lparr>ch_htlcBasePointSecret := Some key\<rparr>))
       (bind_io (lift_io (toPubKey cry key True)) (\<lambda>p.
          update_io (setOurs (\<lambda>s. s\<lparr>side_htlcBasePoint := Some p\<rparr>))))"

section \<open>What messages attach to a channel\<close>

definition attachKey :: "crypto_ops \<Rightarrow> buffer \<Rightarrow> (buffer \<Rightarrow> channel_side \<Rightarrow> channel_side) \<Rightarrow> (channel, unit) io" where
  "attachKey cry key f = bind_io (lift_io (newPublicKey cry key)) (\<lambda>p. update_io (setTheirs (f p)))"

definition attachFundingScript :: "crypto_ops \<Rightarrow> (channel, unit) io" where
  "attachFundingScript cry = (\<lambda>c.
     bind_io (lift_io (defined (side_fundingPubKey (ch_ourSide c)))) (\<lambda>ours.
     bind_io (lift_io (defined (side_fundingPubKey (ch_theirSide c)))) (\<lambda>theirs.
     bind_io (lift_io (factory_fundingScript (cry_validPublicKey cry) ours theirs)) (\<lambda>s.
     bind_io (lift_io (toScriptBuf s)) (\<lambda>b.
       update_io (\<lambda>c. c\<lparr>ch_fundingScript := Some b\<rparr>))))) c)"

definition attachAcceptChannel :: "crypto_ops \<Rightarrow> accept_channel \<Rightarrow> (channel, unit) io" where
  "attachAcceptChannel cry msg =
     then_io (update_io (\<lambda>c. c\<lparr>ch_minimumDepth := Some (ac_minimumDepth msg)\<rparr>))
    (then_io (update_io (setOurs (\<lambda>s. s\<lparr>side_channelReserve := Some (ac_channelReserveValue msg),
        side_toSelfDelayBlocks := Some (ac_toSelfDelay msg)\<rparr>)))
    (then_io (update_io (setTheirs (\<lambda>s. s\<lparr>side_dustLimit := Some (ac_dustLimitValue msg),
        side_minHtlcValue := Some (ac_htlcMinimumValue msg),
        side_maxAcceptedHtlc := Some (ac_maxAcceptedHtlcs msg),
        side_maxInFlightHtlcValue := Some (ac_maxHtlcValueInFlightValue msg)\<rparr>)))
    (then_io (attachKey cry (ac_fundingPubKey msg) (\<lambda>p s. s\<lparr>side_fundingPubKey := Some p\<rparr>))
    (then_io (attachKey cry (ac_paymentBasePoint msg) (\<lambda>p s. s\<lparr>side_paymentBasePoint := Some p\<rparr>))
    (then_io (attachKey cry (ac_delayedPaymentBasePoint msg) (\<lambda>p s. s\<lparr>side_delayedBasePoint := Some p\<rparr>))
    (then_io (attachKey cry (ac_htlcBasePoint msg) (\<lambda>p s. s\<lparr>side_htlcBasePoint := Some p\<rparr>))
    (then_io (attachKey cry (ac_revocationBasePoint msg) (\<lambda>p s. s\<lparr>side_revocationBasePoint := Some p\<rparr>))
    (then_io (update_io (setTheirs (\<lambda>s. s\<lparr>side_nextCommitmentNumber := Some (CommitmentNumber 0)\<rparr>)))
    (then_io (attachKey cry (ac_firstPerCommitmentPoint msg) (\<lambda>p s. s\<lparr>side_nextCommitmentPoint := Some p\<rparr>))
      (attachFundingScript cry))))))))))"

definition attachFundingTx :: "crypto_ops \<Rightarrow> tx \<Rightarrow> (channel, unit) io" where
  "attachFundingTx cry t =
     then_io (update_io (\<lambda>c. c\<lparr>ch_fundingTx := Some t\<rparr>))
       (bind_io (lift_io (calcTxId (cry_sha256 cry) t)) (\<lambda>(txId, _).
        let fundingOutPoint = \<lparr>op_txid = txId, op_outputIndex = 0\<rparr>
        in then_io (update_io (\<lambda>c. c\<lparr>ch_fundingOutPoint := Some fundingOutPoint\<rparr>))
             (bind_io (lift_io (ci_fromOutPoint fundingOutPoint)) (\<lambda>i.
                update_io (\<lambda>c. c\<lparr>ch_channelId := Some i\<rparr>)))))"

definition attachFundingSigned :: "funding_signed \<Rightarrow> channel \<Rightarrow> channel" where
  "attachFundingSigned msg = setOurs (\<lambda>s. s\<lparr>side_nextCommitmentSig := Some (fs_signature msg)\<rparr>)"

definition revokeLocalCommitment :: "crypto_ops \<Rightarrow> (channel, unit) io" where
  "revokeLocalCommitment cry = (\<lambda>c.
     then_io (update_io (setOurs (\<lambda>s. s\<lparr>side_commitmentNumber := side_nextCommitmentNumber s,
         side_commitmentPoint := side_nextCommitmentPoint s, side_commitmentSig := side_nextCommitmentSig s\<rparr>)))
    (bind_io (lift_io (defined (side_nextCommitmentNumber (ch_ourSide c)))) (\<lambda>n.
     then_io (update_io (setOurs (\<lambda>s. s\<lparr>side_nextCommitmentNumber := Some (cn_next n)\<rparr>)))
    (bind_io (lift_io (defined (ch_perCommitmentSeed c))) (\<lambda>seed.
     bind_io (lift_io (secret_publicKey cry seed (cn_next n))) (\<lambda>p.
       update_io (setOurs (\<lambda>s. s\<lparr>side_nextCommitmentPoint := Some p, side_nextCommitmentSig := None\<rparr>))))))) c)"

definition markConfirmed :: "nat option \<Rightarrow> channel \<Rightarrow> channel" where
  "markConfirmed height c = c\<lparr>ch_fundingConfirmedHeight := Some height\<rparr>"

definition attachChannelReady :: "crypto_ops \<Rightarrow> channel_ready \<Rightarrow> (channel, unit) io" where
  "attachChannelReady cry msg = (\<lambda>c.
     then_io (update_io (setTheirs (\<lambda>s. s\<lparr>side_commitmentNumber := side_nextCommitmentNumber s,
         side_commitmentPoint := side_nextCommitmentPoint s, side_commitmentSig := side_nextCommitmentSig s\<rparr>)))
    (bind_io (lift_io (defined (side_nextCommitmentNumber (ch_theirSide c)))) (\<lambda>n.
     then_io (update_io (setTheirs (\<lambda>s. s\<lparr>side_nextCommitmentNumber := Some (cn_next n)\<rparr>)))
    (then_io (attachKey cry (cr_nextPerCommitmentPoint msg) (\<lambda>p s. s\<lparr>side_nextCommitmentPoint := Some p\<rparr>))
      (update_io (setTheirs (\<lambda>s. s\<lparr>side_nextCommitmentSig := None\<rparr>)))))) c)"

end
