(* ===== verification/ChannelHelpers.thy ===== *)
theory ChannelHelpers
  imports Channel
begin

text \<open>
  \<^verbatim>\<open>packages/lightning/lib/channels/Helpers.ts\<close>: the validations of BOLT 2, the creation of a
  channel and of its messages, and the commitment transactions of both sides, with
  \<^verbatim>\<open>ChannelPreferences.ts\<close>, \<^verbatim>\<open>OpeningErrorType.ts\<close>, \<^verbatim>\<open>OpenChannelRequest.ts\<close> and
  \<^verbatim>\<open>IChannelWallet.ts\<close>. The wallet and the random bytes are parameters: what their calls
  return. An undefined property that is passed on is a \<^verbatim>\<open>TypeError\<close> where it is read.
\<close>

section \<open>Errors, preferences, requests and the wallet\<close>

datatype OpeningErrorType =
    PeerNotReady | FundsNotAvailable | FundingAmountTooLow | FundingAmountTooHigh | PushAmountTooHigh
  | DustLimitTooLow | DustLimitTooHigh | ChannelReserveTooLow | ChannelReserveTooHigh
  | ChannelReserveUnreachable | ChannelReserveDustLimitMismatch | MaxAcceptedHtlcsTooLow
  | MaxAcceptedHtlcsTooHigh | ToSelfDelayTooHigh | InvalidFundingKey | InvalidPaymentBasePoint
  | InvalidDelayedBasePoint | InvalidHtlcBasePoint | InvalidRevocationBasePoint
  | InvalidPerCommitmentPoint | MinimumDepthTooHigh | HtlcMinimumTooHigh | MaxHtlcInFlightTooLow
  | InvalidCommitmentSig

record channel_preferences =
  maxAllowedTooSelfDelay :: nat
  maxMinimumFundingDepth :: nat
  maxChanPercHtlcMinimum :: int
  minChanPercMaxHtlcInFlight :: int
  maxChanPercChannelReserve :: int
  minMaxAcceptedHtlcs :: nat
  maxDustLimit :: btc_value

definition default_preferences :: channel_preferences where
  "default_preferences = \<lparr>maxAllowedTooSelfDelay = 2016, maxMinimumFundingDepth = 144,
     maxChanPercHtlcMinimum = 10, minChanPercMaxHtlcInFlight = 1, maxChanPercChannelReserve = 20,
     minMaxAcceptedHtlcs = 1, maxDustLimit = fromSats 1000\<rparr>"

record open_channel_request =
  or_peerId :: string
  or_remoteFeatures :: bit_field
  or_ourOptions :: bit_field
  or_fundingAmount :: btc_value
  or_pushAmount :: btc_value
  or_maxHtlcInFlightValue :: btc_value
  or_minHtlcValue :: btc_value
  or_maxAcceptedHtlcs :: nat
  or_channelReserveValue :: btc_value
  or_toSelfBlockDelay :: nat
  or_publicChannel :: bool

record base_points =
  bp_paymentBasePointSecret :: buffer
  bp_delayedPaymentBasePointSecret :: buffer
  bp_htlcBasePointSecret :: buffer
  bp_revocationBasePointSecret :: buffer

record channel_wallet =
  wa_feeRatePerKw :: btc_value
  wa_dustLimit :: btc_value
  wa_hasFunds :: "btc_value \<Rightarrow> bool"
  wa_fundingKey :: buffer
  wa_basePoints :: base_points
  wa_perCommitmentSeed :: buffer
  wa_blockHeight :: nat
  wa_randomBytes :: buffer
  wa_fundTx :: "tx_builder \<Rightarrow> tx res"

section \<open>Validation\<close>

definition validateFundingAmountMax :: "btc_value \<Rightarrow> bit_field \<Rightarrow> bit_field \<Rightarrow> bool" where
  "validateFundingAmountMax fundingAmount local remote =
     (if bf_anySet local [19, 18] \<and> bf_anySet remote [19, 18] then True
      else sats fundingAmount < 16777216)"

definition validatePushAmount :: "btc_value \<Rightarrow> btc_value \<Rightarrow> bool" where
  "validatePushAmount fundingAmount pushAmount = value_lte pushAmount fundingAmount"

definition validateDustLimitTooSmall :: "btc_value \<Rightarrow> bool" where
  "validateDustLimitTooSmall dustLimit = value_gte dustLimit (fromSats 354)"

text \<open>The last two arguments are optional, and given together.\<close>

definition validateChannelReserveDustLimit ::
  "btc_value \<Rightarrow> btc_value \<Rightarrow> (btc_value \<times> btc_value) option \<Rightarrow> bool" where
  "validateChannelReserveDustLimit openChannelReserve openDustLimit accept =
     (let openValid = value_lte openDustLimit openChannelReserve;
          acceptValid = (case accept of
             Some (acceptChannelReserve, acceptDustLimit) \<Rightarrow>
               value_lte acceptDustLimit openChannelReserve \<and> value_lte openDustLimit acceptChannelReserve
           | None \<Rightarrow> True)
      in openValid \<and> acceptValid)"

definition validateChannelReserveReachable ::
  "btc_value \<Rightarrow> btc_value \<Rightarrow> btc_value \<Rightarrow> btc_value \<Rightarrow> bool res" where
  "validateChannelReserveReachable fundingAmount pushAmount feeRatePerKw channelReserve =
     (let fees = fromSats (bigDiv (724 * sats feeRatePerKw) 1000)
      in if value_gt (value_addn pushAmount fees) fundingAmount then Inr False
         else bind_res (value_subn fundingAmount pushAmount) (\<lambda>rest.
              bind_res (value_subn rest fees) (\<lambda>funderBalance.
                Inr (value_gt funderBalance channelReserve \<or> value_gt pushAmount channelReserve))))"

definition validateFunderFees :: "btc_value \<Rightarrow> btc_value \<Rightarrow> btc_value \<Rightarrow> bool res" where
  "validateFunderFees fundingAmount pushAmount feeRatePerKw =
     (let fees = bigDiv (724 * sats feeRatePerKw) 1000
      in if value_gt pushAmount fundingAmount then Inr False
         else bind_res (value_subn fundingAmount pushAmount) (\<lambda>fundersBalance.
                Inr (sats fundersBalance > fees)))"

definition validateMaxAcceptedHtlcsTooLarge :: "nat \<Rightarrow> bool" where
  "validateMaxAcceptedHtlcsTooLarge maxAcceptedHtlcs \<longleftrightarrow> maxAcceptedHtlcs \<le> 483"

definition validateMaxAcceptedHtlcsTooSmall :: "channel_preferences \<Rightarrow> nat \<Rightarrow> bool" where
  "validateMaxAcceptedHtlcsTooSmall prefs maxAcceptedHtlc \<longleftrightarrow> maxAcceptedHtlc \<ge> minMaxAcceptedHtlcs prefs"

definition validateMinimumDepthTooLarge :: "channel_preferences \<Rightarrow> nat \<Rightarrow> bool" where
  "validateMinimumDepthTooLarge prefs depth \<longleftrightarrow> depth \<le> maxMinimumFundingDepth prefs"

definition validateToSelfDelayTooLarge :: "channel_preferences \<Rightarrow> nat \<Rightarrow> bool" where
  "validateToSelfDelayTooLarge prefs toSelfDelay \<longleftrightarrow> toSelfDelay \<le> maxAllowedTooSelfDelay prefs"

definition validateHtlcMinimumTooLarge :: "channel_preferences \<Rightarrow> btc_value \<Rightarrow> channel \<Rightarrow> bool res" where
  "validateHtlcMinimumTooLarge prefs htlcMinimum c =
     bind_res (defined (ch_fundingAmount c)) (\<lambda>a.
       let maxSats = bigDiv (sats a * maxChanPercHtlcMinimum prefs) 100
       in Inr (value_lte htlcMinimum (fromSats maxSats)))"

definition validateMaxHtlcInFlightTooSmall :: "channel_preferences \<Rightarrow> btc_value \<Rightarrow> channel \<Rightarrow> bool res" where
  "validateMaxHtlcInFlightTooSmall prefs maxHtlcInFlight c =
     bind_res (defined (ch_fundingAmount c)) (\<lambda>a.
       let minSats = bigDiv (sats a * minChanPercMaxHtlcInFlight prefs) 100
       in Inr (value_gte maxHtlcInFlight (fromSats minSats)))"

definition validateChannelReserveTooLarge :: "channel_preferences \<Rightarrow> btc_value \<Rightarrow> channel \<Rightarrow> bool res" where
  "validateChannelReserveTooLarge prefs channelReserve c =
     bind_res (defined (ch_fundingAmount c)) (\<lambda>a.
       let maxSats = bigDiv (sats a * maxChanPercChannelReserve prefs) 100
       in Inr (value_lte channelReserve (fromSats maxSats)))"

definition validateDustLimitTooLarge :: "channel_preferences \<Rightarrow> btc_value \<Rightarrow> bool" where
  "validateDustLimitTooLarge prefs dustLimit = value_lte dustLimit (maxDustLimit prefs)"

text \<open>An early return with an error, or going on; \<open>None\<close> is success.\<close>

definition ensure :: "bool res \<Rightarrow> OpeningErrorType \<Rightarrow> ('s, OpeningErrorType option) io
    \<Rightarrow> ('s, OpeningErrorType option) io" where
  "ensure b e k = bind_io (lift_io b) (\<lambda>ok. if \<not> ok then return_io (Some e) else k)"

definition validateAcceptChannel ::
  "crypto_ops \<Rightarrow> channel_preferences \<Rightarrow> channel \<Rightarrow> accept_channel \<Rightarrow> OpeningErrorType option res" where
  "validateAcceptChannel cry prefs c msg = fst
    (bind_io (lift_io (defined (side_channelReserve (ch_theirSide c)))) (\<lambda>reserve.
     bind_io (lift_io (defined (side_dustLimit (ch_ourSide c)))) (\<lambda>dust.
     ensure (Inr (validateChannelReserveDustLimit reserve dust (Some (ac_channelReserveValue msg, ac_dustLimitValue msg))))
       ChannelReserveDustLimitMismatch
    (ensure (Inr (validateToSelfDelayTooLarge prefs (ac_toSelfDelay msg))) ToSelfDelayTooHigh
    (ensure (Inr (validateMaxAcceptedHtlcsTooLarge (ac_maxAcceptedHtlcs msg))) MaxAcceptedHtlcsTooHigh
    (ensure (Inr (cry_validPublicKey cry (ac_fundingPubKey msg))) InvalidFundingKey
    (ensure (Inr (cry_validPublicKey cry (ac_paymentBasePoint msg))) InvalidPaymentBasePoint
    (ensure (Inr (cry_validPublicKey cry (ac_delayedPaymentBasePoint msg))) InvalidDelayedBasePoint
    (ensure (Inr (cry_validPublicKey cry (ac_revocationBasePoint msg))) InvalidRevocationBasePoint
    (ensure (Inr (cry_validPublicKey cry (ac_htlcBasePoint msg))) InvalidHtlcBasePoint
    (ensure (Inr (cry_validPublicKey cry (ac_firstPerCommitmentPoint msg))) InvalidPerCommitmentPoint
    (ensure (Inr (validateDustLimitTooSmall (ac_dustLimitValue msg))) DustLimitTooLow
    (ensure (Inr (validateMinimumDepthTooLarge prefs (ac_minimumDepth msg))) MinimumDepthTooHigh
    (ensure (validateHtlcMinimumTooLarge prefs (ac_htlcMinimumValue msg) c) HtlcMinimumTooHigh
    (ensure (validateMaxHtlcInFlightTooSmall prefs (ac_maxHtlcValueInFlightValue msg) c) MaxHtlcInFlightTooLow
    (ensure (validateChannelReserveTooLarge prefs (ac_channelReserveValue msg) c) ChannelReserveTooHigh
    (ensure (Inr (validateMaxAcceptedHtlcsTooSmall prefs (ac_maxAcceptedHtlcs msg))) MaxAcceptedHtlcsTooLow
    (ensure (Inr (validateDustLimitTooLarge prefs (ac_dustLimitValue msg))) DustLimitTooHigh
      (return_io None)))))))))))))))))) ())"

definition validateFundingTx :: "channel \<Rightarrow> tx_out \<Rightarrow> bool res" where
  "validateFundingTx c output =
     bind_res (defined (ch_fundingAmount c)) (\<lambda>amount.
       if \<not> value_eq (to_value output) amount then Inr False
       else bind_res (defined (ch_fundingScript c)) (\<lambda>s.
              if \<not> sb_equals (to_scriptPubKey output) s then Inr False else Inr True))"

definition validateChannelReadyMessage :: "crypto_ops \<Rightarrow> channel \<Rightarrow> channel_ready \<Rightarrow> bool" where
  "validateChannelReadyMessage cry c msg =
     (if \<not> cry_validPublicKey cry (cr_nextPerCommitmentPoint msg) then False else True)"

section \<open>Creating a channel\<close>

definition createChannel_steps ::
  "crypto_ops \<Rightarrow> channel_wallet \<Rightarrow> open_channel_request \<Rightarrow> (channel, OpeningErrorType option) io" where
  "createChannel_steps cry w options =
    (let feeRate = wa_feeRatePerKw w;
         funding = or_fundingAmount options;
         push = or_pushAmount options;
         dust = wa_dustLimit w;
         reserve = or_channelReserveValue options;
         points = wa_basePoints w
     in
     then_io (update_io (\<lambda>c. c\<lparr>ch_openBlockHeight := Some (wa_blockHeight w),
        ch_temporaryId := Some (wa_randomBytes w), ch_feeRatePerKw := Some feeRate\<rparr>))
    (ensure (Inr (validateFundingAmountMax funding (or_ourOptions options) (or_remoteFeatures options)))
       FundingAmountTooHigh
    (then_io (update_io (\<lambda>c. c\<lparr>ch_fundingAmount := Some funding\<rparr>))
    (ensure (Inr (validatePushAmount funding push)) PushAmountTooHigh
    (then_io (update_io (\<lambda>c. c\<lparr>ch_pushAmount := Some push\<rparr>))
    (ensure (validateFunderFees funding push feeRate) FundingAmountTooLow
    (then_io (update_io (setTheirs (\<lambda>s. s\<lparr>side_balance := Some push\<rparr>)))
    (bind_io (lift_io (value_subn funding push)) (\<lambda>rest.
     then_io (update_io (setOurs (\<lambda>s. s\<lparr>side_balance := Some rest, side_dustLimit := Some dust\<rparr>)))
    (ensure (Inr (validateDustLimitTooSmall dust)) DustLimitTooLow
    (then_io (update_io (setTheirs (\<lambda>s. s\<lparr>side_channelReserve := Some reserve\<rparr>)))
    (ensure (Inr (validateChannelReserveDustLimit reserve dust None)) ChannelReserveTooLow
    (ensure (validateChannelReserveReachable funding push feeRate reserve) ChannelReserveUnreachable
    (then_io (update_io (setTheirs (\<lambda>s. s\<lparr>side_toSelfDelayBlocks := Some (or_toSelfBlockDelay options)\<rparr>)))
    (then_io (update_io (setOurs (\<lambda>s. s\<lparr>side_minHtlcValue := Some (or_minHtlcValue options),
        side_maxAcceptedHtlc := Some (or_maxAcceptedHtlcs options)\<rparr>)))
    (ensure (Inr (validateMaxAcceptedHtlcsTooLarge (or_maxAcceptedHtlcs options))) MaxAcceptedHtlcsTooHigh
    (then_io (update_io (setOurs (\<lambda>s. s\<lparr>side_maxInFlightHtlcValue := Some (or_maxHtlcInFlightValue options)\<rparr>)))
    (then_io (setFundingKey cry (wa_fundingKey w))
    (then_io (setPaymentBasePointSecret cry (bp_paymentBasePointSecret points))
    (then_io (setDelayedBasePointSecret cry (bp_delayedPaymentBasePointSecret points))
    (then_io (setHtlcBasePointSecret cry (bp_htlcBasePointSecret points))
    (then_io (setRevocationBasePointSecret cry (bp_revocationBasePointSecret points))
    (then_io (update_io (\<lambda>c. c\<lparr>ch_perCommitmentSeed := Some (wa_perCommitmentSeed w)\<rparr>))
    (then_io (update_io (setOurs (\<lambda>s. s\<lparr>side_nextCommitmentNumber := Some (CommitmentNumber 0)\<rparr>)))
    (bind_io (lift_io (secret_publicKey cry (wa_perCommitmentSeed w) (CommitmentNumber 0))) (\<lambda>p.
     then_io (update_io (setOurs (\<lambda>s. s\<lparr>side_nextCommitmentPoint := Some p\<rparr>)))
       (return_io None)))))))))))))))))))))))))))"

definition createChannel ::
  "crypto_ops \<Rightarrow> channel_wallet \<Rightarrow> network \<Rightarrow> open_channel_request \<Rightarrow> (OpeningErrorType + channel) res" where
  "createChannel cry w network options =
     (if \<not> wa_hasFunds w (or_fundingAmount options) then Inr (Inl FundsNotAvailable)
      else case createChannel_steps cry w options (newChannel (or_peerId options) network True) of
             (Inl e, _) \<Rightarrow> Inl e
           | (Inr (Some e), _) \<Rightarrow> Inr (Inl e)
           | (Inr None, c) \<Rightarrow> Inr (Inr c))"

section \<open>Messages\<close>

definition createOpenChannelMessage :: "channel \<Rightarrow> open_channel res" where
  "createOpenChannelMessage c =
    (let ours = ch_ourSide c; theirs = ch_theirSide c in
     bind_res (net_getGenesisHash (ch_network c)) (\<lambda>genesis.
     bind_res (defined (ch_temporaryId c)) (\<lambda>tempId.
     bind_res (defined (ch_fundingAmount c)) (\<lambda>fundingAmount.
     bind_res (defined (ch_pushAmount c)) (\<lambda>pushAmount.
     bind_res (defined (ch_feeRatePerKw c)) (\<lambda>feeRate.
     bind_res (defined (side_dustLimit ours)) (\<lambda>dustLimit.
     bind_res (defined (side_maxAcceptedHtlc ours)) (\<lambda>maxAcceptedHtlcs.
     bind_res (defined (side_minHtlcValue ours)) (\<lambda>minHtlcValue.
     bind_res (defined (side_maxInFlightHtlcValue ours)) (\<lambda>maxInFlight.
     bind_res (defined (side_channelReserve theirs)) (\<lambda>channelReserve.
     bind_res (defined (side_toSelfDelayBlocks theirs)) (\<lambda>toSelfDelay.
     bind_res (defined (side_fundingPubKey ours)) (\<lambda>fundingPubKey.
     bind_res (defined (side_paymentBasePoint ours)) (\<lambda>paymentBasePoint.
     bind_res (defined (side_delayedBasePoint ours)) (\<lambda>delayedBasePoint.
     bind_res (defined (side_htlcBasePoint ours)) (\<lambda>htlcBasePoint.
     bind_res (defined (side_revocationBasePoint ours)) (\<lambda>revocationBasePoint.
     bind_res (defined (side_nextCommitmentPoint ours)) (\<lambda>firstPoint.
       Inr (oc_setAnnounceChannel (ch_isPublic c = Some True)
         \<lparr>oc_chainHash = hv_serialize Internal genesis, oc_temporaryChannelId = tempId,
          oc_fundingAmount = fundingAmount, oc_pushAmount = pushAmount, oc_dustLimit = dustLimit,
          oc_maxHtlcValueInFlight = maxInFlight, oc_channelReserve = channelReserve,
          oc_minHtlcValue = minHtlcValue, oc_feeRatePerKw = feeRate, oc_toSelfDelay = toSelfDelay,
          oc_maxAcceptedHtlcs = maxAcceptedHtlcs, oc_fundingPubKey = fundingPubKey,
          oc_revocationBasePoint = revocationBasePoint, oc_paymentBasePoint = paymentBasePoint,
          oc_delayedPaymentBasePoint = delayedBasePoint, oc_htlcBasePoint = htlcBasePoint,
          oc_firstPerCommitmentPoint = firstPoint, oc_channelFlags = BitField 0,
          oc_upfrontShutdownScript = None\<rparr>)))))))))))))))))))"

definition createFundingCreatedMessage :: "channel \<Rightarrow> buffer \<Rightarrow> funding_created res" where
  "createFundingCreatedMessage c signature =
     bind_res (defined (ch_temporaryId c)) (\<lambda>tempId.
     bind_res (defined (ch_fundingOutPoint c)) (\<lambda>outpoint.
       Inr \<lparr>fc_temporaryChannelId = tempId, fc_fundingTxId = hv_serialize Internal (op_txid outpoint),
         fc_fundingOutputIndex = op_outputIndex outpoint, fc_signature = signature\<rparr>))"

definition createChannelReadyMessage :: "channel \<Rightarrow> channel_ready res" where
  "createChannelReadyMessage c =
     bind_res (defined (ch_channelId c)) (\<lambda>channelId.
     bind_res (defined (side_nextCommitmentPoint (ch_ourSide c))) (\<lambda>p.
       Inr \<lparr>cr_channelId = channelId, cr_nextPerCommitmentPoint = p\<rparr>))"

definition createErrorMessage :: "buffer \<Rightarrow> channel \<Rightarrow> bool \<Rightarrow> error_message res" where
  "createErrorMessage data c useTempId =
     bind_res (if useTempId then defined (ch_temporaryId c)
               else bind_res (defined (ch_channelId c)) (\<lambda>i. Inr (ci_toBuffer i))) (\<lambda>i.
       Inr \<lparr>em_channelId = i, em_data = data\<rparr>)"

section \<open>Transactions\<close>

definition createFundingTx :: "crypto_ops \<Rightarrow> channel_wallet \<Rightarrow> channel \<Rightarrow> tx res" where
  "createFundingTx cry w c =
     bind_res (defined (ch_fundingAmount c)) (\<lambda>amount.
     bind_res (defined (side_fundingPubKey (ch_ourSide c))) (\<lambda>ours.
     bind_res (defined (side_fundingPubKey (ch_theirSide c))) (\<lambda>theirs.
     bind_res (createFundingOutput (cry_validPublicKey cry) (cry_sha256 cry) amount ours theirs) (\<lambda>output.
     bind_res (runBuilder (then_io (tb_addTxOut output) (update_io (\<lambda>b. b\<lparr>tb_locktime := lt_zero\<rparr>)))) (\<lambda>(b, _).
       wa_fundTx w b)))))"

text \<open>
  The commitment transaction that the peer can broadcast: its delayed output belongs to the peer's
  delayed key, and the revocation key is made from our base point and the peer's commitment point.
\<close>

definition createRemoteCommitmentTx :: "crypto_ops \<Rightarrow> channel \<Rightarrow> (tx_builder \<times> htlc list) res" where
  "createRemoteCommitmentTx cry c =
    (let ours = ch_ourSide c; theirs = ch_theirSide c in
     bind_res (defined (side_nextCommitmentPoint theirs)) (\<lambda>point.
     bind_res (defined (side_revocationBasePoint ours)) (\<lambda>revocationBasePoint.
     bind_res (deriveRevocationPubKey cry point revocationBasePoint) (\<lambda>revocationKey.
     bind_res (defined (side_delayedBasePoint theirs)) (\<lambda>delayedBasePoint.
     bind_res (derivePubKey cry point delayedBasePoint) (\<lambda>delayedKey.
     bind_res (defined (side_paymentBasePoint ours)) (\<lambda>remoteKey.
     bind_res (defined (side_htlcBasePoint theirs)) (\<lambda>localHtlcBasePoint.
     bind_res (derivePubKey cry point localHtlcBasePoint) (\<lambda>localHtlcKey.
     bind_res (defined (side_htlcBasePoint ours)) (\<lambda>remoteHtlcBasePoint.
     bind_res (derivePubKey cry point remoteHtlcBasePoint) (\<lambda>remoteHtlcKey.
     bind_res (defined (side_nextCommitmentNumber theirs)) (\<lambda>number.
     bind_res (defined (openPaymentBasePointOf c)) (\<lambda>openPoint.
     bind_res (defined (acceptPaymentBasePointOf c)) (\<lambda>acceptPoint.
     bind_res (defined (ch_fundingOutPoint c)) (\<lambda>outpoint.
     bind_res (defined (side_dustLimit theirs)) (\<lambda>dustLimit.
     bind_res (defined (ch_feeRatePerKw c)) (\<lambda>feeRate.
     bind_res (defined (side_toSelfDelayBlocks theirs)) (\<lambda>delay.
     bind_res (defined (side_balance theirs)) (\<lambda>theirBalance.
     bind_res (defined (side_balance ours)) (\<lambda>ourBalance.
       createCommitment (cry_validPublicKey cry) (cry_sha256 cry) (cry_ripemd160 cry)
         \<lparr>isFunderLocal = \<not> ch_funder c, commitmentNumber = cn_value number,
          openPaymentBasePoint = openPoint, acceptPaymentBasePoint = acceptPoint,
          fundingOutPoint = outpoint, dustLimitSatoshi = dustLimit, feePerKw = sats feeRate,
          localDelay = int delay, localValue = theirBalance, remoteValue = ourBalance,
          revocationPubKey = revocationKey, delayedPubKey = delayedKey, remotePubKey = remoteKey,
          reverseHtlcs = True, localHtlcPubKey = localHtlcKey, remoteHtlcPubKey = remoteHtlcKey,
          htlcs = []\<rparr>))))))))))))))))))))"

definition createLocalCommitmentTx :: "crypto_ops \<Rightarrow> channel \<Rightarrow> (tx_builder \<times> htlc list) res" where
  "createLocalCommitmentTx cry c =
    (let ours = ch_ourSide c; theirs = ch_theirSide c in
     bind_res (defined (side_nextCommitmentPoint ours)) (\<lambda>point.
     bind_res (defined (side_revocationBasePoint theirs)) (\<lambda>revocationBasePoint.
     bind_res (deriveRevocationPubKey cry point revocationBasePoint) (\<lambda>revocationKey.
     bind_res (defined (side_delayedBasePoint ours)) (\<lambda>delayedBasePoint.
     bind_res (derivePubKey cry point delayedBasePoint) (\<lambda>delayedKey.
     bind_res (defined (side_paymentBasePoint theirs)) (\<lambda>remoteKey.
     bind_res (defined (side_htlcBasePoint ours)) (\<lambda>localHtlcBasePoint.
     bind_res (derivePubKey cry point localHtlcBasePoint) (\<lambda>localHtlcKey.
     bind_res (defined (side_htlcBasePoint theirs)) (\<lambda>remoteHtlcBasePoint.
     bind_res (derivePubKey cry point remoteHtlcBasePoint) (\<lambda>remoteHtlcKey.
     bind_res (defined (side_nextCommitmentNumber ours)) (\<lambda>number.
     bind_res (defined (openPaymentBasePointOf c)) (\<lambda>openPoint.
     bind_res (defined (acceptPaymentBasePointOf c)) (\<lambda>acceptPoint.
     bind_res (defined (ch_fundingOutPoint c)) (\<lambda>outpoint.
     bind_res (defined (side_dustLimit ours)) (\<lambda>dustLimit.
     bind_res (defined (ch_feeRatePerKw c)) (\<lambda>feeRate.
     bind_res (defined (side_toSelfDelayBlocks ours)) (\<lambda>delay.
     bind_res (defined (side_balance ours)) (\<lambda>ourBalance.
     bind_res (defined (side_balance theirs)) (\<lambda>theirBalance.
       createCommitment (cry_validPublicKey cry) (cry_sha256 cry) (cry_ripemd160 cry)
         \<lparr>isFunderLocal = ch_funder c, commitmentNumber = cn_value number,
          openPaymentBasePoint = openPoint, acceptPaymentBasePoint = acceptPoint,
          fundingOutPoint = outpoint, dustLimitSatoshi = dustLimit, feePerKw = sats feeRate,
          localDelay = int delay, localValue = ourBalance, remoteValue = theirBalance,
          revocationPubKey = revocationKey, delayedPubKey = delayedKey, remotePubKey = remoteKey,
          reverseHtlcs = False, localHtlcPubKey = localHtlcKey, remoteHtlcPubKey = remoteHtlcKey,
          htlcs = []\<rparr>))))))))))))))))))))"

definition signCommitmentTx :: "crypto_ops \<Rightarrow> channel \<Rightarrow> tx_builder \<Rightarrow> buffer res" where
  "signCommitmentTx cry c ctx =
     bind_res (defined (ch_fundingScript c)) (\<lambda>s.
     bind_res (defined (ch_fundingKey c)) (\<lambda>key.
     bind_res (defined (ch_fundingAmount c)) (\<lambda>amount.
     bind_res (fst (tb_signSegWitv0 (cry_sha256 cry) (cry_sign cry) (cry_sigToDER cry) 0 (Inr s) key amount ctx)) (\<lambda>der.
       cry_sigFromDER cry (take (length der - 1) der)))))"

definition validateCommitmentSig :: "crypto_ops \<Rightarrow> channel \<Rightarrow> tx_builder \<Rightarrow> buffer \<Rightarrow> buffer \<Rightarrow> bool res" where
  "validateCommitmentSig cry c ctx sig pubkey =
     bind_res (defined (ch_fundingScript c)) (\<lambda>s.
     bind_res (defined (ch_fundingAmount c)) (\<lambda>amount.
     bind_res (fst (hashSegwitv0 (cry_sha256 cry) 0 (Inr s) amount ctx)) (\<lambda>hash.
       Inr (cry_verifySig cry hash sig pubkey))))"

definition validateFundingSignedMessage ::
  "crypto_ops \<Rightarrow> channel \<Rightarrow> funding_signed \<Rightarrow> OpeningErrorType option res" where
  "validateFundingSignedMessage cry c msg =
     bind_res (createLocalCommitmentTx cry c) (\<lambda>(ctx, _).
     bind_res (defined (side_fundingPubKey (ch_theirSide c))) (\<lambda>pubkey.
     bind_res (validateCommitmentSig cry c ctx (fs_signature msg) pubkey) (\<lambda>result.
       Inr (if \<not> result then Some InvalidCommitmentSig else None))))"

end
