(* ===== verification/StateMachine.thy ===== *)
theory StateMachine
  imports ChannelHelpers
begin

text \<open>
  \<^verbatim>\<open>packages/lightning/lib/channels/StateMachine.ts\<close> with \<^verbatim>\<open>ChannelEvent.ts\<close> and
  \<^verbatim>\<open>IStateMachine.ts\<close>: a hierarchical state machine whose states hold lists of transition
  functions by event.  A transition works on a channel and causes effects: messages, broadcasts, and
  calls of the storage.  A handler runs to its end before the next one starts; what could happen at
  its \<^verbatim>\<open>await\<close>s is not modelled.
\<close>

section \<open>Events, effects and transition functions\<close>

datatype ChannelEventType =
    BlockConnected | PeerDisconnected | PeerConnected | OpenChannelMessage | AcceptChannelMessage
  | FundingCreatedMessage | FundingSignedMessage | ChannelReadyMessage | ShutdownMessage

record channel_event =
  ev_type :: ChannelEventType
  ev_message :: "wire_message option"
  ev_block :: "block option"

datatype effect =
    SendMessage string wire_message
  | BroadcastTx tx
  | SaveChannel channel
  | RemoveChannel channel

record channel_world =
  cw_channel :: channel
  cw_effects :: "effect list"

datatype ChannelStateId =
    Channel_Initializing_AwaitingAcceptChannel
  | Channel_Initializing_AwaitingFundingSigned
  | Channel_Funding_AwaitingFundingConf_NoChannelReady
  | Channel_Funding_AwaitingFundingDepth
  | Channel_Funding_AwaitingChannelReady
  | Channel_Failing
  | Channel_Normal
  | Channel_Abandoned

primrec stateId :: "ChannelStateId \<Rightarrow> string" where
  "stateId Channel_Initializing_AwaitingAcceptChannel = ''channel.initializing.awaiting_accept_channel''"
| "stateId Channel_Initializing_AwaitingFundingSigned = ''channel.initializing.awaiting_funding_signed''"
| "stateId Channel_Funding_AwaitingFundingConf_NoChannelReady = ''channel.funding.awaiting_funding_conf.no_channel_ready''"
| "stateId Channel_Funding_AwaitingFundingDepth = ''channel.funding.awaiting_funding_depth''"
| "stateId Channel_Funding_AwaitingChannelReady = ''channel.funding.awaiting_channel_ready''"
| "stateId Channel_Failing = ''channel.failing''"
| "stateId Channel_Normal = ''channel.normal''"
| "stateId Channel_Abandoned = ''channel.abandoned''"

text \<open>The event is undefined when the first state is entered.\<close>

type_synonym transition_fn = "channel_event option \<Rightarrow> (channel_world, ChannelStateId option) io"

text \<open>An operation on the channel of a world, an effect, and reading the channel.\<close>

definition on_channel :: "(channel, 'a) io \<Rightarrow> (channel_world, 'a) io" where
  "on_channel m = (\<lambda>w. case m (cw_channel w) of (r, c) \<Rightarrow> (r, w\<lparr>cw_channel := c\<rparr>))"

definition emit :: "effect res \<Rightarrow> (channel_world, unit) io" where
  "emit e = (\<lambda>w. case e of Inl x \<Rightarrow> (Inl x, w) | Inr e \<Rightarrow> (Inr (), w\<lparr>cw_effects := cw_effects w @ [e]\<rparr>))"

definition get_channel :: "(channel_world, channel) io" where
  "get_channel = (\<lambda>w. (Inr (cw_channel w), w))"

lemma world_simps [io_simps]:
  "on_channel m w = (case m (cw_channel w) of (r, c) \<Rightarrow> (r, w\<lparr>cw_channel := c\<rparr>))"
  "emit (Inl x) w = (Inl x, w)"
  "emit (Inr f) w = (Inr (), w\<lparr>cw_effects := cw_effects w @ [f]\<rparr>)"
  "get_channel w = (Inr (cw_channel w), w)"
  by (simp_all add: on_channel_def emit_def get_channel_def)

section \<open>Machines\<close>

text \<open>
  The substates are a map; the keys, made of the names of the machine and of the substate, are
  represented by the latter. Functions on entry and on exit are optional.
\<close>

datatype state_machine =
  StateMachine
    (sm_name: string)
    (sm_transitions: "(ChannelEventType \<times> transition_fn list) list")
    (sm_enterFn: "transition_fn option")
    (sm_exitFn: "transition_fn option")
    (sm_subStates: "state_machine list")

definition newStateMachine :: "string \<Rightarrow> state_machine" where
  "newStateMachine name = StateMachine name [] None None []"

definition sm_handlesEvent :: "ChannelEventType \<Rightarrow> state_machine \<Rightarrow> bool" where
  "sm_handlesEvent type m \<longleftrightarrow> map_of (sm_transitions m) type \<noteq> None"

definition sm_getTransitions :: "ChannelEventType \<Rightarrow> state_machine \<Rightarrow> transition_fn list" where
  "sm_getTransitions type m = (case map_of (sm_transitions m) type of None \<Rightarrow> [] | Some fs \<Rightarrow> fs)"

definition addSubState :: "state_machine \<Rightarrow> state_machine \<Rightarrow> state_machine" where
  "addSubState s m = (case m of StateMachine name ts enter exit subs \<Rightarrow>
     StateMachine name ts enter exit
       (if List.find (\<lambda>q. sm_name q = sm_name s) subs = None then subs @ [s]
        else map (\<lambda>q. if sm_name q = sm_name s then s else q) subs))"

definition addTransition :: "ChannelEventType \<Rightarrow> transition_fn \<Rightarrow> state_machine \<Rightarrow> state_machine" where
  "addTransition type f m = (case m of StateMachine name ts enter exit subs \<Rightarrow>
     StateMachine name
       (if map_of ts type = None then ts @ [(type, [f])]
        else map (\<lambda>(t, fs). if t = type then (t, fs @ [f]) else (t, fs)) ts) enter exit subs)"

definition setEnterFn :: "transition_fn \<Rightarrow> state_machine \<Rightarrow> state_machine" where
  "setEnterFn f m = (case m of StateMachine name ts enter exit subs \<Rightarrow> StateMachine name ts (Some f) exit subs)"

definition setExitFn :: "transition_fn \<Rightarrow> state_machine \<Rightarrow> state_machine" where
  "setExitFn f m = (case m of StateMachine name ts enter exit subs \<Rightarrow> StateMachine name ts enter (Some f) subs)"

text \<open>
  A state object knows its parent: it is represented by the machine together with its parents, the
  root first.
\<close>

type_synonym state_object = "state_machine list \<times> state_machine"

definition so_stack :: "state_object \<Rightarrow> state_machine list" where
  "so_stack s = fst s @ [snd s]"

primrec joinNames :: "string \<Rightarrow> string list \<Rightarrow> string" where
  "joinNames start [] = start"
| "joinNames start (n # ns) = joinNames (start @ ''.'' @ n) ns"

definition so_id :: "state_object \<Rightarrow> string" where
  "so_id s = (case map sm_name (so_stack s) of [] \<Rightarrow> [] | n # ns \<Rightarrow> joinNames n ns)"

definition so_subStates :: "state_object \<Rightarrow> state_object list" where
  "so_subStates s = map (\<lambda>m. (so_stack s, m)) (sm_subStates (snd s))"

definition callOptional :: "transition_fn option \<Rightarrow> transition_fn" where
  "callOptional f event = (case f of None \<Rightarrow> return_io None | Some f \<Rightarrow> f event)"

definition onEnter :: "state_object \<Rightarrow> transition_fn" where
  "onEnter s = callOptional (sm_enterFn (snd s))"

definition onExit :: "state_object \<Rightarrow> transition_fn" where
  "onExit s = callOptional (sm_exitFn (snd s))"

text \<open>The transitions run in order until one returns a state.\<close>

primrec runTransitions :: "transition_fn list \<Rightarrow> transition_fn" where
  "runTransitions [] event = return_io None"
| "runTransitions (f # fs) event =
     bind_io (f event) (\<lambda>result. if result \<noteq> None then return_io result else runTransitions fs event)"

definition onEvent :: "state_object \<Rightarrow> channel_event \<Rightarrow> (channel_world, ChannelStateId option) io" where
  "onEvent s event =
     (case List.find (sm_handlesEvent (ev_type event)) (rev (so_stack s)) of
        None \<Rightarrow> return_io None
      | Some current \<Rightarrow> runTransitions (sm_getTransitions (ev_type event) current) (Some event))"

section \<open>Finding a state\<close>

fun sm_count :: "state_machine \<Rightarrow> nat" where
  "sm_count (StateMachine name ts enter exit subs) = Suc (sum_list (map sm_count subs))"

lemma sm_count_subStates: "sum_list (map (sm_count \<circ> snd) (so_subStates s)) < sm_count (snd s)"
  by (cases "snd s") (simp add: so_subStates_def comp_def)

text \<open>The search is breadth first, over a queue of state objects.\<close>

function searchStates :: "state_object list \<Rightarrow> string \<Rightarrow> state_object option" where
  "searchStates [] i = None"
| "searchStates (current # queue) i =
     (if so_id current = i then Some current else searchStates (queue @ so_subStates current) i)"
  by pat_completeness auto
termination
proof (relation "measure (\<lambda>(queue, i). sum_list (map (sm_count \<circ> snd) queue))")
  fix current queue i
  show "((queue @ so_subStates current, i), (current # queue, i)) \<in> measure (\<lambda>(queue, i). sum_list (map (sm_count \<circ> snd) queue))"
    using sm_count_subStates [of current] by simp
qed simp

definition findState :: "state_machine \<Rightarrow> string \<Rightarrow> state_object option" where
  "findState root i = searchStates [([], root)] i"

end
