(* ===== verification/ChannelManager.thy ===== *)
theory ChannelManager
  imports StateMachine
begin

text \<open>
  \<^verbatim>\<open>packages/lightning/lib/channels\<close>: the transitions (\<^verbatim>\<open>TransitionFactory.ts\<close>), the machine
  of a channel (\<^verbatim>\<open>StateMachineFactory.ts\<close>) and the manager of all channels
  (\<^verbatim>\<open>ChannelManager.ts\<close>).  The manager works over the interface \<^verbatim>\<open>IChannelLogic\<close>, here a
  record of functions, which \<^verbatim>\<open>Helpers\<close> implements.
\<close>

section \<open>The logic behind the transitions\<close>

record channel_logic =
  lg_createChannel :: "network \<Rightarrow> open_channel_request \<Rightarrow> (OpeningErrorType + channel) res"
  lg_createOpenChannelMessage :: "channel \<Rightarrow> open_channel res"
  lg_validateAcceptChannel :: "channel \<Rightarrow> accept_channel \<Rightarrow> OpeningErrorType option res"
  lg_createFundingTx :: "channel \<Rightarrow> tx res"
  lg_createRemoteCommitmentTx :: "channel \<Rightarrow> (tx_builder \<times> htlc list) res"
  lg_signCommitmentTx :: "channel \<Rightarrow> tx_builder \<Rightarrow> buffer res"
  lg_createFundingCreatedMessage :: "channel \<Rightarrow> buffer \<Rightarrow> funding_created res"
  lg_validateFundingSignedMessage :: "channel \<Rightarrow> funding_signed \<Rightarrow> OpeningErrorType option res"
  lg_validateChannelReadyMessage :: "channel \<Rightarrow> channel_ready \<Rightarrow> bool"
  lg_createChannelReadyMessage :: "channel \<Rightarrow> channel_ready res"
  lg_createErrorMessage :: "buffer \<Rightarrow> channel \<Rightarrow> bool \<Rightarrow> error_message res"
  lg_sendMessage :: "string \<Rightarrow> wire_message \<Rightarrow> effect res"
  lg_broadcastTx :: "tx \<Rightarrow> effect res"

text \<open>
  \<^verbatim>\<open>Helpers\<close>: a message goes to a peer of the repository, an unknown peer is undefined. The
  wallet accepts the transactions for which \<open>accepts\<close> holds.
\<close>

definition helpers_logic ::
  "crypto_ops \<Rightarrow> channel_wallet \<Rightarrow> channel_preferences \<Rightarrow> string list \<Rightarrow> (tx \<Rightarrow> bool) \<Rightarrow> channel_logic" where
  "helpers_logic cry w prefs peers accepts =
     \<lparr>lg_createChannel = createChannel cry w,
      lg_createOpenChannelMessage = createOpenChannelMessage,
      lg_validateAcceptChannel = validateAcceptChannel cry prefs,
      lg_createFundingTx = createFundingTx cry w,
      lg_createRemoteCommitmentTx = createRemoteCommitmentTx cry,
      lg_signCommitmentTx = signCommitmentTx cry,
      lg_createFundingCreatedMessage = createFundingCreatedMessage,
      lg_validateFundingSignedMessage = validateFundingSignedMessage cry,
      lg_validateChannelReadyMessage = validateChannelReadyMessage cry,
      lg_createChannelReadyMessage = createChannelReadyMessage,
      lg_createErrorMessage = createErrorMessage,
      lg_sendMessage = (\<lambda>peerId msg. if peerId \<in> set peers then Inr (SendMessage peerId msg) else Inl TypeError),
      lg_broadcastTx = (\<lambda>t. if accepts t then Inr (BroadcastTx t) else Inl (JsError ''broadcast''))\<rparr>"

section \<open>Transitions\<close>

definition onAcceptChannelTransition :: "crypto_ops \<Rightarrow> channel_logic \<Rightarrow> accept_channel \<Rightarrow> (channel_world, ChannelStateId option) io" where
  "onAcceptChannelTransition cry L msg =
     bind_io get_channel (\<lambda>c.
     bind_io (lift_io (lg_validateAcceptChannel L c msg)) (\<lambda>err.
     if err \<noteq> None then return_io (Some Channel_Failing)
     else then_io (on_channel (attachAcceptChannel cry msg))
         (bind_io get_channel (\<lambda>c.
          bind_io (lift_io (lg_createFundingTx L c)) (\<lambda>fundingTx.
          then_io (on_channel (attachFundingTx cry fundingTx))
         (bind_io get_channel (\<lambda>c.
          bind_io (lift_io (lg_createRemoteCommitmentTx L c)) (\<lambda>(ctx, _).
          bind_io (lift_io (lg_signCommitmentTx L c ctx)) (\<lambda>sig.
          bind_io (lift_io (lg_createFundingCreatedMessage L c sig)) (\<lambda>fundingCreated.
          then_io (emit (lg_sendMessage L (ch_peerId c) (MFundingCreated fundingCreated)))
            (return_io (Some Channel_Initializing_AwaitingFundingSigned))))))))))))"

definition onFundingSignedTransition :: "channel_logic \<Rightarrow> funding_signed \<Rightarrow> (channel_world, ChannelStateId option) io" where
  "onFundingSignedTransition L msg =
     bind_io get_channel (\<lambda>c.
     bind_io (lift_io (lg_validateFundingSignedMessage L c msg)) (\<lambda>err.
     if err \<noteq> None then return_io (Some Channel_Failing)
     else then_io (on_channel (update_io (attachFundingSigned msg)))
         (bind_io (lift_io (defined (ch_fundingTx c))) (\<lambda>fundingTx.
          then_io (emit (lg_broadcastTx L fundingTx))
            (return_io (Some Channel_Funding_AwaitingFundingConf_NoChannelReady))))))"

definition onChannelReadyTransition ::
  "crypto_ops \<Rightarrow> channel_logic \<Rightarrow> ChannelStateId \<Rightarrow> channel_ready \<Rightarrow> (channel_world, ChannelStateId option) io" where
  "onChannelReadyTransition cry L success msg =
     bind_io get_channel (\<lambda>c.
     if \<not> lg_validateChannelReadyMessage L c msg then return_io (Some Channel_Failing)
     else then_io (on_channel (attachChannelReady cry msg)) (return_io (Some success)))"

text \<open>A block contains an output of a transaction of it.\<close>

definition txHasOutPoint :: "crypto_ops \<Rightarrow> outpoint option \<Rightarrow> tx \<Rightarrow> bool res" where
  "txHasOutPoint cry target t =
     (if tx_outputs t = [] then Inr False
      else bind_res (calcTxId (cry_sha256 cry) t) (\<lambda>(txId, _).
           bind_res (defined target) (\<lambda>p.
             Inr (\<exists>i<length (tx_outputs t). op_eq p (Some \<lparr>op_txid = txId, op_outputIndex = i\<rparr>)))))"

primrec txsContainOutPoint :: "crypto_ops \<Rightarrow> outpoint option \<Rightarrow> tx list \<Rightarrow> bool res" where
  "txsContainOutPoint cry target [] = Inr False"
| "txsContainOutPoint cry target (t # ts) =
     bind_res (txHasOutPoint cry target t) (\<lambda>found. if found then Inr True else txsContainOutPoint cry target ts)"

definition containsOutPoint :: "crypto_ops \<Rightarrow> block \<Rightarrow> outpoint option \<Rightarrow> bool res" where
  "containsOutPoint cry b target = txsContainOutPoint cry target (bl_txs b)"

definition blockHeight :: "block \<Rightarrow> nat option res" where
  "blockHeight b = fst (bl_bip34 b)"

definition onFundingConfirmed :: "crypto_ops \<Rightarrow> block \<Rightarrow> (channel_world, ChannelStateId option) io" where
  "onFundingConfirmed cry b =
     bind_io get_channel (\<lambda>c.
     bind_io (lift_io (containsOutPoint cry b (ch_fundingOutPoint c))) (\<lambda>found.
     if found
     then bind_io (lift_io (blockHeight b)) (\<lambda>confirmedHeight.
          then_io (on_channel (update_io (markConfirmed confirmedHeight)))
            (return_io (Some Channel_Funding_AwaitingFundingDepth)))
     else return_io None))"

text \<open>A comparison with \<^verbatim>\<open>undefined\<close> or \<^verbatim>\<open>NaN\<close> is false.\<close>

definition heightReached :: "nat option \<Rightarrow> int option option \<Rightarrow> bool" where
  "heightReached height ready =
     (case (height, ready) of (Some h, Some (Some r)) \<Rightarrow> int h \<ge> r | _ \<Rightarrow> False)"

definition onFundingDepthReached :: "channel_logic \<Rightarrow> block \<Rightarrow> (channel_world, ChannelStateId option) io" where
  "onFundingDepthReached L b =
     bind_io get_channel (\<lambda>c.
     bind_io (lift_io (blockHeight b)) (\<lambda>height.
     if heightReached height (readyHeight c)
     then bind_io (lift_io (lg_createChannelReadyMessage L c)) (\<lambda>msg.
          then_io (emit (lg_sendMessage L (ch_peerId c) (MChannelReady msg)))
         (bind_io (lift_io (hasChannelReady c)) (\<lambda>ready.
            return_io (Some (if ready then Channel_Normal else Channel_Funding_AwaitingChannelReady)))))
     else return_io None))"

definition connectedAbandon :: "channel_logic \<Rightarrow> (channel_world, ChannelStateId option) io" where
  "connectedAbandon L =
     bind_io get_channel (\<lambda>c.
     then_io (emit (Inr (RemoveChannel c)))
    (bind_io (lift_io (lg_createErrorMessage L (map (\<lambda>ch. of_char ch) ''abandoning'') c True)) (\<lambda>msg.
     then_io (emit (lg_sendMessage L (ch_peerId c) (MError msg)))
       (return_io (Some Channel_Abandoned)))))"

definition disconnectedAbandon :: "(channel_world, ChannelStateId option) io" where
  "disconnectedAbandon =
     bind_io get_channel (\<lambda>c.
     then_io (emit (Inr (RemoveChannel c))) (return_io (Some Channel_Abandoned)))"

text \<open>
  The transition functions take their argument from the event. The casts of the code are not
  checked; a message of another class, or none, lacks the properties that are read.
\<close>

definition withMessage :: "(wire_message \<Rightarrow> 'm option) \<Rightarrow> ('m \<Rightarrow> (channel_world, ChannelStateId option) io) \<Rightarrow> transition_fn" where
  "withMessage get f event =
     (case event of None \<Rightarrow> throw_io TypeError
      | Some ev \<Rightarrow> (case ev_message ev of None \<Rightarrow> throw_io TypeError
                    | Some m \<Rightarrow> (case get m of None \<Rightarrow> throw_io TypeError | Some x \<Rightarrow> f x)))"

definition withBlock :: "(block \<Rightarrow> (channel_world, ChannelStateId option) io) \<Rightarrow> transition_fn" where
  "withBlock f event =
     (case event of None \<Rightarrow> throw_io TypeError
      | Some ev \<Rightarrow> (case ev_block ev of None \<Rightarrow> throw_io TypeError | Some b \<Rightarrow> f b))"

definition asAcceptChannel :: "wire_message \<Rightarrow> accept_channel option" where
  "asAcceptChannel m = (case m of MAcceptChannel x \<Rightarrow> Some x | _ \<Rightarrow> None)"

definition asFundingSigned :: "wire_message \<Rightarrow> funding_signed option" where
  "asFundingSigned m = (case m of MFundingSigned x \<Rightarrow> Some x | _ \<Rightarrow> None)"

definition asChannelReady :: "wire_message \<Rightarrow> channel_ready option" where
  "asChannelReady m = (case m of MChannelReady x \<Rightarrow> Some x | _ \<Rightarrow> None)"

section \<open>The machine of a channel\<close>

definition constructMachine :: "crypto_ops \<Rightarrow> channel_logic \<Rightarrow> state_machine" where
  "constructMachine cry L =
    (let awaiting_accept_channel =
           addTransition AcceptChannelMessage (withMessage asAcceptChannel (onAcceptChannelTransition cry L))
             (newStateMachine ''awaiting_accept_channel'');
         awaiting_funding_signed =
           addTransition FundingSignedMessage (withMessage asFundingSigned (onFundingSignedTransition L))
             (newStateMachine ''awaiting_funding_signed'');
         initializing =
           addTransition PeerDisconnected (\<lambda>_. disconnectedAbandon)
             (addSubState awaiting_funding_signed
               (addSubState awaiting_accept_channel (newStateMachine ''initializing'')));
         no_channel_ready =
           addTransition BlockConnected (withBlock (onFundingConfirmed cry)) (newStateMachine ''no_channel_ready'');
         awaiting_funding_conf = addSubState no_channel_ready (newStateMachine ''awaiting_funding_conf'');
         awaiting_funding_depth =
           addTransition ChannelReadyMessage
             (withMessage asChannelReady (onChannelReadyTransition cry L Channel_Funding_AwaitingFundingDepth))
             (addTransition BlockConnected (withBlock (onFundingDepthReached L))
               (newStateMachine ''awaiting_funding_depth''));
         awaiting_channel_ready =
           addTransition ChannelReadyMessage
             (withMessage asChannelReady (onChannelReadyTransition cry L Channel_Normal))
             (newStateMachine ''awaiting_channel_ready'');
         funding =
           addSubState awaiting_channel_ready (addSubState awaiting_funding_depth
             (addSubState awaiting_funding_conf (newStateMachine ''funding'')))
     in addSubState (newStateMachine ''normal'')
         (addSubState (newStateMachine ''failing'')
         (addSubState (newStateMachine ''abandoned'')
         (addSubState funding (addSubState initializing (newStateMachine ''channel''))))))"

section \<open>The manager\<close>

text \<open>
  The loop of \<^verbatim>\<open>transitionState\<close> goes on while entering a state asks for another one; \<open>fuel\<close>
  bounds it.
\<close>

primrec transitionLoop ::
  "nat \<Rightarrow> state_machine \<Rightarrow> channel_event option \<Rightarrow> state_object \<Rightarrow> string option \<Rightarrow> (channel_world, unit) io" where
  "transitionLoop 0 root event oldState newId =
     (if newId = None \<or> newId = Some [] \<or> newId = Some (so_id oldState) then return_io ()
      else throw_io (JsError ''fuel''))"
| "transitionLoop (Suc fuel) root event oldState newId =
     (case newId of None \<Rightarrow> return_io ()
      | Some i \<Rightarrow>
         if i = [] \<or> i = so_id oldState then return_io ()
         else (case findState root i of
             None \<Rightarrow> throw_io (JsError (''Failed to find state, state='' @ i))
           | Some newState \<Rightarrow>
               bind_io (onExit oldState event) (\<lambda>_.
               then_io (on_channel (update_io (\<lambda>c. c\<lparr>ch_state := Some i\<rparr>)))
              (bind_io (onEnter newState event) (\<lambda>next.
               bind_io get_channel (\<lambda>c.
               then_io (emit (Inr (SaveChannel c)))
                 (transitionLoop fuel root event newState (map_option stateId next))))))))"

text \<open>The state object of a channel; the root if it has none.\<close>

definition stateOf :: "state_machine \<Rightarrow> channel \<Rightarrow> state_object option" where
  "stateOf root c = (case ch_state c of None \<Rightarrow> None | Some i \<Rightarrow> findState root i)"

definition transitionState ::
  "state_machine \<Rightarrow> channel_event option \<Rightarrow> string option \<Rightarrow> (channel_world, unit) io" where
  "transitionState root event newId =
     bind_io get_channel (\<lambda>c.
       transitionLoop (sm_count root) root event
         (case stateOf root c of None \<Rightarrow> ([], root) | Some s \<Rightarrow> s) newId)"

text \<open>What every handler of the manager does with a channel: its event, then the transition.\<close>

definition handleEvent :: "state_machine \<Rightarrow> channel_event \<Rightarrow> (channel_world, unit) io" where
  "handleEvent root event =
     bind_io get_channel (\<lambda>c.
     bind_io (lift_io (defined (stateOf root c))) (\<lambda>s.
     bind_io (onEvent s event) (\<lambda>newState.
       transitionState root (Some event) (map_option stateId newState))))"

record channel_manager =
  mg_channels :: "channel list"
  mg_effects :: "effect list"

text \<open>\<^verbatim>\<open>channelId.equals(undefined)\<close> throws, which ends the search.\<close>

primrec findChannelById :: "channel_id \<Rightarrow> channel list \<Rightarrow> nat option res" where
  "findChannelById i [] = Inr None"
| "findChannelById i (c # cs) =
     bind_res (defined (ch_channelId c)) (\<lambda>other.
       if ci_equals i other then Inr (Some 0)
       else bind_res (findChannelById i cs) (\<lambda>n. Inr (map_option Suc n)))"

primrec findChannelByTempId :: "string \<Rightarrow> buffer \<Rightarrow> channel list \<Rightarrow> nat option res" where
  "findChannelByTempId peerId tempId [] = Inr None"
| "findChannelByTempId peerId tempId (c # cs) =
     bind_res (if ch_peerId c = peerId then bind_res (defined (ch_temporaryId c)) (\<lambda>t. Inr (t = tempId))
               else Inr False) (\<lambda>found.
       if found then Inr (Some 0)
       else bind_res (findChannelByTempId peerId tempId cs) (\<lambda>n. Inr (map_option Suc n)))"

text \<open>Running a handler on one of the channels.\<close>

definition withChannel :: "nat \<Rightarrow> (channel_world, 'a) io \<Rightarrow> (channel_manager, 'a) io" where
  "withChannel n m = (\<lambda>mg.
     case m \<lparr>cw_channel = mg_channels mg ! n, cw_effects = []\<rparr> of
       (r, w) \<Rightarrow> (r, mg\<lparr>mg_channels := (mg_channels mg)[n := cw_channel w],
                        mg_effects := mg_effects mg @ cw_effects w\<rparr>))"

definition handleFound :: "state_machine \<Rightarrow> channel_event \<Rightarrow> (channel list \<Rightarrow> nat option res) \<Rightarrow> (channel_manager, unit) io" where
  "handleFound root event search = (\<lambda>mg.
     bind_io (lift_io (search (mg_channels mg))) (\<lambda>found.
       case found of None \<Rightarrow> return_io () | Some n \<Rightarrow> withChannel n (handleEvent root event)) mg)"

definition onAcceptChannelMessage :: "state_machine \<Rightarrow> string \<Rightarrow> accept_channel \<Rightarrow> (channel_manager, unit) io" where
  "onAcceptChannelMessage root peerId msg =
     handleFound root \<lparr>ev_type = AcceptChannelMessage, ev_message = Some (MAcceptChannel msg), ev_block = None\<rparr>
       (findChannelByTempId peerId (ac_temporaryChannelId msg))"

definition onFundingSignedMessage :: "state_machine \<Rightarrow> funding_signed \<Rightarrow> (channel_manager, unit) io" where
  "onFundingSignedMessage root msg =
     handleFound root \<lparr>ev_type = FundingSignedMessage, ev_message = Some (MFundingSigned msg), ev_block = None\<rparr>
       (findChannelById (fs_channelId msg))"

definition onChannelReadyMessage :: "state_machine \<Rightarrow> channel_ready \<Rightarrow> (channel_manager, unit) io" where
  "onChannelReadyMessage root msg =
     handleFound root \<lparr>ev_type = ChannelReadyMessage, ev_message = Some (MChannelReady msg), ev_block = None\<rparr>
       (findChannelById (cr_channelId msg))"

text \<open>The log line of a connected block reads its height first.\<close>

definition onBlockConnected :: "state_machine \<Rightarrow> block \<Rightarrow> (channel_manager, unit) io" where
  "onBlockConnected root b = (\<lambda>mg.
     bind_io (lift_io (blockHeight b)) (\<lambda>_.
       each_io (\<lambda>n. withChannel n (handleEvent root \<lparr>ev_type = BlockConnected, ev_message = None, ev_block = Some b\<rparr>))
         [0..<length (mg_channels mg)]) mg)"

definition onPeerDisconnected :: "state_machine \<Rightarrow> string \<Rightarrow> (channel_manager, unit) io" where
  "onPeerDisconnected root peerId = (\<lambda>mg.
     each_io (\<lambda>n. withChannel n (handleEvent root \<lparr>ev_type = PeerDisconnected, ev_message = None, ev_block = None\<rparr>))
       (filter (\<lambda>n. ch_peerId (mg_channels mg ! n) = peerId) [0..<length (mg_channels mg)]) mg)"

text \<open>
  Opening a channel with a connected peer; \<open>ready\<close> tells whether it is.  The request is for that peer: its
  \<open>or_peerId\<close> is the identifier of both.
\<close>

definition openChannel ::
  "channel_logic \<Rightarrow> state_machine \<Rightarrow> network \<Rightarrow> bool \<Rightarrow> open_channel_request
     \<Rightarrow> (channel_manager, OpeningErrorType + channel) io" where
  "openChannel L root network ready request =
     (if \<not> ready then return_io (Inl PeerNotReady)
      else bind_io (lift_io (lg_createChannel L network request)) (\<lambda>result.
        case result of Inl e \<Rightarrow> return_io (Inl e)
        | Inr c \<Rightarrow> bind_io (lift_io (lg_createOpenChannelMessage L c)) (\<lambda>message. \<lambda>mg.
            case then_io (emit (lg_sendMessage L (or_peerId request) (MOpenChannel message)))
                   (transitionState root None (Some (stateId Channel_Initializing_AwaitingAcceptChannel)))
                   \<lparr>cw_channel = c, cw_effects = []\<rparr> of
              (Inl e, w) \<Rightarrow> (Inl e, mg\<lparr>mg_effects := mg_effects mg @ cw_effects w\<rparr>)
            | (Inr _, w) \<Rightarrow> (Inr (Inr (cw_channel w)),
                mg\<lparr>mg_channels := mg_channels mg @ [cw_channel w], mg_effects := mg_effects mg @ cw_effects w\<rparr>))))"

end
