(* ===== verification/ChannelFacts.thy ===== *)
theory ChannelFacts
  imports ChannelManager
begin

text \<open>What the state machine of a channel guarantees.\<close>

section \<open>The machine\<close>

lemma addSubState_fresh:
  "List.find (\<lambda>q. sm_name q = sm_name s) subs = None \<Longrightarrow>
     addSubState s (StateMachine name ts enter exit subs) = StateMachine name ts enter exit (subs @ [s])"
  by (simp add: addSubState_def)

lemma addTransition_fresh:
  "map_of ts type = None \<Longrightarrow>
     addTransition type f (StateMachine name ts enter exit subs) = StateMachine name (ts @ [(type, [f])]) enter exit subs"
  by (simp add: addTransition_def)

lemmas machine_build = addSubState_fresh addTransition_fresh newStateMachine_def

lemma constructMachine_eq:
  "constructMachine cry L = StateMachine ''channel'' [] None None
     [StateMachine ''initializing'' [(PeerDisconnected, [\<lambda>_. disconnectedAbandon])] None None
        [StateMachine ''awaiting_accept_channel''
           [(AcceptChannelMessage, [withMessage asAcceptChannel (onAcceptChannelTransition cry L)])] None None [],
         StateMachine ''awaiting_funding_signed''
           [(FundingSignedMessage, [withMessage asFundingSigned (onFundingSignedTransition L)])] None None []],
      StateMachine ''funding'' [] None None
        [StateMachine ''awaiting_funding_conf'' [] None None
           [StateMachine ''no_channel_ready'' [(BlockConnected, [withBlock (onFundingConfirmed cry)])] None None []],
         StateMachine ''awaiting_funding_depth''
           [(BlockConnected, [withBlock (onFundingDepthReached L)]),
            (ChannelReadyMessage, [withMessage asChannelReady (onChannelReadyTransition cry L Channel_Funding_AwaitingFundingDepth)])]
           None None [],
         StateMachine ''awaiting_channel_ready''
           [(ChannelReadyMessage, [withMessage asChannelReady (onChannelReadyTransition cry L Channel_Normal)])] None None []],
      StateMachine ''abandoned'' [] None None [],
      StateMachine ''failing'' [] None None [],
      StateMachine ''normal'' [] None None []]"
  by (simp add: constructMachine_def Let_def machine_build)

text \<open>The transition function that a state runs for an event; none if the event is not handled.\<close>

definition transitionOf ::
  "crypto_ops \<Rightarrow> channel_logic \<Rightarrow> ChannelStateId \<Rightarrow> ChannelEventType \<Rightarrow> transition_fn option" where
  "transitionOf cry L s type =
     (case s of
        Channel_Initializing_AwaitingAcceptChannel \<Rightarrow>
          if type = AcceptChannelMessage then Some (withMessage asAcceptChannel (onAcceptChannelTransition cry L))
          else if type = PeerDisconnected then Some (\<lambda>_. disconnectedAbandon) else None
      | Channel_Initializing_AwaitingFundingSigned \<Rightarrow>
          if type = FundingSignedMessage then Some (withMessage asFundingSigned (onFundingSignedTransition L))
          else if type = PeerDisconnected then Some (\<lambda>_. disconnectedAbandon) else None
      | Channel_Funding_AwaitingFundingConf_NoChannelReady \<Rightarrow>
          if type = BlockConnected then Some (withBlock (onFundingConfirmed cry)) else None
      | Channel_Funding_AwaitingFundingDepth \<Rightarrow>
          if type = BlockConnected then Some (withBlock (onFundingDepthReached L))
          else if type = ChannelReadyMessage
          then Some (withMessage asChannelReady (onChannelReadyTransition cry L Channel_Funding_AwaitingFundingDepth))
          else None
      | Channel_Funding_AwaitingChannelReady \<Rightarrow>
          if type = ChannelReadyMessage
          then Some (withMessage asChannelReady (onChannelReadyTransition cry L Channel_Normal)) else None
      | _ \<Rightarrow> None)"

lemma stateId_inj [simp]: "stateId s = stateId t \<longleftrightarrow> s = t"
  by (cases s; cases t) simp_all

lemma stateId_not_Nil [simp]: "stateId s \<noteq> []"
  by (cases s) simp_all

lemmas search_simps = so_id_def so_stack_def so_subStates_def findState_def

lemma runTransitions_single: "runTransitions [f] event = f event"
proof
  fix w show "runTransitions [f] event w = f event w"
    by (cases "f event w") (auto simp: io_simps split: sum.splits)
qed

lemma searchStates_id: "searchStates q i = Some so \<Longrightarrow> so_id so = i"
  by (induction q i rule: searchStates.induct) (auto split: if_splits)

lemma findState_id: "findState (constructMachine cry L) (stateId s) = Some so \<Longrightarrow> so_id so = stateId s"
  unfolding findState_def by (rule searchStates_id)

text \<open>The transitions of a state and of its parents, upwards.\<close>

definition handlersOf ::
  "crypto_ops \<Rightarrow> channel_logic \<Rightarrow> ChannelStateId \<Rightarrow> (ChannelEventType \<times> transition_fn list) list list" where
  "handlersOf cry L s =
     (case s of
        Channel_Initializing_AwaitingAcceptChannel \<Rightarrow>
          [[(AcceptChannelMessage, [withMessage asAcceptChannel (onAcceptChannelTransition cry L)])],
           [(PeerDisconnected, [\<lambda>_. disconnectedAbandon])], []]
      | Channel_Initializing_AwaitingFundingSigned \<Rightarrow>
          [[(FundingSignedMessage, [withMessage asFundingSigned (onFundingSignedTransition L)])],
           [(PeerDisconnected, [\<lambda>_. disconnectedAbandon])], []]
      | Channel_Funding_AwaitingFundingConf_NoChannelReady \<Rightarrow>
          [[(BlockConnected, [withBlock (onFundingConfirmed cry)])], [], [], []]
      | Channel_Funding_AwaitingFundingDepth \<Rightarrow>
          [[(BlockConnected, [withBlock (onFundingDepthReached L)]),
            (ChannelReadyMessage, [withMessage asChannelReady (onChannelReadyTransition cry L Channel_Funding_AwaitingFundingDepth)])],
           [], []]
      | Channel_Funding_AwaitingChannelReady \<Rightarrow>
          [[(ChannelReadyMessage, [withMessage asChannelReady (onChannelReadyTransition cry L Channel_Normal)])], [], []]
      | _ \<Rightarrow> [[], []])"

lemma findState_object:
  "\<exists>so. findState (constructMachine cry L) (stateId s) = Some so
    \<and> map sm_transitions (rev (so_stack so)) = handlersOf cry L s
    \<and> sm_enterFn (snd so) = None \<and> sm_exitFn (snd so) = None"
  by (cases s) (simp_all add: constructMachine_eq search_simps handlersOf_def)

lemma findState_handlers:
  assumes "findState (constructMachine cry L) (stateId s) = Some so"
  shows "map sm_transitions (rev (so_stack so)) = handlersOf cry L s"
    "sm_enterFn (snd so) = None" "sm_exitFn (snd so) = None"
  using findState_object [of cry L s] assms by auto

lemma find_map: "List.find P (map f xs) = map_option f (List.find (\<lambda>x. P (f x)) xs)"
  by (induction xs) auto

lemma onEvent_handlers:
  "onEvent so ev = (case List.find (\<lambda>ts. map_of ts (ev_type ev) \<noteq> None) (map sm_transitions (rev (so_stack so))) of
     None \<Rightarrow> return_io None
   | Some ts \<Rightarrow> runTransitions (case map_of ts (ev_type ev) of None \<Rightarrow> [] | Some fs \<Rightarrow> fs) (Some ev))"
proof -
  have "sm_handlesEvent (ev_type ev) = (\<lambda>m. map_of (sm_transitions m) (ev_type ev) \<noteq> None)"
    by (simp add: fun_eq_iff sm_handlesEvent_def)
  then show ?thesis unfolding onEvent_def find_map
    by (cases "List.find (\<lambda>m. map_of (sm_transitions m) (ev_type ev) \<noteq> None) (rev (so_stack so))")
      (simp_all add: sm_getTransitions_def)
qed

lemma findState_event:
  assumes "findState (constructMachine cry L) (stateId s) = Some so"
  shows "onEvent so ev = (case transitionOf cry L s (ev_type ev) of None \<Rightarrow> return_io None | Some f \<Rightarrow> f (Some ev))"
  unfolding onEvent_handlers findState_handlers(1) [OF assms]
  by (cases s) (simp_all add: handlersOf_def transitionOf_def runTransitions_single del: runTransitions.simps)

section \<open>One event\<close>

text \<open>Entering a state: it is stored in the channel, and the channel is saved.\<close>

definition enterState :: "ChannelStateId \<Rightarrow> channel_world \<Rightarrow> channel_world" where
  "enterState s w = (let c = (cw_channel w)\<lparr>ch_state := Some (stateId s)\<rparr>
     in w\<lparr>cw_channel := c, cw_effects := cw_effects w @ [SaveChannel c]\<rparr>)"

lemma sm_count_machine: "sm_count (constructMachine cry L) = Suc (Suc 10)"
  by (simp add: constructMachine_eq)

lemma transitionLoop_enter:
  assumes "so_id old \<noteq> stateId s" "sm_exitFn (snd old) = None"
  shows "transitionLoop (Suc (Suc n)) (constructMachine cry L) ev old (Some (stateId s)) w = (Inr (), enterState s w)"
proof -
  obtain so where so: "findState (constructMachine cry L) (stateId s) = Some so"
    "sm_enterFn (snd so) = None"
    using findState_object [of cry L s] by blast
  then show ?thesis using assms
    by (simp add: onExit_def onEnter_def callOptional_def io_simps enterState_def Let_def)
qed

lemma transitionLoop_stay:
  "transitionLoop (Suc n) root ev old None w = (Inr (), w)"
  "so_id old = i \<Longrightarrow> transitionLoop (Suc n) root ev old (Some i) w = (Inr (), w)"
  by (simp_all add: io_simps)

lemma transitionState_from:
  assumes "ch_state (cw_channel w) = Some (stateId s)"
  shows "transitionState (constructMachine cry L) ev (map_option stateId r) w
    = (Inr (), case r of None \<Rightarrow> w | Some s' \<Rightarrow> if s' = s then w else enterState s' w)"
proof -
  obtain so where so: "findState (constructMachine cry L) (stateId s) = Some so" "sm_exitFn (snd so) = None"
    using findState_object [of cry L s] by blast
  note i = findState_id [OF so(1)]
  have "transitionState (constructMachine cry L) ev (map_option stateId r) w
    = transitionLoop (Suc (Suc 10)) (constructMachine cry L) ev so (map_option stateId r) w"
    using so assms by (simp add: transitionState_def io_simps stateOf_def sm_count_machine del: transitionLoop.simps)
  then show ?thesis
    using transitionLoop_enter [of so _ 10 cry L ev w] transitionLoop_stay [where n = 11] so(2) i
    by (cases r) (simp_all del: transitionLoop.simps)
qed

lemma transitionState_opening:
  assumes "ch_state (cw_channel w) = None"
  shows "transitionState (constructMachine cry L) ev (Some (stateId s)) w = (Inr (), enterState s w)"
proof -
  have "so_id ([], constructMachine cry L) \<noteq> stateId s" "sm_exitFn (constructMachine cry L) = None"
    by (simp_all add: constructMachine_eq search_simps, cases s, simp_all)
  then show ?thesis
    using transitionLoop_enter [of "([], constructMachine cry L)" s 10 cry L ev w] assms
    by (simp add: transitionState_def io_simps stateOf_def sm_count_machine del: transitionLoop.simps)
qed

section \<open>What an operation leaves unchanged\<close>

lemma preserves_get_channel [preserves_intro]: "preserves g get_channel"
  by (simp add: preserves_def io_simps)

lemma preserves_on_channel [preserves_intro]:
  "preserves (\<lambda>c. g c) m \<Longrightarrow> preserves (\<lambda>w. (g (cw_channel w), cw_effects w)) (on_channel m)"
  by (auto simp: preserves_def io_simps split: prod.splits) (metis snd_conv)

lemma preserves_attachKey:
  "(\<And>p c. g (setTheirs (f p) c) = g c) \<Longrightarrow> preserves g (attachKey cry key f)"
  unfolding attachKey_def by (intro preserves_intro)

text \<open>What the verification of a \<^verbatim>\<open>funding_signed\<close> message depends on.\<close>

definition localView :: "channel \<Rightarrow> channel" where
  "localView c = setOurs (\<lambda>s. s\<lparr>side_nextCommitmentSig := None\<rparr>)
     (setTheirs (\<lambda>s. s\<lparr>side_commitmentNumber := None, side_commitmentPoint := None, side_commitmentSig := None,
         side_nextCommitmentNumber := None, side_nextCommitmentPoint := None, side_nextCommitmentSig := None\<rparr>)
       (c\<lparr>ch_fundingConfirmedHeight := None, ch_state := None\<rparr>))"

lemma localView_simps [simp]:
  "localView (c\<lparr>ch_state := x\<rparr>) = localView c"
  "localView (markConfirmed h c) = localView c"
  "localView (attachFundingSigned msg c) = localView c"
  by (simp_all add: localView_def setOurs_def setTheirs_def markConfirmed_def attachFundingSigned_def)

lemma localView_fields:
  assumes "localView c = localView c'"
  shows "ch_fundingTx c = ch_fundingTx c'" "ch_minimumDepth c = ch_minimumDepth c'"
  using arg_cong [where f = ch_fundingTx, OF assms] arg_cong [where f = ch_minimumDepth, OF assms]
  by (auto simp: localView_def setOurs_def setTheirs_def)

lemma attachChannelReady_keeps:
  "preserves (\<lambda>c. (localView c, ch_state c, ch_fundingConfirmedHeight c, ch_ourSide c)) (attachChannelReady cry msg)"
  unfolding attachChannelReady_def
  by (rule preserves_state, intro preserves_intro preserves_attachKey)
    (simp_all add: localView_def setOurs_def setTheirs_def)

lemma attachFundingScript_keeps: "preserves (\<lambda>c. (ch_state c, ch_peerId c)) (attachFundingScript cry)"
  unfolding attachFundingScript_def by (rule preserves_state, intro preserves_intro) simp

lemma attachAcceptChannel_keeps: "preserves (\<lambda>c. (ch_state c, ch_peerId c)) (attachAcceptChannel cry msg)"
  unfolding attachAcceptChannel_def
  by (intro preserves_intro preserves_attachKey attachFundingScript_keeps) (simp_all add: setOurs_def setTheirs_def)

lemma attachFundingTx_keeps: "preserves (\<lambda>c. (ch_state c, ch_peerId c)) (attachFundingTx cry t)"
  unfolding attachFundingTx_def Let_def by (intro preserves_intro) simp_all

lemma attachChannelReady_ready:
  "attachChannelReady cry msg c = (Inr u, c') \<Longrightarrow> hasChannelReady c' = Inr True"
  by (auto simp: attachChannelReady_def attachKey_def io_simps hasChannelReady_def setTheirs_def cn_next_def
      split: sum.splits prod.splits)

section \<open>The invariant of a channel\<close>

definition broadcasts :: "effect list \<Rightarrow> tx list" where
  "broadcasts es = List.map_filter (\<lambda>e. case e of BroadcastTx t \<Rightarrow> Some t | _ \<Rightarrow> None) es"

lemma broadcasts_simps [simp]:
  "broadcasts [] = []"
  "broadcasts (es @ es') = broadcasts es @ broadcasts es'"
  "broadcasts (BroadcastTx t # es) = t # broadcasts es"
  "broadcasts (SendMessage p m # es) = broadcasts es"
  "broadcasts (SaveChannel c # es) = broadcasts es"
  "broadcasts (RemoveChannel c # es) = broadcasts es"
  by (simp_all add: broadcasts_def map_filter_def)

text \<open>
  The funding transaction was broadcast once, it is that of the channel, and the channel holds a
  signature of the peer that validates for its own commitment transaction.
\<close>

definition fundedSafely :: "channel_logic \<Rightarrow> channel_world \<Rightarrow> bool" where
  "fundedSafely L w \<longleftrightarrow>
     (let c = cw_channel w in \<exists>t msg. broadcasts (cw_effects w) = [t] \<and> ch_fundingTx c = Some t
        \<and> side_nextCommitmentSig (ch_ourSide c) = Some (fs_signature msg)
        \<and> lg_validateFundingSignedMessage L c msg = Inr None)"

definition confirmed :: "channel \<Rightarrow> bool" where
  "confirmed c \<longleftrightarrow> ch_fundingConfirmedHeight c \<noteq> None"

definition confirmedAt :: "channel \<Rightarrow> bool" where
  "confirmedAt c \<longleftrightarrow> (\<exists>h d. ch_fundingConfirmedHeight c = Some (Some h) \<and> ch_minimumDepth c = Some d)"

definition sentReady :: "effect list \<Rightarrow> bool" where
  "sentReady es \<longleftrightarrow> (\<exists>p m. SendMessage p (MChannelReady m) \<in> set es)"

text \<open>What holds of a channel in each of its states.\<close>

primrec stateInv :: "channel_logic \<Rightarrow> channel_world \<Rightarrow> ChannelStateId \<Rightarrow> bool" where
  "stateInv L w Channel_Initializing_AwaitingAcceptChannel = (broadcasts (cw_effects w) = [])"
| "stateInv L w Channel_Initializing_AwaitingFundingSigned = (broadcasts (cw_effects w) = [])"
| "stateInv L w Channel_Funding_AwaitingFundingConf_NoChannelReady = fundedSafely L w"
| "stateInv L w Channel_Funding_AwaitingFundingDepth = (fundedSafely L w \<and> confirmed (cw_channel w))"
| "stateInv L w Channel_Funding_AwaitingChannelReady =
     (fundedSafely L w \<and> confirmedAt (cw_channel w) \<and> sentReady (cw_effects w))"
| "stateInv L w Channel_Failing = (broadcasts (cw_effects w) = [] \<or> fundedSafely L w)"
| "stateInv L w Channel_Normal =
     (fundedSafely L w \<and> confirmedAt (cw_channel w) \<and> sentReady (cw_effects w)
      \<and> hasChannelReady (cw_channel w) = Inr True)"
| "stateInv L w Channel_Abandoned = (broadcasts (cw_effects w) = [])"

definition channelInv :: "channel_logic \<Rightarrow> channel_world \<Rightarrow> bool" where
  "channelInv L w \<longleftrightarrow> (\<exists>s. ch_state (cw_channel w) = Some (stateId s) \<and> stateInv L w s)"

definition afterTransition ::
  "ChannelStateId \<Rightarrow> ChannelStateId option res \<times> channel_world \<Rightarrow> unit res \<times> channel_world" where
  "afterTransition s p =
     (case p of (Inl e, w) \<Rightarrow> (Inl e, w)
      | (Inr None, w) \<Rightarrow> (Inr (), w)
      | (Inr (Some s'), w) \<Rightarrow> (Inr (), if s' = s then w else enterState s' w))"

lemma handleEvent_eq:
  assumes "ch_state (cw_channel w) = Some (stateId s)"
    "\<And>f. transitionOf cry L s (ev_type ev) = Some f \<Longrightarrow> ch_state (cw_channel (snd (f (Some ev) w))) = Some (stateId s)"
  shows "handleEvent (constructMachine cry L) ev w
    = (case transitionOf cry L s (ev_type ev) of None \<Rightarrow> (Inr (), w) | Some f \<Rightarrow> afterTransition s (f (Some ev) w))"
proof -
  obtain so where so: "findState (constructMachine cry L) (stateId s) = Some so"
    using findState_object [of cry L s] by blast
  have start: "handleEvent (constructMachine cry L) ev w
    = bind_io (onEvent so ev) (\<lambda>r. transitionState (constructMachine cry L) (Some ev) (map_option stateId r)) w"
    using so assms(1) by (simp add: handleEvent_def io_simps stateOf_def)
  show ?thesis
  proof (cases "transitionOf cry L s (ev_type ev)")
    case None
    then show ?thesis using start findState_event [OF so, of ev] transitionState_from [OF assms(1), where r = None]
      by (simp add: io_simps)
  next
    case (Some f)
    obtain r w' where f: "f (Some ev) w = (r, w')" by fastforce
    have "ch_state (cw_channel w') = Some (stateId s)" using assms(2) [OF Some] f by simp
    note t = transitionState_from [OF this]
    show ?thesis using start findState_event [OF so, of ev] Some f t
      by (cases r) (auto simp: io_simps afterTransition_def split: option.splits)
  qed
qed

lemma fundedSafely_cong:
  assumes "fundedSafely L w" "\<And>c c' msg. localView c = localView c' \<Longrightarrow>
      lg_validateFundingSignedMessage L c msg = lg_validateFundingSignedMessage L c' msg"
    "localView (cw_channel w') = localView (cw_channel w)"
    "side_nextCommitmentSig (ch_ourSide (cw_channel w')) = side_nextCommitmentSig (ch_ourSide (cw_channel w))"
    "broadcasts (cw_effects w') = broadcasts (cw_effects w)"
  shows "fundedSafely L w'"
  using assms(1) localView_fields(1) [OF assms(3)] assms(2) [OF assms(3)] assms(4,5)
  by (auto simp: fundedSafely_def Let_def)

lemma enterState_simps [simp]:
  "cw_channel (enterState s w) = (cw_channel w)\<lparr>ch_state := Some (stateId s)\<rparr>"
  "broadcasts (cw_effects (enterState s w)) = broadcasts (cw_effects w)"
  "sentReady (cw_effects (enterState s w)) = sentReady (cw_effects w)"
  by (simp_all add: enterState_def Let_def sentReady_def)

lemma channel_state_simps [simp]:
  "confirmed (c\<lparr>ch_state := x\<rparr>) = confirmed c" "confirmedAt (c\<lparr>ch_state := x\<rparr>) = confirmedAt c"
  "hasChannelReady (c\<lparr>ch_state := x\<rparr>) = hasChannelReady c" "confirmed (markConfirmed h c)"
  by (simp_all add: confirmed_def confirmedAt_def hasChannelReady_def markConfirmed_def)

lemma withMessage_cases:
  assumes "withMessage get f (Some ev) w = (r, w')"
  obtains "r = Inl TypeError" "w' = w" | x where "f x w = (r, w')"
  using assms by (auto simp: withMessage_def io_simps split: option.splits)

lemma withBlock_cases:
  assumes "withBlock f (Some ev) w = (r, w')"
  obtains "r = Inl TypeError" "w' = w" | b where "f b w = (r, w')"
  using assms by (auto simp: withBlock_def io_simps split: option.splits)

lemma heightReached_confirmed: "heightReached h (readyHeight c) \<Longrightarrow> confirmedAt c"
  by (auto simp: heightReached_def readyHeight_def confirmedAt_def split: option.splits)

lemma funding_confirmed_result:
  assumes "onFundingConfirmed cry b w = (r, w')"
  shows "(w' = w \<and> (\<forall>s. r = Inr s \<longrightarrow> s = None))
    \<or> (\<exists>h. w' = w\<lparr>cw_channel := markConfirmed h (cw_channel w)\<rparr> \<and> r = Inr (Some Channel_Funding_AwaitingFundingDepth))"
  using assms by (auto simp: onFundingConfirmed_def io_simps split: sum.splits if_splits)

text \<open>
  What the transitions rely on: messages and broadcasts are what they say, the verification of
  \<^verbatim>\<open>funding_signed\<close> looks at nothing that changes later, a new channel has no state yet, and a point
  that has been validated can be attached.
\<close>

locale channel_logic_contract =
  fixes cry :: crypto_ops and L :: channel_logic
  assumes send: "lg_sendMessage L p m = Inr e \<Longrightarrow> e = SendMessage p m"
    and broadcast: "lg_broadcastTx L t = Inr e \<Longrightarrow> e = BroadcastTx t"
    and funding_view: "localView c = localView c' \<Longrightarrow>
      lg_validateFundingSignedMessage L c msg = lg_validateFundingSignedMessage L c' msg"
    and created: "lg_createChannel L n q = Inr (Inr c) \<Longrightarrow> ch_state c = None"
    and ready_key: "lg_validateChannelReadyMessage L c r \<Longrightarrow> cry_validPublicKey cry (cr_nextPerCommitmentPoint r)"
begin

lemma emit_send: "preserves (\<lambda>w. (cw_channel w, broadcasts (cw_effects w))) (emit (lg_sendMessage L p m))"
  by (cases "lg_sendMessage L p m") (auto simp: preserves_def io_simps dest: send)

lemma accept_keeps:
  "preserves (\<lambda>w. (ch_state (cw_channel w), broadcasts (cw_effects w))) (onAcceptChannelTransition cry L msg)"
proof -
  have chan: "preserves (\<lambda>w. (ch_state (cw_channel w), broadcasts (cw_effects w))) (on_channel m)"
    if "preserves (\<lambda>c. (ch_state c, ch_peerId c)) m" for m :: "(channel, unit) io"
    using preserves_comp [where h = "\<lambda>((s, p), es). (s, broadcasts es)", OF preserves_on_channel [OF that]] by simp
  have em: "preserves (\<lambda>w. (ch_state (cw_channel w), broadcasts (cw_effects w))) (emit (lg_sendMessage L p m))" for p m
    using preserves_comp [where h = "\<lambda>(c, b). (ch_state c, b)", OF emit_send] by simp
  show ?thesis unfolding onAcceptChannelTransition_def
    by (intro preserves_intro chan em attachAcceptChannel_keeps attachFundingTx_keeps)
qed

lemma accept_result:
  "onAcceptChannelTransition cry L msg w = (Inr r, w') \<Longrightarrow>
     r = Some Channel_Failing \<or> r = Some Channel_Initializing_AwaitingFundingSigned"
  by (auto simp: onAcceptChannelTransition_def io_simps split: sum.splits prod.splits if_splits)

lemma funding_signed_result:
  assumes "onFundingSignedTransition L msg w = (r, w')"
  shows "ch_state (cw_channel w') = ch_state (cw_channel w)"
    and "broadcasts (cw_effects w) = [] \<Longrightarrow>
      (broadcasts (cw_effects w') = [] \<and> (\<forall>s. r = Inr s \<longrightarrow> s = Some Channel_Failing))
      \<or> (fundedSafely L w' \<and> r = Inr (Some Channel_Funding_AwaitingFundingConf_NoChannelReady))"
proof -
  let ?c = "cw_channel w"
  have v: "lg_validateFundingSignedMessage L (attachFundingSigned msg ?c) msg = lg_validateFundingSignedMessage L ?c msg"
    by (rule funding_view) simp
  have f: "ch_fundingTx (attachFundingSigned msg ?c) = ch_fundingTx ?c"
    "ch_state (attachFundingSigned msg ?c) = ch_state ?c"
    "side_nextCommitmentSig (ch_ourSide (attachFundingSigned msg ?c)) = Some (fs_signature msg)"
    by (simp_all add: attachFundingSigned_def setOurs_def)
  note def = assms [unfolded onFundingSignedTransition_def]
  show "ch_state (cw_channel w') = ch_state (cw_channel w)"
    using def f by (auto simp: io_simps emit_def split: sum.splits if_splits)
  show "(broadcasts (cw_effects w') = [] \<and> (\<forall>s. r = Inr s \<longrightarrow> s = Some Channel_Failing))
      \<or> (fundedSafely L w' \<and> r = Inr (Some Channel_Funding_AwaitingFundingConf_NoChannelReady))"
    if "broadcasts (cw_effects w) = []"
    using def f v that
    by (auto simp: io_simps emit_def fundedSafely_def Let_def defined_def dest: broadcast
        split: sum.splits if_splits option.splits)
qed

lemma depth_reached_result:
  assumes "onFundingDepthReached L b w = (r, w')"
  shows "cw_channel w' = cw_channel w" "broadcasts (cw_effects w') = broadcasts (cw_effects w)"
    and "r = Inr (Some s) \<Longrightarrow> confirmedAt (cw_channel w) \<and> sentReady (cw_effects w')
      \<and> (s = Channel_Normal \<and> hasChannelReady (cw_channel w) = Inr True \<or> s = Channel_Funding_AwaitingChannelReady)"
proof -
  note def = assms [unfolded onFundingDepthReached_def]
  show "cw_channel w' = cw_channel w" "broadcasts (cw_effects w') = broadcasts (cw_effects w)"
    using def by (auto simp: io_simps emit_def dest: send split: sum.splits if_splits)
  show "confirmedAt (cw_channel w) \<and> sentReady (cw_effects w')
      \<and> (s = Channel_Normal \<and> hasChannelReady (cw_channel w) = Inr True \<or> s = Channel_Funding_AwaitingChannelReady)"
    if "r = Inr (Some s)"
    using def that by (auto simp: io_simps emit_def sentReady_def dest: heightReached_confirmed
        split: sum.splits if_splits) (metis send)+
qed

lemma channel_ready_result:
  assumes "onChannelReadyTransition cry L success msg w = (r, w')"
  shows "localView (cw_channel w') = localView (cw_channel w)" "ch_state (cw_channel w') = ch_state (cw_channel w)"
    "ch_fundingConfirmedHeight (cw_channel w') = ch_fundingConfirmedHeight (cw_channel w)"
    "ch_ourSide (cw_channel w') = ch_ourSide (cw_channel w)" "cw_effects w' = cw_effects w"
    and "r = Inr s \<Longrightarrow> s = Some Channel_Failing \<or> s = Some success \<and> hasChannelReady (cw_channel w') = Inr True"
proof -
  have "preserves (\<lambda>w. ((\<lambda>c. (localView c, ch_state c, ch_fundingConfirmedHeight c, ch_ourSide c)) (cw_channel w), cw_effects w))
      (onChannelReadyTransition cry L success msg)"
    unfolding onChannelReadyTransition_def by (intro preserves_intro preserves_on_channel attachChannelReady_keeps)
  from preservesD [OF this assms]
  show "localView (cw_channel w') = localView (cw_channel w)" "ch_state (cw_channel w') = ch_state (cw_channel w)"
    "ch_fundingConfirmedHeight (cw_channel w') = ch_fundingConfirmedHeight (cw_channel w)"
    "ch_ourSide (cw_channel w') = ch_ourSide (cw_channel w)" "cw_effects w' = cw_effects w"
    by auto
  show "r = Inr s \<Longrightarrow> s = Some Channel_Failing \<or> s = Some success \<and> hasChannelReady (cw_channel w') = Inr True"
    using assms attachChannelReady_ready [of cry msg "cw_channel w"]
    by (auto simp: onChannelReadyTransition_def io_simps split: sum.splits prod.splits if_splits)
qed

lemma accept_keeps_both:
  assumes "onAcceptChannelTransition cry L msg w = (r, w')"
  shows "ch_state (cw_channel w') = ch_state (cw_channel w)" "broadcasts (cw_effects w') = broadcasts (cw_effects w)"
  using preservesD [OF accept_keeps assms] by simp_all

lemma accept_outcome:
  assumes "onAcceptChannelTransition cry L msg w = (r, w')"
  shows "broadcasts (cw_effects w') = broadcasts (cw_effects w) \<and>
    (\<forall>s. r = Inr s \<longrightarrow> s = Some Channel_Failing \<or> s = Some Channel_Initializing_AwaitingFundingSigned)"
  using accept_keeps_both(2) [OF assms] accept_result assms by blast

lemma transition_keeps_state:
  assumes "transitionOf cry L s type = Some f" "f (Some ev) w = (r, w')"
  shows "ch_state (cw_channel w') = ch_state (cw_channel w)"
  using assms
  by (cases s) (auto simp: transitionOf_def disconnectedAbandon_def io_simps markConfirmed_def
      elim!: withMessage_cases withBlock_cases split: if_splits
      dest!: depth_reached_result(1) channel_ready_result(2) funding_signed_result(1) funding_confirmed_result
      dest: accept_keeps_both(1))

lemma stateInv_enter: "stateInv L w s \<Longrightarrow> stateInv L (enterState s' w) s"
proof -
  have "fundedSafely L (enterState s' w)" if "fundedSafely L w"
    using that funding_view by (rule fundedSafely_cong) (simp_all)
  then show "stateInv L w s \<Longrightarrow> stateInv L (enterState s' w) s" by (cases s) auto
qed

text \<open>Where a transition leads, the invariant of that state holds; where it does not lead anywhere, the old one.\<close>

definition goodOutcome :: "ChannelStateId \<Rightarrow> ChannelStateId option res \<Rightarrow> channel_world \<Rightarrow> bool" where
  "goodOutcome s r w \<longleftrightarrow> (case r of Inr (Some s') \<Rightarrow> stateInv L w s' | _ \<Rightarrow> stateInv L w s)"

lemma ready_outcome:
  assumes "onChannelReadyTransition cry L success msg w = (r, w')" "fundedSafely L w"
  shows "fundedSafely L w'" "confirmed (cw_channel w) \<Longrightarrow> confirmed (cw_channel w')"
    "confirmedAt (cw_channel w) \<Longrightarrow> confirmedAt (cw_channel w')"
    "r = Inr s \<Longrightarrow> s = Some Channel_Failing \<or> s = Some success \<and> hasChannelReady (cw_channel w') = Inr True"
proof -
  note res = channel_ready_result [OF assms(1)]
  show "fundedSafely L w'" using assms(2) funding_view by (rule fundedSafely_cong) (simp_all add: res)
  show "confirmed (cw_channel w) \<Longrightarrow> confirmed (cw_channel w')"
    "confirmedAt (cw_channel w) \<Longrightarrow> confirmedAt (cw_channel w')"
    using res(3) localView_fields(2) [OF res(1)] by (auto simp: confirmed_def confirmedAt_def)
  show "r = Inr s \<Longrightarrow> s = Some Channel_Failing \<or> s = Some success \<and> hasChannelReady (cw_channel w') = Inr True"
    by (rule res(6))
qed

lemma confirmed_outcome:
  assumes "onFundingConfirmed cry b w = (r, w')" "fundedSafely L w"
  shows "fundedSafely L w'" "r = Inr (Some s) \<Longrightarrow> s = Channel_Funding_AwaitingFundingDepth \<and> confirmed (cw_channel w')"
proof -
  show "fundedSafely L w'" using assms(2) funding_view
    by (rule fundedSafely_cong) (use funding_confirmed_result [OF assms(1)] in \<open>auto simp: markConfirmed_def localView_simps(2) [unfolded markConfirmed_def]\<close>)
  show "r = Inr (Some s) \<Longrightarrow> s = Channel_Funding_AwaitingFundingDepth \<and> confirmed (cw_channel w')"
    using funding_confirmed_result [OF assms(1)] by auto
qed

lemma depth_outcome:
  assumes "onFundingDepthReached L b w = (r, w')" "fundedSafely L w"
  shows "fundedSafely L w'"
  using assms(2) funding_view by (rule fundedSafely_cong) (simp_all add: depth_reached_result [OF assms(1)])

lemma goodOutcome_simps [simp]:
  "goodOutcome s (Inl e) w = stateInv L w s" "goodOutcome s (Inr None) w = stateInv L w s"
  "goodOutcome s (Inr (Some s')) w = stateInv L w s'"
  by (simp_all add: goodOutcome_def)

lemma good_accept:
  assumes "onAcceptChannelTransition cry L msg w = (r, w')" "stateInv L w Channel_Initializing_AwaitingAcceptChannel"
  shows "goodOutcome Channel_Initializing_AwaitingAcceptChannel r w'"
  using accept_outcome [OF assms(1)] assms(2) by (cases r) auto

lemma good_funding_signed:
  assumes "onFundingSignedTransition L msg w = (r, w')" "stateInv L w Channel_Initializing_AwaitingFundingSigned"
  shows "goodOutcome Channel_Initializing_AwaitingFundingSigned r w'"
  using funding_signed_result(2) [OF assms(1)] assms(2) by (cases r) auto

lemma good_confirmed:
  assumes "onFundingConfirmed cry b w = (r, w')" "stateInv L w Channel_Funding_AwaitingFundingConf_NoChannelReady"
  shows "goodOutcome Channel_Funding_AwaitingFundingConf_NoChannelReady r w'"
proof -
  have safe: "fundedSafely L w'" using confirmed_outcome(1) [OF assms(1)] assms(2) by simp
  show ?thesis
  proof (cases "\<exists>s. r = Inr (Some s)")
    case True
    then obtain s where "r = Inr (Some s)" by blast
    then show ?thesis using safe confirmed_outcome(2) [OF assms(1), of s] assms(2) by simp
  next
    case False
    then have "r = Inr None \<or> (\<exists>e. r = Inl e)" by (cases r) auto
    then show ?thesis using safe by auto
  qed
qed

lemma good_depth:
  assumes "onFundingDepthReached L b w = (r, w')" "stateInv L w Channel_Funding_AwaitingFundingDepth"
  shows "goodOutcome Channel_Funding_AwaitingFundingDepth r w'"
proof -
  have safe: "fundedSafely L w'" "confirmed (cw_channel w')"
    using depth_outcome [OF assms(1)] depth_reached_result(1) [OF assms(1)] assms(2) by simp_all
  show ?thesis
  proof (cases "\<exists>s. r = Inr (Some s)")
    case True
    then obtain s where "r = Inr (Some s)" by blast
    then show ?thesis using safe depth_reached_result(1,3) [OF assms(1)] by auto
  next
    case False
    then have "r = Inr None \<or> (\<exists>e. r = Inl e)" by (cases r) auto
    then show ?thesis using safe by auto
  qed
qed

lemma good_ready:
  assumes "onChannelReadyTransition cry L success msg w = (r, w')" "stateInv L w s"
    "s = Channel_Funding_AwaitingFundingDepth \<and> success = s
      \<or> s = Channel_Funding_AwaitingChannelReady \<and> success = Channel_Normal"
  shows "goodOutcome s r w'"
proof -
  have "fundedSafely L w" using assms(2,3) by auto
  note res = ready_outcome [OF assms(1) this] channel_ready_result(5) [OF assms(1)]
  show ?thesis
  proof (cases r)
    case (Inl e)
    then show ?thesis using res assms(2,3) by auto
  next
    case (Inr a)
    then show ?thesis using res(1-3,5) res(4) [OF Inr] assms(2,3) by auto
  qed
qed

lemma good_disconnected:
  "disconnectedAbandon w = (r, w') \<Longrightarrow> broadcasts (cw_effects w) = [] \<Longrightarrow>
     r = Inr (Some Channel_Abandoned) \<and> broadcasts (cw_effects w') = []"
  by (auto simp: disconnectedAbandon_def io_simps)

lemma transition_outcome:
  assumes f: "transitionOf cry L s type = Some f" "f (Some ev) w = (r, w')" and inv: "stateInv L w s"
  shows "goodOutcome s r w'"
proof (cases s)
  case Channel_Initializing_AwaitingAcceptChannel
  then show ?thesis using f inv
    by (auto simp: transitionOf_def split: if_splits elim!: withMessage_cases intro: good_accept dest!: good_disconnected)
next
  case Channel_Initializing_AwaitingFundingSigned
  then show ?thesis using f inv
    by (auto simp: transitionOf_def split: if_splits elim!: withMessage_cases intro: good_funding_signed dest!: good_disconnected)
next
  case Channel_Funding_AwaitingFundingConf_NoChannelReady
  then show ?thesis using f inv
    by (auto simp: transitionOf_def split: if_splits elim!: withBlock_cases intro: good_confirmed)
next
  case Channel_Funding_AwaitingFundingDepth
  then show ?thesis using f inv
    by (auto simp: transitionOf_def split: if_splits elim!: withBlock_cases withMessage_cases intro: good_depth good_ready)
next
  case Channel_Funding_AwaitingChannelReady
  then show ?thesis using f inv
    by (auto simp: transitionOf_def split: if_splits elim!: withMessage_cases intro: good_ready)
qed (use f in \<open>simp_all add: transitionOf_def\<close>)

lemma channelInv_step:
  assumes "channelInv L w"
  shows "channelInv L (snd (handleEvent (constructMachine cry L) ev w))"
proof -
  from assms obtain s where s: "ch_state (cw_channel w) = Some (stateId s)" "stateInv L w s"
    by (auto simp: channelInv_def)
  have keep: "ch_state (cw_channel (snd (f (Some ev) w))) = Some (stateId s)"
    if "transitionOf cry L s (ev_type ev) = Some f" for f
    using transition_keeps_state [OF that, of ev w] s(1) by (metis surjective_pairing)
  have eq: "handleEvent (constructMachine cry L) ev w
    = (case transitionOf cry L s (ev_type ev) of None \<Rightarrow> (Inr (), w) | Some f \<Rightarrow> afterTransition s (f (Some ev) w))"
    by (rule handleEvent_eq) (rule s(1), rule keep)
  show ?thesis
  proof (cases "transitionOf cry L s (ev_type ev)")
    case None
    then show ?thesis using eq assms by simp
  next
    case (Some f)
    obtain r w' where f: "f (Some ev) w = (r, w')" by fastforce
    note good = transition_outcome [OF Some f s(2)]
    have "ch_state (cw_channel w') = Some (stateId s)" using keep [OF Some] f by simp
    then have "channelInv L (snd (afterTransition s (r, w')))"
      using good by (cases r) (auto simp: afterTransition_def goodOutcome_def channelInv_def
          intro: stateInv_enter split: option.splits)
    then show ?thesis using eq Some f by simp
  qed
qed

lemma channelInv_opened:
  assumes "lg_createChannel L network request = Inr (Inr c)"
    "then_io (emit (lg_sendMessage L p m))
       (transitionState (constructMachine cry L) None (Some (stateId Channel_Initializing_AwaitingAcceptChannel)))
       \<lparr>cw_channel = c, cw_effects = []\<rparr> = (Inr (), w)"
  shows "channelInv L w"
proof -
  obtain e where e: "lg_sendMessage L p m = Inr e"
    using assms(2) by (cases "lg_sendMessage L p m") (auto simp: io_simps)
  then have "w = enterState Channel_Initializing_AwaitingAcceptChannel \<lparr>cw_channel = c, cw_effects = [SendMessage p m]\<rparr>"
    using assms(2) e send [OF e] created [OF assms(1)] transitionState_opening
    by (auto simp: io_simps simp del: stateId.simps)
  then show ?thesis by (auto simp: channelInv_def intro!: exI [where x = Channel_Initializing_AwaitingAcceptChannel])
qed

text \<open>A point that passes the validation does not make the attaching throw.\<close>

lemma ready_attached:
  assumes "lg_validateChannelReadyMessage L c msg" "side_nextCommitmentNumber (ch_theirSide c) \<noteq> None"
  shows "fst (attachChannelReady cry msg c) = Inr ()"
  using assms ready_key [OF assms(1)]
  by (auto simp: attachChannelReady_def attachKey_def newPublicKey_def io_simps)

end

end
