(* ===== verification/ChannelSafety.thy ===== *)
theory ChannelSafety
  imports ChannelFacts
begin

text \<open>
  The invariant of a channel, for the transitions over \<^verbatim>\<open>Helpers\<close>, in every state that a sequence
  of events reaches, and for every channel of the manager.
\<close>

section \<open>Helpers keeps the contract\<close>

lemma localView_sides:
  "ch_ourSide (localView c) = (ch_ourSide c)\<lparr>side_nextCommitmentSig := None\<rparr>"
  "ch_theirSide (localView c) = (ch_theirSide c)\<lparr>side_commitmentNumber := None, side_commitmentPoint := None,
     side_commitmentSig := None, side_nextCommitmentNumber := None, side_nextCommitmentPoint := None,
     side_nextCommitmentSig := None\<rparr>"
  "ch_funder (localView c) = ch_funder c" "ch_fundingOutPoint (localView c) = ch_fundingOutPoint c"
  "ch_feeRatePerKw (localView c) = ch_feeRatePerKw c" "ch_fundingScript (localView c) = ch_fundingScript c"
  "ch_fundingAmount (localView c) = ch_fundingAmount c"
  by (simp_all add: localView_def setOurs_def setTheirs_def)

lemma createLocalCommitmentTx_view: "createLocalCommitmentTx cry (localView c) = createLocalCommitmentTx cry c"
  unfolding createLocalCommitmentTx_def openPaymentBasePointOf_def acceptPaymentBasePointOf_def localView_sides Let_def
  by simp

lemma validateFundingSigned_view:
  "validateFundingSignedMessage cry (localView c) msg = validateFundingSignedMessage cry c msg"
  by (simp add: validateFundingSignedMessage_def validateCommitmentSig_def createLocalCommitmentTx_view localView_sides)

lemma preserves_ensure [preserves_intro]: "preserves g k \<Longrightarrow> preserves g (ensure b e k)"
  unfolding ensure_def by (intro preserves_intro)

lemma createChannel_steps_state: "preserves ch_state (createChannel_steps cry w options)"
  unfolding createChannel_steps_def Let_def setFundingKey_def setPaymentBasePointSecret_def
    setDelayedBasePointSecret_def setHtlcBasePointSecret_def setRevocationBasePointSecret_def
  by (intro preserves_intro) (simp_all add: setOurs_def setTheirs_def)

lemma createChannel_state: "createChannel cry w n q = Inr (Inr c) \<Longrightarrow> ch_state c = None"
  using preservesD [OF createChannel_steps_state]
  by (fastforce simp: createChannel_def newChannel_def split: if_splits prod.splits sum.splits option.splits)

interpretation hl: channel_logic_contract cry "helpers_logic cry w prefs peers accepts"
  for cry w prefs peers accepts
proof (unfold_locales, goal_cases)
  case (3 c c' msg)
  then show ?case using validateFundingSigned_view [of cry c msg] validateFundingSigned_view [of cry c' msg]
    by (simp add: helpers_logic_def)
next
  case (4 n q c)
  then show ?case by (simp add: helpers_logic_def createChannel_state)
qed (auto simp: helpers_logic_def validateChannelReadyMessage_def split: if_splits)

section \<open>Reachable states of a channel\<close>

inductive channel_reachable :: "crypto_ops \<Rightarrow> channel_logic \<Rightarrow> channel_world \<Rightarrow> bool"
  for cry :: crypto_ops and L :: channel_logic where
  opened: "channel_reachable cry L w"
    if "lg_createChannel L network request = Inr (Inr c)"
      and "then_io (emit (lg_sendMessage L p m))
        (transitionState (constructMachine cry L) None (Some (stateId Channel_Initializing_AwaitingAcceptChannel)))
        \<lparr>cw_channel = c, cw_effects = []\<rparr> = (Inr (), w)"
| event: "channel_reachable cry L (snd (handleEvent (constructMachine cry L) ev w))"
    if "channel_reachable cry L w"

lemma reachable_inv:
  "channel_reachable cry (helpers_logic cry wa prefs peers accepts) w \<Longrightarrow> channelInv (helpers_logic cry wa prefs peers accepts) w"
  by (induction rule: channel_reachable.induct) (auto intro: hl.channelInv_opened hl.channelInv_step)

section \<open>Effects are only added\<close>

text \<open>What an operation does to the channel does not depend on the effects before it.\<close>

definition framed :: "(channel_world, 'a) io \<Rightarrow> bool" where
  "framed m \<longleftrightarrow> (\<forall>c es. m \<lparr>cw_channel = c, cw_effects = es\<rparr> =
     (case m \<lparr>cw_channel = c, cw_effects = []\<rparr> of (r, w) \<Rightarrow> (r, w\<lparr>cw_effects := es @ cw_effects w\<rparr>)))"

named_theorems framed_intro \<open>composition rules for operations that only add effects\<close>

lemma framedD:
  "framed m \<Longrightarrow> m \<lparr>cw_channel = c, cw_effects = []\<rparr> = (r, w) \<Longrightarrow>
     m \<lparr>cw_channel = c, cw_effects = es\<rparr> = (r, w\<lparr>cw_effects := es @ cw_effects w\<rparr>)"
  unfolding framed_def by (erule allE [of _ c], erule allE [of _ es]) simp

lemma framed_basic [framed_intro]:
  "framed (return_io x)" "framed (throw_io e)" "framed (lift_io r)"
  by (simp_all add: framed_def io_simps)

lemma framed_get_channel [framed_intro]: "framed get_channel"
  by (simp add: framed_def io_simps)

lemma framed_emit [framed_intro]: "framed (emit e)"
  by (cases e) (simp_all add: framed_def io_simps)

lemma framed_on_channel [framed_intro]: "framed (on_channel m)"
  by (simp add: framed_def io_simps split: prod.splits)

lemma framed_bind [framed_intro]:
  assumes "framed m" "\<And>x. framed (f x)"
  shows "framed (bind_io m f)"
  unfolding framed_def
proof (intro allI)
  fix c es
  obtain r w where m: "m \<lparr>cw_channel = c, cw_effects = []\<rparr> = (r, w)" by fastforce
  note m' = framedD [OF assms(1) this]
  show "bind_io m f \<lparr>cw_channel = c, cw_effects = es\<rparr> =
      (case bind_io m f \<lparr>cw_channel = c, cw_effects = []\<rparr> of (r, w) \<Rightarrow> (r, w\<lparr>cw_effects := es @ cw_effects w\<rparr>))"
  proof (cases r)
    case (Inl e)
    then show ?thesis using m m' by (simp add: io_simps)
  next
    case (Inr x)
    obtain s v where f: "f x \<lparr>cw_channel = cw_channel w, cw_effects = []\<rparr> = (s, v)" by fastforce
    note f' = framedD [OF assms(2) f]
    have "f x w = (s, v\<lparr>cw_effects := cw_effects w @ cw_effects v\<rparr>)" using f' [of "cw_effects w"] by (cases w) simp
    moreover have "f x (w\<lparr>cw_effects := es @ cw_effects w\<rparr>) = (s, v\<lparr>cw_effects := (es @ cw_effects w) @ cw_effects v\<rparr>)"
      using f' [of "es @ cw_effects w"] by (cases w) simp
    ultimately show ?thesis using Inr m m' by (simp add: io_simps)
  qed
qed

lemma framed_then [framed_intro]: "framed m \<Longrightarrow> framed n \<Longrightarrow> framed (then_io m n)"
  unfolding then_io_def by (rule framed_bind)

lemma framed_if [framed_intro]: "framed m \<Longrightarrow> framed n \<Longrightarrow> framed (if b then m else n)"
  by simp

lemma framed_prod [framed_intro]: "(\<And>a b. framed (f a b)) \<Longrightarrow> framed (case p of (a, b) \<Rightarrow> f a b)"
  by (cases p) simp

lemma framed_withMessage [framed_intro]: "(\<And>x. framed (f x)) \<Longrightarrow> framed (withMessage get f ev)"
  by (simp add: withMessage_def framed_intro split: option.splits)

lemma framed_withBlock [framed_intro]: "(\<And>x. framed (f x)) \<Longrightarrow> framed (withBlock f ev)"
  by (simp add: withBlock_def framed_intro split: option.splits)

lemma transition_framed:
  assumes "transitionOf cry L s type = Some f"
  shows "framed (f ev)"
proof -
  have "framed (onAcceptChannelTransition cry L a)" "framed (onFundingSignedTransition L b)"
    "framed (onChannelReadyTransition cry L s' r)" "framed (onFundingConfirmed cry k)"
    "framed (onFundingDepthReached L k)" "framed disconnectedAbandon" for a b s' r k
    unfolding onAcceptChannelTransition_def onFundingSignedTransition_def onChannelReadyTransition_def
      onFundingConfirmed_def onFundingDepthReached_def disconnectedAbandon_def
    by (intro framed_intro)+
  then show ?thesis using assms
    by (cases s) (auto simp: transitionOf_def split: if_splits intro!: framed_withMessage framed_withBlock)
qed

context channel_logic_contract
begin

lemma handleEvent_framed:
  assumes "ch_state c = Some (stateId s)"
    "handleEvent (constructMachine cry L) ev \<lparr>cw_channel = c, cw_effects = []\<rparr> = (r, w)"
  shows "handleEvent (constructMachine cry L) ev \<lparr>cw_channel = c, cw_effects = es\<rparr>
    = (r, w\<lparr>cw_effects := es @ cw_effects w\<rparr>)"
proof -
  have keep: "ch_state (cw_channel (snd (f (Some ev) \<lparr>cw_channel = c, cw_effects = es\<rparr>))) = Some (stateId s)"
    if "transitionOf cry L s (ev_type ev) = Some f" for f es
    using transition_keeps_state [OF that, of ev "\<lparr>cw_channel = c, cw_effects = es\<rparr>"] assms(1)
    by (metis channel_world.select_convs(1) surjective_pairing)
  have eq: "handleEvent (constructMachine cry L) ev \<lparr>cw_channel = c, cw_effects = es\<rparr>
    = (case transitionOf cry L s (ev_type ev) of None \<Rightarrow> (Inr (), \<lparr>cw_channel = c, cw_effects = es\<rparr>)
       | Some f \<Rightarrow> afterTransition s (f (Some ev) \<lparr>cw_channel = c, cw_effects = es\<rparr>))" for es
    by (rule handleEvent_eq) (use assms(1) in simp, rule keep)
  show ?thesis
  proof (cases "transitionOf cry L s (ev_type ev)")
    case None
    then show ?thesis using eq [of "[]"] eq [of es] assms(2) by auto
  next
    case (Some f)
    obtain q v where f: "f (Some ev) \<lparr>cw_channel = c, cw_effects = []\<rparr> = (q, v)" by fastforce
    note f' = framedD [OF transition_framed [OF Some] f, of es]
    have "afterTransition s (q, v\<lparr>cw_effects := es @ cw_effects v\<rparr>)
      = (case afterTransition s (q, v) of (r, w) \<Rightarrow> (r, w\<lparr>cw_effects := es @ cw_effects w\<rparr>))"
      by (auto simp: afterTransition_def enterState_def Let_def split: sum.splits option.splits)
    moreover have "afterTransition s (q, v) = (r, w)" using eq [of "[]"] assms(2) Some f by simp
    ultimately show ?thesis using eq [of es] Some f' by simp
  qed
qed

end

section \<open>The channels of the manager\<close>

inductive manager_reachable :: "crypto_ops \<Rightarrow> channel_logic \<Rightarrow> network \<Rightarrow> channel_manager \<Rightarrow> bool"
  for cry :: crypto_ops and L :: channel_logic and network :: network where
  start: "manager_reachable cry L network \<lparr>mg_channels = [], mg_effects = []\<rparr>"
| opens: "manager_reachable cry L network (snd (openChannel L (constructMachine cry L) network ready request mg))"
    if "manager_reachable cry L network mg"
| accepts: "manager_reachable cry L network (snd (onAcceptChannelMessage (constructMachine cry L) peerId a mg))"
    if "manager_reachable cry L network mg"
| signs: "manager_reachable cry L network (snd (onFundingSignedMessage (constructMachine cry L) s mg))"
    if "manager_reachable cry L network mg"
| readies: "manager_reachable cry L network (snd (onChannelReadyMessage (constructMachine cry L) r mg))"
    if "manager_reachable cry L network mg"
| connects: "manager_reachable cry L network (snd (onBlockConnected (constructMachine cry L) b mg))"
    if "manager_reachable cry L network mg"
| disconnects: "manager_reachable cry L network (snd (onPeerDisconnected (constructMachine cry L) peerId mg))"
    if "manager_reachable cry L network mg"

text \<open>
  The channels of the manager are channels that can be reached alone, and the effects of the manager
  are theirs.
\<close>

definition managerInv :: "crypto_ops \<Rightarrow> channel_logic \<Rightarrow> channel_manager \<Rightarrow> bool" where
  "managerInv cry L mg \<longleftrightarrow> (\<exists>ess.
     list_all2 (\<lambda>c es. channel_reachable cry L \<lparr>cw_channel = c, cw_effects = es\<rparr>) (mg_channels mg) ess
     \<and> set (mg_effects mg) = set (concat ess))"

lemma set_concat_update: "n < length ess \<Longrightarrow> set (concat (ess[n := ess ! n @ xs])) = set (concat ess) \<union> set xs"
proof (induction ess arbitrary: n)
  case (Cons es ess)
  then show ?case by (cases n) auto
qed simp

lemma managerInv_each:
  assumes "\<And>n mg. n \<in> set ns \<Longrightarrow> Q mg \<Longrightarrow> Q (snd (f n mg))" "Q mg"
  shows "Q (snd (each_io f ns mg))"
  using assms
proof (induction ns arbitrary: mg)
  case (Cons n ns)
  obtain r mg' where f: "f n mg = (r, mg')" by fastforce
  then have "Q mg'" using Cons.prems(1) [of n mg] Cons.prems(2) by simp
  then have "Q (snd (each_io f ns mg'))" using Cons.prems(1) by (intro Cons.IH) auto
  then show ?case using f \<open>Q mg'\<close> by (cases r) (auto simp: io_simps)
qed (simp add: io_simps)

context channel_logic_contract
begin

lemma reachable_state:
  assumes "channel_reachable cry L w"
  obtains s where "ch_state (cw_channel w) = Some (stateId s)"
proof -
  have "channelInv L w" using assms
    by (induction rule: channel_reachable.induct) (auto intro: channelInv_opened channelInv_step)
  then show ?thesis using that by (auto simp: channelInv_def)
qed

lemma managerInv_withChannel:
  assumes "managerInv cry L mg" "n < length (mg_channels mg)"
  shows "managerInv cry L (snd (withChannel n (handleEvent (constructMachine cry L) ev) mg))"
proof -
  let ?c = "mg_channels mg ! n"
  obtain ess where ess: "list_all2 (\<lambda>c es. channel_reachable cry L \<lparr>cw_channel = c, cw_effects = es\<rparr>) (mg_channels mg) ess"
    "set (mg_effects mg) = set (concat ess)"
    using assms(1) by (auto simp: managerInv_def)
  let ?es = "ess ! n"
  have es: "channel_reachable cry L \<lparr>cw_channel = ?c, cw_effects = ?es\<rparr>" using ess(1) assms(2) by (rule list_all2_nthD)
  have n: "n < length ess" using ess(1) assms(2) by (simp add: list_all2_lengthD)
  obtain s where s: "ch_state ?c = Some (stateId s)" using reachable_state [OF es] by auto
  obtain r w where h: "handleEvent (constructMachine cry L) ev \<lparr>cw_channel = ?c, cw_effects = []\<rparr> = (r, w)" by fastforce
  have "channel_reachable cry L \<lparr>cw_channel = cw_channel w, cw_effects = ?es @ cw_effects w\<rparr>"
    using channel_reachable.event [OF es, of ev] handleEvent_framed [OF s h, of ?es] by (cases w) simp
  then have "list_all2 (\<lambda>c es. channel_reachable cry L \<lparr>cw_channel = c, cw_effects = es\<rparr>)
      ((mg_channels mg)[n := cw_channel w]) (ess[n := ?es @ cw_effects w])"
    using ess(1) by (intro list_all2_update_cong)
  moreover have "set (mg_effects mg @ cw_effects w) = set (concat (ess[n := ?es @ cw_effects w]))"
    using ess(2) set_concat_update [OF n] by simp
  ultimately show ?thesis using h unfolding managerInv_def by (auto simp: withChannel_def)
qed

lemma withChannel_length [simp]: "length (mg_channels (snd (withChannel n m mg))) = length (mg_channels mg)"
  by (simp add: withChannel_def split: prod.splits)

lemma managerInv_indices:
  assumes "managerInv cry L mg" "\<And>n. n \<in> set ns \<Longrightarrow> n < length (mg_channels mg)"
  shows "managerInv cry L (snd (each_io (\<lambda>n. withChannel n (handleEvent (constructMachine cry L) ev)) ns mg))"
proof -
  let ?k = "length (mg_channels mg)"
  have "managerInv cry L (snd (each_io (\<lambda>n. withChannel n (handleEvent (constructMachine cry L) ev)) ns mg))
    \<and> length (mg_channels (snd (each_io (\<lambda>n. withChannel n (handleEvent (constructMachine cry L) ev)) ns mg))) = ?k"
    using managerInv_each [where Q = "\<lambda>mg. managerInv cry L mg \<and> length (mg_channels mg) = ?k" and ns = ns and mg = mg
        and f = "\<lambda>n. withChannel n (handleEvent (constructMachine cry L) ev)"]
      assms managerInv_withChannel by simp
  then show ?thesis by simp
qed

lemma findChannelById_less: "findChannelById i cs = Inr (Some n) \<Longrightarrow> n < length cs"
  by (induction cs arbitrary: n) (auto split: if_splits simp: bind_res_eq_Inr)

lemma findChannelByTempId_less: "findChannelByTempId p i cs = Inr (Some n) \<Longrightarrow> n < length cs"
  by (induction cs arbitrary: n) (auto split: if_splits simp: bind_res_eq_Inr)

lemma managerInv_found:
  assumes "managerInv cry L mg" "\<And>n. search (mg_channels mg) = Inr (Some n) \<Longrightarrow> n < length (mg_channels mg)"
  shows "managerInv cry L (snd (handleFound (constructMachine cry L) ev search mg))"
  using assms managerInv_withChannel [OF assms(1)]
  by (auto simp: handleFound_def io_simps split: sum.splits option.splits)

lemma managerInv_opened:
  assumes "managerInv cry L mg"
  shows "managerInv cry L (snd (openChannel L (constructMachine cry L) network ready request mg))"
proof (cases "lg_createChannel L network request")
  case (Inr q)
  show ?thesis
  proof (cases "\<not> ready \<or> (\<exists>e. q = Inl e) \<or> (\<exists>c e. q = Inr c \<and> lg_createOpenChannelMessage L c = Inl e)")
    case True
    then show ?thesis using assms Inr by (auto simp: openChannel_def io_simps)
  next
    case False
    then obtain c m where c: "ready" "q = Inr c" "lg_createOpenChannelMessage L c = Inr m"
      by (metis sum.exhaust)
    let ?open = "then_io (emit (lg_sendMessage L (or_peerId request) (MOpenChannel m)))
      (transitionState (constructMachine cry L) None (Some (stateId Channel_Initializing_AwaitingAcceptChannel)))"
    obtain r w where o: "?open \<lparr>cw_channel = c, cw_effects = []\<rparr> = (r, w)" by fastforce
    show ?thesis
    proof (cases r)
      case (Inl e)
      have "ch_state c = None" using created Inr c by blast
      then have "w = \<lparr>cw_channel = c, cw_effects = []\<rparr>"
        using o Inl transitionState_opening
        by (cases "lg_sendMessage L (or_peerId request) (MOpenChannel m)") (auto simp: io_simps simp del: stateId.simps)
      then show ?thesis using assms Inr c o \<open>r = Inl e\<close>
        by (simp add: openChannel_def io_simps del: stateId.simps)
    next
      case (Inr u)
      have "channel_reachable cry L w"
        using o [unfolded Inr] c \<open>lg_createChannel L network request = Inr q\<close>
        by (intro channel_reachable.opened [where network = network and request = request and c = c]) auto
      then have w: "channel_reachable cry L \<lparr>cw_channel = cw_channel w, cw_effects = cw_effects w\<rparr>" by (cases w) simp
      have mg: "snd (openChannel L (constructMachine cry L) network ready request mg)
        = mg\<lparr>mg_channels := mg_channels mg @ [cw_channel w], mg_effects := mg_effects mg @ cw_effects w\<rparr>"
        using \<open>lg_createChannel L network request = Inr q\<close> c o Inr
        by (simp add: openChannel_def io_simps del: stateId.simps)
      obtain ess where "list_all2 (\<lambda>c es. channel_reachable cry L \<lparr>cw_channel = c, cw_effects = es\<rparr>) (mg_channels mg) ess"
        "set (mg_effects mg) = set (concat ess)"
        using assms by (auto simp: managerInv_def)
      then show ?thesis using w unfolding managerInv_def mg
        by (intro exI [where x = "ess @ [cw_effects w]"]) (simp add: list_all2_appendI)
    qed
  qed
qed (use assms in \<open>auto simp: openChannel_def io_simps\<close>)

lemma managerInv_reachable: "manager_reachable cry L network mg \<Longrightarrow> managerInv cry L mg"
proof (induction rule: manager_reachable.induct)
  case (accepts mg peerId a)
  then show ?case unfolding onAcceptChannelMessage_def using findChannelByTempId_less by (intro managerInv_found) auto
next
  case (signs mg s)
  then show ?case unfolding onFundingSignedMessage_def using findChannelById_less by (intro managerInv_found) auto
next
  case (readies mg r)
  then show ?case unfolding onChannelReadyMessage_def using findChannelById_less by (intro managerInv_found) auto
next
  case (connects mg b)
  then show ?case
    by (cases "blockHeight b") (auto simp: onBlockConnected_def io_simps intro: managerInv_indices)
next
  case (disconnects mg peerId)
  then show ?case unfolding onPeerDisconnected_def by (auto intro: managerInv_indices)
next
  case (opens mg ready request)
  then show ?case by (intro managerInv_opened)
qed (simp add: managerInv_def)

end

end
