(* ===== verification/ChannelTxFacts.thy ===== *)
theory ChannelTxFacts
  imports ChannelTx
begin

text \<open>
  What the transactions of a channel guarantee: the commitment number survives its split between
  lock time and sequence, both peers build the same commitment transaction, and a commitment
  transaction pays out no more than the channel holds.
\<close>

section \<open>Commitment numbers\<close>

lemma and_24: "(x :: nat) AND 0xffffff = take_bit 24 x"
  using take_bit_eq_mask [of 24 x] by (simp add: mask_eq_exp_minus_1)

lemma take_24_or: "take_bit 24 (push_bit 24 k OR x) = take_bit 24 (x :: nat)"
  by (rule bit_eqI) (auto simp: bit_simps)

lemma or_disjoint_add:
  "(x :: nat) < 2 ^ n \<Longrightarrow> push_bit n k OR x = k * 2 ^ n + x"
proof -
  assume x: "x < 2 ^ n"
  have "push_bit n k AND x = 0"
  proof (rule bit_eqI)
    fix m
    have "x div 2 ^ m = 0" if "n \<le> m"
      using x that by (simp add: div_eq_0_iff order_less_le_trans)
    then show "bit (push_bit n k AND x) m \<longleftrightarrow> bit 0 m"
      by (auto simp: bit_and_iff bit_push_bit_iff bit_iff_odd [of x])
  qed
  then show "push_bit n k OR x = k * 2 ^ n + x"
    by (simp add: disjunctive_add_eq_or [symmetric] push_bit_eq_mult)
qed

lemma nat_xor_less: "(a :: nat) < 2 ^ n \<Longrightarrow> b < 2 ^ n \<Longrightarrow> a XOR b < 2 ^ n"
  by (metis take_bit_nat_eq_self take_bit_nat_less_exp take_bit_xor)

lemma cn_getHash_eq:
  assumes "\<And>x. length (sha256 x) = 32"
  shows "\<exists>h<2 ^ 48. cn_getHash sha256 p q = Inr h"
proof -
  let ?d = "drop 26 (sha256 (p @ q))"
  have l: "length ?d = 6" using assms by simp
  then have "?d \<noteq> []" by auto
  moreover have "be_val ?d < 2 ^ 48" using be_val_less [of ?d] unfolding l by simp
  ultimately show ?thesis using assms by (simp add: cn_getHash_def Let_def bigFromBufBE_eq)
qed

lemma cn_split:
  assumes "n < 2 ^ 48"
  shows "cn_getSequence n = Inr \<lparr>seq_value = 0x80000000 + n div 2 ^ 24\<rparr>"
    and "cn_getLockTime n = Inr \<lparr>lt_value = 0x20000000 + n mod 2 ^ 24\<rparr>"
proof -
  have "n div 2 ^ 24 < 2 ^ 24" using assms by (simp add: div_less_iff_less_mult)
  then show "cn_getSequence n = Inr \<lparr>seq_value = 0x80000000 + n div 2 ^ 24\<rparr>"
    using or_disjoint_add [of "n div 2 ^ 24" 24 "0x80"]
    by (simp add: cn_getSequence_def newSequence_def drop_bit_eq_div del: push_bit_numeral)
  show "cn_getLockTime n = Inr \<lparr>lt_value = 0x20000000 + n mod 2 ^ 24\<rparr>"
  proof -
    have "n mod 2 ^ 24 < 2 ^ 24" by simp
    moreover from or_disjoint_add [OF this, of "0x20"]
    have "push_bit 24 0x20 OR n mod 2 ^ 24 = 0x20000000 + n mod 2 ^ 24" by simp
    ultimately show ?thesis
      unfolding cn_getLockTime_def newLockTime_def and_24 take_bit_eq_mod by (simp add: nat_add_distrib)
  qed
qed

lemma cn_join:
  assumes "n < 2 ^ 48"
  shows "push_bit 24 ((0x80000000 + n div 2 ^ 24) AND 0xffffff) OR ((0x20000000 + n mod 2 ^ 24) AND 0xffffff) = (n :: nat)"
proof -
  have "n div 2 ^ 24 < 2 ^ 24" using assms by (simp add: div_less_iff_less_mult)
  then have u: "(0x80000000 + n div 2 ^ 24) AND 0xffffff = n div 2 ^ 24"
    unfolding and_24 take_bit_eq_mod by (simp add: mod_add_eq [symmetric])
  have l: "(0x20000000 + n mod 2 ^ 24) AND 0xffffff = n mod 2 ^ 24"
    unfolding and_24 take_bit_eq_mod by (simp add: mod_add_eq [symmetric])
  have "push_bit 24 (n div 2 ^ 24) OR (n mod 2 ^ 24) = n div 2 ^ 24 * 2 ^ 24 + n mod 2 ^ 24"
    by (rule or_disjoint_add) simp
  then show ?thesis unfolding u l by (simp only: div_mult_mod_eq)
qed

text \<open>
  The commitment number of a channel survives: obscured with the two payment base points and
  split between the lock time and the sequence of a commitment transaction it is revealed again
  from them, for every 48-bit number; and the sequence never enables a relative lock time while the
  lock time always counts as a time that has passed, in the first half of 1987.
\<close>
theorem commitment_number_roundtrip:
  assumes "\<And>x. length (sha256 x) = 32" "c < 2 ^ 48"
  shows "\<exists>obscured s l. cn_obscure sha256 c p q = Inr obscured
    \<and> cn_getSequence obscured = Inr s \<and> cn_getLockTime obscured = Inr l
    \<and> cn_reveal sha256 l s p q = Inr c
    \<and> \<not> seq_enabled s \<and> lt_type l = Time \<and> 0x20000000 \<le> lt_value l \<and> lt_value l < 0x21000000"
proof -
  obtain h where h: "h < 2 ^ 48" "cn_getHash sha256 p q = Inr h"
    using cn_getHash_eq [of sha256 p q] assms(1) by blast
  let ?o = "h XOR c" and ?s = "\<lparr>seq_value = 0x80000000 + (h XOR c) div 2 ^ 24\<rparr>"
    and ?l = "\<lparr>lt_value = 0x20000000 + (h XOR c) mod 2 ^ 24\<rparr>"
  have ob: "?o < 2 ^ 48" using h(1) assms(2) by (rule nat_xor_less)
  have "cn_reveal sha256 ?l ?s p q = Inr (h XOR ?o)"
    unfolding cn_reveal_def h(2) using cn_join [OF ob] by (simp add: Let_def)
  also have "h XOR ?o = c" by (simp flip: xor.assoc)
  finally have r: "cn_reveal sha256 ?l ?s p q = Inr c" .
  have "cn_obscure sha256 c p q = Inr ?o" by (simp add: cn_obscure_def h(2))
  moreover have "\<not> seq_enabled ?s" "lt_type ?l = Time" "0x20000000 \<le> lt_value ?l" "lt_value ?l < 0x21000000"
    by (simp_all add: drop_bit_31 lt_type_def)
  ultimately show ?thesis using r cn_split [OF ob] by blast
qed

theorem commitment_number_roundtrip_witness:
  "\<exists>obscured s l. cn_obscure (\<lambda>_. replicate 32 0xab) 42 [2] [3] = Inr obscured
    \<and> cn_getSequence obscured = Inr s \<and> cn_getLockTime obscured = Inr l
    \<and> cn_reveal (\<lambda>_. replicate 32 0xab) l s [2] [3] = Inr 42
    \<and> \<not> seq_enabled s \<and> lt_type l = Time \<and> 0x20000000 \<le> lt_value l \<and> lt_value l < 0x21000000"
  by (rule commitment_number_roundtrip) (rule length_replicate, simp)

section \<open>Both peers build the same transaction\<close>

text \<open>
  The counterparty sees every HTLC from the other side, and builds the same transaction as its own
  instead of the remote one.
\<close>

definition otherDirection :: "HtlcDirection \<Rightarrow> HtlcDirection" where
  "otherDirection d = (case d of Offered \<Rightarrow> Accepted | Accepted \<Rightarrow> Offered)"

definition otherView :: "htlc \<Rightarrow> htlc" where
  "otherView h = h\<lparr>htlc_direction := otherDirection (htlc_direction h)\<rparr>"

definition otherArgs :: "commitment_args \<Rightarrow> commitment_args" where
  "otherArgs a = a\<lparr>reverseHtlcs := \<not> reverseHtlcs a, htlcs := map otherView (htlcs a)\<rparr>"

lemma otherView_simps [simp]:
  "htlc_value (otherView h) = htlc_value h" "htlc_cltvExpiry (otherView h) = htlc_cltvExpiry h"
  "htlc_paymentHash (otherView h) = htlc_paymentHash h"
  "htlc_direction (otherView h) = otherDirection (htlc_direction h)"
  by (simp_all add: otherView_def)

lemma otherDirection_Offered [simp]:
  "otherDirection d = Offered \<longleftrightarrow> d = Accepted" "otherDirection d = Accepted \<longleftrightarrow> d = Offered"
  by (cases d; simp add: otherDirection_def)+

lemma otherArgs_simps [simp]:
  "reverseHtlcs (otherArgs a) = (\<not> reverseHtlcs a)" "htlcs (otherArgs a) = map otherView (htlcs a)"
  "dustLimitSatoshi (otherArgs a) = dustLimitSatoshi a" "feePerKw (otherArgs a) = feePerKw a"
  "isFunderLocal (otherArgs a) = isFunderLocal a" "localDelay (otherArgs a) = localDelay a"
  "localValue (otherArgs a) = localValue a" "remoteValue (otherArgs a) = remoteValue a"
  "revocationPubKey (otherArgs a) = revocationPubKey a" "delayedPubKey (otherArgs a) = delayedPubKey a"
  "remotePubKey (otherArgs a) = remotePubKey a" "localHtlcPubKey (otherArgs a) = localHtlcPubKey a"
  "remoteHtlcPubKey (otherArgs a) = remoteHtlcPubKey a" "commitmentNumber (otherArgs a) = commitmentNumber a"
  "openPaymentBasePoint (otherArgs a) = openPaymentBasePoint a"
  "acceptPaymentBasePoint (otherArgs a) = acceptPaymentBasePoint a"
  "fundingOutPoint (otherArgs a) = fundingOutPoint a"
  by (simp_all add: otherArgs_def)

lemma otherArgs_unpruned:
  "unprunedHtlcs (otherArgs a) = map otherView (unprunedHtlcs a)"
proof -
  have "htlcUnpruned (otherArgs a) (otherView h) = htlcUnpruned a h" for h
    by (cases "htlc_direction h")
      (simp_all add: htlcUnpruned_def htlcFeeWeight_def otherDirection_def Let_def)
  then show ?thesis by (simp add: unprunedHtlcs_def filter_map o_def)
qed

lemma otherArgs_values:
  "localTxOut sha256 (otherArgs a) = localTxOut sha256 a"
  "remoteTxOut vpk sha256 ripemd160 (otherArgs a) = remoteTxOut vpk sha256 ripemd160 a"
proof -
  have "baseFee (otherArgs a) = baseFee a"
    by (simp add: baseFee_def otherArgs_unpruned)
  then have "paidLocal (otherArgs a) = paidLocal a" "paidRemote (otherArgs a) = paidRemote a"
    by (simp_all add: paidLocal_def paidRemote_def)
  then show "localTxOut sha256 (otherArgs a) = localTxOut sha256 a"
    "remoteTxOut vpk sha256 ripemd160 (otherArgs a) = remoteTxOut vpk sha256 ripemd160 a"
    by (simp_all add: localTxOut_def remoteTxOut_def)
qed

lemma otherArgs_htlcTxOut:
  "htlcTxOut sha256 ripemd160 (otherArgs a) (otherView h) =
     bind_res (htlcTxOut sha256 ripemd160 a h) (\<lambda>p. Inr (map_prod id (map_option otherView) p))"
proof -
  have "htlcWitnessScript sha256 ripemd160 (otherArgs a) (otherView h) = htlcWitnessScript sha256 ripemd160 a h"
    by (cases "htlc_direction h"; cases "reverseHtlcs a") (simp_all add: htlcWitnessScript_def)
  then show ?thesis
    by (simp add: htlcTxOut_def bind_res_def split: sum.split)
qed

lemma map_res_commute:
  assumes "\<And>x. f' (g x) = bind_res (f x) (\<lambda>y. Inr (h y))"
  shows "map_res f' (map g xs) = bind_res (map_res f xs) (\<lambda>ys. Inr (map h ys))"
  by (induction xs) (simp_all add: assms bind_res_def split: sum.split)

lemma sortBy_map:
  assumes "\<And>x y. x \<in> set xs \<Longrightarrow> y \<in> set xs \<Longrightarrow> cmp' (f x) (f y) = cmp x y"
  shows "sortBy cmp' (map f xs) = map f (sortBy cmp xs)"
proof -
  have ins: "insertBy cmp' (f x) (map f ys) = map f (insertBy cmp x ys)"
    if "\<forall>y\<in>set ys. cmp' (f x) (f y) = cmp x y" for x ys
    using that by (induction ys) auto
  have set: "set (insertBy cmp x ys) = insert x (set ys)" for x ys by (induction ys) auto
  have "set (foldr (insertBy cmp) xs []) = set xs" for xs by (induction xs) (simp_all add: set)
  then have "\<forall>y\<in>set (sortBy cmp xs). y \<in> set xs" for xs by (simp add: sortBy_def)
  then show ?thesis using assms
  proof (induction xs)
    case (Cons x xs)
    have "\<forall>y\<in>set (sortBy cmp xs). cmp' (f x) (f y) = cmp x y" using Cons.prems by auto
    from ins [OF this] show ?case using Cons by (simp add: sortBy_def)
  qed (simp add: sortBy_def)
qed

lemma sortCommitmentOutputs_other:
  "sortCommitmentOutputs (map (map_prod id (map_option otherView)) xs) =
     bind_res (sortCommitmentOutputs xs) (\<lambda>ys. Inr (map (map_prod id (map_option otherView)) ys))"
proof -
  let ?f = "map_prod id (map_option otherView) :: tx_out \<times> htlc option \<Rightarrow> _"
  have t: "compareThrows (map ?f xs) \<longleftrightarrow> compareThrows xs"
    by (simp add: compareThrows_def commitmentTie_def snd_map_prod fst_map_prod cong: conj_cong)
  have "htlc_cltvExpiry (the (snd (?f x))) = htlc_cltvExpiry (the (snd x))" for x
    by (cases "snd x") (simp_all add: snd_map_prod)
  then have "commitmentCompare (?f x) (?f y) = commitmentCompare x y" for x y
    by (simp add: commitmentCompare_def fst_map_prod)
  then have "sortBy commitmentCompare (map ?f xs) = map ?f (sortBy commitmentCompare xs)"
    by (intro sortBy_map)
  then show ?thesis by (simp add: sortCommitmentOutputs_def t)
qed

lemma commitmentTxOuts_other:
  "commitmentTxOuts vpk sha256 ripemd160 (otherArgs a) =
     bind_res (commitmentTxOuts vpk sha256 ripemd160 a)
       (\<lambda>ys. Inr (map (map_prod id (map_option otherView)) ys))"
proof -
  let ?f = "map_prod id (map_option otherView) :: tx_out \<times> htlc option \<Rightarrow> _"
  have h: "map_res (htlcTxOut sha256 ripemd160 (otherArgs a)) (map otherView hs) =
      bind_res (map_res (htlcTxOut sha256 ripemd160 a) hs) (\<lambda>ys. Inr (map ?f ys))" for hs
    by (rule map_res_commute) (rule otherArgs_htlcTxOut)
  have none: "map ?f l = l" if "localTxOut sha256 a = Inr l \<or> remoteTxOut vpk sha256 ripemd160 a = Inr l" for l
    using that by (auto simp: localTxOut_def remoteTxOut_def bind_res_eq_Inr split: if_splits)
  show ?thesis
  proof (cases "map_res (htlcTxOut sha256 ripemd160 a) (unprunedHtlcs a)")
    case hs: (Inr hs)
    show ?thesis
    proof (cases "localTxOut sha256 a")
      case l: (Inr l)
      show ?thesis
      proof (cases "remoteTxOut vpk sha256 ripemd160 a")
        case r: (Inr r)
        have "map ?f (hs @ l @ r) = map ?f hs @ l @ r" using none l r by simp
        then show ?thesis
          using sortCommitmentOutputs_other [of "hs @ l @ r"]
          by (simp add: commitmentTxOuts_def otherArgs_unpruned otherArgs_values h hs l r)
      qed (simp add: commitmentTxOuts_def otherArgs_unpruned otherArgs_values h hs l)
    qed (simp add: commitmentTxOuts_def otherArgs_unpruned otherArgs_values h hs)
  qed (simp add: commitmentTxOuts_def otherArgs_unpruned otherArgs_values h)
qed

lemma each_addTxOut:
  "each_io (\<lambda>(txout, h). tb_addTxOut txout) xs b = (Inr (), b\<lparr>tb_outputs := tb_outputs b @ map fst xs\<rparr>)"
  by (induction xs arbitrary: b) (auto simp: io_simps tb_addTxOut_def)

text \<open>The transaction as one expression of the outputs and the two halves of the number.\<close>

definition commitmentTx :: "outpoint \<Rightarrow> sequence \<Rightarrow> locktime \<Rightarrow> tx_out list \<Rightarrow> tx_builder" where
  "commitmentTx p s l outs = newTxBuilder\<lparr>tb_version := 2, tb_locktime := l,
     tb_inputs := [\<lparr>ti_outpoint = p, ti_scriptSig = sb_empty, ti_sequence = s, ti_witness = []\<rparr>],
     tb_outputs := outs\<rparr>"

lemma createCommitment_eq:
  "createCommitment vpk sha256 ripemd160 a =
     bind_res (cn_obscure sha256 (commitmentNumber a) (openPaymentBasePoint a) (acceptPaymentBasePoint a)) (\<lambda>n.
     bind_res (cn_getSequence n) (\<lambda>s. bind_res (cn_getLockTime n) (\<lambda>l.
     bind_res (commitmentTxOuts vpk sha256 ripemd160 a) (\<lambda>txouts.
       Inr (commitmentTx (fundingOutPoint a) s l (map fst txouts), List.map_filter snd txouts)))))"
proof -
  have "asScriptBuf (Inr sb_empty) = Inr sb_empty" by (simp add: asScriptBuf_def)
  then show ?thesis
    by (simp add: createCommitment_def runBuilder_def io_simps tb_addInput_def newTxIn_def
        each_addTxOut commitmentTx_def newTxBuilder_def bind_res_def split: sum.split)
qed

lemma map_filter_other:
  "List.map_filter snd (map (map_prod id (map_option otherView)) ys) = map otherView (List.map_filter snd ys)"
  by (induction ys) (auto simp: List.map_filter_def snd_map_prod split: option.splits)

text \<open>
  C30: Both peers build the same commitment transaction.  Exchanging the point of view, every HTLC
  offered becoming accepted and the \<^verbatim>\<open>reverseHtlcs\<close> flag its opposite, changes neither the
  transaction, nor the order of its HTLCs, nor whether building it fails.
\<close>
theorem commitment_views_agree:
  "createCommitment vpk sha256 ripemd160 (otherArgs a) =
     bind_res (createCommitment vpk sha256 ripemd160 a) (\<lambda>(b, hs). Inr (b, map otherView hs))"
proof -
  have f: "map fst (map (map_prod id (map_option otherView)) ys) = map fst ys" for ys :: "(tx_out \<times> htlc option) list"
    by (simp add: fst_map_prod)
  show ?thesis
    unfolding createCommitment_eq commitmentTxOuts_other
    by (simp add: bind_res_def f map_filter_other split: sum.split del: map_map)
qed

section \<open>What a commitment transaction pays\<close>

definition commitment_key :: "tx_out \<times> htlc option \<Rightarrow> (int \<times> buffer) \<times> int" where
  "commitment_key p = (output_key (fst p), int (htlc_cltvExpiry (the (snd p))))"

lemma commitmentCompare_key: "commitmentCompare x y \<le> 0 \<longleftrightarrow> commitment_key x \<le> commitment_key y"
  using bufCompare_le [of "sb_buffer (to_scriptPubKey (fst x))" "sb_buffer (to_scriptPubKey (fst y))"]
  by (auto simp: commitmentCompare_def commitment_key_def output_key_def Let_def less_eq_prod_def less_prod_def)

lemma sortCommitmentOutputs_Inr:
  assumes "sortCommitmentOutputs xs = Inr ys"
  shows "mset ys = mset xs" "sorted_wrt (\<lambda>x y. bip69OutputSorter x y \<le> 0) (map fst ys)"
proof -
  have ys: "ys = sort_key commitment_key xs"
    using assms sortBy_sort_key [of commitmentCompare commitment_key xs] commitmentCompare_key
    by (auto simp: sortCommitmentOutputs_def split: if_splits)
  then show "mset ys = mset xs" by simp
  have key: "output_key (fst x) \<le> output_key (fst y)" if "commitment_key x \<le> commitment_key y" for x y
    using that by (auto simp: commitment_key_def less_eq_prod_def less_prod_def)
  have sorted: "sorted_wrt (\<lambda>x y. commitment_key x \<le> commitment_key y) ys"
    using sorted_sort_key [of commitment_key xs] by (simp add: ys sorted_wrt_map)
  have "sorted_wrt (\<lambda>x y. output_key (fst x) \<le> output_key (fst y)) ys"
    by (rule sorted_wrt_mono_rel [OF key sorted])
  then show "sorted_wrt (\<lambda>x y. bip69OutputSorter x y \<le> 0) (map fst ys)"
    by (simp add: sorted_wrt_map output_sorter_key)
qed

lemma htlcTxOuts_Inr:
  assumes "map_res (htlcTxOut sha256 ripemd160 a) us = Inr hs"
  shows "map snd hs = map Some us" "map (\<lambda>p. to_value (fst p)) hs = map htlc_value us"
  using assms
proof (induction us arbitrary: hs)
  case (Cons u us)
  { case 1 then show ?case using Cons by (auto simp: bind_res_eq_Inr htlcTxOut_def newTxOut_def) }
  { case 2 then show ?case using Cons by (auto simp: bind_res_eq_Inr htlcTxOut_def newTxOut_def) }
qed simp_all

definition keptValue :: "commitment_args \<Rightarrow> btc_value \<Rightarrow> int" where
  "keptValue a v = (if sats v \<ge> sats (dustLimitSatoshi a) then sats v else 0)"

lemma sideTxOuts_Inr:
  assumes "localTxOut sha256 a = Inr l" "remoteTxOut vpk sha256 ripemd160 a = Inr r"
  shows "List.map_filter snd l = []" "List.map_filter snd r = []"
    "(\<Sum>p\<leftarrow>l. sats (to_value (fst p))) = keptValue a (paidLocal a)"
    "(\<Sum>p\<leftarrow>r. sats (to_value (fst p))) = keptValue a (paidRemote a)"
    "\<forall>p\<in>set (l @ r). sats (dustLimitSatoshi a) \<le> sats (to_value (fst p))"
  using assms
  by (auto simp: localTxOut_def remoteTxOut_def bind_res_eq_Inr newTxOut_def keptValue_def
      List.map_filter_def split: if_splits)

lemma map_filter_append: "List.map_filter f (xs @ ys) = List.map_filter f xs @ List.map_filter f ys"
  by (simp add: List.map_filter_def)

lemma mset_map_filter: "mset xs = mset ys \<Longrightarrow> mset (List.map_filter f xs) = mset (List.map_filter f ys)"
  by (simp add: List.map_filter_def mset_map mset_filter)

lemma sum_list_mset: "mset xs = mset ys \<Longrightarrow> (\<Sum>x\<leftarrow>xs. f x) = (\<Sum>x\<leftarrow>ys. (f x :: int))"
  by (metis mset_map sum_mset_sum_list)

lemma unpruned_value:
  assumes "0 \<le> feePerKw a" "h \<in> set (unprunedHtlcs a)"
  shows "sats (dustLimitSatoshi a) \<le> sats (htlc_value h)"
proof -
  have "0 \<le> htlcFeeWeight (reverseHtlcs a) (htlc_direction h)" by (simp add: htlcFeeWeight_def)
  then have "0 \<le> bigDiv (htlcFeeWeight (reverseHtlcs a) (htlc_direction h) * feePerKw a) 1000"
    using assms(1) by (simp add: bigDiv_nonneg pos_imp_zdiv_nonneg_iff)
  then show ?thesis using assms(2) by (simp add: unprunedHtlcs_def htlcUnpruned_def Let_def)
qed

lemma sum_filter_le:
  "\<forall>x\<in>set xs. 0 \<le> f x \<Longrightarrow> (\<Sum>x\<leftarrow>filter P xs. f x) \<le> (\<Sum>x\<leftarrow>xs. (f x :: int))"
  by (induction xs) auto

lemma sats_lessFee: "sats (lessFee v fee) = max 0 (sats v - fee)"
proof -
  have "sats value_zero = 0" by (simp add: value_zero_def sats_def bigDiv_def)
  then show ?thesis by (simp add: lessFee_def Let_def)
qed

definition channelFunds :: "commitment_args \<Rightarrow> int" where
  "channelFunds a = sats (localValue a) + sats (remoteValue a) + (\<Sum>h\<leftarrow>htlcs a. sats (htlc_value h))"

definition feePaid :: "commitment_args \<Rightarrow> int" where
  "feePaid a = min (baseFee a) (sats (if isFunderLocal a then localValue a else remoteValue a))"

text \<open>
  The outputs as BOLT 3 describes them: an HTLC is trimmed if its value does not cover the fee of the transaction that
  claims it and the dust limit, 663 units of weight if the owner of the commitment transaction offered it and 703 if it
  was offered to the owner; the funder pays for the weight of the commitment transaction.
\<close>

definition locks :: "script res \<Rightarrow> tx_out \<Rightarrow> bool" where
  "locks lock out \<longleftrightarrow> bind_res lock toScriptBuf = Inr (to_scriptPubKey out)"

definition ownerOffers :: "commitment_args \<Rightarrow> htlc \<Rightarrow> bool" where
  "ownerOffers a h \<longleftrightarrow> (htlc_direction h = Offered) \<noteq> reverseHtlcs a"

definition keptHtlcs :: "commitment_args \<Rightarrow> htlc list" where
  "keptHtlcs a = filter (\<lambda>h. sats (dustLimitSatoshi a) + (if ownerOffers a h then 663 else 703) * feePerKw a div 1000 \<le> sats (htlc_value h)) (htlcs a)"

definition commitmentFee :: "commitment_args \<Rightarrow> int" where
  "commitmentFee a = (724 + 172 * int (length (keptHtlcs a))) * feePerKw a div 1000"

definition toLocalSats :: "commitment_args \<Rightarrow> int" where
  "toLocalSats a = (if isFunderLocal a then max 0 (sats (localValue a) - commitmentFee a) else sats (localValue a))"

definition toRemoteSats :: "commitment_args \<Rightarrow> int" where
  "toRemoteSats a = (if isFunderLocal a then sats (remoteValue a) else max 0 (sats (remoteValue a) - commitmentFee a))"

definition ownedHtlcScript :: "(buffer \<Rightarrow> buffer) \<Rightarrow> (buffer \<Rightarrow> buffer) \<Rightarrow> commitment_args \<Rightarrow> htlc \<Rightarrow> script" where
  "ownedHtlcScript sha256 ripemd160 a h =
     (if ownerOffers a h
      then offeredHtlcScript sha256 ripemd160 (htlc_paymentHash h) (revocationPubKey a) (localHtlcPubKey a) (remoteHtlcPubKey a)
      else receivedHtlcScript sha256 ripemd160 (htlc_paymentHash h) (int (htlc_cltvExpiry h)) (revocationPubKey a) (localHtlcPubKey a) (remoteHtlcPubKey a))"

text \<open>At most one output, which has a value and a lock, if the value reaches the dust limit.\<close>

definition balanceOutput :: "commitment_args \<Rightarrow> int \<Rightarrow> script res \<Rightarrow> (tx_out \<times> htlc option) list \<Rightarrow> bool" where
  "balanceOutput a v lock outs \<longleftrightarrow> (if sats (dustLimitSatoshi a) \<le> v
     then \<exists>out. outs = [(out, None)] \<and> sats (to_value out) = v \<and> locks lock out else outs = [])"

lemma unpruned_kept: "0 \<le> feePerKw a \<Longrightarrow> unprunedHtlcs a = keptHtlcs a"
  unfolding unprunedHtlcs_def keptHtlcs_def
  by (rule filter_cong [OF refl])
    (auto simp: htlcUnpruned_def htlcFeeWeight_def ownerOffers_def bigDiv_nonneg pos_imp_zdiv_nonneg_iff Let_def)

lemma baseFee_kept: "0 \<le> feePerKw a \<Longrightarrow> baseFee a = commitmentFee a"
  by (simp add: baseFee_def commitmentFee_def unpruned_kept bigDiv_nonneg Let_def mult.commute)

lemma htlcTxOuts_pay:
  assumes "map_res (htlcTxOut sha256 ripemd160 a) us = Inr hs"
  shows "\<forall>p\<in>set hs. to_value (fst p) = htlc_value (the (snd p)) \<and> locks (p2wshLock sha256 (Inl (ownedHtlcScript sha256 ripemd160 a (the (snd p))))) (fst p)"
proof -
  have owned: "htlcWitnessScript sha256 ripemd160 a h = ownedHtlcScript sha256 ripemd160 a h" for h
    by (cases "htlc_direction h") (auto simp: htlcWitnessScript_def ownedHtlcScript_def ownerOffers_def)
  have one: "to_value (fst y) = htlc_value (the (snd y)) \<and> locks (p2wshLock sha256 (Inl (ownedHtlcScript sha256 ripemd160 a (the (snd y))))) (fst y)"
    if "htlcTxOut sha256 ripemd160 a u = Inr y" for u y
    using that by (auto simp: bind_res_eq_Inr htlcTxOut_def newTxOut_def locks_def owned)
  show ?thesis using assms
  proof (induction us arbitrary: hs)
    case (Cons u us)
    then obtain y ys where y: "htlcTxOut sha256 ripemd160 a u = Inr y" "map_res (htlcTxOut sha256 ripemd160 a) us = Inr ys" "hs = y # ys"
      by (auto simp: bind_res_eq_Inr)
    show ?case unfolding y(3) using one [OF y(1)] Cons.IH [OF y(2)] by simp
  qed simp
qed

lemma balance_outputs:
  assumes "0 \<le> feePerKw a" "localTxOut sha256 a = Inr l" "remoteTxOut vpk sha256 ripemd160 a = Inr r"
  shows "balanceOutput a (toLocalSats a) (p2wshLock sha256 (Inl (toLocalScript (revocationPubKey a) (delayedPubKey a) (localDelay a)))) l"
    "balanceOutput a (toRemoteSats a) (p2wpkhLock vpk sha256 ripemd160 (remotePubKey a)) r"
proof -
  have "sats (paidLocal a) = toLocalSats a" "sats (paidRemote a) = toRemoteSats a"
    by (simp_all add: paidLocal_def paidRemote_def toLocalSats_def toRemoteSats_def sats_lessFee baseFee_kept [OF assms(1)])
  then show "balanceOutput a (toLocalSats a) (p2wshLock sha256 (Inl (toLocalScript (revocationPubKey a) (delayedPubKey a) (localDelay a)))) l"
    "balanceOutput a (toRemoteSats a) (p2wpkhLock vpk sha256 ripemd160 (remotePubKey a)) r"
    using assms(2,3) by (auto simp: localTxOut_def remoteTxOut_def balanceOutput_def locks_def newTxOut_def bind_res_eq_Inr split: if_splits)
qed

text \<open>
  C29: A commitment transaction spends the funding output alone.  Its outputs are those of BOLT 3 and no others: one for
  every HTLC that is not trimmed, with its value and the script of its direction; one to the owner, delayed and revocable,
  with the balance of the owner; and one to the other side with the other balance, the fee taken off that of the funder;
  each of the two only if it reaches the dust limit.  They are in ascending order of value and script, the HTLCs are
  returned in that order, and never more is paid out than the funds of the channel less the base fee, or
  less everything the funder has where that does not cover the fee.
\<close>
theorem commitment_outputs:
  assumes "createCommitment vpk sha256 ripemd160 a = Inr (b, hs)" "0 \<le> feePerKw a"
    and "\<forall>h\<in>set (htlcs a). 0 \<le> psats (htlc_value h)" "0 \<le> psats (localValue a)" "0 \<le> psats (remoteValue a)"
  shows "map ti_outpoint (tb_inputs b) = [fundingOutPoint a]
    \<and> (\<exists>outs us l r. map fst outs = tb_outputs b \<and> List.map_filter snd outs = hs \<and> mset outs = mset (us @ l @ r)
        \<and> map snd us = map Some (keptHtlcs a)
        \<and> (\<forall>p\<in>set us. to_value (fst p) = htlc_value (the (snd p))
             \<and> locks (p2wshLock sha256 (Inl (ownedHtlcScript sha256 ripemd160 a (the (snd p))))) (fst p))
        \<and> balanceOutput a (toLocalSats a) (p2wshLock sha256 (Inl (toLocalScript (revocationPubKey a) (delayedPubKey a) (localDelay a)))) l
        \<and> balanceOutput a (toRemoteSats a) (p2wpkhLock vpk sha256 ripemd160 (remotePubKey a)) r)
    \<and> mset hs = mset (unprunedHtlcs a)
    \<and> sorted_wrt (\<lambda>x y. bip69OutputSorter x y \<le> 0) (tb_outputs b)
    \<and> (\<forall>out\<in>set (tb_outputs b). sats (dustLimitSatoshi a) \<le> sats (to_value out))
    \<and> (\<Sum>out\<leftarrow>tb_outputs b. sats (to_value out)) \<le> channelFunds a - feePaid a"
proof -
  obtain n s lt txouts where t: "commitmentTxOuts vpk sha256 ripemd160 a = Inr txouts"
    and b: "b = commitmentTx (fundingOutPoint a) s lt (map fst txouts)" "hs = List.map_filter snd txouts"
    using assms(1) by (auto simp: createCommitment_eq bind_res_eq_Inr)
  obtain us l r where u: "map_res (htlcTxOut sha256 ripemd160 a) (unprunedHtlcs a) = Inr us"
    and lr: "localTxOut sha256 a = Inr l" "remoteTxOut vpk sha256 ripemd160 a = Inr r"
    and so: "sortCommitmentOutputs (us @ l @ r) = Inr txouts"
    using t by (auto simp: commitmentTxOuts_def bind_res_eq_Inr)
  have pays: "map fst txouts = tb_outputs b" "mset txouts = mset (us @ l @ r)" "map snd us = map Some (keptHtlcs a)"
    using b(1) sortCommitmentOutputs_Inr(1) [OF so] htlcTxOuts_Inr(1) [OF u] unpruned_kept [OF assms(2)] by (simp_all add: commitmentTx_def)
  note us = htlcTxOuts_Inr [OF u] and side = sideTxOuts_Inr [OF lr] and so = sortCommitmentOutputs_Inr [OF so]
  have us_filter: "List.map_filter snd us = unprunedHtlcs a"
  proof -
    have "List.map_filter snd us = List.map_filter id (map snd us)"
      by (simp add: List.map_filter_def filter_map o_def)
    then show ?thesis by (simp add: us(1) List.map_filter_def filter_map o_def)
  qed
  have "mset hs = mset (List.map_filter snd (us @ l @ r))"
    unfolding b(2) by (rule mset_map_filter [OF so(1)])
  then have m: "mset hs = mset (unprunedHtlcs a)"
    using us_filter side(1,2) by (simp add: map_filter_append)
  have usval: "(\<lambda>p. sats (to_value (fst p))) = sats \<circ> (\<lambda>p. to_value (fst p))" by (simp add: o_def)
  have d: "\<forall>p\<in>set us. sats (dustLimitSatoshi a) \<le> sats (to_value (fst p))"
  proof
    fix p assume "p \<in> set us"
    then have "to_value (fst p) \<in> set (map (\<lambda>p. to_value (fst p)) us)" by simp
    then obtain h where "h \<in> set (unprunedHtlcs a)" "to_value (fst p) = htlc_value h" unfolding us(2) by auto
    then show "sats (dustLimitSatoshi a) \<le> sats (to_value (fst p))" using unpruned_value [OF assms(2)] by simp
  qed
  have "set txouts = set (us @ l @ r)" using so(1) by (metis set_mset_mset)
  then have dust: "\<forall>out\<in>set (map fst txouts). sats (dustLimitSatoshi a) \<le> sats (to_value out)"
    using d side(5) by auto
  have "(\<Sum>p\<leftarrow>us. sats (to_value (fst p))) = (\<Sum>h\<leftarrow>unprunedHtlcs a. sats (htlc_value h))"
    using arg_cong [OF us(2), of "\<lambda>vs. sum_list (map sats vs)"] by (simp add: o_def)
  then have sum: "(\<Sum>p\<leftarrow>txouts. sats (to_value (fst p)))
      = (\<Sum>h\<leftarrow>unprunedHtlcs a. sats (htlc_value h)) + keptValue a (paidLocal a) + keptValue a (paidRemote a)"
    using sum_list_mset [OF so(1), of "\<lambda>p. sats (to_value (fst p))"] side(3,4) by simp
  have nonneg: "0 \<le> sats (localValue a)" "0 \<le> sats (remoteValue a)" "\<forall>h\<in>set (htlcs a). 0 \<le> sats (htlc_value h)"
    using assms(3-5) by (simp_all add: sats_nonneg pos_imp_zdiv_nonneg_iff)
  have "(\<Sum>h\<leftarrow>unprunedHtlcs a. sats (htlc_value h)) \<le> (\<Sum>h\<leftarrow>htlcs a. sats (htlc_value h))"
    unfolding unprunedHtlcs_def by (rule sum_filter_le [OF nonneg(3)])
  moreover have "0 \<le> sats (paidLocal a)" "0 \<le> sats (paidRemote a)"
    "sats (paidLocal a) + sats (paidRemote a) = sats (localValue a) + sats (remoteValue a) - feePaid a"
    using nonneg by (auto simp: paidLocal_def paidRemote_def feePaid_def sats_lessFee)
  ultimately have "(\<Sum>p\<leftarrow>txouts. sats (to_value (fst p))) \<le> channelFunds a - feePaid a"
    unfolding sum channelFunds_def keptValue_def by (simp split: if_splits)
  moreover have "\<exists>outs us l r. map fst outs = tb_outputs b \<and> List.map_filter snd outs = hs \<and> mset outs = mset (us @ l @ r)
        \<and> map snd us = map Some (keptHtlcs a)
        \<and> (\<forall>p\<in>set us. to_value (fst p) = htlc_value (the (snd p))
             \<and> locks (p2wshLock sha256 (Inl (ownedHtlcScript sha256 ripemd160 a (the (snd p))))) (fst p))
        \<and> balanceOutput a (toLocalSats a) (p2wshLock sha256 (Inl (toLocalScript (revocationPubKey a) (delayedPubKey a) (localDelay a)))) l
        \<and> balanceOutput a (toRemoteSats a) (p2wpkhLock vpk sha256 ripemd160 (remotePubKey a)) r"
    using pays b(2) htlcTxOuts_pay [OF u] balance_outputs [OF assms(2) lr]
    by (intro exI [of _ txouts] exI [of _ us] exI [of _ l] exI [of _ r] conjI) simp_all
  ultimately show ?thesis using m so(2) dust b(1) by (simp add: commitmentTx_def o_def)
qed

definition sample_args :: commitment_args where
  "sample_args = \<lparr>isFunderLocal = False, commitmentNumber = 0, openPaymentBasePoint = [2],
     acceptPaymentBasePoint = [3], fundingOutPoint = op_coinbase, dustLimitSatoshi = fromSats 354,
     feePerKw = 1000, localDelay = 144, localValue = value_zero, remoteValue = fromSats 5000,
     revocationPubKey = [2], delayedPubKey = [2], remotePubKey = replicate 20 7, reverseHtlcs = False,
     localHtlcPubKey = [], remoteHtlcPubKey = [], htlcs = []\<rparr>"

lemma sample_commitment:
  "\<exists>b hs. createCommitment (\<lambda>_. True) (\<lambda>_. replicate 32 0) (\<lambda>_. replicate 20 0) sample_args = Inr (b, hs)
     \<and> map (\<lambda>out. sats (to_value out)) (tb_outputs b) = [4276]"
proof -
  let ?h = "\<lambda>_ :: buffer. replicate 32 0 :: buffer" and ?r = "\<lambda>_ :: buffer. replicate 20 0 :: buffer"
  obtain n where n: "n < 2 ^ 48" "cn_obscure ?h 0 [2] [3] = Inr n"
    using cn_getHash_eq [of ?h "[2]" "[3]"] by (auto simp: cn_obscure_def)
  have p: "baseFee sample_args = 724" "unprunedHtlcs sample_args = []"
    by (simp_all add: baseFee_def unprunedHtlcs_def sample_args_def bigDiv_def)
  have d: "sats (dustLimitSatoshi sample_args) = 354" by (simp add: sample_args_def)
  have l: "paidLocal sample_args = value_zero" "sats value_zero = 0"
    by (simp_all add: paidLocal_def sample_args_def value_zero_def sats_def bigDiv_def)
  have r: "paidRemote sample_args = fromSats 4276"
    using p by (simp add: paidRemote_def lessFee_def) (simp add: sample_args_def)
  have k: "length (remotePubKey sample_args) = 20" by (simp add: sample_args_def)
  have "localTxOut ?h sample_args = Inr []" by (simp add: localTxOut_def l d)
  moreover obtain sp where "remoteTxOut (\<lambda>_. True) ?h ?r sample_args
      = Inr [(\<lparr>to_value = fromSats 4276, to_scriptPubKey = sp\<rparr>, None)]"
    using k by (auto simp: remoteTxOut_def r d p2wpkhLock_def newTxOut_def toScriptBuf_def sb_fromScript_def
      serializeCmds_def serializeCmd_def op_codes)
  ultimately have "commitmentTxOuts (\<lambda>_. True) ?h ?r sample_args
      = Inr [(\<lparr>to_value = fromSats 4276, to_scriptPubKey = sp\<rparr>, None)]"
    by (simp add: commitmentTxOuts_def p sortCommitmentOutputs_def compareThrows_def sortBy_def)
  then show ?thesis
    using n cn_split [OF n(1)] by (simp add: createCommitment_eq) (simp add: sample_args_def commitmentTx_def)
qed

theorem commitment_outputs_witness:
  "\<exists>b hs. createCommitment (\<lambda>_. True) (\<lambda>_. replicate 32 0) (\<lambda>_. replicate 20 0) sample_args = Inr (b, hs)
    \<and> map (\<lambda>out. sats (to_value out)) (tb_outputs b) = [4276] \<and> mset hs = {#}
    \<and> 4276 \<le> channelFunds sample_args - feePaid sample_args"
proof -
  obtain b hs where c: "createCommitment (\<lambda>_. True) (\<lambda>_. replicate 32 0) (\<lambda>_. replicate 20 0) sample_args = Inr (b, hs)"
    "map (\<lambda>out. sats (to_value out)) (tb_outputs b) = [4276]"
    using sample_commitment by (elim exE conjE)
  then have "mset hs = mset (unprunedHtlcs sample_args)"
    "(\<Sum>out\<leftarrow>tb_outputs b. sats (to_value out)) \<le> channelFunds sample_args - feePaid sample_args"
    using commitment_outputs [OF c(1)] by (simp_all add: sample_args_def value_zero_def fromSats_def)
  then show ?thesis using c by (auto simp: unprunedHtlcs_def) (simp add: sample_args_def)
qed

end
