(* ===== verification/ChannelPromises.thy ===== *)
theory ChannelPromises
  imports ChannelSafety ChannelTxFacts
begin

text \<open>
  What a channel promises: the funding transaction is safe to broadcast, the commitment transactions
  of the two peers agree, and a funded channel becomes usable.
\<close>

section \<open>The two views of a channel\<close>

text \<open>The data of a side that a commitment transaction depends on.\<close>

definition sameSide :: "channel_side \<Rightarrow> channel_side \<Rightarrow> bool" where
  "sameSide s t \<longleftrightarrow>
     side_nextCommitmentPoint s = side_nextCommitmentPoint t \<and> side_nextCommitmentNumber s = side_nextCommitmentNumber t
   \<and> side_revocationBasePoint s = side_revocationBasePoint t \<and> side_delayedBasePoint s = side_delayedBasePoint t
   \<and> side_paymentBasePoint s = side_paymentBasePoint t \<and> side_htlcBasePoint s = side_htlcBasePoint t
   \<and> side_dustLimit s = side_dustLimit t \<and> side_toSelfDelayBlocks s = side_toSelfDelayBlocks t
   \<and> side_balance s = side_balance t"

text \<open>Two peers see the same channel: one's own side is the other's remote side.\<close>

definition mirrored :: "channel \<Rightarrow> channel \<Rightarrow> bool" where
  "mirrored c c' \<longleftrightarrow> ch_funder c' = (\<not> ch_funder c) \<and> sameSide (ch_ourSide c') (ch_theirSide c)
   \<and> sameSide (ch_theirSide c') (ch_ourSide c) \<and> ch_fundingOutPoint c' = ch_fundingOutPoint c
   \<and> ch_feeRatePerKw c' = ch_feeRatePerKw c \<and> ch_fundingScript c' = ch_fundingScript c
   \<and> ch_fundingAmount c' = ch_fundingAmount c"

lemma createCommitment_reverse:
  "htlcs a = [] \<Longrightarrow> createCommitment vpk sha256 ripemd160 (a\<lparr>reverseHtlcs := \<not> reverseHtlcs a\<rparr>)
     = createCommitment vpk sha256 ripemd160 a"
proof -
  assume h: "htlcs a = []"
  then have o: "a\<lparr>reverseHtlcs := \<not> reverseHtlcs a\<rparr> = otherArgs a" by (simp add: otherArgs_def)
  have "unprunedHtlcs a = []" by (simp add: unprunedHtlcs_def h)
  then have none: "map (map_prod id (map_option otherView)) ys = ys" if "commitmentTxOuts vpk sha256 ripemd160 a = Inr ys" for ys
    using that by (auto simp: commitmentTxOuts_def localTxOut_def remoteTxOut_def sortCommitmentOutputs_def sortBy_def
        bind_res_eq_Inr split: if_splits)
  show ?thesis unfolding o createCommitment_eq commitmentTxOuts_other
    using none by (cases "commitmentTxOuts vpk sha256 ripemd160 a") simp_all
qed

lemma mirrored_commitments:
  assumes "mirrored c c'"
  shows "createRemoteCommitmentTx cry c' = createLocalCommitmentTx cry c"
proof -
  have args: "createCommitment vpk sha256 ripemd160
      \<lparr>isFunderLocal = f, commitmentNumber = n, openPaymentBasePoint = p, acceptPaymentBasePoint = q, fundingOutPoint = x,
       dustLimitSatoshi = d, feePerKw = r, localDelay = t, localValue = v, remoteValue = v', revocationPubKey = k1,
       delayedPubKey = k2, remotePubKey = k3, reverseHtlcs = True, localHtlcPubKey = k4, remoteHtlcPubKey = k5, htlcs = []\<rparr>
    = createCommitment vpk sha256 ripemd160
      \<lparr>isFunderLocal = f, commitmentNumber = n, openPaymentBasePoint = p, acceptPaymentBasePoint = q, fundingOutPoint = x,
       dustLimitSatoshi = d, feePerKw = r, localDelay = t, localValue = v, remoteValue = v', revocationPubKey = k1,
       delayedPubKey = k2, remotePubKey = k3, reverseHtlcs = False, localHtlcPubKey = k4, remoteHtlcPubKey = k5, htlcs = []\<rparr>"
    for vpk sha256 ripemd160 f n p q x d r t v v' k1 k2 k3 k4 k5
    using createCommitment_reverse [of "\<lparr>isFunderLocal = f, commitmentNumber = n, openPaymentBasePoint = p,
       acceptPaymentBasePoint = q, fundingOutPoint = x,
       dustLimitSatoshi = d, feePerKw = r, localDelay = t, localValue = v, remoteValue = v', revocationPubKey = k1,
       delayedPubKey = k2, remotePubKey = k3, reverseHtlcs = False, localHtlcPubKey = k4, remoteHtlcPubKey = k5, htlcs = []\<rparr>"]
    by simp
  have fields: "ch_funder c' = (\<not> ch_funder c)" "sameSide (ch_ourSide c') (ch_theirSide c)"
    "sameSide (ch_theirSide c') (ch_ourSide c)" "ch_fundingOutPoint c' = ch_fundingOutPoint c"
    "ch_feeRatePerKw c' = ch_feeRatePerKw c"
    using assms by (simp_all add: mirrored_def)
  have points: "openPaymentBasePointOf c' = openPaymentBasePointOf c" "acceptPaymentBasePointOf c' = acceptPaymentBasePointOf c"
    using fields by (simp_all add: openPaymentBasePointOf_def acceptPaymentBasePointOf_def sameSide_def)
  show ?thesis unfolding createRemoteCommitmentTx_def createLocalCommitmentTx_def points args fields(1,4,5) Let_def
    using fields(2,3) by (simp add: sameSide_def)
qed

lemma mirrored_signature:
  assumes "mirrored c c'" "createRemoteCommitmentTx cry c' = Inr (b, hs)" "signCommitmentTx cry c' b = Inr sig"
    "ch_fundingKey c' = Some key" "side_fundingPubKey (ch_theirSide c) = Some pub"
    "\<And>h. cry_verifySig cry h (cry_sign cry h key) pub"
    "\<And>h. cry_sigFromDER cry (cry_sigToDER cry (cry_sign cry h key)) = Inr (cry_sign cry h key)"
  shows "validateFundingSignedMessage cry c \<lparr>fs_channelId = i, fs_signature = sig\<rparr> = Inr None"
proof -
  have "createLocalCommitmentTx cry c = Inr (b, hs)" using assms(1,2) mirrored_commitments by metis
  moreover obtain s amount where s: "ch_fundingScript c = Some s" "ch_fundingAmount c = Some amount"
    using assms(1,3) by (auto simp: signCommitmentTx_def mirrored_def bind_res_eq_Inr)
  moreover obtain r b' where h: "hashSegwitv0 (cry_sha256 cry) 0 (Inr s) amount b = (r, b')" by fastforce
  moreover obtain hash where "r = Inr hash" "sig = cry_sign cry hash key"
    using assms(1,3,4,7) s h by (cases r) (auto simp: signCommitmentTx_def mirrored_def tb_signSegWitv0_def io_simps)
  ultimately show ?thesis using assms(5,6)
    by (simp add: validateFundingSignedMessage_def validateCommitmentSig_def)
qed

section \<open>An example\<close>

definition sample_crypto :: crypto_ops where
  "sample_crypto = \<lparr>cry_sha256 = \<lambda>_. replicate 32 0, cry_ripemd160 = \<lambda>_. replicate 20 0,
     cry_validPublicKey = \<lambda>_. True, cry_validPrivateKey = \<lambda>_. True, cry_getPublicKey = \<lambda>b _. Inr b,
     cry_publicKeyTweakAdd = \<lambda>b _ _. Inr b, cry_publicKeyTweakMul = \<lambda>b _ _. Inr b,
     cry_publicKeyCombine = \<lambda>bs _. Inr (hd bs), cry_privateKeyTweakAdd = \<lambda>b _. Inr b,
     cry_privateKeyTweakMul = \<lambda>b _. Inr b, cry_sign = \<lambda>h key. key @ h, cry_sigToDER = \<lambda>s. 0x30 # s,
     cry_sigFromDER = \<lambda>s. Inr (tl s), cry_verifySig = \<lambda>h sig key. sig = key @ h\<rparr>"

text \<open>Two peers whose channel is funded with 5000 satoshi of the first.\<close>

definition sample_side :: "8 word \<Rightarrow> nat \<Rightarrow> channel_side" where
  "sample_side k balance = newChannelSide\<lparr>side_nextCommitmentPoint := Some [k], side_nextCommitmentNumber := Some (CommitmentNumber 0),
     side_revocationBasePoint := Some [k], side_delayedBasePoint := Some [k], side_paymentBasePoint := Some [k],
     side_htlcBasePoint := Some [k], side_dustLimit := Some (fromSats 354), side_toSelfDelayBlocks := Some 6,
     side_fundingPubKey := Some [k], side_balance := Some (fromSats (int balance))\<rparr>"

definition sample_channel :: "bool \<Rightarrow> channel" where
  "sample_channel funder = (newChannel ''peer'' testnet funder)
     \<lparr>ch_ourSide := (if funder then sample_side 2 5000 else sample_side 3 0),
      ch_theirSide := (if funder then sample_side 3 0 else sample_side 2 5000),
      ch_fundingKey := Some (if funder then [2] else [3]), ch_fundingOutPoint := Some op_coinbase,
      ch_feeRatePerKw := Some (fromSats 1000), ch_fundingScript := Some (ScriptBuf [0x51]),
      ch_fundingAmount := Some (fromSats 5000), ch_fundingTx := Some sample_tx,
      ch_state := Some (stateId Channel_Initializing_AwaitingFundingSigned)\<rparr>"

lemma sample_mirrored: "mirrored (sample_channel True) (sample_channel False)"
  by (simp add: mirrored_def sample_channel_def newChannel_def sameSide_def)

definition sample_wallet :: channel_wallet where
  "sample_wallet = \<lparr>wa_feeRatePerKw = fromSats 1000, wa_dustLimit = fromSats 354, wa_hasFunds = \<lambda>_. True,
     wa_fundingKey = [2], wa_basePoints = \<lparr>bp_paymentBasePointSecret = [2], bp_delayedPaymentBasePointSecret = [2],
       bp_htlcBasePointSecret = [2], bp_revocationBasePointSecret = [2]\<rparr>,
     wa_perCommitmentSeed = replicate 32 7, wa_blockHeight = 100, wa_randomBytes = replicate 32 8,
     wa_fundTx = \<lambda>b. Inr (toTx b)\<rparr>"

abbreviation sample_logic :: channel_logic where
  "sample_logic \<equiv> helpers_logic sample_crypto sample_wallet default_preferences [''peer''] (\<lambda>_. True)"

text \<open>The commitment transaction of the first peer exists, and can be signed.\<close>

lemma sample_signed:
  "\<exists>b. createRemoteCommitmentTx sample_crypto (sample_channel False) = Inr (b, [])
     \<and> (\<exists>sig. signCommitmentTx sample_crypto (sample_channel False) b = Inr sig)"
proof -
  let ?h = "\<lambda>_ :: buffer. replicate 32 0 :: buffer" and ?r = "\<lambda>_ :: buffer. replicate 20 0 :: buffer"
  let ?a = "\<lparr>isFunderLocal = True, commitmentNumber = 0, openPaymentBasePoint = [2],
     acceptPaymentBasePoint = [3], fundingOutPoint = op_coinbase, dustLimitSatoshi = fromSats 354,
     feePerKw = 1000, localDelay = 6, localValue = fromSats 5000, remoteValue = fromSats 0,
     revocationPubKey = [3], delayedPubKey = [2], remotePubKey = [3], reverseHtlcs = False,
     localHtlcPubKey = [2], remoteHtlcPubKey = [3], htlcs = []\<rparr>"
  have local: "createLocalCommitmentTx sample_crypto (sample_channel True) = createCommitment (\<lambda>_. True) ?h ?r ?a"
    by (simp add: createLocalCommitmentTx_def sample_channel_def sample_side_def newChannel_def Let_def sample_crypto_def
        deriveRevocationPubKey_def derivePubKey_def openPaymentBasePointOf_def acceptPaymentBasePointOf_def)
  obtain n where n: "n < 2 ^ 48" "cn_obscure ?h 0 [2] [3] = Inr n"
    using cn_getHash_eq [of ?h "[2]" "[3]"] by (auto simp: cn_obscure_def)
  have p: "baseFee ?a = 724" "unprunedHtlcs ?a = []" by (simp_all add: baseFee_def unprunedHtlcs_def bigDiv_def)
  have l: "paidLocal ?a = fromSats 4276" "paidRemote ?a = fromSats 0"
    using p by (simp_all add: paidLocal_def paidRemote_def lessFee_def)
  obtain sp where sp: "localTxOut ?h ?a = Inr [(\<lparr>to_value = fromSats 4276, to_scriptPubKey = sp\<rparr>, None)]"
    "length (sb_buffer sp) = 34"
    by (auto simp: localTxOut_def l p2wshLock_def newTxOut_def toScriptBuf_def sb_fromScript_def
      serializeCmds_def serializeCmd_def op_codes toLocalScript_def scriptNumber_def script_sha256_def)
  have "remoteTxOut (\<lambda>_. True) ?h ?r ?a = Inr []" by (simp add: remoteTxOut_def l)
  then have outs: "commitmentTxOuts (\<lambda>_. True) ?h ?r ?a = Inr [(\<lparr>to_value = fromSats 4276, to_scriptPubKey = sp\<rparr>, None)]"
    using sp(1) by (simp add: commitmentTxOuts_def p sortCommitmentOutputs_def compareThrows_def sortBy_def)
  let ?b = "commitmentTx op_coinbase \<lparr>seq_value = 0x80000000 + n div 2 ^ 24\<rparr> \<lparr>lt_value = 0x20000000 + n mod 2 ^ 24\<rparr>
    [\<lparr>to_value = fromSats 4276, to_scriptPubKey = sp\<rparr>]"
  have b: "createCommitment (\<lambda>_. True) ?h ?r ?a = Inr (?b, [])"
    using n cn_split [OF n(1)] outs by (simp add: createCommitment_eq)
  have "n div 2 ^ 24 < 2 ^ 24" "n mod 2 ^ 24 < 3758096384" using n(1) less_le_trans [of "n mod 2 ^ 24" "2 ^ 24" 3758096384]
    by (simp_all add: div_less_iff_less_mult)
  then have "tb_ok ?b"
    using sp(2) by (simp add: tb_ok_def toTx_def commitmentTx_def newTxBuilder_def tx_ok_def ti_ok_def to_ok_def outputs_bytes_def
        op_wf_def hv_wf_def op_coinbase_def to_bytes_def var_bytes_def length_varint_bytes fromSats_def)
  moreover have "caches_ok ?h ?b" by (simp add: caches_ok_def commitmentTx_def newTxBuilder_def)
  moreover have "0 < length (tb_inputs ?b)" by (simp add: commitmentTx_def)
  moreover have "arg_serialize (Inr (ScriptBuf [0x51])) = Inr [1, 0x51]"
    by (simp add: arg_serialize_def sb_serialize_def encodeVarInt_def)
  ultimately have "\<exists>h b'. hashSegwitv0 ?h (int 0) (Inr (ScriptBuf [0x51])) (fromSats 5000) ?b = (Inr h, b')"
    using hashSegwitv0_eq(2) [of ?b ?h 0 "Inr (ScriptBuf [0x51])" "[1, 0x51]" "fromSats 5000" 5000] by auto
  then obtain h b' where "hashSegwitv0 ?h 0 (Inr (ScriptBuf [0x51])) (fromSats 5000) ?b = (Inr h, b')" by auto
  then have "\<exists>sig. signCommitmentTx sample_crypto (sample_channel False) ?b = Inr sig"
    by (simp add: signCommitmentTx_def sample_channel_def sample_crypto_def tb_signSegWitv0_def io_simps)
  then show ?thesis using mirrored_commitments [OF sample_mirrored] local b by auto
qed

section \<open>The signature of an honest peer\<close>

definition fundingSignedEvent :: "funding_signed \<Rightarrow> channel_event" where
  "fundingSignedEvent msg = \<lparr>ev_type = FundingSignedMessage, ev_message = Some (MFundingSigned msg), ev_block = None\<rparr>"

definition blockEvent :: "block \<Rightarrow> channel_event" where
  "blockEvent b = \<lparr>ev_type = BlockConnected, ev_message = None, ev_block = Some b\<rparr>"

definition readyEvent :: "channel_ready \<Rightarrow> channel_event" where
  "readyEvent msg = \<lparr>ev_type = ChannelReadyMessage, ev_message = Some (MChannelReady msg), ev_block = None\<rparr>"

text \<open>An event that the state of the channel handles.\<close>

lemma helpers_event:
  fixes cry wa prefs peers accepts
  defines "L \<equiv> helpers_logic cry wa prefs peers accepts"
  assumes "ch_state (cw_channel w) = Some (stateId s)" "transitionOf cry L s (ev_type ev) = Some f"
  shows "handleEvent (constructMachine cry L) ev w = afterTransition s (f (Some ev) w)"
proof -
  have "ch_state (cw_channel (snd (f (Some ev) w))) = Some (stateId s)"
    using hl.transition_keeps_state [OF assms(3) [unfolded L_def], of ev w "fst (f (Some ev) w)" "snd (f (Some ev) w)"] assms(2)
    by simp
  then have "handleEvent (constructMachine cry L) ev w
    = (case transitionOf cry L s (ev_type ev) of None \<Rightarrow> (Inr (), w) | Some f \<Rightarrow> afterTransition s (f (Some ev) w))"
    using assms(3) by (intro handleEvent_eq [OF assms(2)]) simp
  then show ?thesis using assms(3) by simp
qed

text \<open>
  C2: The peer that sees the mirror image of the channel and signs its remote commitment
  transaction is believed: the opener accepts the signature as one for its own commitment
  transaction, broadcasts the funding transaction, and waits for its confirmation.
\<close>

theorem honest_peer_funds:
  assumes "mirrored (cw_channel w) c'" "createRemoteCommitmentTx cry c' = Inr (b, hs)" "signCommitmentTx cry c' b = Inr sig"
    and "ch_fundingKey c' = Some key" "side_fundingPubKey (ch_theirSide (cw_channel w)) = Some pub"
    and "\<And>h. cry_verifySig cry h (cry_sign cry h key) pub"
    and "\<And>h. cry_sigFromDER cry (cry_sigToDER cry (cry_sign cry h key)) = Inr (cry_sign cry h key)"
    and "ch_state (cw_channel w) = Some (stateId Channel_Initializing_AwaitingFundingSigned)"
    and "ch_fundingTx (cw_channel w) = Some t" "accepts t"
  shows "\<exists>w'. handleEvent (constructMachine cry (helpers_logic cry wa prefs peers accepts))
        (fundingSignedEvent \<lparr>fs_channelId = i, fs_signature = sig\<rparr>) w = (Inr (), w')
    \<and> ch_state (cw_channel w') = Some (stateId Channel_Funding_AwaitingFundingConf_NoChannelReady)
    \<and> side_nextCommitmentSig (ch_ourSide (cw_channel w')) = Some sig
    \<and> broadcasts (cw_effects w') = broadcasts (cw_effects w) @ [t]"
proof -
  let ?L = "helpers_logic cry wa prefs peers accepts" and ?m = "\<lparr>fs_channelId = i, fs_signature = sig\<rparr>"
  have "lg_validateFundingSignedMessage ?L (cw_channel w) ?m = Inr None"
    using mirrored_signature [OF assms(1-7)] by (simp add: helpers_logic_def)
  then have "onFundingSignedTransition ?L ?m w = (Inr (Some Channel_Funding_AwaitingFundingConf_NoChannelReady),
      \<lparr>cw_channel = attachFundingSigned ?m (cw_channel w), cw_effects = cw_effects w @ [BroadcastTx t]\<rparr>)"
    using assms(9,10) by (cases w) (simp add: onFundingSignedTransition_def io_simps helpers_logic_def)
  moreover have "handleEvent (constructMachine cry ?L) (fundingSignedEvent ?m) w
    = afterTransition Channel_Initializing_AwaitingFundingSigned (onFundingSignedTransition ?L ?m w)"
    by (subst helpers_event [OF assms(8), where f = "withMessage asFundingSigned (onFundingSignedTransition ?L)"])
      (simp_all add: fundingSignedEvent_def transitionOf_def withMessage_def asFundingSigned_def)
  ultimately show ?thesis
    by (simp add: afterTransition_def attachFundingSigned_def setOurs_def del: stateId.simps)
qed

theorem honest_peer_funds_witness:
  "\<exists>b sig w'. createRemoteCommitmentTx sample_crypto (sample_channel False) = Inr (b, [])
    \<and> signCommitmentTx sample_crypto (sample_channel False) b = Inr sig
    \<and> handleEvent (constructMachine sample_crypto sample_logic)
        (fundingSignedEvent \<lparr>fs_channelId = ChannelId [], fs_signature = sig\<rparr>) \<lparr>cw_channel = sample_channel True, cw_effects = []\<rparr> = (Inr (), w')
    \<and> ch_state (cw_channel w') = Some (stateId Channel_Funding_AwaitingFundingConf_NoChannelReady)
    \<and> broadcasts (cw_effects w') = [sample_tx]"
proof -
  obtain b sig where b: "createRemoteCommitmentTx sample_crypto (sample_channel False) = Inr (b, [])"
    "signCommitmentTx sample_crypto (sample_channel False) b = Inr sig" using sample_signed by blast
  have "\<exists>w'. handleEvent (constructMachine sample_crypto sample_logic)
        (fundingSignedEvent \<lparr>fs_channelId = ChannelId [], fs_signature = sig\<rparr>) \<lparr>cw_channel = sample_channel True, cw_effects = []\<rparr> = (Inr (), w')
    \<and> ch_state (cw_channel w') = Some (stateId Channel_Funding_AwaitingFundingConf_NoChannelReady)
    \<and> side_nextCommitmentSig (ch_ourSide (cw_channel w')) = Some sig
    \<and> broadcasts (cw_effects w') = broadcasts (cw_effects \<lparr>cw_channel = sample_channel True, cw_effects = []\<rparr>) @ [sample_tx]"
    by (rule honest_peer_funds [where c' = "sample_channel False", OF _ b])
      (use sample_mirrored in \<open>simp_all add: sample_crypto_def sample_channel_def sample_side_def newChannel_def del: stateId.simps\<close>)
  then show ?thesis using b by auto
qed

section \<open>The safety of a channel\<close>

text \<open>
  The funding transaction was broadcast, once, and the peer's signature for our first commitment
  transaction, with which we can get our money back, is stored in the channel and valid.
\<close>

definition signedFunding :: "crypto_ops \<Rightarrow> channel_world \<Rightarrow> bool" where
  "signedFunding cry w \<longleftrightarrow> (\<exists>t msg. broadcasts (cw_effects w) = [t] \<and> ch_fundingTx (cw_channel w) = Some t
     \<and> side_nextCommitmentSig (ch_ourSide (cw_channel w)) = Some (fs_signature msg)
     \<and> validateFundingSignedMessage cry (cw_channel w) msg = Inr None)"

lemma fundedSafely_signed: "fundedSafely (helpers_logic cry wa prefs peers accepts) w = signedFunding cry w"
  by (simp add: fundedSafely_def signedFunding_def helpers_logic_def Let_def)

text \<open>
  C1: In every state that a sequence of events leads to, with any messages and blocks, the funding
  transaction is either not broadcast, or broadcast once with a valid signature of the peer stored;
  an abandoned channel never broadcast it; and a normal channel is confirmed, with
  \<^verbatim>\<open>channel_ready\<close> sent and received.
\<close>

theorem channel_states_safe:
  assumes "channel_reachable cry (helpers_logic cry wa prefs peers accepts) w"
  shows "\<exists>s. ch_state (cw_channel w) = Some (stateId s)
    \<and> (s \<in> {Channel_Initializing_AwaitingAcceptChannel, Channel_Initializing_AwaitingFundingSigned, Channel_Abandoned, Channel_Failing}
         \<and> broadcasts (cw_effects w) = []
     \<or> s \<in> {Channel_Funding_AwaitingFundingConf_NoChannelReady, Channel_Failing} \<and> signedFunding cry w
     \<or> s = Channel_Funding_AwaitingFundingDepth \<and> signedFunding cry w \<and> confirmed (cw_channel w)
     \<or> s = Channel_Funding_AwaitingChannelReady \<and> signedFunding cry w \<and> confirmedAt (cw_channel w)
         \<and> sentReady (cw_effects w)
     \<or> s = Channel_Normal \<and> signedFunding cry w \<and> confirmedAt (cw_channel w) \<and> sentReady (cw_effects w)
         \<and> hasChannelReady (cw_channel w) = Inr True)"
proof -
  obtain s where s: "ch_state (cw_channel w) = Some (stateId s)" "stateInv (helpers_logic cry wa prefs peers accepts) w s"
    using reachable_inv [OF assms] by (auto simp: channelInv_def)
  show ?thesis using s by (intro exI [of _ s]) (cases s; simp add: fundedSafely_signed del: stateId.simps)
qed

lemma stateInv_cases: "stateInv L w s \<Longrightarrow> broadcasts (cw_effects w) = [] \<or> fundedSafely L w"
  by (cases s) auto

text \<open>
  C5: The hierarchical machine with its search through the states, its event handlers inherited from
  parent states and its loop over transitions does what a flat table says: a handled event runs the
  one function of the table, and the state is entered and the channel saved if it is a new one; an
  unhandled event changes nothing. The machine itself never fails and never loops.
\<close>

theorem machine_refines_table:
  fixes cry wa prefs peers accepts
  defines "L \<equiv> helpers_logic cry wa prefs peers accepts"
  assumes "ch_state (cw_channel w) = Some (stateId s)"
  shows "handleEvent (constructMachine cry L) ev w = (case transitionOf cry L s (ev_type ev) of
      None \<Rightarrow> (Inr (), w)
    | Some f \<Rightarrow> (case f (Some ev) w of
        (Inl e, w') \<Rightarrow> (Inl e, w')
      | (Inr None, w') \<Rightarrow> (Inr (), w')
      | (Inr (Some s'), w') \<Rightarrow> (Inr (), if s' = s then w' else let c = (cw_channel w')\<lparr>ch_state := Some (stateId s')\<rparr>
           in \<lparr>cw_channel = c, cw_effects = cw_effects w' @ [SaveChannel c]\<rparr>)))"
proof -
  have "ch_state (cw_channel (snd (f (Some ev) w))) = Some (stateId s)" if "transitionOf cry L s (ev_type ev) = Some f" for f
    using hl.transition_keeps_state [OF that [unfolded L_def], of ev w "fst (f (Some ev) w)" "snd (f (Some ev) w)"] assms(2) by simp
  then have "handleEvent (constructMachine cry L) ev w
    = (case transitionOf cry L s (ev_type ev) of None \<Rightarrow> (Inr (), w) | Some f \<Rightarrow> afterTransition s (f (Some ev) w))"
    by (intro handleEvent_eq [OF assms(2)])
  then show ?thesis
    by (auto simp: afterTransition_def enterState_def Let_def split: option.splits prod.splits sum.splits)
qed

theorem machine_refines_table_witness:
  "handleEvent (constructMachine sample_crypto sample_logic)
      \<lparr>ev_type = PeerDisconnected, ev_message = None, ev_block = None\<rparr> \<lparr>cw_channel = sample_channel True, cw_effects = []\<rparr>
    = (Inr (), let c = (sample_channel True)\<lparr>ch_state := Some (stateId Channel_Abandoned)\<rparr>
        in \<lparr>cw_channel = c, cw_effects = [RemoveChannel (sample_channel True), SaveChannel c]\<rparr>)"
  by (subst machine_refines_table [where s = Channel_Initializing_AwaitingFundingSigned])
    (simp_all add: sample_channel_def transitionOf_def disconnectedAbandon_def io_simps del: stateId.simps)

section \<open>Becoming usable\<close>

lemma each_io_append: "each_io f (xs @ ys) = then_io (each_io f xs) (each_io f ys)"
  by (induction xs) (auto simp: fun_eq_iff io_simps split: sum.splits prod.splits)

lemma shallow_blocks:
  assumes "ch_state (cw_channel w) = Some (stateId Channel_Funding_AwaitingFundingDepth)"
    "\<And>b. b \<in> set bs \<Longrightarrow> \<exists>k. blockHeight b = Inr k \<and> \<not> heightReached k (readyHeight (cw_channel w))"
  shows "each_io (handleEvent (constructMachine cry (helpers_logic cry wa prefs peers accepts))) (map blockEvent bs) w = (Inr (), w)"
  using assms(2)
proof (induction bs)
  case (Cons b bs)
  let ?L = "helpers_logic cry wa prefs peers accepts"
  obtain k where k: "blockHeight b = Inr k" "\<not> heightReached k (readyHeight (cw_channel w))" using Cons.prems by auto
  have "handleEvent (constructMachine cry ?L) (blockEvent b) w
    = afterTransition Channel_Funding_AwaitingFundingDepth (withBlock (onFundingDepthReached ?L) (Some (blockEvent b)) w)"
    by (rule helpers_event [OF assms(1)]) (simp add: transitionOf_def blockEvent_def)
  then have "handleEvent (constructMachine cry ?L) (blockEvent b) w = (Inr (), w)"
    using k by (simp add: withBlock_def blockEvent_def onFundingDepthReached_def io_simps afterTransition_def)
  then show ?case using Cons by (simp add: io_simps)
qed (simp add: io_simps)

lemma depth_event:
  fixes cry wa prefs peers accepts
  defines "L \<equiv> helpers_logic cry wa prefs peers accepts"
  assumes "ch_state (cw_channel w) = Some (stateId Channel_Funding_AwaitingFundingDepth)"
    "blockHeight b = Inr k" "heightReached k (readyHeight (cw_channel w))"
    "ch_channelId (cw_channel w) = Some ci" "side_nextCommitmentPoint (ch_ourSide (cw_channel w)) = Some p"
    "ch_peerId (cw_channel w) \<in> set peers" "hasChannelReady (cw_channel w) = Inr ready"
  shows "handleEvent (constructMachine cry L) (blockEvent b) w =
    (Inr (), enterState (if ready then Channel_Normal else Channel_Funding_AwaitingChannelReady)
       (w\<lparr>cw_effects := cw_effects w @ [SendMessage (ch_peerId (cw_channel w))
          (MChannelReady \<lparr>cr_channelId = ci, cr_nextPerCommitmentPoint = p\<rparr>)]\<rparr>))"
proof -
  have "handleEvent (constructMachine cry L) (blockEvent b) w
    = afterTransition Channel_Funding_AwaitingFundingDepth (withBlock (onFundingDepthReached L) (Some (blockEvent b)) w)"
    unfolding L_def by (rule helpers_event [OF assms(2)]) (simp add: transitionOf_def blockEvent_def)
  also have "withBlock (onFundingDepthReached L) (Some (blockEvent b)) w
    = (Inr (Some (if ready then Channel_Normal else Channel_Funding_AwaitingChannelReady)),
       w\<lparr>cw_effects := cw_effects w @ [SendMessage (ch_peerId (cw_channel w))
          (MChannelReady \<lparr>cr_channelId = ci, cr_nextPerCommitmentPoint = p\<rparr>)]\<rparr>)"
    using assms(3-8) by (simp add: L_def withBlock_def blockEvent_def onFundingDepthReached_def io_simps
        helpers_logic_def createChannelReadyMessage_def)
  finally show ?thesis by (simp add: afterTransition_def)
qed

lemma readyHeight_state [simp]: "readyHeight (c\<lparr>ch_state := x\<rparr>) = readyHeight c"
  by (simp add: readyHeight_def split: option.split)

lemma ready_keeps_identity:
  assumes "localView c = localView c'"
  shows "ch_channelId c = ch_channelId c'" "ch_peerId c = ch_peerId c'" "ch_minimumDepth c = ch_minimumDepth c'"
  using arg_cong [where f = ch_channelId, OF assms] arg_cong [where f = ch_peerId, OF assms]
    arg_cong [where f = ch_minimumDepth, OF assms]
  by (simp_all add: localView_def setOurs_def setTheirs_def)

text \<open>What goes to the peer or to the network, among the effects.\<close>

primrec is_sent :: "effect \<Rightarrow> bool" where
  "is_sent (SendMessage p m) = True"
| "is_sent (BroadcastTx t) = True"
| "is_sent (SaveChannel c) = False"
| "is_sent (RemoveChannel c) = False"

lemma ready_event:
  fixes cry wa prefs peers accepts
  defines "L \<equiv> helpers_logic cry wa prefs peers accepts"
  assumes "ch_state (cw_channel w) = Some (stateId s)"
    "s = Channel_Funding_AwaitingFundingDepth \<and> success = s \<or> s = Channel_Funding_AwaitingChannelReady \<and> success = Channel_Normal"
    "cry_validPublicKey cry (cr_nextPerCommitmentPoint msg)" "side_nextCommitmentNumber (ch_theirSide (cw_channel w)) = Some n"
  shows "\<exists>w'. handleEvent (constructMachine cry L) (readyEvent msg) w = (Inr (), w')
    \<and> ch_state (cw_channel w') = Some (stateId success) \<and> hasChannelReady (cw_channel w') = Inr True
    \<and> filter is_sent (cw_effects w') = filter is_sent (cw_effects w) \<and> ch_ourSide (cw_channel w') = ch_ourSide (cw_channel w)
    \<and> ch_channelId (cw_channel w') = ch_channelId (cw_channel w) \<and> ch_peerId (cw_channel w') = ch_peerId (cw_channel w)
    \<and> readyHeight (cw_channel w') = readyHeight (cw_channel w)"
proof -
  have "lg_validateChannelReadyMessage L (cw_channel w) msg"
    using assms(4) by (simp add: L_def helpers_logic_def validateChannelReadyMessage_def)
  then have a: "fst (attachChannelReady cry msg (cw_channel w)) = Inr ()"
    using hl.ready_attached assms(5) unfolding L_def by blast
  obtain c' where "attachChannelReady cry msg (cw_channel w) = (Inr (), c')"
    using a by (cases "attachChannelReady cry msg (cw_channel w)") auto
  then have t: "onChannelReadyTransition cry L success msg w = (Inr (Some success), w\<lparr>cw_channel := c'\<rparr>)"
    using assms(4) by (simp add: onChannelReadyTransition_def io_simps L_def helpers_logic_def validateChannelReadyMessage_def)
  note res = hl.channel_ready_result [OF t [unfolded L_def]]
  have ids: "ch_channelId c' = ch_channelId (cw_channel w)" "ch_peerId c' = ch_peerId (cw_channel w)"
    "ch_minimumDepth c' = ch_minimumDepth (cw_channel w)"
    using ready_keeps_identity [of c' "cw_channel w"] res(1) by simp_all
  have keep: "hasChannelReady c' = Inr True" "readyHeight c' = readyHeight (cw_channel w)"
    using res(6) [OF refl] assms(3) res(3) ids(3) by (auto simp: readyHeight_def split: option.split)
  have "handleEvent (constructMachine cry L) (readyEvent msg) w
    = afterTransition s (withMessage asChannelReady (onChannelReadyTransition cry L success) (Some (readyEvent msg)) w)"
    unfolding L_def by (rule helpers_event [OF assms(2)]) (use assms(3) in \<open>auto simp: transitionOf_def readyEvent_def\<close>)
  also have "withMessage asChannelReady (onChannelReadyTransition cry L success) (Some (readyEvent msg)) w
    = (Inr (Some success), w\<lparr>cw_channel := c'\<rparr>)"
    by (simp add: withMessage_def readyEvent_def asChannelReady_def t)
  finally show ?thesis using assms(2,3) keep res(2,4) ids
    by (auto simp: afterTransition_def enterState_def Let_def simp del: stateId.simps)
qed

text \<open>
  C3: A channel whose funding transaction is confirmed gets usable, and not too early.  The blocks
  below the agreed depth change nothing: no message is sent, and the channel keeps its state.  The block
  at the depth makes it send its \<^verbatim>\<open>channel_ready\<close>, exactly once and
  nothing else, and together with that of the peer, before or after the block, it leads to the normal state.
\<close>

theorem confirmed_channel_gets_normal:
  assumes "ch_state (cw_channel w) = Some (stateId Channel_Funding_AwaitingFundingDepth)"
    and "ch_fundingConfirmedHeight (cw_channel w) = Some (Some h)" "ch_minimumDepth (cw_channel w) = Some d"
    and "\<And>b'. b' \<in> set bs \<Longrightarrow> \<exists>k'. blockHeight b' = Inr (Some k') \<and> k' + 1 < h + d"
    and "blockHeight b = Inr (Some k)" "h + d \<le> k + 1"
    and "ch_channelId (cw_channel w) = Some ci" "side_nextCommitmentPoint (ch_ourSide (cw_channel w)) = Some p"
    and "ch_peerId (cw_channel w) \<in> set peers" "side_nextCommitmentNumber (ch_theirSide (cw_channel w)) = Some n"
    and "cry_validPublicKey cry (cr_nextPerCommitmentPoint msg)"
    and "order \<in> {[blockEvent b, readyEvent msg], [readyEvent msg, blockEvent b]}"
  shows "each_io (handleEvent (constructMachine cry (helpers_logic cry wa prefs peers accepts))) (map blockEvent bs) w = (Inr (), w)
    \<and> (\<exists>w'. each_io (handleEvent (constructMachine cry (helpers_logic cry wa prefs peers accepts)))
        (map blockEvent bs @ order) w = (Inr (), w')
    \<and> ch_state (cw_channel w') = Some (stateId Channel_Normal) \<and> hasChannelReady (cw_channel w') = Inr True
    \<and> filter is_sent (cw_effects w') = filter is_sent (cw_effects w)
        @ [SendMessage (ch_peerId (cw_channel w)) (MChannelReady \<lparr>cr_channelId = ci, cr_nextPerCommitmentPoint = p\<rparr>)])"
proof -
  let ?L = "helpers_logic cry wa prefs peers accepts" and ?R = "MChannelReady \<lparr>cr_channelId = ci, cr_nextPerCommitmentPoint = p\<rparr>"
  have rh: "readyHeight (cw_channel w) = Some (Some (int h + int d - 1))" using assms(2,3) by (simp add: readyHeight_def)
  have "\<exists>k'. blockHeight b' = Inr k' \<and> \<not> heightReached k' (readyHeight (cw_channel w))" if "b' \<in> set bs" for b'
    using assms(4) [OF that] rh by (auto simp: heightReached_def)
  from shallow_blocks [OF assms(1) this]
  have wait: "each_io (handleEvent (constructMachine cry ?L)) (map blockEvent bs) w = (Inr (), w)" .
  have deep: "heightReached (Some k) (readyHeight (cw_channel w))" using assms(6) by (simp add: rh heightReached_def)
  have first: "hasChannelReady (cw_channel w) = Inr (cn_value n > 0)" using assms(10) by (simp add: hasChannelReady_def)
  note block = depth_event [OF _ assms(5)]
  let ?w = "w\<lparr>cw_effects := cw_effects w @ [SendMessage (ch_peerId (cw_channel w)) ?R]\<rparr>"
  consider "order = [blockEvent b, readyEvent msg]" | "order = [readyEvent msg, blockEvent b]" using assms(12) by blast
  then have "\<exists>w'. each_io (handleEvent (constructMachine cry ?L)) order w = (Inr (), w')
    \<and> ch_state (cw_channel w') = Some (stateId Channel_Normal) \<and> hasChannelReady (cw_channel w') = Inr True
    \<and> filter is_sent (cw_effects w') = filter is_sent (cw_effects w) @ [SendMessage (ch_peerId (cw_channel w)) ?R]"
  proof cases
    case 1
    let ?v = "enterState (if cn_value n > 0 then Channel_Normal else Channel_Funding_AwaitingChannelReady) ?w"
    have b: "handleEvent (constructMachine cry ?L) (blockEvent b) w = (Inr (), ?v)"
      by (rule block [OF assms(1) deep assms(7-9) first])
    show ?thesis
    proof (cases "cn_value n > 0")
      case True
      have "handleEvent (constructMachine cry ?L) (readyEvent msg) ?v = (Inr (), ?v)"
        using handleEvent_eq [of ?v Channel_Normal cry ?L "readyEvent msg"] True
        by (simp add: transitionOf_def del: stateId.simps)
      then show ?thesis using 1 b True first by (simp add: io_simps enterState_def Let_def del: stateId.simps)
    next
      case False
      obtain w' where "handleEvent (constructMachine cry ?L) (readyEvent msg) ?v = (Inr (), w')"
        "ch_state (cw_channel w') = Some (stateId Channel_Normal)" "hasChannelReady (cw_channel w') = Inr True"
        "filter is_sent (cw_effects w') = filter is_sent (cw_effects ?v)"
        using ready_event [of ?v Channel_Funding_AwaitingChannelReady Channel_Normal cry msg n wa prefs peers accepts] False assms(10,11)
        by (auto simp del: stateId.simps)
      then show ?thesis using 1 b by (auto simp: io_simps enterState_def Let_def simp del: stateId.simps)
    qed
  next
    case 2
    obtain v where v: "handleEvent (constructMachine cry ?L) (readyEvent msg) w = (Inr (), v)"
      "ch_state (cw_channel v) = Some (stateId Channel_Funding_AwaitingFundingDepth)" "hasChannelReady (cw_channel v) = Inr True"
      "ch_ourSide (cw_channel v) = ch_ourSide (cw_channel w)" "ch_channelId (cw_channel v) = ch_channelId (cw_channel w)"
      "ch_peerId (cw_channel v) = ch_peerId (cw_channel w)" "readyHeight (cw_channel v) = readyHeight (cw_channel w)"
      "filter is_sent (cw_effects v) = filter is_sent (cw_effects w)"
      using ready_event [OF assms(1), of Channel_Funding_AwaitingFundingDepth cry msg n wa prefs peers accepts] assms(10,11)
      by (auto simp del: stateId.simps)
    have "handleEvent (constructMachine cry ?L) (blockEvent b) v
      = (Inr (), enterState Channel_Normal (v\<lparr>cw_effects := cw_effects v @ [SendMessage (ch_peerId (cw_channel v)) ?R]\<rparr>))"
      using block [OF v(2), where ready = True] v(3-7) deep assms(7-9) by simp
    then show ?thesis using 2 v by (simp add: io_simps enterState_def Let_def del: stateId.simps)
  qed
  then show ?thesis using wait by (simp add: each_io_append io_simps)
qed

text \<open>The first peer's channel with a confirmed funding transaction.\<close>

definition sample_confirmed :: channel_world where
  "sample_confirmed = \<lparr>cw_channel = (sample_channel True)\<lparr>ch_channelId := Some (ChannelId (replicate 32 0)),
     ch_minimumDepth := Some 6, ch_fundingConfirmedHeight := Some (Some 100),
     ch_state := Some (stateId Channel_Funding_AwaitingFundingDepth)\<rparr>, cw_effects = []\<rparr>"

definition block_at :: "nat \<Rightarrow> block" where
  "block_at height = sample_block\<lparr>bl_bip34Height := Some height\<rparr>"

lemma block_at_height: "0 < n \<Longrightarrow> blockHeight (block_at n) = Inr (Some n)"
  by (cases n) (simp_all add: blockHeight_def bl_bip34_def block_at_def sample_block_def)

abbreviation sample_ready :: channel_ready where
  "sample_ready \<equiv> \<lparr>cr_channelId = ChannelId (replicate 32 0), cr_nextPerCommitmentPoint = [9]\<rparr>"

theorem confirmed_channel_gets_normal_witness:
  "\<exists>w'. each_io (handleEvent (constructMachine sample_crypto sample_logic))
        (map blockEvent [block_at 101, block_at 104] @ [readyEvent sample_ready, blockEvent (block_at 105)]) sample_confirmed = (Inr (), w')
    \<and> ch_state (cw_channel w') = Some (stateId Channel_Normal)
    \<and> filter is_sent (cw_effects w') = [SendMessage ''peer'' (MChannelReady \<lparr>cr_channelId = ChannelId (replicate 32 0), cr_nextPerCommitmentPoint = [2]\<rparr>)]"
proof -
  have "ch_peerId (cw_channel sample_confirmed) = ''peer''"
    by (simp add: sample_confirmed_def sample_channel_def newChannel_def)
  moreover have "each_io (handleEvent (constructMachine sample_crypto sample_logic)) (map blockEvent [block_at 101, block_at 104]) sample_confirmed
      = (Inr (), sample_confirmed) \<and> (\<exists>w'. each_io (handleEvent (constructMachine sample_crypto sample_logic))
        (map blockEvent [block_at 101, block_at 104] @ [readyEvent sample_ready, blockEvent (block_at 105)]) sample_confirmed = (Inr (), w')
    \<and> ch_state (cw_channel w') = Some (stateId Channel_Normal) \<and> hasChannelReady (cw_channel w') = Inr True
    \<and> filter is_sent (cw_effects w') = filter is_sent (cw_effects sample_confirmed) @ [SendMessage (ch_peerId (cw_channel sample_confirmed))
        (MChannelReady \<lparr>cr_channelId = ChannelId (replicate 32 0), cr_nextPerCommitmentPoint = [2]\<rparr>)])"
    by (rule confirmed_channel_gets_normal [where b = "block_at 105" and k = 105 and h = 100 and d = 6
          and n = "CommitmentNumber 0" and msg = sample_ready])
      (auto simp: sample_confirmed_def sample_channel_def sample_side_def newChannel_def block_at_height sample_crypto_def
        simp del: stateId.simps)
  moreover have "cw_effects sample_confirmed = []" by (simp add: sample_confirmed_def)
  ultimately show ?thesis by (auto simp del: stateId.simps)
qed

section \<open>A message that comes too early\<close>

text \<open>
  C22: A \<^verbatim>\<open>channel_ready\<close> that arrives before the funding transaction is confirmed on our side
  is dropped without an error.  The channel then never gets normal by blocks alone: the block at the
  depth leaves it waiting for the message that has already been received.
\<close>

theorem early_ready_lost:
  assumes "ch_state (cw_channel w) = Some (stateId Channel_Funding_AwaitingFundingConf_NoChannelReady)"
    and "containsOutPoint cry b0 (ch_fundingOutPoint (cw_channel w)) = Inr True" "blockHeight b0 = Inr (Some h)"
    and "ch_minimumDepth (cw_channel w) = Some d" "blockHeight b = Inr (Some k)" "h + d \<le> k + 1"
    and "ch_channelId (cw_channel w) = Some ci" "side_nextCommitmentPoint (ch_ourSide (cw_channel w)) = Some p"
    and "ch_peerId (cw_channel w) \<in> set peers"
    and "side_nextCommitmentNumber (ch_theirSide (cw_channel w)) = Some (CommitmentNumber 0)"
  shows "\<exists>w'. each_io (handleEvent (constructMachine cry (helpers_logic cry wa prefs peers accepts)))
        [readyEvent msg, blockEvent b0, blockEvent b] w = (Inr (), w')
    \<and> ch_state (cw_channel w') = Some (stateId Channel_Funding_AwaitingChannelReady)
    \<and> hasChannelReady (cw_channel w') = Inr False
    \<and> handleEvent (constructMachine cry (helpers_logic cry wa prefs peers accepts)) (blockEvent b') w' = (Inr (), w')"
proof -
  let ?L = "helpers_logic cry wa prefs peers accepts" and ?R = "MChannelReady \<lparr>cr_channelId = ci, cr_nextPerCommitmentPoint = p\<rparr>"
  let ?v = "enterState Channel_Funding_AwaitingFundingDepth (w\<lparr>cw_channel := markConfirmed (Some h) (cw_channel w)\<rparr>)"
  let ?u = "enterState Channel_Funding_AwaitingChannelReady (?v\<lparr>cw_effects := cw_effects ?v @ [SendMessage (ch_peerId (cw_channel w)) ?R]\<rparr>)"
  have ignored: "handleEvent (constructMachine cry ?L) (readyEvent msg) w = (Inr (), w)"
    using handleEvent_eq [OF assms(1), of cry ?L "readyEvent msg"] by (simp add: transitionOf_def readyEvent_def)
  have "handleEvent (constructMachine cry ?L) (blockEvent b0) w
    = afterTransition Channel_Funding_AwaitingFundingConf_NoChannelReady (withBlock (onFundingConfirmed cry) (Some (blockEvent b0)) w)"
    by (rule helpers_event [OF assms(1)]) (simp add: transitionOf_def blockEvent_def)
  then have conf: "handleEvent (constructMachine cry ?L) (blockEvent b0) w = (Inr (), ?v)"
    using assms(2,3) by (simp add: withBlock_def blockEvent_def onFundingConfirmed_def io_simps afterTransition_def)
  have v: "ch_state (cw_channel ?v) = Some (stateId Channel_Funding_AwaitingFundingDepth)"
    "heightReached (Some k) (readyHeight (cw_channel ?v))" "ch_channelId (cw_channel ?v) = Some ci"
    "side_nextCommitmentPoint (ch_ourSide (cw_channel ?v)) = Some p" "ch_peerId (cw_channel ?v) \<in> set peers"
    "hasChannelReady (cw_channel ?v) = Inr False"
    using assms(4,6-10) by (simp_all add: markConfirmed_def readyHeight_def heightReached_def hasChannelReady_def)
  have deep: "handleEvent (constructMachine cry ?L) (blockEvent b) ?v = (Inr (), ?u)"
    using depth_event [OF v(1) assms(5) v(2-6), where cry = cry and wa = wa and prefs = prefs and accepts = accepts]
    by (simp add: markConfirmed_def)
  have u: "ch_state (cw_channel ?u) = Some (stateId Channel_Funding_AwaitingChannelReady)" "hasChannelReady (cw_channel ?u) = Inr False"
    using v(6) by simp_all
  have "handleEvent (constructMachine cry ?L) (blockEvent b') ?u = (Inr (), ?u)"
    using handleEvent_eq [OF u(1), of cry ?L "blockEvent b'"] by (simp add: transitionOf_def blockEvent_def)
  then show ?thesis using ignored conf deep u by (simp add: io_simps del: stateId.simps)
qed

definition sample_unconfirmed :: channel_world where
  "sample_unconfirmed = \<lparr>cw_channel = (sample_channel True)\<lparr>ch_channelId := Some (ChannelId (replicate 32 0)),
     ch_minimumDepth := Some 6, ch_fundingOutPoint := Some \<lparr>op_txid = HashValue (replicate 32 0), op_outputIndex = 0\<rparr>,
     ch_state := Some (stateId Channel_Funding_AwaitingFundingConf_NoChannelReady)\<rparr>, cw_effects = []\<rparr>"

lemma block_at_contains:
  "containsOutPoint sample_crypto (block_at n) (Some \<lparr>op_txid = HashValue (replicate 32 0), op_outputIndex = 0\<rparr>) = Inr True"
proof -
  have "isSegWit sample_tx" by (simp add: isSegWit_def sample_tx_def)
  then have "fits (segwit_bytes sample_tx)" using sample_tx_ok(2) by (simp add: tx_bytes_def)
  moreover have "fits (legacy_bytes sample_tx)"
    using calculation by (simp add: legacy_bytes_def segwit_bytes_def)
  ultimately have "calcTxId (\<lambda>_. replicate 32 0) sample_tx = Inr (HashValue (replicate 32 0), HashValue (replicate 32 0))"
    using \<open>isSegWit sample_tx\<close> serializeLegacy_eq [OF sample_tx_ok(1)] serializeSegWit_eq [OF sample_tx_ok(1)]
    by (simp add: calcTxId_def Let_def hash256_def)
  moreover have "tx_outputs sample_tx \<noteq> []" "length (tx_outputs sample_tx) = 1" by (simp_all add: sample_tx_def)
  ultimately show ?thesis
    by (simp add: containsOutPoint_def txHasOutPoint_def block_at_def sample_block_def sample_crypto_def op_eq_def hv_eq_def)
qed

theorem early_ready_lost_witness:
  "\<exists>w'. each_io (handleEvent (constructMachine sample_crypto sample_logic))
        [readyEvent sample_ready, blockEvent (block_at 100), blockEvent (block_at 105)] sample_unconfirmed = (Inr (), w')
    \<and> ch_state (cw_channel w') = Some (stateId Channel_Funding_AwaitingChannelReady)
    \<and> hasChannelReady (cw_channel w') = Inr False
    \<and> handleEvent (constructMachine sample_crypto sample_logic) (blockEvent (block_at 106)) w' = (Inr (), w')"
  by (rule early_ready_lost [where h = 100 and d = 6 and k = 105 and ci = "ChannelId (replicate 32 0)" and p = "[2]"])
    (simp_all add: sample_unconfirmed_def sample_channel_def sample_side_def newChannel_def block_at_height block_at_contains
      del: stateId.simps)

section \<open>The manager\<close>

text \<open>
  C4: Whatever the manager of the channels is asked to do, every transaction it has broadcast is the
  funding transaction of one of its channels, and that channel holds a valid signature of its peer.
\<close>

theorem manager_broadcasts_safe:
  assumes "manager_reachable cry (helpers_logic cry wa prefs peers accepts) network mg"
  shows "{t. BroadcastTx t \<in> set (mg_effects mg)} \<subseteq> {t. \<exists>c\<in>set (mg_channels mg). ch_fundingTx c = Some t
    \<and> (\<exists>msg. side_nextCommitmentSig (ch_ourSide c) = Some (fs_signature msg) \<and> validateFundingSignedMessage cry c msg = Inr None)}"
proof
  let ?L = "helpers_logic cry wa prefs peers accepts"
  fix t assume "t \<in> {t. BroadcastTx t \<in> set (mg_effects mg)}"
  then have "BroadcastTx t \<in> set (mg_effects mg)" by simp
  then obtain ess es where "list_all2 (\<lambda>c es. channel_reachable cry ?L \<lparr>cw_channel = c, cw_effects = es\<rparr>) (mg_channels mg) ess"
    "es \<in> set ess" "BroadcastTx t \<in> set es"
    using hl.managerInv_reachable [OF assms] by (auto simp: managerInv_def)
  then obtain n where ess: "list_all2 (\<lambda>c es. channel_reachable cry ?L \<lparr>cw_channel = c, cw_effects = es\<rparr>) (mg_channels mg) ess"
    "n < length ess" "BroadcastTx t \<in> set (ess ! n)"
    by (metis in_set_conv_nth)
  let ?c = "mg_channels mg ! n"
  have n: "n < length (mg_channels mg)" using ess(1,2) by (simp add: list_all2_lengthD)
  have "channelInv ?L \<lparr>cw_channel = ?c, cw_effects = ess ! n\<rparr>" using reachable_inv list_all2_nthD [OF ess(1) n] by blast
  moreover have "t \<in> set (broadcasts (ess ! n))" using ess(3)
    by (auto simp: broadcasts_def map_filter_def intro!: image_eqI [where x = "BroadcastTx t"])
  ultimately have "signedFunding cry \<lparr>cw_channel = ?c, cw_effects = ess ! n\<rparr>" "t \<in> set (broadcasts (ess ! n))"
    unfolding channelInv_def using stateInv_cases by (fastforce simp: fundedSafely_signed)+
  then show "t \<in> {t. \<exists>c\<in>set (mg_channels mg). ch_fundingTx c = Some t
    \<and> (\<exists>msg. side_nextCommitmentSig (ch_ourSide c) = Some (fs_signature msg) \<and> validateFundingSignedMessage cry c msg = Inr None)}"
    using nth_mem [OF n] by (auto simp: signedFunding_def)
qed

section \<open>Opening a channel\<close>

definition sample_request :: open_channel_request where
  "sample_request = \<lparr>or_peerId = ''peer'', or_remoteFeatures = BitField 0, or_ourOptions = BitField 0,
     or_fundingAmount = fromSats 200000, or_pushAmount = fromSats 2000, or_maxHtlcInFlightValue = fromSats 20000,
     or_minHtlcValue = fromSats 200, or_maxAcceptedHtlcs = 30, or_channelReserveValue = fromSats 2000,
     or_toSelfBlockDelay = 144, or_publicChannel = True\<rparr>"

lemmas createChannel_validations = validateFundingAmountMax_def validatePushAmount_def validateFunderFees_def
  validateDustLimitTooSmall_def validateChannelReserveDustLimit_def validateChannelReserveReachable_def
  validateMaxAcceptedHtlcsTooLarge_def

lemma sample_created: "\<exists>c. createChannel sample_crypto sample_wallet testnet sample_request = Inr (Inr c)"
proof -
  have "bf_anySet (BitField 0) [19, 18] = False" by (simp add: bf_anySet_def bf_isSet_def)
  then show ?thesis
    by (simp add: createChannel_def createChannel_steps_def io_simps ensure_def sample_wallet_def sample_request_def Let_def
      createChannel_validations setFundingKey_def setPaymentBasePointSecret_def setDelayedBasePointSecret_def setHtlcBasePointSecret_def
      setRevocationBasePointSecret_def toPubKey_def newPublicKey_def sample_crypto_def newChannel_def setOurs_def setTheirs_def
      secret_publicKey_def secret_privateKey_def newPrivateKey_def value_order value_subn_def value_addn_def bigDiv_def fromSats_def sats_def)
qed

lemma ensure_Inr: "ensure b e k s = (Inr None, s') \<Longrightarrow> b = Inr True \<and> k s = (Inr None, s')"
  by (cases b) (auto simp: ensure_def io_simps split: if_splits)

lemma ensure_cases:
  assumes "ensure b e k s = (Inr None, s')"
  obtains "b = Inr True" "k s = (Inr None, s')"
  using ensure_Inr [OF assms] by blast

lemma bind_cases:
  assumes "bind_io (lift_io r) k s = (Inr None, s')"
  obtains x where "r = Inr x" "k x s = (Inr None, s')"
  using assms by (cases r) (auto simp: io_simps)

lemma setKey_Inr:
  assumes "then_io (then_io (update_io f) (bind_io (lift_io r) (\<lambda>p. update_io (g p)))) k s = (Inr None, s')"
  obtains p where "r = Inr p" "k (g p (f s)) = (Inr None, s')"
  using assms by (cases r) (auto simp: io_simps)

lemma update_then: "then_io (update_io f) k s = (Inr None, s') \<Longrightarrow> k (f s) = (Inr None, s')"
  by (simp add: io_simps)

text \<open>
  C6: A channel that is opened has balances that add up to the funding amount, of which the push
  amount is the peer's; the funder can pay the fee of the first commitment transaction, and one of
  the two keeps more than the reserve; dust limit, reserve, HTLC count and funding amount are in
  their bounds; and the first point to offer is that of commitment number zero.
\<close>

theorem createChannel_funds:
  assumes "createChannel cry w net q = Inr (Inr c)"
  shows "\<exists>ours p. side_balance (ch_ourSide c) = Some ours \<and> side_balance (ch_theirSide c) = Some (or_pushAmount q)
    \<and> ch_fundingAmount c = Some (or_fundingAmount q)
    \<and> psats ours + psats (or_pushAmount q) = psats (or_fundingAmount q) \<and> 0 \<le> psats ours
    \<and> bigDiv (724 * sats (wa_feeRatePerKw w)) 1000 < sats ours
    \<and> (psats (or_channelReserveValue q) < psats ours - psats (fromSats (bigDiv (724 * sats (wa_feeRatePerKw w)) 1000))
        \<or> psats (or_channelReserveValue q) < psats (or_pushAmount q))
    \<and> side_dustLimit (ch_ourSide c) = Some (wa_dustLimit w) \<and> fromSats 354 \<le> wa_dustLimit w
    \<and> side_channelReserve (ch_theirSide c) = Some (or_channelReserveValue q) \<and> wa_dustLimit w \<le> or_channelReserveValue q
    \<and> or_maxAcceptedHtlcs q \<le> 483
    \<and> (sats (or_fundingAmount q) < 2 ^ 24 \<or> bf_anySet (or_ourOptions q) [19, 18] \<and> bf_anySet (or_remoteFeatures q) [19, 18])
    \<and> secret_publicKey cry (wa_perCommitmentSeed w) (CommitmentNumber 0) = Inr p
    \<and> side_nextCommitmentNumber (ch_ourSide c) = Some (CommitmentNumber 0) \<and> side_nextCommitmentPoint (ch_ourSide c) = Some p"
proof -
  have steps: "createChannel_steps cry w q (newChannel (or_peerId q) net True) = (Inr None, c)"
    using assms by (auto simp: createChannel_def split: if_splits prod.splits sum.splits option.splits)
  show ?thesis
    using steps unfolding createChannel_steps_def Let_def setFundingKey_def setPaymentBasePointSecret_def
      setDelayedBasePointSecret_def setHtlcBasePointSecret_def setRevocationBasePointSecret_def
    apply -
    apply (elim ensure_cases bind_cases setKey_Inr | drule update_then)+
    apply (simp add: io_simps newChannel_def setOurs_def setTheirs_def)
    apply (auto simp: createChannel_validations value_order value_subn_def value_addn_def less_eq_btc_value_def Let_def split: if_splits)
    done
qed

theorem createChannel_funds_witness:
  "\<exists>c ours. createChannel sample_crypto sample_wallet testnet sample_request = Inr (Inr c)
    \<and> side_balance (ch_ourSide c) = Some ours \<and> psats ours + psats (fromSats 2000) = psats (fromSats 200000)"
proof -
  obtain c where c: "createChannel sample_crypto sample_wallet testnet sample_request = Inr (Inr c)" using sample_created by blast
  show ?thesis using createChannel_funds [OF c] c by (auto simp: sample_request_def)
qed

lemma sample_opened:
  "\<exists>w. channel_reachable sample_crypto sample_logic w \<and> ch_state (cw_channel w) = Some (stateId Channel_Initializing_AwaitingAcceptChannel)"
proof -
  obtain c where c: "lg_createChannel sample_logic testnet sample_request = Inr (Inr c)"
    using sample_created by (auto simp: helpers_logic_def)
  let ?w = "\<lparr>cw_channel = c, cw_effects = [SendMessage ''peer'' (MChannelReady sample_ready)]\<rparr>"
  have "then_io (emit (lg_sendMessage sample_logic ''peer'' (MChannelReady sample_ready)))
      (transitionState (constructMachine sample_crypto sample_logic) None (Some (stateId Channel_Initializing_AwaitingAcceptChannel)))
      \<lparr>cw_channel = c, cw_effects = []\<rparr> = (Inr (), enterState Channel_Initializing_AwaitingAcceptChannel ?w)"
    using transitionState_opening [of ?w] hl.created [OF c]
    by (simp add: helpers_logic_def io_simps del: stateId.simps)
  then have "channel_reachable sample_crypto sample_logic (enterState Channel_Initializing_AwaitingAcceptChannel ?w)"
    by (rule channel_reachable.opened [OF c])
  then show ?thesis by (intro exI conjI) (assumption, simp)
qed

theorem channel_states_safe_witness:
  "\<exists>w. channel_reachable sample_crypto sample_logic w \<and> ch_state (cw_channel w) = Some (stateId Channel_Abandoned)
    \<and> broadcasts (cw_effects w) = []"
proof -
  let ?m = "constructMachine sample_crypto sample_logic"
  let ?ev = "\<lparr>ev_type = PeerDisconnected, ev_message = None, ev_block = None\<rparr> :: channel_event"
  obtain w where w: "channel_reachable sample_crypto sample_logic w"
    "ch_state (cw_channel w) = Some (stateId Channel_Initializing_AwaitingAcceptChannel)" using sample_opened by blast
  have r: "channel_reachable sample_crypto sample_logic (snd (handleEvent ?m ?ev w))" by (rule channel_reachable.event [OF w(1)])
  have "handleEvent ?m ?ev w = afterTransition Channel_Initializing_AwaitingAcceptChannel (disconnectedAbandon w)"
    by (subst helpers_event [OF w(2), where f = "\<lambda>_. disconnectedAbandon"]) (simp_all add: transitionOf_def)
  then have s: "ch_state (cw_channel (snd (handleEvent ?m ?ev w))) = Some (stateId Channel_Abandoned)"
    by (simp add: disconnectedAbandon_def io_simps afterTransition_def del: stateId.simps)
  from channel_states_safe [OF r] show ?thesis using r s by (auto simp del: stateId.simps)
qed

theorem manager_broadcasts_safe_witness:
  "\<exists>mg. manager_reachable sample_crypto sample_logic testnet mg
    \<and> {t. BroadcastTx t \<in> set (mg_effects mg)} \<subseteq> {t. \<exists>c\<in>set (mg_channels mg). ch_fundingTx c = Some t
      \<and> (\<exists>msg. side_nextCommitmentSig (ch_ourSide c) = Some (fs_signature msg) \<and> validateFundingSignedMessage sample_crypto c msg = Inr None)}"
  using manager_broadcasts_safe [OF manager_reachable.disconnects [OF manager_reachable.opens [OF manager_reachable.start]]]
    manager_reachable.disconnects [OF manager_reachable.opens [OF manager_reachable.start]] by blast

section \<open>Keys in pairs\<close>

text \<open>
  C7: The keys that the two peers derive fit together: the private key of a base point secret is
  that of the public key derived from the base point, and the revocation private key, which needs the
  secrets of both peers, is that of the revocation public key, made of the points alone.
\<close>

theorem derived_keys_match:
  assumes "\<And>k t k' p. cry_privateKeyTweakAdd cry k t = Inr k' \<Longrightarrow> cry_getPublicKey cry k True = Inr p \<Longrightarrow>
      cry_publicKeyTweakAdd cry p t True = cry_getPublicKey cry k' True"
    and "\<And>k t k' p. cry_privateKeyTweakMul cry k t = Inr k' \<Longrightarrow> cry_getPublicKey cry k True = Inr p \<Longrightarrow>
      cry_publicKeyTweakMul cry p t True = cry_getPublicKey cry k' True"
    and "\<And>a b k p q. cry_privateKeyTweakAdd cry a b = Inr k \<Longrightarrow> cry_getPublicKey cry a True = Inr p \<Longrightarrow>
      cry_getPublicKey cry b True = Inr q \<Longrightarrow> cry_publicKeyCombine cry [p, q] True = cry_getPublicKey cry k True"
    and "\<And>k t k'. cry_privateKeyTweakMul cry k t = Inr k' \<Longrightarrow> \<exists>p. cry_getPublicKey cry k' True = Inr p"
    and "cry_getPublicKey cry baseSecret True = Inr basePoint" "cry_getPublicKey cry secret True = Inr point"
    and "derivePrivKey cry point baseSecret = Inr key" "deriveRevocationPrivKey cry secret baseSecret = Inr revocation"
  shows "derivePubKey cry point basePoint = cry_getPublicKey cry key True
    \<and> deriveRevocationPubKey cry point basePoint = cry_getPublicKey cry revocation True"
proof
  show "derivePubKey cry point basePoint = cry_getPublicKey cry key True"
    using assms(1,5,7) by (simp add: derivePubKey_def derivePrivKey_def Let_def)
  obtain a b where ab: "cry_privateKeyTweakMul cry baseSecret (cry_sha256 cry (basePoint @ point)) = Inr a"
    "cry_privateKeyTweakMul cry secret (cry_sha256 cry (point @ basePoint)) = Inr b" "cry_privateKeyTweakAdd cry a b = Inr revocation"
    using assms(5,6,8) by (auto simp: deriveRevocationPrivKey_def Let_def bind_res_eq_Inr)
  obtain p q where "cry_getPublicKey cry a True = Inr p" "cry_getPublicKey cry b True = Inr q"
    using assms(4) ab(1,2) by blast
  then show "deriveRevocationPubKey cry point basePoint = cry_getPublicKey cry revocation True"
    using assms(2) [OF ab(1) assms(5)] assms(2) [OF ab(2) assms(6)] assms(3) [OF ab(3)]
    by (simp add: deriveRevocationPubKey_def Let_def)
qed

theorem derived_keys_match_witness:
  "derivePubKey sample_crypto [7] [9] = Inr [9] \<and> deriveRevocationPubKey sample_crypto [7] [9] = Inr [9]"
  using derived_keys_match [of sample_crypto "[9]" "[9]" "[7]" "[7]" "[9]" "[9]"]
  by (simp add: sample_crypto_def derivePrivKey_def deriveRevocationPrivKey_def Let_def)

end
