(* ===== verification/Noise.thy ===== *)
theory Noise
  imports Bytes
begin

text \<open>
  \<^verbatim>\<open>packages/noise/lib/noise-state.ts\<close> with \<^verbatim>\<open>hkdf.ts\<close> and \<^verbatim>\<open>chachapoly.ts\<close> of
  \<^verbatim>\<open>packages/crypto/lib\<close>: the handshake and the transport of BOLT 8.  The hash functions, the
  cipher and the elliptic curve are functions of the platform and of a C library: parameters.
  A property of the class that is not assigned yet is \<open>None\<close>.
\<close>

section \<open>Cryptography\<close>

text \<open>Sealing gives the ciphertext and the tag; opening takes both.\<close>

record noise_crypto =
  nc_sha256 :: "buffer \<Rightarrow> buffer"
  nc_hmac :: "buffer \<Rightarrow> buffer \<Rightarrow> buffer"
  nc_getPublicKey :: "buffer \<Rightarrow> buffer res"
  nc_ecdh :: "buffer \<Rightarrow> buffer \<Rightarrow> buffer res"
  nc_seal :: "buffer \<Rightarrow> buffer \<Rightarrow> buffer \<Rightarrow> buffer \<Rightarrow> (buffer \<times> buffer) res"
  nc_open :: "buffer \<Rightarrow> buffer \<Rightarrow> buffer \<Rightarrow> buffer \<Rightarrow> buffer \<Rightarrow> buffer res"

text \<open>The blocks of the expansion, of which block \<open>i\<close> is made from the one before.\<close>

primrec hkdfBlocks :: "(buffer \<Rightarrow> buffer \<Rightarrow> buffer) \<Rightarrow> buffer \<Rightarrow> buffer \<Rightarrow> buffer \<Rightarrow> nat \<Rightarrow> nat \<Rightarrow> buffer list" where
  "hkdfBlocks hmac prk info tp i 0 = []"
| "hkdfBlocks hmac prk info tp i (Suc n) =
     (let t = hmac prk (tp @ info @ [of_nat i]) in t # hkdfBlocks hmac prk info t (Suc i) n)"

text \<open>The rounded-up quotient is infinite or \<^verbatim>\<open>NaN\<close> for a hash of no bytes; there is none.\<close>

definition hkdf :: "(buffer \<Rightarrow> buffer \<Rightarrow> buffer) \<Rightarrow> buffer \<Rightarrow> nat \<Rightarrow> buffer \<Rightarrow> buffer \<Rightarrow> buffer res" where
  "hkdf hmac ikm len salt info =
     (let prk = hmac salt ikm;
          n = (len + length prk - 1) div length prk
      in if n > 255 then Inl (JsError ''Output length exceeds maximum'')
         else Inr (take len (concat (hkdfBlocks hmac prk info [] 1 n))))"

definition ccpEncrypt :: "noise_crypto \<Rightarrow> buffer \<Rightarrow> buffer \<Rightarrow> buffer \<Rightarrow> buffer \<Rightarrow> buffer res" where
  "ccpEncrypt nc k n ad plaintext =
     bind_res (nc_seal nc k n ad plaintext) (\<lambda>(pad, tag). Inr (pad @ tag))"

text \<open>The result for less than 16 bytes is \<^verbatim>\<open>undefined\<close>.\<close>

definition ccpDecrypt :: "noise_crypto \<Rightarrow> buffer \<Rightarrow> buffer \<Rightarrow> buffer \<Rightarrow> buffer \<Rightarrow> buffer option res" where
  "ccpDecrypt nc k n ad cipherText =
     (if length cipherText = 16 then bind_res (nc_open nc k n ad [] cipherText) (\<lambda>m. Inr (Some m))
      else if length cipherText > 16
      then let tag = drop (length cipherText - 16) cipherText;
               pad = take (length cipherText - 16) cipherText
           in bind_res (nc_open nc k n ad pad tag) (\<lambda>m. Inr (Some m))
      else Inr None)"

section \<open>The state\<close>

record noise_state =
  ns_ls :: buffer
  ns_lpk :: buffer
  ns_es :: buffer
  ns_epk :: buffer
  ns_rpk :: "buffer option"
  ns_repk :: "buffer option"
  ns_h :: "buffer option"
  ns_ck :: "buffer option"
  ns_rk :: "buffer option"
  ns_sk :: "buffer option"
  ns_sn :: "buffer option"
  ns_rn :: "buffer option"
  ns_tempK1 :: "buffer option"
  ns_tempK2 :: "buffer option"
  ns_tempK3 :: "buffer option"

definition newNoiseState :: "noise_crypto \<Rightarrow> buffer \<Rightarrow> buffer \<Rightarrow> noise_state res" where
  "newNoiseState nc ls es =
     bind_res (nc_getPublicKey nc ls) (\<lambda>lpk.
     bind_res (nc_getPublicKey nc es) (\<lambda>epk.
       Inr \<lparr>ns_ls = ls, ns_lpk = lpk, ns_es = es, ns_epk = epk, ns_rpk = None, ns_repk = None, ns_h = None,
         ns_ck = None, ns_rk = None, ns_sk = None, ns_sn = None, ns_rn = None, ns_tempK1 = None,
         ns_tempK2 = None, ns_tempK3 = None\<rparr>))"

definition protocolName :: buffer where
  "protocolName = map of_char ''Noise_XK_secp256k1_ChaChaPoly_SHA256''"

definition prologue :: buffer where
  "prologue = map of_char ''lightning''"

definition ns_initialize :: "noise_crypto \<Rightarrow> buffer \<Rightarrow> (noise_state, unit) io" where
  "ns_initialize nc pubkey = update_io (\<lambda>s.
     let h = nc_sha256 nc protocolName;
         h' = nc_sha256 nc (h @ prologue)
     in s\<lparr>ns_h := Some (nc_sha256 nc (h' @ pubkey)), ns_ck := Some h\<rparr>)"

text \<open>The two steps that the acts repeat: hashing in some bytes, and deriving keys from a secret.\<close>

definition ns_mixHash :: "noise_crypto \<Rightarrow> buffer \<Rightarrow> (noise_state, unit) io" where
  "ns_mixHash nc bs = bind_io (get_defined ns_h) (\<lambda>h. update_io (\<lambda>s. s\<lparr>ns_h := Some (nc_sha256 nc (h @ bs))\<rparr>))"

definition ns_mixKey ::
  "noise_crypto \<Rightarrow> buffer \<Rightarrow> (buffer \<Rightarrow> noise_state \<Rightarrow> noise_state) \<Rightarrow> (noise_state, unit) io" where
  "ns_mixKey nc ss setTemp =
     bind_io (get_state ns_ck) (\<lambda>ck.
     bind_io (lift_io (hkdf (nc_hmac nc) ss 64 (case ck of None \<Rightarrow> [] | Some salt \<Rightarrow> salt) [])) (\<lambda>temp.
       update_io (\<lambda>s. setTemp (drop 32 temp) (s\<lparr>ns_ck := Some (take 32 temp)\<rparr>))))"

definition ns_encrypt :: "noise_crypto \<Rightarrow> (noise_state \<Rightarrow> buffer option) \<Rightarrow> buffer \<Rightarrow> buffer \<Rightarrow> (noise_state, buffer) io" where
  "ns_encrypt nc key nonce plaintext =
     bind_io (get_defined key) (\<lambda>k. bind_io (get_defined ns_h) (\<lambda>h. lift_io (ccpEncrypt nc k nonce h plaintext)))"

definition ns_decrypt :: "noise_crypto \<Rightarrow> (noise_state \<Rightarrow> buffer option) \<Rightarrow> buffer \<Rightarrow> buffer \<Rightarrow> (noise_state, buffer option) io" where
  "ns_decrypt nc key nonce cipherText =
     bind_io (get_defined key) (\<lambda>k. bind_io (get_defined ns_h) (\<lambda>h. lift_io (ccpDecrypt nc k nonce h cipherText)))"

definition nonceOne :: buffer where
  "nonceOne = [0, 0, 0, 0, 1, 0, 0, 0, 0, 0, 0, 0]"

section \<open>The handshake\<close>

definition initiatorAct1 :: "noise_crypto \<Rightarrow> buffer \<Rightarrow> (noise_state, buffer) io" where
  "initiatorAct1 nc rpk =
     then_io (update_io (\<lambda>s. s\<lparr>ns_rpk := Some rpk\<rparr>))
    (then_io (ns_initialize nc rpk)
    (bind_io (get_state ns_epk) (\<lambda>epk.
     then_io (ns_mixHash nc epk)
    (bind_io (get_state ns_es) (\<lambda>es.
     bind_io (lift_io (nc_ecdh nc rpk es)) (\<lambda>ss.
     then_io (ns_mixKey nc ss (\<lambda>k s. s\<lparr>ns_tempK1 := Some k\<rparr>))
    (bind_io (ns_encrypt nc ns_tempK1 (replicate 12 0) []) (\<lambda>c.
     then_io (ns_mixHash nc c) (return_io ([0] @ epk @ c))))))))))"

definition initiatorAct2 :: "noise_crypto \<Rightarrow> buffer \<Rightarrow> (noise_state, unit) io" where
  "initiatorAct2 nc m =
     (if length m \<noteq> 50 then throw_io (JsError ''ACT2_READ_FAILED'')
      else let v = m ! 0; re = take 33 (drop 1 m); c = drop 34 m in
        then_io (update_io (\<lambda>s. s\<lparr>ns_repk := Some re\<rparr>))
          (if v \<noteq> 0 then throw_io (JsError ''ACT2_BAD_VERSION'')
           else then_io (ns_mixHash nc re)
             (bind_io (get_state ns_es) (\<lambda>es.
              bind_io (lift_io (nc_ecdh nc re es)) (\<lambda>ss.
              then_io (ns_mixKey nc ss (\<lambda>k s. s\<lparr>ns_tempK2 := Some k\<rparr>))
             (bind_io (ns_decrypt nc ns_tempK2 (replicate 12 0) c) (\<lambda>_.
                ns_mixHash nc c)))))))"

definition initiatorAct3 :: "noise_crypto \<Rightarrow> (noise_state, buffer) io" where
  "initiatorAct3 nc =
     bind_io (get_state ns_lpk) (\<lambda>lpk.
     bind_io (ns_encrypt nc ns_tempK2 nonceOne lpk) (\<lambda>c.
     then_io (ns_mixHash nc c)
    (bind_io (get_defined ns_repk) (\<lambda>re.
     bind_io (get_state ns_ls) (\<lambda>ls.
     bind_io (lift_io (nc_ecdh nc re ls)) (\<lambda>ss.
     then_io (ns_mixKey nc ss (\<lambda>k s. s\<lparr>ns_tempK3 := Some k\<rparr>))
    (bind_io (ns_encrypt nc ns_tempK3 (replicate 12 0) []) (\<lambda>t.
     bind_io (get_state ns_ck) (\<lambda>ck.
     bind_io (lift_io (hkdf (nc_hmac nc) [] 64 (case ck of None \<Rightarrow> [] | Some salt \<Rightarrow> salt) [])) (\<lambda>sk.
     then_io (update_io (\<lambda>s. s\<lparr>ns_rk := Some (drop 32 sk), ns_sk := Some (take 32 sk),
         ns_sn := Some (replicate 12 0), ns_rn := Some (replicate 12 0)\<rparr>))
       (return_io ([0] @ c @ t))))))))))))"

definition receiveAct1 :: "noise_crypto \<Rightarrow> buffer \<Rightarrow> (noise_state, unit) io" where
  "receiveAct1 nc m =
     bind_io (get_state ns_lpk) (\<lambda>lpk.
     then_io (ns_initialize nc lpk)
       (if length m \<noteq> 50 then throw_io (JsError ''ACT1_READ_FAILED'')
        else let v = m ! 0; re = take 33 (drop 1 m); c = drop 34 m in
          then_io (update_io (\<lambda>s. s\<lparr>ns_repk := Some re\<rparr>))
            (if v \<noteq> 0 then throw_io (JsError ''ACT1_BAD_VERSION'')
             else then_io (ns_mixHash nc re)
               (bind_io (get_state ns_ls) (\<lambda>ls.
                bind_io (lift_io (nc_ecdh nc re ls)) (\<lambda>ss.
                then_io (ns_mixKey nc ss (\<lambda>k s. s\<lparr>ns_tempK1 := Some k\<rparr>))
               (bind_io (ns_decrypt nc ns_tempK1 (replicate 12 0) c) (\<lambda>_.
                  ns_mixHash nc c))))))))"

definition recieveAct2 :: "noise_crypto \<Rightarrow> (noise_state, buffer) io" where
  "recieveAct2 nc =
     bind_io (get_state ns_epk) (\<lambda>epk.
     then_io (ns_mixHash nc epk)
    (bind_io (get_defined ns_repk) (\<lambda>re.
     bind_io (get_state ns_es) (\<lambda>es.
     bind_io (lift_io (nc_ecdh nc re es)) (\<lambda>ss.
     then_io (ns_mixKey nc ss (\<lambda>k s. s\<lparr>ns_tempK2 := Some k\<rparr>))
    (bind_io (ns_encrypt nc ns_tempK2 (replicate 12 0) []) (\<lambda>c.
     then_io (ns_mixHash nc c) (return_io ([0] @ epk @ c)))))))))"

definition receiveAct3 :: "noise_crypto \<Rightarrow> buffer \<Rightarrow> (noise_state, unit) io" where
  "receiveAct3 nc m =
     (if length m \<noteq> 66 then throw_io (JsError ''ACT3_READ_FAILED'')
      else let v = m ! 0; c = take 49 (drop 1 m); t = drop 50 m in
        if v \<noteq> 0 then throw_io (JsError ''ACT3_BAD_VERSION'')
        else bind_io (ns_decrypt nc ns_tempK2 nonceOne c) (\<lambda>rs.
          then_io (update_io (\<lambda>s. s\<lparr>ns_rpk := rs\<rparr>))
         (then_io (ns_mixHash nc c)
         (bind_io (get_defined ns_rpk) (\<lambda>rpk.
          bind_io (get_state ns_es) (\<lambda>es.
          bind_io (lift_io (nc_ecdh nc rpk es)) (\<lambda>ss.
          then_io (ns_mixKey nc ss (\<lambda>k s. s\<lparr>ns_tempK3 := Some k\<rparr>))
         (bind_io (ns_decrypt nc ns_tempK3 (replicate 12 0) t) (\<lambda>_.
          bind_io (get_state ns_ck) (\<lambda>ck.
          bind_io (lift_io (hkdf (nc_hmac nc) [] 64 (case ck of None \<Rightarrow> [] | Some salt \<Rightarrow> salt) [])) (\<lambda>sk.
            update_io (\<lambda>s. s\<lparr>ns_rk := Some (take 32 sk), ns_sk := Some (drop 32 sk),
              ns_rn := Some (replicate 12 0), ns_sn := Some (replicate 12 0)\<rparr>))))))))))))"

section \<open>Messages\<close>

text \<open>The counter is a 16-bit number at offset 4 of the nonce.\<close>

definition nonceCount :: "buffer \<Rightarrow> nat res" where
  "nonceCount n = (if length n < 6 then Inl RangeError else Inr (le_val (take 2 (drop 4 n))))"

definition nonceSet :: "nat \<Rightarrow> buffer \<Rightarrow> buffer res" where
  "nonceSet v n = (if v \<ge> 65536 \<or> length n < 6 then Inl RangeError else Inr (take 4 n @ le_bytes 2 v @ drop 6 n))"

definition incrementSendingNonce :: "(noise_state, nat) io" where
  "incrementSendingNonce =
     bind_io (get_defined ns_sn) (\<lambda>sn.
     bind_io (lift_io (nonceCount sn)) (\<lambda>n.
     bind_io (lift_io (nonceSet (n + 1) sn)) (\<lambda>sn'.
     then_io (update_io (\<lambda>s. s\<lparr>ns_sn := Some sn'\<rparr>)) (return_io (n + 1)))))"

definition incrementRecievingNonce :: "(noise_state, nat) io" where
  "incrementRecievingNonce =
     bind_io (get_defined ns_rn) (\<lambda>rn.
     bind_io (lift_io (nonceCount rn)) (\<lambda>n.
     bind_io (lift_io (nonceSet (n + 1) rn)) (\<lambda>rn'.
     then_io (update_io (\<lambda>s. s\<lparr>ns_rn := Some rn'\<rparr>)) (return_io (n + 1)))))"

definition rotateSendingKeys :: "noise_crypto \<Rightarrow> (noise_state, unit) io" where
  "rotateSendingKeys nc =
     bind_io (get_defined ns_sk) (\<lambda>sk.
     bind_io (get_state ns_ck) (\<lambda>ck.
     bind_io (lift_io (hkdf (nc_hmac nc) sk 64 (case ck of None \<Rightarrow> [] | Some salt \<Rightarrow> salt) [])) (\<lambda>result.
       update_io (\<lambda>s. s\<lparr>ns_sk := Some (drop 32 result), ns_ck := Some (take 32 result),
         ns_sn := Some (replicate 12 0)\<rparr>))))"

definition rotateRecievingKeys :: "noise_crypto \<Rightarrow> (noise_state, unit) io" where
  "rotateRecievingKeys nc =
     bind_io (get_defined ns_rk) (\<lambda>rk.
     bind_io (get_state ns_ck) (\<lambda>ck.
     bind_io (lift_io (hkdf (nc_hmac nc) rk 64 (case ck of None \<Rightarrow> [] | Some salt \<Rightarrow> salt) [])) (\<lambda>result.
       update_io (\<lambda>s. s\<lparr>ns_rk := Some (drop 32 result), ns_ck := Some (take 32 result),
         ns_rn := Some (replicate 12 0)\<rparr>))))"

definition nextSending :: "noise_crypto \<Rightarrow> (noise_state, unit) io" where
  "nextSending nc = bind_io incrementSendingNonce (\<lambda>n. if n \<ge> 1000 then rotateSendingKeys nc else return_io ())"

definition nextRecieving :: "noise_crypto \<Rightarrow> (noise_state, unit) io" where
  "nextRecieving nc = bind_io incrementRecievingNonce (\<lambda>n. if n \<ge> 1000 then rotateRecievingKeys nc else return_io ())"

definition sealNext :: "noise_crypto \<Rightarrow> buffer \<Rightarrow> (noise_state, buffer) io" where
  "sealNext nc m =
     bind_io (get_defined ns_sk) (\<lambda>sk. bind_io (get_defined ns_sn) (\<lambda>sn.
     bind_io (lift_io (ccpEncrypt nc sk sn [] m)) (\<lambda>c. then_io (nextSending nc) (return_io c))))"

definition openNext :: "noise_crypto \<Rightarrow> buffer \<Rightarrow> (noise_state, buffer option) io" where
  "openNext nc c =
     bind_io (get_defined ns_rk) (\<lambda>rk. bind_io (get_defined ns_rn) (\<lambda>rn.
     bind_io (lift_io (ccpDecrypt nc rk rn [] c)) (\<lambda>m. then_io (nextRecieving nc) (return_io m))))"

definition encryptMessage :: "noise_crypto \<Rightarrow> buffer \<Rightarrow> (noise_state, buffer) io" where
  "encryptMessage nc m =
     (if length m \<ge> 65536 then throw_io RangeError
      else bind_io (sealNext nc (be_bytes 2 (length m))) (\<lambda>lc.
           bind_io (sealNext nc m) (\<lambda>c. return_io (lc @ c))))"

definition decryptLength :: "noise_crypto \<Rightarrow> buffer \<Rightarrow> (noise_state, nat) io" where
  "decryptLength nc lc =
     bind_io (openNext nc lc) (\<lambda>l.
       lift_io (case l of None \<Rightarrow> Inl TypeError
         | Some l \<Rightarrow> if length l < 2 then Inl RangeError else Inr (be_val (take 2 l))))"

definition decryptMessage :: "noise_crypto \<Rightarrow> buffer \<Rightarrow> (noise_state, buffer option) io" where
  "decryptMessage nc c = openNext nc c"

end
