(* ===== verification/NoiseFacts.thy ===== *)
theory NoiseFacts
  imports Noise
begin

text \<open>The two sides of the handshake agree, and what one side seals the other opens.\<close>

section \<open>What is documented of the primitives\<close>

text \<open>
  A hash of 32 bytes; a cipher that opens what it sealed under the same key, nonce and data, with a
  tag of 16 bytes; compressed public keys of 33 bytes; and a shared secret that both sides compute.
\<close>

definition noise_laws :: "noise_crypto \<Rightarrow> bool" where
  "noise_laws nc \<longleftrightarrow>
     (\<forall>x y. length (nc_hmac nc x y) = 32)
   \<and> (\<forall>k n ad m. length k = 32 \<longrightarrow> length n = 12 \<longrightarrow>
        (\<exists>pad tag. nc_seal nc k n ad m = Inr (pad, tag) \<and> length pad = length m \<and> length tag = 16
           \<and> nc_open nc k n ad pad tag = Inr m))
   \<and> (\<forall>a p. nc_getPublicKey nc a = Inr p \<longrightarrow> length p = 33)
   \<and> (\<forall>a b p q. nc_getPublicKey nc a = Inr p \<longrightarrow> nc_getPublicKey nc b = Inr q \<longrightarrow>
        (\<exists>s. nc_ecdh nc p b = Inr s \<and> nc_ecdh nc q a = Inr s))"

lemma hkdf_64:
  assumes "noise_laws nc"
  shows "\<exists>k1 k2. hkdf (nc_hmac nc) ikm 64 salt [] = Inr (k1 @ k2) \<and> length k1 = 32 \<and> length k2 = 32"
proof -
  have l: "length (nc_hmac nc x y) = 32" for x y using assms by (simp add: noise_laws_def)
  have two: "(64 + 32 - 1) div 32 = Suc (Suc 0)" by simp
  show ?thesis unfolding hkdf_def l two Let_def by (auto simp: l Let_def intro!: exI)
qed

lemma ccp_roundtrip:
  assumes "noise_laws nc" "length k = 32" "length n = 12"
  shows "\<exists>c. ccpEncrypt nc k n ad m = Inr c \<and> length c = length m + 16 \<and> ccpDecrypt nc k n ad c = Inr (Some m)"
proof -
  obtain pad tag where "nc_seal nc k n ad m = Inr (pad, tag)" "length pad = length m" "length tag = 16"
    "nc_open nc k n ad pad tag = Inr m"
    using assms unfolding noise_laws_def by blast
  then show ?thesis by (cases m) (simp_all add: ccpEncrypt_def ccpDecrypt_def Let_def)
qed

section \<open>Messages\<close>

definition nonce :: "nat \<Rightarrow> buffer" where
  "nonce n = replicate 4 0 @ le_bytes 2 n @ replicate 6 0"

lemma nonce_zero: "replicate 12 0 = nonce 0"
  by code_simp

lemma length_nonce [simp]: "length (nonce n) = 12"
  by (simp add: nonce_def)

lemma nonce_counter [simp]:
  "n < 65536 \<Longrightarrow> nonceCount (nonce n) = Inr n"
  "v < 65536 \<Longrightarrow> nonceSet v (nonce n) = Inr (nonce v)"
proof -
  have l: "length (nonce n) = 12" "take 4 (nonce n) = replicate 4 0" "drop 6 (nonce n) = replicate 6 0"
    "take 2 (drop 4 (nonce n)) = le_bytes 2 n"
    unfolding nonce_def by (simp_all del: le_bytes.simps)
  show "n < 65536 \<Longrightarrow> nonceCount (nonce n) = Inr n"
    unfolding nonceCount_def l using le_val_le_bytes_id [of n 2] by (simp del: le_bytes.simps)
  show "v < 65536 \<Longrightarrow> nonceSet v (nonce n) = Inr (nonce v)"
    unfolding nonceSet_def l by (simp add: nonce_def del: le_bytes.simps)
qed

text \<open>What \<open>a\<close> seals next, \<open>b\<close> can open; the chaining key is the same for both.\<close>

definition synced :: "noise_state \<Rightarrow> noise_state \<Rightarrow> bool" where
  "synced a b \<longleftrightarrow> (\<exists>k ck n. n < 1000 \<and> length k = 32 \<and> ns_sk a = Some k \<and> ns_rk b = Some k
     \<and> ns_ck a = Some ck \<and> ns_ck b = Some ck \<and> ns_sn a = Some (nonce n) \<and> ns_rn b = Some (nonce n))"

definition joined :: "noise_state \<Rightarrow> noise_state \<Rightarrow> bool" where
  "joined a b \<longleftrightarrow> synced a b \<and> synced b a"

lemma joined_sym: "joined a b \<longleftrightarrow> joined b a"
  by (auto simp: joined_def)

lemma nextSending_eq:
  assumes "n < 1000" "ns_sk a = Some k" "ns_ck a = Some ck" "ns_sn a = Some (nonce n)"
    "hkdf (nc_hmac nc) k 64 ck [] = Inr (k1 @ k2)" "length k1 = 32"
  shows "nextSending nc a = (Inr (), if n < 999 then a\<lparr>ns_sn := Some (nonce (n + 1))\<rparr>
    else a\<lparr>ns_sk := Some k2, ns_ck := Some k1, ns_sn := Some (nonce 0)\<rparr>)"
  using assms by (simp add: nextSending_def incrementSendingNonce_def rotateSendingKeys_def io_simps nonce_zero)

lemma nextRecieving_eq:
  assumes "n < 1000" "ns_rk b = Some k" "ns_ck b = Some ck" "ns_rn b = Some (nonce n)"
    "hkdf (nc_hmac nc) k 64 ck [] = Inr (k1 @ k2)" "length k1 = 32"
  shows "nextRecieving nc b = (Inr (), if n < 999 then b\<lparr>ns_rn := Some (nonce (n + 1))\<rparr>
    else b\<lparr>ns_rk := Some k2, ns_ck := Some k1, ns_rn := Some (nonce 0)\<rparr>)"
  using assms by (simp add: nextRecieving_def incrementRecievingNonce_def rotateRecievingKeys_def io_simps nonce_zero)

lemma next_step:
  assumes "noise_laws nc" "joined a b"
  shows "\<exists>c a' b'. sealNext nc m a = (Inr c, a') \<and> length c = length m + 16
    \<and> openNext nc c b = (Inr (Some m), b') \<and> joined a' b'"
proof -
  obtain k ck n where s: "n < 1000" "length k = 32" "ns_sk a = Some k" "ns_rk b = Some k"
    "ns_ck a = Some ck" "ns_ck b = Some ck" "ns_sn a = Some (nonce n)" "ns_rn b = Some (nonce n)"
    using assms(2) by (auto simp: joined_def synced_def)
  obtain l j where t: "j < 1000" "length l = 32" "ns_sk b = Some l" "ns_rk a = Some l"
    "ns_sn b = Some (nonce j)" "ns_rn a = Some (nonce j)"
    using assms(2) by (auto simp: joined_def synced_def)
  obtain k1 k2 where h: "hkdf (nc_hmac nc) k 64 ck [] = Inr (k1 @ k2)" "length k1 = 32" "length k2 = 32"
    using hkdf_64 [OF assms(1)] by blast
  obtain c where c: "ccpEncrypt nc k (nonce n) [] m = Inr c" "length c = length m + 16"
    "ccpDecrypt nc k (nonce n) [] c = Inr (Some m)"
    using ccp_roundtrip [OF assms(1) s(2), of "nonce n"] by auto
  let ?a = "if n < 999 then a\<lparr>ns_sn := Some (nonce (n + 1))\<rparr> else a\<lparr>ns_sk := Some k2, ns_ck := Some k1, ns_sn := Some (nonce 0)\<rparr>"
  let ?b = "if n < 999 then b\<lparr>ns_rn := Some (nonce (n + 1))\<rparr> else b\<lparr>ns_rk := Some k2, ns_ck := Some k1, ns_rn := Some (nonce 0)\<rparr>"
  have "sealNext nc m a = (Inr c, ?a)"
    using s c nextSending_eq [OF s(1,3,5,7) h(1,2)] by (simp add: sealNext_def io_simps)
  moreover have "openNext nc c b = (Inr (Some m), ?b)"
    using s c nextRecieving_eq [OF s(1,4,6,8) h(1,2)] by (simp add: openNext_def io_simps)
  moreover have "joined ?a ?b"
  proof (cases "n < 999")
    case True
    then have "\<exists>i<1000. nonce (Suc n) = nonce i" "\<exists>i<1000. nonce j = nonce i" using t(1) by (auto intro: exI [of _ "Suc n"])
    then show ?thesis using s t True unfolding joined_def synced_def by simp
  next
    case False
    have "\<exists>i<1000. nonce 0 = nonce i" "\<exists>i<1000. nonce j = nonce i" using t(1) by (auto intro: exI [of _ "0 :: nat"])
    then show ?thesis using s t h False unfolding joined_def synced_def by simp
  qed
  ultimately show ?thesis using c(2) by blast
qed

lemma message_step:
  assumes "noise_laws nc" "joined a b" "length m < 65536"
  shows "\<exists>c a' b1 b'. encryptMessage nc m a = (Inr c, a') \<and> length c = length m + 34
    \<and> decryptLength nc (take 18 c) b = (Inr (length m), b1) \<and> decryptMessage nc (drop 18 c) b1 = (Inr (Some m), b')
    \<and> joined a' b'"
proof -
  obtain lc a1 b1 where 1: "sealNext nc (be_bytes 2 (length m)) a = (Inr lc, a1)" "length lc = 18"
    "openNext nc lc b = (Inr (Some (be_bytes 2 (length m))), b1)" "joined a1 b1"
    using next_step [OF assms(1,2), of "be_bytes 2 (length m)"] by auto
  obtain c a' b' where 2: "sealNext nc m a1 = (Inr c, a')" "length c = length m + 16"
    "openNext nc c b1 = (Inr (Some m), b')" "joined a' b'"
    using next_step [OF assms(1) 1(4), of m] by auto
  show ?thesis using 1 2 assms(3)
    by (intro exI [of _ "lc @ c"] exI [of _ a'] exI [of _ b1] exI [of _ b'])
      (simp add: encryptMessage_def decryptLength_def decryptMessage_def io_simps)
qed

section \<open>The handshake\<close>

text \<open>The keys of a state belong together.\<close>

definition ns_keys :: "noise_crypto \<Rightarrow> noise_state \<Rightarrow> bool" where
  "ns_keys nc s \<longleftrightarrow> nc_getPublicKey nc (ns_ls s) = Inr (ns_lpk s) \<and> nc_getPublicKey nc (ns_es s) = Inr (ns_epk s)"

lemma shared_secret:
  assumes "noise_laws nc" "nc_getPublicKey nc a = Inr p" "nc_getPublicKey nc b = Inr q"
  obtains s where "nc_ecdh nc p b = Inr s" "nc_ecdh nc q a = Inr s"
  using assms unfolding noise_laws_def by blast

lemma public_key_length: "noise_laws nc \<Longrightarrow> nc_getPublicKey nc a = Inr p \<Longrightarrow> length p = 33"
  by (auto simp: noise_laws_def)

lemma mixKey_eq:
  "ns_ck s = Some ck \<Longrightarrow> ns_mixKey nc ss f s = (case hkdf (nc_hmac nc) ss 64 ck [] of Inl e \<Rightarrow> (Inl e, s)
     | Inr temp \<Rightarrow> (Inr (), f (drop 32 temp) (s\<lparr>ns_ck := Some (take 32 temp)\<rparr>)))"
  by (simp add: ns_mixKey_def io_simps split: sum.split)

lemmas act_simps = io_simps ns_mixHash_def mixKey_eq ns_encrypt_def ns_decrypt_def

lemma act1:
  assumes "noise_laws nc" "ns_keys nc i" "ns_keys nc r"
  shows "\<exists>m h ck k. length m = 50
    \<and> initiatorAct1 nc (ns_lpk r) i = (Inr m, i\<lparr>ns_rpk := Some (ns_lpk r), ns_h := Some h, ns_ck := Some ck, ns_tempK1 := Some k\<rparr>)
    \<and> receiveAct1 nc m r = (Inr (), r\<lparr>ns_repk := Some (ns_epk i), ns_h := Some h, ns_ck := Some ck, ns_tempK1 := Some k\<rparr>)"
proof -
  obtain ss where ss: "nc_ecdh nc (ns_lpk r) (ns_es i) = Inr ss" "nc_ecdh nc (ns_epk i) (ns_ls r) = Inr ss"
    using shared_secret [OF assms(1), of "ns_ls r" "ns_lpk r" "ns_es i" "ns_epk i"] assms(2,3) by (auto simp: ns_keys_def)
  let ?start = "nc_sha256 nc protocolName"
  let ?h = "nc_sha256 nc (nc_sha256 nc (nc_sha256 nc (?start @ prologue) @ ns_lpk r) @ ns_epk i)"
  obtain k1 k2 where k: "hkdf (nc_hmac nc) ss 64 ?start [] = Inr (k1 @ k2)" "length k1 = 32" "length k2 = 32"
    using hkdf_64 [OF assms(1)] by blast
  obtain c where c: "ccpEncrypt nc k2 (replicate 12 0) ?h [] = Inr c" "length c = 16" "ccpDecrypt nc k2 (replicate 12 0) ?h c = Inr (Some [])"
    using ccp_roundtrip [OF assms(1) k(3), of "replicate 12 0" ?h "[]"] by auto
  have e: "length (ns_epk i) = 33" using public_key_length [OF assms(1)] assms(2) by (auto simp: ns_keys_def)
  have 1: "initiatorAct1 nc (ns_lpk r) i = (Inr ([0] @ ns_epk i @ c), i\<lparr>ns_rpk := Some (ns_lpk r),
      ns_h := Some (nc_sha256 nc (?h @ c)), ns_ck := Some k1, ns_tempK1 := Some k2\<rparr>)"
    using ss k c by (simp add: initiatorAct1_def ns_initialize_def act_simps Let_def)
  have 2: "receiveAct1 nc ([0] @ ns_epk i @ c) r = (Inr (), r\<lparr>ns_repk := Some (ns_epk i),
      ns_h := Some (nc_sha256 nc (?h @ c)), ns_ck := Some k1, ns_tempK1 := Some k2\<rparr>)"
    using ss k c e by (simp add: receiveAct1_def ns_initialize_def act_simps Let_def)
  show ?thesis using 1 2 e c(2)
    by (intro exI [of _ "[0] @ ns_epk i @ c"] exI [of _ "nc_sha256 nc (?h @ c)"] exI [of _ k1] exI [of _ k2]) simp
qed

lemma act2:
  assumes "noise_laws nc" "ns_keys nc i" "ns_keys nc r" "ns_repk r = Some (ns_epk i)"
    "ns_h i = Some h0" "ns_h r = Some h0" "ns_ck i = Some ck0" "ns_ck r = Some ck0"
  shows "\<exists>m h ck k. length m = 50 \<and> length k = 32
    \<and> recieveAct2 nc r = (Inr m, r\<lparr>ns_h := Some h, ns_ck := Some ck, ns_tempK2 := Some k\<rparr>)
    \<and> initiatorAct2 nc m i = (Inr (), i\<lparr>ns_repk := Some (ns_epk r), ns_h := Some h, ns_ck := Some ck, ns_tempK2 := Some k\<rparr>)"
proof -
  obtain ss where ss: "nc_ecdh nc (ns_epk r) (ns_es i) = Inr ss" "nc_ecdh nc (ns_epk i) (ns_es r) = Inr ss"
    using shared_secret [OF assms(1), of "ns_es r" "ns_epk r" "ns_es i" "ns_epk i"] assms(2,3) by (auto simp: ns_keys_def)
  let ?h = "nc_sha256 nc (h0 @ ns_epk r)"
  obtain k1 k2 where k: "hkdf (nc_hmac nc) ss 64 ck0 [] = Inr (k1 @ k2)" "length k1 = 32" "length k2 = 32"
    using hkdf_64 [OF assms(1)] by blast
  obtain c where c: "ccpEncrypt nc k2 (replicate 12 0) ?h [] = Inr c" "length c = 16" "ccpDecrypt nc k2 (replicate 12 0) ?h c = Inr (Some [])"
    using ccp_roundtrip [OF assms(1) k(3), of "replicate 12 0" ?h "[]"] by auto
  have e: "length (ns_epk r) = 33" using public_key_length [OF assms(1)] assms(3) by (auto simp: ns_keys_def)
  have 1: "recieveAct2 nc r = (Inr ([0] @ ns_epk r @ c), r\<lparr>ns_h := Some (nc_sha256 nc (?h @ c)), ns_ck := Some k1, ns_tempK2 := Some k2\<rparr>)"
    using ss k c assms(4,6,8) by (simp add: recieveAct2_def act_simps)
  have 2: "initiatorAct2 nc ([0] @ ns_epk r @ c) i = (Inr (), i\<lparr>ns_repk := Some (ns_epk r),
      ns_h := Some (nc_sha256 nc (?h @ c)), ns_ck := Some k1, ns_tempK2 := Some k2\<rparr>)"
    using ss k c e assms(5,7) by (simp add: initiatorAct2_def act_simps Let_def)
  show ?thesis using 1 2 e c(2) k(3)
    by (intro exI [of _ "[0] @ ns_epk r @ c"] exI [of _ "nc_sha256 nc (?h @ c)"] exI [of _ k1] exI [of _ k2]) simp
qed

lemma act3:
  assumes "noise_laws nc" "ns_keys nc i" "ns_keys nc r" "ns_repk i = Some (ns_epk r)"
    "ns_h i = Some h0" "ns_h r = Some h0" "ns_ck i = Some ck0" "ns_ck r = Some ck0"
    "ns_tempK2 i = Some k0" "ns_tempK2 r = Some k0" "length k0 = 32"
  shows "\<exists>m i' r'. length m = 66 \<and> initiatorAct3 nc i = (Inr m, i') \<and> receiveAct3 nc m r = (Inr (), r')
    \<and> joined i' r' \<and> ns_rpk r' = Some (ns_lpk i) \<and> ns_rpk i' = ns_rpk i \<and> ns_h i' = ns_h r'"
proof -
  obtain ss where ss: "nc_ecdh nc (ns_epk r) (ns_ls i) = Inr ss" "nc_ecdh nc (ns_lpk i) (ns_es r) = Inr ss"
    using shared_secret [OF assms(1), of "ns_es r" "ns_epk r" "ns_ls i" "ns_lpk i"] assms(2,3) by (auto simp: ns_keys_def)
  have e: "length (ns_lpk i) = 33" using public_key_length [OF assms(1)] assms(2) by (auto simp: ns_keys_def)
  have n: "length nonceOne = 12" by (simp add: nonceOne_def)
  obtain c where c: "ccpEncrypt nc k0 nonceOne h0 (ns_lpk i) = Inr c" "length c = 49" "ccpDecrypt nc k0 nonceOne h0 c = Inr (Some (ns_lpk i))"
    using ccp_roundtrip [OF assms(1,11) n, of h0 "ns_lpk i"] e by auto
  let ?h = "nc_sha256 nc (h0 @ c)"
  obtain k1 k2 where k: "hkdf (nc_hmac nc) ss 64 ck0 [] = Inr (k1 @ k2)" "length k1 = 32" "length k2 = 32"
    using hkdf_64 [OF assms(1)] by blast
  obtain t where t: "ccpEncrypt nc k2 (replicate 12 0) ?h [] = Inr t" "length t = 16" "ccpDecrypt nc k2 (replicate 12 0) ?h t = Inr (Some [])"
    using ccp_roundtrip [OF assms(1) k(3), of "replicate 12 0" ?h "[]"] by auto
  obtain s1 s2 where s: "hkdf (nc_hmac nc) [] 64 k1 [] = Inr (s1 @ s2)" "length s1 = 32" "length s2 = 32"
    using hkdf_64 [OF assms(1)] by blast
  let ?i = "i\<lparr>ns_h := Some ?h, ns_ck := Some k1, ns_tempK3 := Some k2, ns_rk := Some s2, ns_sk := Some s1,
      ns_sn := Some (nonce 0), ns_rn := Some (nonce 0)\<rparr>"
  let ?r = "r\<lparr>ns_rpk := Some (ns_lpk i), ns_h := Some ?h, ns_ck := Some k1, ns_tempK3 := Some k2, ns_rk := Some s1,
      ns_sk := Some s2, ns_rn := Some (nonce 0), ns_sn := Some (nonce 0)\<rparr>"
  have 1: "initiatorAct3 nc i = (Inr ([0] @ c @ t), ?i)"
    using assms(4,5,7,9) ss k c t s by (simp add: initiatorAct3_def act_simps nonce_zero [symmetric])
  have 2: "receiveAct3 nc ([0] @ c @ t) r = (Inr (), ?r)"
    using assms(6,8,10) ss k c t s by (simp add: receiveAct3_def act_simps Let_def nonce_zero [symmetric])
  have "\<exists>n<1000. nonce 0 = nonce n" by (rule exI [of _ 0]) simp
  then have "joined ?i ?r" using s by (simp add: joined_def synced_def)
  then show ?thesis using 1 2 c(2) t(2) by (intro exI [of _ "[0] @ c @ t"]) auto
qed

section \<open>A session\<close>

definition deliver :: "noise_crypto \<Rightarrow> buffer \<Rightarrow> noise_state \<times> noise_state \<Rightarrow> buffer option res \<times> noise_state \<times> noise_state" where
  "deliver nc m = (\<lambda>(a, b). case encryptMessage nc m a of
     (Inl e, a') \<Rightarrow> (Inl e, a', b)
   | (Inr c, a') \<Rightarrow> (case decryptLength nc (take 18 c) b of
       (Inl e, b') \<Rightarrow> (Inl e, a', b')
     | (Inr l, b1) \<Rightarrow> (case decryptMessage nc (take (l + 16) (drop 18 c)) b1 of (m', b') \<Rightarrow> (m', a', b'))))"

text \<open>A conversation, in which the messages of the first party are marked true.\<close>

definition turn :: "noise_crypto \<Rightarrow> bool \<times> buffer \<Rightarrow> noise_state \<times> noise_state \<Rightarrow> buffer option res \<times> noise_state \<times> noise_state" where
  "turn nc x s = (if fst x then deliver nc (snd x) s else (case deliver nc (snd x) (prod.swap s) of (m, b, a) \<Rightarrow> (m, a, b)))"

primrec conversation :: "noise_crypto \<Rightarrow> (bool \<times> buffer) list \<Rightarrow> noise_state \<times> noise_state \<Rightarrow> buffer option res list \<times> noise_state \<times> noise_state" where
  "conversation nc [] s = ([], s)"
| "conversation nc (x # xs) s =
     (let (m, s') = turn nc x s; (ms, s'') = conversation nc xs s' in (m # ms, s''))"

lemma deliver_joined:
  assumes "noise_laws nc" "joined a b" "length m < 65536"
  shows "\<exists>a' b'. deliver nc m (a, b) = (Inr (Some m), a', b') \<and> joined a' b'"
proof -
  obtain c a' b1 b' where "encryptMessage nc m a = (Inr c, a')" "length c = length m + 34"
    "decryptLength nc (take 18 c) b = (Inr (length m), b1)" "decryptMessage nc (drop 18 c) b1 = (Inr (Some m), b')"
    "joined a' b'" using message_step [OF assms] by blast
  then show ?thesis by (simp add: deliver_def)
qed

lemma turn_joined:
  assumes "noise_laws nc" "joined a b" "length (snd x) < 65536"
  shows "\<exists>a' b'. turn nc x (a, b) = (Inr (Some (snd x)), a', b') \<and> joined a' b'"
  using deliver_joined [OF assms] deliver_joined [OF assms(1) _ assms(3), of b a] assms(2) joined_sym
  by (cases "fst x") (auto simp: turn_def)

lemma conversation_joined:
  assumes "noise_laws nc" "joined a b" "\<forall>x\<in>set xs. length (snd x) < 65536"
  shows "\<exists>a' b'. conversation nc xs (a, b) = (map (\<lambda>x. Inr (Some (snd x))) xs, a', b') \<and> joined a' b'"
  using assms(2,3)
proof (induction xs arbitrary: a b)
  case (Cons x xs)
  obtain a' b' where d: "turn nc x (a, b) = (Inr (Some (snd x)), a', b')" "joined a' b'"
    using turn_joined [OF assms(1), of a b x] Cons.prems by auto
  then show ?case using Cons.IH [OF d(2)] Cons.prems by auto
qed simp

text \<open>
  C9: After the three acts of the handshake both sides know the other's static key and share their
  transport keys: in any conversation, of any length and in any order of the speakers, each message
  is decrypted to what was sent, through all rotations of the keys.
\<close>

theorem noise_session:
  assumes "noise_laws nc" "newNoiseState nc ls es = Inr i" "newNoiseState nc ls' es' = Inr r"
    and "\<forall>x\<in>set xs. length (snd x) < 65536"
  shows "\<exists>m1 m2 m3 i1 i2 i3 r1 r2 r3.
      initiatorAct1 nc (ns_lpk r) i = (Inr m1, i1) \<and> receiveAct1 nc m1 r = (Inr (), r1)
    \<and> recieveAct2 nc r1 = (Inr m2, r2) \<and> initiatorAct2 nc m2 i1 = (Inr (), i2)
    \<and> initiatorAct3 nc i2 = (Inr m3, i3) \<and> receiveAct3 nc m3 r2 = (Inr (), r3)
    \<and> ns_rpk r3 = Some (ns_lpk i) \<and> ns_rpk i3 = Some (ns_lpk r)
    \<and> fst (conversation nc xs (i3, r3)) = map (\<lambda>x. Inr (Some (snd x))) xs"
proof -
  have keys: "ns_keys nc i" "ns_keys nc r"
    using assms(2,3) by (auto simp: newNoiseState_def ns_keys_def bind_res_eq_Inr)
  obtain m1 h ck k where 1: "initiatorAct1 nc (ns_lpk r) i = (Inr m1, i\<lparr>ns_rpk := Some (ns_lpk r), ns_h := Some h, ns_ck := Some ck, ns_tempK1 := Some k\<rparr>)"
    "receiveAct1 nc m1 r = (Inr (), r\<lparr>ns_repk := Some (ns_epk i), ns_h := Some h, ns_ck := Some ck, ns_tempK1 := Some k\<rparr>)"
    using act1 [OF assms(1) keys] by auto
  let ?i = "i\<lparr>ns_rpk := Some (ns_lpk r), ns_h := Some h, ns_ck := Some ck, ns_tempK1 := Some k\<rparr>"
  let ?r = "r\<lparr>ns_repk := Some (ns_epk i), ns_h := Some h, ns_ck := Some ck, ns_tempK1 := Some k\<rparr>"
  have "ns_keys nc ?i" "ns_keys nc ?r" using keys by (simp_all add: ns_keys_def)
  from act2 [OF assms(1) this, of h ck] obtain m2 h' ck' k' where 2: "length k' = 32"
    "recieveAct2 nc ?r = (Inr m2, ?r\<lparr>ns_h := Some h', ns_ck := Some ck', ns_tempK2 := Some k'\<rparr>)"
    "initiatorAct2 nc m2 ?i = (Inr (), ?i\<lparr>ns_repk := Some (ns_epk r), ns_h := Some h', ns_ck := Some ck', ns_tempK2 := Some k'\<rparr>)"
    by auto
  let ?i2 = "?i\<lparr>ns_repk := Some (ns_epk r), ns_h := Some h', ns_ck := Some ck', ns_tempK2 := Some k'\<rparr>"
  let ?r2 = "?r\<lparr>ns_h := Some h', ns_ck := Some ck', ns_tempK2 := Some k'\<rparr>"
  have "ns_keys nc ?i2" "ns_keys nc ?r2" using keys by (simp_all add: ns_keys_def)
  from act3 [OF assms(1) this, of h' ck' k'] obtain m3 i' r' where 3: "initiatorAct3 nc ?i2 = (Inr m3, i')"
    "receiveAct3 nc m3 ?r2 = (Inr (), r')" "joined i' r'" "ns_rpk r' = Some (ns_lpk i)" "ns_rpk i' = Some (ns_lpk r)"
    using 2(1) by auto
  obtain s where "conversation nc xs (i', r') = (map (\<lambda>x. Inr (Some (snd x))) xs, s)"
    using conversation_joined [OF assms(1) 3(3) assms(4)] by auto
  then show ?thesis using 1 2 3 by auto
qed

text \<open>Primitives that keep the laws, without being secure.\<close>

definition toy_hmac :: "buffer \<Rightarrow> buffer \<Rightarrow> buffer" where
  "toy_hmac k x = map2 (+) (take 32 (k @ replicate 32 0)) (take 32 (x @ replicate 32 0))"

definition toy_noise :: noise_crypto where
  "toy_noise = \<lparr>nc_sha256 = \<lambda>x. take 32 (x @ replicate 32 0), nc_hmac = toy_hmac,
     nc_getPublicKey = \<lambda>k. Inr (2 # take 32 (k @ replicate 32 0)), nc_ecdh = \<lambda>p k. Inr [],
     nc_seal = \<lambda>k n ad m. Inr (m, replicate 16 0), nc_open = \<lambda>k n ad pad tag. Inr pad\<rparr>"

lemma toy_laws: "noise_laws toy_noise"
  by (auto simp: noise_laws_def toy_noise_def toy_hmac_def min_def)

theorem noise_session_witness:
  "\<exists>i r m1 m2 m3 i1 i2 i3 r1 r2 r3. newNoiseState toy_noise [1] [2] = Inr i \<and> newNoiseState toy_noise [3] [4] = Inr r
    \<and> initiatorAct1 toy_noise (ns_lpk r) i = (Inr m1, i1) \<and> receiveAct1 toy_noise m1 r = (Inr (), r1)
    \<and> recieveAct2 toy_noise r1 = (Inr m2, r2) \<and> initiatorAct2 toy_noise m2 i1 = (Inr (), i2)
    \<and> initiatorAct3 toy_noise i2 = (Inr m3, i3) \<and> receiveAct3 toy_noise m3 r2 = (Inr (), r3)
    \<and> fst (conversation toy_noise [(True, [1]), (False, [2, 3])] (i3, r3)) = [Inr (Some [1]), Inr (Some [2, 3])]"
proof -
  obtain i r where n: "newNoiseState toy_noise [1] [2] = Inr i" "newNoiseState toy_noise [3] [4] = Inr r"
    by (simp add: newNoiseState_def toy_noise_def)
  have "\<forall>x\<in>set [(True, [1]), (False, [2, 3 :: byte])]. length (snd x) < 65536" by simp
  from noise_session [OF toy_laws n this] show ?thesis using n by auto
qed

section \<open>Messages that cross\<close>

lemma encrypt_rotating:
  assumes "noise_laws nc" "ns_sk a = Some k" "ns_ck a = Some ck" "ns_sn a = Some (nonce 998)" "length k = 32" "length m < 65536"
    "hkdf (nc_hmac nc) k 64 ck [] = Inr (k1 @ k2)" "length k1 = 32"
  shows "\<exists>l c. ccpEncrypt nc k (nonce 998) [] (be_bytes 2 (length m)) = Inr l \<and> ccpEncrypt nc k (nonce 999) [] m = Inr c
    \<and> encryptMessage nc m a = (Inr (l @ c), a\<lparr>ns_sk := Some k2, ns_ck := Some k1, ns_sn := Some (nonce 0)\<rparr>)"
proof -
  obtain l where l: "ccpEncrypt nc k (nonce 998) [] (be_bytes 2 (length m)) = Inr l"
    using ccp_roundtrip [OF assms(1,5), of "nonce 998"] by auto
  obtain c where c: "ccpEncrypt nc k (nonce 999) [] m = Inr c"
    using ccp_roundtrip [OF assms(1,5), of "nonce 999"] by auto
  have "nextSending nc a = (Inr (), a\<lparr>ns_sn := Some (nonce 999)\<rparr>)"
    using nextSending_eq [OF _ assms(2-4,7,8)] by simp
  moreover have "nextSending nc (a\<lparr>ns_sn := Some (nonce 999)\<rparr>)
      = (Inr (), a\<lparr>ns_sk := Some k2, ns_ck := Some k1, ns_sn := Some (nonce 0)\<rparr>)"
    using nextSending_eq [of 999 "a\<lparr>ns_sn := Some (nonce 999)\<rparr>" k ck nc k1 k2] assms(2,3,7,8) by simp
  ultimately show ?thesis using assms(2,4,6) l c by (simp add: encryptMessage_def sealNext_def io_simps)
qed

lemma decrypt_rotating:
  assumes "noise_laws nc" "ns_rk b = Some k" "ns_ck b = Some ck" "ns_rn b = Some (nonce 998)" "length k = 32" "length m < 65536"
    "hkdf (nc_hmac nc) k 64 ck [] = Inr (k1 @ k2)" "length k1 = 32"
    "ccpEncrypt nc k (nonce 998) [] (be_bytes 2 (length m)) = Inr l" "ccpEncrypt nc k (nonce 999) [] m = Inr c"
  shows "\<exists>b1. decryptLength nc (take 18 (l @ c)) b = (Inr (length m), b1)
    \<and> decryptMessage nc (drop 18 (l @ c)) b1 = (Inr (Some m), b\<lparr>ns_rk := Some k2, ns_ck := Some k1, ns_rn := Some (nonce 0)\<rparr>)"
proof -
  have l: "length l = 18" "ccpDecrypt nc k (nonce 998) [] l = Inr (Some (be_bytes 2 (length m)))"
    using ccp_roundtrip [OF assms(1,5), of "nonce 998" "[]" "be_bytes 2 (length m)"] assms(9) by auto
  have c: "ccpDecrypt nc k (nonce 999) [] c = Inr (Some m)"
    using ccp_roundtrip [OF assms(1,5), of "nonce 999" "[]" m] assms(10) by auto
  have 1: "nextRecieving nc b = (Inr (), b\<lparr>ns_rn := Some (nonce 999)\<rparr>)"
    using nextRecieving_eq [OF _ assms(2-4,7,8)] by simp
  have 2: "nextRecieving nc (b\<lparr>ns_rn := Some (nonce 999)\<rparr>)
      = (Inr (), b\<lparr>ns_rk := Some k2, ns_ck := Some k1, ns_rn := Some (nonce 0)\<rparr>)"
    using nextRecieving_eq [of 999 "b\<lparr>ns_rn := Some (nonce 999)\<rparr>" k ck nc k1 k2] assms(2,3,7,8) by simp
  show ?thesis using assms(2,4,6) l c 1 2
    by (intro exI [of _ "b\<lparr>ns_rn := Some (nonce 999)\<rparr>"]) (simp add: decryptLength_def decryptMessage_def openNext_def io_simps)
qed

text \<open>
  What a rotation makes of a chaining key and a key: the next chaining key and the next key.  The chaining key
  is the salt of HKDF.  Of HKDF it is assumed that it does not return its salt, and that two salts do
  not give the same key: no collision between the two salts that come up.
\<close>

definition rotation :: "noise_crypto \<Rightarrow> buffer \<Rightarrow> buffer \<Rightarrow> buffer \<times> buffer" where
  "rotation nc ck k = (case hkdf (nc_hmac nc) k 64 ck [] of Inr r \<Rightarrow> (take 32 r, drop 32 r) | Inl e \<Rightarrow> ([], []))"

definition no_collision :: "noise_crypto \<Rightarrow> buffer \<Rightarrow> buffer \<Rightarrow> buffer \<Rightarrow> bool" where
  "no_collision nc ck k l \<longleftrightarrow> fst (rotation nc ck k) \<noteq> ck \<and> inj_on (\<lambda>salt. snd (rotation nc salt l)) {ck, fst (rotation nc ck k)}"

lemma rotationI: "hkdf (nc_hmac nc) k 64 ck [] = Inr (k1 @ k2) \<Longrightarrow> length k1 = 32 \<Longrightarrow> rotation nc ck k = (k1, k2)"
  by (simp add: rotation_def)

text \<open>
  C11: The two directions share one chaining key. When both sides send their five-hundredth message
  before they receive that of the other, both messages arrive, but each side derives its next
  receiving key from another chaining key than the other used: unless HKDF has a collision there, the
  key with which either side sends from then on is not the one with which the other receives.  BOLT 8
  gives every direction a chaining key of its own.
\<close>

theorem crossing_rotation:
  assumes "noise_laws nc" "ns_sk a = Some k" "ns_rk b = Some k" "ns_sk b = Some l" "ns_rk a = Some l"
    and "ns_ck a = Some ck" "ns_ck b = Some ck" "length k = 32" "length l = 32"
    and "ns_sn a = Some (nonce 998)" "ns_rn a = Some (nonce 998)" "ns_sn b = Some (nonce 998)" "ns_rn b = Some (nonce 998)"
    and "length m < 65536" "length m' < 65536" "no_collision nc ck k l" "no_collision nc ck l k"
  shows "\<exists>c c' a1 b1 a2 b2 a3 b3.
      encryptMessage nc m a = (Inr c, a1) \<and> encryptMessage nc m' b = (Inr c', b1)
    \<and> decryptLength nc (take 18 c') a1 = (Inr (length m'), a2) \<and> decryptMessage nc (drop 18 c') a2 = (Inr (Some m'), a3)
    \<and> decryptLength nc (take 18 c) b1 = (Inr (length m), b2) \<and> decryptMessage nc (drop 18 c) b2 = (Inr (Some m), b3)
    \<and> ns_sk b3 = Some (snd (rotation nc ck l)) \<and> ns_rk a3 = Some (snd (rotation nc (fst (rotation nc ck k)) l))
    \<and> ns_sk a3 = Some (snd (rotation nc ck k)) \<and> ns_rk b3 = Some (snd (rotation nc (fst (rotation nc ck l)) k))
    \<and> ns_sk b3 \<noteq> ns_rk a3 \<and> ns_sk a3 \<noteq> ns_rk b3"
proof -
  obtain k1 k2 where k: "hkdf (nc_hmac nc) k 64 ck [] = Inr (k1 @ k2)" "length k1 = 32" using hkdf_64 [OF assms(1)] by blast
  obtain l1 l2 where l: "hkdf (nc_hmac nc) l 64 ck [] = Inr (l1 @ l2)" "length l1 = 32" using hkdf_64 [OF assms(1)] by blast
  obtain p1 p2 where p: "hkdf (nc_hmac nc) l 64 k1 [] = Inr (p1 @ p2)" "length p1 = 32" using hkdf_64 [OF assms(1)] by blast
  obtain q1 q2 where q: "hkdf (nc_hmac nc) k 64 l1 [] = Inr (q1 @ q2)" "length q1 = 32" using hkdf_64 [OF assms(1)] by blast
  let ?a = "a\<lparr>ns_sk := Some k2, ns_ck := Some k1, ns_sn := Some (nonce 0)\<rparr>"
  let ?b = "b\<lparr>ns_sk := Some l2, ns_ck := Some l1, ns_sn := Some (nonce 0)\<rparr>"
  obtain x y where a: "ccpEncrypt nc k (nonce 998) [] (be_bytes 2 (length m)) = Inr x" "ccpEncrypt nc k (nonce 999) [] m = Inr y"
    "encryptMessage nc m a = (Inr (x @ y), ?a)"
    using encrypt_rotating [OF assms(1,2,6,10,8,14) k] by blast
  obtain x' y' where b: "ccpEncrypt nc l (nonce 998) [] (be_bytes 2 (length m')) = Inr x'" "ccpEncrypt nc l (nonce 999) [] m' = Inr y'"
    "encryptMessage nc m' b = (Inr (x' @ y'), ?b)"
    using encrypt_rotating [OF assms(1,4,7,12,9,15) l] by blast
  obtain a2 where a2: "decryptLength nc (take 18 (x' @ y')) ?a = (Inr (length m'), a2)"
    "decryptMessage nc (drop 18 (x' @ y')) a2 = (Inr (Some m'), ?a\<lparr>ns_rk := Some p2, ns_ck := Some p1, ns_rn := Some (nonce 0)\<rparr>)"
    using decrypt_rotating [OF assms(1) _ _ _ assms(9,15) p b(1,2), of ?a] assms(5,11) by auto
  obtain b2 where b2: "decryptLength nc (take 18 (x @ y)) ?b = (Inr (length m), b2)"
    "decryptMessage nc (drop 18 (x @ y)) b2 = (Inr (Some m), ?b\<lparr>ns_rk := Some q2, ns_ck := Some q1, ns_rn := Some (nonce 0)\<rparr>)"
    using decrypt_rotating [OF assms(1) _ _ _ assms(8,14) q a(1,2), of ?b] assms(3,13) by auto
  note rot = rotationI [OF k] rotationI [OF l] rotationI [OF p] rotationI [OF q]
  have other: "l2 \<noteq> p2" "k2 \<noteq> q2" using assms(16,17) by (auto simp: no_collision_def rot)
  show ?thesis
    by (rule exI [of _ "x @ y"], rule exI [of _ "x' @ y'"], rule exI [of _ ?a], rule exI [of _ ?b], rule exI [of _ a2], rule exI [of _ b2])
      (use a(3) b(3) a2 b2 rot other in auto)
qed

definition toy_state :: "byte \<Rightarrow> byte \<Rightarrow> noise_state" where
  "toy_state k l = \<lparr>ns_ls = [], ns_lpk = [], ns_es = [], ns_epk = [], ns_rpk = None, ns_repk = None, ns_h = None,
     ns_ck = Some (replicate 32 3), ns_rk = Some (replicate 32 l), ns_sk = Some (replicate 32 k),
     ns_sn = Some (nonce 998), ns_rn = Some (nonce 998), ns_tempK1 = None, ns_tempK2 = None, ns_tempK3 = None\<rparr>"

lemma toy_no_collision: "no_collision toy_noise (replicate 32 3) (replicate 32 1) (replicate 32 2)"
  "no_collision toy_noise (replicate 32 3) (replicate 32 2) (replicate 32 1)"
proof -
  have r: "rotation toy_noise (replicate 32 3) (replicate 32 1) = (5 # replicate 31 4, 9 # replicate 31 8)"
    "rotation toy_noise (replicate 32 3) (replicate 32 2) = (6 # replicate 31 5, 11 # replicate 31 10)"
    "rotation toy_noise (5 # replicate 31 4) (replicate 32 2) = (8 # replicate 31 6, 15 # replicate 31 12)"
    "rotation toy_noise (6 # replicate 31 5) (replicate 32 1) = (8 # replicate 31 6, 15 # replicate 31 12)" by code_simp+
  have "5 # replicate 31 4 \<noteq> replicate 32 (3 :: byte)" "6 # replicate 31 5 \<noteq> replicate 32 (3 :: byte)" by code_simp+
  then show "no_collision toy_noise (replicate 32 3) (replicate 32 1) (replicate 32 2)"
    "no_collision toy_noise (replicate 32 3) (replicate 32 2) (replicate 32 1)" by (simp_all add: no_collision_def r)
qed

theorem crossing_rotation_witness:
  "\<exists>c c' a1 b1 a2 b2 a3 b3. encryptMessage toy_noise [7] (toy_state 1 2) = (Inr c, a1)
    \<and> encryptMessage toy_noise [8] (toy_state 2 1) = (Inr c', b1)
    \<and> decryptLength toy_noise (take 18 c') a1 = (Inr 1, a2) \<and> decryptMessage toy_noise (drop 18 c') a2 = (Inr (Some [8]), a3)
    \<and> decryptLength toy_noise (take 18 c) b1 = (Inr 1, b2) \<and> decryptMessage toy_noise (drop 18 c) b2 = (Inr (Some [7]), b3)
    \<and> ns_sk b3 \<noteq> ns_rk a3 \<and> ns_sk a3 \<noteq> ns_rk b3"
proof -
  have s: "ns_sk (toy_state x y) = Some (replicate 32 x)" "ns_rk (toy_state x y) = Some (replicate 32 y)"
    "ns_ck (toy_state x y) = Some (replicate 32 3)" "ns_sn (toy_state x y) = Some (nonce 998)"
    "ns_rn (toy_state x y) = Some (nonce 998)" for x y by (simp_all add: toy_state_def)
  have l: "length (replicate 32 x) = 32" "length [x] < 65536" for x :: byte by simp_all
  from crossing_rotation [OF toy_laws s(1) s(2) s(1) s(2) s(3) s(3) l(1) l(1) s(4) s(5) s(4) s(5) l(2) l(2) toy_no_collision, of 7 8]
  show ?thesis by fastforce
qed

end
