(* ===== verification/NoiseSocket.thy ===== *)
theory NoiseSocket
  imports NoiseFacts
begin

text \<open>
  \<^verbatim>\<open>packages/noise/lib/noise-socket.ts\<close>: the states of the handshake and of reading, the
  processing of received data, and the back pressure of the consumer.  Of the wrapped socket the
  model keeps the bytes received but not read, those written, and the error it was destroyed with;
  of the stream it keeps the messages that the consumer has not taken.  Writing and emitting events
  do nothing else.
\<close>

datatype HANDSHAKE_STATE =
    INITIATOR_INITIATING | AWAITING_INITIATOR | AWAITING_RESPONDER_REPLY | AWAITING_INITIATOR_REPLY | READY

datatype READ_STATE = READY_FOR_LEN | READY_FOR_BODY | BLOCKED

record noise_socket =
  sk_rpk :: "buffer option"
  sk_initiator :: bool
  sk_messagesReceived :: nat
  sk_handshakeState :: HANDSHAKE_STATE
  sk_readState :: READ_STATE
  sk_noiseState :: noise_state
  sk_l :: "nat option"
  sk_highWaterMark :: nat
  sk_readable :: "buffer list"
  sk_received :: buffer
  sk_written :: buffer
  sk_emitted :: "string list"
  sk_destroyed :: "exn option"

definition newNoiseSocket :: "noise_state \<Rightarrow> buffer option \<Rightarrow> nat \<Rightarrow> noise_socket" where
  "newNoiseSocket noiseState rpk highWaterMark =
     \<lparr>sk_rpk = rpk, sk_initiator = (rpk \<noteq> None), sk_messagesReceived = 0,
      sk_handshakeState = (if rpk \<noteq> None then INITIATOR_INITIATING else AWAITING_INITIATOR),
      sk_readState = READY_FOR_LEN, sk_noiseState = noiseState, sk_l = None,
      sk_highWaterMark = highWaterMark, sk_readable = [], sk_received = [], sk_written = [],
      sk_emitted = [], sk_destroyed = None\<rparr>"

section \<open>The socket and the noise state\<close>

definition on_noise :: "(noise_state, 'a) io \<Rightarrow> (noise_socket, 'a) io" where
  "on_noise m = (\<lambda>s. case m (sk_noiseState s) of (r, n) \<Rightarrow> (r, s\<lparr>sk_noiseState := n\<rparr>))"

text \<open>Reading gives all the bytes asked for, or none while there are fewer.\<close>

definition socket_read :: "nat \<Rightarrow> (noise_socket, buffer option) io" where
  "socket_read n = (\<lambda>s. if length (sk_received s) < n then (Inr None, s)
     else (Inr (Some (take n (sk_received s))), s\<lparr>sk_received := drop n (sk_received s)\<rparr>))"

definition socket_write :: "buffer \<Rightarrow> (noise_socket, unit) io" where
  "socket_write m = update_io (\<lambda>s. s\<lparr>sk_written := sk_written s @ m\<rparr>)"

definition sk_emit :: "string \<Rightarrow> (noise_socket, unit) io" where
  "sk_emit name = update_io (\<lambda>s. s\<lparr>sk_emitted := sk_emitted s @ [name]\<rparr>)"

text \<open>The stream takes every message, and tells whether it wants more.\<close>

definition sk_push :: "buffer \<Rightarrow> (noise_socket, bool) io" where
  "sk_push m = (\<lambda>s. (Inr (length (sk_readable s) + 1 < sk_highWaterMark s), s\<lparr>sk_readable := sk_readable s @ [m]\<rparr>))"

definition set_handshake :: "HANDSHAKE_STATE \<Rightarrow> (noise_socket, unit) io" where
  "set_handshake h = update_io (\<lambda>s. s\<lparr>sk_handshakeState := h\<rparr>)"

lemma socket_simps [io_simps]:
  "on_noise m s = (case m (sk_noiseState s) of (r, n) \<Rightarrow> (r, s\<lparr>sk_noiseState := n\<rparr>))"
  "socket_read n s = (if length (sk_received s) < n then (Inr None, s)
     else (Inr (Some (take n (sk_received s))), s\<lparr>sk_received := drop n (sk_received s)\<rparr>))"
  "socket_write m' s = (Inr (), s\<lparr>sk_written := sk_written s @ m'\<rparr>)"
  "sk_emit name s = (Inr (), s\<lparr>sk_emitted := sk_emitted s @ [name]\<rparr>)"
  "sk_push m' s = (Inr (length (sk_readable s) + 1 < sk_highWaterMark s), s\<lparr>sk_readable := sk_readable s @ [m']\<rparr>)"
  "set_handshake h s = (Inr (), s\<lparr>sk_handshakeState := h\<rparr>)"
  by (simp_all add: on_noise_def socket_read_def socket_write_def sk_emit_def sk_push_def set_handshake_def update_io_def)

section \<open>The handshake\<close>

definition initiateHandshake :: "noise_crypto \<Rightarrow> (noise_socket, unit) io" where
  "initiateHandshake nc =
     bind_io (get_defined sk_rpk) (\<lambda>rpk.
     bind_io (on_noise (initiatorAct1 nc rpk)) (\<lambda>m.
     then_io (socket_write m) (set_handshake AWAITING_RESPONDER_REPLY)))"

definition processInitiator :: "noise_crypto \<Rightarrow> (noise_socket, bool) io" where
  "processInitiator nc =
     bind_io (socket_read 50) (\<lambda>m. case m of None \<Rightarrow> return_io False
     | Some m \<Rightarrow>
         then_io (on_noise (receiveAct1 nc m))
        (bind_io (on_noise (recieveAct2 nc)) (\<lambda>reply.
         then_io (socket_write reply)
        (then_io (set_handshake AWAITING_INITIATOR_REPLY) (return_io True)))))"

definition processInitiatorReply :: "noise_crypto \<Rightarrow> (noise_socket, bool) io" where
  "processInitiatorReply nc =
     bind_io (socket_read 66) (\<lambda>m. case m of None \<Rightarrow> return_io False
     | Some m \<Rightarrow>
         then_io (on_noise (receiveAct3 nc m))
        (then_io (set_handshake READY)
        (then_io (update_io (\<lambda>s. s\<lparr>sk_rpk := ns_rpk (sk_noiseState s)\<rparr>))
        (then_io (sk_emit ''connect'') (then_io (sk_emit ''ready'') (return_io True))))))"

definition processResponderReply :: "noise_crypto \<Rightarrow> (noise_socket, bool) io" where
  "processResponderReply nc =
     bind_io (socket_read 50) (\<lambda>m. case m of None \<Rightarrow> return_io False
     | Some m \<Rightarrow>
         then_io (on_noise (initiatorAct2 nc m))
        (bind_io (on_noise (initiatorAct3 nc)) (\<lambda>reply.
         then_io (socket_write reply)
        (then_io (set_handshake READY)
        (then_io (sk_emit ''connect'') (then_io (sk_emit ''ready'') (return_io True)))))))"

section \<open>Packets\<close>

definition processPacketLength :: "noise_crypto \<Rightarrow> (noise_socket, bool) io" where
  "processPacketLength nc =
     bind_io (socket_read (2 + 16)) (\<lambda>lc. case lc of None \<Rightarrow> return_io False
     | Some lc \<Rightarrow>
         bind_io (on_noise (decryptLength nc lc)) (\<lambda>l.
         then_io (update_io (\<lambda>s. s\<lparr>sk_l := Some l\<rparr>))
        (then_io (update_io (\<lambda>s. s\<lparr>sk_readState := READY_FOR_BODY\<rparr>)) (return_io True))))"

text \<open>
  The length is stored whenever the body is awaited, and a body has at least the 16 bytes of its tag,
  so that it is decrypted to something.
\<close>

definition processPacketBody :: "noise_crypto \<Rightarrow> (noise_socket, bool) io" where
  "processPacketBody nc =
     bind_io (get_defined sk_l) (\<lambda>l.
     bind_io (socket_read (l + 16)) (\<lambda>c. case c of None \<Rightarrow> return_io False
     | Some c \<Rightarrow>
         bind_io (on_noise (decryptMessage nc c)) (\<lambda>m.
         then_io (update_io (\<lambda>s. s\<lparr>sk_l := None, sk_messagesReceived := sk_messagesReceived s + 1\<rparr>))
        (bind_io (case m of None \<Rightarrow> throw_io TypeError | Some m \<Rightarrow> sk_push m) (\<lambda>pushOk.
         if pushOk then then_io (update_io (\<lambda>s. s\<lparr>sk_readState := READY_FOR_LEN\<rparr>)) (return_io True)
         else then_io (update_io (\<lambda>s. s\<lparr>sk_readState := BLOCKED\<rparr>)) (return_io False))))))"

text \<open>One turn of the loop of \<^verbatim>\<open>_onData\<close>.\<close>

definition processStep :: "noise_crypto \<Rightarrow> (noise_socket, bool) io" where
  "processStep nc = (\<lambda>s.
     (if sk_handshakeState s \<noteq> READY
      then (case sk_handshakeState s of
          INITIATOR_INITIATING \<Rightarrow> throw_io (JsError ''Pending state is invalid'')
        | AWAITING_INITIATOR \<Rightarrow> processInitiator nc
        | AWAITING_INITIATOR_REPLY \<Rightarrow> processInitiatorReply nc
        | _ \<Rightarrow> processResponderReply nc)
      else (case sk_readState s of
          READY_FOR_LEN \<Rightarrow> processPacketLength nc
        | READY_FOR_BODY \<Rightarrow> processPacketBody nc
        | BLOCKED \<Rightarrow> return_io False)) s)"

text \<open>A turn that asks for another one has taken some bytes.\<close>

lemma processStep_shrinks:
  "processStep nc s = (Inr True, s') \<Longrightarrow> length (sk_received s') < length (sk_received s)"
  by (auto simp: processStep_def processInitiator_def processInitiatorReply_def processResponderReply_def
      processPacketLength_def processPacketBody_def io_simps
      split: if_splits HANDSHAKE_STATE.splits READ_STATE.splits prod.splits sum.splits option.splits)

definition sk_destroy :: "exn \<Rightarrow> noise_socket \<Rightarrow> noise_socket" where
  "sk_destroy e s = s\<lparr>sk_destroyed := Some e\<rparr>"

text \<open>The loop; a destroyed socket has no data events.\<close>

function onDataLoop :: "noise_crypto \<Rightarrow> noise_socket \<Rightarrow> noise_socket" where
  "onDataLoop nc s = (case processStep nc s of
     (Inl e, s') \<Rightarrow> sk_destroy e s'
   | (Inr readMore, s') \<Rightarrow> if readMore then onDataLoop nc s' else s')"
  by pat_completeness auto
termination
  by (relation "measure (\<lambda>(nc, s). length (sk_received s))") (auto intro: processStep_shrinks [OF sym])

declare onDataLoop.simps [simp del]

definition onData :: "noise_crypto \<Rightarrow> noise_socket \<Rightarrow> noise_socket" where
  "onData nc s = (if sk_destroyed s \<noteq> None then s else onDataLoop nc s)"

definition onConnected :: "noise_crypto \<Rightarrow> noise_socket \<Rightarrow> noise_socket" where
  "onConnected nc s = (if sk_initiator s
     then (case initiateHandshake nc s of (Inl e, s') \<Rightarrow> sk_destroy e s' | (Inr _, s') \<Rightarrow> s') else s)"

text \<open>New bytes arrive, which is an event of the wrapped socket.\<close>

definition feed :: "noise_crypto \<Rightarrow> buffer \<Rightarrow> noise_socket \<Rightarrow> noise_socket" where
  "feed nc bs s = onData nc (s\<lparr>sk_received := sk_received s @ bs\<rparr>)"

text \<open>The consumer asks for more; the data are looked at in a later turn of the event loop.\<close>

definition sk_read :: "noise_crypto \<Rightarrow> noise_socket \<Rightarrow> noise_socket" where
  "sk_read nc s = (if sk_handshakeState s \<noteq> READY then s
     else onData nc (if sk_readState s = BLOCKED then s\<lparr>sk_readState := READY_FOR_LEN\<rparr> else s))"

definition sk_write :: "noise_crypto \<Rightarrow> buffer \<Rightarrow> (noise_socket, unit) io" where
  "sk_write nc data = bind_io (on_noise (encryptMessage nc data)) (\<lambda>c. socket_write c)"

section \<open>The chunks in which data arrive\<close>

definition more :: "buffer \<Rightarrow> noise_socket \<Rightarrow> noise_socket" where
  "more bs s = s\<lparr>sk_received := sk_received s @ bs\<rparr>"

lemma more_simps [simp]:
  "sk_handshakeState (more bs s) = sk_handshakeState s" "sk_readState (more bs s) = sk_readState s"
  "sk_destroyed (more bs s) = sk_destroyed s" "sk_l (more bs s) = sk_l s"
  "sk_received (more bs s) = sk_received s @ bs" "sk_noiseState (more bs s) = sk_noiseState s"
  "more bs (more cs s) = more (cs @ bs) s" "more [] s = s"
  by (simp_all add: more_def)

text \<open>An operation that does not look at the received bytes.\<close>

definition ignoring :: "(noise_socket, 'a) io \<Rightarrow> bool" where
  "ignoring m \<longleftrightarrow> (\<forall>bs s. m (more bs s) = (case m s of (r, s') \<Rightarrow> (r, more bs s')))"

named_theorems ignoring_intro \<open>composition rules for operations that do not look at the received bytes\<close>

lemma ignoringD: "ignoring m \<Longrightarrow> m s = (r, s') \<Longrightarrow> m (more bs s) = (r, more bs s')"
  by (simp add: ignoring_def)

lemma ignoring_basic [ignoring_intro]:
  "ignoring (return_io x)" "ignoring (throw_io e)" "ignoring (lift_io res)"
  by (simp_all add: ignoring_def io_simps)

lemma ignoring_on_noise [ignoring_intro]: "ignoring (on_noise m)"
  by (simp add: ignoring_def io_simps more_def split: prod.split)

lemma ignoring_update [ignoring_intro]: "(\<And>bs s. f (more bs s) = more bs (f s)) \<Longrightarrow> ignoring (update_io f)"
  by (simp add: ignoring_def io_simps)

lemma ignoring_push [ignoring_intro]: "ignoring (sk_push m)"
  by (simp add: ignoring_def io_simps more_def)

lemma ignoring_socket [ignoring_intro]: "ignoring (socket_write m)" "ignoring (sk_emit name)" "ignoring (set_handshake h)"
  by (simp_all add: ignoring_def io_simps more_def)

lemma ignoring_bind [ignoring_intro]:
  assumes "ignoring m" "\<And>x. ignoring (f x)"
  shows "ignoring (bind_io m f)"
  unfolding ignoring_def
proof (intro allI)
  fix bs s
  obtain r s' where m: "m s = (r, s')" by fastforce
  note m' = ignoringD [OF assms(1) m, of bs]
  show "bind_io m f (more bs s) = (case bind_io m f s of (r, s') \<Rightarrow> (r, more bs s'))"
  proof (cases r)
    case (Inl e)
    then show ?thesis using m m' by (simp add: io_simps)
  next
    case (Inr x)
    obtain q t where f: "f x s' = (q, t)" by fastforce
    then show ?thesis using m m' Inr ignoringD [OF assms(2) f, of bs] by (simp add: io_simps)
  qed
qed

lemma ignoring_then [ignoring_intro]: "ignoring m \<Longrightarrow> ignoring n \<Longrightarrow> ignoring (then_io m n)"
  unfolding then_io_def by (rule ignoring_bind)

lemma ignoring_if [ignoring_intro]: "ignoring m \<Longrightarrow> ignoring n \<Longrightarrow> ignoring (if b then m else n)"
  by simp

lemma ignoring_option [ignoring_intro]:
  "ignoring m \<Longrightarrow> (\<And>x. ignoring (f x)) \<Longrightarrow> ignoring (case v of None \<Rightarrow> m | Some x \<Rightarrow> f x)"
  by (cases v) simp_all

text \<open>A turn that does not wait for data does the same when there are more.\<close>

lemma read_more:
  assumes "\<And>x. ignoring (f x)" "bind_io (socket_read n) (\<lambda>m. case m of None \<Rightarrow> return_io False | Some x \<Rightarrow> f x) s = (r, s')"
    "r \<noteq> Inr False \<or> s' \<noteq> s"
  shows "bind_io (socket_read n) (\<lambda>m. case m of None \<Rightarrow> return_io False | Some x \<Rightarrow> f x) (more bs s) = (r, more bs s')"
proof -
  have l: "n \<le> length (sk_received s)" using assms(2,3) by (auto simp: io_simps split: if_splits)
  let ?s = "s\<lparr>sk_received := drop n (sk_received s)\<rparr>"
  have "f (take n (sk_received s)) ?s = (r, s')" using assms(2) l by (simp add: io_simps)
  from ignoringD [OF assms(1) this, of bs] show ?thesis using l by (simp add: io_simps more_def)
qed

lemmas process_defs = processInitiator_def processInitiatorReply_def processResponderReply_def processPacketLength_def

lemma process_more:
  "processInitiator nc s = (r, s') \<Longrightarrow> r \<noteq> Inr False \<or> s' \<noteq> s \<Longrightarrow> processInitiator nc (more bs s) = (r, more bs s')"
  "processInitiatorReply nc s = (r, s') \<Longrightarrow> r \<noteq> Inr False \<or> s' \<noteq> s \<Longrightarrow> processInitiatorReply nc (more bs s) = (r, more bs s')"
  "processResponderReply nc s = (r, s') \<Longrightarrow> r \<noteq> Inr False \<or> s' \<noteq> s \<Longrightarrow> processResponderReply nc (more bs s) = (r, more bs s')"
  "processPacketLength nc s = (r, s') \<Longrightarrow> r \<noteq> Inr False \<or> s' \<noteq> s \<Longrightarrow> processPacketLength nc (more bs s) = (r, more bs s')"
  unfolding process_defs
  by (rule read_more; (intro ignoring_intro)?; simp add: more_def)+

lemma processPacketBody_more:
  assumes "processPacketBody nc s = (r, s')" "r \<noteq> Inr False \<or> s' \<noteq> s"
  shows "processPacketBody nc (more bs s) = (r, more bs s')"
proof (cases "sk_l s")
  case None
  then show ?thesis using assms by (auto simp: processPacketBody_def io_simps)
next
  case (Some l)
  let ?read = "bind_io (socket_read (l + 16)) (\<lambda>c. case c of None \<Rightarrow> return_io False
     | Some c \<Rightarrow>
         bind_io (on_noise (decryptMessage nc c)) (\<lambda>m.
         then_io (update_io (\<lambda>s. s\<lparr>sk_l := None, sk_messagesReceived := sk_messagesReceived s + 1\<rparr>))
        (bind_io (case m of None \<Rightarrow> throw_io TypeError | Some m \<Rightarrow> sk_push m) (\<lambda>pushOk.
         if pushOk then then_io (update_io (\<lambda>s. s\<lparr>sk_readState := READY_FOR_LEN\<rparr>)) (return_io True)
         else then_io (update_io (\<lambda>s. s\<lparr>sk_readState := BLOCKED\<rparr>)) (return_io False)))))"
  have body: "processPacketBody nc t = ?read t" if "sk_l t = Some l" for t
    using that by (simp add: processPacketBody_def io_simps(5) get_defined_def bind_io_def)
  have "?read s = (r, s')" using assms(1) body [OF Some] by simp
  then have "?read (more bs s) = (r, more bs s')"
    by (rule read_more [rotated]) (use assms(2) in \<open>(intro ignoring_intro | simp add: more_def)+\<close>)
  then show ?thesis using body [of "more bs s"] Some by simp
qed

lemma processStep_more:
  assumes "processStep nc s = (r, s')" "r \<noteq> Inr False \<or> s' \<noteq> s"
  shows "processStep nc (more bs s) = (r, more bs s')"
  using assms processPacketBody_more [of nc s r s' bs] process_more [of nc s r s' bs]
  unfolding processStep_def more_simps
  by (cases "sk_handshakeState s"; cases "sk_readState s") (auto simp: io_simps)

text \<open>A turn that ends the loop has waited for data, or left the reading blocked.\<close>

lemma process_waits:
  "processInitiator nc s = (Inr False, s') \<Longrightarrow> s' = s"
  "processInitiatorReply nc s = (Inr False, s') \<Longrightarrow> s' = s"
  "processResponderReply nc s = (Inr False, s') \<Longrightarrow> s' = s"
  "processPacketLength nc s = (Inr False, s') \<Longrightarrow> s' = s"
  unfolding process_defs by (auto simp: io_simps split: if_splits prod.splits sum.splits)

lemma processPacketBody_waits:
  "processPacketBody nc s = (Inr False, s') \<Longrightarrow> s' = s \<or> sk_readState s' = BLOCKED \<and> sk_handshakeState s' = sk_handshakeState s"
  unfolding processPacketBody_def by (auto simp: io_simps split: if_splits prod.splits sum.splits option.splits)

lemma processStep_waits:
  assumes "processStep nc s = (Inr False, s')" "s' \<noteq> s"
  shows "processStep nc (more bs s') = (Inr False, more bs s')"
proof -
  have "sk_handshakeState s = READY \<and> sk_readState s' = BLOCKED \<and> sk_handshakeState s' = READY"
    using assms processPacketBody_waits [of nc s s'] process_waits [of nc s s'] unfolding processStep_def
    by (cases "sk_handshakeState s"; cases "sk_readState s") (auto simp: io_simps)
  then show ?thesis by (simp add: processStep_def io_simps)
qed

lemma preserves_on_noise [preserves_intro]:
  "(\<And>s n. g (s\<lparr>sk_noiseState := n\<rparr>) = g s) \<Longrightarrow> preserves g (on_noise m)"
  by (simp add: preserves_def on_noise_def split: prod.split)

lemma preserves_socket_read [preserves_intro]:
  "(\<And>s bs. g (s\<lparr>sk_received := bs\<rparr>) = g s) \<Longrightarrow> preserves g (socket_read n)"
  by (simp add: preserves_def socket_read_def)

lemma preserves_push [preserves_intro]:
  "(\<And>s ms. g (s\<lparr>sk_readable := ms\<rparr>) = g s) \<Longrightarrow> preserves g (sk_push m)"
  by (simp add: preserves_def sk_push_def)

lemma process_keeps_destroyed:
  "preserves sk_destroyed (processInitiator nc)" "preserves sk_destroyed (processInitiatorReply nc)"
  "preserves sk_destroyed (processResponderReply nc)" "preserves sk_destroyed (processPacketLength nc)"
  "preserves sk_destroyed (processPacketBody nc)"
  unfolding process_defs processPacketBody_def socket_write_def sk_emit_def set_handshake_def
  by (intro preserves_intro; simp)+

lemma processStep_keeps_destroyed: "processStep nc s = (r, s') \<Longrightarrow> sk_destroyed s' = sk_destroyed s"
  using process_keeps_destroyed [THEN preservesD] unfolding processStep_def
  by (cases "sk_handshakeState s"; cases "sk_readState s") (auto simp: io_simps)

lemma onDataLoop_more:
  "sk_destroyed s = None \<Longrightarrow> onData nc (more bs (onDataLoop nc s)) = onDataLoop nc (more bs s)"
proof (induction nc s rule: onDataLoop.induct)
  case (1 nc s)
  obtain r s' where p: "processStep nc s = (r, s')" by fastforce
  have d: "sk_destroyed s' = None" using processStep_keeps_destroyed [OF p] "1.prems" by simp
  note loop = onDataLoop.simps [of nc s] and loop' = onDataLoop.simps [of nc "more bs s"]
  consider e where "r = Inl e" | "r = Inr True" | "r = Inr False" "s' = s" | "r = Inr False" "s' \<noteq> s"
    by (cases r) auto
  then show ?case
  proof cases
    case 1
    then show ?thesis using loop loop' p processStep_more [OF p, of bs]
      by (simp add: onData_def sk_destroy_def more_def)
  next
    case 2
    have "onData nc (more bs (onDataLoop nc s')) = onDataLoop nc (more bs s')" by (rule "1.IH") (use p 2 d in auto)
    then show ?thesis using loop loop' p processStep_more [OF p, of bs] 2 by simp
  next
    case 3
    then show ?thesis using loop p "1.prems" by (simp add: onData_def)
  next
    case 4
    have l: "onDataLoop nc s = s'" using loop p 4 by simp
    have "onDataLoop nc (more bs s') = more bs s'"
      using onDataLoop.simps [of nc "more bs s'"] processStep_waits [OF p [unfolded 4] 4(2)] by simp
    then show ?thesis using l loop' p processStep_more [OF p, of bs] 4 d by (simp add: onData_def)
  qed
qed

lemma onData_more: "onData nc (more bs (onData nc s)) = onData nc (more bs s)"
  using onDataLoop_more [of s nc bs] by (cases "sk_destroyed s") (simp_all add: onData_def)

lemma feed_more: "feed nc bs s = onData nc (more bs s)"
  by (simp add: feed_def more_def)

lemma feed_append: "feed nc ys (feed nc xs s) = feed nc (xs @ ys) s"
  using onData_more [of nc ys "more xs s"] by (simp add: feed_more)

lemma feed_chunks: "chunks \<noteq> [] \<Longrightarrow> foldl (\<lambda>s bs. feed nc bs s) s chunks = feed nc (concat chunks) s"
proof (induction chunks arbitrary: s rule: rev_nonempty_induct)
  case (snoc x xs)
  then show ?case by (simp add: feed_append)
qed simp

section \<open>A stream of messages\<close>

definition listening :: "noise_socket \<Rightarrow> bool" where
  "listening s \<longleftrightarrow> sk_handshakeState s = READY \<and> sk_readState s = READY_FOR_LEN \<and> sk_received s = [] \<and> sk_destroyed s = None"

lemma write_step:
  assumes "noise_laws nc" "joined (sk_noiseState p) (sk_noiseState q)" "listening q" "length m < 65536"
    "length (sk_readable q) + 1 < sk_highWaterMark q"
  shows "\<exists>c a b q'. sk_write nc m p = (Inr (), p\<lparr>sk_noiseState := a, sk_written := sk_written p @ c\<rparr>)
    \<and> (\<forall>rest. onDataLoop nc (more (c @ rest) q) = onDataLoop nc (more rest q')) \<and> sk_noiseState q' = b \<and> joined a b
    \<and> listening q' \<and> sk_readable q' = sk_readable q @ [m] \<and> sk_highWaterMark q' = sk_highWaterMark q
    \<and> sk_messagesReceived q' = sk_messagesReceived q + 1"
proof -
  obtain c a b1 b where c: "encryptMessage nc m (sk_noiseState p) = (Inr c, a)" "length c = length m + 34"
    "decryptLength nc (take 18 c) (sk_noiseState q) = (Inr (length m), b1)"
    "decryptMessage nc (drop 18 c) b1 = (Inr (Some m), b)" "joined a b"
    using message_step [OF assms(1,2,4)] by blast
  let ?q' = "q\<lparr>sk_noiseState := b, sk_l := None, sk_messagesReceived := sk_messagesReceived q + 1,
    sk_readable := sk_readable q @ [m]\<rparr>"
  have q: "sk_handshakeState q = READY" "sk_readState q = READY_FOR_LEN" "sk_received q = []" "sk_destroyed q = None"
    using assms(3) by (simp_all add: listening_def)
  have "onDataLoop nc (more (c @ rest) q) = onDataLoop nc (more rest ?q')" for rest
  proof -
    let ?q1 = "q\<lparr>sk_noiseState := b1, sk_l := Some (length m), sk_readState := READY_FOR_BODY, sk_received := drop 18 c @ rest\<rparr>"
    have s1: "processStep nc (more (c @ rest) q) = (Inr True, ?q1)"
      using q c(2,3) by (simp add: processStep_def processPacketLength_def io_simps more_def)
    have "take (length m + 16) (drop 18 c @ rest) = drop 18 c" "drop (length m + 16) (drop 18 c @ rest) = rest"
      using c(2) by simp_all
    then have s2: "processStep nc ?q1 = (Inr True, more rest ?q')"
      using q c(2,4) assms(5) by (simp add: processStep_def processPacketBody_def io_simps more_def)
    show ?thesis using onDataLoop.simps [of nc "more (c @ rest) q"] onDataLoop.simps [of nc ?q1] s1 s2 by simp
  qed
  moreover have "sk_write nc m p = (Inr (), p\<lparr>sk_noiseState := a, sk_written := sk_written p @ c\<rparr>)"
    using c(1) by (simp add: sk_write_def io_simps)
  moreover have "listening ?q'" using q by (simp add: listening_def)
  ultimately show ?thesis using c(5)
    by (intro exI [of _ c] exI [of _ a] exI [of _ b] exI [of _ ?q']) simp
qed

lemma write_all:
  assumes "noise_laws nc" "joined (sk_noiseState p) (sk_noiseState q)" "listening q" "\<forall>m\<in>set ms. length m < 65536"
    "length (sk_readable q) + length ms < sk_highWaterMark q"
  shows "\<exists>bytes p' q'. each_io (sk_write nc) ms p = (Inr (), p') \<and> sk_written p' = sk_written p @ bytes
    \<and> feed nc bytes q = q' \<and> joined (sk_noiseState p') (sk_noiseState q') \<and> listening q' \<and> sk_readable q' = sk_readable q @ ms
    \<and> sk_messagesReceived q' = sk_messagesReceived q + length ms"
  using assms(2-5)
proof (induction ms arbitrary: p q)
  case Nil
  have "processStep nc q = (Inr False, q)"
    using Nil.prems(2) by (simp add: listening_def processStep_def processPacketLength_def io_simps)
  then have "feed nc [] q = q" using onDataLoop.simps [of nc q] Nil.prems(2) by (simp add: feed_more onData_def listening_def)
  then show ?case using Nil.prems by (auto simp: io_simps)
next
  case (Cons m ms)
  obtain c a q1 where 1: "sk_write nc m p = (Inr (), p\<lparr>sk_noiseState := a, sk_written := sk_written p @ c\<rparr>)"
    "\<And>rest. onDataLoop nc (more (c @ rest) q) = onDataLoop nc (more rest q1)" "joined a (sk_noiseState q1)" "listening q1"
    "sk_readable q1 = sk_readable q @ [m]" "sk_highWaterMark q1 = sk_highWaterMark q"
    "sk_messagesReceived q1 = sk_messagesReceived q + 1"
    using write_step [OF assms(1) Cons.prems(1,2), of m] Cons.prems(3,4) by auto
  let ?p = "p\<lparr>sk_noiseState := a, sk_written := sk_written p @ c\<rparr>"
  obtain bytes p' q' where 2: "each_io (sk_write nc) ms ?p = (Inr (), p')" "sk_written p' = (sk_written p @ c) @ bytes"
    "feed nc bytes q1 = q'" "joined (sk_noiseState p') (sk_noiseState q')" "listening q'"
    "sk_readable q' = sk_readable q1 @ ms" "sk_messagesReceived q' = sk_messagesReceived q1 + length ms"
    using Cons.IH [of ?p q1] 1 Cons.prems(3,4) by auto
  have "feed nc (c @ bytes) q = feed nc bytes q1"
    using 1(2) [of bytes] Cons.prems(2) 1(4) by (simp add: feed_more onData_def listening_def)
  then show ?case using 1 2 by (intro exI [of _ "c @ bytes"] exI [of _ p'] exI [of _ q']) (simp add: io_simps)
qed

section \<open>From the connection to the messages\<close>

text \<open>
  C10: How the network cuts the byte stream does not matter: data that arrive in several pieces leave
  the socket in the state in which it would be had they arrived at once, in every state of the
  handshake and of reading, blocked or destroyed.
\<close>

theorem chunks_do_not_matter:
  assumes "chunks \<noteq> []"
  shows "foldl (\<lambda>s bs. feed nc bs s) s chunks = feed nc (concat chunks) s"
  by (rule feed_chunks [OF assms])

theorem chunks_do_not_matter_witness:
  "foldl (\<lambda>s bs. feed toy_noise bs s) (newNoiseSocket (toy_state 1 2) None 2048) [[0], [], [1, 2]]
    = feed toy_noise [0, 1, 2] (newNoiseSocket (toy_state 1 2) None 2048)"
  by (subst chunks_do_not_matter) simp_all

text \<open>Waiting sockets, and a turn that succeeds.\<close>

lemma feed_step:
  assumes "sk_destroyed s = None" "processStep nc (more bs s) = (Inr True, s')" "processStep nc s' = (Inr False, s')"
  shows "feed nc bs s = s'"
  using assms onDataLoop.simps [of nc "more bs s"] onDataLoop.simps [of nc s'] by (simp add: feed_more onData_def)

lemma connect_acts:
  assumes "noise_laws nc" "newNoiseState nc ls es = Inr ni" "newNoiseState nc ls' es' = Inr nr"
  shows "\<exists>i1 r1 i2 r2. i1 = onConnected nc (newNoiseSocket ni (Some (ns_lpk nr)) hwm)
    \<and> r1 = feed nc (sk_written i1) (newNoiseSocket nr None hwm) \<and> i2 = feed nc (sk_written r1) i1
    \<and> r2 = feed nc (drop 50 (sk_written i2)) r1 \<and> joined (sk_noiseState i2) (sk_noiseState r2)
    \<and> listening i2 \<and> listening r2 \<and> sk_rpk r2 = Some (ns_lpk ni) \<and> sk_rpk i2 = Some (ns_lpk nr) \<and> length (sk_written i2) = 116
    \<and> sk_readable r2 = [] \<and> sk_highWaterMark r2 = hwm \<and> sk_readable i2 = [] \<and> sk_highWaterMark i2 = hwm"
proof -
  have keys: "ns_keys nc ni" "ns_keys nc nr"
    using assms(2,3) by (auto simp: newNoiseState_def ns_keys_def bind_res_eq_Inr)
  let ?i = "newNoiseSocket ni (Some (ns_lpk nr)) hwm" and ?r = "newNoiseSocket nr None hwm"
  obtain m1 h ck k where 1: "length m1 = 50" "initiatorAct1 nc (ns_lpk nr) ni = (Inr m1, ni\<lparr>ns_rpk := Some (ns_lpk nr), ns_h := Some h, ns_ck := Some ck, ns_tempK1 := Some k\<rparr>)"
    "receiveAct1 nc m1 nr = (Inr (), nr\<lparr>ns_repk := Some (ns_epk ni), ns_h := Some h, ns_ck := Some ck, ns_tempK1 := Some k\<rparr>)"
    using act1 [OF assms(1) keys] by auto
  let ?n1 = "ni\<lparr>ns_rpk := Some (ns_lpk nr), ns_h := Some h, ns_ck := Some ck, ns_tempK1 := Some k\<rparr>"
  let ?o1 = "nr\<lparr>ns_repk := Some (ns_epk ni), ns_h := Some h, ns_ck := Some ck, ns_tempK1 := Some k\<rparr>"
  have "ns_keys nc ?n1" "ns_keys nc ?o1" using keys by (simp_all add: ns_keys_def)
  from act2 [OF assms(1) this, of h ck] obtain m2 h' ck' k' where 2: "length m2 = 50" "length k' = 32"
    "recieveAct2 nc ?o1 = (Inr m2, ?o1\<lparr>ns_h := Some h', ns_ck := Some ck', ns_tempK2 := Some k'\<rparr>)"
    "initiatorAct2 nc m2 ?n1 = (Inr (), ?n1\<lparr>ns_repk := Some (ns_epk nr), ns_h := Some h', ns_ck := Some ck', ns_tempK2 := Some k'\<rparr>)"
    by auto
  let ?n2 = "?n1\<lparr>ns_repk := Some (ns_epk nr), ns_h := Some h', ns_ck := Some ck', ns_tempK2 := Some k'\<rparr>"
  let ?o2 = "?o1\<lparr>ns_h := Some h', ns_ck := Some ck', ns_tempK2 := Some k'\<rparr>"
  have "ns_keys nc ?n2" "ns_keys nc ?o2" using keys by (simp_all add: ns_keys_def)
  from act3 [OF assms(1) this, of h' ck' k'] obtain m3 n3 o3 where 3: "length m3 = 66" "initiatorAct3 nc ?n2 = (Inr m3, n3)"
    "receiveAct3 nc m3 ?o2 = (Inr (), o3)" "joined n3 o3" "ns_rpk o3 = Some (ns_lpk ni)"
    using 2(2) by auto
  let ?i1 = "?i\<lparr>sk_noiseState := ?n1, sk_written := m1, sk_handshakeState := AWAITING_RESPONDER_REPLY\<rparr>"
  let ?r1 = "?r\<lparr>sk_noiseState := ?o2, sk_written := m2, sk_handshakeState := AWAITING_INITIATOR_REPLY\<rparr>"
  let ?i2 = "?i1\<lparr>sk_noiseState := n3, sk_written := m1 @ m3, sk_handshakeState := READY, sk_emitted := [''connect'', ''ready'']\<rparr>"
  let ?r2 = "?r1\<lparr>sk_noiseState := o3, sk_handshakeState := READY, sk_rpk := Some (ns_lpk ni), sk_emitted := [''connect'', ''ready'']\<rparr>"
  have i1: "onConnected nc ?i = ?i1"
    using 1(2) by (simp add: onConnected_def initiateHandshake_def newNoiseSocket_def io_simps)
  have r1: "feed nc m1 ?r = ?r1"
    by (rule feed_step) (use 1(1,3) 2(1,3) in \<open>simp_all add: newNoiseSocket_def more_def processStep_def processInitiator_def
        processInitiatorReply_def io_simps\<close>)
  have i2: "feed nc m2 ?i1 = ?i2"
    by (rule feed_step) (use 2(1,4) 3(1,2) in \<open>simp_all add: newNoiseSocket_def more_def processStep_def processResponderReply_def
        processPacketLength_def io_simps\<close>)
  have r2: "feed nc m3 ?r1 = ?r2"
    by (rule feed_step) (use 3(1,3,5) in \<open>simp_all add: newNoiseSocket_def more_def processStep_def processInitiatorReply_def
        processPacketLength_def io_simps\<close>)
  show ?thesis
    by (rule exI [of _ ?i1], rule exI [of _ ?r1], rule exI [of _ ?i2], rule exI [of _ ?r2])
      (use i1 r1 i2 r2 1(1) 3(1,4) in \<open>simp add: listening_def newNoiseSocket_def\<close>)
qed

text \<open>
  C8: Two sockets, one that connects with the key of the other and one that waits, finish the
  handshake, each knowing the key of the other; then the messages written to the one are read from
  the other, all and in order, in whatever pieces their bytes arrive.
\<close>

theorem sockets_carry_messages:
  assumes "noise_laws nc" "newNoiseState nc ls es = Inr ni" "newNoiseState nc ls' es' = Inr nr"
    and "\<forall>m\<in>set ms. length m < 65536" "length ms < hwm"
  shows "\<exists>i1 r1 i2 r2 i3. i1 = onConnected nc (newNoiseSocket ni (Some (ns_lpk nr)) hwm)
    \<and> r1 = feed nc (sk_written i1) (newNoiseSocket nr None hwm) \<and> i2 = feed nc (sk_written r1) i1
    \<and> r2 = feed nc (drop 50 (sk_written i2)) r1
    \<and> sk_handshakeState i2 = READY \<and> sk_handshakeState r2 = READY
    \<and> sk_rpk r2 = Some (ns_lpk ni) \<and> sk_rpk i2 = Some (ns_lpk nr)
    \<and> each_io (sk_write nc) ms i2 = (Inr (), i3)
    \<and> (\<forall>chunks. chunks \<noteq> [] \<longrightarrow> concat chunks = drop 116 (sk_written i3) \<longrightarrow>
        sk_readable (foldl (\<lambda>s bs. feed nc bs s) r2 chunks) = ms \<and> sk_destroyed (foldl (\<lambda>s bs. feed nc bs s) r2 chunks) = None)"
proof -
  obtain i1 r1 i2 r2 where c: "i1 = onConnected nc (newNoiseSocket ni (Some (ns_lpk nr)) hwm)"
    "r1 = feed nc (sk_written i1) (newNoiseSocket nr None hwm)" "i2 = feed nc (sk_written r1) i1"
    "r2 = feed nc (drop 50 (sk_written i2)) r1" "joined (sk_noiseState i2) (sk_noiseState r2)"
    "listening i2" "listening r2" "sk_rpk r2 = Some (ns_lpk ni)" "sk_rpk i2 = Some (ns_lpk nr)" "length (sk_written i2) = 116"
    "sk_readable r2 = []" "sk_highWaterMark r2 = hwm"
    using connect_acts [OF assms(1-3), of hwm] by blast
  obtain bytes i3 r3 where w: "each_io (sk_write nc) ms i2 = (Inr (), i3)" "sk_written i3 = sk_written i2 @ bytes"
    "feed nc bytes r2 = r3" "listening r3" "sk_readable r3 = ms"
    using write_all [OF assms(1) c(5,7) assms(4)] c(11,12) assms(5) by auto
  have "sk_readable (foldl (\<lambda>s bs. feed nc bs s) r2 chunks) = ms \<and> sk_destroyed (foldl (\<lambda>s bs. feed nc bs s) r2 chunks) = None"
    if "chunks \<noteq> []" "concat chunks = drop 116 (sk_written i3)" for chunks
    using feed_chunks [OF that(1), of nc r2] that(2) w(2-5) c(10) by (simp add: listening_def)
  then show ?thesis using c w(1)
    by (intro exI [of _ i1] exI [of _ r1] exI [of _ i2] exI [of _ r2] exI [of _ i3]) (simp add: listening_def)
qed

theorem sockets_carry_messages_witness:
  "\<exists>ni nr i1 r1 i2 r2 i3. newNoiseState toy_noise [1] [2] = Inr ni \<and> newNoiseState toy_noise [3] [4] = Inr nr
    \<and> i1 = onConnected toy_noise (newNoiseSocket ni (Some (ns_lpk nr)) 2048)
    \<and> r1 = feed toy_noise (sk_written i1) (newNoiseSocket nr None 2048) \<and> i2 = feed toy_noise (sk_written r1) i1
    \<and> r2 = feed toy_noise (drop 50 (sk_written i2)) r1 \<and> sk_handshakeState i2 = READY \<and> sk_handshakeState r2 = READY
    \<and> each_io (sk_write toy_noise) [[7], [8, 9]] i2 = (Inr (), i3)
    \<and> sk_readable (feed toy_noise (drop 116 (sk_written i3)) r2) = [[7], [8, 9]]"
proof -
  obtain ni nr where n: "newNoiseState toy_noise [1] [2] = Inr ni" "newNoiseState toy_noise [3] [4] = Inr nr"
    by (simp add: newNoiseState_def toy_noise_def)
  have m: "\<forall>m\<in>set [[7], [8, 9 :: byte]]. length m < 65536" "length [[7], [8, 9 :: byte]] < 2048" by simp_all
  from sockets_carry_messages [OF toy_laws n m] obtain i1 r1 i2 r2 i3 where
    c: "i1 = onConnected toy_noise (newNoiseSocket ni (Some (ns_lpk nr)) 2048)"
    "r1 = feed toy_noise (sk_written i1) (newNoiseSocket nr None 2048)" "i2 = feed toy_noise (sk_written r1) i1"
    "r2 = feed toy_noise (drop 50 (sk_written i2)) r1" "sk_handshakeState i2 = READY" "sk_handshakeState r2 = READY"
    "each_io (sk_write toy_noise) [[7], [8, 9]] i2 = (Inr (), i3)"
    "\<forall>chunks. chunks \<noteq> [] \<longrightarrow> concat chunks = drop 116 (sk_written i3) \<longrightarrow>
      sk_readable (foldl (\<lambda>s bs. feed toy_noise bs s) r2 chunks) = [[7], [8, 9]] \<and> sk_destroyed (foldl (\<lambda>s bs. feed toy_noise bs s) r2 chunks) = None"
    by blast
  from c(8) [rule_format, of "[drop 116 (sk_written i3)]"] have "sk_readable (feed toy_noise (drop 116 (sk_written i3)) r2) = [[7], [8, 9]]"
    by simp
  then show ?thesis using n c by blast
qed

end
