(* ===== verification/GossipStore.thy ===== *)
theory GossipStore
  imports Messages LnScripts "HOL-Library.AList"
begin

text \<open>
  \<^verbatim>\<open>packages/lightning/lib/gossip\<close>: the interface \<^verbatim>\<open>GossipStore.ts\<close> and
  its implementation \<^verbatim>\<open>GossipMemoryStore.ts\<close>.  A JavaScript \<^verbatim>\<open>Map\<close> is the
  list of its entries in the order of insertion, which \<open>AList.update\<close> keeps.  The stores
  hold channel announcements with or without what the chain knows about the funding output.
\<close>

datatype announcement = Plain channel_announcement | Extended extended_announcement

primrec an_message :: "announcement \<Rightarrow> channel_announcement" where
  "an_message (Plain m) = m"
| "an_message (Extended x) = xa_message x"

abbreviation an_scid :: "announcement \<Rightarrow> scid" where
  "an_scid m \<equiv> ca_shortChannelId (an_message m)"

section \<open>The interface of a store\<close>

record 's gossip_store =
  st_saveChannelAnnouncement :: "announcement \<Rightarrow> ('s, unit) io"
  st_saveChannelUpdate :: "channel_update \<Rightarrow> ('s, unit) io"
  st_saveNodeAnnouncement :: "node_announcement \<Rightarrow> ('s, unit) io"
  st_findChannelsForNode :: "buffer \<Rightarrow> ('s, scid list) io"
  st_findNodeAnnouncement :: "buffer \<Rightarrow> ('s, node_announcement option) io"
  st_findNodeAnnouncements :: "('s, node_announcement list) io"
  st_findChannelAnnouncemnts :: "('s, announcement list) io"
  st_findChannelAnnouncement :: "scid \<Rightarrow> ('s, announcement option) io"
  st_findChannelAnnouncementByOutpoint :: "outpoint \<Rightarrow> ('s, announcement option) io"
  st_findChannelUpdate :: "scid \<Rightarrow> nat \<Rightarrow> ('s, channel_update option) io"
  st_deleteChannelAnnouncement :: "scid \<Rightarrow> ('s, unit) io"
  st_deleteChannelUpdate :: "scid \<Rightarrow> nat \<Rightarrow> ('s, unit) io"
  st_deleteNodeAnnouncement :: "buffer \<Rightarrow> ('s, unit) io"

text \<open>What a store holds, for well-formed identifiers.\<close>

record gossip_view =
  gv_channel :: "scid \<Rightarrow> announcement option"
  gv_update :: "scid \<Rightarrow> nat \<Rightarrow> channel_update option"
  gv_node :: "buffer \<Rightarrow> node_announcement option"
  gv_links :: "buffer \<Rightarrow> scid set"

definition an_wf :: "announcement \<Rightarrow> bool" where
  "an_wf m \<longleftrightarrow> scid_wf (an_scid m) \<and> (\<forall>x. m = Extended x \<longrightarrow> xa_outpoint x \<noteq> None)"

definition view_channel :: "announcement \<Rightarrow> gossip_view \<Rightarrow> gossip_view" where
  "view_channel m v = v\<lparr>gv_channel := (gv_channel v)(an_scid m \<mapsto> m),
     gv_links := (\<lambda>n. gv_links v n \<union> (if n = ca_nodeId1 (an_message m) \<or> n = ca_nodeId2 (an_message m) then {an_scid m} else {}))\<rparr>"

definition view_update :: "scid \<Rightarrow> nat \<Rightarrow> channel_update option \<Rightarrow> gossip_view \<Rightarrow> gossip_view" where
  "view_update c d u v = v\<lparr>gv_update := (gv_update v)(c := (gv_update v c)(d := u))\<rparr>"

definition view_node :: "buffer \<Rightarrow> node_announcement option \<Rightarrow> gossip_view \<Rightarrow> gossip_view" where
  "view_node n a v = v\<lparr>gv_node := (gv_node v)(n := a)\<rparr>"

text \<open>What the filter relies on.\<close>

locale gossip_store_laws =
  fixes S :: "'s gossip_store" and good :: "'s \<Rightarrow> bool" and view :: "'s \<Rightarrow> gossip_view"
  assumes find_channel: "good s \<Longrightarrow> scid_wf c \<Longrightarrow> st_findChannelAnnouncement S c s = (Inr (gv_channel (view s) c), s)"
    and find_update: "good s \<Longrightarrow> scid_wf c \<Longrightarrow> d < 2 \<Longrightarrow> st_findChannelUpdate S c d s = (Inr (gv_update (view s) c d), s)"
    and find_node: "good s \<Longrightarrow> st_findNodeAnnouncement S n s = (Inr (gv_node (view s) n), s)"
    and find_links: "good s \<Longrightarrow> \<exists>cs. st_findChannelsForNode S n s = (Inr cs, s) \<and> set cs = gv_links (view s) n"
    and save_channel: "good s \<Longrightarrow> an_wf m \<Longrightarrow>
      \<exists>s'. st_saveChannelAnnouncement S m s = (Inr (), s') \<and> good s' \<and> view s' = view_channel m (view s)"
    and save_update: "good s \<Longrightarrow> scid_wf (cu_shortChannelId u) \<Longrightarrow> \<exists>s'. st_saveChannelUpdate S u s = (Inr (), s') \<and> good s'
      \<and> view s' = view_update (cu_shortChannelId u) (cu_direction u) (Some u) (view s)"
    and save_node: "good s \<Longrightarrow> \<exists>s'. st_saveNodeAnnouncement S a s = (Inr (), s') \<and> good s'
      \<and> view s' = view_node (na_nodeId a) (Some a) (view s)"
    and delete_update: "good s \<Longrightarrow> scid_wf c \<Longrightarrow> d < 2 \<Longrightarrow> \<exists>s'. st_deleteChannelUpdate S c d s = (Inr (), s') \<and> good s'
      \<and> view s' = view_update c d None (view s)"
    and delete_node: "good s \<Longrightarrow> \<exists>s'. st_deleteNodeAnnouncement S n s = (Inr (), s') \<and> good s'
      \<and> view s' = view_node n None (view s)"

section \<open>The store in memory\<close>

record memory_store =
  ms_channelAnn :: "(nat \<times> announcement) list"
  ms_channelByOutPoint :: "(string \<times> nat) list"
  ms_channelUpd :: "(nat \<times> channel_update) list"
  ms_nodeAnn :: "(string \<times> node_announcement) list"
  ms_nodeChannels :: "(string \<times> nat list) list"

definition newMemoryStore :: memory_store where
  "newMemoryStore = \<lparr>ms_channelAnn = [], ms_channelByOutPoint = [], ms_channelUpd = [], ms_nodeAnn = [], ms_nodeChannels = []\<rparr>"

definition getNodeKey :: "buffer \<Rightarrow> string" where
  "getNodeKey nodeId = hexString nodeId"

definition getChanKey :: "scid \<Rightarrow> nat res" where
  "getChanKey scid = scid_toNumber scid"

definition getChanUpdKey :: "nat \<Rightarrow> nat \<Rightarrow> nat" where
  "getChanUpdKey chanKey direction = push_bit 8 chanKey OR direction"

definition channelAnnouncementCount :: "memory_store \<Rightarrow> nat" where
  "channelAnnouncementCount s = length (ms_channelAnn s)"

definition channelUpdateCount :: "memory_store \<Rightarrow> nat" where
  "channelUpdateCount s = length (ms_channelUpd s)"

definition nodeAnnouncementCount :: "memory_store \<Rightarrow> nat" where
  "nodeAnnouncementCount s = length (ms_nodeAnn s)"

definition saveNodeChannel :: "buffer \<Rightarrow> nat \<Rightarrow> (memory_store, unit) io" where
  "saveNodeChannel nodeId chanKey = update_io (\<lambda>s.
     let nodeKey = getNodeKey nodeId;
         keys = (case map_of (ms_nodeChannels s) nodeKey of None \<Rightarrow> [] | Some ks \<Rightarrow> ks)
     in s\<lparr>ms_nodeChannels := AList.update nodeKey
            (if chanKey \<in> set keys then keys else keys @ [chanKey]) (ms_nodeChannels s)\<rparr>)"

definition ms_saveChannelAnnouncement :: "announcement \<Rightarrow> (memory_store, unit) io" where
  "ms_saveChannelAnnouncement msg =
     bind_io (lift_io (getChanKey (an_scid msg))) (\<lambda>chanKey.
     then_io (update_io (\<lambda>s. s\<lparr>ms_channelAnn := AList.update chanKey msg (ms_channelAnn s)\<rparr>))
    (then_io (case msg of Plain _ \<Rightarrow> return_io ()
       | Extended x \<Rightarrow> bind_io (lift_io (defined (xa_outpoint x))) (\<lambda>outpoint.
           bind_io (lift_io (scid_toNumber (an_scid msg))) (\<lambda>n.
           update_io (\<lambda>s. s\<lparr>ms_channelByOutPoint := AList.update (op_toString outpoint) n (ms_channelByOutPoint s)\<rparr>))))
    (then_io (saveNodeChannel (ca_nodeId1 (an_message msg)) chanKey)
       (saveNodeChannel (ca_nodeId2 (an_message msg)) chanKey))))"

definition ms_saveChannelUpdate :: "channel_update \<Rightarrow> (memory_store, unit) io" where
  "ms_saveChannelUpdate msg =
     bind_io (lift_io (getChanKey (cu_shortChannelId msg))) (\<lambda>chanKey.
     update_io (\<lambda>s. s\<lparr>ms_channelUpd := AList.update (getChanUpdKey chanKey (cu_direction msg)) msg (ms_channelUpd s)\<rparr>))"

definition ms_saveNodeAnnouncement :: "node_announcement \<Rightarrow> (memory_store, unit) io" where
  "ms_saveNodeAnnouncement msg =
     update_io (\<lambda>s. s\<lparr>ms_nodeAnn := AList.update (getNodeKey (na_nodeId msg)) msg (ms_nodeAnn s)\<rparr>)"

definition ms_findChannelsForNode :: "buffer \<Rightarrow> (memory_store, scid list) io" where
  "ms_findChannelsForNode nodeId = get_state (\<lambda>s.
     case map_of (ms_nodeChannels s) (getNodeKey nodeId) of None \<Rightarrow> [] | Some scidInts \<Rightarrow> map scid_fromNumber scidInts)"

definition ms_findNodeAnnouncement :: "buffer \<Rightarrow> (memory_store, node_announcement option) io" where
  "ms_findNodeAnnouncement nodeId = get_state (\<lambda>s. map_of (ms_nodeAnn s) (getNodeKey nodeId))"

definition ms_findNodeAnnouncements :: "(memory_store, node_announcement list) io" where
  "ms_findNodeAnnouncements = get_state (\<lambda>s. map snd (ms_nodeAnn s))"

definition ms_findChannelAnnouncemnts :: "(memory_store, announcement list) io" where
  "ms_findChannelAnnouncemnts = get_state (\<lambda>s. map snd (ms_channelAnn s))"

definition ms_findChannelAnnouncement :: "scid \<Rightarrow> (memory_store, announcement option) io" where
  "ms_findChannelAnnouncement scid =
     bind_io (lift_io (getChanKey scid)) (\<lambda>k. get_state (\<lambda>s. map_of (ms_channelAnn s) k))"

text \<open>Looking up the key \<^verbatim>\<open>undefined\<close> finds nothing.\<close>

definition ms_findChannelAnnouncementByOutpoint :: "outpoint \<Rightarrow> (memory_store, announcement option) io" where
  "ms_findChannelAnnouncementByOutpoint outpoint = get_state (\<lambda>s.
     case map_of (ms_channelByOutPoint s) (op_toString outpoint) of None \<Rightarrow> None | Some scidNum \<Rightarrow> map_of (ms_channelAnn s) scidNum)"

definition ms_findChannelUpdate :: "scid \<Rightarrow> nat \<Rightarrow> (memory_store, channel_update option) io" where
  "ms_findChannelUpdate scid dir =
     bind_io (lift_io (getChanKey scid)) (\<lambda>k. get_state (\<lambda>s. map_of (ms_channelUpd s) (getChanUpdKey k dir)))"

text \<open>The set of the node has to be there: \<^verbatim>\<open>this._nodeChannels.get(key).delete(chanKey)\<close>.\<close>

definition deleteNodeChannel :: "buffer \<Rightarrow> nat \<Rightarrow> (memory_store, unit) io" where
  "deleteNodeChannel nodeId chanKey =
     bind_io (get_defined (\<lambda>s. map_of (ms_nodeChannels s) (getNodeKey nodeId))) (\<lambda>keys.
     update_io (\<lambda>s. s\<lparr>ms_nodeChannels := AList.update (getNodeKey nodeId) (removeAll chanKey keys) (ms_nodeChannels s)\<rparr>))"

definition ms_deleteChannelAnnouncement :: "scid \<Rightarrow> (memory_store, unit) io" where
  "ms_deleteChannelAnnouncement scid =
     bind_io (ms_findChannelAnnouncement scid) (\<lambda>msg. case msg of None \<Rightarrow> return_io ()
     | Some msg \<Rightarrow>
         bind_io (lift_io (getChanKey scid)) (\<lambda>chanKey.
         then_io (update_io (\<lambda>s. s\<lparr>ms_channelAnn := AList.delete chanKey (ms_channelAnn s)\<rparr>))
        (then_io (case msg of Plain _ \<Rightarrow> return_io ()
           | Extended x \<Rightarrow> bind_io (lift_io (defined (xa_outpoint x))) (\<lambda>outpoint.
               update_io (\<lambda>s. s\<lparr>ms_channelByOutPoint := AList.delete (op_toString outpoint) (ms_channelByOutPoint s)\<rparr>)))
        (bind_io (lift_io (scid_toNumber scid)) (\<lambda>n.
         then_io (update_io (\<lambda>s. s\<lparr>ms_channelUpd := AList.delete (getChanUpdKey n 0) (ms_channelUpd s)\<rparr>))
        (then_io (update_io (\<lambda>s. s\<lparr>ms_channelUpd := AList.delete (getChanUpdKey n 0) (ms_channelUpd s)\<rparr>))
        (then_io (deleteNodeChannel (ca_nodeId1 (an_message msg)) chanKey)
           (deleteNodeChannel (ca_nodeId2 (an_message msg)) chanKey))))))))"

definition ms_deleteChannelUpdate :: "scid \<Rightarrow> nat \<Rightarrow> (memory_store, unit) io" where
  "ms_deleteChannelUpdate scid dir =
     bind_io (lift_io (getChanKey scid)) (\<lambda>k.
     update_io (\<lambda>s. s\<lparr>ms_channelUpd := AList.delete (getChanUpdKey k dir) (ms_channelUpd s)\<rparr>))"

definition ms_deleteNodeAnnouncement :: "buffer \<Rightarrow> (memory_store, unit) io" where
  "ms_deleteNodeAnnouncement nodeId =
     update_io (\<lambda>s. s\<lparr>ms_nodeAnn := AList.delete (getNodeKey nodeId) (ms_nodeAnn s)\<rparr>)"

definition memoryStore :: "memory_store gossip_store" where
  "memoryStore = \<lparr>st_saveChannelAnnouncement = ms_saveChannelAnnouncement,
     st_saveChannelUpdate = ms_saveChannelUpdate, st_saveNodeAnnouncement = ms_saveNodeAnnouncement,
     st_findChannelsForNode = ms_findChannelsForNode, st_findNodeAnnouncement = ms_findNodeAnnouncement,
     st_findNodeAnnouncements = ms_findNodeAnnouncements, st_findChannelAnnouncemnts = ms_findChannelAnnouncemnts,
     st_findChannelAnnouncement = ms_findChannelAnnouncement,
     st_findChannelAnnouncementByOutpoint = ms_findChannelAnnouncementByOutpoint,
     st_findChannelUpdate = ms_findChannelUpdate, st_deleteChannelAnnouncement = ms_deleteChannelAnnouncement,
     st_deleteChannelUpdate = ms_deleteChannelUpdate, st_deleteNodeAnnouncement = ms_deleteNodeAnnouncement\<rparr>"

section \<open>The store in memory keeps the laws\<close>

lemma chanKey [simp]: "scid_wf c \<Longrightarrow> getChanKey c = Inr (scid_num c)"
  by (simp add: getChanKey_def scid_toNumber_eq)

lemma scid_num_inject [simp]: "scid_wf c \<Longrightarrow> scid_wf c' \<Longrightarrow> scid_num c = scid_num c' \<longleftrightarrow> c = c'"
  by (metis scid_fromNumber_num)

lemma nodeKey_inject [simp]: "getNodeKey n = getNodeKey n' \<longleftrightarrow> n = n'"
  by (metis getNodeKey_def hexBuffer_hexString)

lemma updKey_inject [simp]:
  assumes "d < 2" "d' < 2" shows "getChanUpdKey k d = getChanUpdKey k' d' \<longleftrightarrow> k = k' \<and> d = d'"
proof -
  have "drop_bit 8 (push_bit 8 x) = x" for x :: nat by (simp add: drop_bit_eq_div push_bit_eq_mult)
  then have "drop_bit 8 (getChanUpdKey x e) = x \<and> take_bit 8 (getChanUpdKey x e) = e" if "e < 2" for x e
    using that by (auto simp: getChanUpdKey_def drop_bit_or take_bit_or take_bit_push_bit less_2_cases_iff)
  then show ?thesis using assms by metis
qed

definition node_keys :: "buffer \<Rightarrow> memory_store \<Rightarrow> nat list" where
  "node_keys n s = (case map_of (ms_nodeChannels s) (getNodeKey n) of None \<Rightarrow> [] | Some ks \<Rightarrow> ks)"

definition ms_view :: "memory_store \<Rightarrow> gossip_view" where
  "ms_view s = \<lparr>gv_channel = (\<lambda>c. if scid_wf c then map_of (ms_channelAnn s) (scid_num c) else None),
     gv_update = (\<lambda>c d. if scid_wf c \<and> d < 2 then map_of (ms_channelUpd s) (getChanUpdKey (scid_num c) d) else None),
     gv_node = (\<lambda>n. map_of (ms_nodeAnn s) (getNodeKey n)),
     gv_links = (\<lambda>n. scid_fromNumber ` set (node_keys n s))\<rparr>"

text \<open>Every announcement is under its own key, and linked from both of its nodes.\<close>

definition ms_good :: "memory_store \<Rightarrow> bool" where
  "ms_good s \<longleftrightarrow> (\<forall>k m. map_of (ms_channelAnn s) k = Some m \<longrightarrow> an_wf m \<and> k = scid_num (an_scid m)
     \<and> k \<in> set (node_keys (ca_nodeId1 (an_message m)) s) \<and> k \<in> set (node_keys (ca_nodeId2 (an_message m)) s))"

lemma node_keys_saved:
  "set (node_keys n' (snd (saveNodeChannel n k s))) = set (node_keys n' s) \<union> (if n' = n then {k} else {})"
  by (auto simp: saveNodeChannel_def update_io_apply node_keys_def Let_def AList.update_conv' split: option.splits)

lemma node_keys_frame [simp]:
  "node_keys n (s\<lparr>ms_channelAnn := a\<rparr>) = node_keys n s" "node_keys n (s\<lparr>ms_channelUpd := b\<rparr>) = node_keys n s"
  "node_keys n (s\<lparr>ms_nodeAnn := c\<rparr>) = node_keys n s" "node_keys n (s\<lparr>ms_channelByOutPoint := d\<rparr>) = node_keys n s"
  by (simp_all add: node_keys_def)

lemma saveNodeChannel_frame [simp]:
  "ms_channelAnn (snd (saveNodeChannel n k s)) = ms_channelAnn s" "ms_channelUpd (snd (saveNodeChannel n k s)) = ms_channelUpd s"
  "ms_nodeAnn (snd (saveNodeChannel n k s)) = ms_nodeAnn s" "fst (saveNodeChannel n k s) = Inr ()"
  by (simp_all add: saveNodeChannel_def update_io_apply Let_def)

lemma saveNodeChannels:
  "then_io (saveNodeChannel n k) (saveNodeChannel n' k) s = (Inr (), snd (saveNodeChannel n' k (snd (saveNodeChannel n k s))))"
  by (simp add: then_io_apply saveNodeChannel_def update_io_apply)

lemma ms_saveChannelAnnouncement_eq:
  assumes "an_wf m"
  shows "\<exists>p. ms_saveChannelAnnouncement m s = (Inr (), snd (saveNodeChannel (ca_nodeId2 (an_message m)) (scid_num (an_scid m))
    (snd (saveNodeChannel (ca_nodeId1 (an_message m)) (scid_num (an_scid m))
      (s\<lparr>ms_channelAnn := AList.update (scid_num (an_scid m)) m (ms_channelAnn s), ms_channelByOutPoint := p\<rparr>)))))"
proof (cases m)
  case (Plain x)
  then show ?thesis using assms
    by (intro exI [of _ "ms_channelByOutPoint s"])
      (simp add: ms_saveChannelAnnouncement_def an_wf_def io_simps saveNodeChannels [unfolded then_io_apply] saveNodeChannel_def)
next
  case (Extended x)
  then show ?thesis using assms
    by (auto simp: ms_saveChannelAnnouncement_def an_wf_def io_simps scid_toNumber_eq saveNodeChannel_def)
qed

lemma ms_good_saved:
  assumes "ms_good s" "an_wf m" "map_of (ms_channelAnn t) = (map_of (ms_channelAnn s))(scid_num (an_scid m) \<mapsto> m)"
    and "\<And>n. set (node_keys n t) = set (node_keys n s) \<union>
      (if n = ca_nodeId1 (an_message m) \<or> n = ca_nodeId2 (an_message m) then {scid_num (an_scid m)} else {})"
  shows "ms_good t"
  unfolding ms_good_def
proof (intro allI impI)
  fix k x assume x: "map_of (ms_channelAnn t) k = Some x"
  show "an_wf x \<and> k = scid_num (an_scid x) \<and> k \<in> set (node_keys (ca_nodeId1 (an_message x)) t)
      \<and> k \<in> set (node_keys (ca_nodeId2 (an_message x)) t)"
  proof (cases "k = scid_num (an_scid m)")
    case True
    then show ?thesis using x assms(2-4) by simp
  next
    case False
    then have "map_of (ms_channelAnn s) k = Some x" using x assms(3) by simp
    then show ?thesis using assms(1,4) by (simp add: ms_good_def)
  qed
qed

lemma ms_view_saved:
  assumes "an_wf m" "map_of (ms_channelAnn t) = (map_of (ms_channelAnn s))(scid_num (an_scid m) \<mapsto> m)"
    and "\<And>n. set (node_keys n t) = set (node_keys n s) \<union>
      (if n = ca_nodeId1 (an_message m) \<or> n = ca_nodeId2 (an_message m) then {scid_num (an_scid m)} else {})"
    and "ms_channelUpd t = ms_channelUpd s" "ms_nodeAnn t = ms_nodeAnn s"
  shows "ms_view t = view_channel m (ms_view s)"
proof (rule gossip_view.equality)
  have wf: "scid_wf (an_scid m)" using assms(1) by (simp add: an_wf_def)
  show "gv_channel (ms_view t) = gv_channel (view_channel m (ms_view s))"
    using wf assms(2) by (simp add: ms_view_def view_channel_def fun_eq_iff)
  show "gv_links (ms_view t) = gv_links (view_channel m (ms_view s))"
    using wf assms(3) by (simp add: ms_view_def view_channel_def fun_eq_iff image_Un scid_fromNumber_num)
qed (use assms(4,5) in \<open>simp_all add: ms_view_def view_channel_def cong: if_cong\<close>)

lemma ms_saveChannelAnnouncement_ok:
  assumes "ms_good s" "an_wf m"
  shows "\<exists>s'. ms_saveChannelAnnouncement m s = (Inr (), s') \<and> ms_good s' \<and> ms_view s' = view_channel m (ms_view s)"
proof -
  let ?k = "scid_num (an_scid m)" and ?n1 = "ca_nodeId1 (an_message m)" and ?n2 = "ca_nodeId2 (an_message m)"
  obtain p where p: "ms_saveChannelAnnouncement m s = (Inr (), snd (saveNodeChannel ?n2 ?k (snd (saveNodeChannel ?n1 ?k
      (s\<lparr>ms_channelAnn := AList.update ?k m (ms_channelAnn s), ms_channelByOutPoint := p\<rparr>)))))"
    using ms_saveChannelAnnouncement_eq [OF assms(2)] by blast
  let ?s = "snd (saveNodeChannel ?n2 ?k (snd (saveNodeChannel ?n1 ?k
      (s\<lparr>ms_channelAnn := AList.update ?k m (ms_channelAnn s), ms_channelByOutPoint := p\<rparr>))))"
  have wf: "scid_wf (an_scid m)" using assms(2) by (simp add: an_wf_def)
  have c: "map_of (ms_channelAnn ?s) = (map_of (ms_channelAnn s))(?k \<mapsto> m)" by (simp add: AList.update_conv')
  have l: "set (node_keys n ?s) = set (node_keys n s) \<union> (if n = ?n1 \<or> n = ?n2 then {?k} else {})" for n
    by (simp add: node_keys_saved)
  have "ms_good ?s" by (rule ms_good_saved [OF assms c l])
  moreover have "ms_view ?s = view_channel m (ms_view s)"
    by (rule ms_view_saved [OF assms(2) c l]) simp_all
  ultimately show ?thesis using p by blast
qed

lemma less_2_upd: "cu_direction u < 2"
  by (simp add: cu_direction_def)

interpretation ms: gossip_store_laws memoryStore ms_good ms_view
proof
  fix s c d n m u a
  show "ms_good s \<Longrightarrow> scid_wf c \<Longrightarrow> st_findChannelAnnouncement memoryStore c s = (Inr (gv_channel (ms_view s) c), s)"
    by (simp add: memoryStore_def ms_findChannelAnnouncement_def io_simps ms_view_def)
  show "ms_good s \<Longrightarrow> scid_wf c \<Longrightarrow> d < 2 \<Longrightarrow> st_findChannelUpdate memoryStore c d s = (Inr (gv_update (ms_view s) c d), s)"
    by (simp add: memoryStore_def ms_findChannelUpdate_def io_simps ms_view_def)
  show "ms_good s \<Longrightarrow> st_findNodeAnnouncement memoryStore n s = (Inr (gv_node (ms_view s) n), s)"
    by (simp add: memoryStore_def ms_findNodeAnnouncement_def io_simps ms_view_def)
  show "ms_good s \<Longrightarrow> \<exists>cs. st_findChannelsForNode memoryStore n s = (Inr cs, s) \<and> set cs = gv_links (ms_view s) n"
    by (cases "map_of (ms_nodeChannels s) (getNodeKey n)")
      (simp_all add: memoryStore_def ms_findChannelsForNode_def io_simps ms_view_def node_keys_def)
  show "ms_good s \<Longrightarrow> an_wf m \<Longrightarrow> \<exists>s'. st_saveChannelAnnouncement memoryStore m s = (Inr (), s') \<and> ms_good s'
      \<and> ms_view s' = view_channel m (ms_view s)"
    using ms_saveChannelAnnouncement_ok by (simp add: memoryStore_def)
  show "ms_good s \<Longrightarrow> scid_wf (cu_shortChannelId u) \<Longrightarrow> \<exists>s'. st_saveChannelUpdate memoryStore u s = (Inr (), s') \<and> ms_good s'
      \<and> ms_view s' = view_update (cu_shortChannelId u) (cu_direction u) (Some u) (ms_view s)"
    by (auto simp: memoryStore_def ms_saveChannelUpdate_def io_simps ms_view_def ms_good_def view_update_def AList.update_conv'
        fun_eq_iff less_2_upd)
  show "ms_good s \<Longrightarrow> \<exists>s'. st_saveNodeAnnouncement memoryStore a s = (Inr (), s') \<and> ms_good s'
      \<and> ms_view s' = view_node (na_nodeId a) (Some a) (ms_view s)"
    by (auto simp: memoryStore_def ms_saveNodeAnnouncement_def io_simps ms_view_def ms_good_def view_node_def AList.update_conv' fun_eq_iff)
  show "ms_good s \<Longrightarrow> scid_wf c \<Longrightarrow> d < 2 \<Longrightarrow> \<exists>s'. st_deleteChannelUpdate memoryStore c d s = (Inr (), s') \<and> ms_good s'
      \<and> ms_view s' = view_update c d None (ms_view s)"
    by (auto simp: memoryStore_def ms_deleteChannelUpdate_def io_simps ms_view_def ms_good_def view_update_def AList.delete_conv' fun_eq_iff)
  show "ms_good s \<Longrightarrow> \<exists>s'. st_deleteNodeAnnouncement memoryStore n s = (Inr (), s') \<and> ms_good s'
      \<and> ms_view s' = view_node n None (ms_view s)"
    by (auto simp: memoryStore_def ms_deleteNodeAnnouncement_def io_simps ms_view_def ms_good_def view_node_def AList.delete_conv' fun_eq_iff)
qed

section \<open>Deleting a channel\<close>

lemma ms_find_simps [io_simps]:
  "scid_wf c \<Longrightarrow> ms_findChannelAnnouncement c s = (Inr (map_of (ms_channelAnn s) (scid_num c)), s)"
  "scid_wf c \<Longrightarrow> ms_findChannelUpdate c d s = (Inr (map_of (ms_channelUpd s) (getChanUpdKey (scid_num c) d)), s)"
  by (simp_all add: ms_findChannelAnnouncement_def ms_findChannelUpdate_def io_simps)

lemma deleteNodeChannel_ok:
  assumes "map_of (ms_nodeChannels s) (getNodeKey n) \<noteq> None"
  shows "\<exists>s'. deleteNodeChannel n k s = (Inr (), s') \<and> ms_channelAnn s' = ms_channelAnn s \<and> ms_channelUpd s' = ms_channelUpd s
    \<and> ms_channelByOutPoint s' = ms_channelByOutPoint s
    \<and> (\<forall>n'. set (node_keys n' s') = set (node_keys n' s) - (if n' = n then {k} else {}))
    \<and> (\<forall>n'. map_of (ms_nodeChannels s) n' \<noteq> None \<longrightarrow> map_of (ms_nodeChannels s') n' \<noteq> None)"
  using assms by (auto simp: deleteNodeChannel_def io_simps node_keys_def AList.update_conv')

lemma node_keys_defined: "k \<in> set (node_keys n s) \<Longrightarrow> map_of (ms_nodeChannels s) (getNodeKey n) \<noteq> None"
  by (cases "map_of (ms_nodeChannels s) (getNodeKey n)") (simp_all add: node_keys_def)

lemma deleteNodeChannels_ok:
  assumes "map_of (ms_nodeChannels s) (getNodeKey n) \<noteq> None" "map_of (ms_nodeChannels s) (getNodeKey n') \<noteq> None"
  shows "\<exists>s'. then_io (deleteNodeChannel n k) (deleteNodeChannel n' k) s = (Inr (), s') \<and> ms_channelAnn s' = ms_channelAnn s
    \<and> ms_channelUpd s' = ms_channelUpd s \<and> ms_channelByOutPoint s' = ms_channelByOutPoint s
    \<and> (\<forall>x. set (node_keys x s') = set (node_keys x s) - (if x = n \<or> x = n' then {k} else {}))"
proof -
  obtain t where t: "deleteNodeChannel n k s = (Inr (), t)" "ms_channelAnn t = ms_channelAnn s" "ms_channelUpd t = ms_channelUpd s"
    "ms_channelByOutPoint t = ms_channelByOutPoint s" "\<forall>x. set (node_keys x t) = set (node_keys x s) - (if x = n then {k} else {})"
    "map_of (ms_nodeChannels t) (getNodeKey n') \<noteq> None"
    using deleteNodeChannel_ok [OF assms(1), of k] assms(2) by blast
  obtain u where "deleteNodeChannel n' k t = (Inr (), u)" "ms_channelAnn u = ms_channelAnn t" "ms_channelUpd u = ms_channelUpd t"
    "ms_channelByOutPoint u = ms_channelByOutPoint t" "\<forall>x. set (node_keys x u) = set (node_keys x t) - (if x = n' then {k} else {})"
    using deleteNodeChannel_ok [OF t(6), of k] by blast
  with t show ?thesis by (intro exI [of _ u]) (simp add: then_io_apply)
qed

definition delete_outpoint :: "announcement \<Rightarrow> (string \<times> nat) list \<Rightarrow> (string \<times> nat) list" where
  "delete_outpoint m ps = (case m of Plain _ \<Rightarrow> ps | Extended x \<Rightarrow> (case xa_outpoint x of None \<Rightarrow> ps | Some p \<Rightarrow> AList.delete (op_toString p) ps))"

lemma ms_deleteChannelAnnouncement_ok:
  assumes "ms_good s" "scid_wf c" "map_of (ms_channelAnn s) (scid_num c) = Some m"
  shows "\<exists>s'. ms_deleteChannelAnnouncement c s = (Inr (), s') \<and> ms_channelAnn s' = AList.delete (scid_num c) (ms_channelAnn s)
    \<and> ms_channelUpd s' = AList.delete (getChanUpdKey (scid_num c) 0) (ms_channelUpd s)
    \<and> ms_channelByOutPoint s' = delete_outpoint m (ms_channelByOutPoint s)
    \<and> (\<forall>x. set (node_keys x s') = set (node_keys x s) - (if x = ca_nodeId1 (an_message m) \<or> x = ca_nodeId2 (an_message m) then {scid_num c} else {}))"
proof -
  let ?t = "s\<lparr>ms_channelAnn := AList.delete (scid_num c) (ms_channelAnn s),
    ms_channelByOutPoint := delete_outpoint m (ms_channelByOutPoint s),
    ms_channelUpd := AList.delete (getChanUpdKey (scid_num c) 0) (ms_channelUpd s)\<rparr>"
  have m: "an_wf m" "scid_num c \<in> set (node_keys (ca_nodeId1 (an_message m)) s)" "scid_num c \<in> set (node_keys (ca_nodeId2 (an_message m)) s)"
    using assms(1,3) by (auto simp: ms_good_def)
  obtain s' where s': "then_io (deleteNodeChannel (ca_nodeId1 (an_message m)) (scid_num c)) (deleteNodeChannel (ca_nodeId2 (an_message m)) (scid_num c)) ?t = (Inr (), s')"
    "ms_channelAnn s' = ms_channelAnn ?t" "ms_channelUpd s' = ms_channelUpd ?t" "ms_channelByOutPoint s' = ms_channelByOutPoint ?t"
    "\<forall>x. set (node_keys x s') = set (node_keys x ?t) - (if x = ca_nodeId1 (an_message m) \<or> x = ca_nodeId2 (an_message m) then {scid_num c} else {})"
    using deleteNodeChannels_ok [of ?t "ca_nodeId1 (an_message m)" "ca_nodeId2 (an_message m)" "scid_num c"]
      node_keys_defined [OF m(2)] node_keys_defined [OF m(3)] by auto
  have "ms_deleteChannelAnnouncement c s = (Inr (), s')"
  proof (cases m)
    case (Plain a)
    have "?t = s\<lparr>ms_channelAnn := AList.delete (scid_num c) (ms_channelAnn s),
        ms_channelUpd := AList.delete (getChanUpdKey (scid_num c) 0) (ms_channelUpd s)\<rparr>"
      using Plain by (cases s) (simp add: delete_outpoint_def)
    then show ?thesis using s'(1) assms(2,3) Plain
      by (simp add: ms_deleteChannelAnnouncement_def io_simps scid_toNumber_eq AList.delete_idem)
  next
    case (Extended x)
    then obtain p where "xa_outpoint x = Some p" using m(1) by (auto simp: an_wf_def)
    then show ?thesis using s'(1) assms(2,3) Extended
      by (simp add: ms_deleteChannelAnnouncement_def io_simps scid_toNumber_eq AList.delete_idem delete_outpoint_def)
  qed
  then show ?thesis using s' by (intro exI [of _ s']) simp
qed

text \<open>
  Deleting a channel removes its announcement, its entry under the funding output, its links from
  both nodes and its update in direction 0, and leaves the other channels; but the update in
  direction 1 stays: the code deletes direction 0 twice.
\<close>

theorem delete_keeps_update:
  assumes "ms_good s" "scid_wf c" "ms_findChannelAnnouncement c s = (Inr (Some m), s)"
  shows "\<exists>s'. ms_deleteChannelAnnouncement c s = (Inr (), s') \<and> ms_good s'
    \<and> ms_findChannelAnnouncement c s' = (Inr None, s')
    \<and> (\<forall>x p. m = Extended x \<longrightarrow> xa_outpoint x = Some p \<longrightarrow> ms_findChannelAnnouncementByOutpoint p s' = (Inr None, s'))
    \<and> scid_num c \<notin> set (node_keys (ca_nodeId1 (an_message m)) s') \<union> set (node_keys (ca_nodeId2 (an_message m)) s')
    \<and> ms_findChannelUpdate c 0 s' = (Inr None, s')
    \<and> (\<forall>u. ms_findChannelUpdate c 1 s = (Inr u, s) \<longrightarrow> ms_findChannelUpdate c 1 s' = (Inr u, s'))
    \<and> (\<forall>c' m'. scid_wf c' \<longrightarrow> c' \<noteq> c \<longrightarrow> ms_findChannelAnnouncement c' s = (Inr m', s) \<longrightarrow> ms_findChannelAnnouncement c' s' = (Inr m', s'))"
proof -
  have m: "map_of (ms_channelAnn s) (scid_num c) = Some m" using assms(2,3) by (simp add: io_simps)
  obtain s' where s': "ms_deleteChannelAnnouncement c s = (Inr (), s')" "ms_channelAnn s' = AList.delete (scid_num c) (ms_channelAnn s)"
    "ms_channelUpd s' = AList.delete (getChanUpdKey (scid_num c) 0) (ms_channelUpd s)"
    "ms_channelByOutPoint s' = delete_outpoint m (ms_channelByOutPoint s)"
    "\<forall>x. set (node_keys x s') = set (node_keys x s) - (if x = ca_nodeId1 (an_message m) \<or> x = ca_nodeId2 (an_message m) then {scid_num c} else {})"
    using ms_deleteChannelAnnouncement_ok [OF assms(1,2) m] by blast
  have good: "ms_good s'"
    using assms(1) s'(2,5) by (auto simp: ms_good_def AList.delete_conv' split: if_splits)
  show ?thesis
    by (rule exI [of _ s'])
      (use s' good assms(2) in \<open>simp add: io_simps AList.delete_conv' ms_findChannelAnnouncementByOutpoint_def delete_outpoint_def\<close>)
qed

definition sample_announcement :: "buffer \<Rightarrow> channel_announcement" where
  "sample_announcement sig = \<lparr>ca_nodeSignature1 = sig, ca_nodeSignature2 = sig, ca_bitcoinSignature1 = sig, ca_bitcoinSignature2 = sig,
     ca_features = BitField 0, ca_chainHash = replicate 32 2, ca_shortChannelId = \<lparr>sc_block = 1, sc_txIdx = 2, sc_voutIdx = 3\<rparr>,
     ca_nodeId1 = replicate 33 4, ca_nodeId2 = replicate 33 5, ca_bitcoinKey1 = replicate 33 6, ca_bitcoinKey2 = replicate 33 7\<rparr>"

lemma ms_good_new: "ms_good newMemoryStore"
  by (simp add: ms_good_def newMemoryStore_def)

theorem delete_keeps_update_witness:
  "\<exists>s s' u. ms_findChannelUpdate \<lparr>sc_block = 1, sc_txIdx = 2, sc_voutIdx = 3\<rparr> 1 s = (Inr (Some u), s)
    \<and> ms_deleteChannelAnnouncement \<lparr>sc_block = 1, sc_txIdx = 2, sc_voutIdx = 3\<rparr> s = (Inr (), s')
    \<and> ms_findChannelAnnouncement \<lparr>sc_block = 1, sc_txIdx = 2, sc_voutIdx = 3\<rparr> s' = (Inr None, s')
    \<and> ms_findChannelUpdate \<lparr>sc_block = 1, sc_txIdx = 2, sc_voutIdx = 3\<rparr> 1 s' = (Inr (Some u), s')"
proof -
  let ?c = "\<lparr>sc_block = 1, sc_txIdx = 2, sc_voutIdx = 3\<rparr>" and ?m = "Plain (sample_announcement [])"
  let ?u = "sample_update\<lparr>cu_channelFlags := BitField 1\<rparr>"
  have wf: "scid_wf ?c" by (simp add: scid_wf_def)
  have "an_wf ?m" using wf by (simp add: an_wf_def sample_announcement_def)
  then obtain s where s: "ms_good s" "ms_view s = view_channel ?m (ms_view newMemoryStore)"
    using ms.save_channel [OF ms_good_new] by blast
  have d: "cu_direction ?u = 1" by (simp add: cu_direction_def bf_isSet_def bit_Suc_0_iff)
  obtain t where t: "ms_good t" "ms_view t = view_update ?c 1 (Some ?u) (ms_view s)"
    using ms.save_update [OF s(1), of ?u] wf d by (auto simp: sample_update_def)
  have f: "ms_findChannelAnnouncement ?c t = (Inr (Some ?m), t)" "ms_findChannelUpdate ?c 1 t = (Inr (Some ?u), t)"
    using ms.find_channel [OF t(1) wf] ms.find_update [OF t(1) wf, of 1] t(2) s(2)
    by (simp_all add: memoryStore_def view_update_def view_channel_def sample_announcement_def)
  from delete_keeps_update [OF t(1) wf f(1)] f(2) show ?thesis by blast
qed

end
