(* ===== verification/GossipFilter.thy ===== *)
theory GossipFilter
  imports GossipStore
begin

text \<open>
  \<^verbatim>\<open>packages/lightning/lib/gossip/GossipFilter.ts\<close>: which gossip messages of the peers get into
  the store, and which are held back until the announcement of their channel arrives.  The chain
  client is a parameter (\<^verbatim>\<open>IGossipFilterChainClient.ts\<close>); its output value is already
  rounded to satoshis.  A message of a peer comes out of the message factory.
\<close>

datatype WireErrorCode =
    nodeAnnSigFailed | chanAnnSigFailed | chanUpdSigFailed | chanBadBlockHash | chanBadBlock
  | chanAnnBadTx | chanUtxoSpent | chanBadScript | gossipManagerNotStarted | UnknownWireMessageFailure

primrec wireErrorNumber :: "WireErrorCode \<Rightarrow> nat" where
  "wireErrorNumber nodeAnnSigFailed = 1"
| "wireErrorNumber chanAnnSigFailed = 2"
| "wireErrorNumber chanUpdSigFailed = 3"
| "wireErrorNumber chanBadBlockHash = 4"
| "wireErrorNumber chanBadBlock = 5"
| "wireErrorNumber chanAnnBadTx = 6"
| "wireErrorNumber chanUtxoSpent = 7"
| "wireErrorNumber chanBadScript = 8"
| "wireErrorNumber gossipManagerNotStarted = 101"
| "wireErrorNumber UnknownWireMessageFailure = 102"

record utxo =
  ux_scriptPubKey :: string
  ux_satoshis :: nat

record chain_client =
  cc_getBlockHash :: "nat \<Rightarrow> string option res"
  cc_getBlockSummary :: "string \<Rightarrow> string list option res"
  cc_getUtxo :: "string \<Rightarrow> nat \<Rightarrow> utxo option res"

datatype gossip_message = GChannel announcement | GUpdate channel_update | GNode node_announcement

type_synonym filter_result = "WireErrorCode + gossip_message list"

record ('s, 'p) gossip_filter =
  gf_sha256 :: "buffer \<Rightarrow> buffer"
  gf_verifySig :: "buffer \<Rightarrow> buffer \<Rightarrow> buffer \<Rightarrow> bool"
  gf_gossipStore :: "'s gossip_store"
  gf_pendingStore :: "'p gossip_store"

text \<open>The state is that of both stores.\<close>

definition on_gossip :: "('s, 'a) io \<Rightarrow> ('s \<times> 'p, 'a) io" where
  "on_gossip m = (\<lambda>(g, p). case m g of (r, g') \<Rightarrow> (r, (g', p)))"

definition on_pending :: "('p, 'a) io \<Rightarrow> ('s \<times> 'p, 'a) io" where
  "on_pending m = (\<lambda>(g, p). case m p of (r, p') \<Rightarrow> (r, (g, p')))"

lemma on_stores_apply [io_simps]:
  "on_gossip m s = (case m (fst s) of (r, g') \<Rightarrow> (r, (g', snd s)))"
  "on_pending n s = (case n (snd s) of (r, p') \<Rightarrow> (r, (fst s, p')))"
  by (simp_all add: on_gossip_def on_pending_def split: prod.splits)

definition validateNodeAnnouncement :: "('s, 'p) gossip_filter \<Rightarrow> node_announcement \<Rightarrow> ('s \<times> 'p, filter_result) io" where
  "validateNodeAnnouncement F msg =
     bind_io (on_gossip (st_findNodeAnnouncement (gf_gossipStore F) (na_nodeId msg))) (\<lambda>existing.
     if (case existing of None \<Rightarrow> False | Some e \<Rightarrow> na_timestamp e \<ge> na_timestamp msg) then return_io (Inr [])
     else bind_io (on_gossip (st_findChannelsForNode (gf_gossipStore F) (na_nodeId msg))) (\<lambda>scids.
     if scids = [] then then_io (on_pending (st_saveNodeAnnouncement (gf_pendingStore F) msg)) (return_io (Inr []))
     else bind_io (lift_io (na_verifySignatures (gf_sha256 F) (gf_verifySig F) msg)) (\<lambda>ok.
     if \<not> ok then return_io (Inl nodeAnnSigFailed)
     else then_io (on_gossip (st_saveNodeAnnouncement (gf_gossipStore F) msg)) (return_io (Inr [GNode msg])))))"

definition validateChannelUpdate :: "('s, 'p) gossip_filter \<Rightarrow> channel_update \<Rightarrow> ('s \<times> 'p, filter_result) io" where
  "validateChannelUpdate F msg =
     bind_io (on_gossip (st_findChannelAnnouncement (gf_gossipStore F) (cu_shortChannelId msg))) (\<lambda>channelMessage.
     case channelMessage of
       None \<Rightarrow> then_io (on_pending (st_saveChannelUpdate (gf_pendingStore F) msg)) (return_io (Inr []))
     | Some channelMessage \<Rightarrow>
         bind_io (on_gossip (st_findChannelUpdate (gf_gossipStore F) (cu_shortChannelId msg) (cu_direction msg))) (\<lambda>existingUpdate.
         if (case existingUpdate of None \<Rightarrow> False | Some e \<Rightarrow> cu_timestamp e \<ge> cu_timestamp msg) then return_io (Inr [])
         else let nodeId = (if cu_direction msg = 0 then ca_nodeId1 else ca_nodeId2) (an_message channelMessage)
         in bind_io (lift_io (cu_validateSignature (gf_sha256 F) (gf_verifySig F) msg nodeId)) (\<lambda>ok.
            if \<not> ok then return_io (Inl chanUpdSigFailed)
            else then_io (on_gossip (st_saveChannelUpdate (gf_gossipStore F) msg)) (return_io (Inr [GUpdate msg])))))"

text \<open>What the chain says about the announced funding output; an empty string counts as missing.\<close>

definition truthyText :: "string option \<Rightarrow> string option" where
  "truthyText x = (case x of None \<Rightarrow> None | Some t \<Rightarrow> if t = [] then None else Some t)"

definition extendAnnouncement ::
  "(buffer \<Rightarrow> buffer) \<Rightarrow> chain_client \<Rightarrow> channel_announcement \<Rightarrow> (WireErrorCode + announcement) res" where
  "extendAnnouncement sha256 chain msg = (let scid = ca_shortChannelId msg in
     bind_res (cc_getBlockHash chain (sc_block scid)) (\<lambda>blockHash.
     case truthyText blockHash of None \<Rightarrow> Inr (Inl chanBadBlockHash) | Some blockHash \<Rightarrow>
     bind_res (cc_getBlockSummary chain blockHash) (\<lambda>block.
     case block of None \<Rightarrow> Inr (Inl chanBadBlock) | Some txs \<Rightarrow>
    (case truthyText (if sc_txIdx scid < length txs then Some (txs ! sc_txIdx scid) else None) of None \<Rightarrow> Inr (Inl chanAnnBadTx) | Some txId \<Rightarrow>
     bind_res (cc_getUtxo chain txId (sc_voutIdx scid)) (\<lambda>utxo.
     case utxo of None \<Rightarrow> Inr (Inl chanUtxoSpent) | Some utxo \<Rightarrow>
     bind_res (utils_fundingScript sha256 (ca_bitcoinKey1 msg) (ca_bitcoinKey2 msg)) (\<lambda>expectedScript.
     if expectedScript \<noteq> hexBuffer (ux_scriptPubKey utxo) then Inr (Inl chanBadScript)
     else bind_res (hv_fromRpc txId) (\<lambda>txid.
       Inr (Inr (Extended ((xa_fromMessage msg)
         \<lparr>xa_outpoint := Some \<lparr>op_txid = txid, op_outputIndex = sc_voutIdx scid\<rparr>, xa_capacity := Some (ux_satoshis utxo)\<rparr>))))))))))"

text \<open>The messages that waited for the announcement, with what has been collected so far.\<close>

primrec processPendingUpdates ::
  "('s, 'p) gossip_filter \<Rightarrow> channel_update option list \<Rightarrow> gossip_message list \<Rightarrow> ('s \<times> 'p, filter_result) io" where
  "processPendingUpdates F [] results = return_io (Inr results)"
| "processPendingUpdates F (u # us) results = (case u of None \<Rightarrow> processPendingUpdates F us results
   | Some pendingUpdate \<Rightarrow>
       then_io (on_pending (st_deleteChannelUpdate (gf_pendingStore F) (cu_shortChannelId pendingUpdate) (cu_direction pendingUpdate)))
      (bind_io (validateChannelUpdate F pendingUpdate) (\<lambda>result.
       case result of Inl e \<Rightarrow> return_io (Inl e) | Inr found \<Rightarrow> processPendingUpdates F us (results @ found))))"

primrec processPendingNodes ::
  "('s, 'p) gossip_filter \<Rightarrow> node_announcement option list \<Rightarrow> gossip_message list \<Rightarrow> ('s \<times> 'p, filter_result) io" where
  "processPendingNodes F [] results = return_io (Inr results)"
| "processPendingNodes F (a # as) results = (case a of None \<Rightarrow> processPendingNodes F as results
   | Some pendingNodeAnn \<Rightarrow>
       then_io (on_pending (st_deleteNodeAnnouncement (gf_pendingStore F) (na_nodeId pendingNodeAnn)))
      (bind_io (validateNodeAnnouncement F pendingNodeAnn) (\<lambda>result.
       case result of Inl e \<Rightarrow> return_io (Inl e) | Inr found \<Rightarrow> processPendingNodes F as (results @ found))))"

definition processPending :: "('s, 'p) gossip_filter \<Rightarrow> announcement \<Rightarrow> ('s \<times> 'p, filter_result) io" where
  "processPending F msg = (let scid = an_scid msg; P = gf_pendingStore F in
     bind_io (on_pending (st_findChannelUpdate P scid 0)) (\<lambda>u0.
     bind_io (on_pending (st_findChannelUpdate P scid 1)) (\<lambda>u1.
     bind_io (processPendingUpdates F [u0, u1] [GChannel msg]) (\<lambda>result.
     case result of Inl e \<Rightarrow> return_io (Inl e) | Inr results \<Rightarrow>
     bind_io (on_pending (st_findNodeAnnouncement P (ca_nodeId1 (an_message msg)))) (\<lambda>n1.
     bind_io (on_pending (st_findNodeAnnouncement P (ca_nodeId2 (an_message msg)))) (\<lambda>n2.
     processPendingNodes F [n1, n2] results))))))"

definition validateChannelAnnouncement ::
  "('s, 'p) gossip_filter \<Rightarrow> chain_client option \<Rightarrow> channel_announcement \<Rightarrow> ('s \<times> 'p, filter_result) io" where
  "validateChannelAnnouncement F chainClient msg =
     bind_io (on_gossip (st_findChannelAnnouncement (gf_gossipStore F) (ca_shortChannelId msg))) (\<lambda>existing.
     if (case existing of Some (Extended _) \<Rightarrow> True | _ \<Rightarrow> False) then return_io (Inr [])
     else if existing \<noteq> None \<and> chainClient = None then return_io (Inr [])
     else bind_io (lift_io (ca_verifySignatures (gf_sha256 F) (gf_verifySig F) msg)) (\<lambda>ok.
     if \<not> ok then return_io (Inl chanAnnSigFailed)
     else bind_io (lift_io (case chainClient of None \<Rightarrow> Inr (Inr (Plain msg))
            | Some chain \<Rightarrow> extendAnnouncement (gf_sha256 F) chain msg)) (\<lambda>extended.
     case extended of Inl e \<Rightarrow> return_io (Inl e)
     | Inr msg \<Rightarrow> then_io (on_gossip (st_saveChannelAnnouncement (gf_gossipStore F) msg)) (processPending F msg))))"

definition validateMessage ::
  "('s, 'p) gossip_filter \<Rightarrow> chain_client option \<Rightarrow> wire_message \<Rightarrow> ('s \<times> 'p, filter_result) io" where
  "validateMessage F chainClient msg = (case msg of
     MChannelAnnouncement m \<Rightarrow> validateChannelAnnouncement F chainClient m
   | MNodeAnnouncement m \<Rightarrow> validateNodeAnnouncement F m
   | MChannelUpdate m \<Rightarrow> validateChannelUpdate F m
   | _ \<Rightarrow> return_io (Inr []))"

end
