(* ===== verification/GossipFilterFacts.thy ===== *)
theory GossipFilterFacts
  imports GossipFilter
begin

text \<open>
  What the filter lets into the store: an abstract specification of the accepted messages, the
  refinement of it by the filter over any pair of stores that keeps the laws, and the invariant of
  the store that follows.
\<close>

section \<open>The accepted messages\<close>

text \<open>What the chain has to say about an announced channel.\<close>

definition chain_confirms :: "(buffer \<Rightarrow> buffer) \<Rightarrow> chain_client \<Rightarrow> extended_announcement \<Rightarrow> bool" where
  "chain_confirms sha256 chain x \<longleftrightarrow> (\<exists>blockHash txs txId utxo txid. let m = xa_message x; scid = ca_shortChannelId m in
     cc_getBlockHash chain (sc_block scid) = Inr (Some blockHash) \<and> cc_getBlockSummary chain blockHash = Inr (Some txs)
   \<and> sc_txIdx scid < length txs \<and> txs ! sc_txIdx scid = txId \<and> cc_getUtxo chain txId (sc_voutIdx scid) = Inr (Some utxo)
   \<and> utils_fundingScript sha256 (ca_bitcoinKey1 m) (ca_bitcoinKey2 m) = Inr (hexBuffer (ux_scriptPubKey utxo))
   \<and> hv_fromRpc txId = Inr txid \<and> xa_outpoint x = Some \<lparr>op_txid = txid, op_outputIndex = sc_voutIdx scid\<rparr>
   \<and> xa_capacity x = Some (ux_satoshis utxo))"

text \<open>The node whose updates have a direction.\<close>

definition signer :: "nat \<Rightarrow> announcement \<Rightarrow> buffer" where
  "signer d m = (if d = 0 then ca_nodeId1 else ca_nodeId2) (an_message m)"

text \<open>
  One message is accepted, for a node with or without a chain client (\<open>clients\<close> are the clients that
  have been asked, empty without one).
\<close>

inductive accepts ::
  "('s, 'p) gossip_filter \<Rightarrow> chain_client set \<Rightarrow> gossip_view \<Rightarrow> gossip_message \<Rightarrow> gossip_view \<Rightarrow> bool"
  for F :: "('s, 'p) gossip_filter" and clients :: "chain_client set" where
  node: "na_verifySignatures (gf_sha256 F) (gf_verifySig F) a = Inr True \<Longrightarrow> gv_links v (na_nodeId a) \<noteq> {}
    \<Longrightarrow> (\<And>e. gv_node v (na_nodeId a) = Some e \<Longrightarrow> na_timestamp e < na_timestamp a)
    \<Longrightarrow> accepts F clients v (GNode a) (view_node (na_nodeId a) (Some a) v)"
| update: "gv_channel v (cu_shortChannelId u) = Some m \<Longrightarrow> scid_wf (cu_shortChannelId u)
    \<Longrightarrow> cu_validateSignature (gf_sha256 F) (gf_verifySig F) u
          (signer (cu_direction u) m) = Inr True
    \<Longrightarrow> (\<And>e. gv_update v (cu_shortChannelId u) (cu_direction u) = Some e \<Longrightarrow> cu_timestamp e < cu_timestamp u)
    \<Longrightarrow> accepts F clients v (GUpdate u) (view_update (cu_shortChannelId u) (cu_direction u) (Some u) v)"
| plain: "clients = {} \<Longrightarrow> gv_channel v (ca_shortChannelId m) = None \<Longrightarrow> scid_wf (ca_shortChannelId m)
    \<Longrightarrow> ca_verifySignatures (gf_sha256 F) (gf_verifySig F) m = Inr True
    \<Longrightarrow> accepts F clients v (GChannel (Plain m)) (view_channel (Plain m) v)"
| confirmed: "chain \<in> clients \<Longrightarrow> (\<And>y. gv_channel v (ca_shortChannelId (xa_message x)) \<noteq> Some (Extended y))
    \<Longrightarrow> scid_wf (ca_shortChannelId (xa_message x)) \<Longrightarrow> xa_outpoint x \<noteq> None
    \<Longrightarrow> ca_verifySignatures (gf_sha256 F) (gf_verifySig F) (xa_message x) = Inr True
    \<Longrightarrow> chain_confirms (gf_sha256 F) chain x
    \<Longrightarrow> accepts F clients v (GChannel (Extended x)) (view_channel (Extended x) v)"

inductive accepted ::
  "('s, 'p) gossip_filter \<Rightarrow> chain_client set \<Rightarrow> gossip_view \<Rightarrow> gossip_message list \<Rightarrow> gossip_view \<Rightarrow> bool"
  for F :: "('s, 'p) gossip_filter" and clients :: "chain_client set" where
  none: "accepted F clients v [] v"
| more: "accepts F clients v m v' \<Longrightarrow> accepted F clients v' ms v'' \<Longrightarrow> accepted F clients v (m # ms) v''"

lemma accepted_append: "accepted F clients v ms v' \<Longrightarrow> accepted F clients v' ns v'' \<Longrightarrow> accepted F clients v (ms @ ns) v''"
  by (induction rule: accepted.induct) (auto intro: accepted.intros)

lemma accepted_one: "accepts F clients v m v' \<Longrightarrow> accepted F clients v [m] v'"
  by (blast intro: accepted.intros)

lemma accepts_mono: "accepts F clients v m v' \<Longrightarrow> clients \<subseteq> clients' \<Longrightarrow> clients \<noteq> {} \<or> clients' = {} \<Longrightarrow> accepts F clients' v m v'"
  by (induction rule: accepts.induct) (auto intro: accepts.intros)

section \<open>The filter refines it\<close>

text \<open>The messages in the pending store are under their own keys.\<close>

definition pending_ok :: "gossip_view \<Rightarrow> bool" where
  "pending_ok w \<longleftrightarrow> (\<forall>c d u. gv_update w c d = Some u \<longrightarrow> cu_shortChannelId u = c \<and> cu_direction u = d \<and> scid_wf c)
     \<and> (\<forall>n a. gv_node w n = Some a \<longrightarrow> na_nodeId a = n)"

lemma pending_ok_simps [intro]:
  "pending_ok w \<Longrightarrow> scid_wf (cu_shortChannelId u) \<Longrightarrow> pending_ok (view_update (cu_shortChannelId u) (cu_direction u) (Some u) w)"
  "pending_ok w \<Longrightarrow> pending_ok (view_update c d None w)"
  "pending_ok w \<Longrightarrow> pending_ok (view_node (na_nodeId a) (Some a) w)"
  "pending_ok w \<Longrightarrow> pending_ok (view_node n None w)"
  by (auto simp: pending_ok_def view_update_def view_node_def split: if_splits)

text \<open>Parsed messages have identifiers whose fields fit their widths.\<close>

definition msg_ok :: "wire_message \<Rightarrow> bool" where
  "msg_ok msg \<longleftrightarrow> (case msg of MChannelAnnouncement m \<Rightarrow> scid_wf (ca_shortChannelId m)
     | MChannelUpdate u \<Rightarrow> scid_wf (cu_shortChannelId u) | _ \<Rightarrow> True)"

lemma msg_ok_simps [simp]:
  "msg_ok (MChannelAnnouncement m) = scid_wf (ca_shortChannelId m)" "msg_ok (MChannelUpdate u) = scid_wf (cu_shortChannelId u)"
  by (simp_all add: msg_ok_def)

locale gossip_filter_laws =
  G: gossip_store_laws "gf_gossipStore F" good view + P: gossip_store_laws "gf_pendingStore F" pgood pview
  for F :: "('s, 'p) gossip_filter" and good :: "'s \<Rightarrow> bool" and view :: "'s \<Rightarrow> gossip_view"
    and pgood :: "'p \<Rightarrow> bool" and pview :: "'p \<Rightarrow> gossip_view"
begin

definition stores_ok :: "'s \<times> 'p \<Rightarrow> bool" where
  "stores_ok s \<longleftrightarrow> good (fst s) \<and> pgood (snd s) \<and> pending_ok (pview (snd s))"

text \<open>
  An operation refines the specification if it keeps the stores well-formed, and if what it changes
  in the store is what messages are accepted for; when it is successful it returns them, after those
  collected before.
\<close>

definition refines_accepted :: "chain_client set \<Rightarrow> gossip_message list \<Rightarrow> ('s \<times> 'p, filter_result) io \<Rightarrow> bool" where
  "refines_accepted clients pre m \<longleftrightarrow> (\<forall>s r s'. stores_ok s \<longrightarrow> m s = (r, s') \<longrightarrow> stores_ok s' \<and>
     (\<exists>ms. accepted F clients (view (fst s)) ms (view (fst s')) \<and> (\<forall>out. r = Inr (Inr out) \<longrightarrow> out = pre @ ms)))"

lemma refinesI:
  "(\<And>s r s'. stores_ok s \<Longrightarrow> m s = (r, s') \<Longrightarrow> stores_ok s' \<and>
     (\<exists>ms. accepted F clients (view (fst s)) ms (view (fst s')) \<and> (\<forall>out. r = Inr (Inr out) \<longrightarrow> out = pre @ ms)))
   \<Longrightarrow> refines_accepted clients pre m"
  unfolding refines_accepted_def by blast

lemma refinesD:
  assumes "refines_accepted clients pre m" "stores_ok s" "m s = (r, s')"
  shows "stores_ok s' \<and> (\<exists>ms. accepted F clients (view (fst s)) ms (view (fst s')) \<and> (\<forall>out. r = Inr (Inr out) \<longrightarrow> out = pre @ ms))"
  using assms(1) [unfolded refines_accepted_def, THEN spec, THEN spec, THEN spec, THEN mp, THEN mp, OF assms(2,3)] .

lemma refines_return: "refines_accepted clients pre (return_io (Inr pre))" "refines_accepted clients pre (return_io (Inl e))"
  by (auto simp: refines_accepted_def io_simps intro!: exI [of _ "[]"] accepted.none)

lemma refines_read:
  assumes "\<And>s. stores_ok s \<Longrightarrow> \<exists>x. m s = (Inr x, s) \<and> Q x" "\<And>x. Q x \<Longrightarrow> refines_accepted clients pre (f x)"
  shows "refines_accepted clients pre (bind_io m f)"
proof (rule refinesI)
  fix s r s' assume s: "stores_ok s" "bind_io m f s = (r, s')"
  obtain x where "m s = (Inr x, s)" "Q x" using assms(1) [OF s(1)] by blast
  then have "f x s = (r, s')" using s(2) by (simp add: io_simps)
  from refinesD [OF assms(2) [OF \<open>Q x\<close>] s(1) this] show "stores_ok s' \<and> (\<exists>ms. accepted F clients (view (fst s)) ms (view (fst s')) \<and> (\<forall>out. r = Inr (Inr out) \<longrightarrow> out = pre @ ms))"
    by simp
qed

lemma refines_quiet:
  assumes "\<And>s. stores_ok s \<Longrightarrow> \<exists>s'. m s = (Inr (), s') \<and> stores_ok s' \<and> view (fst s') = view (fst s)" "refines_accepted clients pre n"
  shows "refines_accepted clients pre (then_io m n)"
proof (rule refinesI)
  fix s r s' assume s: "stores_ok s" "then_io m n s = (r, s')"
  obtain t where "m s = (Inr (), t)" "stores_ok t" "view (fst t) = view (fst s)" using assms(1) [OF s(1)] by blast
  moreover from this have "n t = (r, s')" using s(2) by (simp add: io_simps)
  ultimately show "stores_ok s' \<and> (\<exists>ms. accepted F clients (view (fst s)) ms (view (fst s')) \<and> (\<forall>out. r = Inr (Inr out) \<longrightarrow> out = pre @ ms))"
    using refinesD [OF assms(2)] by metis
qed

lemma refines_bind:
  assumes "refines_accepted clients q m" "\<And>found. refines_accepted clients (h found) (f found)" "\<And>ms. h (q @ ms) = pre @ ms"
  shows "refines_accepted clients pre (bind_io m (\<lambda>result. case result of Inl e \<Rightarrow> return_io (Inl e) | Inr found \<Rightarrow> f found))"
proof (rule refinesI)
  fix s r s' assume s: "stores_ok s" "bind_io m (\<lambda>result. case result of Inl e \<Rightarrow> return_io (Inl e) | Inr found \<Rightarrow> f found) s = (r, s')"
  obtain res t where t: "m s = (res, t)" by (cases "m s")
  then obtain ms where m: "stores_ok t" "accepted F clients (view (fst s)) ms (view (fst t))" "\<And>out. res = Inr (Inr out) \<Longrightarrow> out = q @ ms"
    using refinesD [OF assms(1) s(1)] by auto
  show "stores_ok s' \<and> (\<exists>ms. accepted F clients (view (fst s)) ms (view (fst s')) \<and> (\<forall>out. r = Inr (Inr out) \<longrightarrow> out = pre @ ms))"
  proof (cases "\<exists>found. res = Inr (Inr found)")
    case True
    then obtain found where q: "res = Inr (Inr found)" by blast
    then have "f found t = (r, s')" using s(2) t by (simp add: io_simps)
    then obtain ns where "stores_ok s'" "accepted F clients (view (fst t)) ns (view (fst s'))" "\<And>out. r = Inr (Inr out) \<Longrightarrow> out = h found @ ns"
      using refinesD [OF assms(2) m(1) \<open>f found t = (r, s')\<close>] by blast
    then show ?thesis using accepted_append [OF m(2)] m(3) [OF q] assms(3) by (auto intro!: exI [of _ "ms @ ns"])
  next
    case False
    then have "s' = t" "\<And>out. r \<noteq> Inr (Inr out)" using s(2) t by (auto simp: io_simps split: sum.splits)
    then show ?thesis using m by auto
  qed
qed

lemma refines_node: "refines_accepted clients [] (validateNodeAnnouncement F a)"
proof (rule refinesI)
  fix s r s' assume ok: "stores_ok s" and run: "validateNodeAnnouncement F a s = (r, s')"
  obtain g p where s: "s = (g, p)" by (cases s)
  have g: "good g" "pgood p" "pending_ok (pview p)" using ok s by (simp_all add: stores_ok_def)
  obtain cs where cs: "st_findChannelsForNode (gf_gossipStore F) (na_nodeId a) g = (Inr cs, g)" "set cs = gv_links (view g) (na_nodeId a)"
    using G.find_links [OF g(1)] by blast
  obtain p' where p': "st_saveNodeAnnouncement (gf_pendingStore F) a p = (Inr (), p')" "pgood p'" "pview p' = view_node (na_nodeId a) (Some a) (pview p)"
    using P.save_node [OF g(2)] by blast
  obtain g' where g': "st_saveNodeAnnouncement (gf_gossipStore F) a g = (Inr (), g')" "good g'" "view g' = view_node (na_nodeId a) (Some a) (view g)"
    using G.save_node [OF g(1)] by blast
  have "validateNodeAnnouncement F a (g, p) =
      (if \<exists>e. gv_node (view g) (na_nodeId a) = Some e \<and> na_timestamp e \<ge> na_timestamp a then (Inr (Inr []), (g, p))
       else if gv_links (view g) (na_nodeId a) = {} then (Inr (Inr []), (g, p'))
       else case na_verifySignatures (gf_sha256 F) (gf_verifySig F) a of Inl e \<Rightarrow> (Inl e, (g, p))
            | Inr ok \<Rightarrow> if ok then (Inr (Inr [GNode a]), (g', p)) else (Inr (Inl nodeAnnSigFailed), (g, p)))"
    using cs p'(1) g'(1) G.find_node [OF g(1)]
    by (auto simp: validateNodeAnnouncement_def io_simps split: sum.split option.splits)
  with run s have r: "(r, s') = (if \<exists>e. gv_node (view g) (na_nodeId a) = Some e \<and> na_timestamp e \<ge> na_timestamp a then (Inr (Inr []), (g, p))
       else if gv_links (view g) (na_nodeId a) = {} then (Inr (Inr []), (g, p'))
       else case na_verifySignatures (gf_sha256 F) (gf_verifySig F) a of Inl e \<Rightarrow> (Inl e, (g, p))
            | Inr ok \<Rightarrow> if ok then (Inr (Inr [GNode a]), (g', p)) else (Inr (Inl nodeAnnSigFailed), (g, p)))" by simp
  show "stores_ok s' \<and> (\<exists>ms. accepted F clients (view (fst s)) ms (view (fst s')) \<and> (\<forall>out. r = Inr (Inr out) \<longrightarrow> out = [] @ ms))"
  proof (cases "r = Inr (Inr [GNode a])")
    case True
    then have "s' = (g', p)" "accepts F clients (view g) (GNode a) (view_node (na_nodeId a) (Some a) (view g))"
      using r by (auto split: if_splits sum.splits intro!: accepts.node)
    then show ?thesis using True g g' s accepted_one by (auto simp: stores_ok_def)
  next
    case False
    then have "s' = (g, p) \<or> s' = (g, p')" "\<And>out. r = Inr (Inr out) \<Longrightarrow> out = []"
      using r by (auto split: if_splits sum.splits)
    then show ?thesis using g p' s by (auto simp: stores_ok_def intro!: exI [of _ "[]"] accepted.none)
  qed
qed

lemma refines_update:
  assumes "scid_wf (cu_shortChannelId u)" shows "refines_accepted clients [] (validateChannelUpdate F u)"
proof (rule refinesI)
  fix s r s' assume ok: "stores_ok s" and run: "validateChannelUpdate F u s = (r, s')"
  let ?c = "cu_shortChannelId u" and ?d = "cu_direction u"
  obtain g p where s: "s = (g, p)" by (cases s)
  have g: "good g" "pgood p" "pending_ok (pview p)" using ok s by (simp_all add: stores_ok_def)
  obtain p' where p': "st_saveChannelUpdate (gf_pendingStore F) u p = (Inr (), p')" "pgood p'" "pview p' = view_update ?c ?d (Some u) (pview p)"
    using P.save_update [OF g(2) assms] by blast
  obtain g' where g': "st_saveChannelUpdate (gf_gossipStore F) u g = (Inr (), g')" "good g'" "view g' = view_update ?c ?d (Some u) (view g)"
    using G.save_update [OF g(1) assms] by blast
  have "validateChannelUpdate F u (g, p) = (case gv_channel (view g) ?c of None \<Rightarrow> (Inr (Inr []), (g, p')) | Some m \<Rightarrow>
       if \<exists>e. gv_update (view g) ?c ?d = Some e \<and> cu_timestamp e \<ge> cu_timestamp u then (Inr (Inr []), (g, p))
       else case cu_validateSignature (gf_sha256 F) (gf_verifySig F) u (signer ?d m) of Inl e \<Rightarrow> (Inl e, (g, p))
            | Inr ok \<Rightarrow> if ok then (Inr (Inr [GUpdate u]), (g', p)) else (Inr (Inl chanUpdSigFailed), (g, p)))"
    using p'(1) g'(1) G.find_channel [OF g(1) assms] G.find_update [OF g(1) assms less_2_upd]
    by (cases "gv_channel (view g) ?c"; cases "gv_update (view g) ?c ?d")
      (simp_all add: validateChannelUpdate_def io_simps Let_def signer_def split: sum.split)
  with run s have r: "(r, s') = (case gv_channel (view g) ?c of None \<Rightarrow> (Inr (Inr []), (g, p')) | Some m \<Rightarrow>
       if \<exists>e. gv_update (view g) ?c ?d = Some e \<and> cu_timestamp e \<ge> cu_timestamp u then (Inr (Inr []), (g, p))
       else case cu_validateSignature (gf_sha256 F) (gf_verifySig F) u (signer ?d m) of Inl e \<Rightarrow> (Inl e, (g, p))
            | Inr ok \<Rightarrow> if ok then (Inr (Inr [GUpdate u]), (g', p)) else (Inr (Inl chanUpdSigFailed), (g, p)))" by simp
  show "stores_ok s' \<and> (\<exists>ms. accepted F clients (view (fst s)) ms (view (fst s')) \<and> (\<forall>out. r = Inr (Inr out) \<longrightarrow> out = [] @ ms))"
  proof (cases "r = Inr (Inr [GUpdate u])")
    case True
    then obtain m where m: "gv_channel (view g) ?c = Some m" using r by (cases "gv_channel (view g) ?c") auto
    then have "s' = (g', p)"
      "cu_validateSignature (gf_sha256 F) (gf_verifySig F) u (signer ?d m) = Inr True"
      "\<And>e. gv_update (view g) ?c ?d = Some e \<Longrightarrow> cu_timestamp e < cu_timestamp u"
      using r True by (auto split: if_splits sum.splits)
    then show ?thesis using m True g g' s accepted_one [OF accepts.update [of "view g" u m F clients]] assms
      by (auto simp: stores_ok_def)
  next
    case False
    then have "s' = (g, p) \<or> s' = (g, p')" "\<And>out. r = Inr (Inr out) \<Longrightarrow> out = []"
      using r by (auto split: if_splits sum.splits option.splits)
    then show ?thesis using g p' s assms by (auto simp: stores_ok_def intro!: exI [of _ "[]"] accepted.none)
  qed
qed

lemma refines_pendingUpdates:
  "(\<And>u. Some u \<in> set us \<Longrightarrow> scid_wf (cu_shortChannelId u)) \<Longrightarrow> refines_accepted clients pre (processPendingUpdates F us pre)"
proof (induction us arbitrary: pre)
  case (Cons u us)
  show ?case
  proof (cases u)
    case (Some x)
    then have wf: "scid_wf (cu_shortChannelId x)" using Cons.prems by simp
    show ?thesis unfolding processPendingUpdates.simps Some option.case
    proof (rule refines_quiet)
      fix s assume "stores_ok s"
      then show "\<exists>s'. on_pending (st_deleteChannelUpdate (gf_pendingStore F) (cu_shortChannelId x) (cu_direction x)) s = (Inr (), s')
          \<and> stores_ok s' \<and> view (fst s') = view (fst s)"
        using P.delete_update [of "snd s", OF _ wf less_2_upd [of x]] by (fastforce simp: io_simps stores_ok_def)
    qed (rule refines_bind [OF refines_update [OF wf], where h = "(@) pre"], rule Cons.IH, use Cons.prems in simp_all)
  qed (use Cons in simp)
qed (simp add: refines_return)

lemma refines_pendingNodes: "refines_accepted clients pre (processPendingNodes F as pre)"
proof (induction as arbitrary: pre)
  case (Cons a as)
  show ?case
  proof (cases a)
    case (Some x)
    show ?thesis unfolding processPendingNodes.simps Some option.case
    proof (rule refines_quiet)
      fix s assume "stores_ok s"
      then show "\<exists>s'. on_pending (st_deleteNodeAnnouncement (gf_pendingStore F) (na_nodeId x)) s = (Inr (), s')
          \<and> stores_ok s' \<and> view (fst s') = view (fst s)"
        using P.delete_node [of "snd s" "na_nodeId x"] by (fastforce simp: io_simps stores_ok_def)
    qed (rule refines_bind [OF refines_node, where h = "(@) pre"], rule Cons.IH, simp)
  qed (use Cons in simp)
qed (simp add: refines_return)

lemma pending_update_wf:
  assumes "scid_wf c" "stores_ok s" "d < 2"
  shows "\<exists>x. on_pending (st_findChannelUpdate (gf_pendingStore F) c d) s = (Inr x, s) \<and> (\<forall>u. x = Some u \<longrightarrow> scid_wf (cu_shortChannelId u))"
  using assms P.find_update [of "snd s" c d] by (auto simp: io_simps stores_ok_def pending_ok_def)

lemma pending_node_found:
  "stores_ok s \<Longrightarrow> \<exists>x. on_pending (st_findNodeAnnouncement (gf_pendingStore F) n) s = (Inr x, s) \<and> True"
  using P.find_node [of "snd s" n] by (auto simp: io_simps stores_ok_def)

lemma refines_pending:
  assumes "scid_wf (an_scid m)" shows "refines_accepted clients [GChannel m] (processPending F m)"
proof -
  have rest: "refines_accepted clients [GChannel m] (bind_io (processPendingUpdates F [u0, u1] [GChannel m]) (\<lambda>result.
     case result of Inl e \<Rightarrow> return_io (Inl e) | Inr results \<Rightarrow>
     bind_io (on_pending (st_findNodeAnnouncement (gf_pendingStore F) (ca_nodeId1 (an_message m)))) (\<lambda>n1.
     bind_io (on_pending (st_findNodeAnnouncement (gf_pendingStore F) (ca_nodeId2 (an_message m)))) (\<lambda>n2.
     processPendingNodes F [n1, n2] results))))"
    if "\<forall>u. u0 = Some u \<longrightarrow> scid_wf (cu_shortChannelId u)" "\<forall>u. u1 = Some u \<longrightarrow> scid_wf (cu_shortChannelId u)" for u0 u1
    by (rule refines_bind [where q = "[GChannel m]" and h = id])
      (use that in \<open>auto simp del: processPendingUpdates.simps processPendingNodes.simps
        intro!: refines_pendingUpdates refines_read [OF pending_node_found] refines_pendingNodes\<close>)
  then show ?thesis unfolding processPending_def Let_def
    by (intro refines_read [OF pending_update_wf [OF assms]] rest) simp_all
qed

text \<open>The announcement is accepted first, then what waited for it.\<close>

lemma truthy_Some [simp]: "truthyText x = Some y \<longleftrightarrow> x = Some y \<and> y \<noteq> []"
  by (auto simp: truthyText_def split: option.splits)

lemma extendAnnouncement_confirms:
  assumes "extendAnnouncement sha256 chain m = Inr (Inr e)"
  shows "\<exists>x. e = Extended x \<and> xa_message x = m \<and> xa_outpoint x \<noteq> None \<and> chain_confirms sha256 chain x"
proof -
  let ?c = "ca_shortChannelId m"
  note [simp] = bind_res_eq_Inr
  obtain hash where h: "cc_getBlockHash chain (sc_block ?c) = Inr (Some hash)" "hash \<noteq> []"
    using assms by (cases "cc_getBlockHash chain (sc_block ?c)"; cases "truthyText (projr (cc_getBlockHash chain (sc_block ?c)))")
      (auto simp: extendAnnouncement_def Let_def)
  then have th: "truthyText (Some hash) = Some hash" by simp
  obtain txs where t: "cc_getBlockSummary chain hash = Inr (Some txs)"
    using assms h th by (cases "cc_getBlockSummary chain hash"; cases "projr (cc_getBlockSummary chain hash)") (auto simp: extendAnnouncement_def Let_def)
  obtain tx where x: "sc_txIdx ?c < length txs" "txs ! sc_txIdx ?c = tx" "truthyText (Some tx) = Some tx"
    using assms h(1) th t by (cases "truthyText (if sc_txIdx ?c < length txs then Some (txs ! sc_txIdx ?c) else None)")
      (auto simp: extendAnnouncement_def Let_def split: if_splits)
  obtain u where u: "cc_getUtxo chain tx (sc_voutIdx ?c) = Inr (Some u)"
    using assms h(1) th t x by (cases "cc_getUtxo chain tx (sc_voutIdx ?c)"; cases "projr (cc_getUtxo chain tx (sc_voutIdx ?c))")
      (auto simp: extendAnnouncement_def Let_def)
  obtain s where s: "utils_fundingScript sha256 (ca_bitcoinKey1 m) (ca_bitcoinKey2 m) = Inr s"
    using assms h(1) th t x u by (auto simp: extendAnnouncement_def Let_def)
  obtain hv where "s = hexBuffer (ux_scriptPubKey u)" "hv_fromRpc tx = Inr hv"
    "e = Extended ((xa_fromMessage m) \<lparr>xa_outpoint := Some \<lparr>op_txid = hv, op_outputIndex = sc_voutIdx ?c\<rparr>, xa_capacity := Some (ux_satoshis u)\<rparr>)"
    using assms h(1) th t x u s by (auto simp: extendAnnouncement_def Let_def split: if_splits)
  then show ?thesis using h(1) t x u s by (auto simp: chain_confirms_def xa_fromMessage_def Let_def)
qed

lemma refines_channel:
  assumes "scid_wf (ca_shortChannelId m)" "clients = (case chain of None \<Rightarrow> {} | Some c \<Rightarrow> {c})"
  shows "refines_accepted clients [] (validateChannelAnnouncement F chain m)"
proof (rule refinesI)
  fix s r s' assume ok: "stores_ok s" and run: "validateChannelAnnouncement F chain m s = (r, s')"
  obtain g p where s: "s = (g, p)" by (cases s)
  have g: "good g" using ok s by (simp add: stores_ok_def)
  let ?ex = "gv_channel (view g) (ca_shortChannelId m)"
  let ?ext = "case chain of None \<Rightarrow> Inr (Inr (Plain m)) | Some c \<Rightarrow> extendAnnouncement (gf_sha256 F) c m"
  show "stores_ok s' \<and> (\<exists>ms. accepted F clients (view (fst s)) ms (view (fst s')) \<and> (\<forall>out. r = Inr (Inr out) \<longrightarrow> out = [] @ ms))"
  proof (cases "(\<forall>x. ?ex \<noteq> Some (Extended x)) \<and> (?ex = None \<or> chain \<noteq> None) \<and> ca_verifySignatures (gf_sha256 F) (gf_verifySig F) m = Inr True
      \<and> (\<exists>e. ?ext = Inr (Inr e))")
    case True
    then obtain e where e: "?ext = Inr (Inr e)" by blast
    have em: "an_message e = m"
      using e extendAnnouncement_confirms by (cases chain) fastforce+
    have "accepts F clients (view g) (GChannel e) (view_channel e (view g)) \<and> an_wf e"
    proof (cases chain)
      case None
      then show ?thesis using e True assms by (auto intro: accepts.plain simp: an_wf_def)
    next
      case (Some c)
      then obtain x where x: "e = Extended x" "xa_message x = m" "xa_outpoint x \<noteq> None" "chain_confirms (gf_sha256 F) c x"
        using e extendAnnouncement_confirms by fastforce
      have "accepts F clients (view g) (GChannel (Extended x)) (view_channel (Extended x) (view g))"
        by (rule accepts.confirmed [of c]) (use Some True assms x in auto)
      then show ?thesis using x assms(1) by (simp add: an_wf_def)
    qed
    then obtain g' where acc: "accepts F clients (view g) (GChannel e) (view g')" and g': "good g'"
      "st_saveChannelAnnouncement (gf_gossipStore F) e g = (Inr (), g')"
      using G.save_channel [OF g] by metis
    have "processPending F e (g', p) = (r, s')"
      using run s True e g' G.find_channel [OF g assms(1)]
      by (auto simp: validateChannelAnnouncement_def io_simps split: option.splits announcement.splits)
    with refinesD [OF refines_pending, of e "(g', p)" r s' clients] assms(1) em ok s g'(1)
    show ?thesis using acc by (auto simp: stores_ok_def intro: accepted.more)
  next
    case False
    then have "s' = (g, p) \<and> (\<forall>out. r = Inr (Inr out) \<longrightarrow> out = [])"
      using run s G.find_channel [OF g assms(1)]
      by (auto simp: validateChannelAnnouncement_def io_simps split: option.splits announcement.splits sum.splits if_splits)
    then show ?thesis using ok s by (auto intro: accepted.none)
  qed
qed

lemma refines_message:
  assumes "msg_ok msg" "clients = set_option chain"
  shows "refines_accepted clients [] (validateMessage F chain msg)"
proof (cases msg)
  case (MChannelAnnouncement m)
  then show ?thesis using assms refines_channel [of m clients chain]
    by (cases chain) (simp_all add: validateMessage_def)
next
  case (MChannelUpdate u)
  then show ?thesis using assms refines_update [of u clients] by (simp add: validateMessage_def)
next
  case (MNodeAnnouncement a)
  then show ?thesis using refines_node by (simp add: validateMessage_def)
qed (simp_all add: validateMessage_def refines_return)

text \<open>An update that comes before the announcement of its channel is kept, and accepted with it.\<close>

lemma early_update:
  assumes "stores_ok (g, p)" "scid_wf c" "ca_shortChannelId a = c" "cu_shortChannelId u = c" "cu_direction u = d"
    and "gv_channel (view g) c = None" "gv_update (view g) c d = None"
    and "ca_verifySignatures (gf_sha256 F) (gf_verifySig F) a = Inr True"
    and "(case chain of None \<Rightarrow> Inr (Inr (Plain a)) | Some ch \<Rightarrow> extendAnnouncement (gf_sha256 F) ch a) = Inr (Inr e)"
    and "cu_validateSignature (gf_sha256 F) (gf_verifySig F) u (signer d (Plain a)) = Inr True"
    and "gv_update (pview p) c (1 - d) = None" "gv_node (pview p) (ca_nodeId1 a) = None" "gv_node (pview p) (ca_nodeId2 a) = None"
  shows "\<exists>s1 s2. validateMessage F chain (MChannelUpdate u) (g, p) = (Inr (Inr []), s1)
    \<and> validateMessage F chain (MChannelAnnouncement a) s1 = (Inr (Inr [GChannel e, GUpdate u]), s2) \<and> stores_ok s2
    \<and> gv_channel (view (fst s2)) c = Some e \<and> gv_update (view (fst s2)) c d = Some u \<and> gv_update (pview (snd s2)) c d = None"
proof -
  have g: "good g" "pgood p" "pending_ok (pview p)" using assms(1) by (simp_all add: stores_ok_def)
  have d: "d < 2" using assms(5) less_2_upd by auto
  have e: "an_message e = a" "an_wf e"
    using assms(2,3,9) extendAnnouncement_confirms by (cases chain; fastforce simp: an_wf_def)+
  have key: "signer d e = signer d (Plain a)" using e by (simp add: signer_def)
  obtain p1 where p1: "st_saveChannelUpdate (gf_pendingStore F) u p = (Inr (), p1)" "pgood p1" "pview p1 = view_update c d (Some u) (pview p)"
    using P.save_update [OF g(2), of u] assms(2,4,5) by auto
  obtain g1 where g1: "st_saveChannelAnnouncement (gf_gossipStore F) e g = (Inr (), g1)" "good g1" "view g1 = view_channel e (view g)"
    using G.save_channel [OF g(1) e(2)] by blast
  obtain p2 where p2: "st_deleteChannelUpdate (gf_pendingStore F) c d p1 = (Inr (), p2)" "pgood p2" "pview p2 = view_update c d None (pview p1)"
    using P.delete_update [OF p1(2) assms(2) d] by blast
  obtain g2 where g2: "st_saveChannelUpdate (gf_gossipStore F) u g1 = (Inr (), g2)" "good g2" "view g2 = view_update c d (Some u) (view g1)"
    using G.save_update [OF g1(2), of u] assms(2,4,5) by auto
  have 1: "validateMessage F chain (MChannelUpdate u) (g, p) = (Inr (Inr []), (g, p1))"
    using G.find_channel [OF g(1) assms(2)] assms(4,6) p1(1) by (simp add: validateMessage_def validateChannelUpdate_def io_simps)
  have d': "1 - d \<noteq> d" "1 - d < 2" using d by arith+
  have pend: "st_findChannelUpdate (gf_pendingStore F) c d p1 = (Inr (Some u), p1)"
    "st_findChannelUpdate (gf_pendingStore F) c (1 - d) p1 = (Inr None, p1)"
    using P.find_update [OF p1(2) assms(2) d] P.find_update [OF p1(2) assms(2) d'(2)] d'(1) p1(3) assms(11) by (simp_all add: view_update_def)
  have upd: "validateChannelUpdate F u (g1, p2) = (Inr (Inr [GUpdate u]), (g2, p2))"
    using G.find_channel [OF g1(2) assms(2)] G.find_update [OF g1(2) assms(2) d] assms(3-5,7,10) e(1) g1(3) g2(1) key
    by (simp add: validateChannelUpdate_def io_simps view_channel_def Let_def signer_def)
  have nodes: "st_findNodeAnnouncement (gf_pendingStore F) (ca_nodeId1 a) p2 = (Inr None, p2)"
    "st_findNodeAnnouncement (gf_pendingStore F) (ca_nodeId2 a) p2 = (Inr None, p2)"
    using P.find_node [OF p2(2)] p1(3) p2(3) assms(12,13) by (simp_all add: view_update_def)
  have "processPending F e (g1, p1) = (Inr (Inr [GChannel e, GUpdate u]), (g2, p2))"
    using d pend p2(1) upd nodes e(1) assms(3-5)
    by (cases "d = 0") (auto simp: processPending_def Let_def io_simps less_2_cases_iff)
  then have 2: "validateMessage F chain (MChannelAnnouncement a) (g, p1) = (Inr (Inr [GChannel e, GUpdate u]), (g2, p2))"
    using G.find_channel [OF g(1) assms(2)] assms(3,6,8,9) g1(1) by (simp add: validateMessage_def validateChannelAnnouncement_def io_simps)
  have "pending_ok (pview p2)" using g(3) p1(3) p2(3) assms(2,4,5) by auto
  then show ?thesis using 1 2 g2 p2 p1(3) g1(3) e(1) assms(3)
    by (intro exI [of _ "(g, p1)"] exI [of _ "(g2, p2)"]) (simp add: stores_ok_def view_update_def view_channel_def)
qed

end

section \<open>The invariant of the store\<close>

definition authentic :: "('s, 'p) gossip_filter \<Rightarrow> chain_client set \<Rightarrow> gossip_view \<Rightarrow> bool" where
  "authentic F clients v \<longleftrightarrow>
     (\<forall>c m. gv_channel v c = Some m \<longrightarrow> an_scid m = c \<and> scid_wf c
        \<and> ca_verifySignatures (gf_sha256 F) (gf_verifySig F) (an_message m) = Inr True
        \<and> (case m of Plain _ \<Rightarrow> clients = {} | Extended x \<Rightarrow> \<exists>chain\<in>clients. chain_confirms (gf_sha256 F) chain x))
   \<and> (\<forall>c d u. gv_update v c d = Some u \<longrightarrow> cu_shortChannelId u = c \<and> cu_direction u = d \<and> (\<exists>m. gv_channel v c = Some m
        \<and> cu_validateSignature (gf_sha256 F) (gf_verifySig F) u (signer d m) = Inr True))
   \<and> (\<forall>n a. gv_node v n = Some a \<longrightarrow> na_nodeId a = n \<and> gv_links v n \<noteq> {}
        \<and> na_verifySignatures (gf_sha256 F) (gf_verifySig F) a = Inr True)"

lemma authentic_channel:
  "authentic F clients v \<Longrightarrow> gv_channel v c = Some m \<Longrightarrow> an_scid m = c
     \<and> ca_verifySignatures (gf_sha256 F) (gf_verifySig F) (an_message m) = Inr True
     \<and> (case m of Plain _ \<Rightarrow> clients = {} | Extended x \<Rightarrow> \<exists>chain\<in>clients. chain_confirms (gf_sha256 F) chain x)"
  by (simp add: authentic_def)

lemma accepts_authentic: "accepts F clients v m v' \<Longrightarrow> authentic F clients v \<Longrightarrow> authentic F clients v'"
proof (induction rule: accepts.induct)
  case (node a v)
  then show ?case by (auto simp: authentic_def view_node_def)
next
  case (update v u m)
  then show ?case unfolding authentic_def view_update_def by (fastforce split: if_splits)
next
  case (plain v m)
  then show ?case unfolding authentic_def view_channel_def by (fastforce split: if_splits)
next
  case (confirmed chain v x)
  have "gv_channel v (ca_shortChannelId (xa_message x)) = None"
  proof (cases "gv_channel v (ca_shortChannelId (xa_message x))")
    case (Some m)
    then show ?thesis using confirmed by (cases m) (fastforce simp: authentic_def)+
  qed
  then show ?case using confirmed unfolding authentic_def view_channel_def by (fastforce split: if_splits)
qed

lemma accepted_authentic: "accepted F clients v ms v' \<Longrightarrow> authentic F clients v \<Longrightarrow> authentic F clients v'"
  by (induction rule: accepted.induct) (auto dest: accepts_authentic)

lemma accepted_mono: "accepted F clients v ms v' \<Longrightarrow> clients \<subseteq> clients' \<Longrightarrow> clients \<noteq> {} \<or> clients' = {} \<Longrightarrow> accepted F clients' v ms v'"
  by (induction rule: accepted.induct) (auto intro: accepted.intros accepts_mono)

section \<open>Both stores in memory\<close>

definition memoryFilter :: "(buffer \<Rightarrow> buffer) \<Rightarrow> (buffer \<Rightarrow> buffer \<Rightarrow> buffer \<Rightarrow> bool) \<Rightarrow> (memory_store, memory_store) gossip_filter" where
  "memoryFilter sha256 verifySig = \<lparr>gf_sha256 = sha256, gf_verifySig = verifySig,
     gf_gossipStore = memoryStore, gf_pendingStore = memoryStore\<rparr>"

interpretation mf: gossip_filter_laws "memoryFilter hash verifySig" ms_good ms_view ms_good ms_view
  for hash :: "buffer \<Rightarrow> buffer" and verifySig :: "buffer \<Rightarrow> buffer \<Rightarrow> buffer \<Rightarrow> bool"
  by unfold_locales (simp_all add: memoryFilter_def ms.find_channel ms.find_update ms.find_node ms.find_links
      ms.save_channel ms.save_update ms.save_node ms.delete_update ms.delete_node)

abbreviation mf_ok :: "memory_store \<times> memory_store \<Rightarrow> bool" where
  "mf_ok \<equiv> gossip_filter_laws.stores_ok ms_good ms_good ms_view"

text \<open>A run: messages arrive, and at each the chain client, if there is one, has its own answers.\<close>

definition gossipRun ::
  "('s, 'p) gossip_filter \<Rightarrow> (chain_client option \<times> wire_message) list \<Rightarrow> 's \<times> 'p \<Rightarrow> 's \<times> 'p" where
  "gossipRun F steps s = foldl (\<lambda>s (chain, msg). snd (validateMessage F chain msg s)) s steps"

lemma gossipRun_simps [simp]:
  "gossipRun F [] s = s" "gossipRun F (x # steps) s = gossipRun F steps (snd (validateMessage F (fst x) (snd x) s))"
  by (simp_all add: gossipRun_def split: prod.split)

lemma gossipRun_accepted:
  assumes "\<And>chain msg. (chain, msg) \<in> set steps \<Longrightarrow> msg_ok msg \<and> set_option chain \<subseteq> clients \<and> (chain = None \<longrightarrow> clients = {})"
    and "mf_ok s"
  shows "mf_ok (gossipRun (memoryFilter sha256 verifySig) steps s)
   \<and> (\<exists>ms. accepted (memoryFilter sha256 verifySig) clients (ms_view (fst s)) ms
        (ms_view (fst (gossipRun (memoryFilter sha256 verifySig) steps s))))"
  using assms
proof (induction steps arbitrary: s)
  case Nil
  then show ?case using accepted.none by fastforce
next
  case (Cons x steps)
  let ?F = "memoryFilter sha256 verifySig"
  obtain chain msg where x: "x = (chain, msg)" by (cases x)
  have c: "msg_ok msg" "set_option chain \<subseteq> clients" "chain = None \<Longrightarrow> clients = {}"
    using Cons.prems(1) [of chain msg] x by auto
  obtain r s' where run: "validateMessage ?F chain msg s = (r, s')" by (cases "validateMessage ?F chain msg s")
  obtain ms where ms: "mf_ok s'" "accepted ?F (set_option chain) (ms_view (fst s)) ms (ms_view (fst s'))"
    using mf.refinesD [OF mf.refines_message [OF c(1) refl] Cons.prems(2) run] by blast
  have "accepted ?F clients (ms_view (fst s)) ms (ms_view (fst s'))"
    by (rule accepted_mono [OF ms(2) c(2)]) (use c(3) in \<open>cases chain; simp\<close>)
  moreover obtain ns where "mf_ok (gossipRun ?F steps s')" "accepted ?F clients (ms_view (fst s')) ns (ms_view (fst (gossipRun ?F steps s')))"
    using Cons.IH [OF _ ms(1)] Cons.prems(1) by (metis list.set_intros(2))
  ultimately show ?case using x run by (auto dest: accepted_append)
qed

lemma mf_ok_new: "mf_ok (newMemoryStore, newMemoryStore)"
  by (simp add: mf.stores_ok_def ms_good_new) (simp add: pending_ok_def ms_view_def newMemoryStore_def)

lemma authentic_new: "authentic F clients (ms_view newMemoryStore)"
  by (simp add: authentic_def ms_view_def newMemoryStore_def)

text \<open>
  C12: Whatever messages arrive, everything in the store is authentic.  A channel announcement carries
  four valid signatures, and with a chain client it has been extended with an unspent output that the
  chain pays to the funding script of its two keys; every update belongs to an announced
  channel and is signed by the node of its direction; every node announcement is signed, and its node
  has a channel.
\<close>

theorem gossip_store_authentic:
  assumes "\<forall>(chain, msg)\<in>set steps. msg_ok msg \<and> (chain = None \<longleftrightarrow> alone)"
    and "gossipRun (memoryFilter sha256 verifySig) steps (newMemoryStore, newMemoryStore) = (g, p)"
  shows "(\<forall>c m. scid_wf c \<longrightarrow> ms_findChannelAnnouncement c g = (Inr (Some m), g) \<longrightarrow>
       an_scid m = c \<and> ca_verifySignatures sha256 verifySig (an_message m) = Inr True
     \<and> (case m of Plain _ \<Rightarrow> alone | Extended x \<Rightarrow> \<exists>chain msg. (Some chain, msg) \<in> set steps \<and> chain_confirms sha256 chain x))
   \<and> (\<forall>c d u. scid_wf c \<longrightarrow> d < 2 \<longrightarrow> ms_findChannelUpdate c d g = (Inr (Some u), g) \<longrightarrow>
       cu_shortChannelId u = c \<and> cu_direction u = d \<and> (\<exists>m. ms_findChannelAnnouncement c g = (Inr (Some m), g)
     \<and> cu_validateSignature sha256 verifySig u ((if d = 0 then ca_nodeId1 else ca_nodeId2) (an_message m)) = Inr True))
   \<and> (\<forall>n a. ms_findNodeAnnouncement n g = (Inr (Some a), g) \<longrightarrow>
       na_nodeId a = n \<and> na_verifySignatures sha256 verifySig a = Inr True \<and> ms_findChannelsForNode n g \<noteq> (Inr [], g))"
proof -
  let ?F = "memoryFilter sha256 verifySig" and ?K = "{chain. \<exists>msg. (Some chain, msg) \<in> set steps}"
  have k: "msg_ok msg \<and> set_option chain \<subseteq> ?K \<and> (chain = None \<longrightarrow> ?K = {})" if "(chain, msg) \<in> set steps" for chain msg
    using assms(1) that by (cases chain) auto
  obtain ms where r: "mf_ok (g, p)" "accepted ?F ?K (ms_view newMemoryStore) ms (ms_view g)"
    using gossipRun_accepted [of steps ?K "(newMemoryStore, newMemoryStore)" sha256 verifySig, OF k mf_ok_new] assms(2) by auto
  have good: "ms_good g" using r(1) by (simp add: mf.stores_ok_def)
  have a: "authentic ?F ?K (ms_view g)" using accepted_authentic [OF r(2) authentic_new] .
  have channel: "ms_findChannelAnnouncement c g = (Inr (gv_channel (ms_view g) c), g)" if "scid_wf c" for c
    using ms.find_channel [OF good that] by (simp add: memoryStore_def)
  have upd: "ms_findChannelUpdate c d g = (Inr (gv_update (ms_view g) c d), g)" if "scid_wf c" "d < 2" for c d
    using ms.find_update [OF good that] by (simp add: memoryStore_def)
  have node: "ms_findNodeAnnouncement n g = (Inr (gv_node (ms_view g) n), g)" for n
    using ms.find_node [OF good] by (simp add: memoryStore_def)
  have links: "ms_findChannelsForNode n g \<noteq> (Inr [], g) \<longleftrightarrow> gv_links (ms_view g) n \<noteq> {}" for n
    using ms.find_links [OF good, of n] by (auto simp: memoryStore_def)
  have F: "gf_sha256 ?F = sha256" "gf_verifySig ?F = verifySig" by (simp_all add: memoryFilter_def)
  have none: "alone" if empty: "?K = {}" and ne: "steps \<noteq> []"
  proof -
    obtain chain msg where x: "(chain, msg) \<in> set steps" using ne by (cases steps) auto
    moreover from this empty have "chain = None" by (cases chain) auto
    ultimately show ?thesis using assms(1) by auto
  qed
  have st: "steps \<noteq> []" if "gv_channel (ms_view g) c \<noteq> None" for c
    using assms(2) that by (auto simp: ms_view_def newMemoryStore_def split: if_splits)
  show ?thesis
  proof (intro conjI allI impI)
    fix c m assume c: "scid_wf c" "ms_findChannelAnnouncement c g = (Inr (Some m), g)"
    then have m: "gv_channel (ms_view g) c = Some m" by (simp add: channel)
    have am: "an_scid m = c \<and> ca_verifySignatures sha256 verifySig (an_message m) = Inr True
        \<and> (case m of Plain _ \<Rightarrow> ?K = {} | Extended x \<Rightarrow> \<exists>chain\<in>?K. chain_confirms sha256 chain x)"
      using authentic_channel [OF a m, unfolded F] by simp
    then show "an_scid m = c" "ca_verifySignatures sha256 verifySig (an_message m) = Inr True" by simp_all
    show "case m of Plain _ \<Rightarrow> alone | Extended x \<Rightarrow> \<exists>chain msg. (Some chain, msg) \<in> set steps \<and> chain_confirms sha256 chain x"
    proof (cases m)
      case (Plain y)
      then show ?thesis using am none st [of c] m by simp
    next
      case (Extended x)
      then show ?thesis using am by auto
    qed
  next
    fix c d u assume u: "scid_wf c" "d < (2 :: nat)" "ms_findChannelUpdate c d g = (Inr (Some u), g)"
    then have "gv_update (ms_view g) c d = Some u" by (simp add: upd)
    then show "cu_shortChannelId u = c" "cu_direction u = d" "\<exists>m. ms_findChannelAnnouncement c g = (Inr (Some m), g)
        \<and> cu_validateSignature sha256 verifySig u ((if d = 0 then ca_nodeId1 else ca_nodeId2) (an_message m)) = Inr True"
      using a u(1) F by (auto simp: authentic_def channel signer_def)
  next
    fix n x assume "ms_findNodeAnnouncement n g = (Inr (Some x), g)"
    then have "gv_node (ms_view g) n = Some x" by (simp add: node)
    then show "na_nodeId x = n" "na_verifySignatures sha256 verifySig x = Inr True" "ms_findChannelsForNode n g \<noteq> (Inr [], g)"
      using a F by (auto simp: authentic_def links)
  qed
qed

lemma memoryFilter_simps [simp]:
  "gf_sha256 (memoryFilter sha256 verifySig) = sha256" "gf_verifySig (memoryFilter sha256 verifySig) = verifySig"
  by (simp_all add: memoryFilter_def)

lemma memory_view:
  assumes "ms_good s"
  shows "scid_wf c \<Longrightarrow> ms_findChannelAnnouncement c s = (Inr (gv_channel (ms_view s) c), s)"
    and "scid_wf c \<Longrightarrow> d < 2 \<Longrightarrow> ms_findChannelUpdate c d s = (Inr (gv_update (ms_view s) c d), s)"
    and "ms_findNodeAnnouncement n s = (Inr (gv_node (ms_view s) n), s)"
  using ms.find_channel [OF assms, of c] ms.find_update [OF assms, of c d] ms.find_node [OF assms, of n]
  by (simp_all add: memoryStore_def)

text \<open>
  C13: Every step of the filter is one that the rules of gossip allow: what it changes in the store are
  messages that are properly signed, announced, confirmed by the chain, and newer than what they
  replace; these are the messages it returns to be passed on, in order.  A message that is refused or
  held back leaves the store as it was.
\<close>

theorem filter_refines_rules:
  assumes "mf_ok s" "msg_ok msg" "validateMessage (memoryFilter sha256 verifySig) chain msg s = (r, s')"
  shows "mf_ok s' \<and> (\<exists>ms. accepted (memoryFilter sha256 verifySig) (set_option chain) (ms_view (fst s)) ms (ms_view (fst s'))
    \<and> (\<forall>out. r = Inr (Inr out) \<longrightarrow> out = ms))"
  using mf.refinesD [OF mf.refines_message [OF assms(2) refl] assms(1,3)] by simp

definition sample_steps :: "(chain_client option \<times> wire_message) list" where
  "sample_steps = [(None, MChannelUpdate sample_update), (None, MChannelAnnouncement (sample_announcement (replicate 64 1)))]"

lemma sample_verified:
  "cu_validateSignature (\<lambda>x. x) (\<lambda>h s k. True) sample_update k = Inr True"
  "ca_verifySignatures (\<lambda>x. x) (\<lambda>h s k. True) (sample_announcement (replicate 64 1)) = Inr True"
proof -
  show "cu_validateSignature (\<lambda>x. x) (\<lambda>h s k. True) sample_update k = Inr True"
    using cu_roundtrip [OF sample_update_wf] by (simp add: cu_validateSignature_def cu_hashForSignature_def)
  have "ca_wf (sample_announcement (replicate 64 1))" by (simp add: ca_wf_def sample_announcement_def scid_wf_def bf_toBuffer_def)
  from ca_roundtrip [OF this] show "ca_verifySignatures (\<lambda>x. x) (\<lambda>h s k. True) (sample_announcement (replicate 64 1)) = Inr True"
    by (simp add: ca_verifySignatures_def ca_hash_def)
qed

lemma sample_scid:
  "scid_wf (cu_shortChannelId sample_update)" "cu_direction sample_update = 0"
  "ca_shortChannelId (sample_announcement sig) = cu_shortChannelId sample_update"
  by (simp_all add: scid_wf_def sample_announcement_def sample_update_def cu_direction_def bf_isSet_def)

lemma sample_run:
  "\<exists>g p. gossipRun (memoryFilter (\<lambda>x. x) (\<lambda>h s k. True)) sample_steps (newMemoryStore, newMemoryStore) = (g, p)
    \<and> ms_findChannelUpdate (cu_shortChannelId sample_update) 0 g = (Inr (Some sample_update), g)"
proof -
  let ?F = "memoryFilter (\<lambda>x. x) (\<lambda>h s k. True)" and ?a = "sample_announcement (replicate 64 1)"
  have n: "gv_channel (ms_view newMemoryStore) c = None" "gv_update (ms_view newMemoryStore) c d = None"
    "gv_node (ms_view newMemoryStore) k = None" for c d k by (simp_all add: ms_view_def newMemoryStore_def)
  obtain s1 s2 where s: "validateMessage ?F None (MChannelUpdate sample_update) (newMemoryStore, newMemoryStore) = (Inr (Inr []), s1)"
    "validateMessage ?F None (MChannelAnnouncement ?a) s1 = (Inr (Inr [GChannel (Plain ?a), GUpdate sample_update]), s2)" "mf_ok s2"
    "gv_update (ms_view (fst s2)) (cu_shortChannelId sample_update) 0 = Some sample_update"
    using mf.early_update [OF mf_ok_new sample_scid(1) sample_scid(3) [of "replicate 64 1"] refl sample_scid(2) n(1,2), where hash = "\<lambda>x. x" and verifySig = "\<lambda>h s k. True"
        and chain = None and e = "Plain ?a"] n sample_verified by (auto simp: memoryFilter_simps)
  have "ms_good (fst s2)" using s(3) by (simp add: mf.stores_ok_def)
  then have "ms_findChannelUpdate (cu_shortChannelId sample_update) 0 (fst s2) = (Inr (Some sample_update), fst s2)"
    using s(4) sample_scid(1) by (simp add: memory_view)
  then show ?thesis using s(1,2) by (intro exI [of _ "fst s2"] exI [of _ "snd s2"]) (simp add: sample_steps_def)
qed

theorem filter_refines_rules_witness:
  "\<exists>r s' ms. validateMessage (memoryFilter (\<lambda>x. x) (\<lambda>h s k. True)) None (MChannelUpdate sample_update) (newMemoryStore, newMemoryStore) = (r, s')
    \<and> accepted (memoryFilter (\<lambda>x. x) (\<lambda>h s k. True)) {} (ms_view newMemoryStore) ms (ms_view (fst s'))"
proof -
  have ok: "msg_ok (MChannelUpdate sample_update)" by (simp add: scid_wf_def sample_update_def)
  obtain r s' where v: "validateMessage (memoryFilter (\<lambda>x. x) (\<lambda>h s k. True)) None (MChannelUpdate sample_update) (newMemoryStore, newMemoryStore) = (r, s')"
    by (cases "validateMessage (memoryFilter (\<lambda>x. x) (\<lambda>h s k. True)) None (MChannelUpdate sample_update) (newMemoryStore, newMemoryStore)")
  from filter_refines_rules [OF mf_ok_new ok v] show ?thesis using v by auto
qed

theorem gossip_store_authentic_witness:
  "\<exists>g p. gossipRun (memoryFilter (\<lambda>x. x) (\<lambda>h s k. True)) sample_steps (newMemoryStore, newMemoryStore) = (g, p)
    \<and> ms_findChannelUpdate (cu_shortChannelId sample_update) 0 g = (Inr (Some sample_update), g)
    \<and> (\<exists>m. ms_findChannelAnnouncement (cu_shortChannelId sample_update) g = (Inr (Some m), g)
         \<and> cu_validateSignature (\<lambda>x. x) (\<lambda>h s k. True) sample_update (ca_nodeId1 (an_message m)) = Inr True)"
proof -
  have c: "scid_wf (cu_shortChannelId sample_update)" by (simp add: scid_wf_def sample_update_def)
  obtain g p where r: "gossipRun (memoryFilter (\<lambda>x. x) (\<lambda>h s k. True)) sample_steps (newMemoryStore, newMemoryStore) = (g, p)"
    "ms_findChannelUpdate (cu_shortChannelId sample_update) 0 g = (Inr (Some sample_update), g)"
    using sample_run by blast
  have ok: "\<forall>(chain, msg)\<in>set sample_steps. msg_ok msg \<and> (chain = None \<longleftrightarrow> True)"
    using c by (simp add: sample_steps_def sample_announcement_def sample_update_def)
  have z: "(0 :: nat) < 2" by simp
  from gossip_store_authentic [OF ok r(1), THEN conjunct2, THEN conjunct1, rule_format, OF c z r(2)] r
  show ?thesis by simp
qed

end
