(* ===== verification/GossipEarly.thy ===== *)
theory GossipEarly
  imports GossipFilterFacts
begin

text \<open>
  Messages that come before the announcement of their channel: whatever else arrives meanwhile, the last
  update of each direction is kept, and all that waited is let in with the announcement.
\<close>

section \<open>What waits is left alone\<close>

text \<open>What one message does to the updates that wait for a channel that is not announced, even after it.\<close>

definition waits :: "scid \<Rightarrow> nat \<Rightarrow> wire_message \<Rightarrow> channel_update option \<Rightarrow> channel_update option" where
  "waits c d msg x = (case msg of MChannelUpdate u \<Rightarrow> if cu_shortChannelId u = c \<and> cu_direction u = d then Some u else x | _ \<Rightarrow> x)"

text \<open>The messages that there are.\<close>

definition present :: "'a option list \<Rightarrow> 'a list" where
  "present xs = concat (map (case_option [] (\<lambda>x. [x])) xs)"

lemma present_simps [simp]: "present [] = []" "present (x # y # ys) = present [x] @ present (y # ys)" "present [None] = []" "present [Some z] = [z]"
  by (simp_all add: present_def)

text \<open>A waiting announcement of a node counts if the store has none, or an older one.\<close>

definition newer :: "node_announcement option \<Rightarrow> node_announcement option \<Rightarrow> node_announcement option" where
  "newer old x = (case (old, x) of (Some y, Some a) \<Rightarrow> if na_timestamp y \<ge> na_timestamp a then None else x | _ \<Rightarrow> x)"

lemma newer_simps [simp]: "newer old None = None" "newer None x = x" "newer (Some y) (Some a) = (if na_timestamp y \<ge> na_timestamp a then None else Some a)"
  by (simp_all add: newer_def split: option.split)

context gossip_filter_laws
begin

text \<open>
  An operation leaves a channel alone if it does not announce it, or at least does not forget it, and keeps the
  updates that wait for it as long as it is not announced.
\<close>

definition leaves :: "scid \<Rightarrow> ('s \<times> 'p, 'a) io \<Rightarrow> bool" where
  "leaves c m \<longleftrightarrow> (\<forall>s r s'. stores_ok s \<longrightarrow> m s = (r, s') \<longrightarrow> stores_ok s' \<and> (gv_channel (view (fst s')) c = None \<longrightarrow>
     gv_channel (view (fst s)) c = None \<and> gv_update (pview (snd s')) c = gv_update (pview (snd s)) c))"

lemma leavesI:
  "(\<And>s r s'. stores_ok s \<Longrightarrow> m s = (r, s') \<Longrightarrow> stores_ok s' \<and> (gv_channel (view (fst s')) c = None \<longrightarrow>
     gv_channel (view (fst s)) c = None \<and> gv_update (pview (snd s')) c = gv_update (pview (snd s)) c)) \<Longrightarrow> leaves c m"
  unfolding leaves_def by blast

lemma leavesD:
  assumes "leaves c m" "stores_ok s" "m s = (r, s')"
  shows "stores_ok s'" "gv_channel (view (fst s')) c = None \<Longrightarrow> gv_channel (view (fst s)) c = None"
    "gv_channel (view (fst s')) c = None \<Longrightarrow> gv_update (pview (snd s')) c = gv_update (pview (snd s)) c"
  using assms unfolding leaves_def by blast+

lemma leaves_same: "leaves c (return_io x)" "leaves c (lift_io y)"
  by (auto simp: leaves_def io_simps)

lemma leaves_bind_known:
  assumes "leaves c m" "\<And>s x s'. stores_ok s \<Longrightarrow> m s = (Inr x, s') \<Longrightarrow> leaves c (f x)"
  shows "leaves c (bind_io m f)"
proof (rule leavesI)
  fix s r s' assume s: "stores_ok s" "bind_io m f s = (r, s')"
  obtain x t where t: "m s = (x, t)" by (cases "m s")
  note m = leavesD [OF assms(1) s(1) t]
  show "stores_ok s' \<and> (gv_channel (view (fst s')) c = None \<longrightarrow>
     gv_channel (view (fst s)) c = None \<and> gv_update (pview (snd s')) c = gv_update (pview (snd s)) c)"
  proof (cases x)
    case (Inl e)
    then show ?thesis using s(2) t m by (simp add: io_simps)
  next
    case (Inr y)
    have f: "leaves c (f y)" using assms(2) [OF s(1)] t Inr by simp
    have "f y t = (r, s')" using s(2) t Inr by (simp add: io_simps)
    from leavesD [OF f m(1) this] show ?thesis using m by simp
  qed
qed

lemma leaves_bind: "leaves c m \<Longrightarrow> (\<And>x. leaves c (f x)) \<Longrightarrow> leaves c (bind_io m f)"
  by (rule leaves_bind_known)

lemma leaves_then:
  assumes "leaves c m" "leaves c n"
  shows "leaves c (then_io m n)"
proof -
  have "then_io m n = bind_io m (\<lambda>_. n)" by (rule ext) (simp add: io_simps)
  then show ?thesis using leaves_bind [OF assms] by simp
qed

lemma leaves_find:
  "scid_wf k \<Longrightarrow> leaves c (on_gossip (st_findChannelAnnouncement (gf_gossipStore F) k))"
  "scid_wf k \<Longrightarrow> d < 2 \<Longrightarrow> leaves c (on_gossip (st_findChannelUpdate (gf_gossipStore F) k d))"
  "scid_wf k \<Longrightarrow> d < 2 \<Longrightarrow> leaves c (on_pending (st_findChannelUpdate (gf_pendingStore F) k d))"
  "leaves c (on_gossip (st_findNodeAnnouncement (gf_gossipStore F) n))"
  "leaves c (on_pending (st_findNodeAnnouncement (gf_pendingStore F) n))"
  by (auto simp: leaves_def io_simps stores_ok_def G.find_channel G.find_update P.find_update G.find_node P.find_node)

lemma leaves_links: "leaves c (on_gossip (st_findChannelsForNode (gf_gossipStore F) n))"
proof (rule leavesI)
  fix s r s' assume s: "stores_ok s" "on_gossip (st_findChannelsForNode (gf_gossipStore F) n) s = (r, s')"
  obtain cs where "st_findChannelsForNode (gf_gossipStore F) n (fst s) = (Inr cs, fst s)"
    using G.find_links s(1) unfolding stores_ok_def by blast
  then show "stores_ok s' \<and> (gv_channel (view (fst s')) c = None \<longrightarrow>
     gv_channel (view (fst s)) c = None \<and> gv_update (pview (snd s')) c = gv_update (pview (snd s)) c)"
    using s by (auto simp: io_simps)
qed

lemma leaves_gossip:
  assumes "\<And>g. good g \<Longrightarrow> \<exists>g'. m g = (Inr (), g') \<and> good g' \<and> view g' = f (view g)"
    and "\<And>v. gv_channel (f v) c = None \<Longrightarrow> gv_channel v c = None"
  shows "leaves c (on_gossip m)"
proof (rule leavesI)
  fix s r s' assume s: "stores_ok s" "on_gossip m s = (r, s')"
  obtain g' where "m (fst s) = (Inr (), g')" "good g'" "view g' = f (view (fst s))"
    using assms(1) s(1) unfolding stores_ok_def by blast
  then show "stores_ok s' \<and> (gv_channel (view (fst s')) c = None \<longrightarrow>
     gv_channel (view (fst s)) c = None \<and> gv_update (pview (snd s')) c = gv_update (pview (snd s)) c)"
    using s assms(2) by (auto simp: io_simps stores_ok_def)
qed

lemma leaves_pending:
  assumes "\<And>p. pgood p \<Longrightarrow> \<exists>p'. m p = (Inr (), p') \<and> pgood p' \<and> pview p' = f (pview p)"
    and "\<And>w. pending_ok w \<Longrightarrow> pending_ok (f w)" "\<And>w. gv_update (f w) c = gv_update w c"
  shows "leaves c (on_pending m)"
proof (rule leavesI)
  fix s r s' assume s: "stores_ok s" "on_pending m s = (r, s')"
  obtain p' where "m (snd s) = (Inr (), p')" "pgood p'" "pview p' = f (pview (snd s))"
    using assms(1) s(1) unfolding stores_ok_def by blast
  then show "stores_ok s' \<and> (gv_channel (view (fst s')) c = None \<longrightarrow>
     gv_channel (view (fst s)) c = None \<and> gv_update (pview (snd s')) c = gv_update (pview (snd s)) c)"
    using s assms(2,3) by (auto simp: io_simps stores_ok_def)
qed

lemma leaves_nodes:
  "leaves c (on_gossip (st_saveNodeAnnouncement (gf_gossipStore F) a))"
  "leaves c (on_pending (st_saveNodeAnnouncement (gf_pendingStore F) a))"
  "leaves c (on_pending (st_deleteNodeAnnouncement (gf_pendingStore F) n))"
proof -
  show "leaves c (on_gossip (st_saveNodeAnnouncement (gf_gossipStore F) a))"
    by (rule leaves_gossip [where f = "view_node (na_nodeId a) (Some a)"]) (auto intro: G.save_node, simp add: view_node_def)
  show "leaves c (on_pending (st_saveNodeAnnouncement (gf_pendingStore F) a))"
    by (rule leaves_pending [where f = "view_node (na_nodeId a) (Some a)"]) (auto intro: P.save_node, simp add: view_node_def)
  show "leaves c (on_pending (st_deleteNodeAnnouncement (gf_pendingStore F) n))"
    by (rule leaves_pending [where f = "view_node n None"]) (auto intro: P.delete_node, simp add: view_node_def)
qed

lemma leaves_updates:
  "scid_wf (cu_shortChannelId u) \<Longrightarrow> leaves c (on_gossip (st_saveChannelUpdate (gf_gossipStore F) u))"
  "scid_wf (cu_shortChannelId u) \<Longrightarrow> cu_shortChannelId u \<noteq> c \<Longrightarrow> leaves c (on_pending (st_saveChannelUpdate (gf_pendingStore F) u))"
  "scid_wf k \<Longrightarrow> d < 2 \<Longrightarrow> k \<noteq> c \<Longrightarrow> leaves c (on_pending (st_deleteChannelUpdate (gf_pendingStore F) k d))"
proof -
  show "scid_wf (cu_shortChannelId u) \<Longrightarrow> leaves c (on_gossip (st_saveChannelUpdate (gf_gossipStore F) u))"
    by (rule leaves_gossip [where f = "view_update (cu_shortChannelId u) (cu_direction u) (Some u)"]) (auto intro: G.save_update, simp add: view_update_def)
  show "scid_wf (cu_shortChannelId u) \<Longrightarrow> cu_shortChannelId u \<noteq> c \<Longrightarrow> leaves c (on_pending (st_saveChannelUpdate (gf_pendingStore F) u))"
    by (rule leaves_pending [where f = "view_update (cu_shortChannelId u) (cu_direction u) (Some u)"]) (auto intro: P.save_update, simp add: view_update_def)
  show "scid_wf k \<Longrightarrow> d < 2 \<Longrightarrow> k \<noteq> c \<Longrightarrow> leaves c (on_pending (st_deleteChannelUpdate (gf_pendingStore F) k d))"
    by (rule leaves_pending [where f = "view_update k d None"]) (auto intro: P.delete_update, simp add: view_update_def)
qed

lemma leaves_saveChannel: "an_wf m \<Longrightarrow> leaves c (on_gossip (st_saveChannelAnnouncement (gf_gossipStore F) m))"
  by (rule leaves_gossip [where f = "view_channel m"]) (auto intro: G.save_channel, simp add: view_channel_def split: if_splits)

lemmas leaves_intros = leaves_bind leaves_then leaves_same leaves_find leaves_links leaves_nodes leaves_updates leaves_saveChannel less_2_upd

lemma leaves_node: "leaves c (validateNodeAnnouncement F a)"
  unfolding validateNodeAnnouncement_def by (auto intro!: leaves_intros split: if_split)

lemma leaves_update:
  assumes "scid_wf (cu_shortChannelId u)" "cu_shortChannelId u \<noteq> c"
  shows "leaves c (validateChannelUpdate F u)"
  unfolding validateChannelUpdate_def Let_def
  using assms by (auto intro!: leaves_intros split: option.split if_split)

lemma leaves_pendingUpdates:
  "(\<And>u. Some u \<in> set us \<Longrightarrow> scid_wf (cu_shortChannelId u) \<and> cu_shortChannelId u \<noteq> c) \<Longrightarrow> leaves c (processPendingUpdates F us pre)"
proof (induction us arbitrary: pre)
  case (Cons u us)
  have "leaves c (processPendingUpdates F us q)" for q by (rule Cons.IH) (use Cons.prems in simp)
  then show ?case using Cons.prems
    by (auto intro!: leaves_intros leaves_update split: option.split sum.split)
qed (auto intro: leaves_same)

lemma leaves_pendingNodes: "leaves c (processPendingNodes F as pre)"
proof (induction as arbitrary: pre)
  case (Cons a as)
  then show ?case by (auto intro!: leaves_intros leaves_node split: option.split sum.split)
qed (auto intro: leaves_same)

lemma pending_update_key:
  assumes "stores_ok s" "scid_wf k" "d < 2" "on_pending (st_findChannelUpdate (gf_pendingStore F) k d) s = (Inr (Some u), s')"
  shows "cu_shortChannelId u = k"
  using assms P.find_update [of "snd s" k d] by (auto simp: io_simps stores_ok_def pending_ok_def)

lemma leaves_processPending:
  assumes "scid_wf (an_scid m)" "an_scid m \<noteq> c"
  shows "leaves c (processPending F m)"
  unfolding processPending_def Let_def
proof (rule leaves_bind_known)
  show "leaves c (on_pending (st_findChannelUpdate (gf_pendingStore F) (an_scid m) 0))" using assms by (auto intro: leaves_find)
next
  fix s u0 s' assume u0: "stores_ok s" "on_pending (st_findChannelUpdate (gf_pendingStore F) (an_scid m) 0) s = (Inr u0, s')"
  show "leaves c (bind_io (on_pending (st_findChannelUpdate (gf_pendingStore F) (an_scid m) 1)) (\<lambda>u1.
     bind_io (processPendingUpdates F [u0, u1] [GChannel m]) (\<lambda>result.
     case result of Inl e \<Rightarrow> return_io (Inl e) | Inr results \<Rightarrow>
     bind_io (on_pending (st_findNodeAnnouncement (gf_pendingStore F) (ca_nodeId1 (an_message m)))) (\<lambda>n1.
     bind_io (on_pending (st_findNodeAnnouncement (gf_pendingStore F) (ca_nodeId2 (an_message m)))) (\<lambda>n2.
     processPendingNodes F [n1, n2] results)))))"
  proof (rule leaves_bind_known)
    show "leaves c (on_pending (st_findChannelUpdate (gf_pendingStore F) (an_scid m) 1))" using assms by (auto intro: leaves_find)
  next
    fix s u1 s' assume u1: "stores_ok s" "on_pending (st_findChannelUpdate (gf_pendingStore F) (an_scid m) 1) s = (Inr u1, s')"
    have "scid_wf (cu_shortChannelId u) \<and> cu_shortChannelId u \<noteq> c" if "Some u \<in> set [u0, u1]" for u
      using that pending_update_key [OF u0(1) assms(1) _, of 0 u] pending_update_key [OF u1(1) assms(1) _, of 1 u] u0(2) u1(2) assms by auto
    then show "leaves c (bind_io (processPendingUpdates F [u0, u1] [GChannel m]) (\<lambda>result.
     case result of Inl e \<Rightarrow> return_io (Inl e) | Inr results \<Rightarrow>
     bind_io (on_pending (st_findNodeAnnouncement (gf_pendingStore F) (ca_nodeId1 (an_message m)))) (\<lambda>n1.
     bind_io (on_pending (st_findNodeAnnouncement (gf_pendingStore F) (ca_nodeId2 (an_message m)))) (\<lambda>n2.
     processPendingNodes F [n1, n2] results))))"
      by (intro leaves_bind leaves_pendingUpdates)
        (auto intro!: leaves_intros leaves_pendingNodes split: sum.split simp del: processPendingNodes.simps)
  qed
qed

text \<open>An announcement that is accepted stays; one that is refused changes nothing.\<close>

lemma channel_stays: "accepted F clients v ms v' \<Longrightarrow> gv_channel v' c = None \<Longrightarrow> gv_channel v c = None"
proof (induction rule: accepted.induct)
  case (more v m v' ms v'')
  from more.hyps(1) have "gv_channel v' c = None \<Longrightarrow> gv_channel v c = None"
    by cases (auto simp: view_node_def view_update_def view_channel_def split: if_splits)
  then show ?case using more.IH more.prems by simp
qed

lemma leaves_announced:
  assumes "an_wf m"
  shows "leaves c (then_io (on_gossip (st_saveChannelAnnouncement (gf_gossipStore F) m)) (processPending F m))"
proof (cases "an_scid m = c")
  case False
  then show ?thesis using assms by (auto intro!: leaves_intros leaves_processPending simp: an_wf_def)
next
  case True
  show ?thesis
  proof (rule leavesI)
    fix s r s' assume s: "stores_ok s" "then_io (on_gossip (st_saveChannelAnnouncement (gf_gossipStore F) m)) (processPending F m) s = (r, s')"
    obtain g' where g': "st_saveChannelAnnouncement (gf_gossipStore F) m (fst s) = (Inr (), g')" "good g'" "view g' = view_channel m (view (fst s))"
      using G.save_channel [OF _ assms] s(1) unfolding stores_ok_def by blast
    have "stores_ok (g', snd s)" using s(1) g'(2) by (simp add: stores_ok_def)
    moreover have "processPending F m (g', snd s) = (r, s')" using s(2) g'(1) by (simp add: io_simps)
    moreover have "scid_wf (an_scid m)" using assms by (simp add: an_wf_def)
    ultimately obtain ms where "stores_ok s'" "accepted F {} (view g') ms (view (fst s'))"
      using refinesD [OF refines_pending] by (metis fst_conv)
    then show "stores_ok s' \<and> (gv_channel (view (fst s')) c = None \<longrightarrow>
       gv_channel (view (fst s)) c = None \<and> gv_update (pview (snd s')) c = gv_update (pview (snd s)) c)"
      using channel_stays [of "{}" "view g'" ms "view (fst s')" c] g'(3) True by (auto simp: view_channel_def)
  qed
qed

lemma extended_wf:
  assumes "scid_wf (ca_shortChannelId a)" "(case chain of None \<Rightarrow> Inr (Inr (Plain a)) | Some ch \<Rightarrow> extendAnnouncement (gf_sha256 F) ch a) = Inr (Inr e)"
  shows "an_message e = a" "an_wf e"
  using assms extendAnnouncement_confirms by (cases chain; fastforce simp: an_wf_def)+

lemma leaves_channel:
  assumes "scid_wf (ca_shortChannelId a)"
  shows "leaves c (validateChannelAnnouncement F chain a)"
proof -
  have "leaves c (bind_io (lift_io (case chain of None \<Rightarrow> Inr (Inr (Plain a)) | Some chain \<Rightarrow> extendAnnouncement (gf_sha256 F) chain a)) (\<lambda>extended.
     case extended of Inl e \<Rightarrow> return_io (Inl e)
     | Inr msg \<Rightarrow> then_io (on_gossip (st_saveChannelAnnouncement (gf_gossipStore F) msg)) (processPending F msg)))"
  proof (rule leaves_bind_known [OF leaves_same(2)])
    fix s x s'
    assume "lift_io (case chain of None \<Rightarrow> Inr (Inr (Plain a)) | Some chain \<Rightarrow> extendAnnouncement (gf_sha256 F) chain a) s = (Inr x, s')"
    then have x: "(case chain of None \<Rightarrow> Inr (Inr (Plain a)) | Some chain \<Rightarrow> extendAnnouncement (gf_sha256 F) chain a) = Inr x" by (simp add: io_simps)
    show "leaves c (case x of Inl e \<Rightarrow> return_io (Inl e)
     | Inr msg \<Rightarrow> then_io (on_gossip (st_saveChannelAnnouncement (gf_gossipStore F) msg)) (processPending F msg))"
      using extended_wf(2) [OF assms] x by (cases x) (auto intro: leaves_same leaves_announced)
  qed
  then show ?thesis unfolding validateChannelAnnouncement_def using assms
    by (auto intro!: leaves_intros)
qed

lemma leaves_message:
  assumes "msg_ok msg" "\<And>u. msg = MChannelUpdate u \<Longrightarrow> cu_shortChannelId u \<noteq> c"
  shows "leaves c (validateMessage F chain msg)"
  using assms by (cases msg) (auto simp: validateMessage_def intro: leaves_same leaves_channel leaves_update leaves_node)

lemma update_waits:
  assumes "stores_ok (g, p)" "scid_wf (cu_shortChannelId u)" "gv_channel (view g) (cu_shortChannelId u) = None"
  shows "\<exists>p'. validateMessage F chain (MChannelUpdate u) (g, p) = (Inr (Inr []), (g, p'))
    \<and> pview p' = view_update (cu_shortChannelId u) (cu_direction u) (Some u) (pview p)"
proof -
  have g: "good g" "pgood p" using assms(1) by (simp_all add: stores_ok_def)
  obtain p' where "st_saveChannelUpdate (gf_pendingStore F) u p = (Inr (), p')"
    "pview p' = view_update (cu_shortChannelId u) (cu_direction u) (Some u) (pview p)"
    using P.save_update [OF g(2) assms(2)] by blast
  then show ?thesis using G.find_channel [OF g(1) assms(2)] assms(3)
    by (simp add: validateMessage_def validateChannelUpdate_def io_simps)
qed

lemma message_waits:
  assumes "stores_ok s" "msg_ok msg" "validateMessage F chain msg s = (r, s')" "gv_channel (view (fst s')) c = None"
  shows "gv_channel (view (fst s)) c = None \<and> gv_update (pview (snd s')) c d = waits c d msg (gv_update (pview (snd s)) c d)"
proof -
  obtain ms where "accepted F (set_option chain) (view (fst s)) ms (view (fst s'))"
    using refinesD [OF refines_message [OF assms(2) refl] assms(1,3)] by blast
  then have none: "gv_channel (view (fst s)) c = None" using channel_stays assms(4) by blast
  show ?thesis
  proof (cases "\<exists>u. msg = MChannelUpdate u \<and> cu_shortChannelId u = c")
    case True
    then obtain u where u: "msg = MChannelUpdate u" "cu_shortChannelId u = c" by blast
    obtain g p where "s = (g, p)" by (cases s)
    with update_waits [of g p u chain] u none assms(1-3)
    show ?thesis by (auto simp: view_update_def waits_def)
  next
    case False
    then have "leaves c (validateMessage F chain msg)" using leaves_message [OF assms(2)] by blast
    from leavesD(3) [OF this assms(1,3,4)] False none show ?thesis
      by (auto simp: waits_def split: wire_message.split)
  qed
qed

text \<open>The announcement lets in what waits for it.\<close>

lemma view_update_same: "gv_update v c d = x \<Longrightarrow> view_update c d x v = v"
  by (simp add: view_update_def fun_upd_idem)

lemma pending_update_step:
  assumes "stores_ok (g, p)" "scid_wf c" "gv_channel (view g) c = Some e" "d < 2" "gv_update (view g) c d = None"
    and "x = gv_update (pview p) c d" "\<And>u. x = Some u \<Longrightarrow> cu_validateSignature (gf_sha256 F) (gf_verifySig F) u (signer d e) = Inr True"
  shows "\<exists>g' p'. (\<forall>us pre. processPendingUpdates F (x # us) pre (g, p) = processPendingUpdates F us (pre @ map GUpdate (present [x])) (g', p'))
    \<and> stores_ok (g', p') \<and> view g' = view_update c d x (view g) \<and> pview p' = view_update c d None (pview p)"
proof (cases x)
  case None
  moreover from None have "view_update c d x (view g) = view g" "view_update c d None (pview p) = pview p"
    using assms(5,6) by (simp_all add: view_update_same)
  ultimately show ?thesis using assms(1) by auto
next
  case (Some u)
  have ok: "good g" "pgood p" "pending_ok (pview p)" using assms(1) by (simp_all add: stores_ok_def)
  then have u: "cu_shortChannelId u = c" "cu_direction u = d" using Some assms(6) by (auto simp: pending_ok_def)
  obtain p' where p': "st_deleteChannelUpdate (gf_pendingStore F) c d p = (Inr (), p')" "pgood p'" "pview p' = view_update c d None (pview p)"
    using P.delete_update [OF ok(2) assms(2,4)] by blast
  obtain g' where g': "st_saveChannelUpdate (gf_gossipStore F) u g = (Inr (), g')" "good g'" "view g' = view_update c d (Some u) (view g)"
    using G.save_update [OF ok(1), of u] assms(2) u by auto
  have "validateChannelUpdate F u (g, p') = (Inr (Inr [GUpdate u]), (g', p'))"
    using G.find_channel [OF ok(1) assms(2)] G.find_update [OF ok(1) assms(2,4)] assms(3,5) assms(7) [OF Some] g'(1) u
    by (simp add: validateChannelUpdate_def io_simps Let_def signer_def)
  moreover have "pending_ok (pview p')" using ok(3) p'(3) by auto
  ultimately show ?thesis using p' g' Some u
    by (intro exI [of _ g'] exI [of _ p']) (simp add: io_simps stores_ok_def)
qed

lemma pending_node_step:
  assumes "stores_ok (g, p)" "gv_links (view g) n \<noteq> {}"
    and "\<forall>a. x = Some a \<longrightarrow> na_nodeId a = n \<and> na_verifySignatures (gf_sha256 F) (gf_verifySig F) a = Inr True"
  shows "\<exists>g' p'. (\<forall>as pre. processPendingNodes F (x # as) pre (g, p)
        = processPendingNodes F as (pre @ map GNode (present [newer (gv_node (view g) n) x])) (g', p'))
    \<and> stores_ok (g', p') \<and> view g' = (case newer (gv_node (view g) n) x of None \<Rightarrow> view g | Some y \<Rightarrow> view_node n (Some y) (view g))
    \<and> gv_update (pview p') = gv_update (pview p)"
proof (cases x)
  case None
  then show ?thesis using assms(1) by (intro exI [of _ g] exI [of _ p]) auto
next
  case (Some a)
  have ok: "good g" "pgood p" "pending_ok (pview p)" using assms(1) by (simp_all add: stores_ok_def)
  have a: "na_nodeId a = n" "na_verifySignatures (gf_sha256 F) (gf_verifySig F) a = Inr True" using assms(3) Some by simp_all
  obtain p' where p': "st_deleteNodeAnnouncement (gf_pendingStore F) n p = (Inr (), p')" "pgood p'" "pview p' = view_node n None (pview p)"
    using P.delete_node [OF ok(2)] by blast
  obtain g' where g': "st_saveNodeAnnouncement (gf_gossipStore F) a g = (Inr (), g')" "good g'" "view g' = view_node n (Some a) (view g)"
    using G.save_node [OF ok(1), of a] a by auto
  obtain cs where cs: "st_findChannelsForNode (gf_gossipStore F) n g = (Inr cs, g)" "set cs = gv_links (view g) n"
    using G.find_links [OF ok(1)] by blast
  have pok: "pending_ok (pview p')" using ok(3) p'(3) by auto
  show ?thesis
  proof (cases "newer (gv_node (view g) n) x")
    case None
    then obtain y where y: "gv_node (view g) n = Some y" "na_timestamp a \<le> na_timestamp y"
      using Some by (cases "gv_node (view g) n") (auto split: if_splits)
    then have "validateNodeAnnouncement F a (g, p') = (Inr (Inr []), (g, p'))"
      using G.find_node [OF ok(1)] a by (simp add: validateNodeAnnouncement_def io_simps)
    then show ?thesis using Some p' a ok(1) pok y
      by (intro exI [of _ g] exI [of _ p']) (auto simp: io_simps stores_ok_def view_node_def)
  next
    case (Some y)
    then have y: "newer (gv_node (view g) n) x = Some a" "\<And>e. gv_node (view g) n = Some e \<Longrightarrow> \<not> na_timestamp a \<le> na_timestamp e"
      using \<open>x = Some a\<close> by (cases "gv_node (view g) n"; auto split: if_splits)+
    have "cs \<noteq> []" using cs(2) assms(2) by auto
    then have "validateNodeAnnouncement F a (g, p') = (Inr (Inr [GNode a]), (g', p'))"
      using G.find_node [OF ok(1)] a cs(1) g'(1) y(2)
      by (auto simp: validateNodeAnnouncement_def io_simps split: option.split)
    then show ?thesis using \<open>x = Some a\<close> p' a g' pok unfolding y(1)
      by (intro exI [of _ g'] exI [of _ p']) (auto simp: io_simps stores_ok_def view_node_def)
  qed
qed

lemma announced_with_pending:
  assumes "stores_ok (g, p)" "scid_wf c" "ca_shortChannelId a = c" "gv_channel (view g) c = None" "gv_update (view g) c = (\<lambda>_. None)"
    and "ca_verifySignatures (gf_sha256 F) (gf_verifySig F) a = Inr True"
    and "(case chain of None \<Rightarrow> Inr (Inr (Plain a)) | Some ch \<Rightarrow> extendAnnouncement (gf_sha256 F) ch a) = Inr (Inr e)"
    and "\<And>d u. d < 2 \<Longrightarrow> gv_update (pview p) c d = Some u \<Longrightarrow>
      cu_validateSignature (gf_sha256 F) (gf_verifySig F) u (signer d (Plain a)) = Inr True"
    and "\<And>n x. n \<in> {ca_nodeId1 a, ca_nodeId2 a} \<Longrightarrow> gv_node (pview p) n = Some x \<Longrightarrow> na_verifySignatures (gf_sha256 F) (gf_verifySig F) x = Inr True"
  shows "\<exists>s. validateMessage F chain (MChannelAnnouncement a) (g, p)
      = (Inr (Inr (GChannel e # map GUpdate (present [gv_update (pview p) c 0, gv_update (pview p) c 1])
           @ map GNode (present (map (\<lambda>n. newer (gv_node (view g) n) (gv_node (pview p) n)) (if ca_nodeId1 a = ca_nodeId2 a then [ca_nodeId1 a] else [ca_nodeId1 a, ca_nodeId2 a]))))), s)
    \<and> stores_ok s \<and> gv_channel (view (fst s)) c = Some e
    \<and> (\<forall>d<2. gv_update (view (fst s)) c d = gv_update (pview p) c d \<and> gv_update (pview (snd s)) c d = None)
    \<and> (\<forall>n\<in>{ca_nodeId1 a, ca_nodeId2 a}. gv_node (view (fst s)) n
        = (case newer (gv_node (view g) n) (gv_node (pview p) n) of None \<Rightarrow> gv_node (view g) n | y \<Rightarrow> y))"
proof -
  have ok: "good g" "pgood p" "pending_ok (pview p)" using assms(1) by (simp_all add: stores_ok_def)
  note e = extended_wf [OF _ assms(7), unfolded assms(3), OF assms(2)]
  let ?u = "\<lambda>d. gv_update (pview p) c d" and ?n = "\<lambda>n. gv_node (pview p) n"
  obtain g0 where g0: "st_saveChannelAnnouncement (gf_gossipStore F) e g = (Inr (), g0)" "good g0" "view g0 = view_channel e (view g)"
    using G.save_channel [OF ok(1) e(2)] by blast
  have sig: "signer d e = signer d (Plain a)" for d using e by (simp add: signer_def)
  have valid: "cu_validateSignature (gf_sha256 F) (gf_verifySig F) u (signer d e) = Inr True" if "d < 2" "?u d = Some u" for d u
    using assms(8) [OF that] by (simp add: sig)
  have s0: "stores_ok (g0, p)" "gv_channel (view g0) c = Some e" "gv_update (view g0) c d = None" for d
    using g0 ok assms(3,5) e(1) by (simp_all add: stores_ok_def view_channel_def)
  have two: "(0 :: nat) < 2" "(1 :: nat) < 2" by simp_all
  obtain g1 p1 where 1: "\<forall>us pre. processPendingUpdates F (?u 0 # us) pre (g0, p) = processPendingUpdates F us (pre @ map GUpdate (present [?u 0])) (g1, p1)"
    "stores_ok (g1, p1)" "view g1 = view_update c 0 (?u 0) (view g0)" "pview p1 = view_update c 0 None (pview p)"
    using pending_update_step [OF s0(1) assms(2) s0(2) two(1) s0(3) refl] valid [OF two(1)] by blast
  have s1: "gv_channel (view g1) c = Some e" "gv_update (view g1) c 1 = None" "?u 1 = gv_update (pview p1) c 1"
    using s0 1(3,4) by (simp_all add: view_update_def)
  obtain g2 p2 where 2: "\<forall>us pre. processPendingUpdates F (?u 1 # us) pre (g1, p1) = processPendingUpdates F us (pre @ map GUpdate (present [?u 1])) (g2, p2)"
    "stores_ok (g2, p2)" "view g2 = view_update c 1 (?u 1) (view g1)" "pview p2 = view_update c 1 None (pview p1)"
    using pending_update_step [OF 1(2) assms(2) s1(1) two(2) s1(2,3)] valid [OF two(2)] by blast
  have links: "gv_links (view g2) n \<noteq> {}" if "n \<in> {ca_nodeId1 a, ca_nodeId2 a}" for n
    using that e(1) by (auto simp: 2(3) 1(3) g0(3) view_update_def view_channel_def)
  have nd: "?n n = gv_node (pview p2) n" for n by (simp add: 2(4) 1(4) view_update_def)
  have nsig: "\<forall>x. ?n n = Some x \<longrightarrow> na_nodeId x = n \<and> na_verifySignatures (gf_sha256 F) (gf_verifySig F) x = Inr True"
    if "n \<in> {ca_nodeId1 a, ca_nodeId2 a}" for n
    using that ok(3) assms(9) by (auto simp: pending_ok_def)
  have ids: "ca_nodeId1 a \<in> {ca_nodeId1 a, ca_nodeId2 a}" "ca_nodeId2 a \<in> {ca_nodeId1 a, ca_nodeId2 a}" by simp_all
  have vg: "gv_node (view g2) n = gv_node (view g) n" for n
    by (simp add: 2(3) 1(3) g0(3) view_update_def view_channel_def)
  let ?w = "\<lambda>n. newer (gv_node (view g) n) (?n n)"
  obtain g3 p3 where 3: "\<forall>as pre. processPendingNodes F (?n (ca_nodeId1 a) # as) pre (g2, p2)
      = processPendingNodes F as (pre @ map GNode (present [?w (ca_nodeId1 a)])) (g3, p3)"
    "stores_ok (g3, p3)" "view g3 = (case ?w (ca_nodeId1 a) of None \<Rightarrow> view g2 | Some y \<Rightarrow> view_node (ca_nodeId1 a) (Some y) (view g2))"
    "gv_update (pview p3) = gv_update (pview p2)"
    using pending_node_step [OF 2(2) links [OF ids(1)] nsig [OF ids(1)]] unfolding vg by blast
  have g3: "gv_channel (view g3) = gv_channel (view g2)" "gv_update (view g3) = gv_update (view g2)" "gv_links (view g3) = gv_links (view g2)"
    "gv_node (view g3) n = (if n = ca_nodeId1 a then case ?w n of None \<Rightarrow> gv_node (view g) n | y \<Rightarrow> y else gv_node (view g) n)" for n
    by (simp_all add: 3(3) view_node_def vg split: option.split)
  let ?w' = "newer (gv_node (view g3) (ca_nodeId2 a)) (?n (ca_nodeId2 a))"
  have w': "?w' = (if ca_nodeId1 a = ca_nodeId2 a then None else ?w (ca_nodeId2 a))"
    unfolding g3(4) by (cases "?n (ca_nodeId2 a)"; cases "gv_node (view g) (ca_nodeId2 a)") auto
  have links': "gv_links (view g3) (ca_nodeId2 a) \<noteq> {}" using links g3(3) by simp
  obtain g4 p4 where 4: "\<forall>as pre. processPendingNodes F (?n (ca_nodeId2 a) # as) pre (g3, p3)
      = processPendingNodes F as (pre @ map GNode (present [?w'])) (g4, p4)"
    "stores_ok (g4, p4)" "view g4 = (case ?w' of None \<Rightarrow> view g3 | Some y \<Rightarrow> view_node (ca_nodeId2 a) (Some y) (view g3))"
    "gv_update (pview p4) = gv_update (pview p3)"
    using pending_node_step [OF 3(2) links' nsig [OF ids(2)]] by blast
  have g4: "gv_channel (view g4) = gv_channel (view g3)" "gv_update (view g4) = gv_update (view g3)"
    by (simp_all add: 4(3) view_node_def split: option.split)
  have no: "gv_node (view g4) n = (case ?w n of None \<Rightarrow> gv_node (view g) n | y \<Rightarrow> y)" if "n \<in> {ca_nodeId1 a, ca_nodeId2 a}" for n
    using that unfolding 4(3) w' by (auto simp: g3(4) view_node_def split: option.split)
  let ?out = "present (map ?w (if ca_nodeId1 a = ca_nodeId2 a then [ca_nodeId1 a] else [ca_nodeId1 a, ca_nodeId2 a]))"
  have out: "present [?w (ca_nodeId1 a)] @ present [?w'] = ?out" by (simp add: w')
  have found: "st_findChannelUpdate (gf_pendingStore F) c d p = (Inr (?u d), p)" if "d < 2" for d
    using P.find_update [OF ok(2) assms(2) that] .
  have nodes: "st_findNodeAnnouncement (gf_pendingStore F) n p2 = (Inr (?n n), p2)" for n
    using P.find_node [of p2] 2(2) nd by (simp add: stores_ok_def)
  have upd: "processPendingUpdates F [?u 0, ?u 1] [GChannel e] (g0, p) = (Inr (Inr (GChannel e # map GUpdate (present [?u 0, ?u 1]))), (g2, p2))"
    using 1(1) 2(1) by (simp add: return_io_apply del: processPendingUpdates.simps(2) One_nat_def)
  have nds: "processPendingNodes F [?n (ca_nodeId1 a), ?n (ca_nodeId2 a)] pre (g2, p2) = (Inr (Inr (pre @ map GNode ?out)), (g4, p4))" for pre
    unfolding out [symmetric] using 3(1) 4(1) by (simp add: return_io_apply del: processPendingNodes.simps(2))
  have "processPending F e (g0, p) = (Inr (Inr (GChannel e # map GUpdate (present [?u 0, ?u 1]) @ map GNode ?out)), (g4, p4))"
    unfolding processPending_def Let_def e(1) assms(3)
    by (simp add: io_simps found [OF two(1)] found [OF two(2)] upd nodes nds del: processPendingUpdates.simps processPendingNodes.simps One_nat_def)
  then have v: "validateMessage F chain (MChannelAnnouncement a) (g, p)
      = (Inr (Inr (GChannel e # map GUpdate (present [?u 0, ?u 1]) @ map GNode ?out)), (g4, p4))"
    using G.find_channel [OF ok(1) assms(2)] assms(3,4,6,7) g0(1)
    by (simp add: validateMessage_def validateChannelAnnouncement_def io_simps del:)
  have ch: "gv_channel (view g4) c = Some e" using 2(3) s1(1) g3(1) g4(1) by (simp add: view_update_def)
  have up: "gv_update (view g4) c d = ?u d \<and> gv_update (pview p4) c d = None" if "d < 2" for d
    using that 1(3,4) 2(3,4) 3(4) 4(4) g3(2) g4(2) by (auto simp: view_update_def less_2_cases_iff)
  show ?thesis
    by (rule exI [of _ "(g4, p4)"]) (use v ch up no 4(2) in simp)
qed

end

section \<open>A run of the filter before the announcement\<close>

definition lastUpdate :: "scid \<Rightarrow> nat \<Rightarrow> (chain_client option \<times> wire_message) list \<Rightarrow> channel_update option" where
  "lastUpdate c d steps = foldl (\<lambda>x step. waits c d (snd step) x) None steps"

definition updates_announced :: "gossip_view \<Rightarrow> bool" where
  "updates_announced v \<longleftrightarrow> (\<forall>c. gv_channel v c = None \<longrightarrow> gv_update v c = (\<lambda>_. None))"

lemma accepted_updates_announced: "accepted F clients v ms v' \<Longrightarrow> updates_announced v \<Longrightarrow> updates_announced v'"
proof (induction rule: accepted.induct)
  case (more v m v' ms v'')
  have "updates_announced v'"
    using more.hyps(1) more.prems by cases (auto simp: updates_announced_def view_node_def view_update_def view_channel_def split: if_splits)
  then show ?case by (rule more.IH)
qed

lemma run_waits:
  assumes "mf_ok s" "\<And>x. x \<in> set steps \<Longrightarrow> msg_ok (snd x)" "s' = gossipRun (memoryFilter hash verifySig) steps s"
    and "gv_channel (ms_view (fst s')) c = None" "updates_announced (ms_view (fst s))"
  shows "mf_ok s' \<and> gv_channel (ms_view (fst s)) c = None \<and> updates_announced (ms_view (fst s'))
    \<and> gv_update (ms_view (snd s')) c d = foldl (\<lambda>x step. waits c d (snd step) x) (gv_update (ms_view (snd s)) c d) steps"
  using assms
proof (induction steps arbitrary: s)
  case (Cons x steps)
  let ?F = "memoryFilter hash verifySig"
  obtain r t where t: "validateMessage ?F (fst x) (snd x) s = (r, t)" by (cases "validateMessage ?F (fst x) (snd x) s")
  have x: "msg_ok (snd x)" using Cons.prems(2) by simp
  obtain ms where ms: "mf_ok t" "accepted ?F (set_option (fst x)) (ms_view (fst s)) ms (ms_view (fst t))"
    using mf.refinesD [OF mf.refines_message [OF x refl] Cons.prems(1) t] by blast
  have s': "s' = gossipRun ?F steps t" using Cons.prems(3) t by simp
  note IH = Cons.IH [OF ms(1) Cons.prems(2) s' Cons.prems(4) accepted_updates_announced [OF ms(2) Cons.prems(5)]]
  then have "gv_channel (ms_view (fst t)) c = None" by simp
  from mf.message_waits [OF Cons.prems(1) x t this] IH show ?case by simp
qed simp

lemma mf_run_ok: "\<forall>x\<in>set steps. msg_ok (snd x) \<Longrightarrow> mf_ok (gossipRun (memoryFilter hash verifySig) steps (newMemoryStore, newMemoryStore))"
proof (induction steps rule: rev_induct)
  case (snoc x steps)
  let ?F = "memoryFilter hash verifySig"
  let ?s = "gossipRun ?F steps (newMemoryStore, newMemoryStore)"
  obtain r t where t: "validateMessage ?F (fst x) (snd x) ?s = (r, t)" by (cases "validateMessage ?F (fst x) (snd x) ?s")
  have "mf_ok ?s" "msg_ok (snd x)" using snoc by simp_all
  then have "mf_ok t" using mf.refinesD [OF mf.refines_message [OF _ refl] _ t] by blast
  then show ?case using t by (cases x) (simp add: gossipRun_def)
qed (simp add: mf_ok_new)

text \<open>
  C14: It does not matter whether an update comes before or after the announcement of its channel.  Whatever messages
  have arrived, in whichever order, as long as the channel has not been announced no update of it gets into the store;
  when the announcement is accepted, with or without a chain client, the last update that had come for either
  direction is let in with it, in the store and among the messages to pass on, and so is a waiting announcement of
  either node, unless the store has one that is at least as new.  This holds if what waits is properly signed: a
  forged update makes the filter refuse the announcement (\<^verbatim>\<open>forged_update_blocks\<close>).
\<close>

theorem early_update_kept:
  assumes "\<forall>x\<in>set steps. msg_ok (snd x)" "gossipRun (memoryFilter hash verifySig) steps (newMemoryStore, newMemoryStore) = (g, p)"
    and "scid_wf c" "ms_findChannelAnnouncement c g = (Inr None, g)" "ca_shortChannelId a = c"
    and "ca_verifySignatures hash verifySig a = Inr True"
    and "(case chain of None \<Rightarrow> Inr (Inr (Plain a)) | Some ch \<Rightarrow> extendAnnouncement hash ch a) = Inr (Inr e)"
    and "\<And>d u. d < 2 \<Longrightarrow> lastUpdate c d steps = Some u \<Longrightarrow>
      cu_validateSignature hash verifySig u (if d = 0 then ca_nodeId1 a else ca_nodeId2 a) = Inr True"
    and "\<And>n. ms_findNodeAnnouncement n g = (Inr (stored n), g)" "\<And>n. ms_findNodeAnnouncement n p = (Inr (waiting n), p)"
    and "\<And>n x. n \<in> {ca_nodeId1 a, ca_nodeId2 a} \<Longrightarrow> waiting n = Some x \<Longrightarrow> na_verifySignatures hash verifySig x = Inr True"
  shows "(\<forall>d<2. ms_findChannelUpdate c d g = (Inr None, g))
    \<and> (\<exists>s. validateMessage (memoryFilter hash verifySig) chain (MChannelAnnouncement a) (g, p)
          = (Inr (Inr (GChannel e # map GUpdate (present [lastUpdate c 0 steps, lastUpdate c 1 steps])
               @ map GNode (present (map (\<lambda>n. newer (stored n) (waiting n))
                   (if ca_nodeId1 a = ca_nodeId2 a then [ca_nodeId1 a] else [ca_nodeId1 a, ca_nodeId2 a]))))), s)
      \<and> ms_findChannelAnnouncement c (fst s) = (Inr (Some e), fst s)
      \<and> (\<forall>d<2. ms_findChannelUpdate c d (fst s) = (Inr (lastUpdate c d steps), fst s) \<and> ms_findChannelUpdate c d (snd s) = (Inr None, snd s))
      \<and> (\<forall>n\<in>{ca_nodeId1 a, ca_nodeId2 a}. ms_findNodeAnnouncement n (fst s)
          = (Inr (case newer (stored n) (waiting n) of None \<Rightarrow> stored n | y \<Rightarrow> y), fst s)))"
proof -
  have new: "updates_announced (ms_view newMemoryStore)" "gv_update (ms_view newMemoryStore) c d = None" for d
    by (auto simp: updates_announced_def ms_view_def newMemoryStore_def fun_eq_iff)
  have fg: "ms_good s \<Longrightarrow> ms_findChannelAnnouncement c s = (Inr (gv_channel (ms_view s) c), s)" for s
    by (simp add: memory_view(1) assms(3))
  have gp: "mf_ok (gossipRun (memoryFilter hash verifySig) steps (newMemoryStore, newMemoryStore))"
    using mf_run_ok [OF assms(1)] .
  have ok: "ms_good g" "ms_good p" "mf_ok (g, p)" using gp assms(2) by (simp_all add: mf.stores_ok_def)
  have none: "gv_channel (ms_view g) c = None" using fg [OF ok(1)] assms(4) by simp
  have w: "updates_announced (ms_view g)" "gv_update (ms_view p) c d = lastUpdate c d steps" for d
    using run_waits [OF mf_ok_new _ assms(2) [symmetric], of c d] assms(1) none new by (simp_all add: lastUpdate_def)
  have u: "gv_update (ms_view g) c = (\<lambda>_. None)" using w(1) none by (simp add: updates_announced_def)
  have sig: "cu_validateSignature hash verifySig u (signer d (Plain a)) = Inr True" if "d < 2" "gv_update (ms_view p) c d = Some u" for d u
    using assms(8) [OF that(1)] that(2) w(2) by (simp add: signer_def split: if_splits)
  have nodes: "gv_node (ms_view g) n = stored n" "gv_node (ms_view p) n = waiting n" for n
    using memory_view(3) [OF ok(1), of n] memory_view(3) [OF ok(2), of n] assms(9,10) [of n] by simp_all
  have "\<exists>s. validateMessage (memoryFilter hash verifySig) chain (MChannelAnnouncement a) (g, p)
      = (Inr (Inr (GChannel e # map GUpdate (present [lastUpdate c 0 steps, lastUpdate c 1 steps])
           @ map GNode (present (map (\<lambda>n. newer (stored n) (waiting n))
               (if ca_nodeId1 a = ca_nodeId2 a then [ca_nodeId1 a] else [ca_nodeId1 a, ca_nodeId2 a]))))), s)
    \<and> mf_ok s \<and> gv_channel (ms_view (fst s)) c = Some e
    \<and> (\<forall>d<2. gv_update (ms_view (fst s)) c d = lastUpdate c d steps \<and> gv_update (ms_view (snd s)) c d = None)
    \<and> (\<forall>n\<in>{ca_nodeId1 a, ca_nodeId2 a}. gv_node (ms_view (fst s)) n
        = (case newer (stored n) (waiting n) of None \<Rightarrow> stored n | y \<Rightarrow> y))"
    by (rule mf.announced_with_pending [where hash = hash and verifySig = verifySig, unfolded memoryFilter_simps,
          OF ok(3) assms(3,5) none u assms(6,7), unfolded w(2) nodes]) (use sig [unfolded w(2)] assms(11) in blast)+
  then obtain s where s: "validateMessage (memoryFilter hash verifySig) chain (MChannelAnnouncement a) (g, p)
      = (Inr (Inr (GChannel e # map GUpdate (present [lastUpdate c 0 steps, lastUpdate c 1 steps])
           @ map GNode (present (map (\<lambda>n. newer (stored n) (waiting n))
               (if ca_nodeId1 a = ca_nodeId2 a then [ca_nodeId1 a] else [ca_nodeId1 a, ca_nodeId2 a]))))), s)"
    "mf_ok s" "gv_channel (ms_view (fst s)) c = Some e"
    "\<forall>d<2. gv_update (ms_view (fst s)) c d = lastUpdate c d steps \<and> gv_update (ms_view (snd s)) c d = None"
    "\<forall>n\<in>{ca_nodeId1 a, ca_nodeId2 a}. gv_node (ms_view (fst s)) n = (case newer (stored n) (waiting n) of None \<Rightarrow> stored n | y \<Rightarrow> y)" by blast
  have good: "ms_good (fst s)" "ms_good (snd s)" using s(2) by (simp_all add: mf.stores_ok_def)
  have "\<forall>d<2. ms_findChannelUpdate c d g = (Inr None, g)" using memory_view(2) [OF ok(1) assms(3)] u by simp
  moreover have "ms_findNodeAnnouncement n (fst s) = (Inr (case newer (stored n) (waiting n) of None \<Rightarrow> stored n | y \<Rightarrow> y), fst s)"
    if "n \<in> {ca_nodeId1 a, ca_nodeId2 a}" for n
    using s(5) that memory_view(3) [OF good(1), of n] by metis
  ultimately show ?thesis using s(1,3,4) fg [OF good(1)] memory_view(2) [OF good(1) assms(3)] memory_view(2) [OF good(2) assms(3)]
    by (intro conjI exI [of _ s]) simp_all
qed

text \<open>
  Nothing checks an update before it is kept, so anyone can send one for a channel that is not announced yet.  A forged
  one makes the filter refuse the valid announcement that comes later, although it has been stored: the announcement
  is not passed on, not even when it is sent again, and an update of the other direction stays behind.
\<close>

theorem forged_update_blocks:
  assumes "mf_ok (g, p)" "scid_wf c" "ca_shortChannelId a = c" "ms_findChannelAnnouncement c g = (Inr None, g)"
    and "ms_findChannelUpdate c 0 g = (Inr None, g)" "ms_findChannelUpdate c 0 p = (Inr (Some u), p)" "ms_findChannelUpdate c 1 p = (Inr u', p)"
    and "ca_verifySignatures hash verifySig a = Inr True"
    and "(case chain of None \<Rightarrow> Inr (Inr (Plain a)) | Some ch \<Rightarrow> extendAnnouncement hash ch a) = Inr (Inr e)"
    and "cu_validateSignature hash verifySig u (ca_nodeId1 a) = Inr False"
  shows "\<exists>s. validateMessage (memoryFilter hash verifySig) chain (MChannelAnnouncement a) (g, p) = (Inr (Inl chanUpdSigFailed), s)
    \<and> ms_findChannelAnnouncement c (fst s) = (Inr (Some e), fst s) \<and> ms_findChannelUpdate c 1 (snd s) = (Inr u', snd s)
    \<and> validateMessage (memoryFilter hash verifySig) chain (MChannelAnnouncement a) s = (Inr (Inr []), s)"
proof -
  let ?F = "memoryFilter hash verifySig"
  have ok: "ms_good g" "ms_good p" "pending_ok (ms_view p)" using assms(1) by (simp_all add: mf.stores_ok_def)
  have two: "(0 :: nat) < 2" "(1 :: nat) < 2" by simp_all
  note ext = mf.extended_wf [where hash = hash and chain = chain and a = a and e = e, unfolded memoryFilter_simps, OF _ assms(9), unfolded assms(3), OF assms(2)]
  note view = memory_view(1) [OF _ assms(2)] memory_view(2) [OF _ assms(2) two(1)] memory_view(2) [OF _ assms(2) two(2)]
  have v: "gv_channel (ms_view g) c = None" "gv_update (ms_view g) c 0 = None" "gv_update (ms_view p) c 0 = Some u" "gv_update (ms_view p) c 1 = u'"
    using view(1) [OF ok(1)] view(2) [OF ok(1)] view(2) [OF ok(2)] view(3) [OF ok(2)] assms(4-7) by auto
  have u: "cu_shortChannelId u = c" "cu_direction u = 0" using ok(3) v(3) by (auto simp: pending_ok_def)
  obtain g' where g': "ms_saveChannelAnnouncement e g = (Inr (), g')" "ms_good g'" "ms_view g' = view_channel e (ms_view g)"
    using ms.save_channel [OF ok(1) ext(2)] by (auto simp: memoryStore_def)
  obtain p' where p': "ms_deleteChannelUpdate c 0 p = (Inr (), p')" "ms_good p'" "ms_view p' = view_update c 0 None (ms_view p)"
    using ms.delete_update [OF ok(2) assms(2) two(1)] by (auto simp: memoryStore_def)
  have m: "gf_gossipStore ?F = memoryStore" "gf_pendingStore ?F = memoryStore" by (simp_all add: memoryFilter_def)
  have st: "st_findChannelAnnouncement memoryStore = ms_findChannelAnnouncement" "st_findChannelUpdate memoryStore = ms_findChannelUpdate"
    "st_saveChannelAnnouncement memoryStore = ms_saveChannelAnnouncement" "st_deleteChannelUpdate memoryStore = ms_deleteChannelUpdate"
    by (simp_all add: memoryStore_def)
  have found: "ms_findChannelAnnouncement c g' = (Inr (Some e), g')" "ms_findChannelUpdate c 0 g' = (Inr None, g')"
    using view(1,2) [OF g'(2)] ext(1) v(2) assms(3) by (simp_all add: g'(3) view_channel_def)
  have up: "validateChannelUpdate ?F u (g', p') = (Inr (Inl chanUpdSigFailed), (g', p'))"
    using found assms(10) u ext(1) by (simp add: validateChannelUpdate_def on_stores_apply bind_io_apply return_io_apply lift_io_apply m st Let_def)
  have ext': "(case chain of None \<Rightarrow> Inr (Inr (Plain a)) | Some ch \<Rightarrow> extendAnnouncement (gf_sha256 ?F) ch a) = Inr (Inr e)"
    using assms(9) by (simp only: memoryFilter_simps)
  have "processPending ?F e (g', p) = (Inr (Inl chanUpdSigFailed), (g', p'))"
    unfolding processPending_def Let_def ext(1) assms(3)
    by (simp add: on_stores_apply bind_io_apply then_io_apply return_io_apply m st assms(6,7) p'(1) u up del: One_nat_def)
  then have 1: "validateMessage ?F chain (MChannelAnnouncement a) (g, p) = (Inr (Inl chanUpdSigFailed), (g', p'))"
    using assms(3,4,8) ext' g'(1)
    by (simp add: validateMessage_def validateChannelAnnouncement_def on_stores_apply bind_io_apply then_io_apply lift_io_apply m st)
  have "chain = None \<or> (\<exists>x. e = Extended x)" using assms(9) mf.extendAnnouncement_confirms by (cases chain) fastforce+
  then have 2: "validateMessage ?F chain (MChannelAnnouncement a) (g', p') = (Inr (Inr []), (g', p'))"
    using found(1) assms(3)
    by (auto simp: validateMessage_def validateChannelAnnouncement_def on_stores_apply bind_io_apply return_io_apply m st split: announcement.split)
  have "ms_findChannelUpdate c 1 p' = (Inr u', p')" using view(3) [OF p'(2)] v(4) p'(3) by (simp add: view_update_def)
  then show ?thesis using 1 2 found(1) by (intro exI [of _ "(g', p')"]) simp
qed

section \<open>Both directions before the announcement\<close>

definition sample_updates :: "(chain_client option \<times> wire_message) list" where
  "sample_updates = [(None, MChannelUpdate sample_update), (None, MChannelUpdate (sample_update\<lparr>cu_channelFlags := BitField 1\<rparr>))]"

lemma sample_other:
  "cu_shortChannelId (sample_update\<lparr>cu_channelFlags := BitField 1\<rparr>) = cu_shortChannelId sample_update"
  "cu_direction (sample_update\<lparr>cu_channelFlags := BitField 1\<rparr>) = 1"
  "cu_validateSignature (\<lambda>x. x) (\<lambda>h s k. True) (sample_update\<lparr>cu_channelFlags := BitField 1\<rparr>) k = Inr True"
proof -
  have "cu_wf (sample_update\<lparr>cu_channelFlags := BitField 1\<rparr>)" using sample_update_wf by (simp add: cu_wf_def)
  from cu_roundtrip [OF this] show "cu_validateSignature (\<lambda>x. x) (\<lambda>h s k. True) (sample_update\<lparr>cu_channelFlags := BitField 1\<rparr>) k = Inr True"
    by (simp add: cu_validateSignature_def cu_hashForSignature_def)
qed (simp_all add: cu_direction_def bf_isSet_def bit_Suc_0_iff)

lemma sample_last: "lastUpdate (cu_shortChannelId sample_update) 0 sample_updates = Some sample_update"
  "lastUpdate (cu_shortChannelId sample_update) 1 sample_updates = Some (sample_update\<lparr>cu_channelFlags := BitField 1\<rparr>)"
  using sample_scid(2) sample_other by (simp_all add: lastUpdate_def sample_updates_def waits_def)

lemma sample_waiting:
  "\<exists>p. gossipRun (memoryFilter (\<lambda>x. x) (\<lambda>h s k. True)) sample_updates (newMemoryStore, newMemoryStore) = (newMemoryStore, p)
    \<and> mf_ok (newMemoryStore, p) \<and> gv_node (ms_view p) = Map.empty"
proof -
  let ?F = "memoryFilter (\<lambda>x. x) (\<lambda>h s k. True)" and ?u = "sample_update\<lparr>cu_channelFlags := BitField 1\<rparr>"
  have n: "gv_channel (ms_view newMemoryStore) c = None" "gv_node (ms_view newMemoryStore) = Map.empty" for c
    by (auto simp: ms_view_def newMemoryStore_def)
  have wf: "msg_ok (MChannelUpdate sample_update)" "msg_ok (MChannelUpdate ?u)" using sample_scid(1) sample_other(1) by simp_all
  obtain p where p: "validateMessage ?F None (MChannelUpdate sample_update) (newMemoryStore, newMemoryStore) = (Inr (Inr []), (newMemoryStore, p))"
    "gv_node (ms_view p) = Map.empty"
    using mf.update_waits [OF mf_ok_new sample_scid(1) n(1)] n(2) by (force simp: view_update_def)
  have ok: "mf_ok (newMemoryStore, p)" using mf.refinesD [OF mf.refines_message [OF wf(1) refl] mf_ok_new p(1)] by simp
  obtain q where q: "validateMessage ?F None (MChannelUpdate ?u) (newMemoryStore, p) = (Inr (Inr []), (newMemoryStore, q))"
    "gv_node (ms_view q) = Map.empty"
    using mf.update_waits [OF ok, of ?u] wf(2) n(1) p(2) by (force simp: view_update_def)
  have "mf_ok (newMemoryStore, q)" using mf.refinesD [OF mf.refines_message [OF wf(2) refl] ok q(1)] by simp
  then show ?thesis using p q by (simp add: sample_updates_def)
qed

lemma memory_new: "gv_node (ms_view newMemoryStore) n = None"
  by (simp add: ms_view_def newMemoryStore_def)

theorem early_update_kept_witness:
  "\<exists>p s. gossipRun (memoryFilter (\<lambda>x. x) (\<lambda>h s k. True)) sample_updates (newMemoryStore, newMemoryStore) = (newMemoryStore, p)
    \<and> validateMessage (memoryFilter (\<lambda>x. x) (\<lambda>h s k. True)) None (MChannelAnnouncement (sample_announcement (replicate 64 1))) (newMemoryStore, p)
        = (Inr (Inr [GChannel (Plain (sample_announcement (replicate 64 1))), GUpdate sample_update,
             GUpdate (sample_update\<lparr>cu_channelFlags := BitField 1\<rparr>)]), s)
    \<and> ms_findChannelUpdate (cu_shortChannelId sample_update) 1 (fst s) = (Inr (Some (sample_update\<lparr>cu_channelFlags := BitField 1\<rparr>)), fst s)"
proof -
  let ?a = "sample_announcement (replicate 64 1)" and ?c = "cu_shortChannelId sample_update"
  obtain p where p: "gossipRun (memoryFilter (\<lambda>x. x) (\<lambda>h s k. True)) sample_updates (newMemoryStore, newMemoryStore) = (newMemoryStore, p)"
    "mf_ok (newMemoryStore, p)" "gv_node (ms_view p) = Map.empty" using sample_waiting by blast
  have good: "ms_good newMemoryStore" "ms_good p" using p(2) by (simp_all add: mf.stores_ok_def)
  have ok: "\<forall>x\<in>set sample_updates. msg_ok (snd x)" using sample_scid(1) sample_other(1) by (simp add: sample_updates_def)
  have none: "ms_findChannelAnnouncement ?c newMemoryStore = (Inr None, newMemoryStore)"
    using sample_scid(1) by (simp add: io_simps newMemoryStore_def)
  have nodes: "ms_findNodeAnnouncement n newMemoryStore = (Inr None, newMemoryStore)" "ms_findNodeAnnouncement n p = (Inr None, p)" for n
    using memory_view(3) [OF good(1), of n] memory_view(3) [OF good(2), of n] p(3) by (simp_all add: memory_new)
  have sig: "cu_validateSignature (\<lambda>x. x) (\<lambda>h s k. True) u k = Inr True" if "d < 2" "lastUpdate ?c d sample_updates = Some u" for d u k
    using that sample_last sample_verified(1) sample_other(3) unfolding less_2_cases_iff One_nat_def by auto
  have two: "(1 :: nat) < 2" by simp
  obtain s where s: "validateMessage (memoryFilter (\<lambda>x. x) (\<lambda>h s k. True)) None (MChannelAnnouncement ?a) (newMemoryStore, p)
      = (Inr (Inr (GChannel (Plain ?a) # map GUpdate (present [lastUpdate ?c 0 sample_updates, lastUpdate ?c 1 sample_updates])
           @ map GNode (present (map (\<lambda>n. newer None None)
               (if ca_nodeId1 ?a = ca_nodeId2 ?a then [ca_nodeId1 ?a] else [ca_nodeId1 ?a, ca_nodeId2 ?a]))))), s)"
    "\<forall>d<2. ms_findChannelUpdate ?c d (fst s) = (Inr (lastUpdate ?c d sample_updates), fst s)"
    using early_update_kept [where hash = "\<lambda>x. x" and verifySig = "\<lambda>h s k. True" and chain = None and e = "Plain ?a" and a = ?a
        and stored = "\<lambda>n. None" and waiting = "\<lambda>n. None",
        OF ok p(1) sample_scid(1) none sample_scid(3) sample_verified(2) _ _ nodes] sig by auto
  have "present (map (\<lambda>n. newer None None) (if x then [y] else [y, z])) = []" for x and y z :: buffer by simp
  with s(1) have "validateMessage (memoryFilter (\<lambda>x. x) (\<lambda>h s k. True)) None (MChannelAnnouncement ?a) (newMemoryStore, p)
      = (Inr (Inr [GChannel (Plain ?a), GUpdate sample_update, GUpdate (sample_update\<lparr>cu_channelFlags := BitField 1\<rparr>)]), s)"
    by (simp add: sample_last [unfolded One_nat_def])
  with p(1) s(2) [rule_format, OF two, unfolded sample_last(2)] show ?thesis by (intro exI conjI)
qed

text \<open>The signatures of the announcement are valid, that of the update is not.\<close>

theorem forged_update_blocks_witness:
  "\<exists>p s. validateMessage (memoryFilter (\<lambda>x. x) (\<lambda>h s k. s = replicate 64 5)) None (MChannelAnnouncement (sample_announcement (replicate 64 5))) (newMemoryStore, p)
      = (Inr (Inl chanUpdSigFailed), s)
    \<and> ms_findChannelAnnouncement (cu_shortChannelId sample_update) (fst s) = (Inr (Some (Plain (sample_announcement (replicate 64 5)))), fst s)"
proof -
  let ?v = "\<lambda>(h :: buffer) s (k :: buffer). s = replicate 64 5" and ?a = "sample_announcement (replicate 64 5)"
  have ca: "ca_wf ?a" by (simp add: ca_wf_def sample_announcement_def scid_wf_def bf_toBuffer_def)
  have sig: "ca_verifySignatures (\<lambda>x. x) ?v ?a = Inr True"
    using ca_roundtrip [OF ca] by (simp add: ca_verifySignatures_def ca_hash_def sample_announcement_def)
  have bad: "cu_validateSignature (\<lambda>x. x) ?v sample_update k = Inr False" for k
    using cu_roundtrip [OF sample_update_wf] by (simp add: cu_validateSignature_def cu_hashForSignature_def) (simp add: sample_update_def)
  obtain p where p: "ms_good p" "ms_view p = view_update (cu_shortChannelId sample_update) 0 (Some sample_update) (ms_view newMemoryStore)"
    using ms.save_update [OF ms_good_new sample_scid(1)] sample_scid(2) by auto
  have new: "pending_ok (ms_view newMemoryStore)" using mf_ok_new by (simp add: mf.stores_ok_def)
  have "pending_ok (ms_view p)" using pending_ok_simps(1) [OF new sample_scid(1)] p(2) sample_scid(2) by simp
  then have ok: "mf_ok (newMemoryStore, p)" using p(1) ms_good_new by (simp add: mf.stores_ok_def)
  have two: "(0 :: nat) < 2" "(1 :: nat) < 2" by simp_all
  have none: "ms_findChannelAnnouncement (cu_shortChannelId sample_update) newMemoryStore = (Inr None, newMemoryStore)"
    "ms_findChannelUpdate (cu_shortChannelId sample_update) 0 newMemoryStore = (Inr None, newMemoryStore)"
    using sample_scid(1) by (simp_all add: io_simps newMemoryStore_def)
  have found: "ms_findChannelUpdate (cu_shortChannelId sample_update) 0 p = (Inr (Some sample_update), p)"
    using memory_view(2) [OF p(1) sample_scid(1) two(1)] p(2) by (simp add: view_update_def)
  show ?thesis
    using forged_update_blocks [where hash = "\<lambda>x. x" and verifySig = ?v and chain = None and e = "Plain ?a",
        OF ok sample_scid(1) sample_scid(3) none found memory_view(2) [OF p(1) sample_scid(1) two(2)] sig _ bad] by auto
qed

end
