(* ===== verification/GossipRelay.thy ===== *)
theory GossipRelay
  imports Messages "HOL-Library.AList"
begin

text \<open>
  \<^verbatim>\<open>packages/lightning/lib/gossip/GossipRelay.ts\<close>: a queue of recent gossip messages, and for
  every peer the index of the first message it has not got.  Peers are named by their identifiers;
  sending throws if the peer is not ready (\<^verbatim>\<open>Peer.sendMessage\<close>), which is an argument.
\<close>

datatype GossipRelayState = Inactive | Active

record gossip_relay =
  gr_state :: GossipRelayState
  gr_queue :: "wire_message list"
  gr_peers :: "(string \<times> int) list"
  gr_maxQueueLen :: nat
  gr_timer :: bool
  gr_sent :: "(string \<times> wire_message) list"

definition newGossipRelay :: "nat \<Rightarrow> gossip_relay" where
  "newGossipRelay maxQueueLen = \<lparr>gr_state = Inactive, gr_queue = [], gr_peers = [],
     gr_maxQueueLen = maxQueueLen, gr_timer = False, gr_sent = []\<rparr>"

definition gr_start :: "gossip_relay \<Rightarrow> gossip_relay" where
  "gr_start r = (if gr_state r = Active then r else r\<lparr>gr_state := Active, gr_timer := True\<rparr>)"

definition gr_stop :: "gossip_relay \<Rightarrow> gossip_relay" where
  "gr_stop r = (if gr_state r = Inactive then r else r\<lparr>gr_timer := False, gr_state := Inactive\<rparr>)"

definition gr_addPeer :: "string \<Rightarrow> gossip_relay \<Rightarrow> gossip_relay" where
  "gr_addPeer peer r = r\<lparr>gr_peers := AList.update peer (int (length (gr_queue r))) (gr_peers r)\<rparr>"

definition gr_removePeer :: "string \<Rightarrow> gossip_relay \<Rightarrow> gossip_relay" where
  "gr_removePeer peer r = r\<lparr>gr_peers := AList.delete peer (gr_peers r)\<rparr>"

section \<open>The queue\<close>

text \<open>The first element with a property, which may throw.\<close>

primrec find_res :: "('a \<Rightarrow> bool res) \<Rightarrow> 'a list \<Rightarrow> 'a option res" where
  "find_res f [] = Inr None"
| "find_res f (x # xs) = bind_res (f x) (\<lambda>found. if found then Inr (Some x) else find_res f xs)"

definition scid_same :: "scid \<Rightarrow> scid \<Rightarrow> bool res" where
  "scid_same a b = bind_res (scid_toNumber a) (\<lambda>x. bind_res (scid_toNumber b) (\<lambda>y. Inr (x = y)))"

definition findChanAnn :: "wire_message list \<Rightarrow> scid \<Rightarrow> wire_message option res" where
  "findChanAnn queue scid = find_res (\<lambda>p. case p of
     MChannelAnnouncement m \<Rightarrow> scid_same (ca_shortChannelId m) scid | _ \<Rightarrow> Inr False) queue"

definition findChanUpd :: "wire_message list \<Rightarrow> scid \<Rightarrow> bool \<Rightarrow> wire_message option res" where
  "findChanUpd queue scid direction = find_res (\<lambda>p. case p of
     MChannelUpdate m \<Rightarrow> bind_res (scid_same (cu_shortChannelId m) scid)
       (\<lambda>same. Inr (same \<and> bf_isSet (cu_channelFlags m) 0 = direction))
   | _ \<Rightarrow> Inr False) queue"

definition findNodeAnn :: "wire_message list \<Rightarrow> buffer \<Rightarrow> wire_message option res" where
  "findNodeAnn queue nodeId = find_res (\<lambda>p. case p of
     MNodeAnnouncement m \<Rightarrow> Inr (na_nodeId m = nodeId) | _ \<Rightarrow> Inr False) queue"

definition indexOf :: "'a list \<Rightarrow> 'a \<Rightarrow> nat" where
  "indexOf xs x = length (takeWhile (\<lambda>y. y \<noteq> x) xs)"

definition wm_timestamp :: "wire_message \<Rightarrow> nat" where
  "wm_timestamp m = (case m of MChannelUpdate u \<Rightarrow> cu_timestamp u | MNodeAnnouncement a \<Rightarrow> na_timestamp a | _ \<Rightarrow> 0)"

text \<open>
  A message with a timestamp is queued if there is none for its subject, and replaces an older one at
  the end of the queue.
\<close>

definition replaceOlder :: "wire_message \<Rightarrow> wire_message option \<Rightarrow> gossip_relay \<Rightarrow> gossip_relay" where
  "replaceOlder msg existing r = (case existing of None \<Rightarrow> r\<lparr>gr_queue := gr_queue r @ [msg]\<rparr>
   | Some e \<Rightarrow> if wm_timestamp e < wm_timestamp msg
       then let idx = indexOf (gr_queue r) e
            in r\<lparr>gr_queue := take idx (gr_queue r) @ drop (Suc idx) (gr_queue r) @ [msg]\<rparr>
       else r)"

definition gr_enqueue :: "wire_message \<Rightarrow> (gossip_relay, unit) io" where
  "gr_enqueue msg = (\<lambda>r.
     if gr_state r \<noteq> Active then (Inr (), r)
     else case msg of
       MChannelAnnouncement m \<Rightarrow>
        (case findChanAnn (gr_queue r) (ca_shortChannelId m) of Inl e \<Rightarrow> (Inl e, r)
         | Inr existing \<Rightarrow> (Inr (), if existing = None then r\<lparr>gr_queue := gr_queue r @ [msg]\<rparr> else r))
     | MChannelUpdate m \<Rightarrow>
        (case findChanUpd (gr_queue r) (cu_shortChannelId m) (bf_isSet (cu_channelFlags m) 0) of Inl e \<Rightarrow> (Inl e, r)
         | Inr existing \<Rightarrow> (Inr (), replaceOlder msg existing r))
     | MNodeAnnouncement m \<Rightarrow>
        (case findNodeAnn (gr_queue r) (na_nodeId m) of Inl e \<Rightarrow> (Inl e, r)
         | Inr existing \<Rightarrow> (Inr (), replaceOlder msg existing r))
     | _ \<Rightarrow> (Inr (), r))"

section \<open>Sending\<close>

definition gr_sendMessage :: "(string \<Rightarrow> bool) \<Rightarrow> string \<Rightarrow> wire_message option \<Rightarrow> (gossip_relay, unit) io" where
  "gr_sendMessage ready peer msg = (\<lambda>r. if \<not> ready peer then (Inl (JsError ''Peer is not ready''), r)
     else case msg of None \<Rightarrow> (Inl TypeError, r) | Some m \<Rightarrow> (Inr (), r\<lparr>gr_sent := gr_sent r @ [(peer, m)]\<rparr>))"

text \<open>From the index of the peer to the end; the first message sent moves the index to the end.\<close>

definition flushToPeer :: "(string \<Rightarrow> bool) \<Rightarrow> string \<Rightarrow> (gossip_relay, unit) io" where
  "flushToPeer ready peer = (\<lambda>r. each_io (\<lambda>i.
     then_io (gr_sendMessage ready peer (if i < 0 then None else Some (gr_queue r ! nat i)))
       (update_io (\<lambda>r. r\<lparr>gr_peers := AList.update peer (int (length (gr_queue r))) (gr_peers r)\<rparr>)))
     [the (map_of (gr_peers r) peer)..int (length (gr_queue r)) - 1] r)"

definition pruneQueue :: "gossip_relay \<Rightarrow> gossip_relay" where
  "pruneQueue r = (let deleteCount = length (gr_queue r) - gr_maxQueueLen r in
     if deleteCount = 0 then r
     else r\<lparr>gr_queue := drop deleteCount (gr_queue r),
            gr_peers := map (\<lambda>(peer, index). (peer, index - int deleteCount)) (gr_peers r)\<rparr>)"

definition gr_onTimer :: "(string \<Rightarrow> bool) \<Rightarrow> (gossip_relay, unit) io" where
  "gr_onTimer ready = (\<lambda>r. then_io (each_io (flushToPeer ready) (map fst (gr_peers r))) (update_io pruneQueue) r)"

text \<open>The timer ticks while it is set.\<close>

definition gr_tick :: "(string \<Rightarrow> bool) \<Rightarrow> gossip_relay \<Rightarrow> gossip_relay" where
  "gr_tick ready r = (if gr_timer r then snd (gr_onTimer ready r) else r)"

section \<open>What the queue keeps\<close>

text \<open>The subject of a message: there is at most one message about it in the queue.\<close>

datatype subject = AnnouncementOf nat | UpdateOf nat bool | NodeOf buffer

definition subject_of :: "wire_message \<Rightarrow> subject option" where
  "subject_of m = (case m of MChannelAnnouncement a \<Rightarrow> Some (AnnouncementOf (scid_num (ca_shortChannelId a)))
     | MChannelUpdate u \<Rightarrow> Some (UpdateOf (scid_num (cu_shortChannelId u)) (bf_isSet (cu_channelFlags u) 0))
     | MNodeAnnouncement a \<Rightarrow> Some (NodeOf (na_nodeId a)) | _ \<Rightarrow> None)"

definition scids_ok :: "wire_message \<Rightarrow> bool" where
  "scids_ok m \<longleftrightarrow> (case m of MChannelAnnouncement a \<Rightarrow> scid_wf (ca_shortChannelId a)
     | MChannelUpdate u \<Rightarrow> scid_wf (cu_shortChannelId u) | _ \<Rightarrow> True)"

definition relay_ok :: "gossip_relay \<Rightarrow> bool" where
  "relay_ok r \<longleftrightarrow> (\<forall>m\<in>set (gr_queue r). scids_ok m \<and> subject_of m \<noteq> None) \<and> distinct (map subject_of (gr_queue r))
     \<and> distinct (map fst (gr_peers r)) \<and> (\<forall>peer i. map_of (gr_peers r) peer = Some i \<longrightarrow> 0 \<le> i \<and> i \<le> int (length (gr_queue r)))"

lemma find_res_total:
  "(\<And>x. x \<in> set xs \<Longrightarrow> f x = Inr (P x)) \<Longrightarrow> find_res f xs = Inr (find P xs)"
  by (induction xs) auto

lemma scid_same_wf: "scid_wf a \<Longrightarrow> scid_wf b \<Longrightarrow> scid_same a b = Inr (scid_num a = scid_num b)"
  by (simp add: scid_same_def scid_toNumber_eq)

definition about :: "subject option \<Rightarrow> wire_message list \<Rightarrow> wire_message option" where
  "about s queue = find (\<lambda>m. subject_of m = s) queue"

lemma find_about:
  assumes "\<forall>m\<in>set queue. scids_ok m"
  shows "scid_wf c \<Longrightarrow> findChanAnn queue c = Inr (about (Some (AnnouncementOf (scid_num c))) queue)"
    and "scid_wf c \<Longrightarrow> findChanUpd queue c d = Inr (about (Some (UpdateOf (scid_num c) d)) queue)"
    and "findNodeAnn queue n = Inr (about (Some (NodeOf n)) queue)"
  unfolding findChanAnn_def findChanUpd_def findNodeAnn_def about_def
  by (rule find_res_total, use assms in \<open>fastforce simp: scid_same_wf subject_of_def scids_ok_def split: wire_message.splits\<close>)+

lemma about_Some: "about s queue = Some e \<Longrightarrow> e \<in> set queue \<and> subject_of e = s"
  by (auto simp: about_def find_Some_iff)

lemma about_None: "about s queue = None \<Longrightarrow> s \<notin> subject_of ` set queue"
  by (auto simp: about_def find_None_iff)

lemma indexOf_remove:
  assumes "e \<in> set xs"
  shows "\<exists>ys zs. xs = ys @ e # zs \<and> take (indexOf xs e) xs = ys \<and> drop (Suc (indexOf xs e)) xs = zs"
proof -
  obtain ys zs where x: "xs = ys @ e # zs" "e \<notin> set ys" using split_list_first [OF assms] by blast
  have "takeWhile (\<lambda>y. y \<noteq> e) (ys @ e # zs) = ys" using x(2) by (induction ys) auto
  then have "indexOf xs e = length ys" using x(1) by (simp add: indexOf_def)
  then show ?thesis using x by (intro exI [of _ ys] exI [of _ zs]) simp
qed

text \<open>What queueing a message does, whatever its class.\<close>

lemma enqueue_cases:
  assumes "relay_ok r" "scids_ok msg" "gr_state r = Active" "subject_of msg \<noteq> None"
  shows "gr_enqueue msg r = (Inr (), case about (subject_of msg) (gr_queue r) of
     None \<Rightarrow> r\<lparr>gr_queue := gr_queue r @ [msg]\<rparr>
   | Some e \<Rightarrow> if wm_timestamp e < wm_timestamp msg
       then r\<lparr>gr_queue := take (indexOf (gr_queue r) e) (gr_queue r) @ drop (Suc (indexOf (gr_queue r) e)) (gr_queue r) @ [msg]\<rparr>
       else r)"
proof -
  have q: "\<forall>m\<in>set (gr_queue r). scids_ok m" using assms(1) by (simp add: relay_ok_def)
  show ?thesis
  proof (cases msg)
    case (MChannelAnnouncement m)
    have "wm_timestamp e = 0" if "about (subject_of msg) (gr_queue r) = Some e" for e
      using about_Some [OF that] MChannelAnnouncement
      by (cases e) (auto simp: subject_of_def wm_timestamp_def)
    then show ?thesis using MChannelAnnouncement assms(2,3) find_about(1) [OF q]
      by (auto simp: gr_enqueue_def scids_ok_def subject_of_def wm_timestamp_def split: option.splits)
  next
    case (MChannelUpdate m)
    then show ?thesis using assms(2,3) find_about(2) [OF q]
      by (simp add: gr_enqueue_def scids_ok_def subject_of_def replaceOlder_def Let_def split: option.split)
  next
    case (MNodeAnnouncement m)
    then show ?thesis using assms(2,3) find_about(3) [OF q]
      by (simp add: gr_enqueue_def scids_ok_def subject_of_def replaceOlder_def Let_def split: option.split)
  qed (use assms(4) in \<open>simp_all add: subject_of_def\<close>)
qed

lemma enqueue_other:
  "subject_of msg = None \<or> gr_state r \<noteq> Active \<Longrightarrow> gr_enqueue msg r = (Inr (), r)"
  by (cases msg) (auto simp: gr_enqueue_def subject_of_def)

text \<open>One step of the environment.\<close>

datatype relay_event = Start | Stop | AddPeer string | RemovePeer string | Enqueue wire_message | Tick "string \<Rightarrow> bool"

primrec relay_step :: "relay_event \<Rightarrow> gossip_relay \<Rightarrow> gossip_relay" where
  "relay_step Start r = gr_start r"
| "relay_step Stop r = gr_stop r"
| "relay_step (AddPeer p) r = gr_addPeer p r"
| "relay_step (RemovePeer p) r = gr_removePeer p r"
| "relay_step (Enqueue m) r = snd (gr_enqueue m r)"
| "relay_step (Tick ready) r = gr_tick ready r"

lemma relay_ok_enqueue:
  assumes "relay_ok r" "scids_ok msg" shows "relay_ok (snd (gr_enqueue msg r))"
proof (cases "gr_state r = Active \<and> subject_of msg \<noteq> None")
  case False
  then show ?thesis using assms enqueue_other by (metis snd_conv)
next
  case True
  note c = enqueue_cases [OF assms conjunct1 [OF True] conjunct2 [OF True]]
  show ?thesis
  proof (cases "about (subject_of msg) (gr_queue r)")
    case None
    then show ?thesis using c assms True about_None [OF None] by (force simp: relay_ok_def)
  next
    case (Some e)
    obtain ys zs where x: "gr_queue r = ys @ e # zs" "take (indexOf (gr_queue r) e) (gr_queue r) = ys"
      "drop (Suc (indexOf (gr_queue r) e)) (gr_queue r) = zs"
      using indexOf_remove about_Some [OF Some] by metis
    have "subject_of e = subject_of msg" using about_Some [OF Some] by simp
    then show ?thesis using c Some x assms True
      by (cases "wm_timestamp e < wm_timestamp msg") (auto simp: relay_ok_def)
  qed
qed

lemma relay_ok_reindex:
  "relay_ok r \<Longrightarrow> relay_ok (r\<lparr>gr_peers := AList.update p (int (length (gr_queue r))) (gr_peers r)\<rparr>)"
  by (simp add: relay_ok_def AList.update_conv' AList.distinct_update)

lemma relay_ok_send: "maintains relay_ok (gr_sendMessage ready p m)"
  by (auto simp: maintains_def gr_sendMessage_def relay_ok_def split: option.split)

lemma relay_ok_flush: "maintains relay_ok (flushToPeer ready p)"
  unfolding flushToPeer_def
proof (rule maintains_state)
  fix s assume "relay_ok s"
  moreover have "maintains relay_ok (each_io (\<lambda>i. then_io (gr_sendMessage ready p (if i < 0 then None else Some (gr_queue s ! nat i)))
      (update_io (\<lambda>r. r\<lparr>gr_peers := AList.update p (int (length (gr_queue r))) (gr_peers r)\<rparr>))) is)" for "is"
    by (intro maintains_intro relay_ok_send relay_ok_reindex)
  ultimately show "relay_ok (snd (each_io (\<lambda>i. then_io (gr_sendMessage ready p (if i < 0 then None else Some (gr_queue s ! nat i)))
      (update_io (\<lambda>r. r\<lparr>gr_peers := AList.update p (int (length (gr_queue r))) (gr_peers r)\<rparr>)))
      [the (map_of (gr_peers s) p)..int (length (gr_queue s)) - 1] s))"
    by (auto simp: maintains_def)
qed

text \<open>Sending in full.\<close>

lemma send_loop:
  assumes "ready p" "\<forall>i\<in>set is. 0 \<le> i"
  shows "each_io (\<lambda>i. then_io (gr_sendMessage ready p (if i < 0 then None else Some (q ! nat i)))
      (update_io (\<lambda>r. r\<lparr>gr_peers := AList.update p (int (length (gr_queue r))) (gr_peers r)\<rparr>))) is r =
    (Inr (), r\<lparr>gr_sent := gr_sent r @ map (\<lambda>i. (p, q ! nat i)) is,
       gr_peers := (if is = [] then gr_peers r else AList.update p (int (length (gr_queue r))) (gr_peers r))\<rparr>)"
  using assms(2)
proof (induction "is" arbitrary: r)
  case (Cons i "is")
  then show ?case using assms(1) by (simp add: io_simps gr_sendMessage_def)
qed (simp add: io_simps)

lemma missing_part: "k \<le> length q \<Longrightarrow> map (\<lambda>i. (p, q ! nat i)) [int k..int (length q) - 1] = map (Pair p) (drop k q)"
  by (rule nth_equalityI) (auto simp: nth_upto add.commute nat_int_add)

definition missing :: "gossip_relay \<Rightarrow> string \<Rightarrow> wire_message list" where
  "missing r p = drop (nat (the (map_of (gr_peers r) p))) (gr_queue r)"

lemma flush_ok:
  assumes "relay_ok r" "ready p" "map_of (gr_peers r) p \<noteq> None"
  shows "flushToPeer ready p r = (Inr (), r\<lparr>gr_sent := gr_sent r @ map (Pair p) (missing r p),
       gr_peers := AList.update p (int (length (gr_queue r))) (gr_peers r)\<rparr>)"
proof -
  obtain i where i: "map_of (gr_peers r) p = Some i" using assms(3) by blast
  then have b: "0 \<le> i" "i \<le> int (length (gr_queue r))" using assms(1) by (auto simp: relay_ok_def)
  then obtain k where k: "i = int k" "k \<le> length (gr_queue r)" by (metis nonneg_int_cases of_nat_le_iff)
  have "AList.update p (int (length (gr_queue r))) (gr_peers r) = gr_peers r" if "[i..int (length (gr_queue r)) - 1] = []"
    using that b i by (intro AList.update_triv) auto
  then show ?thesis
    using i k send_loop [of ready p "[i..int (length (gr_queue r)) - 1]" "gr_queue r" r] assms(2) missing_part [OF k(2), of p]
    by (simp add: flushToPeer_def missing_def)
qed

lemma flush_all:
  assumes "relay_ok r" "\<forall>p\<in>set ps. ready p \<and> map_of (gr_peers r) p \<noteq> None" "distinct ps"
  shows "\<exists>r'. each_io (flushToPeer ready) ps r = (Inr (), r')
    \<and> gr_sent r' = gr_sent r @ concat (map (\<lambda>p. map (Pair p) (missing r p)) ps)
    \<and> gr_queue r' = gr_queue r \<and> gr_maxQueueLen r' = gr_maxQueueLen r
    \<and> map fst (gr_peers r') = map fst (gr_peers r)
    \<and> (\<forall>p. map_of (gr_peers r') p = (if p \<in> set ps then Some (int (length (gr_queue r))) else map_of (gr_peers r) p))"
  using assms
proof (induction ps arbitrary: r)
  case (Cons p ps)
  define s where "s = r\<lparr>gr_sent := gr_sent r @ map (Pair p) (missing r p), gr_peers := AList.update p (int (length (gr_queue r))) (gr_peers r)\<rparr>"
  have f: "flushToPeer ready p r = (Inr (), s)" using flush_ok [of r ready p] Cons.prems by (simp add: s_def)
  have ok: "relay_ok s" using maintainsD [OF relay_ok_flush Cons.prems(1) f] .
  have s: "map fst (gr_peers s) = map fst (gr_peers r)" "gr_queue s = gr_queue r" "gr_maxQueueLen s = gr_maxQueueLen r"
    "gr_sent s = gr_sent r @ map (Pair p) (missing r p)"
    "map_of (gr_peers s) = (map_of (gr_peers r))(p \<mapsto> int (length (gr_queue r)))"
    using Cons.prems(2) by (auto simp: s_def AList.update_keys map_of_eq_None_iff AList.update_conv')
  have m: "missing s x = missing r x" if "x \<in> set ps" for x
    using that Cons.prems(3) s(2,5) by (auto simp: missing_def)
  have pre: "\<forall>x\<in>set ps. ready x \<and> map_of (gr_peers s) x \<noteq> None" "distinct ps"
    using Cons.prems(2,3) s(5) by simp_all
  obtain r' where r': "each_io (flushToPeer ready) ps s = (Inr (), r')"
    "gr_sent r' = gr_sent s @ concat (map (\<lambda>p. map (Pair p) (missing s p)) ps)"
    "gr_queue r' = gr_queue s" "gr_maxQueueLen r' = gr_maxQueueLen s" "map fst (gr_peers r') = map fst (gr_peers s)"
    "\<forall>p. map_of (gr_peers r') p = (if p \<in> set ps then Some (int (length (gr_queue s))) else map_of (gr_peers s) p)"
    using Cons.IH [OF ok pre] by blast
  have mm: "map (\<lambda>x. map (Pair x) (missing s x)) ps = map (\<lambda>x. map (Pair x) (missing r x)) ps"
    by (rule map_cong [OF refl]) (simp add: m)
  then show ?case using f r' s
    by (intro exI [of _ r']) (simp add: then_io_apply mm)
qed (auto simp: io_simps)

lemma pruneQueue_eq:
  "pruneQueue r = r\<lparr>gr_queue := drop (length (gr_queue r) - gr_maxQueueLen r) (gr_queue r),
     gr_peers := map (\<lambda>(p, i). (p, i - int (length (gr_queue r) - gr_maxQueueLen r))) (gr_peers r)\<rparr>"
  by (cases r) (auto simp: pruneQueue_def Let_def map_idI split: prod.split)

lemma map_of_shift: "map_of (map (\<lambda>(k, v). (k, f v)) xs) k = map_option f (map_of xs k)"
  by (induction xs) auto

text \<open>The relay after a tick at which every peer is ready.\<close>

lemma tick_ok:
  assumes "relay_ok r" "gr_timer r" "\<forall>p\<in>fst ` set (gr_peers r). ready p"
  shows "gr_sent (gr_tick ready r) = gr_sent r @ concat (map (\<lambda>p. map (Pair p) (missing r p)) (map fst (gr_peers r)))"
    and "gr_queue (gr_tick ready r) = drop (length (gr_queue r) - gr_maxQueueLen r) (gr_queue r)"
    and "map fst (gr_peers (gr_tick ready r)) = map fst (gr_peers r)"
    and "map_of (gr_peers (gr_tick ready r)) p = (if p \<in> fst ` set (gr_peers r) then Some (int (length (gr_queue (gr_tick ready r)))) else None)"
proof -
  have "\<forall>p\<in>set (map fst (gr_peers r)). ready p \<and> map_of (gr_peers r) p \<noteq> None" "distinct (map fst (gr_peers r))"
    using assms(1,3) by (auto simp: relay_ok_def map_of_eq_None_iff)
  from flush_all [OF assms(1) this] obtain r' where
    r': "each_io (flushToPeer ready) (map fst (gr_peers r)) r = (Inr (), r')"
    "gr_sent r' = gr_sent r @ concat (map (\<lambda>p. map (Pair p) (missing r p)) (map fst (gr_peers r)))"
    "gr_queue r' = gr_queue r" "gr_maxQueueLen r' = gr_maxQueueLen r" "map fst (gr_peers r') = map fst (gr_peers r)"
    "\<forall>p. map_of (gr_peers r') p = (if p \<in> set (map fst (gr_peers r)) then Some (int (length (gr_queue r))) else map_of (gr_peers r) p)"
    by blast
  have t: "gr_tick ready r = pruneQueue r'" using r'(1) assms(2) by (simp add: gr_tick_def gr_onTimer_def io_simps)
  show "gr_sent (gr_tick ready r) = gr_sent r @ concat (map (\<lambda>p. map (Pair p) (missing r p)) (map fst (gr_peers r)))"
    "gr_queue (gr_tick ready r) = drop (length (gr_queue r) - gr_maxQueueLen r) (gr_queue r)"
    "map fst (gr_peers (gr_tick ready r)) = map fst (gr_peers r)"
    using t r'(2-5) by (simp_all add: pruneQueue_eq case_prod_unfold comp_def)
  have "map_of (gr_peers r) p = None" if "p \<notin> fst ` set (gr_peers r)" using that by (simp add: map_of_eq_None_iff)
  then show "map_of (gr_peers (gr_tick ready r)) p = (if p \<in> fst ` set (gr_peers r) then Some (int (length (gr_queue (gr_tick ready r)))) else None)"
    using r'(6) [THEN spec, of p] r'(2-5) map_of_shift [of "\<lambda>i. i - int (length (gr_queue r) - gr_maxQueueLen r)" "gr_peers r'" p]
    unfolding t pruneQueue_eq by (cases "p \<in> fst ` set (gr_peers r)") auto
qed

section \<open>What the relay delivers\<close>

definition event_ok :: "relay_event \<Rightarrow> bool" where
  "event_ok e \<longleftrightarrow> (case e of Enqueue m \<Rightarrow> scids_ok m | _ \<Rightarrow> True)"

lemma relay_ok_prune: "relay_ok r \<Longrightarrow> (\<And>p i. map_of (gr_peers r) p = Some i \<Longrightarrow> i = int (length (gr_queue r))) \<Longrightarrow> relay_ok (pruneQueue r)"
proof -
  assume r: "relay_ok r" "\<And>p i. map_of (gr_peers r) p = Some i \<Longrightarrow> i = int (length (gr_queue r))"
  let ?d = "length (gr_queue r) - gr_maxQueueLen r"
  have "distinct (map subject_of (drop ?d (gr_queue r)))" using r(1) by (simp add: relay_ok_def flip: drop_map)
  moreover have "distinct (map fst (map (\<lambda>(p, i). (p, i - int ?d)) (gr_peers r)))"
    using r(1) by (simp add: relay_ok_def comp_def case_prod_unfold)
  moreover have "i = int (length (gr_queue r)) - int ?d" if "map_of (map (\<lambda>(p, i). (p, i - int ?d)) (gr_peers r)) p = Some i" for p i
    using that r(2) map_of_shift [of "\<lambda>i. i - int ?d" "gr_peers r" p] by auto
  ultimately show "relay_ok (pruneQueue r)"
    using r(1) by (fastforce simp: relay_ok_def pruneQueue_eq dest: in_set_dropD)
qed

text \<open>A flush that is not interrupted has brought the peers up to the end of the queue.\<close>

lemma flush_success:
  assumes "relay_ok r" "map_of (gr_peers r) p \<noteq> None" "flushToPeer ready p r = (Inr (), r')"
  shows "map_of (gr_peers r') = (map_of (gr_peers r))(p \<mapsto> int (length (gr_queue r))) \<and> gr_queue r' = gr_queue r"
proof (cases "ready p")
  case True
  then show ?thesis using flush_ok [of r ready p] assms True by (auto simp: AList.update_conv')
next
  case False
  obtain i where i: "map_of (gr_peers r) p = Some i" using assms(2) by blast
  have "[i..int (length (gr_queue r)) - 1] = []"
  proof (rule ccontr)
    assume "[i..int (length (gr_queue r)) - 1] \<noteq> []"
    then show False using assms(3) False i
      by (cases "[i..int (length (gr_queue r)) - 1]") (auto simp: flushToPeer_def io_simps gr_sendMessage_def)
  qed
  then have "r' = r" "int (length (gr_queue r)) \<le> i" using i assms(3) by (auto simp: flushToPeer_def io_simps)
  moreover have "i \<le> int (length (gr_queue r))" using assms(1) i by (simp add: relay_ok_def)
  ultimately show ?thesis using i by (auto simp: fun_upd_triv)
qed

lemma flush_all_success:
  "relay_ok r \<Longrightarrow> \<forall>p\<in>set ps. map_of (gr_peers r) p \<noteq> None \<Longrightarrow> each_io (flushToPeer ready) ps r = (Inr (), r') \<Longrightarrow>
   gr_queue r' = gr_queue r \<and> (\<forall>p. map_of (gr_peers r') p = (if p \<in> set ps then Some (int (length (gr_queue r))) else map_of (gr_peers r) p))"
proof (induction ps arbitrary: r)
  case (Cons p ps)
  obtain s where s: "flushToPeer ready p r = (Inr (), s)" "each_io (flushToPeer ready) ps s = (Inr (), r')"
    using Cons.prems(3) by (auto simp: io_simps split: prod.splits sum.splits)
  have "relay_ok s" using maintainsD [OF relay_ok_flush Cons.prems(1) s(1)] .
  moreover have "map_of (gr_peers s) = (map_of (gr_peers r))(p \<mapsto> int (length (gr_queue r)))" "gr_queue s = gr_queue r"
    using flush_success [OF Cons.prems(1) _ s(1)] Cons.prems(2) by auto
  ultimately show ?case using Cons.IH [of s] Cons.prems(2) s(2) by auto
qed (simp add: io_simps)

lemma relay_ok_tick: "relay_ok r \<Longrightarrow> relay_ok (gr_tick ready r)"
proof -
  assume r: "relay_ok r"
  obtain res s where s: "each_io (flushToPeer ready) (map fst (gr_peers r)) r = (res, s)"
    by (cases "each_io (flushToPeer ready) (map fst (gr_peers r)) r")
  have ok: "relay_ok s" using maintainsD [of relay_ok, OF maintains_each [OF relay_ok_flush] r s] .
  show ?thesis
  proof (cases res)
    case (Inl e)
    then show ?thesis using s ok r by (simp add: gr_tick_def gr_onTimer_def io_simps)
  next
    case (Inr u)
    have "\<forall>p\<in>set (map fst (gr_peers r)). map_of (gr_peers r) p \<noteq> None" by (auto simp: map_of_eq_None_iff)
    from flush_all_success [OF r this, of ready s] have fl: "gr_queue s = gr_queue r"
      "map_of (gr_peers s) p = (if p \<in> fst ` set (gr_peers r) then Some (int (length (gr_queue r))) else map_of (gr_peers r) p)" for p
      using s Inr by auto
    have "i = int (length (gr_queue s))" if "map_of (gr_peers s) p = Some i" for p i
      using fl that map_of_eq_None_iff [of "gr_peers r" p]
      by (cases "p \<in> fst ` set (gr_peers r)") auto
    then have "relay_ok (pruneQueue s)" using relay_ok_prune [OF ok] by blast
    then show ?thesis using s Inr r by (simp add: gr_tick_def gr_onTimer_def io_simps)
  qed
qed

lemma relay_ok_step: "relay_ok r \<Longrightarrow> event_ok e \<Longrightarrow> relay_ok (relay_step e r)"
proof (cases e)
  case (RemovePeer p)
  then show "relay_ok r \<Longrightarrow> event_ok e \<Longrightarrow> relay_ok (relay_step e r)"
    by (auto simp: gr_removePeer_def relay_ok_def AList.delete_conv' AList.distinct_delete)
next
  case (Enqueue m)
  then show "relay_ok r \<Longrightarrow> event_ok e \<Longrightarrow> relay_ok (relay_step e r)"
    using relay_ok_enqueue by (simp add: event_ok_def)
qed (auto simp: relay_ok_tick gr_start_def gr_stop_def gr_addPeer_def relay_ok_reindex, auto simp: relay_ok_def)

lemma relay_ok_run: "\<forall>e\<in>set es. event_ok e \<Longrightarrow> relay_ok r \<Longrightarrow> relay_ok (fold relay_step es r)"
  by (induction es arbitrary: r) (auto intro: relay_ok_step)

lemma relay_ok_new: "relay_ok (newGossipRelay n)"
  by (simp add: relay_ok_def newGossipRelay_def)

abbreviation relay_mode :: "gossip_relay \<Rightarrow> GossipRelayState \<times> bool \<times> nat" where
  "relay_mode r \<equiv> (gr_state r, gr_timer r, gr_maxQueueLen r)"

lemma preserves_relay_send: "preserves relay_mode (gr_sendMessage ready p m)"
  by (cases m) (simp_all add: preserves_def gr_sendMessage_def)

lemma mode_flush: "preserves relay_mode (each_io (flushToPeer ready) ps)"
proof -
  have loop: "preserves relay_mode (each_io (\<lambda>i. then_io (gr_sendMessage ready p (if i < 0 then None else Some (q ! nat i)))
      (update_io (\<lambda>r. r\<lparr>gr_peers := AList.update p (int (length (gr_queue r))) (gr_peers r)\<rparr>))) is)" for p q "is"
    by (intro preserves_intro preserves_relay_send) simp
  have "preserves relay_mode (flushToPeer ready p)" for p
    unfolding preserves_def flushToPeer_def using loop [unfolded preserves_def] by (intro allI) (rule spec)
  then show ?thesis by (intro preserves_intro)
qed

lemma mode_tick: "relay_mode (gr_tick ready r) = relay_mode r"
proof -
  obtain res s where s: "each_io (flushToPeer ready) (map fst (gr_peers r)) r = (res, s)"
    by (cases "each_io (flushToPeer ready) (map fst (gr_peers r)) r")
  then have "relay_mode s = relay_mode r" using preservesD [OF mode_flush] by blast
  then show ?thesis using s
    by (cases res) (auto simp: gr_tick_def gr_onTimer_def io_simps pruneQueue_eq)
qed

lemma mode_enqueue: "relay_mode (snd (gr_enqueue m r)) = relay_mode r"
  by (auto simp: gr_enqueue_def replaceOlder_def Let_def split: wire_message.splits sum.splits option.splits)

lemma peers_enqueue: "gr_peers (snd (gr_enqueue m r)) = gr_peers r" "gr_sent (snd (gr_enqueue m r)) = gr_sent r"
  by (auto simp: gr_enqueue_def replaceOlder_def Let_def split: wire_message.splits sum.splits option.splits)

text \<open>The timer runs exactly while the relay is active, and the limit of the queue never changes.\<close>

lemma mode_run:
  "(gr_timer r \<longleftrightarrow> gr_state r = Active) \<and> gr_maxQueueLen r = n \<Longrightarrow>
   (gr_timer (fold relay_step es r) \<longleftrightarrow> gr_state (fold relay_step es r) = Active) \<and> gr_maxQueueLen (fold relay_step es r) = n"
proof (induction es arbitrary: r)
  case (Cons e es)
  have "(gr_timer (relay_step e r) \<longleftrightarrow> gr_state (relay_step e r) = Active) \<and> gr_maxQueueLen (relay_step e r) = n"
  proof (cases e)
    case (Enqueue m)
    then show ?thesis using mode_enqueue [of m r] Cons.prems by simp
  next
    case (Tick ready)
    then show ?thesis using mode_tick [of ready r] Cons.prems by simp
  qed (use Cons.prems in \<open>auto simp: gr_start_def gr_stop_def gr_addPeer_def gr_removePeer_def intro: GossipRelayState.exhaust\<close>)
  then show ?case using Cons.IH by simp
qed simp

text \<open>
  What a message means for a queue: it is appended unless the queue has one about the same subject; it takes the
  place of an older one, at the end.
\<close>

definition newest :: "wire_message \<Rightarrow> wire_message list \<Rightarrow> wire_message list" where
  "newest m q = (if subject_of m = None then q else case about (subject_of m) q of None \<Rightarrow> q @ [m]
     | Some e \<Rightarrow> if wm_timestamp e < wm_timestamp m then filter (\<lambda>x. subject_of x \<noteq> subject_of m) q @ [m] else q)"

lemma indexOf_filter:
  assumes "distinct (map subject_of q)" "e \<in> set q"
  shows "take (indexOf q e) q @ drop (Suc (indexOf q e)) q = filter (\<lambda>x. subject_of x \<noteq> subject_of e) q"
proof -
  obtain ys zs where q: "q = ys @ e # zs" "take (indexOf q e) q = ys" "drop (Suc (indexOf q e)) q = zs"
    using indexOf_remove [OF assms(2)] by blast
  have "distinct (map subject_of (ys @ e # zs))" using assms(1) by (simp only: q(1) [symmetric])
  then have "subject_of e \<notin> subject_of ` set ys" "subject_of e \<notin> subject_of ` set zs" by auto
  then have "\<forall>x\<in>set ys. subject_of x \<noteq> subject_of e" "\<forall>x\<in>set zs. subject_of x \<noteq> subject_of e" by (metis image_eqI)+
  then have "filter (\<lambda>x. subject_of x \<noteq> subject_of e) ys = ys" "filter (\<lambda>x. subject_of x \<noteq> subject_of e) zs = zs"
    by (simp_all add: filter_id_conv)
  then have "filter (\<lambda>x. subject_of x \<noteq> subject_of e) (ys @ e # zs) = ys @ zs" by simp
  then show ?thesis unfolding q(2,3) using q(1) by (simp only:)
qed

lemma enqueue_newest:
  assumes "relay_ok r" "gr_state r = Active" "scids_ok m"
  shows "snd (gr_enqueue m r) = r\<lparr>gr_queue := newest m (gr_queue r)\<rparr>"
proof (cases "subject_of m = None")
  case True
  then show ?thesis by (simp add: enqueue_other newest_def)
next
  case False
  have d: "distinct (map subject_of (gr_queue r))" using assms(1) by (simp add: relay_ok_def)
  note c = enqueue_cases [OF assms(1,3,2) False]
  show ?thesis
  proof (cases "about (subject_of m) (gr_queue r)")
    case None
    then show ?thesis using c False by (simp add: newest_def)
  next
    case (Some e)
    have "e \<in> set (gr_queue r)" "subject_of e = subject_of m" using about_Some [OF Some] by simp_all
    with indexOf_filter [OF d this(1)] have eq: "filter (\<lambda>x. subject_of x \<noteq> subject_of m) (gr_queue r) @ [m] = take (indexOf (gr_queue r) e) (gr_queue r) @ drop (Suc (indexOf (gr_queue r) e)) (gr_queue r) @ [m]" by (metis append_assoc)
    show ?thesis unfolding c newest_def eq by (simp add: Some False)
  qed
qed

lemma enqueue_all:
  assumes "relay_ok r" "gr_state r = Active" "\<forall>m\<in>set ms. scids_ok m"
  shows "relay_ok (fold (\<lambda>m r. snd (gr_enqueue m r)) ms r)
    \<and> fold (\<lambda>m r. snd (gr_enqueue m r)) ms r = r\<lparr>gr_queue := fold newest ms (gr_queue r)\<rparr>"
  using assms
proof (induction ms arbitrary: r)
  case (Cons m ms)
  have e: "snd (gr_enqueue m r) = r\<lparr>gr_queue := newest m (gr_queue r)\<rparr>" using enqueue_newest Cons.prems by simp
  have "relay_ok (snd (gr_enqueue m r))" using relay_ok_enqueue [of r m] Cons.prems(1,3) by simp
  then show ?case using Cons.IH [of "snd (gr_enqueue m r)"] Cons.prems(2,3) e by simp metis
qed simp

text \<open>Messages about subjects that are not in the queue collect behind it.\<close>

lemma find_app: "find P (xs @ ys) = (case find P xs of None \<Rightarrow> find P ys | Some x \<Rightarrow> Some x)"
  by (induction xs) auto

lemma newest_behind:
  assumes "\<forall>e\<in>set q. subject_of e = subject_of m \<longrightarrow> wm_timestamp m \<le> wm_timestamp e"
  shows "newest m (q @ x) = q @ (if subject_of m \<in> subject_of ` set q then x else newest m x)"
proof (cases "about (subject_of m) q")
  case None
  then have new: "subject_of m \<notin> subject_of ` set q" by (rule about_None)
  then have "\<forall>e\<in>set q. subject_of e \<noteq> subject_of m" by (metis image_eqI)
  then have keep: "filter (\<lambda>e. subject_of e \<noteq> subject_of m) q = q" by (simp add: filter_id_conv)
  have "about (subject_of m) (q @ x) = about (subject_of m) x" using None by (simp add: about_def find_app)
  then show ?thesis using new keep by (simp add: newest_def split: option.split)
next
  case (Some e)
  then have e: "e \<in> set q" "subject_of e = subject_of m" using about_Some by blast+
  then have "subject_of m \<in> subject_of ` set q" by (metis image_eqI)
  moreover have "about (subject_of m) (q @ x) = Some e" using Some by (simp add: about_def find_app)
  moreover have "\<not> wm_timestamp e < wm_timestamp m" using assms e by (simp add: not_less)
  ultimately show ?thesis by (simp add: newest_def)
qed

lemma newest_all_behind:
  assumes "\<forall>m\<in>set ms. \<forall>e\<in>set q. subject_of e = subject_of m \<longrightarrow> wm_timestamp m \<le> wm_timestamp e"
  shows "fold newest ms (q @ x) = q @ fold newest (filter (\<lambda>m. subject_of m \<notin> subject_of ` set q) ms) x"
  using assms
proof (induction ms arbitrary: x)
  case (Cons m ms)
  then show ?case using newest_behind [of q m x] by simp
qed simp

lemma filter_peers:
  "distinct ps \<Longrightarrow> filter (\<lambda>x. fst x = p) (concat (map (\<lambda>q. map (Pair q) (f q)) ps)) = (if p \<in> set ps then map (Pair p) (f p) else [])"
  by (induction ps) (auto simp: filter_empty_conv filter_id_conv)

text \<open>
  C15: What the relay delivers: after any sequence of events, a peer that is up to date gets, when the timer ticks and
  the peers are ready, what the messages queued from then on have put behind the end of the queue, each once and
  in order; it is up to date again, and the queue keeps to its limit.  If none of them is newer than a queued one about
  the same subject, these are all of them that are about new subjects, the newest for each.  Otherwise the one
  that is replaced makes the queue shrink below the index of the peer, which misses one (see \<^verbatim>\<open>replaced_message_lost\<close>).
\<close>

theorem relay_delivers:
  assumes "\<forall>e\<in>set es. event_ok e" "r = fold relay_step es (newGossipRelay n)" "gr_state r = Active"
    and "map_of (gr_peers r) p = Some (int (length (gr_queue r)))" "\<forall>q\<in>fst ` set (gr_peers r). ready q"
    and "\<forall>m\<in>set ms. scids_ok m"
  shows "\<exists>r'. r' = gr_tick ready (fold (\<lambda>m r. snd (gr_enqueue m r)) ms r)
    \<and> filter (\<lambda>x. fst x = p) (drop (length (gr_sent r)) (gr_sent r')) = map (Pair p) (drop (length (gr_queue r)) (fold newest ms (gr_queue r)))
    \<and> ((\<forall>m\<in>set ms. \<forall>e\<in>set (gr_queue r). subject_of e = subject_of m \<longrightarrow> wm_timestamp m \<le> wm_timestamp e) \<longrightarrow>
        drop (length (gr_queue r)) (fold newest ms (gr_queue r))
          = fold newest (filter (\<lambda>m. subject_of m \<notin> subject_of ` set (gr_queue r)) ms) [])
    \<and> map_of (gr_peers r') p = Some (int (length (gr_queue r'))) \<and> length (gr_queue r') \<le> n"
proof -
  have ok: "relay_ok r" using relay_ok_run [OF assms(1) relay_ok_new] assms(2) by simp
  have mode: "gr_timer r" "gr_maxQueueLen r = n"
    using mode_run [of "newGossipRelay n" n es] assms(2,3) by (simp_all add: newGossipRelay_def)
  let ?s = "r\<lparr>gr_queue := fold newest ms (gr_queue r)\<rparr>"
  have s: "relay_ok ?s" "fold (\<lambda>m r. snd (gr_enqueue m r)) ms r = ?s"
    using enqueue_all [OF ok assms(3,6)] by auto
  have p: "p \<in> fst ` set (gr_peers r)" "distinct (map fst (gr_peers r))"
    using assms(4) map_of_SomeD [OF assms(4)] ok by (force simp: relay_ok_def)+
  have t: "gr_timer ?s" "\<forall>q\<in>fst ` set (gr_peers ?s). ready q" using mode assms(5) by simp_all
  have "filter (\<lambda>x. fst x = p) (drop (length (gr_sent r)) (gr_sent (gr_tick ready ?s)))
      = map (Pair p) (drop (length (gr_queue r)) (fold newest ms (gr_queue r)))"
    using tick_ok(1) [OF s(1) t] filter_peers [OF p(2), of p "missing ?s"] p(1) assms(4) by (simp add: missing_def)
  moreover have "drop (length (gr_queue r)) (fold newest ms (gr_queue r))
      = fold newest (filter (\<lambda>m. subject_of m \<notin> subject_of ` set (gr_queue r)) ms) []"
    if "\<forall>m\<in>set ms. \<forall>e\<in>set (gr_queue r). subject_of e = subject_of m \<longrightarrow> wm_timestamp m \<le> wm_timestamp e"
    using newest_all_behind [OF that, of "[]"] by simp
  ultimately show ?thesis
    using tick_ok(2,4) [OF s(1) t] p(1) mode(2) s(2) by (intro exI [of _ "gr_tick ready ?s"]) simp
qed

text \<open>
  A newer message that replaces an older one in the queue is lost for every peer that is up to date: the
  replacement takes the place of a message that the index of the peer counts as sent.  The message
  is in the queue, and the next tick sends nothing to the peer.
\<close>

theorem replaced_message_lost:
  assumes "\<forall>e\<in>set es. event_ok e" "r = fold relay_step es (newGossipRelay n)" "gr_state r = Active"
    and "map_of (gr_peers r) p = Some (int (length (gr_queue r)))" "\<forall>q\<in>fst ` set (gr_peers r). ready q"
    and "scids_ok msg" "subject_of msg \<noteq> None" "old \<in> set (gr_queue r)" "subject_of old = subject_of msg"
    and "wm_timestamp old < wm_timestamp msg"
  shows "msg \<in> set (gr_queue (snd (gr_enqueue msg r)))
    \<and> filter (\<lambda>x. fst x = p) (drop (length (gr_sent r)) (gr_sent (gr_tick ready (snd (gr_enqueue msg r))))) = []
    \<and> map_of (gr_peers (gr_tick ready (snd (gr_enqueue msg r)))) p
        = Some (int (length (gr_queue (gr_tick ready (snd (gr_enqueue msg r))))))"
proof -
  have ok: "relay_ok r" using relay_ok_run [OF assms(1) relay_ok_new] assms(2) by simp
  have mode: "gr_timer r"
    using mode_run [of "newGossipRelay n" n es] assms(2,3) by (simp add: newGossipRelay_def)
  obtain e where e: "about (subject_of msg) (gr_queue r) = Some e"
    using about_None [of "subject_of msg" "gr_queue r"] assms(8,9) by (metis image_eqI not_None_eq)
  have "e = old" using about_Some [OF e] assms(8,9) ok by (auto simp: relay_ok_def distinct_map inj_on_def)
  then have q: "gr_queue (snd (gr_enqueue msg r)) =
      take (indexOf (gr_queue r) old) (gr_queue r) @ drop (Suc (indexOf (gr_queue r) old)) (gr_queue r) @ [msg]"
    using enqueue_cases [OF ok assms(6,3,7)] e assms(10) by simp
  have len: "length (gr_queue (snd (gr_enqueue msg r))) = length (gr_queue r)"
  proof -
    obtain ys zs where "gr_queue r = ys @ old # zs" "take (indexOf (gr_queue r) old) (gr_queue r) = ys"
      "drop (Suc (indexOf (gr_queue r) old)) (gr_queue r) = zs"
      using indexOf_remove [OF assms(8)] by blast
    then have "length (ys @ zs @ [msg]) = length (gr_queue r)" "gr_queue (snd (gr_enqueue msg r)) = ys @ zs @ [msg]"
      unfolding q by simp_all
    then show ?thesis by simp
  qed
  let ?s = "snd (gr_enqueue msg r)"
  have s: "relay_ok ?s" "gr_timer ?s" "\<forall>q\<in>fst ` set (gr_peers ?s). ready q" "distinct (map fst (gr_peers ?s))"
    using relay_ok_enqueue [OF ok assms(6)] mode_enqueue [of msg r] mode assms(5) ok by (simp_all add: peers_enqueue relay_ok_def)
  have p: "p \<in> fst ` set (gr_peers ?s)" using map_of_SomeD [OF assms(4)] by (force simp: peers_enqueue)
  have "missing ?s p = []" using len assms(4) by (simp add: missing_def peers_enqueue)
  then have "filter (\<lambda>x. fst x = p) (drop (length (gr_sent r)) (gr_sent (gr_tick ready ?s))) = []"
    using tick_ok(1) [OF s(1-3)] filter_peers [OF s(4), of p "missing ?s"] by (simp add: peers_enqueue)
  then show ?thesis using tick_ok(4) [OF s(1-3), of p] p q by simp
qed

definition sample_node :: "nat \<Rightarrow> wire_message" where
  "sample_node t = MNodeAnnouncement \<lparr>na_signature = [], na_features = BitField 0, na_timestamp = t,
     na_nodeId = [2], na_rgbColor = [], na_alias = [], na_addresses = []\<rparr>"

lemma sample_node: "scids_ok (sample_node t)" "subject_of (sample_node t) = Some (NodeOf [2])" "wm_timestamp (sample_node t) = t"
  by (simp_all add: sample_node_def scids_ok_def subject_of_def wm_timestamp_def)

theorem relay_delivers_witness:
  "\<exists>r r'. r = fold relay_step [Start, AddPeer ''p''] (newGossipRelay 2)
    \<and> r' = gr_tick (\<lambda>_. True) (fold (\<lambda>m r. snd (gr_enqueue m r)) [sample_node 1, sample_node 2, sample_node 1] r)
    \<and> filter (\<lambda>x. fst x = ''p'') (drop (length (gr_sent r)) (gr_sent r')) = map (Pair ''p'') [sample_node 2]"
proof -
  let ?r = "fold relay_step [Start, AddPeer ''p''] (newGossipRelay 2)"
  have r: "\<forall>e\<in>set [Start, AddPeer ''p'']. event_ok e" "gr_state ?r = Active" "map_of (gr_peers ?r) ''p'' = Some (int (length (gr_queue ?r)))"
    "\<forall>q\<in>fst ` set (gr_peers ?r). True" "\<forall>m\<in>set [sample_node 1, sample_node 2, sample_node 1]. scids_ok m" "gr_queue ?r = []"
    by (simp_all add: event_ok_def gr_start_def gr_addPeer_def newGossipRelay_def sample_node)
  have "fold newest [sample_node 1, sample_node 2, sample_node 1] [] = [sample_node 2]"
    by (simp add: newest_def about_def sample_node)
  then show ?thesis
    using relay_delivers [OF r(1) refl r(2,3) _ r(5), of "\<lambda>_. True"] unfolding r(6) by auto
qed

theorem replaced_message_lost_witness:
  "\<exists>r. r = fold relay_step [Start, Enqueue (sample_node 1), AddPeer ''p''] (newGossipRelay 2)
    \<and> sample_node 2 \<in> set (gr_queue (snd (gr_enqueue (sample_node 2) r)))
    \<and> filter (\<lambda>x. fst x = ''p'') (drop (length (gr_sent r)) (gr_sent (gr_tick (\<lambda>_. True) (snd (gr_enqueue (sample_node 2) r))))) = []"
proof -
  let ?es = "[Start, Enqueue (sample_node 1), AddPeer ''p'']"
  let ?r = "fold relay_step ?es (newGossipRelay 2)"
  have e: "snd (gr_enqueue (sample_node 1) (newGossipRelay 2\<lparr>gr_state := Active, gr_timer := True\<rparr>))
      = newGossipRelay 2\<lparr>gr_state := Active, gr_timer := True, gr_queue := [sample_node 1]\<rparr>"
    by (simp add: sample_node_def gr_enqueue_def newGossipRelay_def findNodeAnn_def replaceOlder_def)
  have r: "\<forall>e\<in>set ?es. event_ok e" "gr_state ?r = Active" "map_of (gr_peers ?r) ''p'' = Some (int (length (gr_queue ?r)))"
    "\<forall>q\<in>fst ` set (gr_peers ?r). True" "sample_node 1 \<in> set (gr_queue ?r)"
    using e by (simp_all add: event_ok_def gr_start_def gr_addPeer_def newGossipRelay_def sample_node)
  have s: "scids_ok (sample_node 2)" "subject_of (sample_node 2) \<noteq> None" "subject_of (sample_node 1) = subject_of (sample_node 2)"
    "wm_timestamp (sample_node 1) < wm_timestamp (sample_node 2)"
    by (simp_all add: sample_node)
  show ?thesis using replaced_message_lost [OF r(1) refl r(2,3) _ s(1,2) r(5) s(3,4), of "\<lambda>_. True"] by blast
qed

end
