(* ===== verification/GossipSync.thy ===== *)
theory GossipSync
  imports Messages
begin

text \<open>
  The synchronisation with a peer by gossip queries: \<^verbatim>\<open>gossip/queries/ChannelRangeQuery.ts\<close>,
  \<^verbatim>\<open>gossip/queries/ChannelsQuery.ts\<close>, \<^verbatim>\<open>gossip/GossipSyncWatcher.ts\<close>, \<^verbatim>\<open>gossip/GossipQueriesSync.ts\<close>,
  \<^verbatim>\<open>gossip/GossipQueriesReceiver.ts\<close> and \<^verbatim>\<open>gossip/GossipError.ts\<close>.

  The methods run between the events of the runtime: a message of the peer, a timeout, and the
  continuation of an \<^verbatim>\<open>async\<close> function once the promise it awaits is settled.  An object is used for
  one query, as \<^verbatim>\<open>GossipPeer.syncRange\<close> does.  Block numbers are those of 32 bits.
\<close>

section \<open>Promises and the peer\<close>

datatype GossipErrorCode = UnknownGossipError | PeerNotReady | ReplyChannelRangeNoInformation | ReplyChannelsNoInfo

datatype sync_error = GossipError GossipErrorCode wire_message | Thrown exn

datatype promise = Unsettled | Resolved | Rejected sync_error

text \<open>Only the first settlement counts.\<close>

definition settle :: "promise \<Rightarrow> promise option \<Rightarrow> promise option" where
  "settle r p = (if p = Some Unsettled then Some r else p)"

text \<open>\<^verbatim>\<open>Peer.sendMessage\<close> throws if the peer is not ready.\<close>

record message_sender =
  snd_ready :: bool
  snd_sent :: "wire_message list"

definition sendMessage :: "wire_message \<Rightarrow> ('s \<times> message_sender, unit) io" where
  "sendMessage m = (\<lambda>(s, p). if snd_ready p then (Inr (), (s, p\<lparr>snd_sent := snd_sent p @ [m]\<rparr>))
     else (Inl (JsError ''Peer is not ready''), (s, p)))"

definition updateQuery :: "('s \<Rightarrow> 's) \<Rightarrow> ('s \<times> message_sender, unit) io" where
  "updateQuery f = update_io (\<lambda>(s, p). (f s, p))"

section \<open>The query of a range of blocks\<close>

datatype ChannelRangeQueryState = RangeIdle | RangeActive | RangeComplete | RangeFailed

record range_query =
  rq_chainHash :: buffer
  rq_state :: ChannelRangeQueryState
  rq_isLegacy :: bool
  rq_query :: "query_channel_range option"
  rq_results :: "scid list"
  rq_error :: "sync_error option"
  rq_handlers :: bool
  rq_promise :: "promise option"

definition newChannelRangeQuery :: "buffer \<Rightarrow> bool \<Rightarrow> range_query" where
  "newChannelRangeQuery chainHash isLegacy = \<lparr>rq_chainHash = chainHash, rq_state = RangeIdle, rq_isLegacy = isLegacy,
     rq_query = None, rq_results = [], rq_error = None, rq_handlers = False, rq_promise = None\<rparr>"

text \<open>\<^verbatim>\<open>_resolve\<close> and \<^verbatim>\<open>_reject\<close> are not set if sending the query has thrown; calling them is a \<^verbatim>\<open>TypeError\<close>.\<close>

definition rq_settle :: "promise \<Rightarrow> (range_query \<times> message_sender, unit) io" where
  "rq_settle r = (\<lambda>(q, p). if rq_handlers q then (Inr (), (q\<lparr>rq_promise := settle r (rq_promise q)\<rparr>, p)) else (Inl TypeError, (q, p)))"

definition rq_transitionFailed :: "sync_error \<Rightarrow> (range_query \<times> message_sender, unit) io" where
  "rq_transitionFailed error = (\<lambda>(q, p). if rq_state q \<noteq> RangeActive then (Inr (), (q, p))
     else rq_settle (Rejected error) (q\<lparr>rq_error := Some error, rq_state := RangeFailed\<rparr>, p))"

definition rq_transitionComplete :: "(range_query \<times> message_sender, unit) io" where
  "rq_transitionComplete = (\<lambda>(q, p). if rq_state q \<noteq> RangeActive then (Inr (), (q, p))
     else rq_settle Resolved (q\<lparr>rq_state := RangeComplete\<rparr>, p))"

definition rq_message :: "buffer \<Rightarrow> nat \<Rightarrow> nat \<Rightarrow> query_channel_range" where
  "rq_message chainHash firstBlock numBlocks = \<lparr>qr_chainHash = chainHash, qr_firstBlocknum = firstBlock,
     qr_numberOfBlocks = numBlocks, qr_timestamps = None, qr_checksums = None\<rparr>"

definition rq_sendQuery :: "nat \<Rightarrow> nat \<Rightarrow> (range_query \<times> message_sender, unit) io" where
  "rq_sendQuery firstBlock numBlocks = (\<lambda>(q, p). let msg = rq_message (rq_chainHash q) firstBlock numBlocks in
     then_io (sendMessage (MQueryChannelRange msg)) (updateQuery (\<lambda>q. q\<lparr>rq_query := Some msg\<rparr>)) (q, p))"

definition isLegacyReply :: "reply_channel_range \<Rightarrow> bool" where
  "isLegacyReply msg \<longleftrightarrow> \<not> rr_fullInformation msg \<and> rr_shortChannelIds msg \<noteq> []"

definition rq_addResults :: "reply_channel_range \<Rightarrow> range_query \<Rightarrow> range_query" where
  "rq_addResults msg q = q\<lparr>rq_results := rq_results q @ rr_shortChannelIds msg\<rparr>"

definition rq_handleReply :: "reply_channel_range \<Rightarrow> (range_query \<times> message_sender, unit) io" where
  "rq_handleReply msg =
     then_io (updateQuery (rq_addResults msg))
     (if \<not> rr_fullInformation msg
      then rq_transitionFailed (GossipError ReplyChannelRangeNoInformation (MReplyChannelRange msg))
      else bind_io (get_defined (\<lambda>(q, p). rq_query q)) (\<lambda>query.
        if rr_firstBlocknum msg + rr_numberOfBlocks msg \<ge> qr_firstBlocknum query + qr_numberOfBlocks query
        then rq_transitionComplete else return_io ()))"

definition rq_handleLegacyReply :: "reply_channel_range \<Rightarrow> (range_query \<times> message_sender, unit) io" where
  "rq_handleLegacyReply msg =
     then_io (updateQuery (rq_addResults msg))
     (bind_io (get_state (\<lambda>(q, p). rq_results q)) (\<lambda>results.
      if rr_fullInformation msg \<and> results = []
      then rq_transitionFailed (GossipError ReplyChannelRangeNoInformation (MReplyChannelRange msg))
      else if rr_fullInformation msg then rq_transitionComplete else return_io ()))"

definition handleReplyChannelRange :: "reply_channel_range \<Rightarrow> (range_query \<times> message_sender, unit) io" where
  "handleReplyChannelRange msg =
     then_io (updateQuery (\<lambda>q. if \<not> rq_isLegacy q \<and> isLegacyReply msg then q\<lparr>rq_isLegacy := True\<rparr> else q))
     (bind_io (get_state (\<lambda>(q, p). rq_isLegacy q)) (\<lambda>isLegacy.
      if isLegacy then rq_handleLegacyReply msg else rq_handleReply msg))"

text \<open>The executor of the promise: what it throws rejects the promise.\<close>

definition rq_queryRange :: "nat option \<Rightarrow> nat option \<Rightarrow> (range_query \<times> message_sender, unit) io" where
  "rq_queryRange firstBlock numBlocks = (\<lambda>(q, p).
     let first = (case firstBlock of None \<Rightarrow> 0 | Some n \<Rightarrow> n);
         num = (case numBlocks of None \<Rightarrow> 4294967295 - first | Some n \<Rightarrow> n)
     in case rq_sendQuery first num (q\<lparr>rq_state := RangeActive\<rparr>, p) of
          (Inl e, (q, p)) \<Rightarrow> (Inr (), (q\<lparr>rq_promise := Some (Rejected (Thrown e))\<rparr>, p))
        | (Inr _, (q, p)) \<Rightarrow> (Inr (), (q\<lparr>rq_handlers := True, rq_promise := Some Unsettled\<rparr>, p)))"

section \<open>The query of channels\<close>

datatype ChannelsQueryState = ChannelsIdle | ChannelsActive | ChannelsComplete | ChannelsFailed

record channels_query =
  cq_chainHash :: buffer
  cq_chunkSize :: nat
  cq_queue :: "scid list"
  cq_state :: ChannelsQueryState
  cq_error :: "sync_error option"
  cq_handlers :: bool
  cq_promise :: "promise option"

definition newChannelsQuery :: "buffer \<Rightarrow> channels_query" where
  "newChannelsQuery chainHash = \<lparr>cq_chainHash = chainHash, cq_chunkSize = 2000, cq_queue = [], cq_state = ChannelsIdle,
     cq_error = None, cq_handlers = False, cq_promise = None\<rparr>"

definition cq_settle :: "promise \<Rightarrow> (channels_query \<times> message_sender, unit) io" where
  "cq_settle r = (\<lambda>(q, p). if cq_handlers q then (Inr (), (q\<lparr>cq_promise := settle r (cq_promise q)\<rparr>, p)) else (Inl TypeError, (q, p)))"

definition cq_transitionSuccess :: "(channels_query \<times> message_sender, unit) io" where
  "cq_transitionSuccess = (\<lambda>(q, p). if cq_state q \<noteq> ChannelsActive then (Inr (), (q, p))
     else cq_settle Resolved (q\<lparr>cq_state := ChannelsComplete\<rparr>, p))"

definition cq_transitionFailed :: "sync_error \<Rightarrow> (channels_query \<times> message_sender, unit) io" where
  "cq_transitionFailed error = (\<lambda>(q, p). if cq_state q \<noteq> ChannelsActive then (Inr (), (q, p))
     else cq_settle (Rejected error) (q\<lparr>cq_state := ChannelsFailed, cq_error := Some error\<rparr>, p))"

text \<open>The chunk leaves the queue before it is sent.\<close>

definition cq_sendQuery :: "(channels_query \<times> message_sender, unit) io" where
  "cq_sendQuery = (\<lambda>(q, p). let scids = take (cq_chunkSize q) (cq_queue q) in
     sendMessage (MQueryShortChannelIds \<lparr>qs_chainHash = cq_chainHash q, qs_shortChannelIds = scids, qs_flags = []\<rparr>)
       (q\<lparr>cq_queue := drop (cq_chunkSize q) (cq_queue q)\<rparr>, p))"

definition handleReplyShortChannelIdsEnd :: "reply_scids_end \<Rightarrow> (channels_query \<times> message_sender, unit) io" where
  "handleReplyShortChannelIdsEnd msg =
     (if \<not> re_complete msg then cq_transitionFailed (GossipError ReplyChannelsNoInfo (MReplyShortChannelIdsEnd msg))
      else bind_io (get_state (\<lambda>(q, p). cq_queue q)) (\<lambda>queue. if queue \<noteq> [] then cq_sendQuery else cq_transitionSuccess))"

definition cq_query :: "scid list \<Rightarrow> (channels_query \<times> message_sender, unit) io" where
  "cq_query scids = (\<lambda>(q, p).
     case cq_sendQuery (q\<lparr>cq_queue := cq_queue q @ scids, cq_state := ChannelsActive\<rparr>, p) of
       (Inl e, (q, p)) \<Rightarrow> (Inr (), (q\<lparr>cq_promise := Some (Rejected (Thrown e))\<rparr>, p))
     | (Inr _, (q, p)) \<Rightarrow> (Inr (), (q\<lparr>cq_handlers := True, cq_promise := Some Unsettled\<rparr>, p)))"

section \<open>The watcher\<close>

datatype GossipSyncWatcherState = WatcherIdle | Watching | WatcherComplete | WatcherCanceled

text \<open>The timer runs after \<^verbatim>\<open>setTimeout\<close> until it fires or is cleared.\<close>

record sync_watcher =
  sw_state :: GossipSyncWatcherState
  sw_messageCounter :: nat
  sw_timer :: bool
  sw_promise :: "promise option"

definition newGossipSyncWatcher :: sync_watcher where
  "newGossipSyncWatcher = \<lparr>sw_state = WatcherIdle, sw_messageCounter = 0, sw_timer = False, sw_promise = None\<rparr>"

definition watch :: "sync_watcher \<Rightarrow> sync_watcher" where
  "watch w = w\<lparr>sw_state := Watching, sw_timer := True, sw_promise := Some Unsettled\<rparr>"

definition onGossipMessage :: "sync_watcher \<Rightarrow> sync_watcher" where
  "onGossipMessage w = (if sw_state w = Watching then w\<lparr>sw_messageCounter := sw_messageCounter w + 1, sw_timer := True\<rparr> else w)"

definition cancel :: "sync_watcher \<Rightarrow> sync_watcher" where
  "cancel w = (if sw_state w = Watching
     then w\<lparr>sw_timer := False, sw_promise := settle Resolved (sw_promise w), sw_state := WatcherCanceled\<rparr>
     else w\<lparr>sw_state := WatcherCanceled\<rparr>)"

definition onTimeout :: "sync_watcher \<Rightarrow> sync_watcher" where
  "onTimeout w = (if sw_timer w
     then w\<lparr>sw_timer := False, sw_state := WatcherComplete, sw_promise := settle Resolved (sw_promise w)\<rparr> else w)"

section \<open>The synchronisation\<close>

datatype GossipQueriesSyncState = SyncIdle | AwaitingChannelRange | AwaitingChannels | AwaitingMessages | SyncComplete | SyncFailed

record gossip_sync =
  gs_state :: GossipQueriesSyncState
  gs_error :: "sync_error option"
  gs_rangeQuery :: range_query
  gs_channelsQuery :: channels_query
  gs_syncWatcher :: sync_watcher
  gs_peer :: message_sender

definition newGossipQueriesSync :: "buffer \<Rightarrow> message_sender \<Rightarrow> gossip_sync" where
  "newGossipQueriesSync chainHash peer = \<lparr>gs_state = SyncIdle, gs_error = None,
     gs_rangeQuery = newChannelRangeQuery chainHash False, gs_channelsQuery = newChannelsQuery chainHash,
     gs_syncWatcher = newGossipSyncWatcher, gs_peer = peer\<rparr>"

definition on_range :: "(range_query \<times> message_sender, unit) io \<Rightarrow> (gossip_sync, unit) io" where
  "on_range m = (\<lambda>s. case m (gs_rangeQuery s, gs_peer s) of (r, (q, p)) \<Rightarrow> (r, s\<lparr>gs_rangeQuery := q, gs_peer := p\<rparr>))"

definition on_channels :: "(channels_query \<times> message_sender, unit) io \<Rightarrow> (gossip_sync, unit) io" where
  "on_channels m = (\<lambda>s. case m (gs_channelsQuery s, gs_peer s) of (r, (q, p)) \<Rightarrow> (r, s\<lparr>gs_channelsQuery := q, gs_peer := p\<rparr>))"

definition on_watcher :: "(sync_watcher \<Rightarrow> sync_watcher) \<Rightarrow> (gossip_sync, unit) io" where
  "on_watcher f = update_io (\<lambda>s. s\<lparr>gs_syncWatcher := f (gs_syncWatcher s)\<rparr>)"

definition sync_enter :: "GossipQueriesSyncState \<Rightarrow> (gossip_sync, unit) io" where
  "sync_enter st = update_io (\<lambda>s. s\<lparr>gs_state := st\<rparr>)"

text \<open>\<^verbatim>\<open>queryRange\<close> up to its first \<^verbatim>\<open>await\<close>, and then from each \<^verbatim>\<open>await\<close> to the next: the state tells which.\<close>

definition sync_queryRange :: "nat option \<Rightarrow> nat option \<Rightarrow> (gossip_sync, unit) io" where
  "sync_queryRange firstBlock numBlocks =
     then_io (sync_enter AwaitingChannelRange) (on_range (rq_queryRange firstBlock numBlocks))"

definition sync_awaited :: "gossip_sync \<Rightarrow> promise option" where
  "sync_awaited s = (case gs_state s of AwaitingChannelRange \<Rightarrow> rq_promise (gs_rangeQuery s)
     | AwaitingChannels \<Rightarrow> cq_promise (gs_channelsQuery s) | AwaitingMessages \<Rightarrow> sw_promise (gs_syncWatcher s) | _ \<Rightarrow> None)"

definition sync_resume :: "(gossip_sync, unit) io" where
  "sync_resume = (\<lambda>s. case gs_state s of
     AwaitingChannelRange \<Rightarrow> then_io (sync_enter AwaitingChannels) (on_channels (cq_query (rq_results (gs_rangeQuery s)))) s
   | AwaitingChannels \<Rightarrow> then_io (sync_enter AwaitingMessages) (on_watcher watch) s
   | AwaitingMessages \<Rightarrow> sync_enter SyncComplete s
   | _ \<Rightarrow> (Inr (), s))"

definition sync_continue :: "(gossip_sync, unit) io" where
  "sync_continue = (\<lambda>s. case sync_awaited s of
     Some Resolved \<Rightarrow> sync_resume s
   | Some (Rejected e) \<Rightarrow> (Inr (), s\<lparr>gs_state := SyncFailed, gs_error := Some e\<rparr>)
   | _ \<Rightarrow> (Inr (), s))"

definition sync_handleWireMessage :: "wire_message \<Rightarrow> (gossip_sync, unit) io" where
  "sync_handleWireMessage msg = (case msg of
     MReplyChannelRange m \<Rightarrow> on_range (handleReplyChannelRange m)
   | MReplyShortChannelIdsEnd m \<Rightarrow> on_channels (handleReplyShortChannelIdsEnd m)
   | MChannelAnnouncement m \<Rightarrow> on_watcher onGossipMessage
   | MChannelUpdate m \<Rightarrow> on_watcher onGossipMessage
   | MNodeAnnouncement m \<Rightarrow> on_watcher onGossipMessage
   | _ \<Rightarrow> return_io ())"

section \<open>The receiver of gossip\<close>

datatype GossipQueriesReceiverState = ReceiverIdle | Receiving

record gossip_receiver =
  rc_chainHash :: buffer
  rc_state :: GossipQueriesReceiverState
  rc_firstTimestamp :: nat
  rc_timestampRange :: nat

definition newGossipQueriesReceiver :: "buffer \<Rightarrow> gossip_receiver" where
  "newGossipQueriesReceiver chainHash = \<lparr>rc_chainHash = chainHash, rc_state = ReceiverIdle,
     rc_firstTimestamp = 0xffffffff, rc_timestampRange = 0\<rparr>"

definition rc_send :: "nat \<Rightarrow> nat \<Rightarrow> GossipQueriesReceiverState \<Rightarrow> (gossip_receiver \<times> message_sender, unit) io" where
  "rc_send start duration st =
     then_io (updateQuery (\<lambda>r. r\<lparr>rc_firstTimestamp := start, rc_timestampRange := duration\<rparr>))
    (then_io (\<lambda>(r, p). sendMessage (MGossipTimestampFilter
        \<lparr>gt_chainHash = rc_chainHash r, gt_firstTimestamp = start, gt_timestampRange = duration\<rparr>) (r, p))
       (updateQuery (\<lambda>r. r\<lparr>rc_state := st\<rparr>)))"

definition deactivate :: "(gossip_receiver \<times> message_sender, unit) io" where
  "deactivate = rc_send 0xffffffff 0 ReceiverIdle"

text \<open>The current time in seconds is the default start.\<close>

definition activate :: "nat \<Rightarrow> nat option \<Rightarrow> nat option \<Rightarrow> (gossip_receiver \<times> message_sender, unit) io" where
  "activate now start duration = rc_send (case start of None \<Rightarrow> now | Some t \<Rightarrow> t)
     (case duration of None \<Rightarrow> 0xffffffff | Some r \<Rightarrow> r) Receiving"

end
