(* ===== verification/GossipSyncFacts.thy ===== *)
theory GossipSyncFacts
  imports GossipSync
begin

text \<open>
  What a synchronisation asks for: whatever the peer sends and in whichever order the events come, a
  completed one has asked for every channel that was reported to it; with a peer that answers, it completes.
\<close>

section \<open>Runs\<close>

datatype sync_event = StartSync "nat option" "nat option" | Incoming wire_message | Microtask | TimerFires | PeerReady bool

primrec sync_step :: "sync_event \<Rightarrow> gossip_sync \<Rightarrow> gossip_sync" where
  "sync_step (StartSync first num) s = snd (sync_queryRange first num s)"
| "sync_step (Incoming m) s = snd (sync_handleWireMessage m s)"
| "sync_step Microtask s = snd (sync_continue s)"
| "sync_step TimerFires s = snd (on_watcher onTimeout s)"
| "sync_step (PeerReady b) s = s\<lparr>gs_peer := (gs_peer s)\<lparr>snd_ready := b\<rparr>\<rparr>"

definition queries_of :: "wire_message list \<Rightarrow> scid list list" where
  "queries_of ms = concat (map (\<lambda>m. case m of MQueryShortChannelIds q \<Rightarrow> [qs_shortChannelIds q] | _ \<Rightarrow> []) ms)"

definition replies_of :: "sync_event list \<Rightarrow> reply_channel_range list" where
  "replies_of es = concat (map (\<lambda>e. case e of Incoming (MReplyChannelRange r) \<Rightarrow> [r] | _ \<Rightarrow> []) es)"

definition reported :: "sync_event list \<Rightarrow> scid list" where
  "reported es = concat (map rr_shortChannelIds (replies_of es))"

lemma queries_of_simps [simp]:
  "queries_of [] = []" "queries_of (xs @ ys) = queries_of xs @ queries_of ys"
  "queries_of [MQueryShortChannelIds q] = [qs_shortChannelIds q]" "queries_of [MQueryChannelRange r] = []"
  by (simp_all add: queries_of_def)

lemma replies_of_simps [simp]:
  "replies_of [] = []" "replies_of (xs @ ys) = replies_of xs @ replies_of ys"
  "replies_of [Incoming (MReplyChannelRange r)] = [r]"
  by (simp_all add: replies_of_def)

lemma reported_append [simp]: "reported (xs @ ys) = reported xs @ reported ys" "reported [] = []"
  by (simp_all add: reported_def)

section \<open>The range query\<close>

text \<open>A range is taken as covered by one reply with full information that reaches its end, or, once a legacy reply is seen, by any.\<close>

definition covered :: "nat \<Rightarrow> reply_channel_range list \<Rightarrow> bool" where
  "covered target rs \<longleftrightarrow> (\<exists>r\<in>set rs. rr_fullInformation r
     \<and> (target \<le> rr_firstBlocknum r + rr_numberOfBlocks r \<or> (\<exists>l\<in>set rs. isLegacyReply l)))"

definition range_inv :: "nat \<Rightarrow> reply_channel_range list \<Rightarrow> range_query \<Rightarrow> bool" where
  "range_inv target rs q \<longleftrightarrow> rq_results q = concat (map rr_shortChannelIds rs)
     \<and> (\<exists>m. rq_query q = Some m \<and> qr_firstBlocknum m + qr_numberOfBlocks m = target)
     \<and> rq_handlers q \<and> (rq_isLegacy q \<longrightarrow> (\<exists>l\<in>set rs. isLegacyReply l))
     \<and> (rq_state q = RangeActive \<and> rq_promise q = Some Unsettled
        \<or> rq_state q = RangeComplete \<and> rq_promise q = Some Resolved \<and> covered target rs
        \<or> rq_state q = RangeFailed \<and> (\<exists>e. rq_promise q = Some (Rejected e) \<and> rq_error q = Some e))"

lemmas range_ops = handleReplyChannelRange_def rq_handleReply_def rq_handleLegacyReply_def rq_transitionFailed_def
  rq_transitionComplete_def rq_settle_def rq_addResults_def updateQuery_def get_state_def get_defined_def settle_def io_simps

lemma range_reply:
  assumes "range_inv target rs q"
  shows "\<exists>q'. handleReplyChannelRange r (q, p) = (Inr (), (q', p)) \<and> range_inv target (rs @ [r]) q'"
proof -
  obtain m where m: "rq_query q = Some m" "qr_firstBlocknum m + qr_numberOfBlocks m = target"
    using assms by (auto simp: range_inv_def)
  have c: "covered target rs \<Longrightarrow> covered target (rs @ [r])" by (auto simp: covered_def)
  show ?thesis
  proof (cases "rr_fullInformation r")
    case False
    then show ?thesis using assms m c
      by (cases "rq_isLegacy q"; cases "rr_shortChannelIds r = []")
         (auto simp: range_inv_def range_ops isLegacyReply_def)
  next
    case True
    then have "\<not> isLegacyReply r" by (simp add: isLegacyReply_def)
    then show ?thesis using assms m c True
      by (cases "rq_isLegacy q") (auto simp: range_inv_def range_ops covered_def)
  qed
qed

section \<open>The channels query\<close>

definition chan_inv :: "scid list \<Rightarrow> channels_query \<Rightarrow> message_sender \<Rightarrow> bool" where
  "chan_inv scids q p \<longleftrightarrow> concat (queries_of (snd_sent p)) @ cq_queue q = scids
     \<and> (\<forall>c\<in>set (queries_of (snd_sent p)). length c \<le> 2000) \<and> cq_chunkSize q = 2000 \<and> cq_handlers q
     \<and> (cq_state q = ChannelsActive \<and> cq_promise q = Some Unsettled
        \<or> cq_state q = ChannelsComplete \<and> cq_promise q = Some Resolved \<and> cq_queue q = []
        \<or> cq_state q = ChannelsFailed \<and> (\<exists>e. cq_promise q = Some (Rejected e) \<and> cq_error q = Some e))"

lemmas channels_ops = handleReplyShortChannelIdsEnd_def cq_transitionFailed_def cq_transitionSuccess_def cq_settle_def
  cq_sendQuery_def sendMessage_def get_state_def settle_def Let_def io_simps

lemma channels_reply:
  assumes "chan_inv scids q p" "snd_ready p"
  shows "\<exists>q' p'. handleReplyShortChannelIdsEnd r (q, p) = (Inr (), (q', p')) \<and> chan_inv scids q' p' \<and> snd_ready p'"
  using assms by (cases "re_complete r"; cases "cq_queue q = []") (auto simp: chan_inv_def channels_ops append_assoc)

lemma channels_start:
  assumes "cq_queue q = []" "cq_chunkSize q = 2000" "snd_ready p" "queries_of (snd_sent p) = []"
  shows "\<exists>q' p'. cq_query scids (q, p) = (Inr (), (q', p')) \<and> chan_inv scids q' p' \<and> snd_ready p'"
  using assms by (auto simp: chan_inv_def cq_query_def channels_ops)

lemma channels_idle:
  "cq_state q = ChannelsIdle \<Longrightarrow> cq_queue q = [] \<Longrightarrow> handleReplyShortChannelIdsEnd r (q, p) = (Inr (), (q, p))"
  by (auto simp: channels_ops)

section \<open>Every run\<close>

definition sync_inv :: "nat \<Rightarrow> sync_event list \<Rightarrow> gossip_sync \<Rightarrow> bool" where
  "sync_inv target es s \<longleftrightarrow> range_inv target (replies_of es) (gs_rangeQuery s) \<and> snd_ready (gs_peer s)
     \<and> (gs_state s \<in> {AwaitingChannelRange, SyncFailed} \<and> gs_channelsQuery s = newChannelsQuery (cq_chainHash (gs_channelsQuery s))
          \<and> queries_of (snd_sent (gs_peer s)) = []
        \<or> gs_state s \<in> {AwaitingChannels, AwaitingMessages, SyncComplete, SyncFailed}
          \<and> (\<exists>es1 es2. es = es1 @ es2 \<and> covered target (replies_of es1)
              \<and> chan_inv (reported es1) (gs_channelsQuery s) (gs_peer s))
          \<and> (gs_state s \<in> {AwaitingMessages, SyncComplete} \<longrightarrow> cq_state (gs_channelsQuery s) = ChannelsComplete))"

text \<open>The completed query stays as it is.\<close>

lemma channels_complete:
  "chan_inv scids q p \<Longrightarrow> cq_state q = ChannelsComplete \<Longrightarrow> handleReplyShortChannelIdsEnd r (q, p) = (Inr (), (q, p))"
  by (auto simp: chan_inv_def channels_ops)

lemma sync_inv_other:
  assumes "sync_inv target es s" "replies_of [e] = []" "gs_rangeQuery s' = gs_rangeQuery s" "gs_peer s' = gs_peer s"
    "gs_channelsQuery s' = gs_channelsQuery s" "gs_state s' = gs_state s"
  shows "sync_inv target (es @ [e]) s'"
  using assms unfolding sync_inv_def by (metis append_assoc append_Nil2 replies_of_simps(2))

lemma sync_inv_step:
  assumes "sync_inv target es s" "\<forall>f n. e \<noteq> StartSync f n" "\<forall>b. e \<noteq> PeerReady b"
  shows "sync_inv target (es @ [e]) (sync_step e s)"
proof (cases e)
  case (Incoming m)
  show ?thesis
  proof (cases m)
    case (MReplyChannelRange r)
    obtain q' where q: "handleReplyChannelRange r (gs_rangeQuery s, gs_peer s) = (Inr (), (q', gs_peer s))"
      "range_inv target (replies_of es @ [r]) q'"
      using range_reply assms(1) unfolding sync_inv_def by blast
    then have "sync_step e s = s\<lparr>gs_rangeQuery := q'\<rparr>"
      using Incoming MReplyChannelRange by (simp add: sync_handleWireMessage_def on_range_def)
    then show ?thesis
      using assms(1) q(2) Incoming MReplyChannelRange unfolding sync_inv_def by (simp; metis append_assoc)
  next
    case (MReplyShortChannelIdsEnd r)
    have e: "replies_of [e] = []" using Incoming MReplyShortChannelIdsEnd by (simp add: replies_of_def)
    have st: "sync_step e s = (case handleReplyShortChannelIdsEnd r (gs_channelsQuery s, gs_peer s) of (_, (q, p)) \<Rightarrow> s\<lparr>gs_channelsQuery := q, gs_peer := p\<rparr>)"
      using Incoming MReplyShortChannelIdsEnd by (simp add: sync_handleWireMessage_def on_channels_def split: prod.split)
    from assms(1) consider (idle) "gs_channelsQuery s = newChannelsQuery (cq_chainHash (gs_channelsQuery s))"
      | (active) es1 es2 where "gs_state s \<in> {AwaitingChannels, AwaitingMessages, SyncComplete, SyncFailed}" "es = es1 @ es2"
        "covered target (replies_of es1)" "chan_inv (reported es1) (gs_channelsQuery s) (gs_peer s)" "snd_ready (gs_peer s)"
        "gs_state s \<in> {AwaitingMessages, SyncComplete} \<longrightarrow> cq_state (gs_channelsQuery s) = ChannelsComplete"
      unfolding sync_inv_def by blast
    then show ?thesis
    proof cases
      case idle
      then have "cq_state (gs_channelsQuery s) = ChannelsIdle" "cq_queue (gs_channelsQuery s) = []"
        by (metis newChannelsQuery_def channels_query.select_convs(4), metis newChannelsQuery_def channels_query.select_convs(3))
      then have "sync_step e s = s" using st channels_idle by simp
      then show ?thesis using sync_inv_other [OF assms(1) e] by simp
    next
      case active
      obtain q' p' where h: "handleReplyShortChannelIdsEnd r (gs_channelsQuery s, gs_peer s) = (Inr (), (q', p'))"
        "chan_inv (reported es1) q' p'" "snd_ready p'" using channels_reply active(4,5) by blast
      have "cq_state q' = ChannelsComplete" if "gs_state s \<in> {AwaitingMessages, SyncComplete}"
        using channels_complete active(4,6) h(1) that by (metis prod.inject)
      then show ?thesis using active h assms(1) e unfolding sync_inv_def st
        by (auto simp: e)
    qed
  next
    case (MChannelAnnouncement r)
    then show ?thesis using Incoming sync_inv_other [OF assms(1), of e]
      by (simp add: sync_handleWireMessage_def on_watcher_def io_simps replies_of_def)
  next
    case (MChannelUpdate r)
    then show ?thesis using Incoming sync_inv_other [OF assms(1), of e]
      by (simp add: sync_handleWireMessage_def on_watcher_def io_simps replies_of_def)
  next
    case (MNodeAnnouncement r)
    then show ?thesis using Incoming sync_inv_other [OF assms(1), of e]
      by (simp add: sync_handleWireMessage_def on_watcher_def io_simps replies_of_def)
  qed (use Incoming sync_inv_other [OF assms(1), of e] in \<open>simp_all add: sync_handleWireMessage_def io_simps replies_of_def\<close>)
next
  case TimerFires
  then show ?thesis using sync_inv_other [OF assms(1), of e] by (simp add: on_watcher_def io_simps replies_of_def)
next
  case Microtask
  have e: "replies_of [e] = []" using Microtask by (simp add: replies_of_def)
  consider (wait) "sync_step e s = s" | (fail) err where "sync_step e s = s\<lparr>gs_state := SyncFailed, gs_error := Some err\<rparr>" "gs_state s \<noteq> SyncComplete"
    | (go) "sync_awaited s = Some Resolved" "sync_step e s = snd (sync_resume s)"
  proof (cases "sync_awaited s")
    case None
    then show ?thesis using that(1) Microtask by (simp add: sync_continue_def)
  next
    case (Some r)
    then have "gs_state s \<noteq> SyncComplete" by (auto simp: sync_awaited_def)
    then show ?thesis using that Some Microtask by (cases r) (simp_all add: sync_continue_def)
  qed
  moreover define es' where "es' = es @ [e]"
  have i: "sync_inv target es' s" using sync_inv_other [OF assms(1) e] by (simp add: es'_def)
  ultimately have "sync_inv target es' (sync_step e s)"
  proof cases
    case wait
    then show ?thesis using i by simp
  next
    case fail
    then show ?thesis using i unfolding sync_inv_def fail(1) by auto
  next
    case go
    have ready: "snd_ready (gs_peer s)" and range: "range_inv target (replies_of es') (gs_rangeQuery s)"
      using i by (simp_all add: sync_inv_def)
    from go(1) consider "gs_state s = AwaitingChannelRange" "rq_promise (gs_rangeQuery s) = Some Resolved"
      | "gs_state s = AwaitingChannels" "cq_promise (gs_channelsQuery s) = Some Resolved"
      | "gs_state s = AwaitingMessages"
      by (cases "gs_state s") (auto simp: sync_awaited_def)
    then show ?thesis
    proof cases
      case 1
      have c: "covered target (replies_of es')" "rq_results (gs_rangeQuery s) = reported es'"
        using range 1(2) by (auto simp: range_inv_def reported_def)
      have n: "gs_channelsQuery s = newChannelsQuery (cq_chainHash (gs_channelsQuery s))" "queries_of (snd_sent (gs_peer s)) = []"
        using i 1(1) by (auto simp: sync_inv_def)
      have q: "cq_queue (gs_channelsQuery s) = []" "cq_chunkSize (gs_channelsQuery s) = 2000"
        by (subst n(1), simp add: newChannelsQuery_def)+
      obtain q' p' where h: "cq_query (reported es') (gs_channelsQuery s, gs_peer s) = (Inr (), (q', p'))"
        "chan_inv (reported es') q' p'" "snd_ready p'" using channels_start [OF q ready n(2)] by blast
      have "sync_step e s = s\<lparr>gs_state := AwaitingChannels, gs_channelsQuery := q', gs_peer := p'\<rparr>"
        using go(2) 1(1) c(2) h(1) by (simp add: sync_resume_def sync_enter_def on_channels_def io_simps)
      then show ?thesis using range h(2,3) c(1) by (auto simp: sync_inv_def)
    next
      case 2
      then show ?thesis using i go(2) unfolding sync_inv_def
        by (auto simp: sync_resume_def sync_enter_def on_watcher_def io_simps chan_inv_def)
    next
      case 3
      then show ?thesis using i go(2) unfolding sync_inv_def
        by (auto simp: sync_resume_def sync_enter_def io_simps)
    qed
  qed
  then show ?thesis by (simp add: es'_def)
qed (use assms in auto)

lemma sync_inv_run:
  "sync_inv target es0 s \<Longrightarrow> \<forall>e\<in>set es. (\<forall>f n. e \<noteq> StartSync f n) \<and> (\<forall>b. e \<noteq> PeerReady b) \<Longrightarrow>
   sync_inv target (es0 @ es) (fold sync_step es s)"
proof (induction es arbitrary: es0 s)
  case (Cons e es)
  have "sync_inv target (es0 @ [e]) (sync_step e s)" using sync_inv_step [OF Cons.prems(1)] Cons.prems(2) by auto
  then show ?case using Cons.IH [of "es0 @ [e]" "sync_step e s"] Cons.prems(2) by simp
qed simp

definition startedSync :: "buffer \<Rightarrow> nat \<Rightarrow> nat \<Rightarrow> gossip_sync" where
  "startedSync chainHash first num = sync_step (StartSync (Some first) (Some num))
     (newGossipQueriesSync chainHash \<lparr>snd_ready = True, snd_sent = []\<rparr>)"

lemma startedSync_eq:
  "startedSync chainHash first num = (newGossipQueriesSync chainHash
     \<lparr>snd_ready = True, snd_sent = [MQueryChannelRange (rq_message chainHash first num)]\<rparr>)
     \<lparr>gs_state := AwaitingChannelRange, gs_rangeQuery := (newChannelRangeQuery chainHash False)
        \<lparr>rq_state := RangeActive, rq_query := Some (rq_message chainHash first num), rq_handlers := True, rq_promise := Some Unsettled\<rparr>\<rparr>"
  by (simp add: startedSync_def sync_queryRange_def sync_enter_def on_range_def rq_queryRange_def rq_sendQuery_def
      sendMessage_def updateQuery_def newGossipQueriesSync_def newChannelRangeQuery_def Let_def io_simps)

lemma sync_inv_start: "sync_inv (first + num) [] (startedSync chainHash first num)"
  by (simp add: startedSync_eq sync_inv_def range_inv_def newGossipQueriesSync_def newChannelRangeQuery_def rq_message_def
      newChannelsQuery_def)

text \<open>
  C18: Whatever the peer sends and however messages, timeouts and continuations are interleaved, a synchronisation that
  has completed has asked for exactly the channels that were reported to it up to some moment, in order, by
  which the range was covered, and it has asked for at most 2000 at a time.
\<close>

theorem sync_asks_for_all:
  assumes "\<forall>e\<in>set es. (\<forall>f n. e \<noteq> StartSync f n) \<and> (\<forall>b. e \<noteq> PeerReady b)"
    and "s = fold sync_step es (startedSync chainHash first num)" "gs_state s = SyncComplete"
  shows "\<exists>es1 es2. es = es1 @ es2 \<and> covered (first + num) (replies_of es1)
    \<and> concat (queries_of (snd_sent (gs_peer s))) = reported es1
    \<and> (\<forall>c\<in>set (queries_of (snd_sent (gs_peer s))). length c \<le> 2000)"
proof -
  have "sync_inv (first + num) es s" using sync_inv_run [OF sync_inv_start assms(1)] assms(2) by simp
  then obtain es1 es2 where "es = es1 @ es2" "covered (first + num) (replies_of es1)"
    "chan_inv (reported es1) (gs_channelsQuery s) (gs_peer s)" "cq_state (gs_channelsQuery s) = ChannelsComplete"
    using assms(3) by (auto simp: sync_inv_def)
  then show ?thesis by (intro exI [of _ es1] exI [of _ es2]) (auto simp: chan_inv_def)
qed

text \<open>
  The end of the range is all that counts: a single reply for the last block completes the query, although
  nothing has been said about the blocks before it.
\<close>

theorem range_gap_unnoticed:
  assumes "0 < num"
  shows "gs_state (fold sync_step [Incoming (MReplyChannelRange \<lparr>rr_chainHash = chainHash, rr_firstBlocknum = first + num - 1,
      rr_numberOfBlocks = 1, rr_fullInformation = True, rr_shortChannelIds = [], rr_timestamps = [], rr_checksums = []\<rparr>), Microtask]
      (startedSync chainHash first num)) = AwaitingChannels"
  using assms by (simp add: startedSync_eq sync_handleWireMessage_def on_range_def range_ops newGossipQueriesSync_def
      newChannelRangeQuery_def rq_message_def isLegacyReply_def sync_continue_def sync_awaited_def sync_resume_def sync_enter_def
      on_channels_def cq_query_def cq_sendQuery_def newChannelsQuery_def sendMessage_def Let_def)

section \<open>A peer that answers\<close>

function requests_from :: "scid list \<Rightarrow> scid list list" where
  "requests_from scids = (if scids = [] then [] else take 2000 scids # requests_from (drop 2000 scids))"
  by pat_completeness auto
termination by (relation "measure length") auto

declare requests_from.simps [simp del]

text \<open>The first request is sent in any case.\<close>

definition requests :: "scid list \<Rightarrow> scid list list" where
  "requests scids = take 2000 scids # requests_from (drop 2000 scids)"

lemma requests_from_empty [simp]: "requests_from [] = []"
  by (simp add: requests_from.simps)

lemma length_requests_from: "length (requests_from scids) = (length scids + 1999) div 2000"
proof (induction scids rule: requests_from.induct)
  case (1 scids)
  show ?case
  proof (cases "scids = []")
    case False
    then have "length (requests_from scids) = Suc ((length scids - 2000 + 1999) div 2000)"
      using 1 by (subst requests_from.simps) simp
    moreover have "Suc ((n - 2000 + 1999) div 2000) = (n + 1999) div 2000" if "0 < n" for n :: nat
    proof (cases "n \<le> 2000")
      case True
      then have "(n + 1999) div 2000 = 1" using that by (intro div_nat_eqI) simp_all
      then show ?thesis using True by simp
    next
      case False
      then have "n + 1999 = (n - 2000 + 1999) + 2000" by simp
      then show ?thesis by (metis Suc_eq_plus1 div_add_self2 zero_neq_numeral)
    qed
    ultimately show ?thesis using False by simp
  qed simp
qed

lemma concat_requests_from: "concat (requests_from scids) = scids"
proof (induction scids rule: requests_from.induct)
  case (1 scids)
  then show ?case by (cases "scids = []") (simp_all add: requests_from.simps [of scids])
qed

lemma requests_length: "length (requests scids) = max 1 ((length scids + 1999) div 2000)"
  by (auto simp: requests_def length_requests_from max_def)

definition is_gossip :: "sync_event \<Rightarrow> bool" where
  "is_gossip e \<longleftrightarrow> (case e of Incoming (MChannelAnnouncement _) \<Rightarrow> True | Incoming (MChannelUpdate _) \<Rightarrow> True
     | Incoming (MNodeAnnouncement _) \<Rightarrow> True | _ \<Rightarrow> False)"

text \<open>Gossip messages only count, as long as the timer runs while the watcher watches.\<close>

definition uncounted :: "gossip_sync \<Rightarrow> gossip_sync" where
  "uncounted s = s\<lparr>gs_syncWatcher := (gs_syncWatcher s)\<lparr>sw_messageCounter := 0\<rparr>\<rparr>"

definition timer_ok :: "gossip_sync \<Rightarrow> bool" where
  "timer_ok s \<longleftrightarrow> (sw_state (gs_syncWatcher s) = Watching \<longrightarrow> sw_timer (gs_syncWatcher s))"

lemma uncounted_gossip: "is_gossip e \<Longrightarrow> timer_ok s \<Longrightarrow> uncounted (sync_step e s) = uncounted s"
  by (auto simp: is_gossip_def uncounted_def timer_ok_def sync_handleWireMessage_def on_watcher_def io_simps onGossipMessage_def
      split: sync_event.splits wire_message.splits)

lemma uncounted_fields:
  "gs_state (uncounted s) = gs_state s" "gs_peer (uncounted s) = gs_peer s"
  by (simp_all add: uncounted_def)

lemma on_range_uncounted: "uncounted (snd (on_range m (uncounted s))) = uncounted (snd (on_range m s))"
  by (simp add: on_range_def uncounted_def split: prod.split)

lemma on_channels_uncounted: "uncounted (snd (on_channels m (uncounted s))) = uncounted (snd (on_channels m s))"
  by (simp add: on_channels_def uncounted_def split: prod.split)

lemma uncounted_enter: "gs_rangeQuery (uncounted s) = gs_rangeQuery s" "gs_state (uncounted s) = gs_state s"
  "sync_awaited (uncounted s) = sync_awaited s" "(uncounted s)\<lparr>gs_state := st\<rparr> = uncounted (s\<lparr>gs_state := st\<rparr>)"
  by (auto simp: uncounted_def sync_awaited_def split: GossipQueriesSyncState.split)

lemma uncounted_step: "\<not> is_gossip e \<Longrightarrow> uncounted (sync_step e (uncounted s)) = uncounted (sync_step e s)"
proof (cases e)
  case (StartSync f n)
  then show ?thesis by (simp add: sync_queryRange_def sync_enter_def io_simps uncounted_enter on_range_uncounted)
next
  case (Incoming m)
  assume "\<not> is_gossip e"
  then show ?thesis using Incoming
    by (cases m) (simp_all add: sync_handleWireMessage_def on_range_uncounted on_channels_uncounted is_gossip_def io_simps, simp_all add: uncounted_def)
next
  case Microtask
  have "uncounted (snd (sync_resume (uncounted s))) = uncounted (snd (sync_resume s))"
    by (cases "gs_state s")
       (simp_all add: sync_resume_def sync_enter_def io_simps uncounted_enter on_channels_uncounted on_watcher_def watch_def, simp_all add: uncounted_def)
  then show ?thesis using Microtask
    by (auto simp: sync_continue_def uncounted_enter split: option.split promise.split) (simp_all add: uncounted_def)
qed (simp_all add: on_watcher_def io_simps onTimeout_def uncounted_def)

lemma timer_ok_step: "timer_ok s \<Longrightarrow> timer_ok (sync_step e s)"
  by (cases e) (auto simp: timer_ok_def sync_queryRange_def sync_handleWireMessage_def sync_continue_def sync_resume_def
      sync_enter_def on_range_def on_channels_def on_watcher_def onTimeout_def onGossipMessage_def watch_def io_simps
      split: prod.split wire_message.split option.split promise.split GossipQueriesSyncState.split)

lemma run_without_gossip:
  "timer_ok s \<Longrightarrow> uncounted s = uncounted s' \<Longrightarrow>
   uncounted (fold sync_step es s) = uncounted (fold sync_step (filter (\<lambda>e. \<not> is_gossip e) es) s')"
proof (induction es arbitrary: s s')
  case (Cons e es)
  have "uncounted (sync_step e s) = uncounted (if is_gossip e then s' else sync_step e s')"
  proof (cases "is_gossip e")
    case True
    then show ?thesis using uncounted_gossip [OF _ Cons.prems(1)] Cons.prems(2) by simp
  next
    case False
    then show ?thesis using uncounted_step [of e s] uncounted_step [of e s'] Cons.prems(2) by simp
  qed
  then show ?case using Cons.IH [OF timer_ok_step [OF Cons.prems(1)]] by (auto split: if_splits)
qed simp

text \<open>The replies one after the other.\<close>

lemma range_wait:
  assumes "gs_state s = AwaitingChannelRange" "range_inv target rs (gs_rangeQuery s)" "rq_state (gs_rangeQuery s) = RangeActive"
    and "\<not> rq_isLegacy (gs_rangeQuery s)"
    and "\<forall>r\<in>set ms. rr_fullInformation r \<and> rr_firstBlocknum r + rr_numberOfBlocks r < target"
  shows "\<exists>q. fold sync_step (map (\<lambda>r. Incoming (MReplyChannelRange r)) ms) s = s\<lparr>gs_rangeQuery := q\<rparr>
    \<and> range_inv target (rs @ ms) q \<and> rq_state q = RangeActive \<and> \<not> rq_isLegacy q"
  using assms
proof (induction ms arbitrary: s rs)
  case (Cons r ms)
  obtain m where m: "rq_query (gs_rangeQuery s) = Some m" "qr_firstBlocknum m + qr_numberOfBlocks m = target"
    using Cons.prems(2) by (auto simp: range_inv_def)
  let ?q = "rq_addResults r (gs_rangeQuery s)"
  have h: "handleReplyChannelRange r (gs_rangeQuery s, gs_peer s) = (Inr (), (?q, gs_peer s))"
    using Cons.prems m by (simp add: range_ops isLegacyReply_def)
  then have s: "sync_step (Incoming (MReplyChannelRange r)) s = s\<lparr>gs_rangeQuery := ?q\<rparr>"
    by (simp add: sync_handleWireMessage_def on_range_def)
  have "range_inv target (rs @ [r]) ?q" using range_reply [OF Cons.prems(2), of r "gs_peer s"] h by simp
  then show ?case using Cons.IH [of "s\<lparr>gs_rangeQuery := ?q\<rparr>" "rs @ [r]"] Cons.prems s by (simp add: rq_addResults_def)
next
  case Nil
  then show ?case by (intro exI [of _ "gs_rangeQuery s"]) simp
qed

text \<open>The requests one after the other.\<close>

abbreviation end_reply :: "buffer \<Rightarrow> sync_event" where
  "end_reply chainHash \<equiv> Incoming (MReplyShortChannelIdsEnd \<lparr>re_chainHash = chainHash, re_complete = True\<rparr>)"

definition request_message :: "buffer \<Rightarrow> scid list \<Rightarrow> wire_message" where
  "request_message chainHash scids = MQueryShortChannelIds \<lparr>qs_chainHash = chainHash, qs_shortChannelIds = scids, qs_flags = []\<rparr>"

lemma end_step:
  "sync_step (end_reply h) s = (case handleReplyShortChannelIdsEnd \<lparr>re_chainHash = h, re_complete = True\<rparr> (gs_channelsQuery s, gs_peer s)
     of (_, (q, p)) \<Rightarrow> s\<lparr>gs_channelsQuery := q, gs_peer := p\<rparr>)"
  by (simp add: sync_handleWireMessage_def on_channels_def split: prod.split)

lemma request_all:
  assumes "cq_queue (gs_channelsQuery s) = scids" "cq_chunkSize (gs_channelsQuery s) = 2000" "snd_ready (gs_peer s)"
    "cq_state (gs_channelsQuery s) = ChannelsActive" "cq_handlers (gs_channelsQuery s)" "cq_promise (gs_channelsQuery s) = Some Unsettled"
    "cq_chainHash (gs_channelsQuery s) = h"
  shows "fold sync_step (replicate (Suc (length (requests_from scids))) (end_reply h)) s =
    s\<lparr>gs_channelsQuery := (gs_channelsQuery s)\<lparr>cq_queue := [], cq_state := ChannelsComplete, cq_promise := Some Resolved\<rparr>,
      gs_peer := (gs_peer s)\<lparr>snd_sent := snd_sent (gs_peer s) @ map (request_message h) (requests_from scids)\<rparr>\<rparr>"
  using assms
proof (induction scids arbitrary: s rule: requests_from.induct)
  case (1 scids)
  show ?case
  proof (cases "scids = []")
    case True
    then show ?thesis using 1(2-) by (simp add: end_step channels_ops del: sync_step.simps)
  next
    case False
    let ?s = "s\<lparr>gs_channelsQuery := (gs_channelsQuery s)\<lparr>cq_queue := drop 2000 scids\<rparr>,
      gs_peer := (gs_peer s)\<lparr>snd_sent := snd_sent (gs_peer s) @ [request_message h (take 2000 scids)]\<rparr>\<rparr>"
    have s: "sync_step (end_reply h) s = ?s"
      using False 1(2-) by (simp add: end_step channels_ops request_message_def del: sync_step.simps)
    have r: "requests_from scids = take 2000 scids # requests_from (drop 2000 scids)" using False by (simp add: requests_from.simps)
    have "fold sync_step (replicate (Suc (length (requests_from (drop 2000 scids)))) (end_reply h)) ?s =
      ?s\<lparr>gs_channelsQuery := (gs_channelsQuery ?s)\<lparr>cq_queue := [], cq_state := ChannelsComplete, cq_promise := Some Resolved\<rparr>,
        gs_peer := (gs_peer ?s)\<lparr>snd_sent := snd_sent (gs_peer ?s) @ map (request_message h) (requests_from (drop 2000 scids))\<rparr>\<rparr>"
      by (rule 1(1) [OF False]) (use 1(2-) in simp_all)
    then show ?thesis by (simp add: r s del: sync_step.simps)
  qed
qed

text \<open>
  C19: A synchronisation terminates with a peer that answers: once a reply with full information reaches the end of
  the range and every request has been answered, and the timer has fired, it is complete, whatever
  gossip comes in between; it has sent the range query and then one request for every 2000 channels
  that were reported, and nothing else.
\<close>

theorem sync_completes:
  assumes "filter (\<lambda>e. \<not> is_gossip e) es = map (\<lambda>r. Incoming (MReplyChannelRange r)) (ms @ [m]) @ [Microtask]
      @ replicate (max 1 ((length scids + 1999) div 2000)) (end_reply chainHash) @ [Microtask, TimerFires, Microtask]"
    and "scids = concat (map rr_shortChannelIds (ms @ [m]))"
    and "\<forall>r\<in>set ms. rr_fullInformation r \<and> rr_firstBlocknum r + rr_numberOfBlocks r < first + num"
    and "rr_fullInformation m" "first + num \<le> rr_firstBlocknum m + rr_numberOfBlocks m"
  shows "gs_state (fold sync_step es (startedSync chainHash first num)) = SyncComplete
    \<and> snd_sent (gs_peer (fold sync_step es (startedSync chainHash first num)))
        = MQueryChannelRange (rq_message chainHash first num) # map (request_message chainHash) (requests scids)"
proof -
  let ?s0 = "startedSync chainHash first num"
  have s0: "gs_state ?s0 = AwaitingChannelRange" "range_inv (first + num) [] (gs_rangeQuery ?s0)"
    "rq_state (gs_rangeQuery ?s0) = RangeActive" "\<not> rq_isLegacy (gs_rangeQuery ?s0)" "timer_ok ?s0"
    "gs_channelsQuery ?s0 = newChannelsQuery chainHash" "gs_syncWatcher ?s0 = newGossipSyncWatcher"
    "gs_peer ?s0 = \<lparr>snd_ready = True, snd_sent = [MQueryChannelRange (rq_message chainHash first num)]\<rparr>"
    using sync_inv_start [of first num chainHash]
    by (simp_all add: startedSync_eq sync_inv_def newChannelRangeQuery_def newGossipQueriesSync_def timer_ok_def newGossipSyncWatcher_def)
  obtain q where q: "fold sync_step (map (\<lambda>r. Incoming (MReplyChannelRange r)) ms) ?s0 = ?s0\<lparr>gs_rangeQuery := q\<rparr>"
    "range_inv (first + num) ms q" "rq_state q = RangeActive" "\<not> rq_isLegacy q"
    using range_wait [OF s0(1-4) assms(3)] by auto
  obtain query where query: "rq_query q = Some query" "qr_firstBlocknum query + qr_numberOfBlocks query = first + num"
    "rq_handlers q" "rq_promise q = Some Unsettled" "rq_results q = concat (map rr_shortChannelIds ms)"
    using q(2,3) by (auto simp: range_inv_def)
  let ?q = "q\<lparr>rq_results := scids, rq_state := RangeComplete, rq_promise := Some Resolved\<rparr>"
  have m: "sync_step (Incoming (MReplyChannelRange m)) (?s0\<lparr>gs_rangeQuery := q\<rparr>) = ?s0\<lparr>gs_rangeQuery := ?q\<rparr>"
    using q(3,4) query assms(2,4,5) by (simp add: sync_handleWireMessage_def on_range_def range_ops isLegacyReply_def)
  let ?c = "(newChannelsQuery chainHash)\<lparr>cq_queue := drop 2000 scids, cq_state := ChannelsActive, cq_handlers := True, cq_promise := Some Unsettled\<rparr>"
  let ?p = "\<lparr>snd_ready = True, snd_sent = [MQueryChannelRange (rq_message chainHash first num), request_message chainHash (take 2000 scids)]\<rparr>"
  let ?s1 = "?s0\<lparr>gs_rangeQuery := ?q, gs_state := AwaitingChannels, gs_channelsQuery := ?c, gs_peer := ?p\<rparr>"
  have start: "sync_step Microtask (?s0\<lparr>gs_rangeQuery := ?q\<rparr>) = ?s1"
    using s0(1,6,8) by (simp add: sync_continue_def sync_awaited_def sync_resume_def sync_enter_def on_channels_def cq_query_def
        cq_sendQuery_def sendMessage_def newChannelsQuery_def request_message_def Let_def io_simps)
  have k: "max 1 ((length scids + 1999) div 2000) = Suc (length (requests_from (drop 2000 scids)))"
    using requests_length [of scids] by (simp add: requests_def)
  let ?s2 = "?s1\<lparr>gs_channelsQuery := ?c\<lparr>cq_queue := [], cq_state := ChannelsComplete, cq_promise := Some Resolved\<rparr>,
      gs_peer := ?p\<lparr>snd_sent := snd_sent ?p @ map (request_message chainHash) (requests_from (drop 2000 scids))\<rparr>\<rparr>"
  have reqs: "fold sync_step (replicate (max 1 ((length scids + 1999) div 2000)) (end_reply chainHash)) ?s1 = ?s2"
    unfolding k by (subst request_all [where scids = "drop 2000 scids"]) (simp_all add: newChannelsQuery_def)
  have last: "gs_state (fold sync_step [Microtask, TimerFires, Microtask] ?s2) = SyncComplete"
    "gs_peer (fold sync_step [Microtask, TimerFires, Microtask] ?s2) = gs_peer ?s2"
    by (simp_all add: sync_continue_def sync_awaited_def sync_resume_def sync_enter_def on_watcher_def watch_def onTimeout_def settle_def io_simps)
  have fin: "fold sync_step (filter (\<lambda>e. \<not> is_gossip e) es) ?s0 = fold sync_step [Microtask, TimerFires, Microtask] ?s2"
    unfolding assms(1) fold_append map_append comp_apply q(1) using m start reqs by simp
  have "uncounted (fold sync_step es ?s0) = uncounted (fold sync_step [Microtask, TimerFires, Microtask] ?s2)"
    using run_without_gossip [OF s0(5) refl, of es] unfolding fin .
  then have "gs_state (fold sync_step es ?s0) = SyncComplete" "gs_peer (fold sync_step es ?s0) = gs_peer ?s2"
    using last uncounted_fields by metis+
  then show ?thesis by (simp add: requests_def)
qed

text \<open>A range with one channel.\<close>

definition sample_reply :: reply_channel_range where
  "sample_reply = \<lparr>rr_chainHash = [], rr_firstBlocknum = 0, rr_numberOfBlocks = 10, rr_fullInformation = True,
     rr_shortChannelIds = [\<lparr>sc_block = 1, sc_txIdx = 2, sc_voutIdx = 3\<rparr>], rr_timestamps = [], rr_checksums = []\<rparr>"

abbreviation sample_events :: "sync_event list" where
  "sample_events \<equiv> [Incoming (MReplyChannelRange sample_reply), Microtask, end_reply [], Microtask, TimerFires, Microtask]"

lemma sample_sync: "gs_state (fold sync_step sample_events (startedSync [] 0 10)) = SyncComplete"
  by (simp add: startedSync_eq sync_handleWireMessage_def on_range_def range_ops newGossipQueriesSync_def sample_reply_def
      newChannelRangeQuery_def rq_message_def isLegacyReply_def sync_continue_def sync_awaited_def sync_resume_def sync_enter_def
      on_channels_def cq_query_def channels_ops newChannelsQuery_def newGossipSyncWatcher_def on_watcher_def watch_def onTimeout_def)

theorem sync_asks_for_all_witness:
  "\<exists>es1 es2. sample_events = es1 @ es2 \<and> covered (0 + 10) (replies_of es1)
    \<and> concat (queries_of (snd_sent (gs_peer (fold sync_step sample_events (startedSync [] 0 10))))) = reported es1"
  using sync_asks_for_all [OF _ refl sample_sync] by auto

theorem range_gap_unnoticed_witness:
  "gs_state (fold sync_step [Incoming (MReplyChannelRange \<lparr>rr_chainHash = [], rr_firstBlocknum = 5 + 10 - 1,
      rr_numberOfBlocks = 1, rr_fullInformation = True, rr_shortChannelIds = [], rr_timestamps = [], rr_checksums = []\<rparr>), Microtask]
      (startedSync [] 5 10)) = AwaitingChannels"
  by (rule range_gap_unnoticed) simp

theorem sync_completes_witness:
  "snd_sent (gs_peer (fold sync_step sample_events (startedSync [] 0 10)))
     = MQueryChannelRange (rq_message [] 0 10) # map (request_message []) (requests (rr_shortChannelIds sample_reply))"
proof -
  have e: "filter (\<lambda>e. \<not> is_gossip e) sample_events = map (\<lambda>r. Incoming (MReplyChannelRange r)) ([] @ [sample_reply]) @ [Microtask]
      @ replicate (max 1 ((length (rr_shortChannelIds sample_reply) + 1999) div 2000)) (end_reply []) @ [Microtask, TimerFires, Microtask]"
    by (simp add: is_gossip_def sample_reply_def)
  have r: "rr_fullInformation sample_reply" "0 + 10 \<le> rr_firstBlocknum sample_reply + rr_numberOfBlocks sample_reply"
    by (simp_all add: sample_reply_def)
  show ?thesis using sync_completes [OF e _ _ r] by simp
qed

end
