(* ===== verification/Peer.thy ===== *)
theory Peer
  imports Messages
begin

text \<open>
  \<^verbatim>\<open>packages/lightning/lib/Peer.ts\<close>, \<^verbatim>\<open>PeerState.ts\<close> and \<^verbatim>\<open>PingPongState.ts\<close>: the connection to a
  peer above the encrypted socket.  The socket is its status, what it has received and not yet delivered,
  what has been written to it and whether it was ended; timers are flags; events that are emitted are logged.  The read
  queue of the stream is in paused mode: \<^verbatim>\<open>push\<close> is true while there is room below the high water mark.
  Parsing and serializing messages, which need the compression library, are a parameter.
\<close>

section \<open>State\<close>

datatype PeerState = PeerDisconnected | AwaitingPeerInit | PeerReady | PeerDisconnecting

primrec peerStateNumber :: "PeerState \<Rightarrow> nat" where
  "peerStateNumber PeerDisconnected = 0"
| "peerStateNumber AwaitingPeerInit = 1"
| "peerStateNumber PeerReady = 100"
| "peerStateNumber PeerDisconnecting = 1000"

record peer_platform =
  pl_deserialize :: "buffer \<Rightarrow> wire_message option res"
  pl_serialize :: "wire_message \<Rightarrow> buffer res"

definition libraryPlatform :: "(buffer \<Rightarrow> buffer) \<Rightarrow> (buffer \<Rightarrow> buffer res) \<Rightarrow> EncodingType \<Rightarrow> peer_platform" where
  "libraryPlatform deflate inflate e = \<lparr>pl_deserialize = factory_deserialize inflate, pl_serialize = wm_serialize deflate e\<rparr>"

record ping_pong_state =
  pp_pingsReceieved :: nat
  pp_lastMessageReceived :: "nat option"
  pp_sendPingInterval :: bool
  pp_pongTimeout :: bool
  pp_sentPing :: "ping option"

definition newPingPongState :: ping_pong_state where
  "newPingPongState = \<lparr>pp_pingsReceieved = 0, pp_lastMessageReceived = None, pp_sendPingInterval = False,
     pp_pongTimeout = False, pp_sentPing = None\<rparr>"

datatype SocketStatus = SocketConnecting | SocketOpen | SocketClosed

record peer_socket =
  ps_status :: SocketStatus
  ps_inbox :: "buffer list"
  ps_written :: "buffer list"
  ps_ended :: bool

datatype emitted = EmitOpen | EmitSending buffer | EmitReady | EmitRaw buffer | EmitClose | EmitError exn

record peer =
  pr_state :: PeerState
  pr_socket :: "peer_socket option"
  pr_messageCounter :: nat
  pr_pingPong :: ping_pong_state
  pr_localFeatures :: bit_field
  pr_localChains :: "buffer list"
  pr_remoteFeatures :: "bit_field option"
  pr_remoteChains :: "buffer list"
  pr_isInitiator :: bool
  pr_rpk :: "buffer option"
  pr_id :: "string option"
  pr_host :: string
  pr_port :: nat
  pr_onceReady :: bool
  pr_reconnectHandle :: bool
  pr_readingPaused :: bool
  pr_highWaterMark :: nat
  pr_queue :: "wire_message option list"
  pr_events :: "emitted list"

definition newPeer :: "bit_field \<Rightarrow> buffer list \<Rightarrow> nat \<Rightarrow> peer" where
  "newPeer localFeatures localChains highWaterMark = \<lparr>pr_state = PeerDisconnected, pr_socket = None, pr_messageCounter = 0,
     pr_pingPong = newPingPongState, pr_localFeatures = localFeatures, pr_localChains = localChains, pr_remoteFeatures = None,
     pr_remoteChains = [], pr_isInitiator = False, pr_rpk = None, pr_id = None, pr_host = [], pr_port = 0, pr_onceReady = False,
     pr_reconnectHandle = False, pr_readingPaused = False, pr_highWaterMark = highWaterMark, pr_queue = [], pr_events = []\<rparr>"

definition newSocket :: peer_socket where
  "newSocket = \<lparr>ps_status = SocketConnecting, ps_inbox = [], ps_written = [], ps_ended = False\<rparr>"

definition pr_isReady :: "peer \<Rightarrow> bool" where
  "pr_isReady p \<longleftrightarrow> pr_state p = PeerReady"

definition pr_pubkeyHex :: "peer \<Rightarrow> string option" where
  "pr_pubkeyHex p = map_option hexString (pr_rpk p)"

definition pr_identify :: "buffer \<Rightarrow> peer \<Rightarrow> peer" where
  "pr_identify rpk p = p\<lparr>pr_rpk := Some rpk, pr_id := Some (hexString (take 8 rpk))\<rparr>"

definition pr_connect :: "buffer \<Rightarrow> string \<Rightarrow> nat \<Rightarrow> peer \<Rightarrow> peer" where
  "pr_connect rpk host port p = (pr_identify rpk p)
     \<lparr>pr_isInitiator := True, pr_host := host, pr_port := port, pr_socket := Some newSocket, pr_onceReady := False\<rparr>"

text \<open>The listener that \<^verbatim>\<open>attach\<close> adds with \<^verbatim>\<open>once\<close> learns the key of the peer.\<close>

definition pr_attach :: "peer \<Rightarrow> peer" where
  "pr_attach p = p\<lparr>pr_isInitiator := False, pr_socket := Some newSocket, pr_onceReady := True\<rparr>"

section \<open>Sending\<close>

definition pr_emit :: "emitted \<Rightarrow> (peer, unit) io" where
  "pr_emit e = update_io (\<lambda>p. p\<lparr>pr_events := pr_events p @ [e]\<rparr>)"

definition on_socket :: "(peer_socket \<Rightarrow> peer_socket) \<Rightarrow> (peer, unit) io" where
  "on_socket f = bind_io (get_defined pr_socket) (\<lambda>s. update_io (\<lambda>p. p\<lparr>pr_socket := Some (f s)\<rparr>))"

definition socket_write :: "buffer \<Rightarrow> (peer, unit) io" where
  "socket_write buf = on_socket (\<lambda>s. s\<lparr>ps_written := ps_written s @ [buf]\<rparr>)"

definition socket_end :: "(peer, unit) io" where
  "socket_end = on_socket (\<lambda>s. s\<lparr>ps_ended := True\<rparr>)"

definition requireReady :: "(peer, unit) io" where
  "requireReady = bind_io (get_state pr_state) (\<lambda>st. if st = PeerReady then return_io () else throw_io (JsError ''Peer is not ready''))"

definition pr_send :: "buffer \<Rightarrow> (peer, unit) io" where
  "pr_send buf = then_io requireReady (then_io (pr_emit (EmitSending buf)) (socket_write buf))"

definition pr_sendMessage :: "peer_platform \<Rightarrow> wire_message \<Rightarrow> (peer, unit) io" where
  "pr_sendMessage E m = then_io requireReady (bind_io (lift_io (pl_serialize E m)) (\<lambda>buf.
     then_io (pr_emit (EmitSending buf)) (socket_write buf)))"

definition pr_enter :: "PeerState \<Rightarrow> (peer, unit) io" where
  "pr_enter st = update_io (\<lambda>p. p\<lparr>pr_state := st\<rparr>)"

definition pr_disconnect :: "(peer, unit) io" where
  "pr_disconnect = then_io (pr_enter PeerDisconnecting) socket_end"

definition pr_reconnect :: "(peer, unit) io" where
  "pr_reconnect = socket_end"

section \<open>Pings and pongs\<close>

definition on_pp :: "(ping_pong_state \<Rightarrow> ping_pong_state) \<Rightarrow> (peer, unit) io" where
  "on_pp f = update_io (\<lambda>p. p\<lparr>pr_pingPong := f (pr_pingPong p)\<rparr>)"

definition pp_start :: "(peer, unit) io" where
  "pp_start = on_pp (\<lambda>s. s\<lparr>pp_sendPingInterval := True\<rparr>)"

definition pp_onDisconnecting :: "(peer, unit) io" where
  "pp_onDisconnecting = on_pp (\<lambda>s. s\<lparr>pp_pongTimeout := False, pp_sendPingInterval := False\<rparr>)"

definition newPing :: ping where
  "newPing = \<lparr>pg_numPongBytes = 1, pg_ignored = []\<rparr>"

definition pp_sendPing :: "peer_platform \<Rightarrow> (peer, unit) io" where
  "pp_sendPing E = then_io (on_pp (\<lambda>s. s\<lparr>pp_pongTimeout := True\<rparr>))
    (then_io (pr_sendMessage E (MPing newPing)) (on_pp (\<lambda>s. s\<lparr>pp_sentPing := Some newPing\<rparr>)))"

definition pp_sendPong :: "peer_platform \<Rightarrow> ping \<Rightarrow> (peer, unit) io" where
  "pp_sendPong E ping = pr_sendMessage E (MPong \<lparr>po_ignored = replicate (pg_numPongBytes ping) 0\<rparr>)"

definition checkForPingFlood :: "(peer, unit) io" where
  "checkForPingFlood = bind_io (get_state (\<lambda>p. pp_pingsReceieved (pr_pingPong p))) (\<lambda>n.
     if n > 10 then pr_disconnect else return_io ())"

definition validatePong :: "pong \<Rightarrow> (peer, unit) io" where
  "validatePong pong = then_io (on_pp (\<lambda>s. s\<lparr>pp_pongTimeout := False\<rparr>))
     (bind_io (get_state (\<lambda>p. pp_sentPing (pr_pingPong p))) (\<lambda>sent.
      case sent of None \<Rightarrow> return_io ()
      | Some ping \<Rightarrow> if pg_numPongBytes ping \<noteq> length (po_ignored pong) then pr_disconnect else return_io ()))"

definition pp_onMessage :: "peer_platform \<Rightarrow> nat \<Rightarrow> wire_message \<Rightarrow> (peer, unit) io" where
  "pp_onMessage E now m = then_io (on_pp (\<lambda>s. s\<lparr>pp_lastMessageReceived := Some now\<rparr>)) (case m of
     MPing ping \<Rightarrow> then_io (on_pp (\<lambda>s. s\<lparr>pp_pingsReceieved := pp_pingsReceieved s + 1\<rparr>))
       (then_io checkForPingFlood
       (if pg_numPongBytes ping < 65532 then pp_sendPong E ping else return_io ()))
   | MPong pong \<Rightarrow> validatePong pong
   | _ \<Rightarrow> return_io ())"

text \<open>Time is in milliseconds; \<^verbatim>\<open>0\<close> and \<^verbatim>\<open>undefined\<close> are falsy.\<close>

definition onSendPingInterval :: "peer_platform \<Rightarrow> nat \<Rightarrow> (peer, unit) io" where
  "onSendPingInterval E now = then_io (on_pp (\<lambda>s. s\<lparr>pp_pingsReceieved := 0\<rparr>))
     (bind_io (get_state (\<lambda>p. pp_lastMessageReceived (pr_pingPong p))) (\<lambda>last.
      if (case last of None \<Rightarrow> True | Some t \<Rightarrow> t = 0 \<or> now > t + 60000) then pp_sendPing E else return_io ()))"

definition pongTimedOut :: "(peer, unit) io" where
  "pongTimedOut = pr_reconnect"

section \<open>The events of the socket\<close>

definition initMessage :: "peer \<Rightarrow> wire_message" where
  "initMessage p = MInit \<lparr>im_features = pr_localFeatures p, im_chainHashes = pr_localChains p\<rparr>"

definition sendInitMessage :: "peer_platform \<Rightarrow> (peer, unit) io" where
  "sendInitMessage E = bind_io (get_state initMessage) (\<lambda>msg. bind_io (lift_io (pl_serialize E msg)) (\<lambda>payload.
     then_io (pr_emit (EmitSending payload)) (socket_write payload)))"

definition onSocketReady :: "peer_platform \<Rightarrow> (peer, unit) io" where
  "onSocketReady E = then_io (pr_enter AwaitingPeerInit) (then_io (pr_emit EmitOpen) (sendInitMessage E))"

definition onSocketClose :: "(peer, unit) io" where
  "onSocketClose = then_io (update_io (\<lambda>p. p\<lparr>pr_reconnectHandle := False\<rparr>)) (then_io pp_onDisconnecting
     (bind_io (get_state pr_state) (\<lambda>st.
      if st = PeerDisconnecting then then_io (pr_emit EmitClose) (pr_enter PeerDisconnected)
      else then_io (pr_enter PeerDisconnected)
        (update_io (\<lambda>p. if pr_isInitiator p then p\<lparr>pr_reconnectHandle := True\<rparr> else p)))))"

definition onSocketError :: "exn \<Rightarrow> (peer, unit) io" where
  "onSocketError err = pr_emit (EmitError err)"

text \<open>The property \<^verbatim>\<open>features\<close>, which some other messages have too.\<close>

definition features_of :: "wire_message \<Rightarrow> bit_field option" where
  "features_of m = (case m of MInit i \<Rightarrow> Some (im_features i) | MNodeAnnouncement a \<Rightarrow> Some (na_features a)
     | MChannelAnnouncement a \<Rightarrow> Some (ca_features a) | _ \<Rightarrow> None)"

definition expectInit :: "wire_message option \<Rightarrow> init_message res" where
  "expectInit m = bind_res (defined m) (\<lambda>m. bind_res (defined (features_of m)) (\<lambda>_.
     case m of MInit i \<Rightarrow> Inr i | _ \<Rightarrow> Inl (JsError ''Expecting InitMessage'')))"

definition hasChain :: "buffer list \<Rightarrow> buffer list \<Rightarrow> bool" where
  "hasChain remoteChains localChains \<longleftrightarrow> (\<exists>r\<in>set remoteChains. \<exists>l\<in>set localChains. r = l)"

text \<open>The loop over the features returns at the first compulsory one that the peer does not know.\<close>

definition supports :: "bit_field \<Rightarrow> nat \<Rightarrow> bool" where
  "supports remote feature \<longleftrightarrow> feature mod 2 = 1 \<or> bf_isSet remote feature \<or> bf_isSet remote (feature + 1)"

definition processPeerInitMessage :: "peer_platform \<Rightarrow> buffer \<Rightarrow> (peer, unit) io" where
  "processPeerInitMessage E raw = bind_io (lift_io (bind_res (pl_deserialize E raw) expectInit)) (\<lambda>m.
     then_io (update_io (\<lambda>p. p\<lparr>pr_remoteFeatures := Some (im_features m), pr_remoteChains := im_chainHashes m\<rparr>))
    (bind_io (get_state pr_localChains) (\<lambda>localChains. bind_io (get_state pr_localFeatures) (\<lambda>localFeatures.
     if \<not> hasChain (im_chainHashes m) localChains \<and> im_chainHashes m \<noteq> [] \<and> localChains \<noteq> [] then pr_disconnect
     else if \<not> list_all (supports (im_features m)) (bf_flags localFeatures) then pr_disconnect
     else then_io pp_start (then_io (pr_enter PeerReady) (pr_emit EmitReady))))))"

definition processMessage :: "peer_platform \<Rightarrow> nat \<Rightarrow> buffer \<Rightarrow> (peer, wire_message option) io" where
  "processMessage E now raw =
     then_io (update_io (\<lambda>p. p\<lparr>pr_messageCounter := pr_messageCounter p + 1\<rparr>))
    (then_io (pr_emit (EmitRaw raw))
    (bind_io (lift_io (pl_deserialize E raw)) (\<lambda>m.
     then_io (case m of None \<Rightarrow> return_io () | Some m \<Rightarrow> pp_onMessage E now m) (return_io m))))"

definition pr_push :: "wire_message option \<Rightarrow> (peer, bool) io" where
  "pr_push m = then_io (update_io (\<lambda>p. p\<lparr>pr_queue := pr_queue p @ [m]\<rparr>))
     (get_state (\<lambda>p. length (pr_queue p) < pr_highWaterMark p))"

definition processRaw :: "peer_platform \<Rightarrow> nat \<Rightarrow> buffer \<Rightarrow> (peer, unit) io" where
  "processRaw E now raw = bind_io (get_state pr_state) (\<lambda>st.
     if st = AwaitingPeerInit then processPeerInitMessage E raw
     else bind_io (processMessage E now raw) (\<lambda>m. bind_io (pr_push m) (\<lambda>pushOk.
       if pushOk then return_io () else update_io (\<lambda>p. p\<lparr>pr_readingPaused := True\<rparr>))))"

text \<open>The loop takes what the socket has received, one after the other.\<close>

primrec readLoop :: "peer_platform \<Rightarrow> nat \<Rightarrow> buffer list \<Rightarrow> (peer, unit) io" where
  "readLoop E now [] = return_io ()"
| "readLoop E now (raw # raws) = bind_io (get_state pr_readingPaused) (\<lambda>paused.
     if paused then return_io ()
     else then_io (on_socket (\<lambda>s. s\<lparr>ps_inbox := raws\<rparr>)) (then_io (processRaw E now raw) (readLoop E now raws)))"

definition onSocketReadable :: "peer_platform \<Rightarrow> nat \<Rightarrow> (peer, unit) io" where
  "onSocketReadable E now = (\<lambda>p.
     case bind_io (get_defined pr_socket) (\<lambda>s. readLoop E now (ps_inbox s)) p of
       (Inr _, p) \<Rightarrow> (Inr (), p)
     | (Inl err, p) \<Rightarrow> then_io socket_end (pr_emit (EmitError err)) p)"

text \<open>\<^verbatim>\<open>_read\<close> with the event it schedules.\<close>

definition pr_read :: "peer_platform \<Rightarrow> nat \<Rightarrow> (peer, unit) io" where
  "pr_read E now = then_io (update_io (\<lambda>p. p\<lparr>pr_readingPaused := False\<rparr>)) (onSocketReadable E now)"

section \<open>The events that can happen\<close>

text \<open>
  What the socket library, the timers and the user of a peer may do: a socket gets ready once and is
  closed once, data arrives while it is open, and a timer fires while it is set.  The user does not
  connect while a connection is there or a reconnection is due.
\<close>

datatype peer_event = ConnectTo buffer string nat | AttachSocket | SocketReady buffer | SocketData nat "buffer list" | SocketCloses
  | SocketFails exn | ConsumerReads nat | SendMessage wire_message | SendBytes buffer | RequestDisconnect
  | IntervalFires nat | PongTimeoutFires | ReconnectFires

definition socket_status :: "peer \<Rightarrow> SocketStatus option" where
  "socket_status p = map_option ps_status (pr_socket p)"

definition set_status :: "SocketStatus \<Rightarrow> peer \<Rightarrow> peer" where
  "set_status st p = p\<lparr>pr_socket := map_option (\<lambda>s. s\<lparr>ps_status := st\<rparr>) (pr_socket p)\<rparr>"

definition receive :: "buffer list \<Rightarrow> peer \<Rightarrow> peer" where
  "receive raws p = p\<lparr>pr_socket := map_option (\<lambda>s. s\<lparr>ps_inbox := ps_inbox s @ raws\<rparr>) (pr_socket p)\<rparr>"

definition possible :: "peer_event \<Rightarrow> peer \<Rightarrow> bool" where
  "possible e p \<longleftrightarrow> (case e of
     ConnectTo _ _ _ \<Rightarrow> socket_status p \<in> {None, Some SocketClosed} \<and> \<not> pr_reconnectHandle p
   | AttachSocket \<Rightarrow> socket_status p \<in> {None, Some SocketClosed} \<and> \<not> pr_reconnectHandle p
   | SocketReady _ \<Rightarrow> socket_status p = Some SocketConnecting | SocketData _ _ \<Rightarrow> socket_status p = Some SocketOpen
   | SocketCloses \<Rightarrow> socket_status p \<in> {Some SocketConnecting, Some SocketOpen} | SocketFails _ \<Rightarrow> True
   | ConsumerReads _ \<Rightarrow> pr_queue p \<noteq> [] \<and> socket_status p \<noteq> None | SendMessage _ \<Rightarrow> True | SendBytes _ \<Rightarrow> True | RequestDisconnect \<Rightarrow> socket_status p \<noteq> None
   | IntervalFires _ \<Rightarrow> pp_sendPingInterval (pr_pingPong p) | PongTimeoutFires \<Rightarrow> pp_pongTimeout (pr_pingPong p)
   | ReconnectFires \<Rightarrow> pr_reconnectHandle p)"

primrec peer_step :: "peer_platform \<Rightarrow> peer_event \<Rightarrow> (peer, unit) io" where
  "peer_step E (ConnectTo rpk host port) = update_io (pr_connect rpk host port)"
| "peer_step E AttachSocket = update_io pr_attach"
| "peer_step E (SocketReady rpk) = then_io (update_io (set_status SocketOpen)) (then_io (onSocketReady E)
     (update_io (\<lambda>p. if pr_onceReady p then pr_identify rpk (p\<lparr>pr_onceReady := False\<rparr>) else p)))"
| "peer_step E (SocketData now raws) = then_io (update_io (receive raws)) (onSocketReadable E now)"
| "peer_step E SocketCloses = then_io (update_io (set_status SocketClosed)) onSocketClose"
| "peer_step E (SocketFails err) = onSocketError err"
| "peer_step E (ConsumerReads now) = then_io (update_io (\<lambda>p. p\<lparr>pr_queue := tl (pr_queue p)\<rparr>)) (pr_read E now)"
| "peer_step E (SendMessage m) = pr_sendMessage E m"
| "peer_step E (SendBytes b) = pr_send b"
| "peer_step E RequestDisconnect = pr_disconnect"
| "peer_step E (IntervalFires now) = onSendPingInterval E now"
| "peer_step E PongTimeoutFires = then_io (on_pp (\<lambda>s. s\<lparr>pp_pongTimeout := False\<rparr>)) pongTimedOut"
| "peer_step E ReconnectFires = then_io (update_io (\<lambda>p. p\<lparr>pr_reconnectHandle := False\<rparr>))
     (update_io (\<lambda>p. pr_connect (the (pr_rpk p)) (pr_host p) (pr_port p) p))"

text \<open>Events that cannot happen are left out.\<close>

definition peer_run :: "peer_platform \<Rightarrow> peer_event list \<Rightarrow> peer \<Rightarrow> peer" where
  "peer_run E = fold (\<lambda>e p. if possible e p then snd (peer_step E e p) else p)"

end
