(* ===== verification/PeerFacts.thy ===== *)
theory PeerFacts
  imports Peer
begin

text \<open>
  The state machine of a peer: what holds in every state it can reach, which peers it accepts, what it
  answers, and where it does not keep to its documentation.
\<close>

section \<open>What holds in every reachable state\<close>

definition acceptable :: "bit_field \<Rightarrow> buffer list \<Rightarrow> bit_field \<Rightarrow> buffer list \<Rightarrow> bool" where
  "acceptable localFeatures localChains remoteFeatures remoteChains \<longleftrightarrow>
     (remoteChains = [] \<or> localChains = [] \<or> hasChain remoteChains localChains)
     \<and> list_all (supports remoteFeatures) (bf_flags localFeatures)"

definition init_written :: "peer_platform \<Rightarrow> peer \<Rightarrow> buffer list" where
  "init_written E p = (case pl_serialize E (initMessage p) of Inr b \<Rightarrow> [b] | Inl _ \<Rightarrow> [])"

definition written :: "peer \<Rightarrow> buffer list" where
  "written p = (case pr_socket p of None \<Rightarrow> [] | Some s \<Rightarrow> ps_written s)"

definition peer_wf :: "peer_platform \<Rightarrow> peer \<Rightarrow> bool" where
  "peer_wf E p \<longleftrightarrow>
     (pr_state p \<in> {AwaitingPeerInit, PeerReady} \<longrightarrow> socket_status p = Some SocketOpen)
   \<and> (socket_status p = Some SocketConnecting \<longrightarrow> written p = [])
   \<and> (pp_sendPingInterval (pr_pingPong p) \<longrightarrow> socket_status p = Some SocketOpen)
   \<and> (pp_pongTimeout (pr_pingPong p) \<longrightarrow> socket_status p = Some SocketOpen)
   \<and> (pr_reconnectHandle p \<longrightarrow> socket_status p = Some SocketClosed \<and> pr_rpk p \<noteq> None)
   \<and> (pr_isInitiator p \<longrightarrow> pr_rpk p \<noteq> None)
   \<and> (pr_state p = AwaitingPeerInit \<longrightarrow> written p = init_written E p)
   \<and> (pr_state p = PeerReady \<longrightarrow> pp_sendPingInterval (pr_pingPong p)
        \<and> (\<exists>f. pr_remoteFeatures p = Some f \<and> acceptable (pr_localFeatures p) (pr_localChains p) f (pr_remoteChains p))
        \<and> (\<exists>rest. written p = init_written E p @ rest))"

lemmas peer_wf_defs = peer_wf_def socket_status_def written_def init_written_def initMessage_def

lemmas peer_io = pr_emit_def pr_enter_def on_pp_def on_socket_def socket_write_def socket_end_def get_state_def get_defined_def io_simps

lemma wf_emit [maintains_intro]: "maintains (peer_wf E) (pr_emit x)"
  by (simp add: maintains_def peer_io peer_wf_defs)

lemma wf_end [maintains_intro]: "maintains (peer_wf E) socket_end"
  by (auto simp: maintains_def peer_io peer_wf_defs split: option.splits)

lemma wf_disconnect [maintains_intro]: "maintains (peer_wf E) pr_disconnect"
  by (auto simp: maintains_def pr_disconnect_def peer_io peer_wf_defs split: option.splits)

lemma wf_pp [maintains_intro]:
  "(\<And>s. pp_sendPingInterval (f s) = pp_sendPingInterval s) \<Longrightarrow> (\<And>s. pp_pongTimeout (f s) \<Longrightarrow> pp_pongTimeout s) \<Longrightarrow> maintains (peer_wf E) (on_pp f)"
  by (auto simp: maintains_def peer_io peer_wf_defs)

lemma wf_send:
  "maintains (peer_wf E) (pr_sendMessage E m)" "maintains (peer_wf E) (pr_send b)"
  by (auto simp: maintains_def pr_sendMessage_def pr_send_def requireReady_def peer_io peer_wf_defs split: sum.splits option.splits)

lemmas wf_send_intro [maintains_intro] = wf_send

lemma wf_pong: "maintains (peer_wf E) (pp_onMessage E now m)"
proof -
  have state: "maintains I (bind_io (get_state f) g)" if "\<And>x. maintains I (g x)" for I f and g :: "'b \<Rightarrow> (peer, unit) io"
    using that by (simp add: maintains_def get_state_def io_simps)
  have "maintains (peer_wf E) checkForPingFlood" unfolding checkForPingFlood_def
    by (intro state maintains_intro)
  moreover have "maintains (peer_wf E) (validatePong pong)" for pong unfolding validatePong_def
    by (intro state maintains_intro) simp_all
  moreover have "maintains (peer_wf E) (pp_sendPong E ping)" for ping unfolding pp_sendPong_def
    by (intro maintains_intro)
  ultimately show ?thesis unfolding pp_onMessage_def
    by (cases m) (auto intro!: maintains_intro simp: maintains_basic)
qed

lemma wf_other:
  assumes "pr_state p' = pr_state p" "pr_socket p' = pr_socket p" "pr_pingPong p' = pr_pingPong p" "pr_localFeatures p' = pr_localFeatures p"
    "pr_localChains p' = pr_localChains p" "pr_remoteFeatures p' = pr_remoteFeatures p" "pr_remoteChains p' = pr_remoteChains p"
    "pr_reconnectHandle p' = pr_reconnectHandle p" "pr_isInitiator p' = pr_isInitiator p" "pr_rpk p' = pr_rpk p" "peer_wf E p"
  shows "peer_wf E p'"
  using assms unfolding peer_wf_defs by simp

lemma wf_update [maintains_intro]:
  assumes "\<And>p. pr_state (f p) = pr_state p" "\<And>p. pr_socket (f p) = pr_socket p" "\<And>p. pr_pingPong (f p) = pr_pingPong p"
    "\<And>p. pr_localFeatures (f p) = pr_localFeatures p" "\<And>p. pr_localChains (f p) = pr_localChains p"
    "\<And>p. pr_remoteFeatures (f p) = pr_remoteFeatures p" "\<And>p. pr_remoteChains (f p) = pr_remoteChains p"
    "\<And>p. pr_reconnectHandle (f p) = pr_reconnectHandle p" "\<And>p. pr_isInitiator (f p) = pr_isInitiator p" "\<And>p. pr_rpk (f p) = pr_rpk p"
  shows "maintains (peer_wf E) (update_io f)"
  by (rule maintains_update) (rule wf_other, auto simp: assms)

lemma wf_processMessage: "maintains (peer_wf E) (bind_io (processMessage E now raw) g)" if "\<And>m. maintains (peer_wf E) (g m)"
  unfolding processMessage_def
  by (intro maintains_intro that wf_update; (simp; fail)?)
     (auto split: option.split intro: wf_pong simp: maintains_basic)

lemma wf_processPeerInit:
  assumes "peer_wf E p" "pr_state p = AwaitingPeerInit"
  shows "peer_wf E (snd (processPeerInitMessage E raw p))"
proof (cases "bind_res (pl_deserialize E raw) expectInit")
  case (Inl e)
  then show ?thesis using assms(1) by (simp add: processPeerInitMessage_def io_simps)
next
  case (Inr m)
  obtain s where s: "pr_socket p = Some s" "ps_status s = SocketOpen" using assms by (auto simp: peer_wf_defs)
  show ?thesis
  proof (cases "acceptable (pr_localFeatures p) (pr_localChains p) (im_features m) (im_chainHashes m)")
    case True
    then have "snd (processPeerInitMessage E raw p) = p\<lparr>pr_remoteFeatures := Some (im_features m), pr_remoteChains := im_chainHashes m,
        pr_pingPong := (pr_pingPong p)\<lparr>pp_sendPingInterval := True\<rparr>, pr_state := PeerReady, pr_events := pr_events p @ [EmitReady]\<rparr>"
      using Inr by (auto simp: processPeerInitMessage_def peer_io acceptable_def pp_start_def)
    then show ?thesis using assms True s by (simp add: peer_wf_defs)
  next
    case False
    then have "snd (processPeerInitMessage E raw p) = p\<lparr>pr_remoteFeatures := Some (im_features m), pr_remoteChains := im_chainHashes m,
        pr_state := PeerDisconnecting, pr_socket := Some (s\<lparr>ps_ended := True\<rparr>)\<rparr>"
      using Inr s by (auto simp: processPeerInitMessage_def peer_io acceptable_def pr_disconnect_def)
    then show ?thesis using assms s by (simp add: peer_wf_defs)
  qed
qed

lemma wf_push: "maintains (peer_wf E) (bind_io (pr_push m) g)" if "\<And>b. maintains (peer_wf E) (g b)"
  unfolding pr_push_def
  by (intro maintains_intro that wf_update) (simp_all add: maintains_def get_state_def)

lemma wf_processRaw: "peer_wf E p \<Longrightarrow> peer_wf E (snd (processRaw E now raw p))"
proof (cases "pr_state p = AwaitingPeerInit")
  case True
  then show "peer_wf E p \<Longrightarrow> ?thesis" using wf_processPeerInit by (simp add: processRaw_def get_state_def io_simps)
next
  case False
  have "maintains (peer_wf E) (bind_io (processMessage E now raw) (\<lambda>m. bind_io (pr_push m) (\<lambda>pushOk.
       if pushOk then return_io () else update_io (\<lambda>p. p\<lparr>pr_readingPaused := True\<rparr>))))"
    by (intro wf_processMessage wf_push maintains_if maintains_basic wf_update) simp_all
  then show "peer_wf E p \<Longrightarrow> ?thesis" using False by (simp add: processRaw_def get_state_def io_simps maintains_def)
qed

lemma wf_readLoop: "maintains (peer_wf E) (readLoop E now raws)"
proof (induction raws)
  case (Cons raw raws)
  have "maintains (peer_wf E) (processRaw E now raw)" by (simp add: maintains_def wf_processRaw)
  moreover have "maintains (peer_wf E) (on_socket (\<lambda>s. s\<lparr>ps_inbox := raws\<rparr>))"
    by (auto simp: maintains_def peer_io peer_wf_defs split: option.splits)
  ultimately show ?case using Cons by (auto simp: maintains_def io_simps get_state_def split: prod.splits sum.splits)
qed (simp add: maintains_basic)

lemma wf_readable: "maintains (peer_wf E) (onSocketReadable E now)"
proof -
  have "maintains (peer_wf E) (bind_io (get_defined pr_socket) (\<lambda>s. readLoop E now (ps_inbox s)))"
    using wf_readLoop by (auto simp: maintains_def io_simps get_defined_def split: option.split)
  moreover have "maintains (peer_wf E) (then_io socket_end (pr_emit (EmitError err)))" for err
    by (intro maintains_intro)
  ultimately show ?thesis by (auto simp: maintains_def onSocketReadable_def split: prod.split sum.split)
qed

lemma wf_interval:
  assumes "peer_wf E p" "pp_sendPingInterval (pr_pingPong p)"
  shows "peer_wf E (snd (onSendPingInterval E now p))"
proof -
  let ?q = "p\<lparr>pr_pingPong := (pr_pingPong p)\<lparr>pp_pingsReceieved := 0\<rparr>\<rparr>"
  let ?r = "?q\<lparr>pr_pingPong := (pr_pingPong ?q)\<lparr>pp_pongTimeout := True\<rparr>\<rparr>"
  have q: "peer_wf E ?q" using assms(1) by (simp add: peer_wf_defs)
  have r: "peer_wf E ?r" using assms by (simp add: peer_wf_defs)
  have "maintains (peer_wf E) (then_io (pr_sendMessage E (MPing newPing)) (on_pp (\<lambda>s. s\<lparr>pp_sentPing := Some newPing\<rparr>)))"
    by (intro maintains_intro) simp_all
  then have "peer_wf E (snd (pp_sendPing E ?q))" using r by (simp add: pp_sendPing_def maintains_def on_pp_def io_simps)
  then show ?thesis using q by (simp add: onSendPingInterval_def on_pp_def get_state_def io_simps)
qed

lemma wf_closed:
  assumes "peer_wf E p" "socket_status p \<in> {None, Some SocketClosed}"
  shows "pr_state p \<notin> {AwaitingPeerInit, PeerReady}" "\<not> pp_sendPingInterval (pr_pingPong p)" "\<not> pp_pongTimeout (pr_pingPong p)"
proof -
  have "socket_status p \<noteq> Some SocketOpen" using assms(2) by auto
  then show "pr_state p \<notin> {AwaitingPeerInit, PeerReady}" "\<not> pp_sendPingInterval (pr_pingPong p)" "\<not> pp_pongTimeout (pr_pingPong p)"
    using assms(1) unfolding peer_wf_def by blast+
qed

lemma wf_off:
  assumes "pr_state p = PeerDisconnected" "\<not> pp_sendPingInterval (pr_pingPong p)" "\<not> pp_pongTimeout (pr_pingPong p)"
    "socket_status p = Some SocketClosed" "pr_isInitiator p \<longrightarrow> pr_rpk p \<noteq> None" "pr_reconnectHandle p \<longrightarrow> pr_isInitiator p"
  shows "peer_wf E p"
  using assms by (simp add: peer_wf_def)

lemma wf_fresh:
  assumes "pr_state p \<notin> {AwaitingPeerInit, PeerReady}" "\<not> pp_sendPingInterval (pr_pingPong p)" "\<not> pp_pongTimeout (pr_pingPong p)"
    "pr_socket p = Some newSocket" "\<not> pr_reconnectHandle p" "pr_isInitiator p \<longrightarrow> pr_rpk p \<noteq> None"
  shows "peer_wf E p"
  using assms by (simp add: peer_wf_defs newSocket_def)

lemma wf_connect:
  assumes "peer_wf E p" "socket_status p \<in> {None, Some SocketClosed}"
  shows "peer_wf E (pr_connect rpk host port (p\<lparr>pr_reconnectHandle := False\<rparr>))" "peer_wf E (pr_attach (p\<lparr>pr_reconnectHandle := False\<rparr>))"
  using wf_closed [OF assms] by (intro wf_fresh; simp add: pr_connect_def pr_attach_def pr_identify_def)+

lemma wf_step: "peer_wf E p \<Longrightarrow> possible e p \<Longrightarrow> peer_wf E (snd (peer_step E e p))"
proof (cases e)
  case (ConnectTo rpk host port)
  assume p: "peer_wf E p" "possible e p"
  then have "p\<lparr>pr_reconnectHandle := False\<rparr> = p" using ConnectTo by (simp add: possible_def)
  then show ?thesis using p wf_connect(1) [OF p(1), of rpk host port] ConnectTo by (simp add: possible_def io_simps)
next
  case AttachSocket
  assume p: "peer_wf E p" "possible e p"
  then have "p\<lparr>pr_reconnectHandle := False\<rparr> = p" using AttachSocket by (simp add: possible_def)
  then show ?thesis using p wf_connect(2) [OF p(1)] AttachSocket by (simp add: possible_def io_simps)
next
  case (SocketReady rpk)
  show "peer_wf E p \<Longrightarrow> possible e p \<Longrightarrow> ?thesis"
  proof -
    assume p: "peer_wf E p" "possible e p"
    then obtain s where s: "pr_socket p = Some s" "ps_status s = SocketConnecting" using SocketReady by (auto simp: possible_def socket_status_def)
    have w: "ps_written s = []" using p(1) s by (simp add: peer_wf_defs)
    show ?thesis using p s w SocketReady
      by (cases "pl_serialize E (initMessage p)")
         (auto simp: onSocketReady_def sendInitMessage_def set_status_def peer_io peer_wf_defs pr_identify_def)
  qed
next
  case (SocketData now raws)
  have "maintains (peer_wf E) (peer_step E e)" unfolding SocketData peer_step.simps
    by (intro maintains_intro wf_readable) (auto simp: receive_def peer_wf_defs split: option.splits)
  then show "peer_wf E p \<Longrightarrow> possible e p \<Longrightarrow> ?thesis" by (simp add: maintains_def)
next
  case SocketCloses
  assume p: "peer_wf E p" "possible e p"
  then obtain s where "pr_socket p = Some s" using SocketCloses by (auto simp: possible_def socket_status_def)
  moreover have "pr_isInitiator p \<longrightarrow> pr_rpk p \<noteq> None" using p(1) by (simp add: peer_wf_def)
  ultimately show ?thesis
    by (intro wf_off) (simp_all add: SocketCloses onSocketClose_def pp_onDisconnecting_def set_status_def peer_io socket_status_def)
next
  case (SocketFails err)
  then show "peer_wf E p \<Longrightarrow> possible e p \<Longrightarrow> ?thesis" using wf_emit by (simp add: onSocketError_def maintains_def)
next
  case (ConsumerReads now)
  have "maintains (peer_wf E) (peer_step E e)" unfolding ConsumerReads peer_step.simps pr_read_def
    by (intro maintains_intro wf_readable) simp_all
  then show "peer_wf E p \<Longrightarrow> possible e p \<Longrightarrow> ?thesis" by (simp add: maintains_def)
next
  case (IntervalFires now)
  then show "peer_wf E p \<Longrightarrow> possible e p \<Longrightarrow> ?thesis" using wf_interval by (simp add: possible_def)
next
  case PongTimeoutFires
  have "maintains (peer_wf E) (peer_step E e)" unfolding PongTimeoutFires peer_step.simps pongTimedOut_def pr_reconnect_def
    by (intro maintains_intro) simp_all
  then show "peer_wf E p \<Longrightarrow> possible e p \<Longrightarrow> ?thesis" by (simp add: maintains_def)
next
  case ReconnectFires
  assume p: "peer_wf E p" "possible e p"
  then have "socket_status p = Some SocketClosed" using ReconnectFires by (simp add: peer_wf_def possible_def)
  then show ?thesis using wf_connect(1) [OF p(1)] ReconnectFires by (simp add: io_simps)
qed (use wf_send wf_disconnect in \<open>simp_all add: maintains_def\<close>)

lemma wf_new: "peer_wf E (newPeer localFeatures localChains highWaterMark)"
  by (simp add: peer_wf_defs newPeer_def newPingPongState_def)

lemma wf_run: "peer_wf E p \<Longrightarrow> peer_wf E (peer_run E es p)"
  unfolding peer_run_def by (induction es arbitrary: p) (simp_all add: wf_step)

text \<open>
  C16: In every state that a peer can reach, whatever the socket, the timers and the user do: it awaits the init message
  or is ready only while its socket is open, and then its own init message is the first thing written; while it
  awaits nothing else has been written; if it is ready, the init message of the peer has been accepted and the
  pings are on; no ping timer outlives its socket, and a reconnection is due only after the socket was closed.
\<close>

theorem peer_well_formed: "peer_wf E (peer_run E es (newPeer localFeatures localChains highWaterMark))"
  by (intro wf_run wf_new)

section \<open>Which peers are accepted\<close>

text \<open>What BOLT 1 and 9 ask for: a common chain, if both name some, and every compulsory feature known to the peer.\<close>

definition common_chain :: "peer \<Rightarrow> peer \<Rightarrow> bool" where
  "common_chain a b \<longleftrightarrow> pr_localChains a = [] \<or> pr_localChains b = [] \<or> set (pr_localChains a) \<inter> set (pr_localChains b) \<noteq> {}"

definition features_known :: "peer \<Rightarrow> peer \<Rightarrow> bool" where
  "features_known a b \<longleftrightarrow>
     (\<forall>k. even k \<and> bf_isSet (pr_localFeatures a) k \<longrightarrow> bf_isSet (pr_localFeatures b) k \<or> bf_isSet (pr_localFeatures b) (k + 1))"

definition compatible :: "peer \<Rightarrow> peer \<Rightarrow> bool" where
  "compatible a b \<longleftrightarrow> common_chain a b \<and> features_known a b"

definition single_feature :: "peer \<Rightarrow> bool" where
  "single_feature p \<longleftrightarrow> (\<exists>k. bf_value (pr_localFeatures p) = 2 ^ k)"

lemma acceptable_compatible:
  "acceptable (pr_localFeatures a) (pr_localChains a) (pr_localFeatures b) (pr_localChains b)
     \<longleftrightarrow> common_chain a b \<and> (single_feature a \<or> features_known a b)"
proof (cases "single_feature a")
  case True
  then have "bf_flags (pr_localFeatures a) = []" using bit_field_flags [of "pr_localFeatures a"] by (auto simp: single_feature_def)
  then show ?thesis using True by (auto simp: acceptable_def common_chain_def hasChain_def)
next
  case False
  let ?f = "pr_localFeatures a"
  have high: "k < Suc (bf_msb ?f)" if "bit (bf_value ?f) k" for k
  proof -
    have "2 ^ k \<le> bf_value ?f" using that by (metis bit_iff_odd div_less even_zero not_le_imp_less)
    then have "(2 :: nat) ^ k < 2 ^ Suc (bf_msb ?f)" using msb_loop_bounds(1) [of "bf_value ?f"] unfolding bf_msb_def by linarith
    then show ?thesis by (rule power_less_imp_less_exp [rotated]) simp
  qed
  have "bf_flags ?f = filter (bf_isSet ?f) [0..<Suc (bf_msb ?f)]" using False bit_field_flags [of ?f] by (simp add: single_feature_def)
  then have "set (bf_flags ?f) = {k. bf_isSet ?f k}" using high by (auto simp del: upt_Suc)
  then show ?thesis using False
    by (auto simp: acceptable_def common_chain_def features_known_def hasChain_def list_all_iff supports_def even_iff_mod_2_eq_zero)
qed

text \<open>Reading the init message of a peer.\<close>

lemma init_step:
  assumes "pr_state p = AwaitingPeerInit" "pl_deserialize E raw = Inr (Some (MInit m))" "pr_socket p = Some s"
  shows "processRaw E now raw p =
    (if acceptable (pr_localFeatures p) (pr_localChains p) (im_features m) (im_chainHashes m)
     then (Inr (), p\<lparr>pr_remoteFeatures := Some (im_features m), pr_remoteChains := im_chainHashes m,
        pr_pingPong := (pr_pingPong p)\<lparr>pp_sendPingInterval := True\<rparr>, pr_state := PeerReady, pr_events := pr_events p @ [EmitReady]\<rparr>)
     else (Inr (), p\<lparr>pr_remoteFeatures := Some (im_features m), pr_remoteChains := im_chainHashes m,
        pr_state := PeerDisconnecting, pr_socket := Some (s\<lparr>ps_ended := True\<rparr>)\<rparr>))"
  using assms by (auto simp: processRaw_def expectInit_def features_of_def processPeerInitMessage_def peer_io acceptable_def pp_start_def pr_disconnect_def)

definition init_of :: "peer \<Rightarrow> init_message" where
  "init_of p = \<lparr>im_features = pr_localFeatures p, im_chainHashes = pr_localChains p\<rparr>"

lemma ready_step:
  assumes "pl_serialize E (initMessage p) = Inr b" "pr_socket p = Some newSocket"
  shows "\<exists>p'. peer_step E (SocketReady k) p = (Inr (), p') \<and> pr_state p' = AwaitingPeerInit
    \<and> pr_socket p' = Some (newSocket\<lparr>ps_status := SocketOpen, ps_written := [b]\<rparr>)
    \<and> pr_localFeatures p' = pr_localFeatures p \<and> pr_localChains p' = pr_localChains p \<and> pr_readingPaused p' = pr_readingPaused p
    \<and> pr_queue p' = pr_queue p \<and> pr_events p' = pr_events p @ [EmitOpen, EmitSending b] \<and> pr_highWaterMark p' = pr_highWaterMark p"
  using assms by (auto simp: onSocketReady_def sendInitMessage_def set_status_def peer_io pr_identify_def initMessage_def newSocket_def)

lemma data_step:
  assumes "pr_socket p = Some s" "ps_inbox s = []"
  shows "peer_step E (SocketData now raws) p = (case readLoop E now raws (p\<lparr>pr_socket := Some (s\<lparr>ps_inbox := raws\<rparr>)\<rparr>) of
     (Inr _, p) \<Rightarrow> (Inr (), p) | (Inl err, p) \<Rightarrow> then_io socket_end (pr_emit (EmitError err)) p)"
  using assms by (simp add: receive_def onSocketReadable_def get_defined_def io_simps)

lemma library_init:
  assumes "\<And>d. inflate (deflate d) = Inr d" "im_wf (init_of p)"
  shows "pl_serialize (libraryPlatform deflate inflate e) (initMessage p) = Inr (im_bytes (init_of p))"
    "pl_deserialize (libraryPlatform deflate inflate e) (im_bytes (init_of p)) = Inr (Some (MInit (init_of p)))"
  using wm_serialize_eq [of deflate e "MInit (init_of p)"] factory_deserialize_eq [of deflate e "MInit (init_of p)" inflate] assms
  by (simp_all add: libraryPlatform_def initMessage_def init_of_def)

text \<open>What a peer makes of the init message of another.\<close>

definition verdict :: "peer \<Rightarrow> peer \<Rightarrow> peer \<Rightarrow> peer \<Rightarrow> bool" where
  "verdict a b a' a'' \<longleftrightarrow> (if common_chain a b \<and> (single_feature a \<or> features_known a b)
     then pr_state a'' = PeerReady \<and> pr_events a'' = pr_events a' @ [EmitReady]
     else pr_state a'' = PeerDisconnecting \<and> (\<exists>s. pr_socket a'' = Some s \<and> ps_ended s))"

lemma init_decided:
  assumes "\<And>d. inflate (deflate d) = Inr d" "E = libraryPlatform deflate inflate e" "im_wf (init_of a)" "im_wf (init_of b)"
    and "pr_socket a = Some newSocket" "pr_socket b = Some newSocket" "\<not> pr_readingPaused a"
    and "peer_step E (SocketReady ka) a = (ra, a')" "peer_step E (SocketReady kb) b = (rb, b')"
  shows "\<exists>a''. peer_step E (SocketData now (written b')) a' = (Inr (), a'') \<and> verdict a b a' a''"
proof -
  let ?ok = "common_chain a b \<and> (single_feature a \<or> features_known a b)"
  note lib = library_init [where e = e and deflate = deflate and inflate = inflate, OF assms(1), folded assms(2)]
  have b': "written b' = [im_bytes (init_of b)]"
    using ready_step [OF lib(1) [OF assms(4)] assms(6), of kb] assms(9) by (auto simp: written_def newSocket_def)
  have a': "pr_state a' = AwaitingPeerInit" "pr_socket a' = Some (newSocket\<lparr>ps_status := SocketOpen, ps_written := [im_bytes (init_of a)]\<rparr>)"
    "pr_localFeatures a' = pr_localFeatures a" "pr_localChains a' = pr_localChains a" "\<not> pr_readingPaused a'"
    using ready_step [OF lib(1) [OF assms(3)] assms(5), of ka] assms(7,8) by auto
  have acc: "acceptable (pr_localFeatures a') (pr_localChains a') (im_features (init_of b)) (im_chainHashes (init_of b)) \<longleftrightarrow> ?ok"
    using acceptable_compatible [of a b] a'(3,4) by (simp add: init_of_def)
  let ?p = "a'\<lparr>pr_socket := Some (newSocket\<lparr>ps_status := SocketOpen, ps_written := [im_bytes (init_of a)]\<rparr>)\<rparr>"
  have "processRaw E now (im_bytes (init_of b)) ?p = (if ?ok
     then (Inr (), ?p\<lparr>pr_remoteFeatures := Some (im_features (init_of b)), pr_remoteChains := im_chainHashes (init_of b),
        pr_pingPong := (pr_pingPong ?p)\<lparr>pp_sendPingInterval := True\<rparr>, pr_state := PeerReady, pr_events := pr_events ?p @ [EmitReady]\<rparr>)
     else (Inr (), ?p\<lparr>pr_remoteFeatures := Some (im_features (init_of b)), pr_remoteChains := im_chainHashes (init_of b),
        pr_state := PeerDisconnecting, pr_socket := Some ((newSocket\<lparr>ps_status := SocketOpen, ps_written := [im_bytes (init_of a)]\<rparr>)\<lparr>ps_ended := True\<rparr>)\<rparr>))"
    using init_step [of ?p E "im_bytes (init_of b)" "init_of b"] a'(1) lib(2) [OF assms(4)] acc by simp
  then show ?thesis
    using a' unfolding b' by (subst data_step [OF a'(2)]) (simp_all add: newSocket_def get_state_def on_socket_def get_defined_def io_simps verdict_def)
qed

text \<open>
  C17: Two peers that connect exchange their init messages, and each of them decides on the other: it gets ready if they
  share a chain, or one of them names none, and the other knows every compulsory feature of its own; if not, it
  closes the connection.  The exception is a peer with exactly one feature, which does not look at those of the other
  (see \<^verbatim>\<open>single_feature_unchecked\<close>).
\<close>

theorem init_decides:
  assumes "\<And>d. inflate (deflate d) = Inr d" "E = libraryPlatform deflate inflate e" "im_wf (init_of a)" "im_wf (init_of b)"
    and "pr_socket a = Some newSocket" "pr_socket b = Some newSocket" "\<not> pr_readingPaused a" "\<not> pr_readingPaused b"
    and "peer_step E (SocketReady ka) a = (ra, a')" "peer_step E (SocketReady kb) b = (rb, b')"
  shows "\<exists>a'' b''. peer_step E (SocketData now (written b')) a' = (Inr (), a'') \<and> peer_step E (SocketData now' (written a')) b' = (Inr (), b'')
    \<and> (if common_chain a b \<and> (single_feature a \<or> features_known a b)
       then pr_state a'' = PeerReady \<and> pr_events a'' = pr_events a' @ [EmitReady]
       else pr_state a'' = PeerDisconnecting \<and> (\<exists>s. pr_socket a'' = Some s \<and> ps_ended s))
    \<and> (if common_chain a b \<and> (single_feature b \<or> features_known b a)
       then pr_state b'' = PeerReady \<and> pr_events b'' = pr_events b' @ [EmitReady]
       else pr_state b'' = PeerDisconnecting \<and> (\<exists>s. pr_socket b'' = Some s \<and> ps_ended s))"
proof -
  have sym: "common_chain b a = common_chain a b" by (auto simp: common_chain_def)
  show ?thesis
    using init_decided [OF assms(1-7,9,10), of now] init_decided [OF assms(1,2,4,3,6,5,8,10,9), of now']
    unfolding verdict_def sym by blast
qed

text \<open>
  A peer with exactly one feature, a compulsory one, accepts peers that do not know it, because \<^verbatim>\<open>flags\<close> lists
  no feature then.
\<close>

theorem single_feature_unchecked:
  assumes "\<And>d. inflate (deflate d) = Inr d" "E = libraryPlatform deflate inflate e" "im_wf (init_of a)" "im_wf (init_of b)"
    and "pr_socket a = Some newSocket" "pr_socket b = Some newSocket" "\<not> pr_readingPaused a"
    and "pr_localFeatures a = BitField (2 ^ k)" "even k" "pr_localFeatures b = BitField 0" "pr_localChains b = []"
    and "peer_step E (SocketReady ka) a = (ra, a')" "peer_step E (SocketReady kb) b = (rb, b')"
  shows "\<not> compatible a b \<and> (\<exists>a''. peer_step E (SocketData now (written b')) a' = (Inr (), a'') \<and> pr_state a'' = PeerReady)"
proof
  show "\<not> compatible a b" using assms(8-10) by (auto simp: compatible_def features_known_def bit_exp_iff)
  note lib = library_init [where e = e and deflate = deflate and inflate = inflate, OF assms(1), folded assms(2)]
  have b': "written b' = [im_bytes (init_of b)]"
    using ready_step [OF lib(1) [OF assms(4)] assms(6), of kb] assms(13) by (auto simp: written_def newSocket_def)
  have a': "pr_state a' = AwaitingPeerInit" "pr_socket a' = Some (newSocket\<lparr>ps_status := SocketOpen, ps_written := [im_bytes (init_of a)]\<rparr>)"
    "pr_localFeatures a' = pr_localFeatures a" "\<not> pr_readingPaused a'"
    using ready_step [OF lib(1) [OF assms(3)] assms(5), of ka] assms(7,12) by auto
  have f: "bf_flags (pr_localFeatures a') = []" using a'(3) assms(8) bit_field_flags [of "pr_localFeatures a"] by auto
  have acc: "acceptable (pr_localFeatures a') (pr_localChains a') (im_features (init_of b)) (im_chainHashes (init_of b))"
    using f assms(11) by (simp add: acceptable_def init_of_def)
  show "\<exists>a''. peer_step E (SocketData now (written b')) a' = (Inr (), a'') \<and> pr_state a'' = PeerReady"
    using a' init_step [OF _ lib(2) [OF assms(4)]] acc unfolding b'
    by (subst data_step [OF a'(2)]) (simp_all add: newSocket_def get_state_def on_socket_def get_defined_def io_simps)
qed

text \<open>
  A peer that has just been rejected is still listened to: the messages after its init message are delivered to the
  consumer, although the peer was never ready.
\<close>

theorem rejected_peer_heard:
  assumes "pr_state p = AwaitingPeerInit" "pr_socket p = Some s" "ps_inbox s = []" "\<not> pr_readingPaused p"
    and "pl_deserialize E raw = Inr (Some (MInit i))" "pl_deserialize E raw' = Inr (Some (MChannelUpdate m))"
    and "\<not> acceptable (pr_localFeatures p) (pr_localChains p) (im_features i) (im_chainHashes i)"
  shows "\<exists>p'. peer_step E (SocketData now [raw, raw']) p = (Inr (), p') \<and> pr_state p' = PeerDisconnecting
    \<and> pr_queue p' = pr_queue p @ [Some (MChannelUpdate m)] \<and> pr_events p' = pr_events p @ [EmitRaw raw']"
proof -
  let ?p = "p\<lparr>pr_socket := Some (s\<lparr>ps_inbox := [raw']\<rparr>)\<rparr>"
  let ?q = "?p\<lparr>pr_remoteFeatures := Some (im_features i), pr_remoteChains := im_chainHashes i,
      pr_state := PeerDisconnecting, pr_socket := Some (s\<lparr>ps_inbox := [raw'], ps_ended := True\<rparr>)\<rparr>"
  have "processRaw E now raw ?p = (Inr (), ?q)"
    using init_step [of ?p E raw i] assms(1,5,7) by simp
  then show ?thesis using assms(4,6)
    by (subst data_step [OF assms(2,3)])
       (simp add: peer_io processRaw_def [of E now raw'] processMessage_def pp_onMessage_def pr_push_def)
qed

section \<open>Timers\<close>

text \<open>
  The ping timer is not stopped when the user disconnects: until the socket is closed it can fire, and then
  sending the ping throws out of the timer.
\<close>

theorem ping_timer_throws:
  assumes "p = peer_run E es (newPeer localFeatures localChains highWaterMark)" "pr_state p = PeerReady"
    and "case pp_lastMessageReceived (pr_pingPong p) of None \<Rightarrow> True | Some t \<Rightarrow> t + 60000 < now"
  shows "\<exists>p'. peer_step E RequestDisconnect p = (Inr (), p') \<and> possible (IntervalFires now) p'
    \<and> fst (peer_step E (IntervalFires now) p') = Inl (JsError ''Peer is not ready'')"
proof -
  have wf: "peer_wf E p" unfolding assms(1) by (intro wf_run wf_new)
  then have i: "pp_sendPingInterval (pr_pingPong p)" using assms(2) by (simp add: peer_wf_def)
  obtain s where s: "pr_socket p = Some s" using wf assms(2) by (auto simp: peer_wf_defs)
  then show ?thesis using i assms(3)
    by (auto simp: pr_disconnect_def possible_def onSendPingInterval_def pp_sendPing_def pr_sendMessage_def requireReady_def peer_io
        split: option.splits)
qed

text \<open>
  A request to disconnect while a reconnection is due is lost: the timer is not cleared, and the peer connects again.
\<close>

theorem disconnect_lost:
  assumes "p = peer_run E es (newPeer localFeatures localChains highWaterMark)" "pr_state p = PeerReady" "pr_isInitiator p"
    and "pl_serialize E (initMessage p) = Inr b"
  shows "pr_state (peer_run E [SocketCloses, RequestDisconnect, ReconnectFires, SocketReady rpk] p) = AwaitingPeerInit
    \<and> socket_status (peer_run E [SocketCloses, RequestDisconnect, ReconnectFires, SocketReady rpk] p) = Some SocketOpen"
proof -
  have wf: "peer_wf E p" unfolding assms(1) by (intro wf_run wf_new)
  then obtain s where s: "pr_socket p = Some s" "ps_status s = SocketOpen" using assms(2) by (auto simp: peer_wf_defs)
  show ?thesis using s assms(2-4)
    by (simp add: peer_run_def possible_def socket_status_def set_status_def onSocketClose_def pp_onDisconnecting_def pr_disconnect_def
        pr_connect_def pr_identify_def newSocket_def onSocketReady_def sendInitMessage_def initMessage_def peer_io)
qed

section \<open>Pings\<close>

abbreviation pong_bytes :: "ping \<Rightarrow> buffer" where
  "pong_bytes m \<equiv> po_bytes \<lparr>po_ignored = replicate (pg_numPongBytes m) 0\<rparr>"

lemma library_ping:
  assumes "\<And>d. inflate (deflate d) = Inr d" "pg_wf m"
  shows "pl_deserialize (libraryPlatform deflate inflate e) (pg_bytes m) = Inr (Some (MPing m))"
    "pl_serialize (libraryPlatform deflate inflate e) (MPong \<lparr>po_ignored = replicate (pg_numPongBytes m) 0\<rparr>) = Inr (pong_bytes m)"
  using wm_serialize_eq [of deflate e "MPong \<lparr>po_ignored = replicate (pg_numPongBytes m) 0\<rparr>"]
    factory_deserialize_eq [of deflate e "MPing m" inflate] assms
  by (simp_all add: libraryPlatform_def po_wf_def pg_wf_def)

text \<open>One ping below the threshold: what is left is the queue.\<close>

lemma ping_step:
  assumes "\<And>d. inflate (deflate d) = Inr d" "E = libraryPlatform deflate inflate e" "pg_wf m"
    and "pr_state p = PeerReady" "pr_socket p = Some s" "pp_pingsReceieved (pr_pingPong p) < 10" "length (pr_queue p) + 1 < pr_highWaterMark p"
  shows "\<exists>p'. processRaw E now (pg_bytes m) p = (Inr (), p') \<and> pr_state p' = PeerReady
    \<and> pr_socket p' = Some (s\<lparr>ps_written := ps_written s @ (if pg_numPongBytes m < 65532 then [pong_bytes m] else [])\<rparr>)
    \<and> pp_pingsReceieved (pr_pingPong p') = pp_pingsReceieved (pr_pingPong p) + 1 \<and> pr_queue p' = pr_queue p @ [Some (MPing m)]
    \<and> pr_readingPaused p' = pr_readingPaused p \<and> pr_highWaterMark p' = pr_highWaterMark p"
  using library_ping [where deflate = deflate and inflate = inflate and e = e, OF assms(1,3), folded assms(2)] assms(4-7)
  by (auto simp: processRaw_def processMessage_def pp_onMessage_def checkForPingFlood_def pp_sendPong_def pr_sendMessage_def
      requireReady_def pr_push_def peer_io)

lemma ping_loop:
  assumes "\<And>d. inflate (deflate d) = Inr d" "E = libraryPlatform deflate inflate e"
  shows "\<forall>m\<in>set ms. pg_wf m \<Longrightarrow> pr_state p = PeerReady \<Longrightarrow> pr_socket p = Some s \<Longrightarrow> \<not> pr_readingPaused p \<Longrightarrow>
    pp_pingsReceieved (pr_pingPong p) + length ms \<le> 10 \<Longrightarrow> length (pr_queue p) + length ms < pr_highWaterMark p \<Longrightarrow>
    \<exists>p' s'. readLoop E now (map pg_bytes ms) p = (Inr (), p') \<and> pr_state p' = PeerReady \<and> pr_socket p' = Some s'
      \<and> ps_written s' = ps_written s @ map pong_bytes (filter (\<lambda>m. pg_numPongBytes m < 65532) ms)
      \<and> pr_queue p' = pr_queue p @ map (Some \<circ> MPing) ms"
proof (induction ms arbitrary: p s)
  case (Cons m ms)
  let ?s = "s\<lparr>ps_inbox := map pg_bytes ms\<rparr>" and ?p = "p\<lparr>pr_socket := Some (s\<lparr>ps_inbox := map pg_bytes ms\<rparr>)\<rparr>"
  obtain p1 where p1: "processRaw E now (pg_bytes m) ?p = (Inr (), p1)" "pr_state p1 = PeerReady"
    "pr_socket p1 = Some (?s\<lparr>ps_written := ps_written ?s @ (if pg_numPongBytes m < 65532 then [pong_bytes m] else [])\<rparr>)"
    "pp_pingsReceieved (pr_pingPong p1) = pp_pingsReceieved (pr_pingPong p) + 1" "pr_queue p1 = pr_queue p @ [Some (MPing m)]"
    "\<not> pr_readingPaused p1" "pr_highWaterMark p1 = pr_highWaterMark p"
    using ping_step [where deflate = deflate and inflate = inflate and e = e, OF assms(1,2), of m ?p ?s now] Cons.prems by auto
  have step: "readLoop E now (map pg_bytes (m # ms)) p = readLoop E now (map pg_bytes ms) p1"
    using p1(1) Cons.prems(3,4) by (simp add: get_state_def on_socket_def get_defined_def io_simps)
  show ?case unfolding step using Cons.IH [OF _ p1(2,3,6)] p1(4,5,7) Cons.prems(1,5,6) by auto
qed (auto simp: io_simps)

text \<open>
  Up to ten pings in an interval are answered, each by a pong of the length that it asks for, unless
  that is at least 65532, and all are passed on.
\<close>

theorem pings_answered:
  assumes "\<And>d. inflate (deflate d) = Inr d" "E = libraryPlatform deflate inflate e" "\<forall>m\<in>set ms. pg_wf m"
    and "pr_state p = PeerReady" "pr_socket p = Some s" "ps_inbox s = []" "\<not> pr_readingPaused p" "length (pr_queue p) + length ms < pr_highWaterMark p"
    and "pp_pingsReceieved (pr_pingPong p) + length ms \<le> 10"
  shows "\<exists>p'. peer_step E (SocketData now (map pg_bytes ms)) p = (Inr (), p')
    \<and> pr_state p' = PeerReady \<and> pr_queue p' = pr_queue p @ map (Some \<circ> MPing) ms
    \<and> written p' = written p @ map pong_bytes (filter (\<lambda>m. pg_numPongBytes m < 65532) ms)"
proof -
  let ?s = "s\<lparr>ps_inbox := map pg_bytes ms\<rparr>"
  let ?p = "p\<lparr>pr_socket := Some ?s\<rparr>"
  have "\<exists>p' s'. readLoop E now (map pg_bytes ms) ?p = (Inr (), p') \<and> pr_state p' = PeerReady \<and> pr_socket p' = Some s'
      \<and> ps_written s' = ps_written ?s @ map pong_bytes (filter (\<lambda>m. pg_numPongBytes m < 65532) ms)
      \<and> pr_queue p' = pr_queue ?p @ map (Some \<circ> MPing) ms"
    by (rule ping_loop [where deflate = deflate and inflate = inflate and e = e, OF assms(1-3)]) (use assms(4,7-9) in simp_all)
  then obtain p' s' where "readLoop E now (map pg_bytes ms) ?p = (Inr (), p')" "pr_state p' = PeerReady" "pr_socket p' = Some s'"
      "ps_written s' = ps_written s @ map pong_bytes (filter (\<lambda>m. pg_numPongBytes m < 65532) ms)" "pr_queue p' = pr_queue p @ map (Some \<circ> MPing) ms"
    by auto
  then show ?thesis using assms(5) by (subst data_step [OF assms(5,6)]) (simp add: written_def)
qed

text \<open>The eleventh disconnects; if it asks for a pong, the attempt to send it is an error.\<close>

lemma ping_flood:
  assumes "\<And>d. inflate (deflate d) = Inr d" "E = libraryPlatform deflate inflate e" "pg_wf m"
    and "pr_state p = PeerReady" "pr_socket p = Some s" "pp_pingsReceieved (pr_pingPong p) \<ge> 10"
  shows "pr_state (snd (processRaw E now (pg_bytes m) p)) = PeerDisconnecting
    \<and> fst (processRaw E now (pg_bytes m) p) = (if pg_numPongBytes m < 65532 then Inl (JsError ''Peer is not ready'') else Inr ())"
  using library_ping [where deflate = deflate and inflate = inflate and e = e, OF assms(1,3), folded assms(2)] assms(4-6)
  by (auto simp: processRaw_def processMessage_def pp_onMessage_def checkForPingFlood_def pr_disconnect_def pp_sendPong_def
      pr_sendMessage_def requireReady_def pr_push_def peer_io)

section \<open>Concrete peers\<close>

abbreviation sample_platform :: peer_platform where
  "sample_platform \<equiv> libraryPlatform (\<lambda>d. d) Inr Raw"

definition sample_peer :: "nat \<Rightarrow> peer" where
  "sample_peer features = (newPeer (BitField features) [] 20)\<lparr>pr_socket := Some newSocket\<rparr>"

lemma small_features: "bf_toBuffer (BitField (Suc 0)) = [1]" "bf_toBuffer (BitField 3) = [3]" "bf_toBuffer (BitField 0) = []"
  by code_simp+

lemma sample_peer: "im_wf (init_of (sample_peer 1))" "im_wf (init_of (sample_peer 0))" "im_wf (init_of (sample_peer 3))"
  "pr_socket (sample_peer n) = Some newSocket" "\<not> pr_readingPaused (sample_peer n)" "pr_localFeatures (sample_peer n) = BitField n"
  "pr_localChains (sample_peer n) = []"
  by (simp_all add: sample_peer_def init_of_def newPeer_def im_wf_def small_features)

theorem single_feature_unchecked_witness:
  "\<exists>a' b' a''. peer_step sample_platform (SocketReady []) (sample_peer 1) = (Inr (), a')
    \<and> peer_step sample_platform (SocketReady []) (sample_peer 0) = (Inr (), b')
    \<and> peer_step sample_platform (SocketData 0 (written b')) a' = (Inr (), a'') \<and> pr_state a'' = PeerReady"
proof -
  note lib = library_init(1) [where e = Raw and deflate = "\<lambda>d. d" and inflate = Inr, OF refl]
  obtain a' where a: "peer_step sample_platform (SocketReady []) (sample_peer 1) = (Inr (), a')"
    using ready_step [OF lib [OF sample_peer(1)] sample_peer(4)] by blast
  obtain b' where b: "peer_step sample_platform (SocketReady []) (sample_peer 0) = (Inr (), b')"
    using ready_step [OF lib [OF sample_peer(2)] sample_peer(4)] by blast
  have k: "pr_localFeatures (sample_peer 1) = BitField (2 ^ 0)" by (simp add: sample_peer)
  from single_feature_unchecked [where deflate = "\<lambda>d. d" and inflate = Inr and now = 0, OF refl refl sample_peer(1,2,4,4,5) k _ sample_peer(6,7) a b]
  show ?thesis using a b by auto
qed

text \<open>A peer that asks for the features 0 and 1 refuses one that has none, which would accept it.\<close>

theorem init_decides_witness:
  "\<exists>a' b' a'' b''. peer_step sample_platform (SocketReady []) (sample_peer 3) = (Inr (), a')
    \<and> peer_step sample_platform (SocketReady []) (sample_peer 0) = (Inr (), b')
    \<and> peer_step sample_platform (SocketData 0 (written b')) a' = (Inr (), a'') \<and> pr_state a'' = PeerDisconnecting
    \<and> peer_step sample_platform (SocketData 0 (written a')) b' = (Inr (), b'') \<and> pr_state b'' = PeerReady"
proof -
  note lib = library_init(1) [where e = Raw and deflate = "\<lambda>d. d" and inflate = Inr, OF refl]
  obtain a' where a: "peer_step sample_platform (SocketReady []) (sample_peer 3) = (Inr (), a')"
    using ready_step [OF lib [OF sample_peer(3)] sample_peer(4)] by blast
  obtain b' where b: "peer_step sample_platform (SocketReady []) (sample_peer 0) = (Inr (), b')"
    using ready_step [OF lib [OF sample_peer(2)] sample_peer(4)] by blast
  have "(3 :: nat) \<noteq> 2 ^ k" for k :: nat by (cases k) (simp_all, presburger)
  then have "\<not> single_feature (sample_peer 3)" by (simp add: single_feature_def sample_peer)
  moreover have "\<not> features_known (sample_peer 3) (sample_peer 0)" "features_known (sample_peer 0) (sample_peer 3)"
    "common_chain (sample_peer 3) (sample_peer 0)"
    by (auto simp: features_known_def common_chain_def sample_peer intro!: exI [of _ 0])
  ultimately show ?thesis
    using init_decides [where deflate = "\<lambda>d. d" and inflate = Inr and now = 0 and now' = 0, OF refl refl sample_peer(3,2,4,4,5,5) a b] a b by auto
qed

text \<open>A platform that reads every message but one as the same init message.\<close>

definition small_platform :: "init_message \<Rightarrow> channel_update \<Rightarrow> peer_platform" where
  "small_platform i m = \<lparr>pl_deserialize = (\<lambda>raw. Inr (Some (if raw = [1] then MChannelUpdate m else MInit i))), pl_serialize = (\<lambda>_. Inr [])\<rparr>"

abbreviation no_features :: init_message where
  "no_features \<equiv> \<lparr>im_features = BitField 0, im_chainHashes = []\<rparr>"

abbreviation ready_events :: "peer_event list" where
  "ready_events \<equiv> [ConnectTo [2] ''host'' 9735, SocketReady [2], SocketData 5 [[0]]]"

lemma ready_run:
  "\<exists>p. peer_run (small_platform no_features sample_update) ready_events (newPeer (BitField 0) [] 20) = p
    \<and> pr_state p = PeerReady \<and> pr_isInitiator p \<and> pp_lastMessageReceived (pr_pingPong p) = None"
  by (simp add: peer_run_def possible_def socket_status_def set_status_def newPeer_def newPingPongState_def pr_connect_def pr_identify_def
      newSocket_def onSocketReady_def sendInitMessage_def initMessage_def small_platform_def receive_def onSocketReadable_def processRaw_def
      processPeerInitMessage_def expectInit_def features_of_def hasChain_def bf_flags_def flags_loop.simps pp_start_def peer_io)

theorem ping_timer_throws_witness:
  "\<exists>p p'. p = peer_run (small_platform no_features sample_update) ready_events (newPeer (BitField 0) [] 20)
    \<and> peer_step (small_platform no_features sample_update) RequestDisconnect p = (Inr (), p')
    \<and> fst (peer_step (small_platform no_features sample_update) (IntervalFires 7) p') = Inl (JsError ''Peer is not ready'')"
proof -
  obtain p where p: "p = peer_run (small_platform no_features sample_update) ready_events (newPeer (BitField 0) [] 20)"
    "pr_state p = PeerReady" "pp_lastMessageReceived (pr_pingPong p) = None" using ready_run by blast
  show ?thesis using ping_timer_throws [OF p(1,2), of 7] p(1,3) by auto
qed

theorem disconnect_lost_witness:
  "\<exists>p. p = peer_run (small_platform no_features sample_update) ready_events (newPeer (BitField 0) [] 20)
    \<and> pr_state (peer_run (small_platform no_features sample_update) [SocketCloses, RequestDisconnect, ReconnectFires, SocketReady [2]] p) = AwaitingPeerInit"
proof -
  obtain p where p: "p = peer_run (small_platform no_features sample_update) ready_events (newPeer (BitField 0) [] 20)"
    "pr_state p = PeerReady" "pr_isInitiator p" using ready_run by blast
  have "pl_serialize (small_platform no_features sample_update) (initMessage p) = Inr []" by (simp add: small_platform_def)
  from disconnect_lost [OF p this] show ?thesis using p(1) by blast
qed

theorem rejected_peer_heard_witness:
  "\<exists>p p'. pr_localFeatures p = BitField 3 \<and> pr_queue p = []
    \<and> peer_step (small_platform no_features sample_update) (SocketData 0 [[0], [1]]) p = (Inr (), p')
    \<and> pr_state p' = PeerDisconnecting \<and> pr_queue p' = [Some (MChannelUpdate sample_update)]"
proof -
  let ?E = "small_platform no_features sample_update"
  let ?s = "newSocket\<lparr>ps_status := SocketOpen\<rparr>"
  let ?p = "(sample_peer 3)\<lparr>pr_state := AwaitingPeerInit, pr_socket := Some ?s\<rparr>"
  have p: "pr_state ?p = AwaitingPeerInit" "pr_socket ?p = Some ?s" "ps_inbox ?s = []" "\<not> pr_readingPaused ?p" "pr_queue ?p = []"
    "pl_deserialize ?E [0] = Inr (Some (MInit no_features))" "pl_deserialize ?E [1] = Inr (Some (MChannelUpdate sample_update))"
    by (simp_all add: sample_peer_def newPeer_def newSocket_def small_platform_def)
  have "bf_flags (BitField 3) = [0, 1]" by (simp add: bf_flags_def flags_loop.simps)
  then have "\<not> acceptable (pr_localFeatures ?p) (pr_localChains ?p) (im_features no_features) (im_chainHashes no_features)"
    by (simp add: acceptable_def supports_def sample_peer)
  from rejected_peer_heard [OF p(1-4,6,7) this, of 0] show ?thesis using p(5) sample_peer(6) [of 3]
    by - (rule exI [of _ ?p], auto simp del: peer_step.simps)
qed

theorem pings_answered_witness:
  "\<exists>p p'. pr_state p = PeerReady \<and> peer_step sample_platform (SocketData 0 (map pg_bytes [\<lparr>pg_numPongBytes = 4, pg_ignored = []\<rparr>])) p = (Inr (), p')
    \<and> written p = [] \<and> written p' = [po_bytes \<lparr>po_ignored = [0, 0, 0, 0]\<rparr>]"
proof -
  let ?s = "newSocket\<lparr>ps_status := SocketOpen\<rparr>"
  let ?p = "(sample_peer 0)\<lparr>pr_state := PeerReady, pr_socket := Some ?s\<rparr>" and ?m = "\<lparr>pg_numPongBytes = 4, pg_ignored = []\<rparr>"
  have p: "\<forall>m\<in>set [?m]. pg_wf m" "pr_state ?p = PeerReady" "pr_socket ?p = Some ?s" "ps_inbox ?s = []" "\<not> pr_readingPaused ?p"
    "length (pr_queue ?p) + length [?m] < pr_highWaterMark ?p" "pp_pingsReceieved (pr_pingPong ?p) + length [?m] \<le> 10" "written ?p = []"
    by (simp_all add: sample_peer_def newPeer_def newSocket_def newPingPongState_def pg_wf_def written_def)
  have r: "replicate 4 (0 :: 8 word) = [0, 0, 0, 0]" by (simp add: numeral_eq_Suc)
  from pings_answered [where deflate = "\<lambda>d. d" and inflate = Inr and now = 0 and e = Raw, OF refl refl p(1-7)]
  show ?thesis using p(2,8) r by - (rule exI [of _ ?p], auto simp del: peer_step.simps)
qed

end
