(* ===== verification/EventQueue.thy ===== *)
theory EventQueue
  imports GossipFilter Block
begin

text \<open>
  \<^verbatim>\<open>packages/lightning/lib/LightningEvent.ts\<close>, \<^verbatim>\<open>LightningEventType.ts\<close>, \<^verbatim>\<open>LightningEventMuxer.ts\<close>,
  \<^verbatim>\<open>LightningEventQueue.ts\<close> and \<^verbatim>\<open>PeerManager.ts\<close>: all events of a node go through one queue, which
  hands one after the other to the managers of gossip and channels.  Peers are named by their identifiers;
  the handlers of the managers are arguments of the muxer.
\<close>

section \<open>Events and the muxer\<close>

datatype lightning_event = EvPeerReady string | EvPeerDisconnected string | EvPeerReadable string
  | EvPeerMessage string wire_message | EvBlockConnected block | EvBlockDisconnected block

datatype LightningEventType = TPeerReady | TPeerDisconnected | TPeerReadable | TPeerMessage | TBlockConnected | TBlockDisconnected

primrec event_type :: "lightning_event \<Rightarrow> LightningEventType" where
  "event_type (EvPeerReady p) = TPeerReady"
| "event_type (EvPeerDisconnected p) = TPeerDisconnected"
| "event_type (EvPeerReadable p) = TPeerReadable"
| "event_type (EvPeerMessage p m) = TPeerMessage"
| "event_type (EvBlockConnected b) = TBlockConnected"
| "event_type (EvBlockDisconnected b) = TBlockDisconnected"

text \<open>A handler of gossip returns the error of its result, if any.\<close>

record 'w event_handlers =
  eh_gossipPeerReady :: "string \<Rightarrow> ('w, unit) io"
  eh_gossipWireMessage :: "string \<Rightarrow> wire_message \<Rightarrow> ('w, WireErrorCode option) io"
  eh_acceptChannel :: "string \<Rightarrow> accept_channel \<Rightarrow> ('w, unit) io"
  eh_fundingSigned :: "string \<Rightarrow> funding_signed \<Rightarrow> ('w, unit) io"
  eh_channelReady :: "string \<Rightarrow> channel_ready \<Rightarrow> ('w, unit) io"
  eh_blockConnected :: "block \<Rightarrow> ('w, unit) io"

definition mux_onPeerReady :: "'w event_handlers \<Rightarrow> string \<Rightarrow> ('w, WireErrorCode option) io" where
  "mux_onPeerReady H p = then_io (eh_gossipPeerReady H p) (return_io None)"

definition is_gossip_type :: "wire_message \<Rightarrow> bool" where
  "is_gossip_type m \<longleftrightarrow> wm_type m \<in> {ChannelAnnouncement, ChannelUpdate, NodeAnnouncement, QueryChannelRange, ReplyChannelRange,
     QueryShortChannelIds, ReplyShortChannelIdsEnd}"

definition mux_onPeerMessage :: "'w event_handlers \<Rightarrow> string \<Rightarrow> wire_message \<Rightarrow> ('w, WireErrorCode option) io" where
  "mux_onPeerMessage H p m =
     (if is_gossip_type m then eh_gossipWireMessage H p m
      else then_io (case m of MAcceptChannel a \<Rightarrow> eh_acceptChannel H p a | MFundingSigned f \<Rightarrow> eh_fundingSigned H p f
        | MChannelReady r \<Rightarrow> eh_channelReady H p r | _ \<Rightarrow> return_io ()) (return_io None))"

definition mux_onBlockConnected :: "'w event_handlers \<Rightarrow> block \<Rightarrow> ('w, WireErrorCode option) io" where
  "mux_onBlockConnected H b = then_io (eh_blockConnected H b) (return_io None)"

definition mux_onEvent :: "'w event_handlers \<Rightarrow> lightning_event \<Rightarrow> ('w, WireErrorCode option) io" where
  "mux_onEvent H e = (case e of
     EvPeerReady p \<Rightarrow> mux_onPeerReady H p
   | EvPeerMessage p m \<Rightarrow> mux_onPeerMessage H p m
   | EvBlockConnected b \<Rightarrow> mux_onBlockConnected H b
   | _ \<Rightarrow> throw_io (JsError ''Unknown event type''))"

section \<open>The queue\<close>

text \<open>
  The event that is awaited is kept until its handler returns.  A peer has a list of what
  \<^verbatim>\<open>read\<close> returns next: \<open>None\<close> stands for \<^verbatim>\<open>undefined\<close>, which a peer pushes for a message of an unknown type.
  The events given to the muxer are logged.
\<close>

record 'w event_queue =
  eq_processing :: bool
  eq_queue :: "lightning_event list"
  eq_handling :: "lightning_event option"
  eq_inbox :: "string \<Rightarrow> wire_message option list"
  eq_world :: 'w
  eq_handled :: "lightning_event list"

definition newLightningEventQueue :: "'w \<Rightarrow> 'w event_queue" where
  "newLightningEventQueue w = \<lparr>eq_processing = False, eq_queue = [], eq_handling = None, eq_inbox = (\<lambda>_. []), eq_world = w, eq_handled = []\<rparr>"

text \<open>Readable events without a message are dropped one after the other; others are queued again.\<close>

primrec nextEvent :: "lightning_event list \<Rightarrow> (string \<Rightarrow> wire_message option list) \<Rightarrow>
    (string \<Rightarrow> wire_message option list) \<times> (lightning_event \<times> lightning_event list) option" where
  "nextEvent [] inbox = (inbox, None)"
| "nextEvent (e # es) inbox = (case e of
     EvPeerReadable p \<Rightarrow> (case inbox p of
         [] \<Rightarrow> nextEvent es inbox
       | None # ms \<Rightarrow> nextEvent es (inbox(p := ms))
       | Some m # ms \<Rightarrow> (inbox(p := ms), Some (EvPeerMessage p m, es @ [e])))
   | _ \<Rightarrow> (inbox, Some (e, es)))"

definition process :: "'w event_queue \<Rightarrow> 'w event_queue" where
  "process q = (if eq_processing q then q
     else case nextEvent (eq_queue q) (eq_inbox q) of
       (inbox, None) \<Rightarrow> q\<lparr>eq_queue := [], eq_inbox := inbox\<rparr>
     | (inbox, Some (e, es)) \<Rightarrow> q\<lparr>eq_processing := True, eq_queue := es, eq_inbox := inbox, eq_handling := Some e\<rparr>)"

definition eq_push :: "lightning_event \<Rightarrow> 'w event_queue \<Rightarrow> 'w event_queue" where
  "eq_push e q = process (q\<lparr>eq_queue := eq_queue q @ [e]\<rparr>)"

text \<open>The end of the handler: after an exception nothing else is done.\<close>

definition handlerReturns :: "'w event_handlers \<Rightarrow> 'w event_queue \<Rightarrow> 'w event_queue" where
  "handlerReturns H q = (case eq_handling q of None \<Rightarrow> q
     | Some e \<Rightarrow> (case mux_onEvent H e (eq_world q) of
         (Inl err, w) \<Rightarrow> q\<lparr>eq_handling := None, eq_world := w, eq_handled := eq_handled q @ [e]\<rparr>
       | (Inr _, w) \<Rightarrow> process (q\<lparr>eq_processing := False, eq_handling := None, eq_world := w, eq_handled := eq_handled q @ [e]\<rparr>)))"

text \<open>
  The events of a peer, as \<^verbatim>\<open>PeerManager\<close> passes them on.  A stream signals once for all the
  messages that have got into its buffer, so there may be one readable event for many of them: the others are read
  because the event is queued again after each one.
\<close>

datatype node_event = PeerGetsReady string | PeerReads string "wire_message option list" | PeerCloses string | BlockArrives block | HandlerReturns

primrec node_step :: "'w event_handlers \<Rightarrow> node_event \<Rightarrow> 'w event_queue \<Rightarrow> 'w event_queue" where
  "node_step H (PeerGetsReady p) q = eq_push (EvPeerReady p) q"
| "node_step H (PeerReads p ms) q = eq_push (EvPeerReadable p) (q\<lparr>eq_inbox := (eq_inbox q)(p := eq_inbox q p @ ms)\<rparr>)"
| "node_step H (PeerCloses p) q = eq_push (EvPeerDisconnected p) q"
| "node_step H (BlockArrives b) q = eq_push (EvBlockConnected b) q"
| "node_step H HandlerReturns q = handlerReturns H q"

definition node_run :: "'w event_handlers \<Rightarrow> node_event list \<Rightarrow> 'w event_queue \<Rightarrow> 'w event_queue" where
  "node_run H = fold (node_step H)"

section \<open>A peer that disconnects\<close>

definition stuck :: "'w event_queue \<Rightarrow> bool" where
  "stuck q \<longleftrightarrow> eq_processing q \<and> eq_handling q = None"

lemma stuck_step: "stuck q \<Longrightarrow> stuck (node_step H e q) \<and> eq_handled (node_step H e q) = eq_handled q \<and> eq_world (node_step H e q) = eq_world q"
  by (cases e) (simp_all add: stuck_def eq_push_def process_def handlerReturns_def)

lemma stuck_run: "stuck q \<Longrightarrow> eq_handled (node_run H es q) = eq_handled q \<and> eq_world (node_run H es q) = eq_world q"
  unfolding node_run_def by (induction es arbitrary: q) (simp_all add: stuck_step)

text \<open>
  C21: When a peer disconnects, the queue stops for good: the muxer throws for the event, the queue stays marked as
  processing, and whatever happens from then on, no event is handled any more.
\<close>

theorem disconnect_stops_queue:
  assumes "\<not> eq_processing q" "eq_queue q = []" "eq_handling q = None"
  shows "eq_handled (node_run H (PeerCloses p # HandlerReturns # es) q) = eq_handled q @ [EvPeerDisconnected p]
    \<and> eq_world (node_run H (PeerCloses p # HandlerReturns # es) q) = eq_world q"
proof -
  let ?q = "node_step H HandlerReturns (node_step H (PeerCloses p) q)"
  have q: "stuck ?q" "eq_handled ?q = eq_handled q @ [EvPeerDisconnected p]" "eq_world ?q = eq_world q"
    using assms by (simp_all add: stuck_def eq_push_def process_def handlerReturns_def mux_onEvent_def io_simps)
  have "node_run H (PeerCloses p # HandlerReturns # es) q = node_run H es ?q" by (simp add: node_run_def)
  then show ?thesis using stuck_run [OF q(1), of H es] q(2,3) by simp
qed

definition quiet_handlers :: "nat event_handlers" where
  "quiet_handlers = \<lparr>eh_gossipPeerReady = (\<lambda>_. return_io ()), eh_gossipWireMessage = (\<lambda>_ _. return_io None),
     eh_acceptChannel = (\<lambda>_ _. return_io ()), eh_fundingSigned = (\<lambda>_ _. return_io ()), eh_channelReady = (\<lambda>_ _. return_io ()),
     eh_blockConnected = (\<lambda>_. update_io Suc)\<rparr>"

theorem disconnect_stops_queue_witness:
  "eq_handled (node_run quiet_handlers [PeerCloses ''p'', HandlerReturns, PeerGetsReady ''q'', HandlerReturns] (newLightningEventQueue 0))
    = [EvPeerDisconnected ''p'']"
proof -
  let ?q = "newLightningEventQueue (0 :: nat)"
  have q: "\<not> eq_processing ?q" "eq_queue ?q = []" "eq_handling ?q = None" "eq_handled ?q = []"
    by (simp_all add: newLightningEventQueue_def)
  from disconnect_stops_queue [OF q(1-3), of quiet_handlers "''p''" "[PeerGetsReady ''q'', HandlerReturns]"] show ?thesis using q(4) by simp
qed

end
