(* ===== verification/EventQueueFacts.thy ===== *)
theory EventQueueFacts
  imports EventQueue
begin

text \<open>
  The queue hands over every event once and in order, and it empties if no handler throws; a message of
  an unknown type makes it forget the messages behind it.
\<close>

section \<open>What arrives and what is handled\<close>

definition is_other :: "lightning_event \<Rightarrow> bool" where
  "is_other e \<longleftrightarrow> event_type e \<notin> {TPeerReadable, TPeerMessage}"

lemma is_other_simps [simp]:
  "\<not> is_other (EvPeerReadable p)" "\<not> is_other (EvPeerMessage p m)" "is_other (EvPeerReady p)" "is_other (EvPeerDisconnected p)"
  "is_other (EvBlockConnected b)" "is_other (EvBlockDisconnected b)"
  by (simp_all add: is_other_def)

definition messages_of :: "string \<Rightarrow> lightning_event list \<Rightarrow> wire_message list" where
  "messages_of p es = concat (map (\<lambda>e. case e of EvPeerMessage p' m \<Rightarrow> if p' = p then [m] else [] | _ \<Rightarrow> []) es)"

definition known :: "wire_message option list \<Rightarrow> wire_message list" where
  "known ms = concat (map (\<lambda>m. case m of None \<Rightarrow> [] | Some m \<Rightarrow> [m]) ms)"

definition arriving :: "node_event list \<Rightarrow> lightning_event list" where
  "arriving ns = concat (map (\<lambda>n. case n of PeerGetsReady p \<Rightarrow> [EvPeerReady p] | PeerCloses p \<Rightarrow> [EvPeerDisconnected p]
     | BlockArrives b \<Rightarrow> [EvBlockConnected b] | _ \<Rightarrow> []) ns)"

definition receiving :: "string \<Rightarrow> node_event list \<Rightarrow> wire_message option list" where
  "receiving p ns = concat (map (\<lambda>n. case n of PeerReads p' ms \<Rightarrow> if p' = p then ms else [] | _ \<Rightarrow> []) ns)"

lemmas event_lists = messages_of_def known_def arriving_def receiving_def

lemma event_list_append:
  "messages_of p (xs @ ys) = messages_of p xs @ messages_of p ys" "known (as @ bs) = known as @ known bs"
  "arriving (ns @ ks) = arriving ns @ arriving ks" "receiving p (ns @ ks) = receiving p ns @ receiving p ks"
  by (simp_all add: event_lists)

lemma event_list_Nil [simp]: "messages_of p [] = []" "known [] = []" "arriving [] = []" "receiving p [] = []"
  by (simp_all add: event_lists)

definition taken :: "'w event_queue \<Rightarrow> lightning_event list" where
  "taken q = eq_handled q @ (case eq_handling q of None \<Rightarrow> [] | Some e \<Rightarrow> [e])"

definition conserves :: "lightning_event list \<Rightarrow> (string \<Rightarrow> wire_message list) \<Rightarrow> 'w event_queue \<Rightarrow> bool" where
  "conserves others messages q \<longleftrightarrow> filter is_other (taken q @ eq_queue q) = others
     \<and> (\<forall>p. messages_of p (taken q) @ known (eq_inbox q p) = messages p) \<and> (\<forall>e\<in>set (eq_queue q). event_type e \<noteq> TPeerMessage)"

lemma nextEvent_conserves:
  "nextEvent es inbox = (inbox', r) \<Longrightarrow> \<forall>e\<in>set es. event_type e \<noteq> TPeerMessage \<Longrightarrow>
    filter is_other (case r of None \<Rightarrow> [] | Some (e, es') \<Rightarrow> e # es') = filter is_other es
    \<and> (\<forall>p. messages_of p (case r of None \<Rightarrow> [] | Some (e, es') \<Rightarrow> [e]) @ known (inbox' p) = known (inbox p))
    \<and> (case r of None \<Rightarrow> True | Some (e, es') \<Rightarrow> \<forall>x\<in>set es'. event_type x \<noteq> TPeerMessage)"
proof (induction es arbitrary: inbox)
  case (Cons e es)
  show ?case
  proof (cases e)
    case (EvPeerReadable p)
    show ?thesis
    proof (cases "inbox p")
      case Nil
      then show ?thesis using Cons.IH [of inbox] Cons.prems EvPeerReadable by (simp add: is_other_def)
    next
      case (Cons m ms)
      then show ?thesis
      proof (cases m)
        case None
        have k: "known ((inbox(p := ms)) q) = known (inbox q)" for q
          using Cons None by (simp add: known_def)
        have n: "nextEvent es (inbox(p := ms)) = (inbox', r)" "\<forall>e\<in>set es. event_type e \<noteq> TPeerMessage"
          using Cons.prems Cons None EvPeerReadable by simp_all
        show ?thesis using Cons.IH [OF n] unfolding k by (simp add: EvPeerReadable is_other_def)
      next
        case (Some m')
        then show ?thesis using Cons.prems Cons EvPeerReadable by (auto simp: is_other_def event_lists)
      qed
    qed
  qed (use Cons.prems in \<open>auto simp: is_other_def event_lists\<close>)
qed (simp add: event_lists)

lemma process_conserves: "conserves others messages q \<Longrightarrow> eq_handling q = None \<or> eq_processing q \<Longrightarrow> conserves others messages (process q)"
proof (cases "eq_processing q")
  case False
  assume q: "conserves others messages q" "eq_handling q = None \<or> eq_processing q"
  obtain inbox r where n: "nextEvent (eq_queue q) (eq_inbox q) = (inbox, r)" by (cases "nextEvent (eq_queue q) (eq_inbox q)")
  have c: "filter is_other (case r of None \<Rightarrow> [] | Some (e, es') \<Rightarrow> e # es') = filter is_other (eq_queue q)"
    "messages_of p (case r of None \<Rightarrow> [] | Some (e, es') \<Rightarrow> [e]) @ known (inbox p) = known (eq_inbox q p)"
    "case r of None \<Rightarrow> True | Some (e, es') \<Rightarrow> \<forall>x\<in>set es'. event_type x \<noteq> TPeerMessage" for p
    using nextEvent_conserves [OF n] q(1) by (auto simp: conserves_def)
  show ?thesis
  proof (cases r)
    case None
    then show ?thesis using q n c False by (simp add: process_def conserves_def taken_def event_list_append)
  next
    case (Some x)
    then show ?thesis using q n c False
      by (cases x) (auto simp: process_def conserves_def taken_def event_list_append)
  qed
qed (simp add: process_def)

text \<open>The state of the flag: a handler is awaited, or nothing is processed, or the queue is stuck.\<close>

definition flag_ok :: "'w event_queue \<Rightarrow> bool" where
  "flag_ok q \<longleftrightarrow> (eq_handling q \<noteq> None \<longrightarrow> eq_processing q) \<and> (\<not> eq_processing q \<longrightarrow> eq_queue q = [])"

lemma flag_process: "eq_handling q = None \<or> eq_processing q \<Longrightarrow> (eq_processing q \<longrightarrow> flag_ok q) \<Longrightarrow> flag_ok (process q)"
  by (auto simp: flag_ok_def process_def split: prod.split option.split)

lemma conserves_push:
  assumes "conserves others messages q" "flag_ok q" "event_type e \<noteq> TPeerMessage"
  shows "conserves (others @ (if is_other e then [e] else [])) messages (eq_push e q)" "flag_ok (eq_push e q)"
proof -
  have "conserves (others @ (if is_other e then [e] else [])) messages (q\<lparr>eq_queue := eq_queue q @ [e]\<rparr>)"
    using assms by (auto simp: conserves_def taken_def)
  then show "conserves (others @ (if is_other e then [e] else [])) messages (eq_push e q)"
    unfolding eq_push_def by (rule process_conserves) (use assms(2) in \<open>auto simp: flag_ok_def\<close>)
  show "flag_ok (eq_push e q)" unfolding eq_push_def by (rule flag_process) (use assms(2) in \<open>auto simp: flag_ok_def\<close>)
qed

lemma conserves_returns:
  assumes "conserves others messages q" "flag_ok q"
  shows "conserves others messages (handlerReturns H q)" "flag_ok (handlerReturns H q)"
proof -
  have c: "conserves others messages (q\<lparr>eq_handling := None, eq_world := w, eq_handled := eq_handled q @ [e]\<rparr>)"
    "conserves others messages (q\<lparr>eq_processing := False, eq_handling := None, eq_world := w, eq_handled := eq_handled q @ [e]\<rparr>)"
    if "eq_handling q = Some e" for e w
    using assms(1) that by (simp_all add: conserves_def taken_def)
  show "conserves others messages (handlerReturns H q)"
  proof (cases "eq_handling q")
    case (Some e)
    then show ?thesis using c [OF Some]
      by (auto simp: handlerReturns_def intro: process_conserves split: prod.split sum.split)
  qed (simp add: handlerReturns_def assms(1))
  show "flag_ok (handlerReturns H q)"
  proof (cases "eq_handling q")
    case (Some e)
    have "flag_ok (process (q\<lparr>eq_processing := False, eq_handling := None, eq_world := w, eq_handled := eq_handled q @ [e]\<rparr>))" for w
      by (rule flag_process) simp_all
    then show ?thesis using Some assms(2)
      by (auto simp: handlerReturns_def split: prod.split sum.split) (simp add: flag_ok_def)
  qed (simp add: handlerReturns_def assms(2))
qed

lemma conserves_step:
  assumes "conserves others messages q" "flag_ok q"
  shows "conserves (others @ arriving [n]) (\<lambda>p. messages p @ known (receiving p [n])) (node_step H n q) \<and> flag_ok (node_step H n q)"
proof (cases n)
  case (PeerReads p ms)
  let ?q = "q\<lparr>eq_inbox := (eq_inbox q)(p := eq_inbox q p @ ms)\<rparr>"
  have r: "receiving q [n] = (if p = q then ms else [])" for q using PeerReads by (simp add: receiving_def)
  have "conserves others (\<lambda>p. messages p @ known (receiving p [n])) ?q"
    using assms(1) unfolding conserves_def taken_def r
    by (auto simp: event_list_append simp flip: append_assoc)
  moreover have "flag_ok ?q" using assms(2) by (simp add: flag_ok_def)
  ultimately show ?thesis using PeerReads conserves_push [of others _ ?q "EvPeerReadable p"]
    by (simp add: is_other_def arriving_def)
next
  case HandlerReturns
  then show ?thesis using conserves_returns [OF assms] by (simp add: arriving_def receiving_def known_def)
next
  case (PeerGetsReady p)
  then show ?thesis using conserves_push [OF assms, of "EvPeerReady p"] by (simp add: is_other_def arriving_def receiving_def known_def)
next
  case (PeerCloses p)
  then show ?thesis using conserves_push [OF assms, of "EvPeerDisconnected p"] by (simp add: is_other_def arriving_def receiving_def known_def)
next
  case (BlockArrives b)
  then show ?thesis using conserves_push [OF assms, of "EvBlockConnected b"] by (simp add: is_other_def arriving_def receiving_def known_def)
qed

lemma conserves_run:
  "conserves others messages q \<Longrightarrow> flag_ok q \<Longrightarrow>
   conserves (others @ arriving ns) (\<lambda>p. messages p @ known (receiving p ns)) (node_run H ns q) \<and> flag_ok (node_run H ns q)"
  unfolding node_run_def
proof (induction ns arbitrary: others messages q)
  case (Cons n ns)
  have l: "arriving (n # ns) = arriving [n] @ arriving ns" "receiving p (n # ns) = receiving p [n] @ receiving p ns" for p
    by (simp_all add: event_lists)
  show ?case using Cons.IH [of "others @ arriving [n]" "\<lambda>p. messages p @ known (receiving p [n])" "node_step H n q"]
      conserves_step [OF Cons.prems, of n H] by (simp add: l event_list_append)
qed simp

lemma conserves_new: "conserves [] (\<lambda>_. []) (newLightningEventQueue w)" "flag_ok (newLightningEventQueue w)"
  by (simp_all add: conserves_def newLightningEventQueue_def taken_def flag_ok_def)

text \<open>
  Whatever happens in whichever order, nothing is lost or handled twice: the events that are not about messages are
  handled in the order in which they came, and so are the messages of each peer, up to those still waiting.
\<close>

theorem queue_keeps_order:
  "\<exists>rest. arriving ns = filter is_other (eq_handled (node_run H ns (newLightningEventQueue w))) @ rest
    \<and> (\<forall>p. \<exists>waiting. known (receiving p ns) = messages_of p (eq_handled (node_run H ns (newLightningEventQueue w))) @ waiting)"
proof -
  let ?q = "node_run H ns (newLightningEventQueue w)"
  have c: "conserves (arriving ns) (\<lambda>p. known (receiving p ns)) ?q"
    using conserves_run [OF conserves_new, of ns H w] by simp
  let ?h = "case eq_handling ?q of None \<Rightarrow> [] | Some e \<Rightarrow> [e]"
  have "arriving ns = filter is_other (eq_handled ?q) @ filter is_other (?h @ eq_queue ?q)"
    using c by (auto simp: conserves_def taken_def)
  moreover have "known (receiving p ns) = messages_of p (eq_handled ?q) @ messages_of p ?h @ known (eq_inbox ?q p)" for p
    using c by (auto simp: conserves_def taken_def event_list_append)
  ultimately show ?thesis by blast
qed

section \<open>The queue empties\<close>

definition handles :: "'w event_handlers \<Rightarrow> bool" where
  "handles H \<longleftrightarrow> (\<forall>e w. event_type e \<notin> {TPeerReadable, TPeerDisconnected, TBlockDisconnected} \<longrightarrow> (\<exists>r w'. mux_onEvent H e w = (Inr r, w')))"

text \<open>What is still to do: the events, the messages of the peers in a list that has every readable one, and the handler.\<close>

definition workload :: "string list \<Rightarrow> 'w event_queue \<Rightarrow> nat" where
  "workload ps q = length (filter is_other (eq_queue q)) + sum_list (map (\<lambda>p. length (eq_inbox q p)) ps) + (if eq_handling q = None then 0 else 1)"

definition awake :: "string list \<Rightarrow> 'w event_queue \<Rightarrow> bool" where
  "awake ps q \<longleftrightarrow> flag_ok q \<and> (eq_processing q \<longrightarrow> eq_handling q \<noteq> None) \<and> distinct ps
     \<and> (\<forall>p. None \<notin> set (eq_inbox q p)) \<and> (\<forall>p. eq_inbox q p \<noteq> [] \<longrightarrow> EvPeerReadable p \<in> set (eq_queue q) \<and> p \<in> set ps)
     \<and> (\<forall>e\<in>set (eq_queue q). event_type e \<notin> {TPeerDisconnected, TBlockDisconnected, TPeerMessage})
     \<and> (\<forall>e. eq_handling q = Some e \<longrightarrow> event_type e \<notin> {TPeerReadable, TPeerDisconnected, TBlockDisconnected})"

text \<open>Before the next event is picked.\<close>

definition picking :: "string list \<Rightarrow> 'w event_queue \<Rightarrow> bool" where
  "picking ps q \<longleftrightarrow> \<not> eq_processing q \<and> eq_handling q = None \<and> distinct ps
     \<and> (\<forall>p. None \<notin> set (eq_inbox q p)) \<and> (\<forall>p. eq_inbox q p \<noteq> [] \<longrightarrow> EvPeerReadable p \<in> set (eq_queue q) \<and> p \<in> set ps)
     \<and> (\<forall>e\<in>set (eq_queue q). event_type e \<notin> {TPeerDisconnected, TBlockDisconnected, TPeerMessage})"

lemma sum_list_changed:
  "p \<in> set ps \<Longrightarrow> distinct ps \<Longrightarrow>
   sum_list (map (\<lambda>q. length ((f(p := ms)) q)) ps) + length (f p) = sum_list (map (\<lambda>q. length (f q)) ps) + length ms"
proof (induction ps)
  case (Cons q ps)
  show ?case
  proof (cases "q = p")
    case True
    have "(\<Sum>q\<leftarrow>ps. length ((f(p := ms)) q)) = (\<Sum>q\<leftarrow>ps. length (f q))"
      by (rule arg_cong [where f = sum_list], rule map_cong) (use True Cons.prems(2) in auto)
    moreover have "length ((f(p := ms)) q) + length (f p) = length (f q) + length ms" using True by simp
    ultimately show ?thesis by (simp del: fun_upd_apply)
  next
    case False
    then show ?thesis using Cons by simp
  qed
qed simp

lemma nextEvent_work:
  assumes "\<forall>p. None \<notin> set (inbox p)" "distinct ps" "\<forall>p. inbox p \<noteq> [] \<longrightarrow> p \<in> set ps" "\<forall>e\<in>set es. event_type e \<noteq> TPeerMessage"
  shows "nextEvent es inbox = (inbox', r) \<Longrightarrow> case r of
      None \<Rightarrow> inbox' = inbox \<and> filter is_other es = [] \<and> (\<forall>p. EvPeerReadable p \<in> set es \<longrightarrow> inbox p = [])
    | Some (e, es') \<Rightarrow> event_type e \<noteq> TPeerReadable \<and> (\<forall>p. inbox' p \<noteq> [] \<longrightarrow> inbox p \<noteq> [])
        \<and> (\<forall>p. set (inbox' p) \<subseteq> set (inbox p)) \<and> (\<forall>p. inbox p \<noteq> [] \<and> EvPeerReadable p \<in> set es \<longrightarrow> EvPeerReadable p \<in> set es')
        \<and> set es' \<subseteq> set es \<and> (event_type e = TPeerMessage \<or> e \<in> set es)
        \<and> length (filter is_other es') + sum_list (map (\<lambda>p. length (inbox' p)) ps) + 1
            = length (filter is_other es) + sum_list (map (\<lambda>p. length (inbox p)) ps)"
  using assms(4)
proof (induction es)
  case (Cons e es)
  show ?case
  proof (cases "\<exists>p. e = EvPeerReadable p")
    case True
    then obtain p where p: "e = EvPeerReadable p" ..
    show ?thesis
    proof (cases "inbox p")
      case Nil
      then have "nextEvent es inbox = (inbox', r)" using Cons.prems(1) p by simp
      then show ?thesis using Cons.IH Cons.prems(2) Nil p
        by (auto split: option.splits)
    next
      case (Cons m ms)
      then obtain m' where m: "m = Some m'" using assms(1) by (metis list.set_intros(1) not_None_eq)
      have ps: "p \<in> set ps" using assms(3) Cons by simp
      have sum: "sum_list (map (\<lambda>q. length ((inbox(p := ms)) q)) ps) + 1 = sum_list (map (\<lambda>q. length (inbox q)) ps)"
        using sum_list_changed [OF ps assms(2), of inbox ms] Cons by (simp del: fun_upd_apply)
      have r: "inbox' = inbox(p := ms)" "r = Some (EvPeerMessage p m', es @ [e])"
        using Cons.prems(1) p Cons m by auto
      show ?thesis using sum Cons unfolding r by (auto simp: p)
    qed
  next
    case False
    then have "inbox' = inbox" "r = Some (e, es)" using Cons.prems(1) by (cases e; simp)+
    moreover have "is_other e" using False Cons.prems(2) by (cases e) (auto simp: is_other_def)
    ultimately show ?thesis using False by (cases e) (auto simp: is_other_def)
  qed
qed simp

lemma empty_work: "awake ps q \<Longrightarrow> eq_handling q = None \<Longrightarrow> eq_queue q = [] \<and> (\<forall>p. eq_inbox q p = []) \<and> \<not> eq_processing q \<and> workload ps q = 0"
  by (auto simp: awake_def flag_ok_def workload_def)

lemma process_awake:
  assumes "picking ps q"
  shows "awake ps (process q) \<and> workload ps (process q) = workload ps q"
proof -
  note q = assms [unfolded picking_def]
  obtain inbox r where n: "nextEvent (eq_queue q) (eq_inbox q) = (inbox, r)" by (cases "nextEvent (eq_queue q) (eq_inbox q)")
  have w: "case r of
      None \<Rightarrow> inbox = eq_inbox q \<and> filter is_other (eq_queue q) = [] \<and> (\<forall>p. EvPeerReadable p \<in> set (eq_queue q) \<longrightarrow> eq_inbox q p = [])
    | Some (e, es') \<Rightarrow> event_type e \<noteq> TPeerReadable \<and> (\<forall>p. inbox p \<noteq> [] \<longrightarrow> eq_inbox q p \<noteq> [])
        \<and> (\<forall>p. set (inbox p) \<subseteq> set (eq_inbox q p)) \<and> (\<forall>p. eq_inbox q p \<noteq> [] \<and> EvPeerReadable p \<in> set (eq_queue q) \<longrightarrow> EvPeerReadable p \<in> set es')
        \<and> set es' \<subseteq> set (eq_queue q) \<and> (event_type e = TPeerMessage \<or> e \<in> set (eq_queue q))
        \<and> length (filter is_other es') + sum_list (map (\<lambda>p. length (inbox p)) ps) + 1
            = length (filter is_other (eq_queue q)) + sum_list (map (\<lambda>p. length (eq_inbox q p)) ps)"
    by (rule nextEvent_work [OF _ _ _ _ n]) (use q in auto)
  show ?thesis
  proof (cases r)
    case None
    then have i: "inbox = eq_inbox q" "\<forall>p. eq_inbox q p = []" "filter is_other (eq_queue q) = []" using w q by auto
    then show ?thesis using q n None by (simp add: process_def awake_def flag_ok_def workload_def)
  next
    case (Some x)
    obtain e es' where x: "x = (e, es')" by (cases x)
    have p: "process q = q\<lparr>eq_processing := True, eq_queue := es', eq_inbox := inbox, eq_handling := Some e\<rparr>"
      using q n Some x by (simp add: process_def)
    have w': "event_type e \<noteq> TPeerReadable" "\<forall>p. inbox p \<noteq> [] \<longrightarrow> eq_inbox q p \<noteq> []" "\<forall>p. set (inbox p) \<subseteq> set (eq_inbox q p)"
      "\<forall>p. eq_inbox q p \<noteq> [] \<and> EvPeerReadable p \<in> set (eq_queue q) \<longrightarrow> EvPeerReadable p \<in> set es'" "set es' \<subseteq> set (eq_queue q)"
      "event_type e = TPeerMessage \<or> e \<in> set (eq_queue q)"
      "length (filter is_other es') + sum_list (map (\<lambda>p. length (inbox p)) ps) + 1
        = length (filter is_other (eq_queue q)) + sum_list (map (\<lambda>p. length (eq_inbox q p)) ps)"
      using w Some x by auto
    have "event_type e \<notin> {TPeerReadable, TPeerDisconnected, TBlockDisconnected}" using w'(1,6) q by auto
    moreover have "\<forall>p. inbox p \<noteq> [] \<longrightarrow> EvPeerReadable p \<in> set es' \<and> p \<in> set ps" using w'(2,4) q by blast
    moreover have "\<forall>p. None \<notin> set (inbox p)" using w'(3) q by blast
    moreover have "\<forall>e\<in>set es'. event_type e \<notin> {TPeerDisconnected, TBlockDisconnected, TPeerMessage}" using w'(5) q by blast
    ultimately have "awake ps (process q)" using q unfolding p by (simp add: awake_def flag_ok_def)
    moreover have "workload ps (process q) = workload ps q" unfolding p using w'(7) q by (simp add: workload_def)
    ultimately show ?thesis ..
  qed
qed

lemma returns_awake:
  assumes "awake ps q" "handles H"
  shows "awake ps (handlerReturns H q) \<and> workload ps (handlerReturns H q) = workload ps q - 1"
proof (cases "eq_handling q")
  case None
  then show ?thesis using assms(1) empty_work [OF assms(1) None] by (simp add: handlerReturns_def)
next
  case (Some e)
  then have "event_type e \<notin> {TPeerReadable, TPeerDisconnected, TBlockDisconnected}" using assms(1) by (auto simp: awake_def)
  then obtain r w where m: "mux_onEvent H e (eq_world q) = (Inr r, w)" using assms(2) unfolding handles_def by blast
  let ?q = "q\<lparr>eq_processing := False, eq_handling := None, eq_world := w, eq_handled := eq_handled q @ [e]\<rparr>"
  have "picking ps ?q" using assms(1) unfolding awake_def picking_def by simp
  moreover have "workload ps ?q = workload ps q - 1" using Some by (simp add: workload_def)
  moreover have "handlerReturns H q = process ?q" using Some m by (simp add: handlerReturns_def)
  ultimately show ?thesis using process_awake [of ps ?q] by simp
qed

lemma push_awake:
  assumes "awake ps q" "event_type e \<notin> {TPeerDisconnected, TBlockDisconnected, TPeerMessage}"
    and "\<forall>p. None \<notin> set (inbox p)" "\<forall>p. inbox p \<noteq> [] \<longrightarrow> EvPeerReadable p \<in> set (eq_queue q @ [e]) \<and> p \<in> set ps"
  shows "awake ps (eq_push e (q\<lparr>eq_inbox := inbox\<rparr>))
    \<and> workload ps (eq_push e (q\<lparr>eq_inbox := inbox\<rparr>)) = workload ps (q\<lparr>eq_inbox := inbox, eq_queue := eq_queue q @ [e]\<rparr>)"
proof (cases "eq_processing q")
  case True
  then have p: "eq_push e (q\<lparr>eq_inbox := inbox\<rparr>) = q\<lparr>eq_inbox := inbox, eq_queue := eq_queue q @ [e]\<rparr>"
    by (simp add: eq_push_def process_def)
  show ?thesis unfolding p using assms True by (auto simp: awake_def flag_ok_def)
next
  case False
  then have h: "eq_handling q = None" using assms(1) by (auto simp: awake_def flag_ok_def)
  let ?q = "q\<lparr>eq_inbox := inbox, eq_queue := eq_queue q @ [e]\<rparr>"
  have "picking ps ?q" using assms False h unfolding awake_def picking_def by auto
  from process_awake [OF this] show ?thesis by (simp add: eq_push_def)
qed

definition calm :: "string list \<Rightarrow> node_event \<Rightarrow> bool" where
  "calm ps n \<longleftrightarrow> (case n of PeerCloses p \<Rightarrow> False | PeerReads p ms \<Rightarrow> None \<notin> set ms \<and> p \<in> set ps | _ \<Rightarrow> True)"

text \<open>The handlers that an event needs.\<close>

definition handlers_of :: "node_event \<Rightarrow> nat" where
  "handlers_of n = (case n of PeerReads p ms \<Rightarrow> length ms | HandlerReturns \<Rightarrow> 0 | _ \<Rightarrow> 1)"

lemma calm_step:
  assumes "awake ps q" "handles H" "calm ps n"
  shows "awake ps (node_step H n q) \<and> workload ps (node_step H n q) \<le> workload ps q + handlers_of n"
proof (cases n)
  case (PeerReads p ms)
  let ?f = "(eq_inbox q)(p := eq_inbox q p @ ms)"
  have p: "p \<in> set ps" "None \<notin> set ms" "distinct ps" using assms(1,3) PeerReads by (auto simp: calm_def awake_def)
  have "(\<Sum>q\<leftarrow>ps. length (?f q)) = (\<Sum>p\<leftarrow>ps. length (eq_inbox q p)) + length ms"
    using sum_list_changed [OF p(1,3), of "eq_inbox q" "eq_inbox q p @ ms"] by (simp del: fun_upd_apply)
  then have w: "workload ps (q\<lparr>eq_inbox := ?f, eq_queue := eq_queue q @ [EvPeerReadable p]\<rparr>) = workload ps q + length ms"
    by (simp add: workload_def del: fun_upd_apply)
  have "\<forall>p. None \<notin> set (?f p)" "\<forall>p'. ?f p' \<noteq> [] \<longrightarrow> EvPeerReadable p' \<in> set (eq_queue q @ [EvPeerReadable p]) \<and> p' \<in> set ps"
    using assms(1) p(1,2) by (auto simp: awake_def)
  from push_awake [OF assms(1) _ this] show ?thesis using w PeerReads by (simp add: handlers_of_def del: fun_upd_apply)
next
  case HandlerReturns
  then show ?thesis using returns_awake [OF assms(1,2)] by simp
next
  case (PeerGetsReady p)
  then show ?thesis using push_awake [OF assms(1), of "EvPeerReady p" "eq_inbox q"] assms(1) by (simp add: awake_def workload_def handlers_of_def)
next
  case (BlockArrives b)
  then show ?thesis using push_awake [OF assms(1), of "EvBlockConnected b" "eq_inbox q"] assms(1) by (simp add: awake_def workload_def handlers_of_def)
qed (use assms(3) in \<open>simp add: calm_def\<close>)

lemma calm_run: "awake ps q \<Longrightarrow> handles H \<Longrightarrow> \<forall>n\<in>set ns. calm ps n \<Longrightarrow>
   awake ps (node_run H ns q) \<and> workload ps (node_run H ns q) \<le> workload ps q + sum_list (map handlers_of ns)"
  unfolding node_run_def
proof (induction ns arbitrary: q)
  case (Cons n ns)
  have s: "awake ps (node_step H n q)" "workload ps (node_step H n q) \<le> workload ps q + handlers_of n"
    using calm_step [OF Cons.prems(1,2)] Cons.prems(3) by auto
  then show ?case using Cons.IH [OF s(1) Cons.prems(2)] Cons.prems(3) by fastforce
qed simp

lemma drain: "awake ps q \<Longrightarrow> handles H \<Longrightarrow> workload ps q \<le> k \<Longrightarrow>
   awake ps (node_run H (replicate k HandlerReturns) q) \<and> workload ps (node_run H (replicate k HandlerReturns) q) = 0"
  unfolding node_run_def
proof (induction k arbitrary: q)
  case (Suc k)
  then show ?case using returns_awake [OF Suc.prems(1,2)] by simp
qed simp

lemma node_run_append: "node_run H (ns @ ks) q = node_run H ks (node_run H ns q)"
  by (simp add: node_run_def)

text \<open>
  C20: As long as no peer disconnects, no message is of an unknown type and the handlers do not throw, the queue
  terminates, even if one readable event stands for many messages: once as many handlers have returned as there are
  events and messages, it is empty and idle, every event has been handled, in order, and so has every message of
  every peer.
\<close>

theorem queue_drains:
  assumes "handles H" "\<forall>n\<in>set ns. case n of PeerCloses p \<Rightarrow> False | PeerReads p ms \<Rightarrow> None \<notin> set ms | _ \<Rightarrow> True"
    and "sum_list (map handlers_of ns) \<le> k" "q = node_run H (ns @ replicate k HandlerReturns) (newLightningEventQueue w)"
  shows "\<not> eq_processing q \<and> eq_queue q = [] \<and> filter is_other (eq_handled q) = arriving ns
    \<and> (\<forall>p. messages_of p (eq_handled q) = known (receiving p ns))"
proof -
  let ?ps = "remdups (concat (map (\<lambda>n. case n of PeerReads p ms \<Rightarrow> [p] | _ \<Rightarrow> []) ns))"
  have calm: "\<forall>n\<in>set ns. calm ?ps n"
    using assms(2) by (fastforce simp: calm_def split: node_event.split)
  have new: "awake ?ps (newLightningEventQueue w)" "workload ?ps (newLightningEventQueue w) = 0"
    by (simp_all add: awake_def newLightningEventQueue_def flag_ok_def workload_def sum_list_0 del: set_remdups)
  let ?r = "node_run H ns (newLightningEventQueue w)"
  have r: "awake ?ps ?r" "workload ?ps ?r \<le> k" using calm_run [OF new(1) assms(1) calm] new(2) assms(3) by simp_all
  have q: "q = node_run H (replicate k HandlerReturns) ?r" using assms(4) by (simp add: node_run_append)
  have d: "awake ?ps q" "workload ?ps q = 0" using drain [OF r(1) assms(1) r(2)] q by simp_all
  have h: "eq_handling q = None" using d(2) by (simp add: workload_def split: if_splits)
  note e = empty_work [OF d(1) h]
  have a: "arriving (replicate k HandlerReturns) = []" "receiving p (replicate k HandlerReturns) = []" for k p
    by (induction k) (simp_all add: event_lists)
  have "conserves (arriving ns) (\<lambda>p. known (receiving p ns)) q"
    using conserves_run [OF conserves_new, of "ns @ replicate k HandlerReturns" H w] assms(4) by (simp add: event_list_append a)
  then show ?thesis using e h by (simp add: conserves_def taken_def)
qed

text \<open>
  A message of an unknown type makes the queue forget the messages behind it: it takes it for an empty buffer,
  so they are not read until the peer sends again.
\<close>

theorem unknown_message_stalls:
  assumes "\<not> eq_processing q" "eq_queue q = []" "eq_handling q = None" "eq_inbox q p = []"
    and "q' = node_step H (PeerReads p [None, Some m]) q"
  shows "\<not> eq_processing q' \<and> eq_queue q' = [] \<and> eq_handled q' = eq_handled q \<and> eq_inbox q' p = [Some m]
    \<and> node_run H (replicate k HandlerReturns) q' = q'"
proof -
  have q': "q' = q\<lparr>eq_inbox := (eq_inbox q)(p := [Some m])\<rparr>"
    using assms(1-4) unfolding assms(5) by (simp add: eq_push_def process_def)
  have "node_step H HandlerReturns q' = q'" using q' assms(3) by (simp add: handlerReturns_def)
  then have "node_run H (replicate k HandlerReturns) q' = q'" unfolding node_run_def by (induction k) simp_all
  then show ?thesis using q' assms by simp
qed

lemma quiet_handles: "handles quiet_handlers"
  unfolding handles_def
proof (intro allI impI)
  fix e :: lightning_event and w :: nat
  show "event_type e \<notin> {TPeerReadable, TPeerDisconnected, TBlockDisconnected} \<Longrightarrow> \<exists>r w'. mux_onEvent quiet_handlers e w = (Inr r, w')"
    by (cases e) (auto simp: mux_onEvent_def mux_onPeerReady_def mux_onPeerMessage_def mux_onBlockConnected_def quiet_handlers_def io_simps
        split: wire_message.split)
qed

theorem queue_drains_witness:
  "\<exists>q. q = node_run quiet_handlers ([PeerGetsReady ''p'', PeerReads ''p'' [Some (MPong \<lparr>po_ignored = []\<rparr>), Some (MPong \<lparr>po_ignored = [1]\<rparr>)]]
        @ replicate 3 HandlerReturns) (newLightningEventQueue 0)
    \<and> eq_queue q = [] \<and> filter is_other (eq_handled q) = [EvPeerReady ''p'']
    \<and> messages_of ''p'' (eq_handled q) = [MPong \<lparr>po_ignored = []\<rparr>, MPong \<lparr>po_ignored = [1]\<rparr>]"
proof -
  let ?ns = "[PeerGetsReady ''p'', PeerReads ''p'' [Some (MPong \<lparr>po_ignored = []\<rparr>), Some (MPong \<lparr>po_ignored = [1]\<rparr>)]]"
  have n: "\<forall>n\<in>set ?ns. case n of PeerCloses p \<Rightarrow> False | PeerReads p ms \<Rightarrow> None \<notin> set ms | _ \<Rightarrow> True" by simp
  have l: "sum_list (map handlers_of ?ns) \<le> 3" "arriving ?ns = [EvPeerReady ''p'']"
    "known (receiving ''p'' ?ns) = [MPong \<lparr>po_ignored = []\<rparr>, MPong \<lparr>po_ignored = [1]\<rparr>]"
    by (simp_all add: arriving_def receiving_def known_def handlers_of_def)
  have d: "\<not> eq_processing q \<and> eq_queue q = [] \<and> filter is_other (eq_handled q) = arriving ?ns
    \<and> (\<forall>p. messages_of p (eq_handled q) = known (receiving p ?ns))"
    if "q = node_run quiet_handlers (?ns @ replicate 3 HandlerReturns) (newLightningEventQueue 0)" for q
    using queue_drains [OF quiet_handles n l(1) that] .
  show ?thesis using d l(2,3) by metis
qed

theorem unknown_message_stalls_witness:
  "\<exists>q'. q' = node_step quiet_handlers (PeerReads ''p'' [None, Some (MPong \<lparr>po_ignored = []\<rparr>)]) (newLightningEventQueue (0 :: nat))
    \<and> eq_inbox q' ''p'' = [Some (MPong \<lparr>po_ignored = []\<rparr>)] \<and> node_run quiet_handlers (replicate 5 HandlerReturns) q' = q'"
proof -
  let ?q = "newLightningEventQueue (0 :: nat)"
  have q: "\<not> eq_processing ?q" "eq_queue ?q = []" "eq_handling ?q = None" "eq_inbox ?q ''p'' = []"
    by (simp_all add: newLightningEventQueue_def)
  from unknown_message_stalls [OF q refl] show ?thesis by blast
qed

end
