(* ===== verification/HdKeys.thy ===== *)
theory HdKeys
  imports Channel Address ChannelPromises
begin

text \<open>
  Hierarchical keys, from \<^verbatim>\<open>packages/bitcoin/lib\<close>: \<^verbatim>\<open>HdPrivateKey.ts\<close>, \<^verbatim>\<open>HdPublicKey.ts\<close>, \<^verbatim>\<open>HdKeyCodec.ts\<close>
  and the methods of \<^verbatim>\<open>PrivateKey.ts\<close> and \<^verbatim>\<open>PublicKey.ts\<close> that they use.  The elliptic curve and HMAC-SHA512
  are parameters.  A child of a public key has no fingerprint of its parent: the property is
  never set.  Indices are unsigned 32-bit numbers.
\<close>

section \<open>Keys\<close>

definition pk_tweakAdd :: "crypto_ops \<Rightarrow> buffer \<Rightarrow> buffer \<Rightarrow> buffer res" where
  "pk_tweakAdd cry key tweak = bind_res (cry_privateKeyTweakAdd cry key tweak) (newPrivateKey cry)"

definition pk_tweakMul :: "crypto_ops \<Rightarrow> buffer \<Rightarrow> buffer \<Rightarrow> buffer res" where
  "pk_tweakMul cry key tweak = bind_res (cry_privateKeyTweakMul cry key tweak) (newPrivateKey cry)"

definition pk_toWif :: "crypto_ops \<Rightarrow> network \<Rightarrow> buffer \<Rightarrow> bool \<Rightarrow> string res" where
  "pk_toWif cry network key compressed = wif_encode (cry_sha256 cry) (wifPrefix network) key compressed"

definition pk_fromWif :: "crypto_ops \<Rightarrow> string \<Rightarrow> (network \<times> buffer \<times> buffer) res" where
  "pk_fromWif cry input =
     bind_res (wif_decode (cry_sha256 cry) input) (\<lambda>decoded.
     bind_res (wif_decodePrefix (wif_prefix decoded)) (\<lambda>network.
     bind_res (newPrivateKey cry (wif_privateKey decoded)) (\<lambda>prvkey.
     bind_res (toPubKey cry prvkey (wif_compressed decoded)) (\<lambda>pubkey. Inr (network, prvkey, pubkey)))))"

definition pub_compressed :: "buffer \<Rightarrow> bool" where
  "pub_compressed key \<longleftrightarrow> length key = 33"

definition pub_tweakAdd :: "crypto_ops \<Rightarrow> buffer \<Rightarrow> buffer \<Rightarrow> buffer res" where
  "pub_tweakAdd cry key tweak = bind_res (cry_publicKeyTweakAdd cry key tweak (pub_compressed key)) (newPublicKey cry)"

definition pub_tweakMul :: "crypto_ops \<Rightarrow> buffer \<Rightarrow> buffer \<Rightarrow> buffer res" where
  "pub_tweakMul cry key tweak = bind_res (cry_publicKeyTweakMul cry key tweak True) (newPublicKey cry)"

definition pub_hash160 :: "crypto_ops \<Rightarrow> buffer \<Rightarrow> buffer" where
  "pub_hash160 cry key = hash160 (cry_sha256 cry) (cry_ripemd160 cry) key"

text \<open>Private keys are equal when their networks' genesis blocks and their bytes are.\<close>

definition pk_equals :: "network \<times> buffer \<Rightarrow> network \<times> buffer \<Rightarrow> bool res" where
  "pk_equals k other =
     bind_res (net_getGenesisHash (fst k)) (\<lambda>g.
     bind_res (net_getGenesisHash (fst other)) (\<lambda>g'. Inr (g = g' \<and> snd k = snd other)))"

definition pub_add :: "crypto_ops \<Rightarrow> network \<times> buffer \<Rightarrow> network \<times> buffer \<Rightarrow> buffer res" where
  "pub_add cry key other =
     (if fst key \<noteq> fst other then Inl (BitcoinError ''NetworkMismatch'')
      else bind_res (cry_publicKeyCombine cry [snd key, snd other] (pub_compressed (snd key))) (newPublicKey cry))"

definition sig_isValid :: "crypto_ops \<Rightarrow> buffer \<Rightarrow> buffer \<Rightarrow> buffer \<Rightarrow> bool" where
  "sig_isValid cry raw msg pubkey = cry_verifySig cry msg raw pubkey"

definition toP2pkhAddress :: "crypto_ops \<Rightarrow> network \<Rightarrow> buffer \<Rightarrow> string res" where
  "toP2pkhAddress cry network key = addr_encodeBase58 (cry_sha256 cry) (p2pkhPrefix network) (pub_hash160 cry key)"

definition toP2nwpkhAddress :: "crypto_ops \<Rightarrow> network \<Rightarrow> buffer \<Rightarrow> string res" where
  "toP2nwpkhAddress cry network key =
     bind_res (p2wpkhLock (cry_validPublicKey cry) (cry_sha256 cry) (cry_ripemd160 cry) (pub_hash160 cry key)) (\<lambda>s.
       toP2shAddress (cry_sha256 cry) (cry_ripemd160 cry) s network)"

definition toP2wpkhAddress :: "crypto_ops \<Rightarrow> network \<Rightarrow> buffer \<Rightarrow> string res" where
  "toP2wpkhAddress cry network key = addr_encodeBech32 (p2wpkhPrefix network) 0 (pub_hash160 cry key)"

section \<open>Hierarchical keys\<close>

datatype HdKeyType = HdX | HdY | HdZ

record hd_private_key =
  hk_type :: HdKeyType
  hk_depth :: nat
  hk_parentFingerprint :: buffer
  hk_number :: nat
  hk_chainCode :: buffer
  hk_privateKey :: buffer
  hk_network :: network

record hd_public_key =
  hp_type :: HdKeyType
  hp_depth :: nat
  hp_parentFingerprint :: "buffer option"
  hp_number :: nat
  hp_chainCode :: buffer
  hp_publicKey :: buffer
  hp_network :: network

definition HARDENED_INDEX :: nat where
  "HARDENED_INDEX = 0x80000000"

definition hk_version :: "hd_private_key \<Rightarrow> nat" where
  "hk_version k = (case hk_type k of HdX \<Rightarrow> xprvVersion (hk_network k) | HdY \<Rightarrow> yprvVersion (hk_network k) | HdZ \<Rightarrow> zprvVersion (hk_network k))"

definition hp_version :: "hd_public_key \<Rightarrow> nat" where
  "hp_version k = (case hp_type k of HdX \<Rightarrow> xpubVersion (hp_network k) | HdY \<Rightarrow> ypubVersion (hp_network k) | HdZ \<Rightarrow> zpubVersion (hp_network k))"

definition hk_isHardened :: "hd_private_key \<Rightarrow> bool" where
  "hk_isHardened k \<longleftrightarrow> hk_number k \<ge> HARDENED_INDEX"

definition hp_isHardened :: "hd_public_key \<Rightarrow> bool" where
  "hp_isHardened k \<longleftrightarrow> hp_number k \<ge> HARDENED_INDEX"

definition hk_fingerprint :: "crypto_ops \<Rightarrow> hd_private_key \<Rightarrow> buffer res" where
  "hk_fingerprint cry k = bind_res (toPubKey cry (hk_privateKey k) True) (\<lambda>p. Inr (pub_hash160 cry p))"

definition hp_fingerprint :: "crypto_ops \<Rightarrow> hd_public_key \<Rightarrow> buffer" where
  "hp_fingerprint cry k = pub_hash160 cry (hp_publicKey k)"

definition hk_fromSeed ::
  "crypto_ops \<Rightarrow> (buffer \<Rightarrow> buffer \<Rightarrow> buffer) \<Rightarrow> buffer \<Rightarrow> network \<Rightarrow> HdKeyType \<Rightarrow> hd_private_key res" where
  "hk_fromSeed cry hmac512 seed network type = (let l = hmac512 (map (of_nat \<circ> of_char) ''Bitcoin seed'') seed in
     bind_res (newPrivateKey cry (take 32 l)) (\<lambda>key.
       Inr \<lparr>hk_type = type, hk_depth = 0, hk_parentFingerprint = [0, 0, 0, 0], hk_number = 0, hk_chainCode = drop 32 l,
         hk_privateKey = key, hk_network = network\<rparr>))"

definition hk_data :: "crypto_ops \<Rightarrow> hd_private_key \<Rightarrow> nat \<Rightarrow> buffer res" where
  "hk_data cry k i =
     (if i \<ge> HARDENED_INDEX
      then runWriter (Some (replicate 37 0)) (then_io (bw_writeUInt8 0) (then_io (bw_writeBytes (hk_privateKey k)) (bw_writeUInt32BE i)))
      else bind_res (toPubKey cry (hk_privateKey k) True) (\<lambda>p.
        runWriter (Some (replicate 37 0)) (then_io (bw_writeBytes p) (bw_writeUInt32BE i))))"

definition hk_derive :: "crypto_ops \<Rightarrow> (buffer \<Rightarrow> buffer \<Rightarrow> buffer) \<Rightarrow> hd_private_key \<Rightarrow> nat \<Rightarrow> hd_private_key res" where
  "hk_derive cry hmac512 k i =
     bind_res (hk_fingerprint cry k) (\<lambda>fingerprint.
     bind_res (hk_data cry k i) (\<lambda>data.
     let l = hmac512 (hk_chainCode k) data in
     bind_res (pk_tweakAdd cry (hk_privateKey k) (take 32 l)) (\<lambda>key.
       Inr \<lparr>hk_type = hk_type k, hk_depth = hk_depth k + 1, hk_parentFingerprint = take 4 fingerprint, hk_number = i,
         hk_chainCode = drop 32 l, hk_privateKey = key, hk_network = hk_network k\<rparr>)))"

definition hk_deriveHardened :: "crypto_ops \<Rightarrow> (buffer \<Rightarrow> buffer \<Rightarrow> buffer) \<Rightarrow> hd_private_key \<Rightarrow> nat \<Rightarrow> hd_private_key res" where
  "hk_deriveHardened cry hmac512 k i = hk_derive cry hmac512 k (if i < HARDENED_INDEX then i + HARDENED_INDEX else i)"

text \<open>\<^verbatim>\<open>fromPath\<close> from the numbers of the path on; without a type the purpose decides.\<close>

definition pathType :: "nat list \<Rightarrow> HdKeyType option \<Rightarrow> HdKeyType" where
  "pathType nums type = (case type of Some t \<Rightarrow> t
     | None \<Rightarrow> (case nums of [] \<Rightarrow> HdX | n # _ \<Rightarrow> if n = 0x80000054 then HdZ else if n = 0x80000031 then HdY else HdX))"

primrec derivePath :: "('k \<Rightarrow> nat \<Rightarrow> 'k res) \<Rightarrow> 'k \<Rightarrow> nat list \<Rightarrow> 'k res" where
  "derivePath step k [] = Inr k"
| "derivePath step k (n # ns) = bind_res (step k n) (\<lambda>k. derivePath step k ns)"

definition hk_fromNums ::
  "crypto_ops \<Rightarrow> (buffer \<Rightarrow> buffer \<Rightarrow> buffer) \<Rightarrow> nat list \<Rightarrow> buffer \<Rightarrow> network \<Rightarrow> HdKeyType option \<Rightarrow> hd_private_key res" where
  "hk_fromNums cry hmac512 nums seed network type =
     bind_res (hk_fromSeed cry hmac512 seed network (pathType nums type)) (\<lambda>key. derivePath (hk_derive cry hmac512) key nums)"

definition hk_toPubKey :: "crypto_ops \<Rightarrow> hd_private_key \<Rightarrow> hd_public_key res" where
  "hk_toPubKey cry k = bind_res (toPubKey cry (hk_privateKey k) True) (\<lambda>p.
     Inr \<lparr>hp_type = hk_type k, hp_depth = hk_depth k, hp_parentFingerprint = Some (hk_parentFingerprint k), hp_number = hk_number k,
       hp_chainCode = hk_chainCode k, hp_publicKey = p, hp_network = hk_network k\<rparr>)"

definition hp_derive :: "crypto_ops \<Rightarrow> (buffer \<Rightarrow> buffer \<Rightarrow> buffer) \<Rightarrow> hd_public_key \<Rightarrow> nat \<Rightarrow> hd_public_key res" where
  "hp_derive cry hmac512 k i =
     (if i \<ge> HARDENED_INDEX then Inl (BitcoinError ''InvalidHdDerivation'')
      else bind_res (runWriter (Some (replicate 37 0)) (then_io (bw_writeBytes (hp_publicKey k)) (bw_writeUInt32BE i))) (\<lambda>data.
        let l = hmac512 (hp_chainCode k) data in
        bind_res (pub_tweakAdd cry (hp_publicKey k) (take 32 l)) (\<lambda>p.
          Inr \<lparr>hp_type = hp_type k, hp_depth = hp_depth k + 1, hp_parentFingerprint = None, hp_number = hp_number k,
            hp_chainCode = drop 32 l, hp_publicKey = p, hp_network = hp_network k\<rparr>)))"

definition hp_toAddress :: "crypto_ops \<Rightarrow> hd_public_key \<Rightarrow> string res" where
  "hp_toAddress cry k = (case hp_type k of HdX \<Rightarrow> toP2pkhAddress cry (hp_network k) (hp_publicKey k)
     | HdY \<Rightarrow> toP2nwpkhAddress cry (hp_network k) (hp_publicKey k) | HdZ \<Rightarrow> toP2wpkhAddress cry (hp_network k) (hp_publicKey k))"

definition hk_toAddress :: "crypto_ops \<Rightarrow> hd_private_key \<Rightarrow> string res" where
  "hk_toAddress cry k = bind_res (hk_toPubKey cry k) (hp_toAddress cry)"

definition hk_toWif :: "crypto_ops \<Rightarrow> hd_private_key \<Rightarrow> string res" where
  "hk_toWif cry k = pk_toWif cry (hk_network k) (hk_privateKey k) True"

section \<open>The codec\<close>

datatype hd_key = HdPrivate hd_private_key | HdPublic hd_public_key

primrec decodeVersionIn :: "network list \<Rightarrow> nat \<Rightarrow> (network \<times> HdKeyType \<times> bool) res" where
  "decodeVersionIn [] version = Inl (BitcoinError ''UnkownHdKeyVersion'')"
| "decodeVersionIn (n # ns) version =
     (if version = xpubVersion n then Inr (n, HdX, False)
      else if version = xprvVersion n then Inr (n, HdX, True)
      else if version = ypubVersion n then Inr (n, HdY, False)
      else if version = yprvVersion n then Inr (n, HdY, True)
      else if version = zpubVersion n then Inr (n, HdZ, False)
      else if version = zprvVersion n then Inr (n, HdZ, True)
      else decodeVersionIn ns version)"

definition decodeVersion :: "nat \<Rightarrow> (network \<times> HdKeyType \<times> bool) res" where
  "decodeVersion = decodeVersionIn all_networks"

definition hd_key_of :: "crypto_ops \<Rightarrow> nat \<Rightarrow> nat \<Rightarrow> buffer \<Rightarrow> nat \<Rightarrow> buffer \<Rightarrow> buffer \<Rightarrow> hd_key res" where
  "hd_key_of cry version depth parentFingerprint childNum chaincode rawkey =
     bind_res (decodeVersion version) (\<lambda>(network, type, isPrivate).
     if depth = 0 \<and> parentFingerprint \<noteq> replicate 4 0 then Inl (BitcoinError ''InvalidHdEncoding'')
     else if depth = 0 \<and> childNum \<noteq> 0 then Inl (BitcoinError ''InvalidHdEncoding'')
     else if isPrivate then
       if rawkey ! 0 \<noteq> 0 then Inl (BitcoinError ''InvalidHdEncoding'')
       else bind_res (newPrivateKey cry (drop 1 rawkey)) (\<lambda>key. Inr (HdPrivate
         \<lparr>hk_type = type, hk_depth = depth, hk_parentFingerprint = parentFingerprint, hk_number = childNum, hk_chainCode = chaincode,
           hk_privateKey = key, hk_network = network\<rparr>))
     else bind_res (newPublicKey cry rawkey) (\<lambda>key. Inr (HdPublic
         \<lparr>hp_type = type, hp_depth = depth, hp_parentFingerprint = Some parentFingerprint, hp_number = childNum, hp_chainCode = chaincode,
           hp_publicKey = key, hp_network = network\<rparr>)))"

definition hd_read :: "crypto_ops \<Rightarrow> (buffer_reader, hd_key) io" where
  "hd_read cry =
     bind_io br_readUInt32BE (\<lambda>version.
     bind_io br_readUInt8 (\<lambda>depth.
     bind_io (br_readBytes (Some 4)) (\<lambda>parentFingerprint.
     bind_io br_readUInt32BE (\<lambda>childNum.
     bind_io (br_readBytes (Some 32)) (\<lambda>chaincode.
     bind_io (br_readBytes (Some 33)) (\<lambda>rawkey.
     lift_io (hd_key_of cry version depth parentFingerprint childNum chaincode rawkey)))))))"

definition hd_decode :: "crypto_ops \<Rightarrow> string \<Rightarrow> hd_key res" where
  "hd_decode cry input = bind_res (base58check_decode (cry_sha256 cry) input) (\<lambda>buf.
     if length buf \<noteq> 78 then Inl (BitcoinError ''InvalidHdEncoding'') else parseWith (hd_read cry) buf)"

definition hd_write :: "nat \<Rightarrow> nat \<Rightarrow> buffer \<Rightarrow> nat \<Rightarrow> buffer \<Rightarrow> buffer \<Rightarrow> (buffer_writer, unit) io" where
  "hd_write version depth parentFingerprint number chainCode key =
     then_io (bw_writeUInt32BE version)
    (then_io (bw_writeUInt8 depth)
    (then_io (bw_writeBytes parentFingerprint)
    (then_io (bw_writeUInt32BE number)
    (then_io (bw_writeBytes chainCode) (bw_writeBytes key)))))"

definition hd_encode :: "crypto_ops \<Rightarrow> hd_key \<Rightarrow> string res" where
  "hd_encode cry key = bind_res (case key of
       HdPrivate k \<Rightarrow> runWriter (Some (replicate 78 0)) (then_io (hd_write (hk_version k) (hk_depth k) (hk_parentFingerprint k)
           (hk_number k) (hk_chainCode k) [0]) (bw_writeBytes (hk_privateKey k)))
     | HdPublic k \<Rightarrow> bind_res (defined (hp_parentFingerprint k)) (\<lambda>fingerprint.
         runWriter (Some (replicate 78 0)) (hd_write (hp_version k) (hp_depth k) fingerprint (hp_number k) (hp_chainCode k) (hp_publicKey k))))
     (base58check_encode (cry_sha256 cry))"

definition hk_decode :: "crypto_ops \<Rightarrow> string \<Rightarrow> hd_private_key res" where
  "hk_decode cry input = bind_res (hd_decode cry input) (\<lambda>r. case r of HdPrivate k \<Rightarrow> Inr k | _ \<Rightarrow> Inl (BitcoinError ''InvalidHdPrivateKey''))"

definition hp_decode :: "crypto_ops \<Rightarrow> string \<Rightarrow> hd_public_key res" where
  "hp_decode cry input = bind_res (hd_decode cry input) (\<lambda>r. case r of HdPublic k \<Rightarrow> Inr k | _ \<Rightarrow> Inl (BitcoinError ''InvalidHdPublicKey''))"

section \<open>Private and public derivation\<close>

text \<open>What the public half of a derivation needs of a key.\<close>

definition same_point :: "crypto_ops \<Rightarrow> hd_private_key \<Rightarrow> hd_public_key \<Rightarrow> bool" where
  "same_point cry k p \<longleftrightarrow> toPubKey cry (hk_privateKey k) True = Inr (hp_publicKey p) \<and> hp_chainCode p = hk_chainCode k
     \<and> hp_type p = hk_type k \<and> hp_depth p = hk_depth k \<and> hp_network p = hk_network k"

lemma hk_toPubKey_Inr: "hk_toPubKey cry k = Inr p \<Longrightarrow> same_point cry k p"
  by (auto simp: hk_toPubKey_def same_point_def bind_res_eq_Inr)

lemma derive_same_point:
  assumes "\<And>k t k' p. cry_privateKeyTweakAdd cry k t = Inr k' \<Longrightarrow> cry_getPublicKey cry k True = Inr p \<Longrightarrow>
      cry_publicKeyTweakAdd cry p t True = cry_getPublicKey cry k' True"
    and "\<And>k p. cry_getPublicKey cry k True = Inr p \<Longrightarrow> length p = 33"
    and "same_point cry k p" "i < HARDENED_INDEX" "hk_derive cry hmac512 k i = Inr k'" "toPubKey cry (hk_privateKey k') True = Inr q"
  shows "\<exists>p'. hp_derive cry hmac512 p i = Inr p' \<and> same_point cry k' p'"
proof -
  have p: "toPubKey cry (hk_privateKey k) True = Inr (hp_publicKey p)" using assms(3) by (simp add: same_point_def)
  then have g: "cry_getPublicKey cry (hk_privateKey k) True = Inr (hp_publicKey p)"
    by (auto simp: toPubKey_def bind_res_eq_Inr newPublicKey_def split: if_splits)
  obtain data where d: "runWriter (Some (replicate 37 0)) (then_io (bw_writeBytes (hp_publicKey p)) (bw_writeUInt32BE i)) = Inr data"
    "pk_tweakAdd cry (hk_privateKey k) (take 32 (hmac512 (hk_chainCode k) data)) = Inr (hk_privateKey k')"
    "hk_chainCode k' = drop 32 (hmac512 (hk_chainCode k) data)" "hk_type k' = hk_type k" "hk_depth k' = hk_depth k + 1" "hk_network k' = hk_network k"
    using assms(4,5) p by (auto simp: hk_derive_def hk_data_def Let_def bind_res_eq_Inr)
  have t: "cry_privateKeyTweakAdd cry (hk_privateKey k) (take 32 (hmac512 (hk_chainCode k) data)) = Inr (hk_privateKey k')"
    using d(2) by (auto simp: pk_tweakAdd_def bind_res_eq_Inr newPrivateKey_def split: if_splits)
  have "pub_tweakAdd cry (hp_publicKey p) (take 32 (hmac512 (hk_chainCode k) data)) = Inr q"
    using assms(1) [OF t g] assms(2) [OF g] assms(6) by (simp add: pub_tweakAdd_def pub_compressed_def toPubKey_def)
  then show ?thesis using d assms(3,4,6) by (simp add: hp_derive_def same_point_def Let_def)
qed

text \<open>
  C32: The public keys of a path of plain indices can be derived without the private keys: from the public key of any key
  one gets the point, the chain code and the address of the public key of the derived key.
\<close>

theorem public_derivation_matches:
  assumes "\<And>k t k' p. cry_privateKeyTweakAdd cry k t = Inr k' \<Longrightarrow> cry_getPublicKey cry k True = Inr p \<Longrightarrow>
      cry_publicKeyTweakAdd cry p t True = cry_getPublicKey cry k' True"
    and "\<And>k p. cry_getPublicKey cry k True = Inr p \<Longrightarrow> length p = 33"
    and "\<forall>i\<in>set path. i < HARDENED_INDEX" "hk_toPubKey cry k = Inr p"
    and "derivePath (hk_derive cry hmac512) k path = Inr k'" "hk_toPubKey cry k' = Inr q"
  shows "\<exists>p'. derivePath (hp_derive cry hmac512) p path = Inr p' \<and> hp_publicKey p' = hp_publicKey q
    \<and> hp_chainCode p' = hp_chainCode q \<and> hp_depth p' = hp_depth q \<and> hp_toAddress cry p' = hp_toAddress cry q"
proof -
  have "same_point cry k p \<Longrightarrow> derivePath (hk_derive cry hmac512) k path = Inr k' \<Longrightarrow> \<forall>i\<in>set path. i < HARDENED_INDEX \<Longrightarrow>
      \<exists>p'. derivePath (hp_derive cry hmac512) p path = Inr p' \<and> same_point cry k' p'" for k p
  proof (induction path arbitrary: k p)
    case (Cons i path)
    obtain k1 where k1: "hk_derive cry hmac512 k i = Inr k1" "derivePath (hk_derive cry hmac512) k1 path = Inr k'"
      using Cons.prems(2) by (auto simp: bind_res_eq_Inr)
    obtain r where r: "toPubKey cry (hk_privateKey k1) True = Inr r"
    proof (cases path)
      case Nil
      then show ?thesis using that k1(2) assms(6) by (auto simp: hk_toPubKey_def bind_res_eq_Inr)
    next
      case (Cons j js)
      then show ?thesis using that k1(2) by (auto simp: hk_derive_def hk_fingerprint_def bind_res_eq_Inr)
    qed
    have i: "i < HARDENED_INDEX" using Cons.prems(3) by simp
    have "\<exists>p1. hp_derive cry hmac512 p i = Inr p1 \<and> same_point cry k1 p1"
      by (rule derive_same_point [OF assms(1,2) Cons.prems(1) i k1(1) r])
    then obtain p1 where "hp_derive cry hmac512 p i = Inr p1" "same_point cry k1 p1" by blast
    then show ?case using Cons.IH [OF _ k1(2)] Cons.prems(3) by auto
  qed auto
  from this [OF hk_toPubKey_Inr [OF assms(4)] assms(5,3)] obtain p' where
    p': "derivePath (hp_derive cry hmac512) p path = Inr p'" "same_point cry k' p'" by blast
  have "hp_publicKey p' = hp_publicKey q \<and> hp_chainCode p' = hp_chainCode q \<and> hp_depth p' = hp_depth q
    \<and> hp_type p' = hp_type q \<and> hp_network p' = hp_network q"
    using p'(2) hk_toPubKey_Inr [OF assms(6)] by (simp add: same_point_def)
  then show ?thesis using p'(1) by (cases "hp_type q") (simp_all add: hp_toAddress_def)
qed

text \<open>
  A derived public key cannot be written down: it keeps the index of its parent and has no fingerprint, so
  encoding it throws.
\<close>

theorem public_child_broken:
  assumes "hp_derive cry hmac512 p i = Inr p'"
  shows "hp_number p' = hp_number p \<and> hd_encode cry (HdPublic p') = Inl TypeError"
  using assms by (auto simp: hp_derive_def hd_encode_def Let_def bind_res_eq_Inr split: if_splits)

text \<open>Keys of regtest cannot be compared: that network has no genesis hash.\<close>

lemma regtest_keys_not_comparable: "pk_equals (regtest, k) other = Inl (BitcoinError ''GenesisHashNotDefined'')"
  by (simp add: pk_equals_def net_getGenesisHash_def regtest_def)

section \<open>The codec reads what it writes\<close>

definition hk_wf :: "crypto_ops \<Rightarrow> hd_private_key \<Rightarrow> bool" where
  "hk_wf cry k \<longleftrightarrow> hk_depth k < 256 \<and> length (hk_parentFingerprint k) = 4 \<and> hk_number k < 2 ^ 32 \<and> length (hk_chainCode k) = 32
     \<and> length (hk_privateKey k) = 32 \<and> cry_validPrivateKey cry (hk_privateKey k) \<and> hk_network k \<in> set all_networks
     \<and> (hk_depth k = 0 \<longrightarrow> hk_parentFingerprint k = replicate 4 0 \<and> hk_number k = 0)"

definition hp_wf :: "crypto_ops \<Rightarrow> hd_public_key \<Rightarrow> bool" where
  "hp_wf cry k \<longleftrightarrow> hp_depth k < 256 \<and> (\<exists>f. hp_parentFingerprint k = Some f \<and> length f = 4 \<and> (hp_depth k = 0 \<longrightarrow> f = replicate 4 0 \<and> hp_number k = 0))
     \<and> hp_number k < 2 ^ 32 \<and> length (hp_chainCode k) = 32 \<and> length (hp_publicKey k) = 33 \<and> cry_validPublicKey cry (hp_publicKey k)
     \<and> hp_network k \<in> set all_networks"

text \<open>The versions of \<^verbatim>\<open>regtest\<close> are those of \<^verbatim>\<open>testnet\<close>.\<close>

definition read_network :: "network \<Rightarrow> network" where
  "read_network n = (if n = regtest then testnet else n)"

lemma network_distinct: "mainnet \<noteq> regtest" "testnet \<noteq> regtest"
  by (simp_all add: mainnet_def testnet_def regtest_def)

lemma network_versions:
  "xpubVersion mainnet = 76067358" "xprvVersion mainnet = 76066276" "ypubVersion mainnet = 77429938"
  "yprvVersion mainnet = 77428856" "zpubVersion mainnet = 78792518" "zprvVersion mainnet = 78791436"
  "xpubVersion testnet = 70617039" "xprvVersion testnet = 70615956" "ypubVersion testnet = 71979618"
  "yprvVersion testnet = 71978536" "zpubVersion testnet = 73342198" "zprvVersion testnet = 73341116"
  "xpubVersion regtest = 70617039" "xprvVersion regtest = 70615956" "ypubVersion regtest = 71979618"
  "yprvVersion regtest = 71978536" "zpubVersion regtest = 73342198" "zprvVersion regtest = 73341116"
  by (simp_all add: mainnet_def testnet_def regtest_def)

lemma decode_versions:
  assumes "n \<in> set all_networks"
  shows "decodeVersion (xpubVersion n) = Inr (read_network n, HdX, False)" "decodeVersion (xprvVersion n) = Inr (read_network n, HdX, True)"
    "decodeVersion (ypubVersion n) = Inr (read_network n, HdY, False)" "decodeVersion (yprvVersion n) = Inr (read_network n, HdY, True)"
    "decodeVersion (zpubVersion n) = Inr (read_network n, HdZ, False)" "decodeVersion (zprvVersion n) = Inr (read_network n, HdZ, True)"
proof -
  consider "n = mainnet" | "n = testnet" | "n = regtest" using assms by (auto simp: all_networks_def)
  then show "decodeVersion (xpubVersion n) = Inr (read_network n, HdX, False)" "decodeVersion (xprvVersion n) = Inr (read_network n, HdX, True)"
    "decodeVersion (ypubVersion n) = Inr (read_network n, HdY, False)" "decodeVersion (yprvVersion n) = Inr (read_network n, HdY, True)"
    "decodeVersion (zpubVersion n) = Inr (read_network n, HdZ, False)" "decodeVersion (zprvVersion n) = Inr (read_network n, HdZ, True)"
    unfolding decodeVersion_def all_networks_def by (cases; simp add: read_network_def network_versions network_distinct)+
qed

lemma version_bounds:
  assumes "n \<in> set all_networks" "v \<in> {xpubVersion n, xprvVersion n, ypubVersion n, yprvVersion n, zpubVersion n, zprvVersion n}"
  shows "0 < v \<and> v < 2 ^ 32"
proof -
  consider "n = mainnet" | "n = testnet" | "n = regtest" using assms(1) by (auto simp: all_networks_def)
  then show ?thesis using assms(2) by cases (auto simp: mainnet_def testnet_def regtest_def)
qed

definition hd_bytes :: "nat \<Rightarrow> nat \<Rightarrow> buffer \<Rightarrow> nat \<Rightarrow> buffer \<Rightarrow> buffer \<Rightarrow> buffer" where
  "hd_bytes version depth fingerprint number chainCode key =
     be_bytes 4 version @ le_bytes 1 depth @ fingerprint @ be_bytes 4 number @ chainCode @ key"

lemma length_hd_bytes: "length (hd_bytes version depth fingerprint number chainCode key) = 9 + length fingerprint + length chainCode + length key"
  by (simp add: hd_bytes_def)

lemma writes_hd:
  assumes "version < 2 ^ 32" "depth < 256" "number < 2 ^ 32"
  shows "writes (bw_good f) bw_out bw_room (hd_write version depth fingerprint number chainCode key)
    (hd_bytes version depth fingerprint number chainCode key)"
  unfolding hd_write_def hd_bytes_def using assms by (intro writes_then bw_writes) simp_all

lemma hd_read_bytes:
  assumes "version < 2 ^ 32" "depth < 256" "length fingerprint = 4" "number < 2 ^ 32" "length chainCode = 32" "length key = 33"
    and r: "hd_key_of cry version depth fingerprint number chainCode key = Inr r"
  shows "parseWith (hd_read cry) (hd_bytes version depth fingerprint number chainCode key) = Inr r"
proof -
  have last: "parses (lift_io (hd_key_of cry version depth fingerprint number chainCode key)) [] r"
    using parses_return [of r "[]"] r by (simp add: lift_io_def parses_def io_simps)
  have "parses (hd_read cry) (be_bytes 4 version @ le_bytes 1 depth @ fingerprint @ be_bytes 4 number @ chainCode @ key @ []) r"
    unfolding hd_read_def using assms(1-6) by (intro parses_bind [OF br.u32be] parses_bind [OF br.u8] parses_bind [OF reads_bytes] last) simp_all
  then show ?thesis by (simp add: hd_bytes_def parses_parseWith)
qed

text \<open>A key as its reader has it.\<close>

definition hd_as_read :: "hd_key \<Rightarrow> hd_key" where
  "hd_as_read key = (case key of HdPrivate k \<Rightarrow> HdPrivate (k\<lparr>hk_network := read_network (hk_network k)\<rparr>)
     | HdPublic k \<Rightarrow> HdPublic (k\<lparr>hp_network := read_network (hp_network k)\<rparr>))"

definition hd_wf :: "crypto_ops \<Rightarrow> hd_key \<Rightarrow> bool" where
  "hd_wf cry key = (case key of HdPrivate k \<Rightarrow> hk_wf cry k | HdPublic k \<Rightarrow> hp_wf cry k)"

lemma hd_key_of_private:
  assumes "hk_wf cry k"
  shows "hd_key_of cry (hk_version k) (hk_depth k) (hk_parentFingerprint k) (hk_number k) (hk_chainCode k) (0 # hk_privateKey k) =
    Inr (hd_as_read (HdPrivate k))"
proof -
  have n: "hk_network k \<in> set all_networks" using assms by (simp add: hk_wf_def)
  have v: "decodeVersion (hk_version k) = Inr (read_network (hk_network k), hk_type k, True)"
    by (cases "hk_type k") (simp_all add: hk_version_def decode_versions [OF n])
  show ?thesis using assms by (auto simp: hd_key_of_def v hk_wf_def hd_as_read_def newPrivateKey_def)
qed

lemma hd_key_of_public:
  assumes "hp_wf cry k" "hp_parentFingerprint k = Some f"
  shows "hd_key_of cry (hp_version k) (hp_depth k) f (hp_number k) (hp_chainCode k) (hp_publicKey k) = Inr (hd_as_read (HdPublic k))"
proof -
  have n: "hp_network k \<in> set all_networks" using assms by (simp add: hp_wf_def)
  have v: "decodeVersion (hp_version k) = Inr (read_network (hp_network k), hp_type k, False)"
    by (cases "hp_type k") (simp_all add: hp_version_def decode_versions [OF n])
  show ?thesis using assms by (auto simp: hd_key_of_def v hp_wf_def hd_as_read_def newPublicKey_def)
qed

definition hd_content :: "hd_key \<Rightarrow> buffer" where
  "hd_content key = (case key of
       HdPrivate k \<Rightarrow> hd_bytes (hk_version k) (hk_depth k) (hk_parentFingerprint k) (hk_number k) (hk_chainCode k) (0 # hk_privateKey k)
     | HdPublic k \<Rightarrow> hd_bytes (hp_version k) (hp_depth k) (the (hp_parentFingerprint k)) (hp_number k) (hp_chainCode k) (hp_publicKey k))"

lemma hk_version_bounds: "hk_wf cry k \<Longrightarrow> 0 < hk_version k \<and> hk_version k < 2 ^ 32"
  using version_bounds [of "hk_network k" "hk_version k"] by (cases "hk_type k") (auto simp: hk_wf_def hk_version_def)

lemma hp_version_bounds: "hp_wf cry k \<Longrightarrow> 0 < hp_version k \<and> hp_version k < 2 ^ 32"
  using version_bounds [of "hp_network k" "hp_version k"] by (cases "hp_type k") (auto simp: hp_wf_def hp_version_def)

lemma hd_encode_eq: "hd_wf cry key \<Longrightarrow> hd_encode cry key = base58check_encode (cry_sha256 cry) (hd_content key)"
proof (cases key)
  case (HdPrivate k)
  then have k: "hk_wf cry k" if "hd_wf cry key" using that by (simp add: hd_wf_def)
  have zero: "hd_bytes v d f n c (0 # hk_privateKey k) = hd_bytes v d f n c [0] @ hk_privateKey k" for v d f n c by (simp add: hd_bytes_def)
  have "runWriter (Some (replicate 78 0)) (then_io (hd_write (hk_version k) (hk_depth k) (hk_parentFingerprint k)
      (hk_number k) (hk_chainCode k) [0]) (bw_writeBytes (hk_privateKey k))) = Inr (hd_content key)" if "hd_wf cry key"
    using writes_then [OF writes_hd [of "hk_version k" "hk_depth k" "hk_number k"] writes_writeBytes] k [OF that] hk_version_bounds [OF k [OF that]]
    by (intro runWriter_fixed) (simp_all add: hk_wf_def length_hd_bytes hd_content_def HdPrivate zero)
  then show "hd_wf cry key \<Longrightarrow> ?thesis" by (simp add: hd_encode_def HdPrivate)
next
  case (HdPublic k)
  then have k: "hp_wf cry k" if "hd_wf cry key" using that by (simp add: hd_wf_def)
  have "bind_res (defined (hp_parentFingerprint k)) (\<lambda>fingerprint. runWriter (Some (replicate 78 0))
      (hd_write (hp_version k) (hp_depth k) fingerprint (hp_number k) (hp_chainCode k) (hp_publicKey k))) = Inr (hd_content key)" if "hd_wf cry key"
    using writes_hd [of "hp_version k" "hp_depth k" "hp_number k"] k [OF that] hp_version_bounds [OF k [OF that]]
    by (auto simp: hp_wf_def length_hd_bytes hd_content_def HdPublic intro!: runWriter_fixed)
  then show "hd_wf cry key \<Longrightarrow> ?thesis" by (simp add: hd_encode_def HdPublic)
qed

lemma hd_read_content:
  assumes "hd_wf cry key"
  shows "length (hd_content key) = 78 \<and> parseWith (hd_read cry) (hd_content key) = Inr (hd_as_read key)"
proof (cases key)
  case (HdPrivate k)
  then have k: "hk_wf cry k" using assms by (simp add: hd_wf_def)
  then show ?thesis using hk_version_bounds [OF k] hd_read_bytes [OF _ _ _ _ _ _ hd_key_of_private [OF k]]
    by (simp add: hd_content_def HdPrivate length_hd_bytes hk_wf_def)
next
  case (HdPublic k)
  then have k: "hp_wf cry k" using assms by (simp add: hd_wf_def)
  then obtain f where f: "hp_parentFingerprint k = Some f" by (auto simp: hp_wf_def)
  show ?thesis using k f hp_version_bounds [OF k] hd_read_bytes [OF _ _ _ _ _ _ hd_key_of_public [OF k f]]
    by (simp add: hd_content_def HdPublic length_hd_bytes hp_wf_def)
qed

lemma le_val_all_zero: "\<forall>b\<in>set bs. b = 0 \<Longrightarrow> le_val bs = 0"
  by (induction bs) simp_all

lemma be_val_all_zero: "\<forall>b\<in>set bs. b = 0 \<Longrightarrow> be_val bs = 0"
  unfolding be_val_def by (rule le_val_all_zero) simp

lemma hd_content_nonzero: "hd_wf cry key \<Longrightarrow> \<exists>b\<in>set (hd_content key @ rest). b \<noteq> 0"
proof -
  assume w: "hd_wf cry key"
  have "\<exists>v r. hd_content key = be_bytes 4 v @ r \<and> 0 < v \<and> v < 256 ^ 4"
    using w hk_version_bounds hp_version_bounds by (cases key) (fastforce simp: hd_wf_def hd_content_def hd_bytes_def)+
  then obtain v r where v: "hd_content key = be_bytes 4 v @ r" "0 < v" "v < 256 ^ 4" by blast
  have "\<exists>b\<in>set (be_bytes 4 v). b \<noteq> 0"
  proof (rule ccontr)
    assume "\<not> ?thesis"
    then have "be_val (be_bytes 4 v) = 0" by (intro be_val_all_zero) auto
    then show False using v(2,3) by simp
  qed
  then show ?thesis using v(1) by auto
qed

text \<open>
  C33: An extended key that has been written is read again as the same key, of the same network but for regtest, whose
  keys are read as keys of testnet.
\<close>

theorem hd_codec_roundtrip:
  assumes "\<And>x. length (cry_sha256 cry x) = 32" "hd_wf cry key"
  shows "bind_res (hd_encode cry key) (hd_decode cry) = Inr (hd_as_read key)"
proof -
  have "bind_res (base58check_encode (cry_sha256 cry) (hd_content key)) (base58check_decode (cry_sha256 cry)) = Inr (hd_content key)"
    by (rule base58check_roundtrip [OF assms(1) hd_content_nonzero [OF assms(2)]])
  then obtain s where "base58check_encode (cry_sha256 cry) (hd_content key) = Inr s"
    "base58check_decode (cry_sha256 cry) s = Inr (hd_content key)" by (auto simp: bind_res_eq_Inr)
  then show ?thesis using hd_read_content [OF assms(2)] by (simp add: hd_encode_eq [OF assms(2)] hd_decode_def)
qed

definition sample_key :: hd_private_key where
  "sample_key = \<lparr>hk_type = HdZ, hk_depth = 1, hk_parentFingerprint = replicate 4 7, hk_number = 5, hk_chainCode = replicate 32 3,
     hk_privateKey = replicate 32 9, hk_network = regtest\<rparr>"

definition sample_point :: "buffer \<Rightarrow> buffer res" where
  "sample_point b = (if length b = 32 then Inr (2 # b) else Inl TypeError)"

definition point_crypto :: crypto_ops where
  "point_crypto = sample_crypto\<lparr>cry_getPublicKey := \<lambda>b _. sample_point b, cry_privateKeyTweakAdd := \<lambda>b t. Inr (map2 (+) b t),
     cry_publicKeyTweakAdd := \<lambda>p t _. sample_point (map2 (+) (tl p) t)\<rparr>"

lemma point_laws:
  "cry_privateKeyTweakAdd point_crypto k t = Inr k' \<Longrightarrow> cry_getPublicKey point_crypto k True = Inr p \<Longrightarrow>
    cry_publicKeyTweakAdd point_crypto p t True = cry_getPublicKey point_crypto k' True"
  "cry_getPublicKey point_crypto k True = Inr p \<Longrightarrow> length p = 33"
  by (auto simp: point_crypto_def sample_crypto_def sample_point_def split: if_splits)

lemma hd_codec_roundtrip_witness:
  "bind_res (hd_encode point_crypto (HdPrivate sample_key)) (hd_decode point_crypto) = Inr (HdPrivate (sample_key\<lparr>hk_network := testnet\<rparr>))"
proof -
  have "hd_wf point_crypto (HdPrivate sample_key)"
    by (simp add: hd_wf_def hk_wf_def sample_key_def point_crypto_def sample_crypto_def all_networks_def)
  from hd_codec_roundtrip [OF _ this] show ?thesis
    by (simp add: point_crypto_def sample_crypto_def hd_as_read_def read_network_def sample_key_def)
qed

definition sample_public :: hd_public_key where
  "sample_public = \<lparr>hp_type = HdZ, hp_depth = 1, hp_parentFingerprint = Some (replicate 4 7), hp_number = 5, hp_chainCode = replicate 32 3,
     hp_publicKey = 2 # replicate 32 9, hp_network = regtest\<rparr>"

definition sample_hmac :: "buffer \<Rightarrow> buffer \<Rightarrow> buffer" where
  "sample_hmac key data = replicate 64 1"

lemma sample_data:
  "length p = 33 \<Longrightarrow> runWriter (Some (replicate 37 0)) (then_io (bw_writeBytes p) (bw_writeUInt32BE 3)) = Inr (p @ be_bytes 4 3)"
  by (intro runWriter_fixed writes_then bw_writes) simp_all

lemma sample_derivation:
  "hk_toPubKey point_crypto sample_key = Inr sample_public"
  "\<exists>k q. hk_derive point_crypto sample_hmac sample_key 3 = Inr k \<and> hk_toPubKey point_crypto k = Inr q \<and> hp_publicKey q = 2 # replicate 32 10"
  "\<exists>p. hp_derive point_crypto sample_hmac sample_public 3 = Inr p"
proof -
  let ?p = "2 # replicate 32 9 :: buffer"
  have p: "toPubKey point_crypto (replicate 32 9) True = Inr ?p" "toPubKey point_crypto (replicate 32 10) True = Inr (2 # replicate 32 10)"
    by (simp_all add: toPubKey_def point_crypto_def sample_crypto_def sample_point_def newPublicKey_def)
  have t: "pk_tweakAdd point_crypto (replicate 32 9) (replicate 32 1) = Inr (replicate 32 10)"
    "pub_tweakAdd point_crypto ?p (replicate 32 1) = Inr (2 # replicate 32 10)"
    by (simp_all add: pk_tweakAdd_def pub_tweakAdd_def point_crypto_def sample_crypto_def sample_point_def newPublicKey_def newPrivateKey_def
        zip_replicate)
  show "hk_toPubKey point_crypto sample_key = Inr sample_public" using p by (simp add: hk_toPubKey_def sample_key_def sample_public_def)
  show "\<exists>k q. hk_derive point_crypto sample_hmac sample_key 3 = Inr k \<and> hk_toPubKey point_crypto k = Inr q \<and> hp_publicKey q = 2 # replicate 32 10"
    using p t sample_data [of ?p] by (simp add: hk_derive_def hk_fingerprint_def hk_data_def sample_key_def sample_hmac_def HARDENED_INDEX_def
        Let_def hk_toPubKey_def)
  show "\<exists>p. hp_derive point_crypto sample_hmac sample_public 3 = Inr p"
    using t sample_data [of ?p] by (simp add: hp_derive_def sample_public_def sample_hmac_def HARDENED_INDEX_def Let_def)
qed

lemma public_derivation_matches_witness:
  "\<exists>p. derivePath (hp_derive point_crypto sample_hmac) sample_public [3] = Inr p \<and> hp_publicKey p = 2 # replicate 32 10"
proof -
  obtain k q where k: "hk_derive point_crypto sample_hmac sample_key 3 = Inr k" "hk_toPubKey point_crypto k = Inr q"
    "hp_publicKey q = 2 # replicate 32 10" using sample_derivation(2) by blast
  have "\<forall>i\<in>set [3]. i < HARDENED_INDEX" "derivePath (hk_derive point_crypto sample_hmac) sample_key [3] = Inr k"
    using k(1) by (simp_all add: HARDENED_INDEX_def)
  then have "\<exists>p'. derivePath (hp_derive point_crypto sample_hmac) sample_public [3] = Inr p' \<and> hp_publicKey p' = hp_publicKey q
      \<and> hp_chainCode p' = hp_chainCode q \<and> hp_depth p' = hp_depth q \<and> hp_toAddress point_crypto p' = hp_toAddress point_crypto q"
    by (intro public_derivation_matches [OF _ _ _ sample_derivation(1) _ k(2)]) (erule point_laws, assumption | erule point_laws | assumption)+
  then show ?thesis using k(3) by auto
qed

lemma public_child_broken_witness:
  "\<exists>p. hp_derive point_crypto sample_hmac sample_public 3 = Inr p \<and> hp_number p = 5 \<and> hd_encode point_crypto (HdPublic p) = Inl TypeError"
proof -
  obtain p where "hp_derive point_crypto sample_hmac sample_public 3 = Inr p" using sample_derivation(3) by blast
  then show ?thesis using public_child_broken [of point_crypto sample_hmac sample_public 3 p] by (simp add: sample_public_def)
qed

end
