(* ===== verification/WordList.thy ===== *)
theory WordList
  imports Prelude
begin

text \<open>
  The English word list of BIP 39, \<^verbatim>\<open>packages/bitcoin/lib/MnemonicWordLists.ts\<close>, in parts, and the facts
  mnemonics need of it: it has 2048 different words of small letters, in alphabetical order.
\<close>

definition englishWords1 :: "string list" where
  "englishWords1 = [''abandon'', ''ability'', ''able'', ''about'', ''above'', ''absent'', ''absorb'', ''abstract'', ''absurd'',
     ''abuse'', ''access'', ''accident'', ''account'', ''accuse'', ''achieve'', ''acid'', ''acoustic'', ''acquire'',
     ''across'', ''act'', ''action'', ''actor'', ''actress'', ''actual'', ''adapt'', ''add'', ''addict'',
     ''address'', ''adjust'', ''admit'', ''adult'', ''advance'', ''advice'', ''aerobic'', ''affair'', ''afford'',
     ''afraid'', ''again'', ''age'', ''agent'', ''agree'', ''ahead'', ''aim'', ''air'', ''airport'', ''aisle'',
     ''alarm'', ''album'', ''alcohol'', ''alert'', ''alien'', ''all'', ''alley'', ''allow'', ''almost'', ''alone'',
     ''alpha'', ''already'', ''also'', ''alter'', ''always'', ''amateur'', ''amazing'', ''among'', ''amount'',
     ''amused'', ''analyst'', ''anchor'', ''ancient'', ''anger'', ''angle'', ''angry'', ''animal'', ''ankle'',
     ''announce'', ''annual'', ''another'', ''answer'', ''antenna'', ''antique'', ''anxiety'', ''any'', ''apart'',
     ''apology'', ''appear'', ''apple'', ''approve'', ''april'', ''arch'', ''arctic'', ''area'', ''arena'',
     ''argue'', ''arm'', ''armed'', ''armor'', ''army'', ''around'', ''arrange'', ''arrest'', ''arrive'', ''arrow'',
     ''art'', ''artefact'', ''artist'', ''artwork'', ''ask'', ''aspect'', ''assault'', ''asset'', ''assist'',
     ''assume'', ''asthma'', ''athlete'', ''atom'', ''attack'', ''attend'', ''attitude'', ''attract'', ''auction'',
     ''audit'', ''august'', ''aunt'', ''author'', ''auto'', ''autumn'', ''average'', ''avocado'', ''avoid'',
     ''awake'', ''aware'', ''away'', ''awesome'', ''awful'', ''awkward'', ''axis'', ''baby'', ''bachelor'',
     ''bacon'', ''badge'', ''bag'', ''balance'', ''balcony'', ''ball'', ''bamboo'', ''banana'', ''banner'']"

definition englishWords2 :: "string list" where
  "englishWords2 = [''bar'', ''barely'', ''bargain'', ''barrel'', ''base'', ''basic'', ''basket'', ''battle'', ''beach'', ''bean'',
     ''beauty'', ''because'', ''become'', ''beef'', ''before'', ''begin'', ''behave'', ''behind'', ''believe'',
     ''below'', ''belt'', ''bench'', ''benefit'', ''best'', ''betray'', ''better'', ''between'', ''beyond'',
     ''bicycle'', ''bid'', ''bike'', ''bind'', ''biology'', ''bird'', ''birth'', ''bitter'', ''black'', ''blade'',
     ''blame'', ''blanket'', ''blast'', ''bleak'', ''bless'', ''blind'', ''blood'', ''blossom'', ''blouse'',
     ''blue'', ''blur'', ''blush'', ''board'', ''boat'', ''body'', ''boil'', ''bomb'', ''bone'', ''bonus'',
     ''book'', ''boost'', ''border'', ''boring'', ''borrow'', ''boss'', ''bottom'', ''bounce'', ''box'', ''boy'',
     ''bracket'', ''brain'', ''brand'', ''brass'', ''brave'', ''bread'', ''breeze'', ''brick'', ''bridge'',
     ''brief'', ''bright'', ''bring'', ''brisk'', ''broccoli'', ''broken'', ''bronze'', ''broom'', ''brother'',
     ''brown'', ''brush'', ''bubble'', ''buddy'', ''budget'', ''buffalo'', ''build'', ''bulb'', ''bulk'',
     ''bullet'', ''bundle'', ''bunker'', ''burden'', ''burger'', ''burst'', ''bus'', ''business'', ''busy'',
     ''butter'', ''buyer'', ''buzz'', ''cabbage'', ''cabin'', ''cable'', ''cactus'', ''cage'', ''cake'', ''call'',
     ''calm'', ''camera'', ''camp'', ''can'', ''canal'', ''cancel'', ''candy'', ''cannon'', ''canoe'', ''canvas'',
     ''canyon'', ''capable'', ''capital'', ''captain'', ''car'', ''carbon'', ''card'', ''cargo'', ''carpet'',
     ''carry'', ''cart'', ''case'', ''cash'', ''casino'', ''castle'', ''casual'', ''cat'', ''catalog'', ''catch'',
     ''category'', ''cattle'', ''caught'', ''cause'', ''caution'']"

definition englishWords3 :: "string list" where
  "englishWords3 = [''cave'', ''ceiling'', ''celery'', ''cement'', ''census'', ''century'', ''cereal'', ''certain'', ''chair'',
     ''chalk'', ''champion'', ''change'', ''chaos'', ''chapter'', ''charge'', ''chase'', ''chat'', ''cheap'',
     ''check'', ''cheese'', ''chef'', ''cherry'', ''chest'', ''chicken'', ''chief'', ''child'', ''chimney'',
     ''choice'', ''choose'', ''chronic'', ''chuckle'', ''chunk'', ''churn'', ''cigar'', ''cinnamon'', ''circle'',
     ''citizen'', ''city'', ''civil'', ''claim'', ''clap'', ''clarify'', ''claw'', ''clay'', ''clean'', ''clerk'',
     ''clever'', ''click'', ''client'', ''cliff'', ''climb'', ''clinic'', ''clip'', ''clock'', ''clog'', ''close'',
     ''cloth'', ''cloud'', ''clown'', ''club'', ''clump'', ''cluster'', ''clutch'', ''coach'', ''coast'',
     ''coconut'', ''code'', ''coffee'', ''coil'', ''coin'', ''collect'', ''color'', ''column'', ''combine'',
     ''come'', ''comfort'', ''comic'', ''common'', ''company'', ''concert'', ''conduct'', ''confirm'', ''congress'',
     ''connect'', ''consider'', ''control'', ''convince'', ''cook'', ''cool'', ''copper'', ''copy'', ''coral'',
     ''core'', ''corn'', ''correct'', ''cost'', ''cotton'', ''couch'', ''country'', ''couple'', ''course'',
     ''cousin'', ''cover'', ''coyote'', ''crack'', ''cradle'', ''craft'', ''cram'', ''crane'', ''crash'',
     ''crater'', ''crawl'', ''crazy'', ''cream'', ''credit'', ''creek'', ''crew'', ''cricket'', ''crime'',
     ''crisp'', ''critic'', ''crop'', ''cross'', ''crouch'', ''crowd'', ''crucial'', ''cruel'', ''cruise'',
     ''crumble'', ''crunch'', ''crush'', ''cry'', ''crystal'', ''cube'', ''culture'', ''cup'', ''cupboard'',
     ''curious'', ''current'', ''curtain'', ''curve'', ''cushion'', ''custom'', ''cute'', ''cycle'', ''dad'',
     ''damage'']"

definition englishWords4 :: "string list" where
  "englishWords4 = [''damp'', ''dance'', ''danger'', ''daring'', ''dash'', ''daughter'', ''dawn'', ''day'', ''deal'', ''debate'',
     ''debris'', ''decade'', ''december'', ''decide'', ''decline'', ''decorate'', ''decrease'', ''deer'',
     ''defense'', ''define'', ''defy'', ''degree'', ''delay'', ''deliver'', ''demand'', ''demise'', ''denial'',
     ''dentist'', ''deny'', ''depart'', ''depend'', ''deposit'', ''depth'', ''deputy'', ''derive'', ''describe'',
     ''desert'', ''design'', ''desk'', ''despair'', ''destroy'', ''detail'', ''detect'', ''develop'', ''device'',
     ''devote'', ''diagram'', ''dial'', ''diamond'', ''diary'', ''dice'', ''diesel'', ''diet'', ''differ'',
     ''digital'', ''dignity'', ''dilemma'', ''dinner'', ''dinosaur'', ''direct'', ''dirt'', ''disagree'',
     ''discover'', ''disease'', ''dish'', ''dismiss'', ''disorder'', ''display'', ''distance'', ''divert'',
     ''divide'', ''divorce'', ''dizzy'', ''doctor'', ''document'', ''dog'', ''doll'', ''dolphin'', ''domain'',
     ''donate'', ''donkey'', ''donor'', ''door'', ''dose'', ''double'', ''dove'', ''draft'', ''dragon'', ''drama'',
     ''drastic'', ''draw'', ''dream'', ''dress'', ''drift'', ''drill'', ''drink'', ''drip'', ''drive'', ''drop'',
     ''drum'', ''dry'', ''duck'', ''dumb'', ''dune'', ''during'', ''dust'', ''dutch'', ''duty'', ''dwarf'',
     ''dynamic'', ''eager'', ''eagle'', ''early'', ''earn'', ''earth'', ''easily'', ''east'', ''easy'', ''echo'',
     ''ecology'', ''economy'', ''edge'', ''edit'', ''educate'', ''effort'', ''egg'', ''eight'', ''either'',
     ''elbow'', ''elder'', ''electric'', ''elegant'', ''element'', ''elephant'', ''elevator'', ''elite'', ''else'',
     ''embark'', ''embody'', ''embrace'', ''emerge'', ''emotion'', ''employ'', ''empower'', ''empty'', ''enable'',
     ''enact'']"

definition englishWords5 :: "string list" where
  "englishWords5 = [''end'', ''endless'', ''endorse'', ''enemy'', ''energy'', ''enforce'', ''engage'', ''engine'', ''enhance'',
     ''enjoy'', ''enlist'', ''enough'', ''enrich'', ''enroll'', ''ensure'', ''enter'', ''entire'', ''entry'',
     ''envelope'', ''episode'', ''equal'', ''equip'', ''era'', ''erase'', ''erode'', ''erosion'', ''error'',
     ''erupt'', ''escape'', ''essay'', ''essence'', ''estate'', ''eternal'', ''ethics'', ''evidence'', ''evil'',
     ''evoke'', ''evolve'', ''exact'', ''example'', ''excess'', ''exchange'', ''excite'', ''exclude'', ''excuse'',
     ''execute'', ''exercise'', ''exhaust'', ''exhibit'', ''exile'', ''exist'', ''exit'', ''exotic'', ''expand'',
     ''expect'', ''expire'', ''explain'', ''expose'', ''express'', ''extend'', ''extra'', ''eye'', ''eyebrow'',
     ''fabric'', ''face'', ''faculty'', ''fade'', ''faint'', ''faith'', ''fall'', ''false'', ''fame'', ''family'',
     ''famous'', ''fan'', ''fancy'', ''fantasy'', ''farm'', ''fashion'', ''fat'', ''fatal'', ''father'',
     ''fatigue'', ''fault'', ''favorite'', ''feature'', ''february'', ''federal'', ''fee'', ''feed'', ''feel'',
     ''female'', ''fence'', ''festival'', ''fetch'', ''fever'', ''few'', ''fiber'', ''fiction'', ''field'',
     ''figure'', ''file'', ''film'', ''filter'', ''final'', ''find'', ''fine'', ''finger'', ''finish'', ''fire'',
     ''firm'', ''first'', ''fiscal'', ''fish'', ''fit'', ''fitness'', ''fix'', ''flag'', ''flame'', ''flash'',
     ''flat'', ''flavor'', ''flee'', ''flight'', ''flip'', ''float'', ''flock'', ''floor'', ''flower'', ''fluid'',
     ''flush'', ''fly'', ''foam'', ''focus'', ''fog'', ''foil'', ''fold'', ''follow'', ''food'', ''foot'',
     ''force'', ''forest'', ''forget'', ''fork'', ''fortune'', ''forum'', ''forward'']"

definition englishWords6 :: "string list" where
  "englishWords6 = [''fossil'', ''foster'', ''found'', ''fox'', ''fragile'', ''frame'', ''frequent'', ''fresh'', ''friend'',
     ''fringe'', ''frog'', ''front'', ''frost'', ''frown'', ''frozen'', ''fruit'', ''fuel'', ''fun'', ''funny'',
     ''furnace'', ''fury'', ''future'', ''gadget'', ''gain'', ''galaxy'', ''gallery'', ''game'', ''gap'',
     ''garage'', ''garbage'', ''garden'', ''garlic'', ''garment'', ''gas'', ''gasp'', ''gate'', ''gather'',
     ''gauge'', ''gaze'', ''general'', ''genius'', ''genre'', ''gentle'', ''genuine'', ''gesture'', ''ghost'',
     ''giant'', ''gift'', ''giggle'', ''ginger'', ''giraffe'', ''girl'', ''give'', ''glad'', ''glance'', ''glare'',
     ''glass'', ''glide'', ''glimpse'', ''globe'', ''gloom'', ''glory'', ''glove'', ''glow'', ''glue'', ''goat'',
     ''goddess'', ''gold'', ''good'', ''goose'', ''gorilla'', ''gospel'', ''gossip'', ''govern'', ''gown'',
     ''grab'', ''grace'', ''grain'', ''grant'', ''grape'', ''grass'', ''gravity'', ''great'', ''green'', ''grid'',
     ''grief'', ''grit'', ''grocery'', ''group'', ''grow'', ''grunt'', ''guard'', ''guess'', ''guide'', ''guilt'',
     ''guitar'', ''gun'', ''gym'', ''habit'', ''hair'', ''half'', ''hammer'', ''hamster'', ''hand'', ''happy'',
     ''harbor'', ''hard'', ''harsh'', ''harvest'', ''hat'', ''have'', ''hawk'', ''hazard'', ''head'', ''health'',
     ''heart'', ''heavy'', ''hedgehog'', ''height'', ''hello'', ''helmet'', ''help'', ''hen'', ''hero'', ''hidden'',
     ''high'', ''hill'', ''hint'', ''hip'', ''hire'', ''history'', ''hobby'', ''hockey'', ''hold'', ''hole'',
     ''holiday'', ''hollow'', ''home'', ''honey'', ''hood'', ''hope'', ''horn'', ''horror'', ''horse'',
     ''hospital'', ''host'', ''hotel'']"

definition englishWords7 :: "string list" where
  "englishWords7 = [''hour'', ''hover'', ''hub'', ''huge'', ''human'', ''humble'', ''humor'', ''hundred'', ''hungry'', ''hunt'',
     ''hurdle'', ''hurry'', ''hurt'', ''husband'', ''hybrid'', ''ice'', ''icon'', ''idea'', ''identify'', ''idle'',
     ''ignore'', ''ill'', ''illegal'', ''illness'', ''image'', ''imitate'', ''immense'', ''immune'', ''impact'',
     ''impose'', ''improve'', ''impulse'', ''inch'', ''include'', ''income'', ''increase'', ''index'', ''indicate'',
     ''indoor'', ''industry'', ''infant'', ''inflict'', ''inform'', ''inhale'', ''inherit'', ''initial'',
     ''inject'', ''injury'', ''inmate'', ''inner'', ''innocent'', ''input'', ''inquiry'', ''insane'', ''insect'',
     ''inside'', ''inspire'', ''install'', ''intact'', ''interest'', ''into'', ''invest'', ''invite'', ''involve'',
     ''iron'', ''island'', ''isolate'', ''issue'', ''item'', ''ivory'', ''jacket'', ''jaguar'', ''jar'', ''jazz'',
     ''jealous'', ''jeans'', ''jelly'', ''jewel'', ''job'', ''join'', ''joke'', ''journey'', ''joy'', ''judge'',
     ''juice'', ''jump'', ''jungle'', ''junior'', ''junk'', ''just'', ''kangaroo'', ''keen'', ''keep'', ''ketchup'',
     ''key'', ''kick'', ''kid'', ''kidney'', ''kind'', ''kingdom'', ''kiss'', ''kit'', ''kitchen'', ''kite'',
     ''kitten'', ''kiwi'', ''knee'', ''knife'', ''knock'', ''know'', ''lab'', ''label'', ''labor'', ''ladder'',
     ''lady'', ''lake'', ''lamp'', ''language'', ''laptop'', ''large'', ''later'', ''latin'', ''laugh'',
     ''laundry'', ''lava'', ''law'', ''lawn'', ''lawsuit'', ''layer'', ''lazy'', ''leader'', ''leaf'', ''learn'',
     ''leave'', ''lecture'', ''left'', ''leg'', ''legal'', ''legend'', ''leisure'', ''lemon'', ''lend'', ''length'',
     ''lens'', ''leopard'', ''lesson'', ''letter'']"

definition englishWords8 :: "string list" where
  "englishWords8 = [''level'', ''liar'', ''liberty'', ''library'', ''license'', ''life'', ''lift'', ''light'', ''like'', ''limb'',
     ''limit'', ''link'', ''lion'', ''liquid'', ''list'', ''little'', ''live'', ''lizard'', ''load'', ''loan'',
     ''lobster'', ''local'', ''lock'', ''logic'', ''lonely'', ''long'', ''loop'', ''lottery'', ''loud'', ''lounge'',
     ''love'', ''loyal'', ''lucky'', ''luggage'', ''lumber'', ''lunar'', ''lunch'', ''luxury'', ''lyrics'',
     ''machine'', ''mad'', ''magic'', ''magnet'', ''maid'', ''mail'', ''main'', ''major'', ''make'', ''mammal'',
     ''man'', ''manage'', ''mandate'', ''mango'', ''mansion'', ''manual'', ''maple'', ''marble'', ''march'',
     ''margin'', ''marine'', ''market'', ''marriage'', ''mask'', ''mass'', ''master'', ''match'', ''material'',
     ''math'', ''matrix'', ''matter'', ''maximum'', ''maze'', ''meadow'', ''mean'', ''measure'', ''meat'',
     ''mechanic'', ''medal'', ''media'', ''melody'', ''melt'', ''member'', ''memory'', ''mention'', ''menu'',
     ''mercy'', ''merge'', ''merit'', ''merry'', ''mesh'', ''message'', ''metal'', ''method'', ''middle'',
     ''midnight'', ''milk'', ''million'', ''mimic'', ''mind'', ''minimum'', ''minor'', ''minute'', ''miracle'',
     ''mirror'', ''misery'', ''miss'', ''mistake'', ''mix'', ''mixed'', ''mixture'', ''mobile'', ''model'',
     ''modify'', ''mom'', ''moment'', ''monitor'', ''monkey'', ''monster'', ''month'', ''moon'', ''moral'',
     ''more'', ''morning'', ''mosquito'', ''mother'', ''motion'', ''motor'', ''mountain'', ''mouse'', ''move'',
     ''movie'', ''much'', ''muffin'', ''mule'', ''multiply'', ''muscle'', ''museum'', ''mushroom'', ''music'',
     ''must'', ''mutual'', ''myself'', ''mystery'', ''myth'', ''naive'', ''name'', ''napkin'']"

definition englishWords9 :: "string list" where
  "englishWords9 = [''narrow'', ''nasty'', ''nation'', ''nature'', ''near'', ''neck'', ''need'', ''negative'', ''neglect'',
     ''neither'', ''nephew'', ''nerve'', ''nest'', ''net'', ''network'', ''neutral'', ''never'', ''news'', ''next'',
     ''nice'', ''night'', ''noble'', ''noise'', ''nominee'', ''noodle'', ''normal'', ''north'', ''nose'',
     ''notable'', ''note'', ''nothing'', ''notice'', ''novel'', ''now'', ''nuclear'', ''number'', ''nurse'',
     ''nut'', ''oak'', ''obey'', ''object'', ''oblige'', ''obscure'', ''observe'', ''obtain'', ''obvious'',
     ''occur'', ''ocean'', ''october'', ''odor'', ''off'', ''offer'', ''office'', ''often'', ''oil'', ''okay'',
     ''old'', ''olive'', ''olympic'', ''omit'', ''once'', ''one'', ''onion'', ''online'', ''only'', ''open'',
     ''opera'', ''opinion'', ''oppose'', ''option'', ''orange'', ''orbit'', ''orchard'', ''order'', ''ordinary'',
     ''organ'', ''orient'', ''original'', ''orphan'', ''ostrich'', ''other'', ''outdoor'', ''outer'', ''output'',
     ''outside'', ''oval'', ''oven'', ''over'', ''own'', ''owner'', ''oxygen'', ''oyster'', ''ozone'', ''pact'',
     ''paddle'', ''page'', ''pair'', ''palace'', ''palm'', ''panda'', ''panel'', ''panic'', ''panther'', ''paper'',
     ''parade'', ''parent'', ''park'', ''parrot'', ''party'', ''pass'', ''patch'', ''path'', ''patient'',
     ''patrol'', ''pattern'', ''pause'', ''pave'', ''payment'', ''peace'', ''peanut'', ''pear'', ''peasant'',
     ''pelican'', ''pen'', ''penalty'', ''pencil'', ''people'', ''pepper'', ''perfect'', ''permit'', ''person'',
     ''pet'', ''phone'', ''photo'', ''phrase'', ''physical'', ''piano'', ''picnic'', ''picture'', ''piece'',
     ''pig'', ''pigeon'', ''pill'', ''pilot'', ''pink'', ''pioneer'', ''pipe'']"

definition englishWords10 :: "string list" where
  "englishWords10 = [''pistol'', ''pitch'', ''pizza'', ''place'', ''planet'', ''plastic'', ''plate'', ''play'', ''please'',
     ''pledge'', ''pluck'', ''plug'', ''plunge'', ''poem'', ''poet'', ''point'', ''polar'', ''pole'', ''police'',
     ''pond'', ''pony'', ''pool'', ''popular'', ''portion'', ''position'', ''possible'', ''post'', ''potato'',
     ''pottery'', ''poverty'', ''powder'', ''power'', ''practice'', ''praise'', ''predict'', ''prefer'',
     ''prepare'', ''present'', ''pretty'', ''prevent'', ''price'', ''pride'', ''primary'', ''print'', ''priority'',
     ''prison'', ''private'', ''prize'', ''problem'', ''process'', ''produce'', ''profit'', ''program'',
     ''project'', ''promote'', ''proof'', ''property'', ''prosper'', ''protect'', ''proud'', ''provide'',
     ''public'', ''pudding'', ''pull'', ''pulp'', ''pulse'', ''pumpkin'', ''punch'', ''pupil'', ''puppy'',
     ''purchase'', ''purity'', ''purpose'', ''purse'', ''push'', ''put'', ''puzzle'', ''pyramid'', ''quality'',
     ''quantum'', ''quarter'', ''question'', ''quick'', ''quit'', ''quiz'', ''quote'', ''rabbit'', ''raccoon'',
     ''race'', ''rack'', ''radar'', ''radio'', ''rail'', ''rain'', ''raise'', ''rally'', ''ramp'', ''ranch'',
     ''random'', ''range'', ''rapid'', ''rare'', ''rate'', ''rather'', ''raven'', ''raw'', ''razor'', ''ready'',
     ''real'', ''reason'', ''rebel'', ''rebuild'', ''recall'', ''receive'', ''recipe'', ''record'', ''recycle'',
     ''reduce'', ''reflect'', ''reform'', ''refuse'', ''region'', ''regret'', ''regular'', ''reject'', ''relax'',
     ''release'', ''relief'', ''rely'', ''remain'', ''remember'', ''remind'', ''remove'', ''render'', ''renew'',
     ''rent'', ''reopen'', ''repair'', ''repeat'', ''replace'', ''report'', ''require'', ''rescue'', ''resemble'',
     ''resist'', ''resource'', ''response'']"

definition englishWords11 :: "string list" where
  "englishWords11 = [''result'', ''retire'', ''retreat'', ''return'', ''reunion'', ''reveal'', ''review'', ''reward'', ''rhythm'',
     ''rib'', ''ribbon'', ''rice'', ''rich'', ''ride'', ''ridge'', ''rifle'', ''right'', ''rigid'', ''ring'',
     ''riot'', ''ripple'', ''risk'', ''ritual'', ''rival'', ''river'', ''road'', ''roast'', ''robot'', ''robust'',
     ''rocket'', ''romance'', ''roof'', ''rookie'', ''room'', ''rose'', ''rotate'', ''rough'', ''round'', ''route'',
     ''royal'', ''rubber'', ''rude'', ''rug'', ''rule'', ''run'', ''runway'', ''rural'', ''sad'', ''saddle'',
     ''sadness'', ''safe'', ''sail'', ''salad'', ''salmon'', ''salon'', ''salt'', ''salute'', ''same'', ''sample'',
     ''sand'', ''satisfy'', ''satoshi'', ''sauce'', ''sausage'', ''save'', ''say'', ''scale'', ''scan'', ''scare'',
     ''scatter'', ''scene'', ''scheme'', ''school'', ''science'', ''scissors'', ''scorpion'', ''scout'', ''scrap'',
     ''screen'', ''script'', ''scrub'', ''sea'', ''search'', ''season'', ''seat'', ''second'', ''secret'',
     ''section'', ''security'', ''seed'', ''seek'', ''segment'', ''select'', ''sell'', ''seminar'', ''senior'',
     ''sense'', ''sentence'', ''series'', ''service'', ''session'', ''settle'', ''setup'', ''seven'', ''shadow'',
     ''shaft'', ''shallow'', ''share'', ''shed'', ''shell'', ''sheriff'', ''shield'', ''shift'', ''shine'',
     ''ship'', ''shiver'', ''shock'', ''shoe'', ''shoot'', ''shop'', ''short'', ''shoulder'', ''shove'', ''shrimp'',
     ''shrug'', ''shuffle'', ''shy'', ''sibling'', ''sick'', ''side'', ''siege'', ''sight'', ''sign'', ''silent'',
     ''silk'', ''silly'', ''silver'', ''similar'', ''simple'', ''since'', ''sing'', ''siren'', ''sister'',
     ''situate'', ''six'', ''size'', ''skate'']"

definition englishWords12 :: "string list" where
  "englishWords12 = [''sketch'', ''ski'', ''skill'', ''skin'', ''skirt'', ''skull'', ''slab'', ''slam'', ''sleep'', ''slender'',
     ''slice'', ''slide'', ''slight'', ''slim'', ''slogan'', ''slot'', ''slow'', ''slush'', ''small'', ''smart'',
     ''smile'', ''smoke'', ''smooth'', ''snack'', ''snake'', ''snap'', ''sniff'', ''snow'', ''soap'', ''soccer'',
     ''social'', ''sock'', ''soda'', ''soft'', ''solar'', ''soldier'', ''solid'', ''solution'', ''solve'',
     ''someone'', ''song'', ''soon'', ''sorry'', ''sort'', ''soul'', ''sound'', ''soup'', ''source'', ''south'',
     ''space'', ''spare'', ''spatial'', ''spawn'', ''speak'', ''special'', ''speed'', ''spell'', ''spend'',
     ''sphere'', ''spice'', ''spider'', ''spike'', ''spin'', ''spirit'', ''split'', ''spoil'', ''sponsor'',
     ''spoon'', ''sport'', ''spot'', ''spray'', ''spread'', ''spring'', ''spy'', ''square'', ''squeeze'',
     ''squirrel'', ''stable'', ''stadium'', ''staff'', ''stage'', ''stairs'', ''stamp'', ''stand'', ''start'',
     ''state'', ''stay'', ''steak'', ''steel'', ''stem'', ''step'', ''stereo'', ''stick'', ''still'', ''sting'',
     ''stock'', ''stomach'', ''stone'', ''stool'', ''story'', ''stove'', ''strategy'', ''street'', ''strike'',
     ''strong'', ''struggle'', ''student'', ''stuff'', ''stumble'', ''style'', ''subject'', ''submit'', ''subway'',
     ''success'', ''such'', ''sudden'', ''suffer'', ''sugar'', ''suggest'', ''suit'', ''summer'', ''sun'',
     ''sunny'', ''sunset'', ''super'', ''supply'', ''supreme'', ''sure'', ''surface'', ''surge'', ''surprise'',
     ''surround'', ''survey'', ''suspect'', ''sustain'', ''swallow'', ''swamp'', ''swap'', ''swarm'', ''swear'',
     ''sweet'', ''swift'', ''swim'', ''swing'', ''switch'', ''sword'', ''symbol'']"

definition englishWords13 :: "string list" where
  "englishWords13 = [''symptom'', ''syrup'', ''system'', ''table'', ''tackle'', ''tag'', ''tail'', ''talent'', ''talk'', ''tank'',
     ''tape'', ''target'', ''task'', ''taste'', ''tattoo'', ''taxi'', ''teach'', ''team'', ''tell'', ''ten'',
     ''tenant'', ''tennis'', ''tent'', ''term'', ''test'', ''text'', ''thank'', ''that'', ''theme'', ''then'',
     ''theory'', ''there'', ''they'', ''thing'', ''this'', ''thought'', ''three'', ''thrive'', ''throw'', ''thumb'',
     ''thunder'', ''ticket'', ''tide'', ''tiger'', ''tilt'', ''timber'', ''time'', ''tiny'', ''tip'', ''tired'',
     ''tissue'', ''title'', ''toast'', ''tobacco'', ''today'', ''toddler'', ''toe'', ''together'', ''toilet'',
     ''token'', ''tomato'', ''tomorrow'', ''tone'', ''tongue'', ''tonight'', ''tool'', ''tooth'', ''top'',
     ''topic'', ''topple'', ''torch'', ''tornado'', ''tortoise'', ''toss'', ''total'', ''tourist'', ''toward'',
     ''tower'', ''town'', ''toy'', ''track'', ''trade'', ''traffic'', ''tragic'', ''train'', ''transfer'', ''trap'',
     ''trash'', ''travel'', ''tray'', ''treat'', ''tree'', ''trend'', ''trial'', ''tribe'', ''trick'', ''trigger'',
     ''trim'', ''trip'', ''trophy'', ''trouble'', ''truck'', ''true'', ''truly'', ''trumpet'', ''trust'', ''truth'',
     ''try'', ''tube'', ''tuition'', ''tumble'', ''tuna'', ''tunnel'', ''turkey'', ''turn'', ''turtle'', ''twelve'',
     ''twenty'', ''twice'', ''twin'', ''twist'', ''two'', ''type'', ''typical'', ''ugly'', ''umbrella'', ''unable'',
     ''unaware'', ''uncle'', ''uncover'', ''under'', ''undo'', ''unfair'', ''unfold'', ''unhappy'', ''uniform'',
     ''unique'', ''unit'', ''universe'', ''unknown'', ''unlock'', ''until'', ''unusual'', ''unveil'', ''update'',
     ''upgrade'', ''uphold'']"

definition englishWords14 :: "string list" where
  "englishWords14 = [''upon'', ''upper'', ''upset'', ''urban'', ''urge'', ''usage'', ''use'', ''used'', ''useful'', ''useless'',
     ''usual'', ''utility'', ''vacant'', ''vacuum'', ''vague'', ''valid'', ''valley'', ''valve'', ''van'',
     ''vanish'', ''vapor'', ''various'', ''vast'', ''vault'', ''vehicle'', ''velvet'', ''vendor'', ''venture'',
     ''venue'', ''verb'', ''verify'', ''version'', ''very'', ''vessel'', ''veteran'', ''viable'', ''vibrant'',
     ''vicious'', ''victory'', ''video'', ''view'', ''village'', ''vintage'', ''violin'', ''virtual'', ''virus'',
     ''visa'', ''visit'', ''visual'', ''vital'', ''vivid'', ''vocal'', ''voice'', ''void'', ''volcano'', ''volume'',
     ''vote'', ''voyage'', ''wage'', ''wagon'', ''wait'', ''walk'', ''wall'', ''walnut'', ''want'', ''warfare'',
     ''warm'', ''warrior'', ''wash'', ''wasp'', ''waste'', ''water'', ''wave'', ''way'', ''wealth'', ''weapon'',
     ''wear'', ''weasel'', ''weather'', ''web'', ''wedding'', ''weekend'', ''weird'', ''welcome'', ''west'',
     ''wet'', ''whale'', ''what'', ''wheat'', ''wheel'', ''when'', ''where'', ''whip'', ''whisper'', ''wide'',
     ''width'', ''wife'', ''wild'', ''will'', ''win'', ''window'', ''wine'', ''wing'', ''wink'', ''winner'',
     ''winter'', ''wire'', ''wisdom'', ''wise'', ''wish'', ''witness'', ''wolf'', ''woman'', ''wonder'', ''wood'',
     ''wool'', ''word'', ''work'', ''world'', ''worry'', ''worth'', ''wrap'', ''wreck'', ''wrestle'', ''wrist'',
     ''write'', ''wrong'', ''yard'', ''year'', ''yellow'', ''you'', ''young'', ''youth'', ''zebra'', ''zero'',
     ''zone'', ''zoo'']"

definition EnglishWordList :: "string list" where
  "EnglishWordList = englishWords1 @ englishWords2 @ englishWords3 @ englishWords4 @ englishWords5 @ englishWords6 @ englishWords7 @ englishWords8 @ englishWords9 @ englishWords10 @ englishWords11 @ englishWords12 @ englishWords13 @ englishWords14"

text \<open>The alphabetical order, decided on the bits of the letters.\<close>

fun char_lt :: "char \<Rightarrow> char \<Rightarrow> bool" where
  "char_lt (Char a0 a1 a2 a3 a4 a5 a6 a7) (Char b0 b1 b2 b3 b4 b5 b6 b7) =
     (if a4 = b4 then if a3 = b3 then if a2 = b2 then if a1 = b1 then b0 \<and> \<not> a0 else b1 else b2 else b3 else b4)"

fun word_lt :: "string \<Rightarrow> string \<Rightarrow> bool" where
  "word_lt _ [] = False"
| "word_lt [] (_ # _) = True"
| "word_lt (x # xs) (y # ys) = (if x = y then word_lt xs ys else char_lt x y)"

fun ascending :: "string list \<Rightarrow> bool" where
  "ascending [] = True"
| "ascending [x] = True"
| "ascending (x # y # ys) = (word_lt x y \<and> ascending (y # ys))"

lemma words1: "length englishWords1 = 147" "ascending englishWords1"
  "list_all (list_all (\<lambda>c. c \<noteq> CHR '' '')) englishWords1"
  "hd englishWords1 = ''abandon''" "last englishWords1 = ''banner''" "englishWords1 \<noteq> []"
  by code_simp+

lemma words2: "length englishWords2 = 147" "ascending englishWords2"
  "list_all (list_all (\<lambda>c. c \<noteq> CHR '' '')) englishWords2"
  "hd englishWords2 = ''bar''" "last englishWords2 = ''caution''" "englishWords2 \<noteq> []"
  by code_simp+

lemma words3: "length englishWords3 = 147" "ascending englishWords3"
  "list_all (list_all (\<lambda>c. c \<noteq> CHR '' '')) englishWords3"
  "hd englishWords3 = ''cave''" "last englishWords3 = ''damage''" "englishWords3 \<noteq> []"
  by code_simp+

lemma words4: "length englishWords4 = 147" "ascending englishWords4"
  "list_all (list_all (\<lambda>c. c \<noteq> CHR '' '')) englishWords4"
  "hd englishWords4 = ''damp''" "last englishWords4 = ''enact''" "englishWords4 \<noteq> []"
  by code_simp+

lemma words5: "length englishWords5 = 147" "ascending englishWords5"
  "list_all (list_all (\<lambda>c. c \<noteq> CHR '' '')) englishWords5"
  "hd englishWords5 = ''end''" "last englishWords5 = ''forward''" "englishWords5 \<noteq> []"
  by code_simp+

lemma words6: "length englishWords6 = 147" "ascending englishWords6"
  "list_all (list_all (\<lambda>c. c \<noteq> CHR '' '')) englishWords6"
  "hd englishWords6 = ''fossil''" "last englishWords6 = ''hotel''" "englishWords6 \<noteq> []"
  by code_simp+

lemma words7: "length englishWords7 = 147" "ascending englishWords7"
  "list_all (list_all (\<lambda>c. c \<noteq> CHR '' '')) englishWords7"
  "hd englishWords7 = ''hour''" "last englishWords7 = ''letter''" "englishWords7 \<noteq> []"
  by code_simp+

lemma words8: "length englishWords8 = 147" "ascending englishWords8"
  "list_all (list_all (\<lambda>c. c \<noteq> CHR '' '')) englishWords8"
  "hd englishWords8 = ''level''" "last englishWords8 = ''napkin''" "englishWords8 \<noteq> []"
  by code_simp+

lemma words9: "length englishWords9 = 147" "ascending englishWords9"
  "list_all (list_all (\<lambda>c. c \<noteq> CHR '' '')) englishWords9"
  "hd englishWords9 = ''narrow''" "last englishWords9 = ''pipe''" "englishWords9 \<noteq> []"
  by code_simp+

lemma words10: "length englishWords10 = 147" "ascending englishWords10"
  "list_all (list_all (\<lambda>c. c \<noteq> CHR '' '')) englishWords10"
  "hd englishWords10 = ''pistol''" "last englishWords10 = ''response''" "englishWords10 \<noteq> []"
  by code_simp+

lemma words11: "length englishWords11 = 147" "ascending englishWords11"
  "list_all (list_all (\<lambda>c. c \<noteq> CHR '' '')) englishWords11"
  "hd englishWords11 = ''result''" "last englishWords11 = ''skate''" "englishWords11 \<noteq> []"
  by code_simp+

lemma words12: "length englishWords12 = 147" "ascending englishWords12"
  "list_all (list_all (\<lambda>c. c \<noteq> CHR '' '')) englishWords12"
  "hd englishWords12 = ''sketch''" "last englishWords12 = ''symbol''" "englishWords12 \<noteq> []"
  by code_simp+

lemma words13: "length englishWords13 = 147" "ascending englishWords13"
  "list_all (list_all (\<lambda>c. c \<noteq> CHR '' '')) englishWords13"
  "hd englishWords13 = ''symptom''" "last englishWords13 = ''uphold''" "englishWords13 \<noteq> []"
  by code_simp+

lemma words14: "length englishWords14 = 137" "ascending englishWords14"
  "list_all (list_all (\<lambda>c. c \<noteq> CHR '' '')) englishWords14"
  "hd englishWords14 = ''upon''" "last englishWords14 = ''zoo''" "englishWords14 \<noteq> []"
  by code_simp+

text \<open>Words in ascending order are different.\<close>

lemma char_lt_trans: "char_lt x y \<Longrightarrow> char_lt y z \<Longrightarrow> char_lt x z"
  by (cases x; cases y; cases z) (auto split: if_splits)

lemma char_lt_irrefl: "\<not> char_lt x x"
  by (cases x) auto

lemma word_lt_trans: "word_lt xs ys \<Longrightarrow> word_lt ys zs \<Longrightarrow> word_lt xs zs"
proof (induction xs ys arbitrary: zs rule: word_lt.induct)
  case (3 x xs y ys)
  then show ?case using char_lt_trans [of x y] char_lt_irrefl by (cases zs) (auto split: if_splits)
next
  case (2 y ys)
  then show ?case by (cases zs) auto
qed simp

lemma word_lt_irrefl: "\<not> word_lt xs xs"
  by (induction xs) auto

lemma ascending_sorted: "ascending ws \<Longrightarrow> sorted_wrt word_lt ws"
proof (induction ws rule: ascending.induct)
  case (3 x y ys)
  then show ?case using word_lt_trans [of x y] by auto
qed auto

lemma sorted_distinct: "sorted_wrt word_lt ws \<Longrightarrow> distinct ws"
  by (induction ws) (auto simp: word_lt_irrefl)

lemma ascending_append:
  "ascending xs \<Longrightarrow> ascending ys \<Longrightarrow> xs \<noteq> [] \<Longrightarrow> ys \<noteq> [] \<Longrightarrow> word_lt (last xs) (hd ys) \<Longrightarrow> ascending (xs @ ys)"
proof (induction xs rule: ascending.induct)
  case (2 x)
  then show ?case by (cases ys) auto
qed auto

lemmas english_words = words1 words2 words3 words4 words5 words6 words7 words8 words9 words10 words11 words12 words13 words14

lemma length_EnglishWordList: "length EnglishWordList = 2048"
  by (simp add: EnglishWordList_def english_words)

lemma blank_EnglishWordList: "w \<in> set EnglishWordList \<Longrightarrow> CHR '' '' \<notin> set w"
proof -
  have "list_all (list_all (\<lambda>c. c \<noteq> CHR '' '')) EnglishWordList"
    by (simp only: EnglishWordList_def list_all_append english_words simp_thms)
  then show "w \<in> set EnglishWordList \<Longrightarrow> CHR '' '' \<notin> set w" by (auto simp: list_all_iff)
qed

lemma ascending_EnglishWordList: "ascending EnglishWordList"
  unfolding EnglishWordList_def
  by (intro ascending_append english_words) (simp_all add: english_words)

lemma distinct_EnglishWordList: "distinct EnglishWordList"
  by (rule sorted_distinct [OF ascending_sorted [OF ascending_EnglishWordList]])

end
