(* ===== verification/Mnemonic.thy ===== *)
theory Mnemonic
  imports Bech32 Addresses WordList
begin

text \<open>
  Mnemonic phrases, \<^verbatim>\<open>packages/bitcoin/lib/Mnemonic.ts\<close>: entropy and a few bits of its hash written as words of
  eleven bits, and read again.  The word list is an argument, as in the code, where the English list is its default.
  SHA-256, the normalisation and encoding of text and PBKDF2 are parameters.
\<close>

section \<open>Phrases\<close>

text \<open>\<^verbatim>\<open>convert\<close> is the loop of Bech32's regrouping, with the bits left over as its second result.\<close>

definition mn_convert :: "nat list \<Rightarrow> nat \<Rightarrow> nat \<Rightarrow> nat list \<times> nat option" where
  "mn_convert inWords inSize outSize =
     (let (outWords, buf, bufBits) = cw_loop inSize outSize inWords 0 0
      in (outWords, if bufBits \<noteq> 0 then Some (unat (buf AND (push_bit bufBits 1 - 1))) else None))"

primrec findWord :: "string list \<Rightarrow> string \<Rightarrow> nat option" where
  "findWord [] w = None"
| "findWord (p # ps) w = (if p = w then Some 0 else map_option Suc (findWord ps w))"

fun joinWords :: "string list \<Rightarrow> string" where
  "joinWords [] = []"
| "joinWords [w] = w"
| "joinWords (w # ws) = w @ '' '' @ joinWords ws"

definition phraseToSeed ::
  "(string \<Rightarrow> string) \<Rightarrow> (string \<Rightarrow> buffer) \<Rightarrow> (buffer \<Rightarrow> buffer \<Rightarrow> nat \<Rightarrow> nat \<Rightarrow> string \<Rightarrow> buffer) \<Rightarrow> string \<Rightarrow> string option \<Rightarrow> buffer" where
  "phraseToSeed nfkd utf8 pbkdf2Sync phrase password =
     (let key = utf8 (nfkd phrase);
          salt = utf8 (nfkd (''mnemonic'' @ (case password of None \<Rightarrow> [] | Some p \<Rightarrow> p)))
      in pbkdf2Sync key salt 2048 64 ''sha512'')"

definition entropyToPhrase :: "(buffer \<Rightarrow> buffer) \<Rightarrow> buffer \<Rightarrow> string list \<Rightarrow> string res" where
  "entropyToPhrase sha256 entropy wordlist =
     (if length wordlist \<noteq> 2048 then Inl (BitcoinError ''InvalidMnemonicWordList'')
      else if length entropy mod 4 > 0 \<or> length entropy < 16 \<or> length entropy > 32 then Inl (BitcoinError ''InvalidMnemonicEntropy'')
      else let input = map unat entropy @ [unat (sha256 entropy ! 0)];
               (indices, _) = mn_convert input 8 11
           in Inr (joinWords (map (\<lambda>i. wordlist ! i) indices)))"

text \<open>
  The number of checksum bits is \<open>length entropy / 4\<close>; \<^verbatim>\<open>>>\<close> truncates \<open>8 - length entropy / 4\<close>
  to an integer and takes it modulo 32.
\<close>

definition checksumShift :: "nat \<Rightarrow> nat" where
  "checksumShift len = (if len \<le> 32 then (32 - len) div 4 else nat (- int ((len - 32) div 4) mod 32))"

definition wordIndices :: "string list \<Rightarrow> string list \<Rightarrow> nat list res" where
  "wordIndices wordlist words = map_res (\<lambda>w. case findWord wordlist w of
       None \<Rightarrow> Inl (BitcoinError ''InvalidMnemonicWord'') | Some index \<Rightarrow> Inr index) words"

text \<open>When no bits are left over, the checksum is the last word; there is one, as a phrase has at least one word.\<close>

definition phrase_bits :: "nat list \<Rightarrow> nat list \<times> nat" where
  "phrase_bits indices =
     (let results = mn_convert indices 11 8
      in case snd results of None \<Rightarrow> (butlast (fst results), last (fst results)) | Some checksum \<Rightarrow> (fst results, checksum))"

definition phraseToEntropy :: "(buffer \<Rightarrow> buffer) \<Rightarrow> string \<Rightarrow> string list \<Rightarrow> buffer res" where
  "phraseToEntropy sha256 phrase wordlist =
     (if length wordlist \<noteq> 2048 then Inl (BitcoinError ''InvalidMnemonicWordList'')
      else bind_res (wordIndices wordlist (splitOn (CHR '' '') phrase)) (\<lambda>indices.
        let (out, checksum) = phrase_bits indices;
            entropy = map of_nat out
        in if drop_bit (checksumShift (length entropy)) (unat (sha256 entropy ! 0)) \<noteq> checksum
           then Inl (BitcoinError ''InvalidMnemonicChecksum'') else Inr entropy))"

section \<open>Words and their indices\<close>

definition wordlist_ok :: "string list \<Rightarrow> bool" where
  "wordlist_ok wl \<longleftrightarrow> length wl = 2048 \<and> distinct wl \<and> (\<forall>w\<in>set wl. CHR '' '' \<notin> set w)"

lemma wordlist_ok_English: "wordlist_ok EnglishWordList"
  by (simp add: wordlist_ok_def length_EnglishWordList distinct_EnglishWordList blank_EnglishWordList)

lemma findWord_Some: "findWord wl w = Some i \<Longrightarrow> i < length wl \<and> wl ! i = w"
  by (induction wl arbitrary: i) (auto split: if_splits)

lemma findWord_nth: "distinct wl \<Longrightarrow> i < length wl \<Longrightarrow> findWord wl (wl ! i) = Some i"
proof (induction wl arbitrary: i)
  case (Cons w wl)
  then show ?case by (cases i) auto
qed simp

lemma splitOn_joinWords:
  "\<forall>w\<in>set ws. CHR '' '' \<notin> set w \<Longrightarrow> ws \<noteq> [] \<Longrightarrow> splitOn (CHR '' '') (joinWords ws) = ws"
  by (induction ws rule: joinWords.induct) simp_all

lemma joinWords_splitOn: "joinWords (splitOn (CHR '' '') s) = s"
proof (induction s)
  case (Cons c s)
  then show ?case by (cases "splitOn (CHR '' '') s" rule: joinWords.cases) auto
qed simp

lemma wordIndices_Inr:
  "wordIndices wl ws = Inr is \<Longrightarrow> length is = length ws \<and> (\<forall>i\<in>set is. i < length wl) \<and> map (\<lambda>i. wl ! i) is = ws"
  unfolding wordIndices_def
  by (induction ws arbitrary: "is") (auto simp: bind_res_eq_Inr dest: findWord_Some split: option.splits)

lemma wordIndices_nth:
  "distinct wl \<Longrightarrow> \<forall>i\<in>set is. i < length wl \<Longrightarrow> wordIndices wl (map (\<lambda>i. wl ! i) is) = Inr is"
  unfolding wordIndices_def by (induction "is") (auto simp: findWord_nth)

section \<open>The bits of a phrase\<close>

lemma mn_convert_spec:
  assumes "\<forall>d\<in>set data. d < 2 ^ i" "0 < n" "i + n \<le> 32"
  obtains out b low where "mn_convert data i n = (out, if b \<noteq> 0 then Some low else None)" "b < n" "low < 2 ^ b"
    "\<forall>w\<in>set out. w < 2 ^ n" "n * length out + b = i * length data" "word_num n out * 2 ^ b + low = word_num i data"
proof -
  obtain r v b where l: "cw_loop i n data 0 0 = (r, v, b)" by (metis prod_cases3)
  have S: "b < n \<and> (\<forall>w\<in>set r. w < 2 ^ n) \<and> n * length r + b = i * length data
    \<and> word_num n r * 2 ^ b + unat v mod 2 ^ b = word_num i data"
    using cw_loop_spec [OF l] assms by simp
  have "unat (v AND mask b) = unat v mod 2 ^ b" using extract_bits [of 0 b v] S assms(3) by simp
  then show ?thesis using that [of r b "unat v mod 2 ^ b"] l S by (simp add: mn_convert_def mask_word)
qed

text \<open>What the words of a phrase spell: the entropy and the first bits of its hash.\<close>

definition phrase_num :: "(buffer \<Rightarrow> buffer) \<Rightarrow> buffer \<Rightarrow> nat" where
  "phrase_num sha256 e = (let q = length e div 4 in
     word_num 8 (map unat e) * 2 ^ q + unat (sha256 e ! 0) div 2 ^ (8 - q))"

definition entropy_ok :: "buffer \<Rightarrow> bool" where
  "entropy_ok e \<longleftrightarrow> length e mod 4 = 0 \<and> 16 \<le> length e \<and> length e \<le> 32"

definition phrase_words :: "(buffer \<Rightarrow> buffer) \<Rightarrow> buffer \<Rightarrow> nat list \<Rightarrow> bool" where
  "phrase_words sha256 e ws \<longleftrightarrow> length ws = 3 * (length e div 4) \<and> (\<forall>w\<in>set ws. w < 2 ^ 11) \<and> word_num 11 ws = phrase_num sha256 e"

lemma phrase_words_unique: "phrase_words sha256 e ws \<Longrightarrow> phrase_words sha256 e vs \<Longrightarrow> ws = vs"
  by (rule word_num_inj [of ws vs 11]) (auto simp: phrase_words_def)

lemma entropy_quarters:
  assumes "entropy_ok e"
  obtains q where "length e = 4 * q" "4 \<le> q" "q \<le> 8" "length e div 4 = q"
  using assms by (auto simp: entropy_ok_def intro!: that [of "length e div 4"])

lemma convert_entropy:
  assumes "entropy_ok e"
  obtains ws left where "mn_convert (map unat e @ [unat (sha256 e ! 0)]) 8 11 = (ws, left)" "phrase_words sha256 e ws"
proof -
  obtain q where q: "length e = 4 * q" "4 \<le> q" "q \<le> 8" "length e div 4 = q" using assms by (rule entropy_quarters)
  let ?c = "unat (sha256 e ! 0 :: 8 word)" and ?N = "word_num 8 (map unat e)"
  have c: "?c < 2 ^ 8" by simp
  have "\<forall>d\<in>set (map unat e @ [?c]). d < 2 ^ 8" using c by auto
  then obtain ws b low where w: "mn_convert (map unat e @ [?c]) 8 11 = (ws, if b \<noteq> 0 then Some low else None)" "b < 11" "low < 2 ^ b"
    "\<forall>w\<in>set ws. w < 2 ^ 11" "11 * length ws + b = 8 * length (map unat e @ [?c])"
    "word_num 11 ws * 2 ^ b + low = word_num 8 (map unat e @ [?c])"
    by (rule mn_convert_spec [where n = 11]) simp_all
  have "11 * length ws + b = 11 * (3 * q) + (8 - q)" using w(5) q(1,3) by simp
  then have b: "length ws = 3 * q" "b = 8 - q" using quotient_unique [of 11 "length ws" b "3 * q" "8 - q"] w(2) by auto
  have "word_num 11 ws * 2 ^ (8 - q) + low = ?N * 2 ^ 8 + ?c"
    using w(6) b by (simp add: word_num_append word_num_Cons)
  also have "\<dots> = (?N * 2 ^ q) * 2 ^ (8 - q) + ?c" using q(3) by (simp flip: power_add)
  finally have "(word_num 11 ws * 2 ^ (8 - q) + low) div 2 ^ (8 - q) = ((?N * 2 ^ q) * 2 ^ (8 - q) + ?c) div 2 ^ (8 - q)" by simp
  then have "word_num 11 ws = ?N * 2 ^ q + ?c div 2 ^ (8 - q)" using w(3) b by simp
  then have "phrase_words sha256 e ws" using w(4) b q(4) by (simp add: phrase_words_def phrase_num_def Let_def)
  then show ?thesis using that w(1) by blast
qed

lemma phraseToEntropy_Inr:
  "phraseToEntropy sha256 phrase wl = Inr e \<longleftrightarrow> length wl = 2048 \<and> (\<exists>is out c. wordIndices wl (splitOn (CHR '' '') phrase) = Inr is
     \<and> phrase_bits is = (out, c) \<and> e = map of_nat out \<and> drop_bit (checksumShift (length e)) (unat (sha256 e ! 0)) = c)"
proof (cases "wordIndices wl (splitOn (CHR '' '') phrase)")
  case (Inr indices)
  then show ?thesis by (cases "phrase_bits indices") (auto simp: phraseToEntropy_def Let_def split: if_splits)
qed (simp add: phraseToEntropy_def)

lemma checksumShift_ok: "entropy_ok e \<Longrightarrow> checksumShift (length e) = 8 - length e div 4"
  by (elim entropy_quarters) (simp add: checksumShift_def)

lemma map_of_nat_unat: "\<forall>x\<in>set xs. x < 2 ^ 8 \<Longrightarrow> map of_nat xs = (e :: buffer) \<longleftrightarrow> xs = map unat e"
  by (auto simp: o_def unat_of_nat intro!: map_idI [symmetric])

lemma phrase_bits_words:
  assumes "entropy_ok e" "\<forall>w\<in>set ws. w < 2 ^ 11" "phrase_words sha256 e ws"
  shows "phrase_bits ws = (map unat e, unat (sha256 e ! 0) div 2 ^ (8 - length e div 4))"
proof -
  obtain q where q: "length e = 4 * q" "4 \<le> q" "q \<le> 8" "length e div 4 = q" using assms(1) by (rule entropy_quarters)
  let ?c = "unat (sha256 e ! 0 :: 8 word)" and ?N = "word_num 8 (map unat e)"
  have c: "?c < 2 ^ 8" by simp
  obtain out b low where w: "mn_convert ws 11 8 = (out, if b \<noteq> 0 then Some low else None)" "b < 8" "low < 2 ^ b"
    "\<forall>w\<in>set out. w < 2 ^ 8" "8 * length out + b = 11 * length ws" "word_num 8 out * 2 ^ b + low = word_num 11 ws"
    using assms(2) by (rule mn_convert_spec [where n = 8]) simp_all
  have ws: "length ws = 3 * q" "word_num 11 ws = ?N * 2 ^ q + ?c div 2 ^ (8 - q)"
    using assms(3) q(4) by (simp_all add: phrase_words_def phrase_num_def Let_def)
  show ?thesis
  proof (cases "q = 8")
    case True
    have "8 * length out + b = 8 * 33 + 0" using w(5) ws(1) True by simp
    then have b: "length out = 33" "b = 0" using quotient_unique [of 8 "length out" b 33 0] w(2) by auto
    have "word_num 8 out = word_num 8 (map unat e @ [?c])"
      using w(3,6) ws(2) b True by (simp add: word_num_append word_num_Cons)
    then have "out = map unat e @ [?c]" using w(4) c b q True by (intro word_num_inj [of out _ 8]) auto
    then show ?thesis using w(1) b q True by (simp add: phrase_bits_def)
  next
    case False
    have "8 * length out + b = 8 * (4 * q) + q" using w(5) ws(1) by simp
    then have b: "length out = 4 * q" "b = q" using quotient_unique [of 8 "length out" b "4 * q" q] w(2) False q by auto
    have "?c div 2 ^ (8 - q) < 2 ^ q" using c q(3) by (simp add: div_less_iff_less_mult flip: power_add)
    then have e: "word_num 8 out = ?N \<and> low = ?c div 2 ^ (8 - q)"
      using w(3,6) ws(2) b quotient_unique [of "2 ^ q" "word_num 8 out" low ?N "?c div 2 ^ (8 - q)"] by (simp add: mult.commute)
    then have "out = map unat e" using w(4) b q by (intro word_num_inj [of out _ 8]) auto
    then show ?thesis using w(1) b e q by (simp add: phrase_bits_def)
  qed
qed

lemma words_of_bits:
  assumes "entropy_ok e" "\<forall>w\<in>set ws. w < 2 ^ 11" "phrase_bits ws = (out, c)" "map of_nat out = e"
    "unat (sha256 e ! 0) div 2 ^ (8 - length e div 4) = c"
  shows "phrase_words sha256 e ws"
proof -
  obtain q where q: "length e = 4 * q" "4 \<le> q" "q \<le> 8" "length e div 4 = q" using assms(1) by (rule entropy_quarters)
  obtain o' b low where w: "mn_convert ws 11 8 = (o', if b \<noteq> 0 then Some low else None)" "b < 8" "low < 2 ^ b"
    "\<forall>w\<in>set o'. w < 2 ^ 8" "8 * length o' + b = 11 * length ws" "word_num 8 o' * 2 ^ b + low = word_num 11 ws"
    using assms(2) by (rule mn_convert_spec [where n = 8]) simp_all
  have l: "length out = 4 * q" using assms(4) q(1) by auto
  have five: "q = 4 \<or> q = 5 \<or> q = 6 \<or> q = 7 \<or> q = 8" using q(2,3) by auto
  show ?thesis
  proof (cases "b = 0")
    case False
    then have o: "o' = out" "c = low" using assms(3) w(1) by (simp_all add: phrase_bits_def)
    then have "32 * q + b = 11 * length ws" using w(5) l by simp
    then have b: "b = q \<and> length ws = 3 * q" using w(2) False five by (elim disjE) presburger+
    have "out = map unat e" using map_of_nat_unat [of out e] w(4) o(1) assms(4) by simp
    then show ?thesis using w(6) b o assms(2,5) q(4) by (simp add: phrase_words_def phrase_num_def Let_def)
  next
    case True
    then have o: "butlast o' = out" "last o' = c" using assms(3) w(1) by (simp_all add: phrase_bits_def)
    then have "length o' = 4 * q + 1" using l w(5) True q(2) length_butlast [of o'] w(5) by auto
    then have "32 * q + 8 = 11 * length ws" "o' \<noteq> []" using w(5) True by auto
    then have b: "q = 8" "length ws = 24" using five by (elim disjE; presburger)+
    have a: "o' = out @ [c]" using o \<open>o' \<noteq> []\<close> append_butlast_last_id [of o'] by simp
    then have "out = map unat e" using map_of_nat_unat [of out e] w(4) assms(4) by simp
    moreover have "word_num 8 o' = word_num 11 ws" using w(3,6) True by simp
    ultimately show ?thesis using a b assms(2,5) q(4)
      by (simp add: phrase_words_def phrase_num_def Let_def word_num_append word_num_Cons)
  qed
qed

text \<open>
  C31: A phrase is read as an entropy of 16 to 32 bytes, in steps of four, exactly when it is the phrase which is
  written for that entropy: nothing else is accepted for it.
\<close>

theorem mnemonic_exact:
  assumes "wordlist_ok wl" "entropy_ok e"
  shows "phraseToEntropy sha256 phrase wl = Inr e \<longleftrightarrow> entropyToPhrase sha256 e wl = Inr phrase"
proof -
  have wl: "length wl = 2048" "distinct wl" "\<And>w. w \<in> set wl \<Longrightarrow> CHR '' '' \<notin> set w" using assms(1) by (auto simp: wordlist_ok_def)
  obtain ws left where ws: "mn_convert (map unat e @ [unat (sha256 e ! 0)]) 8 11 = (ws, left)" "phrase_words sha256 e ws"
    using assms(2) by (rule convert_entropy)
  have small: "\<forall>w\<in>set ws. w < 2 ^ 11" using ws(2) by (simp add: phrase_words_def)
  have "length ws = 3 * (length e div 4)" using ws(2) by (simp add: phrase_words_def)
  then have "ws \<noteq> []" using assms(2) by (auto simp: entropy_ok_def)
  let ?p = "joinWords (map (\<lambda>i. wl ! i) ws)"
  have enc: "entropyToPhrase sha256 e wl = Inr ?p"
    using assms(2) wl(1) ws(1) by (simp add: entropyToPhrase_def entropy_ok_def)
  have "splitOn (CHR '' '') ?p = map (\<lambda>i. wl ! i) ws"
    using small \<open>ws \<noteq> []\<close> wl by (intro splitOn_joinWords) auto
  then have "wordIndices wl (splitOn (CHR '' '') ?p) = Inr ws" using small wl by (simp add: wordIndices_nth)
  then have dec: "phraseToEntropy sha256 ?p wl = Inr e"
    using phrase_bits_words [OF assms(2) small ws(2)] wl(1)
    by (simp add: phraseToEntropy_Inr o_def checksumShift_ok [OF assms(2)] drop_bit_eq_div)
  have "phrase = ?p" if r: "phraseToEntropy sha256 phrase wl = Inr e"
  proof -
    obtain "is" out c where i: "wordIndices wl (splitOn (CHR '' '') phrase) = Inr is" "phrase_bits is = (out, c)"
      "e = map of_nat out" "drop_bit (checksumShift (length e)) (unat (sha256 e ! 0)) = c"
      using r unfolding phraseToEntropy_Inr by blast
    have w: "\<forall>i\<in>set is. i < 2 ^ 11" "map (\<lambda>i. wl ! i) is = splitOn (CHR '' '') phrase"
      using wordIndices_Inr [OF i(1)] wl(1) by simp_all
    have "phrase_words sha256 e is" using i checksumShift_ok [OF assms(2)]
      by (intro words_of_bits [OF assms(2) w(1) i(2)]) (simp_all add: drop_bit_eq_div)
    then have "is = ws" using ws(2) by (rule phrase_words_unique)
    then show ?thesis using w(2) joinWords_splitOn [of phrase] by simp
  qed
  then show ?thesis using enc dec by auto
qed

text \<open>The entropy of twelve times the first English word, under a hash of zeros.\<close>

lemma mnemonic_exact_witness:
  "\<exists>phrase. entropyToPhrase (\<lambda>_. replicate 32 0) (replicate 16 0) EnglishWordList = Inr phrase
     \<and> phraseToEntropy (\<lambda>_. replicate 32 0) phrase EnglishWordList = Inr (replicate 16 0)"
proof -
  have ok: "entropy_ok (replicate 16 0)" by (simp add: entropy_ok_def)
  obtain phrase where "entropyToPhrase (\<lambda>_. replicate 32 0) (replicate 16 0) EnglishWordList = Inr phrase"
    by (simp add: entropyToPhrase_def length_EnglishWordList split_def)
  then show ?thesis using mnemonic_exact [OF wordlist_ok_English ok, of "\<lambda>_. replicate 32 0" phrase] by blast
qed

text \<open>Phrases of other lengths are read too: three words give four bytes, although no entropy of four bytes is written.\<close>

lemma short_phrase_accepted:
  "phraseToEntropy (\<lambda>_. replicate 32 0) ''abandon abandon abandon'' EnglishWordList = Inr [0, 0, 0, 0]"
  "entropyToPhrase (\<lambda>_. replicate 32 0) [0, 0, 0, 0] EnglishWordList = Inl (BitcoinError ''InvalidMnemonicEntropy'')"
proof -
  have "EnglishWordList = ''abandon'' # tl EnglishWordList"
    using hd_Cons_tl [of EnglishWordList] english_words by (auto simp: EnglishWordList_def)
  then have f: "findWord EnglishWordList ''abandon'' = Some 0" by (metis findWord.simps(2))
  have "splitOn (CHR '' '') ''abandon abandon abandon'' = [''abandon'', ''abandon'', ''abandon'']" by simp
  then have i: "wordIndices EnglishWordList (splitOn (CHR '' '') ''abandon abandon abandon'') = Inr [0, 0, 0]"
    by (simp add: wordIndices_def f)
  have b: "phrase_bits [0, 0, 0] = ([0, 0, 0, 0], 0)" by code_simp
  show "phraseToEntropy (\<lambda>_. replicate 32 0) ''abandon abandon abandon'' EnglishWordList = Inr [0, 0, 0, 0]"
    using i b by (auto simp: phraseToEntropy_Inr length_EnglishWordList)
  show "entropyToPhrase (\<lambda>_. replicate 32 0) [0, 0, 0, 0] EnglishWordList = Inl (BitcoinError ''InvalidMnemonicEntropy'')"
    by (simp add: entropyToPhrase_def length_EnglishWordList)
qed

end
