(* ===== verification/Invoice.thy ===== *)
theory Invoice
  imports Bech32 GossipQueries
begin

text \<open>
  Payment requests, \<^verbatim>\<open>packages/invoice/lib\<close>: the cursor over words of five bits, the amount in the human readable
  part, the encoder, the decoder and the invoice with its fields.  Hashes, signatures, UTF-8 and the logarithm
  of JavaScript are parameters.  The values of the fields have the types that the setters and the decoder give them.
\<close>

section \<open>The cursor\<close>

record word_cursor =
  wc_words :: "5 word list"
  wc_position :: nat

definition newWordCursor :: "5 word list \<Rightarrow> word_cursor" where
  "newWordCursor words = \<lparr>wc_words = words, wc_position = 0\<rparr>"

definition wordsRemaining :: "word_cursor \<Rightarrow> int" where
  "wordsRemaining c = int (length (wc_words c)) - int (wc_position c)"

definition wc_merge :: "5 word list \<Rightarrow> (word_cursor, unit) io" where
  "wc_merge words = update_io (\<lambda>c. c\<lparr>wc_words := wc_words c @ words\<rparr>)"

text \<open>The words of a 32-bit integer, filled in from the last to the first.\<close>

primrec uintWords :: "nat \<Rightarrow> 32 word \<Rightarrow> 5 word list" where
  "uintWords 0 val = []"
| "uintWords (Suc n) val = uintWords n (signed_drop_bit 5 val) @ [ucast (val AND (push_bit 5 1 - 1))]"

definition wc_writeUIntBE :: "int \<Rightarrow> nat \<Rightarrow> (word_cursor, unit) io" where
  "wc_writeUIntBE val wordLen =
     (if wordLen = 0 then throw_io (JsError ''wordLen must be provided'') else wc_merge (uintWords wordLen (word_of_int val)))"

definition wc_writeBytes :: "buffer \<Rightarrow> (word_cursor, unit) io" where
  "wc_writeBytes buf = bind_io (lift_io (bufferToWords buf True)) (\<lambda>words. wc_merge (map of_nat words))"

text \<open>A negative number of words moves the position back, in the code below zero when the words are too few.\<close>

definition wc_take :: "int \<Rightarrow> (word_cursor, 5 word list) io" where
  "wc_take numWords = (\<lambda>c. (Inr (slice (int (wc_position c)) (int (wc_position c) + numWords) (wc_words c)),
     c\<lparr>wc_position := nat (int (wc_position c) + numWords)\<rparr>))"

definition wordsValue :: "5 word list \<Rightarrow> 32 word" where
  "wordsValue words = foldl (\<lambda>val word. push_bit 5 val OR ucast word) 0 words"

definition wc_readUIntBE :: "int \<Rightarrow> (word_cursor, int) io" where
  "wc_readUIntBE numWords = bind_io (wc_take numWords) (\<lambda>words. return_io (sint (wordsValue words)))"

definition wc_readBytes :: "int \<Rightarrow> bool \<Rightarrow> (word_cursor, buffer) io" where
  "wc_readBytes numWords pad = bind_io (wc_take numWords) (\<lambda>words. lift_io (wordsToBuffer (map unat words) pad))"

section \<open>Amounts\<close>

definition hrpToPico :: "string \<Rightarrow> int res" where
  "hrpToPico hrpMultiplier =
     (if hrpMultiplier = [] then Inr (10 ^ 12)
      else if hrpMultiplier = ''m'' then Inr (10 ^ 9)
      else if hrpMultiplier = ''u'' then Inr (10 ^ 6)
      else if hrpMultiplier = ''n'' then Inr (10 ^ 3)
      else if hrpMultiplier = ''p'' then Inr 1
      else Inl (JsError ''Invalid multiplier''))"

definition lsdIndex :: "string \<Rightarrow> nat res" where
  "lsdIndex msatStr =
     (let zeros = length (takeWhile (\<lambda>c. c = CHR ''0'') (rev msatStr))
      in if zeros = length msatStr then Inl (JsError ''Cannot encode 0'') else Inr zeros)"

definition minimumHrpMultiplier :: "nat \<Rightarrow> string" where
  "minimumHrpMultiplier lsd =
     (if lsd < 3 then ''p'' else if lsd < 6 then ''n'' else if lsd < 9 then ''u'' else if lsd < 12 then ''m'' else [])"

definition bigToString :: "int \<Rightarrow> string" where
  "bigToString v = (if v < 0 then ''-'' @ decString (nat (- v)) else decString (nat v))"

text \<open>\<^verbatim>\<open>BigInt\<close> of a decimal number with an optional sign.\<close>

definition bigOfString :: "string \<Rightarrow> int" where
  "bigOfString s = (case s of [] \<Rightarrow> 0 | c # cs \<Rightarrow> if c = CHR ''-'' then - int (parseDec cs) else int (parseDec s))"

definition encodePico :: "string option \<Rightarrow> string option res" where
  "encodePico pico = (case pico of None \<Rightarrow> Inr None
     | Some s \<Rightarrow> if s = [] then Inr None
         else bind_res (lsdIndex s) (\<lambda>lsd.
           let hrpMultiplier = minimumHrpMultiplier lsd
           in bind_res (hrpToPico hrpMultiplier) (\<lambda>p. Inr (Some (bigToString (bigDiv (bigOfString s) p) @ hrpMultiplier)))))"

text \<open>The network and the amount of a prefix; the last letter behind the digits is the multiplier.\<close>

record prefix_state =
  ps_network :: string
  ps_tempValue :: string
  ps_multiplier :: "char option"
  ps_hasNetwork :: bool
  ps_hasAmount :: bool

definition prefixChar :: "prefix_state \<Rightarrow> char \<Rightarrow> prefix_state res" where
  "prefixChar s c =
     (let letter = isLower c;
          s = (if \<not> ps_hasNetwork s then (if letter then s\<lparr>ps_network := ps_network s @ [c]\<rparr> else s\<lparr>ps_hasNetwork := True\<rparr>) else s)
      in bind_res (if ps_hasNetwork s \<and> \<not> ps_hasAmount s
           then (if isDec c then Inr (s\<lparr>ps_tempValue := ps_tempValue s @ [c]\<rparr>)
                 else if ps_tempValue s \<noteq> [] then Inr (s\<lparr>ps_hasAmount := True\<rparr>)
                 else Inl (JsError ''Invalid amount''))
           else Inr s) (\<lambda>s.
         if ps_hasAmount s
         then (if letter then Inr (s\<lparr>ps_multiplier := Some c\<rparr>) else Inl (JsError ''Invalid character''))
         else Inr s))"

primrec prefixChars :: "string \<Rightarrow> prefix_state \<Rightarrow> prefix_state res" where
  "prefixChars [] s = Inr s"
| "prefixChars (c # cs) s = bind_res (prefixChar s c) (prefixChars cs)"

definition isValidNetwork :: "string \<Rightarrow> bool" where
  "isValidNetwork network \<longleftrightarrow> network \<in> set [''bc'', ''tb'', ''bcrt'', ''sb'', ''tbs'']"

definition isValidValue :: "int option \<Rightarrow> bool" where
  "isValidValue v \<longleftrightarrow> (case v of None \<Rightarrow> True | Some v \<Rightarrow> v > 0)"

definition parsePrefix :: "string \<Rightarrow> (string \<times> int option) res" where
  "parsePrefix prefix =
     (if take 2 prefix \<noteq> ''ln'' then Inl (JsError ''Invalid prefix'')
      else bind_res (prefixChars (drop 2 prefix) \<lparr>ps_network = [], ps_tempValue = [], ps_multiplier = None,
          ps_hasNetwork = False, ps_hasAmount = False\<rparr>) (\<lambda>s.
        bind_res (if ps_tempValue s = [] then Inr None
          else bind_res (hrpToPico (case ps_multiplier s of None \<Rightarrow> [] | Some c \<Rightarrow> [c])) (\<lambda>p.
            Inr (Some (int (parseDec (ps_tempValue s)) * p)))) (\<lambda>v.
        if \<not> isValidNetwork (ps_network s) then Inl (JsError ''Invalid network'')
        else if \<not> isValidValue v then Inl (JsError ''Invalid amount'')
        else Inr (ps_network s, v))))"

section \<open>Invoices\<close>

record route =
  rt_pubkey :: buffer
  rt_short_channel_id :: buffer
  rt_fee_base_msat :: nat
  rt_fee_proportional_millionths :: nat
  rt_cltv_expiry_delta :: nat

text \<open>A fallback address whose text is not recognised has neither a version nor an address.\<close>

datatype invoice_field =
    PaymentHash buffer
  | RouteField "route list"
  | Expiry int
  | FallbackAddressField "int option" "buffer option"
  | ShortDesc string
  | PayeeNode buffer
  | HashDesc buffer
  | MinFinalCltvExpiry int
  | OtherField nat buffer

fun field_type :: "invoice_field \<Rightarrow> nat" where
  "field_type (PaymentHash _) = 1"
| "field_type (RouteField _) = 3"
| "field_type (Expiry _) = 6"
| "field_type (FallbackAddressField _ _) = 9"
| "field_type (ShortDesc _) = 13"
| "field_type (PayeeNode _) = 19"
| "field_type (HashDesc _) = 23"
| "field_type (MinFinalCltvExpiry _) = 24"
| "field_type (OtherField t _) = t"

record invoice_signature =
  sg_r :: buffer
  sg_s :: buffer
  sg_recoveryFlag :: int

record invoice =
  inv_network :: string
  inv_timestamp :: int
  inv_fields :: "invoice_field list"
  inv_unknownFields :: "invoice_field list"
  inv_signature :: "invoice_signature option"
  inv_pubkey :: "buffer option"
  inv_hashData :: "buffer option"
  inv_usedSigRecovery :: "bool option"
  inv_value :: "int option"

record invoice_crypto =
  ic_sha256 :: "buffer \<Rightarrow> buffer"
  ic_ecdsaSign :: "buffer \<Rightarrow> buffer \<Rightarrow> (buffer \<times> nat) res"
  ic_ecdsaRecovery :: "buffer \<Rightarrow> buffer \<Rightarrow> int \<Rightarrow> buffer res"
  ic_ecdsaVerify :: "buffer \<Rightarrow> buffer \<Rightarrow> buffer \<Rightarrow> bool res"

section \<open>The encoder\<close>

text \<open>
  \<^verbatim>\<open>sizeofNum\<close> with \<open>log32 n\<close> for \<^verbatim>\<open>Math.floor(Math.log(n) / Math.log(2) / 5)\<close>; of a negative number it
  is \<^verbatim>\<open>NaN\<close>, \<open>None\<close> here, which is written as zero and is no length.
\<close>

definition sizeofNum :: "(nat \<Rightarrow> nat) \<Rightarrow> int \<Rightarrow> nat option" where
  "sizeofNum log32 num = (if num = 0 then Some 1 else if num < 0 then None else Some (log32 (nat num) + 1))"

definition writeFieldHead :: "nat \<Rightarrow> nat \<Rightarrow> (word_cursor, unit) io" where
  "writeFieldHead type dataLen = then_io (wc_writeUIntBE (int type) 1) (wc_writeUIntBE (int dataLen) 2)"

definition writeData :: "nat \<Rightarrow> buffer \<Rightarrow> (word_cursor, unit) io" where
  "writeData type buf = then_io (writeFieldHead type (sizeofBytes (length buf))) (wc_writeBytes buf)"

definition writeNumber :: "(nat \<Rightarrow> nat) \<Rightarrow> nat \<Rightarrow> int \<Rightarrow> (word_cursor, unit) io" where
  "writeNumber log32 type num =
     (let dataLen = (case sizeofNum log32 num of None \<Rightarrow> 0 | Some n \<Rightarrow> n)
      in then_io (writeFieldHead type dataLen) (wc_writeUIntBE num dataLen))"

text \<open>\<^verbatim>\<open>writeUInt32BE\<close> and \<^verbatim>\<open>writeUInt16BE\<close> into a buffer of a fixed length.\<close>

definition numberInto :: "nat \<Rightarrow> nat \<Rightarrow> nat \<Rightarrow> buffer \<Rightarrow> buffer res" where
  "numberInto n v pos buf =
     (if v \<ge> 256 ^ n \<or> pos + n > length buf then Inl RangeError else Inr (copyInto (be_bytes n v) buf pos))"

primrec routesInto :: "route list \<Rightarrow> nat \<Rightarrow> buffer \<Rightarrow> buffer res" where
  "routesInto [] position buf = Inr buf"
| "routesInto (r # rs) position buf =
     (let buf = copyInto (rt_pubkey r) buf position;
          buf = copyInto (rt_short_channel_id r) buf (position + 33)
      in bind_res (numberInto 4 (rt_fee_base_msat r) (position + 41) buf) (\<lambda>buf.
         bind_res (numberInto 4 (rt_fee_proportional_millionths r) (position + 45) buf) (\<lambda>buf.
         bind_res (numberInto 2 (rt_cltv_expiry_delta r) (position + 49) buf) (routesInto rs (position + 51)))))"

definition writeRoutes :: "route list \<Rightarrow> (word_cursor, unit) io" where
  "writeRoutes routes =
     (let bits = length routes * (264 + 64 + 32 + 32 + 16)
      in then_io (writeFieldHead 3 (sizeofBits bits))
        (bind_io (lift_io (routesInto routes 0 (replicate (bits div 8) 0))) wc_writeBytes))"

fun writeField :: "(string \<Rightarrow> buffer) \<Rightarrow> (nat \<Rightarrow> nat) \<Rightarrow> invoice_field \<Rightarrow> (word_cursor, unit) io" where
  "writeField utf8 log32 (PaymentHash v) = writeData 1 v"
| "writeField utf8 log32 (RouteField routes) = writeRoutes routes"
| "writeField utf8 log32 (Expiry v) = writeNumber log32 6 v"
| "writeField utf8 log32 (FallbackAddressField version address) =
     (case address of None \<Rightarrow> throw_io TypeError
      | Some address \<Rightarrow> then_io (writeFieldHead 9 (sizeofBytes (length address) + 1))
          (then_io (wc_writeUIntBE (case version of None \<Rightarrow> 0 | Some v \<Rightarrow> v) 1) (wc_writeBytes address)))"
| "writeField utf8 log32 (ShortDesc v) = writeData 13 (utf8 v)"
| "writeField utf8 log32 (PayeeNode v) = writeData 19 v"
| "writeField utf8 log32 (HashDesc v) = writeData 23 v"
| "writeField utf8 log32 (MinFinalCltvExpiry v) = writeNumber log32 24 v"
| "writeField utf8 log32 (OtherField type v) = writeData type v"

definition encodeData :: "(string \<Rightarrow> buffer) \<Rightarrow> (nat \<Rightarrow> nat) \<Rightarrow> invoice \<Rightarrow> (word_cursor, unit) io" where
  "encodeData utf8 log32 invoice = each_io (writeField utf8 log32) (inv_fields invoice)"

text \<open>The prefix is ASCII, so that its UTF-8 encoding is its characters.\<close>

definition hrpBytes :: "string \<Rightarrow> buffer" where
  "hrpBytes hrp = map of_char hrp"

definition invoicePrefix :: "invoice \<Rightarrow> string res" where
  "invoicePrefix invoice =
     bind_res (encodePico (case inv_value invoice of None \<Rightarrow> None | Some v \<Rightarrow> if v = 0 then None else Some (bigToString v))) (\<lambda>amount.
       Inr (''ln'' @ inv_network invoice @ (case amount of None \<Rightarrow> [] | Some s \<Rightarrow> s)))"

definition invoice_encode ::
  "invoice_crypto \<Rightarrow> (string \<Rightarrow> buffer) \<Rightarrow> (nat \<Rightarrow> nat) \<Rightarrow> invoice \<Rightarrow> buffer \<Rightarrow> string res" where
  "invoice_encode ic utf8 log32 invoice privKey =
     bind_res (invoicePrefix invoice) (\<lambda>prefix. fst (
       (then_io (wc_writeUIntBE (inv_timestamp invoice) 7)
       (then_io (encodeData utf8 log32 invoice)
       (bind_io (get_state wc_words) (\<lambda>words.
        bind_io (lift_io (wordsToBuffer (map unat words) True)) (\<lambda>bytes.
        let sigHash = ic_sha256 ic (hrpBytes prefix @ bytes)
        in bind_io (lift_io (ic_ecdsaSign ic sigHash privKey)) (\<lambda>(signature, recovery).
        then_io (wc_writeBytes signature)
       (then_io (wc_writeUIntBE (int recovery) 1)
       (bind_io (get_state wc_words) (\<lambda>words. return_io (bech32_encode prefix (map unat words) Bech32))))))))))
       (newWordCursor [])))"

section \<open>The decoder\<close>

datatype read_field = Padding | Known invoice_field | Unknown invoice_field

definition readRoute :: "(buffer_reader, route) io" where
  "readRoute =
     bind_io (br_readBytes (Some 33)) (\<lambda>pubkey.
     bind_io (br_readBytes (Some 8)) (\<lambda>scid.
     bind_io br_readUInt32BE (\<lambda>fee_base.
     bind_io br_readUInt32BE (\<lambda>fee_prop.
     bind_io br_readUInt16BE (\<lambda>delta.
     return_io \<lparr>rt_pubkey = pubkey, rt_short_channel_id = scid, rt_fee_base_msat = fee_base,
       rt_fee_proportional_millionths = fee_prop, rt_cltv_expiry_delta = delta\<rparr>)))))"

definition readField :: "(buffer \<Rightarrow> string) \<Rightarrow> (word_cursor, read_field) io" where
  "readField utf8Text =
     bind_io (wc_readUIntBE 1) (\<lambda>type.
     bind_io (wc_readUIntBE 2) (\<lambda>len.
     if type = 0 then return_io Padding
     else if type = 1 then bind_io (wc_readBytes len False) (\<lambda>v. return_io ((if len \<noteq> 52 then Unknown else Known) (PaymentHash v)))
     else if type = 3 then bind_io (wc_readBytes len False) (\<lambda>bytes.
       bind_io (lift_io (parseWith (readAll readRoute) bytes)) (\<lambda>v. return_io (Known (RouteField v))))
     else if type = 6 then bind_io (wc_readUIntBE len) (\<lambda>v. return_io (Known (Expiry v)))
     else if type = 9 then bind_io (wc_readUIntBE 1) (\<lambda>version.
       bind_io (wc_readBytes (len - 1) False) (\<lambda>address.
       return_io ((if version \<noteq> 0 \<and> version \<noteq> 17 \<and> version \<noteq> 18 then Unknown else Known)
         (FallbackAddressField (Some version) (Some address)))))
     else if type = 13 then bind_io (wc_readBytes len False) (\<lambda>v. return_io (Known (ShortDesc (utf8Text v))))
     else if type = 19 then bind_io (wc_readBytes len False) (\<lambda>v. return_io ((if len \<noteq> 53 then Unknown else Known) (PayeeNode v)))
     else if type = 23 then bind_io (wc_readBytes len False) (\<lambda>v. return_io ((if len \<noteq> 52 then Unknown else Known) (HashDesc v)))
     else if type = 24 then bind_io (wc_readUIntBE len) (\<lambda>v. return_io (Known (MinFinalCltvExpiry v)))
     else bind_io (wc_readBytes len False) (\<lambda>v. return_io (Unknown (OtherField (nat type) v)))))"

text \<open>Words read as a number: its low 32 bits.\<close>

lemma wordsValue_snoc: "wordsValue (ws @ [w]) = push_bit 5 (wordsValue ws) OR ucast w"
  by (simp add: wordsValue_def)

lemma uint_wordsValue: "unat (wordsValue ws) = word_num 5 (map unat ws) mod 2 ^ 32"
proof (induction ws rule: rev_induct)
  case (snoc w ws)
  have w: "unat w < 2 ^ 5" using unsigned_less [of w] by simp
  have "ucast w = (of_nat (unat w) :: 32 word)" by simp
  then have "unat (wordsValue (ws @ [w])) = (unat (wordsValue ws) * 2 ^ 5 + unat w) mod 2 ^ 32"
    using shift_in [OF w, of "wordsValue ws"] by (simp add: wordsValue_snoc)
  then show ?case by (simp add: snoc word_num_append word_num_Cons) (metis mod_add_left_eq mod_mult_left_eq)
qed (simp add: wordsValue_def)

lemma sint_wordsValue:
  assumes "word_num 5 (map unat ws) < 2 ^ 31"
  shows "sint (wordsValue ws) = int (word_num 5 (map unat ws))"
proof -
  have u: "unat (wordsValue ws) = word_num 5 (map unat ws)" using assms by (simp add: uint_wordsValue)
  have "sint (wordsValue ws) = signed_take_bit 31 (int (unat (wordsValue ws)))" by (simp add: sint_uint)
  then show ?thesis using assms u by (simp add: signed_take_bit_int_eq_self)
qed

lemma words_less: "\<forall>x\<in>set (map unat (ws :: 5 word list)). x < 2 ^ 5"
  using unsigned_less [where ?'b = 5 and ?'a = nat] by auto

lemma sint_wordsValue_short:
  assumes "length ws \<le> 6"
  shows "0 \<le> sint (wordsValue ws) \<and> sint (wordsValue ws) < 2 ^ (5 * length ws)"
proof -
  have l: "word_num 5 (map unat ws) < 2 ^ (5 * length ws)" using word_num_less [OF words_less] by simp
  have "(2 :: nat) ^ (5 * length ws) \<le> 2 ^ 30" using assms by (intro power_increasing) auto
  then show ?thesis using sint_wordsValue [of ws] l by simp
qed

lemma length_slice_le: "0 \<le> p \<Longrightarrow> 0 \<le> n \<Longrightarrow> length (slice p (p + n) ws) \<le> nat n"
  by (simp add: slice_def sliceIndex_def min_def nat_add_distrib) (auto simp: nat_le_iff)

lemma readField_advances:
  assumes "readField utf8Text c = (Inr f, c')"
  shows "wc_words c' = wc_words c \<and> wc_position c + 3 \<le> wc_position c'"
proof -
  have l: "0 \<le> sint (wordsValue (slice (int p) (int p + 2) ws))" for p ws
    using sint_wordsValue_short [of "slice (int p) (int p + 2) ws"] length_slice_le [of "int p" 2 ws] by simp
  show ?thesis using assms l [of "wc_position c + 1" "wc_words c"]
    by (auto simp: readField_def wc_readUIntBE_def wc_readBytes_def wc_take_def io_simps nat_add_distrib split: if_splits sum.splits)
qed

text \<open>The fields up to the signature.\<close>

function readFields :: "(buffer \<Rightarrow> string) \<Rightarrow> (word_cursor, invoice_field list \<times> invoice_field list) io" where
  "readFields utf8Text c =
     (if wordsRemaining c > 104
      then (case readField utf8Text c of (Inl e, c') \<Rightarrow> (Inl e, c')
        | (Inr f, c') \<Rightarrow> (case readFields utf8Text c' of (Inl e, c'') \<Rightarrow> (Inl e, c'')
            | (Inr (known, unknown), c'') \<Rightarrow> (Inr (case f of
                Padding \<Rightarrow> (known, unknown) | Known x \<Rightarrow> (x # known, unknown) | Unknown x \<Rightarrow> (known, x # unknown)), c'')))
      else (Inr ([], []), c))"
  by pat_completeness auto
termination
  by (relation "measure (\<lambda>(_, c). nat (wordsRemaining c))")
     (auto simp: wordsRemaining_def dest!: readField_advances sym [of "(_, _)"])

declare readFields.simps [simp del]

definition isPayeeNode :: "invoice_field \<Rightarrow> bool" where
  "isPayeeNode f \<longleftrightarrow> field_type f = 19"

definition payee_of :: "invoice_field \<Rightarrow> buffer" where
  "payee_of f = (case f of PayeeNode b \<Rightarrow> b | _ \<Rightarrow> [])"

text \<open>The words of an invoice; \<open>usedSigRecovery\<close> is set when there is a payee's key.\<close>

definition decodeWords ::
  "invoice_crypto \<Rightarrow> (buffer \<Rightarrow> string) \<Rightarrow> string \<Rightarrow> string \<Rightarrow> int option \<Rightarrow> (word_cursor, invoice) io" where
  "decodeWords ic utf8Text hrp network picoBtc =
     bind_io (wc_readUIntBE 7) (\<lambda>timestamp.
     bind_io (readFields utf8Text) (\<lambda>(knownFields, unknownFields).
     bind_io (wc_readBytes 103 False) (\<lambda>sigBytes.
     bind_io (wc_readUIntBE 1) (\<lambda>recoveryFlag.
     then_io (update_io (\<lambda>c. c\<lparr>wc_position := 0\<rparr>))
    (bind_io (get_state (\<lambda>c. int (length (wc_words c)))) (\<lambda>len.
     bind_io (wc_readBytes (len - 104) True) (\<lambda>preHashData.
     let hashData = ic_sha256 ic (hrpBytes hrp @ preHashData);
         payeeNodeField = find isPayeeNode knownFields
     in bind_io (case payeeNodeField of Some f \<Rightarrow> return_io (payee_of f)
          | None \<Rightarrow> lift_io (ic_ecdsaRecovery ic hashData sigBytes recoveryFlag)) (\<lambda>pubkey.
        bind_io (lift_io (ic_ecdsaVerify ic pubkey hashData sigBytes)) (\<lambda>valid.
        if \<not> valid then throw_io (JsError ''Signature invalid'')
        else return_io \<lparr>inv_network = network, inv_timestamp = timestamp, inv_fields = knownFields, inv_unknownFields = unknownFields,
          inv_signature = Some \<lparr>sg_r = take 32 sigBytes, sg_s = drop 32 sigBytes, sg_recoveryFlag = recoveryFlag\<rparr>,
          inv_pubkey = Some pubkey, inv_hashData = Some hashData, inv_usedSigRecovery = Some (payeeNodeField \<noteq> None),
          inv_value = picoBtc\<rparr>)))))))))"

definition invoice_decode :: "invoice_crypto \<Rightarrow> (buffer \<Rightarrow> string) \<Rightarrow> string \<Rightarrow> invoice res" where
  "invoice_decode ic utf8Text invoice =
     bind_res (bech32_decode invoice) (\<lambda>b.
     bind_res (parsePrefix (b32_hrp b)) (\<lambda>(network, picoBtc).
     fst (decodeWords ic utf8Text (b32_hrp b) network picoBtc (newWordCursor (map of_nat (b32_words b))))))"

section \<open>The fields of an invoice\<close>

definition newInvoice :: invoice where
  "newInvoice = \<lparr>inv_network = [], inv_timestamp = 0, inv_fields = [], inv_unknownFields = [], inv_signature = None,
     inv_pubkey = None, inv_hashData = None, inv_usedSigRecovery = None, inv_value = None\<rparr>"

definition hasValue :: "invoice \<Rightarrow> bool" where
  "hasValue i \<longleftrightarrow> inv_value i \<noteq> None"

definition picoToMsat :: int where "picoToMsat = 10"

definition picoToSat :: int where "picoToSat = picoToMsat * 1000"

definition get_valueSat :: "invoice \<Rightarrow> string option" where
  "get_valueSat i = map_option (\<lambda>v. bigToString (bigDiv v picoToSat)) (inv_value i)"

definition get_valueMsat :: "invoice \<Rightarrow> string option" where
  "get_valueMsat i = map_option (\<lambda>v. bigToString (bigDiv v picoToMsat)) (inv_value i)"

text \<open>The argument of the setters is the \<^verbatim>\<open>BigInt\<close> of their value, or \<open>None\<close> for a falsy one.\<close>

definition set_valueSat :: "int option \<Rightarrow> invoice \<Rightarrow> invoice" where
  "set_valueSat val i = i\<lparr>inv_value := map_option (\<lambda>v. v * picoToSat) val\<rparr>"

definition set_valueMsat :: "int option \<Rightarrow> invoice \<Rightarrow> invoice" where
  "set_valueMsat val i = i\<lparr>inv_value := (case val of None \<Rightarrow> None | Some v \<Rightarrow> if v = 0 then None else Some (v * picoToMsat))\<rparr>"

definition getField :: "nat \<Rightarrow> invoice \<Rightarrow> invoice_field option" where
  "getField type i = find (\<lambda>f. field_type f = type) (inv_fields i)"

primrec replaceField :: "invoice_field \<Rightarrow> invoice_field list \<Rightarrow> invoice_field list" where
  "replaceField f [] = [f]"
| "replaceField f (g # gs) = (if field_type g = field_type f then f # gs else g # replaceField f gs)"

definition setField :: "invoice_field \<Rightarrow> invoice \<Rightarrow> invoice" where
  "setField f i = i\<lparr>inv_fields := replaceField f (inv_fields i)\<rparr>"

definition removeFieldByType :: "nat \<Rightarrow> invoice \<Rightarrow> invoice" where
  "removeFieldByType type i = i\<lparr>inv_fields := filter (\<lambda>f. field_type f \<noteq> type) (inv_fields i)\<rparr>"

definition get_expiry :: "invoice \<Rightarrow> int" where
  "get_expiry i = (case getField 6 i of Some (Expiry v) \<Rightarrow> v | _ \<Rightarrow> 3600)"

definition get_minFinalCltvExpiry :: "invoice \<Rightarrow> int" where
  "get_minFinalCltvExpiry i = (case getField 24 i of Some (MinFinalCltvExpiry v) \<Rightarrow> v | _ \<Rightarrow> 9)"

definition get_paymentHash :: "invoice \<Rightarrow> buffer option" where
  "get_paymentHash i = (case getField 1 i of Some (PaymentHash v) \<Rightarrow> Some v | _ \<Rightarrow> None)"

definition get_shortDesc :: "invoice \<Rightarrow> string option" where
  "get_shortDesc i = (case getField 13 i of Some (ShortDesc v) \<Rightarrow> Some v | _ \<Rightarrow> None)"

definition get_hashDesc :: "invoice \<Rightarrow> buffer option" where
  "get_hashDesc i = (case getField 23 i of Some (HashDesc v) \<Rightarrow> Some v | _ \<Rightarrow> None)"

definition get_payeeNode :: "invoice \<Rightarrow> buffer option" where
  "get_payeeNode i = (case getField 19 i of Some (PayeeNode v) \<Rightarrow> Some v | _ \<Rightarrow> None)"

datatype description = TextDesc string | HashedDesc buffer

text \<open>An empty text is falsy.\<close>

definition get_desc :: "invoice \<Rightarrow> description option" where
  "get_desc i = (case get_shortDesc i of Some (c # cs) \<Rightarrow> Some (TextDesc (c # cs)) | _ \<Rightarrow> map_option HashedDesc (get_hashDesc i))"

definition set_expiry :: "int \<Rightarrow> invoice \<Rightarrow> invoice" where
  "set_expiry v = setField (Expiry v)"

definition set_minFinalCltvExpiry :: "int \<Rightarrow> invoice \<Rightarrow> invoice" where
  "set_minFinalCltvExpiry v = setField (MinFinalCltvExpiry v)"

text \<open>Setters of bytes take the bytes or their hexadecimal text.\<close>

definition bytesOf :: "string + buffer \<Rightarrow> buffer" where
  "bytesOf v = (case v of Inl s \<Rightarrow> hexBuffer s | Inr b \<Rightarrow> b)"

definition set_paymentHash :: "string + buffer \<Rightarrow> invoice \<Rightarrow> invoice" where
  "set_paymentHash v = setField (PaymentHash (bytesOf v))"

definition set_payeeNode :: "string + buffer \<Rightarrow> invoice \<Rightarrow> invoice" where
  "set_payeeNode v = setField (PayeeNode (bytesOf v))"

definition set_shortDesc :: "string \<Rightarrow> invoice \<Rightarrow> invoice" where
  "set_shortDesc v i = setField (ShortDesc v) (removeFieldByType 23 i)"

definition set_hashDesc :: "string + buffer \<Rightarrow> invoice \<Rightarrow> invoice" where
  "set_hashDesc v i = setField (HashDesc (bytesOf v)) (removeFieldByType 13 i)"

definition set_desc :: "(buffer \<Rightarrow> buffer) \<Rightarrow> (string \<Rightarrow> buffer) \<Rightarrow> string \<Rightarrow> invoice \<Rightarrow> invoice" where
  "set_desc sha256 utf8 desc =
     (if length (utf8 desc) > 639 then set_hashDesc (Inr (sha256 (utf8 desc))) else set_shortDesc desc)"

definition fallbackAddresses :: "invoice \<Rightarrow> (int option \<times> buffer option) list" where
  "fallbackAddresses i = map (\<lambda>f. case f of FallbackAddressField v a \<Rightarrow> (v, a) | _ \<Rightarrow> (None, None))
     (filter (\<lambda>f. field_type f = 9) (inv_fields i))"

definition addFallbackAddress :: "(buffer \<Rightarrow> buffer) \<Rightarrow> string \<Rightarrow> invoice \<Rightarrow> invoice res" where
  "addFallbackAddress sha256 addrStr i =
     (let startsWith = (\<lambda>p. take (length p) addrStr = p)
      in bind_res
       (if startsWith ''1'' \<or> startsWith ''m'' \<or> startsWith ''n''
        then bind_res (base58check_decode sha256 addrStr) (\<lambda>b. Inr (FallbackAddressField (Some 17) (Some (drop 1 b))))
        else if startsWith ''3'' \<or> startsWith ''2''
        then bind_res (base58check_decode sha256 addrStr) (\<lambda>b. Inr (FallbackAddressField (Some 18) (Some (drop 1 b))))
        else if startsWith ''bc1'' \<or> startsWith ''tb1''
        then bind_res (bech32_decode addrStr) (\<lambda>b. let words = b32_words b
          in bind_res (wordsToBuffer (drop 1 words) False) (\<lambda>address.
             Inr (FallbackAddressField (case words of [] \<Rightarrow> None | w # _ \<Rightarrow> Some (int w)) (Some address))))
        else Inr (FallbackAddressField None None)) (\<lambda>f. Inr (i\<lparr>inv_fields := inv_fields i @ [f]\<rparr>)))"

definition get_routes :: "invoice \<Rightarrow> route list list" where
  "get_routes i = map (\<lambda>f. case f of RouteField rs \<Rightarrow> rs | _ \<Rightarrow> []) (filter (\<lambda>f. field_type f = 3) (inv_fields i))"

definition addRoute :: "route list \<Rightarrow> invoice \<Rightarrow> invoice" where
  "addRoute routes i = i\<lparr>inv_fields := inv_fields i @ [RouteField routes]\<rparr>"

end
