(* ===== verification/InvoiceFacts.thy ===== *)
theory InvoiceFacts
  imports Invoice
begin

text \<open>
  The amount of an invoice survives its prefix, the fields survive their words, and with them the whole invoice;
  what the decoder accepts carries a signature of the key it reports.
\<close>

section \<open>Amounts\<close>

lemma decString_small: "n < 10 \<Longrightarrow> decString n = [char_of (48 + n)]"
  by (simp add: decString.simps)

lemma decString_big: "10 \<le> n \<Longrightarrow> decString n = decString (n div 10) @ [char_of (48 + n mod 10)]"
  by (subst decString.simps) simp

lemma digit_zero: "d < 10 \<Longrightarrow> char_of (48 + d) = CHR ''0'' \<longleftrightarrow> d = (0 :: nat)"
proof -
  assume d: "d < 10"
  have "of_char (char_of (48 + d) :: char) = 48 + d" using d by simp
  moreover have "of_char (CHR ''0'') = (48 :: nat)" by simp
  ultimately show ?thesis by (metis add_cancel_right_right of_char_eq_iff add.commute add_0)
qed

lemma char_zero: "char_of (48 :: nat) = CHR ''0''"
  using digit_zero [of 0] by simp

lemma trailing_zeros:
  assumes "0 < n"
  shows "\<exists>k. lsdIndex (decString n) = Inr k \<and> 10 ^ k dvd n"
  using assms
proof (induction n rule: less_induct)
  case (less n)
  show ?case
  proof (cases "n < 10")
    case True
    then show ?thesis using less.prems by (simp add: decString_small lsdIndex_def digit_zero)
  next
    case False
    then have d: "decString n = decString (n div 10) @ [char_of (48 + n mod 10)]" by (simp add: decString_big)
    obtain k where k: "lsdIndex (decString (n div 10)) = Inr k" "10 ^ k dvd n div 10" using less.IH [of "n div 10"] False by (auto simp: div_greater_zero_iff)
    show ?thesis
    proof (cases "n mod 10 = 0")
      case True
      then have "lsdIndex (decString n) = Inr (Suc k)" using k(1) by (auto simp: lsdIndex_def d Let_def char_zero split: if_splits)
      moreover have "10 ^ Suc k dvd n"
      proof -
        have "n = 10 * (n div 10)" using True by auto
        then show ?thesis using k(2) by (metis mult_dvd_mono dvd_refl power_Suc)
      qed
      ultimately show ?thesis by blast
    next
      case False
      then have "lsdIndex (decString n) = Inr 0" by (simp add: lsdIndex_def d digit_zero)
      then show ?thesis by simp
    qed
  qed
qed

lemma multiplier_of:
  "\<exists>p. hrpToPico (minimumHrpMultiplier k) = Inr p \<and> 0 < p \<and> p dvd 10 ^ k \<and> (minimumHrpMultiplier k = [] \<or> (\<exists>c. minimumHrpMultiplier k = [c] \<and> isLower c))"
proof -
  consider "k < 3" | "3 \<le> k" "k < 6" | "6 \<le> k" "k < 9" | "9 \<le> k" "k < 12" | "12 \<le> k" by linarith
  then show ?thesis
    by cases (auto simp: minimumHrpMultiplier_def hrpToPico_def isLower_def le_imp_power_dvd [of 3 k "10 :: int", simplified]
      le_imp_power_dvd [of 6 k "10 :: int", simplified] le_imp_power_dvd [of 9 k "10 :: int", simplified] le_imp_power_dvd [of 12 k "10 :: int", simplified])
qed

lemma bigOfString_decString: "bigOfString (decString n) = int n"
proof (cases "decString n")
  case (Cons c cs)
  then have "isDec c" using decString_digits [of c n] by simp
  then have "c \<noteq> CHR ''-''" by (auto simp: isDec_def decVal_def)
  then show ?thesis using parseDec_decString [of n] Cons by (simp add: bigOfString_def del: parseDec_decString)
qed simp

lemma encodePico_eq:
  assumes "0 < v"
  shows "\<exists>a m p. encodePico (Some (bigToString v)) = Inr (Some (decString a @ m)) \<and> hrpToPico m = Inr p \<and> 0 < a \<and> int a * p = v
    \<and> (m = [] \<or> (\<exists>c. m = [c] \<and> isLower c))"
proof -
  obtain k where k: "lsdIndex (decString (nat v)) = Inr k" "10 ^ k dvd nat v" using trailing_zeros [of "nat v"] assms by auto
  obtain p where p: "hrpToPico (minimumHrpMultiplier k) = Inr p" "0 < p" "p dvd 10 ^ k"
    "minimumHrpMultiplier k = [] \<or> (\<exists>c. minimumHrpMultiplier k = [c] \<and> isLower c)" using multiplier_of by blast
  have "int (10 ^ k) dvd int (nat v)" using k(2) by (simp only: int_dvd_int_iff)
  then have "p dvd v" using p(3) assms by (auto intro: dvd_trans)
  then have d: "v div p * p = v" "0 < v div p" using assms p(2) by (auto simp: pos_imp_zdiv_pos_iff zdvd_imp_le)
  have "encodePico (Some (bigToString v)) = Inr (Some (decString (nat (v div p)) @ minimumHrpMultiplier k))"
    using assms k(1) p(1,2) d by (simp add: encodePico_def bigToString_def bigDiv_def bigOfString_decString)
  then show ?thesis using p d by (intro exI [of _ "nat (v div p)"] exI [of _ "minimumHrpMultiplier k"] exI [of _ p]) simp
qed

section \<open>Prefixes\<close>

lemma prefixChars_network:
  "\<forall>c\<in>set cs. isLower c \<Longrightarrow> \<not> ps_hasNetwork s \<Longrightarrow> \<not> ps_hasAmount s \<Longrightarrow>
    prefixChars (cs @ ds) s = prefixChars ds (s\<lparr>ps_network := ps_network s @ cs\<rparr>)"
  by (induction cs arbitrary: s) (simp_all add: prefixChar_def)

lemma isDec_not_lower: "isDec c \<Longrightarrow> \<not> isLower c"
  by (auto simp: isDec_def decVal_def isLower_def Let_def split: if_splits)

lemma prefixChars_digits:
  "\<forall>c\<in>set cs. isDec c \<Longrightarrow> cs \<noteq> [] \<Longrightarrow> \<not> ps_hasAmount s \<Longrightarrow>
    prefixChars (cs @ ds) s = prefixChars ds (s\<lparr>ps_hasNetwork := True, ps_tempValue := ps_tempValue s @ cs\<rparr>)"
proof (induction cs arbitrary: s)
  case (Cons c cs)
  let ?s = "s\<lparr>ps_hasNetwork := True, ps_tempValue := ps_tempValue s @ [c]\<rparr>"
  have "prefixChar s c = Inr ?s" using Cons.prems isDec_not_lower [of c] by (simp add: prefixChar_def)
  then show ?case using Cons.IH [of ?s] Cons.prems by (cases cs) simp_all
qed simp

lemma network_letters: "isValidNetwork n \<Longrightarrow> \<forall>c\<in>set n. isLower c"
  by (auto simp: isValidNetwork_def isLower_def)

lemma parsePrefix_none: "isValidNetwork n \<Longrightarrow> parsePrefix (''ln'' @ n) = Inr (n, None)"
  using prefixChars_network [of n _ "[]"] network_letters [of n] by (simp add: parsePrefix_def isValidValue_def)

lemma parsePrefix_amount:
  assumes "isValidNetwork n" "hrpToPico m = Inr p" "0 < p" "0 < a" "m = [] \<or> (\<exists>c. m = [c] \<and> isLower c)"
  shows "parsePrefix (''ln'' @ n @ decString a @ m) = Inr (n, Some (int a * p))"
proof -
  have l: "\<forall>c\<in>set n. isLower c" "\<forall>c\<in>set (decString a). isDec c" using network_letters [OF assms(1)] decString_digits by auto
  have nd: "\<not> isDec c" if "isLower c" for c using that isDec_not_lower by blast
  show ?thesis using assms l
    by (auto simp: parsePrefix_def prefixChars_network prefixChars_digits prefixChar_def isValidValue_def nd)
qed

lemma hrp_ok_letters: "\<forall>c\<in>set s. isLower c \<or> isDec c \<Longrightarrow> s \<noteq> [] \<Longrightarrow> hrp_ok s"
  by (fastforce simp: hrp_ok_def isLower_def isUpper_def isDec_def decVal_def Let_def split: if_splits)

lemma invoicePrefix_eq:
  assumes "isValidNetwork (inv_network i)" "case inv_value i of None \<Rightarrow> True | Some v \<Rightarrow> 0 < v"
  shows "\<exists>prefix. invoicePrefix i = Inr prefix \<and> parsePrefix prefix = Inr (inv_network i, inv_value i) \<and> hrp_ok prefix"
proof (cases "inv_value i")
  case None
  then show ?thesis using assms parsePrefix_none [OF assms(1)] hrp_ok_letters [of "''ln'' @ inv_network i"] network_letters [OF assms(1)]
    by (auto simp: invoicePrefix_def encodePico_def isLower_def)
next
  case (Some v)
  then have v: "0 < v" using assms(2) by simp
  obtain a m p where a: "encodePico (Some (bigToString v)) = Inr (Some (decString a @ m))" "hrpToPico m = Inr p" "0 < a" "int a * p = v"
    "m = [] \<or> (\<exists>c. m = [c] \<and> isLower c)" using encodePico_eq [OF v] by blast
  have p: "0 < p" using a(3,4) v by (metis of_nat_0_less_iff zero_less_mult_pos)
  let ?p = "''ln'' @ inv_network i @ decString a @ m"
  have "\<forall>c\<in>set ?p. isLower c \<or> isDec c" using network_letters [OF assms(1)] decString_digits a(5) by (auto simp: isLower_def)
  then have "hrp_ok ?p" by (intro hrp_ok_letters) auto
  then show ?thesis using parsePrefix_amount [OF assms(1) a(2) p a(3,5)] a(1,4) v Some by (simp add: invoicePrefix_def)
qed

section \<open>The cursor\<close>

definition emits :: "(word_cursor, unit) io \<Rightarrow> 5 word list \<Rightarrow> bool" where
  "emits m ws \<longleftrightarrow> (\<forall>c. m c = (Inr (), c\<lparr>wc_words := wc_words c @ ws\<rparr>))"

definition takes :: "(word_cursor, 'a) io \<Rightarrow> 5 word list \<Rightarrow> 'a \<Rightarrow> bool" where
  "takes m ws v \<longleftrightarrow> (\<forall>c rest. drop (wc_position c) (wc_words c) = ws @ rest \<longrightarrow>
     m c = (Inr v, c\<lparr>wc_position := wc_position c + length ws\<rparr>))"

lemma emits_then: "emits m ws \<Longrightarrow> emits n vs \<Longrightarrow> emits (then_io m n) (ws @ vs)"
  by (simp add: emits_def io_simps)

lemma emits_each: "(\<And>x. x \<in> set xs \<Longrightarrow> emits (m x) (f x)) \<Longrightarrow> emits (each_io m xs) (concat (map f xs))"
  by (induction xs) (auto simp: emits_def io_simps)

lemma takes_bind: "takes m ws v \<Longrightarrow> takes (f v) vs w \<Longrightarrow> takes (bind_io m f) (ws @ vs) w"
proof (unfold takes_def, intro allI impI)
  fix c :: word_cursor and rest
  assume m: "\<forall>c rest. drop (wc_position c) (wc_words c) = ws @ rest \<longrightarrow> m c = (Inr v, c\<lparr>wc_position := wc_position c + length ws\<rparr>)"
    and f: "\<forall>c rest. drop (wc_position c) (wc_words c) = vs @ rest \<longrightarrow> f v c = (Inr w, c\<lparr>wc_position := wc_position c + length vs\<rparr>)"
    and d: "drop (wc_position c) (wc_words c) = (ws @ vs) @ rest"
  let ?c = "c\<lparr>wc_position := wc_position c + length ws\<rparr>"
  have "m c = (Inr v, ?c)" using m d by simp
  moreover have "drop (wc_position ?c) (wc_words ?c) = vs @ rest"
    using d drop_append_exact [of "wc_position c" "wc_words c" ws "vs @ rest"] by (simp add: add.commute)
  ultimately show "bind_io m f c = (Inr w, c\<lparr>wc_position := wc_position c + length (ws @ vs)\<rparr>)" using f by (simp add: io_simps add.assoc)
qed

lemma takes_return: "takes (return_io v) [] v"
  by (simp add: takes_def io_simps)

lemma takes_last: "takes m ws v \<Longrightarrow> f v = return_io w \<Longrightarrow> takes (bind_io m f) ws w"
  by (metis append_Nil2 takes_bind takes_return)

lemma slice_take: "slice (int p) (int p + int n) xs = take n (drop p xs)"
  by (simp add: slice_def sliceIndex_def min_def nat_add_distrib)

lemma takes_take: "takes (wc_take (int (length ws))) ws ws"
  by (simp add: takes_def wc_take_def slice_take nat_add_distrib)

lemma takes_uint: "n = int (length ws) \<Longrightarrow> takes (wc_readUIntBE n) ws (sint (wordsValue ws))"
  unfolding wc_readUIntBE_def by (simp add: takes_last [OF takes_take])

lemma takes_bytes: "n = int (length ws) \<Longrightarrow> wordsToBuffer (map unat ws) pad = Inr buf \<Longrightarrow> takes (wc_readBytes n pad) ws buf"
  unfolding wc_readBytes_def by (simp add: takes_last [OF takes_take] lift_io_def return_io_def)

text \<open>Numbers: the words that are written spell the number.\<close>

lemma length_uintWords [simp]: "length (uintWords n v) = n"
  by (induction n arbitrary: v) simp_all

lemma unat_ucast_mask_5: "unat (ucast (v AND mask 5) :: 5 word) = unat (v AND mask 5 :: 32 word)"
proof -
  have "(v AND mask 5 :: 32 word) = take_bit 5 v" by (simp add: take_bit_eq_mask)
  moreover have "unat (take_bit 5 v) < 2 ^ 5" using take_bit_nat_less_exp [of 5 "unat v"] by (simp add: unsigned_take_bit_eq)
  ultimately show ?thesis by (simp add: unsigned_ucast_eq take_bit_eq_mod)
qed

lemma uintWords_num: "unat v < 2 ^ 31 \<Longrightarrow> word_num 5 (map unat (uintWords n v)) = unat v mod 2 ^ (5 * n)"
proof (induction n arbitrary: v)
  case (Suc n)
  have "\<not> bit (unat v) 31" using Suc.prems by (simp add: bit_iff_odd)
  then have "\<not> bit v 31" by (simp add: bit_unsigned_iff)
  then have "signed_drop_bit 5 v = drop_bit 5 v" 
    by (intro bit_word_eqI) (auto simp: bit_simps min_def dest: bit_imp_le_length)
  then have "unat (signed_drop_bit 5 v) = drop_bit 5 (unat v)" by (simp only: unat_drop_bit_eq)
  then have d: "unat (signed_drop_bit 5 v) = unat v div 2 ^ 5" by (simp only: drop_bit_eq_div)
  have m: "unat (ucast (v AND mask 5) :: 5 word) = unat v mod 2 ^ 5"
    using extract_bits [of 0 5 v] by (simp add: unat_ucast_mask_5)
  have "map unat (uintWords (Suc n) v) = map unat (uintWords n (signed_drop_bit 5 v)) @ [unat v mod 2 ^ 5]"
    unfolding uintWords.simps mask_word map_append list.map m ..
  then have "word_num 5 (map unat (uintWords (Suc n) v)) = unat v div 2 ^ 5 mod 2 ^ (5 * n) * 2 ^ 5 + unat v mod 2 ^ 5"
    using Suc.IH [of "signed_drop_bit 5 v"] Suc.prems d by (simp add: word_num_append word_num_Cons)
  also have "\<dots> = unat v mod (2 ^ 5 * 2 ^ (5 * n))" by (simp only: mod_mult2_eq) simp
  finally show ?case by (simp add: power_add)
qed simp

declare uintWords.simps [simp del]

lemma uintWords_value:
  assumes "0 \<le> v" "v < 2 ^ 31" "v < 2 ^ (5 * n)"
  shows "sint (wordsValue (uintWords n (word_of_int v))) = v"
proof -
  have "(word_of_int v :: 32 word) = of_nat (nat v)" using assms(1) by simp
  then have u: "unat (word_of_int v :: 32 word) = nat v" using assms(2) by (simp only: unat_of_nat) simp
  have "nat v < 2 ^ (5 * n)" using assms(3) by (simp add: nat_less_iff)
  then have "word_num 5 (map unat (uintWords n (word_of_int v))) = nat v"
    using uintWords_num [of "word_of_int v" n] u assms(2) by simp
  then show ?thesis using sint_wordsValue [of "uintWords n (word_of_int v)"] assms(1,2) by simp
qed

lemma emits_uint: "0 < n \<Longrightarrow> emits (wc_writeUIntBE v n) (uintWords n (word_of_int v))"
  by (simp add: emits_def wc_writeUIntBE_def wc_merge_def io_simps)

lemma takes_number:
  "0 \<le> v \<Longrightarrow> v < 2 ^ 31 \<Longrightarrow> v < 2 ^ (5 * n) \<Longrightarrow> m = int n \<Longrightarrow> takes (wc_readUIntBE m) (uintWords n (word_of_int v)) v"
  using takes_uint [of m "uintWords n (word_of_int v)"] uintWords_value [of v n] by simp

text \<open>Bytes: their words, padded, are regrouped without padding.\<close>

definition bytesWords :: "buffer \<Rightarrow> 5 word list" where
  "bytesWords buf = map of_nat (case bufferToWords buf True of Inr ws \<Rightarrow> ws | Inl _ \<Rightarrow> [])"

lemma bytesWords_facts:
  shows "emits (wc_writeBytes buf) (bytesWords buf)" and "length (bytesWords buf) = sizeofBytes (length buf)"
    and "wordsToBuffer (map unat (bytesWords buf)) False = Inr buf"
proof -
  obtain ws where w: "bufferToWords buf True = Inr ws" "\<forall>w\<in>set ws. w < 32" "length ws = sizeofBytes (length buf)"
    "wordsToBuffer ws False = Inr buf" using words_roundtrip_lemma by blast
  show "emits (wc_writeBytes buf) (bytesWords buf)" using w(1) by (simp add: emits_def wc_writeBytes_def bytesWords_def wc_merge_def io_simps)
  show "length (bytesWords buf) = sizeofBytes (length buf)" using w(1,3) by (simp add: bytesWords_def)
  have "map unat (map of_nat ws :: 5 word list) = ws" using w(2) by (auto simp: o_def unat_of_nat intro!: map_idI)
  then show "wordsToBuffer (map unat (bytesWords buf)) False = Inr buf" using w(1,4) by (simp add: bytesWords_def)
qed

lemma takes_buffer: "n = int (sizeofBytes (length buf)) \<Longrightarrow> takes (wc_readBytes n False) (bytesWords buf) buf"
  using bytesWords_facts by (intro takes_bytes) simp_all

section \<open>Fields\<close>

definition headWords :: "nat \<Rightarrow> nat \<Rightarrow> 5 word list" where
  "headWords type len = uintWords 1 (word_of_int (int type)) @ uintWords 2 (word_of_int (int len))"

lemma emits_head: "emits (writeFieldHead type len) (headWords type len)"
  unfolding writeFieldHead_def headWords_def by (intro emits_then emits_uint) simp_all

definition route_ok :: "route \<Rightarrow> bool" where
  "route_ok r \<longleftrightarrow> length (rt_pubkey r) = 33 \<and> length (rt_short_channel_id r) = 8 \<and> rt_fee_base_msat r < 2 ^ 32
     \<and> rt_fee_proportional_millionths r < 2 ^ 32 \<and> rt_cltv_expiry_delta r < 2 ^ 16"

definition route_bytes :: "route \<Rightarrow> buffer" where
  "route_bytes r = rt_pubkey r @ rt_short_channel_id r @ be_bytes 4 (rt_fee_base_msat r)
     @ be_bytes 4 (rt_fee_proportional_millionths r) @ be_bytes 2 (rt_cltv_expiry_delta r)"

lemma length_route_bytes: "route_ok r \<Longrightarrow> length (route_bytes r) = 51"
  by (simp add: route_bytes_def route_ok_def)

lemma copyInto_append:
  "length src \<le> length rest \<Longrightarrow> copyInto src (pre @ rest) (length pre) = (pre @ src) @ drop (length src) rest"
  by (auto simp: copyInto_def min_def)

lemma numberInto_append:
  "n \<le> length rest \<Longrightarrow> v < 256 ^ n \<Longrightarrow> numberInto n v (length pre) (pre @ rest) = Inr ((pre @ be_bytes n v) @ drop n rest)"
  using copyInto_append [of "be_bytes n v" rest pre] by (simp add: numberInto_def)

lemma routesInto_eq:
  "\<forall>r\<in>set rs. route_ok r \<Longrightarrow> length rest = 51 * length rs \<Longrightarrow>
    routesInto rs (length pre) (pre @ rest) = Inr (pre @ concat (map route_bytes rs))"
proof (induction rs arbitrary: pre rest)
  case (Cons r rs)
  have r: "length (rt_pubkey r) = 33" "length (rt_short_channel_id r) = 8" "rt_fee_base_msat r < 256 ^ 4"
    "rt_fee_proportional_millionths r < 256 ^ 4" "rt_cltv_expiry_delta r < 256 ^ 2" using Cons.prems(1) by (simp_all add: route_ok_def)
  let ?l = "length pre" and ?q = "pre @ route_bytes r"
  have step: "copyInto src (q @ x) p = (q @ src) @ drop (length src) x" if "p = length q" "length src \<le> length x" for src p and q x :: buffer
    using that copyInto_append by simp
  have num: "numberInto n v p (q @ x) = Inr ((q @ be_bytes n v) @ drop n x)" if "p = length q" "n \<le> length x" "v < 256 ^ n" for n v p and q x :: buffer
    using that numberInto_append by simp
  have "routesInto (r # rs) ?l (pre @ rest) = routesInto rs (length ?q) (?q @ drop 51 rest)"
    using Cons.prems(2) r by (simp add: step num route_bytes_def Let_def del: append_assoc) (simp add: route_bytes_def)
  also have "\<dots> = Inr (?q @ concat (map route_bytes rs))" using Cons.prems by (intro Cons.IH) simp_all
  finally show ?case by simp
qed simp

lemma reads_route: "route_ok r \<Longrightarrow> reads br_good br_content readRoute (route_bytes r) r"
  unfolding readRoute_def route_bytes_def
  by (rule reads_bind [OF reads_bytes] reads_bind [OF br.u32be] reads_bind_last [OF br.u16be] | (simp add: route_ok_def io_simps; fail))+

text \<open>What the decoder takes for a field of the invoice, and which fields survive their words.\<close>

definition known_field :: "invoice_field \<Rightarrow> bool" where
  "known_field f \<longleftrightarrow> (case f of PaymentHash b \<Rightarrow> length b = 32 | PayeeNode b \<Rightarrow> length b = 33 | HashDesc b \<Rightarrow> length b = 32
     | FallbackAddressField v a \<Rightarrow> v \<in> {Some 0, Some 17, Some 18} | OtherField t b \<Rightarrow> False | _ \<Rightarrow> True)"

definition field_ok :: "(string \<Rightarrow> buffer) \<Rightarrow> (buffer \<Rightarrow> string) \<Rightarrow> invoice_field \<Rightarrow> bool" where
  "field_ok utf8 utf8Text f \<longleftrightarrow> (case f of
       PaymentHash b \<Rightarrow> length b \<le> 639 | PayeeNode b \<Rightarrow> length b \<le> 639 | HashDesc b \<Rightarrow> length b \<le> 639
     | RouteField rs \<Rightarrow> length rs \<le> 12 \<and> (\<forall>r\<in>set rs. route_ok r)
     | Expiry v \<Rightarrow> 0 \<le> v \<and> v < 2 ^ 31 | MinFinalCltvExpiry v \<Rightarrow> 0 \<le> v \<and> v < 2 ^ 31
     | FallbackAddressField v a \<Rightarrow> (\<exists>n b. v = Some n \<and> a = Some b \<and> 0 \<le> n \<and> n < 32 \<and> length b \<le> 638)
     | ShortDesc s \<Rightarrow> length (utf8 s) \<le> 639 \<and> utf8Text (utf8 s) = s
     | OtherField t b \<Rightarrow> t < 32 \<and> t \<notin> {0, 1, 3, 6, 9, 13, 19, 23, 24} \<and> length b \<le> 639)"

definition log32_ok :: "(nat \<Rightarrow> nat) \<Rightarrow> bool" where
  "log32_ok log32 \<longleftrightarrow> (\<forall>n. 0 < n \<and> n < 2 ^ 31 \<longrightarrow> 32 ^ log32 n \<le> n \<and> n < 32 ^ (log32 n + 1))"

definition numberLen :: "(nat \<Rightarrow> nat) \<Rightarrow> int \<Rightarrow> nat" where
  "numberLen log32 v = (if v = 0 then 1 else log32 (nat v) + 1)"

fun fieldWords :: "(string \<Rightarrow> buffer) \<Rightarrow> (nat \<Rightarrow> nat) \<Rightarrow> invoice_field \<Rightarrow> 5 word list" where
  "fieldWords utf8 log32 (PaymentHash v) = headWords 1 (sizeofBytes (length v)) @ bytesWords v"
| "fieldWords utf8 log32 (RouteField rs) = headWords 3 (sizeofBytes (51 * length rs)) @ bytesWords (concat (map route_bytes rs))"
| "fieldWords utf8 log32 (Expiry v) = headWords 6 (numberLen log32 v) @ uintWords (numberLen log32 v) (word_of_int v)"
| "fieldWords utf8 log32 (FallbackAddressField v a) = headWords 9 (sizeofBytes (length (the a)) + 1)
     @ uintWords 1 (word_of_int (the v)) @ bytesWords (the a)"
| "fieldWords utf8 log32 (ShortDesc v) = headWords 13 (sizeofBytes (length (utf8 v))) @ bytesWords (utf8 v)"
| "fieldWords utf8 log32 (PayeeNode v) = headWords 19 (sizeofBytes (length v)) @ bytesWords v"
| "fieldWords utf8 log32 (HashDesc v) = headWords 23 (sizeofBytes (length v)) @ bytesWords v"
| "fieldWords utf8 log32 (MinFinalCltvExpiry v) = headWords 24 (numberLen log32 v) @ uintWords (numberLen log32 v) (word_of_int v)"
| "fieldWords utf8 log32 (OtherField t v) = headWords t (sizeofBytes (length v)) @ bytesWords v"

lemma numberLen_bounds:
  assumes "log32_ok log32" "0 \<le> v" "v < 2 ^ 31"
  shows "0 < numberLen log32 v \<and> numberLen log32 v < 1024 \<and> v < 2 ^ (5 * numberLen log32 v)"
proof (cases "v = 0")
  case False
  let ?l = "log32 (nat v)"
  have n: "0 < nat v" "nat v < 2 ^ 31" using assms(2,3) False by auto
  then have l: "32 ^ ?l \<le> nat v \<and> nat v < 32 ^ (?l + 1)" using assms(1) unfolding log32_ok_def by blast
  have "?l < 1023"
  proof (rule ccontr)
    assume "\<not> ?l < 1023"
    then have "(32 :: nat) ^ 7 \<le> 32 ^ ?l" by (intro power_increasing) auto
    then have "(32 :: nat) ^ 7 \<le> nat v" using l by (blast intro: order_trans)
    then have "(32 :: nat) ^ 7 < 2 ^ 31" using n(2) by (rule le_less_trans)
    then show False by simp
  qed
  moreover have p: "(32 :: nat) ^ k = 2 ^ (5 * k)" for k by (simp add: power_mult)
  have "nat v < 2 ^ (5 * (?l + 1))" using l unfolding p by blast
  then have "v < 2 ^ (5 * (?l + 1))" using assms(2) by (simp only: nat_less_iff) simp
  ultimately show ?thesis using False by (simp add: numberLen_def)
qed (simp add: numberLen_def)

lemma emits_data: "emits (writeData type v) (headWords type (sizeofBytes (length v)) @ bytesWords v)"
  unfolding writeData_def by (intro emits_then emits_head bytesWords_facts)

lemma emits_number:
  assumes "log32_ok log32" "0 \<le> v" "v < 2 ^ 31"
  shows "emits (writeNumber log32 type v) (headWords type (numberLen log32 v) @ uintWords (numberLen log32 v) (word_of_int v))"
proof -
  have "(case sizeofNum log32 v of None \<Rightarrow> 0 | Some n \<Rightarrow> n) = numberLen log32 v" using assms(2) by (simp add: sizeofNum_def numberLen_def)
  then show ?thesis using numberLen_bounds [OF assms] unfolding writeNumber_def by (simp add: Let_def emits_then emits_head emits_uint)
qed

lemma emits_field:
  assumes "log32_ok log32" "field_ok utf8 utf8Text f"
  shows "emits (writeField utf8 log32 f) (fieldWords utf8 log32 f)"
proof (cases f)
  case (RouteField rs)
  have r: "routesInto rs 0 (replicate (51 * length rs) 0) = Inr (concat (map route_bytes rs))"
    using routesInto_eq [of rs "replicate (51 * length rs) 0" "[]"] assms(2) by (simp add: field_ok_def RouteField)
  have "sizeofBits (length rs * 408) = sizeofBytes (51 * length rs)" "length rs * 408 div 8 = 51 * length rs"
    by (simp_all add: sizeofBytes_def mult.commute mult.assoc)
  moreover have "emits (bind_io (lift_io (Inr (concat (map route_bytes rs)))) wc_writeBytes) (bytesWords (concat (map route_bytes rs)))"
    using bytesWords_facts(1) [of "concat (map route_bytes rs)"] by (simp add: emits_def io_simps)
  ultimately show ?thesis using r by (simp add: RouteField writeRoutes_def emits_then emits_head)
next
  case (FallbackAddressField v a)
  then show ?thesis using assms(2) by (auto simp: field_ok_def simp del: One_nat_def intro!: emits_then emits_head emits_uint bytesWords_facts)
qed (use assms emits_data emits_number in \<open>auto simp: field_ok_def\<close>)

lemma takes_head:
  assumes "type < 32" "len < 1024" "takes (f (int type) (int len)) ws v"
  shows "takes (bind_io (wc_readUIntBE 1) (\<lambda>type. bind_io (wc_readUIntBE 2) (f type))) (headWords type len @ ws) v"
proof -
  have a: "takes (wc_readUIntBE 1) (uintWords 1 (word_of_int (int type))) (int type)"
    by (rule takes_number) (use assms(1) in simp_all)
  have b: "takes (wc_readUIntBE 2) (uintWords 2 (word_of_int (int len))) (int len)"
    by (rule takes_number) (use assms(2) in simp_all)
  have "takes (bind_io (wc_readUIntBE 1) (\<lambda>type. bind_io (wc_readUIntBE 2) (f type)))
      (uintWords 1 (word_of_int (int type)) @ (uintWords 2 (word_of_int (int len)) @ ws)) v"
    by (rule takes_bind [where f = "\<lambda>type. bind_io (wc_readUIntBE 2) (f type)", OF a], rule takes_bind [where f = "f (int type)", OF b], rule assms(3))
  then
  show ?thesis by (simp add: headWords_def)
qed

lemma sizeofBytes_bound: "n \<le> 639 \<Longrightarrow> sizeofBytes n < 1024"
  by (simp add: sizeofBytes_def sizeofBits_def)

definition field_as_read :: "invoice_field \<Rightarrow> read_field" where
  "field_as_read f = (if known_field f then Known f else Unknown f)"

lemma takes_field:
  assumes "log32_ok log32" "field_ok utf8 utf8Text f"
  shows "takes (readField utf8Text) (fieldWords utf8 log32 f) (field_as_read f)"
proof (cases f)
  case (RouteField rs)
  let ?b = "concat (map route_bytes rs)"
  have rs: "\<forall>r\<in>set rs. route_ok r" "length rs \<le> 12" using assms(2) by (simp_all add: field_ok_def RouteField)
  then have l: "length ?b = 51 * length rs" by (induction rs) (simp_all add: length_route_bytes)
  have "parseWith (readAll readRoute) ?b = Inr rs"
    using rs(1) by (intro parseWith_readAll reads_route) (auto simp: route_bytes_def route_ok_def)
  then have "takes (bind_io (wc_readBytes (int (sizeofBytes (51 * length rs))) False) (\<lambda>bytes.
      bind_io (lift_io (parseWith (readAll readRoute) bytes)) (\<lambda>v. return_io (Known (RouteField v))))) (bytesWords ?b) (Known (RouteField rs))"
    by (intro takes_last [OF takes_buffer]) (auto simp: l fun_eq_iff io_simps)
  moreover have "sizeofBytes (51 * length rs) < 1024" using rs(2) by (intro sizeofBytes_bound) simp
  ultimately show ?thesis unfolding readField_def RouteField fieldWords.simps
    by (intro takes_head) (simp_all add: field_as_read_def known_field_def)
next
  case (Expiry v)
  then show ?thesis using assms numberLen_bounds [OF assms(1), of v] unfolding readField_def Expiry fieldWords.simps
    by (intro takes_head) (auto simp: field_as_read_def known_field_def field_ok_def intro!: takes_last [OF takes_number])
next
  case (MinFinalCltvExpiry v)
  then show ?thesis using assms numberLen_bounds [OF assms(1), of v] unfolding readField_def MinFinalCltvExpiry fieldWords.simps
    by (intro takes_head) (auto simp: field_as_read_def known_field_def field_ok_def intro!: takes_last [OF takes_number])
next
  case (FallbackAddressField w a)
  then obtain n b where n: "w = Some n" "a = Some b" "0 \<le> n" "n < 32" "length b \<le> 638" using assms(2) by (auto simp: field_ok_def)
  have a1: "takes (wc_readUIntBE 1) (uintWords 1 (word_of_int n)) n" by (rule takes_number) (use n in simp_all)
  have "takes (bind_io (wc_readBytes (int (sizeofBytes (length b))) False) (\<lambda>address.
      return_io ((if n \<noteq> 0 \<and> n \<noteq> 17 \<and> n \<noteq> 18 then Unknown else Known) (FallbackAddressField (Some n) (Some address))))) (bytesWords b) (field_as_read f)"
    by (rule takes_last [OF takes_buffer]) (simp_all add: field_as_read_def known_field_def FallbackAddressField n)
  from takes_bind [where f = "\<lambda>version. bind_io (wc_readBytes (int (sizeofBytes (length b))) False) (\<lambda>address.
      return_io ((if version \<noteq> 0 \<and> version \<noteq> 17 \<and> version \<noteq> 18 then Unknown else Known) (FallbackAddressField (Some version) (Some address))))",
      OF a1 this]
  have r: "takes (bind_io (wc_readUIntBE 1) (\<lambda>version. bind_io (wc_readBytes (int (sizeofBytes (length b))) False) (\<lambda>address.
      return_io ((if version \<noteq> 0 \<and> version \<noteq> 17 \<and> version \<noteq> 18 then Unknown else Known) (FallbackAddressField (Some version) (Some address))))))
    (uintWords 1 (word_of_int n) @ bytesWords b) (field_as_read f)" .
  have "sizeofBytes (length b) + 1 < 1024" using n(5) by (simp add: sizeofBytes_def sizeofBits_def)
  then show ?thesis unfolding readField_def FallbackAddressField n(1,2) fieldWords.simps option.sel
    by (intro takes_head) (use r in \<open>simp_all add: FallbackAddressField n(1,2)\<close>)
next
  case (OtherField t b)
  then have "sizeofBytes (length b) < 1024" "t < 32" "t \<notin> {0, 1, 3, 6, 9, 13, 19, 23, 24}"
    using assms(2) by (auto simp: field_ok_def intro!: sizeofBytes_bound)
  then show ?thesis unfolding readField_def OtherField fieldWords.simps
    by (intro takes_head) (auto simp: field_as_read_def known_field_def intro!: takes_last [OF takes_buffer])
next
  case (PaymentHash b)
  then have "sizeofBytes (length b) < 1024" using assms(2) by (auto simp: field_ok_def intro!: sizeofBytes_bound)
  moreover have "sizeofBytes (length b) = 52 \<longleftrightarrow> length b = 32" by (auto simp: sizeofBytes_def sizeofBits_def)
  ultimately show ?thesis unfolding readField_def PaymentHash fieldWords.simps
    by (intro takes_head) (auto simp: field_as_read_def known_field_def intro!: takes_last [OF takes_buffer])
next
  case (HashDesc b)
  then have "sizeofBytes (length b) < 1024" using assms(2) by (auto simp: field_ok_def intro!: sizeofBytes_bound)
  moreover have "sizeofBytes (length b) = 52 \<longleftrightarrow> length b = 32" by (auto simp: sizeofBytes_def sizeofBits_def)
  ultimately show ?thesis unfolding readField_def HashDesc fieldWords.simps
    by (intro takes_head) (auto simp: field_as_read_def known_field_def intro!: takes_last [OF takes_buffer])
next
  case (PayeeNode b)
  then have "sizeofBytes (length b) < 1024" using assms(2) by (auto simp: field_ok_def intro!: sizeofBytes_bound)
  moreover have "sizeofBytes (length b) = 53 \<longleftrightarrow> length b = 33" by (auto simp: sizeofBytes_def sizeofBits_def)
  ultimately show ?thesis unfolding readField_def PayeeNode fieldWords.simps
    by (intro takes_head) (auto simp: field_as_read_def known_field_def intro!: takes_last [OF takes_buffer])
next
  case (ShortDesc s)
  then have "sizeofBytes (length (utf8 s)) < 1024" "utf8Text (utf8 s) = s" using assms(2) by (auto simp: field_ok_def intro!: sizeofBytes_bound)
  then show ?thesis unfolding readField_def ShortDesc fieldWords.simps
    by (intro takes_head) (auto simp: field_as_read_def known_field_def intro!: takes_last [OF takes_buffer])
qed

lemma length_fieldWords: "3 \<le> length (fieldWords utf8 log32 f)"
  by (cases f) (simp_all add: headWords_def)

lemma readFields_eq:
  assumes "log32_ok log32" "\<forall>f\<in>set fs. field_ok utf8 utf8Text f" "length rest = 104"
    and "drop (wc_position c) (wc_words c) = concat (map (fieldWords utf8 log32) fs) @ rest"
  shows "readFields utf8Text c = (Inr (filter known_field fs, filter (\<lambda>f. \<not> known_field f) fs),
    c\<lparr>wc_position := wc_position c + length (concat (map (fieldWords utf8 log32) fs))\<rparr>)"
  using assms(2,4)
proof (induction fs arbitrary: c)
  case Nil
  have "wordsRemaining c = 104" using arg_cong [OF Nil(2), of length] assms(3) by (simp add: wordsRemaining_def)
  then show ?case by (simp add: readFields.simps [of _ c])
next
  case (Cons f fs)
  let ?w = "fieldWords utf8 log32 f" and ?c = "c\<lparr>wc_position := wc_position c + length (fieldWords utf8 log32 f)\<rparr>"
  have l: "wordsRemaining c > 104"
    using arg_cong [OF Cons.prems(2), of length] assms(3) length_fieldWords [of utf8 log32 f] by (simp add: wordsRemaining_def)
  have "takes (readField utf8Text) ?w (field_as_read f)" using Cons.prems(1) by (intro takes_field assms(1)) simp
  then have r: "readField utf8Text c = (Inr (field_as_read f), ?c)" using Cons.prems(2) by (simp add: takes_def)
  have "drop (wc_position ?c) (wc_words ?c) = concat (map (fieldWords utf8 log32) fs) @ rest"
    using drop_append_exact [of "wc_position c" "wc_words c" ?w] Cons.prems(2) by (simp add: add.commute)
  then have "readFields utf8Text ?c = (Inr (filter known_field fs, filter (\<lambda>f. \<not> known_field f) fs),
      ?c\<lparr>wc_position := wc_position ?c + length (concat (map (fieldWords utf8 log32) fs))\<rparr>)"
    using Cons.prems(1) by (intro Cons.IH) simp_all
  then show ?case using l r by (simp add: readFields.simps [of _ c] field_as_read_def add.assoc)
qed

section \<open>Invoices\<close>

text \<open>What the code relies on of signatures: those of a key are 64 bytes and verify under its public key, which can be recovered.\<close>

definition invoice_signer :: "invoice_crypto \<Rightarrow> buffer \<Rightarrow> buffer \<Rightarrow> bool" where
  "invoice_signer ic privKey pub \<longleftrightarrow> (\<forall>h. \<exists>sig rec. ic_ecdsaSign ic h privKey = Inr (sig, rec) \<and> length sig = 64 \<and> rec < 4
     \<and> ic_ecdsaRecovery ic h sig (int rec) = Inr pub \<and> ic_ecdsaVerify ic pub h sig = Inr True)"

definition invoice_ok :: "(string \<Rightarrow> buffer) \<Rightarrow> (buffer \<Rightarrow> string) \<Rightarrow> buffer \<Rightarrow> invoice \<Rightarrow> bool" where
  "invoice_ok utf8 utf8Text pub i \<longleftrightarrow> isValidNetwork (inv_network i) \<and> 0 \<le> inv_timestamp i \<and> inv_timestamp i < 2 ^ 31
     \<and> (\<forall>f\<in>set (inv_fields i). field_ok utf8 utf8Text f) \<and> (case inv_value i of None \<Rightarrow> True | Some v \<Rightarrow> 0 < v)
     \<and> (\<forall>b. PayeeNode b \<in> set (inv_fields i) \<and> known_field (PayeeNode b) \<longrightarrow> b = pub)"

lemma padded: "\<exists>b. wordsToBuffer (map unat (ws :: 5 word list)) True = Inr b"
  by (rule convertWords_pad [of "map unat ws" 5 8]) (use words_less in \<open>auto simp: wordsToBuffer_def\<close>)

lemma find_payee:
  assumes "\<forall>b. PayeeNode b \<in> set fs \<longrightarrow> b = pub" "\<forall>f\<in>set fs. known_field f" "find isPayeeNode fs = Some f"
  shows "payee_of f = pub"
proof -
  have f: "f \<in> set fs" "field_type f = 19" using assms(3) by (auto simp: find_Some_iff isPayeeNode_def)
  then have "known_field f" "\<forall>b. f = PayeeNode b \<longrightarrow> b = pub" using assms(1,2) by auto
  then show ?thesis using f(2) by (cases f) (simp_all add: payee_of_def known_field_def)
qed

definition invoiceWords :: "(string \<Rightarrow> buffer) \<Rightarrow> (nat \<Rightarrow> nat) \<Rightarrow> invoice \<Rightarrow> 5 word list" where
  "invoiceWords utf8 log32 i = uintWords 7 (word_of_int (inv_timestamp i)) @ concat (map (fieldWords utf8 log32) (inv_fields i))"

lemma invoice_encode_eq:
  assumes "log32_ok log32" "invoice_ok utf8 utf8Text pub i" "invoicePrefix i = Inr prefix"
    and "wordsToBuffer (map unat (invoiceWords utf8 log32 i)) True = Inr bytes"
    and "ic_ecdsaSign ic (ic_sha256 ic (hrpBytes prefix @ bytes)) privKey = Inr (sig, rec)"
  shows "invoice_encode ic utf8 log32 i privKey =
    Inr (bech32_encode prefix (map unat (invoiceWords utf8 log32 i @ bytesWords sig @ uintWords 1 (word_of_int (int rec)))) Bech32)"
proof -
  have e: "emits (wc_writeUIntBE (inv_timestamp i) 7) (uintWords 7 (word_of_int (inv_timestamp i)))" by (rule emits_uint) simp
  have d: "emits (encodeData utf8 log32 i) (concat (map (fieldWords utf8 log32) (inv_fields i)))"
    unfolding encodeData_def using assms(1,2) by (intro emits_each emits_field) (auto simp: invoice_ok_def)
  have s: "emits (wc_writeBytes sig) (bytesWords sig)" "emits (wc_writeUIntBE (int rec) 1) (uintWords 1 (word_of_int (int rec)))"
    by (rule bytesWords_facts, rule emits_uint) simp
  show ?thesis using e d s assms(3-5)
    by (simp add: invoice_encode_def emits_def io_simps newWordCursor_def invoiceWords_def Let_def)
qed

lemma invoice_decode_eq:
  assumes "log32_ok log32" "invoice_ok utf8 utf8Text pub i"
    and "wordsToBuffer (map unat (invoiceWords utf8 log32 i)) True = Inr bytes" "length sig = 64" "rec < 4"
    and h: "h = ic_sha256 ic (hrpBytes prefix @ bytes)" "ic_ecdsaRecovery ic h sig (int rec) = Inr pub" "ic_ecdsaVerify ic pub h sig = Inr True"
  shows "fst (decodeWords ic utf8Text prefix network v
      (newWordCursor (invoiceWords utf8 log32 i @ bytesWords sig @ uintWords 1 (word_of_int (int rec))))) =
    Inr \<lparr>inv_network = network, inv_timestamp = inv_timestamp i, inv_fields = filter known_field (inv_fields i),
      inv_unknownFields = filter (\<lambda>f. \<not> known_field f) (inv_fields i),
      inv_signature = Some \<lparr>sg_r = take 32 sig, sg_s = drop 32 sig, sg_recoveryFlag = int rec\<rparr>,
      inv_pubkey = Some pub, inv_hashData = Some h,
      inv_usedSigRecovery = Some (find isPayeeNode (filter known_field (inv_fields i)) \<noteq> None), inv_value = v\<rparr>"
proof -
  let ?t = "uintWords 7 (word_of_int (inv_timestamp i))" and ?f = "concat (map (fieldWords utf8 log32) (inv_fields i))"
  let ?s = "bytesWords sig" and ?r = "uintWords 1 (word_of_int (int rec))"
  let ?all = "?t @ ?f @ ?s @ ?r"
  let ?c = "\<lambda>n. \<lparr>wc_words = ?all, wc_position = n\<rparr>"
  have ok: "0 \<le> inv_timestamp i" "inv_timestamp i < 2 ^ 31" "\<forall>f\<in>set (inv_fields i). field_ok utf8 utf8Text f"
    "\<forall>b. PayeeNode b \<in> set (filter known_field (inv_fields i)) \<longrightarrow> b = pub" using assms(2) by (auto simp: invoice_ok_def)
  have ls: "length ?s = 103" using bytesWords_facts(2) [of sig] assms(4) by (simp add: sizeofBytes_def sizeofBits_def)
  have t: "wc_readUIntBE 7 (?c 0) = (Inr (inv_timestamp i), ?c 7)"
  proof -
    have "takes (wc_readUIntBE 7) ?t (inv_timestamp i)" using ok(1,2) by (intro takes_number) simp_all
    then show ?thesis by (simp add: takes_def)
  qed
  have f: "readFields utf8Text (?c 7) = (Inr (filter known_field (inv_fields i), filter (\<lambda>f. \<not> known_field f) (inv_fields i)), ?c (7 + length ?f))"
    using readFields_eq [OF assms(1) ok(3), of "?s @ ?r" "?c 7"] ls by simp
  have s: "wc_readBytes 103 False (?c (7 + length ?f)) = (Inr sig, ?c (7 + length ?f + 103))"
  proof -
    have "takes (wc_readBytes 103 False) ?s sig" using ls bytesWords_facts(2) [of sig] by (intro takes_buffer) simp
    then show ?thesis using ls by (simp add: takes_def)
  qed
  have r: "wc_readUIntBE 1 (?c (7 + length ?f + 103)) = (Inr (int rec), ?c (7 + length ?f + 104))"
  proof -
    have "takes (wc_readUIntBE 1) ?r (int rec)" by (rule takes_number) (use assms(5) in simp_all)
    then show ?thesis using ls by (simp add: takes_def)
  qed
  have p: "wc_readBytes (int (length ?all) - 104) True (?c 0) = (Inr bytes, ?c (7 + length ?f))"
  proof -
    have "takes (wc_readBytes (int (length ?all) - 104) True) (?t @ ?f) bytes"
      using assms(3) ls by (intro takes_bytes) (simp_all add: invoiceWords_def)
    then show ?thesis by (simp add: takes_def)
  qed
  define W where "W = ?all"
  define F where "F = length ?f"
  note atoms = W_def [symmetric] F_def [symmetric]
  have k: "(case find isPayeeNode (filter known_field (inv_fields i)) of Some f \<Rightarrow> return_io (payee_of f)
      | None \<Rightarrow> lift_io (ic_ecdsaRecovery ic (ic_sha256 ic (hrpBytes prefix @ bytes)) sig (int rec))) c = (Inr pub, c)" for c :: word_cursor
    using find_payee [OF ok(4)] h(1,2) by (auto simp: io_simps split: option.splits)
  have all: "invoiceWords utf8 log32 i @ ?s @ ?r = W" by (simp add: W_def invoiceWords_def)
  show ?thesis using t f s r p k h(1,3) unfolding atoms all
    by (simp add: decodeWords_def io_simps newWordCursor_def Let_def)
qed

text \<open>
  C34: An invoice that is encoded and signed is decoded as the same invoice: the network, the amount, the time and all fields in
  their order, those of a foreign type or an unusual length among the unknown ones; the payee's key is the signer's.
\<close>

theorem invoice_roundtrip:
  assumes "log32_ok log32" "invoice_signer ic privKey pub" "invoice_ok utf8 utf8Text pub i"
  shows "\<exists>s j. invoice_encode ic utf8 log32 i privKey = Inr s \<and> invoice_decode ic utf8Text s = Inr j
    \<and> inv_network j = inv_network i \<and> inv_timestamp j = inv_timestamp i \<and> inv_value j = inv_value i
    \<and> inv_fields j = filter known_field (inv_fields i) \<and> inv_unknownFields j = filter (\<lambda>f. \<not> known_field f) (inv_fields i)
    \<and> inv_pubkey j = Some pub"
proof -
  let ?w = "invoiceWords utf8 log32 i"
  obtain prefix where p: "invoicePrefix i = Inr prefix" "parsePrefix prefix = Inr (inv_network i, inv_value i)" "hrp_ok prefix"
    using invoicePrefix_eq [of i] assms(3) by (auto simp: invoice_ok_def)
  obtain bytes where b: "wordsToBuffer (map unat ?w) True = Inr bytes" using padded by blast
  define h where "h = ic_sha256 ic (hrpBytes prefix @ bytes)"
  obtain sig rec where s: "ic_ecdsaSign ic h privKey = Inr (sig, rec)" "length sig = 64" "rec < 4"
    "ic_ecdsaRecovery ic h sig (int rec) = Inr pub" "ic_ecdsaVerify ic pub h sig = Inr True" using assms(2) unfolding invoice_signer_def by blast
  let ?all = "?w @ bytesWords sig @ uintWords 1 (word_of_int (int rec))"
  have e: "invoice_encode ic utf8 log32 i privKey = Inr (bech32_encode prefix (map unat ?all) Bech32)"
    by (rule invoice_encode_eq [OF assms(1,3) p(1) b]) (use s(1) in \<open>simp add: h_def\<close>)
  have "\<forall>w\<in>set (map unat ?all). w < 32" using words_less [of ?all] by simp
  then have d: "bech32_decode (bech32_encode prefix (map unat ?all) Bech32) =
      Inr \<lparr>b32_hrp = prefix, b32_words = map unat ?all, b32_version = Bech32\<rparr>" by (rule bech32_roundtrip_lemma [OF p(3)])
  have m: "map of_nat (map unat ?all) = ?all" by (simp add: o_def)
  obtain j where j: "fst (decodeWords ic utf8Text prefix (inv_network i) (inv_value i) (newWordCursor ?all)) = Inr j"
    "inv_network j = inv_network i" "inv_timestamp j = inv_timestamp i" "inv_value j = inv_value i"
    "inv_fields j = filter known_field (inv_fields i)" "inv_unknownFields j = filter (\<lambda>f. \<not> known_field f) (inv_fields i)" "inv_pubkey j = Some pub"
    using invoice_decode_eq [OF assms(1,3) b s(2,3) h_def s(4,5), of "inv_network i" "inv_value i"] by simp
  have "invoice_decode ic utf8Text (bech32_encode prefix (map unat ?all) Bech32) = Inr j"
    unfolding invoice_decode_def d bind_res_simps bech32_result.select_convs p(2) prod.case m by (rule j(1))
  then show ?thesis using e j(2-) by blast
qed

lemma bind_io_Inr: "fst (bind_io m f c) = Inr v \<longleftrightarrow> (\<exists>x c'. m c = (Inr x, c') \<and> fst (f x c') = Inr v)"
  by (auto simp: io_simps split: sum.splits prod.splits)

lemma take_keeps_words: "preserves wc_words (wc_take n)" "preserves wc_words (wc_readUIntBE n)" "preserves wc_words (wc_readBytes n pad)"
proof -
  show t: "preserves wc_words (wc_take n)" for n by (simp add: preserves_def wc_take_def)
  show "preserves wc_words (wc_readUIntBE n)" "preserves wc_words (wc_readBytes n pad)"
    unfolding wc_readUIntBE_def wc_readBytes_def by (intro preserves_intro t)+
qed

lemma readField_keeps_words: "preserves wc_words (readField utf8Text)"
  unfolding readField_def by (intro preserves_intro take_keeps_words)

lemma readFields_keeps_words: "wc_words (snd (readFields utf8Text c)) = wc_words c"
proof (induction utf8Text c rule: readFields.induct)
  case (1 utf8Text c)
  have k: "wc_words c' = wc_words c" if "readField utf8Text c = (r, c')" for r c' by (rule preservesD [OF readField_keeps_words that])
  show ?case
  proof (cases "wordsRemaining c > 104")
    case True
    obtain r c' where r: "readField utf8Text c = (r, c')" by fastforce
    show ?thesis
    proof (cases r)
      case (Inr f)
      then show ?thesis using 1 [OF True r [symmetric]] True r k [OF r] by (auto simp: readFields.simps [of _ c] split: sum.splits prod.splits)
    qed (use True r k [OF r] in \<open>simp add: readFields.simps [of _ c]\<close>)
  qed (simp add: readFields.simps [of _ c])
qed

text \<open>What an accepted sequence of words has been checked for.\<close>

lemma decodeWords_Inr:
  assumes "fst (decodeWords ic utf8Text hrp network v c) = Inr i"
  shows "inv_network i = network \<and> inv_value i = v \<and> inv_usedSigRecovery i = Some (\<exists>f\<in>set (inv_fields i). field_type f = 19)
    \<and> (\<exists>bytes pubkey h sig. wordsToBuffer (map unat (slice 0 (int (length (wc_words c)) - 104) (wc_words c))) True = Inr bytes
      \<and> h = ic_sha256 ic (hrpBytes hrp @ bytes) \<and> inv_hashData i = Some h \<and> inv_pubkey i = Some pubkey
      \<and> map_option (\<lambda>x. sg_r x @ sg_s x) (inv_signature i) = Some sig \<and> ic_ecdsaVerify ic pubkey h sig = Inr True)"
proof -
  let ?h = "\<lambda>bytes. ic_sha256 ic (hrpBytes hrp @ bytes)"
  obtain ts c1 knownFields unknownFields c2 sig c3 flag c4 bytes c5 pubkey where
    r: "wc_readUIntBE 7 c = (Inr ts, c1)" "readFields utf8Text c1 = (Inr (knownFields, unknownFields), c2)"
      "wc_readBytes 103 False c2 = (Inr sig, c3)" "wc_readUIntBE 1 c3 = (Inr flag, c4)"
      "wc_readBytes (int (length (wc_words c4)) - 104) True (c4\<lparr>wc_position := 0\<rparr>) = (Inr bytes, c5)"
    and s: "ic_ecdsaVerify ic pubkey (?h bytes) sig = Inr True"
    and i: "inv_network i = network" "inv_value i = v" "inv_fields i = knownFields" "inv_usedSigRecovery i = Some (find isPayeeNode knownFields \<noteq> None)"
      "inv_hashData i = Some (?h bytes)" "inv_pubkey i = Some pubkey"
      "inv_signature i = Some \<lparr>sg_r = take 32 sig, sg_s = drop 32 sig, sg_recoveryFlag = flag\<rparr>"
    using assms by (auto simp: decodeWords_def bind_io_Inr io_simps Let_def simp del: bind_io_apply split: if_splits)
  have "wc_words c1 = wc_words c" "wc_words c2 = wc_words c1" "wc_words c3 = wc_words c2" "wc_words c4 = wc_words c3"
    using preservesD [OF take_keeps_words(2) r(1)] readFields_keeps_words [of utf8Text c1] r(2)
      preservesD [OF take_keeps_words(3) r(3)] preservesD [OF take_keeps_words(2) r(4)] by simp_all
  then have w: "wc_words c4 = wc_words c" by simp
  have "wordsToBuffer (map unat (slice 0 (int (length (wc_words c)) - 104) (wc_words c))) True = Inr bytes"
    using r(5) w by (auto simp: wc_readBytes_def wc_take_def io_simps split: sum.splits)
  moreover have "find isPayeeNode knownFields \<noteq> None \<longleftrightarrow> (\<exists>f\<in>set knownFields. field_type f = 19)"
    by (auto simp: find_None_iff isPayeeNode_def)
  ultimately show ?thesis using s i by simp
qed

text \<open>
  C35: An invoice is accepted only with a signature of its payee's key on the hash it reports, which covers the prefix and
  every word before the signature.
\<close>

theorem accepted_invoice_signed:
  assumes "invoice_decode ic utf8Text s = Inr i"
  shows "\<exists>b bytes pubkey h sig. bech32_decode s = Inr b \<and> parsePrefix (b32_hrp b) = Inr (inv_network i, inv_value i)
    \<and> wordsToBuffer (map unat (slice 0 (int (length (b32_words b)) - 104) (map of_nat (b32_words b) :: 5 word list))) True = Inr bytes
    \<and> h = ic_sha256 ic (hrpBytes (b32_hrp b) @ bytes) \<and> inv_hashData i = Some h \<and> inv_pubkey i = Some pubkey
    \<and> map_option (\<lambda>x. sg_r x @ sg_s x) (inv_signature i) = Some sig \<and> ic_ecdsaVerify ic pubkey h sig = Inr True"
proof -
  obtain b :: bech32_result and network v where b: "bech32_decode s = Inr b" "parsePrefix (b32_hrp b) = Inr (network, v)"
    "fst (decodeWords ic utf8Text (b32_hrp b) network v (newWordCursor (map of_nat (b32_words b)))) = Inr i"
    using assms by (auto simp: invoice_decode_def bind_res_eq_Inr)
  show ?thesis using decodeWords_Inr [OF b(3)] b(1,2) by (auto simp: newWordCursor_def)
qed

text \<open>
  \<^verbatim>\<open>usedSigRecovery\<close> of a decoded invoice says the opposite of its name: it holds exactly when the invoice has a payee's
  key, so that no key was recovered.
\<close>

theorem usedSigRecovery_inverted:
  assumes "invoice_decode ic utf8Text s = Inr i"
  shows "inv_usedSigRecovery i = Some (\<exists>f\<in>set (inv_fields i). field_type f = 19)"
proof -
  obtain b :: bech32_result and network v where b: "fst (decodeWords ic utf8Text (b32_hrp b) network v (newWordCursor (map of_nat (b32_words b)))) = Inr i"
    using assms by (auto simp: invoice_decode_def bind_res_eq_Inr)
  show ?thesis using decodeWords_Inr [OF b] by blast
qed

text \<open>Times after January 2038 are read as negative ones, although the field has 35 bits.\<close>

lemma timestamp_2038: "sint (wordsValue (uintWords 7 (word_of_int (2 ^ 31)))) = - (2 ^ 31)"
  by code_simp

text \<open>The bech32 addresses of regtest are taken for addresses without bytes, and the invoice cannot be encoded any more.\<close>

lemma regtest_fallback:
  "addFallbackAddress sha256 (''bcrt1'' @ s) i = Inr (i\<lparr>inv_fields := inv_fields i @ [FallbackAddressField None None]\<rparr>)"
  "writeField utf8 log32 (FallbackAddressField None None) c = (Inl TypeError, c)"
  by (simp_all add: addFallbackAddress_def io_simps)

section \<open>An invoice\<close>

definition sampleSigner :: invoice_crypto where
  "sampleSigner = \<lparr>ic_sha256 = (\<lambda>_. replicate 32 0), ic_ecdsaSign = (\<lambda>_ _. Inr (replicate 64 1, 0)),
     ic_ecdsaRecovery = (\<lambda>_ _ _. Inr [2]), ic_ecdsaVerify = (\<lambda>_ _ _. Inr True)\<rparr>"

definition sampleText :: "buffer \<Rightarrow> string" where
  "sampleText = map (\<lambda>b. char_of (unat b))"

definition sampleUtf8 :: "string \<Rightarrow> buffer" where
  "sampleUtf8 = map (\<lambda>c. of_nat (of_char c))"

definition sampleLog :: "nat \<Rightarrow> nat" where
  "sampleLog n = length (filter (\<lambda>k. 32 ^ k \<le> n) [1..<7])"

definition sampleInvoice :: invoice where
  "sampleInvoice = newInvoice\<lparr>inv_network := ''bc'', inv_timestamp := 1496314658, inv_value := Some 2500000000,
     inv_fields := [PaymentHash (replicate 32 7), ShortDesc ''coffee'', Expiry 60, OtherField 2 [1, 2], HashDesc [9]]\<rparr>"

lemma sampleLog_ok: "log32_ok sampleLog"
proof (unfold log32_ok_def, intro allI impI)
  fix n :: nat assume "0 < n \<and> n < 2 ^ 31"
  then consider "0 < n" "n < 32" | "32 \<le> n" "n < 1024" | "1024 \<le> n" "n < 32768" | "32768 \<le> n" "n < 1048576"
    | "1048576 \<le> n" "n < 33554432" | "33554432 \<le> n" "n < 1073741824" | "1073741824 \<le> n" "n < 34359738368" by fastforce
  then show "32 ^ sampleLog n \<le> n \<and> n < 32 ^ (sampleLog n + 1)" by cases (simp_all add: sampleLog_def upt_rec)
qed

lemma sampleSigner_ok: "invoice_signer sampleSigner [1] [2]"
  by (simp add: invoice_signer_def sampleSigner_def)

lemma length_sampleUtf8: "length (sampleUtf8 s) = length s"
  by (simp add: sampleUtf8_def)

lemma sampleInvoice_facts:
  "inv_value sampleInvoice = Some 2500000000"
  "filter known_field (inv_fields sampleInvoice) = [PaymentHash (replicate 32 7), ShortDesc ''coffee'', Expiry 60]"
  "filter (\<lambda>f. \<not> known_field f) (inv_fields sampleInvoice) = [OtherField 2 [1, 2], HashDesc [9]]"
  by (simp_all add: sampleInvoice_def newInvoice_def known_field_def)

lemma sampleInvoice_ok: "invoice_ok sampleUtf8 sampleText [2] sampleInvoice"
proof -
  have "sampleText (sampleUtf8 s) = s" for s by (simp add: sampleText_def sampleUtf8_def o_def unat_of_nat)
  then show ?thesis
    by (auto simp: invoice_ok_def sampleInvoice_def newInvoice_def isValidNetwork_def field_ok_def length_sampleUtf8)
qed

lemma invoice_roundtrip_witness:
  "\<exists>s j. invoice_encode sampleSigner sampleUtf8 sampleLog sampleInvoice [1] = Inr s \<and> invoice_decode sampleSigner sampleText s = Inr j
    \<and> inv_value j = Some 2500000000 \<and> inv_fields j = [PaymentHash (replicate 32 7), ShortDesc ''coffee'', Expiry 60]
    \<and> inv_unknownFields j = [OtherField 2 [1, 2], HashDesc [9]]"
  using invoice_roundtrip [OF sampleLog_ok sampleSigner_ok sampleInvoice_ok] unfolding sampleInvoice_facts by blast

lemma sample_accepted: "\<exists>s j. invoice_decode sampleSigner sampleText s = Inr j"
proof -
  have "invoice_signer sampleSigner [1] [2]" "log32_ok sampleLog" by (rule sampleSigner_ok, rule sampleLog_ok)
  obtain prefix where p: "parsePrefix prefix = Inr (''bc'', None)" "hrp_ok prefix"
    using parsePrefix_none [of "''bc''"] hrp_ok_letters [of "''lnbc''"] by (auto simp: isValidNetwork_def isLower_def)
  let ?i = "newInvoice\<lparr>inv_network := ''bc''\<rparr>"
  have ok: "invoice_ok sampleUtf8 sampleText [2] ?i" by (simp add: invoice_ok_def newInvoice_def isValidNetwork_def)
  let ?all = "invoiceWords sampleUtf8 sampleLog ?i @ bytesWords (replicate 64 1) @ uintWords 1 (word_of_int (int 0))"
  obtain bytes where b: "wordsToBuffer (map unat (invoiceWords sampleUtf8 sampleLog ?i)) True = Inr bytes" using padded by blast
  have "\<exists>j. fst (decodeWords sampleSigner sampleText prefix ''bc'' None (newWordCursor ?all)) = Inr j"
    using invoice_decode_eq [OF sampleLog_ok ok b, of "replicate 64 1" 0 _ sampleSigner prefix "''bc''" None] by (simp add: sampleSigner_def)
  then obtain j where j: "fst (decodeWords sampleSigner sampleText prefix ''bc'' None (newWordCursor ?all)) = Inr j" by blast
  have w: "\<forall>w\<in>set (map unat ?all). w < 32" using words_less [of ?all] by simp
  have m: "map of_nat (map unat ?all) = ?all" by (simp add: o_def)
  have "invoice_decode sampleSigner sampleText (bech32_encode prefix (map unat ?all) Bech32) = Inr j"
    unfolding invoice_decode_def bech32_roundtrip_lemma [OF p(2) w] bind_res_simps bech32_result.select_convs p(1) prod.case m by (rule j)
  then show ?thesis by blast
qed

lemma accepted_invoice_signed_witness:
  "\<exists>s i pubkey. invoice_decode sampleSigner sampleText s = Inr i \<and> inv_pubkey i = Some pubkey"
proof -
  obtain s j where "invoice_decode sampleSigner sampleText s = Inr j" using sample_accepted by blast
  then show ?thesis using accepted_invoice_signed [of sampleSigner sampleText s j] by blast
qed

lemma usedSigRecovery_inverted_witness:
  "\<exists>s i. invoice_decode sampleSigner sampleText s = Inr i \<and> inv_usedSigRecovery i = Some (\<exists>f\<in>set (inv_fields i). field_type f = 19)"
proof -
  obtain s j where "invoice_decode sampleSigner sampleText s = Inr j" using sample_accepted by blast
  then show ?thesis using usedSigRecovery_inverted [of sampleSigner sampleText s j] by blast
qed

end
