(* ===== verification/Spec2Isabelle.thy ===== *)
theory Spec2Isabelle
  imports StreamReader Commitment LnScripts TxBuilder Block Address ChannelPromises NoiseSocket Crc32c GossipEarly GossipRelay GossipSyncFacts PeerFacts EventQueueFacts HdKeys Mnemonic InvoiceFacts
begin

text \<open>
  A model of node-lightning, the TypeScript libraries under \<^verbatim>\<open>src/packages\<close> for Bitcoin and the
  Lightning Network, with the theorems that make its core correct.  The theories follow the packages:
  each models some files operation by operation, and states what these operations promise.

  \<^bold>\<open>The program.\<close>  \<^verbatim>\<open>bufio\<close> reads and writes buffers; \<^verbatim>\<open>bitcoin\<close> has the values, scripts, transactions,
  blocks and text encodings of Bitcoin on top of it; \<^verbatim>\<open>crypto\<close> and \<^verbatim>\<open>checksum\<close> hash; \<^verbatim>\<open>noise\<close> is the
  encrypted transport; \<^verbatim>\<open>lightning\<close> has the wire messages, the peer, the gossip of the network, the scripts,
  transactions and secrets of a channel, and the state machine that opens one; \<^verbatim>\<open>invoice\<close> has payment requests.  A message travels from a noise socket through the
  message factory to the channel manager; the manager moves the channel through its states, and what it
  does on the way (messages, signatures, the broadcast of the funding transaction) is built with the
  messages, scripts and transactions of the other parts.

  \<^bold>\<open>Conventions.\<close>  A buffer is a list of bytes (\<^verbatim>\<open>8 word\<close>).  JavaScript numbers that the code uses as
  integers are \<^verbatim>\<open>nat\<close> or \<^verbatim>\<open>int\<close> with the range checks of the Node functions they are given to; where the
  code works bitwise on 32-bit numbers they are words, and a \<^verbatim>\<open>bigint\<close> is unbounded.  Exceptions are values: \<^verbatim>\<open>exn\<close> names the
  error classes, \<^verbatim>\<open>'a res\<close> is an exception or a result, and \<^verbatim>\<open>('s, 'a) io\<close> is a computation over a state
  \<^verbatim>\<open>'s\<close>, which keeps what an operation did before it threw.  Asynchronous handlers are atomic: the model
  takes the effects of a handler in the order of its \<^verbatim>\<open>await\<close>s, and does not interleave two handlers of
  the same object.  Hash functions, the elliptic curve, ciphers, the wallet and the storage are code
  outside \<^verbatim>\<open>src\<close>, hence parameters: a record of functions, whose documented behaviour a theorem assumes
  by name or as a premise where it needs it (\<^verbatim>\<open>noise_laws\<close>, \<^verbatim>\<open>invoice_signer\<close>, the laws of tweaked keys), with a
  concrete instance in the witness.

  \<^bold>\<open>Foundations.\<close>
  \<^verbatim>\<open>Prelude\<close>, \<^verbatim>\<open>Bytes\<close>, \<^verbatim>\<open>Chars\<close>: exceptions, the state monad, the predicates \<^verbatim>\<open>reads\<close>, \<^verbatim>\<open>writes\<close> and
  \<^verbatim>\<open>preserves\<close> with their composition rules, numbers as byte strings, digits as characters.
  \<^verbatim>\<open>ByteSource\<close> and \<^verbatim>\<open>ByteSink\<close> are the interfaces of everything that parses and serialises: locales whose
  laws \<^verbatim>\<open>BufferReader\<close>, \<^verbatim>\<open>StreamReader\<close> and both modes of \<^verbatim>\<open>BufferWriter\<close> are shown to keep by
  interpretation (\<^verbatim>\<open>bufio/lib\<close>).
  \<^verbatim>\<open>BufferReader\<close>, \<^verbatim>\<open>BufferWriter\<close>, \<^verbatim>\<open>StreamReader\<close>: every operation of these files; the lemmas are round
  trips, and rejection of non-canonical lengths.

  \<^bold>\<open>Bitcoin\<close> (\<^verbatim>\<open>bitcoin/lib\<close>).
  \<^verbatim>\<open>BtcTypes\<close>: amounts, lock times, sequences, targets, hashes, outpoints.
  \<^verbatim>\<open>Stack\<close>, \<^verbatim>\<open>Script\<close>: script numbers, op codes, building, serialising and parsing scripts.
  \<^verbatim>\<open>Tx\<close>, \<^verbatim>\<open>TxBuilder\<close>, \<^verbatim>\<open>Block\<close>: transactions with and without witnesses, signature hashes with the caches
  of the builder against BIP 143, the two sorters, headers and blocks.
  \<^verbatim>\<open>Base58\<close>, \<^verbatim>\<open>Bech32\<close>, \<^verbatim>\<open>Address\<close>: text encodings with their checksums, and the recognition of addresses.
  \<^verbatim>\<open>HdKeys\<close>: private and public keys, hierarchical derivation and the extended key codec; public and private
  derivation agree.
  \<^verbatim>\<open>WordList\<close>, \<^verbatim>\<open>Mnemonic\<close>: the English word list and the phrases for entropies, which are read exactly as written.

  \<^bold>\<open>Invoices\<close> (\<^verbatim>\<open>invoice/lib\<close>).
  \<^verbatim>\<open>Invoice\<close>, \<^verbatim>\<open>InvoiceFacts\<close>: the cursor over words of five bits, amounts, encoder, decoder and fields; the round
  trip of a whole invoice, and the signature that an accepted one carries.

  \<^bold>\<open>Lightning: messages\<close> (\<^verbatim>\<open>lightning/lib/messages\<close>, \<^verbatim>\<open>lightning/lib/serialize\<close>).
  \<^verbatim>\<open>Tlv\<close>, \<^verbatim>\<open>Codec\<close>, \<^verbatim>\<open>PeerMessages\<close>, \<^verbatim>\<open>GossipMessages\<close>, \<^verbatim>\<open>GossipQueries\<close>, \<^verbatim>\<open>Messages\<close>: the type-length-value
  reader, every message class with its serializer and parser, and the factory (\<^verbatim>\<open>wire_roundtrip\<close> is about all of them).
  \<^verbatim>\<open>LnDomain\<close>, \<^verbatim>\<open>Base32\<close>, \<^verbatim>\<open>Addresses\<close>, \<^verbatim>\<open>Crc32c\<close>: identifiers, bit fields, host addresses, the checksum.

  \<^bold>\<open>Lightning: channels\<close> (\<^verbatim>\<open>lightning/lib/channels\<close>).
  \<^verbatim>\<open>Commitment\<close>: per-commitment secrets and the compact store of received secrets.
  \<^verbatim>\<open>LnScripts\<close>, \<^verbatim>\<open>ChannelTx\<close>, \<^verbatim>\<open>ChannelTxFacts\<close>: scripts and transactions of a channel.
  \<^verbatim>\<open>Channel\<close>, \<^verbatim>\<open>ChannelHelpers\<close>, \<^verbatim>\<open>StateMachine\<close>, \<^verbatim>\<open>ChannelManager\<close>: the state of a channel, the validations and
  constructions of \<^verbatim>\<open>Helpers.ts\<close>, the hierarchical state machine, the transitions and the manager.
  \<^verbatim>\<open>ChannelFacts\<close>, \<^verbatim>\<open>ChannelSafety\<close>, \<^verbatim>\<open>ChannelPromises\<close>: the invariant of a channel in every state that a
  sequence of events reaches, the refinement of the hierarchical machine by a flat table, and the promises
  of the channel and of the manager.

  \<^bold>\<open>Lightning: gossip\<close> (\<^verbatim>\<open>lightning/lib/gossip\<close>).
  \<^verbatim>\<open>GossipStore\<close>, \<^verbatim>\<open>GossipFilter\<close>, \<^verbatim>\<open>GossipFilterFacts\<close>, \<^verbatim>\<open>GossipEarly\<close>: the interface of the stores as a locale with the
  memory store as its instance, the validation of announcements and updates, what it accepts as inductive rules, and
  that messages which come before the announcement of their channel wait for it.
  \<^verbatim>\<open>GossipRelay\<close>: the queue of messages and the peers' positions in it, and what a peer gets.
  \<^verbatim>\<open>GossipSync\<close>, \<^verbatim>\<open>GossipSyncFacts\<close>: the two queries, the synchronisation and its completion.

  \<^bold>\<open>Lightning: peers\<close> (\<^verbatim>\<open>lightning/lib\<close>).
  \<^verbatim>\<open>Peer\<close>, \<^verbatim>\<open>PeerFacts\<close>: the peer with its init handshake, pings and reconnection, and what holds in all its states.
  \<^verbatim>\<open>EventQueue\<close>, \<^verbatim>\<open>EventQueueFacts\<close>: the queue that reads the peers in turn and the muxer behind it; one readable
  event may stand for many messages.

  \<^bold>\<open>Transport\<close> (\<^verbatim>\<open>noise/lib\<close>).
  \<^verbatim>\<open>Noise\<close>, \<^verbatim>\<open>NoiseFacts\<close>, \<^verbatim>\<open>NoiseSocket\<close>: the handshake and message encryption, that both sides agree, and the
  socket that frames the byte stream.

  \<^bold>\<open>Loops and fuel.\<close>  Most loops are structural or have a measure: the data loop of the noise socket takes
  bytes in every turn, the readers of records and transactions consume input.  Fuel appears in
  \<^verbatim>\<open>readWhile\<close>, \<^verbatim>\<open>readAll\<close> and \<^verbatim>\<open>readAddresses\<close>, which get one unit more than there are bytes and use a byte per
  turn; and in \<^verbatim>\<open>transitionLoop\<close>, which gets the number of states of the machine, since every turn enters a state
  on the way to its first child (the transitions modelled here have no function that runs on entry and
  moves on, so it ends in the first turn).

  \<^bold>\<open>Not modelled.\<close>  Input and output and what only wraps it: TCP sockets and servers, the \<^verbatim>\<open>bitcoind\<close> client, the
  RocksDB store, the logger, DNS look-ups.  Wrappers of the elliptic-curve library (\<^verbatim>\<open>secp256k1\<close>, parts of \<^verbatim>\<open>crypto\<close>)
  are parameters.  Cloning, \<^verbatim>\<open>toJSON\<close>, \<^verbatim>\<open>toHex\<close> and printing helpers have no contract of
  their own.  The gossip manager only wires its parts together
  and awaits them; its promises are those of the filter, the relay and the synchronisation.  The amount of an
  invoice in bitcoin is a floating-point number, and the numbers of a derivation path are read by JavaScript's \<^verbatim>\<open>Number\<close>.
  Left out, though nothing in them resists a model: onion packets, the network graph, the linked list and the
  asynchronous queues (the queue of events is modelled), and the watchers of blocks and transactions, which
  poll an RPC server.
\<close>

end
